(* ===== verification/Prelude.thy ===== *)
theory Prelude
  imports Main "HOL-Library.Multiset"
begin

text \<open>
  The shared vocabulary of the development: TypeScript results and errors, the array operations
  of the JavaScript standard library that the sources use (\<open>findIndex\<close>, \<open>find\<close>, \<open>splice\<close>,
  \<open>slice\<close>, \<open>indexOf\<close>), insertion-ordered records (\<open>Record<string, T>\<close> and \<open>Map\<close>), and the generic lemmas
  about them.  Each component theory adds its unfolding rules to one of the named collections
  below, so that component proofs are calls of the simplifier with the right collection.
\<close>

named_theorems bounds_simps \<open>unfolding rules of the bounds component\<close>
named_theorems time_simps \<open>unfolding rules of the time types\<close>
named_theorems series_simps \<open>unfolding rules of the series component\<close>
named_theorems cache_simps \<open>unfolding rules of the telemetry caches\<close>
named_theorems drift_simps \<open>unfolding rules of the window reducer\<close>
named_theorems table_simps \<open>unfolding rules of the table reducer\<close>

section \<open>Results\<close>

text \<open>A function that may throw returns \<open>Inl message\<close> when it throws and \<open>Inr value\<close> otherwise.\<close>

type_synonym 'a result = "string + 'a"

abbreviation throw :: "string \<Rightarrow> 'a result" where
  "throw e \<equiv> Inl e"

abbreviation return :: "'a \<Rightarrow> 'a result" where
  "return x \<equiv> Inr x"

definition bind_result :: "'a result \<Rightarrow> ('a \<Rightarrow> 'b result) \<Rightarrow> 'b result" where
  "bind_result r f = (case r of Inl e \<Rightarrow> Inl e | Inr x \<Rightarrow> f x)"

lemma bind_result_simps [simp]:
  "bind_result (Inl e) f = Inl e"
  "bind_result (Inr x) f = f x"
  by (simp_all add: bind_result_def)

lemma bind_result_eq_Inr:
  "bind_result r f = Inr y \<longleftrightarrow> (\<exists>x. r = Inr x \<and> f x = Inr y)"
  by (cases r) auto

fun fold_result :: "('a \<Rightarrow> 's \<Rightarrow> 's result) \<Rightarrow> 'a list \<Rightarrow> 's \<Rightarrow> 's result" where
  "fold_result f [] s = Inr s"
| "fold_result f (x # xs) s = bind_result (f x s) (fold_result f xs)"

lemma fold_result_append: "fold_result f (xs @ ys) s = bind_result (fold_result f xs s) (fold_result f ys)"
  by (induction xs arbitrary: s) (auto simp: bind_result_def split: sum.splits)

lemma fold_result_invariant:
  assumes "fold_result f xs s = Inr t" and "P s"
    and "\<And>x s t. x \<in> set xs \<Longrightarrow> P s \<Longrightarrow> f x s = Inr t \<Longrightarrow> P t"
  shows "P t"
  using assms
proof (induction xs arbitrary: s)
  case Nil
  then show ?case by simp
next
  case (Cons x xs)
  from Cons.prems(1) obtain u where u: "f x s = Inr u" "fold_result f xs u = Inr t"
    by (auto simp: bind_result_eq_Inr)
  from Cons.prems(3) [of x s u] Cons.prems(2) u(1) have "P u" by simp
  with u(2) show ?case
    using Cons.IH Cons.prems(3) by (meson list.set_intros(2))
qed

section \<open>Arrays\<close>

text \<open>\<open>xs.findIndex(p)\<close>; the result \<open>-1\<close> is \<open>None\<close>.\<close>

fun find_index :: "('a \<Rightarrow> bool) \<Rightarrow> 'a list \<Rightarrow> nat option" where
  "find_index p [] = None"
| "find_index p (x # xs) = (if p x then Some 0 else map_option Suc (find_index p xs))"

lemma find_index_Some_iff:
  "find_index p xs = Some i \<longleftrightarrow> i < length xs \<and> p (xs ! i) \<and> (\<forall>j<i. \<not> p (xs ! j))"
proof (induction xs arbitrary: i)
  case Nil
  then show ?case by simp
next
  case (Cons x xs)
  show ?case
    by (cases i) (auto simp: Cons.IH All_less_Suc2)
qed

lemma find_index_None_iff: "find_index p xs = None \<longleftrightarrow> (\<forall>x\<in>set xs. \<not> p x)"
  by (induction xs) auto

lemma find_index_takeWhile:
  "find_index p xs =
     (let n = length (takeWhile (\<lambda>x. \<not> p x) xs) in if n < length xs then Some n else None)"
  by (induction xs) (auto simp: Let_def)

lemma find_index_skip:
  assumes "\<forall>a\<in>set A. \<not> p a"
  shows "find_index p (A @ R) = map_option (\<lambda>i. length A + i) (find_index p R)"
  using assms by (induction A; cases "find_index p R") auto

text \<open>
  \<open>xs.splice(start, deleteCount, ...items)\<close> for a start that is not negative, as the array it leaves.
  A start past the end appends, and a deleteCount that is not positive deletes nothing.
\<close>

definition splice_at :: "nat \<Rightarrow> int \<Rightarrow> 'a list \<Rightarrow> 'a list \<Rightarrow> 'a list" where
  "splice_at start deleteCount items xs = take start xs @ items @ drop (start + nat deleteCount) xs"

lemma splice_at_decomp:
  assumes "length A = i" and "length B = nat n"
  shows "splice_at i n ys (A @ B @ C) = A @ ys @ C"
  using assms by (simp add: splice_at_def)

lemma length_splice_insert: "length (splice_at i 0 ys xs) = length xs + length ys"
  by (simp add: splice_at_def)

lemma set_splice_insert: "set (splice_at i 0 ys xs) = set xs \<union> set ys"
proof -
  have "set xs = set (take i xs) \<union> set (drop i xs)"
    by (metis append_take_drop_id set_append)
  then show ?thesis by (auto simp: splice_at_def)
qed

lemma mset_splice_insert: "mset (splice_at i 0 ys xs) = mset xs + mset ys"
proof -
  have "mset (take i xs) + mset (drop i xs) = mset xs"
    by (metis append_take_drop_id mset_append)
  then show ?thesis by (simp add: splice_at_def ac_simps)
qed

text \<open>
  \<open>xs.slice(start, end)\<close> and \<open>xs.subarray(start, end)\<close>: a negative index counts from the end,
  and every index is clamped to the array.
\<close>

definition rel_index :: "nat \<Rightarrow> int \<Rightarrow> nat" where
  "rel_index len i = (if i < 0 then nat (int len + i) else min (nat i) len)"

definition js_slice :: "int \<Rightarrow> int \<Rightarrow> 'a list \<Rightarrow> 'a list" where
  "js_slice start stop xs =
     (let s = rel_index (length xs) start; e = rel_index (length xs) stop
      in take (e - s) (drop s xs))"

lemma js_slice_nonneg:
  assumes "0 \<le> s" and "s \<le> e" and "e \<le> int (length xs)"
  shows "js_slice s e xs = take (nat (e - s)) (drop (nat s) xs)"
proof -
  have "nat e - nat s = nat (e - s)" using assms by (simp add: nat_diff_distrib)
  moreover have "nat e \<le> length xs" and "nat s \<le> length xs" using assms by linarith+
  ultimately show ?thesis
    using assms by (simp add: js_slice_def rel_index_def Let_def min_def)
qed

lemma length_js_slice_le: "length (js_slice s e xs) \<le> length xs"
  by (simp add: js_slice_def Let_def)

lemma set_js_slice: "set (js_slice s e xs) \<subseteq> set xs"
  by (auto simp: js_slice_def Let_def dest: in_set_takeD in_set_dropD)

text \<open>\<open>ys.find(p)\<close> is \<open>List.find\<close>; \<open>xs[i]\<close> out of range is \<open>undefined\<close>, here \<open>None\<close>.\<close>

definition nth_opt :: "'a list \<Rightarrow> int \<Rightarrow> 'a option" where
  "nth_opt xs i = (if 0 \<le> i \<and> i < int (length xs) then Some (xs ! nat i) else None)"

lemma nth_opt_nat [simp]: "nth_opt xs (int i) = (if i < length xs then Some (xs ! i) else None)"
  by (simp add: nth_opt_def)

section \<open>Records as insertion-ordered association lists\<close>

text \<open>
  \<open>Record<string, T>\<close> and \<open>Map\<close> keep their keys in insertion order, which \<open>Object.values\<close> and
  \<open>Object.entries\<close> expose.  They are association lists with distinct keys; setting a key that
  exists keeps its position.
\<close>

type_synonym ('k, 'v) rec = "('k \<times> 'v) list"

fun rec_get :: "('k, 'v) rec \<Rightarrow> 'k \<Rightarrow> 'v option" where
  "rec_get [] k = None"
| "rec_get ((k', v) # r) k = (if k' = k then Some v else rec_get r k)"

fun rec_set :: "'k \<Rightarrow> 'v \<Rightarrow> ('k, 'v) rec \<Rightarrow> ('k, 'v) rec" where
  "rec_set k v [] = [(k, v)]"
| "rec_set k v ((k', v') # r) = (if k' = k then (k, v) # r else (k', v') # rec_set k v r)"

definition rec_delete :: "'k \<Rightarrow> ('k, 'v) rec \<Rightarrow> ('k, 'v) rec" where
  "rec_delete k r = filter (\<lambda>(k', _). k' \<noteq> k) r"

definition rec_keys :: "('k, 'v) rec \<Rightarrow> 'k list" where
  "rec_keys r = map fst r"

definition rec_has :: "('k, 'v) rec \<Rightarrow> 'k \<Rightarrow> bool" where
  "rec_has r k \<longleftrightarrow> rec_get r k \<noteq> None"

definition rec_wf :: "('k, 'v) rec \<Rightarrow> bool" where
  "rec_wf r \<longleftrightarrow> distinct (rec_keys r)"

lemma rec_get_set [simp]: "rec_get (rec_set k v r) k' = (if k' = k then Some v else rec_get r k')"
  by (induction k v r rule: rec_set.induct) auto

lemma rec_get_delete [simp]: "rec_get (rec_delete k r) k' = (if k' = k then None else rec_get r k')"
  by (induction r) (auto simp: rec_delete_def)

lemma rec_get_keys: "rec_get r k \<noteq> None \<longleftrightarrow> k \<in> set (rec_keys r)"
  by (induction r) (auto simp: rec_keys_def)

lemma set_rec_keys_set [simp]: "set (rec_keys (rec_set k v r)) = insert k (set (rec_keys r))"
  by (induction k v r rule: rec_set.induct) (auto simp: rec_keys_def)

lemma rec_wf_set [simp]: "rec_wf r \<Longrightarrow> rec_wf (rec_set k v r)"
proof (induction k v r rule: rec_set.induct)
  case (2 k v k' v' r)
  have "fst ` set (rec_set k v r) = insert k (fst ` set r)"
    using set_rec_keys_set [of k v r] by (simp add: rec_keys_def)
  with 2 show ?case by (auto simp: rec_wf_def rec_keys_def)
qed (simp add: rec_wf_def rec_keys_def)

lemma rec_wf_delete [simp]: "rec_wf r \<Longrightarrow> rec_wf (rec_delete k r)"
  by (induction r) (auto simp: rec_wf_def rec_keys_def rec_delete_def)

lemma rec_wf_Nil [simp]: "rec_wf []"
  by (simp add: rec_wf_def rec_keys_def)

lemma rec_get_in_set: "rec_get r k = Some v \<Longrightarrow> (k, v) \<in> set r"
  by (induction r) (auto split: if_splits)

lemma rec_get_wf_iff: "rec_wf r \<Longrightarrow> rec_get r k = Some v \<longleftrightarrow> (k, v) \<in> set r"
  by (induction r) (auto simp: rec_wf_def rec_keys_def rev_image_eqI split: if_splits)

text \<open>\<open>{...a, ...b}\<close>.\<close>

definition spread :: "('k, 'v) rec \<Rightarrow> ('k, 'v) rec \<Rightarrow> ('k, 'v) rec" where
  "spread a b = foldl (\<lambda>m (k, v). rec_set k v m) a b"

lemma rec_get_delete_all: "rec_get (foldl (\<lambda>m k. rec_delete k m) m ks) x = (if x \<in> set ks then None else rec_get m x)"
  by (induction ks arbitrary: m) auto

section \<open>Lists\<close>

lemma sorted_wrt_append3:
  "sorted_wrt P (A @ B @ C) \<longleftrightarrow>
     sorted_wrt P A \<and> sorted_wrt P B \<and> sorted_wrt P C \<and>
     (\<forall>a\<in>set A. \<forall>b\<in>set B. P a b) \<and> (\<forall>a\<in>set A. \<forall>c\<in>set C. P a c) \<and>
     (\<forall>b\<in>set B. \<forall>c\<in>set C. P b c)"
  by (auto simp: sorted_wrt_append)

lemma takeWhile_split:
  obtains A B where "xs = A @ B" and "takeWhile p xs = A" and "\<forall>a\<in>set A. p a"
    and "B = [] \<or> \<not> p (hd B)"
proof -
  have "xs = takeWhile p xs @ dropWhile p xs" by simp
  moreover have "\<forall>a\<in>set (takeWhile p xs). p a" by (auto dest: set_takeWhileD)
  moreover have "dropWhile p xs = [] \<or> \<not> p (hd (dropWhile p xs))"
    using hd_dropWhile [of p xs] by blast
  ultimately show ?thesis using that by blast
qed

text \<open>\<open>unique\<close> keeps the first of equal elements, as a set does that is made from an array.\<close>

definition unique :: "'a list \<Rightarrow> 'a list" where
  "unique xs = rev (remdups (rev xs))"

lemma set_unique: "set (unique xs) = set xs" "distinct (unique xs)"
  by (simp_all add: unique_def)

end
