(* ===== verification/Numeric.thy ===== *)
theory Numeric
  imports Prelude "HOL-Library.Signed_Division" Complex_Main
begin

text \<open>
  Numbers of the language and the component \<open>x/ts/src/math/math.ts\<close>.  A \<open>bigint\<close> is an \<open>int\<close>; a
  finite \<open>number\<close> is a \<open>rat\<close> whose arithmetic is exact, and \<open>Number(b)\<close> on a \<open>bigint\<close> rounds to the
  nearest double, ties to even, as the language does: this is where the sources lose precision.
  \<open>BigInt(n)\<close> on a number that is not an integer throws.
\<close>

section \<open>Conversions\<close>

datatype numeric = Num rat | Big int

text \<open>Number of bits of a natural number.\<close>

fun bit_length :: "nat \<Rightarrow> nat" where
  "bit_length n = (if n = 0 then 0 else Suc (bit_length (n div 2)))"

declare bit_length.simps [simp del]

text \<open>Division by a power of two, rounded to the nearest integer, ties to even.\<close>

definition round_half_even :: "nat \<Rightarrow> nat \<Rightarrow> nat" where
  "round_half_even n k =
     (let q = n div 2 ^ k; r = n mod 2 ^ k
      in if 2 * r < 2 ^ k then q
         else if 2 * r > 2 ^ k then Suc q
         else if even q then q else Suc q)"

text \<open>\<open>Number(b)\<close> for a bigint in the range of finite doubles, as an integer.\<close>

definition bigint_to_number :: "int \<Rightarrow> int" where
  "bigint_to_number b =
     (let n = nat \<bar>b\<bar>
      in if n \<le> 2 ^ 53 then b
         else let k = bit_length n - 53 in sgn b * int (round_half_even n k * 2 ^ k))"

lemma bigint_to_number_exact [simp]: "\<bar>b\<bar> \<le> 2 ^ 53 \<Longrightarrow> bigint_to_number b = b"
proof -
  assume "\<bar>b\<bar> \<le> 2 ^ 53"
  then have "nat \<bar>b\<bar> \<le> nat (2 ^ 53)" by (rule nat_mono)
  then show ?thesis by (simp add: bigint_to_number_def nat_power_eq)
qed

definition to_number :: "numeric \<Rightarrow> rat" where
  "to_number n = (case n of Num r \<Rightarrow> r | Big b \<Rightarrow> of_int (bigint_to_number b))"

definition to_bigint :: "numeric \<Rightarrow> int result" where
  "to_bigint n =
     (case n of
        Big b \<Rightarrow> return b
      | Num r \<Rightarrow> if of_int \<lfloor>r\<rfloor> = r then return \<lfloor>r\<rfloor>
                 else throw ''RangeError: not an integer'')"

text \<open>\<open>Math.trunc\<close> on a finite number.\<close>

definition math_trunc :: "rat \<Rightarrow> int" where
  "math_trunc r = (if r < 0 then \<lceil>r\<rceil> else \<lfloor>r\<rfloor>)"

lemma math_trunc_of_int [simp]: "math_trunc (of_int n) = n"
  by (simp add: math_trunc_def)

section \<open>Arithmetic with the second operand coerced to the type of the first\<close>

definition sub :: "numeric \<Rightarrow> numeric \<Rightarrow> numeric result" where
  "sub a b =
     (case a of
        Big x \<Rightarrow> bind_result (to_bigint b) (\<lambda>y. return (Big (x - y)))
      | Num x \<Rightarrow> return (Num (x - to_number b)))"

definition add :: "numeric \<Rightarrow> numeric \<Rightarrow> numeric result" where
  "add a b =
     (case a of
        Big x \<Rightarrow> bind_result (to_bigint b) (\<lambda>y. return (Big (x + y)))
      | Num x \<Rightarrow> return (Num (x + to_number b)))"

definition closeTo :: "rat \<Rightarrow> rat \<Rightarrow> rat \<Rightarrow> bool" where
  "closeTo a b epsilon \<longleftrightarrow> \<bar>a - b\<bar> < epsilon"

definition equal :: "numeric \<Rightarrow> numeric \<Rightarrow> bool result" where
  "equal a b =
     (case a of
        Big x \<Rightarrow> bind_result (to_bigint b) (\<lambda>y. return (x = y))
      | Num x \<Rightarrow> return (x = to_number b))"

definition min_num :: "numeric \<Rightarrow> numeric \<Rightarrow> numeric result" where
  "min_num a b =
     (case a of
        Big x \<Rightarrow> bind_result (to_bigint b) (\<lambda>y. return (if x < y then a else Big y))
      | Num x \<Rightarrow> return (if x < to_number b then a else Num (to_number b)))"

definition max_num :: "numeric \<Rightarrow> numeric \<Rightarrow> numeric result" where
  "max_num a b =
     (case a of
        Big x \<Rightarrow> bind_result (to_bigint b) (\<lambda>y. return (if x > y then a else Big y))
      | Num x \<Rightarrow> return (if x > to_number b then a else Num (to_number b)))"

definition abs_num :: "numeric \<Rightarrow> numeric" where
  "abs_num a =
     (case a of
        Big x \<Rightarrow> Big (if x < 0 then - x else x)
      | Num x \<Rightarrow> Num (if x < 0 then - x else x))"

definition mult :: "numeric \<Rightarrow> numeric \<Rightarrow> numeric result" where
  "mult a b =
     (case a of
        Big x \<Rightarrow> bind_result (to_bigint b) (\<lambda>y. return (Big (x * y)))
      | Num x \<Rightarrow> return (Num (x * to_number b)))"

text \<open>
  Division of bigints truncates and throws on zero; division of numbers by zero gives an infinity
  or NaN, which is outside the model and reported as a throw.
\<close>

definition div_num :: "numeric \<Rightarrow> numeric \<Rightarrow> numeric result" where
  "div_num a b =
     (case a of
        Big x \<Rightarrow> bind_result (to_bigint b)
          (\<lambda>y. if y = 0 then throw ''RangeError: Division by zero'' else return (Big (x sdiv y)))
      | Num x \<Rightarrow> if to_number b = 0 then throw ''not finite'' else return (Num (x / to_number b)))"

section \<open>Facts about the conversions\<close>

lemma bit_length_bounds: "n > 0 \<Longrightarrow> 2 ^ (bit_length n - 1) \<le> n \<and> n < 2 ^ bit_length n"
proof (induction n rule: bit_length.induct)
  case (1 n)
  show ?case
  proof (cases "n div 2 = 0")
    case True
    then have "n = 1" using 1(2) by (simp add: div_eq_0_iff)
    then show ?thesis by (simp add: bit_length.simps)
  next
    case False
    then have "2 ^ (bit_length (n div 2) - 1) \<le> n div 2" "n div 2 < 2 ^ bit_length (n div 2)"
      using 1 by auto
    moreover have "bit_length n = Suc (bit_length (n div 2))" using 1(2) by (simp add: bit_length.simps)
    moreover obtain m where "bit_length (n div 2) = Suc m"
      using False bit_length.simps [of "n div 2"] by (cases "bit_length (n div 2)") (simp_all del: div_eq_0_iff)
    ultimately show ?thesis by auto
  qed
qed

lemma round_half_even_error:
  "\<bar>int (round_half_even n k) * 2 ^ k - int n\<bar> * 2 \<le> 2 ^ k"
proof -
  define q r p where "q = int (n div 2 ^ k)" and "r = int (n mod 2 ^ k)" and "p = (2::int) ^ k"
  have n: "int n = q * p + r"
    using arg_cong [OF div_mult_mod_eq [of n "2 ^ k"], of int]
    by (simp add: q_def r_def p_def del: div_mult_mod_eq)
  have "int (n mod 2 ^ k) < int (2 ^ k)" unfolding of_nat_less_iff by simp
  then have lt: "0 \<le> r" "r < p" by (simp_all add: r_def p_def)
  have "2 * (n mod 2 ^ k) < 2 ^ k \<longleftrightarrow> int (2 * (n mod 2 ^ k)) < int (2 ^ k)"
    "2 * (n mod 2 ^ k) > 2 ^ k \<longleftrightarrow> int (2 * (n mod 2 ^ k)) > int (2 ^ k)"
    unfolding of_nat_less_iff by simp_all
  then have cmp: "2 * (n mod 2 ^ k) < 2 ^ k \<longleftrightarrow> 2 * r < p" "2 * (n mod 2 ^ k) > 2 ^ k \<longleftrightarrow> 2 * r > p"
    by (simp_all add: r_def p_def)
  have "int (round_half_even n k) = q \<and> 2 * r \<le> p \<or> int (round_half_even n k) = q + 1 \<and> 2 * r \<ge> p"
    unfolding round_half_even_def Let_def cmp q_def by auto
  then have "int (round_half_even n k) * p - int n = - r \<and> 2 * r \<le> p \<or>
      int (round_half_even n k) * p - int n = p - r \<and> 2 * r \<ge> p"
    by (auto simp: n algebra_simps)
  then show ?thesis using lt unfolding p_def by auto
qed

text \<open>\<open>Number\<close> on a bigint is within half a unit in the last of 53 places.\<close>

lemma bigint_to_number_error: "\<bar>bigint_to_number b - b\<bar> * 2 ^ 53 \<le> \<bar>b\<bar>"
proof (cases "nat \<bar>b\<bar> \<le> 2 ^ 53")
  case True
  then show ?thesis by (simp add: bigint_to_number_def)
next
  case False
  define n where "n = nat \<bar>b\<bar>"
  have len: "2 ^ (bit_length n - 1) \<le> n" "n < 2 ^ bit_length n"
    using bit_length_bounds [of n] False by (simp_all add: n_def)
  have "53 < bit_length n"
  proof (rule ccontr)
    assume "\<not> 53 < bit_length n"
    then have "(2::nat) ^ bit_length n \<le> 2 ^ 53" by (intro power_increasing) auto
    with len(2) False show False unfolding n_def by linarith
  qed
  then obtain k where k: "bit_length n = k + 53" "k > 0" by (metis add.commute less_imp_add_positive)
  define m where "m = int (round_half_even n k) * 2 ^ k"
  have b: "b = sgn b * int n" "sgn b = 1 \<or> sgn b = - 1" using False by (auto simp: n_def sgn_if)
  have "bigint_to_number b = sgn b * m"
    using False k by (simp add: bigint_to_number_def Let_def n_def [symmetric] m_def)
  then have "\<bar>bigint_to_number b - b\<bar> = \<bar>m - int n\<bar>"
    using b by (auto simp: abs_minus_commute)
  moreover have "\<bar>m - int n\<bar> * 2 \<le> 2 ^ k" unfolding m_def by (rule round_half_even_error)
  moreover have "(2::int) ^ (k + 52) \<le> int n"
  proof -
    have "bit_length n - 1 = k + 52" using k by simp
    with len(1) have "int (2 ^ (k + 52)) \<le> int n" by (simp only: of_nat_le_iff)
    then show ?thesis by simp
  qed
  ultimately show ?thesis by (simp add: power_add n_def)
qed

end
