(* ===== verification/Bounds.thy ===== *)
theory Bounds
  imports Numeric
begin

text \<open>
  The component \<open>x/ts/src/spatial/bounds/bounds.ts\<close>: half-open intervals, the search for the
  place of a value in an ordered array of intervals, the plan for inserting an interval into such
  an array, and walking and measuring distances over the points an array of intervals covers.

  A TypeScript value of type \<open>Bounds<T>\<close> is a record; \<open>T\<close> (\<open>number\<close> or \<open>bigint\<close>) is any ordered
  ring, so that the theorems hold for \<open>bigint\<close> (as \<open>int\<close>) and for \<open>number\<close> in exact arithmetic
  (as \<open>int\<close> or \<open>rat\<close>); infinities, NaN and the rounding
  of arithmetic on numbers are outside the model; the conversions of bigints to numbers in the plans round.  Operations that take
  a \<open>Crude<T>\<close> argument take the strict form here and pass it through \<open>construct_bounds\<close> exactly
  where the source calls \<open>construct\<close> on it; \<open>construct\<close> models the conversion of the other forms.
\<close>

section \<open>Construction\<close>

record 'a bounds =
  lower :: 'a
  upper :: 'a

datatype 'a crude = Value 'a | Array "'a list" | Strict "'a bounds"

definition makeValid :: "'a::linordered_idom bounds \<Rightarrow> 'a bounds" where
  "makeValid a = (if lower a > upper a then \<lparr>lower = upper a, upper = lower a\<rparr> else a)"

definition construct :: "'a::linordered_idom crude \<Rightarrow> 'a option \<Rightarrow> 'a bounds result" where
  "construct low up =
     (case low of
        Value l \<Rightarrow>
          (case up of
             Some u \<Rightarrow> return (makeValid \<lparr>lower = l, upper = u\<rparr>)
           | None \<Rightarrow> return (makeValid \<lparr>lower = 0, upper = l\<rparr>))
      | Array xs \<Rightarrow>
          (case xs of
             [l, u] \<Rightarrow> return (makeValid \<lparr>lower = l, upper = u\<rparr>)
           | _ \<Rightarrow> throw ''bounds: expected array of length 2'')
      | Strict b \<Rightarrow> return (makeValid b))"

text \<open>\<open>construct\<close> on a strict bounds object, which cannot fail.\<close>

definition construct_bounds :: "'a::linordered_idom bounds \<Rightarrow> 'a bounds" where
  "construct_bounds b = makeValid b"

definition ZERO :: "'a::linordered_idom bounds" where
  "ZERO = \<lparr>lower = 0, upper = 0\<rparr>"

definition DECIMAL :: "'a::linordered_idom bounds" where
  "DECIMAL = \<lparr>lower = 0, upper = 1\<rparr>"

definition CLIP :: "'a::linordered_idom bounds" where
  "CLIP = \<lparr>lower = - 1, upper = 1\<rparr>"

definition equals :: "'a::linordered_idom bounds option \<Rightarrow> 'a bounds option \<Rightarrow> bool" where
  "equals a b =
     (case (a, b) of
        (None, None) \<Rightarrow> True
      | (Some x, Some y) \<Rightarrow>
          (let a' = construct_bounds x; b' = construct_bounds y
           in lower a' = lower b' \<and> upper a' = upper b')
      | _ \<Rightarrow> False)"

section \<open>Points and spans\<close>

definition clamp :: "'a::linordered_idom bounds \<Rightarrow> 'a \<Rightarrow> 'a" where
  "clamp b target =
     (let b' = construct_bounds b
      in if target < lower b' then lower b'
         else if target \<ge> upper b' then upper b' - 1
         else target)"

definition contains :: "'a::linordered_idom bounds \<Rightarrow> 'a \<Rightarrow> bool" where
  "contains b target =
     (let b' = construct_bounds b in target \<ge> lower b' \<and> target < upper b')"

definition contains_bounds :: "'a::linordered_idom bounds \<Rightarrow> 'a bounds \<Rightarrow> bool" where
  "contains_bounds b target =
     (let b' = construct_bounds b; t' = construct_bounds target
      in lower t' \<ge> lower b' \<and> upper t' \<le> upper b')"

definition overlapsWith :: "'a::linordered_idom bounds \<Rightarrow> 'a bounds \<Rightarrow> bool" where
  "overlapsWith a b =
     (let a' = construct_bounds a; b' = construct_bounds b
      in if lower a' = lower b' then True
         else if upper b' = lower a' \<or> lower b' = upper a' then False
         else contains a' (upper b') \<or> contains a' (lower b') \<or>
              contains b' (upper a') \<or> contains b' (lower a'))"

definition span :: "'a::linordered_idom bounds \<Rightarrow> 'a" where
  "span a = (let a' = construct_bounds a in upper a' - lower a')"

definition isZero :: "'a::linordered_idom bounds \<Rightarrow> bool" where
  "isZero a = (let a' = construct_bounds a in lower a' = 0 \<and> upper a' = 0)"

definition spanIsZero :: "'a::linordered_idom bounds \<Rightarrow> bool" where
  "spanIsZero a = (span a = 0)"

definition mean :: "'a::linordered_field bounds \<Rightarrow> 'a" where
  "mean a = (let a' = construct_bounds a in (upper a' + lower a') / 2)"

text \<open>
  \<open>max\<close> and \<open>min\<close> of an array of bounds; \<open>None\<close> is the result for the empty array, whose
  components are the infinities that \<open>Math.min()\<close> and \<open>Math.max()\<close> return.
\<close>

fun max_bounds :: "'a::linordered_idom bounds list \<Rightarrow> 'a bounds option" where
  "max_bounds [] = None"
| "max_bounds (b # bs) =
     Some \<lparr>lower = foldl min (lower (construct_bounds b)) (map (lower \<circ> construct_bounds) bs),
           upper = foldl max (upper (construct_bounds b)) (map (upper \<circ> construct_bounds) bs)\<rparr>"

fun min_bounds :: "'a::linordered_idom bounds list \<Rightarrow> 'a bounds option" where
  "min_bounds [] = None"
| "min_bounds (b # bs) =
     Some \<lparr>lower = foldl max (lower (construct_bounds b)) (map (lower \<circ> construct_bounds) bs),
           upper = foldl min (upper (construct_bounds b)) (map (upper \<circ> construct_bounds) bs)\<rparr>"

definition linspace :: "int bounds \<Rightarrow> int list" where
  "linspace b =
     (let b' = construct_bounds b in map (\<lambda>i. lower b' + int i) [0..<nat (span b)])"

section \<open>Finding a place and planning an insertion\<close>

record 'a insert_position =
  index :: nat
  position :: 'a

text \<open>
  The bounds may be numbers or bigints, and the offsets in a plan are converted with \<open>Number\<close>: this is \<open>num\<close>,
  the identity for numbers and the rounding \<open>bigint_to_number\<close> for bigints.
\<close>

definition findInsertPosition ::
    "('a \<Rightarrow> 'a) \<Rightarrow> 'a::linordered_idom bounds list \<Rightarrow> 'a \<Rightarrow> 'a insert_position" where
  "findInsertPosition num bs target =
     (let bs' = map construct_bounds bs
      in case find_index (\<lambda>b. contains b target \<or> target < lower b) bs' of
           None \<Rightarrow> \<lparr>index = length bs, position = 0\<rparr>
         | Some i \<Rightarrow>
             (let b = bs' ! i
              in if contains b target then \<lparr>index = i, position = num (target - lower b)\<rparr>
                 else \<lparr>index = i, position = 0\<rparr>))"

record 'a insertion_plan =
  removeBefore :: 'a
  removeAfter :: 'a
  insertInto :: nat
  deleteInBetween :: int

definition ZERO_PLAN :: "'a::linordered_idom insertion_plan" where
  "ZERO_PLAN = \<lparr>removeBefore = 0, removeAfter = 0, insertInto = 0, deleteInBetween = 0\<rparr>"

definition buildInsertionPlan ::
    "('a \<Rightarrow> 'a) \<Rightarrow> 'a::linordered_idom bounds list \<Rightarrow> 'a bounds \<Rightarrow> 'a insertion_plan option" where
  "buildInsertionPlan num bs value =
     (let bs' = map construct_bounds bs; target = construct_bounds value
      in if length bs' = 0 then Some ZERO_PLAN
         else
           let lo = findInsertPosition num bs' (lower target);
               hi = findInsertPosition num bs' (upper target)
           in if index lo = length bs then Some (ZERO_PLAN\<lparr>insertInto := length bs\<rparr>)
              else if index hi = 0 then Some (ZERO_PLAN\<lparr>removeAfter := position hi\<rparr>)
              else if index lo = index hi then
                (if position lo \<noteq> 0 \<and> position hi \<noteq> 0 then None
                 else Some \<lparr>removeBefore = position lo, removeAfter = position hi,
                            insertInto = index lo, deleteInBetween = 0\<rparr>)
              else
                let delete0 = int (index hi) - int (index lo)
                in if position lo \<noteq> 0
                   then Some \<lparr>removeBefore = num (span (bs' ! index lo)) - position lo,
                              removeAfter = position hi,
                              insertInto = index lo + 1, deleteInBetween = delete0 - 1\<rparr>
                   else Some \<lparr>removeBefore = 0, removeAfter = position hi,
                              insertInto = index lo, deleteInBetween = delete0\<rparr>)"

section \<open>Traversal and distance\<close>

text \<open>
  The \<open>while\<close> loop of \<open>traverse\<close>.  \<open>dir\<close> is fixed by the caller to the sign of the distance and
  \<open>remainingDist\<close> keeps that sign, so the extra exit \<open>sgn remainingDist \<noteq> dir\<close> is never taken
  from a call of \<open>traverse\<close> (\<open>traverse_loop_dir\<close>); it is what makes the function total.  Every
  iteration moves \<open>currentPosition\<close> strictly towards \<open>dir\<close> and onto an end point of some bound
  (or stops), so the number of end points still ahead decreases.
\<close>

definition ahead :: "'a::linordered_idom bounds list \<Rightarrow> 'a \<Rightarrow> 'a \<Rightarrow> nat" where
  "ahead bs dir cur =
     length (filter (\<lambda>e. if dir > 0 then cur < e else e < cur) (map lower bs @ map upper bs))"

definition bound_at :: "'a::linordered_idom bounds list \<Rightarrow> 'a \<Rightarrow> 'a \<Rightarrow> 'a bounds option" where
  "bound_at bs dir cur =
     find (\<lambda>b. if dir > 0 then cur \<ge> lower b \<and> cur < upper b
               else cur > lower b \<and> cur \<le> upper b) bs"

lemma ahead_less:
  assumes "e \<in> lower ` set bs \<union> upper ` set bs"
    and "if dir > 0 then cur < e else e < cur"
  shows "ahead bs dir e < ahead bs dir cur"
proof -
  let ?E = "map lower bs @ map upper bs"
  have e: "e \<in> set ?E" using assms(1) by auto
  have sub: "filter (\<lambda>x. if dir > 0 then e < x else x < e) ?E =
     filter (\<lambda>x. if dir > 0 then e < x else x < e)
       (filter (\<lambda>x. if dir > 0 then cur < x else x < cur) ?E)"
    unfolding filter_filter by (rule filter_cong) (use assms(2) in \<open>auto split: if_splits\<close>)
  have "e \<in> set (filter (\<lambda>x. if dir > 0 then cur < x else x < cur) ?E)"
    using e assms(2) by auto
  then have "length (filter (\<lambda>x. if dir > 0 then e < x else x < e)
       (filter (\<lambda>x. if dir > 0 then cur < x else x < cur) ?E))
     < length (filter (\<lambda>x. if dir > 0 then cur < x else x < cur) ?E)"
    by (intro length_filter_less [of e]) auto
  then show ?thesis by (simp only: ahead_def sub)
qed

lemma bound_at_Some:
  assumes "bound_at bs dir cur = Some b"
  shows "b \<in> set bs" and "if dir > 0 then cur \<ge> lower b \<and> cur < upper b
               else cur > lower b \<and> cur \<le> upper b"
  using assms by (auto simp: bound_at_def find_Some_iff)

lemma move_to_end:
  assumes "sgn rem = dir" and "rem \<noteq> (0::'a::linordered_idom)" and "d > 0"
    and "rem - (if dir > 0 then min \<bar>rem\<bar> d else - min \<bar>rem\<bar> d) \<noteq> 0"
  shows "min \<bar>rem\<bar> d = d" and "d < \<bar>rem\<bar>"
    and "sgn (rem - (if dir > 0 then d else - d)) = dir"
proof -
  consider "rem > 0" "dir = 1" | "rem < 0" "dir = - 1"
    using assms(1,2) by (metis linorder_neqE_linordered_idom sgn_1_neg sgn_1_pos)
  then have "d < \<bar>rem\<bar> \<and> sgn (rem - (if dir > 0 then d else - d)) = dir"
    using assms(3,4) by cases (auto simp: min_def sgn_if split: if_splits)
  then show "min \<bar>rem\<bar> d = d" and "d < \<bar>rem\<bar>"
    and "sgn (rem - (if dir > 0 then d else - d)) = dir" by (auto simp: min_def)
qed

function traverse_loop ::
    "'a::linordered_idom bounds list \<Rightarrow> 'a \<Rightarrow> 'a \<Rightarrow> 'a \<Rightarrow> 'a" where
  "traverse_loop bs dir cur rem =
     (if rem = 0 \<or> sgn rem \<noteq> dir then cur
      else case bound_at bs dir cur of
        Some b \<Rightarrow>
          (let distanceInBound = (if dir > 0 then upper b - cur else cur - lower b);
               moveDist = min \<bar>rem\<bar> distanceInBound;
               cur' = cur + (if dir > 0 then moveDist else - moveDist);
               rem' = rem - (if dir > 0 then moveDist else - moveDist)
           in if rem' = 0 then cur' else traverse_loop bs dir cur' rem')
      | None \<Rightarrow>
          (if dir > 0
           then (case filter (\<lambda>b. lower b > cur) bs of
                   [] \<Rightarrow> cur
                 | b # _ \<Rightarrow> traverse_loop bs dir (lower b) rem)
           else (case filter (\<lambda>b. upper b < cur) bs of
                   [] \<Rightarrow> cur
                 | b # bs' \<Rightarrow> traverse_loop bs dir (upper (last (b # bs'))) rem)))"
  by pat_completeness auto

termination
proof (relation "measure (\<lambda>(bs, dir, cur, rem). ahead bs dir cur)", goal_cases)
  case 1
  then show ?case by simp
next
  case (2 bs dir cur rem b bs')
  then have "b \<in> set (filter (\<lambda>b. lower b > cur) bs)" by (metis list.set_intros(1))
  then have "b \<in> set bs" "cur < lower b" by auto
  with 2 show ?case using ahead_less [of "lower b" bs dir cur] by auto
next
  case (3 bs dir cur rem b bs')
  then have "last (b # bs') \<in> set (filter (\<lambda>b. upper b < cur) bs)"
    by (metis last_in_set list.distinct(1))
  then have "last (b # bs') \<in> set bs" "upper (last (b # bs')) < cur" by auto
  with 3 show ?case using ahead_less [of "upper (last (b # bs'))" bs dir cur] by auto
next
  case (4 bs dir cur rem b d m cur' rem')
  have pos: "d > 0" using bound_at_Some(2) [OF 4(2)] 4(3) by (auto split: if_splits)
  have "m = d"
    using move_to_end(1) [of rem dir d] 4(1,4,6,7) pos by auto
  then have "cur' = (if dir > 0 then upper b else lower b)" using 4(3,5) by simp
  then show ?case
    using ahead_less [of cur' bs dir cur] bound_at_Some [OF 4(2)] by (auto split: if_splits)
qed

declare traverse_loop.simps [simp del]

definition traverse :: "'a::linordered_idom bounds list \<Rightarrow> 'a \<Rightarrow> 'a \<Rightarrow> 'a" where
  "traverse bs start dist0 =
     (let bs' = map construct_bounds bs;
          dir = (if dist0 > 0 then 1 else if dist0 < 0 then - 1 else 0)
      in if dir = 0 then start else traverse_loop bs' dir start dist0)"

definition overlap_span :: "'a::linordered_idom bounds \<Rightarrow> 'a bounds \<Rightarrow> 'a" where
  "overlap_span interval bound =
     (let overlapLower = (if lower bound > lower interval then lower bound else lower interval);
          overlapUpper = (if upper bound < upper interval then upper bound else upper interval)
      in if overlapLower < overlapUpper then overlapUpper - overlapLower else 0)"

definition distance :: "'a::linordered_idom bounds list \<Rightarrow> 'a \<Rightarrow> 'a \<Rightarrow> 'a" where
  "distance bs a b =
     (let bs' = map construct_bounds bs
      in if a = b then 0
         else
           let interval = (if a < b then construct_bounds \<lparr>lower = a, upper = b\<rparr>
                           else construct_bounds \<lparr>lower = b, upper = a\<rparr>)
           in foldl (\<lambda>total bound. total + overlap_span interval bound) 0 bs')"


section \<open>Ordered, non-overlapping arrays of bounds\<close>

text \<open>
  The source states that its search and planning functions assume bounds that are "ORDERED and
  NON-OVERLAPPING".  \<open>ordered\<close> is that assumption, \<open>points\<close> the half-open set a bound stands for.
\<close>

definition ordered :: "'a::linordered_idom bounds list \<Rightarrow> bool" where
  "ordered bs \<longleftrightarrow> sorted_wrt (\<lambda>a b. upper a \<le> lower b) bs \<and> (\<forall>b\<in>set bs. lower b < upper b)"

definition points :: "'a::linordered_idom bounds \<Rightarrow> 'a set" where
  "points b = {x. lower b \<le> x \<and> x < upper b}"

definition covered :: "'a::linordered_idom bounds list \<Rightarrow> 'a set" where
  "covered bs = (\<Union>b\<in>set bs. points b)"

text \<open>What a caller does with a plan: trim the new bound, and splice it in unless it became empty.\<close>

definition trimmed :: "'a::linordered_idom bounds \<Rightarrow> 'a insertion_plan \<Rightarrow> 'a bounds" where
  "trimmed v p = \<lparr>lower = lower v + removeBefore p, upper = upper v - removeAfter p\<rparr>"

definition apply_plan ::
    "'a::linordered_idom bounds list \<Rightarrow> 'a bounds \<Rightarrow> 'a insertion_plan \<Rightarrow> 'a bounds list" where
  "apply_plan bs v p =
     (if lower (trimmed v p) < upper (trimmed v p)
      then splice_at (insertInto p) (deleteInBetween p) [trimmed v p] bs else bs)"

lemma construct_bounds_id: "lower b \<le> upper b \<Longrightarrow> construct_bounds b = b"
  by (simp add: construct_bounds_def makeValid_def)

lemma construct_bounds_valid: "lower (construct_bounds b) \<le> upper (construct_bounds b)"
  by (simp add: construct_bounds_def makeValid_def)

lemma construct_bounds_idem [simp]: "construct_bounds (construct_bounds b) = construct_bounds b"
  by (simp add: construct_bounds_id construct_bounds_valid)

lemma map_construct_id: "\<forall>b\<in>set bs. lower b \<le> upper b \<Longrightarrow> map construct_bounds bs = bs"
  by (simp add: map_idI construct_bounds_id)

lemma ordered_map_construct: "ordered bs \<Longrightarrow> map construct_bounds bs = bs"
  by (intro map_construct_id) (auto simp: ordered_def)

lemma contains_points: "lower b \<le> upper b \<Longrightarrow> contains b x \<longleftrightarrow> x \<in> points b"
  by (auto simp: contains_def construct_bounds_id points_def Let_def)

lemma contains_or_below:
  "lower b \<le> upper b \<Longrightarrow> contains b t \<or> t < lower b \<longleftrightarrow> t < upper b"
  by (auto simp: contains_def construct_bounds_id Let_def)

lemma covered_append [simp]: "covered (A @ B) = covered A \<union> covered B"
  by (simp add: covered_def)

lemma covered_Cons [simp]: "covered (b # B) = points b \<union> covered B"
  by (simp add: covered_def)

lemma covered_Nil [simp]: "covered [] = {}"
  by (simp add: covered_def)

subsection \<open>The search\<close>

definition offset_in :: "'a::linordered_idom bounds list \<Rightarrow> 'a \<Rightarrow> 'a" where
  "offset_in R t = (case R of [] \<Rightarrow> 0 | b # _ \<Rightarrow> if lower b \<le> t then t - lower b else 0)"

lemma findInsertPosition_split:
  assumes "\<forall>b\<in>set (A @ R). lower b \<le> upper b" and "\<forall>a\<in>set A. upper a \<le> t"
    and "R = [] \<or> t < upper (hd R)"
  shows "findInsertPosition id (A @ R) t = \<lparr>index = length A, position = offset_in R t\<rparr>"
proof -
  let ?p = "\<lambda>b. contains b t \<or> t < lower b"
  have p: "?p b \<longleftrightarrow> t < upper b" if "b \<in> set (A @ R)" for b
    using assms(1) that contains_or_below by blast
  have notA: "find_index ?p (A @ R) = map_option (\<lambda>i. length A + i) (find_index ?p R)"
    by (rule find_index_skip) (use p assms(2) in force)
  have m: "map construct_bounds (A @ R) = A @ R" using assms(1) by (rule map_construct_id)
  show ?thesis
  proof (cases R)
    case Nil
    then show ?thesis
      unfolding findInsertPosition_def m using notA by (simp add: offset_in_def)
  next
    case (Cons b R')
    then have "t < upper b" using assms(3) by simp
    then have "find_index ?p (A @ R) = Some (length A)" using notA p [of b] Cons by simp
    moreover have "contains b t \<longleftrightarrow> lower b \<le> t"
      using assms(1) Cons \<open>t < upper b\<close> by (simp add: contains_points points_def)
    ultimately show ?thesis
      unfolding findInsertPosition_def m using Cons by (simp add: offset_in_def)
  qed
qed

lemma ordered_append:
  "ordered (A @ B) \<longleftrightarrow>
     ordered A \<and> ordered B \<and> (\<forall>a\<in>set A. \<forall>b\<in>set B. upper a \<le> lower b)"
  by (auto simp: ordered_def sorted_wrt_append)

lemma ordered_Cons:
  "ordered (a # B) \<longleftrightarrow> lower a < upper a \<and> ordered B \<and> (\<forall>b\<in>set B. upper a \<le> lower b)"
  by (auto simp: ordered_def)

lemma ordered_Nil [simp]: "ordered []"
  by (simp add: ordered_def)

text \<open>The bounds from the first one that ends after \<open>t\<close> on all end after \<open>t\<close>.\<close>

lemma ordered_after:
  assumes "ordered R" and "R = [] \<or> t < upper (hd R)" and "b \<in> set R"
  shows "t < upper b"
proof (cases R)
  case (Cons c R')
  then show ?thesis using assms by (fastforce simp: ordered_Cons ordered_def)
qed (use assms in simp)

lemma plan_split:
  assumes "ordered bs" and "lower v < upper v"
  obtains A B C where "bs = A @ B @ C" "\<forall>a\<in>set A. upper a \<le> lower v"
    "\<forall>b\<in>set B. lower v < upper b \<and> upper b \<le> upper v" "\<forall>c\<in>set C. upper v < upper c"
    "findInsertPosition id bs (lower v) = \<lparr>index = length A, position = offset_in (B @ C) (lower v)\<rparr>"
    "findInsertPosition id bs (upper v) = \<lparr>index = length A + length B, position = offset_in C (upper v)\<rparr>"
proof -
  obtain A R where AR: "bs = A @ R" "\<forall>a\<in>set A. upper a \<le> lower v" "R = [] \<or> \<not> upper (hd R) \<le> lower v"
    by (rule takeWhile_split [of bs "\<lambda>b. upper b \<le> lower v"])
  obtain B C where BC: "R = B @ C" "\<forall>b\<in>set B. upper b \<le> upper v" "C = [] \<or> \<not> upper (hd C) \<le> upper v"
    by (rule takeWhile_split [of R "\<lambda>b. upper b \<le> upper v"])
  have ord: "ordered R" "ordered C" using assms(1) AR(1) BC(1) by (auto simp: ordered_append)
  have R: "\<forall>b\<in>set R. lower v < upper b" using ordered_after [OF ord(1)] AR(3) by force
  have C: "\<forall>c\<in>set C. upper v < upper c" using ordered_after [OF ord(2)] BC(3) by force
  have val: "\<forall>b\<in>set bs. lower b \<le> upper b" using assms(1) by (auto simp: ordered_def)
  have "findInsertPosition id (A @ R) (lower v) = \<lparr>index = length A, position = offset_in R (lower v)\<rparr>"
    by (rule findInsertPosition_split) (use AR val in auto)
  moreover have "findInsertPosition id ((A @ B) @ C) (upper v) =
      \<lparr>index = length (A @ B), position = offset_in C (upper v)\<rparr>"
    by (rule findInsertPosition_split) (use AR BC val assms(2) in auto)
  ultimately show ?thesis using that AR BC R C by simp
qed

subsection \<open>The plan\<close>

lemma insert_between:
  assumes "ordered (A @ B @ C)" and "\<forall>a\<in>set A. upper a \<le> lower w" and "\<forall>c\<in>set C. upper w \<le> lower c"
    and "lower w < upper w" and "covered B \<subseteq> points w"
  shows "ordered (A @ [w] @ C)" and "covered (A @ [w] @ C) = covered (A @ B @ C) \<union> points w"
  using assms by (auto simp: ordered_append ordered_Cons)

lemma offset_in_upper:
  assumes "ordered C" and "\<forall>c\<in>set C. upper v < upper c"
  shows "\<forall>c\<in>set C. upper v - offset_in C (upper v) \<le> lower c"
    and "points v \<subseteq> {x. x < upper v - offset_in C (upper v)} \<union> covered C"
    and "offset_in C (upper v) \<ge> 0"
  using assms by (cases C; force simp: offset_in_def ordered_Cons points_def covered_def)+

definition plan_correct ::
    "'a::linordered_idom bounds list \<Rightarrow> 'a bounds \<Rightarrow> 'a insertion_plan option \<Rightarrow> bool" where
  "plan_correct bs v r =
     (case r of
        None \<Rightarrow> points v \<subseteq> covered bs
      | Some p \<Rightarrow> ordered (apply_plan bs v p) \<and> covered (apply_plan bs v p) = covered bs \<union> points v \<and>
          lower (trimmed v p) \<le> upper (trimmed v p) \<and> 0 \<le> removeBefore p \<and> 0 \<le> removeAfter p)"

lemma plan_correctI:
  assumes bs: "bs = A @ B @ C" and "ordered bs" and "\<forall>c\<in>set C. upper v < upper c"
    and "\<forall>b\<in>set B. upper b \<le> upper v" and "\<forall>a\<in>set A. upper a \<le> lower v + rb" and "rb \<ge> 0"
    and "points v \<subseteq> covered A \<union> {x. lower v + rb \<le> x}"
    and "\<forall>b\<in>set B. lower v + rb \<le> lower b"
    and "lower v + rb \<le> upper v" and "\<forall>c\<in>set C. lower v + rb \<le> lower c"
  shows "plan_correct bs v (Some \<lparr>removeBefore = rb, removeAfter = offset_in C (upper v),
           insertInto = length A, deleteInBetween = int (length B)\<rparr>)"
proof -
  let ?p = "\<lparr>removeBefore = rb, removeAfter = offset_in C (upper v),
           insertInto = length A, deleteInBetween = int (length B)\<rparr>"
  let ?w = "trimmed v ?p"
  have C: "ordered C" and BC: "\<forall>b\<in>set B. \<forall>c\<in>set C. upper b \<le> lower c"
    using assms by (auto simp: ordered_append)
  note off = offset_in_upper [OF C assms(3)]
  have w: "lower ?w = lower v + rb" "upper ?w = upper v - offset_in C (upper v)"
    by (simp_all add: trimmed_def)
  have pv: "points v \<subseteq> covered A \<union> points ?w \<union> covered C"
    using assms(7) off(2) by (auto simp: points_def w)
  have wv: "points ?w \<subseteq> points v" using assms(6) off(3) by (auto simp: points_def w)
  have tr: "lower ?w \<le> upper ?w"
    using assms(9,10) by (cases C) (auto simp: trimmed_def offset_in_def)
  show ?thesis
  proof (cases "lower ?w < upper ?w")
    case True
    have Bw: "covered B \<subseteq> points ?w"
    proof
      fix x
      assume "x \<in> covered B"
      then obtain b where b: "b \<in> set B" "lower b \<le> x" "x < upper b"
        by (auto simp: covered_def points_def)
      have "x < upper v - offset_in C (upper v)"
        using b BC assms(4) off(1) by (cases C) (fastforce simp: offset_in_def split: if_splits)+
      then show "x \<in> points ?w" using b assms(8) by (auto simp: points_def w)
    qed
    have "apply_plan bs v ?p = A @ [?w] @ C"
      using True bs splice_at_decomp [of A _ B "int (length B)" "[?w]" C] by (simp add: apply_plan_def)
    then show ?thesis
      using insert_between [of A B C ?w] True Bw assms(2,5,6) off(1,3) pv bs wv tr
      by (auto simp: plan_correct_def w)
  next
    case False
    then have "points ?w = {}" by (auto simp: points_def)
    then show ?thesis using False assms(2,6) off(3) pv bs tr by (auto simp: plan_correct_def apply_plan_def)
  qed
qed

lemma buildInsertionPlan_split:
  assumes "ordered bs" and "lower v < upper v" and "bs = A @ B @ C"
    and "findInsertPosition id bs (lower v) = \<lparr>index = length A, position = offset_in (B @ C) (lower v)\<rparr>"
    and "findInsertPosition id bs (upper v) = \<lparr>index = length A + length B, position = offset_in C (upper v)\<rparr>"
  shows "buildInsertionPlan id bs v =
     (if bs = [] then Some ZERO_PLAN
      else if B @ C = [] then Some (ZERO_PLAN\<lparr>insertInto := length bs\<rparr>)
      else if A @ B = [] then Some (ZERO_PLAN\<lparr>removeAfter := offset_in C (upper v)\<rparr>)
      else if B = [] then
        (if offset_in (B @ C) (lower v) \<noteq> 0 \<and> offset_in C (upper v) \<noteq> 0 then None
         else Some \<lparr>removeBefore = offset_in (B @ C) (lower v), removeAfter = offset_in C (upper v),
                    insertInto = length A, deleteInBetween = 0\<rparr>)
      else if offset_in (B @ C) (lower v) \<noteq> 0
      then Some \<lparr>removeBefore = span (bs ! length A) - offset_in (B @ C) (lower v),
                 removeAfter = offset_in C (upper v),
                 insertInto = length A + 1, deleteInBetween = int (length B) - 1\<rparr>
      else Some \<lparr>removeBefore = 0, removeAfter = offset_in C (upper v),
                 insertInto = length A, deleteInBetween = int (length B)\<rparr>)"
proof -
  have simps: "construct_bounds v = v" "map construct_bounds bs = bs"
    using assms(1,2) by (simp_all add: construct_bounds_id ordered_map_construct)
  have len: "length A = length bs \<longleftrightarrow> B @ C = []" "length A + length B = 0 \<longleftrightarrow> A @ B = []"
    "length A = length A + length B \<longleftrightarrow> B = []" using assms(3) by auto
  show ?thesis
    by (simp add: buildInsertionPlan_def simps assms(4,5) Let_def len [simplified])
qed

text \<open>The new bound starts inside the first of the bounds it reaches.\<close>

lemma plan_correct_overlap:
  assumes s: "bs = A @ (b # B') @ C" and ord: "ordered bs" and C: "\<forall>c\<in>set C. upper v < upper c"
    and A: "\<forall>a\<in>set A. upper a \<le> lower v"
    and B: "\<forall>x\<in>set (b # B'). lower v < upper x \<and> upper x \<le> upper v" and low: "lower b < lower v"
  shows "plan_correct bs v (Some \<lparr>removeBefore = span (bs ! length A) - (lower v - lower b),
           removeAfter = offset_in C (upper v),
           insertInto = length A + 1, deleteInBetween = int (length (b # B')) - 1\<rparr>)"
proof -
  have bs: "bs = (A @ [b]) @ B' @ C" using s by simp
  have "lower b < upper b" using ord bs by (auto simp: ordered_append ordered_Cons)
  then have sp: "span (bs ! length A) - (lower v - lower b) = upper b - lower v"
    using bs by (simp add: span_def construct_bounds_id nth_append)
  have "plan_correct bs v (Some \<lparr>removeBefore = upper b - lower v, removeAfter = offset_in C (upper v),
    insertInto = length (A @ [b]), deleteInBetween = int (length B')\<rparr>)"
  proof (rule plan_correctI [OF bs ord C])
    show "\<forall>b'\<in>set B'. lower v + (upper b - lower v) \<le> lower b'"
      "\<forall>c\<in>set C. lower v + (upper b - lower v) \<le> lower c"
      using ord bs by (auto simp: ordered_append ordered_Cons)
  qed (use A B low in \<open>auto simp: points_def covered_def intro: order_trans less_imp_le\<close>)
  then show ?thesis unfolding sp by simp
qed

lemma buildInsertionPlan_correct:
  assumes ord: "ordered bs" and val: "lower v < upper v"
    and first: "\<not> (bs \<noteq> [] \<and> lower (hd bs) < lower v \<and> upper v < upper (hd bs))"
  shows "plan_correct bs v (buildInsertionPlan id bs v)"
proof -
  obtain A B C where s: "bs = A @ B @ C" "\<forall>a\<in>set A. upper a \<le> lower v"
    "\<forall>b\<in>set B. lower v < upper b \<and> upper b \<le> upper v" "\<forall>c\<in>set C. upper v < upper c"
    "findInsertPosition id bs (lower v) = \<lparr>index = length A, position = offset_in (B @ C) (lower v)\<rparr>"
    "findInsertPosition id bs (upper v) = \<lparr>index = length A + length B, position = offset_in C (upper v)\<rparr>"
    using plan_split [OF ord val] by metis
  note plan = buildInsertionPlan_split [OF ord val s(1,5,6)]
  have ordBC: "ordered (B @ C)" using ord s(1) by (simp add: ordered_append)
  have zero: "plan_correct bs v (Some \<lparr>removeBefore = 0, removeAfter = offset_in C (upper v),
      insertInto = length A, deleteInBetween = int (length B)\<rparr>)" if "offset_in (B @ C) (lower v) = 0"
  proof (rule plan_correctI [OF s(1) ord s(4)])
    have all: "\<forall>b\<in>set (B @ C). lower v \<le> lower b"
      using that ordBC by (cases "B @ C") (force simp: offset_in_def ordered_Cons split: if_splits)+
    then show "\<forall>b\<in>set B. lower v + 0 \<le> lower b" "\<forall>c\<in>set C. lower v + 0 \<le> lower c" by auto
  qed (use s(2,3) val in \<open>auto simp: points_def\<close>)
  consider "offset_in (B @ C) (lower v) = 0" | b B' where "B = b # B'" "lower b < lower v"
      "offset_in (B @ C) (lower v) = lower v - lower b"
    | c C' where "B = []" "C = c # C'" "lower c < lower v"
    by (cases B; cases C; cases "lower (hd (B @ C)) < lower v") (auto simp: offset_in_def)
  then show ?thesis
  proof cases
    case 1
    then show ?thesis unfolding plan using zero s(1) by (auto simp: ZERO_PLAN_def offset_in_def)
  next
    case 2
    then show ?thesis
      unfolding plan 2(3) using plan_correct_overlap [of bs A b B' C v] s(1-4) ord by simp
  next
    case 3
    then have "points v \<subseteq> points c" using s(4) by (auto simp: points_def)
    moreover have "A \<noteq> []" using 3 s(1,4) first by auto
    ultimately show ?thesis
      unfolding plan using 3 s(1) val by (auto simp: plan_correct_def offset_in_def)
  qed
qed

text \<open>The conversion has no effect on the plan for bounds that it is exact on.\<close>

definition exact_on :: "('a \<Rightarrow> 'a) \<Rightarrow> 'a::linordered_idom bounds list \<Rightarrow> bool" where
  "exact_on num bs \<longleftrightarrow> num 0 = 0 \<and> (\<forall>b\<in>set bs. \<forall>x. 0 \<le> x \<and> x \<le> upper b - lower b \<longrightarrow> num x = x)"

lemma find_index_less: "find_index p xs = Some i \<Longrightarrow> i < length xs"
  by (simp add: find_index_Some_iff)

lemma findInsertPosition_exact:
  assumes "exact_on num bs" and "\<forall>b\<in>set bs. lower b \<le> upper b"
  shows "findInsertPosition num bs t = findInsertPosition id bs t"
proof -
  have "num (t - lower b) = t - lower b" if "b \<in> set bs" "contains b t" for b
    using that assms by (auto simp: exact_on_def contains_points points_def)
  then show ?thesis
    using find_index_less [of "\<lambda>b. contains b t \<or> t < lower b" bs]
    by (cases "find_index (\<lambda>b. contains b t \<or> t < lower b) bs")
      (simp_all add: findInsertPosition_def Let_def map_construct_id [OF assms(2)])
qed

lemma findInsertPosition_index_le: "index (findInsertPosition num bs t) \<le> length bs"
  using find_index_less [of "\<lambda>b. contains b t \<or> t < lower b" "map construct_bounds bs"]
  by (cases "find_index (\<lambda>b. contains b t \<or> t < lower b) (map construct_bounds bs)")
    (simp_all add: findInsertPosition_def Let_def)

text \<open>A bound that lies after all others is added at the end, whatever the conversion does.\<close>

lemma buildInsertionPlan_after:
  assumes "\<forall>b\<in>set bs. lower b \<le> upper b \<and> upper b \<le> lower v" and "lower v < upper v"
  shows "buildInsertionPlan num bs v = Some (ZERO_PLAN\<lparr>insertInto := length bs\<rparr>)"
proof (cases "bs = []")
  case False
  have m: "map construct_bounds bs = bs" using assms(1) by (simp add: map_construct_id)
  have "find_index (\<lambda>b. contains b (lower v) \<or> lower v < lower b) bs = None"
    using assms(1) by (auto simp: find_index_None_iff contains_points points_def)
  then have "findInsertPosition num bs (lower v) = \<lparr>index = length bs, position = 0\<rparr>"
    by (simp add: findInsertPosition_def m)
  then show ?thesis using False assms(2) by (simp add: buildInsertionPlan_def m construct_bounds_id Let_def)
qed (simp add: buildInsertionPlan_def ZERO_PLAN_def)

lemma buildInsertionPlan_exact:
  assumes "exact_on num bs" and "ordered bs"
  shows "buildInsertionPlan num bs v = buildInsertionPlan id bs v"
proof -
  have valid: "\<forall>b\<in>set bs. lower b \<le> upper b" using assms(2) by (auto simp: ordered_def)
  have span: "num (span b) = span b" if "b \<in> set bs" for b
    using that assms(1) valid by (auto simp: exact_on_def span_def construct_bounds_id Let_def)
  show ?thesis
    using findInsertPosition_index_le [of id bs "lower (construct_bounds v)"]
    unfolding buildInsertionPlan_def ordered_map_construct [OF assms(2)] Let_def findInsertPosition_exact [OF assms(1) valid]
    by (auto simp: span)
qed

text \<open>The plan for a bound strictly inside the first one.\<close>

lemma buildInsertionPlan_first:
  assumes "ordered (b # bs)" and "lower v < upper v" and "lower b < lower v" and "upper v < upper b"
  shows "buildInsertionPlan id (b # bs) v =
    Some \<lparr>removeBefore = 0, removeAfter = upper v - lower b, insertInto = 0, deleteInBetween = 0\<rparr>"
proof -
  have val: "\<forall>x\<in>set ([] @ b # bs). lower x \<le> upper x" using assms(1) by (auto simp: ordered_def)
  note f = findInsertPosition_split [OF val]
  have "findInsertPosition id (b # bs) (lower v) = \<lparr>index = 0, position = lower v - lower b\<rparr>"
    "findInsertPosition id (b # bs) (upper v) = \<lparr>index = 0, position = upper v - lower b\<rparr>"
    using f [of "lower v"] f [of "upper v"] assms(2-4) by (simp_all add: offset_in_def)
  then show ?thesis
    using ordered_map_construct [OF assms(1)] assms(2)
    by (simp add: buildInsertionPlan_def ZERO_PLAN_def construct_bounds_id Let_def)
qed

lemma ordered_no_overlap:
  assumes "ordered bs" and "i < length bs" and "j < length bs" and "i \<noteq> j"
  shows "\<not> overlapsWith (bs ! i) (bs ! j)"
proof -
  have ne: "lower (bs ! i) < upper (bs ! i)" "lower (bs ! j) < upper (bs ! j)"
    using assms(1-3) by (simp_all add: ordered_def)
  consider "upper (bs ! i) \<le> lower (bs ! j)" | "upper (bs ! j) \<le> lower (bs ! i)"
    using assms by (cases "i < j") (auto simp: ordered_def sorted_wrt_iff_nth_less)
  then show ?thesis
    using ne by cases (auto simp: overlapsWith_def contains_def construct_bounds_id Let_def)
qed

subsection \<open>Distances\<close>

text \<open>The distance between two points is the amount of covered ground between them.\<close>

definition ground :: "'a::linordered_idom bounds list \<Rightarrow> 'a \<Rightarrow> 'a \<Rightarrow> 'a" where
  "ground bs s t = (\<Sum>x\<leftarrow>bs. max 0 (min (upper x) t - max (lower x) s))"

lemma overlap_span_eq:
  "overlap_span iv b = max 0 (min (upper b) (upper iv) - max (lower b) (lower iv))"
  by (auto simp: overlap_span_def Let_def max_def min_def)

lemma foldl_plus_sum_list: "foldl (\<lambda>t x. t + f x) (a::'a::comm_monoid_add) xs = a + (\<Sum>x\<leftarrow>xs. f x)"
  by (induction xs arbitrary: a) (auto simp: add.assoc)

text \<open>On a valid bound, the covered ground between two points is a difference of clipped points.\<close>

lemma clip_overlap:
  fixes l :: "'a::linordered_idom"
  assumes "l \<le> u" and "s \<le> t"
  shows "max 0 (min u t - max l s) = min u (max l t) - min u (max l s)"
proof -
  consider "t \<le> l" | "u \<le> s" | "l < t" "s < u" by linarith
  then show ?thesis using assms by cases (simp_all add: max_def min_def)
qed

lemma ground_clip:
  assumes "\<forall>b\<in>set bs. lower b \<le> upper b" and "s \<le> t"
  shows "ground bs s t = (\<Sum>x\<leftarrow>bs. min (upper x) (max (lower x) t) - min (upper x) (max (lower x) s))"
  unfolding ground_def using assms by (intro arg_cong [of _ _ sum_list] map_cong refl clip_overlap) auto

lemma ground_refl: "ground bs s s = 0"
proof -
  have "min (upper x) s \<le> max (lower x) s" for x :: "'a bounds"
    by (meson max.cobounded2 min.cobounded2 order_trans)
  then show ?thesis by (simp add: ground_def)
qed

lemma distance_ground:
  assumes "\<forall>b\<in>set bs. lower b \<le> upper b"
  shows "distance bs a b = ground bs (min a b) (max a b)"
proof (cases a b rule: linorder_cases)
  case less
  then have "construct_bounds \<lparr>lower = a, upper = b\<rparr> = \<lparr>lower = a, upper = b\<rparr>"
    by (simp add: construct_bounds_id)
  with less show ?thesis
    unfolding distance_def map_construct_id [OF assms]
    by (simp add: foldl_plus_sum_list overlap_span_eq ground_def)
next
  case equal
  then show ?thesis by (simp add: distance_def ground_refl)
next
  case greater
  then have "construct_bounds \<lparr>lower = b, upper = a\<rparr> = \<lparr>lower = b, upper = a\<rparr>"
    by (simp add: construct_bounds_id)
  with greater show ?thesis
    unfolding distance_def map_construct_id [OF assms]
    by (simp add: foldl_plus_sum_list overlap_span_eq ground_def)
qed

lemma ground_add:
  assumes "s \<le> t" and "t \<le> u" and "\<forall>b\<in>set bs. lower b \<le> upper b"
  shows "ground bs s u = ground bs s t + ground bs t u"
  using assms by (simp add: ground_clip sum_list_addf [symmetric])

lemma ground_nonneg: "0 \<le> ground bs s t"
  unfolding ground_def by (induction bs) auto

lemma ground_zero: "\<forall>x\<in>set bs. upper x \<le> s \<or> t \<le> lower x \<Longrightarrow> ground bs s t = 0"
  unfolding ground_def by (induction bs) (auto simp: max_def min_def)

lemma ground_append: "ground (A @ B) s t = ground A s t + ground B s t"
  by (simp add: ground_def)

lemma ground_inside:
  assumes "ordered bs" and "b \<in> set bs" and "lower b \<le> s" and "s \<le> t" and "t \<le> upper b"
  shows "ground bs s t = t - s"
proof -
  obtain A C where bs: "bs = A @ b # C" using assms(2) by (meson split_list)
  have "ground A s t = 0" and "ground C s t = 0"
    using assms bs by (auto intro!: ground_zero simp: ordered_append ordered_Cons intro: order_trans)
  moreover have "ground [b] s t = t - s" using assms(3-5) by (simp add: ground_def max_def min_def)
  ultimately show ?thesis using bs ground_append [of A "[b] @ C" s t] ground_append [of "[b]" C s t] by simp
qed

lemma ground_le: "s \<le> t \<Longrightarrow> t \<le> u \<Longrightarrow> \<forall>b\<in>set bs. lower b \<le> upper b \<Longrightarrow> ground bs s t \<le> ground bs s u"
  using ground_add [of s t u bs] ground_nonneg [of bs t u] by simp

subsection \<open>Traversal\<close>

lemma ordered_valid: "ordered bs \<Longrightarrow> \<forall>b\<in>set bs. lower b \<le> upper b"
  by (auto simp: ordered_def)

lemma ordered_next:
  assumes "ordered bs" and "filter (\<lambda>b. lower b > cur) bs = b # bs'"
  shows "b \<in> set bs" and "cur < lower b" and "x \<in> set bs \<Longrightarrow> cur < lower x \<Longrightarrow> lower b \<le> lower x"
proof -
  have "b \<in> set bs \<and> cur < lower b \<and> (\<forall>x\<in>set bs. cur < lower x \<longrightarrow> lower b \<le> lower x)"
    using assms by (induction bs) (fastforce simp: ordered_Cons split: if_splits)+
  then show "b \<in> set bs" and "cur < lower b" and "x \<in> set bs \<Longrightarrow> cur < lower x \<Longrightarrow> lower b \<le> lower x"
    by auto
qed

text \<open>The three kinds of forward iteration: inside a bound, past the last bound, between bounds.\<close>

lemma forward_inside:
  assumes "ordered bs" and "bound_at bs 1 cur = Some b" and "rem > 0"
  defines "d \<equiv> upper b - cur"
  shows "traverse_loop bs 1 cur rem =
      (if rem \<le> d then cur + rem else traverse_loop bs 1 (upper b) (rem - d))"
    and "t \<ge> cur \<Longrightarrow> t \<le> upper b \<Longrightarrow> ground bs cur t = t - cur" and "b \<in> set bs" and "d > 0"
proof -
  have b: "b \<in> set bs" "lower b \<le> cur" "cur < upper b" using bound_at_Some [OF assms(2)] by auto
  show "traverse_loop bs 1 cur rem =
      (if rem \<le> d then cur + rem else traverse_loop bs 1 (upper b) (rem - d))"
    by (subst traverse_loop.simps) (use assms(2,3) in \<open>auto simp: d_def Let_def min_def\<close>)
  show "t \<ge> cur \<Longrightarrow> t \<le> upper b \<Longrightarrow> ground bs cur t = t - cur"
    using ground_inside assms(1) b by blast
  show "b \<in> set bs" "d > 0" using b by (auto simp: d_def)
qed

lemma forward_outside:
  assumes "ordered bs" and "bound_at bs 1 cur = None" and "rem > 0"
  shows "filter (\<lambda>b. lower b > cur) bs = [] \<Longrightarrow>
      traverse_loop bs 1 cur rem = cur \<and> ground bs cur t = 0"
    and "filter (\<lambda>b. lower b > cur) bs = b # bs' \<Longrightarrow>
      traverse_loop bs 1 cur rem = traverse_loop bs 1 (lower b) rem \<and> ground bs cur (lower b) = 0"
proof -
  have out: "\<forall>b\<in>set bs. upper b \<le> cur \<or> cur < lower b"
    using assms(2) by (auto simp: bound_at_def find_None_iff not_le not_less)
  have unf: "traverse_loop bs 1 cur rem = (case filter (\<lambda>b. lower b > cur) bs of
      [] \<Rightarrow> cur | b # _ \<Rightarrow> traverse_loop bs 1 (lower b) rem)"
    by (subst traverse_loop.simps) (use assms(2,3) in simp)
  show "filter (\<lambda>b. lower b > cur) bs = [] \<Longrightarrow>
      traverse_loop bs 1 cur rem = cur \<and> ground bs cur t = 0"
    using unf out by (auto simp: filter_empty_conv intro!: ground_zero)
  show "filter (\<lambda>b. lower b > cur) bs = b # bs' \<Longrightarrow>
      traverse_loop bs 1 cur rem = traverse_loop bs 1 (lower b) rem \<and> ground bs cur (lower b) = 0"
    using unf out ordered_next(3) [OF assms(1)] by (auto intro!: ground_zero)
qed

lemma traverse_loop_forward:
  assumes "ordered bs" and "rem > 0" and "\<forall>b\<in>set bs. upper b \<le> M"
  shows "cur \<le> traverse_loop bs 1 cur rem \<and>
    ground bs cur (traverse_loop bs 1 cur rem) = min rem (ground bs cur (max cur M))"
  using assms(2)
proof (induction "ahead bs 1 cur" arbitrary: cur rem rule: less_induct)
  case less
  note val = ordered_valid [OF assms(1)]
  show ?case
  proof (cases "bound_at bs 1 cur")
    case (Some b)
    define e where "e = traverse_loop bs 1 (upper b) (rem - (upper b - cur))"
    note ins = forward_inside [OF assms(1) Some less.prems]
    have bM: "upper b \<le> M" "cur \<le> upper b" using ins(3,4) assms(3) by auto
    have total: "ground bs cur (max cur M) = (upper b - cur) + ground bs (upper b) (max (upper b) M)"
      using ground_add [of cur "upper b" M bs] ins(2) [of "upper b"] bM val by (simp add: max_def)
    show ?thesis
    proof (cases "rem \<le> upper b - cur")
      case True
      then have "rem \<le> ground bs cur (max cur M)" using total ground_nonneg [of bs "upper b"] by (simp add: add_increasing2)
      then show ?thesis using True ins(1) ins(2) [of "cur + rem"] less.prems by (simp add: le_diff_eq add.commute)
    next
      case False
      have "upper b \<le> e \<and> ground bs (upper b) e =
          min (rem - (upper b - cur)) (ground bs (upper b) (max (upper b) M))"
        unfolding e_def using less.hyps [of "upper b"] ahead_less [of "upper b" bs 1 cur] ins(3,4) False by simp
      moreover from this have "ground bs cur e = (upper b - cur) + ground bs (upper b) e"
        using ground_add [of cur "upper b" e bs] ins(2) [of "upper b"] bM val by simp
      ultimately show ?thesis using ins(1) False bM(2) total by (simp add: e_def min_def)
    qed
  next
    case None
    note out = forward_outside [OF assms(1) None less.prems]
    show ?thesis
    proof (cases "filter (\<lambda>b. lower b > cur) bs")
      case Nil
      then show ?thesis using out(1) less.prems by simp
    next
      case (Cons b bs')
      note nxt = ordered_next(1,2) [OF assms(1) Cons]
      have bM: "lower b \<le> M" using nxt(1) assms(1,3) by (fastforce simp: ordered_def)
      define e where "e = traverse_loop bs 1 (lower b) rem"
      have e: "lower b \<le> e" "ground bs (lower b) e = min rem (ground bs (lower b) (max (lower b) M))"
        unfolding e_def
        using less.hyps [of "lower b"] ahead_less [of "lower b" bs 1 cur] nxt less.prems by simp_all
      moreover have "ground bs cur e = ground bs (lower b) e" "ground bs cur M = ground bs (lower b) M"
        using out(2) [OF Cons] nxt e(1) bM val ground_add [of cur "lower b" e bs]
          ground_add [of cur "lower b" M bs] by simp_all
      ultimately show ?thesis using out(2) [OF Cons] nxt bM by (simp add: e_def)
    qed
  qed
qed


text \<open>Backward traversal is forward traversal of the mirror image.\<close>

definition mirror :: "'a::linordered_idom bounds \<Rightarrow> 'a bounds" where
  "mirror b = \<lparr>lower = - upper b, upper = - lower b\<rparr>"

definition mirror_all :: "'a::linordered_idom bounds list \<Rightarrow> 'a bounds list" where
  "mirror_all bs = rev (map mirror bs)"

lemma mirror_simps [simp]: "lower (mirror b) = - upper b" "upper (mirror b) = - lower b"
  by (simp_all add: mirror_def)

lemma set_mirror_all [simp]: "set (mirror_all bs) = mirror ` set bs"
  by (simp add: mirror_all_def)

lemma ordered_mirror_all: "ordered bs \<Longrightarrow> ordered (mirror_all bs)"
  by (auto simp: ordered_def mirror_all_def sorted_wrt_rev sorted_wrt_map)

lemma ground_mirror_all: "ground (mirror_all bs) (- t) (- s) = ground bs s t"
proof -
  have "min (- lower x) (- s) - max (- upper x) (- t) = min (upper x) t - max (lower x) s"
    for x :: "'a bounds" by (simp add: minus_max_eq_min [symmetric] minus_min_eq_max [symmetric])
  then show ?thesis by (simp add: ground_def mirror_all_def rev_map [symmetric] comp_def)
qed

lemma bound_at_iff:
  assumes "ordered bs"
  shows "bound_at bs dir cur = Some b \<longleftrightarrow> b \<in> set bs \<and>
    (if dir > 0 then cur \<ge> lower b \<and> cur < upper b else cur > lower b \<and> cur \<le> upper b)"
  using assms
proof (induction bs)
  case (Cons c bs)
  then show ?case by (fastforce simp: bound_at_def ordered_Cons split: if_splits)
qed (simp add: bound_at_def)

lemma bound_at_mirror:
  assumes "ordered bs"
  shows "bound_at (mirror_all bs) 1 (- cur) = map_option mirror (bound_at bs (- 1) cur)"
proof (cases "bound_at bs (- 1) cur")
  case None
  then have "\<forall>b\<in>set bs. \<not> (cur > lower b \<and> cur \<le> upper b)"
    by (simp add: bound_at_def find_None_iff)
  then have "bound_at (mirror_all bs) 1 (- cur) = None" by (auto simp: bound_at_def find_None_iff)
  with None show ?thesis by simp
next
  case (Some b)
  then show ?thesis
    using bound_at_iff [OF assms, of "- 1" cur b]
      bound_at_iff [OF ordered_mirror_all [OF assms], of 1 "- cur" "mirror b"] by auto
qed

lemma filter_mirror:
  "filter (\<lambda>b. lower b > - cur) (mirror_all bs) = rev (map mirror (filter (\<lambda>b. upper b < cur) bs))"
  by (simp add: mirror_all_def rev_filter [symmetric] filter_map comp_def)

lemma traverse_loop_mirror:
  assumes "ordered bs" and "rem < 0"
  shows "traverse_loop bs (- 1) cur rem = - traverse_loop (mirror_all bs) 1 (- cur) (- rem)"
  using assms(2)
proof (induction "ahead bs (- 1) cur" arbitrary: cur rem rule: less_induct)
  case less
  show ?case
  proof (cases "bound_at bs (- 1) cur")
    case (Some b)
    then have b: "b \<in> set bs" "lower b < cur" using bound_at_Some [OF Some] by auto
    have m: "bound_at (mirror_all bs) 1 (- cur) = Some (mirror b)"
      using bound_at_mirror [OF assms(1)] Some by simp
    have "traverse_loop bs (- 1) cur rem =
        (if - rem \<le> cur - lower b then cur + rem else traverse_loop bs (- 1) (lower b) (rem + (cur - lower b)))"
      by (subst traverse_loop.simps) (use Some less.prems in \<open>auto simp: Let_def min_def\<close>)
    then show ?thesis
      using forward_inside(1) [OF ordered_mirror_all [OF assms(1)] m, of "- rem"] less.prems b
        less.hyps [of "lower b" "rem + (cur - lower b)"] ahead_less [of "lower b" bs "- 1" cur]
      by (auto simp: algebra_simps)
  next
    case None
    then have m: "bound_at (mirror_all bs) 1 (- cur) = None"
      using bound_at_mirror [OF assms(1)] by simp
    note fwd = forward_outside [OF ordered_mirror_all [OF assms(1)] m, of "- rem"]
    have unf: "traverse_loop bs (- 1) cur rem = (case filter (\<lambda>b. upper b < cur) bs of
        [] \<Rightarrow> cur | b # bs' \<Rightarrow> traverse_loop bs (- 1) (upper (last (b # bs'))) rem)"
      by (subst traverse_loop.simps) (use None less.prems in simp)
    show ?thesis
    proof (cases "filter (\<lambda>b. upper b < cur) bs" rule: rev_cases)
      case Nil
      then show ?thesis using unf fwd(1) filter_mirror [of cur bs] less.prems by simp
    next
      case (snoc bs' b)
      then have "b \<in> set (filter (\<lambda>b. upper b < cur) bs)" by simp
      then have b: "b \<in> set bs" "upper b < cur" by auto
      have "traverse_loop bs (- 1) cur rem = traverse_loop bs (- 1) (upper b) rem"
        unfolding unf using snoc by (cases bs') simp_all
      then show ?thesis
        using fwd(2) [of "mirror b"] filter_mirror [of cur bs] snoc less.prems b
          less.hyps [of "upper b" rem] ahead_less [of "upper b" bs "- 1" cur] by auto
    qed
  qed
qed

lemma traverse_loop_backward:
  assumes "ordered bs" and "rem < 0" and "\<forall>b\<in>set bs. M \<le> lower b"
  shows "traverse_loop bs (- 1) cur rem \<le> cur \<and>
    ground bs (traverse_loop bs (- 1) cur rem) cur = min (- rem) (ground bs (min cur M) cur)"
  using traverse_loop_forward [OF ordered_mirror_all [OF assms(1)], of "- rem" "- M" "- cur"] assms
    ground_mirror_all [of bs cur "traverse_loop bs (- 1) cur rem"] ground_mirror_all [of bs cur "min cur M"]
  by (simp add: traverse_loop_mirror minus_min_eq_max)


section \<open>Properties\<close>

text \<open>
  On ordered, non-overlapping bounds \<open>findInsertPosition\<close> returns the number of bounds
  that end at or before the target, and the offset of the target inside the next bound when that
  bound contains it, \<open>0\<close> otherwise; the target is covered exactly when the bound at the index
  starts at or before it.
\<close>

theorem findInsertPosition_spec:
  fixes bs :: "'a::linordered_idom bounds list"
  assumes "ordered bs" and r_def: "r = findInsertPosition id bs t"
  shows "index r \<le> length bs \<and>
    (\<forall>i<index r. upper (bs ! i) \<le> t) \<and>
    (\<forall>i. index r \<le> i \<longrightarrow> i < length bs \<longrightarrow> t < upper (bs ! i)) \<and>
    (t \<in> covered bs \<longleftrightarrow> index r < length bs \<and> lower (bs ! index r) \<le> t) \<and>
    position r = (if t \<in> covered bs then t - lower (bs ! index r) else 0)"
proof (intro conjI)
  obtain A R where s: "bs = A @ R" "\<forall>a\<in>set A. upper a \<le> t" "R = [] \<or> \<not> upper (hd R) \<le> t"
    by (rule takeWhile_split [of bs "\<lambda>b. upper b \<le> t"])
  have R: "R = [] \<or> t < upper (hd R)" using s(3) by auto
  have r: "r = \<lparr>index = length A, position = offset_in R t\<rparr>"
    unfolding r_def s(1) by (rule findInsertPosition_split) (use s(1,2) R ordered_valid [OF assms(1)] in auto)
  have after: "\<forall>b\<in>set R. t < upper b"
    using ordered_after [OF _ R] assms(1) s(1) by (auto simp: ordered_append)
  have cov: "t \<in> covered bs \<longleftrightarrow> R \<noteq> [] \<and> lower (hd R) \<le> t"
    using s(1,2) after assms(1)
    by (cases R) (force simp: covered_def points_def ordered_append ordered_Cons)+
  show "index r \<le> length bs" and "\<forall>i<index r. upper (bs ! i) \<le> t"
    using s(1,2) r by (auto simp: nth_append)
  show "\<forall>i. index r \<le> i \<longrightarrow> i < length bs \<longrightarrow> t < upper (bs ! i)"
    using s(1) r after by (auto simp: nth_append)
  show "t \<in> covered bs \<longleftrightarrow> index r < length bs \<and> lower (bs ! index r) \<le> t"
    using cov s(1) r by (cases R) auto
  show "position r = (if t \<in> covered bs then t - lower (bs ! index r) else 0)"
    using cov s(1) r by (cases R) (auto simp: offset_in_def)
qed

theorem findInsertPosition_spec_witness:
  "ordered [\<lparr>lower = 0, upper = 10\<rparr>, \<lparr>lower = 20, upper = (30::int)\<rparr>] \<and>
   findInsertPosition id [\<lparr>lower = 0, upper = 10\<rparr>, \<lparr>lower = 20, upper = (30::int)\<rparr>] 25 = \<lparr>index = 1, position = 5\<rparr> \<and>
   25 \<in> covered [\<lparr>lower = 0, upper = 10\<rparr>, \<lparr>lower = 20, upper = (30::int)\<rparr>]"
proof -
  let ?bs = "[\<lparr>lower = 0, upper = 10\<rparr>, \<lparr>lower = 20, upper = (30::int)\<rparr>]"
  have o: "ordered ?bs" by (simp add: ordered_def)
  have r: "\<lparr>index = 1, position = 5\<rparr> = findInsertPosition id ?bs 25"
    by (simp add: findInsertPosition_def construct_bounds_def makeValid_def contains_def)
  show ?thesis using o r [symmetric] findInsertPosition_spec [OF o r] by auto
qed

text \<open>
  C34: For ordered, non-overlapping bounds and a non-empty new bound that does not lie strictly inside the
  first bound, and for a conversion to numbers that is exact on distances up to the widths of the bounds
  (always for numbers, up to 2^53 for bigints), buildInsertionPlan gives a correct merge: when it returns
  null the new bound is already covered, and otherwise trimming the new bound and splicing it in as the plan
  says leaves ordered, non-overlapping bounds that cover exactly the old points and the new ones. (For a
  bound strictly inside the first one the plan is not null, against the documentation.)
\<close>

theorem insertion_plan_merges:
  assumes "ordered bs" and "lower v < upper v"
    and "\<not> (bs \<noteq> [] \<and> lower (hd bs) < lower v \<and> upper v < upper (hd bs))"
    and "num 0 = 0" and "\<forall>b\<in>set bs. \<forall>x. 0 \<le> x \<and> x \<le> upper b - lower b \<longrightarrow> num x = x"
  shows "case buildInsertionPlan num bs v of
           None \<Rightarrow> points v \<subseteq> covered bs
         | Some p \<Rightarrow> ordered (apply_plan bs v p) \<and> covered (apply_plan bs v p) = covered bs \<union> points v"
proof -
  have "exact_on num bs" using assms(4,5) by (simp add: exact_on_def)
  from buildInsertionPlan_exact [OF this assms(1), of v] buildInsertionPlan_correct [OF assms(1-3)]
  show ?thesis by (simp add: plan_correct_def split: option.splits)
qed

theorem insertion_plan_merges_witness:
  "case buildInsertionPlan bigint_to_number [\<lparr>lower = 0, upper = 10\<rparr>, \<lparr>lower = 20, upper = 30\<rparr>] \<lparr>lower = 5, upper = 25\<rparr> of
     None \<Rightarrow> False
   | Some p \<Rightarrow> apply_plan [\<lparr>lower = 0, upper = 10\<rparr>, \<lparr>lower = 20, upper = 30\<rparr>] \<lparr>lower = 5, upper = 25\<rparr> p =
        [\<lparr>lower = 0, upper = 10\<rparr>, \<lparr>lower = 10, upper = 20\<rparr>, \<lparr>lower = 20, upper = 30\<rparr>] \<and>
        ordered (apply_plan [\<lparr>lower = 0, upper = 10\<rparr>, \<lparr>lower = 20, upper = 30\<rparr>] \<lparr>lower = 5, upper = 25\<rparr> p)"
  using insertion_plan_merges
    [of "[\<lparr>lower = 0, upper = 10\<rparr>, \<lparr>lower = 20, upper = 30\<rparr>]" "\<lparr>lower = 5, upper = 25\<rparr>" bigint_to_number]
  by (simp add: buildInsertionPlan_def findInsertPosition_def construct_bounds_def makeValid_def
      contains_def Let_def span_def apply_plan_def trimmed_def splice_at_def ordered_def)

text \<open>
  The documentation promises a \<open>null\<close> plan for a bound that is entirely contained in an
  existing bound.  For a bound strictly inside the first bound the code returns a plan instead: it
  inserts at the front and asks to remove from the end of the new bound more than its whole span.
\<close>

theorem insertion_plan_first_bound:
  assumes "ordered (b # bs)" and "lower v < upper v" and "lower b < lower v" and "upper v < upper b"
  shows "contains_bounds b v \<and>
    buildInsertionPlan id (b # bs) v =
      Some \<lparr>removeBefore = 0, removeAfter = upper v - lower b, insertInto = 0, deleteInBetween = 0\<rparr> \<and>
    span v < upper v - lower b"
  using assms buildInsertionPlan_first [OF assms]
  by (simp add: contains_bounds_def span_def construct_bounds_id Let_def ordered_Cons)

theorem insertion_plan_first_bound_witness:
  "ordered [\<lparr>lower = 0, upper = (10::int)\<rparr>] \<and>
   buildInsertionPlan id [\<lparr>lower = 0, upper = (10::int)\<rparr>] \<lparr>lower = 1, upper = 9\<rparr> =
     Some \<lparr>removeBefore = 0, removeAfter = 9, insertInto = 0, deleteInBetween = 0\<rparr>"
proof -
  have o: "ordered [\<lparr>lower = 0, upper = (10::int)\<rparr>]" by (simp add: ordered_def)
  show ?thesis using o insertion_plan_first_bound [OF o, of "\<lparr>lower = 1, upper = 9\<rparr>"] by simp
qed

text \<open>
  Over ordered, non-overlapping bounds \<open>traverse\<close> terminates (it is a total function) and
  walks in the direction of the distance over exactly the requested amount of covered ground, or
  over all the ground that is left in that direction when there is less; the ground is measured by
  \<open>distance\<close>.
\<close>

theorem traverse_covers_distance:
  fixes bs :: "'a::linordered_idom bounds list"
  assumes "ordered bs" and "bs \<noteq> []" and stop_def: "stop = traverse bs start dist0"
  shows "(dist0 > 0 \<longrightarrow> start \<le> stop \<and>
      distance bs start stop = min dist0 (distance bs start (max start (upper (last bs))))) \<and>
    (dist0 < 0 \<longrightarrow> stop \<le> start \<and>
      distance bs start stop = min (- dist0) (distance bs start (min start (lower (hd bs))))) \<and>
    (dist0 = 0 \<longrightarrow> stop = start)"
proof (intro conjI impI)
  note val = ordered_valid [OF assms(1)]
  have m: "map construct_bounds bs = bs" using assms(1) by (rule ordered_map_construct)
  have U: "\<forall>b\<in>set bs. upper b \<le> upper (last bs)"
    using assms(1,2) by (cases bs rule: rev_cases) (force simp: ordered_append ordered_Cons)+
  have L: "\<forall>b\<in>set bs. lower (hd bs) \<le> lower b"
    using assms(1,2) by (cases bs) (force simp: ordered_Cons)+
  show fwd: "start \<le> stop" "distance bs start stop = min dist0 (distance bs start (max start (upper (last bs))))"
    if "dist0 > 0"
    using traverse_loop_forward [OF assms(1) that U, of start] that
    by (simp_all add: stop_def traverse_def m distance_ground [OF val])
  show bwd: "stop \<le> start" "distance bs start stop = min (- dist0) (distance bs start (min start (lower (hd bs))))"
    if "dist0 < 0"
    using traverse_loop_backward [OF assms(1) that L, of start] that
    by (simp_all add: stop_def traverse_def m distance_ground [OF val])
  show "stop = start" if "dist0 = 0" using that by (simp add: stop_def traverse_def)
qed

theorem traverse_covers_distance_witness:
  "ordered [\<lparr>lower = 0, upper = 10\<rparr>, \<lparr>lower = 20, upper = (30::int)\<rparr>] \<and>
   distance [\<lparr>lower = 0, upper = 10\<rparr>, \<lparr>lower = 20, upper = 30\<rparr>] 5
     (traverse [\<lparr>lower = 0, upper = 10\<rparr>, \<lparr>lower = 20, upper = (30::int)\<rparr>] 5 10) = 10"
proof -
  let ?bs = "[\<lparr>lower = 0, upper = 10\<rparr>, \<lparr>lower = 20, upper = (30::int)\<rparr>]"
  have o: "ordered ?bs" by (simp add: ordered_def)
  have "distance ?bs 5 30 = 15"
    by (simp add: distance_def construct_bounds_def makeValid_def overlap_span_def Let_def)
  then show ?thesis using o traverse_covers_distance [OF o _ refl, of 10 5] by simp
qed

text \<open>
  \<open>distance\<close> is symmetric, zero between equal points, never negative, additive over an
  intermediate point, and equal to the plain difference between two points of the same bound.
\<close>

theorem distance_measures_ground:
  assumes "ordered bs"
  shows "distance bs a b = distance bs b a \<and> distance bs a a = 0 \<and> 0 \<le> distance bs a b \<and>
    (a \<le> b \<longrightarrow> b \<le> c \<longrightarrow> distance bs a c = distance bs a b + distance bs b c) \<and>
    (\<forall>x\<in>set bs. lower x \<le> a \<longrightarrow> a \<le> b \<longrightarrow> b \<le> upper x \<longrightarrow> distance bs a b = b - a)"
  using ground_add [of a b c bs] ordered_valid [OF assms] ground_inside [OF assms, of _ a b]
  by (simp add: distance_ground min.commute max.commute ground_refl ground_nonneg)

theorem distance_measures_ground_witness:
  "ordered [\<lparr>lower = 0, upper = (10::int)\<rparr>] \<and> distance [\<lparr>lower = 0, upper = 10\<rparr>] 2 (7::int) = 5"
proof -
  have o: "ordered [\<lparr>lower = 0, upper = (10::int)\<rparr>]" by (simp add: ordered_def)
  show ?thesis using o distance_measures_ground [OF o, of 2 7 7] by simp
qed

text \<open>
  For bounds that are not empty, \<open>overlapsWith\<close> holds exactly when the two half-open
  intervals have a point in common.
\<close>

theorem overlapsWith_iff_common_point:
  assumes "lower a < upper a" and "lower b < upper b"
  shows "overlapsWith a b \<longleftrightarrow> points a \<inter> points b \<noteq> {}"
proof -
  have "points a \<inter> points b \<noteq> {} \<longleftrightarrow> lower a < upper b \<and> lower b < upper a"
  proof
    assume "lower a < upper b \<and> lower b < upper a"
    then have "max (lower a) (lower b) \<in> points a \<inter> points b" using assms by (auto simp: points_def)
    then show "points a \<inter> points b \<noteq> {}" by blast
  qed (auto simp: points_def)
  moreover have "overlapsWith a b \<longleftrightarrow> lower a < upper b \<and> lower b < upper a"
    using assms by (auto simp: overlapsWith_def contains_def construct_bounds_id Let_def)
  ultimately show ?thesis by simp
qed

theorem overlapsWith_iff_common_point_witness:
  "overlapsWith \<lparr>lower = 0, upper = (10::int)\<rparr> \<lparr>lower = 9, upper = 12\<rparr> \<and>
   points \<lparr>lower = 0, upper = (10::int)\<rparr> \<inter> points \<lparr>lower = 9, upper = 12\<rparr> \<noteq> {}"
proof -
  have "overlapsWith \<lparr>lower = 0, upper = (10::int)\<rparr> \<lparr>lower = 9, upper = 12\<rparr>"
    by (simp add: overlapsWith_def contains_def construct_bounds_def makeValid_def)
  then show ?thesis
    using overlapsWith_iff_common_point [of "\<lparr>lower = 0, upper = (10::int)\<rparr>" "\<lparr>lower = 9, upper = 12\<rparr>"]
    by simp
qed

end
