(* ===== verification/Time_Types.thy ===== *)
theory Time_Types
  imports Numeric
begin

text \<open>
  The time types of \<open>x/ts/src/telem/telem.ts\<close>: \<open>TimeStamp\<close>, \<open>TimeSpan\<close>, \<open>Rate\<close>, \<open>Density\<close>,
  \<open>TimeRange\<close> and \<open>Size\<close>.  A \<open>TimeStamp\<close> and a \<open>TimeSpan\<close> hold one immutable bigint, so each is
  that \<open>int\<close>; a \<open>Rate\<close>, \<open>Density\<close> or \<open>Size\<close> extends \<open>Number\<close> and is a \<open>rat\<close>.  Bigint division and
  remainder truncate towards zero (\<open>sdiv\<close>, \<open>smod\<close>).  The clock (\<open>TimeStamp.now\<close>) and the local
  UTC offset are arguments.  Calendar arithmetic and string formats, which the sources leave to the
  engine's \<open>Date\<close>, are not modelled.
\<close>

section \<open>TimeSpan\<close>

type_synonym timestamp = int
type_synonym timespan = int

text \<open>
  A \<open>number\<close> argument may be infinite or NaN; the branches of the constructors distinguish them.
\<close>

datatype jsnum = NaN | PosInf | NegInf | Fin rat

datatype crude_span = SpanBig int | SpanNum jsnum

definition newTimeSpan :: "crude_span \<Rightarrow> timespan result" where
  "newTimeSpan v =
     (case v of
        SpanBig b \<Rightarrow> return b
      | SpanNum n \<Rightarrow>
          (case n of
             Fin r \<Rightarrow> return (math_trunc r)
           | _ \<Rightarrow> throw ''RangeError: not an integer''))"

text \<open>The unit constructors, for a finite number of units.\<close>

definition nanoseconds :: "rat \<Rightarrow> timespan" where
  "nanoseconds value = math_trunc value"

definition microseconds :: "rat \<Rightarrow> timespan" where
  "microseconds value = nanoseconds (value * 1000)"

definition milliseconds :: "rat \<Rightarrow> timespan" where
  "milliseconds value = microseconds (value * 1000)"

definition seconds :: "rat \<Rightarrow> timespan" where
  "seconds value = milliseconds (value * 1000)"

definition minutes :: "rat \<Rightarrow> timespan" where
  "minutes value = seconds (value * 60)"

definition hours :: "rat \<Rightarrow> timespan" where
  "hours value = minutes (value * 60)"

definition days :: "rat \<Rightarrow> timespan" where
  "days value = hours (value * 24)"

definition NANOSECOND :: timespan where "NANOSECOND = nanoseconds 1"
definition MICROSECOND :: timespan where "MICROSECOND = microseconds 1"
definition MILLISECOND :: timespan where "MILLISECOND = milliseconds 1"
definition SECOND :: timespan where "SECOND = seconds 1"
definition MINUTE :: timespan where "MINUTE = minutes 1"
definition HOUR :: timespan where "HOUR = hours 1"
definition DAY :: timespan where "DAY = days 1"

definition SPAN_MAX :: timespan where "SPAN_MAX = 2 ^ 63 - 1"
definition SPAN_MIN :: timespan where "SPAN_MIN = 0"
definition SPAN_ZERO :: timespan where "SPAN_ZERO = 0"

definition lessThan :: "timespan \<Rightarrow> timespan \<Rightarrow> bool" where
  "lessThan a b \<longleftrightarrow> a < b"

definition greaterThan :: "timespan \<Rightarrow> timespan \<Rightarrow> bool" where
  "greaterThan a b \<longleftrightarrow> a > b"

definition lessThanOrEqual :: "timespan \<Rightarrow> timespan \<Rightarrow> bool" where
  "lessThanOrEqual a b \<longleftrightarrow> a \<le> b"

definition greaterThanOrEqual :: "timespan \<Rightarrow> timespan \<Rightarrow> bool" where
  "greaterThanOrEqual a b \<longleftrightarrow> a \<ge> b"

definition span_isZero :: "timespan \<Rightarrow> bool" where
  "span_isZero a \<longleftrightarrow> a = 0"

definition span_equals :: "timespan \<Rightarrow> timespan \<Rightarrow> bool" where
  "span_equals a b \<longleftrightarrow> a = b"

definition span_add :: "timespan \<Rightarrow> timespan \<Rightarrow> timespan" where
  "span_add a b = a + b"

definition span_sub :: "timespan \<Rightarrow> timespan \<Rightarrow> timespan" where
  "span_sub a b = a - b"

text \<open>\<open>BigInt(value)\<close> of a number that is not an integer throws.\<close>

definition span_mult :: "timespan \<Rightarrow> rat \<Rightarrow> timespan result" where
  "span_mult a value = bind_result (to_bigint (Num value)) (\<lambda>v. return (a * v))"

text \<open>The decimal number of units in a span: \<open>Number(this) / Number(unit)\<close>.\<close>

definition in_units :: "timespan \<Rightarrow> timespan \<Rightarrow> rat" where
  "in_units unit a = of_int (bigint_to_number a) / of_int (bigint_to_number unit)"

definition span_days :: "timespan \<Rightarrow> rat" where "span_days = in_units DAY"
definition span_hours :: "timespan \<Rightarrow> rat" where "span_hours = in_units HOUR"
definition span_minutes :: "timespan \<Rightarrow> rat" where "span_minutes = in_units MINUTE"
definition span_seconds :: "timespan \<Rightarrow> rat" where "span_seconds = in_units SECOND"
definition span_milliseconds :: "timespan \<Rightarrow> rat" where "span_milliseconds = in_units MILLISECOND"
definition span_microseconds :: "timespan \<Rightarrow> rat" where "span_microseconds = in_units MICROSECOND"
definition span_nanoseconds :: "timespan \<Rightarrow> rat" where
  "span_nanoseconds a = of_int (bigint_to_number a)"

text \<open>The module-level \<open>remainder\<close>: only the seven unit spans are accepted as divisors.\<close>

definition remainder :: "int \<Rightarrow> int \<Rightarrow> int result" where
  "remainder value divisor =
     (if divisor \<notin> set [DAY, HOUR, MINUTE, SECOND, MILLISECOND, MICROSECOND, NANOSECOND]
      then throw ''Invalid argument for remainder. Must be an even TimeSpan or Timestamp''
      else return (value smod divisor))"

definition span_remainder :: "timespan \<Rightarrow> timespan \<Rightarrow> timespan result" where
  "span_remainder a divisor = remainder a divisor"

text \<open>\<open>TimeSpan.truncate\<close> converts the quotient to a number and back.\<close>

definition span_truncate :: "timespan \<Rightarrow> timespan \<Rightarrow> timespan result" where
  "span_truncate a unit =
     (if unit = 0 then throw ''RangeError: Division by zero''
      else return (bigint_to_number (a sdiv unit) * unit))"

text \<open>
  \<open>toString\<close> splits a span into whole days, hours, minutes, seconds, milliseconds, microseconds and
  nanoseconds; \<open>span_truncated\<close> is \<open>truncate\<close> by a unit constant, which cannot throw.
\<close>

definition span_truncated :: "timespan \<Rightarrow> timespan \<Rightarrow> timespan" where
  "span_truncated a unit = bigint_to_number (a sdiv unit) * unit"

definition span_components :: "timespan \<Rightarrow> (timespan \<times> string) list" where
  "span_components a =
     (let totalDays = span_truncated a DAY; totalHours = span_truncated a HOUR;
          totalMinutes = span_truncated a MINUTE; totalSeconds = span_truncated a SECOND;
          totalMilliseconds = span_truncated a MILLISECOND;
          totalMicroseconds = span_truncated a MICROSECOND;
          totalNanoseconds = span_truncated a NANOSECOND
      in filter (\<lambda>(v, _). \<not> span_isZero v)
           [(totalDays, ''d''), (span_sub totalHours totalDays, ''h''),
            (span_sub totalMinutes totalHours, ''m''), (span_sub totalSeconds totalMinutes, ''s''),
            (span_sub totalMilliseconds totalSeconds, ''ms''),
            (span_sub totalMicroseconds totalMilliseconds, ''us''),
            (span_sub totalNanoseconds totalMicroseconds, ''ns'')])"

section \<open>TimeStamp\<close>

datatype tz_info = UTC | LOCAL

datatype crude_timestamp = StampBig int | StampNum jsnum | StampDate int

definition STAMP_MAX :: timestamp where "STAMP_MAX = 2 ^ 63 - 1"
definition STAMP_MIN :: timestamp where "STAMP_MIN = 0"
definition STAMP_ZERO :: timestamp where "STAMP_ZERO = 0"

text \<open>
  The constructor, on the bigint-like forms (\<open>bigint\<close>, \<open>TimeStamp\<close>, \<open>TimeSpan\<close>), the numeric form
  and a \<open>Date\<close> given by its \<open>getTime()\<close> in milliseconds.  A missing value is the clock.
\<close>

definition newTimeStamp ::
    "timestamp \<Rightarrow> timespan \<Rightarrow> crude_timestamp option \<Rightarrow> tz_info \<Rightarrow> timestamp" where
  "newTimeStamp now utcOffset v tz =
     (let offset = (if tz = LOCAL then utcOffset else 0)
      in case v of
           None \<Rightarrow> now
         | Some (StampDate ms) \<Rightarrow> ms * MILLISECOND
         | Some (StampBig b) \<Rightarrow> b + offset
         | Some (StampNum n) \<Rightarrow>
             (case n of
                Fin r \<Rightarrow> math_trunc r + offset
              | PosInf \<Rightarrow> STAMP_MAX + offset
              | NegInf \<Rightarrow> STAMP_MIN + offset
              | NaN \<Rightarrow> STAMP_MIN + offset))"

definition stamp_equals :: "timestamp \<Rightarrow> timestamp \<Rightarrow> bool" where
  "stamp_equals a b \<longleftrightarrow> a = b"

definition stamp_isZero :: "timestamp \<Rightarrow> bool" where
  "stamp_isZero a \<longleftrightarrow> a = 0"

definition after :: "timestamp \<Rightarrow> timestamp \<Rightarrow> bool" where
  "after a b \<longleftrightarrow> a > b"

definition afterEq :: "timestamp \<Rightarrow> timestamp \<Rightarrow> bool" where
  "afterEq a b \<longleftrightarrow> a \<ge> b"

definition before :: "timestamp \<Rightarrow> timestamp \<Rightarrow> bool" where
  "before a b \<longleftrightarrow> a < b"

definition beforeEq :: "timestamp \<Rightarrow> timestamp \<Rightarrow> bool" where
  "beforeEq a b \<longleftrightarrow> a \<le> b"

definition stamp_add :: "timestamp \<Rightarrow> timespan \<Rightarrow> timestamp" where
  "stamp_add a s = a + s"

definition stamp_sub :: "timestamp \<Rightarrow> timespan \<Rightarrow> timestamp" where
  "stamp_sub a s = a - s"

definition stamp_remainder :: "timestamp \<Rightarrow> timespan \<Rightarrow> timestamp result" where
  "stamp_remainder a divisor = remainder a divisor"

definition stamp_truncate :: "timestamp \<Rightarrow> timespan \<Rightarrow> timestamp result" where
  "stamp_truncate a unit = bind_result (stamp_remainder a unit) (\<lambda>r. return (stamp_sub a r))"

definition isToday :: "timestamp \<Rightarrow> timestamp \<Rightarrow> bool" where
  "isToday now a \<longleftrightarrow> stamp_truncate a DAY = stamp_truncate now DAY"

definition stamp_max :: "timestamp list \<Rightarrow> timestamp" where
  "stamp_max tss = foldl (\<lambda>m t. if after t m then t else m) STAMP_MIN tss"

definition stamp_min :: "timestamp list \<Rightarrow> timestamp" where
  "stamp_min tss = foldl (\<lambda>m t. if before t m then t else m) STAMP_MAX tss"

definition stamp_days :: "timestamp \<Rightarrow> rat" where "stamp_days = in_units DAY"
definition stamp_hours :: "timestamp \<Rightarrow> rat" where "stamp_hours = in_units HOUR"
definition stamp_minutes :: "timestamp \<Rightarrow> rat" where "stamp_minutes = in_units MINUTE"
definition stamp_seconds :: "timestamp \<Rightarrow> rat" where "stamp_seconds = in_units SECOND"
definition stamp_milliseconds :: "timestamp \<Rightarrow> rat" where "stamp_milliseconds = in_units MILLISECOND"
definition stamp_microseconds :: "timestamp \<Rightarrow> rat" where "stamp_microseconds = in_units MICROSECOND"
definition stamp_nanoseconds :: "timestamp \<Rightarrow> rat" where
  "stamp_nanoseconds a = of_int (bigint_to_number a)"

text \<open>The unit constructors of \<open>TimeStamp\<close> truncate as those of \<open>TimeSpan\<close> do.\<close>

definition stamp_of_nanoseconds :: "rat \<Rightarrow> timestamp" where
  "stamp_of_nanoseconds value = math_trunc value"

definition stamp_of_microseconds :: "rat \<Rightarrow> timestamp" where
  "stamp_of_microseconds value = stamp_of_nanoseconds (value * 1000)"

definition stamp_of_milliseconds :: "rat \<Rightarrow> timestamp" where
  "stamp_of_milliseconds value = stamp_of_microseconds (value * 1000)"

definition stamp_of_seconds :: "rat \<Rightarrow> timestamp" where
  "stamp_of_seconds value = stamp_of_milliseconds (value * 1000)"

definition stamp_of_minutes :: "rat \<Rightarrow> timestamp" where
  "stamp_of_minutes value = stamp_of_seconds (value * 60)"

definition stamp_of_hours :: "rat \<Rightarrow> timestamp" where
  "stamp_of_hours value = stamp_of_minutes (value * 60)"

definition stamp_of_days :: "rat \<Rightarrow> timestamp" where
  "stamp_of_days value = stamp_of_hours (value * 24)"

section \<open>TimeRange\<close>

record time_range =
  start :: timestamp
  "end" :: timestamp

definition newTimeRange :: "timestamp \<Rightarrow> timestamp \<Rightarrow> time_range" where
  "newTimeRange s e = \<lparr>start = s, end = e\<rparr>"

definition range_span :: "time_range \<Rightarrow> timespan" where
  "range_span tr = end tr - start tr"

definition range_isValid :: "time_range \<Rightarrow> bool" where
  "range_isValid tr \<longleftrightarrow> start tr \<le> end tr"

definition range_swap :: "time_range \<Rightarrow> time_range" where
  "range_swap tr = newTimeRange (end tr) (start tr)"

definition range_makeValid :: "time_range \<Rightarrow> time_range" where
  "range_makeValid tr = (if range_isValid tr then tr else range_swap tr)"

definition range_isZero :: "time_range \<Rightarrow> bool" where
  "range_isZero tr \<longleftrightarrow> span_isZero (range_span tr)"

definition range_numeric :: "time_range \<Rightarrow> int \<times> int" where
  "range_numeric tr = (bigint_to_number (start tr), bigint_to_number (end tr))"

definition range_equals :: "time_range \<Rightarrow> time_range \<Rightarrow> bool" where
  "range_equals a b \<longleftrightarrow> stamp_equals (start a) (start b) \<and> stamp_equals (end a) (end b)"

definition RANGE_MAX :: time_range where "RANGE_MAX = newTimeRange STAMP_MIN STAMP_MAX"
definition RANGE_MIN :: time_range where "RANGE_MIN = newTimeRange STAMP_MAX STAMP_MIN"
definition RANGE_ZERO :: time_range where "RANGE_ZERO = newTimeRange STAMP_ZERO STAMP_ZERO"

definition range_overlapsWith :: "time_range \<Rightarrow> time_range \<Rightarrow> timespan \<Rightarrow> bool" where
  "range_overlapsWith this other0 delta =
     (let other = range_makeValid other0; rng = range_makeValid this
      in if range_equals this other then True
         else if stamp_equals (end other) (start rng) \<or> stamp_equals (end rng) (start other) then False
         else
           let startOverlap = stamp_max [start rng, start other];
               endOverlap = stamp_min [end rng, end other]
           in if before endOverlap startOverlap then False
              else greaterThanOrEqual (stamp_sub endOverlap startOverlap) delta)"

definition roughlyEquals :: "time_range \<Rightarrow> time_range \<Rightarrow> timespan \<Rightarrow> bool" where
  "roughlyEquals this other delta =
     (let startDist = stamp_sub (start this) (start other);
          endDist = stamp_sub (end this) (end other);
          startDist' = (if startDist < 0 then - startDist else startDist);
          endDist' = (if endDist < 0 then - endDist else endDist)
      in startDist' \<le> delta \<and> endDist' \<le> delta)"

definition range_contains_stamp :: "time_range \<Rightarrow> timestamp \<Rightarrow> bool" where
  "range_contains_stamp this ts \<longleftrightarrow> beforeEq (start this) ts \<and> after (end this) ts"

definition range_contains :: "time_range \<Rightarrow> time_range \<Rightarrow> bool" where
  "range_contains this other \<longleftrightarrow>
     range_contains_stamp this (start other) \<and> range_contains_stamp this (end other)"

definition boundBy :: "time_range \<Rightarrow> time_range \<Rightarrow> time_range" where
  "boundBy this other =
     (let n0 = newTimeRange (start this) (end this);
          n1 = (if after (start other) (start this) then n0\<lparr>start := start other\<rparr> else n0);
          n2 = (if after (start other) (end this) then n1\<lparr>end := start other\<rparr> else n1);
          n3 = (if before (end other) (end this) then n2\<lparr>end := end other\<rparr> else n2);
          n4 = (if before (end other) (start this) then n3\<lparr>start := end other\<rparr> else n3)
      in n4)"

definition sortTimeRange :: "time_range \<Rightarrow> time_range \<Rightarrow> int" where
  "sortTimeRange a b =
     (if before (start a) (start b) then - 1
      else if after (start a) (start b) then 1
      else if before (end a) (end b) then - 1
      else if after (end a) (end b) then 1
      else 0)"

text \<open>The methods of \<open>TimeStamp\<close> that build ranges.\<close>

definition stamp_range :: "timestamp \<Rightarrow> timestamp \<Rightarrow> time_range" where
  "stamp_range a b = range_makeValid (newTimeRange a b)"

definition stamp_span :: "timestamp \<Rightarrow> timestamp \<Rightarrow> timespan" where
  "stamp_span a b = range_span (stamp_range a b)"

definition spanRange :: "timestamp \<Rightarrow> timespan \<Rightarrow> time_range" where
  "spanRange a s = range_makeValid (stamp_range a (stamp_add a s))"

definition since :: "timestamp \<Rightarrow> timestamp \<Rightarrow> timespan" where
  "since now other = stamp_span now other"

section \<open>Rate, Density and Size\<close>

type_synonym rate = rat
type_synonym density = rat
type_synonym size = rat

text \<open>A division by zero is an infinity in the language, and \<open>BigInt\<close> of an infinity throws.\<close>

definition period :: "rate \<Rightarrow> timespan result" where
  "period r = (if r = 0 then throw ''RangeError: not an integer'' else return (seconds (1 / r)))"

definition sampleCount :: "rate \<Rightarrow> timespan \<Rightarrow> rat" where
  "sampleCount r duration = span_seconds duration * r"

definition byteCount :: "rate \<Rightarrow> timespan \<Rightarrow> density \<Rightarrow> rat" where
  "byteCount r s d = sampleCount r s * d"

definition rate_span :: "rate \<Rightarrow> rat \<Rightarrow> timespan result" where
  "rate_span r samples =
     (if r = 0 then throw ''RangeError: not an integer'' else return (seconds (samples / r)))"

definition byteSpan :: "rate \<Rightarrow> size \<Rightarrow> density \<Rightarrow> timespan result" where
  "byteSpan r s d =
     (if d = 0 then throw ''RangeError: not an integer'' else rate_span r (s / d))"

definition rate_equals :: "rate \<Rightarrow> rate \<Rightarrow> bool" where
  "rate_equals a b \<longleftrightarrow> a = b"

text \<open>A crude span given to \<open>TimeSpan.fromSeconds\<close> and \<open>TimeSpan.fromMilliseconds\<close>.\<close>

datatype crude_duration = DurSpan timespan | DurRate rate | DurStamp timestamp | DurNum rat | DurBig int

definition fromSeconds :: "crude_duration \<Rightarrow> timespan result" where
  "fromSeconds c =
     (case c of
        DurSpan s \<Rightarrow> return s
      | DurRate r \<Rightarrow> period r
      | DurStamp t \<Rightarrow> return t
      | DurNum n \<Rightarrow> return (seconds n)
      | DurBig b \<Rightarrow> return (b * 1000 * 1000 * 1000))"

definition fromMilliseconds :: "crude_duration \<Rightarrow> timespan result" where
  "fromMilliseconds c =
     (case c of
        DurSpan s \<Rightarrow> return s
      | DurRate r \<Rightarrow> period r
      | DurStamp t \<Rightarrow> return t
      | DurNum n \<Rightarrow> return (milliseconds n)
      | DurBig b \<Rightarrow> return (b * 1000 * 1000))"

definition hz :: "rat \<Rightarrow> rate" where "hz value = value"
definition khz :: "rat \<Rightarrow> rate" where "khz value = hz (value * 1000)"

definition density_length :: "density \<Rightarrow> size \<Rightarrow> rat" where
  "density_length d s = s / d"

definition density_size :: "density \<Rightarrow> rat \<Rightarrow> size" where
  "density_size d samples = samples * d"

definition size_largerThan :: "size \<Rightarrow> size \<Rightarrow> bool" where "size_largerThan a b \<longleftrightarrow> a > b"
definition size_smallerThan :: "size \<Rightarrow> size \<Rightarrow> bool" where "size_smallerThan a b \<longleftrightarrow> a < b"
definition size_add :: "size \<Rightarrow> size \<Rightarrow> size" where "size_add a b = a + b"
definition size_sub :: "size \<Rightarrow> size \<Rightarrow> size" where "size_sub a b = a - b"

definition size_truncate :: "size \<Rightarrow> size \<Rightarrow> size" where
  "size_truncate a unit = of_int (math_trunc (a / unit)) * unit"

definition size_remainder :: "size \<Rightarrow> size \<Rightarrow> size" where
  "size_remainder a unit = a - of_int (math_trunc (a / unit)) * unit"

definition size_isZero :: "size \<Rightarrow> bool" where "size_isZero a \<longleftrightarrow> a = 0"

definition bytes :: "rat \<Rightarrow> size" where "bytes value = value"
definition kilobytes :: "rat \<Rightarrow> size" where "kilobytes value = bytes (value * 1000)"
definition megabytes :: "rat \<Rightarrow> size" where "megabytes value = kilobytes (value * 1000)"
definition gigabytes :: "rat \<Rightarrow> size" where "gigabytes value = megabytes (value * 1000)"
definition terabytes :: "rat \<Rightarrow> size" where "terabytes value = gigabytes (value * 1000)"
definition BYTE :: size where "BYTE = 1"
definition KILOBYTE :: size where "KILOBYTE = kilobytes 1"
definition MEGABYTE :: size where "MEGABYTE = megabytes 1"
definition GIGABYTE :: size where "GIGABYTE = gigabytes 1"
definition TERABYTE :: size where "TERABYTE = terabytes 1"

text \<open>The parts \<open>Size.toString\<close> prints; a size without parts prints its bytes.\<close>

definition size_components :: "size \<Rightarrow> (size \<times> string) list" where
  "size_components a =
     (let totalTB = size_truncate a TERABYTE; totalGB = size_truncate a GIGABYTE;
          totalMB = size_truncate a MEGABYTE; totalKB = size_truncate a KILOBYTE;
          totalB = size_truncate a BYTE;
          big = filter (\<lambda>(v, _). \<not> size_isZero v)
            [(totalTB, ''TB''), (size_sub totalGB totalTB, ''GB''),
             (size_sub totalMB totalGB, ''MB''), (size_sub totalKB totalMB, ''KB'')];
          b = size_sub totalB totalKB
      in big @ (if \<not> size_isZero b \<or> big = [] then [(b, ''B'')] else []))"


section \<open>Facts about the time types\<close>

lemma unit_values [time_simps]:
  "NANOSECOND = 1" "MICROSECOND = 1000" "MILLISECOND = 1000000" "SECOND = 1000000000"
  "MINUTE = 60000000000" "HOUR = 3600000000000" "DAY = 86400000000000"
  by (simp_all add: NANOSECOND_def MICROSECOND_def MILLISECOND_def SECOND_def MINUTE_def HOUR_def
      DAY_def nanoseconds_def microseconds_def milliseconds_def seconds_def minutes_def hours_def
      days_def math_trunc_def)

lemmas stamp_order_defs [time_simps] = after_def before_def afterEq_def beforeEq_def stamp_equals_def
  stamp_sub_def stamp_add_def greaterThanOrEqual_def span_sub_def span_isZero_def

lemmas range_defs [time_simps] = newTimeRange_def range_makeValid_def range_isValid_def range_swap_def
  range_equals_def range_contains_stamp_def range_contains_def range_span_def

text \<open>\<open>TimeStamp.max\<close> and \<open>TimeStamp.min\<close> start from the least and the greatest timestamp.\<close>

definition representable :: "timestamp \<Rightarrow> bool" where
  "representable t \<longleftrightarrow> STAMP_MIN \<le> t \<and> t \<le> STAMP_MAX"

lemma stamp_max_pair: "representable a \<Longrightarrow> representable b \<Longrightarrow> stamp_max [a, b] = max a b"
  by (auto simp: stamp_max_def after_def representable_def)

lemma stamp_min_pair: "representable a \<Longrightarrow> representable b \<Longrightarrow> stamp_min [a, b] = min a b"
  by (auto simp: stamp_min_def before_def representable_def)

lemma range_makeValid_valid [simp]: "range_isValid (range_makeValid tr)"
  by (auto simp: time_simps)

lemma common_window_iff:
  fixes s e s' e' d :: int
  assumes "0 \<le> d"
  shows "(\<exists>t. s \<le> t \<and> t < e \<and> s' \<le> t \<and> t < e' \<and> (\<forall>u\<in>{t..<t + d}. u < e \<and> u < e')) \<longleftrightarrow>
    max s s' < min e e' \<and> max s s' + d \<le> min e e'"
proof
  assume "\<exists>t. s \<le> t \<and> t < e \<and> s' \<le> t \<and> t < e' \<and> (\<forall>u\<in>{t..<t + d}. u < e \<and> u < e')"
  then obtain t where t: "s \<le> t" "t < e" "s' \<le> t" "t < e'" "\<forall>u\<in>{t..<t + d}. u < e \<and> u < e'"
    by blast
  have "d = 0 \<or> t + d - 1 \<in> {t..<t + d}" using assms by auto
  with t(2,4,5) have "t + d \<le> e \<and> t + d \<le> e'" by force
  with t show "max s s' < min e e' \<and> max s s' + d \<le> min e e'" by auto
next
  assume "max s s' < min e e' \<and> max s s' + d \<le> min e e'"
  then show "\<exists>t. s \<le> t \<and> t < e \<and> s' \<le> t \<and> t < e' \<and> (\<forall>u\<in>{t..<t + d}. u < e \<and> u < e')"
    by (intro exI [of _ "max s s'"]) auto
qed

lemma range_overlapsWith_window:
  assumes "start a < end a" and "start b < end b" and "0 \<le> delta"
    and "representable (start a)" and "representable (end a)"
    and "representable (start b)" and "representable (end b)"
  shows "range_overlapsWith a b delta \<longleftrightarrow>
    a = b \<or> max (start a) (start b) < min (end a) (end b) \<and>
            max (start a) (start b) + delta \<le> min (end a) (end b)"
proof -
  have eq: "range_equals a b \<longleftrightarrow> a = b" by (auto simp: time_simps)
  have v: "range_makeValid a = a" "range_makeValid b = b" using assms by (simp_all add: time_simps)
  show ?thesis
    unfolding range_overlapsWith_def v Let_def eq
      stamp_max_pair [OF assms(4,6)] stamp_min_pair [OF assms(5,7)]
    using assms(1-3) by (auto simp: time_simps max_def min_def split: if_splits)
qed

text \<open>\<open>truncate\<close> rounds towards zero when the quotient is exactly representable.\<close>

lemma span_truncated_exact: "\<bar>a sdiv u\<bar> \<le> 2 ^ 53 \<Longrightarrow> span_truncated a u = a - a smod u"
  by (simp add: span_truncated_def minus_smod_eq_sdiv_mult)

lemma abs_sdiv: "\<bar>a sdiv (u::int)\<bar> = (if u = 0 then 0 else \<bar>a\<bar> div \<bar>u\<bar>)"
proof -
  have "\<bar>a\<bar> div \<bar>u\<bar> \<ge> 0" by (cases "u = 0") (simp_all add: pos_imp_zdiv_nonneg_iff)
  then show ?thesis by (auto simp: signed_divide_int_def abs_mult abs_sgn_eq)
qed

lemma abs_sdiv_le: "\<bar>a sdiv (u::int)\<bar> \<le> \<bar>a\<bar>"
  using zdiv_mono2 [of "\<bar>a\<bar>" 1 "\<bar>u\<bar>"] by (auto simp: abs_sdiv)

text \<open>The part of a span between a unit \<open>u\<close> and the next larger unit \<open>k * u\<close>.\<close>

lemma truncate_difference:
  fixes a u k :: int
  assumes "0 < u" and "0 < k"
  shows "u dvd (a - a smod u) - (a - a smod (k * u))"
    and "\<bar>(a - a smod u) - (a - a smod (k * u))\<bar> < k * u"
    and "0 \<le> a \<Longrightarrow> 0 \<le> (a - a smod u) - (a - a smod (k * u))"
proof -
  define n where "n = \<bar>a\<bar>"
  have d: "(a - a smod u) - (a - a smod (k * u)) = sgn a * (n mod (k * u) - n mod u)"
    using assms by (simp add: signed_modulo_int_def n_def algebra_simps abs_mult)
  have m: "n mod u = n mod (k * u) mod u" by (simp add: mod_mod_cancel)
  have "u dvd n mod (k * u) - n mod u" unfolding m by (rule dvd_minus_mod)
  then show "u dvd (a - a smod u) - (a - a smod (k * u))" unfolding d by simp
  have "0 \<le> n mod (k * u)" using assms by simp
  then have b: "0 \<le> n mod u" "n mod u \<le> n mod (k * u)" "n mod (k * u) < k * u"
    using assms unfolding m by (simp_all add: zmod_le_nonneg_dividend)
  then have "\<bar>n mod (k * u) - n mod u\<bar> < k * u" by linarith
  then show "\<bar>(a - a smod u) - (a - a smod (k * u))\<bar> < k * u"
    unfolding d abs_mult abs_sgn_eq using assms by simp
  show "0 \<le> a \<Longrightarrow> 0 \<le> (a - a smod u) - (a - a smod (k * u))"
    unfolding d using b by (simp add: sgn_if)
qed

lemma unit_part:
  fixes a u k U :: int
  assumes "0 < u" and "0 < k" and "U = k * u"
  shows "u dvd (a - a smod u) - (a - a smod U) \<and> \<bar>(a - a smod u) - (a - a smod U)\<bar> < k * u \<and>
    (0 \<le> a \<longrightarrow> 0 \<le> (a - a smod u) - (a - a smod U))"
  unfolding assms(3) using truncate_difference [OF assms(1,2), of a] by blast

lemma sum_filter_zero:
  "sum_list (map fst (filter (\<lambda>(v, _). \<not> span_isZero v) xs)) = sum_list (map fst xs)"
  by (induction xs) (auto simp: span_isZero_def)

lemma labelled_parts:
  assumes "P h HOUR 24" and "P m MINUTE 60" and "P s SECOND 60" and "P ms MILLISECOND 1000"
    and "P us MICROSECOND 1000" and "P ns NANOSECOND (1000::int)"
  shows "\<forall>(v, l)\<in>set (filter Q [(d, ''d''), (h, ''h''), (m, ''m''), (s, ''s''), (ms, ''ms''),
           (us, ''us''), (ns, ''ns'')]).
         \<forall>(l', u, k)\<in>set [(''h'', HOUR, 24), (''m'', MINUTE, 60), (''s'', SECOND, 60),
            (''ms'', MILLISECOND, 1000), (''us'', MICROSECOND, 1000), (''ns'', NANOSECOND, 1000)].
          l = l' \<longrightarrow> P v u k"
  using assms by auto

lemma math_trunc_bounds: "0 \<le> x \<Longrightarrow> of_int (math_trunc x) \<le> x \<and> x < of_int (math_trunc x) + 1"
  by (simp add: math_trunc_def) linarith

lemma sampleCount_exact: "\<bar>d\<bar> \<le> 2 ^ 53 \<Longrightarrow> sampleCount r d = of_int d / 1000000000 * r"
  by (simp add: sampleCount_def span_seconds_def in_units_def time_simps)

lemma seconds_eq: "seconds x = math_trunc (x * 1000000000)"
  by (simp add: seconds_def milliseconds_def microseconds_def nanoseconds_def mult.assoc)

section \<open>Properties\<close>

text \<open>
  \<open>TimeRange.overlapsWith\<close> on two ranges with positive span and representable ends answers
  whether they are equal or share a window of at least \<open>delta\<close>: a common instant from which the next
  \<open>delta\<close> nanoseconds lie in both ranges (start inclusive, end exclusive).
\<close>

theorem range_overlapsWith_iff:
  assumes "start a < end a" and "start b < end b" and "0 \<le> delta"
    and "representable (start a)" and "representable (end a)"
    and "representable (start b)" and "representable (end b)"
  shows "range_overlapsWith a b delta \<longleftrightarrow>
    a = b \<or> (\<exists>t. range_contains_stamp a t \<and> range_contains_stamp b t \<and>
                 (\<forall>u\<in>{t..<t + delta}. range_contains_stamp a u \<and> range_contains_stamp b u))"
proof -
  have win: "(\<exists>t. range_contains_stamp a t \<and> range_contains_stamp b t \<and>
                 (\<forall>u\<in>{t..<t + delta}. range_contains_stamp a u \<and> range_contains_stamp b u)) \<longleftrightarrow>
    max (start a) (start b) < min (end a) (end b) \<and>
    max (start a) (start b) + delta \<le> min (end a) (end b)"
    unfolding common_window_iff [OF \<open>0 \<le> delta\<close>, symmetric]
    by (rule iff_exI) (auto simp: range_contains_stamp_def beforeEq_def after_def)
  show ?thesis unfolding win using assms by (rule range_overlapsWith_window)
qed

lemma range_overlapsWith_iff_witness:
  "range_overlapsWith (newTimeRange 0 10) (newTimeRange 8 20) 2 \<and>
   \<not> range_overlapsWith (newTimeRange 0 10) (newTimeRange 8 20) 3 \<and>
   (\<exists>t. range_contains_stamp (newTimeRange 0 10) t \<and> range_contains_stamp (newTimeRange 8 20) t \<and>
        (\<forall>u\<in>{t..<t + 2}. range_contains_stamp (newTimeRange 0 10) u \<and>
                          range_contains_stamp (newTimeRange 8 20) u))"
proof -
  have o: "range_overlapsWith (newTimeRange 0 10) (newTimeRange 8 20) 2"
    "\<not> range_overlapsWith (newTimeRange 0 10) (newTimeRange 8 20) 3"
    "newTimeRange 0 10 \<noteq> newTimeRange 8 20"
    by (simp_all add: range_overlapsWith_def time_simps stamp_max_def stamp_min_def STAMP_MIN_def
        STAMP_MAX_def)
  with range_overlapsWith_iff [of "newTimeRange 0 10" "newTimeRange 8 20" 2] show ?thesis
    by (simp add: newTimeRange_def representable_def STAMP_MIN_def STAMP_MAX_def)
qed

text \<open>
  \<open>TimeRange.boundBy\<close> is the intersection: for two valid ranges the result is valid and holds
  exactly the instants of both (and is an empty range inside the bounds when they share none).
\<close>

theorem boundBy_intersection:
  assumes "range_isValid a" and "range_isValid b"
  shows "range_isValid (boundBy a b) \<and>
    start b \<le> start (boundBy a b) \<and> end (boundBy a b) \<le> end b \<and>
    (\<forall>t. range_contains_stamp (boundBy a b) t \<longleftrightarrow>
         range_contains_stamp a t \<and> range_contains_stamp b t)"
  using assms by (auto simp: boundBy_def Let_def time_simps)

lemma boundBy_intersection_witness:
  "range_isValid (boundBy (newTimeRange 0 10) (newTimeRange 5 20)) \<and>
   boundBy (newTimeRange 0 10) (newTimeRange 5 20) = newTimeRange 5 10"
  using boundBy_intersection [of "newTimeRange 0 10" "newTimeRange 5 20"]
  by (simp add: boundBy_def time_simps Let_def)

text \<open>
  \<open>TimeSpan.truncate\<close> agrees with the exact \<open>TimeStamp.truncate\<close> for each of the seven units as
  long as the number of whole units fits in a double, and is off by one nanosecond already on the
  first span for which it does not: the quotient goes through \<open>Number\<close>.
\<close>

theorem span_truncate_precision:
  "(\<forall>a u. u \<in> set [DAY, HOUR, MINUTE, SECOND, MILLISECOND, MICROSECOND, NANOSECOND] \<and>
          \<bar>a sdiv u\<bar> \<le> 2 ^ 53 \<longrightarrow> span_truncate a u = stamp_truncate a u) \<and>
   span_truncate (2 ^ 53 + 1) NANOSECOND = return (2 ^ 53) \<and>
   stamp_truncate (2 ^ 53 + 1) NANOSECOND = return (2 ^ 53 + 1)"
proof (intro conjI allI impI)
  fix a u :: int
  assume u: "u \<in> set [DAY, HOUR, MINUTE, SECOND, MILLISECOND, MICROSECOND, NANOSECOND] \<and>
    \<bar>a sdiv u\<bar> \<le> 2 ^ 53"
  then have "u \<noteq> 0" by (auto simp: unit_values)
  with u show "span_truncate a u = stamp_truncate a u"
    by (simp add: span_truncate_def stamp_truncate_def stamp_remainder_def remainder_def stamp_sub_def
        minus_smod_eq_sdiv_mult)
next
  show "span_truncate (2 ^ 53 + 1) NANOSECOND = return (2 ^ 53)"
    by (simp add: span_truncate_def unit_values bigint_to_number_def round_half_even_def
        bit_length.simps Let_def)
  show "stamp_truncate (2 ^ 53 + 1) NANOSECOND = return (2 ^ 53 + 1)"
    by (simp add: stamp_truncate_def stamp_remainder_def remainder_def stamp_sub_def unit_values
        signed_modulo_int_def)
qed

lemma span_truncate_precision_witness:
  "span_truncate (3 * HOUR + 5) HOUR = stamp_truncate (3 * HOUR + 5) HOUR \<and>
   span_truncate (3 * HOUR + 5) HOUR = return (3 * HOUR)"
proof -
  have q: "(3 * HOUR + 5) sdiv HOUR = 3" by (simp add: unit_values signed_divide_int_def)
  with span_truncate_precision have "span_truncate (3 * HOUR + 5) HOUR = stamp_truncate (3 * HOUR + 5) HOUR"
    by simp
  moreover have "span_truncate (3 * HOUR + 5) HOUR = return (3 * HOUR)"
    using q by (simp add: span_truncate_def unit_values)
  ultimately show ?thesis by simp
qed

text \<open>
  The parts \<open>TimeSpan.toString\<close> prints: they always add up to the span rounded to a double, and
  for a span that fits exactly in a double each part below the days is a whole number of its unit,
  smaller than the next larger unit, and not negative when the span is not.
\<close>

theorem span_components_decompose:
  "sum_list (map fst (span_components a)) = bigint_to_number a \<and>
   (\<bar>a\<bar> \<le> 2 ^ 53 \<longrightarrow>
     (\<forall>(v, l)\<in>set (span_components a).
        \<forall>(l', u, k)\<in>set [(''h'', HOUR, 24), (''m'', MINUTE, 60), (''s'', SECOND, 60),
            (''ms'', MILLISECOND, 1000), (''us'', MICROSECOND, 1000), (''ns'', NANOSECOND, 1000)].
          l = l' \<longrightarrow> u dvd v \<and> \<bar>v\<bar> < k * u \<and> (0 \<le> a \<longrightarrow> 0 \<le> v)))"
proof (intro conjI impI)
  show "sum_list (map fst (span_components a)) = bigint_to_number a"
    unfolding span_components_def Let_def sum_filter_zero
    by (simp add: span_sub_def span_truncated_def unit_values)
next
  assume a: "\<bar>a\<bar> \<le> 2 ^ 53"
  have t: "span_truncated a u = a - a smod u" for u
    using order_trans [OF abs_sdiv_le a] by (rule span_truncated_exact)
  show "\<forall>(v, l)\<in>set (span_components a).
        \<forall>(l', u, k)\<in>set [(''h'', HOUR, 24), (''m'', MINUTE, 60), (''s'', SECOND, 60),
            (''ms'', MILLISECOND, 1000), (''us'', MICROSECOND, 1000), (''ns'', NANOSECOND, 1000)].
          l = l' \<longrightarrow> u dvd v \<and> \<bar>v\<bar> < k * u \<and> (0 \<le> a \<longrightarrow> 0 \<le> v)"
    unfolding span_components_def Let_def t span_sub_def
    by (rule labelled_parts; rule unit_part; simp add: unit_values)
qed

lemma span_components_decompose_witness:
  "span_components (DAY + 2 * HOUR + 5) = [(DAY, ''d''), (2 * HOUR, ''h''), (5, ''ns'')] \<and>
   sum_list (map fst (span_components (DAY + 2 * HOUR + 5))) = DAY + 2 * HOUR + 5"
proof -
  have "span_components (DAY + 2 * HOUR + 5) = [(DAY, ''d''), (2 * HOUR, ''h''), (5, ''ns'')]"
    by (simp add: span_components_def Let_def span_truncated_def span_sub_def span_isZero_def
        unit_values signed_divide_int_def)
  with span_components_decompose [of "DAY + 2 * HOUR + 5"] show ?thesis
    by (simp add: unit_values)
qed

text \<open>
  \<open>sortTimeRange\<close> is a comparator of a total order: swapping the arguments negates it, it is
  transitive, and it is zero exactly on equal ranges.
\<close>

theorem sortTimeRange_total_order:
  "sortTimeRange a b = - sortTimeRange b a \<and> (sortTimeRange a b = 0 \<longleftrightarrow> a = b) \<and>
   (sortTimeRange a b \<le> 0 \<and> sortTimeRange b c \<le> 0 \<longrightarrow> sortTimeRange a c \<le> 0)"
  by (auto simp: sortTimeRange_def time_simps)

lemma sortTimeRange_total_order_witness:
  "sortTimeRange (newTimeRange 1 4) (newTimeRange 2 9) \<le> 0"
proof -
  have "sortTimeRange (newTimeRange 1 4) (newTimeRange 1 5) \<le> 0"
    "sortTimeRange (newTimeRange 1 5) (newTimeRange 2 9) \<le> 0"
    by (simp_all add: sortTimeRange_def time_simps)
  with sortTimeRange_total_order [of "newTimeRange 1 4" "newTimeRange 1 5" "newTimeRange 2 9"]
  show ?thesis by simp
qed

text \<open>
  Counting the samples in the span that a positive rate assigns to \<open>n\<close> samples gives \<open>n\<close> back
  up to the part of a sample that fits in one nanosecond, and never more than \<open>n\<close>.
\<close>

theorem rate_span_sampleCount:
  assumes "0 < r" and "0 \<le> n" and "n / r * 1000000000 \<le> 2 ^ 53"
  shows "\<exists>d. rate_span r n = return d \<and> sampleCount r d \<le> n \<and> n - sampleCount r d < r / 1000000000"
proof (intro exI conjI)
  let ?d = "math_trunc (n / r * 1000000000)"
  show "rate_span r n = return ?d" using assms by (simp add: rate_span_def seconds_eq)
  have nonneg: "0 \<le> n / r * 1000000000" using assms by simp
  note b = math_trunc_bounds [OF nonneg]
  have "0 \<le> ?d" using nonneg by (simp add: math_trunc_def)
  moreover have "of_int ?d \<le> (of_int (2 ^ 53) :: rat)" using b assms(3) by simp
  ultimately have d: "sampleCount r ?d = of_int ?d / 1000000000 * r"
    by (intro sampleCount_exact) (simp only: of_int_le_iff abs_of_nonneg)
  have "of_int ?d / 1000000000 * r \<le> n / r * 1000000000 / 1000000000 * r"
    using b assms(1) by (intro mult_right_mono divide_right_mono) auto
  then show "sampleCount r ?d \<le> n" unfolding d using assms(1) by simp
  have "n / r * 1000000000 / 1000000000 * r < (of_int ?d + 1) / 1000000000 * r"
    using b assms(1) by (intro mult_strict_right_mono divide_strict_right_mono) auto
  then show "n - sampleCount r ?d < r / 1000000000" unfolding d using assms(1)
    by (simp add: add_divide_distrib distrib_right)
qed

lemma rate_span_sampleCount_witness:
  "\<exists>d. rate_span 3 1 = return d \<and> sampleCount 3 d \<le> 1 \<and> 1 - sampleCount 3 d < 3 / 1000000000"
  by (rule rate_span_sampleCount) simp_all

end
