(* ===== verification/Data_Type.thy ===== *)
theory Data_Type
  imports Time_Types "HOL-Library.Sublist"
begin

text \<open>
  \<open>DataType\<close>, \<open>convertDataType\<close> and \<open>addSamples\<close> of \<open>x/ts/src/telem/telem.ts\<close>.  A data type is its
  name, as in the source, where the class extends \<open>String\<close>; the static maps of the class are
  insertion-ordered records looked up by name.
\<close>

section \<open>The data types\<close>

type_synonym data_type = string

definition UNKNOWN :: data_type where "UNKNOWN = ''unknown''"
definition FLOAT64 :: data_type where "FLOAT64 = ''float64''"
definition FLOAT32 :: data_type where "FLOAT32 = ''float32''"
definition INT64 :: data_type where "INT64 = ''int64''"
definition INT32 :: data_type where "INT32 = ''int32''"
definition INT16 :: data_type where "INT16 = ''int16''"
definition INT8 :: data_type where "INT8 = ''int8''"
definition UINT64 :: data_type where "UINT64 = ''uint64''"
definition UINT32 :: data_type where "UINT32 = ''uint32''"
definition UINT16 :: data_type where "UINT16 = ''uint16''"
definition UINT8 :: data_type where "UINT8 = ''uint8''"
definition BOOLEAN :: data_type where "BOOLEAN = UINT8"
definition TIMESTAMP :: data_type where "TIMESTAMP = ''timestamp''"
definition UUID :: data_type where "UUID = ''uuid''"
definition STRING :: data_type where "STRING = ''string''"
definition JSON :: data_type where "JSON = ''json''"

lemmas data_type_names = UNKNOWN_def FLOAT64_def FLOAT32_def INT64_def INT32_def INT16_def INT8_def
  UINT64_def UINT32_def UINT16_def UINT8_def BOOLEAN_def TIMESTAMP_def UUID_def STRING_def JSON_def

datatype array_constructor =
    Uint8Array | Uint16Array | Uint32Array | BigUint64Array | Float32Array | Float64Array
  | Int8Array | Int16Array | Int32Array | BigInt64Array

definition ARRAY_CONSTRUCTORS :: "(string, array_constructor) rec" where
  "ARRAY_CONSTRUCTORS =
     [(UINT8, Uint8Array), (UINT16, Uint16Array), (UINT32, Uint32Array), (UINT64, BigUint64Array),
      (FLOAT32, Float32Array), (FLOAT64, Float64Array), (INT8, Int8Array), (INT16, Int16Array),
      (INT32, Int32Array), (INT64, BigInt64Array), (TIMESTAMP, BigInt64Array), (STRING, Uint8Array),
      (JSON, Uint8Array), (UUID, Uint8Array)]"

definition ARRAY_CONSTRUCTOR_DATA_TYPES :: "(array_constructor, data_type) rec" where
  "ARRAY_CONSTRUCTOR_DATA_TYPES =
     [(Uint8Array, UINT8), (Uint16Array, UINT16), (Uint32Array, UINT32), (BigUint64Array, UINT64),
      (Float32Array, FLOAT32), (Float64Array, FLOAT64), (Int8Array, INT8), (Int16Array, INT16),
      (Int32Array, INT32), (BigInt64Array, INT64)]"

text \<open>Densities, in bytes per sample; the unknown density is \<open>0\<close>.\<close>

definition DENSITIES :: "(string, nat) rec" where
  "DENSITIES =
     [(UINT8, 1), (UINT16, 2), (UINT32, 4), (UINT64, 8), (FLOAT32, 4), (FLOAT64, 8), (INT8, 1),
      (INT16, 2), (INT32, 4), (INT64, 8), (TIMESTAMP, 8), (STRING, 0), (JSON, 0), (UUID, 16)]"

definition ALL_TYPES :: "data_type list" where
  "ALL_TYPES = [UNKNOWN, FLOAT64, FLOAT32, INT64, INT32, INT16, INT8, UINT64, UINT32, UINT16, UINT8,
          TIMESTAMP, UUID, STRING, JSON]"

definition BIG_INT_TYPES :: "data_type list" where
  "BIG_INT_TYPES = [INT64, UINT64, TIMESTAMP]"

section \<open>Operations\<close>

datatype crude_data_type = Name string | TypedArray array_constructor

definition newDataType :: "crude_data_type \<Rightarrow> data_type result" where
  "newDataType v =
     (case v of
        Name s \<Rightarrow> return s
      | TypedArray c \<Rightarrow>
          (case rec_get ARRAY_CONSTRUCTOR_DATA_TYPES c of
             Some t \<Rightarrow> return t
           | None \<Rightarrow> throw ''unable to find data type''))"

definition array_of :: "data_type \<Rightarrow> array_constructor result" where
  "array_of d =
     (case rec_get ARRAY_CONSTRUCTORS d of
        None \<Rightarrow> throw ''unable to find array constructor''
      | Some v \<Rightarrow> return v)"

definition dt_equals :: "data_type \<Rightarrow> data_type \<Rightarrow> bool" where
  "dt_equals a b \<longleftrightarrow> a = b"

definition matches :: "data_type \<Rightarrow> data_type list \<Rightarrow> bool" where
  "matches d others \<longleftrightarrow> list_ex (dt_equals d) others"

definition isVariable :: "data_type \<Rightarrow> bool" where
  "isVariable d \<longleftrightarrow> dt_equals d JSON \<or> dt_equals d STRING"

definition isNumeric :: "data_type \<Rightarrow> bool" where
  "isNumeric d \<longleftrightarrow> \<not> isVariable d \<and> \<not> dt_equals d UUID"

definition isInteger :: "data_type \<Rightarrow> bool" where
  "isInteger d \<longleftrightarrow> prefix ''int'' d \<or> prefix ''uint'' d"

definition isFloat :: "data_type \<Rightarrow> bool" where
  "isFloat d \<longleftrightarrow> prefix ''float'' d"

definition density_of :: "data_type \<Rightarrow> nat result" where
  "density_of d =
     (case rec_get DENSITIES d of
        None \<Rightarrow> throw ''unable to find density''
      | Some v \<Rightarrow> return v)"

definition isUnsigned :: "data_type \<Rightarrow> bool" where
  "isUnsigned d \<longleftrightarrow> dt_equals d UINT8 \<or> dt_equals d UINT16 \<or> dt_equals d UINT32 \<or> dt_equals d UINT64"

definition isSigned :: "data_type \<Rightarrow> bool" where
  "isSigned d \<longleftrightarrow> dt_equals d INT8 \<or> dt_equals d INT16 \<or> dt_equals d INT32 \<or> dt_equals d INT64"

text \<open>\<open>this.density <= other.density\<close>, which throws when a density is not known.\<close>

definition density_le :: "data_type \<Rightarrow> data_type \<Rightarrow> bool result" where
  "density_le a b = bind_result (density_of a) (\<lambda>x. bind_result (density_of b) (\<lambda>y. return (x \<le> y)))"

definition canSafelyCastTo :: "data_type \<Rightarrow> data_type \<Rightarrow> bool result" where
  "canSafelyCastTo this other =
     (if dt_equals this other then return True
      else if \<not> isNumeric this \<or> \<not> isNumeric other then return False
      else if isVariable this \<or> isVariable other then return False
      else if isUnsigned this \<and> isSigned other then return False
      else if isFloat this then
        (if isFloat other then density_le this other else return False)
      else if dt_equals this INT32 \<and> dt_equals other FLOAT64 then return True
      else if dt_equals this INT8 \<and> dt_equals other FLOAT32 then return True
      else if isInteger this \<and> isInteger other then
        bind_result (density_le this other)
          (\<lambda>le. return (le \<and> isUnsigned this = isUnsigned other))
      else return False)"

definition canCastTo :: "data_type \<Rightarrow> data_type \<Rightarrow> bool" where
  "canCastTo this other \<longleftrightarrow> (isNumeric this \<and> isNumeric other) \<or> dt_equals this other"

definition checkArray :: "data_type \<Rightarrow> array_constructor \<Rightarrow> bool result" where
  "checkArray d c = bind_result (array_of d) (\<lambda>c'. return (c = c'))"

definition usesBigInt :: "data_type \<Rightarrow> bool" where
  "usesBigInt d \<longleftrightarrow> list_ex (\<lambda>t. dt_equals t d) BIG_INT_TYPES"

section \<open>Samples\<close>

text \<open>
  \<open>addSamples\<close>: bigints and numbers are added in their own type; a mixed sum with a zero keeps the
  other operand, and any other mixed sum is computed on numbers.  \<open>b === 0\<close> is true of the number
  zero only, not of \<open>0n\<close>.
\<close>

definition addSamples :: "numeric \<Rightarrow> numeric \<Rightarrow> numeric" where
  "addSamples a b =
     (case (a, b) of
        (Big x, Big y) \<Rightarrow> Big (x + y)
      | (Num x, Num y) \<Rightarrow> Num (x + y)
      | _ \<Rightarrow> if b = Num 0 then a else if a = Num 0 then b else Num (to_number a + to_number b))"

definition negate :: "numeric \<Rightarrow> numeric" where
  "negate v = (case v of Num x \<Rightarrow> Num (- x) | Big x \<Rightarrow> Big (- x))"

definition convertDataType ::
    "data_type \<Rightarrow> data_type \<Rightarrow> numeric \<Rightarrow> numeric \<Rightarrow> numeric result" where
  "convertDataType source target v offset =
     (if usesBigInt source \<and> \<not> usesBigInt target then return (Num (to_number v - to_number offset))
      else if \<not> usesBigInt source \<and> usesBigInt target then
        bind_result (to_bigint v) (\<lambda>x. bind_result (to_bigint offset) (\<lambda>y. return (Big (x - y))))
      else return (addSamples v (negate offset)))"

section \<open>Facts\<close>

lemmas data_type_tests = dt_equals_def isVariable_def isNumeric_def isInteger_def isFloat_def
  isUnsigned_def isSigned_def

text \<open>
  The values of a data type.  A floating point format with precision \<open>p\<close> and exponents from \<open>lo\<close>
  to \<open>hi\<close> holds the numbers \<open>m * 2 ^ e\<close> with \<open>\<bar>m\<bar> < 2 ^ p\<close>.
\<close>

definition int_range :: "nat \<Rightarrow> rat set" where
  "int_range w = {of_int n |n. - (2 ^ (w - 1)) \<le> n \<and> n < 2 ^ (w - 1)}"

definition uint_range :: "nat \<Rightarrow> rat set" where
  "uint_range w = {of_int n |n. 0 \<le> n \<and> n < 2 ^ w}"

definition float_values :: "nat \<Rightarrow> int \<Rightarrow> int \<Rightarrow> rat set" where
  "float_values p lo hi = {of_int m * 2 powi e |m e. \<bar>m\<bar> < 2 ^ p \<and> lo \<le> e \<and> e \<le> hi}"

definition values_of :: "data_type \<Rightarrow> rat set" where
  "values_of d =
     (if d = INT8 then int_range 8 else if d = INT16 then int_range 16
      else if d = INT32 then int_range 32 else if d = INT64 \<or> d = TIMESTAMP then int_range 64
      else if d = UINT8 then uint_range 8 else if d = UINT16 then uint_range 16
      else if d = UINT32 then uint_range 32 else if d = UINT64 then uint_range 64
      else if d = FLOAT32 then float_values 24 (- 149) 104
      else if d = FLOAT64 then float_values 53 (- 1074) 971
      else {})"

lemma int_range_mono: "v \<le> w \<Longrightarrow> int_range v \<subseteq> int_range w"
proof -
  define P Q :: int where "P = 2 ^ (v - 1)" and "Q = 2 ^ (w - 1)"
  assume "v \<le> w"
  then have "P \<le> Q" unfolding P_def Q_def by (intro power_increasing) auto
  then show ?thesis unfolding int_range_def P_def [symmetric] Q_def [symmetric] by force
qed

lemma uint_range_mono: "v \<le> w \<Longrightarrow> uint_range v \<subseteq> uint_range w"
proof -
  define P Q :: int where "P = 2 ^ v" and "Q = 2 ^ w"
  assume "v \<le> w"
  then have "P \<le> Q" unfolding P_def Q_def by (intro power_increasing) auto
  then show ?thesis unfolding uint_range_def P_def [symmetric] Q_def [symmetric] by force
qed

lemma float_values_mono:
  assumes "p \<le> q" and "lo' \<le> lo" and "hi \<le> hi'"
  shows "float_values p lo hi \<subseteq> float_values q lo' hi'"
proof
  fix x assume "x \<in> float_values p lo hi"
  then obtain m e where m: "x = of_int m * 2 powi e" "\<bar>m\<bar> < 2 ^ p" "lo \<le> e" "e \<le> hi"
    unfolding float_values_def by blast
  have "(2::int) ^ p \<le> 2 ^ q" using assms(1) by (intro power_increasing) auto
  with m(2) have "\<bar>m\<bar> < 2 ^ q" by (rule less_le_trans)
  with m(1,3,4) assms(2,3) show "x \<in> float_values q lo' hi'"
    unfolding float_values_def by (intro CollectI exI [of _ m] exI [of _ e]) linarith
qed

lemma int_range_float:
  assumes "w \<le> p" and "lo \<le> 0" and "0 \<le> hi" and "0 < w"
  shows "int_range w \<subseteq> float_values p lo hi"
proof
  fix x assume "x \<in> int_range w"
  then obtain n where n: "x = of_int n" "- (2 ^ (w - 1)) \<le> n" "n < 2 ^ (w - 1)"
    by (auto simp: int_range_def)
  have "(2::int) ^ (w - 1) < 2 ^ p" using assms(1,4) by (intro power_strict_increasing) auto
  then have "\<bar>n\<bar> < 2 ^ p" using n(2,3) by linarith
  then show "x \<in> float_values p lo hi"
    unfolding float_values_def n(1) using assms(2,3) by (intro CollectI exI [of _ n] exI [of _ 0]) auto
qed

text \<open>The answers of \<open>canSafelyCastTo\<close> on all pairs of declared types.\<close>

definition cast_table :: "(data_type \<times> data_type) list" where
  "cast_table = [(FLOAT32, FLOAT64), (INT32, FLOAT64), (INT8, FLOAT32),
     (INT8, INT16), (INT8, INT32), (INT8, INT64), (INT16, INT32), (INT16, INT64), (INT32, INT64),
     (UINT8, UINT16), (UINT8, UINT32), (UINT8, UINT64), (UINT16, UINT32), (UINT16, UINT64),
     (UINT32, UINT64)]"

lemma cast_table_all:
  "list_all (\<lambda>a. list_all (\<lambda>b. canSafelyCastTo a b = return (a = b \<or> List.member cast_table (a, b)))
     ALL_TYPES) ALL_TYPES"
  by code_simp

lemma cast_cases:
  assumes "this \<in> set ALL_TYPES" and "other \<in> set ALL_TYPES"
  shows "canSafelyCastTo this other = return (this = other \<or> (this, other) \<in> set cast_table)"
  using cast_table_all assms by (auto simp: list_all_iff)

lemma values_of_types:
  "values_of INT8 = int_range 8" "values_of INT16 = int_range 16" "values_of INT32 = int_range 32"
  "values_of INT64 = int_range 64" "values_of UINT8 = uint_range 8" "values_of UINT16 = uint_range 16"
  "values_of UINT32 = uint_range 32" "values_of UINT64 = uint_range 64"
  "values_of FLOAT32 = float_values 24 (- 149) 104" "values_of FLOAT64 = float_values 53 (- 1074) 971"
  by (simp_all add: values_of_def data_type_names)

lemma cast_table_values: "list_all (\<lambda>(a, b). values_of a \<subseteq> values_of b) cast_table"
proof -
  have "int_range 8 \<subseteq> int_range 16" "int_range 8 \<subseteq> int_range 32" "int_range 8 \<subseteq> int_range 64"
    "int_range 16 \<subseteq> int_range 32" "int_range 16 \<subseteq> int_range 64" "int_range 32 \<subseteq> int_range 64"
    "uint_range 8 \<subseteq> uint_range 16" "uint_range 8 \<subseteq> uint_range 32" "uint_range 8 \<subseteq> uint_range 64"
    "uint_range 16 \<subseteq> uint_range 32" "uint_range 16 \<subseteq> uint_range 64" "uint_range 32 \<subseteq> uint_range 64"
    "float_values 24 (- 149) 104 \<subseteq> float_values 53 (- 1074) 971"
    "int_range 32 \<subseteq> float_values 53 (- 1074) 971" "int_range 8 \<subseteq> float_values 24 (- 149) 104"
    by (rule int_range_mono uint_range_mono float_values_mono int_range_float; simp)+
  then show ?thesis by (simp add: cast_table_def values_of_types)
qed

lemma cast_table_sound: "(a, b) \<in> set cast_table \<Longrightarrow> values_of a \<subseteq> values_of b"
  using cast_table_values by (auto simp: list_all_iff)

section \<open>Properties\<close>



text \<open>
  Converting a bigint sample to a number with an offset subtracts after rounding both: it is
  exact while sample and offset fit in a double, is off by at most the two roundings in general, and
  loses a small difference of large values, which the offset is there to keep.
\<close>

theorem convertDataType_precision:
  assumes "usesBigInt source" and "\<not> usesBigInt target"
  shows "(\<exists>r. convertDataType source target (Big v) (Big offset) = return (Num r) \<and>
              \<bar>r - of_int (v - offset)\<bar> * 2 ^ 53 \<le> of_int (\<bar>v\<bar> + \<bar>offset\<bar>) \<and>
              (\<bar>v\<bar> \<le> 2 ^ 53 \<and> \<bar>offset\<bar> \<le> 2 ^ 53 \<longrightarrow> r = of_int (v - offset))) \<and>
    convertDataType source target (Big (2 ^ 60 + 1)) (Big (2 ^ 60)) = return (Num 0)"
proof (intro conjI exI)
  let ?r = "of_int (bigint_to_number v - bigint_to_number offset) :: rat"
  show "convertDataType source target (Big v) (Big offset) = return (Num ?r)"
    using assms by (simp add: convertDataType_def to_number_def)
  have "\<bar>bigint_to_number v - bigint_to_number offset - (v - offset)\<bar> * 2 ^ 53 \<le> \<bar>v\<bar> + \<bar>offset\<bar>"
    using bigint_to_number_error [of v] bigint_to_number_error [of offset] by (simp add: abs_if split: if_splits)
  then have "(of_int (\<bar>bigint_to_number v - bigint_to_number offset - (v - offset)\<bar> * 2 ^ 53) :: rat)
      \<le> of_int (\<bar>v\<bar> + \<bar>offset\<bar>)"
    by (simp only: of_int_le_iff)
  then show "\<bar>?r - of_int (v - offset)\<bar> * 2 ^ 53 \<le> of_int (\<bar>v\<bar> + \<bar>offset\<bar>)" by simp
  show "\<bar>v\<bar> \<le> 2 ^ 53 \<and> \<bar>offset\<bar> \<le> 2 ^ 53 \<longrightarrow> ?r = of_int (v - offset)" by simp
next
  show "convertDataType source target (Big (2 ^ 60 + 1)) (Big (2 ^ 60)) = return (Num 0)"
    using assms
    by (simp add: convertDataType_def to_number_def bigint_to_number_def round_half_even_def
        bit_length.simps Let_def)
qed

lemma convertDataType_precision_witness:
  "convertDataType TIMESTAMP FLOAT32 (Big (2 ^ 60 + 1)) (Big (2 ^ 60)) = return (Num 0)"
proof -
  have "usesBigInt TIMESTAMP" "\<not> usesBigInt FLOAT32"
    by (simp_all add: usesBigInt_def BIG_INT_TYPES_def dt_equals_def data_type_names)
  from convertDataType_precision [OF this, of 0 0] show ?thesis by blast
qed

end
