(* ===== verification/Telem_Series.thy ===== *)
theory Telem_Series
  imports Bounds Data_Type
begin

text \<open>
  \<open>Series\<close> and \<open>MultiSeries\<close> of \<open>x/ts/src/telem/series.ts\<close>.  The underlying buffer is the list of the
  elements of its typed array (for strings and JSON: bytes), \<open>writePos\<close> is \<open>-1\<close> for a buffer that is full.
  Values that the source memoises (length, minimum, maximum) are fields of the record, so that stale
  memos would be visible; \<open>shared\<close> is the content of the buffer that a view looks into, if it is one.  Calls to the WebGL controller are returned as a list of commands.  Float
  samples are exact numbers without NaN.  The random \<open>key\<close>, used for debugging only, is left out.
\<close>

section \<open>The series record\<close>

datatype extreme = NegInfinity | Sample numeric | PosInfinity

datatype gl_buffer_usage = StaticUsage | DynamicUsage

record gl_state =
  gl_control :: bool
  gl_buffer :: bool
  prevBuffer :: int
  bufferUsage :: gl_buffer_usage

record series =
  dataType :: data_type
  sampleOffset :: numeric
  gl :: gl_state
  samples :: "numeric list"
  timeRange :: "time_range option"
  alignment :: int
  cachedMin :: "extreme option"
  cachedMax :: "extreme option"
  writePos :: int
  refCount :: int
  cachedLength :: "nat option"
  cachedIndexes :: "nat list option"
  shared :: "numeric list option"

definition FULL_BUFFER :: int where "FULL_BUFFER = - 1"

definition NEW_LINE :: numeric where "NEW_LINE = Num 10"

text \<open>\<open>new Series(...)\<close> on a typed array or buffer with its data type.\<close>

definition newSeries ::
    "data_type \<Rightarrow> numeric list \<Rightarrow> time_range option \<Rightarrow> numeric \<Rightarrow> gl_buffer_usage \<Rightarrow> int \<Rightarrow> series" where
  "newSeries dt xs tr offset usage al =
     \<lparr>dataType = dt, sampleOffset = offset,
      gl = \<lparr>gl_control = False, gl_buffer = False, prevBuffer = 0, bufferUsage = usage\<rparr>,
      samples = xs, timeRange = tr, alignment = al, cachedMin = None, cachedMax = None,
      writePos = FULL_BUFFER, refCount = 0, cachedLength = None, cachedIndexes = None, shared = None\<rparr>"

subsection \<open>Construction from values\<close>

datatype telem_value =
    VString "numeric list" | VNumber rat | VBigInt int | VBoolean bool
  | VDate timestamp | VTimeStamp timestamp | VTimeSpan timespan | VObject "numeric list"

text \<open>
  The data type inferred from the first value.  A string is given by its UTF-8 bytes, a date by its
  timestamp and an object by the bytes of its JSON encoding.
\<close>

definition inferDataType :: "telem_value list \<Rightarrow> data_type result" where
  "inferDataType vs =
     (case vs of
        [] \<Rightarrow> throw ''cannot infer data type from a zero length JS array when constructing a Series''
      | first # _ \<Rightarrow>
          (case first of
             VString _ \<Rightarrow> return STRING
           | VNumber _ \<Rightarrow> return FLOAT64
           | VBigInt _ \<Rightarrow> return INT64
           | VBoolean _ \<Rightarrow> return BOOLEAN
           | VTimeStamp _ \<Rightarrow> return TIMESTAMP
           | VDate _ \<Rightarrow> return TIMESTAMP
           | VTimeSpan _ \<Rightarrow> return JSON
           | VObject _ \<Rightarrow> return JSON))"

text \<open>Values joined by newlines with a newline at the end: \<open>`${data.join("\n")}\n`\<close>.\<close>

fun join_lines :: "numeric list list \<Rightarrow> numeric list" where
  "join_lines [] = [NEW_LINE]"
| "join_lines [b] = b @ [NEW_LINE]"
| "join_lines (b # c # bs) = b @ [NEW_LINE] @ join_lines (c # bs)"

text \<open>Storing a value in a typed array: integers wrap at their width, bigints and numbers do not mix.\<close>

definition wrap_signed :: "nat \<Rightarrow> int \<Rightarrow> int" where
  "wrap_signed w n = (n + 2 ^ (w - 1)) mod 2 ^ w - 2 ^ (w - 1)"

definition wrap_unsigned :: "nat \<Rightarrow> int \<Rightarrow> int" where
  "wrap_unsigned w n = n mod 2 ^ w"

definition store_number :: "(int \<Rightarrow> int) \<Rightarrow> numeric \<Rightarrow> numeric result" where
  "store_number wrap v =
     (case v of
        Num r \<Rightarrow> return (Num (of_int (wrap (math_trunc r))))
      | Big _ \<Rightarrow> throw ''TypeError: Cannot convert a BigInt value to a number'')"

definition store_bigint :: "(int \<Rightarrow> int) \<Rightarrow> numeric \<Rightarrow> numeric result" where
  "store_bigint wrap v =
     (case v of
        Big b \<Rightarrow> return (Big (wrap b))
      | Num _ \<Rightarrow> throw ''TypeError: Cannot convert a number to a BigInt'')"

definition store_element :: "array_constructor \<Rightarrow> numeric \<Rightarrow> numeric result" where
  "store_element c v =
     (case c of
        Uint8Array \<Rightarrow> store_number (wrap_unsigned 8) v
      | Uint16Array \<Rightarrow> store_number (wrap_unsigned 16) v
      | Uint32Array \<Rightarrow> store_number (wrap_unsigned 32) v
      | Int8Array \<Rightarrow> store_number (wrap_signed 8) v
      | Int16Array \<Rightarrow> store_number (wrap_signed 16) v
      | Int32Array \<Rightarrow> store_number (wrap_signed 32) v
      | BigUint64Array \<Rightarrow> store_bigint (wrap_unsigned 64) v
      | BigInt64Array \<Rightarrow> store_bigint (wrap_signed 64) v
      | Float32Array \<Rightarrow>
          (case v of Num _ \<Rightarrow> return v | Big _ \<Rightarrow> throw ''TypeError: Cannot convert a BigInt value to a number'')
      | Float64Array \<Rightarrow>
          (case v of Num _ \<Rightarrow> return v | Big _ \<Rightarrow> throw ''TypeError: Cannot convert a BigInt value to a number''))"

fun store_all :: "array_constructor \<Rightarrow> numeric list \<Rightarrow> numeric list result" where
  "store_all c [] = return []"
| "store_all c (v # vs) =
     bind_result (store_element c v) (\<lambda>x. bind_result (store_all c vs) (\<lambda>xs. return (x # xs)))"

definition new_typed_array :: "data_type \<Rightarrow> numeric list \<Rightarrow> numeric list result" where
  "new_typed_array dt xs = bind_result (array_of dt) (\<lambda>c. store_all c xs)"

text \<open>
  A value as it reaches the typed array.  A string or an object in a numeric array becomes NaN in the
  language; the model has no NaN and reports it as an error.
\<close>

definition value_numeric :: "data_type \<Rightarrow> telem_value \<Rightarrow> numeric result" where
  "value_numeric dt v =
     (case v of
        VNumber r \<Rightarrow> return (Num r)
      | VBigInt b \<Rightarrow> return (Big b)
      | VBoolean b \<Rightarrow> return (let n = (if b then 1 else 0) in if usesBigInt dt then Big n else Num (of_int n))
      | VDate t \<Rightarrow> return (Big t)
      | VTimeStamp t \<Rightarrow> return (Big t)
      | VTimeSpan t \<Rightarrow> return (Big t)
      | VString _ \<Rightarrow> throw ''NaN''
      | VObject _ \<Rightarrow> throw ''NaN'')"

fun value_numerics :: "data_type \<Rightarrow> telem_value list \<Rightarrow> numeric list result" where
  "value_numerics dt [] = return []"
| "value_numerics dt (v # vs) =
     bind_result (value_numeric dt v) (\<lambda>x. bind_result (value_numerics dt vs) (\<lambda>xs. return (x # xs)))"

text \<open>The bytes of a value in a string or JSON series; \<open>print\<close> gives the text of other values.\<close>

definition value_bytes :: "(telem_value \<Rightarrow> numeric list) \<Rightarrow> telem_value \<Rightarrow> numeric list" where
  "value_bytes print v = (case v of VString bs \<Rightarrow> bs | VObject bs \<Rightarrow> bs | _ \<Rightarrow> print v)"

definition math_round :: "rat \<Rightarrow> int" where
  "math_round r = \<lfloor>r + 1 / 2\<rfloor>"

definition array_samples ::
    "(telem_value \<Rightarrow> numeric list) \<Rightarrow> data_type \<Rightarrow> telem_value list \<Rightarrow> numeric list result" where
  "array_samples print dt vs =
     (if dt_equals dt STRING \<or> dt_equals dt JSON then return (join_lines (map (value_bytes print) vs))
      else
        bind_result (value_numerics dt vs)
          (\<lambda>xs. case vs of
             VNumber _ # _ \<Rightarrow>
               if usesBigInt dt
               then new_typed_array dt (map (\<lambda>v. Big (math_round (to_number v))) xs)
               else new_typed_array dt xs
           | VBigInt _ # _ \<Rightarrow>
               if \<not> usesBigInt dt then new_typed_array dt (map (\<lambda>v. Num (to_number v)) xs)
               else new_typed_array dt xs
           | _ \<Rightarrow> new_typed_array dt xs))"

definition seriesFromValues ::
    "(telem_value \<Rightarrow> numeric list) \<Rightarrow> data_type option \<Rightarrow> telem_value list \<Rightarrow> time_range option \<Rightarrow>
     numeric \<Rightarrow> gl_buffer_usage \<Rightarrow> int \<Rightarrow> series result" where
  "seriesFromValues print dt vs tr offset usage al =
     bind_result (case dt of Some d \<Rightarrow> return d | None \<Rightarrow> inferDataType vs)
       (\<lambda>d. bind_result (array_samples print d vs)
         (\<lambda>xs. let s = newSeries d xs tr offset usage al
               in return (if isVariable d then s\<lparr>cachedLength := Some (length vs)\<rparr> else s)))"

section \<open>Sizes\<close>

definition bytes_per_element :: "array_constructor \<Rightarrow> nat" where
  "bytes_per_element c =
     (case c of
        Uint8Array \<Rightarrow> 1 | Int8Array \<Rightarrow> 1 | Uint16Array \<Rightarrow> 2 | Int16Array \<Rightarrow> 2
      | Uint32Array \<Rightarrow> 4 | Int32Array \<Rightarrow> 4 | Float32Array \<Rightarrow> 4
      | Float64Array \<Rightarrow> 8 | BigInt64Array \<Rightarrow> 8 | BigUint64Array \<Rightarrow> 8)"

text \<open>
  The size getters on a declared data type other than \<open>UNKNOWN\<close>, whose lookups cannot fail; the
  bytes of a series are a whole number of samples, so that the division is exact.
\<close>

definition element_size :: "data_type \<Rightarrow> nat" where
  "element_size dt = (case array_of dt of Inr c \<Rightarrow> bytes_per_element c | Inl _ \<Rightarrow> 0)"

definition density_bytes :: "data_type \<Rightarrow> nat" where
  "density_bytes dt = (case density_of dt of Inr d \<Rightarrow> d | Inl _ \<Rightarrow> 0)"

definition byteCapacity :: "series \<Rightarrow> nat" where
  "byteCapacity s = length (samples s) * element_size (dataType s)"

definition capacity :: "series \<Rightarrow> nat" where
  "capacity s =
     (if isVariable (dataType s) then byteCapacity s else byteCapacity s div density_bytes (dataType s))"

definition byteLength :: "series \<Rightarrow> nat" where
  "byteLength s =
     (if writePos s = FULL_BUFFER then byteCapacity s
      else if isVariable (dataType s) then nat (writePos s)
      else nat (writePos s) * density_bytes (dataType s))"

definition data :: "series \<Rightarrow> numeric list" where
  "data s = (if writePos s = FULL_BUFFER then samples s else take (nat (writePos s)) (samples s))"

text \<open>The scan of \<open>calculateCachedLength\<close>: the position after each newline.\<close>

fun line_starts :: "nat \<Rightarrow> numeric list \<Rightarrow> nat list" where
  "line_starts i [] = []"
| "line_starts i (v # vs) =
     (if v = NEW_LINE then (i + 1) # line_starts (i + 1) vs else line_starts (i + 1) vs)"

definition calculateCachedLength :: "series \<Rightarrow> series result" where
  "calculateCachedLength s =
     (if \<not> isVariable (dataType s)
      then throw ''cannot calculate length of a non-variable length data type''
      else let ci = 0 # line_starts 0 (data s)
           in return (s\<lparr>cachedIndexes := Some ci, cachedLength := Some (length ci - 1)\<rparr>))"

definition series_length :: "series \<Rightarrow> nat" where
  "series_length s =
     (case cachedLength s of
        Some n \<Rightarrow> n
      | None \<Rightarrow>
          if isVariable (dataType s) then length (line_starts 0 (data s))
          else if writePos s = FULL_BUFFER then length (data s)
          else nat (writePos s))"

text \<open>The series after its \<open>length\<close> was read, which memoises it for variable types.\<close>

definition read_length :: "series \<Rightarrow> series" where
  "read_length s =
     (if cachedLength s = None then (case calculateCachedLength s of Inr s' \<Rightarrow> s' | Inl _ \<Rightarrow> s) else s)"

definition alignmentBounds :: "series \<Rightarrow> int bounds" where
  "alignmentBounds s =
     construct_bounds \<lparr>lower = alignment s, upper = alignment s + int (series_length s)\<rparr>"

definition alloc ::
    "nat \<Rightarrow> data_type \<Rightarrow> time_range option \<Rightarrow> numeric \<Rightarrow> gl_buffer_usage \<Rightarrow> int \<Rightarrow> series result" where
  "alloc cap dt tr offset usage al =
     (if cap = 0 then throw ''[Series] - cannot allocate an array of length 0''
      else bind_result (array_of dt)
        (\<lambda>_. let zero = (if usesBigInt dt then Big 0 else Num 0)
             in return ((newSeries dt (replicate cap zero) tr offset usage al)\<lparr>writePos := 0\<rparr>)))"

fun all_results :: "'a result list \<Rightarrow> 'a list result" where
  "all_results [] = return []"
| "all_results (r # rs) = bind_result r (\<lambda>x. bind_result (all_results rs) (\<lambda>xs. return (x # xs)))"

definition createTimestamps :: "nat \<Rightarrow> rate \<Rightarrow> timestamp \<Rightarrow> series result" where
  "createTimestamps n r start0 =
     bind_result (rate_span r (of_nat n))
       (\<lambda>total. bind_result (all_results (map (\<lambda>i. rate_span r (of_nat i)) [0..<n]))
         (\<lambda>spans. return (newSeries TIMESTAMP
            (map (\<lambda>d. Big (wrap_signed 64 (stamp_add start0 d))) spans)
            (Some (spanRange start0 total)) (Num 0) StaticUsage 0)))"

section \<open>Reference counts and the WebGL buffer\<close>

datatype gl_call =
    CreateBuffer | BindBuffer
  | BufferSize nat
  | BufferContents "numeric list" gl_buffer_usage
  | BufferSubData nat "numeric list"
  | DeleteBuffer

text \<open>The samples of the whole buffer behind a series; a view has the buffer of the series that it was made from.\<close>

definition buffer_contents :: "series \<Rightarrow> numeric list" where
  "buffer_contents s = (case shared s of None \<Rightarrow> samples s | Some whole \<Rightarrow> whole)"

text \<open>
  A failed call throws after it has changed the series, so these operations return the series, the
  commands issued and the error, if any.
\<close>

definition updateGLBuffer :: "series \<Rightarrow> (series \<times> gl_call list) \<times> string option" where
  "updateGLBuffer s0 =
     (let s1 = s0\<lparr>gl := (gl s0)\<lparr>gl_control := True\<rparr>\<rparr>
      in if \<not> dt_equals (dataType s1) FLOAT32 \<and> \<not> dt_equals (dataType s1) UINT8
         then ((s1, []), Some ''Only FLOAT32 and UINT8 arrays can be used in WebGL'')
         else
           let prev = prevBuffer (gl s1);
               create = (if gl_buffer (gl s1) then [] else [CreateBuffer]);
               s2 = s1\<lparr>gl := (gl s1)\<lparr>gl_buffer := True\<rparr>\<rparr>
           in if writePos s2 = prev then ((s2, create), None)
              else if writePos s2 \<noteq> FULL_BUFFER then
                ((s2\<lparr>gl := (gl s2)\<lparr>prevBuffer := writePos s2\<rparr>\<rparr>,
                  create @ [BindBuffer] @
                  (if prev = 0 then [BufferSize (byteCapacity s2)] else []) @
                  [BufferSubData (nat prev * density_bytes (dataType s2))
                     (js_slice prev (writePos s2) (samples s2))]), None)
              else
                ((s2\<lparr>gl := (gl s2)\<lparr>prevBuffer := FULL_BUFFER\<rparr>\<rparr>,
                  create @ [BindBuffer, BufferContents (buffer_contents s2) (bufferUsage (gl s2))]), None))"

definition acquire :: "bool \<Rightarrow> series \<Rightarrow> (series \<times> gl_call list) \<times> string option" where
  "acquire withGL s =
     (let s' = s\<lparr>refCount := refCount s + 1\<rparr>
      in if withGL then updateGLBuffer s' else ((s', []), None))"

definition maybeGarbageCollectGLBuffer :: "series \<Rightarrow> series \<times> gl_call list" where
  "maybeGarbageCollectGLBuffer s =
     (if \<not> gl_buffer (gl s) then (s, [])
      else (s\<lparr>gl := (gl s)\<lparr>gl_buffer := False, prevBuffer := 0, gl_control := False\<rparr>\<rparr>, [DeleteBuffer]))"

text \<open>\<open>release\<close> decrements before it checks, so a release too many both throws and changes the count.\<close>

definition release :: "series \<Rightarrow> (series \<times> gl_call list) \<times> string option" where
  "release s =
     (let s' = s\<lparr>refCount := refCount s - 1\<rparr>
      in if refCount s' = 0 \<and> gl_control (gl s') then (maybeGarbageCollectGLBuffer s', None)
         else if refCount s' < 0
         then ((s', []), Some ''cannot release an array with a negative reference count'')
         else ((s', []), None))"

section \<open>Slices\<close>

text \<open>
  \<open>slice\<close> copies the samples and \<open>sub\<close> makes a view of the buffer of the series, which has all of its
  samples. That later writes to the series show through the view is not modelled: the views that the code makes
  are written and dropped at once.
\<close>

definition sliceSub :: "bool \<Rightarrow> series \<Rightarrow> int \<Rightarrow> int option \<Rightarrow> series" where
  "sliceSub sub0 s lo hi =
     (if lo \<le> 0 \<and> (case hi of None \<Rightarrow> True | Some e \<Rightarrow> e \<ge> int (series_length s)) then s
      else (newSeries (dataType s)
             (js_slice lo (case hi of Some e \<Rightarrow> e | None \<Rightarrow> int (length (data s))) (data s))
             (timeRange s) (sampleOffset s) (bufferUsage (gl s)) (alignment s + lo))
             \<lparr>shared := (if sub0 then Some (samples s) else None)\<rparr>)"

definition slice :: "series \<Rightarrow> int \<Rightarrow> int option \<Rightarrow> series" where
  "slice s lo hi = sliceSub False s lo hi"

definition sub_series :: "series \<Rightarrow> int \<Rightarrow> int option \<Rightarrow> series" where
  "sub_series s lo hi = sliceSub True s lo hi"

definition subBytes :: "series \<Rightarrow> int \<Rightarrow> int option \<Rightarrow> series" where
  "subBytes s lo hi =
     (if lo \<ge> 0 \<and> (case hi of None \<Rightarrow> True | Some e \<Rightarrow> e \<ge> int (byteLength s)) then s
      else (newSeries (dataType s)
             (js_slice lo (case hi of Some e \<Rightarrow> e | None \<Rightarrow> int (length (data s))) (data s))
             (timeRange s) (sampleOffset s) (bufferUsage (gl s)) (alignment s + lo))\<lparr>shared := Some (samples s)\<rparr>)"

section \<open>Minimum and maximum\<close>

text \<open>Comparisons between numbers and bigints are exact in the language.\<close>

definition num_val :: "numeric \<Rightarrow> rat" where
  "num_val v = (case v of Num r \<Rightarrow> r | Big b \<Rightarrow> of_int b)"

fun ext_less :: "extreme \<Rightarrow> extreme \<Rightarrow> bool" where
  "ext_less NegInfinity y = (y \<noteq> NegInfinity)"
| "ext_less (Sample a) (Sample b) = (num_val a < num_val b)"
| "ext_less (Sample a) PosInfinity = True"
| "ext_less (Sample a) NegInfinity = False"
| "ext_less PosInfinity y = False"

definition reduce_max :: "numeric list \<Rightarrow> numeric" where
  "reduce_max xs = foldl (\<lambda>a b. if num_val a > num_val b then a else b) (hd xs) (tl xs)"

definition reduce_min :: "numeric list \<Rightarrow> numeric" where
  "reduce_min xs = foldl (\<lambda>a b. if num_val a < num_val b then a else b) (hd xs) (tl xs)"

definition calcRawMax :: "series \<Rightarrow> extreme \<times> series" where
  "calcRawMax s =
     (if series_length s = 0 then (NegInfinity, s)
      else let m = Sample (if dt_equals (dataType s) TIMESTAMP then last (data s) else reduce_max (data s))
           in (m, s\<lparr>cachedMax := Some m\<rparr>))"

definition calcRawMin :: "series \<Rightarrow> extreme \<times> series" where
  "calcRawMin s =
     (if series_length s = 0 then (PosInfinity, s)
      else let m = Sample (if dt_equals (dataType s) TIMESTAMP then hd (data s) else reduce_min (data s))
           in (m, s\<lparr>cachedMin := Some m\<rparr>))"

definition ext_add :: "extreme \<Rightarrow> numeric \<Rightarrow> extreme" where
  "ext_add e offset = (case e of Sample v \<Rightarrow> Sample (addSamples v offset) | _ \<Rightarrow> e)"

definition max_get :: "series \<Rightarrow> (extreme \<times> series) result" where
  "max_get s =
     (if isVariable (dataType s) then throw ''cannot calculate maximum on a variable length data type''
      else if writePos s = 0 then return (NegInfinity, s)
      else case cachedMax s of
             Some m \<Rightarrow> return (ext_add m (sampleOffset s), s)
           | None \<Rightarrow>
               (let (m, s') = calcRawMax s
                in return (ext_add m (sampleOffset s), s'\<lparr>cachedMax := Some m\<rparr>)))"

definition min_get :: "series \<Rightarrow> (extreme \<times> series) result" where
  "min_get s =
     (if isVariable (dataType s) then throw ''cannot calculate minimum on a variable length data type''
      else if writePos s = 0 then return (PosInfinity, s)
      else case cachedMin s of
             Some m \<Rightarrow> return (ext_add m (sampleOffset s), s)
           | None \<Rightarrow>
               (let (m, s') = calcRawMin s
                in return (ext_add m (sampleOffset s), s'\<lparr>cachedMin := Some m\<rparr>)))"

definition enrich :: "series \<Rightarrow> series result" where
  "enrich s = bind_result (max_get s) (\<lambda>(_, s1). bind_result (min_get s1) (\<lambda>(_, s2). return s2))"

text \<open>\<open>range\<close> for a series with samples: \<open>addSamples(max, -min)\<close>.\<close>

definition range_get :: "series \<Rightarrow> (numeric option \<times> series) result" where
  "range_get s =
     bind_result (max_get s) (\<lambda>(mx, s1). bind_result (min_get s1)
       (\<lambda>(mn, s2). return
          (case (mx, mn) of (Sample a, Sample b) \<Rightarrow> Some (addSamples a (negate b)) | _ \<Rightarrow> None, s2)))"

text \<open>\<open>bounds\<close> of a series; without samples the bounds are infinite, here \<open>None\<close>.\<close>

definition series_bounds :: "series \<Rightarrow> (rat bounds option \<times> series) result" where
  "series_bounds s =
     bind_result (min_get s) (\<lambda>(mn, s1). bind_result (max_get s1)
       (\<lambda>(mx, s2). return
          (case (mn, mx) of
             (Sample a, Sample b) \<Rightarrow> Some (construct_bounds \<lparr>lower = to_number a, upper = to_number b\<rparr>)
           | _ \<Rightarrow> None, s2)))"

text \<open>The memos of \<open>update\<close> are read if present and computed otherwise.\<close>

definition maybeRecomputeMinMax :: "series \<Rightarrow> series \<Rightarrow> series" where
  "maybeRecomputeMinMax s update =
     (let s1 = (case cachedMin s of
                  None \<Rightarrow> s
                | Some cur \<Rightarrow>
                    (let m = (case cachedMin update of Some m \<Rightarrow> m | None \<Rightarrow> fst (calcRawMin update))
                     in if ext_less m cur then s\<lparr>cachedMin := Some m\<rparr> else s))
      in case cachedMax s1 of
           None \<Rightarrow> s1
         | Some cur \<Rightarrow>
             (let m = (case cachedMax update of Some m \<Rightarrow> m | None \<Rightarrow> fst (calcRawMax update))
              in if ext_less cur m then s1\<lparr>cachedMax := Some m\<rparr> else s1))"

section \<open>Writing\<close>

definition writeToUnderlyingData :: "series \<Rightarrow> series \<Rightarrow> series" where
  "writeToUnderlyingData s other =
     (let pos = nat (writePos s); d = data other
      in s\<lparr>samples := take pos (samples s) @ d @ drop (pos + length d) (samples s)\<rparr>)"

definition writeFixed :: "series \<Rightarrow> series \<Rightarrow> nat \<times> series" where
  "writeFixed s other =
     (if writePos s = FULL_BUFFER then (0, s)
      else
        let available = int (capacity s) - writePos s;
            toWrite = sub_series other 0 (Some available);
            s1 = writeToUnderlyingData s toWrite;
            s2 = maybeRecomputeMinMax (s1\<lparr>cachedLength := None\<rparr>) toWrite
        in (series_length toWrite, s2\<lparr>writePos := writePos s2 + int (series_length toWrite)\<rparr>))"

definition writeVariable :: "series \<Rightarrow> series \<Rightarrow> nat \<times> series" where
  "writeVariable s other =
     (if writePos s = FULL_BUFFER then (0, s)
      else
        let available = int (byteCapacity s) - writePos s;
            toWrite = subBytes other 0 (Some available);
            s1 = writeToUnderlyingData s toWrite;
            s2 = s1\<lparr>writePos := writePos s1 + int (byteLength toWrite)\<rparr>;
            s3 = (if cachedLength s2 \<noteq> None
                  then (case calculateCachedLength s2 of Inr s' \<Rightarrow> s' | Inl _ \<Rightarrow> s2)
                  else s2)
        in (series_length toWrite, s3))"

definition series_write :: "series \<Rightarrow> series \<Rightarrow> (nat \<times> series) result" where
  "series_write s other =
     (if \<not> dt_equals (dataType other) (dataType s)
      then throw ''buffer must be of the same type as this array''
      else if isVariable (dataType s) then return (writeVariable s other)
      else return (writeFixed s other))"

section \<open>Reading\<close>

datatype sample_value = NumSample numeric | ByteSample "numeric list"

definition missing :: "bool \<Rightarrow> 'a option result" where
  "missing required = (if required then throw ''[series] - no value at index'' else return None)"

text \<open>
  The scan of \<open>atVariable\<close> for the line with the given index: it returns \<open>start\<close>, \<open>end\<close> and what is
  left of \<open>index\<close>; \<open>end\<close> stays \<open>0\<close> when the line is not found.
\<close>

fun line_scan :: "numeric list \<Rightarrow> nat \<Rightarrow> int \<Rightarrow> nat \<Rightarrow> nat \<times> nat \<times> int" where
  "line_scan [] i ix st = (st, 0, ix)"
| "line_scan (v # vs) i ix st =
     (if v = NEW_LINE then
        (if ix = 0 then (st, i, ix) else line_scan vs (i + 1) (ix - 1) (i + 1))
      else line_scan vs (i + 1) ix st)"

text \<open>
  \<open>atVariable\<close> returns the bytes that are then decoded.  With memoised indexes an index out of range
  reads \<open>undefined\<close>, which \<open>slice\<close> takes as \<open>0\<close>.
\<close>

definition atVariable :: "series \<Rightarrow> int \<Rightarrow> bool \<Rightarrow> numeric list option result" where
  "atVariable s index0 required =
     (case cachedIndexes s of
        Some ci \<Rightarrow>
          (let st = (case nth_opt ci index0 of Some i \<Rightarrow> int i | None \<Rightarrow> 0);
               en = (case nth_opt ci (index0 + 1) of Some i \<Rightarrow> int i - 1 | None \<Rightarrow> 0)
           in return (Some (js_slice st en (data s))))
      | None \<Rightarrow>
          (let index1 = (if index0 < 0 then int (series_length s) + index0 else index0);
               (st, en, index2) = line_scan (data s) 0 index1 0;
               en' = (if en = 0 then length (data s) else en)
           in if st \<ge> en' \<or> index2 > 0 then missing required
              else return (Some (js_slice (int st) (int en') (data s)))))"

definition series_at :: "series \<Rightarrow> int \<Rightarrow> bool \<Rightarrow> sample_value option result" where
  "series_at s index0 required =
     (if isVariable (dataType s)
      then bind_result (atVariable s index0 required) (\<lambda>r. return (map_option ByteSample r))
      else
        let index1 = (if index0 < 0 then int (series_length s) + index0 else index0)
        in case nth_opt (data s) index1 of
             None \<Rightarrow> missing required
           | Some v \<Rightarrow> return (Some (NumSample (addSamples v (sampleOffset s)))))"

definition atAlignment :: "series \<Rightarrow> int \<Rightarrow> bool \<Rightarrow> sample_value option result" where
  "atAlignment s al required =
     (let index0 = bigint_to_number (al - alignment s)
      in if index0 < 0 \<or> index0 \<ge> int (series_length s) then missing required
         else series_at s index0 required)"

text \<open>The comparison function \<open>compare.newF(value)\<close> of \<open>x/ts/src/compare/compare.ts\<close> for numerics.\<close>

definition compare_newF :: "numeric \<Rightarrow> numeric \<Rightarrow> numeric \<Rightarrow> rat result" where
  "compare_newF v a b =
     (case v of
        Num _ \<Rightarrow> return (to_number a - to_number b)
      | Big _ \<Rightarrow>
          bind_result (to_bigint a)
            (\<lambda>x. bind_result (to_bigint b) (\<lambda>y. return (if x - y > 0 then 1 else - 1))))"

definition at_numeric :: "series \<Rightarrow> int \<Rightarrow> numeric result" where
  "at_numeric s i =
     bind_result (series_at s i True)
       (\<lambda>r. case r of Some (NumSample v) \<Rightarrow> return v | _ \<Rightarrow> throw ''not a number'')"

function search_loop :: "(int \<Rightarrow> rat result) \<Rightarrow> int \<Rightarrow> int \<Rightarrow> int result" where
  "search_loop cmp_at left right =
     (if left \<le> right then
        let mid = (left + right) div 2
        in bind_result (cmp_at mid)
             (\<lambda>c. if c = 0 then return mid
                  else if c < 0 then search_loop cmp_at (mid + 1) right
                  else search_loop cmp_at left (mid - 1))
      else return left)"
  by pat_completeness auto
termination
  by (relation "measure (\<lambda>(c, left, right). nat (right - left + 1))") auto

declare search_loop.simps [simp del]

definition binarySearch :: "series \<Rightarrow> numeric \<Rightarrow> int result" where
  "binarySearch s v =
     search_loop (\<lambda>mid. bind_result (at_numeric s mid) (\<lambda>x. compare_newF v x v))
       0 (int (series_length s) - 1)"

text \<open>\<open>convert\<close> copies the samples into an array of the target type.\<close>

definition convert :: "series \<Rightarrow> data_type \<Rightarrow> numeric \<Rightarrow> series result" where
  "convert s target offset =
     (if dt_equals (dataType s) target then return s
      else bind_result
        (all_results (map (\<lambda>i. convertDataType (dataType s) target (data s ! i) offset)
           [0..<series_length s]))
        (\<lambda>xs. bind_result (new_typed_array target xs)
          (\<lambda>ys. return (newSeries target ys (timeRange s) offset (bufferUsage (gl s)) (alignment s)))))"

datatype js_type = JsString | JsNumber | JsBigint

definition as_type :: "series \<Rightarrow> js_type \<Rightarrow> series result" where
  "as_type s t =
     (case t of
        JsString \<Rightarrow> if dt_equals (dataType s) STRING then return s else throw ''cannot convert series to string''
      | JsNumber \<Rightarrow> if isNumeric (dataType s) then return s else throw ''cannot convert series to number''
      | JsBigint \<Rightarrow> if dt_equals (dataType s) INT64 then return s else throw ''cannot convert series to bigint'')"

text \<open>\<open>SubIterator\<close>: the values its \<open>next\<close> yields, from the clamped start to the clamped end.\<close>

fun collect :: "(int \<Rightarrow> 'a option result) \<Rightarrow> int \<Rightarrow> nat \<Rightarrow> 'a list result" where
  "collect f i 0 = return []"
| "collect f i (Suc n) =
     bind_result (f i)
       (\<lambda>r. bind_result (collect f (i + 1) n)
         (\<lambda>xs. return (case r of Some x \<Rightarrow> x # xs | None \<Rightarrow> xs)))"

definition subIterator :: "series \<Rightarrow> int \<Rightarrow> int option \<Rightarrow> sample_value list result" where
  "subIterator s from0 to0 =
     (let b = construct_bounds \<lparr>lower = 0, upper = int (series_length s)\<rparr>;
          en = clamp b (case to0 of Some e \<Rightarrow> e | None \<Rightarrow> int (series_length s));
          ix = clamp b from0
      in collect (\<lambda>i. series_at s i True) ix (nat (en - ix)))"

definition subAlignmentIterator :: "series \<Rightarrow> int \<Rightarrow> int \<Rightarrow> sample_value list result" where
  "subAlignmentIterator s a b =
     subIterator s (bigint_to_number (a - alignment s)) (Some (bigint_to_number (b - alignment s)))"

text \<open>The values a \<open>FixedSeriesIterator\<close> yields.\<close>

definition fixedIterator :: "series \<Rightarrow> sample_value list result" where
  "fixedIterator s = collect (\<lambda>i. series_at s i True) 0 (series_length s)"

text \<open>The lines a \<open>StringSeriesIterator\<close> yields: it stops at the first empty line.\<close>

function stringIterator :: "numeric list \<Rightarrow> numeric list list" where
  "stringIterator d =
     (let line = takeWhile (\<lambda>v. v \<noteq> NEW_LINE) d
      in if line = [] then [] else line # stringIterator (drop (length line + 1) d))"
  by pat_completeness auto
termination
proof (relation "measure length", goal_cases)
  case 1
  then show ?case by simp
next
  case (2 d x)
  then have "d \<noteq> []" by auto
  then show ?case by (simp add: less_diff_conv)
qed

declare stringIterator.simps [simp del]

record alignment_digest =
  domain :: int
  sample :: int

definition alignmentDigest :: "int \<Rightarrow> alignment_digest" where
  "alignmentDigest a = \<lparr>domain = a div 2 ^ 32, sample = a mod 2 ^ 32\<rparr>"

section \<open>Well-formed series of a fixed density\<close>

definition fixed_types :: "data_type list" where
  "fixed_types = [FLOAT64, FLOAT32, INT64, INT32, INT16, INT8, UINT64, UINT32, UINT16, UINT8, TIMESTAMP]"

definition series_wf :: "series \<Rightarrow> bool" where
  "series_wf s \<longleftrightarrow> dataType s \<in> set fixed_types \<and> cachedLength s = None \<and>
     (writePos s = FULL_BUFFER \<or> 0 \<le> writePos s \<and> writePos s \<le> int (length (samples s)))"

lemma fixed_types_sizes:
  "list_all (\<lambda>dt. \<not> isVariable dt \<and> density_bytes dt = element_size dt \<and> 0 < element_size dt) fixed_types"
  by code_simp

lemma fixed_type:
  assumes "dt \<in> set fixed_types"
  shows "\<not> isVariable dt" and "density_bytes dt = element_size dt" and "0 < element_size dt"
  using assms fixed_types_sizes by (auto simp: list_all_iff)

lemma series_wf_simps [simp]:
  assumes "series_wf s"
  shows "\<not> isVariable (dataType s)" and "capacity s = length (samples s)"
    and "series_length s = length (data s)" and "length (data s) \<le> length (samples s)"
proof -
  note f = fixed_type [of "dataType s"]
  show nv: "\<not> isVariable (dataType s)" using assms f by (simp add: series_wf_def)
  show "capacity s = length (samples s)"
    using assms f by (simp add: series_wf_def capacity_def byteCapacity_def)
  show "series_length s = length (data s)"
    using assms nv by (auto simp: series_wf_def series_length_def data_def)
  show "length (data s) \<le> length (samples s)" by (simp add: data_def)
qed

lemma newSeries_simps [simp]:
  "dataType (newSeries dt xs tr ofs u al) = dt" "samples (newSeries dt xs tr ofs u al) = xs"
  "alignment (newSeries dt xs tr ofs u al) = al" "writePos (newSeries dt xs tr ofs u al) = FULL_BUFFER"
  "cachedLength (newSeries dt xs tr ofs u al) = None" "cachedMin (newSeries dt xs tr ofs u al) = None"
  "cachedMax (newSeries dt xs tr ofs u al) = None" "data (newSeries dt xs tr ofs u al) = xs"
  "timeRange (newSeries dt xs tr ofs u al) = tr" "sampleOffset (newSeries dt xs tr ofs u al) = ofs"
  "refCount (newSeries dt xs tr ofs u al) = 0" "cachedIndexes (newSeries dt xs tr ofs u al) = None"
  by (simp_all add: newSeries_def data_def)

lemma shared_simps [simp]:
  "data (s\<lparr>shared := x\<rparr>) = data s" "series_wf (s\<lparr>shared := x\<rparr>) = series_wf s"
  "(newSeries dt xs tr ofs u al)\<lparr>shared := None\<rparr> = newSeries dt xs tr ofs u al" "buffer_contents (s\<lparr>gl := y\<rparr>) = buffer_contents s"
  by (simp_all add: data_def series_wf_def newSeries_def buffer_contents_def split: option.split)

lemma series_wf_newSeries [simp]: "series_wf (newSeries dt xs tr ofs u al) \<longleftrightarrow> dt \<in> set fixed_types"
  by (simp add: series_wf_def)

text \<open>A slice inside the series.\<close>

lemma sliceSub_props:
  assumes wf: "series_wf s" and "0 \<le> lo" and "lo \<le> hi" and "hi \<le> int (length (data s))"
  shows "series_wf (sliceSub False s lo (Some hi))"
    and "data (sliceSub False s lo (Some hi)) = take (nat (hi - lo)) (drop (nat lo) (data s))"
    and "alignment (sliceSub False s lo (Some hi)) = alignment s + lo"
    and "dataType (sliceSub False s lo (Some hi)) = dataType s"
    and "sampleOffset (sliceSub False s lo (Some hi)) = sampleOffset s"
proof -
  have dt: "dataType s \<in> set fixed_types" using wf by (simp add: series_wf_def)
  show "series_wf (sliceSub False s lo (Some hi))" using wf dt by (simp add: sliceSub_def)
  show "data (sliceSub False s lo (Some hi)) = take (nat (hi - lo)) (drop (nat lo) (data s))"
    using assms by (auto simp: sliceSub_def js_slice_nonneg)
  show "alignment (sliceSub False s lo (Some hi)) = alignment s + lo"
    and "dataType (sliceSub False s lo (Some hi)) = dataType s"
    and "sampleOffset (sliceSub False s lo (Some hi)) = sampleOffset s"
    using assms by (auto simp: sliceSub_def)
qed

text \<open>The prefix of a series that fits in \<open>n\<close> samples.\<close>

lemma sub_prefix:
  assumes wf: "series_wf s"
  shows "series_wf (sub_series s 0 (Some (int n)))"
    and "data (sub_series s 0 (Some (int n))) = take n (data s)"
    and "sub_series s 0 (Some (int n)) = s \<or>
      cachedMin (sub_series s 0 (Some (int n))) = None \<and> cachedMax (sub_series s 0 (Some (int n))) = None"
    and "dataType (sub_series s 0 (Some (int n))) = dataType s"
proof -
  have dt: "dataType s \<in> set fixed_types" using wf by (simp add: series_wf_def)
  show "series_wf (sub_series s 0 (Some (int n)))" using wf dt by (simp add: sub_series_def sliceSub_def)
  show "data (sub_series s 0 (Some (int n))) = take n (data s)"
    using wf by (auto simp: sub_series_def sliceSub_def js_slice_nonneg)
  show "sub_series s 0 (Some (int n)) = s \<or>
      cachedMin (sub_series s 0 (Some (int n))) = None \<and> cachedMax (sub_series s 0 (Some (int n))) = None"
    and "dataType (sub_series s 0 (Some (int n))) = dataType s"
    by (auto simp: sub_series_def sliceSub_def)
qed

section \<open>Facts about minimum and maximum\<close>

definition is_max :: "extreme \<Rightarrow> numeric list \<Rightarrow> bool" where
  "is_max m xs \<longleftrightarrow> (case m of
     Sample v \<Rightarrow> v \<in> set xs \<and> (\<forall>x\<in>set xs. num_val x \<le> num_val v)
   | NegInfinity \<Rightarrow> xs = []
   | PosInfinity \<Rightarrow> False)"

definition is_min :: "extreme \<Rightarrow> numeric list \<Rightarrow> bool" where
  "is_min m xs \<longleftrightarrow> (case m of
     Sample v \<Rightarrow> v \<in> set xs \<and> (\<forall>x\<in>set xs. num_val v \<le> num_val x)
   | PosInfinity \<Rightarrow> xs = []
   | NegInfinity \<Rightarrow> False)"

definition extremes_ok :: "series \<Rightarrow> bool" where
  "extremes_ok s \<longleftrightarrow> (\<forall>m. cachedMax s = Some m \<longrightarrow> is_max m (data s)) \<and>
     (\<forall>m. cachedMin s = Some m \<longrightarrow> is_min m (data s))"

lemma is_max_append:
  "is_max m xs \<Longrightarrow> is_max n ys \<Longrightarrow> is_max (if ext_less m n then n else m) (xs @ ys)"
  by (cases m; cases n) (auto simp: is_max_def not_less intro: order_trans less_imp_le)

lemma is_min_append:
  "is_min m xs \<Longrightarrow> is_min n ys \<Longrightarrow> is_min (if ext_less n m then n else m) (xs @ ys)"
  by (cases m; cases n) (auto simp: is_min_def not_less intro: order_trans less_imp_le)

lemma foldl_max:
  "foldl (\<lambda>a b. if num_val a > num_val b then a else b) v xs \<in> set (v # xs) \<and>
   (\<forall>x\<in>set (v # xs). num_val x \<le> num_val (foldl (\<lambda>a b. if num_val a > num_val b then a else b) v xs))"
proof (induction xs arbitrary: v)
  case (Cons a xs)
  show ?case using Cons.IH [of v] Cons.IH [of a] by (auto simp: not_less)
qed simp

lemma foldl_min:
  "foldl (\<lambda>a b. if num_val a < num_val b then a else b) v xs \<in> set (v # xs) \<and>
   (\<forall>x\<in>set (v # xs). num_val (foldl (\<lambda>a b. if num_val a < num_val b then a else b) v xs) \<le> num_val x)"
proof (induction xs arbitrary: v)
  case (Cons a xs)
  show ?case using Cons.IH [of v] Cons.IH [of a] by (auto simp: not_less)
qed simp

lemma reduce_max_is_max: "xs \<noteq> [] \<Longrightarrow> is_max (Sample (reduce_max xs)) xs"
  using foldl_max [of "hd xs" "tl xs"] by (cases xs) (simp_all add: is_max_def reduce_max_def)

lemma reduce_min_is_min: "xs \<noteq> [] \<Longrightarrow> is_min (Sample (reduce_min xs)) xs"
  using foldl_min [of "hd xs" "tl xs"] by (cases xs) (simp_all add: is_min_def reduce_min_def)

lemma calcRawMax_is_max:
  "series_wf s \<Longrightarrow> dataType s \<noteq> TIMESTAMP \<Longrightarrow> is_max (fst (calcRawMax s)) (data s)"
  by (cases "data s = []")
    (simp_all add: calcRawMax_def Let_def dt_equals_def reduce_max_is_max, simp add: is_max_def)

lemma calcRawMin_is_min:
  "series_wf s \<Longrightarrow> dataType s \<noteq> TIMESTAMP \<Longrightarrow> is_min (fst (calcRawMin s)) (data s)"
  by (cases "data s = []")
    (simp_all add: calcRawMin_def Let_def dt_equals_def reduce_min_is_min, simp add: is_min_def)

lemma maybeRecomputeMinMax_same [simp]:
  "dataType (maybeRecomputeMinMax s u) = dataType s" "samples (maybeRecomputeMinMax s u) = samples s"
  "writePos (maybeRecomputeMinMax s u) = writePos s" "alignment (maybeRecomputeMinMax s u) = alignment s"
  "cachedLength (maybeRecomputeMinMax s u) = cachedLength s" "refCount (maybeRecomputeMinMax s u) = refCount s"
  "sampleOffset (maybeRecomputeMinMax s u) = sampleOffset s" "timeRange (maybeRecomputeMinMax s u) = timeRange s"
  "gl (maybeRecomputeMinMax s u) = gl s" "cachedIndexes (maybeRecomputeMinMax s u) = cachedIndexes s"
  by (auto simp: maybeRecomputeMinMax_def Let_def split: option.splits)

lemma recompute_extremes:
  assumes "\<And>m. cachedMax s = Some m \<Longrightarrow> is_max m xs" and "\<And>m. cachedMin s = Some m \<Longrightarrow> is_min m xs"
    and "series_wf u" and "extremes_ok u" and "dataType u \<noteq> TIMESTAMP"
  shows "cachedMax (maybeRecomputeMinMax s u) = Some m \<Longrightarrow> is_max m (xs @ data u)"
    and "cachedMin (maybeRecomputeMinMax s u) = Some n \<Longrightarrow> is_min n (xs @ data u)"
proof -
  define mx where "mx = (case cachedMax u of Some m \<Rightarrow> m | None \<Rightarrow> fst (calcRawMax u))"
  define mn where "mn = (case cachedMin u of Some m \<Rightarrow> m | None \<Rightarrow> fst (calcRawMin u))"
  have u: "is_max mx (data u)" "is_min mn (data u)"
    using assms(3-5) calcRawMax_is_max calcRawMin_is_min
    by (auto simp: mx_def mn_def extremes_ok_def split: option.splits)
  have "cachedMax (maybeRecomputeMinMax s u) =
      map_option (\<lambda>cur. if ext_less cur mx then mx else cur) (cachedMax s)"
    by (auto simp: maybeRecomputeMinMax_def Let_def mx_def split: option.splits)
  then show "cachedMax (maybeRecomputeMinMax s u) = Some m \<Longrightarrow> is_max m (xs @ data u)"
    using assms(1) is_max_append [OF _ u(1)] by auto
  have "cachedMin (maybeRecomputeMinMax s u) =
      map_option (\<lambda>cur. if ext_less mn cur then mn else cur) (cachedMin s)"
    by (auto simp: maybeRecomputeMinMax_def Let_def mn_def split: option.splits)
  then show "cachedMin (maybeRecomputeMinMax s u) = Some n \<Longrightarrow> is_min n (xs @ data u)"
    using assms(2) is_min_append [OF _ u(2)] by auto
qed

section \<open>Facts about writing\<close>

lemma open_data:
  assumes "series_wf s" and "writePos s \<noteq> FULL_BUFFER"
  shows "writePos s = int (length (data s))" and "data s = take (length (data s)) (samples s)"
  using assms by (auto simp: series_wf_def data_def)

lemma writeFixed_eq:
  assumes s: "series_wf s" "writePos s \<noteq> FULL_BUFFER"
    and room: "room = capacity s - length (data s)" and u: "u = sub_series other 0 (Some (int room))"
  shows "writeFixed s other = (series_length u,
    (maybeRecomputeMinMax ((writeToUnderlyingData s u)\<lparr>cachedLength := None\<rparr>) u)
      \<lparr>writePos := int (length (data s) + series_length u)\<rparr>)"
proof -
  have "int (capacity s) - writePos s = int room"
    using s room open_data [OF s] by simp
  then show ?thesis
    using s(2) open_data(1) [OF s]
    by (simp add: writeFixed_def Let_def u writeToUnderlyingData_def)
qed

lemma underlying_samples:
  assumes s: "series_wf s" "writePos s \<noteq> FULL_BUFFER" and room: "room = capacity s - length (data s)"
    and u: "length (data u) \<le> room"
  shows "take (length (data s) + length (data u)) (samples (writeToUnderlyingData s u)) = data s @ data u"
    and "length (samples (writeToUnderlyingData s u)) = length (samples s)"
    and "length (data s) + length (data u) \<le> length (samples s)"
proof -
  define p where "p = length (data s)"
  have fit: "p + length (data u) \<le> length (samples s)" 
    using room u series_wf_simps(4) [OF s(1)] unfolding p_def series_wf_simps(2) [OF s(1)] by linarith
  have "samples (writeToUnderlyingData s u) = data s @ data u @ drop (p + length (data u)) (samples s)"
    using open_data [OF s] by (simp add: writeToUnderlyingData_def Let_def p_def)
  then show "take (length (data s) + length (data u)) (samples (writeToUnderlyingData s u)) = data s @ data u"
    and "length (samples (writeToUnderlyingData s u)) = length (samples s)"
    and "length (data s) + length (data u) \<le> length (samples s)"
    using fit by (simp_all add: p_def)
qed

text \<open>One write to a buffer with room: the prefix that fits is appended.\<close>

lemma writeFixed_props:
  assumes s: "series_wf s" "writePos s \<noteq> FULL_BUFFER" and other: "series_wf other"
    and n: "n = min (length (data other)) (capacity s - length (data s))"
    and w: "writeFixed s other = (k, s')"
  shows "k = n" and "series_wf s'" and "data s' = data s @ take n (data other)"
    and "capacity s' = capacity s" and "alignment s' = alignment s" and "dataType s' = dataType s"
    and "writePos s' \<noteq> FULL_BUFFER" and "gl s' = gl s" and "refCount s' = refCount s"
    and "sampleOffset s' = sampleOffset s" and "timeRange s' = timeRange s"
    and "extremes_ok s \<Longrightarrow> extremes_ok other \<Longrightarrow> dataType s \<noteq> TIMESTAMP \<Longrightarrow>
      dataType other = dataType s \<Longrightarrow> extremes_ok s'"
proof -
  define room where "room = capacity s - length (data s)"
  define u where "u = sub_series other 0 (Some (int room))"
  note u = sub_prefix [OF other, of room, folded u_def]
  have n': "take n (data other) = data u" "length (data u) = n" "n \<le> room"
    using u(1,2) n by (auto simp: min_def room_def)
  define s1 where "s1 = (writeToUnderlyingData s u)\<lparr>cachedLength := None\<rparr>"
  have s': "k = n" "s' = (maybeRecomputeMinMax s1 u)\<lparr>writePos := int (length (data s) + n)\<rparr>"
    using w u(1) n'(2) unfolding writeFixed_eq [OF s room_def u_def] s1_def by auto
  then show "k = n" by simp
  note smp = underlying_samples [OF s room_def, of u, unfolded n'(2), OF n'(3)]
  show dt': "dataType s' = dataType s" and "alignment s' = alignment s" and "gl s' = gl s"
    and "refCount s' = refCount s" and "sampleOffset s' = sampleOffset s" and "timeRange s' = timeRange s"
    by (simp_all add: s' s1_def writeToUnderlyingData_def Let_def)
  show wpf: "writePos s' \<noteq> FULL_BUFFER" by (simp add: s' FULL_BUFFER_def)
  show wf': "series_wf s'" using s(1) smp(2,3) by (simp add: series_wf_def s' s1_def writeToUnderlyingData_def Let_def)
  show dat: "data s' = data s @ take n (data other)"
    using wpf smp(1) by (simp add: data_def [of s'] n'(1), simp add: s' s1_def nat_add_distrib)
  show "capacity s' = capacity s" using s(1) wf' smp(2) by (simp add: s' s1_def)
  assume ok: "extremes_ok s" "extremes_ok other" "dataType s \<noteq> TIMESTAMP" "dataType other = dataType s"
  have "extremes_ok u" using u(3) ok(2) by (auto simp: extremes_ok_def u_def [symmetric])
  moreover have "cachedMax s1 = cachedMax s" "cachedMin s1 = cachedMin s"
    by (simp_all add: s1_def writeToUnderlyingData_def Let_def)
  ultimately show "extremes_ok s'"
    using recompute_extremes [of s1 "data s" u] ok(1,3,4) u(1,4)
    by (simp add: extremes_ok_def dat n') (simp add: s')
qed

section \<open>Facts about reading\<close>

definition value_at :: "series \<Rightarrow> nat \<Rightarrow> sample_value" where
  "value_at s i = NumSample (addSamples (data s ! i) (sampleOffset s))"

lemma series_at_inside:
  "series_wf s \<Longrightarrow> i < length (data s) \<Longrightarrow> series_at s (int i) r = return (Some (value_at s i))"
  by (simp add: series_at_def value_at_def)

lemma atAlignment_inside:
  assumes "series_wf s" and "int (length (data s)) \<le> 2 ^ 53" and "i < length (data s)"
  shows "atAlignment s (alignment s + int i) r = return (Some (value_at s i))"
  using assms by (simp add: atAlignment_def series_at_inside)

lemma alignmentBounds_wf:
  "series_wf s \<Longrightarrow>
   alignmentBounds s = \<lparr>lower = alignment s, upper = alignment s + int (length (data s))\<rparr>"
  by (simp add: alignmentBounds_def construct_bounds_def makeValid_def)

lemma alignmentBounds_slice:
  assumes "series_wf s" and "0 \<le> lo" and "lo \<le> hi" and "hi \<le> int (length (data s))"
  shows "alignmentBounds (sliceSub False s lo (Some hi)) = \<lparr>lower = alignment s + lo, upper = alignment s + hi\<rparr>"
  using alignmentBounds_wf [OF sliceSub_props(1) [OF assms]] sliceSub_props(2,3) [OF assms] assms(2-4)
  by simp

lemma atAlignment_slice:
  assumes wf: "series_wf s" and lo: "0 \<le> lo" and hi: "lo \<le> hi" "hi \<le> int (length (data s))"
    and sz: "int (length (data s)) \<le> 2 ^ 53" and al: "alignment s + lo \<le> al" "al < alignment s + hi"
  shows "atAlignment (sliceSub False s lo (Some hi)) al r = atAlignment s al r"
proof -
  let ?t = "sliceSub False s lo (Some hi)"
  note p = sliceSub_props [OF wf lo hi]
  have len: "length (data ?t) = nat (hi - lo)" using p(2) lo hi by simp
  define i where "i = nat (al - (alignment s + lo))"
  have i: "al = alignment ?t + int i" "i < length (data ?t)" "al = alignment s + int (nat lo + i)"
    "nat lo + i < length (data s)"
    using al len p(3) lo hi by (auto simp: i_def)
  have "int (length (data ?t)) \<le> 2 ^ 53" using len lo hi sz by simp
  moreover have "data ?t ! i = data s ! (nat lo + i)" using p(2) i(2,4) by simp
  ultimately show ?thesis
    using atAlignment_inside [OF p(1) _ i(2)] atAlignment_inside [OF wf sz i(4)] i(1,3) p(5)
    by (simp add: value_at_def del: of_nat_add)
qed

lemma collect_values:
  assumes "\<And>i. i < n \<Longrightarrow> f (k + int i) = return (Some (g i))"
  shows "collect f k n = return (map g [0..<n])"
  using assms
proof (induction n arbitrary: k g)
  case (Suc n)
  have "collect f (k + 1) n = return (map (\<lambda>i. g (Suc i)) [0..<n])"
    using Suc.prems [of "Suc _"] by (intro Suc.IH) (auto simp: algebra_simps)
  then show ?case using Suc.prems [of 0] by (simp add: map_upt_Suc del: upt_Suc)
qed simp

text \<open>
  What the iterators rely on: a collection whose \<open>get\<close> returns, at every index below its size, a
  certain value.  Reading a run of indexes then yields the run of values.
\<close>

locale indexed_collection =
  fixes inv :: "'s \<Rightarrow> bool"
    and size_of :: "'s \<Rightarrow> nat"
    and get :: "'s \<Rightarrow> int \<Rightarrow> bool \<Rightarrow> 'v option result"
    and val :: "'s \<Rightarrow> nat \<Rightarrow> 'v"
  assumes get_inside: "inv s \<Longrightarrow> i < size_of s \<Longrightarrow> get s (int i) r = return (Some (val s i))"
begin

lemma collect_range:
  assumes "inv s" and "e \<le> int (size_of s)"
  shows "collect (\<lambda>i. get s i True) (int a) (nat (e - int a)) = return (map (val s) [a..<nat e])"
proof -
  have "collect (\<lambda>i. get s i True) (int a) (nat (e - int a)) =
      return (map (\<lambda>i. val s (a + i)) [0..<nat (e - int a)])"
    using get_inside [OF assms(1), of "a + _"] assms(2) by (intro collect_values) auto
  moreover have "map (\<lambda>i. val s (a + i)) [0..<nat (e - int a)] = map (val s) [a..<nat e]"
    by (rule nth_equalityI) (auto simp: nat_diff_distrib')
  ultimately show ?thesis by simp
qed

lemma collect_all:
  "inv s \<Longrightarrow> collect (\<lambda>i. get s i True) 0 (size_of s) = return (map (val s) [0..<size_of s])"
  using collect_range [of s "int (size_of s)" 0] by simp

end

interpretation fixed_series: indexed_collection series_wf "\<lambda>s. length (data s)" series_at value_at
  by unfold_locales (rule series_at_inside)

section \<open>Properties\<close>

text \<open>
  C4: Writing a series to a preallocated series of the same data type, one of the eleven whose samples are
  numbers of a fixed size (integers, floats and timestamps; not UUIDs, whose capacity counts samples while
  their length counts bytes, and not strings or JSON), appends exactly the prefix that fits and returns its
  length; capacity, alignment and well-formedness are kept, and a series without room or with a full buffer
  is left as it is.
\<close>

theorem series_write_appends:
  assumes "series_wf s" and "series_wf other" and "dataType other = dataType s"
  shows "\<exists>n s'. series_write s other = return (n, s') \<and> series_wf s' \<and>
    n = (if writePos s = FULL_BUFFER then 0 else min (series_length other) (capacity s - series_length s)) \<and>
    data s' = data s @ take n (data other) \<and> series_length s' = series_length s + n \<and>
    capacity s' = capacity s \<and> alignment s' = alignment s \<and> (writePos s = FULL_BUFFER \<longrightarrow> s' = s)"
proof (cases "writePos s = FULL_BUFFER")
  case True
  with assms show ?thesis by (simp add: series_write_def dt_equals_def writeFixed_def)
next
  case False
  obtain k s' where w: "writeFixed s other = (k, s')" by fastforce
  note p = writeFixed_props [OF assms(1) False assms(2) refl w]
  have "series_write s other = return (k, s')"
    using assms w by (simp add: series_write_def dt_equals_def)
  with False p(1-5) assms show ?thesis by (simp add: min_def)
qed

definition example_series :: series where
  "example_series = (newSeries FLOAT32 [Num 1, Num 2, Num 0] None (Num 0) StaticUsage 7)\<lparr>writePos := 2\<rparr>"

lemma example_series_wf: "series_wf example_series"
  by (simp add: example_series_def series_wf_def newSeries_def fixed_types_def FULL_BUFFER_def)

lemma example_series_data: "data example_series = [Num 1, Num 2]"
  by (simp add: example_series_def data_def newSeries_def FULL_BUFFER_def)

lemma example_series_simps:
  "dataType example_series = FLOAT32" "writePos example_series \<noteq> FULL_BUFFER" "alignment example_series = 7"
  "length (samples example_series) = 3" "sampleOffset example_series = Num 0" "extremes_ok example_series"
  by (simp_all add: example_series_def newSeries_def FULL_BUFFER_def extremes_ok_def)

lemmas example_series_facts = example_series_wf example_series_data example_series_simps

lemma series_write_appends_witness:
  "\<exists>n s'. series_write example_series (newSeries FLOAT32 [Num 5, Num 6] None (Num 0) StaticUsage 0) =
     return (n, s') \<and> n = 1 \<and> data s' = [Num 1, Num 2, Num 5]"
  using series_write_appends [of example_series "newSeries FLOAT32 [Num 5, Num 6] None (Num 0) StaticUsage 0"]
  by (auto simp: fixed_types_def example_series_facts)

text \<open>
  The memoised minimum and maximum stay right under writes (for data types other than
  timestamps, whose extremes are the first and last sample), and \<open>max\<close> and \<open>min\<close> return a largest and
  a smallest sample of the written data, shifted by the sample offset.
\<close>

theorem cached_extremes_sound:
  assumes "series_wf s" and "extremes_ok s" and "dataType s \<noteq> TIMESTAMP" and "data s \<noteq> []"
    and "series_wf other" and "extremes_ok other" and "dataType other = dataType s"
  shows "(\<forall>n s'. series_write s other = return (n, s') \<longrightarrow> extremes_ok s') \<and>
    (\<exists>m s'. max_get s = return (ext_add m (sampleOffset s), s') \<and> is_max m (data s) \<and> extremes_ok s') \<and>
    (\<exists>m s'. min_get s = return (ext_add m (sampleOffset s), s') \<and> is_min m (data s) \<and> extremes_ok s')"
proof (intro conjI allI impI)
  fix n s' assume w: "series_write s other = return (n, s')"
  show "extremes_ok s'"
  proof (cases "writePos s = FULL_BUFFER")
    case True
    with w assms show ?thesis by (simp add: series_write_def dt_equals_def writeFixed_def)
  next
    case False
    have "writeFixed s other = (n, s')" using w assms by (simp add: series_write_def dt_equals_def)
    from writeFixed_props(12) [OF assms(1) False assms(5) refl this] assms show ?thesis by simp
  qed
next
  have wp: "writePos s \<noteq> 0" using assms(4) by (auto simp: data_def FULL_BUFFER_def)
  show "\<exists>m s'. max_get s = return (ext_add m (sampleOffset s), s') \<and> is_max m (data s) \<and> extremes_ok s'"
  proof (cases "cachedMax s")
    case None
    let ?m = "fst (calcRawMax s)" and ?s = "(snd (calcRawMax s))\<lparr>cachedMax := Some (fst (calcRawMax s))\<rparr>"
    have "extremes_ok ?s" "is_max ?m (data s)"
      using assms(2) calcRawMax_is_max [OF assms(1,3)]
      by (auto simp: extremes_ok_def calcRawMax_def Let_def data_def)
    then show ?thesis using None wp assms(1)
      by (intro exI [of _ ?m] exI [of _ ?s]) (simp add: max_get_def split_beta)
  next
    case (Some m)
    then show ?thesis using assms(1,2) wp by (auto simp: max_get_def extremes_ok_def)
  qed
  show "\<exists>m s'. min_get s = return (ext_add m (sampleOffset s), s') \<and> is_min m (data s) \<and> extremes_ok s'"
  proof (cases "cachedMin s")
    case None
    let ?m = "fst (calcRawMin s)" and ?s = "(snd (calcRawMin s))\<lparr>cachedMin := Some (fst (calcRawMin s))\<rparr>"
    have "extremes_ok ?s" "is_min ?m (data s)"
      using assms(2) calcRawMin_is_min [OF assms(1,3)]
      by (auto simp: extremes_ok_def calcRawMin_def Let_def data_def)
    then show ?thesis using None wp assms(1)
      by (intro exI [of _ ?m] exI [of _ ?s]) (simp add: min_get_def split_beta)
  next
    case (Some m)
    then show ?thesis using assms(1,2) wp by (auto simp: min_get_def extremes_ok_def)
  qed
qed

lemma cached_extremes_sound_witness:
  "\<exists>m s'. max_get example_series = return (ext_add m (Num 0), s') \<and> is_max m [Num 1, Num 2] \<and> extremes_ok s'"
proof -
  have "FLOAT32 \<noteq> TIMESTAMP" by (simp add: data_type_names)
  then show ?thesis
    using cached_extremes_sound [of example_series example_series] by (simp add: example_series_facts)
qed

text \<open>
  A slice keeps its place: it holds the samples between its bounds, its alignment bounds are the
  corresponding part of the original ones, and every alignment in it reads the same sample as in the
  original series.
\<close>

theorem slice_keeps_alignment:
  assumes "series_wf s" and "0 \<le> lo" and "lo \<le> hi" and "hi \<le> int (series_length s)"
    and "int (series_length s) \<le> 2 ^ 53"
  shows "series_wf (slice s lo (Some hi)) \<and>
    data (slice s lo (Some hi)) = take (nat (hi - lo)) (drop (nat lo) (data s)) \<and>
    alignmentBounds (slice s lo (Some hi)) = \<lparr>lower = alignment s + lo, upper = alignment s + hi\<rparr> \<and>
    (\<forall>al r. alignment s + lo \<le> al \<and> al < alignment s + hi \<longrightarrow>
       atAlignment (slice s lo (Some hi)) al r = atAlignment s al r)"
proof -
  have hi: "hi \<le> int (length (data s))" and sz: "int (length (data s)) \<le> 2 ^ 53" using assms by simp_all
  note p = sliceSub_props [OF assms(1-3) hi]
  show ?thesis
    using p(1,2) alignmentBounds_slice [OF assms(1-3) hi] atAlignment_slice [OF assms(1-3) hi sz]
    by (simp add: slice_def)
qed

lemma slice_keeps_alignment_witness:
  "data (slice example_series 1 (Some 2)) = [Num 2] \<and>
   alignmentBounds (slice example_series 1 (Some 2)) = \<lparr>lower = 8, upper = 9\<rparr>"
  using slice_keeps_alignment [of example_series 1 2] by (simp add: example_series_facts)

text \<open>
  \<open>subIterator\<close> clamps both ends into the series with \<open>bounds.clamp\<close>, whose largest value is
  \<open>length - 1\<close>: it yields the samples in range for an end inside the series, but for an end at or past
  the length, the default included, it leaves out the last sample.
\<close>

theorem subIterator_yields:
  assumes "series_wf s" and "data s \<noteq> []" and "0 \<le> lo" and "lo \<le> hi" and "lo < int (series_length s)"
  shows "subIterator s lo (Some hi) =
      return (map (value_at s) [nat lo..<min (nat hi) (series_length s - 1)]) \<and>
    subIterator s 0 None = return (map (value_at s) [0..<series_length s - 1])"
proof -
  let ?n = "length (data s)"
  have n: "0 < ?n" using assms(2) by simp
  have cl: "clamp (construct_bounds \<lparr>lower = 0, upper = int ?n\<rparr>) x = (if x < int ?n then x else int ?n - 1)"
    if "0 \<le> x" for x using that n
    by (simp add: clamp_def construct_bounds_def makeValid_def)
  let ?e = "if hi < int ?n then hi else int ?n - 1"
  have "subIterator s lo (Some hi) = collect (\<lambda>i. series_at s i True) (int (nat lo)) (nat (?e - int (nat lo)))"
    using assms cl [of lo] cl [of hi] by (simp add: subIterator_def Let_def)
  also have "\<dots> = return (map (value_at s) [nat lo..<nat ?e])"
    using assms(1) by (rule fixed_series.collect_range) simp
  also have "nat ?e = min (nat hi) (?n - 1)" using assms(3,4) n by auto
  finally have 1: "subIterator s lo (Some hi) = return (map (value_at s) [nat lo..<min (nat hi) (?n - 1)])" .
  have "subIterator s 0 None = collect (\<lambda>i. series_at s i True) (int 0) (nat (int ?n - 1 - int 0))"
    using assms(1) cl [of 0] cl [of "int ?n"] n by (simp add: subIterator_def Let_def)
  also have "\<dots> = return (map (value_at s) [0..<nat (int ?n - 1)])"
    using assms(1) by (rule fixed_series.collect_range) simp
  also have "nat (int ?n - 1) = ?n - 1" by simp
  finally show ?thesis using 1 assms(1) by simp
qed

lemma subIterator_yields_witness:
  "subIterator example_series 0 None = return [NumSample (Num 1)]"
  using subIterator_yields [of example_series 0 1]
  by (simp add: value_at_def addSamples_def example_series_facts)

section \<open>Binary search\<close>

text \<open>
  The loop on a comparison whose sign grows strictly: everything left of the result compares below
  and everything from the result on does not.
\<close>

lemma search_loop_correct:
  assumes "\<And>i. 0 \<le> i \<Longrightarrow> i < n \<Longrightarrow> cmp_at i = return (c i)"
    and mono: "\<And>i j. 0 \<le> i \<Longrightarrow> i < j \<Longrightarrow> j < n \<Longrightarrow> 0 \<le> c i \<Longrightarrow> 0 < c j"
    and "0 \<le> left" and "right < n" and "left \<le> right + 1"
    and "\<And>i. 0 \<le> i \<Longrightarrow> i < left \<Longrightarrow> c i < 0" and "\<And>i. right < i \<Longrightarrow> i < n \<Longrightarrow> 0 < c i"
  shows "\<exists>r. search_loop cmp_at left right = return r \<and> 0 \<le> r \<and> r \<le> n \<and>
    (\<forall>i. 0 \<le> i \<and> i < r \<longrightarrow> c i < 0) \<and> (\<forall>i. r \<le> i \<and> i < n \<longrightarrow> 0 \<le> c i)"
  using assms(3-)
proof (induction "nat (right - left + 1)" arbitrary: left right rule: less_induct)
  case less
  show ?case
  proof (cases "left \<le> right")
    case False
    then have "right = left - 1" using less.prems(3) by simp
    with less.prems show ?thesis by (force simp: search_loop.simps [of _ left])
  next
    case True
    define mid where "mid = (left + right) div 2"
    have m: "left \<le> mid" "mid \<le> right" "0 \<le> mid" "mid < n"
      using True less.prems(1,2) by (auto simp: mid_def)
    have cm: "cmp_at mid = return (c mid)" using assms(1) m by simp
    consider "c mid = 0" | "c mid < 0" | "c mid > 0" by linarith
    then show ?thesis
    proof cases
      case 1
      have "c i < 0" if "0 \<le> i" "i < mid" for i using mono [of i mid] that m 1 by force
      moreover have "0 \<le> c i" if "mid \<le> i" "i < n" for i
        using mono [of mid i] that m 1 by (cases "i = mid") force+
      ultimately show ?thesis
        using True cm 1 m by (simp add: search_loop.simps [of _ left] Let_def mid_def [symmetric])
    next
      case 2
      have "c i < 0" if "0 \<le> i" "i < mid + 1" for i
        using mono [of i mid] that m 2 by (cases "i = mid") force+
      note below = this
      have step: "search_loop cmp_at left right = search_loop cmp_at (mid + 1) right"
        using True cm 2 by (simp add: search_loop.simps [of _ left] Let_def mid_def [symmetric])
      show ?thesis unfolding step
        by (rule less.hyps) (use below less.prems m in auto)
    next
      case 3
      have "0 < c i" if "mid - 1 < i" "i < n" for i
        using mono [of mid i] that m 3 by (cases "i = mid") force+
      note above = this
      have step: "search_loop cmp_at left right = search_loop cmp_at left (mid - 1)"
        using True cm 3 by (simp add: search_loop.simps [of _ left] Let_def mid_def [symmetric])
      show ?thesis unfolding step
        by (rule less.hyps) (use above less.prems m in auto)
    qed
  qed
qed

definition sample_num :: "series \<Rightarrow> nat \<Rightarrow> numeric" where
  "sample_num s i = addSamples (data s ! i) (sampleOffset s)"

lemma at_numeric_inside:
  "series_wf s \<Longrightarrow> i < length (data s) \<Longrightarrow> at_numeric s (int i) = return (sample_num s i)"
  by (simp add: at_numeric_def series_at_inside value_at_def sample_num_def)

lemma binarySearch_correct:
  assumes wf: "series_wf s"
    and cmp: "\<And>i. i < length (data s) \<Longrightarrow> compare_newF v (sample_num s i) v = return (c i)"
    and mono: "\<And>i j. i < j \<Longrightarrow> j < length (data s) \<Longrightarrow> 0 \<le> c i \<Longrightarrow> 0 < c j"
  shows "\<exists>k\<le>length (data s). binarySearch s v = return (int k) \<and>
    (\<forall>i<k. c i < 0) \<and> (\<forall>i. k \<le> i \<and> i < length (data s) \<longrightarrow> 0 \<le> c i)"
proof -
  let ?n = "length (data s)"
  let ?f = "\<lambda>mid. bind_result (at_numeric s mid) (\<lambda>x. compare_newF v x v)"
  have f: "?f i = return (c (nat i))" if "0 \<le> i" "i < int ?n" for i
    using that at_numeric_inside [OF wf, of "nat i"] cmp [of "nat i"] by simp
  have m: "0 < c (nat j)" if "0 \<le> i" "i < j" "j < int ?n" "0 \<le> c (nat i)" for i j
    using mono [of "nat i" "nat j"] that by simp
  from search_loop_correct [of "int ?n" ?f "c \<circ> nat" 0 "int ?n - 1"] f m
  obtain r where r: "search_loop ?f 0 (int ?n - 1) = return r" "0 \<le> r" "r \<le> int ?n"
    "\<forall>i. 0 \<le> i \<and> i < r \<longrightarrow> c (nat i) < 0" "\<forall>i. r \<le> i \<and> i < int ?n \<longrightarrow> 0 \<le> c (nat i)"
    by auto
  show ?thesis
  proof (intro exI [of _ "nat r"] conjI allI impI)
    show "nat r \<le> ?n" using r(2,3) by simp
    show "binarySearch s v = return (int (nat r))" using wf r(1,2) by (simp add: binarySearch_def)
    show "c i < 0" if "i < nat r" for i using r(4) [rule_format, of "int i"] that by simp
    show "0 \<le> c i" if "nat r \<le> i \<and> i < ?n" for i using r(2) r(5) [rule_format, of "int i"] that by (simp add: nat_le_iff)
  qed
qed

text \<open>
  \<open>binarySearch\<close> for a number in a strictly increasing series returns the index of the first
  sample not below it.  For a bigint the comparison never answers "equal", and the result is the index
  of the first sample above the value: the position after an equal sample.
\<close>

theorem binarySearch_spec:
  assumes "series_wf s"
  shows "((\<forall>i j. i < j \<and> j < series_length s \<longrightarrow> to_number (sample_num s i) < to_number (sample_num s j)) \<longrightarrow>
     (\<exists>k\<le>series_length s. binarySearch s (Num x) = return (int k) \<and>
        (\<forall>i<k. to_number (sample_num s i) < x) \<and>
        (\<forall>i. k \<le> i \<and> i < series_length s \<longrightarrow> x \<le> to_number (sample_num s i)))) \<and>
    ((\<forall>i<series_length s. sample_num s i = Big (g i)) \<and>
     (\<forall>i j. i < j \<and> j < series_length s \<longrightarrow> g i \<le> g j) \<longrightarrow>
     (\<exists>k\<le>series_length s. binarySearch s (Big y) = return (int k) \<and>
        (\<forall>i<k. g i \<le> y) \<and> (\<forall>i. k \<le> i \<and> i < series_length s \<longrightarrow> y < g i)))"
proof (intro conjI impI)
  assume inc: "\<forall>i j. i < j \<and> j < series_length s \<longrightarrow> to_number (sample_num s i) < to_number (sample_num s j)"
  have "0 < to_number (sample_num s j) - x"
    if "i < j" "j < length (data s)" "0 \<le> to_number (sample_num s i) - x" for i j
    using inc [rule_format, of i j] that assms by simp
  with binarySearch_correct [OF assms, of "Num x" "\<lambda>i. to_number (sample_num s i) - x"]
  show "\<exists>k\<le>series_length s. binarySearch s (Num x) = return (int k) \<and>
        (\<forall>i<k. to_number (sample_num s i) < x) \<and>
        (\<forall>i. k \<le> i \<and> i < series_length s \<longrightarrow> x \<le> to_number (sample_num s i))"
    using assms by (simp add: compare_newF_def to_number_def [of "Num x"])
next
  let ?c = "\<lambda>i. if g i - y > 0 then 1 else - 1 :: rat"
  assume a: "(\<forall>i<series_length s. sample_num s i = Big (g i)) \<and>
     (\<forall>i j. i < j \<and> j < series_length s \<longrightarrow> g i \<le> g j)"
  have "0 < ?c j" if "i < j" "j < length (data s)" "0 \<le> ?c i" for i j
    using a that assms by (force split: if_splits)
  with binarySearch_correct [OF assms, of "Big y" ?c] a assms
  obtain k where k: "k \<le> length (data s)" "binarySearch s (Big y) = return (int k)" "\<forall>i<k. ?c i < 0"
    "\<forall>i. k \<le> i \<and> i < length (data s) \<longrightarrow> 0 \<le> ?c i"
    by (auto simp: compare_newF_def to_bigint_def)
  have "g i \<le> y" if "i < k" for i using k(3) [rule_format, OF that] by (simp split: if_splits)
  moreover have "y < g i" if "k \<le> i" "i < length (data s)" for i
    using k(4) [rule_format, of i] that by (simp split: if_splits)
  ultimately show "\<exists>k\<le>series_length s. binarySearch s (Big y) = return (int k) \<and>
        (\<forall>i<k. g i \<le> y) \<and> (\<forall>i. k \<le> i \<and> i < series_length s \<longrightarrow> y < g i)"
    using assms k(1,2) by (intro exI [of _ k]) auto
qed

lemma binarySearch_spec_witness:
  "\<exists>k. binarySearch (newSeries INT64 [Big 1, Big 2, Big 3] None (Num 0) StaticUsage 0) (Big 2) = return (int k) \<and> k = 2"
proof -
  let ?s = "newSeries INT64 [Big 1, Big 2, Big 3] None (Num 0) StaticUsage 0"
  have wf: "series_wf ?s" by (simp add: fixed_types_def)
  have v: "sample_num ?s i = Big (int i + 1)" if "i < 3" for i
  proof -
    have "i = 0 \<or> i = 1 \<or> i = 2" using that by auto
    then show ?thesis by (auto simp: sample_num_def addSamples_def)
  qed
  from binarySearch_spec [OF wf, of 0 "\<lambda>i. int i + 1" 2] v
  obtain k where "binarySearch ?s (Big 2) = return (int k)" "\<forall>i<k. int i + 1 \<le> 2"
    "\<forall>i. k \<le> i \<and> i < 3 \<longrightarrow> (2::int) < int i + 1" "k \<le> 3"
    using wf by auto
  moreover from this have "\<not> 2 < k" "\<not> k \<le> 1" by force+
  ultimately show ?thesis by (intro exI [of _ k]) auto
qed

end
