(* ===== verification/Series_Buffers.thy ===== *)
theory Series_Buffers
  imports Telem_Series
begin

text \<open>
  What the buffers behind a series hold: the WebGL buffer kept up to date by \<open>updateGLBuffer\<close>, and the
  newline-separated bytes of string series.
\<close>

section \<open>The WebGL buffer\<close>

text \<open>The effect of the commands on the contents of the buffer, in samples of \<open>d\<close> bytes.\<close>

definition gl_step :: "nat \<Rightarrow> gl_call \<Rightarrow> numeric list \<Rightarrow> numeric list" where
  "gl_step d c buf =
     (case c of
        CreateBuffer \<Rightarrow> []
      | BindBuffer \<Rightarrow> buf
      | BufferSize n \<Rightarrow> replicate (n div d) (Num 0)
      | BufferContents xs _ \<Rightarrow> xs
      | BufferSubData off xs \<Rightarrow> take (off div d) buf @ xs @ drop (off div d + length xs) buf
      | DeleteBuffer \<Rightarrow> [])"

definition run_gl :: "series \<Rightarrow> gl_call list \<Rightarrow> numeric list \<Rightarrow> numeric list" where
  "run_gl s calls buf = fold (gl_step (density_bytes (dataType s))) calls buf"

text \<open>
  The buffer agrees with the series up to \<open>prevBuffer\<close>.
\<close>

definition gl_synced :: "series \<Rightarrow> numeric list \<Rightarrow> bool" where
  "gl_synced s buf \<longleftrightarrow>
     (prevBuffer (gl s) = 0 \<or>
      gl_buffer (gl s) \<and> prevBuffer (gl s) = FULL_BUFFER \<and> writePos s = FULL_BUFFER \<and> buf = samples s \<or>
      gl_buffer (gl s) \<and> 0 < prevBuffer (gl s) \<and> prevBuffer (gl s) \<le> writePos s \<and>
        length buf = length (samples s) \<and>
        take (nat (prevBuffer (gl s))) buf = take (nat (prevBuffer (gl s))) (samples s))"

lemma gl_type_fixed: "dt = FLOAT32 \<or> dt = UINT8 \<Longrightarrow> dt \<in> set fixed_types"
  by (auto simp: fixed_types_def)

lemma sub_upload:
  assumes "p \<le> w" and "w \<le> length xs" and "length buf = length xs" and "take p buf = take p xs"
  shows "take w (take p buf @ take (w - p) (drop p xs) @ drop (p + (w - p)) buf) = take w xs"
    and "length (take p buf @ take (w - p) (drop p xs) @ drop (p + (w - p)) buf) = length xs"
proof -
  have "take p xs @ take (w - p) (drop p xs) = take w xs"
    using assms(1) by (metis le_add_diff_inverse take_add)
  then show "take w (take p buf @ take (w - p) (drop p xs) @ drop (p + (w - p)) buf) = take w xs"
    using assms by (simp add: append_assoc [symmetric] del: append_assoc)
  show "length (take p buf @ take (w - p) (drop p xs) @ drop (p + (w - p)) buf) = length xs"
    using assms by simp
qed

text \<open>The commands that upload the samples written since the last update.\<close>

definition part_calls :: "series \<Rightarrow> gl_call list" where
  "part_calls s =
     (if gl_buffer (gl s) then [] else [CreateBuffer]) @ [BindBuffer] @
     (if prevBuffer (gl s) = 0 then [BufferSize (byteCapacity s)] else []) @
     [BufferSubData (nat (prevBuffer (gl s)) * density_bytes (dataType s))
        (js_slice (prevBuffer (gl s)) (writePos s) (samples s))]"

text \<open>The three ways \<open>updateGLBuffer\<close> brings the buffer up to date.\<close>

lemma updateGLBuffer_cases:
  assumes "dataType s = FLOAT32 \<or> dataType s = UINT8"
  obtains (current) "writePos s = prevBuffer (gl s)"
      "updateGLBuffer s = ((s\<lparr>gl := (gl s)\<lparr>gl_control := True, gl_buffer := True\<rparr>\<rparr>,
         if gl_buffer (gl s) then [] else [CreateBuffer]), None)"
  | (full) "writePos s \<noteq> prevBuffer (gl s)" "writePos s = FULL_BUFFER"
      "updateGLBuffer s = ((s\<lparr>gl := (gl s)\<lparr>gl_control := True, gl_buffer := True, prevBuffer := FULL_BUFFER\<rparr>\<rparr>,
         (if gl_buffer (gl s) then [] else [CreateBuffer]) @
         [BindBuffer, BufferContents (buffer_contents s) (bufferUsage (gl s))]), None)"
  | (part) "writePos s \<noteq> prevBuffer (gl s)" "writePos s \<noteq> FULL_BUFFER"
      "updateGLBuffer s = ((s\<lparr>gl := (gl s)\<lparr>gl_control := True, gl_buffer := True, prevBuffer := writePos s\<rparr>\<rparr>,
         part_calls s), None)"
  using assms
  by (cases "writePos s = prevBuffer (gl s)"; cases "writePos s = FULL_BUFFER")
    (auto simp: updateGLBuffer_def part_calls_def Let_def dt_equals_def byteCapacity_def)

lemma run_part_upload:
  assumes wf: "series_wf s" and sync: "gl_synced s buf"
    and w: "writePos s \<noteq> FULL_BUFFER" "writePos s \<noteq> prevBuffer (gl s)"
  shows "take (length (data s)) (run_gl s (part_calls s) buf) = data s"
    and "length (run_gl s (part_calls s) buf) = length (samples s)"
proof -
  define p where "p = nat (prevBuffer (gl s))"
  define n where "n = length (data s)"
  have w': "writePos s = int n" "data s = take n (samples s)" "n \<le> length (samples s)"
    using open_data [OF wf w(1)] wf by (auto simp: n_def)
  have p: "prevBuffer (gl s) = int p" "p \<le> n" "p = 0 \<or> gl_buffer (gl s)"
    using sync w w'(1) by (auto simp: gl_synced_def p_def FULL_BUFFER_def)
  define buf0 where "buf0 = (if p = 0 then replicate (length (samples s)) (Num 0) else buf)"
  have b0: "length buf0 = length (samples s)" "take p buf0 = take p (samples s)"
    using sync p(1) w by (auto simp: buf0_def gl_synced_def FULL_BUFFER_def)
  define d where "d = density_bytes (dataType s)"
  have d: "0 < d" "byteCapacity s div d = length (samples s)"
    using wf fixed_type [of "dataType s"] by (simp_all add: byteCapacity_def series_wf_def d_def)
  have sl: "js_slice (int p) (int n) (samples s) = take (n - p) (drop p (samples s))"
    using p(2) w'(3) by (simp add: js_slice_nonneg nat_diff_distrib' del: of_nat_diff)
  have "run_gl s (part_calls s) buf =
      take p buf0 @ take (n - p) (drop p (samples s)) @ drop (p + (n - p)) buf0"
    unfolding run_gl_def part_calls_def d_def [symmetric] p(1) w'(1) sl
    by (cases "p = 0") (use p(3) d w'(3) in \<open>simp_all add: gl_step_def buf0_def\<close>)
  with sub_upload [OF p(2) w'(3) b0]
  show "take (length (data s)) (run_gl s (part_calls s) buf) = data s"
    and "length (run_gl s (part_calls s) buf) = length (samples s)"
    unfolding n_def [symmetric] w'(2) using w'(3) by (simp_all add: min_absorb2 del: take_append)
qed

text \<open>What a command uploads, with its offset in bytes.\<close>

definition uploads :: "gl_call \<Rightarrow> (nat \<times> numeric list) list" where
  "uploads c = (case c of BufferContents xs _ \<Rightarrow> [(0, xs)] | BufferSubData off xs \<Rightarrow> [(off, xs)] | _ \<Rightarrow> [])"

lemma part_uploads:
  assumes "series_wf s" and "writePos s \<noteq> FULL_BUFFER" and "0 \<le> prevBuffer (gl s)" and "prevBuffer (gl s) \<le> writePos s"
  shows "concat (map uploads (part_calls s)) =
    [(nat (prevBuffer (gl s)) * density_bytes (dataType s), drop (nat (prevBuffer (gl s))) (data s))]"
proof -
  let ?p = "nat (prevBuffer (gl s))"
  have o: "writePos s = int (length (data s))" "data s = take (length (data s)) (samples s)" using open_data [OF assms(1,2)] by simp_all
  have "js_slice (prevBuffer (gl s)) (writePos s) (samples s) = take (length (data s) - ?p) (drop ?p (samples s))"
    using assms(3,4) o(1) series_wf_simps(4) [OF assms(1)] by (simp add: js_slice_nonneg nat_diff_distrib')
  also have "\<dots> = drop ?p (data s)" by (subst (2) o(2)) (simp add: drop_take)
  finally show ?thesis by (simp add: part_calls_def uploads_def)
qed

text \<open>
  C38: The WebGL buffer follows the series. For a series of one of the two supported types with a buffer of its own (not a view
  that \<open>sub\<close> made), from a synchronised state: \<open>updateGLBuffer\<close> succeeds and leaves exactly the written samples in the
  buffer. It uploads only what was written since the last call, at its place: nothing when nothing was written, the samples after those that the last call
  had for a series that is being filled, and all of them once for a full one. A write in between and a release (which may delete the buffer)
  keep the state synchronised.
\<close>

theorem gl_buffer_follows_series:
  assumes "series_wf s" and "dataType s = FLOAT32 \<or> dataType s = UINT8" and "gl_synced s buf" and "shared s = None"
  shows "(\<exists>s' calls. updateGLBuffer s = ((s', calls), None) \<and> data s' = data s \<and>
       gl_synced s' (run_gl s calls buf) \<and> prevBuffer (gl s') = writePos s \<and>
       take (series_length s) (run_gl s calls buf) = data s \<and>
       concat (map uploads calls) =
         (if writePos s = prevBuffer (gl s) then []
          else if writePos s = FULL_BUFFER then [(0, data s)]
          else [(nat (prevBuffer (gl s)) * density_bytes (dataType s), drop (nat (prevBuffer (gl s))) (data s))])) \<and>
    (\<forall>other n s'. series_wf other \<and> dataType other = dataType s \<and> series_write s other = return (n, s') \<longrightarrow>
       gl_synced s' buf) \<and>
    (\<forall>s' calls e. release s = ((s', calls), e) \<longrightarrow> gl_synced s' (run_gl s calls buf))"
proof (intro conjI allI impI)
  show "\<exists>s' calls. updateGLBuffer s = ((s', calls), None) \<and> data s' = data s \<and>
       gl_synced s' (run_gl s calls buf) \<and> prevBuffer (gl s') = writePos s \<and>
       take (series_length s) (run_gl s calls buf) = data s \<and>
       concat (map uploads calls) =
         (if writePos s = prevBuffer (gl s) then []
          else if writePos s = FULL_BUFFER then [(0, data s)]
          else [(nat (prevBuffer (gl s)) * density_bytes (dataType s), drop (nat (prevBuffer (gl s))) (data s))])"
    using assms(2)
  proof (cases rule: updateGLBuffer_cases)
    case current
    then show ?thesis
      using assms(1,3)
      by (auto simp: gl_synced_def data_def run_gl_def gl_step_def uploads_def FULL_BUFFER_def series_wf_def min_absorb2)
  next
    case full
    then show ?thesis
      using assms(1,4) by (auto simp: gl_synced_def data_def run_gl_def gl_step_def uploads_def buffer_contents_def FULL_BUFFER_def)
  next
    case part
    note u = run_part_upload [OF assms(1,3) part(2,1)] and o = open_data [OF assms(1) part(2)]
    have "gl_synced (s\<lparr>gl := (gl s)\<lparr>gl_control := True, gl_buffer := True, prevBuffer := writePos s\<rparr>\<rparr>)
        (run_gl s (part_calls s) buf)"
      using u o by (auto simp: gl_synced_def)
    moreover have "0 \<le> prevBuffer (gl s)" "prevBuffer (gl s) \<le> writePos s"
      using assms(3) part(2) o(1) by (auto simp: gl_synced_def FULL_BUFFER_def)
    note part_uploads [OF assms(1) part(2) this]
    ultimately show ?thesis using part u assms(1) by (simp add: data_def)
  qed
next
  fix other n s'
  assume a: "series_wf other \<and> dataType other = dataType s \<and> series_write s other = return (n, s')"
  show "gl_synced s' buf"
  proof (cases "writePos s = FULL_BUFFER")
    case True
    with a assms(1,3) show ?thesis by (auto simp: series_write_def dt_equals_def writeFixed_def)
  next
    case False
    have "writeFixed s other = (n, s')" using a assms(1) by (auto simp: series_write_def dt_equals_def)
    note p = writeFixed_props [OF assms(1) False conjunct1 [OF a] refl this]
    note o = open_data [OF assms(1) False] and o' = open_data [OF p(2,7)]
    have "take k (samples s') = take k (samples s)" if "k \<le> length (data s)" for k
    proof -
      have "take k (samples s') = take k (data s')" using o'(2) p(3) that by (metis length_append min.absorb1 take_take trans_le_add1)
      also have "\<dots> = take k (data s)" using p(3) that by simp
      also have "\<dots> = take k (samples s)" using o(2) that by (metis min.absorb1 take_take)
      finally show ?thesis .
    qed
    moreover have "length (samples s') = length (samples s)" using p(2,4) assms(1) by simp
    ultimately show ?thesis using assms(3) p(3,8) o(1) o'(1) False
      by (auto simp: gl_synced_def)
  qed
next
  fix s' calls e
  assume "release s = ((s', calls), e)"
  then show "gl_synced s' (run_gl s calls buf)"
    using assms(3) by (auto simp: release_def maybeGarbageCollectGLBuffer_def Let_def gl_synced_def
        run_gl_def split: if_splits)
qed

lemma gl_buffer_follows_series_witness:
  "\<exists>s' calls. updateGLBuffer example_series = ((s', calls), None) \<and>
     take 2 (run_gl example_series calls []) = [Num 1, Num 2] \<and> concat (map uploads calls) = [(0, [Num 1, Num 2])]"
proof -
  have e: "gl_synced example_series []" "shared example_series = None"
    and p: "prevBuffer (gl example_series) = 0" "writePos example_series \<noteq> 0"
    by (simp_all add: gl_synced_def example_series_def newSeries_def FULL_BUFFER_def)
  from gl_buffer_follows_series [OF example_series_wf _ e] p
  show ?thesis by (auto simp: example_series_facts numeral_2_eq_2 split: if_splits)
qed

text \<open>A view uploads the whole buffer that it looks into.\<close>

lemma view_uploads_parent:
  assumes "dataType s = FLOAT32 \<or> dataType s = UINT8" and "0 < lo" and "lo < int (series_length s)"
  shows "concat (map uploads (snd (fst (updateGLBuffer (sub_series s lo None))))) = [(0, samples s)]"
  using assms
  by (auto simp: updateGLBuffer_def sub_series_def sliceSub_def newSeries_def uploads_def buffer_contents_def dt_equals_def Let_def FULL_BUFFER_def)

section \<open>String series\<close>

abbreviation lines_bytes :: "numeric list list \<Rightarrow> numeric list" where
  "lines_bytes ls \<equiv> concat (map (\<lambda>l. l @ [NEW_LINE]) ls)"

lemma join_lines_concat: "ls \<noteq> [] \<Longrightarrow> join_lines ls = lines_bytes ls"
  by (induction ls rule: join_lines.induct) auto

lemma line_scan_line:
  assumes "NEW_LINE \<notin> set l"
  shows "line_scan (l @ NEW_LINE # rest) i k st =
    (if k = 0 then (st, i + length l, 0)
     else line_scan rest (i + length l + 1) (k - 1) (i + length l + 1))"
  using assms by (induction l arbitrary: i) auto

lemma line_scan_lines:
  assumes "\<forall>l\<in>set ls. NEW_LINE \<notin> set l" and "k < length ls"
  shows "line_scan (lines_bytes ls) i (int k) i =
    (i + length (lines_bytes (take k ls)), i + length (lines_bytes (take k ls)) + length (ls ! k), 0)"
  using assms
proof (induction ls arbitrary: i k)
  case (Cons l ls)
  then show ?case
    by (cases k) (simp_all add: line_scan_line [of l "lines_bytes ls", simplified])
qed simp

lemma line_starts_line:
  "NEW_LINE \<notin> set l \<Longrightarrow>
   line_starts i (l @ NEW_LINE # rest) = (i + length l + 1) # line_starts (i + length l + 1) rest"
  by (induction l arbitrary: i) auto

lemma line_starts_lines:
  assumes "\<forall>l\<in>set ls. NEW_LINE \<notin> set l"
  shows "line_starts i (lines_bytes ls) = map (\<lambda>k. i + length (lines_bytes (take (Suc k) ls))) [0..<length ls]"
  using assms
proof (induction ls arbitrary: i)
  case (Cons l ls)
  have "[0..<length (l # ls)] = 0 # map Suc [0..<length ls]" by (simp add: map_Suc_upt upt_conv_Cons del: upt_Suc)
  with Cons show ?case
    by (simp add: line_starts_line [of l _ "lines_bytes ls", simplified] del: upt_Suc)
qed simp

lemma take_lines_bytes:
  assumes "k < length ls"
  shows "take (length (ls ! k)) (drop (length (lines_bytes (take k ls))) (lines_bytes ls)) = ls ! k"
    and "length (lines_bytes (take k ls)) + length (ls ! k) < length (lines_bytes ls)"
proof -
  have "lines_bytes ls = lines_bytes (take k ls) @ ls ! k @ NEW_LINE # lines_bytes (drop (Suc k) ls)"
    using assms by (subst id_take_nth_drop [OF assms]) simp
  then show "take (length (ls ! k)) (drop (length (lines_bytes (take k ls))) (lines_bytes ls)) = ls ! k"
    and "length (lines_bytes (take k ls)) + length (ls ! k) < length (lines_bytes ls)" by simp_all
qed

lemma slice_line:
  assumes "k < length ls" and "st = length (lines_bytes (take k ls))"
  shows "js_slice (int st) (int (st + length (ls ! k))) (lines_bytes ls) = ls ! k"
proof -
  have "nat (int (st + length (ls ! k)) - int st) = length (ls ! k)" by simp
  then show ?thesis
    using take_lines_bytes [OF assms(1)] assms(2) by (simp add: js_slice_nonneg del: of_nat_add)
qed

lemma stringIterator_lines:
  assumes "\<forall>l\<in>set ls. l \<noteq> [] \<and> NEW_LINE \<notin> set l"
  shows "stringIterator (lines_bytes ls) = ls"
  using assms
proof (induction ls)
  case Nil
  then show ?case by (simp add: stringIterator.simps)
next
  case (Cons l ls)
  have "takeWhile (\<lambda>v. v \<noteq> NEW_LINE) (l @ NEW_LINE # lines_bytes ls) = l"
    using Cons.prems by (subst takeWhile_append2) auto
  with Cons show ?case by (simp add: stringIterator.simps [of "l @ _"] Let_def)
qed

lemma string_at_scan:
  assumes "dataType s = STRING" and "data s = lines_bytes ls" and "cachedIndexes s = None"
    and "\<forall>l\<in>set ls. l \<noteq> [] \<and> NEW_LINE \<notin> set l" and "k < length ls"
  shows "series_at s (int k) r = return (Some (ByteSample (ls ! k)))"
proof -
  have "\<forall>l\<in>set ls. NEW_LINE \<notin> set l" "0 < length (ls ! k)" using assms(4,5) by auto
  with slice_line [OF assms(5) refl] line_scan_lines [of ls k 0] assms(1-3,5) show ?thesis
    by (simp add: series_at_def atVariable_def isVariable_def dt_equals_def)
qed

definition line_index :: "numeric list list \<Rightarrow> nat list" where
  "line_index ls = 0 # map (\<lambda>k. length (lines_bytes (take (Suc k) ls))) [0..<length ls]"

lemma line_index_nth:
  assumes "k < length ls"
  shows "nth_opt (line_index ls) (int k) = Some (length (lines_bytes (take k ls)))"
    and "nth_opt (line_index ls) (int k + 1) = Some (length (lines_bytes (take k ls)) + length (ls ! k) + 1)"
  using assms nth_opt_nat [of "line_index ls" "Suc k"]
  by (cases k; simp add: line_index_def nth_opt_def nat_add_distrib take_Suc_conv_app_nth)+

lemma string_at_indexed:
  assumes "dataType s = STRING" and "data s = lines_bytes ls" and "k < length ls"
    and "cachedIndexes s = Some (line_index ls)"
  shows "series_at s (int k) r = return (Some (ByteSample (ls ! k)))"
  using line_index_nth [OF assms(3)] slice_line [OF assms(3) refl] assms
  by (simp add: series_at_def atVariable_def isVariable_def dt_equals_def del: nth_opt_nat)

text \<open>
  A string series of lines that are not empty and hold no newline reads back: its length is the
  number of lines, every index reads its line, before and after the line index is memoised, and
  iterating over it yields all lines.
\<close>

theorem string_series_roundtrip:
  assumes "ls \<noteq> []" and "\<forall>l\<in>set ls. l \<noteq> [] \<and> NEW_LINE \<notin> set l"
    and "seriesFromValues print None (map VString ls) tr ofs u al = return s"
    and "calculateCachedLength s = return s'"
  shows "dataType s = STRING \<and> series_length s = length ls \<and> series_length s' = length ls \<and>
    stringIterator (data s) = ls \<and>
    (\<forall>k<length ls. \<forall>r. series_at s (int k) r = return (Some (ByteSample (ls ! k))) \<and>
                      series_at s' (int k) r = return (Some (ByteSample (ls ! k))))"
proof -
  have var: "isVariable STRING" by (simp add: isVariable_def dt_equals_def)
  have nonl: "\<forall>l\<in>set ls. NEW_LINE \<notin> set l" using assms(2) by blast
  have "inferDataType (map VString ls) = return STRING"
    using assms(1) by (cases ls) (simp_all add: inferDataType_def)
  moreover have "map (value_bytes print) (map VString ls) = ls"
    by (simp add: value_bytes_def comp_def)
  ultimately have s: "s = (newSeries STRING (lines_bytes ls) tr ofs u al)\<lparr>cachedLength := Some (length ls)\<rparr>"
    using assms(1,3) var
    by (simp add: seriesFromValues_def array_samples_def dt_equals_def join_lines_concat Let_def)
  have d: "data s = lines_bytes ls" by (simp add: s data_def newSeries_def)
  have s': "s' = s\<lparr>cachedIndexes := Some (line_index ls), cachedLength := Some (length ls)\<rparr>"
    using assms(4) var d line_starts_lines [OF nonl, of 0] 
    by (simp add: calculateCachedLength_def s Let_def line_index_def)
  have d': "data s' = lines_bytes ls" using d by (auto simp: s' data_def split: if_splits)
  have dt: "dataType s = STRING" "dataType s' = STRING" "cachedIndexes s = None" by (simp_all add: s' s)
  have at: "series_at s (int k) r = return (Some (ByteSample (ls ! k)))" if "k < length ls" for k r
    using dt d assms(2) that by (intro string_at_scan) auto
  have at': "series_at s' (int k) r = return (Some (ByteSample (ls ! k)))" if "k < length ls" for k r
    using dt(2) d' that by (rule string_at_indexed) (simp add: s')
  show ?thesis
    using at at' dt(1) d stringIterator_lines [OF assms(2)] by (simp add: series_length_def s' ) (simp add: s)
qed

lemma string_series_roundtrip_witness:
  "\<exists>s. seriesFromValues (\<lambda>_. []) None [VString [Num 97], VString [Num 98, Num 99]] None (Num 0) StaticUsage 0 =
     return s \<and> series_at s 1 True = return (Some (ByteSample [Num 98, Num 99]))"
proof -
  let ?ls = "[[Num 97], [Num 98, Num 99]]"
  obtain s where s: "seriesFromValues (\<lambda>_. []) None (map VString ?ls) None (Num 0) StaticUsage 0 = return s"
    "dataType s = STRING"
    by (simp add: seriesFromValues_def inferDataType_def array_samples_def dt_equals_def Let_def isVariable_def)
  obtain s' where "calculateCachedLength s = return s'"
    using s(2) by (simp add: calculateCachedLength_def isVariable_def dt_equals_def Let_def)
  moreover have "?ls \<noteq> []" "\<forall>l\<in>set ?ls. l \<noteq> [] \<and> NEW_LINE \<notin> set l" by (simp_all add: NEW_LINE_def)
  ultimately have "\<forall>k<length ?ls. \<forall>r. series_at s (int k) r = return (Some (ByteSample (?ls ! k)))"
    using string_series_roundtrip [OF _ _ s(1)] by blast
  from this [rule_format, of 1 True] s(1) show ?thesis by simp
qed

text \<open>
  Where string series go wrong.  A series whose first line is empty reads the whole buffer at
  index \<open>0\<close>, and iteration stops at the first empty line; \<open>slice\<close> counts bytes where its arguments
  count lines; a write that does not fit cuts a line in the middle and reports the whole lines only.
\<close>

theorem string_series_flaws:
  "(\<exists>s. seriesFromValues (\<lambda>_. []) None [VString [], VString [Num 98]] None (Num 0) StaticUsage 0 = return s \<and>
      series_at s 0 True = return (Some (ByteSample [Num 10, Num 98, Num 10]))) \<and>
   stringIterator (join_lines [[Num 97], [], [Num 98]]) = [[Num 97]] \<and>
   (\<exists>s. seriesFromValues (\<lambda>_. []) None [VString [Num 97, Num 98], VString [Num 99]] None (Num 0) StaticUsage 0 =
          return s \<and> data (slice s 0 (Some 1)) = [Num 97]) \<and>
   (\<exists>s w s'. alloc 4 STRING None (Num 0) StaticUsage 0 = return s \<and>
      seriesFromValues (\<lambda>_. []) None [VString [Num 97, Num 98], VString [Num 99, Num 100]] None (Num 0) StaticUsage 0 =
        return w \<and>
      series_write s w = return (1, s') \<and> data s' = [Num 97, Num 98, Num 10, Num 99])"
proof (intro conjI)
  show "stringIterator (join_lines [[Num 97], [], [Num 98]]) = [[Num 97]]"
    by (simp add: NEW_LINE_def stringIterator.simps)
qed (simp_all add: seriesFromValues_def inferDataType_def array_samples_def dt_equals_def Let_def isVariable_def
    value_bytes_def series_at_def atVariable_def NEW_LINE_def newSeries_def data_def FULL_BUFFER_def
    js_slice_def rel_index_def slice_def sliceSub_def series_length_def alloc_def array_of_def
    ARRAY_CONSTRUCTORS_def data_type_names series_write_def writeVariable_def subBytes_def byteLength_def
    byteCapacity_def element_size_def bytes_per_element_def writeToUnderlyingData_def usesBigInt_def
    BIG_INT_TYPES_def)

end
