(* ===== verification/Multi_Series.thy ===== *)
theory Multi_Series
  imports Telem_Series
begin

text \<open>
  \<open>MultiSeries\<close> of \<open>x/ts/src/telem/series.ts\<close>: a list of series of one data type read as one.  An iterator
  is the list of the values its \<open>next\<close> yields, or the error one of them throws.
\<close>

section \<open>Operations\<close>

type_synonym multi_series = "series list"

definition newMultiSeries :: "series list \<Rightarrow> multi_series result" where
  "newMultiSeries ss =
     (case ss of
        [] \<Rightarrow> return ss
      | s # rest \<Rightarrow>
          if list_all (\<lambda>t. dt_equals (dataType t) (dataType s)) rest then return ss
          else throw ''[multi-series] - series must have the same data type'')"

definition multi_dataType :: "multi_series \<Rightarrow> data_type" where
  "multi_dataType ms = (case ms of [] \<Rightarrow> UNKNOWN | s # _ \<Rightarrow> dataType s)"

definition timeRange_get :: "series \<Rightarrow> time_range result" where
  "timeRange_get s = (case timeRange s of None \<Rightarrow> throw ''time range not set on series'' | Some tr \<Rightarrow> return tr)"

definition multi_timeRange :: "multi_series \<Rightarrow> time_range result" where
  "multi_timeRange ms =
     (if ms = [] then return RANGE_ZERO
      else bind_result (timeRange_get (hd ms))
        (\<lambda>a. bind_result (timeRange_get (last ms)) (\<lambda>b. return (newTimeRange (start a) (end b)))))"

definition multi_alignment :: "multi_series \<Rightarrow> int" where
  "multi_alignment ms = (case ms of [] \<Rightarrow> 0 | s # _ \<Rightarrow> alignment s)"

definition multi_alignmentBounds :: "multi_series \<Rightarrow> int bounds" where
  "multi_alignmentBounds ms =
     (if ms = [] then construct_bounds \<lparr>lower = 0, upper = 0\<rparr>
      else construct_bounds
        \<lparr>lower = lower (alignmentBounds (hd ms)), upper = upper (alignmentBounds (last ms))\<rparr>)"

definition multi_push :: "series \<Rightarrow> multi_series \<Rightarrow> multi_series" where
  "multi_push s ms = ms @ [s]"

definition multi_length :: "multi_series \<Rightarrow> nat" where
  "multi_length ms = foldl (\<lambda>a s. a + series_length s) 0 ms"

definition multi_byteLength :: "multi_series \<Rightarrow> nat" where
  "multi_byteLength ms = foldl (\<lambda>a s. a + byteLength s) 0 ms"

definition multi_atAlignment :: "multi_series \<Rightarrow> int \<Rightarrow> bool \<Rightarrow> sample_value option result" where
  "multi_atAlignment ms al required =
     (case find (\<lambda>s. contains (alignmentBounds s) al) ms of
        Some s \<Rightarrow> atAlignment s al required
      | None \<Rightarrow> missing required)"

fun multi_at_loop :: "series list \<Rightarrow> int \<Rightarrow> bool \<Rightarrow> sample_value option result" where
  "multi_at_loop [] ix required = missing required"
| "multi_at_loop (s # ss) ix required =
     (if ix < int (series_length s) then series_at s ix required
      else multi_at_loop ss (ix - int (series_length s)) required)"

definition multi_at :: "multi_series \<Rightarrow> int \<Rightarrow> bool \<Rightarrow> sample_value option result" where
  "multi_at ms ix required =
     multi_at_loop ms (if ix < 0 then int (multi_length ms) + ix else ix) required"

text \<open>The values of a \<open>MultiSubIterator\<close>.\<close>

definition multiSubIterator :: "multi_series \<Rightarrow> int \<Rightarrow> int \<Rightarrow> sample_value list result" where
  "multiSubIterator ms ix en = collect (\<lambda>i. multi_at ms i True) ix (nat (en - ix))"

definition multi_subIterator :: "multi_series \<Rightarrow> int \<Rightarrow> int option \<Rightarrow> sample_value list result" where
  "multi_subIterator ms ix en =
     multiSubIterator ms ix (case en of Some e \<Rightarrow> e | None \<Rightarrow> int (multi_length ms))"

text \<open>The loop that turns an alignment into an index.\<close>

fun alignment_index :: "series list \<Rightarrow> int \<Rightarrow> int \<Rightarrow> int" where
  "alignment_index [] al ix = ix"
| "alignment_index (s # ss) al ix =
     (if al < alignment s then ix
      else if al \<ge> upper (alignmentBounds s) then alignment_index ss al (ix + int (series_length s))
      else if contains (alignmentBounds s) al then ix + bigint_to_number (al - alignment s)
      else alignment_index ss al ix)"

definition multi_subAlignmentIterator :: "multi_series \<Rightarrow> int \<Rightarrow> int \<Rightarrow> sample_value list result" where
  "multi_subAlignmentIterator ms a b =
     (if a \<ge> upper (multi_alignmentBounds ms) \<or> b \<le> lower (multi_alignmentBounds ms) then return []
      else multiSubIterator ms (alignment_index ms a 0) (alignment_index ms b 0))"

definition subAlignmentSpanIterator :: "multi_series \<Rightarrow> int \<Rightarrow> int \<Rightarrow> sample_value list result" where
  "subAlignmentSpanIterator ms a n =
     (if a \<ge> upper (multi_alignmentBounds ms) then return []
      else let ix = alignment_index ms a 0 in multiSubIterator ms ix (ix + n))"

text \<open>\<open>data\<close> copies the series one after the other; \<open>set\<close> throws when one does not fit.\<close>

fun multi_fill :: "series list \<Rightarrow> nat \<Rightarrow> numeric list \<Rightarrow> numeric list result" where
  "multi_fill [] offset buf = return buf"
| "multi_fill (s # ss) offset buf =
     (if offset + length (data s) > length buf then throw ''RangeError: offset is out of bounds''
      else multi_fill ss (offset + series_length s)
        (take offset buf @ data s @ drop (offset + length (data s)) buf))"

definition multi_data :: "multi_series \<Rightarrow> numeric list result" where
  "multi_data ms =
     bind_result (array_of (multi_dataType ms))
       (\<lambda>_. multi_fill ms 0 (replicate (multi_length ms) (if usesBigInt (multi_dataType ms) then Big 0 else Num 0)))"

definition traverseAlignment :: "multi_series \<Rightarrow> int \<Rightarrow> int \<Rightarrow> int" where
  "traverseAlignment ms a d = traverse (map alignmentBounds ms) a d"

definition multi_distance :: "multi_series \<Rightarrow> int \<Rightarrow> int \<Rightarrow> int" where
  "multi_distance ms a b = distance (map alignmentBounds ms) a b"

text \<open>The values of a \<open>MultiSeriesIterator\<close> over series of a fixed density.\<close>

fun multiIterator :: "series list \<Rightarrow> sample_value list result" where
  "multiIterator [] = return []"
| "multiIterator (s # ss) =
     bind_result (fixedIterator s) (\<lambda>xs. bind_result (multiIterator ss) (\<lambda>ys. return (xs @ ys)))"

section \<open>The samples with their alignments\<close>

definition multi_wf :: "multi_series \<Rightarrow> bool" where
  "multi_wf ms \<longleftrightarrow> (\<forall>s\<in>set ms. series_wf s \<and> int (length (data s)) \<le> 2 ^ 53)"

definition aligned :: "series \<Rightarrow> (int \<times> sample_value) list" where
  "aligned s = map (\<lambda>i. (alignment s + int i, value_at s i)) [0..<length (data s)]"

definition all_aligned :: "multi_series \<Rightarrow> (int \<times> sample_value) list" where
  "all_aligned ms = concat (map aligned ms)"

lemma all_aligned_simps [simp]:
  "all_aligned [] = []" "all_aligned (s # ss) = aligned s @ all_aligned ss"
  by (simp_all add: all_aligned_def)

lemma length_aligned [simp]: "length (aligned s) = length (data s)"
  by (simp add: aligned_def)

lemma foldl_add: "foldl (\<lambda>a s. a + f s) n xs = n + sum_list (map f xs)" for n :: nat
  by (induction xs arbitrary: n) (simp_all add: add.assoc)

lemma multi_wf_Cons [simp]:
  "multi_wf (s # ss) \<longleftrightarrow> series_wf s \<and> int (length (data s)) \<le> 2 ^ 53 \<and> multi_wf ss"
  by (auto simp: multi_wf_def)

lemma multi_length_aligned: "multi_wf ms \<Longrightarrow> multi_length ms = length (all_aligned ms)"
  unfolding multi_length_def foldl_add
  by (induction ms) auto

lemma multi_at_loop_inside:
  assumes "multi_wf ms" and "i < length (all_aligned ms)"
  shows "multi_at_loop ms (int i) r = return (Some (snd (all_aligned ms ! i)))"
  using assms
proof (induction ms arbitrary: i)
  case (Cons s ss)
  show ?case
  proof (cases "i < length (data s)")
    case True
    with Cons.prems show ?thesis
      by (simp add: series_at_inside nth_append) (simp add: aligned_def)
  next
    case False
    have "multi_at_loop ss (int (i - length (data s))) r =
        return (Some (snd (all_aligned ss ! (i - length (data s)))))"
      using Cons.prems False by (intro Cons.IH) auto
    with False Cons.prems show ?thesis by (simp add: nth_append of_nat_diff)
  qed
qed simp

lemma multi_at_loop_outside:
  "multi_wf ms \<Longrightarrow> length (all_aligned ms) \<le> i \<Longrightarrow> multi_at_loop ms (int i) r = missing r"
proof (induction ms arbitrary: i)
  case (Cons s ss)
  have "multi_at_loop ss (int (i - length (data s))) r = missing r"
    using Cons.prems by (intro Cons.IH) auto
  with Cons.prems show ?case by (simp add: of_nat_diff)
qed simp

interpretation multi: indexed_collection multi_wf "\<lambda>ms. length (all_aligned ms)" multi_at
  "\<lambda>ms i. snd (all_aligned ms ! i)"
  by unfold_locales (simp add: multi_at_def multi_at_loop_inside)

text \<open>In ordered series the alignments increase.\<close>

lemma aligned_bounds:
  "series_wf s \<Longrightarrow> x \<in> set (aligned s) \<Longrightarrow> lower (alignmentBounds s) \<le> fst x \<and> fst x < upper (alignmentBounds s)"
  by (auto simp: aligned_def alignmentBounds_wf)

lemma all_aligned_above:
  assumes "multi_wf ss" and "\<forall>s\<in>set ss. b \<le> lower (alignmentBounds s)" and "x \<in> set (all_aligned ss)"
  shows "b \<le> fst x"
proof -
  obtain s where "s \<in> set ss" "x \<in> set (aligned s)" using assms(3) by (auto simp: all_aligned_def)
  with assms(1,2) aligned_bounds [of s x] show ?thesis by (force simp: multi_wf_def)
qed

lemma sorted_all_aligned:
  assumes "multi_wf ms" and "ordered (map alignmentBounds ms)"
  shows "sorted_wrt (\<lambda>x y. fst x < fst y) (all_aligned ms)"
  using assms
proof (induction ms)
  case (Cons s ss)
  have "sorted_wrt (\<lambda>x y. fst x < fst y) (aligned s)"
    by (simp add: aligned_def sorted_wrt_map sorted_wrt_upt [THEN sorted_wrt_mono_rel, rotated])
  moreover have "fst x < fst y" if "x \<in> set (aligned s)" "y \<in> set (all_aligned ss)" for x y
    using aligned_bounds [of s x] all_aligned_above [of ss "upper (alignmentBounds s)" y] that Cons.prems
    by (fastforce simp: ordered_Cons)
  ultimately show ?case using Cons by (simp add: sorted_wrt_append ordered_Cons)
qed simp

definition rank :: "(int \<times> 'v) list \<Rightarrow> int \<Rightarrow> nat" where
  "rank xs a = length (filter (\<lambda>x. fst x < a) xs)"

lemma rank_above: "\<forall>x\<in>set xs. b \<le> fst x \<Longrightarrow> rank xs b = 0"
  by (auto simp: rank_def filter_empty_conv)

lemma rank_window:
  assumes "sorted_wrt (\<lambda>x y. fst x < fst y) xs"
  shows "filter (\<lambda>x. a \<le> fst x \<and> fst x < b) xs = take (rank xs b - rank xs a) (drop (rank xs a) xs)"
  using assms
proof (induction xs)
  case (Cons x xs)
  have IH: "filter (\<lambda>x. a \<le> fst x \<and> fst x < b) xs = take (rank xs b - rank xs a) (drop (rank xs a) xs)"
    using Cons by simp
  have above: "rank xs c = 0" if "c \<le> fst x" for c
    using Cons.prems that by (intro rank_above) auto
  have empty: "filter (\<lambda>x. a \<le> fst x \<and> fst x < b) xs = []" if "b \<le> fst x"
    using Cons.prems that by (auto simp: filter_empty_conv)
  have r: "rank (x # xs) c = (if fst x < c then Suc (rank xs c) else rank xs c)" for c
    by (simp add: rank_def)
  show ?case
    using IH above [of a] above [of b] empty by (auto simp: r not_less)
qed simp

lemma rank_append: "rank (xs @ ys) a = rank xs a + rank ys a"
  by (simp add: rank_def)

lemma rank_aligned: "rank (aligned s) a = min (length (data s)) (nat (a - alignment s))"
proof -
  have "alignment s + int i < a \<longleftrightarrow> i < nat (a - alignment s)" for i by linarith
  then have "rank (aligned s) a = length (filter (\<lambda>i. i < nat (a - alignment s)) [0..<length (data s)])"
    by (simp add: rank_def aligned_def filter_map comp_def)
  also have "filter (\<lambda>i. i < k) [0..<n] = [0..<min n k]" for k n :: nat
    by (induction n) auto
  finally show ?thesis by simp
qed

lemma alignment_index_rank:
  assumes "multi_wf ms" and "ordered (map alignmentBounds ms)"
  shows "alignment_index ms al ix = ix + int (rank (all_aligned ms) al)"
  using assms
proof (induction ms arbitrary: ix)
  case Nil
  then show ?case by (simp add: rank_def)
next
  case (Cons s ss)
  have b: "alignmentBounds s = \<lparr>lower = alignment s, upper = alignment s + int (length (data s))\<rparr>"
    using Cons.prems(1) by (simp add: alignmentBounds_wf)
  have later: "rank (all_aligned ss) al = 0" if "al \<le> upper (alignmentBounds s)"
    using all_aligned_above [of ss "upper (alignmentBounds s)"] Cons.prems that
    by (intro rank_above) (fastforce simp: ordered_Cons)
  have IH: "alignment_index ss al ix' = ix' + int (rank (all_aligned ss) al)" for ix'
    using Cons by (simp add: ordered_Cons)
  consider "al < alignment s" | "alignment s + int (length (data s)) \<le> al"
    | "alignment s \<le> al" "al < alignment s + int (length (data s))" by linarith
  then show ?case
  proof cases
    case 1
    then show ?thesis using later b by (simp add: rank_append rank_aligned)
  next
    case 2
    then show ?thesis using IH Cons.prems(1) b by (simp add: rank_append rank_aligned)
  next
    case 3
    then have "\<bar>al - alignment s\<bar> \<le> 2 ^ 53" using Cons.prems(1) by simp
    with 3 show ?thesis using later b Cons.prems(1)
      by (simp add: rank_append rank_aligned contains_def construct_bounds_id)
  qed
qed

lemma aligned_within:
  assumes "multi_wf ms" and "ordered (map alignmentBounds ms)" and "x \<in> set (all_aligned ms)"
  shows "lower (multi_alignmentBounds ms) \<le> fst x \<and> fst x < upper (multi_alignmentBounds ms)"
proof -
  obtain s where s: "s \<in> set ms" "x \<in> set (aligned s)" using assms(3) by (auto simp: all_aligned_def)
  then have ne: "ms \<noteq> []" by auto
  have x: "lower (alignmentBounds s) \<le> fst x" "fst x < upper (alignmentBounds s)"
    using aligned_bounds [of s x] assms(1) s by (auto simp: multi_wf_def)
  have "lower (alignmentBounds (hd ms)) \<le> lower (alignmentBounds s)"
    using assms(2) s(1) by (cases ms) (auto simp: ordered_Cons intro: order_trans less_imp_le)
  moreover have "upper (alignmentBounds s) \<le> upper (alignmentBounds (last ms))"
  proof (cases ms rule: rev_cases)
    case (snoc ss t)
    with assms(2) s(1) show ?thesis
      by (auto simp: ordered_append ordered_Cons intro: order_trans less_imp_le)
  qed (use ne in simp)
  ultimately show ?thesis using x ne by (simp add: multi_alignmentBounds_def construct_bounds_id)
qed

lemma map_nth_window:
  "j \<le> length xs \<Longrightarrow> map (\<lambda>k. f (xs ! k)) [i..<j] = map f (take (j - i) (drop i xs))"
  by (rule nth_equalityI) auto

lemma window_length:
  "a \<le> b \<Longrightarrow> length (filter (\<lambda>x. a \<le> fst x \<and> fst x < b) xs) + rank xs a = rank xs b" for a :: int
  by (induction xs) (auto simp: rank_def)

lemma distance_counts:
  assumes "multi_wf ms" and "ordered (map alignmentBounds ms)" and "a \<le> b"
  shows "multi_distance ms a b = int (length (filter (\<lambda>x. a \<le> fst x \<and> fst x < b) (all_aligned ms)))"
proof -
  have "int (rank (all_aligned ms) b) = int (rank (all_aligned ms) a) + ground (map alignmentBounds ms) a b"
    using assms(1)
  proof (induction ms)
    case Nil
    then show ?case by (simp add: rank_def ground_def)
  next
    case (Cons s ss)
    let ?n = "length (data s)" and ?al = "alignment s"
    have "int (min ?n (nat (b - ?al))) =
        int (min ?n (nat (a - ?al))) + max 0 (min (?al + int ?n) b - max ?al a)"
      using assms(3) by linarith
    with Cons show ?case
      by (simp add: rank_append rank_aligned ground_def alignmentBounds_wf)
  qed
  moreover have "multi_distance ms a b = ground (map alignmentBounds ms) a b"
    using distance_ground [OF ordered_valid [OF assms(2)], of a b] assms(3) by (simp add: multi_distance_def)
  ultimately show ?thesis using window_length [OF assms(3), of "all_aligned ms"] by linarith
qed

section \<open>Properties\<close>

text \<open>
  A multi-series reads as the concatenation of its series: an index inside reads that sample, a
  negative index counts from the end, an index past the end is missing (an error when required), and
  iterating yields all samples in order.
\<close>

theorem multi_series_concatenates:
  assumes "multi_wf ms"
  shows "(\<forall>i r. 0 \<le> i \<and> i < int (multi_length ms) \<longrightarrow>
      multi_at ms i r = return (Some (concat (map (\<lambda>s. map (value_at s) [0..<series_length s]) ms) ! nat i))) \<and>
    (\<forall>i r. - int (multi_length ms) \<le> i \<and> i < 0 \<longrightarrow> multi_at ms i r = multi_at ms (int (multi_length ms) + i) r) \<and>
    (\<forall>i r. int (multi_length ms) \<le> i \<longrightarrow> multi_at ms i r = missing r) \<and>
    multiIterator ms = return (concat (map (\<lambda>s. map (value_at s) [0..<series_length s]) ms))"
proof -
  have vals: "concat (map (\<lambda>s. map (value_at s) [0..<series_length s]) ms) = map snd (all_aligned ms)"
    using assms by (induction ms) (auto simp: aligned_def comp_def)
  have iter: "multiIterator ms = return (map snd (all_aligned ms))"
    using assms
  proof (induction ms)
    case (Cons s ss)
    then have "fixedIterator s = return (map (value_at s) [0..<length (data s)])"
      using fixed_series.collect_all [of s] by (simp add: fixedIterator_def)
    with Cons show ?case by (simp add: aligned_def comp_def)
  qed simp
  have in_range: "multi_at ms i r = return (Some (map snd (all_aligned ms) ! nat i))"
    if "0 \<le> i" "i < int (multi_length ms)" for i r
    using multi.get_inside [OF assms, of "nat i" r] that assms by (simp add: multi_length_aligned)
  have out: "multi_at ms i r = missing r" if "int (multi_length ms) \<le> i" for i r
    using multi_at_loop_outside [OF assms, of "nat i" r] that assms
    by (simp add: multi_at_def multi_length_aligned)
  have neg: "multi_at ms i r = multi_at ms (int (multi_length ms) + i) r"
    if "- int (multi_length ms) \<le> i" "i < 0" for i r
    using that by (simp add: multi_at_def)
  show ?thesis unfolding vals using in_range out neg iter by blast
qed

definition example_multi :: multi_series where
  "example_multi = [newSeries FLOAT32 [Num 1, Num 2] None (Num 0) StaticUsage 2,
                    newSeries FLOAT32 [Num 3, Num 4] None (Num 0) StaticUsage 8]"

lemma example_multi_wf: "multi_wf example_multi" "multi_length example_multi = 4"
  "ordered (map alignmentBounds example_multi)"
proof -
  show wf: "multi_wf example_multi" by (simp add: example_multi_def multi_wf_def fixed_types_def)
  show "multi_length example_multi = 4"
    using wf by (simp add: multi_length_def example_multi_def)
  show "ordered (map alignmentBounds example_multi)"
    by (simp add: example_multi_def ordered_Cons alignmentBounds_wf fixed_types_def)
qed

lemma multi_series_concatenates_witness:
  "multi_at example_multi 2 True = return (Some (NumSample (Num 3))) \<and>
   multi_at example_multi 4 True = throw ''[series] - no value at index''"
proof -
  let ?v = "concat (map (\<lambda>s. map (value_at s) [0..<series_length s]) example_multi)"
  have "?v ! 2 = NumSample (Num 3)"
    using example_multi_wf(1) by (simp add: example_multi_def value_at_def addSamples_def upt_rec)
  moreover from multi_series_concatenates [OF example_multi_wf(1)] have
    "multi_at example_multi 2 True = return (Some (?v ! nat 2))" "multi_at example_multi 4 True = missing True"
    unfolding example_multi_wf(2) by simp_all
  ultimately show ?thesis by (simp add: missing_def)
qed

text \<open>
  Reading by alignment: for ordered, non-overlapping series \<open>subAlignmentIterator\<close> yields exactly
  the samples with an alignment in the half-open interval, in order, whether its ends lie in a
  series, in a gap or outside; their number is the \<open>distance\<close> between the two alignments.
\<close>

theorem subAlignmentIterator_window:
  assumes "multi_wf ms" and "ordered (map alignmentBounds ms)" and "a \<le> b"
  shows "multi_subAlignmentIterator ms a b =
      return (map snd (filter (\<lambda>x. a \<le> fst x \<and> fst x < b) (all_aligned ms))) \<and>
    multi_distance ms a b = int (length (filter (\<lambda>x. a \<le> fst x \<and> fst x < b) (all_aligned ms)))"
proof -
  let ?L = "all_aligned ms"
  let ?f = "filter (\<lambda>x. a \<le> fst x \<and> fst x < b) ?L"
  note win = rank_window [OF sorted_all_aligned [OF assms(1,2)], of a b]
  have len: "length ?f + rank ?L a = rank ?L b" using assms(3) by (rule window_length)
  have "multi_subAlignmentIterator ms a b = return (map snd ?f)"
  proof (cases "a \<ge> upper (multi_alignmentBounds ms) \<or> b \<le> lower (multi_alignmentBounds ms)")
    case True
    then have "?f = []" using aligned_within [OF assms(1,2)] by (force simp: filter_empty_conv)
    with True show ?thesis by (simp add: multi_subAlignmentIterator_def)
  next
    case False
    have "multiSubIterator ms (int (rank ?L a)) (int (rank ?L b)) =
        return (map (\<lambda>i. snd (?L ! i)) [rank ?L a..<rank ?L b])"
      using multi.collect_range [OF assms(1), of "int (rank ?L b)" "rank ?L a"]
      by (simp add: multiSubIterator_def rank_def)
    moreover have "map (\<lambda>i. snd (?L ! i)) [rank ?L a..<rank ?L b] = map snd ?f"
      unfolding win by (rule map_nth_window) (simp add: rank_def)
    ultimately show ?thesis
      using False alignment_index_rank [OF assms(1,2), of _ 0] by (simp add: multi_subAlignmentIterator_def)
  qed
  then show ?thesis using distance_counts [OF assms] by simp
qed

lemma subAlignmentIterator_window_witness:
  "multi_subAlignmentIterator example_multi 3 9 = return [NumSample (Num 2), NumSample (Num 3)] \<and>
   multi_distance example_multi 3 9 = 2"
proof -
  have "filter (\<lambda>x. 3 \<le> fst x \<and> fst x < 9) (all_aligned example_multi) =
      [(3, NumSample (Num 2)), (8, NumSample (Num 3))]"
    by (simp add: example_multi_def aligned_def value_at_def addSamples_def upt_rec)
  with subAlignmentIterator_window [OF example_multi_wf(1,3), of 3 9] show ?thesis by simp
qed

end
