(* ===== verification/Static_Cache.thy ===== *)
theory Static_Cache
  imports Multi_Series
begin

text \<open>
  \<open>Static\<close> of \<open>pluto/src/telem/client/cache/static.ts\<close>, the cache of historical series of a channel,
  kept in the order of their alignments, and the conversion of series it applies
  (\<open>pluto/src/telem/aether/convertSeries.ts\<close>).  Logging is left out; the clock is an argument.
\<close>

section \<open>Conversion for rendering (\<open>pluto/src/telem/aether/convertSeries.ts\<close>)\<close>

definition convertSeriesToSupportedGL :: "series \<Rightarrow> numeric option \<Rightarrow> series result" where
  "convertSeriesToSupportedGL s offset =
     (if isVariable (dataType s) \<or> dt_equals (dataType s) UINT8 then return s
      else case offset of
        Some o' \<Rightarrow> convert s FLOAT32 o'
      | None \<Rightarrow>
          if dt_equals (dataType s) TIMESTAMP then
            (case data s of
               [] \<Rightarrow> throw ''TypeError: Cannot convert undefined to a BigInt''
             | v # _ \<Rightarrow> bind_result (to_bigint v) (\<lambda>b. convert s FLOAT32 (Big b)))
          else convert s FLOAT32 (Num 0))"

definition resolveGLDataType :: "data_type \<Rightarrow> data_type" where
  "resolveGLDataType dt = (if isVariable dt \<or> dt_equals dt UINT8 then dt else FLOAT32)"

section \<open>The static cache\<close>

record cache_entry =
  entry_data :: series
  addedAt :: timestamp

type_synonym static_cache = "cache_entry list"

record gc_metrics =
  purgedSeries :: int
  purgedBytes :: nat

definition zeroCacheGCMetrics :: gc_metrics where
  "zeroCacheGCMetrics = \<lparr>purgedSeries = 0, purgedBytes = 0\<rparr>"

definition DEFAULT_STALE_ENTRY_THRESHOLD :: timespan where
  "DEFAULT_STALE_ENTRY_THRESHOLD = seconds 20"

abbreviation entry_bounds :: "static_cache \<Rightarrow> int bounds list" where
  "entry_bounds es \<equiv> map (\<lambda>e. alignmentBounds (entry_data e)) es"

text \<open>What \<open>writeOne\<close> does with an insertion plan.\<close>

definition insertWithPlan ::
    "int insertion_plan option \<Rightarrow> timestamp \<Rightarrow> series \<Rightarrow> static_cache \<Rightarrow> static_cache" where
  "insertWithPlan plan now s es =
     (case plan of
        None \<Rightarrow> es
      | Some p \<Rightarrow>
          let s' = slice s (removeBefore p) (Some (int (length (data s)) - bigint_to_number (removeAfter p)))
          in if series_length s' = 0 then es
             else splice_at (insertInto p) (deleteInBetween p) [\<lparr>entry_data = s', addedAt = now\<rparr>] es)"

definition writeOne :: "timestamp \<Rightarrow> series \<Rightarrow> static_cache \<Rightarrow> static_cache" where
  "writeOne now s es =
     (if series_length s = 0 then es
      else insertWithPlan (buildInsertionPlan bigint_to_number (entry_bounds es) (alignmentBounds s)) now s es)"

definition checkIntegrity :: "static_cache \<Rightarrow> unit result" where
  "checkIntegrity es =
     (let bs = entry_bounds es
      in if list_ex (\<lambda>i. list_ex (\<lambda>j. i \<noteq> j \<and> overlapsWith (bs ! i) (bs ! j)) [0..<length bs]) [0..<length bs]
         then throw ''Invalid state'' else return ())"

text \<open>The writes of one call: the entries so far, and the error that ended them.\<close>

fun write_each :: "timestamp \<Rightarrow> series list \<Rightarrow> static_cache \<Rightarrow> static_cache \<times> string option" where
  "write_each now [] es = (es, None)"
| "write_each now (s # ss) es =
     (case convertSeriesToSupportedGL s None of
        Inl e \<Rightarrow> (es, Some e)
      | Inr s' \<Rightarrow> write_each now ss (writeOne now s' es))"

definition static_write :: "timestamp \<Rightarrow> series list \<Rightarrow> static_cache \<Rightarrow> static_cache \<times> string option" where
  "static_write now ss es =
     (if ss = [] then (es, None)
      else case write_each now ss es of
        (es', Some e) \<Rightarrow> (es', Some e)
      | (es', None) \<Rightarrow>
          (case checkIntegrity es' of Inl e \<Rightarrow> (es', Some e) | Inr _ \<Rightarrow> (es', None)))"

record dirty_read_result =
  read_series :: "series list"
  gaps :: "time_range list"

text \<open>\<open>timeRange\<close> of a series that has one, which every cached series does.\<close>

definition time_range_of :: "series \<Rightarrow> time_range" where
  "time_range_of s = (case timeRange s of Some tr \<Rightarrow> tr | None \<Rightarrow> RANGE_ZERO)"

definition proper_gap :: "time_range \<Rightarrow> bool" where
  "proper_gap t \<longleftrightarrow> \<not> range_isZero t \<and> range_isValid t"

definition inner_gaps :: "series list \<Rightarrow> time_range list" where
  "inner_gaps ss =
     filter proper_gap
       (map (\<lambda>i. if i = 0 then RANGE_ZERO
                 else newTimeRange (end (time_range_of (ss ! (i - 1)))) (start (time_range_of (ss ! i))))
         [0..<length ss])"

definition dirtyRead :: "time_range \<Rightarrow> static_cache \<Rightarrow> dirty_read_result" where
  "dirtyRead tr es =
     (let ss = map entry_data (filter (\<lambda>e. range_overlapsWith (time_range_of (entry_data e)) tr 0) es)
      in if ss = [] then \<lparr>read_series = [], gaps = [tr]\<rparr>
         else
           let leadingGap = newTimeRange (start tr) (start (time_range_of (hd ss)));
               trailingGap = newTimeRange (end (time_range_of (last ss))) (end tr);
               g1 = inner_gaps ss;
               g2 = (if range_isValid leadingGap \<and> \<not> range_isZero leadingGap then leadingGap # g1 else g1);
               g3 = (if range_isValid trailingGap \<and> \<not> range_isZero trailingGap then g2 @ [trailingGap] else g2)
           in \<lparr>read_series = ss, gaps = g3\<rparr>)"

definition shouldKeep :: "timestamp \<Rightarrow> timespan \<Rightarrow> cache_entry \<Rightarrow> bool" where
  "shouldKeep now threshold e \<longleftrightarrow>
     refCount (entry_data e) > 0 \<or> lessThan (since now (addedAt e)) threshold"

definition static_gc :: "timestamp \<Rightarrow> timespan \<Rightarrow> static_cache \<Rightarrow> static_cache \<times> gc_metrics" where
  "static_gc now threshold es =
     (let es' = filter (shouldKeep now threshold) es
      in (es', \<lparr>purgedSeries = int (length es) - int (length es'),
               purgedBytes = foldl (\<lambda>n e. if shouldKeep now threshold e then n
                                          else n + byteCapacity (entry_data e)) 0 es\<rparr>))"

definition static_close :: "static_cache \<Rightarrow> static_cache" where
  "static_close es = []"

section \<open>The order of the entries\<close>

definition cache_wf :: "static_cache \<Rightarrow> bool" where
  "cache_wf es \<longleftrightarrow> ordered (entry_bounds es) \<and>
     (\<forall>e\<in>set es. series_wf (entry_data e) \<and> int (length (data (entry_data e))) \<le> 2 ^ 53)"

text \<open>Every alignment of \<open>t\<close> reads as in \<open>s\<close>.\<close>

definition reads_as :: "series \<Rightarrow> series \<Rightarrow> bool" where
  "reads_as t s \<longleftrightarrow> (\<forall>al\<in>points (alignmentBounds t). \<forall>r. atAlignment t al r = atAlignment s al r)"

definition inside_first :: "int bounds \<Rightarrow> int bounds list \<Rightarrow> bool" where
  "inside_first v bs \<longleftrightarrow> bs \<noteq> [] \<and> lower (hd bs) < lower v \<and> upper v < upper (hd bs)"

lemma map_splice_at: "map f (splice_at i n xs ys) = splice_at i n (map f xs) (map f ys)"
  by (simp add: splice_at_def take_map drop_map)

lemma set_splice_at_subset: "set (splice_at i n xs ys) \<subseteq> set xs \<union> set ys"
  by (auto simp: splice_at_def dest: in_set_takeD in_set_dropD)

text \<open>
  The cache relies on its planner only through the contract below: a plan for an ordered array merges
  the new bounds, and the absence of a plan means that they are covered already. The widths of the bounds are exact as numbers.
\<close>

locale insertion_planner =
  fixes plan :: "int bounds list \<Rightarrow> int bounds \<Rightarrow> int insertion_plan option"
  assumes merges: "ordered bs \<Longrightarrow> \<forall>b\<in>set bs. upper b - lower b \<le> 2 ^ 53 \<Longrightarrow> lower v < upper v \<Longrightarrow> \<not> inside_first v bs \<Longrightarrow> plan_correct bs v (plan bs v)"
begin

lemma planned_slice:
  assumes "ordered bs" and widths: "\<forall>b\<in>set bs. upper b - lower b \<le> 2 ^ 53" and "series_wf s" and "int (length (data s)) \<le> 2 ^ 53" and "data s \<noteq> []"
    and "\<not> inside_first (alignmentBounds s) bs" and "plan bs (alignmentBounds s) = Some p"
    and t: "t = slice s (removeBefore p) (Some (int (length (data s)) - bigint_to_number (removeAfter p)))"
  shows "series_wf t" and "alignmentBounds t = trimmed (alignmentBounds s) p" and "reads_as t s"
    and "int (length (data t)) = upper (trimmed (alignmentBounds s) p) - lower (trimmed (alignmentBounds s) p)"
    and "length (data t) \<le> length (data s)"
proof -
  let ?n = "int (length (data s))" and ?lo = "removeBefore p" and ?hi = "int (length (data s)) - removeAfter p"
  have v: "alignmentBounds s = \<lparr>lower = alignment s, upper = alignment s + ?n\<rparr>"
    using assms(3) by (rule alignmentBounds_wf)
  have "plan_correct bs (alignmentBounds s) (Some p)"
    using merges [OF assms(1) widths _ assms(6)] assms(5,7) by (simp add: v)
  then have b: "0 \<le> ?lo" "?lo \<le> ?hi" "?hi \<le> ?n"
    by (auto simp: plan_correct_def trimmed_def v)
  then have t': "t = sliceSub False s ?lo (Some ?hi)"
    using assms(4) by (simp add: t slice_def)
  note sl = sliceSub_props [OF assms(3) b] and bt = alignmentBounds_slice [OF assms(3) b]
  show "series_wf t" using sl(1) by (simp add: t')
  show "alignmentBounds t = trimmed (alignmentBounds s) p" using bt by (simp add: t' v trimmed_def)
  show "reads_as t s"
    unfolding reads_as_def t' using atAlignment_slice [OF assms(3) b assms(4)] bt by (simp add: points_def)
  have len: "length (data t) = nat (?hi - ?lo)" using sl(2) b by (simp add: t')
  then show "int (length (data t)) = upper (trimmed (alignmentBounds s) p) - lower (trimmed (alignmentBounds s) p)"
    "length (data t) \<le> length (data s)" using b by (simp_all add: v trimmed_def)
qed

lemma insert_keeps_order:
  assumes wf: "cache_wf es" and s: "series_wf s" "int (length (data s)) \<le> 2 ^ 53" "data s \<noteq> []"
    and first: "\<not> inside_first (alignmentBounds s) (entry_bounds es)"
    and es': "es' = insertWithPlan (plan (entry_bounds es) (alignmentBounds s)) now s es"
  shows "cache_wf es'"
    and "covered (entry_bounds es') = covered (entry_bounds es) \<union> points (alignmentBounds s)"
    and "\<forall>e\<in>set es'. e \<in> set es \<or> addedAt e = now \<and> reads_as (entry_data e) s"
proof -
  let ?bs = "entry_bounds es" and ?v = "alignmentBounds s"
  have ord: "ordered ?bs" using wf by (simp add: cache_wf_def)
  have v: "lower ?v < upper ?v" using alignmentBounds_wf [OF s(1)] s(3) by simp
  have widths: "\<forall>b\<in>set ?bs. upper b - lower b \<le> 2 ^ 53" using wf by (auto simp: cache_wf_def alignmentBounds_wf)
  note pc = merges [OF ord widths v first]
  show "cache_wf es'" and "covered (entry_bounds es') = covered ?bs \<union> points ?v"
    and "\<forall>e\<in>set es'. e \<in> set es \<or> addedAt e = now \<and> reads_as (entry_data e) s"
  proof (atomize (full), cases "plan ?bs ?v")
    case None
    then show "cache_wf es' \<and> covered (entry_bounds es') = covered ?bs \<union> points ?v \<and>
        (\<forall>e\<in>set es'. e \<in> set es \<or> addedAt e = now \<and> reads_as (entry_data e) s)"
      using pc wf by (auto simp: es' insertWithPlan_def plan_correct_def)
  next
    case (Some p)
    define t where "t = slice s (removeBefore p) (Some (int (length (data s)) - bigint_to_number (removeAfter p)))"
    note t = planned_slice [OF ord widths s first Some t_def]
    let ?new = "\<lparr>entry_data = t, addedAt = now\<rparr>"
    have es'_eq: "es' = (if data t = [] then es else splice_at (insertInto p) (deleteInBetween p) [?new] es)"
      using t(1) by (simp add: es' insertWithPlan_def Some t_def [symmetric])
    moreover have "data t = [] \<longleftrightarrow> \<not> lower (trimmed ?v p) < upper (trimmed ?v p)"
      using t(4) by (cases "data t") auto
    ultimately have "entry_bounds es' = apply_plan ?bs ?v p"
      using t(2) by (auto simp: apply_plan_def map_splice_at)
    moreover have "ordered (apply_plan ?bs ?v p)" "covered (apply_plan ?bs ?v p) = covered ?bs \<union> points ?v"
      using pc by (simp_all add: plan_correct_def Some)
    moreover have sub: "set es' \<subseteq> insert ?new (set es)"
      using set_splice_at_subset [of _ _ "[?new]" es] by (auto simp: es'_eq)
    ultimately show "cache_wf es' \<and> covered (entry_bounds es') = covered ?bs \<union> points ?v \<and>
        (\<forall>e\<in>set es'. e \<in> set es \<or> addedAt e = now \<and> reads_as (entry_data e) s)"
      using wf t(1,3,5) s(2) by (auto simp: cache_wf_def dest!: subsetD [OF sub])
  qed
qed

end

lemma bigint_exact_on: "\<forall>b\<in>set bs. upper b - lower b \<le> 2 ^ 53 \<Longrightarrow> exact_on bigint_to_number bs"
  by (fastforce simp: exact_on_def)

interpretation planner: insertion_planner "buildInsertionPlan bigint_to_number"
  by unfold_locales (simp add: buildInsertionPlan_correct buildInsertionPlan_exact bigint_exact_on inside_first_def)

lemma checkIntegrity_ordered: "ordered (entry_bounds es) \<Longrightarrow> checkIntegrity es = return ()"
  using ordered_no_overlap [of "entry_bounds es"]
  by (auto simp: checkIntegrity_def Let_def list_ex_iff)

lemma checkIntegrity_overlap:
  assumes "overlapsWith (alignmentBounds (entry_data a)) (alignmentBounds (entry_data b))"
  shows "checkIntegrity (a # b # es) = throw ''Invalid state''"
proof -
  let ?bs = "entry_bounds (a # b # es)"
  have "(0::nat) < length ?bs \<and> 1 < length ?bs \<and> overlapsWith (?bs ! 0) (?bs ! 1)" using assms by simp
  then have "\<exists>i\<in>{0..<length ?bs}. \<exists>j\<in>{0..<length ?bs}. i \<noteq> j \<and> overlapsWith (?bs ! i) (?bs ! j)"
    by (intro bexI [of _ 0] bexI [of _ 1]) auto
  then show ?thesis unfolding checkIntegrity_def Let_def list_ex_iff set_upt by (simp only: if_True)
qed

text \<open>A negative end of a slice counts from the end of the series.\<close>

lemma slice_negative_end:
  assumes "series_wf s" and "0 < k" and "k < int (length (data s))"
  shows "alignmentBounds (slice s 0 (Some (- k))) =
      \<lparr>lower = alignment s, upper = alignment s + (int (length (data s)) - k)\<rparr>"
    and "series_length (slice s 0 (Some (- k))) \<noteq> 0"
proof -
  define t where "t = newSeries (dataType s) (take (nat (int (length (data s)) - k)) (data s)) (timeRange s)
      (sampleOffset s) (bufferUsage (gl s)) (alignment s)"
  have eq: "slice s 0 (Some (- k)) = t"
    using assms by (simp add: slice_def sliceSub_def t_def js_slice_def rel_index_def)
  have wf: "series_wf t" using assms(1) by (simp add: t_def series_wf_def)
  have "length (data t) = nat (int (length (data s)) - k)" "alignment t = alignment s"
    using assms by (simp_all add: t_def)
  then show "alignmentBounds (slice s 0 (Some (- k))) =
      \<lparr>lower = alignment s, upper = alignment s + (int (length (data s)) - k)\<rparr>"
    "series_length (slice s 0 (Some (- k))) \<noteq> 0"
    unfolding eq using alignmentBounds_wf [OF wf] wf assms by simp_all
qed

section \<open>Gaps\<close>

definition between :: "time_range list \<Rightarrow> time_range list" where
  "between rs = map (\<lambda>(a, b). newTimeRange (end a) (start b)) (zip rs (tl rs))"

definition in_order :: "time_range list \<Rightarrow> bool" where
  "in_order rs \<longleftrightarrow> sorted_wrt (\<lambda>a b. end a \<le> start b) rs \<and> (\<forall>r\<in>set rs. start r < end r)"

lemma proper_gap_iff: "proper_gap g \<longleftrightarrow> start g < end g"
  by (auto simp: proper_gap_def range_isZero_def time_simps)

lemma inner_gaps_between: "inner_gaps ss = filter proper_gap (between (map time_range_of ss))"
proof (cases ss)
  case (Cons s rest)
  let ?g = "\<lambda>i. newTimeRange (end (time_range_of (ss ! (i - 1)))) (start (time_range_of (ss ! i)))"
  have "[0..<length ss] = 0 # map Suc [0..<length rest]"
    by (simp add: Cons map_Suc_upt upt_conv_Cons del: upt_Suc)
  moreover have "map (\<lambda>i. ?g (Suc i)) [0..<length rest] = between (map time_range_of ss)"
    by (rule nth_equalityI) (auto simp: between_def Cons nth_Cons split: nat.splits)
  moreover have "\<not> proper_gap RANGE_ZERO" by (simp add: proper_gap_iff RANGE_ZERO_def newTimeRange_def)
  ultimately show ?thesis by (simp add: inner_gaps_def comp_def del: upt_Suc)
qed (simp add: inner_gaps_def between_def)

text \<open>Ranges in order and the gaps between them divide the time from the first start to the last end.\<close>

lemma in_order_span: "in_order rs \<Longrightarrow> rs \<noteq> [] \<Longrightarrow> start (hd rs) < end (last rs)"
proof (induction rs)
  case (Cons a rs)
  then show ?case by (cases rs) (auto simp: in_order_def)
qed simp

lemma ranges_and_gaps:
  assumes "in_order rs" and "rs \<noteq> []"
  shows "((\<exists>r\<in>set rs. range_contains_stamp r t) \<or> (\<exists>g\<in>set (between rs). range_contains_stamp g t) \<longleftrightarrow>
      start (hd rs) \<le> t \<and> t < end (last rs)) \<and>
    \<not> ((\<exists>r\<in>set rs. range_contains_stamp r t) \<and> (\<exists>g\<in>set (between rs). range_contains_stamp g t))"
  using assms
proof (induction rs)
  case (Cons a rs)
  note c = range_contains_stamp_def beforeEq_def after_def newTimeRange_def
  show ?case
  proof (cases rs)
    case Nil
    then show ?thesis by (auto simp: between_def c)
  next
    case (Cons b bs)
    have ord: "in_order rs" "start a < end a" "end a \<le> start b"
      using Cons.prems local.Cons by (auto simp: in_order_def)
    have bet: "between (a # rs) = newTimeRange (end a) (start b) # between rs"
      by (simp add: between_def local.Cons)
    have sp: "start b < end (last rs)" using in_order_span [OF ord(1)] local.Cons by simp
    define R G where "R = (\<exists>r\<in>set rs. range_contains_stamp r t)"
      and "G = (\<exists>g\<in>set (between rs). range_contains_stamp g t)"
    have IH: "(R \<or> G \<longleftrightarrow> start b \<le> t \<and> t < end (last rs)) \<and> \<not> (R \<and> G)"
      using Cons.IH ord(1) local.Cons by (simp add: R_def G_def)
    have "(\<exists>r\<in>set (a # rs). range_contains_stamp r t) \<longleftrightarrow> (start a \<le> t \<and> t < end a) \<or> R"
      "(\<exists>g\<in>set (between (a # rs)). range_contains_stamp g t) \<longleftrightarrow> (end a \<le> t \<and> t < start b) \<or> G"
      by (auto simp: bet R_def G_def c)
    then show ?thesis using IH ord sp local.Cons by auto
  qed
qed simp

lemma between_mem: "g \<in> set (between rs) \<Longrightarrow> \<exists>x\<in>set rs. \<exists>y\<in>set rs. g = newTimeRange (end x) (start y)"
proof -
  assume "g \<in> set (between rs)"
  then obtain a b where g: "g = newTimeRange (end a) (start b)" "(a, b) \<in> set (zip rs (tl rs))"
    by (auto simp: between_def)
  then have "a \<in> set rs" "b \<in> set (tl rs)" by (auto dest: set_zip_leftD set_zip_rightD)
  moreover from this have "b \<in> set rs" by (cases rs) auto
  ultimately show ?thesis using g by blast
qed

section \<open>Properties\<close>

text \<open>
  C1: A write to the static cache merges, for series of the eleven data types whose samples are numbers of a
  fixed size (integers, floats and timestamps; not UUIDs, strings or JSON, whose slices count bytes) and for
  entries and a new series of at most 2^53 samples: unless the new series lies strictly inside the first
  entry, the entries stay ordered and free of overlaps (so the integrity check passes), they cover exactly
  the old alignments and those of the new series, and every entry is an old one or reads as the new series
  does.
\<close>

theorem static_write_merges:
  assumes "cache_wf es" and "series_wf s" and "int (series_length s) \<le> 2 ^ 53"
    and "\<not> inside_first (alignmentBounds s) (entry_bounds es)" and es'_def: "es' = writeOne now s es"
  shows "cache_wf es' \<and> checkIntegrity es' = return () \<and>
    covered (entry_bounds es') = covered (entry_bounds es) \<union> points (alignmentBounds s) \<and>
    (\<forall>e\<in>set es'. e \<in> set es \<or> addedAt e = now \<and> reads_as (entry_data e) s)"
proof (cases "data s = []")
  case True
  then have "es' = es" "points (alignmentBounds s) = {}"
    using assms(2) by (simp_all add: es'_def writeOne_def alignmentBounds_wf points_def)
  then show ?thesis using assms(1) checkIntegrity_ordered by (simp add: cache_wf_def)
next
  case False
  then have "es' = insertWithPlan (buildInsertionPlan bigint_to_number (entry_bounds es) (alignmentBounds s)) now s es"
    using assms(2) by (simp add: es'_def writeOne_def)
  note k = planner.insert_keeps_order [OF assms(1,2) _ False assms(4) this]
  then show ?thesis using assms(2,3) checkIntegrity_ordered [of es'] by (auto simp: cache_wf_def)
qed

definition example_cache :: static_cache where
  "example_cache = [\<lparr>entry_data = newSeries FLOAT32 [Num 1, Num 2, Num 3, Num 4] None (Num 0) StaticUsage 0, addedAt = 0\<rparr>]"

lemma example_cache_wf: "cache_wf example_cache"
  by (simp add: example_cache_def cache_wf_def alignmentBounds_wf fixed_types_def ordered_def)

lemma static_write_merges_witness:
  "covered (entry_bounds (writeOne 5 (newSeries FLOAT32 [Num 3, Num 4, Num 5] None (Num 0) StaticUsage 2) example_cache)) =
   {0..<5}"
proof -
  let ?s = "newSeries FLOAT32 [Num 3, Num 4, Num 5] None (Num 0) StaticUsage 2"
  have s: "series_wf ?s" by (simp add: fixed_types_def)
  have b: "alignmentBounds ?s = \<lparr>lower = 2, upper = 5\<rparr>" "entry_bounds example_cache = [\<lparr>lower = 0, upper = 4\<rparr>]"
    using s by (simp_all add: alignmentBounds_wf example_cache_def fixed_types_def)
  from static_write_merges [OF example_cache_wf s _ _ refl, of 5] s
  show ?thesis by (auto simp: b inside_first_def covered_def points_def)
qed

text \<open>
  The case left out above fails: a write of a series that lies strictly inside the first entry,
  and reaches further than its distance from the start of that entry, inserts an overlapping piece of
  the series in front, and the integrity check throws.
\<close>

theorem static_write_inside_first_throws:
  assumes "cache_wf es" and "series_wf s" and "int (series_length s) \<le> 2 ^ 53"
    and "dataType s = FLOAT32 \<or> dataType s = UINT8" and "inside_first (alignmentBounds s) (entry_bounds es)"
    and "alignment s - lower (hd (entry_bounds es)) < int (series_length s)"
  shows "\<exists>es'. static_write now [s] es = (es', Some ''Invalid state'') \<and> length es' = Suc (length es)"
proof -
  obtain e rest where es: "es = e # rest" using assms(5) by (cases es) (auto simp: inside_first_def)
  let ?b = "alignmentBounds (entry_data e)" and ?v = "alignmentBounds s" and ?n = "int (length (data s))"
  have v: "?v = \<lparr>lower = alignment s, upper = alignment s + ?n\<rparr>" using assms(2) by (rule alignmentBounds_wf)
  define k where "k = alignment s - lower ?b"
  have k: "0 < k" "k < ?n" "alignment s + ?n < upper ?b"
    using assms(2,5,6) by (auto simp: k_def es inside_first_def v)
  have ord: "ordered (?b # entry_bounds rest)" using assms(1) by (simp add: cache_wf_def es)
  have ne: "data s \<noteq> []" using k by auto
  have "exact_on bigint_to_number (entry_bounds es)"
    using assms(1) by (intro bigint_exact_on) (auto simp: cache_wf_def alignmentBounds_wf)
  then have plan: "buildInsertionPlan bigint_to_number (entry_bounds es) ?v =
      Some \<lparr>removeBefore = 0, removeAfter = upper ?v - lower ?b, insertInto = 0, deleteInBetween = 0\<rparr>"
    using buildInsertionPlan_first [OF ord, of ?v] buildInsertionPlan_exact [of bigint_to_number "entry_bounds es" ?v] ord k ne by (simp add: es v k_def)
  have "series_wf (entry_data e)" "int (length (data (entry_data e))) \<le> 2 ^ 53"
    using assms(1) by (simp_all add: cache_wf_def es)
  then have b: "\<bar>?n + k\<bar> \<le> 2 ^ 53" "lower ?b < upper ?b"
    using k ord alignmentBounds_wf [of "entry_data e"] by (auto simp: k_def ordered_Cons)
  define t where "t = slice s 0 (Some (- k))"
  note t = slice_negative_end [OF assms(2) k(1,2), folded t_def]
  have ra: "upper ?v - lower ?b = ?n + k" by (simp add: v k_def)
  have "slice s 0 (Some (?n - bigint_to_number (upper ?v - lower ?b))) = t"
    unfolding ra bigint_to_number_exact [OF b(1)] by (simp add: t_def)
  then have w: "writeOne now s es = \<lparr>entry_data = t, addedAt = now\<rparr> # es"
    using assms(2) ne t(2) by (simp add: writeOne_def plan insertWithPlan_def splice_at_def)
  have "overlapsWith (alignmentBounds t) ?b"
    using k b(2) ne by (simp add: t(1) k_def overlapsWith_def contains_def construct_bounds_def makeValid_def)
  then have "checkIntegrity (writeOne now s es) = throw ''Invalid state''"
    unfolding w unfolding es by (intro checkIntegrity_overlap) simp
  moreover have "convertSeriesToSupportedGL s None = return s"
    using assms(4) by (auto simp: convertSeriesToSupportedGL_def convert_def dt_equals_def data_type_names)
  ultimately show ?thesis by (simp add: static_write_def w)
qed

lemma static_write_inside_first_throws_witness:
  "\<exists>es'. static_write 7 [newSeries FLOAT32 [Num 2, Num 3] None (Num 0) StaticUsage 1] example_cache =
     (es', Some ''Invalid state'')"
proof -
  let ?s = "newSeries FLOAT32 [Num 2, Num 3] None (Num 0) StaticUsage 1"
  have s: "series_wf ?s" by (simp add: fixed_types_def)
  have b: "alignmentBounds ?s = \<lparr>lower = 1, upper = 3\<rparr>" "entry_bounds example_cache = [\<lparr>lower = 0, upper = 4\<rparr>]"
    using s by (simp_all add: alignmentBounds_wf example_cache_def fixed_types_def)
  from static_write_inside_first_throws [OF example_cache_wf s, of 7] s show ?thesis
    by (auto simp: b inside_first_def)
qed

text \<open>
  A dirty read divides the requested range: when the cached series lie in order in time, every
  instant of the range is either in one of the returned series or in one of the reported gaps, never
  in both, and every gap has a positive span and lies inside the range.
\<close>

theorem dirtyRead_divides:
  assumes order: "in_order (map (\<lambda>e. time_range_of (entry_data e)) es)" and "start tr < end tr"
    and "representable (start tr)" and "representable (end tr)"
    and rep: "\<forall>e\<in>set es. representable (start (time_range_of (entry_data e))) \<and> representable (end (time_range_of (entry_data e)))"
    and r_def: "r = dirtyRead tr es"
  shows "(\<forall>t. range_contains_stamp tr t \<longrightarrow>
      (\<exists>s\<in>set (read_series r). range_contains_stamp (time_range_of s) t) \<noteq>
      (\<exists>g\<in>set (gaps r). range_contains_stamp g t)) \<and>
    (\<forall>g\<in>set (gaps r). start tr \<le> start g \<and> start g < end g \<and> end g \<le> end tr)"
proof -
  let ?tr = "\<lambda>s. time_range_of s"
  define ss where "ss = map entry_data (filter (\<lambda>e. range_overlapsWith (?tr (entry_data e)) tr 0) es)"
  have ord: "in_order (map ?tr ss)"
    using order unfolding ss_def in_order_def
    by (auto simp: sorted_wrt_map sorted_wrt_filter intro: sorted_wrt_filter)
  have ov: "range_overlapsWith (?tr (entry_data e)) tr 0 \<longleftrightarrow>
      start (?tr (entry_data e)) < end tr \<and> start tr < end (?tr (entry_data e))" if "e \<in> set es" for e
  proof -
    have "start (?tr (entry_data e)) < end (?tr (entry_data e))" using order that by (auto simp: in_order_def)
    then show ?thesis
      using range_overlapsWith_window [of "?tr (entry_data e)" tr 0] assms(2-4) rep that by auto
  qed
  have near: "start x < end tr \<and> start tr < end x" if "x \<in> set (map ?tr ss)" for x
    using that ov by (auto simp: ss_def)
  show ?thesis
  proof (cases "ss = []")
    case True
    then show ?thesis using assms(2) by (auto simp: r_def dirtyRead_def ss_def [symmetric])
  next
    case False
    let ?R = "map ?tr ss" and ?a = "start (?tr (hd ss))" and ?b = "end (?tr (last ss))"
    have R: "?R \<noteq> []" "start (hd ?R) = ?a" "end (last ?R) = ?b" using False by (simp_all add: hd_map last_map)
    have rs: "read_series r = ss" and gs: "set (gaps r) = {g \<in> set (between ?R). proper_gap g} \<union>
        {g. g = newTimeRange (start tr) ?a \<and> proper_gap g} \<union> {g. g = newTimeRange ?b (end tr) \<and> proper_gap g}"
      using False
      by (auto simp: r_def dirtyRead_def ss_def [symmetric] Let_def inner_gaps_between proper_gap_def)
    have in_gap: "(\<exists>g\<in>set (gaps r). range_contains_stamp g t) \<longleftrightarrow>
        (\<exists>g\<in>set (between ?R). range_contains_stamp g t) \<or> start tr \<le> t \<and> t < ?a \<or> ?b \<le> t \<and> t < end tr" for t
      unfolding gs bex_Un
      by (auto simp: Bex_def proper_gap_iff range_contains_stamp_def beforeEq_def after_def newTimeRange_def)
    have "(\<exists>s\<in>set (read_series r). range_contains_stamp (?tr s) t) \<noteq> (\<exists>g\<in>set (gaps r). range_contains_stamp g t)"
      if "range_contains_stamp tr t" for t
      using ranges_and_gaps [OF ord R(1), of t] in_order_span [OF ord R(1)] that in_gap [of t]
      unfolding rs R(2,3) by (auto simp: range_contains_stamp_def beforeEq_def after_def)
    moreover have "start tr \<le> start g \<and> start g < end g \<and> end g \<le> end tr" if "g \<in> set (gaps r)" for g
      using that near [of "hd ?R"] near [of "last ?R"] between_mem [of _ ?R] near R(1)
      unfolding gs by (fastforce simp: proper_gap_iff newTimeRange_def hd_map last_map False)
    ultimately show ?thesis by blast
  qed
qed

definition timed_cache :: static_cache where
  "timed_cache = [\<lparr>entry_data = newSeries FLOAT32 [Num 1] (Some (newTimeRange 10 20)) (Num 0) StaticUsage 0, addedAt = 0\<rparr>]"

lemma dirtyRead_divides_witness:
  "gaps (dirtyRead (newTimeRange 5 30) timed_cache) = [newTimeRange 5 10, newTimeRange 20 30] \<and>
   (\<exists>g\<in>set (gaps (dirtyRead (newTimeRange 5 30) timed_cache)). range_contains_stamp g 7)"
proof -
  have ov: "range_overlapsWith (newTimeRange 10 20) (newTimeRange 5 30) 0"
    by (simp add: range_overlapsWith_def time_simps stamp_max_def stamp_min_def STAMP_MIN_def STAMP_MAX_def)
  then have g: "gaps (dirtyRead (newTimeRange 5 30) timed_cache) = [newTimeRange 5 10, newTimeRange 20 30]"
    "read_series (dirtyRead (newTimeRange 5 30) timed_cache) = map entry_data timed_cache"
    by (simp_all add: dirtyRead_def timed_cache_def time_range_of_def inner_gaps_def proper_gap_def RANGE_ZERO_def
        range_isZero_def time_simps)
  have o: "in_order (map (\<lambda>e. time_range_of (entry_data e)) timed_cache)"
    by (simp add: timed_cache_def in_order_def time_range_of_def newTimeRange_def)
  have "\<forall>t. range_contains_stamp (newTimeRange 5 30) t \<longrightarrow>
      (\<exists>s\<in>set (read_series (dirtyRead (newTimeRange 5 30) timed_cache)). range_contains_stamp (time_range_of s) t) \<noteq>
      (\<exists>g\<in>set (gaps (dirtyRead (newTimeRange 5 30) timed_cache)). range_contains_stamp g t)"
    using dirtyRead_divides [OF o, of "newTimeRange 5 30"]
    by (simp add: newTimeRange_def representable_def STAMP_MIN_def STAMP_MAX_def timed_cache_def time_range_of_def)
  from this [rule_format, of 7] g show ?thesis
    by (simp add: timed_cache_def time_range_of_def time_simps)
qed

text \<open>
  C36: Garbage collection of a well-formed static cache keeps exactly the entries that have references and
  those added less than the stale threshold ago, so no series with a positive reference count is dropped; it
  reports the number and the bytes of what it dropped, and keeps the entries ordered. How recently an entry
  was read does not count, although the comment at static.ts:117 speaks of entries that were just read.
\<close>

theorem static_gc_keeps_used:
  assumes "cache_wf es" and "static_gc now threshold es = (es', m)"
  shows "cache_wf es' \<and> (\<forall>e. e \<in> set es' \<longleftrightarrow> e \<in> set es \<and>
      (refCount (entry_data e) > 0 \<or> \<bar>now - addedAt e\<bar> < threshold)) \<and>
    purgedSeries m = int (length es) - int (length es') \<and>
    purgedBytes m + sum_list (map (byteCapacity \<circ> entry_data) es') = sum_list (map (byteCapacity \<circ> entry_data) es)"
proof -
  have es': "es' = filter (shouldKeep now threshold) es"
    and m: "purgedSeries m = int (length es) - int (length es')"
      "purgedBytes m = foldl (\<lambda>n e. if shouldKeep now threshold e then n
         else n + byteCapacity (entry_data e)) 0 es"
    using assms(2) by (auto simp: static_gc_def Let_def)
  have keep: "shouldKeep now threshold e \<longleftrightarrow> refCount (entry_data e) > 0 \<or> \<bar>now - addedAt e\<bar> < threshold" for e
    by (auto simp: shouldKeep_def since_def stamp_span_def stamp_range_def lessThan_def time_simps)
  have "ordered (entry_bounds es')"
    using assms(1) unfolding es' cache_wf_def ordered_def
    by (auto simp: sorted_wrt_map intro: sorted_wrt_filter)
  moreover have "foldl (\<lambda>n e. if shouldKeep now threshold e then n else n + byteCapacity (entry_data e)) k es +
      sum_list (map (byteCapacity \<circ> entry_data) es') = k + sum_list (map (byteCapacity \<circ> entry_data) es)" for k
    unfolding es' by (induction es arbitrary: k) auto
  ultimately show ?thesis using assms(1) m by (auto simp: cache_wf_def es' keep)
qed

lemma static_gc_keeps_used_witness:
  "fst (static_gc 100 20 example_cache) = [] \<and> purgedBytes (snd (static_gc 100 20 example_cache)) = 16"
proof -
  obtain es' m where g: "static_gc 100 20 example_cache = (es', m)" by fastforce
  have "element_size FLOAT32 = 4" by code_simp
  then have b: "sum_list (map (byteCapacity \<circ> entry_data) example_cache) = 16"
    by (simp add: byteCapacity_def example_cache_def)
  have none: "\<not> (e \<in> set example_cache \<and> (refCount (entry_data e) > 0 \<or> \<bar>100 - addedAt e\<bar> < 20))" for e
    by (simp add: example_cache_def)
  note k = static_gc_keeps_used [OF example_cache_wf g]
  then have "es' = []" using none by (metis list.set_intros(1) neq_Nil_conv)
  with k b show ?thesis by (simp add: g)
qed

end
