(* ===== verification/Dynamic_Cache.thy ===== *)
theory Dynamic_Cache
  imports Static_Cache
begin

text \<open>
  \<open>Dynamic\<close> of \<open>pluto/src/telem/client/cache/dynamic.ts\<close>, the rolling buffer of live data of a channel.
  The clock is a function from the number of readings so far to a time, and the number of readings is
  part of the state.
\<close>

section \<open>The dynamic cache\<close>

datatype buffer_size = FixedSize nat | SpanSize timespan

record dynamic_props =
  dynamicBufferSize :: buffer_size
  dyn_dataType :: data_type
  clock :: "nat \<Rightarrow> timestamp"

record dynamic =
  counter :: nat
  curr :: "series option"
  avgRate :: rat
  timeOfLastWrite :: timestamp
  totalWrites :: nat
  ticks :: nat

record dynamic_response =
  flushed :: "series list"
  allocated :: "nat list"

definition MIN_SIZE :: rat where "MIN_SIZE = 100"
definition MAX_SIZE :: rat where "MAX_SIZE = 1000000"
definition DEF_SIZE :: nat where "DEF_SIZE = 10000"
definition MAX_DEF_WRITES :: nat where "MAX_DEF_WRITES = 100"
definition VARIABLE_DT_MULTIPLIER :: nat where "VARIABLE_DT_MULTIPLIER = 40"

definition now_of :: "dynamic_props \<Rightarrow> dynamic \<Rightarrow> timestamp \<times> dynamic" where
  "now_of props d = (clock props (ticks d), d\<lparr>ticks := Suc (ticks d)\<rparr>)"

definition newDynamic :: "dynamic_props \<Rightarrow> dynamic" where
  "newDynamic props =
     \<lparr>counter = 0, curr = None, avgRate = 0, timeOfLastWrite = clock props 0, totalWrites = 0, ticks = 1\<rparr>"

definition dynamic_length :: "dynamic \<Rightarrow> nat" where
  "dynamic_length d = (case curr d of None \<Rightarrow> 0 | Some c \<Rightarrow> series_length c)"

definition leadingBuffer :: "dynamic \<Rightarrow> series option" where
  "leadingBuffer d = curr d"

text \<open>\<open>Math.floor(Math.log10(num))\<close> for a positive number.\<close>

function log10_floor :: "rat \<Rightarrow> int" where
  "log10_floor num =
     (if num \<ge> 10 then log10_floor (num / 10) + 1
      else if 0 < num \<and> num < 1 then log10_floor (num * 10) - 1
      else 0)"
  by pat_completeness auto
termination
proof (relation "measure (\<lambda>num. if num \<ge> 10 then nat \<lfloor>num\<rfloor> else if 0 < num \<and> num < 1 then nat \<lfloor>1 / num\<rfloor> else 0)",
    goal_cases)
  case (2 num)
  then have "\<lfloor>num / 10\<rfloor> < \<lfloor>num\<rfloor>" "0 < \<lfloor>num\<rfloor>" by linarith+
  with 2 show ?case by auto
next
  case (3 num)
  define x where "x = 1 / num"
  have "1 < x" using 3 by (simp add: x_def)
  then have k: "1 \<le> \<lfloor>x\<rfloor>" by linarith
  then have "\<lfloor>x / 10\<rfloor> < \<lfloor>x\<rfloor>" by linarith
  then have "\<lfloor>1 / (num * 10)\<rfloor> < \<lfloor>1 / num\<rfloor>" by (simp add: x_def)
  then show ?case using 3 k unfolding x_def by auto
qed simp

declare log10_floor.simps [simp del]

text \<open>\<open>math.roundToNearestMagnitude\<close>; the result for zero and below is NaN, here \<open>None\<close>.\<close>

definition roundToNearestMagnitude :: "rat \<Rightarrow> rat option" where
  "roundToNearestMagnitude num =
     (if num \<le> 0 then None
      else let magnitude = 10 powi log10_floor num
           in Some (of_int (math_round (num / magnitude)) * magnitude))"

definition nextBufferSize :: "dynamic_props \<Rightarrow> dynamic \<Rightarrow> nat option" where
  "nextBufferSize props d =
     (case dynamicBufferSize props of
        FixedSize n \<Rightarrow> Some n
      | SpanSize span0 \<Rightarrow>
          if totalWrites d < MAX_DEF_WRITES then Some DEF_SIZE
          else map_option (\<lambda>cap. nat (math_round (max (min cap MAX_SIZE) MIN_SIZE)))
                 (roundToNearestMagnitude (avgRate d * span_seconds span0)))"

text \<open>
  \<open>Series.alloc\<close> with the size of a buffer; a size that is NaN is not \<open>0\<close>, and a typed array of that
  length is empty.
\<close>

definition alloc_buffer ::
    "nat option \<Rightarrow> data_type \<Rightarrow> time_range option \<Rightarrow> numeric \<Rightarrow> gl_buffer_usage \<Rightarrow> int \<Rightarrow> series result" where
  "alloc_buffer cap dt tr offset usage al =
     (case cap of
        Some n \<Rightarrow> alloc n dt tr offset usage al
      | None \<Rightarrow> bind_result (array_of dt) (\<lambda>_. return ((newSeries dt [] tr offset usage al)\<lparr>writePos := 0\<rparr>)))"

definition allocate ::
    "dynamic_props \<Rightarrow> nat option \<Rightarrow> int \<Rightarrow> timestamp \<Rightarrow> dynamic \<Rightarrow> (series \<times> dynamic) result" where
  "allocate props cap al start0 d =
     bind_result
       (alloc_buffer
          (if isVariable (dyn_dataType props) then map_option (\<lambda>n. n * VARIABLE_DT_MULTIPLIER) cap else cap)
          (resolveGLDataType (dyn_dataType props)) (Some (stamp_range start0 STAMP_MAX))
          (if dt_equals (dyn_dataType props) TIMESTAMP then Big start0 else Num 0) DynamicUsage al)
       (\<lambda>s. return (s, d\<lparr>counter := Suc (counter d)\<rparr>))"

definition set_range_end :: "timestamp \<Rightarrow> series \<Rightarrow> series" where
  "set_range_end t s = s\<lparr>timeRange := map_option (\<lambda>tr. tr\<lparr>end := t\<rparr>) (timeRange s)\<rparr>"

text \<open>\<open>newRate\<close> is infinite or NaN when no time has passed, and is then ignored.\<close>

definition updateAvgRate :: "dynamic_props \<Rightarrow> series \<Rightarrow> dynamic \<Rightarrow> dynamic" where
  "updateAvgRate props s d =
     (case dynamicBufferSize props of
        FixedSize _ \<Rightarrow> d
      | SpanSize _ \<Rightarrow>
          let (t, d1) = now_of props d;
              secs = span_seconds (stamp_span t (timeOfLastWrite d1));
              newRate = of_nat (series_length s) / secs;
              d2 = (if totalWrites d1 > 0 \<and> secs \<noteq> 0 \<and> newRate > 0
                    then d1\<lparr>avgRate := (avgRate d1 * (of_nat (totalWrites d1) - 1) + newRate) / of_nat (totalWrites d1)\<rparr>
                    else d1);
              d3 = d2\<lparr>totalWrites := Suc (totalWrites d2)\<rparr>;
              (t', d4) = now_of props d3
          in d4\<lparr>timeOfLastWrite := t'\<rparr>)"

definition misaligned :: "series \<Rightarrow> series \<Rightarrow> bool" where
  "misaligned c s \<longleftrightarrow> \<bar>bigint_to_number (alignment c + int (series_length c) - alignment s)\<bar> > 1"

text \<open>The buffer to write to: the first one, a fresh one after a jump in alignment, or the current one.\<close>

definition ensureBuffer ::
    "dynamic_props \<Rightarrow> nat option \<Rightarrow> series \<Rightarrow> dynamic \<Rightarrow> (dynamic \<times> series \<times> dynamic_response) result" where
  "ensureBuffer props cap s d =
     (case curr d of
        None \<Rightarrow>
          (let (t, d1) = now_of props d
           in bind_result (allocate props cap (alignment s) t d1)
                (\<lambda>(c, d2). return (d2\<lparr>curr := Some c\<rparr>, c, \<lparr>flushed = [], allocated = [counter d2]\<rparr>)))
      | Some c \<Rightarrow>
          if misaligned c s then
            (let (t, d1) = now_of props d
             in bind_result (allocate props cap (alignment s) t d1)
                  (\<lambda>(c', d2). return (d2\<lparr>curr := Some c'\<rparr>, c',
                     \<lparr>flushed = [set_range_end t c], allocated = [counter d2]\<rparr>)))
          else return (d, c, \<lparr>flushed = [], allocated = []\<rparr>))"

text \<open>
  \<open>_write\<close> with fuel, one unit per recursive call; \<open>None\<close> is a call that has not returned.  The list
  \<open>allocated\<close> names buffers by the number in their key: the objects are the flushed buffers and the
  current one.
\<close>

fun write_series ::
    "dynamic_props \<Rightarrow> nat \<Rightarrow> series \<Rightarrow> dynamic \<Rightarrow> (dynamic \<times> dynamic_response) result option" where
  "write_series props 0 s d = None"
| "write_series props (Suc fuel) s d =
     (let cap = nextBufferSize props d
      in case ensureBuffer props cap s d of
           Inl e \<Rightarrow> Some (throw e)
         | Inr (d1, c, res) \<Rightarrow>
             (case bind_result (convertSeriesToSupportedGL s (Some (sampleOffset c))) (series_write c) of
                Inl e \<Rightarrow> Some (throw e)
              | Inr (amountWritten, c') \<Rightarrow>
                  let d2 = d1\<lparr>curr := Some c'\<rparr>
                  in if amountWritten = series_length s then Some (return (updateAvgRate props s d2, res))
                     else
                       let (t, d3) = now_of props d2
                       in case allocate props cap (alignment s + int amountWritten) t d3 of
                            Inl e \<Rightarrow> Some (throw e)
                          | Inr (c'', d4) \<Rightarrow>
                              (case write_series props fuel (slice s (int amountWritten) None) (d4\<lparr>curr := Some c''\<rparr>) of
                                 None \<Rightarrow> None
                               | Some (Inl e) \<Rightarrow> Some (throw e)
                               | Some (Inr (d5, next)) \<Rightarrow>
                                   Some (return (d5,
                                     \<lparr>flushed = flushed res @ [set_range_end t c'] @ flushed next,
                                      allocated = allocated res @ [counter d4] @ allocated next\<rparr>)))))"

fun dynamic_write ::
    "dynamic_props \<Rightarrow> nat \<Rightarrow> series list \<Rightarrow> dynamic \<Rightarrow> (dynamic \<times> dynamic_response) result option" where
  "dynamic_write props fuel [] d = Some (return (d, \<lparr>flushed = [], allocated = []\<rparr>))"
| "dynamic_write props fuel (s # ss) d =
     (case write_series props fuel s d of
        None \<Rightarrow> None
      | Some (Inl e) \<Rightarrow> Some (throw e)
      | Some (Inr (d1, res)) \<Rightarrow>
          (case dynamic_write props fuel ss d1 of
             None \<Rightarrow> None
           | Some (Inl e) \<Rightarrow> Some (throw e)
           | Some (Inr (d2, res2)) \<Rightarrow>
               Some (return (d2, \<lparr>flushed = flushed res @ flushed res2, allocated = allocated res @ allocated res2\<rparr>))))"

definition dynamic_close :: "dynamic \<Rightarrow> dynamic" where
  "dynamic_close d = d\<lparr>curr := None\<rparr>"

section \<open>Facts\<close>

declare write_series.simps(2) [simp del]

definition gl_type :: "data_type \<Rightarrow> bool" where
  "gl_type dt \<longleftrightarrow> dt = FLOAT32 \<or> dt = UINT8"

text \<open>A buffer of the dynamic cache: preallocated, not marked full, of the data type of the cache.\<close>

definition buffer_wf :: "data_type \<Rightarrow> series \<Rightarrow> bool" where
  "buffer_wf dt c \<longleftrightarrow> series_wf c \<and> writePos c \<noteq> FULL_BUFFER \<and> dataType c = dt"

definition dynamic_wf :: "data_type \<Rightarrow> dynamic \<Rightarrow> bool" where
  "dynamic_wf dt d \<longleftrightarrow> (case curr d of None \<Rightarrow> True | Some c \<Rightarrow> buffer_wf dt c)"

text \<open>Buffers that follow each other without gap or overlap, from \<open>a\<close> to \<open>e\<close>.\<close>

fun contiguous :: "int \<Rightarrow> series list \<Rightarrow> int \<Rightarrow> bool" where
  "contiguous a [] e \<longleftrightarrow> a = e"
| "contiguous a (b # bs) e \<longleftrightarrow> alignment b = a \<and> contiguous (a + int (length (data b))) bs e"

lemma gl_type_props:
  assumes "gl_type dt"
  shows "dt \<in> set fixed_types" and "resolveGLDataType dt = dt" and "\<not> isVariable dt" and "dt \<noteq> TIMESTAMP"
    and "\<exists>a. array_of dt = return a" and "\<not> usesBigInt dt"
proof -
  show f: "dt \<in> set fixed_types" using assms by (auto simp: gl_type_def fixed_types_def)
  show "\<not> isVariable dt" using fixed_type(1) [OF f] .
  show "resolveGLDataType dt = dt" "dt \<noteq> TIMESTAMP" "\<exists>a. array_of dt = return a" "\<not> usesBigInt dt"
    using assms
    by (auto simp: gl_type_def resolveGLDataType_def dt_equals_def data_type_names isVariable_def array_of_def
        ARRAY_CONSTRUCTORS_def usesBigInt_def BIG_INT_TYPES_def)
qed

lemma convert_gl_type: "gl_type (dataType s) \<Longrightarrow> convertSeriesToSupportedGL s x = return s"
  by (auto simp: gl_type_def convertSeriesToSupportedGL_def convert_def dt_equals_def data_type_names
      split: option.splits)

lemma set_range_end_simps [simp]:
  "data (set_range_end t s) = data s" "alignment (set_range_end t s) = alignment s"
  "series_wf (set_range_end t s) = series_wf s" "dataType (set_range_end t s) = dataType s"
  "writePos (set_range_end t s) = writePos s"
  by (simp_all add: set_range_end_def data_def series_wf_def)

lemma allocate_props:
  assumes "gl_type (dyn_dataType props)"
  obtains c where "allocate props cap al t d = (if cap = Some 0 then throw ''[Series] - cannot allocate an array of length 0''
      else return (c, d\<lparr>counter := Suc (counter d)\<rparr>))"
    and "buffer_wf (dyn_dataType props) c" and "data c = []" and "alignment c = al"
    and "capacity c = (case cap of Some n \<Rightarrow> n | None \<Rightarrow> 0)" and "sampleOffset c = Num 0"
proof -
  note g = gl_type_props [OF assms]
  define c where "c = (newSeries (dyn_dataType props) (replicate (case cap of Some n \<Rightarrow> n | None \<Rightarrow> 0) (Num 0))
    (Some (stamp_range t STAMP_MAX)) (Num 0) DynamicUsage al)\<lparr>writePos := 0\<rparr>"
  have wf: "series_wf c" "writePos c = 0" using g(1) by (simp_all add: c_def series_wf_def newSeries_def)
  show ?thesis
  proof (rule that [of c])
    show "allocate props cap al t d = (if cap = Some 0 then throw ''[Series] - cannot allocate an array of length 0''
      else return (c, d\<lparr>counter := Suc (counter d)\<rparr>))"
      using g by (cases cap) (auto simp: allocate_def alloc_buffer_def alloc_def dt_equals_def c_def)
    show "buffer_wf (dyn_dataType props) c"
      using wf by (simp add: buffer_wf_def FULL_BUFFER_def c_def newSeries_def)
    show "data c = []" using wf(2) by (simp add: data_def FULL_BUFFER_def)
    show "capacity c = (case cap of Some n \<Rightarrow> n | None \<Rightarrow> 0)"
      using wf(1) by (simp add: c_def newSeries_def)
  qed (simp_all add: c_def newSeries_def)
qed

lemma slice_rest:
  assumes "series_wf s" and "k \<le> length (data s)"
  shows "series_wf (slice s (int k) None)" and "data (slice s (int k) None) = drop k (data s)"
    and "alignment (slice s (int k) None) = alignment s + int k" and "dataType (slice s (int k) None) = dataType s"
proof -
  have dt: "dataType s \<in> set fixed_types" using assms(1) by (simp add: series_wf_def)
  show "series_wf (slice s (int k) None)" using assms(1) dt by (simp add: slice_def sliceSub_def)
  show "data (slice s (int k) None) = drop k (data s)"
    using assms by (cases "k = 0") (simp_all add: slice_def sliceSub_def js_slice_nonneg)
  show "alignment (slice s (int k) None) = alignment s + int k" "dataType (slice s (int k) None) = dataType s"
    by (cases "k = 0"; simp add: slice_def sliceSub_def)+
qed

text \<open>What is left of a call whose series did not fit.\<close>

definition flush_and_continue ::
    "dynamic_props \<Rightarrow> nat \<Rightarrow> series \<Rightarrow> nat \<Rightarrow> series \<Rightarrow> dynamic \<Rightarrow> (dynamic \<times> dynamic_response) result option" where
  "flush_and_continue props fuel s k c' d =
     (let (t, d3) = now_of props (d\<lparr>curr := Some c'\<rparr>)
      in case allocate props (nextBufferSize props d) (alignment s + int k) t d3 of
           Inl e \<Rightarrow> Some (throw e)
         | Inr (c'', d4) \<Rightarrow>
             (case write_series props fuel (slice s (int k) None) (d4\<lparr>curr := Some c''\<rparr>) of
                None \<Rightarrow> None
              | Some (Inl e) \<Rightarrow> Some (throw e)
              | Some (Inr (d5, next)) \<Rightarrow>
                  Some (return (d5, \<lparr>flushed = set_range_end t c' # flushed next,
                                    allocated = counter d4 # allocated next\<rparr>))))"

text \<open>One call that finds a buffer it can continue: the amount that fits is appended.\<close>

lemma write_series_step:
  assumes dt: "gl_type (dyn_dataType props)" and c: "curr d = Some c" "buffer_wf (dyn_dataType props) c"
    and s: "series_wf s" "dataType s = dyn_dataType props" and al: "\<not> misaligned c s"
    and k: "k = min (length (data s)) (capacity c - length (data c))"
  obtains c' where "buffer_wf (dyn_dataType props) c'" and "data c' = data c @ take k (data s)"
    and "alignment c' = alignment c" and "capacity c' = capacity c"
    and "write_series props (Suc fuel) s d =
      (if k = length (data s) then Some (return (updateAvgRate props s (d\<lparr>curr := Some c'\<rparr>), \<lparr>flushed = [], allocated = []\<rparr>))
       else flush_and_continue props fuel s k c' d)"
proof -
  obtain k' c' where w: "writeFixed c s = (k', c')" by fastforce
  have cw: "series_wf c" "writePos c \<noteq> FULL_BUFFER" "dataType c = dyn_dataType props"
    using c(2) by (simp_all add: buffer_wf_def)
  note p = writeFixed_props [OF cw(1,2) s(1) k w]
  have sw: "series_write c s = return (k, c')"
    using w p(1) s(2) cw gl_type_props(3) [OF dt] by (simp add: series_write_def dt_equals_def)
  have en: "ensureBuffer props (nextBufferSize props d) s d = return (d, c, \<lparr>flushed = [], allocated = []\<rparr>)"
    using c(1) al by (simp add: ensureBuffer_def)
  have cv: "convertSeriesToSupportedGL s (Some (sampleOffset c)) = return s"
    using dt s(2) by (simp add: convert_gl_type)
  show ?thesis
  proof (rule that [of c'])
    show "buffer_wf (dyn_dataType props) c'" using p(2,6,7) cw(3) by (simp add: buffer_wf_def)
    show "write_series props (Suc fuel) s d =
      (if k = length (data s) then Some (return (updateAvgRate props s (d\<lparr>curr := Some c'\<rparr>), \<lparr>flushed = [], allocated = []\<rparr>))
       else flush_and_continue props fuel s k c' d)"
      using s(1) 
      by (auto simp: write_series.simps(2) en cv sw Let_def flush_and_continue_def
          split: prod.splits sum.splits option.splits)
  qed (use p(3,4,5) in simp_all)
qed

lemma updateAvgRate_curr [simp]: "curr (updateAvgRate props s d) = curr d"
  by (simp add: updateAvgRate_def now_of_def Let_def split: buffer_size.splits)

lemma contiguous_single: "contiguous a [c] e \<longleftrightarrow> alignment c = a \<and> a + int (length (data c)) = e"
  by simp

text \<open>
  The size of the buffers stays a positive number for some more writes: it is one that is fixed, or the time
  span and the average rate that it is computed from are positive, or there have been few enough writes that
  the default size is used for all of them.
\<close>

definition sized :: "dynamic_props \<Rightarrow> nat \<Rightarrow> dynamic \<Rightarrow> bool" where
  "sized props writes d \<longleftrightarrow>
     (case dynamicBufferSize props of
        FixedSize n \<Rightarrow> 0 < n
      | SpanSize span0 \<Rightarrow> 0 < span_seconds span0 \<and> 0 < avgRate d \<or> totalWrites d + writes \<le> MAX_DEF_WRITES)"

lemma sized_cong: "avgRate d' = avgRate d \<Longrightarrow> totalWrites d' = totalWrites d \<Longrightarrow> sized props w d' = sized props w d"
  by (simp add: sized_def split: buffer_size.split)

lemma sized_buffer:
  assumes "sized props (Suc w) d"
  shows "\<exists>n>0. nextBufferSize props d = Some n"
proof (cases "dynamicBufferSize props")
  case (SpanSize span0)
  have "0 < nat (math_round (max (min cap MAX_SIZE) MIN_SIZE))" for cap
  proof -
    have "(100::rat) \<le> max (min cap MAX_SIZE) MIN_SIZE" by (simp add: MIN_SIZE_def)
    then have "1 \<le> math_round (max (min cap MAX_SIZE) MIN_SIZE)" unfolding math_round_def by linarith
    then show ?thesis by simp
  qed
  then show ?thesis
    using assms SpanSize
    by (auto simp: sized_def nextBufferSize_def roundToNearestMagnitude_def DEF_SIZE_def Let_def mult_le_0_iff)
qed (use assms in \<open>simp add: sized_def nextBufferSize_def\<close>)

lemma sized_write:
  assumes "sized props (Suc w) d" and "avgRate d' = avgRate d" and "totalWrites d' = totalWrites d"
  shows "sized props w (updateAvgRate props s d')"
proof (cases "dynamicBufferSize props")
  case (SpanSize span0)
  let ?u = "updateAvgRate props s d'"
  have t: "totalWrites ?u = Suc (totalWrites d)" and pos: "0 < avgRate ?u" if "0 < avgRate d"
    using assms(2,3) SpanSize that
    by (auto simp: updateAvgRate_def now_of_def Let_def intro!: divide_pos_pos add_nonneg_pos mult_nonneg_nonneg)
  have "totalWrites ?u = Suc (totalWrites d)"
    using assms(3) SpanSize by (auto simp: updateAvgRate_def now_of_def Let_def)
  then show ?thesis using assms(1) pos SpanSize by (auto simp: sized_def)
qed (use assms in \<open>simp add: sized_def updateAvgRate_def\<close>)

lemma nextBufferSize_cong:
  "avgRate d' = avgRate d \<Longrightarrow> totalWrites d' = totalWrites d \<Longrightarrow> nextBufferSize props d' = nextBufferSize props d"
  by (simp add: nextBufferSize_def split: buffer_size.split)

text \<open>Writing to a buffer the series may continue, with enough fuel for the samples that are left.\<close>

lemma write_series_buffer:
  assumes dt: "gl_type (dyn_dataType props)" and "sized props (Suc w) d"
    and "curr d = Some c" "buffer_wf (dyn_dataType props) c" "\<not> misaligned c s"
    and "series_wf s" "dataType s = dyn_dataType props"
    and "length (data s) + (if capacity c = length (data c) then 2 else 1) \<le> fuel"
  shows "\<exists>d' res c'. write_series props fuel s d = Some (return (d', res)) \<and> curr d' = Some c' \<and>
    buffer_wf (dyn_dataType props) c' \<and> concat (map data (flushed res)) @ data c' = data c @ data s \<and>
    (\<forall>b\<in>set (flushed res). buffer_wf (dyn_dataType props) b) \<and>
    (alignment c + int (length (data c)) = alignment s \<longrightarrow>
       contiguous (alignment c) (flushed res @ [c']) (alignment s + int (length (data s)))) \<and> sized props w d'"
  using assms(2-)
proof (induction fuel arbitrary: s d c)
  case (Suc fuel)
  note c = Suc.prems(2,3,4) and s = Suc.prems(5,6)
  obtain n where n: "nextBufferSize props d = Some n" "0 < n" using sized_buffer [OF Suc.prems(1)] by blast
  have room: "length (data c) \<le> capacity c" using c(2) by (simp add: buffer_wf_def)
  define k where "k = min (length (data s)) (capacity c - length (data c))"
  obtain c' where c': "buffer_wf (dyn_dataType props) c'" "data c' = data c @ take k (data s)"
    "alignment c' = alignment c"
    "write_series props (Suc fuel) s d =
      (if k = length (data s) then Some (return (updateAvgRate props s (d\<lparr>curr := Some c'\<rparr>), \<lparr>flushed = [], allocated = []\<rparr>))
       else flush_and_continue props fuel s k c' d)"
    using write_series_step [OF dt c(1,2) s c(3) k_def, of fuel] by metis
  have kl: "k \<le> length (data s)" by (simp add: k_def)
  show ?case
  proof (cases "k = length (data s)")
    case True
    then show ?thesis using c' sized_write [OF Suc.prems(1), of "d\<lparr>curr := Some c'\<rparr>" s] by auto
  next
    case False
    define d1 t where "d1 = snd (now_of props (d\<lparr>curr := Some c'\<rparr>))" and "t = fst (now_of props (d\<lparr>curr := Some c'\<rparr>))"
    obtain f where f: "allocate props (Some n) (alignment s + int k) t d1 =
        return (f, d1\<lparr>counter := Suc (counter d1)\<rparr>)"
      "buffer_wf (dyn_dataType props) f" "data f = []" "alignment f = alignment s + int k" "capacity f = n"
      using allocate_props [OF dt, of "Some n" "alignment s + int k" t d1] n(2) by auto
    let ?d2 = "d1\<lparr>counter := Suc (counter d1), curr := Some f\<rparr>" and ?r = "slice s (int k) None"
    note r = slice_rest [OF s(1) kl]
    have sz: "sized props (Suc w) ?d2" using Suc.prems(1) by (subst sized_cong [of _ d]) (simp_all add: d1_def now_of_def)
    have fuel: "length (data s) - k + 1 \<le> fuel" using Suc.prems(7) False kl room by (auto simp: k_def split: if_splits)
    have "\<not> misaligned f ?r" using f(2-4) r(3) by (simp add: misaligned_def buffer_wf_def)
    then obtain d' res c2 where IH: "write_series props fuel ?r ?d2 = Some (return (d', res))" "curr d' = Some c2"
      "buffer_wf (dyn_dataType props) c2" "concat (map data (flushed res)) @ data c2 = drop k (data s)"
      "\<forall>b\<in>set (flushed res). buffer_wf (dyn_dataType props) b"
      "contiguous (alignment s + int k) (flushed res @ [c2]) (alignment s + int (length (data s)))" "sized props w d'"
      using Suc.IH [OF sz, of f ?r] f r s(2) kl fuel n(2) by (auto simp: of_nat_diff)
    let ?res = "\<lparr>flushed = set_range_end t c' # flushed res, allocated = Suc (counter d1) # allocated res\<rparr>"
    have "write_series props (Suc fuel) s d = Some (return (d', ?res))"
      using c'(4) False f(1) IH(1) by (simp add: flush_and_continue_def n(1) d1_def t_def split_beta)
    moreover have "concat (map data (flushed ?res)) @ data c2 = data c @ data s" using IH(4) c'(2) by simp
    moreover have "\<forall>b\<in>set (flushed ?res). buffer_wf (dyn_dataType props) b" using IH(5) c'(1) by (simp add: buffer_wf_def)
    moreover have "alignment c + int (length (data c)) = alignment s \<longrightarrow>
        contiguous (alignment c) (flushed ?res @ [c2]) (alignment s + int (length (data s)))"
      using IH(6) c'(2,3) kl by (simp add: add.assoc [symmetric])
    ultimately show ?thesis using IH(2,3,7) by (intro exI [of _ d'] exI [of _ ?res] exI [of _ c2] conjI) simp_all
  qed
qed (simp split: if_splits)

text \<open>A call that has to allocate first continues as a call with the fresh buffer.\<close>

lemma write_series_allocates:
  assumes "ensureBuffer props (nextBufferSize props d) s d = return (d1, c, res0)"
    and "curr d1 = Some c" and "\<not> misaligned c s" and "nextBufferSize props d1 = nextBufferSize props d"
    and "write_series props (Suc fuel) s d1 = Some (return (d', res))"
  shows "write_series props (Suc fuel) s d =
    Some (return (d', \<lparr>flushed = flushed res0 @ flushed res, allocated = allocated res0 @ allocated res\<rparr>))"
proof -
  have "ensureBuffer props (nextBufferSize props d) s d1 = return (d1, c, \<lparr>flushed = [], allocated = []\<rparr>)"
    using assms(2,3) by (simp add: ensureBuffer_def)
  then show ?thesis
    using assms(1,4,5) unfolding write_series.simps(2)
    by (auto simp: Let_def split: sum.splits prod.splits option.splits if_splits)
qed

text \<open>The buffer a call allocates when it has none, or one the series does not continue.\<close>

lemma ensureBuffer_fresh:
  assumes dt: "gl_type (dyn_dataType props)" and n: "nextBufferSize props d = Some n" "0 < n"
    and d: "dynamic_wf (dyn_dataType props) d" and none: "\<nexists>c. curr d = Some c \<and> \<not> misaligned c s"
  shows "\<exists>d1 c res0. ensureBuffer props (nextBufferSize props d) s d = return (d1, c, res0) \<and>
    curr d1 = Some c \<and> \<not> misaligned c s \<and> buffer_wf (dyn_dataType props) c \<and> data c = [] \<and>
    alignment c = alignment s \<and> capacity c \<noteq> length (data c) \<and>
    concat (map data (flushed res0)) = (case curr d of None \<Rightarrow> [] | Some c \<Rightarrow> data c) \<and>
    (\<forall>b\<in>set (flushed res0). buffer_wf (dyn_dataType props) b) \<and>
    (case curr d of None \<Rightarrow> flushed res0 = [] | Some c0 \<Rightarrow> alignment c0 + int (series_length c0) \<noteq> alignment s) \<and>
    avgRate d1 = avgRate d \<and> totalWrites d1 = totalWrites d"
proof -
  define t d0 where "t = fst (now_of props d)" and "d0 = snd (now_of props d)"
  obtain c where c: "allocate props (Some n) (alignment s) t d0 = return (c, d0\<lparr>counter := Suc (counter d0)\<rparr>)"
    "buffer_wf (dyn_dataType props) c" "data c = []" "alignment c = alignment s" "capacity c = n"
    using allocate_props [OF dt, of "Some n" "alignment s" t d0] n(2) by auto
  have al: "\<not> misaligned c s" using c(2-4) by (simp add: misaligned_def buffer_wf_def)
  let ?d1 = "d0\<lparr>counter := Suc (counter d0), curr := Some c\<rparr>"
  let ?res = "\<lparr>flushed = (case curr d of None \<Rightarrow> [] | Some c0 \<Rightarrow> [set_range_end t c0]), allocated = [Suc (counter d0)]\<rparr>"
  have e: "ensureBuffer props (nextBufferSize props d) s d = return (?d1, c, ?res)"
    using c(1) none unfolding n(1)
    by (auto simp: ensureBuffer_def t_def d0_def split_beta split: option.splits)
  have "case curr d of None \<Rightarrow> True | Some c0 \<Rightarrow> alignment c0 + int (series_length c0) \<noteq> alignment s"
    using none by (auto simp: misaligned_def split: option.splits)
  then show ?thesis
    using e al c d n(2)
    by (intro exI [of _ ?d1] exI [of _ c] exI [of _ ?res])
      (auto simp: dynamic_wf_def buffer_wf_def d0_def now_of_def split: option.splits)
qed

text \<open>A write with any current buffer.\<close>

lemma write_series_conserves:
  assumes "gl_type (dyn_dataType props)" and "sized props (Suc w) d"
    and "dynamic_wf (dyn_dataType props) d" and "series_wf s" and "dataType s = dyn_dataType props"
    and "series_length s + 2 \<le> fuel"
  shows "\<exists>d' res c'. write_series props fuel s d = Some (return (d', res)) \<and> curr d' = Some c' \<and>
    dynamic_wf (dyn_dataType props) d' \<and> (\<forall>b\<in>set (flushed res). buffer_wf (dyn_dataType props) b) \<and>
    concat (map data (flushed res)) @ data c' = (case curr d of None \<Rightarrow> [] | Some c \<Rightarrow> data c) @ data s \<and>
    (case curr d of
       None \<Rightarrow> contiguous (alignment s) (flushed res @ [c']) (alignment s + int (series_length s))
     | Some c \<Rightarrow> alignment c + int (series_length c) = alignment s \<longrightarrow>
         contiguous (alignment c) (flushed res @ [c']) (alignment s + int (series_length s))) \<and>
    sized props w d'"
proof (cases "\<exists>c. curr d = Some c \<and> \<not> misaligned c s")
  case True
  then obtain c where c: "curr d = Some c" "\<not> misaligned c s" by blast
  then have b: "buffer_wf (dyn_dataType props) c" using assms(3) by (simp add: dynamic_wf_def)
  have "length (data s) + (if capacity c = length (data c) then 2 else 1) \<le> fuel" using assms(4,6) by simp
  from write_series_buffer [OF assms(1,2) c(1) b c(2) assms(4,5) this]
  show ?thesis using b c(1) assms(4) by (fastforce simp: dynamic_wf_def buffer_wf_def)
next
  case False
  obtain n where n: "nextBufferSize props d = Some n" "0 < n" using sized_buffer [OF assms(2)] by blast
  obtain f where f: "fuel = Suc f" "length (data s) + 1 \<le> fuel" using assms(4,6) by (cases fuel) auto
  obtain d1 c res0 where e: "ensureBuffer props (nextBufferSize props d) s d = return (d1, c, res0)"
    "curr d1 = Some c" "\<not> misaligned c s" "buffer_wf (dyn_dataType props) c" "data c = []"
    "alignment c = alignment s" "capacity c \<noteq> length (data c)"
    "concat (map data (flushed res0)) = (case curr d of None \<Rightarrow> [] | Some c \<Rightarrow> data c)"
    "\<forall>b\<in>set (flushed res0). buffer_wf (dyn_dataType props) b"
    "case curr d of None \<Rightarrow> flushed res0 = [] | Some c0 \<Rightarrow> alignment c0 + int (series_length c0) \<noteq> alignment s"
    "avgRate d1 = avgRate d" "totalWrites d1 = totalWrites d"
    using ensureBuffer_fresh [OF assms(1) n assms(3) False] by (elim exE conjE) (rule that)
  have sz: "sized props (Suc w) d1" using assms(2) sized_cong [OF e(11,12)] by simp
  have "length (data s) + (if capacity c = length (data c) then 2 else 1) \<le> fuel" using f e(7) by simp
  from write_series_buffer [OF assms(1) sz e(2,4,3) assms(4,5) this]
  obtain d' res c' where w: "write_series props fuel s d1 = Some (return (d', res))" "curr d' = Some c'"
    "buffer_wf (dyn_dataType props) c'" "concat (map data (flushed res)) @ data c' = data s"
    "\<forall>b\<in>set (flushed res). buffer_wf (dyn_dataType props) b"
    "contiguous (alignment s) (flushed res @ [c']) (alignment s + int (length (data s)))" "sized props w d'"
    using e(5,6) by auto
  have "nextBufferSize props d1 = nextBufferSize props d" using e(11,12) by (rule nextBufferSize_cong)
  note w' = write_series_allocates [OF e(1,2,3) this w(1) [unfolded f(1)]]
  show ?thesis
    unfolding f(1) w' using w(2-) e(8-10) assms(4) by (auto simp: dynamic_wf_def split: option.splits)
qed

text \<open>A size that is not a number makes every new buffer empty, so that the remaining samples never fit.\<close>

lemma write_series_never_returns:
  assumes dt: "gl_type (dyn_dataType props)" and sz: "dynamicBufferSize props = SpanSize span0"
    and "MAX_DEF_WRITES \<le> totalWrites d" and "avgRate d = 0"
    and "curr d = Some c" and "buffer_wf (dyn_dataType props) c" and "\<not> misaligned c s"
    and "series_wf s" and "dataType s = dyn_dataType props"
    and "capacity c - length (data c) < length (data s)"
  shows "write_series props fuel s d = None"
  using assms(3-)
proof (induction fuel arbitrary: s d c)
  case (Suc fuel)
  note c = Suc.prems(3-5) and s = Suc.prems(6,7)
  define k where "k = min (length (data s)) (capacity c - length (data c))"
  have kl: "k \<le> length (data s)" "k \<noteq> length (data s)" using Suc.prems(8) by (simp_all add: k_def)
  obtain c' where c': "write_series props (Suc fuel) s d = flush_and_continue props fuel s k c' d"
    using write_series_step [OF dt c(1,2) s c(3) k_def, of fuel] kl(2) by metis
  define d1 t where "d1 = snd (now_of props (d\<lparr>curr := Some c'\<rparr>))" and "t = fst (now_of props (d\<lparr>curr := Some c'\<rparr>))"
  have cap: "nextBufferSize props d = None"
    using Suc.prems(1,2) by (simp add: nextBufferSize_def sz roundToNearestMagnitude_def)
  obtain f where f: "allocate props None (alignment s + int k) t d1 = return (f, d1\<lparr>counter := Suc (counter d1)\<rparr>)"
    "buffer_wf (dyn_dataType props) f" "data f = []" "alignment f = alignment s + int k" "capacity f = 0"
    using allocate_props [OF dt, of None "alignment s + int k" t d1] by auto
  let ?d2 = "d1\<lparr>counter := Suc (counter d1), curr := Some f\<rparr>" and ?r = "slice s (int k) None"
  note r = slice_rest [OF s(1) kl(1)]
  have "\<not> misaligned f ?r" using f(2-4) r(3) by (simp add: misaligned_def buffer_wf_def)
  moreover have "totalWrites ?d2 = totalWrites d" "avgRate ?d2 = avgRate d" by (simp_all add: d1_def now_of_def)
  moreover have "capacity f - length (data f) < length (data ?r)" using f(5) r(2) kl by simp
  ultimately have "write_series props fuel ?r ?d2 = None"
    using Suc.IH [of ?d2 f ?r] Suc.prems(1,2) f(2) r(1,4) s(2) by simp
  then show ?case using f(1) by (simp add: c' flush_and_continue_def cap d1_def t_def split_beta)
qed simp

section \<open>Properties\<close>

text \<open>
  A write to the dynamic cache with a buffer size that is a positive number returns (one unit of fuel per sample
  and two more are enough) and loses nothing: the flushed buffers followed by the current one hold
  exactly the samples that were buffered followed by those of the series, in order; and when the
  series starts where the buffer ends, or there was no buffer, the buffers follow each other in
  alignment up to the end of the series.
\<close>

theorem dynamic_write_conserves:
  assumes "gl_type (dyn_dataType props)" and "sized props (Suc w) d"
    and "dynamic_wf (dyn_dataType props) d" and "series_wf s" and "dataType s = dyn_dataType props"
    and "series_length s + 2 \<le> fuel"
  shows "\<exists>d' res c'. write_series props fuel s d = Some (return (d', res)) \<and> curr d' = Some c' \<and>
    dynamic_wf (dyn_dataType props) d' \<and> (\<forall>b\<in>set (flushed res). buffer_wf (dyn_dataType props) b) \<and>
    concat (map data (flushed res)) @ data c' = (case curr d of None \<Rightarrow> [] | Some c \<Rightarrow> data c) @ data s \<and>
    (case curr d of
       None \<Rightarrow> contiguous (alignment s) (flushed res @ [c']) (alignment s + int (series_length s))
     | Some c \<Rightarrow> alignment c + int (series_length c) = alignment s \<longrightarrow>
         contiguous (alignment c) (flushed res @ [c']) (alignment s + int (series_length s))) \<and>
    sized props w d'"
  using write_series_conserves [OF assms] .

lemma dynamic_write_conserves_witness:
  "\<exists>d' res c'. write_series \<lparr>dynamicBufferSize = FixedSize 2, dyn_dataType = FLOAT32, clock = of_nat\<rparr> 5
      (newSeries FLOAT32 [Num 7, Num 8, Num 9] None (Num 0) StaticUsage 4)
      (newDynamic \<lparr>dynamicBufferSize = FixedSize 2, dyn_dataType = FLOAT32, clock = of_nat\<rparr>) = Some (return (d', res)) \<and>
    curr d' = Some c' \<and> concat (map data (flushed res)) @ data c' = [Num 7, Num 8, Num 9] \<and>
    contiguous 4 (flushed res @ [c']) 7"
proof -
  let ?p = "\<lparr>dynamicBufferSize = FixedSize 2, dyn_dataType = FLOAT32, clock = of_nat\<rparr> :: dynamic_props"
  let ?s = "newSeries FLOAT32 [Num 7, Num 8, Num 9] None (Num 0) StaticUsage 4"
  have s: "series_wf ?s" "series_length ?s = 3" "data ?s = [Num 7, Num 8, Num 9]" "alignment ?s = 4"
    "dataType ?s = FLOAT32"
    by (simp_all add: fixed_types_def)
  have "gl_type (dyn_dataType ?p)" "dynamic_wf (dyn_dataType ?p) (newDynamic ?p)" "curr (newDynamic ?p) = None"
    by (simp_all add: gl_type_def dynamic_wf_def newDynamic_def)
  moreover have "sized ?p 1 (newDynamic ?p)" by (simp add: sized_def)
  ultimately show ?thesis using dynamic_write_conserves [of ?p 0 "newDynamic ?p" ?s 5] s by auto
qed

text \<open>
  With a buffer size given as a time span, a cache that has seen a hundred writes and no positive
  rate (all of them empty, or without a measurable time between them) computes a size that is not a
  number.  A series that does not fit in the current buffer is then never written: each buffer that is
  allocated holds nothing, and the method calls itself without end.
\<close>

theorem dynamic_write_diverges:
  assumes "gl_type (dyn_dataType props)" and "dynamicBufferSize props = SpanSize span0"
    and "MAX_DEF_WRITES \<le> totalWrites d" and "avgRate d = 0"
    and "curr d = Some c" and "buffer_wf (dyn_dataType props) c" and "\<not> misaligned c s"
    and "series_wf s" and "dataType s = dyn_dataType props"
    and "capacity c < series_length c + series_length s"
  shows "write_series props fuel s d = None"
proof -
  have c: "series_wf c" using assms(6) by (simp add: buffer_wf_def)
  have "length (data c) \<le> capacity c" using c by simp
  moreover have "capacity c < length (data c) + length (data s)" using assms(8,10) c by simp
  ultimately have "capacity c - length (data c) < length (data s)" by linarith
  from write_series_never_returns [OF assms(1,2,3,4,5,6,7,8,9) this] show ?thesis .
qed

lemma dynamic_write_diverges_witness:
  "\<forall>fuel. write_series \<lparr>dynamicBufferSize = SpanSize 1000000000, dyn_dataType = FLOAT32, clock = (\<lambda>_. 0)\<rparr> fuel
     (newSeries FLOAT32 [Num 7, Num 8] None (Num 0) StaticUsage 0)
     \<lparr>counter = 1, curr = Some ((newSeries FLOAT32 [Num 0] None (Num 0) DynamicUsage 0)\<lparr>writePos := 0\<rparr>), avgRate = 0,
      timeOfLastWrite = 0, totalWrites = 100, ticks = 201\<rparr> = None"
proof -
  let ?p = "\<lparr>dynamicBufferSize = SpanSize 1000000000, dyn_dataType = FLOAT32, clock = (\<lambda>_. 0)\<rparr> :: dynamic_props"
  let ?s = "newSeries FLOAT32 [Num 7, Num 8] None (Num 0) StaticUsage 0"
  let ?c = "(newSeries FLOAT32 [Num 0] None (Num 0) DynamicUsage 0)\<lparr>writePos := 0\<rparr>"
  let ?d = "\<lparr>counter = 1, curr = Some ?c, avgRate = 0, timeOfLastWrite = 0, totalWrites = 100, ticks = 201\<rparr> :: dynamic"
  have s: "series_wf ?s" "dataType ?s = FLOAT32" "series_length ?s = 2" "alignment ?s = 0"
    by (simp_all add: fixed_types_def)
  have c: "buffer_wf FLOAT32 ?c" "alignment ?c = 0"
    by (simp_all add: buffer_wf_def series_wf_def newSeries_def FULL_BUFFER_def fixed_types_def)
  have l: "series_length ?c = 0" "capacity ?c = 1"
    using c(1) by (simp_all add: buffer_wf_def data_def newSeries_def FULL_BUFFER_def)
  have "\<not> misaligned ?c ?s" by (simp add: misaligned_def l c s)
  with dynamic_write_diverges [of ?p 1000000000 ?d ?c ?s] s c l
  show ?thesis by (simp add: gl_type_def MAX_DEF_WRITES_def)
qed

end
