(* ===== verification/Channel_Cache.thy ===== *)
theory Channel_Cache
  imports Dynamic_Cache
begin

text \<open>
  \<open>Unary\<close> (\<open>pluto/src/telem/client/cache/unary.ts\<close>), which combines the static and the dynamic cache of a
  channel, and \<open>Cache\<close> (\<open>pluto/src/telem/client/cache/cache.ts\<close>), which maps channel keys to them.
\<close>

section \<open>The cache of a channel\<close>

record unary =
  closed :: bool
  static_part :: static_cache
  threshold :: timespan
  dynamic_part :: dynamic

text \<open>The constructor, with the stale entry threshold of its props if there is one.\<close>

definition newUnary :: "dynamic_props \<Rightarrow> timespan option \<Rightarrow> unary" where
  "newUnary props staleEntryThreshold =
     \<lparr>closed = False, static_part = [],
      threshold = (case staleEntryThreshold of Some t \<Rightarrow> t | None \<Rightarrow> DEFAULT_STALE_ENTRY_THRESHOLD),
      dynamic_part = newDynamic props\<rparr>"

definition unary_leadingBuffer :: "unary \<Rightarrow> series option" where
  "unary_leadingBuffer u = leadingBuffer (dynamic_part u)"

definition writeDynamic ::
    "dynamic_props \<Rightarrow> timestamp \<Rightarrow> nat \<Rightarrow> series list \<Rightarrow> unary \<Rightarrow> (unary \<times> nat list) result option" where
  "writeDynamic props now fuel ss u =
     (if closed u then Some (return (u, []))
      else case dynamic_write props fuel ss (dynamic_part u) of
        None \<Rightarrow> None
      | Some (Inl e) \<Rightarrow> Some (throw e)
      | Some (Inr (d, res)) \<Rightarrow>
          let u1 = u\<lparr>dynamic_part := d\<rparr>
          in if flushed res \<noteq> [] then
               (case static_write now (flushed res) (static_part u1) of
                  (es, Some e) \<Rightarrow> Some (throw e)
                | (es, None) \<Rightarrow> Some (return (u1\<lparr>static_part := es\<rparr>, allocated res)))
             else Some (return (u1, allocated res)))"

definition writeStatic :: "timestamp \<Rightarrow> series list \<Rightarrow> unary \<Rightarrow> unary \<times> string option" where
  "writeStatic now ss u =
     (if closed u then (u, None)
      else let (es, e) = static_write now ss (static_part u) in (u\<lparr>static_part := es\<rparr>, e))"

definition unary_read :: "time_range \<Rightarrow> unary \<Rightarrow> dirty_read_result" where
  "unary_read tr u = (if closed u then \<lparr>read_series = [], gaps = []\<rparr> else dirtyRead tr (static_part u))"

definition unary_gc :: "timestamp \<Rightarrow> unary \<Rightarrow> unary \<times> gc_metrics" where
  "unary_gc now u =
     (if closed u then (u, zeroCacheGCMetrics)
      else let (es, m) = static_gc now (threshold u) (static_part u) in (u\<lparr>static_part := es\<rparr>, m))"

definition unary_close :: "unary \<Rightarrow> unary" where
  "unary_close u =
     u\<lparr>closed := True, dynamic_part := dynamic_close (dynamic_part u), static_part := static_close (static_part u)\<rparr>"

section \<open>The cache of all channels\<close>

type_synonym channel_key = nat

record channel_payload =
  channel_key :: channel_key
  channel_dataType :: data_type

text \<open>The props after the defaults have been applied; \<open>now\<close> is the clock of the dynamic caches.\<close>

record cache_props =
  bufferSize :: buffer_size
  staleEntryThreshold :: timespan
  gcInterval :: timespan

record cache =
  settings :: cache_props
  entries :: "(channel_key, unary) rec"
  gc_running :: bool

definition CACHE_BUFFER_SIZE :: timespan where "CACHE_BUFFER_SIZE = seconds 60"

definition newCache :: "buffer_size option \<Rightarrow> timespan option \<Rightarrow> timespan option \<Rightarrow> cache" where
  "newCache dynamicBufferSize0 staleEntryThreshold0 gcInterval0 =
     \<lparr>settings = \<lparr>bufferSize = (case dynamicBufferSize0 of Some b \<Rightarrow> b | None \<Rightarrow> SpanSize CACHE_BUFFER_SIZE),
               staleEntryThreshold = (case staleEntryThreshold0 of Some t \<Rightarrow> t | None \<Rightarrow> DEFAULT_STALE_ENTRY_THRESHOLD),
               gcInterval = (case gcInterval0 of Some t \<Rightarrow> t | None \<Rightarrow> seconds 30)\<rparr>,
      entries = [], gc_running = True\<rparr>"

text \<open>
  \<open>populateMissing\<close>: the channel retriever is a parameter, the function from the keys asked for to the
  channels it returns.  The call waits for it; the entries present when it answers are those of the
  cache \<open>later\<close>.
\<close>

definition missing_keys :: "channel_key list \<Rightarrow> cache \<Rightarrow> channel_key list" where
  "missing_keys keys c = filter (\<lambda>k. \<not> rec_has (entries c) k) keys"

definition unary_of :: "(nat \<Rightarrow> timestamp) \<Rightarrow> cache \<Rightarrow> channel_payload \<Rightarrow> unary" where
  "unary_of now c ch =
     newUnary \<lparr>dynamicBufferSize = bufferSize (settings c), dyn_dataType = channel_dataType ch, clock = now\<rparr> None"

definition add_channel :: "(nat \<Rightarrow> timestamp) \<Rightarrow> channel_payload \<Rightarrow> cache \<Rightarrow> cache" where
  "add_channel now ch c =
     (let unary = unary_of now c ch
      in if \<not> rec_has (entries c) (channel_key ch)
         then c\<lparr>entries := rec_set (channel_key ch) unary (entries c)\<rparr> else c)"

definition populateMissing ::
    "(channel_key list \<Rightarrow> channel_payload list) \<Rightarrow> (nat \<Rightarrow> timestamp) \<Rightarrow> channel_key list \<Rightarrow> cache \<Rightarrow> cache \<Rightarrow> cache" where
  "populateMissing retrieve now keys c later =
     (let toFetch = missing_keys keys c
      in if toFetch = [] then c else fold (add_channel now) (retrieve toFetch) later)"

definition cache_get :: "channel_key \<Rightarrow> cache \<Rightarrow> unary result" where
  "cache_get k c = (case rec_get (entries c) k of Some u \<Rightarrow> return u | None \<Rightarrow> throw ''cache entry not found'')"

definition add_metrics :: "gc_metrics \<Rightarrow> gc_metrics \<Rightarrow> gc_metrics" where
  "add_metrics m r = \<lparr>purgedSeries = purgedSeries m + purgedSeries r, purgedBytes = purgedBytes m + purgedBytes r\<rparr>"

definition cache_gc :: "timestamp \<Rightarrow> cache \<Rightarrow> cache \<times> gc_metrics" where
  "cache_gc now c =
     (let rs = map (\<lambda>(k, u). (k, unary_gc now u)) (entries c)
      in (c\<lparr>entries := map (\<lambda>(k, u', r). (k, u')) rs\<rparr>, foldl (\<lambda>m (k, u', r). add_metrics m r) zeroCacheGCMetrics rs))"

text \<open>The entries are closed before the map is cleared; a caller may still hold one.\<close>

definition cache_close :: "cache \<Rightarrow> cache \<times> unary list" where
  "cache_close c = (c\<lparr>entries := [], gc_running := False\<rparr>, map (\<lambda>(k, u). unary_close u) (entries c))"

section \<open>Streams of live data\<close>

definition current_samples :: "dynamic \<Rightarrow> numeric list" where
  "current_samples d = (case curr d of None \<Rightarrow> [] | Some c \<Rightarrow> data c)"

definition current_list :: "dynamic \<Rightarrow> series list" where
  "current_list d = (case curr d of None \<Rightarrow> [] | Some c \<Rightarrow> [c])"

definition static_samples :: "static_cache \<Rightarrow> numeric list" where
  "static_samples es = concat (map (\<lambda>e. data (entry_data e)) es)"

text \<open>The live data written so far ends at \<open>a\<close>, and the static part lies before the current buffer.\<close>

definition stream_start :: "dynamic \<Rightarrow> int \<Rightarrow> int" where
  "stream_start d a = (case curr d of None \<Rightarrow> a | Some c \<Rightarrow> alignment c)"

definition static_before :: "static_cache \<Rightarrow> int \<Rightarrow> bool" where
  "static_before es a \<longleftrightarrow> ordered (entry_bounds es) \<and> (\<forall>e\<in>set es. series_wf (entry_data e) \<and> upper (alignmentBounds (entry_data e)) \<le> a)"

definition dynamic_stream :: "data_type \<Rightarrow> dynamic \<Rightarrow> int \<Rightarrow> bool" where
  "dynamic_stream dt d a \<longleftrightarrow> dynamic_wf dt d \<and> contiguous (stream_start d a) (current_list d) a"

definition stream_wf :: "data_type \<Rightarrow> unary \<Rightarrow> int \<Rightarrow> bool" where
  "stream_wf dt u a \<longleftrightarrow> \<not> closed u \<and> dynamic_stream dt (dynamic_part u) a \<and>
     static_before (static_part u) (stream_start (dynamic_part u) a)"

definition held :: "unary \<Rightarrow> numeric list" where
  "held u = static_samples (static_part u) @ current_samples (dynamic_part u)"

lemma contiguous_append: "contiguous a (xs @ ys) e \<longleftrightarrow> (\<exists>m. contiguous a xs m \<and> contiguous m ys e)"
  by (induction xs arbitrary: a) auto

lemma contiguous_mono: "contiguous a xs e \<Longrightarrow> a \<le> e"
  by (induction xs arbitrary: a) force+

lemma writeOne_after:
  assumes "static_before es (alignment s)" and "series_wf s" and "data s \<noteq> []"
  shows "writeOne now s es = es @ [\<lparr>entry_data = sliceSub False s 0 (Some (int (length (data s)))), addedAt = now\<rparr>]"
proof -
  let ?v = "alignmentBounds s" and ?bs = "entry_bounds es"
  have v: "lower ?v = alignment s" "lower ?v < upper ?v" using assms(2,3) by (simp_all add: alignmentBounds_wf)
  have ord: "ordered ?bs" using assms(1) by (simp add: static_before_def)
  have up: "\<forall>b\<in>set ?bs. upper b \<le> lower ?v" using assms(1) v by (auto simp: static_before_def)
  then have "buildInsertionPlan bigint_to_number ?bs ?v = Some (ZERO_PLAN\<lparr>insertInto := length es\<rparr>)"
    using buildInsertionPlan_after [of ?bs ?v bigint_to_number] ordered_valid [OF ord] v(2) by simp
  moreover have "series_length (sliceSub False s 0 (Some (int (length (data s))))) \<noteq> 0"
    using sliceSub_props [OF assms(2), of 0 "int (length (data s))"] assms(3) by simp
  ultimately show ?thesis
    using assms(2,3) by (simp add: writeOne_def insertWithPlan_def ZERO_PLAN_def slice_def splice_at_def)
qed

lemma static_before_writeOne:
  assumes "static_before es (alignment s)" and "series_wf s"
  shows "static_before (writeOne now s es) (alignment s + int (length (data s)))"
    and "static_samples (writeOne now s es) = static_samples es @ data s"
proof (atomize (full), cases "data s = []")
  case True
  then show "static_before (writeOne now s es) (alignment s + int (length (data s))) \<and>
      static_samples (writeOne now s es) = static_samples es @ data s"
    using assms by (simp add: writeOne_def)
next
  case False
  let ?t = "sliceSub False s 0 (Some (int (length (data s))))"
  note t = sliceSub_props [OF assms(2), of 0 "int (length (data s))", simplified]
  have b: "alignmentBounds ?t = \<lparr>lower = alignment s, upper = alignment s + int (length (data s))\<rparr>"
    using alignmentBounds_wf [OF t(1)] t(2,3) by simp
  have "upper x \<le> alignment s + int (length (data s))" if "x \<in> set (entry_bounds es)" for x
    using assms(1) that by (fastforce simp: static_before_def)
  then show "static_before (writeOne now s es) (alignment s + int (length (data s))) \<and>
      static_samples (writeOne now s es) = static_samples es @ data s"
    using assms(1) t(1,2) b False unfolding writeOne_after [OF assms False]
    by (auto simp: static_before_def static_samples_def ordered_append ordered_Cons)
qed

lemma write_each_stream:
  assumes "contiguous a ss e" and "static_before es a"
    and "\<forall>s\<in>set ss. series_wf s \<and> gl_type (dataType s)"
  shows "\<exists>es'. write_each now ss es = (es', None) \<and> static_before es' e \<and>
    static_samples es' = static_samples es @ concat (map data ss)"
  using assms
proof (induction ss arbitrary: a es)
  case (Cons s ss)
  then have s: "series_wf s" "static_before es (alignment s)" "contiguous (alignment s + int (length (data s))) ss e"
    by auto
  note w = static_before_writeOne [OF s(2,1), of now]
  from Cons.IH [OF s(3) w(1)] Cons.prems(3) w(2) show ?case by (auto simp: convert_gl_type)
qed simp

lemma static_write_stream:
  assumes "contiguous a ss e" and "static_before es a"
    and "\<forall>s\<in>set ss. series_wf s \<and> gl_type (dataType s)"
  shows "\<exists>es'. static_write now ss es = (es', None) \<and> static_before es' e \<and>
    static_samples es' = static_samples es @ concat (map data ss)"
proof (cases "ss = []")
  case False
  then show ?thesis
    using write_each_stream [OF assms, of now] checkIntegrity_ordered
    by (auto simp: static_write_def static_before_def)
qed (use assms in \<open>simp add: static_write_def\<close>)

lemma dynamic_write_stream:
  assumes p: "gl_type (dyn_dataType props)" and "sized props (length ss + w) d"
    and "dynamic_stream (dyn_dataType props) d a" and "contiguous a ss e"
    and "\<forall>s\<in>set ss. series_wf s \<and> dataType s = dyn_dataType props \<and> length (data s) + 2 \<le> fuel"
  shows "\<exists>d' res. dynamic_write props fuel ss d = Some (return (d', res)) \<and>
    dynamic_stream (dyn_dataType props) d' e \<and> (\<forall>b\<in>set (flushed res). buffer_wf (dyn_dataType props) b) \<and>
    contiguous (stream_start d a) (flushed res) (stream_start d' e) \<and>
    concat (map data (flushed res)) @ current_samples d' = current_samples d @ concat (map data ss) \<and> sized props w d'"
  using assms(2-)
proof (induction ss arbitrary: d a)
  case (Cons s ss)
  have al: "alignment s = a" and rest: "contiguous (a + int (length (data s))) ss e" using Cons.prems(3) by auto
  have wf: "dynamic_wf (dyn_dataType props) d" using Cons.prems(2) by (simp add: dynamic_stream_def)
  have s: "series_wf s" "dataType s = dyn_dataType props" "length (data s) + 2 \<le> fuel"
    using Cons.prems(4) by auto
  obtain d1 res c1 where w: "write_series props fuel s d = Some (return (d1, res))" "curr d1 = Some c1"
    "dynamic_wf (dyn_dataType props) d1" "\<forall>b\<in>set (flushed res). buffer_wf (dyn_dataType props) b"
    "concat (map data (flushed res)) @ data c1 = current_samples d @ data s"
    "contiguous (stream_start d a) (flushed res @ [c1]) (a + int (length (data s)))" "sized props (length ss + w) d1"
    using write_series_conserves [OF p _ wf s(1,2), of "length ss + w" fuel] Cons.prems(1) s(3) Cons.prems(2) s(1) al
    by (auto simp: dynamic_stream_def stream_start_def current_list_def current_samples_def dynamic_wf_def
        buffer_wf_def split: option.splits)
  have c1: "contiguous (stream_start d a) (flushed res) (alignment c1)"
    "alignment c1 + int (length (data c1)) = a + int (length (data s))"
    using w(6) by (auto simp: contiguous_append)
  have "dynamic_stream (dyn_dataType props) d1 (a + int (length (data s)))"
    using w(2,3) c1(2) by (simp add: dynamic_stream_def stream_start_def current_list_def)
  moreover have "\<forall>s\<in>set ss. series_wf s \<and> dataType s = dyn_dataType props \<and> length (data s) + 2 \<le> fuel"
    using Cons.prems(4) by (meson list.set_intros(2))
  ultimately obtain d' res' where
    "dynamic_write props fuel ss d1 = Some (return (d', res'))" "dynamic_stream (dyn_dataType props) d' e"
    "\<forall>b\<in>set (flushed res'). buffer_wf (dyn_dataType props) b"
    "contiguous (alignment c1) (flushed res') (stream_start d' e)"
    "concat (map data (flushed res')) @ current_samples d' = data c1 @ concat (map data ss)" "sized props w d'"
    using Cons.IH [OF w(7) _ rest] w(2) by (auto simp: stream_start_def [of d1] current_samples_def [of d1])
  then show ?case
    using w(1,4,5) c1(1) by (auto simp: contiguous_append)
qed (simp add: dynamic_stream_def)

section \<open>Properties\<close>

lemma writeDynamic_continues:
  assumes "gl_type (dyn_dataType props)" and "sized props (length ss + w) (dynamic_part u)"
    and "stream_wf (dyn_dataType props) u a" and "contiguous a ss e"
    and "\<forall>s\<in>set ss. series_wf s \<and> dataType s = dyn_dataType props \<and> series_length s + 2 \<le> fuel"
  shows "\<exists>u' bufs. writeDynamic props now fuel ss u = Some (return (u', bufs)) \<and>
    stream_wf (dyn_dataType props) u' e \<and> sized props w (dynamic_part u') \<and> held u' = held u @ concat (map data ss)"
proof -
  let ?d = "dynamic_part u" and ?es = "static_part u"
  have u: "\<not> closed u" "dynamic_stream (dyn_dataType props) ?d a" "static_before ?es (stream_start ?d a)"
    using assms(3) by (simp_all add: stream_wf_def)
  have ss: "\<forall>s\<in>set ss. series_wf s \<and> dataType s = dyn_dataType props \<and> length (data s) + 2 \<le> fuel"
    using assms(5) by fastforce
  obtain d' res where d': "dynamic_write props fuel ss ?d = Some (return (d', res))"
    "dynamic_stream (dyn_dataType props) d' e" "\<forall>b\<in>set (flushed res). buffer_wf (dyn_dataType props) b"
    "contiguous (stream_start ?d a) (flushed res) (stream_start d' e)"
    "concat (map data (flushed res)) @ current_samples d' = current_samples ?d @ concat (map data ss)" "sized props w d'"
    using dynamic_write_stream [OF assms(1,2) u(2) assms(4) ss] by blast
  have "\<forall>b\<in>set (flushed res). series_wf b \<and> gl_type (dataType b)"
    using d'(3) assms(1) by (simp add: buffer_wf_def)
  from static_write_stream [OF d'(4) u(3) this, of now] obtain es' where
    es': "static_write now (flushed res) ?es = (es', None)" "static_before es' (stream_start d' e)"
    "static_samples es' = static_samples ?es @ concat (map data (flushed res))" by blast
  let ?u = "u\<lparr>static_part := es', dynamic_part := d'\<rparr>"
  have "flushed res = [] \<longrightarrow> es' = ?es" using es'(1) by (auto simp: static_write_def)
  then have "writeDynamic props now fuel ss u = Some (return (?u, allocated res))"
    using u(1) d'(1) es'(1) by (auto simp: writeDynamic_def Let_def)
  moreover have "stream_wf (dyn_dataType props) ?u e" using u(1) d'(2) es'(2) by (simp add: stream_wf_def)
  moreover have "held ?u = held u @ concat (map data ss)" using es'(3) d'(5) by (simp add: held_def)
  ultimately show ?thesis using d'(6) by (intro exI [of _ ?u] exI [of _ "allocated res"]) simp
qed

text \<open>
  C35: Live data of the types float32 and uint8, which are buffered as they are, ends up in one place. Writing
  series of numbers of the type of the channel that continue the stream returns, keeps the
  static entries ordered and before the rolling buffer, and the static cache followed by the rolling
  buffer hold exactly what they held before followed by the new samples: nothing is lost, repeated or
  reordered when full buffers move from the dynamic to the static cache. The size of the buffers has to be
  a positive number for every one of the writes: a fixed positive size, or a positive time span with a positive
  average rate, or a time span as long as there were no more than a hundred writes in all (with a time span and no measured rate
  the size is not a number after that, and a write may never return). One level of recursion per sample and two
  more are enough, and what is left of the hundred writes is kept for the next one.
\<close>

theorem writeDynamic_stream:
  assumes "gl_type (dyn_dataType props)" and "sized props (length ss + w) (dynamic_part u)"
    and "stream_wf (dyn_dataType props) u a" and "contiguous a ss e"
    and "\<forall>s\<in>set ss. series_wf s \<and> dataType s = dyn_dataType props \<and> series_length s + 2 \<le> fuel"
  shows "\<exists>u' bufs. writeDynamic props now fuel ss u = Some (return (u', bufs)) \<and>
    stream_wf (dyn_dataType props) u' e \<and> sized props w (dynamic_part u') \<and> held u' = held u @ concat (map data ss)"
  using assms by (rule writeDynamic_continues)

lemma writeDynamic_stream_witness:
  "\<exists>u' bufs. writeDynamic \<lparr>dynamicBufferSize = SpanSize 60000000000, dyn_dataType = FLOAT32, clock = of_nat\<rparr> 50 5
      [newSeries FLOAT32 [Num 7, Num 8, Num 9] None (Num 0) StaticUsage 4, newSeries FLOAT32 [Num 1] None (Num 0) StaticUsage 7]
      (newUnary \<lparr>dynamicBufferSize = SpanSize 60000000000, dyn_dataType = FLOAT32, clock = of_nat\<rparr> None) = Some (return (u', bufs)) \<and>
    stream_wf FLOAT32 u' 8 \<and> held u' = [Num 7, Num 8, Num 9, Num 1]"
proof -
  let ?p = "\<lparr>dynamicBufferSize = SpanSize 60000000000, dyn_dataType = FLOAT32, clock = of_nat\<rparr> :: dynamic_props"
  let ?ss = "[newSeries FLOAT32 [Num 7, Num 8, Num 9] None (Num 0) StaticUsage 4, newSeries FLOAT32 [Num 1] None (Num 0) StaticUsage 7]"
  have ss: "\<forall>s\<in>set ?ss. series_wf s \<and> dataType s = dyn_dataType ?p \<and> series_length s + 2 \<le> 5"
    by (simp add: fixed_types_def)
  have c: "contiguous 4 ?ss 8" by simp
  have u: "stream_wf (dyn_dataType ?p) (newUnary ?p None) 4" "held (newUnary ?p None) = []" "gl_type (dyn_dataType ?p)"
    by (simp_all add: stream_wf_def newUnary_def newDynamic_def dynamic_stream_def dynamic_wf_def stream_start_def
        current_list_def static_before_def held_def static_samples_def current_samples_def gl_type_def)
  have z: "sized ?p (length ?ss + 98) (dynamic_part (newUnary ?p None))"
    by (simp add: sized_def newUnary_def newDynamic_def MAX_DEF_WRITES_def)
  from writeDynamic_stream [OF u(3) z u(1) c ss, of 50] u(2) show ?thesis by simp blast
qed

text \<open>The entries after the channels \<open>chs\<close> have been added: the old ones, and one for each new channel.\<close>

lemma add_channels:
  "settings (fold (add_channel now) chs c) = settings c \<and>
   (rec_wf (entries c) \<longrightarrow> rec_wf (entries (fold (add_channel now) chs c))) \<and>
   rec_get (entries (fold (add_channel now) chs c)) k =
     (case rec_get (entries c) k of
        Some u \<Rightarrow> Some u
      | None \<Rightarrow> map_option (unary_of now c) (find (\<lambda>ch. channel_key ch = k) chs))"
proof (induction chs arbitrary: c)
  case (Cons ch chs)
  have "unary_of now (add_channel now ch c) = unary_of now c"
    by (auto simp: add_channel_def unary_of_def fun_eq_iff)
  then show ?case
    using Cons.IH [of "add_channel now ch c"]
    by (auto simp: add_channel_def rec_has_def split: option.splits)
qed (simp split: option.splits)

text \<open>
  Populating the cache gives every key the retriever knows an entry and keeps the entries that
  are there, also those another call added while this one waited for the retriever; and every entry it
  creates keeps stale data for the default twenty seconds, whatever threshold the cache was given.
\<close>

theorem populateMissing_spec:
  assumes "\<And>ks. set (map channel_key (retrieve ks)) = set ks \<inter> known"
    and "\<And>k u. rec_get (entries c) k = Some u \<Longrightarrow> rec_get (entries later) k = Some u"
    and "missing_keys keys c = [] \<Longrightarrow> later = c" and c'_def: "c' = populateMissing retrieve now keys c later"
  shows "(\<forall>k u. rec_get (entries later) k = Some u \<longrightarrow> cache_get k c' = return u) \<and>
    (\<forall>k\<in>set keys \<inter> known. \<exists>u. cache_get k c' = return u) \<and>
    (\<forall>k u. rec_get (entries later) k = None \<longrightarrow> cache_get k c' = return u \<longrightarrow>
       k \<in> set keys \<and> threshold u = DEFAULT_STALE_ENTRY_THRESHOLD \<and> static_part u = [] \<and> \<not> closed u)"
proof -
  let ?m = "missing_keys keys c"
  have c': "c' = fold (add_channel now) (retrieve ?m) later"
  proof (cases "?m = []")
    case True
    then have "retrieve ?m = []" using assms(1) [of "[]"] by simp
    then show ?thesis using assms(3) True by (simp add: c'_def populateMissing_def)
  qed (simp add: c'_def populateMissing_def)
  have get: "rec_get (entries c') k = (case rec_get (entries later) k of Some u \<Rightarrow> Some u
      | None \<Rightarrow> map_option (unary_of now later) (find (\<lambda>ch. channel_key ch = k) (retrieve ?m)))" for k
    unfolding c' using add_channels [of now "retrieve ?m" later k] by blast
  have key: "k \<in> set ?m \<and> k \<in> known" if "ch \<in> set (retrieve ?m)" "channel_key ch = k" for k ch
    using assms(1) [of ?m] that by auto
  have found: "find (\<lambda>ch. channel_key ch = k) (retrieve ?m) \<noteq> None" if "k \<in> set ?m" "k \<in> known" for k
  proof -
    have "k \<in> channel_key ` set (retrieve ?m)" using assms(1) [of ?m] that by simp
    then show ?thesis by (auto simp: find_None_iff)
  qed
  have in_m: "k \<in> set ?m" if "k \<in> set keys" "rec_get (entries later) k = None" for k
    using assms(2) [of k] that by (cases "rec_get (entries c) k") (auto simp: missing_keys_def rec_has_def)
  have "\<exists>u. cache_get k c' = return u" if "k \<in> set keys" "k \<in> known" for k
    using found [OF in_m [OF that(1)] that(2)]
    by (cases "rec_get (entries later) k") (auto simp: cache_get_def get split: option.splits)
  moreover have "k \<in> set keys \<and> threshold u = DEFAULT_STALE_ENTRY_THRESHOLD \<and> static_part u = [] \<and> \<not> closed u"
    if "rec_get (entries later) k = None" "cache_get k c' = return u" for k u
  proof -
    note h = that
    obtain ch where ch: "find (\<lambda>ch. channel_key ch = k) (retrieve ?m) = Some ch" "u = unary_of now later ch"
      using h get [of k] by (auto simp: cache_get_def split: option.splits)
    then have "ch \<in> set (retrieve ?m)" "channel_key ch = k" by (auto simp: find_Some_iff)
    then have "k \<in> set ?m" using key by blast
    then show ?thesis by (simp add: ch(2) unary_of_def newUnary_def missing_keys_def)
  qed
  moreover have "cache_get k c' = return u" if "rec_get (entries later) k = Some u" for k u
    using get [of k] that by (simp add: cache_get_def)
  ultimately show ?thesis by blast
qed

lemma populateMissing_spec_witness:
  "let c = newCache None (Some (seconds 5)) None;
       c' = populateMissing (\<lambda>ks. map (\<lambda>k. \<lparr>channel_key = k, channel_dataType = FLOAT32\<rparr>) (filter (\<lambda>k. k < 10) ks))
              (\<lambda>_. 0) [3, 11, 3] c c
   in (\<exists>u. cache_get 3 c' = return u) \<and> cache_get 11 c' = throw ''cache entry not found''"
proof -
  let ?r = "\<lambda>ks. map (\<lambda>k. \<lparr>channel_key = k, channel_dataType = FLOAT32\<rparr>) (filter (\<lambda>k. k < 10) ks)"
  let ?c = "newCache None (Some (seconds 5)) None"
  have "set (map channel_key (?r ks)) = set ks \<inter> {k. k < 10}" for ks by auto
  from populateMissing_spec [OF this, where c = ?c and later = ?c and keys = "[3, 11, 3]" and now = "\<lambda>_. 0", OF _ _ refl]
  have "\<exists>u. cache_get 3 (populateMissing ?r (\<lambda>_. 0) [3, 11, 3] ?c ?c) = return u" by auto
  then show ?thesis
    by (simp add: Let_def newCache_def populateMissing_def missing_keys_def add_channel_def rec_has_def cache_get_def)
qed

end
