(* ===== verification/Spatial.thy ===== *)
theory Spatial
  imports Bounds Complex_Main
begin

text \<open>
  The geometry of \<open>x/ts/src/spatial\<close>: directions and locations (\<open>base.ts\<close>,
  \<open>direction.ts\<close>, \<open>location.ts\<close>), coordinates (\<open>xy.ts\<close>),
  dimensions (\<open>dimensions.ts\<close>), boxes with a coordinate root (\<open>box.ts\<close>) and
  the placement of a dialog beside a target (\<open>position.ts\<close>). Numbers are rationals;
  functions that take a crude argument take the form they convert it to.
\<close>

section \<open>Directions and locations\<close>

datatype direction = DirX | DirY

datatype order = First | Last

datatype location = TopLoc | LeftLoc | BottomLoc | RightLoc | CenterLoc

datatype alignment = StartAlign | CenterAlign | EndAlign

datatype crude_location = OfDirection direction | OfLocation location

definition X_LOCATIONS :: "location list" where "X_LOCATIONS = [LeftLoc, RightLoc]"
definition Y_LOCATIONS :: "location list" where "Y_LOCATIONS = [TopLoc, BottomLoc]"

definition direction_construct :: "crude_location \<Rightarrow> direction" where
  "direction_construct c =
     (case c of
        OfDirection d \<Rightarrow> d
      | OfLocation l \<Rightarrow> if l \<in> set Y_LOCATIONS then DirY else DirX)"

definition direction_swap :: "crude_location \<Rightarrow> direction" where
  "direction_swap c = (if direction_construct c = DirX then DirY else DirX)"

definition direction_location :: "crude_location \<Rightarrow> location" where
  "direction_location c = (if direction_construct c = DirX then LeftLoc else TopLoc)"

fun SWAPPED :: "location \<Rightarrow> location" where
  "SWAPPED TopLoc = BottomLoc"
| "SWAPPED RightLoc = LeftLoc"
| "SWAPPED BottomLoc = TopLoc"
| "SWAPPED LeftLoc = RightLoc"
| "SWAPPED CenterLoc = CenterLoc"

fun ROTATE_90 :: "location \<Rightarrow> location" where
  "ROTATE_90 TopLoc = LeftLoc"
| "ROTATE_90 RightLoc = TopLoc"
| "ROTATE_90 BottomLoc = RightLoc"
| "ROTATE_90 LeftLoc = BottomLoc"
| "ROTATE_90 CenterLoc = CenterLoc"

definition location_construct :: "crude_location \<Rightarrow> location" where
  "location_construct cl = (case cl of OfLocation l \<Rightarrow> l | OfDirection DirX \<Rightarrow> LeftLoc | OfDirection DirY \<Rightarrow> TopLoc)"

definition location_swap :: "crude_location \<Rightarrow> location" where
  "location_swap cl = SWAPPED (location_construct cl)"

definition rotate90 :: "crude_location \<Rightarrow> location" where
  "rotate90 cl = ROTATE_90 (location_construct cl)"

definition location_direction :: "crude_location \<Rightarrow> direction" where
  "location_direction cl =
     (let l = location_construct cl in if l = TopLoc \<or> l = BottomLoc then DirY else DirX)"

record xy_location =
  loc_x :: location
  loc_y :: location

definition TOP_LEFT :: xy_location where "TOP_LEFT = \<lparr>loc_x = LeftLoc, loc_y = TopLoc\<rparr>"
definition TOP_RIGHT :: xy_location where "TOP_RIGHT = \<lparr>loc_x = RightLoc, loc_y = TopLoc\<rparr>"
definition BOTTOM_LEFT :: xy_location where "BOTTOM_LEFT = \<lparr>loc_x = LeftLoc, loc_y = BottomLoc\<rparr>"
definition BOTTOM_RIGHT :: xy_location where "BOTTOM_RIGHT = \<lparr>loc_x = RightLoc, loc_y = BottomLoc\<rparr>"
definition CENTER :: xy_location where "CENTER = \<lparr>loc_x = CenterLoc, loc_y = CenterLoc\<rparr>"
definition TOP_CENTER :: xy_location where "TOP_CENTER = \<lparr>loc_x = CenterLoc, loc_y = TopLoc\<rparr>"
definition BOTTOM_CENTER :: xy_location where "BOTTOM_CENTER = \<lparr>loc_x = CenterLoc, loc_y = BottomLoc\<rparr>"
definition RIGHT_CENTER :: xy_location where "RIGHT_CENTER = \<lparr>loc_x = RightLoc, loc_y = CenterLoc\<rparr>"
definition LEFT_CENTER :: xy_location where "LEFT_CENTER = \<lparr>loc_x = LeftLoc, loc_y = CenterLoc\<rparr>"

definition XY_LOCATIONS :: "xy_location list" where
  "XY_LOCATIONS = [LEFT_CENTER, RIGHT_CENTER, TOP_CENTER, BOTTOM_CENTER, TOP_LEFT, TOP_RIGHT, BOTTOM_LEFT,
     BOTTOM_RIGHT, CENTER]"

lemmas corner_defs = TOP_LEFT_def TOP_RIGHT_def BOTTOM_LEFT_def BOTTOM_RIGHT_def CENTER_def TOP_CENTER_def
  BOTTOM_CENTER_def RIGHT_CENTER_def LEFT_CENTER_def

definition xyEquals :: "xy_location \<Rightarrow> xy_location \<Rightarrow> bool" where
  "xyEquals a b \<longleftrightarrow> loc_x a = loc_x b \<and> loc_y a = loc_y b"

text \<open>
  A partial location: a coordinate that is not a key of the object is \<open>None\<close>, and one whose
  value is \<open>undefined\<close> is \<open>Some None\<close>; the operator \<open>in\<close> tells
  them apart.
\<close>

record partial_location =
  part_x :: "location option option"
  part_y :: "location option option"

datatype location_match = MatchPartial partial_location | MatchLocation location

definition xyMatches :: "xy_location \<Rightarrow> location_match \<Rightarrow> bool" where
  "xyMatches a l =
     (case l of
        MatchPartial p \<Rightarrow>
          (case part_x p of None \<Rightarrow> True | Some x \<Rightarrow> Some (loc_x a) = x) \<and>
          (case part_y p of None \<Rightarrow> True | Some y \<Rightarrow> Some (loc_y a) = y)
      | MatchLocation m \<Rightarrow> loc_x a = m \<or> loc_y a = m)"

definition xyCouple :: "xy_location \<Rightarrow> location list" where
  "xyCouple a = [loc_x a, loc_y a]"

definition isX :: "crude_location \<Rightarrow> bool" where
  "isX a \<longleftrightarrow> location_direction (OfLocation (location_construct a)) = DirX"

definition isY :: "crude_location \<Rightarrow> bool" where
  "isY a \<longleftrightarrow> location_direction (OfLocation (location_construct a)) = DirY"

definition constructXY :: "crude_location \<Rightarrow> crude_location option \<Rightarrow> xy_location result" where
  "constructXY x y =
     (let parsedX = location_construct x;
          parsedY = location_construct (case y of Some y' \<Rightarrow> y' | None \<Rightarrow> x)
      in if location_direction (OfLocation parsedX) = location_direction (OfLocation parsedY) \<and>
            parsedX \<noteq> CenterLoc \<and> parsedY \<noteq> CenterLoc
         then throw ''[XYLocation] - encountered two locations with the same direction''
         else if parsedX = CenterLoc then
           (if isX (OfLocation parsedY) then return \<lparr>loc_x = parsedY, loc_y = parsedX\<rparr>
            else return \<lparr>loc_x = parsedX, loc_y = parsedY\<rparr>)
         else if parsedY = CenterLoc then
           (if isX (OfLocation parsedX) then return \<lparr>loc_x = parsedX, loc_y = parsedY\<rparr>
            else return \<lparr>loc_x = parsedY, loc_y = parsedX\<rparr>)
         else if isX (OfLocation parsedX) then return \<lparr>loc_x = parsedX, loc_y = parsedY\<rparr>
         else return \<lparr>loc_x = parsedY, loc_y = parsedX\<rparr>)"

section \<open>Coordinates and dimensions\<close>

record xy =
  xc :: rat
  yc :: rat

definition XY_ZERO :: xy where "XY_ZERO = \<lparr>xc = 0, yc = 0\<rparr>"
definition XY_ONE :: xy where "XY_ONE = \<lparr>xc = 1, yc = 1\<rparr>"

record dimensions =
  width_of :: rat
  height_of :: rat

datatype crude_xy =
  NumberXY rat | CoupleXY rat rat | SignedXY rat rat | ClientXY rat rat | DimsXY dimensions | PointXY xy

definition xy_construct :: "crude_xy \<Rightarrow> rat option \<Rightarrow> xy" where
  "xy_construct x y =
     (case x of
        NumberXY n \<Rightarrow> \<lparr>xc = n, yc = (case y of Some m \<Rightarrow> m | None \<Rightarrow> n)\<rparr>
      | CoupleXY a b \<Rightarrow> \<lparr>xc = a, yc = b\<rparr>
      | SignedXY a b \<Rightarrow> \<lparr>xc = a, yc = b\<rparr>
      | ClientXY a b \<Rightarrow> \<lparr>xc = a, yc = b\<rparr>
      | DimsXY d \<Rightarrow> \<lparr>xc = width_of d, yc = height_of d\<rparr>
      | PointXY p \<Rightarrow> p)"

definition xy_construct_direction :: "direction \<Rightarrow> rat option \<Rightarrow> xy result" where
  "xy_construct_direction d y =
     (case y of
        None \<Rightarrow> throw ''The y coordinate must be given.''
      | Some v \<Rightarrow> return (if d = DirX then \<lparr>xc = v, yc = 0\<rparr> else \<lparr>xc = 0, yc = v\<rparr>))"

definition xy_equals :: "xy \<Rightarrow> xy \<Rightarrow> rat \<Rightarrow> bool" where
  "xy_equals a b threshold =
     (if threshold = 0 then xc a = xc b \<and> yc a = yc b
      else \<bar>xc a - xc b\<bar> \<le> threshold \<and> \<bar>yc a - yc b\<bar> \<le> threshold)"

definition xy_isZero :: "xy \<Rightarrow> bool" where "xy_isZero c = xy_equals c XY_ZERO 0"

definition xy_scale :: "xy \<Rightarrow> xy \<Rightarrow> xy" where
  "xy_scale p s = \<lparr>xc = xc p * xc s, yc = yc p * yc s\<rparr>"

definition translateX :: "xy \<Rightarrow> rat \<Rightarrow> xy" where "translateX c v = \<lparr>xc = xc c + v, yc = yc c\<rparr>"
definition translateY :: "xy \<Rightarrow> rat \<Rightarrow> xy" where "translateY c v = \<lparr>xc = xc c, yc = yc c + v\<rparr>"

definition xy_translate :: "xy list \<Rightarrow> xy" where
  "xy_translate cs = foldl (\<lambda>p c. \<lparr>xc = xc p + xc c, yc = yc p + yc c\<rparr>) XY_ZERO cs"

definition xy_set :: "xy \<Rightarrow> direction \<Rightarrow> rat \<Rightarrow> xy" where
  "xy_set c d v = (if d = DirX then \<lparr>xc = v, yc = yc c\<rparr> else \<lparr>xc = xc c, yc = v\<rparr>)"

definition xy_translation :: "xy \<Rightarrow> xy \<Rightarrow> xy" where
  "xy_translation to0 from0 = \<lparr>xc = xc from0 - xc to0, yc = yc from0 - yc to0\<rparr>"

definition xy_sub :: "xy \<Rightarrow> xy \<Rightarrow> xy" where
  "xy_sub a b = \<lparr>xc = xc a - xc b, yc = yc a - yc b\<rparr>"

definition xy_average :: "xy list \<Rightarrow> xy" where
  "xy_average cs =
     (let total = foldl (\<lambda>p c. xy_translate [p, c]) XY_ZERO cs; f = 1 / of_nat (length cs)
      in xy_scale total \<lparr>xc = f, yc = f\<rparr>)"

definition xy_swap :: "xy \<Rightarrow> xy" where "xy_swap a = \<lparr>xc = yc a, yc = xc a\<rparr>"

definition DIMS_ZERO :: dimensions where "DIMS_ZERO = \<lparr>width_of = 0, height_of = 0\<rparr>"

definition dims_equals :: "dimensions \<Rightarrow> dimensions option \<Rightarrow> bool" where
  "dims_equals a b = (case b of None \<Rightarrow> False | Some b' \<Rightarrow> width_of a = width_of b' \<and> height_of a = height_of b')"

definition dims_swap :: "dimensions \<Rightarrow> dimensions" where
  "dims_swap a = \<lparr>width_of = height_of a, height_of = width_of a\<rparr>"

definition dims_scale :: "dimensions \<Rightarrow> rat \<Rightarrow> dimensions" where
  "dims_scale a factor = \<lparr>width_of = width_of a * factor, height_of = height_of a * factor\<rparr>"

section \<open>Boxes\<close>

record box =
  b_one :: xy
  b_two :: xy
  b_root :: xy_location

definition BOX_ZERO :: box where "BOX_ZERO = \<lparr>b_one = XY_ZERO, b_two = XY_ZERO, b_root = TOP_LEFT\<rparr>"
definition BOX_DECIMAL :: box where "BOX_DECIMAL = \<lparr>b_one = XY_ZERO, b_two = XY_ONE, b_root = BOTTOM_LEFT\<rparr>"

definition box_copy :: "box \<Rightarrow> xy_location option \<Rightarrow> box" where
  "box_copy b r = b\<lparr>b_root := (case r of Some r' \<Rightarrow> r' | None \<Rightarrow> b_root b)\<rparr>"

text \<open>The forms of the constructor: four numbers, a point and dimensions, and two points.\<close>

definition box_of_numbers :: "rat \<Rightarrow> rat \<Rightarrow> rat \<Rightarrow> rat \<Rightarrow> xy_location \<Rightarrow> box" where
  "box_of_numbers x y w h r = \<lparr>b_one = \<lparr>xc = x, yc = y\<rparr>, b_two = \<lparr>xc = x + w, yc = y + h\<rparr>, b_root = r\<rparr>"

definition box_of_dims :: "xy \<Rightarrow> dimensions \<Rightarrow> xy_location \<Rightarrow> box" where
  "box_of_dims p d r = \<lparr>b_one = p, b_two = \<lparr>xc = xc p + width_of d, yc = yc p + height_of d\<rparr>, b_root = r\<rparr>"

definition box_of_points :: "xy \<Rightarrow> xy \<Rightarrow> xy_location \<Rightarrow> box" where
  "box_of_points p q r = \<lparr>b_one = p, b_two = q, b_root = r\<rparr>"

definition box_loc :: "box \<Rightarrow> location \<Rightarrow> rat" where
  "box_loc b l =
     (let f = (if l \<in> set (xyCouple (b_root b)) then min else max)
      in if l \<in> set X_LOCATIONS then f (xc (b_one b)) (xc (b_two b)) else f (yc (b_one b)) (yc (b_two b)))"

abbreviation right :: "box \<Rightarrow> rat" where "right b \<equiv> box_loc b RightLoc"
abbreviation bottom :: "box \<Rightarrow> rat" where "bottom b \<equiv> box_loc b BottomLoc"
abbreviation left :: "box \<Rightarrow> rat" where "left b \<equiv> box_loc b LeftLoc"
abbreviation top_side :: "box \<Rightarrow> rat" where "top_side b \<equiv> box_loc b TopLoc"

definition signedWidth :: "box \<Rightarrow> rat" where "signedWidth b = xc (b_two b) - xc (b_one b)"
definition signedHeight :: "box \<Rightarrow> rat" where "signedHeight b = yc (b_two b) - yc (b_one b)"

definition dim :: "box \<Rightarrow> crude_location \<Rightarrow> bool \<Rightarrow> rat" where
  "dim b dir signed =
     (let d = (if direction_construct dir = DirY then signedHeight b else signedWidth b) in if signed then d else \<bar>d\<bar>)"

definition width :: "box \<Rightarrow> rat" where "width b = dim b (OfDirection DirX) False"
definition height :: "box \<Rightarrow> rat" where "height b = dim b (OfDirection DirY) False"

definition dims :: "box \<Rightarrow> dimensions" where "dims b = \<lparr>width_of = width b, height_of = height b\<rparr>"

definition resize_dims :: "box \<Rightarrow> dimensions \<Rightarrow> box" where
  "resize_dims b d = box_of_dims (b_one b) d (b_root b)"

definition resize_direction :: "box \<Rightarrow> direction \<Rightarrow> rat option \<Rightarrow> box result" where
  "resize_direction b dir amount =
     (case amount of
        None \<Rightarrow> throw ''Invalid arguments for resize''
      | Some a \<Rightarrow>
          return (box_of_dims (b_one b)
            \<lparr>width_of = (if dir = DirX then a else width b), height_of = (if dir = DirY then a else height b)\<rparr> (b_root b)))"

definition box_comp :: "bool \<Rightarrow> rat \<Rightarrow> rat \<Rightarrow> bool" where
  "box_comp inclusive a b = (if inclusive then a \<le> b else a < b)"

definition box_contains_box :: "box \<Rightarrow> box \<Rightarrow> bool \<Rightarrow> bool" where
  "box_contains_box b v inclusive \<longleftrightarrow>
     box_comp inclusive (left b) (left v) \<and> box_comp inclusive (right v) (right b) \<and>
     box_comp inclusive (top_side b) (top_side v) \<and> box_comp inclusive (bottom v) (bottom b)"

definition box_contains_xy :: "box \<Rightarrow> xy \<Rightarrow> bool \<Rightarrow> bool" where
  "box_contains_xy b v inclusive \<longleftrightarrow>
     box_comp inclusive (left b) (xc v) \<and> box_comp inclusive (xc v) (right b) \<and>
     box_comp inclusive (top_side b) (yc v) \<and> box_comp inclusive (yc v) (bottom b)"

definition box_equals :: "box \<Rightarrow> box \<Rightarrow> bool" where
  "box_equals a b \<longleftrightarrow> xy_equals (b_one a) (b_one b) 0 \<and> xy_equals (b_two a) (b_two b) 0 \<and> xyEquals (b_root a) (b_root b)"

definition areaIsZero :: "box \<Rightarrow> bool" where
  "areaIsZero b \<longleftrightarrow> xc (b_one b) = xc (b_two b) \<and> yc (b_one b) = yc (b_two b)"

definition center :: "box \<Rightarrow> xy" where
  "center b = xy_translate [\<lparr>xc = left b, yc = top_side b\<rparr>, \<lparr>xc = signedWidth b / 2, yc = signedHeight b / 2\<rparr>, XY_ZERO]"

definition xyLoc :: "box \<Rightarrow> xy_location \<Rightarrow> xy" where
  "xyLoc b l =
     \<lparr>xc = (if loc_x l = CenterLoc then xc (center b) else box_loc b (loc_x l)),
      yc = (if loc_y l = CenterLoc then yc (center b) else box_loc b (loc_y l))\<rparr>"

definition topLeft :: "box \<Rightarrow> xy" where "topLeft b = xyLoc b TOP_LEFT"
definition topCenter :: "box \<Rightarrow> xy" where "topCenter b = xyLoc b TOP_CENTER"
definition topRight :: "box \<Rightarrow> xy" where "topRight b = xyLoc b TOP_RIGHT"
definition bottomLeft :: "box \<Rightarrow> xy" where "bottomLeft b = xyLoc b BOTTOM_LEFT"
definition bottomCenter :: "box \<Rightarrow> xy" where "bottomCenter b = xyLoc b BOTTOM_CENTER"
definition bottomRight :: "box \<Rightarrow> xy" where "bottomRight b = xyLoc b BOTTOM_RIGHT"
definition centerLeft :: "box \<Rightarrow> xy" where "centerLeft b = xyLoc b LEFT_CENTER"
definition centerRight :: "box \<Rightarrow> xy" where "centerRight b = xyLoc b RIGHT_CENTER"

definition box_x :: "box \<Rightarrow> rat" where "box_x b = (if loc_x (b_root b) = LeftLoc then left b else right b)"
definition box_y :: "box \<Rightarrow> rat" where "box_y b = (if loc_y (b_root b) = TopLoc then top_side b else bottom b)"

definition xBounds :: "box \<Rightarrow> rat bounds" where "xBounds b = \<lparr>lower = xc (b_one b), upper = xc (b_two b)\<rparr>"
definition yBounds :: "box \<Rightarrow> rat bounds" where "yBounds b = \<lparr>lower = yc (b_one b), upper = yc (b_two b)\<rparr>"

definition reRoot :: "box \<Rightarrow> xy_location \<Rightarrow> box" where "reRoot b corner = box_copy b (Some corner)"

definition edgePoints :: "box \<Rightarrow> location \<Rightarrow> (xy \<times> xy) result" where
  "edgePoints b l =
     (let f = (if l = TopLoc \<or> l = LeftLoc then min else max)
      in if l \<in> set X_LOCATIONS then
           (let v = f (xc (b_one b)) (xc (b_two b)) in return ((b_one b)\<lparr>xc := v\<rparr>, (b_two b)\<lparr>xc := v\<rparr>))
         else if l \<in> set Y_LOCATIONS then
           (let v = f (yc (b_one b)) (yc (b_two b)) in return ((b_one b)\<lparr>yc := v\<rparr>, (b_two b)\<lparr>yc := v\<rparr>))
         else throw ''Invalid location'')"

definition positionInCenter :: "box \<Rightarrow> box \<Rightarrow> box" where
  "positionInCenter target bound =
     box_of_dims
       \<lparr>xc = box_x bound + (width bound - width target) / 2, yc = box_y bound + (height bound - height target) / 2\<rparr>
       (dims target) TOP_LEFT"

definition box_translate :: "box \<Rightarrow> xy \<Rightarrow> box" where
  "box_translate b t = box_of_points (xy_translate [b_one b, t, XY_ZERO]) (xy_translate [b_two b, t, XY_ZERO]) (b_root b)"

definition box_translate_direction :: "box \<Rightarrow> direction \<Rightarrow> rat option \<Rightarrow> box result" where
  "box_translate_direction b d amount =
     (case amount of
        None \<Rightarrow> throw ''Undefined amount passed into box.translate''
      | Some a \<Rightarrow> bind_result (xy_construct_direction d (Some a)) (\<lambda>t. return (box_translate b t)))"

definition intersection :: "box \<Rightarrow> box \<Rightarrow> box" where
  "intersection a b =
     (let x = max (left a) (left b); y = max (top_side a) (top_side b);
          x2 = min (right a) (right b); y2 = min (bottom a) (bottom b)
      in if x > x2 \<or> y > y2 then BOX_ZERO
         else box_of_points \<lparr>xc = x, yc = y\<rparr> \<lparr>xc = x2, yc = y2\<rparr> (b_root a))"

definition area :: "box \<Rightarrow> rat" where "area b = width b * height b"

definition shift_root :: "location \<Rightarrow> location \<Rightarrow> rat \<Rightarrow> rat" where
  "shift_root cur new extent = (if cur \<noteq> new then (if cur = CenterLoc then extent / 2 else extent) else 0)"

definition constructWithAlternateRoot :: "rat \<Rightarrow> rat \<Rightarrow> rat \<Rightarrow> rat \<Rightarrow> xy_location \<Rightarrow> xy_location \<Rightarrow> box" where
  "constructWithAlternateRoot x y w h currRoot newRoot =
     (let dx = shift_root (loc_x currRoot) (loc_x newRoot) w; dy = shift_root (loc_y currRoot) (loc_y newRoot) h
      in box_of_points \<lparr>xc = x - dx, yc = y - dy\<rparr> \<lparr>xc = x + w - dx, yc = y + h - dy\<rparr> newRoot)"

section \<open>Placing a dialog\<close>

definition parseLocationOptions :: "location_match option \<Rightarrow> partial_location" where
  "parseLocationOptions initial =
     (case initial of
        None \<Rightarrow> \<lparr>part_x = Some None, part_y = Some None\<rparr>
      | Some (MatchPartial p) \<Rightarrow> p
      | Some (MatchLocation l) \<Rightarrow>
          if direction_construct (OfLocation l) = DirX then \<lparr>part_x = Some (Some l), part_y = Some None\<rparr>
          else \<lparr>part_x = Some None, part_y = Some (Some l)\<rparr>)"

definition part_is_null :: "location option option \<Rightarrow> bool" where
  "part_is_null p \<longleftrightarrow> p = None \<or> p = Some None"

fun X_ALIGNMENT_MAP :: "alignment \<Rightarrow> location" where
  "X_ALIGNMENT_MAP StartAlign = LeftLoc"
| "X_ALIGNMENT_MAP CenterAlign = CenterLoc"
| "X_ALIGNMENT_MAP EndAlign = RightLoc"

fun Y_ALIGNMENT_MAP :: "alignment \<Rightarrow> location" where
  "Y_ALIGNMENT_MAP StartAlign = BottomLoc"
| "Y_ALIGNMENT_MAP CenterAlign = CenterLoc"
| "Y_ALIGNMENT_MAP EndAlign = TopLoc"

definition getRoot :: "xy_location \<Rightarrow> alignment \<Rightarrow> xy_location" where
  "getRoot opt al =
     (if loc_y opt \<noteq> CenterLoc then
        \<lparr>loc_x = (let v = X_ALIGNMENT_MAP al in if loc_x opt = LeftLoc then location_swap (OfLocation v) else v),
         loc_y = location_swap (OfLocation (loc_y opt))\<rparr>
      else \<lparr>loc_x = location_swap (OfLocation (loc_x opt)), loc_y = Y_ALIGNMENT_MAP al\<rparr>)"

definition evaluateOption :: "box \<Rightarrow> box \<Rightarrow> box \<Rightarrow> xy_location \<times> alignment \<Rightarrow> box \<times> rat" where
  "evaluateOption container target dialog0 oa =
     (let rt = getRoot (fst oa) (snd oa); p = xyLoc target (fst oa);
          dialogBox = constructWithAlternateRoot (xc p) (yc p) (width dialog0) (height dialog0) rt TOP_LEFT
      in (dialogBox, area (intersection dialogBox container)))"

text \<open>
  The order of the options: a stable sort by the position of the first preference that matches,
  those without a match last.
\<close>

definition preference_rank :: "location_match list \<Rightarrow> xy_location \<Rightarrow> nat" where
  "preference_rank prefer l =
     (case find_index (\<lambda>p. xyMatches l (MatchPartial (parseLocationOptions (Some p)))) prefer of
        Some i \<Rightarrow> i | None \<Rightarrow> length prefer)"

definition dialog_options ::
    "location_match option \<Rightarrow> location_match list option \<Rightarrow> alignment list \<Rightarrow> location_match list \<Rightarrow>
     (xy_location \<times> alignment) list" where
  "dialog_options initial prefer alignments disable =
     (let initialLocs = parseLocationOptions initial;
          options = (case prefer of None \<Rightarrow> XY_LOCATIONS | Some ps \<Rightarrow> sort_key (preference_rank ps) XY_LOCATIONS)
      in concat (map (\<lambda>l. map (\<lambda>a. (l, a)) alignments)
           (filter (\<lambda>l. \<not> xyEquals l CENTER \<and> (part_is_null (part_x initialLocs) \<or> Some (Some (loc_x l)) = part_x initialLocs) \<and>
                (part_is_null (part_y initialLocs) \<or> Some (Some (loc_y l)) = part_y initialLocs) \<and>
                \<not> list_ex (xyMatches l) disable) options)))"

text \<open>The search for the best option; \<open>None\<close> is the area \<open>-Infinity\<close> of no option.\<close>

fun best_option ::
    "(xy_location \<times> alignment \<Rightarrow> box \<times> rat) \<Rightarrow> (xy_location \<times> alignment) list \<Rightarrow>
     rat option \<Rightarrow> xy_location \<times> box \<Rightarrow> xy_location \<times> box" where
  "best_option ev [] best res = res"
| "best_option ev (oa # rest) best res =
     (let (adjusted, a) = ev oa
      in if (case best of None \<Rightarrow> True | Some m \<Rightarrow> a > m) then best_option ev rest (Some a) (fst oa, adjusted)
         else best_option ev rest best res)"

definition dialog ::
    "box \<Rightarrow> box \<Rightarrow> box \<Rightarrow> location_match option \<Rightarrow> location_match list option \<Rightarrow> alignment list \<Rightarrow>
     location_match list \<Rightarrow> xy_location \<times> box" where
  "dialog container target dialog0 initial prefer alignments disable =
     best_option (evaluateOption container target dialog0) (dialog_options initial prefer alignments disable) None
       (CENTER, dialog0)"

section \<open>Facts\<close>

lemmas box_simps = box_loc_def xyCouple_def X_LOCATIONS_def Y_LOCATIONS_def corner_defs width_def height_def dim_def
  signedWidth_def signedHeight_def direction_construct_def box_of_dims_def box_of_points_def

text \<open>A box with its root in the top left, as in pixel space: the first point is the top left corner.\<close>

definition pixel_box :: "box \<Rightarrow> bool" where
  "pixel_box b \<longleftrightarrow> b_root b = TOP_LEFT \<and> xc (b_one b) \<le> xc (b_two b) \<and> yc (b_one b) \<le> yc (b_two b)"

lemma pixel_sides:
  assumes "pixel_box b"
  shows "left b = xc (b_one b)" "right b = xc (b_two b)" "top_side b = yc (b_one b)" "bottom b = yc (b_two b)"
    and "width b = xc (b_two b) - xc (b_one b)" "height b = yc (b_two b) - yc (b_one b)"
  using assms by (simp_all add: pixel_box_def box_simps)

lemma pixel_center:
  assumes "pixel_box b"
  shows "center b = \<lparr>xc = (xc (b_one b) + xc (b_two b)) / 2, yc = (yc (b_one b) + yc (b_two b)) / 2\<rparr>"
  by (simp add: center_def pixel_sides [OF assms] signedWidth_def signedHeight_def xy_translate_def XY_ZERO_def field_simps)

text \<open>The search keeps the first option of the largest area.\<close>

lemma best_option_spec:
  assumes "\<forall>m. best = Some m \<longrightarrow> snd res = fst (ev prev) \<and> m = snd (ev prev)" and "os \<noteq> [] \<or> best \<noteq> None"
  shows "\<exists>oa\<in>set os \<union> {oa. best \<noteq> None \<and> oa = prev}. snd (best_option ev os best res) = fst (ev oa) \<and>
    (\<forall>oa'\<in>set os. snd (ev oa') \<le> snd (ev oa)) \<and> (\<forall>m. best = Some m \<longrightarrow> m \<le> snd (ev oa))"
  using assms
proof (induction os arbitrary: best res prev)
  case (Cons x os)
  show ?case
  proof (cases "case best of None \<Rightarrow> True | Some m \<Rightarrow> snd (ev x) > m")
    case True
    then have eq: "best_option ev (x # os) best res = best_option ev os (Some (snd (ev x))) (fst x, fst (ev x))"
      by (simp add: case_prod_beta)
    have "\<exists>oa\<in>set os \<union> {oa. Some (snd (ev x)) \<noteq> None \<and> oa = x}.
        snd (best_option ev os (Some (snd (ev x))) (fst x, fst (ev x))) = fst (ev oa) \<and>
        (\<forall>oa'\<in>set os. snd (ev oa') \<le> snd (ev oa)) \<and> (\<forall>m. Some (snd (ev x)) = Some m \<longrightarrow> m \<le> snd (ev oa))"
      by (rule Cons.IH) auto
    then obtain oa where oa: "oa \<in> set os \<union> {oa. Some (snd (ev x)) \<noteq> None \<and> oa = x}"
      "snd (best_option ev (x # os) best res) = fst (ev oa)"
      "\<forall>oa'\<in>set os. snd (ev oa') \<le> snd (ev oa)" "\<forall>m. Some (snd (ev x)) = Some m \<longrightarrow> m \<le> snd (ev oa)"
      unfolding eq by blast
    have oa': "oa \<in> set (x # os)" "snd (ev x) \<le> snd (ev oa)" using oa(1,4) by auto
    have "\<forall>m. best = Some m \<longrightarrow> m \<le> snd (ev oa)" using True oa'(2) by (auto split: option.splits)
    then show ?thesis using oa(2,3) oa' by (intro bexI [of _ oa]) auto
  next
    case False
    then obtain m0 where m0: "best = Some m0" "snd (ev x) \<le> m0" by (auto split: option.splits)
    then have eq: "best_option ev (x # os) best res = best_option ev os best res"
      by (simp add: case_prod_beta)
    obtain oa where "oa \<in> set os \<union> {oa. best \<noteq> None \<and> oa = prev}" "snd (best_option ev os best res) = fst (ev oa)"
      "\<forall>oa'\<in>set os. snd (ev oa') \<le> snd (ev oa)" "\<forall>m. best = Some m \<longrightarrow> m \<le> snd (ev oa)"
      using Cons.IH [OF Cons.prems(1)] m0(1) by blast
    then show ?thesis unfolding eq using m0 by (intro bexI [of _ oa]) auto
  qed
qed auto

section \<open>Properties\<close>

text \<open>
  For boxes rooted in the top left, as pixel boxes are, the intersection of two boxes that meet
  contains exactly the points in both, and centring a box in another keeps its size and puts its centre
  on the centre of the other. For a box rooted elsewhere \<open>center\<close> is wrong: that of the
  unit box \<open>DECIMAL\<close> comes out at (1/2, 3/2).
\<close>

theorem box_intersection_and_center:
  assumes "pixel_box a" and "pixel_box b"
  shows "(\<forall>p. box_contains_xy a p True \<and> box_contains_xy b p True \<longrightarrow> box_contains_xy (intersection a b) p True) \<and>
    ((\<exists>p. box_contains_xy a p True \<and> box_contains_xy b p True) \<longrightarrow>
      (\<forall>p. box_contains_xy (intersection a b) p True \<longrightarrow> box_contains_xy a p True \<and> box_contains_xy b p True)) \<and>
    center (positionInCenter a b) = center b \<and> dims (positionInCenter a b) = dims a \<and>
    center BOX_DECIMAL = \<lparr>xc = 1 / 2, yc = 3 / 2\<rparr>"
proof -
  note s = pixel_sides [OF assms(1)] pixel_sides [OF assms(2)]
  let ?x = "max (xc (b_one a)) (xc (b_one b))" and ?y = "max (yc (b_one a)) (yc (b_one b))"
  let ?x2 = "min (xc (b_two a)) (xc (b_two b))" and ?y2 = "min (yc (b_two a)) (yc (b_two b))"
  have iff: "box_contains_xy a p True \<and> box_contains_xy b p True \<longleftrightarrow> ?x \<le> xc p \<and> xc p \<le> ?x2 \<and> ?y \<le> yc p \<and> yc p \<le> ?y2" for p
    by (auto simp: box_contains_xy_def box_comp_def s)
  have inter: "box_contains_xy (intersection a b) q True \<longleftrightarrow> ?x \<le> xc q \<and> xc q \<le> ?x2 \<and> ?y \<le> yc q \<and> yc q \<le> ?y2"
    if "?x \<le> ?x2" "?y \<le> ?y2" for q
  proof -
    let ?i = "box_of_points \<lparr>xc = ?x, yc = ?y\<rparr> \<lparr>xc = ?x2, yc = ?y2\<rparr> (b_root a)"
    have "intersection a b = ?i" unfolding intersection_def s Let_def using that by (simp only: not_less [symmetric]) simp
    moreover have "pixel_box ?i" using that assms(1) by (simp add: pixel_box_def box_of_points_def)
    ultimately show ?thesis by (simp add: box_contains_xy_def box_comp_def pixel_sides) (simp add: box_of_points_def)
  qed
  have meet: "?x \<le> ?x2 \<and> ?y \<le> ?y2" if "box_contains_xy a p True \<and> box_contains_xy b p True" for p
    using that unfolding iff by (meson order_trans)
  have pc: "pixel_box (positionInCenter a b)"
    using assms by (simp add: positionInCenter_def pixel_box_def box_of_dims_def dims_def s)
  have "center (positionInCenter a b) = center b"
    unfolding pixel_center [OF pc] pixel_center [OF assms(2)]
    using assms by (simp add: positionInCenter_def box_of_dims_def dims_def s box_x_def box_y_def pixel_box_def
        corner_defs field_simps)
  moreover have "dims (positionInCenter a b) = dims a"
    unfolding dims_def [of "positionInCenter a b"] pixel_sides(5,6) [OF pc]
    by (simp add: positionInCenter_def box_of_dims_def dims_def)
  moreover have "center BOX_DECIMAL = \<lparr>xc = 1 / 2, yc = 3 / 2\<rparr>"
    by (simp add: BOX_DECIMAL_def center_def box_simps xy_translate_def XY_ZERO_def XY_ONE_def)
  ultimately show ?thesis using iff inter meet by blast
qed

lemma box_intersection_and_center_witness:
  "center (positionInCenter (box_of_numbers 7 7 10 20 TOP_LEFT) (box_of_numbers 0 0 100 100 TOP_LEFT)) =
   \<lparr>xc = 50, yc = 50\<rparr>"
proof -
  have p: "pixel_box (box_of_numbers 7 7 10 20 TOP_LEFT)" "pixel_box (box_of_numbers 0 0 100 100 TOP_LEFT)"
    by (simp_all add: pixel_box_def box_of_numbers_def)
  have "center (box_of_numbers 0 0 100 100 TOP_LEFT) = \<lparr>xc = 50, yc = 50\<rparr>"
    unfolding pixel_center [OF p(2)] by (simp add: box_of_numbers_def)
  with box_intersection_and_center [OF p] show ?thesis by simp
qed

text \<open>
  A dialog is placed where most of it is visible: if any option is left, the box that is returned
  is that of an option, and no option has a larger part inside the container; with no option left the
  dialog stays where it is.  A preference given as an outer location matches no option, so it does not
  change the order.
\<close>

theorem dialog_placement:
  "(if dialog_options initial prefer alignments disable = [] then
      dialog container target d initial prefer alignments disable = (CENTER, d)
    else \<exists>oa\<in>set (dialog_options initial prefer alignments disable).
      snd (dialog container target d initial prefer alignments disable) = fst (evaluateOption container target d oa) \<and>
      (\<forall>oa'\<in>set (dialog_options initial prefer alignments disable).
         snd (evaluateOption container target d oa') \<le> snd (evaluateOption container target d oa))) \<and>
   dialog_options initial (Some [MatchLocation l]) alignments disable = dialog_options initial None alignments disable"
proof -
  let ?ev = "evaluateOption container target d"
  have "xyMatches a (MatchPartial (parseLocationOptions (Some (MatchLocation l)))) \<longleftrightarrow> False" for a
    by (simp add: xyMatches_def parseLocationOptions_def)
  then have "preference_rank [MatchLocation l] = (\<lambda>_. 1)" by (simp add: preference_rank_def fun_eq_iff)
  moreover have "sort_key (\<lambda>_. 1 :: nat) xs = xs" for xs :: "xy_location list"
    by (rule sort_key_id_if_sorted) (simp add: sorted_map)
  ultimately have "dialog_options initial (Some [MatchLocation l]) alignments disable =
      dialog_options initial None alignments disable"
    by (simp add: dialog_options_def)
  moreover have "\<exists>oa\<in>set os. snd (best_option ?ev os None (CENTER, d)) = fst (?ev oa) \<and>
      (\<forall>oa'\<in>set os. snd (?ev oa') \<le> snd (?ev oa))" if "os \<noteq> []" for os
    using best_option_spec [of None "(CENTER, d)" ?ev undefined os] that by auto
  ultimately show ?thesis by (auto simp: dialog_def)
qed

theorem dialog_placement_witness:
  "\<exists>oa\<in>set (dialog_options None None [StartAlign] []).
     snd (dialog BOX_DECIMAL BOX_DECIMAL BOX_DECIMAL None None [StartAlign] []) =
       fst (evaluateOption BOX_DECIMAL BOX_DECIMAL BOX_DECIMAL oa)"
proof -
  have "dialog_options None None [StartAlign] [] \<noteq> []"
    by (simp add: dialog_options_def XY_LOCATIONS_def corner_defs xyEquals_def parseLocationOptions_def part_is_null_def)
  then show ?thesis
    using dialog_placement [of None None "[StartAlign]" "[]" BOX_DECIMAL BOX_DECIMAL BOX_DECIMAL TopLoc] by auto
qed

end
