(* ===== verification/Mosaic.thy ===== *)
theory Mosaic
  imports Spatial
begin

text \<open>
  The window mosaic of \<open>pluto/src/mosaic/tree.ts\<close>: a binary tree whose leaves hold tabs.  Every
  function first takes a deep copy and then changes the copy in place; here a reference into the
  copy is a path from its root, and a change is an update at that path.  Node keys are JavaScript
  numbers, because collecting a node can halve an odd key.
\<close>

section \<open>Tabs\<close>

record tab =
  tabKey :: string
  name :: string
  closable :: "bool option"
  icon :: "string option"
  editable :: "bool option"
  visible :: "bool option"
  unsavedChanges :: "bool option"
  content :: "string option"

definition find_tab :: "string \<Rightarrow> tab list \<Rightarrow> tab option" where
  "find_tab tk ts = find (\<lambda>t. tabKey t = tk) ts"

definition resetSelection :: "string option \<Rightarrow> tab list option \<Rightarrow> string option" where
  "resetSelection selected0 tabs0 =
     (let selected = (case selected0 of None \<Rightarrow> '''' | Some s \<Rightarrow> s);
          tabs = (case tabs0 of None \<Rightarrow> [] | Some ts \<Rightarrow> ts)
      in if length tabs = 0 then None
         else if find_tab selected tabs \<noteq> None then Some selected
         else Some (tabKey (last tabs)))"

definition is_space :: "char \<Rightarrow> bool" where
  "is_space c \<longleftrightarrow> of_char c \<in> {9, 10, 11, 12, 13, 32, 160 :: nat}"

definition trim :: "string \<Rightarrow> string" where
  "trim s = rev (dropWhile is_space (rev (dropWhile is_space s)))"

definition rename :: "string \<Rightarrow> string \<Rightarrow> tab list \<Rightarrow> tab list" where
  "rename key name0 tabs =
     (let name1 = trim name0
      in if length name1 = 0 then tabs
         else case find_tab key tabs of
           None \<Rightarrow> tabs
         | Some t \<Rightarrow>
             if name t = name1 then tabs
             else map (\<lambda>t. if tabKey t = key then t\<lparr>name := name1\<rparr> else t) tabs)"

section \<open>Nodes\<close>

datatype node =
  Node (node_key: rat) (node_tabs: "tab list option") (node_selected: "string option")
    (node_direction: "direction option") (node_first: "node option") (node_last: "node option")
    (node_size: "rat option")

definition leaf :: "rat \<Rightarrow> tab list \<Rightarrow> string option \<Rightarrow> node" where
  "leaf k ts sel = Node k (Some ts) sel None None None None"

fun child :: "order \<Rightarrow> node \<Rightarrow> node option" where
  "child First n = node_first n"
| "child Last n = node_last n"

fun set_child :: "order \<Rightarrow> node \<Rightarrow> node \<Rightarrow> node" where
  "set_child First c (Node k ts sel d a b z) = Node k ts sel d (Some c) b z"
| "set_child Last c (Node k ts sel d a b z) = Node k ts sel d a (Some c) z"

fun set_tabs :: "tab list option \<Rightarrow> node \<Rightarrow> node" where
  "set_tabs ts (Node k _ sel d a b z) = Node k ts sel d a b z"

fun set_selected :: "string option \<Rightarrow> node \<Rightarrow> node" where
  "set_selected sel (Node k ts _ d a b z) = Node k ts sel d a b z"

fun set_direction :: "direction option \<Rightarrow> node \<Rightarrow> node" where
  "set_direction d (Node k ts sel _ a b z) = Node k ts sel d a b z"

fun set_size :: "rat option \<Rightarrow> node \<Rightarrow> node" where
  "set_size z (Node k ts sel d a b _) = Node k ts sel d a b z"

fun set_key :: "rat \<Rightarrow> node \<Rightarrow> node" where
  "set_key k (Node _ ts sel d a b z) = Node k ts sel d a b z"

text \<open>The node a path leads to, and the tree with that node changed.\<close>

fun node_at :: "order list \<Rightarrow> node \<Rightarrow> node option" where
  "node_at [] n = Some n"
| "node_at (x # p) n = (case child x n of None \<Rightarrow> None | Some c \<Rightarrow> node_at p c)"

fun update_at :: "order list \<Rightarrow> (node \<Rightarrow> node) \<Rightarrow> node \<Rightarrow> node" where
  "update_at [] f n = f n"
| "update_at (x # p) f n = (case child x n of None \<Rightarrow> n | Some c \<Rightarrow> set_child x (update_at p f c) n)"

section \<open>Searching\<close>

fun findMosaicNode :: "node \<Rightarrow> rat \<Rightarrow> order list option" where
  "findMosaicNode (Node k ts sel d a b z) key =
     (if k = key then Some []
      else case (a, b) of
        (Some f, Some l) \<Rightarrow>
          (case findMosaicNode f key of
             Some p \<Rightarrow> Some (First # p)
           | None \<Rightarrow> map_option (\<lambda>p. Last # p) (findMosaicNode l key))
      | _ \<Rightarrow> None)"

text \<open>
  A negative key that is not in the tree is halved down to \<open>-1\<close> and then the recursion has
  no end: the engine throws.
\<close>

function findNodeOrAncestor :: "node \<Rightarrow> rat \<Rightarrow> order list result" where
  "findNodeOrAncestor n key =
     (case findMosaicNode n key of
        Some p \<Rightarrow> return p
      | None \<Rightarrow>
          let next = of_int \<lfloor>key / 2\<rfloor>
          in if next = 0 then return []
             else if next = key then throw ''RangeError: Maximum call stack size exceeded''
             else findNodeOrAncestor n next)"
  by pat_completeness auto
termination
proof (relation "measure (\<lambda>(n, key). nat (2 * \<lceil>\<bar>key\<bar>\<rceil> + (if key \<in> \<int> then 0 else 1)))", goal_cases)
  case (2 n key)
  define m where "m = \<lfloor>key / 2\<rfloor>"
  have ne: "m \<noteq> 0" "key \<noteq> of_int m" using 2 by (auto simp: m_def)
  have b: "of_int m \<le> key / 2" "key / 2 < of_int m + 1" unfolding m_def by linarith+
  have "2 * \<bar>m\<bar> < 2 * \<lceil>\<bar>key\<bar>\<rceil> + (if key \<in> \<int> then 0 else 1)"
  proof (cases "key < 0")
    case True
    then have m: "m \<le> -1" using b(1) by linarith
    have "- of_int m - 1 < \<bar>key\<bar> / 2" using True b by simp
    then have k: "of_int (2 * (- m - 1)) < \<bar>key\<bar>" by simp
    show ?thesis
    proof (cases "key \<in> \<int>")
      case True
      then obtain j where j: "key = of_int j" by (rule Ints_cases)
      with \<open>key < 0\<close> ne(2) k m show ?thesis by (simp add: j flip: of_int_abs) linarith
    next
      case False
      from k have "2 * (- m - 1) < \<lceil>\<bar>key\<bar>\<rceil>" by (simp only: less_ceiling_iff)
      moreover have "\<bar>m\<bar> \<le> c" if "2 * (- m - 1) < c" for c using m that by arith
      ultimately show ?thesis using False by simp
    qed
  next
    case False
    then have "of_int (2 * m) \<le> \<bar>key\<bar>" using b by simp
    then have "2 * m \<le> \<lceil>\<bar>key\<bar>\<rceil>" by linarith
    moreover have "0 \<le> m" using False by (simp add: m_def)
    ultimately show ?thesis using ne(1) by auto
  qed
  then show ?case by (simp add: 2(2) flip: of_int_abs m_def)
qed simp

declare findNodeOrAncestor.simps [simp del]

fun findTab :: "node \<Rightarrow> string \<Rightarrow> (tab \<times> order list) option" where
  "findTab (Node k ts sel d a b z) tk =
     (case Option.bind ts (find_tab tk) of
        Some t \<Rightarrow> Some (t, [])
      | None \<Rightarrow>
          (case (a, b) of
             (Some f, Some l) \<Rightarrow>
               (case findTab f tk of
                  Some (t, p) \<Rightarrow> Some (t, First # p)
                | None \<Rightarrow> map_option (\<lambda>(t, p). (t, Last # p)) (findTab l tk))
           | _ \<Rightarrow> None))"

fun findTabNode :: "node \<Rightarrow> string \<Rightarrow> order list option" where
  "findTabNode (Node k ts sel d a b z) tk =
     (case ts of
        Some ts' \<Rightarrow> if find_tab tk ts' \<noteq> None then Some [] else None
      | None \<Rightarrow>
          (case Option.bind a (\<lambda>f. findTabNode f tk) of
             Some p \<Rightarrow> Some (First # p)
           | None \<Rightarrow> map_option (\<lambda>p. Last # p) (Option.bind b (\<lambda>l. findTabNode l tk))))"

fun findSelected :: "node \<Rightarrow> string option" where
  "findSelected (Node k ts sel d a b z) =
     (if sel \<noteq> None then sel
      else case a of
        Some f \<Rightarrow> findSelected f
      | None \<Rightarrow> (case b of Some l \<Rightarrow> findSelected l | None \<Rightarrow> None))"

definition isEmpty :: "node \<Rightarrow> bool" where
  "isEmpty n = (case node_tabs n of Some ts \<Rightarrow> length ts = 0 | None \<Rightarrow> node_first n = None \<and> node_last n = None)"

text \<open>\<open>mapNodes\<close>; \<open>forEachNode\<close> visits the nodes in the same order.\<close>

fun mapNodes :: "(node \<Rightarrow> 'o) \<Rightarrow> node \<Rightarrow> 'o list" where
  "mapNodes f (Node k ts sel d a b z) =
     f (Node k ts sel d a b z) # (case a of Some x \<Rightarrow> mapNodes f x | None \<Rightarrow> []) @
     (case b of Some x \<Rightarrow> mapNodes f x | None \<Rightarrow> [])"

section \<open>Garbage collection\<close>

definition shouldGc :: "node \<Rightarrow> bool" where
  "shouldGc n \<longleftrightarrow> node_first n = None \<and> node_last n = None \<and> (case node_tabs n of None \<Rightarrow> True | Some ts \<Rightarrow> length ts = 0)"

definition liftUp :: "node \<Rightarrow> bool \<Rightarrow> node" where
  "liftUp n isLast = set_key ((node_key n - (if isLast then 1 else 0)) / 2) (set_size None n)"

fun gc_pass :: "node \<Rightarrow> node \<times> bool" where
  "gc_pass (Node k ts sel d a b z) =
     (case (a, b) of
        (Some f, Some l) \<Rightarrow>
          if shouldGc f then (liftUp l True, True)
          else if shouldGc l then (liftUp f False, True)
          else
            let (f', sGC) = gc_pass f; (l', eGC) = gc_pass l
            in (Node k ts sel d (Some f') (Some l') z, sGC \<or> eGC)
      | _ \<Rightarrow> (Node k ts sel d a b z, False))"

fun node_count :: "node \<Rightarrow> nat" where
  "node_count (Node k ts sel d a b z) =
     Suc ((case a of Some x \<Rightarrow> node_count x | None \<Rightarrow> 0) + (case b of Some x \<Rightarrow> node_count x | None \<Rightarrow> 0))"

lemma node_count_set [simp]:
  "node_count (set_key k n) = node_count n" "node_count (set_size z n) = node_count n"
  by (cases n; simp)+

lemma gc_pass_count: "node_count (fst (gc_pass n)) + (if snd (gc_pass n) then 1 else 0) \<le> node_count n"
proof (induction n rule: gc_pass.induct)
  case (1 k ts sel d a b z)
  then show ?case
    by (cases a; cases b) (fastforce simp: liftUp_def split: prod.splits if_splits)+
qed

function gc_loop :: "node \<Rightarrow> node" where
  "gc_loop n = (let (n', gced) = gc_pass n in if gced then gc_loop n' else n')"
  by pat_completeness auto
termination
proof (relation "measure node_count", goal_cases)
  case (2 n x n' gced)
  then show ?case using gc_pass_count [of n] by (cases "gc_pass n") simp
qed simp

declare gc_loop.simps [simp del]

definition gc :: "node \<Rightarrow> node" where
  "gc n = (let n' = gc_loop n in if node_first n' = None \<and> node_last n' = None then set_key 1 n' else n')"

section \<open>Operations\<close>

fun insertAnywhere :: "node \<Rightarrow> tab \<Rightarrow> node" where
  "insertAnywhere (Node k ts sel d a b z) t =
     (case ts of
        Some ts' \<Rightarrow> Node k (Some (ts' @ [t])) (Some (tabKey t)) d a b z
      | None \<Rightarrow>
          (case a of
             Some f \<Rightarrow> Node k ts sel d (Some (insertAnywhere f t)) b z
           | None \<Rightarrow>
               (case b of
                  Some l \<Rightarrow> Node k ts sel d a (Some (insertAnywhere l t)) z
                | None \<Rightarrow> Node k ts sel d a b z)))"

definition add_tab :: "tab \<Rightarrow> int option \<Rightarrow> node \<Rightarrow> node" where
  "add_tab t ix n =
     (let ts = (case node_tabs n of None \<Rightarrow> [] | Some ts \<Rightarrow> ts);
          ts' = (case ix of
                   Some i \<Rightarrow> if i \<ge> 0 \<and> i \<le> int (length ts) then splice_at (nat i) 0 [t] ts else ts @ [t]
                 | None \<Rightarrow> ts @ [t])
      in set_selected (Some (tabKey t)) (set_tabs (Some ts') n))"

definition insertCenter :: "node \<Rightarrow> tab \<Rightarrow> rat \<Rightarrow> int option \<Rightarrow> node result" where
  "insertCenter n t key ix = bind_result (findNodeOrAncestor n key) (\<lambda>p. return (update_at p (add_tab t ix) n))"

definition splitArrangement :: "location \<Rightarrow> (order \<times> order \<times> direction) result" where
  "splitArrangement loc =
     (case loc of
        TopLoc \<Rightarrow> return (First, Last, DirY)
      | LeftLoc \<Rightarrow> return (First, Last, DirX)
      | BottomLoc \<Rightarrow> return (Last, First, DirY)
      | RightLoc \<Rightarrow> return (Last, First, DirX)
      | CenterLoc \<Rightarrow> throw ''cannot split a center placed tab'')"

text \<open>The node with its tabs moved to one child and the new tab in the other.\<close>

definition split_with :: "tab \<Rightarrow> order \<Rightarrow> order \<Rightarrow> direction \<Rightarrow> node \<Rightarrow> node" where
  "split_with t insertOrder siblingOrder dir n =
     (let k = node_key n;
          child_key = (\<lambda>x. case x of First \<Rightarrow> k * 2 | Last \<Rightarrow> k * 2 + 1);
          n1 = set_direction (Some dir) n;
          n2 = set_child insertOrder (Node (child_key insertOrder) (Some [t]) (Some (tabKey t)) None None None None) n1;
          n3 = set_child siblingOrder (Node (child_key siblingOrder) (node_tabs n) (node_selected n) None None None None) n2
      in set_selected None (set_size None (set_tabs None n3)))"

definition insertTab :: "node \<Rightarrow> tab \<Rightarrow> location \<Rightarrow> rat option \<Rightarrow> int option \<Rightarrow> node result" where
  "insertTab n t loc key0 ix =
     (case key0 of
        None \<Rightarrow> return (insertAnywhere n t)
      | Some key \<Rightarrow>
          if loc = CenterLoc then insertCenter n t key ix
          else
            bind_result (findNodeOrAncestor n key) (\<lambda>p.
              let node = the (node_at p n);
                  potentialChildKey =
                    (if loc = TopLoc \<or> loc = LeftLoc then node_key node * 2 else node_key node * 2 + 1)
              in bind_result (findNodeOrAncestor n potentialChildKey) (\<lambda>q.
                   if node_key (the (node_at q n)) \<noteq> node_key node then insertCenter n t potentialChildKey None
                   else if node_tabs node = None \<or> node_tabs node = Some [] then insertCenter n t key None
                   else bind_result (splitArrangement loc) (\<lambda>(insertOrder, siblingOrder, dir).
                          return (update_at p (split_with t insertOrder siblingOrder dir) n)))))"

definition updateTab :: "node \<Rightarrow> string \<Rightarrow> (tab \<Rightarrow> tab) \<Rightarrow> node result" where
  "updateTab n tk updater =
     (case findTab n tk of
        None \<Rightarrow> throw ''Tab not found''
      | Some (t, p) \<Rightarrow>
          return (update_at p (\<lambda>m. set_tabs (map_option (map (\<lambda>t. if tabKey t = tk then updater t else t)) (node_tabs m)) m) n))"

fun autoSelectTabs :: "node \<Rightarrow> node \<times> string list" where
  "autoSelectTabs (Node k ts sel d a b z) =
     (let sel' = (case ts of Some _ \<Rightarrow> resetSelection sel ts | None \<Rightarrow> sel);
          own = (case ts of Some _ \<Rightarrow> (case sel' of Some s \<Rightarrow> [s] | None \<Rightarrow> []) | None \<Rightarrow> []);
          (a', s1) = (case a of None \<Rightarrow> (None, []) | Some f \<Rightarrow> let (f', s) = autoSelectTabs f in (Some f', s));
          (b', s2) = (case b of None \<Rightarrow> (None, []) | Some l \<Rightarrow> let (l', s) = autoSelectTabs l in (Some l', s))
      in (Node k ts sel' d a' b' z, own @ s1 @ s2))"

definition drop_tab :: "string \<Rightarrow> node \<Rightarrow> node" where
  "drop_tab tk n =
     (let ts = map_option (filter (\<lambda>t. tabKey t \<noteq> tk)) (node_tabs n)
      in set_selected (resetSelection (node_selected n) ts) (set_tabs ts n))"

definition removeTab :: "node \<Rightarrow> string \<Rightarrow> node \<times> string option" where
  "removeTab n tk =
     (case findTab n tk of
        None \<Rightarrow> (n, None)
      | Some (t, p) \<Rightarrow>
          let sel = node_selected (drop_tab tk (the (node_at p n)));
              n' = gc (update_at p (drop_tab tk) n)
          in (n', if sel \<noteq> None then sel else findSelected n'))"

definition selectTab :: "node \<Rightarrow> string \<Rightarrow> node result" where
  "selectTab n tk =
     (case findTab n tk of
        None \<Rightarrow> throw ''Tab not found''
      | Some (t, p) \<Rightarrow> return (update_at p (set_selected (Some tk)) n))"

definition moveTab :: "node \<Rightarrow> string \<Rightarrow> location \<Rightarrow> rat \<Rightarrow> int option \<Rightarrow> (node \<times> string option) result" where
  "moveTab n tk loc to0 ix =
     (case findTab n tk of
        None \<Rightarrow> throw ''Tab not found''
      | Some (t, p) \<Rightarrow>
          let (r2, sel) = removeTab n tk
          in bind_result (insertTab r2 t loc (Some to0) ix) (\<lambda>r3. return (r3, sel)))"

definition resizeNode :: "node \<Rightarrow> rat \<Rightarrow> rat \<Rightarrow> node result" where
  "resizeNode n key size0 =
     (case findMosaicNode n key of
        None \<Rightarrow> throw ''Node not found''
      | Some p \<Rightarrow> return (update_at p (set_size (Some size0)) n))"

definition split_node :: "tab \<Rightarrow> direction \<Rightarrow> node \<Rightarrow> node" where
  "split_node t dir n =
     (let ts = map_option (filter (\<lambda>u. tabKey u \<noteq> tabKey t)) (node_tabs n);
          childWithTab = Node (node_key n * 2 + 1) (Some [t]) (Some (tabKey t)) None None None None;
          childWithoutTab = Node (node_key n * 2) ts (resetSelection (node_selected n) ts) None None None None
      in set_selected None (set_tabs None
           (set_child Last childWithTab (set_child First childWithoutTab (set_direction (Some dir) n)))))"

definition split :: "node \<Rightarrow> string \<Rightarrow> direction \<Rightarrow> node result" where
  "split n tk dir =
     (case findTabNode n tk of
        None \<Rightarrow> throw ''Tab not found''
      | Some p \<Rightarrow>
          (case node_tabs (the (node_at p n)) of
             None \<Rightarrow> throw ''Node has no tabs''
           | Some ts \<Rightarrow>
               if length ts = 0 then throw ''Node has no tabs''
               else (case find_index (\<lambda>t. tabKey t = tk) ts of
                 None \<Rightarrow> throw ''Tab not found in node''
               | Some i \<Rightarrow> return (update_at p (split_node (ts ! i) dir) n))))"

definition canSplit :: "node \<Rightarrow> string \<Rightarrow> bool" where
  "canSplit n tk =
     (case findTabNode n tk of
        None \<Rightarrow> False
      | Some p \<Rightarrow> (case node_tabs (the (node_at p n)) of None \<Rightarrow> False | Some ts \<Rightarrow> length ts > 1))"

definition renameTab :: "node \<Rightarrow> string \<Rightarrow> string \<Rightarrow> node result" where
  "renameTab n tk name0 =
     (case findTab n tk of
        None \<Rightarrow> throw ''Tab not found''
      | Some (t, p) \<Rightarrow>
          return (update_at p (\<lambda>m. set_tabs (Some (rename tk name0 (case node_tabs m of None \<Rightarrow> [] | Some ts \<Rightarrow> ts))) m) n))"

section \<open>Well-formed mosaics\<close>

definition own_tabs :: "node \<Rightarrow> tab list" where
  "own_tabs n = (case node_tabs n of None \<Rightarrow> [] | Some ts \<Rightarrow> ts)"

text \<open>All tabs of a mosaic, those of a node before those of its children.\<close>

fun tabs_of :: "node \<Rightarrow> tab list" where
  "tabs_of (Node k ts sel d a b z) =
     (case ts of None \<Rightarrow> [] | Some ts' \<Rightarrow> ts') @ (case a of None \<Rightarrow> [] | Some f \<Rightarrow> tabs_of f) @
     (case b of None \<Rightarrow> [] | Some l \<Rightarrow> tabs_of l)"

definition is_leaf :: "node \<Rightarrow> bool" where
  "is_leaf n \<longleftrightarrow> node_first n = None \<and> node_last n = None"

definition selection_ok :: "tab list \<Rightarrow> string option \<Rightarrow> bool" where
  "selection_ok ts sel \<longleftrightarrow> (if ts = [] then sel = None else sel \<in> Some ` tabKey ` set ts)"

text \<open>
  The shape the types promise: a leaf has tabs and, if there are any, one of them is selected; an
  inner node has two children and neither tabs nor a selection.
\<close>

fun mosaic_wf :: "node \<Rightarrow> bool" where
  "mosaic_wf (Node k ts sel d None None z) \<longleftrightarrow> (\<exists>ts'. ts = Some ts' \<and> selection_ok ts' sel)"
| "mosaic_wf (Node k ts sel d (Some f) (Some l) z) \<longleftrightarrow> ts = None \<and> sel = None \<and> mosaic_wf f \<and> mosaic_wf l"
| "mosaic_wf _ \<longleftrightarrow> False"

fun no_empty_leaf :: "node \<Rightarrow> bool" where
  "no_empty_leaf (Node k ts sel d (Some f) (Some l) z) \<longleftrightarrow> no_empty_leaf f \<and> no_empty_leaf l"
| "no_empty_leaf (Node k ts sel d a b z) \<longleftrightarrow> ts \<noteq> None \<and> ts \<noteq> Some []"

text \<open>The keys as the documentation of \<open>Node\<close> lays them out.\<close>

fun keyed :: "rat \<Rightarrow> node \<Rightarrow> bool" where
  "keyed key (Node k ts sel d a b z) \<longleftrightarrow>
     k = key \<and> (case a of None \<Rightarrow> True | Some f \<Rightarrow> keyed (2 * key) f) \<and>
     (case b of None \<Rightarrow> True | Some l \<Rightarrow> keyed (2 * key + 1) l)"

lemma mosaic_cases [case_names leaf inner]:
  assumes "mosaic_wf n"
  obtains (leaf) k ts sel d z where "n = Node k (Some ts) sel d None None z" "selection_ok ts sel"
  | (inner) k d f l z where "n = Node k None None d (Some f) (Some l) z" "mosaic_wf f" "mosaic_wf l"
  using assms by (cases n rule: mosaic_wf.cases) auto

lemma mosaic_induct [consumes 1, case_names leaf inner]:
  assumes "mosaic_wf n"
    and "\<And>k ts sel d z. selection_ok ts sel \<Longrightarrow> P (Node k (Some ts) sel d None None z)"
    and "\<And>k d f l z. mosaic_wf f \<Longrightarrow> mosaic_wf l \<Longrightarrow> P f \<Longrightarrow> P l \<Longrightarrow> P (Node k None None d (Some f) (Some l) z)"
  shows "P n"
  using assms(1) by (induction n rule: mosaic_wf.induct) (auto intro: assms(2,3))

lemma node_sel_simps [simp]:
  "set_key k (Node k0 ts sel d a b z) = Node k ts sel d a b z"
  "is_leaf (Node k ts sel d a b z) \<longleftrightarrow> a = None \<and> b = None"
  by (simp_all add: is_leaf_def)

lemma set_attrs [simp]:
  "tabs_of (set_key k n) = tabs_of n" "tabs_of (set_size z n) = tabs_of n" "tabs_of (set_selected sel n) = tabs_of n"
  "mosaic_wf (set_key k n) = mosaic_wf n" "mosaic_wf (set_size z n) = mosaic_wf n"
  "no_empty_leaf (set_key k n) = no_empty_leaf n" "no_empty_leaf (set_size z n) = no_empty_leaf n"
  "is_leaf (set_key k n) = is_leaf n" "is_leaf (set_size z n) = is_leaf n"
  "node_selected (set_selected sel n) = sel"
proof -
  obtain k0 ts0 sel0 d a b z0 where n: "n = Node k0 ts0 sel0 d a b z0" by (cases n)
  show "tabs_of (set_key k n) = tabs_of n" "tabs_of (set_size z n) = tabs_of n" "tabs_of (set_selected sel n) = tabs_of n"
    "mosaic_wf (set_key k n) = mosaic_wf n" "mosaic_wf (set_size z n) = mosaic_wf n"
    "no_empty_leaf (set_key k n) = no_empty_leaf n" "no_empty_leaf (set_size z n) = no_empty_leaf n"
    "is_leaf (set_key k n) = is_leaf n" "is_leaf (set_size z n) = is_leaf n" "node_selected (set_selected sel n) = sel"
    by (cases a; cases b; simp add: n is_leaf_def)+
qed

lemma liftUp_simps [simp]:
  "tabs_of (liftUp n r) = tabs_of n" "mosaic_wf (liftUp n r) = mosaic_wf n"
  "no_empty_leaf (liftUp n r) = no_empty_leaf n"
  by (simp_all add: liftUp_def)

text \<open>An update at a leaf: what it does to the tabs and to the shape.\<close>

lemma update_at_leaf:
  assumes "mosaic_wf n" and "node_at p n = Some m" and "mosaic_wf m \<Longrightarrow> mosaic_wf (f m)"
  shows "mosaic_wf (update_at p f n)" and "mosaic_wf m"
    and "\<exists>xs ys. tabs_of n = xs @ tabs_of m @ ys \<and> tabs_of (update_at p f n) = xs @ tabs_of (f m) @ ys"
proof -
  have "mosaic_wf (update_at p f n) \<and> mosaic_wf m \<and>
    (\<exists>xs ys. tabs_of n = xs @ tabs_of m @ ys \<and> tabs_of (update_at p f n) = xs @ tabs_of (f m) @ ys)"
    using assms
  proof (induction p arbitrary: n)
    case Nil
    then show ?case by (auto intro!: exI [of _ "[]"])
  next
    case (Cons x p)
    from Cons.prems(1) show ?case
    proof (cases rule: mosaic_cases)
      case leaf
      then show ?thesis using Cons.prems(2) by (cases x) simp_all
    next
      case (inner k d f' l z)
      show ?thesis
      proof (cases x)
        case First
        then show ?thesis using Cons.IH [of f'] Cons.prems(2,3) inner by fastforce
      next
        case Last
        then obtain xs ys where "tabs_of l = xs @ tabs_of m @ ys" "tabs_of (update_at p f l) = xs @ tabs_of (f m) @ ys"
          "mosaic_wf (update_at p f l)" "mosaic_wf m"
          using Cons.IH [of l] Cons.prems(2,3) inner by auto
        then have "mosaic_wf (update_at (x # p) f n) \<and> mosaic_wf m"
          and "tabs_of n = (tabs_of f' @ xs) @ tabs_of m @ ys \<and>
            tabs_of (update_at (x # p) f n) = (tabs_of f' @ xs) @ tabs_of (f m) @ ys"
          using Last inner by simp_all
        then show ?thesis by blast
      qed
    qed
  qed
  then show "mosaic_wf (update_at p f n)" "mosaic_wf m"
    "\<exists>xs ys. tabs_of n = xs @ tabs_of m @ ys \<and> tabs_of (update_at p f n) = xs @ tabs_of (f m) @ ys" by blast+
qed

lemma keyed_update_at:
  "keyed k n \<Longrightarrow> node_at p n = Some m \<Longrightarrow> (\<And>k'. keyed k' m \<Longrightarrow> keyed k' (f m)) \<Longrightarrow> keyed k (update_at p f n)"
proof (induction p arbitrary: k n)
  case (Cons x p)
  then show ?case by (cases n; cases x) (auto split: option.splits)
qed simp

section \<open>Resolving keys\<close>

lemma findMosaicNode_at:
  assumes "mosaic_wf n" and "findMosaicNode n key = Some p"
  shows "\<exists>m. node_at p n = Some m \<and> node_key m = key"
  using assms
proof (induction arbitrary: p rule: mosaic_induct)
  case (inner k d f l z)
  then show ?case by (auto split: option.splits if_splits)
qed (auto split: if_splits)

lemma findMosaicNode_None:
  assumes "mosaic_wf n" and "findMosaicNode n key = None" and "node_at p n = Some m"
  shows "node_key m \<noteq> key"
  using assms
proof (induction arbitrary: p rule: mosaic_induct)
  case (leaf ts sel k d z)
  then show ?case
  proof (cases p)
    case (Cons x q)
    then show ?thesis using leaf by (cases x) simp_all
  qed (auto split: if_splits)
next
  case (inner k d f l z)
  then show ?case
  proof (cases p)
    case (Cons x q)
    then show ?thesis using inner by (cases x) (auto split: option.splits if_splits)
  qed (auto split: if_splits)
qed

lemma keyed_key: "keyed k n \<Longrightarrow> node_key n = k"
  by (cases n) simp

lemma node_at_snoc: "node_at (p @ [x]) n = Option.bind (node_at p n) (child x)"
  by (induction p arbitrary: n) (auto split: option.splits)

lemma keyed_children:
  assumes "mosaic_wf n" "keyed k n" "node_at p n = Some m" "\<not> is_leaf m"
  shows "\<exists>q c. node_at q n = Some c \<and> node_key c = 2 * node_key m"
    and "\<exists>q c. node_at q n = Some c \<and> node_key c = 2 * node_key m + 1"
proof -
  have "mosaic_wf m" using update_at_leaf(2) [OF assms(1,3), of id] by simp
  then obtain k' d f l z where m: "m = Node k' None None d (Some f) (Some l) z"
    by (cases rule: mosaic_cases) (use assms(4) in auto)
  have "\<exists>k'. keyed k' m" using assms(2,3)
  proof (induction p arbitrary: n k)
    case (Cons x p)
    then show ?case by (cases n; cases x) (auto split: option.splits)
  qed auto
  then have c: "node_key f = 2 * k'" "node_key l = 2 * k' + 1" using m keyed_key by fastforce+
  show "\<exists>q c. node_at q n = Some c \<and> node_key c = 2 * node_key m"
    using assms(3) c m by (intro exI [of _ "p @ [First]"] exI [of _ f]) (simp add: node_at_snoc)
  show "\<exists>q c. node_at q n = Some c \<and> node_key c = 2 * node_key m + 1"
    using assms(3) c m by (intro exI [of _ "p @ [Last]"] exI [of _ l]) (simp add: node_at_snoc)
qed

text \<open>
  In a mosaic with consistent keys a key resolves to the node that has it or to a leaf, its closest
  ancestor; the search returns for every positive key.
\<close>

lemma findNodeOrAncestor_resolves:
  assumes "mosaic_wf n" "keyed 1 n" "0 < j"
  shows "\<exists>p m. findNodeOrAncestor n (of_nat j) = return p \<and> node_at p n = Some m \<and>
    (is_leaf m \<or> node_key m = of_nat j)"
  using assms(3)
proof (induction j rule: less_induct)
  case (less j)
  show ?case
  proof (cases "findMosaicNode n (of_nat j)")
    case (Some p)
    then show ?thesis using findMosaicNode_at [OF assms(1) Some] by (auto simp: findNodeOrAncestor.simps)
  next
    case None
    have "j \<noteq> 1" using findMosaicNode_None [OF assms(1) None, of "[]"] keyed_key [OF assms(2)] by auto
    with less.prems have j: "0 < j div 2" "j div 2 < j" by auto
    have fl: "\<lfloor>(of_nat j :: rat) / 2\<rfloor> = int (j div 2)"
      using floor_divide_of_nat_eq [of j 2, where 'a = rat] by simp
    have "findNodeOrAncestor n (of_nat j) = findNodeOrAncestor n (of_nat (j div 2))"
      using None j less_imp_neq [OF j(2)] by (subst findNodeOrAncestor.simps) (simp add: fl Let_def)
    moreover obtain p m where p: "findNodeOrAncestor n (of_nat (j div 2)) = return p" "node_at p n = Some m"
      "is_leaf m \<or> node_key m = of_nat (j div 2)"
      using less.IH [OF j(2,1)] by blast
    moreover have "is_leaf m"
    proof (rule ccontr)
      assume "\<not> is_leaf m"
      with p(3) have "node_key m = of_nat (j div 2)" by simp
      moreover have "(of_nat j :: rat) = 2 * of_nat (j div 2) \<or> (of_nat j :: rat) = 2 * of_nat (j div 2) + 1"
        using div_mult_mod_eq [of j 2] by (metis (no_types, lifting) add.right_neutral mult.commute not_mod_2_eq_0_eq_1
            of_nat_1 of_nat_add of_nat_mult of_nat_numeral)
      ultimately show False
        using keyed_children [OF assms(1,2) p(2) \<open>\<not> is_leaf m\<close>] findMosaicNode_None [OF assms(1) None] by metis
    qed
    ultimately show ?thesis by auto
  qed
qed

section \<open>Operations on well-formed mosaics\<close>

lemma find_tab_iff: "find_tab tk ts = None \<longleftrightarrow> tk \<notin> tabKey ` set ts"
  by (auto simp: find_tab_def find_None_iff)

lemma find_tab_Some: "find_tab tk ts = Some t \<Longrightarrow> t \<in> set ts \<and> tabKey t = tk"
  by (auto simp: find_tab_def find_Some_iff)

lemma selection_ok_reset: "selection_ok ts (resetSelection sel (Some ts))"
  by (auto simp: selection_ok_def resetSelection_def Let_def find_tab_iff)

lemma findTab_spec:
  assumes "mosaic_wf n"
  shows "case findTab n tk of
      None \<Rightarrow> tk \<notin> tabKey ` set (tabs_of n)
    | Some (t, p) \<Rightarrow> t \<in> set (tabs_of n) \<and> tabKey t = tk \<and>
        (\<exists>m. node_at p n = Some m \<and> is_leaf m \<and> t \<in> set (tabs_of m))"
  using assms
proof (induction rule: mosaic_induct)
  case (leaf ts sel k d z)
  then show ?case by (auto simp: find_tab_iff dest: find_tab_Some split: option.splits)
next
  case (inner k d f l z)
  then show ?case by (auto split: option.splits)
qed

lemma add_tab_leaf:
  assumes "mosaic_wf m" and "is_leaf m"
  shows "mosaic_wf (add_tab t ix m)" and "mset (tabs_of (add_tab t ix m)) = add_mset t (mset (tabs_of m))"
    and "node_selected (add_tab t ix m) = Some (tabKey t)" and "keyed k m \<Longrightarrow> keyed k (add_tab t ix m)"
proof -
  obtain k' ts sel d z where m: "m = Node k' (Some ts) sel d None None z"
    using assms by (cases rule: mosaic_cases) auto
  obtain ts' where ts': "add_tab t ix m = Node k' (Some ts') (Some (tabKey t)) d None None z"
    "mset ts' = add_mset t (mset ts)"
  proof
    let ?ts = "case ix of Some i \<Rightarrow> if i \<ge> 0 \<and> i \<le> int (length ts) then splice_at (nat i) 0 [t] ts else ts @ [t] | None \<Rightarrow> ts @ [t]"
    show "add_tab t ix m = Node k' (Some ?ts) (Some (tabKey t)) d None None z" by (simp add: m add_tab_def)
    show "mset ?ts = add_mset t (mset ts)" by (simp add: mset_splice_insert split: option.splits)
  qed
  have "set ts' = insert t (set ts)" using arg_cong [OF ts'(2), of set_mset] by simp
  moreover from this have "ts' \<noteq> []" by auto
  ultimately show "mosaic_wf (add_tab t ix m)" "mset (tabs_of (add_tab t ix m)) = add_mset t (mset (tabs_of m))"
    "node_selected (add_tab t ix m) = Some (tabKey t)" "keyed k m \<Longrightarrow> keyed k (add_tab t ix m)"
    using ts' by (simp_all add: m selection_ok_def)
qed

lemma split_with_leaf:
  assumes "mosaic_wf m" and "is_leaf m" and "splitArrangement loc = return (i, s, dir)"
  shows "mosaic_wf (split_with t i s dir m)" and "mset (tabs_of (split_with t i s dir m)) = add_mset t (mset (tabs_of m))"
    and "keyed k m \<Longrightarrow> keyed k (split_with t i s dir m)"
proof -
  obtain k' ts sel d z where m: "m = Node k' (Some ts) sel d None None z" "selection_ok ts sel"
    using assms(1,2) by (cases rule: mosaic_cases) auto
  show "mosaic_wf (split_with t i s dir m)" "mset (tabs_of (split_with t i s dir m)) = add_mset t (mset (tabs_of m))"
    "keyed k m \<Longrightarrow> keyed k (split_with t i s dir m)"
    using assms(3) m
    by (auto simp: splitArrangement_def split_with_def Let_def selection_ok_def mult.commute split: location.splits)
qed

text \<open>A change at a leaf that adds a tab adds it to the mosaic.\<close>

lemma update_adds:
  assumes "mosaic_wf n" and "node_at p n = Some m" and "is_leaf m"
    and "\<And>m. mosaic_wf m \<Longrightarrow> is_leaf m \<Longrightarrow> mosaic_wf (f m)"
    and "\<And>m. mosaic_wf m \<Longrightarrow> is_leaf m \<Longrightarrow> mset (tabs_of (f m)) = add_mset t (mset (tabs_of m))"
    and "\<And>m k. mosaic_wf m \<Longrightarrow> is_leaf m \<Longrightarrow> keyed k m \<Longrightarrow> keyed k (f m)"
  shows "mosaic_wf (update_at p f n)" and "mset (tabs_of (update_at p f n)) = add_mset t (mset (tabs_of n))"
    and "keyed k n \<Longrightarrow> keyed k (update_at p f n)"
proof -
  have m: "mosaic_wf m" using update_at_leaf(2) [OF assms(1,2), of id] by simp
  note u = update_at_leaf [OF assms(1,2), of f]
  show "mosaic_wf (update_at p f n)" using u(1) m assms(3,4) by simp
  show "mset (tabs_of (update_at p f n)) = add_mset t (mset (tabs_of n))"
    using u(3) m assms(3-5) by auto
  show "keyed k (update_at p f n)" if "keyed k n"
    using keyed_update_at [OF that assms(2), of f] m assms(3,6) by blast
qed

lemma gc_pass_wf:
  assumes "mosaic_wf n"
  shows "mosaic_wf (fst (gc_pass n)) \<and> tabs_of (fst (gc_pass n)) = tabs_of n \<and>
    (snd (gc_pass n) \<or> fst (gc_pass n) = n \<and> (is_leaf n \<or> no_empty_leaf n))"
  using assms
proof (induction rule: mosaic_induct)
  case (inner k d f l z)
  have empty: "shouldGc x \<Longrightarrow> mosaic_wf x \<Longrightarrow> tabs_of x = []" for x
    by (cases x) (auto simp: shouldGc_def split: option.splits)
  have full: "\<not> shouldGc x \<Longrightarrow> mosaic_wf x \<Longrightarrow> is_leaf x \<Longrightarrow> no_empty_leaf x" for x
    by (cases x) (auto simp: shouldGc_def)
  show ?case
    using inner empty [OF _ inner(1)] empty [OF _ inner(2)] full [OF _ inner(1)] full [OF _ inner(2)]
    by (auto split: prod.splits)
qed simp

lemma gc_loop_wf:
  assumes "mosaic_wf n"
  shows "mosaic_wf (gc_loop n) \<and> tabs_of (gc_loop n) = tabs_of n \<and> (is_leaf (gc_loop n) \<or> no_empty_leaf (gc_loop n))"
  using assms
proof (induction n rule: gc_loop.induct)
  case (1 n)
  then show ?case
    using gc_pass_wf [OF 1(2)] by (subst (1 2 3 4) gc_loop.simps) (auto split: prod.splits)
qed

lemma gc_wf:
  assumes "mosaic_wf n"
  shows "mosaic_wf (gc n)" and "tabs_of (gc n) = tabs_of n" and "is_leaf (gc n) \<or> no_empty_leaf (gc n)"
  using gc_loop_wf [OF assms] by (auto simp: gc_def Let_def)

lemma findSelected_full:
  assumes "mosaic_wf n" and "no_empty_leaf n"
  shows "\<exists>t\<in>set (tabs_of n). findSelected n = Some (tabKey t)"
  using assms by (induction rule: mosaic_induct) (auto simp: selection_ok_def split: if_splits)

lemma drop_tab_leaf:
  assumes "mosaic_wf m" and "is_leaf m"
  shows "mosaic_wf (drop_tab tk m)" and "tabs_of (drop_tab tk m) = filter (\<lambda>t. tabKey t \<noteq> tk) (tabs_of m)"
    and "selection_ok (tabs_of (drop_tab tk m)) (node_selected (drop_tab tk m))"
proof -
  obtain k' ts sel d z where m: "m = Node k' (Some ts) sel d None None z"
    using assms by (cases rule: mosaic_cases) auto
  show "mosaic_wf (drop_tab tk m)" "tabs_of (drop_tab tk m) = filter (\<lambda>t. tabKey t \<noteq> tk) (tabs_of m)"
    "selection_ok (tabs_of (drop_tab tk m)) (node_selected (drop_tab tk m))"
    by (simp_all add: m drop_tab_def Let_def selection_ok_reset)
qed

text \<open>In a mosaic with consistent keys the key of a node is its path, read as a binary number.\<close>

fun path_key :: "nat \<Rightarrow> order list \<Rightarrow> nat" where
  "path_key k [] = k"
| "path_key k (x # p) = path_key (2 * k + (case x of First \<Rightarrow> 0 | Last \<Rightarrow> 1)) p"

lemma path_key_snoc: "path_key k (p @ [x]) = 2 * path_key k p + (case x of First \<Rightarrow> 0 | Last \<Rightarrow> 1)"
  by (induction p arbitrary: k) auto

lemma path_key_ge: "k \<le> path_key k p"
proof (induction p arbitrary: k)
  case (Cons x p)
  have "k \<le> 2 * k + (case x of First \<Rightarrow> 0 | Last \<Rightarrow> 1)" by simp
  also have "\<dots> \<le> path_key k (x # p)" using Cons by simp
  finally show ?case .
qed simp

lemma path_key_inject: "0 < k \<Longrightarrow> path_key k p = path_key k q \<Longrightarrow> p = q"
proof (induction p arbitrary: q rule: rev_induct)
  case Nil
  show ?case
  proof (cases q rule: rev_cases)
    case (snoc q' y)
    then have "k = 2 * path_key k q' + (case y of First \<Rightarrow> 0 | Last \<Rightarrow> 1)" using Nil.prems(2) by (simp add: path_key_snoc)
    then show ?thesis using path_key_ge [of k q'] Nil.prems(1) by linarith
  qed simp
next
  case (snoc x p)
  show ?case
  proof (cases q rule: rev_cases)
    case Nil
    then show ?thesis using snoc.prems path_key_ge [of k p] by (simp add: path_key_snoc)
  next
    case (snoc q' y)
    have "path_key k p = path_key k q' \<and> x = y"
      using snoc.prems unfolding snoc path_key_snoc by (cases x; cases y) (simp_all, presburger+)
    then show ?thesis using snoc.IH snoc.prems(1) snoc by simp
  qed
qed

lemma keyed_path: "keyed (of_nat k) n \<Longrightarrow> node_at p n = Some m \<Longrightarrow> node_key m = of_nat (path_key k p)"
proof (induction p arbitrary: k n)
  case Nil
  then show ?case using keyed_key by auto
next
  case (Cons x p)
  obtain k' ts sel d a b z where n: "n = Node k' ts sel d a b z" by (cases n)
  show ?case
    using Cons.prems Cons.IH [of "2 * k + (case x of First \<Rightarrow> 0 | Last \<Rightarrow> 1)"] n
    by (cases x) (auto simp: add.commute split: option.splits)
qed

lemma path_of_key:
  assumes "keyed 1 n" "node_at q n = Some m'" "node_key m' = of_nat (path_key 1 p)"
  shows "q = p"
proof -
  have "(of_nat (path_key 1 q) :: rat) = of_nat (path_key 1 p)"
    using keyed_path [of 1 n q m'] assms by simp
  then have "path_key 1 q = path_key 1 p" by (simp only: of_nat_eq_iff)
  then show ?thesis by (rule path_key_inject [rotated]) simp
qed

lemma findNodeOrAncestor_found:
  assumes "mosaic_wf n" "keyed 1 n" "node_at p n = Some m"
  shows "findNodeOrAncestor n (node_key m) = return p"
proof -
  have "findMosaicNode n (node_key m) \<noteq> None" using findMosaicNode_None [OF assms(1) _ assms(3)] by blast
  then obtain q where q: "findMosaicNode n (node_key m) = Some q" by blast
  then obtain m' where "node_at q n = Some m'" "node_key m' = node_key m" using findMosaicNode_at [OF assms(1)] by blast
  then have "q = p" using path_of_key [OF assms(2)] keyed_path [of 1 n p m] assms(2,3) by simp
  then show ?thesis using q by (simp add: findNodeOrAncestor.simps)
qed

lemma findNodeOrAncestor_leaf_child:
  assumes "mosaic_wf n" "keyed 1 n" "node_at p n = Some m" "is_leaf m" and b: "b = 0 \<or> b = 1"
  shows "findNodeOrAncestor n (node_key m * 2 + b) = return p"
proof -
  define i where "i = path_key 1 p"
  have i: "node_key m = of_nat i" "0 < i"
    using keyed_path [of 1 n p m] assms(2,3) path_key_ge [of 1 p] by (simp_all add: i_def)
  obtain x where x: "b = of_nat (case x of First \<Rightarrow> 0 | Last \<Rightarrow> 1)" using b that [of First] that [of Last] by auto
  have k: "node_key m * 2 + b = of_nat (path_key 1 (p @ [x]))" by (simp add: i x i_def path_key_snoc mult.commute)
  have "findMosaicNode n (node_key m * 2 + b) = None"
  proof (rule ccontr)
    assume "findMosaicNode n (node_key m * 2 + b) \<noteq> None"
    then obtain q m' where q: "node_at q n = Some m'" "node_key m' = node_key m * 2 + b"
      using findMosaicNode_at [OF assms(1)] by blast
    then have "q = p @ [x]" using path_of_key [OF assms(2)] unfolding k by blast
    then show False using q(1) assms(3,4) by (cases x) (auto simp: node_at_snoc is_leaf_def)
  qed
  moreover have "\<lfloor>(node_key m * 2 + b) / 2\<rfloor> = int i" using b i by (auto simp: floor_eq_iff field_simps)
  moreover have "(of_nat i :: rat) \<noteq> node_key m * 2 + b" "i \<noteq> 0" using b i by auto
  ultimately show ?thesis
    using findNodeOrAncestor_found [OF assms(1-3)] i(1)
    by (subst findNodeOrAncestor.simps) (simp add: Let_def)
qed

lemma insertAnywhere_wf:
  assumes "mosaic_wf n"
  shows "mosaic_wf (insertAnywhere n t) \<and> mset (tabs_of (insertAnywhere n t)) = add_mset t (mset (tabs_of n)) \<and>
    (\<forall>k. keyed k n \<longrightarrow> keyed k (insertAnywhere n t))"
  using assms by (induction rule: mosaic_induct) (auto simp: selection_ok_def)

section \<open>Properties\<close>

lemma insertTab_inserts:
  assumes "mosaic_wf n" and "keyed 1 n"
    and "case key of None \<Rightarrow> True
         | Some k \<Rightarrow> \<exists>j>0. k = of_nat j \<and> (\<forall>p m. node_at p n = Some m \<longrightarrow> node_key m = k \<longrightarrow> is_leaf m)"
  shows "\<exists>n'. insertTab n t loc key ix = return n' \<and> mosaic_wf n' \<and> keyed 1 n' \<and>
    mset (tabs_of n') = add_mset t (mset (tabs_of n))"
proof (cases key)
  case None
  then show ?thesis using insertAnywhere_wf [OF assms(1)] assms(2) by (simp add: insertTab_def)
next
  case (Some k)
  then obtain j where j: "0 < j" "k = of_nat j" "\<And>p m. node_at p n = Some m \<Longrightarrow> node_key m = k \<Longrightarrow> is_leaf m"
    using assms(3) by auto
  then obtain p m where p: "findNodeOrAncestor n k = return p" "node_at p n = Some m" "is_leaf m"
    using findNodeOrAncestor_resolves [OF assms(1,2) j(1)] by auto
  have m: "mosaic_wf m" using update_at_leaf(2) [OF assms(1) p(2), of id] by simp
  have center: "insertCenter n t k ix' = return (update_at p (add_tab t ix') n)" for ix'
    using p(1) by (simp add: insertCenter_def)
  note add = update_adds [OF assms(1) p(2,3) add_tab_leaf(1,2,4)]
  show ?thesis
  proof (cases "loc = CenterLoc \<or> own_tabs m = []")
    case True
    have "insertTab n t loc key ix = insertCenter n t k (if loc = CenterLoc then ix else None)"
      using True p findNodeOrAncestor_leaf_child [OF assms(1,2) p(2,3), of 0]
        findNodeOrAncestor_leaf_child [OF assms(1,2) p(2,3), of 1]
      by (auto simp: insertTab_def Some Let_def own_tabs_def split: option.splits)
    then show ?thesis using center add assms(2) by auto
  next
    case False
    obtain i s dir where sp: "splitArrangement loc = return (i, s, dir)"
      using False by (cases loc) (auto simp: splitArrangement_def)
    have "insertTab n t loc key ix = return (update_at p (split_with t i s dir) n)"
      using False p sp findNodeOrAncestor_leaf_child [OF assms(1,2) p(2,3), of 0]
        findNodeOrAncestor_leaf_child [OF assms(1,2) p(2,3), of 1]
      by (auto simp: insertTab_def Some Let_def own_tabs_def split: option.splits)
    then show ?thesis
      using update_adds [OF assms(1) p(2,3), of "split_with t i s dir" t] split_with_leaf [OF _ _ sp] assms(2) by auto
  qed
qed

text \<open>
  Inserting a tab at a key that names no inner node (it may name no node at all) succeeds, adds
  exactly that tab, on whatever edge it is dropped, and keeps the mosaic well formed with its keys
  in order.
\<close>

theorem insertTab_adds:
  assumes "mosaic_wf n" and "keyed 1 n"
    and "case key of None \<Rightarrow> True
         | Some k \<Rightarrow> \<exists>j>0. k = of_nat j \<and> (\<forall>p m. node_at p n = Some m \<longrightarrow> node_key m = k \<longrightarrow> is_leaf m)"
  shows "\<exists>n'. insertTab n t loc key ix = return n' \<and> mosaic_wf n' \<and> keyed 1 n' \<and>
    mset (tabs_of n') = add_mset t (mset (tabs_of n))"
  by (rule insertTab_inserts [OF assms])

definition plain_tab :: "string \<Rightarrow> tab" where
  "plain_tab k = \<lparr>tabKey = k, name = k, closable = None, icon = None, editable = None, visible = None,
     unsavedChanges = None, content = None\<rparr>"

definition example_mosaic :: node where
  "example_mosaic =
     Node 1 None None (Some DirX) (Some (leaf 2 [plain_tab ''a''] (Some ''a'')))
       (Some (Node 3 None None (Some DirX) (Some (leaf 6 [plain_tab ''b''] (Some ''b'')))
          (Some (leaf 7 [plain_tab ''c''] (Some ''c''))) None)) None"

lemma example_mosaic_wf: "mosaic_wf example_mosaic" "keyed 1 example_mosaic" "no_empty_leaf example_mosaic"
  "tabs_of example_mosaic = [plain_tab ''a'', plain_tab ''b'', plain_tab ''c'']"
  by (simp_all add: example_mosaic_def leaf_def selection_ok_def plain_tab_def)

lemma example_inner_keys:
  "node_at p example_mosaic = Some m \<Longrightarrow> node_key m = 13 \<Longrightarrow> is_leaf m"
  using findMosaicNode_None [OF example_mosaic_wf(1), of 13 p m] by (simp add: example_mosaic_def leaf_def)

lemma insertTab_adds_witness:
  "\<exists>n'. insertTab example_mosaic (plain_tab ''d'') LeftLoc (Some 13) None = return n' \<and> mosaic_wf n' \<and> keyed 1 n' \<and>
    mset (tabs_of n') = {#plain_tab ''a'', plain_tab ''b'', plain_tab ''c'', plain_tab ''d''#}"
proof -
  have "\<exists>j>0. (13::rat) = of_nat j \<and> (\<forall>p m. node_at p example_mosaic = Some m \<longrightarrow> node_key m = 13 \<longrightarrow> is_leaf m)"
    using example_inner_keys by (intro exI [of _ 13]) auto
  then show ?thesis
    using insertTab_adds [OF example_mosaic_wf(1,2), of "Some 13" "plain_tab ''d''" LeftLoc None]
    by (simp add: example_mosaic_wf(4) add_mset_commute)
qed

lemma removeTab_facts:
  assumes "mosaic_wf n" and "distinct (map tabKey (tabs_of n))" and r: "removeTab n tk = (n', sel)"
    and "tk \<in> tabKey ` set (tabs_of n)"
  shows "mosaic_wf n'" and "tabs_of n' = filter (\<lambda>t. tabKey t \<noteq> tk) (tabs_of n)"
    and "is_leaf n' \<or> no_empty_leaf n'" and "selection_ok (tabs_of n') sel"
proof -
  obtain t p m where f: "findTab n tk = Some (t, p)" "t \<in> set (tabs_of n)" "tabKey t = tk"
    "node_at p n = Some m" "is_leaf m" "t \<in> set (tabs_of m)"
    using findTab_spec [OF assms(1), of tk] assms(4) by (auto split: option.splits)
  have m: "mosaic_wf m" using update_at_leaf(2) [OF assms(1) f(4), of id] by simp
  note d = drop_tab_leaf [OF m f(5), of tk]
  define u where "u = update_at p (drop_tab tk) n"
  have u: "mosaic_wf u" using update_at_leaf(1) [OF assms(1) f(4), of "drop_tab tk"] d(1) by (simp add: u_def)
  obtain xs ys where xy: "tabs_of n = xs @ tabs_of m @ ys" "tabs_of u = xs @ tabs_of (drop_tab tk m) @ ys"
    using update_at_leaf(3) [OF assms(1) f(4), of "drop_tab tk"] d(1) by (auto simp: u_def)
  have "tk \<notin> tabKey ` set xs" "tk \<notin> tabKey ` set ys" using assms(2) f(3,6) xy(1) by auto
  then have "filter (\<lambda>t. tabKey t \<noteq> tk) xs = xs" "filter (\<lambda>t. tabKey t \<noteq> tk) ys = ys"
    unfolding filter_id_conv by auto
  then have tabs: "tabs_of u = filter (\<lambda>t. tabKey t \<noteq> tk) (tabs_of n)"
    unfolding xy d(2) by simp
  note g = gc_wf [OF u]
  have n': "n' = gc u" and sel: "sel = (if node_selected (drop_tab tk m) \<noteq> None then node_selected (drop_tab tk m) else findSelected (gc u))"
    using r f(1,4) by (auto simp: removeTab_def Let_def u_def)
  show "mosaic_wf n'" "tabs_of n' = filter (\<lambda>t. tabKey t \<noteq> tk) (tabs_of n)" "is_leaf n' \<or> no_empty_leaf n'"
    using g tabs n' by simp_all
  have leaf_sel: "selection_ok (tabs_of (gc u)) (findSelected (gc u))" if "is_leaf (gc u)"
    using g(1) that by (cases rule: mosaic_cases) (auto simp: selection_ok_def split: if_splits)
  have full_sel: "selection_ok (tabs_of (gc u)) (findSelected (gc u))" if "no_empty_leaf (gc u)"
    using findSelected_full [OF g(1) that] by (auto simp: selection_ok_def)
  show "selection_ok (tabs_of n') sel"
    using d(3) g(2,3) leaf_sel full_sel xy(2) unfolding n' sel
    by (auto simp: selection_ok_def split: if_splits)
qed

text \<open>
  C3: Removing a tab of a well-formed mosaic with distinct tab keys takes out exactly that tab and
  leaves the others in their order; the garbage collection ends and leaves no empty leaf except a
  lone root; and the selection that is returned is a tab of the new mosaic whenever there is one.  A
  key that names no tab changes nothing.
\<close>

theorem removeTab_spec:
  assumes "mosaic_wf n" and "distinct (map tabKey (tabs_of n))" and "removeTab n tk = (n', sel)"
  shows "(tk \<in> tabKey ` set (tabs_of n) \<longrightarrow>
      mosaic_wf n' \<and> tabs_of n' = filter (\<lambda>t. tabKey t \<noteq> tk) (tabs_of n) \<and>
      (is_leaf n' \<or> no_empty_leaf n') \<and> selection_ok (tabs_of n') sel) \<and>
    (tk \<notin> tabKey ` set (tabs_of n) \<longrightarrow> n' = n \<and> sel = None)"
proof (cases "tk \<in> tabKey ` set (tabs_of n)")
  case True
  then show ?thesis using removeTab_facts [OF assms True] by simp
next
  case False
  then show ?thesis
    using findTab_spec [OF assms(1), of tk] assms(3) by (auto simp: removeTab_def split: option.splits)
qed

lemma removeTab_spec_witness:
  "\<exists>n' sel. removeTab example_mosaic ''a'' = (n', sel) \<and> mosaic_wf n' \<and>
    tabs_of n' = [plain_tab ''b'', plain_tab ''c''] \<and> no_empty_leaf n' \<and> sel \<noteq> None"
proof -
  obtain n' sel where r: "removeTab example_mosaic ''a'' = (n', sel)" by fastforce
  have d: "distinct (map tabKey (tabs_of example_mosaic))" by (simp add: example_mosaic_wf(4) plain_tab_def)
  have "mosaic_wf n' \<and> tabs_of n' = [plain_tab ''b'', plain_tab ''c''] \<and> (is_leaf n' \<or> no_empty_leaf n') \<and> sel \<noteq> None"
    using removeTab_spec [OF example_mosaic_wf(1) d r]
    by (auto simp: example_mosaic_wf(4) plain_tab_def selection_ok_def)
  moreover from this have "is_leaf n' \<Longrightarrow> no_empty_leaf n'"
    by (cases n' rule: no_empty_leaf.cases) auto
  ultimately show ?thesis using r by blast
qed

lemma filter_add_mset:
  assumes "distinct (map f xs)" and "x \<in> set xs"
  shows "add_mset x (mset (filter (\<lambda>y. f y \<noteq> f x) xs)) = mset xs"
  using assms
proof (induction xs)
  case (Cons y ys)
  show ?case
  proof (cases "y = x")
    case True
    then have "filter (\<lambda>y. f y \<noteq> f x) ys = ys" using Cons.prems(1) by (auto simp: filter_id_conv image_iff)
    then show ?thesis using True by simp
  next
    case False
    then have "f y \<noteq> f x" using Cons.prems by auto
    then show ?thesis using False Cons by simp
  qed
qed simp

lemma moveTab_center:
  assumes "mosaic_wf n" and "distinct (map tabKey (tabs_of n))" and "tk \<in> tabKey ` set (tabs_of n)"
    and p: "findNodeOrAncestor (fst (removeTab n tk)) to0 = return p"
      "node_at p (fst (removeTab n tk)) = Some m" "is_leaf m"
  shows "\<exists>n' sel. moveTab n tk CenterLoc to0 ix = return (n', sel) \<and> mosaic_wf n' \<and> mset (tabs_of n') = mset (tabs_of n)"
proof -
  obtain t q where t: "findTab n tk = Some (t, q)" "t \<in> set (tabs_of n)" "tabKey t = tk"
    using findTab_spec [OF assms(1), of tk] assms(3) by (auto split: option.splits)
  obtain r sel where r: "removeTab n tk = (r, sel)" by fastforce
  note rf = removeTab_facts [OF assms(1,2) r assms(3)]
  have p': "node_at p r = Some m" "findNodeOrAncestor r to0 = return p" using p r by simp_all
  note u = update_adds [OF rf(1) p'(1) p(3), of "add_tab t ix" t, OF add_tab_leaf(1,2,4)]
  have "moveTab n tk CenterLoc to0 ix = return (update_at p (add_tab t ix) r, sel)"
    using t(1) r p'(2) by (simp add: moveTab_def insertTab_def insertCenter_def)
  moreover have "mset (tabs_of (update_at p (add_tab t ix) r)) = mset (tabs_of n)"
    using u(2) rf(2) filter_add_mset [OF assms(2) t(2)] t(3) by simp
  ultimately show ?thesis using u(1) by blast
qed

lemma findTabNode_findTab:
  assumes "mosaic_wf n"
  shows "findTabNode n tk = map_option snd (findTab n tk)"
  using assms
  by (induction rule: mosaic_induct) (auto simp: option.map_comp comp_def case_prod_beta split: option.splits)

lemma split_node_leaf:
  assumes "m = Node k (Some ts) sel d None None z" and "t \<in> set ts" and "distinct (map tabKey ts)"
  shows "mosaic_wf (split_node t dir m)" and "mset (tabs_of (split_node t dir m)) = mset (tabs_of m)"
    and "keyed k' m \<Longrightarrow> keyed k' (split_node t dir m)"
    and "no_empty_leaf (split_node t dir m) \<longleftrightarrow> 1 < length ts"
proof -
  define rest where "rest = filter (\<lambda>u. tabKey u \<noteq> tabKey t) ts"
  have ms: "add_mset t (mset rest) = mset ts" using filter_add_mset [OF assms(3,2)] by (simp add: rest_def)
  then have "length ts = Suc (length rest)" by (metis size_add_mset size_mset)
  then show "mosaic_wf (split_node t dir m)" "mset (tabs_of (split_node t dir m)) = mset (tabs_of m)"
    "keyed k' m \<Longrightarrow> keyed k' (split_node t dir m)" "no_empty_leaf (split_node t dir m) \<longleftrightarrow> 1 < length ts"
    using ms by (auto simp: split_node_def assms(1) Let_def selection_ok_reset mult.commute simp flip: rest_def)
      (simp_all add: selection_ok_def)
qed

lemma no_empty_update:
  assumes "mosaic_wf n" and "node_at p n = Some m" and "no_empty_leaf m"
  shows "no_empty_leaf (update_at p f n) \<longleftrightarrow> no_empty_leaf n \<and> no_empty_leaf (f m)"
  using assms
proof (induction p arbitrary: n)
  case (Cons x p)
  from Cons.prems(1) show ?case
  proof (cases rule: mosaic_cases)
    case leaf
    then show ?thesis using Cons.prems(2) by (cases x) simp_all
  next
    case (inner k d g l z)
    then show ?thesis using Cons.IH Cons.prems(2,3) by (cases x) auto
  qed
qed simp

lemma split_facts:
  assumes "mosaic_wf n" and "distinct (map tabKey (tabs_of n))" and "tk \<in> tabKey ` set (tabs_of n)"
  shows "\<exists>n'. split n tk dir = return n' \<and> mosaic_wf n' \<and> mset (tabs_of n') = mset (tabs_of n) \<and>
       (keyed 1 n \<longrightarrow> keyed 1 n') \<and> (no_empty_leaf n' \<longleftrightarrow> no_empty_leaf n \<and> canSplit n tk)"
proof -
  obtain t p m where f: "findTab n tk = Some (t, p)" "tabKey t = tk" "node_at p n = Some m" "is_leaf m" "t \<in> set (tabs_of m)"
    using findTab_spec [OF assms(1), of tk] assms(3) by (auto split: option.splits)
  have "mosaic_wf m" using update_at_leaf(2) [OF assms(1) f(3), of id] by simp
  then obtain k ts sel d z where m: "m = Node k (Some ts) sel d None None z"
    by (cases rule: mosaic_cases) (use f(4) in auto)
  obtain xs ys where "tabs_of n = xs @ ts @ ys" using update_at_leaf(3) [OF assms(1) f(3), of id] m by auto
  then have dist: "distinct (map tabKey ts)" using assms(2) by simp
  have ts: "t \<in> set ts" "ts \<noteq> []" using f(5) m by auto
  then obtain i where i: "find_index (\<lambda>u. tabKey u = tk) ts = Some i"
    using f(2) by (cases "find_index (\<lambda>u. tabKey u = tk) ts") (auto simp: find_index_None_iff)
  then have "tabKey (ts ! i) = tk" "i < length ts" by (auto simp: find_index_Some_iff)
  then have ti: "ts ! i = t" using dist ts(1) f(2) by (metis distinct_map inj_onD nth_mem)
  note s = split_node_leaf [OF m ts(1) dist]
  note u = update_at_leaf [OF assms(1) f(3), of "split_node t dir", OF s(1)]
  have "split n tk dir = return (update_at p (split_node t dir) n)"
    using f(1,3) m i ti ts(2) by (simp add: split_def findTabNode_findTab [OF assms(1)])
  moreover have "mset (tabs_of (update_at p (split_node t dir) n)) = mset (tabs_of n)" using u(3) s(2) by fastforce
  moreover have "canSplit n tk \<longleftrightarrow> 1 < length ts"
    using f(1,3) m by (simp add: canSplit_def findTabNode_findTab [OF assms(1)])
  moreover have "no_empty_leaf m" using m ts(2) by simp
  ultimately show ?thesis
    using u(1) s(3,4) keyed_update_at [OF _ f(3), of 1 "split_node t dir"] no_empty_update [OF assms(1) f(3), of "split_node t dir"]
    by auto
qed

text \<open>
  Moving a tab to the centre of another node keeps all tabs and the shape of the mosaic, when the
  target resolves to a leaf after the removal; splitting the node of a tab keeps all tabs, the shape
  and the keys, and leaves no empty leaf exactly when \<open>canSplit\<close> allows it.
\<close>

theorem rearrange_keeps_tabs:
  assumes "mosaic_wf n" and "distinct (map tabKey (tabs_of n))" and "tk \<in> tabKey ` set (tabs_of n)"
  shows "(\<forall>to0 p m. findNodeOrAncestor (fst (removeTab n tk)) to0 = return p \<and>
        node_at p (fst (removeTab n tk)) = Some m \<and> is_leaf m \<longrightarrow>
        (\<exists>n' sel. moveTab n tk CenterLoc to0 ix = return (n', sel) \<and> mosaic_wf n' \<and> mset (tabs_of n') = mset (tabs_of n))) \<and>
    (\<exists>n'. split n tk dir = return n' \<and> mosaic_wf n' \<and> mset (tabs_of n') = mset (tabs_of n) \<and>
       (keyed 1 n \<longrightarrow> keyed 1 n') \<and> (no_empty_leaf n' \<longleftrightarrow> no_empty_leaf n \<and> canSplit n tk))"
  using moveTab_center [OF assms] split_facts [OF assms] by blast

lemma rearrange_keeps_tabs_witness:
  "(\<exists>n' sel. moveTab example_mosaic ''a'' CenterLoc 6 (Some 0) = return (n', sel) \<and> mosaic_wf n' \<and>
      mset (tabs_of n') = mset (tabs_of example_mosaic)) \<and>
   (\<exists>n'. split example_mosaic ''b'' DirY = return n' \<and> \<not> no_empty_leaf n')"
proof -
  have d: "distinct (map tabKey (tabs_of example_mosaic))" "''a'' \<in> tabKey ` set (tabs_of example_mosaic)"
    "''b'' \<in> tabKey ` set (tabs_of example_mosaic)"
    by (simp_all add: example_mosaic_wf(4) plain_tab_def)
  have r: "fst (removeTab example_mosaic ''a'') =
      Node 1 None None (Some DirX) (Some (leaf 6 [plain_tab ''b''] (Some ''b'')))
        (Some (leaf 7 [plain_tab ''c''] (Some ''c''))) None"
    by (simp add: removeTab_def example_mosaic_def leaf_def find_tab_def plain_tab_def drop_tab_def resetSelection_def
        gc_def gc_loop.simps shouldGc_def liftUp_def)
  have "findNodeOrAncestor (fst (removeTab example_mosaic ''a'')) 6 = return [First]"
    "node_at [First] (fst (removeTab example_mosaic ''a'')) = Some (leaf 6 [plain_tab ''b''] (Some ''b''))"
    by (simp_all add: r leaf_def findNodeOrAncestor.simps)
  moreover have "\<not> canSplit example_mosaic ''b''"
    by (simp add: canSplit_def example_mosaic_def leaf_def find_tab_def plain_tab_def)
  ultimately show ?thesis
    using rearrange_keeps_tabs [OF example_mosaic_wf(1) d(1,2), of "Some 0" DirX]
      rearrange_keeps_tabs [OF example_mosaic_wf(1) d(1,3), of None DirY]
    by (fastforce simp: leaf_def)
qed

text \<open>
  Garbage collection renumbers only the node it lifts, not the nodes below it: removing a tab
  from a mosaic with consistent keys can leave inconsistent ones.  A key that is no longer there then
  resolves to an inner node: the next tab is put on that node, and a tab dropped on its edge after
  that replaces the children of the node with everything in them.
\<close>

theorem gc_loses_key_order:
  "\<exists>n1 n2 n3. fst (removeTab example_mosaic ''a'') = n1 \<and> mosaic_wf example_mosaic \<and> keyed 1 example_mosaic \<and>
    mosaic_wf n1 \<and> \<not> keyed 1 n1 \<and>
    insertTab n1 (plain_tab ''d'') CenterLoc (Some 2) None = return n2 \<and> \<not> mosaic_wf n2 \<and>
    insertTab n2 (plain_tab ''e'') RightLoc (Some 1) None = return n3 \<and>
    tabs_of n2 = map plain_tab [''d'', ''b'', ''c''] \<and> tabs_of n3 = map plain_tab [''d'', ''e'']"
proof -
  let ?n1 = "Node 1 None None (Some DirX) (Some (leaf 6 [plain_tab ''b''] (Some ''b'')))
        (Some (leaf 7 [plain_tab ''c''] (Some ''c''))) None"
  let ?n2 = "Node 1 (Some [plain_tab ''d'']) (Some ''d'') (Some DirX) (Some (leaf 6 [plain_tab ''b''] (Some ''b'')))
        (Some (leaf 7 [plain_tab ''c''] (Some ''c''))) None"
  let ?n3 = "Node 1 None None (Some DirX) (Some (leaf 2 [plain_tab ''d''] (Some ''d'')))
        (Some (leaf 3 [plain_tab ''e''] (Some ''e''))) None"
  have "fst (removeTab example_mosaic ''a'') = ?n1"
    by (simp add: removeTab_def example_mosaic_def leaf_def find_tab_def plain_tab_def drop_tab_def resetSelection_def
        gc_def gc_loop.simps shouldGc_def liftUp_def)
  moreover have "\<lfloor>(3::rat) / 2\<rfloor> = 1" by (simp add: floor_eq_iff)
  ultimately have "fst (removeTab example_mosaic ''a'') = ?n1" and fl: "\<lfloor>(3::rat) / 2\<rfloor> = 1" by blast+
  moreover have "findNodeOrAncestor ?n1 2 = return []" "findNodeOrAncestor ?n2 1 = return []" "findNodeOrAncestor ?n2 3 = return []"
    by (simp_all add: leaf_def fl findNodeOrAncestor.simps [where key = "2::rat"] findNodeOrAncestor.simps [where key = "3::rat"]
        findNodeOrAncestor.simps [where key = "1::rat"])
  moreover from this have "insertTab ?n1 (plain_tab ''d'') CenterLoc (Some 2) None = return ?n2"
    "insertTab ?n2 (plain_tab ''e'') RightLoc (Some 1) None = return ?n3"
    by (simp_all add: insertTab_def insertCenter_def add_tab_def splitArrangement_def split_with_def leaf_def plain_tab_def)
  moreover have "mosaic_wf ?n1" "\<not> keyed 1 ?n1" "\<not> mosaic_wf ?n2" "tabs_of ?n2 = map plain_tab [''d'', ''b'', ''c'']"
    "tabs_of ?n3 = map plain_tab [''d'', ''e'']"
    by (simp_all add: leaf_def selection_ok_def plain_tab_def)
  ultimately show ?thesis using example_mosaic_wf(1,2) by blast
qed

end
