(* ===== verification/Tree_Nodes.thy ===== *)
theory Tree_Nodes
  imports Prelude
begin

text \<open>
  The operations on the trees that lists of resources are shown in
  (\<open>pluto/src/tree/core.ts\<close>).

  A tree is a list of nodes whose children are an optional list. The code finds a node and then changes
  it in place: a node is found here as its path, the positions to follow from the root, and changed at
  that path. \<open>findNode\<close> also writes the depth and the position into the node that it finds.
  The fields that the operations only carry along are one field of a type parameter. A function that may
  throw after it has changed the tree returns the tree together with the error.
\<close>

datatype 'a tnode = TNode
  (tkey: string) (tname: string) (forcePosition: "nat option") (annotation: "(nat \<times> nat) option") (extraData: 'a)
  (children: "'a tnode list option")

type_synonym path = "nat list"

definition set_children :: "'a tnode list option \<Rightarrow> 'a tnode \<Rightarrow> 'a tnode" where
  "set_children cs n = (case n of TNode k nm fp an ex _ \<Rightarrow> TNode k nm fp an ex cs)"

definition annotate :: "nat \<Rightarrow> nat \<Rightarrow> 'a tnode \<Rightarrow> 'a tnode" where
  "annotate depth position n = (case n of TNode k nm fp _ ex cs \<Rightarrow> TNode k nm fp (Some (depth, position)) ex cs)"

fun tnode_at :: "path \<Rightarrow> 'a tnode list \<Rightarrow> 'a tnode option" where
  "tnode_at (0 # p) (n # ns) =
     (if p = [] then Some n else case children n of None \<Rightarrow> None | Some cs \<Rightarrow> tnode_at p cs)"
| "tnode_at (Suc i # p) (n # ns) = tnode_at (i # p) ns"
| "tnode_at p ns = None"

fun tupdate_at :: "path \<Rightarrow> ('a tnode \<Rightarrow> 'a tnode) \<Rightarrow> 'a tnode list \<Rightarrow> 'a tnode list" where
  "tupdate_at (0 # p) f (n # ns) =
     (if p = [] then f n else set_children (map_option (tupdate_at p f) (children n)) n) # ns"
| "tupdate_at (Suc i # p) f (n # ns) = n # tupdate_at (i # p) f ns"
| "tupdate_at p f ns = ns"

definition next_sibling :: "path \<Rightarrow> path" where
  "next_sibling p = (case p of [] \<Rightarrow> [] | i # q \<Rightarrow> Suc i # q)"

section \<open>Lookup\<close>

fun find_path :: "string \<Rightarrow> 'a tnode list \<Rightarrow> path option" where
  "find_path key [] = None"
| "find_path key (TNode k nm fp an ex None # ns) =
     (if k = key then Some [0] else map_option next_sibling (find_path key ns))"
| "find_path key (TNode k nm fp an ex (Some cs) # ns) =
     (if k = key then Some [0]
      else case find_path key cs of
             Some p \<Rightarrow> Some (0 # p)
           | None \<Rightarrow> map_option next_sibling (find_path key ns))"

definition findNode :: "string \<Rightarrow> 'a tnode list \<Rightarrow> 'a tnode list \<times> path option" where
  "findNode key tree =
     (case find_path key tree of
        None \<Rightarrow> (tree, None)
      | Some p \<Rightarrow> (tupdate_at p (annotate (length p - 1) (last p)) tree, Some p))"

fun findNodes :: "string list \<Rightarrow> 'a tnode list \<Rightarrow> 'a tnode list \<times> path list" where
  "findNodes [] tree = (tree, [])"
| "findNodes (key # keys) tree =
     (let (tree1, found) = findNode key tree; (tree2, rest) = findNodes keys tree1
      in (tree2, case found of None \<Rightarrow> rest | Some p \<Rightarrow> p # rest))"

fun findNodeParent :: "string \<Rightarrow> 'a tnode list \<Rightarrow> path option" where
  "findNodeParent key [] = None"
| "findNodeParent key (TNode k nm fp an ex None # ns) = map_option next_sibling (findNodeParent key ns)"
| "findNodeParent key (TNode k nm fp an ex (Some cs) # ns) =
     (if list_ex (\<lambda>c. tkey c = key) cs then Some [0]
      else case findNodeParent key cs of
             Some p \<Rightarrow> Some (0 # p)
           | None \<Rightarrow> map_option next_sibling (findNodeParent key ns))"

section \<open>Changes\<close>

text \<open>One key of \<open>removeNode\<close>; the keys of the roots were read before the first removal.\<close>

definition remove_key :: "string list \<Rightarrow> string \<Rightarrow> 'a tnode list \<Rightarrow> 'a tnode list" where
  "remove_key treeKeys key tree =
     (case find_index (\<lambda>k. k = key) treeKeys of
        Some i \<Rightarrow> splice_at i 1 [] tree
      | None \<Rightarrow>
          (case findNodeParent key tree of
             None \<Rightarrow> tree
           | Some p \<Rightarrow>
               tupdate_at p (\<lambda>n. set_children (map_option (filter (\<lambda>c. tkey c \<noteq> key)) (children n)) n) tree))"

definition removeNode :: "string list \<Rightarrow> 'a tnode list \<Rightarrow> 'a tnode list" where
  "removeNode keys tree = fold (remove_key (map tkey tree)) keys tree"

text \<open>\<open>unique.by\<close> that keeps the last of the values with the same key, in the order of the kept values.\<close>

fun unique_by_last :: "('a \<Rightarrow> 'k) \<Rightarrow> 'a list \<Rightarrow> 'a list" where
  "unique_by_last f [] = []"
| "unique_by_last f (x # xs) =
     (if list_ex (\<lambda>y. f y = f x) xs then unique_by_last f xs else x # unique_by_last f xs)"

definition put_front :: "'a tnode list \<Rightarrow> 'a tnode list \<Rightarrow> 'a tnode list" where
  "put_front additions nodes =
     (let new = unique_by_last tkey additions
      in new @ filter (\<lambda>n. \<not> list_ex (\<lambda>a. tkey a = tkey n) new) nodes)"

definition setNode :: "string option \<Rightarrow> 'a tnode list \<Rightarrow> 'a tnode list \<Rightarrow> 'a tnode list \<times> string option" where
  "setNode destination additions tree =
     (case destination of
        None \<Rightarrow> (put_front additions tree, None)
      | Some d \<Rightarrow>
          (case findNode d tree of
             (tree1, None) \<Rightarrow> (tree1, Some (''Could not find node with key '' @ d))
           | (tree1, Some p) \<Rightarrow>
               (tupdate_at p (\<lambda>n. set_children
                  (Some (put_front additions (case children n of None \<Rightarrow> [] | Some cs \<Rightarrow> cs))) n) tree1, None)))"

fun move_each :: "string \<Rightarrow> string list \<Rightarrow> 'a tnode list \<Rightarrow> 'a tnode list \<times> string option" where
  "move_each d [] tree = (tree, None)"
| "move_each d (key # keys) tree =
     (case findNode key tree of
        (tree1, None) \<Rightarrow> move_each d keys tree1
      | (tree1, Some p) \<Rightarrow>
          let node = the (tnode_at p tree1)
          in case setNode (Some d) [node] (removeNode [key] tree1) of
               (tree2, None) \<Rightarrow> move_each d keys tree2
             | (tree2, Some e) \<Rightarrow> (tree2, Some e))"

definition moveNode :: "string option \<Rightarrow> string list \<Rightarrow> 'a tnode list \<Rightarrow> 'a tnode list \<times> string option" where
  "moveNode destination keys tree =
     (case destination of
        None \<Rightarrow>
          let (tree1, found) = findNodes keys tree
          in (map (\<lambda>p. the (tnode_at p tree1)) found @ filter (\<lambda>n. tkey n \<notin> set keys) tree1, None)
      | Some d \<Rightarrow> move_each d keys tree)"

definition updateNode ::
    "string \<Rightarrow> ('a tnode \<Rightarrow> 'a tnode) \<Rightarrow> bool \<Rightarrow> 'a tnode list \<Rightarrow> 'a tnode list \<times> string option" where
  "updateNode key updater throwOnMissing tree =
     (case findNode key tree of
        (tree1, None) \<Rightarrow> (tree1, if throwOnMissing then Some (''Could not find node with key '' @ key) else None)
      | (tree1, Some p) \<Rightarrow>
          let node = the (tnode_at p tree1);
              replace = (\<lambda>ns. case find_index (\<lambda>n. tkey n = key) ns of None \<Rightarrow> ns | Some i \<Rightarrow> splice_at i 1 [updater node] ns)
          in case findNodeParent key tree1 of
               Some q \<Rightarrow> (tupdate_at q (\<lambda>n. set_children (map_option replace (children n)) n) tree1, None)
             | None \<Rightarrow> (replace tree1, None))"

definition updateNodeChildren ::
    "string \<Rightarrow> ('a tnode list \<Rightarrow> 'a tnode list) \<Rightarrow> bool \<Rightarrow> 'a tnode list \<Rightarrow> 'a tnode list \<times> string option" where
  "updateNodeChildren parent updater throwOnMissing tree =
     (case findNode parent tree of
        (tree1, None) \<Rightarrow> (tree1, if throwOnMissing then Some (''Could not find node with key '' @ parent) else None)
      | (tree1, Some p) \<Rightarrow>
          (tupdate_at p (\<lambda>n. set_children (Some (updater (case children n of None \<Rightarrow> [] | Some cs \<Rightarrow> cs))) n) tree1, None))"

fun deepCopy :: "'a tnode list \<Rightarrow> 'a tnode list" where
  "deepCopy [] = []"
| "deepCopy (TNode k nm fp an ex None # ns) = TNode k nm fp an ex (Some []) # deepCopy ns"
| "deepCopy (TNode k nm fp an ex (Some cs) # ns) = TNode k nm fp an ex (Some (deepCopy cs)) # deepCopy ns"

fun getDescendants :: "'a tnode list \<Rightarrow> 'a tnode list" where
  "getDescendants [] = []"
| "getDescendants (TNode k nm fp an ex None # ns) = TNode k nm fp an ex None # getDescendants ns"
| "getDescendants (TNode k nm fp an ex (Some cs) # ns) =
     TNode k nm fp an ex (Some cs) # getDescendants cs @ getDescendants ns"

text \<open>The smallest depth starts at infinity, which is \<open>None\<close>.\<close>

definition getAllNodesOfMinDepth :: "'a tnode list \<Rightarrow> 'a tnode list" where
  "getAllNodesOfMinDepth nodes =
     (let depth = (\<lambda>n. map_option fst (annotation n));
          minDepth = foldl (\<lambda>m n. case depth n of
             None \<Rightarrow> m | Some d \<Rightarrow> if (case m of None \<Rightarrow> True | Some x \<Rightarrow> d < x) then Some d else m) None nodes
      in filter (\<lambda>n. depth n \<noteq> None \<and> depth n = minDepth) nodes)"

section \<open>Sorting and flattening\<close>

text \<open>\<open>xs.sort(cmp)\<close>, which is stable.\<close>

fun insert_by :: "('a \<Rightarrow> 'a \<Rightarrow> int) \<Rightarrow> 'a \<Rightarrow> 'a list \<Rightarrow> 'a list" where
  "insert_by cmp x [] = [x]"
| "insert_by cmp x (y # ys) = (if cmp y x < 0 then y # insert_by cmp x ys else x # y # ys)"

definition js_sort :: "('a \<Rightarrow> 'a \<Rightarrow> int) \<Rightarrow> 'a list \<Rightarrow> 'a list" where
  "js_sort cmp xs = foldr (insert_by cmp) xs []"

text \<open>One step of the loop of \<open>sortAndSplice\<close>, at the position \<open>i\<close>, and the loop, which starts again while it moved a node.\<close>

definition force_step :: "nat \<Rightarrow> 'a tnode list \<times> bool \<Rightarrow> 'a tnode list \<times> bool" where
  "force_step i st =
     (let (nodes, found) = st; node = nodes ! i
      in case forcePosition node of
           Some f \<Rightarrow> if i \<noteq> f then (splice_at f 0 [node] (splice_at i 1 [] nodes), True) else (nodes, found)
         | None \<Rightarrow> (nodes, found))"

definition force_pass :: "'a tnode list \<Rightarrow> 'a tnode list \<times> bool" where
  "force_pass nodes = fold force_step [0..<length nodes] (nodes, False)"

fun force_loop :: "nat \<Rightarrow> 'a tnode list \<Rightarrow> 'a tnode list option" where
  "force_loop 0 nodes = None"
| "force_loop (Suc fuel) nodes =
     (case force_pass nodes of (nodes', found) \<Rightarrow> if found then force_loop fuel nodes' else Some nodes')"

definition sortAndSplice ::
    "nat \<Rightarrow> ('a tnode \<Rightarrow> 'a tnode \<Rightarrow> int) option \<Rightarrow> 'a tnode list \<Rightarrow> 'a tnode list option" where
  "sortAndSplice fuel sort0 nodes =
     force_loop fuel (case sort0 of Some cmp \<Rightarrow> js_sort cmp nodes | None \<Rightarrow> nodes)"

text \<open>
  The flattened list of visible nodes. The comparison of names by \<open>localeCompare\<close> and the
  default order of siblings are parameters; the fuel bounds the depth of the tree and the loops of
  \<open>sortAndSplice\<close>.
\<close>

datatype 'a sort_option = DefaultSort | SortFlag bool | SortBy "'a tnode \<Rightarrow> 'a tnode \<Rightarrow> int"

record 'a flattened =
  f_node :: "'a tnode"
  f_depth :: nat
  f_index :: nat
  f_expanded :: bool
  f_path :: string

definition shouldExpand :: "'a tnode \<Rightarrow> string list \<Rightarrow> bool" where
  "shouldExpand n expanded \<longleftrightarrow> tkey n \<in> set expanded"

definition child_sort :: "('a tnode \<Rightarrow> 'a tnode \<Rightarrow> int) \<Rightarrow> 'a sort_option \<Rightarrow> ('a tnode \<Rightarrow> 'a tnode \<Rightarrow> int) option" where
  "child_sort defaultSort sort0 = (case sort0 of DefaultSort \<Rightarrow> Some defaultSort | SortFlag _ \<Rightarrow> None | SortBy cmp \<Rightarrow> Some cmp)"

definition root_sorts :: "nat \<Rightarrow> 'a sort_option \<Rightarrow> bool" where
  "root_sorts depth sort0 \<longleftrightarrow> depth = 0 \<and> (case sort0 of SortFlag b \<Rightarrow> b | _ \<Rightarrow> True)"

text \<open>The entries of one node, given how its children are sorted and flattened.\<close>

definition flatten_node ::
    "('a tnode list \<Rightarrow> 'a tnode list option) \<Rightarrow> (string \<Rightarrow> 'a tnode list \<Rightarrow> 'a flattened list option) \<Rightarrow> string list \<Rightarrow>
     nat \<Rightarrow> string \<Rightarrow> nat \<times> 'a tnode \<Rightarrow> 'a flattened list option" where
  "flatten_node sortChildren flattenChildren expanded depth path0 = (\<lambda>(index, node).
     let nextPath = path0 @ tkey node @ ''/'';
         expand = shouldExpand node expanded;
         entry = (\<lambda>n. \<lparr>f_node = n, f_depth = depth, f_index = index, f_expanded = expand, f_path = nextPath\<rparr>)
     in case children node of
          Some cs \<Rightarrow>
            if expand then
              (case sortChildren cs of
                 None \<Rightarrow> None
               | Some cs' \<Rightarrow> map_option (\<lambda>r. entry (set_children (Some cs') node) # r) (flattenChildren nextPath cs'))
            else Some [entry node]
        | None \<Rightarrow> Some [entry node])"

fun flatten ::
    "nat \<Rightarrow> ('a tnode \<Rightarrow> 'a tnode \<Rightarrow> int) \<Rightarrow> ('a tnode \<Rightarrow> 'a tnode \<Rightarrow> int) \<Rightarrow> 'a sort_option \<Rightarrow> string list \<Rightarrow>
     nat \<Rightarrow> string \<Rightarrow> 'a tnode list \<Rightarrow> 'a flattened list option" where
  "flatten 0 nameCompare defaultSort sort0 expanded depth path0 nodes = None"
| "flatten (Suc fuel) nameCompare defaultSort sort0 expanded depth path0 nodes =
     map_option concat (those (map
       (flatten_node (sortAndSplice fuel (child_sort defaultSort sort0))
          (\<lambda>p cs. flatten fuel nameCompare defaultSort sort0 expanded (Suc depth) p cs) expanded depth path0)
       (enumerate 0 (if root_sorts depth sort0 then js_sort nameCompare nodes else nodes))))"

section \<open>Forced positions\<close>

lemma length_force_step: "i < length (fst st) \<Longrightarrow> length (fst (force_step i st)) = length (fst st)"
  by (cases st) (auto simp: force_step_def splice_at_def Let_def split: option.splits)

lemma mset_force_step: "i < length (fst st) \<Longrightarrow> mset (fst (force_step i st)) = mset (fst st)"
proof -
  assume i: "i < length (fst st)"
  obtain ns b where st: "st = (ns, b)" by (cases st)
  have "mset ns = mset (take i ns @ ns ! i # drop (Suc i) ns)" using i st by (simp add: id_take_nth_drop [symmetric])
  then show ?thesis
    using i st mset_splice_insert [of _ "[ns ! i]" "splice_at i 1 [] ns"]
    by (auto simp: force_step_def Let_def splice_at_def [of i 1] split: option.splits)
qed

lemma force_fold:
  assumes "\<forall>i\<in>set is. i < length ns"
  shows "length (fst (fold force_step is (ns, b))) = length ns \<and> mset (fst (fold force_step is (ns, b))) = mset ns \<and>
    (b \<longrightarrow> snd (fold force_step is (ns, b))) \<and>
    (\<not> snd (fold force_step is (ns, b)) \<longrightarrow> fst (fold force_step is (ns, b)) = ns \<and>
      (\<forall>i\<in>set is. forcePosition (ns ! i) = None \<or> forcePosition (ns ! i) = Some i))"
  using assms
proof (induction "is" arbitrary: ns b)
  case (Cons i "is")
  obtain ns1 b1 where step: "force_step i (ns, b) = (ns1, b1)" by (cases "force_step i (ns, b)")
  have len: "length ns1 = length ns" and ms: "mset ns1 = mset ns"
    using length_force_step [of i "(ns, b)"] mset_force_step [of i "(ns, b)"] Cons.prems step by auto
  have b1: "b \<Longrightarrow> b1" and
    same: "\<not> b1 \<Longrightarrow> ns1 = ns \<and> (forcePosition (ns ! i) = None \<or> forcePosition (ns ! i) = Some i)"
    using step by (auto simp: force_step_def Let_def split: option.splits if_splits)
  show ?case using Cons.IH [of ns1 b1] Cons.prems len ms b1 same step by (cases b1) auto
qed simp

lemma force_loop_result:
  assumes "force_loop fuel ns = Some r"
  shows "mset r = mset ns \<and> (\<forall>i<length r. forcePosition (r ! i) = None \<or> forcePosition (r ! i) = Some i)"
  using assms
proof (induction fuel arbitrary: ns)
  case (Suc fuel)
  obtain ns1 b where pass: "force_pass ns = (ns1, b)" by (cases "force_pass ns")
  have f: "length ns1 = length ns" "mset ns1 = mset ns"
    "\<not> b \<Longrightarrow> ns1 = ns \<and> (\<forall>i<length ns. forcePosition (ns ! i) = None \<or> forcePosition (ns ! i) = Some i)"
    using force_fold [of "[0..<length ns]" ns False] pass by (auto simp: force_pass_def)
  show ?case
  proof (cases b)
    case True
    then show ?thesis using Suc pass f(2) by auto
  next
    case False
    then show ?thesis using Suc.prems pass f by auto
  qed
qed simp

lemma force_fold_placed:
  assumes "\<forall>i\<in>set is. forcePosition (ns ! i) = None \<or> forcePosition (ns ! i) = Some i"
  shows "fold force_step is (ns, b) = (ns, b)"
  using assms by (induction "is") (auto simp: force_step_def Let_def split: option.splits)

lemma force_loop_placed:
  assumes "\<forall>i<length ns. forcePosition (ns ! i) = None \<or> forcePosition (ns ! i) = Some i"
  shows "force_loop (Suc fuel) ns = Some ns"
  using force_fold_placed [of "[0..<length ns]" ns False] assms by (simp add: force_pass_def)

text \<open>A single forced node is put in its place by the first pass.\<close>

lemma force_loop_single:
  assumes j: "j < length ns" and f: "forcePosition (ns ! j) = Some f" "f < length ns"
    and others: "\<forall>i<length ns. i \<noteq> j \<longrightarrow> forcePosition (ns ! i) = None"
  shows "\<exists>r. force_loop (Suc (Suc fuel)) ns = Some r"
proof (cases "f = j")
  case True
  then have "\<forall>i<length ns. forcePosition (ns ! i) = None \<or> forcePosition (ns ! i) = Some i" using f(1) others by metis
  then show ?thesis using force_loop_placed by blast
next
  case False
  define R where "R = splice_at j 1 [] ns"
  define ns1 where "ns1 = splice_at f 0 [ns ! j] R"
  have R: "length R = length ns - 1" "forcePosition (R ! i) = None" if "i < length ns - 1" for i
    using that j others by (auto simp: R_def splice_at_def nth_append)
  have placed: "\<forall>i<length ns. forcePosition (ns1 ! i) = None \<or> forcePosition (ns1 ! i) = Some i"
  proof (intro allI impI)
    fix i assume i: "i < length ns"
    then have lenR: "length R = length ns - 1" using j by (simp add: R_def splice_at_def)
    consider "i < f" | "i = f" | "i > f" by linarith
    then show "forcePosition (ns1 ! i) = None \<or> forcePosition (ns1 ! i) = Some i"
    proof cases
      case 1
      then show ?thesis using lenR f(2) R(2) [of i] by (simp add: ns1_def splice_at_def nth_append)
    next
      case 2
      then show ?thesis using lenR f by (simp add: ns1_def splice_at_def nth_append)
    next
      case 3
      then show ?thesis using lenR f(2) i R(2) [of "i - 1"] by (simp add: ns1_def splice_at_def nth_append nth_Cons')
    qed
  qed
  have len1: "length ns1 = length ns" using j f(2) by (auto simp: ns1_def R_def splice_at_def)
  have "[0..<length ns] = [0..<j] @ j # [Suc j..<length ns]"
    using j by (metis upt_add_eq_append upt_rec le0 le_add_diff_inverse less_imp_le)
  moreover have "fold force_step [0..<j] (ns, False) = (ns, False)"
    using others j by (intro force_fold_placed) auto
  moreover have "force_step j (ns, False) = (ns1, True)"
    using f False by (simp add: force_step_def ns1_def R_def)
  moreover have "fold force_step [Suc j..<length ns] (ns1, True) = (ns1, True)"
    using placed by (intro force_fold_placed) auto
  ultimately have "force_pass ns = (ns1, True)" by (simp add: force_pass_def)
  then show ?thesis using force_loop_placed [of ns1 fuel] placed len1 by simp
qed

lemma mset_insert_by: "mset (insert_by cmp x ys) = add_mset x (mset ys)"
  by (induction ys) auto

lemma mset_js_sort: "mset (js_sort cmp xs) = mset xs"
  unfolding js_sort_def by (induction xs) (auto simp: mset_insert_by)

text \<open>A forced position that two nodes share, or that lies past the end, is never satisfied.\<close>

lemma force_loop_clash:
  assumes "mset S = mset (A @ n # B)" and "forcePosition n = Some f"
    and "(\<exists>m\<in>set (A @ B). forcePosition m = Some f) \<or> length S \<le> f"
  shows "force_loop fuel S = None"
proof (rule ccontr)
  assume "force_loop fuel S \<noteq> None"
  then obtain r where "force_loop fuel S = Some r" by blast
  from force_loop_result [OF this] have r: "mset r = mset S" and
    place: "i < length r \<Longrightarrow> forcePosition (r ! i) = Some f \<Longrightarrow> i = f" for i
    by (metis option.distinct(1) option.inject)+
  let ?Q = "\<lambda>m. forcePosition m = Some f"
  have len: "length r = length S" using r by (rule mset_eq_length)
  have "n \<in> set r" using r assms(1) by (metis in_set_conv_decomp mset_eq_setD)
  then have "f < length S" using place assms(2) len by (metis in_set_conv_nth)
  have "length (filter ?Q r) = card {i. i < length r \<and> ?Q (r ! i)}" by (rule length_filter_conv_card)
  also have "\<dots> \<le> card {f}" using place by (intro card_mono) auto
  finally have "length (filter ?Q r) \<le> 1" by simp
  moreover have "mset (filter ?Q r) = mset (filter ?Q (A @ n # B))" using r assms(1) by (simp add: mset_filter)
  then have "length (filter ?Q r) = length (filter ?Q (A @ n # B))" by (rule mset_eq_length)
  moreover obtain m where "m \<in> set (A @ B)" "?Q m" using assms(3) \<open>f < length S\<close> by auto
  then have "filter ?Q (A @ B) \<noteq> []" by (auto simp: filter_empty_conv)
  then have "length (filter ?Q (A @ n # B)) \<ge> 2" using assms(2) by (auto simp: Suc_le_eq)
  ultimately show False by simp
qed

lemma force_loop_one:
  assumes "mset S = mset (A @ n # B)" and "forcePosition n = Some f" and "\<forall>m\<in>set (A @ B). forcePosition m = None"
    and "f < length S"
  shows "\<exists>r. force_loop (Suc (Suc fuel)) S = Some r"
proof -
  let ?P = "\<lambda>m. forcePosition m \<noteq> None"
  have "filter ?P A = []" "filter ?P B = []" using assms(3) by (simp_all add: filter_empty_conv)
  then have "mset (filter ?P S) = {#n#}" using assms(1,2) by (simp add: mset_filter [symmetric])
  then have "filter ?P S = [n]" by (simp only: mset_single_iff)
  then obtain C D where S: "S = C @ n # D" and free: "\<forall>m\<in>set C. \<not> ?P m" "filter ?P D = []"
    by (auto dest!: filter_eq_ConsD)
  have "\<forall>m\<in>set D. \<not> ?P m" using free(2) by (simp add: filter_empty_conv)
  with free(1) have "\<forall>i<length S. i \<noteq> length C \<longrightarrow> forcePosition (S ! i) = None"
    by (auto simp: S nth_append nth_Cons')
  then show ?thesis using force_loop_single [of "length C" S f fuel] assms(2,4) S by simp
qed

text \<open>
  \<open>sortAndSplice\<close> puts the nodes with a forced position in their places. Whenever it
  returns, the result has the same nodes, and every node with a forced position is at it. It returns
  when no node or one node has a forced position, inside the list; it never returns when two nodes are
  forced to the same position or when a forced position is past the end of the list.
\<close>

theorem sortAndSplice_places:
  fixes nodes :: "'a tnode list"
  shows "(sortAndSplice fuel sort0 nodes = Some r \<longrightarrow>
      mset r = mset nodes \<and> (\<forall>i<length r. \<forall>f. forcePosition (r ! i) = Some f \<longrightarrow> i = f)) \<and>
    ((\<forall>n\<in>set nodes. forcePosition n = None) \<longrightarrow> (\<exists>r. sortAndSplice (Suc fuel) sort0 nodes = Some r)) \<and>
    (\<forall>A n B f. nodes = A @ n # B \<longrightarrow> forcePosition n = Some f \<longrightarrow>
      ((\<forall>m\<in>set (A @ B). forcePosition m = None) \<longrightarrow> f < length nodes \<longrightarrow>
         (\<exists>r. sortAndSplice (Suc (Suc fuel)) sort0 nodes = Some r)) \<and>
      ((\<exists>m\<in>set (A @ B). forcePosition m = Some f) \<or> length nodes \<le> f \<longrightarrow> sortAndSplice fuel sort0 nodes = None))"
proof -
  define S where "S = (case sort0 of Some cmp \<Rightarrow> js_sort cmp nodes | None \<Rightarrow> nodes)"
  have S: "mset S = mset nodes" by (simp add: S_def mset_js_sort split: option.split)
  have loop: "sortAndSplice k sort0 nodes = force_loop k S" for k by (simp add: sortAndSplice_def S_def)
  have len: "length S = length nodes" using S by (rule mset_eq_length)
  have result: "mset r = mset nodes \<and> (\<forall>i<length r. \<forall>f. forcePosition (r ! i) = Some f \<longrightarrow> i = f)"
    if "sortAndSplice fuel sort0 nodes = Some r"
    using force_loop_result [of fuel S r] that S by (auto simp: loop)
  have none: "\<exists>r. sortAndSplice (Suc fuel) sort0 nodes = Some r" if "\<forall>n\<in>set nodes. forcePosition n = None"
  proof -
    have "\<forall>i<length S. forcePosition (S ! i) = None" using that S by (metis mset_eq_setD nth_mem)
    then show ?thesis using force_loop_placed [of S fuel] by (simp add: loop)
  qed
  have one: "\<exists>r. sortAndSplice (Suc (Suc fuel)) sort0 nodes = Some r"
    if "nodes = A @ n # B" "forcePosition n = Some f" "\<forall>m\<in>set (A @ B). forcePosition m = None" "f < length nodes" for A n B f
    unfolding loop by (rule force_loop_one [OF _ that(2,3)]) (use that S len in auto)
  have clash: "sortAndSplice fuel sort0 nodes = None"
    if "nodes = A @ n # B" "forcePosition n = Some f" "(\<exists>m\<in>set (A @ B). forcePosition m = Some f) \<or> length nodes \<le> f" for A n B f
    unfolding loop by (rule force_loop_clash [OF _ that(2)]) (use that S len in auto)
  show ?thesis
    by (rule conjI [OF impI [OF result]], assumption, rule conjI [OF impI [OF none]], assumption,
        intro allI impI conjI; (rule one clash; assumption))
qed

theorem sortAndSplice_places_witness:
  "(\<exists>r. sortAndSplice 2 None [TNode ''a'' [] None None () None, TNode ''b'' [] (Some 0) None () None] = Some r) \<and>
   sortAndSplice 7 None [TNode ''a'' [] (Some 0) None () None, TNode ''b'' [] (Some 0) None () None] = None"
proof -
  let ?a = "TNode ''a'' [] None None () None" and ?c = "TNode ''a'' [] (Some 0) None () None"
  let ?b = "TNode ''b'' [] (Some 0) None () None"
  note places = sortAndSplice_places [THEN conjunct2, THEN conjunct2, THEN spec, THEN spec, THEN spec, THEN spec]
  have "\<exists>r. sortAndSplice (Suc (Suc 0)) None [?a, ?b] = Some r"
    using places [of "[?a, ?b]" "[?a]" ?b "[]" 0 0 None] by simp
  moreover have "sortAndSplice 7 None [?c, ?b] = None"
    using places [of "[?c, ?b]" "[?c]" ?b "[]" 0 7 None] by simp
  ultimately show ?thesis by (simp add: numeral_2_eq_2)
qed

section \<open>Keys\<close>

definition keys_of :: "'a tnode list \<Rightarrow> string list" where
  "keys_of tree = map tkey (getDescendants tree)"

lemma keys_of_simps [simp]:
  "keys_of [] = []"
  "keys_of (TNode k nm fp an ex None # ns) = k # keys_of ns"
  "keys_of (TNode k nm fp an ex (Some cs) # ns) = k # keys_of cs @ keys_of ns"
  by (simp_all add: keys_of_def)

lemma keys_of_append: "keys_of (a @ b) = keys_of a @ keys_of b"
  by (induction a rule: getDescendants.induct) auto

lemma root_keys: "n \<in> set tree \<Longrightarrow> tkey n \<in> set (keys_of tree)"
  by (induction tree rule: getDescendants.induct) auto

lemma find_path_None: "find_path key tree = None \<longleftrightarrow> key \<notin> set (keys_of tree)"
  by (induction key tree rule: find_path.induct) (auto split: option.splits)

lemma find_path_not_Nil: "find_path key tree \<noteq> Some []"
  by (induction key tree rule: find_path.induct) (auto simp: next_sibling_def split: option.splits list.splits)

text \<open>The tree without the subtree of a key.\<close>

fun prune :: "string \<Rightarrow> 'a tnode list \<Rightarrow> 'a tnode list" where
  "prune key [] = []"
| "prune key (TNode k nm fp an ex None # ns) = (if k = key then prune key ns else TNode k nm fp an ex None # prune key ns)"
| "prune key (TNode k nm fp an ex (Some cs) # ns) =
     (if k = key then prune key ns else TNode k nm fp an ex (Some (prune key cs)) # prune key ns)"

lemma prune_absent: "key \<notin> set (keys_of tree) \<Longrightarrow> prune key tree = tree"
  by (induction key tree rule: prune.induct) auto

lemma prune_roots:
  assumes "distinct (keys_of tree)" and "key \<in> tkey ` set tree"
  shows "prune key tree = filter (\<lambda>n. tkey n \<noteq> key) tree"
  using assms
proof (induction key tree rule: prune.induct)
  case (3 key k nm fp an ex cs ns)
  have "filter (\<lambda>n. tkey n \<noteq> k) ns = ns" if "k \<notin> set (keys_of ns)"
    using that root_keys by (metis (mono_tags, lifting) filter_True)
  moreover have "key \<notin> set (keys_of cs)" if "k \<noteq> key"
    using that 3(4,5) root_keys [of _ ns] by auto
  ultimately show ?case using 3 by (auto simp: prune_absent)
next
  case (2 key k nm fp an ex ns)
  have "filter (\<lambda>n. tkey n \<noteq> k) ns = ns" if "k \<notin> set (keys_of ns)"
    using that root_keys by (metis (mono_tags, lifting) filter_True)
  then show ?case using 2 by (auto simp: prune_absent)
qed simp

lemma filter_out_one:
  assumes "distinct (map f xs)" and "find_index (\<lambda>k. k = key) (map f xs) = Some i"
  shows "splice_at i 1 [] xs = filter (\<lambda>x. f x \<noteq> key) xs"
  using assms
proof (induction xs arbitrary: i)
  case (Cons x xs)
  show ?case
  proof (cases "f x = key")
    case True
    then have "filter (\<lambda>y. f y \<noteq> key) xs = xs" using Cons.prems(1) by (force simp: image_iff intro!: filter_True)
    then show ?thesis using Cons.prems True by (simp add: splice_at_def)
  next
    case False
    then obtain j where "i = Suc j" "find_index (\<lambda>k. k = key) (map f xs) = Some j" using Cons.prems(2) by auto
    then show ?thesis using Cons False by (simp add: splice_at_def)
  qed
qed simp

lemma distinct_roots: "distinct (keys_of tree) \<Longrightarrow> distinct (map tkey tree)"
  by (induction tree rule: getDescendants.induct) (auto dest: root_keys)

lemma findNodeParent_prune:
  assumes "distinct (keys_of tree)" and "key \<notin> tkey ` set tree"
  shows "case findNodeParent key tree of
      None \<Rightarrow> key \<notin> set (keys_of tree)
    | Some p \<Rightarrow> p \<noteq> [] \<and> key \<in> set (keys_of tree) \<and>
        tupdate_at p (\<lambda>n. set_children (map_option (filter (\<lambda>c. tkey c \<noteq> key)) (children n)) n) tree = prune key tree"
  using assms
proof (induction key tree rule: findNodeParent.induct)
  case (2 key k nm fp an ex ns)
  then show ?case by (auto simp: next_sibling_def split: option.splits list.splits)
next
  case (3 key k nm fp an ex cs ns)
  show ?case
  proof (cases "list_ex (\<lambda>c. tkey c = key) cs")
    case True
    then have "key \<in> tkey ` set cs" by (auto simp: list_ex_iff)
    then have "key \<in> set (keys_of cs)" using root_keys by auto
    then have "key \<notin> set (keys_of ns)" using 3(3) by auto
    then show ?thesis
      using True 3(3,4) prune_roots [of cs key] \<open>key \<in> tkey ` set cs\<close> \<open>key \<in> set (keys_of cs)\<close>
      by (auto simp: set_children_def prune_absent)
  next
    case False
    then have "key \<notin> tkey ` set cs" by (auto simp: list_ex_iff)
    with 3 False show ?thesis
      by (auto simp: set_children_def next_sibling_def prune_absent disjoint_iff split: option.splits list.splits)
  qed
qed simp

lemma removeNode_prune:
  assumes "distinct (keys_of tree)"
  shows "removeNode [key] tree = prune key tree"
proof (cases "key \<in> tkey ` set tree")
  case True
  then obtain i where i: "find_index (\<lambda>k. k = key) (map tkey tree) = Some i"
    by (cases "find_index (\<lambda>k. k = key) (map tkey tree)") (auto simp: find_index_None_iff)
  then show ?thesis
    using filter_out_one [OF distinct_roots [OF assms] i] prune_roots [OF assms True]
    by (simp add: removeNode_def remove_key_def)
next
  case False
  then have "find_index (\<lambda>k. k = key) (map tkey tree) = None" by (auto simp: find_index_None_iff)
  then show ?thesis
    using findNodeParent_prune [OF assms False]
    by (auto simp: removeNode_def remove_key_def prune_absent split: option.splits)
qed

lemma find_path_node:
  assumes "distinct (keys_of tree)" and "find_path key tree = Some p"
  shows "\<exists>n. tnode_at p tree = Some n \<and> tkey n = key \<and>
    mset (keys_of tree) = mset (keys_of (prune key tree)) + mset (keys_of [n])"
  using assms
proof (induction key tree arbitrary: p rule: find_path.induct)
  case (2 key k nm fp an ex ns)
  show ?case
  proof (cases "k = key")
    case True
    then show ?thesis using 2(2,3) by (auto simp: prune_absent)
  next
    case False
    then obtain q where q: "find_path key ns = Some q" "p = next_sibling q" using 2(3) by auto
    then obtain j q' where "q = j # q'" using find_path_not_Nil by (cases q) auto
    then show ?thesis using 2(1) [OF False _ q(1)] 2(2) False q(2) by (auto simp: next_sibling_def)
  qed
next
  case (3 key k nm fp an ex cs ns)
  show ?case
  proof (cases "k = key")
    case True
    then show ?thesis using 3(3,4) by (auto simp: prune_absent)
  next
    case False
    show ?thesis
    proof (cases "find_path key cs")
      case (Some q)
      then have "key \<in> set (keys_of cs)" using find_path_None [of key cs] by auto
      then have "prune key ns = ns" using 3(3) by (auto intro: prune_absent)
      moreover have "q \<noteq> []" using Some find_path_not_Nil by auto
      ultimately show ?thesis
        using 3(1) [OF False _ Some] 3(3,4) False Some by (auto simp: ac_simps)
    next
      case None
      then have "prune key cs = cs" using find_path_None [of key cs] by (simp add: prune_absent)
      obtain q where q: "find_path key ns = Some q" "p = next_sibling q" using 3(4) False None by auto
      then obtain j q' where "q = j # q'" using find_path_not_Nil by (cases q) auto
      then show ?thesis
        using 3(2) [OF False None _ q(1)] 3(3) False None q(2) \<open>prune key cs = cs\<close> by (auto simp: next_sibling_def)
    qed
  qed
qed simp

text \<open>The depth and the position that \<open>findNode\<close> writes change no key.\<close>

lemma annotate_simps [simp]:
  "annotate d i (TNode k nm fp an ex cs) = TNode k nm fp (Some (d, i)) ex cs"
  by (simp add: annotate_def)

lemma set_children_simps [simp]:
  "set_children cs (TNode k nm fp an ex cs') = TNode k nm fp an ex cs"
  by (simp add: set_children_def)

lemma keys_annotate: "keys_of (tupdate_at p (annotate d i) tree) = keys_of tree"
proof (induction p "annotate d i :: 'a tnode \<Rightarrow> 'a tnode" tree rule: tupdate_at.induct)
  case (1 p n ns)
  then show ?case by (cases n; cases "children n") auto
next
  case (2 j p n ns)
  then show ?case by (cases n; cases "children n") auto
qed simp_all

lemma find_path_annotate: "find_path key (tupdate_at p (annotate d i) tree) = find_path key tree"
proof (induction p "annotate d i :: 'a tnode \<Rightarrow> 'a tnode" tree rule: tupdate_at.induct)
  case (1 p n ns)
  then show ?case by (cases n; cases "children n") (auto split: option.split)
next
  case (2 j p n ns)
  then show ?case by (cases n; cases "children n") (auto split: option.split)
qed simp_all

text \<open>A new child at a node that was found.\<close>

definition add_child :: "'a tnode \<Rightarrow> 'a tnode \<Rightarrow> 'a tnode" where
  "add_child a n = set_children (Some (put_front [a] (case children n of None \<Rightarrow> [] | Some cs \<Rightarrow> cs))) n"

lemma put_front_new: "tkey a \<notin> tkey ` set cs \<Longrightarrow> put_front [a] cs = a # cs"
  by (auto simp: put_front_def Let_def intro!: filter_True)

text \<open>
  In a tree whose keys are distinct, removing one key removes exactly the subtree of that key, at
  any depth, and nothing when there is no such key. Removing several roots at once goes wrong: the
  positions are those of the tree before the first removal, so that removing the first two of three
  roots removes the first and the third.
\<close>

theorem removeNode_spec:
  assumes "distinct (keys_of tree)"
  shows "(key \<notin> set (keys_of tree) \<longrightarrow> removeNode [key] tree = tree) \<and>
    (\<forall>p. find_path key tree = Some p \<longrightarrow> (\<exists>n. tnode_at p tree = Some n \<and> tkey n = key \<and>
       removeNode [key] tree = prune key tree \<and>
       mset (keys_of tree) = mset (keys_of (removeNode [key] tree)) + mset (keys_of [n]))) \<and>
    (\<forall>a b c. tree = [a, b, c] \<longrightarrow> removeNode [tkey a, tkey b] tree = [b])"
proof -
  have "removeNode [tkey a, tkey b] tree = [b]" if "tree = [a, b, c]" for a b c
    using that distinct_roots [OF assms] by (simp add: removeNode_def remove_key_def splice_at_def)
  moreover have "removeNode [key] tree = prune key tree" by (rule removeNode_prune [OF assms])
  ultimately show ?thesis
    using find_path_node [OF assms, of key] prune_absent [of key tree] by (intro conjI allI impI) simp_all
qed

text \<open>
  What a tree says of a key: the name, the forced position and the data of its first node, and the keys of its children.
  The depth and position that \<open>findNode\<close> writes are left out.
\<close>

type_synonym 'a entry = "string \<times> nat option \<times> 'a \<times> string list option"

fun entry :: "string \<Rightarrow> 'a tnode list \<Rightarrow> 'a entry option" where
  "entry key [] = None"
| "entry key (TNode k nm fp an ex None # ns) = (if k = key then Some (nm, fp, ex, None) else entry key ns)"
| "entry key (TNode k nm fp an ex (Some cs) # ns) =
     (if k = key then Some (nm, fp, ex, Some (map tkey cs))
      else case entry key cs of Some e \<Rightarrow> Some e | None \<Rightarrow> entry key ns)"

definition without_child :: "string \<Rightarrow> 'a entry \<Rightarrow> 'a entry" where
  "without_child key = (\<lambda>(nm, fp, ex, cs). (nm, fp, ex, map_option (filter (\<lambda>c. c \<noteq> key)) cs))"

definition with_child :: "string \<Rightarrow> 'a entry \<Rightarrow> 'a entry" where
  "with_child key = (\<lambda>(nm, fp, ex, cs). (nm, fp, ex, Some (key # filter (\<lambda>c. c \<noteq> key) (case cs of None \<Rightarrow> [] | Some cs \<Rightarrow> cs))))"

text \<open>The keys of the subtree of a key.\<close>

definition branch_keys :: "string \<Rightarrow> 'a tnode list \<Rightarrow> string set" where
  "branch_keys key tree = (case find_path key tree of None \<Rightarrow> {} | Some p \<Rightarrow> set (keys_of [the (tnode_at p tree)]))"

lemma entry_None: "entry key tree = None \<longleftrightarrow> key \<notin> set (keys_of tree)"
  by (induction key tree rule: entry.induct) (auto split: option.splits)

lemma entry_append: "entry key (a @ b) = (case entry key a of Some e \<Rightarrow> Some e | None \<Rightarrow> entry key b)"
  by (induction key a rule: entry.induct) (auto split: option.split)

lemma entry_annotate: "entry key (tupdate_at p (annotate d i) tree) = entry key tree"
  and roots_annotate: "map tkey (tupdate_at p (annotate d i) tree) = map tkey tree"
proof -
  show roots: "map tkey (tupdate_at p (annotate d i) tree) = map tkey tree" for p and tree :: "'a tnode list"
  proof (induction p "annotate d i :: 'a tnode \<Rightarrow> 'a tnode" tree rule: tupdate_at.induct)
    case (1 p n ns)
    then show ?case by (cases n) auto
  qed auto
  show "entry key (tupdate_at p (annotate d i) tree) = entry key tree"
  proof (induction p "annotate d i :: 'a tnode \<Rightarrow> 'a tnode" tree rule: tupdate_at.induct)
    case (1 p n ns)
    then show ?case by (cases n; cases "children n") (auto simp: roots split: option.split)
  next
    case (2 j p n ns)
    then show ?case by (cases n; cases "children n") (auto split: option.split)
  qed simp_all
qed

lemma roots_prune: "map tkey (prune key tree) = filter (\<lambda>k. k \<noteq> key) (map tkey tree)"
  by (induction key tree rule: prune.induct) auto

lemma keys_prune: "set (keys_of (prune key tree)) \<subseteq> set (keys_of tree)"
  by (induction key tree rule: prune.induct) auto

lemma entry_prune:
  assumes "distinct (keys_of tree)"
  shows "entry k (prune key tree) = (if k \<in> set (keys_of (prune key tree)) then map_option (without_child key) (entry k tree) else None)"
  using assms
proof (induction key tree rule: prune.induct)
  case (2 key k' nm fp an ex ns)
  then show ?case using keys_prune [of key ns] by (auto simp: without_child_def entry_None)
next
  case (3 key k' nm fp an ex cs ns)
  have sub: "set (keys_of (prune key cs)) \<subseteq> set (keys_of cs)" "set (keys_of (prune key ns)) \<subseteq> set (keys_of ns)" by (rule keys_prune)+
  have d: "distinct (keys_of cs)" "distinct (keys_of ns)" "k' \<notin> set (keys_of ns)" "set (keys_of cs) \<inter> set (keys_of ns) = {}" using 3(4) by auto
  have out: "entry k cs = None" if "k \<in> set (keys_of ns)" using d(4) that by (auto simp: entry_None)
  show ?case
  proof (cases "k' = key")
    case True
    then show ?thesis using 3(1) [OF True d(2)] sub(2) d(3) out by (cases "k \<in> set (keys_of (prune key ns))") auto
  next
    case False
    note IH = 3(2) [OF False d(1)] 3(3) [OF False d(2)]
    consider "k = k'" | "k \<noteq> k'" "k \<in> set (keys_of (prune key cs))" | "k \<noteq> k'" "k \<notin> set (keys_of (prune key cs))" by blast
    then show ?thesis
    proof cases
      case 1
      then show ?thesis using False roots_prune [of key cs] by (simp add: without_child_def)
    next
      case 2
      then have "entry k cs \<noteq> None" using sub(1) by (auto simp: entry_None)
      then show ?thesis using 2 IH(1) False by auto
    next
      case 3
      then show ?thesis using IH False out sub(2) by (cases "k \<in> set (keys_of (prune key ns))") auto
    qed
  qed
qed simp

lemma entry_branch:
  assumes "distinct (keys_of tree)" and "find_path key tree = Some p" and "tnode_at p tree = Some n" and "k \<in> set (keys_of [n])"
  shows "entry k [n] = entry k tree"
  using assms
proof (induction key tree arbitrary: p rule: find_path.induct)
  case (2 key k' nm fp an ex ns)
  show ?case
  proof (cases "k' = key")
    case False
    then obtain q where q: "find_path key ns = Some q" "p = next_sibling q" using 2(3) by auto
    then obtain j q' where "q = j # q'" using find_path_not_Nil by (cases q) auto
    then have "entry k [n] = entry k ns" using 2(1) [OF False _ q(1)] 2(2,4,5) q(2) by (simp add: next_sibling_def)
    moreover have "k \<in> set (keys_of ns)" using calculation 2(5) entry_None by metis
    ultimately show ?thesis using 2(2) by auto
  qed (use 2 in auto)
next
  case (3 key k' nm fp an ex cs ns)
  consider "k' = key" | q where "k' \<noteq> key" "find_path key cs = Some q" "p = 0 # q" | q where "k' \<noteq> key" "find_path key cs = None" "find_path key ns = Some q" "p = next_sibling q"
    using 3(4) by (auto split: option.splits if_splits)
  then show ?case
  proof cases
    case 1
    then have n: "n = TNode k' nm fp an ex (Some cs)" using 3(4,5) by auto
    have "entry k cs \<noteq> None" if "k \<noteq> k'" using 3(6) that by (simp add: n entry_None)
    then show ?thesis by (auto simp: n)
  next
    case 2
    then have "q \<noteq> []" using find_path_not_Nil by auto
    then have "entry k [n] = entry k cs" using 3(1) [OF 2(1) _ 2(2)] 3(3,5,6) 2(3) by simp
    moreover have "k \<in> set (keys_of cs)" using calculation 3(6) entry_None by metis
    moreover have "entry k cs \<noteq> None" using calculation(2) by (simp add: entry_None)
    ultimately show ?thesis using 3(3) by auto
  next
    case last: 3
    then obtain j q' where "q = j # q'" using find_path_not_Nil by (cases q) auto
    then have "entry k [n] = entry k ns" using 3(2) [OF last(1,2) _ last(3)] 3(3,5,6) last(4) by (simp add: next_sibling_def)
    moreover have "k \<in> set (keys_of ns)" using calculation 3(6) entry_None by metis
    moreover have "entry k cs = None" using calculation(2) 3(3) by (auto simp: entry_None)
    ultimately show ?thesis using 3(3) by auto
  qed
qed simp

lemma entry_add_child:
  assumes "find_path d tree = Some q" and "set (keys_of [a]) \<inter> set (keys_of tree) = {}"
  shows "entry k (tupdate_at q (add_child a) tree) =
      (if k = d then map_option (with_child (tkey a)) (entry k tree) else case entry k [a] of Some e \<Rightarrow> Some e | None \<Rightarrow> entry k tree) \<and>
    map tkey (tupdate_at q (add_child a) tree) = map tkey tree"
  using assms
proof (induction d tree arbitrary: q rule: find_path.induct)
  case (2 d k' nm fp an ex ns)
  show ?case
  proof (cases "k' = d")
    case True
    then show ?thesis using 2(2) by (auto simp: add_child_def put_front_def with_child_def split: option.split)
  next
    case False
    then obtain r where r: "find_path d ns = Some r" "q = next_sibling r" using 2(2) by auto
    then obtain j r' where "r = j # r'" using find_path_not_Nil by (cases r) auto
    moreover have "entry k' [a] = None" using 2(3) by (auto simp: entry_None)
    ultimately show ?thesis using 2(1) [OF False r(1)] 2(3) r(2) False by (auto simp: next_sibling_def split: option.split)
  qed
next
  case (3 d k' nm fp an ex cs ns)
  have "tkey a \<in> set (keys_of [a])" by (rule root_keys) simp
  then have other: "tkey x \<noteq> tkey a" if "x \<in> set cs" for x using 3(4) that root_keys [of x cs] by (auto simp: disjoint_iff)
  have new: "put_front [a] cs = a # cs" using other by (intro put_front_new) force
  have none: "entry k' [a] = None" using 3(4) by (auto simp: entry_None)
  have fresh: "filter (\<lambda>c. c \<noteq> tkey a) (map tkey cs) = map tkey cs"
    using other by (auto intro!: filter_True)
  consider "k' = d" | r where "k' \<noteq> d" "find_path d cs = Some r" "q = 0 # r"
    | r where "k' \<noteq> d" "find_path d cs = None" "find_path d ns = Some r" "q = next_sibling r"
    using 3(3) by (auto split: option.splits if_splits)
  then show ?case
  proof cases
    case 1
    then show ?thesis using 3(3) new fresh entry_append [of k "[a]" cs]
      by (auto simp: add_child_def with_child_def split: option.split)
  next
    case 2
    then have "r \<noteq> []" using find_path_not_Nil by auto
    moreover have "entry d cs \<noteq> None" using 2(2) find_path_None [of d cs] entry_None [of d cs] by auto
    moreover have "set (keys_of [a]) \<inter> set (keys_of cs) = {}" using 3(4) by auto
    note 3(1) [OF 2(1,2) this]
    ultimately show ?thesis using 2(1,3) none by (cases "k = k'"; cases "k = d"; cases "entry k [a]"; cases "entry k cs") simp_all
  next
    case last: 3
    then obtain j r' where "r = j # r'" using find_path_not_Nil by (cases r) auto
    moreover have "entry d cs = None" using last(2) find_path_None [of d cs] entry_None [of d cs] by auto
    moreover have "entry k cs = None \<or> entry k [a] = None" using 3(4) by (auto simp: entry_None)
    moreover have "set (keys_of [a]) \<inter> set (keys_of ns) = {}" using 3(4) by auto
    note 3(2) [OF last(1,2,3) this]
    ultimately show ?thesis using last(1,4) none
      by (cases "k = k'"; cases "k = d"; cases "entry k [a]"; cases "entry k cs") (simp_all add: next_sibling_def)
  qed
qed simp

lemma tnode_at_tupdate: "tnode_at p tree = Some n \<Longrightarrow> tnode_at p (tupdate_at p f tree) = Some (f n)"
proof (induction p tree arbitrary: n rule: tnode_at.induct)
  case (1 p m ns)
  then show ?case by (cases m; cases "children m") (auto split: if_splits)
qed auto

lemma find_in_siblings:
  "map_option next_sibling (find_path key ns) = Some p \<Longrightarrow> \<exists>j q. find_path key ns = Some (j # q) \<and> p = Suc j # q"
  using find_path_not_Nil [of key ns] by (cases "the (find_path key ns)") (auto simp: next_sibling_def)

lemma root_is_found:
  "distinct (keys_of tree) \<Longrightarrow> r \<in> set tree \<Longrightarrow> find_path (tkey r) tree = Some p \<Longrightarrow> tnode_at p tree = Some r"
proof (induction "tkey r" tree arbitrary: p rule: find_path.induct)
  case (2 k nm fp an ex ns)
  show ?case
  proof (cases "k = tkey r")
    case True
    then show ?thesis using 2(2-4) root_keys [of r ns] by auto
  next
    case False
    then obtain j q where "find_path (tkey r) ns = Some (j # q)" "p = Suc j # q"
      using 2(4) find_in_siblings [of "tkey r" ns p] by auto
    then show ?thesis using 2(1) [OF False] 2(2,3) False by auto
  qed
next
  case (3 k nm fp an ex cs ns)
  show ?case
  proof (cases "k = tkey r")
    case True
    then show ?thesis using 3(3-5) root_keys [of r ns] by auto
  next
    case False
    then have ns: "r \<in> set ns" using 3(4) by auto
    then have none: "find_path (tkey r) cs = None" using 3(3) root_keys [of r ns] find_path_None [of "tkey r" cs] by auto
    then obtain j q where "find_path (tkey r) ns = Some (j # q)" "p = Suc j # q"
      using 3(5) False find_in_siblings [of "tkey r" ns p] by auto
    then show ?thesis using 3(2) [OF False none] 3(3) ns by auto
  qed
qed simp

lemma entry_Cons: "entry k (n # ns) = (case entry k [n] of Some e \<Rightarrow> Some e | None \<Rightarrow> entry k ns)"
  using entry_append [of k "[n]" ns] by simp

lemma entry_other_roots:
  "\<forall>r\<in>set tree. tkey r = key \<longrightarrow> k \<notin> set (keys_of [r]) \<Longrightarrow> entry k (filter (\<lambda>n. tkey n \<noteq> key) tree) = entry k tree"
proof (induction tree)
  case (Cons n ns)
  then have "entry k [n] = None" if "tkey n = key" using that by (simp add: entry_None)
  then show ?case using Cons by (cases "tkey n = key"; cases "entry k [n]") (simp_all add: entry_Cons [of k n ns] entry_Cons [of k n "filter (\<lambda>n. tkey n \<noteq> key) ns"])
qed simp

text \<open>Moving one key sets the subtree that was found, after its removal; a move to the root level leaves the tree as it is below.\<close>

lemma moveNode_one:
  assumes "distinct (keys_of tree)" and "key \<in> set (keys_of tree)"
  obtains n tree1 where "tkey n = key" and "set (keys_of [n]) = branch_keys key tree"
    and "moveNode (Some d) [key] tree = setNode (Some d) [n] (prune key tree1)"
    and "moveNode None [key] tree = (n # filter (\<lambda>m. tkey m \<noteq> key) tree1, None)"
    and "distinct (keys_of tree1)" and "\<And>k. entry k tree1 = entry k tree" and "map tkey tree1 = map tkey tree"
    and "\<And>k. k \<in> set (keys_of [n]) \<Longrightarrow> entry k [n] = entry k tree" and "keys_of tree1 = keys_of tree"
    and "set (keys_of (prune key tree1)) = set (keys_of tree) - set (keys_of [n])"
    and "\<And>r. r \<in> set tree1 \<Longrightarrow> tkey r = key \<Longrightarrow> r = n"
proof -
  obtain p where p: "find_path key tree = Some p" using assms(2) find_path_None [of key tree] by auto
  define tree1 where "tree1 = tupdate_at p (annotate (length p - 1) (last p)) tree"
  have t1: "findNode key tree = (tree1, Some p)" "find_path key tree1 = Some p" "keys_of tree1 = keys_of tree"
      "map tkey tree1 = map tkey tree" "\<And>k. entry k tree1 = entry k tree"
    using p by (simp_all add: findNode_def tree1_def find_path_annotate keys_annotate roots_annotate entry_annotate)
  have dist: "distinct (keys_of tree1)" using assms(1) t1(3) by simp
  obtain m where m: "tnode_at p tree = Some m" using find_path_node [OF assms(1) p] by blast
  obtain n where n: "tnode_at p tree1 = Some n" "tkey n = key"
    "mset (keys_of tree1) = mset (keys_of (prune key tree1)) + mset (keys_of [n])"
    using find_path_node [OF dist t1(2)] by blast
  have "n = annotate (length p - 1) (last p) m" using n(1) tnode_at_tupdate [OF m] by (simp add: tree1_def)
  moreover have "keys_of [annotate i j m] = keys_of [m]" for i j by (cases m; cases "children m") simp_all
  ultimately have branch: "set (keys_of [n]) = branch_keys key tree" by (simp add: branch_keys_def p m)
  have keys: "mset (keys_of tree1) = mset (keys_of (prune key tree1) @ keys_of [n])" using n(3) by simp
  have disj: "distinct (keys_of (prune key tree1) @ keys_of [n])" using keys dist mset_eq_imp_distinct_iff by blast
  have rest: "set (keys_of (prune key tree1)) = set (keys_of tree) - set (keys_of [n])" using mset_eq_setD [OF keys] disj t1(3) by auto
  have mv: "moveNode (Some d) [key] tree = setNode (Some d) [n] (prune key tree1)"
    using t1(1) n(1) removeNode_prune [OF dist, of key]
    by (cases "setNode (Some d) [n] (prune key tree1)"; cases "snd (setNode (Some d) [n] (prune key tree1))") (simp_all add: moveNode_def)
  have top: "moveNode None [key] tree = (n # filter (\<lambda>m. tkey m \<noteq> key) tree1, None)"
    using t1(1) n(1) by (simp add: moveNode_def)
  show thesis
    by (rule that [OF n(2) branch mv top dist t1(5,4) _ t1(3) rest])
      (use entry_branch [OF dist t1(2) n(1)] t1(2,5) root_is_found [OF dist] n(1) in auto)
qed

lemma setNode_child:
  assumes "set (keys_of [a]) \<inter> set (keys_of tree) = {}"
  shows "if d \<in> set (keys_of tree)
    then \<exists>tree'. setNode (Some d) [a] tree = (tree', None) \<and> map tkey tree' = map tkey tree \<and>
       (\<forall>k. entry k tree' = (if k = d then map_option (with_child (tkey a)) (entry k tree)
          else case entry k [a] of Some e \<Rightarrow> Some e | None \<Rightarrow> entry k tree))
    else setNode (Some d) [a] tree = (tree, Some (''Could not find node with key '' @ d))"
proof (cases "find_path d tree")
  case None
  then show ?thesis using find_path_None [of d tree] by (simp add: setNode_def findNode_def)
next
  case (Some q)
  let ?t = "tupdate_at q (annotate (length q - 1) (last q)) tree"
  have "(\<lambda>n. set_children (Some (put_front [a] (case children n of None \<Rightarrow> [] | Some cs \<Rightarrow> cs))) n) = add_child a"
    by (simp add: add_child_def fun_eq_iff)
  then have "setNode (Some d) [a] tree = (tupdate_at q (add_child a) ?t, None)" using Some by (simp add: setNode_def findNode_def)
  moreover have "find_path d ?t = Some q" "set (keys_of [a]) \<inter> set (keys_of ?t) = {}"
    using Some assms by (simp_all add: find_path_annotate keys_annotate)
  note entry_add_child [OF this]
  moreover have "d \<in> set (keys_of tree)" using Some find_path_None [of d tree] by auto
  ultimately show ?thesis by (auto simp: entry_annotate roots_annotate split: option.split)
qed

text \<open>
  C37: Moving a node of a tree with distinct keys. Below a node outside of its subtree it becomes the first child of that
  node: it goes away from the children of its old parent or from the roots, and nothing else changes, so that it keeps its
  own children and every other node its name, data, forced position and children. When the destination lies inside the moved subtree, the
  call throws after the subtree was removed, and exactly its nodes are lost. A move to the root level puts the node before the roots,
  but takes a nested node from nowhere: every node keeps its children, so that the node is then a root and still a child of its old parent.
\<close>

theorem moveNode_spec:
  assumes "distinct (keys_of tree)" and "key \<in> set (keys_of tree)" and "d \<in> set (keys_of tree)"
  shows "(d \<notin> branch_keys key tree \<longrightarrow>
      (\<exists>tree'. moveNode (Some d) [key] tree = (tree', None) \<and> map tkey tree' = filter (\<lambda>k. k \<noteq> key) (map tkey tree) \<and>
        (\<forall>k. entry k tree' = map_option (if k = d then with_child key else if k \<in> branch_keys key tree then id else without_child key) (entry k tree)))) \<and>
    (d \<in> branch_keys key tree \<longrightarrow>
      (\<exists>tree'. moveNode (Some d) [key] tree = (tree', Some (''Could not find node with key '' @ d)) \<and>
        map tkey tree' = filter (\<lambda>k. k \<noteq> key) (map tkey tree) \<and>
        (\<forall>k. entry k tree' = (if k \<in> branch_keys key tree then None else map_option (without_child key) (entry k tree))))) \<and>
    (\<exists>tree'. moveNode None [key] tree = (tree', None) \<and> map tkey tree' = key # filter (\<lambda>k. k \<noteq> key) (map tkey tree) \<and>
      (\<forall>k. entry k tree' = entry k tree))"
proof -
  obtain n tree1 where n: "tkey n = key" and branch: "set (keys_of [n]) = branch_keys key tree"
    and mv: "moveNode (Some d) [key] tree = setNode (Some d) [n] (prune key tree1)"
    and top: "moveNode None [key] tree = (n # filter (\<lambda>m. tkey m \<noteq> key) tree1, None)"
    and t1: "distinct (keys_of tree1)" "\<And>k. entry k tree1 = entry k tree" "map tkey tree1 = map tkey tree"
    and own: "\<And>k. k \<in> set (keys_of [n]) \<Longrightarrow> entry k [n] = entry k tree" and keys: "keys_of tree1 = keys_of tree"
    and rest: "set (keys_of (prune key tree1)) = set (keys_of tree) - set (keys_of [n])"
    and only: "\<And>r. r \<in> set tree1 \<Longrightarrow> tkey r = key \<Longrightarrow> r = n"
    by (rule moveNode_one [OF assms(1,2), of d]) blast
  have roots: "map tkey (prune key tree1) = filter (\<lambda>k. k \<noteq> key) (map tkey tree)" by (simp only: roots_prune t1(3))
  have pruned: "entry k (prune key tree1) = (if k \<in> branch_keys key tree then None else map_option (without_child key) (entry k tree))" for k
    using entry_prune [OF t1(1), of k key] rest branch entry_None [of k tree] by (auto simp: t1(2))
  have apart: "set (keys_of [n]) \<inter> set (keys_of (prune key tree1)) = {}" using rest by auto
  note child = setNode_child [OF apart, of d, unfolded mv [symmetric] n roots pruned]
  have "\<exists>tree'. moveNode (Some d) [key] tree = (tree', None) \<and> map tkey tree' = filter (\<lambda>k. k \<noteq> key) (map tkey tree) \<and>
        (\<forall>k. entry k tree' = map_option (if k = d then with_child key else if k \<in> branch_keys key tree then id else without_child key) (entry k tree))"
    if out: "d \<notin> branch_keys key tree"
  proof -
    have wc: "with_child key (without_child key e) = with_child key e" for e :: "'a entry"
      by (cases e) (simp add: with_child_def without_child_def split: option.split)
    have inner: "entry k [n] = (if k \<in> branch_keys key tree then entry k tree else None)" for k
      using own [of k] branch entry_None [of k "[n]"] by auto
    have "d \<in> set (keys_of (prune key tree1))" using out assms(3) rest branch by simp
    then obtain tree' where t: "moveNode (Some d) [key] tree = (tree', None)" "map tkey tree' = filter (\<lambda>k. k \<noteq> key) (map tkey tree)"
      "\<And>k. entry k tree' = (if k = d
         then map_option (with_child key) (if k \<in> branch_keys key tree then None else map_option (without_child key) (entry k tree))
         else case entry k [n] of Some e \<Rightarrow> Some e
              | None \<Rightarrow> if k \<in> branch_keys key tree then None else map_option (without_child key) (entry k tree))"
      using child by auto
    have "entry k tree' = map_option (if k = d then with_child key else if k \<in> branch_keys key tree then id else without_child key) (entry k tree)" for k
      unfolding t(3) inner using out
      by (cases "k = d"; cases "k \<in> branch_keys key tree"; cases "entry k tree") (simp_all add: wc)
    with t(1,2) show ?thesis by blast
  qed
  moreover have "\<exists>tree'. moveNode (Some d) [key] tree = (tree', Some (''Could not find node with key '' @ d)) \<and>
        map tkey tree' = filter (\<lambda>k. k \<noteq> key) (map tkey tree) \<and>
        (\<forall>k. entry k tree' = (if k \<in> branch_keys key tree then None else map_option (without_child key) (entry k tree)))"
    if "d \<in> branch_keys key tree" using child that rest branch roots pruned by auto
  moreover have "entry k (n # filter (\<lambda>m. tkey m \<noteq> key) tree1) = entry k tree" for k
  proof (cases "k \<in> set (keys_of [n])")
    case True
    then have "entry k [n] \<noteq> None" by (simp add: entry_None)
    then show ?thesis using own [OF True] entry_Cons [of k n "filter (\<lambda>m. tkey m \<noteq> key) tree1"] by (auto split: option.splits)
  next
    case False
    then have "\<forall>r\<in>set tree1. tkey r = key \<longrightarrow> k \<notin> set (keys_of [r])" using only by blast
    then have "entry k (filter (\<lambda>m. tkey m \<noteq> key) tree1) = entry k tree" using entry_other_roots t1(2) by metis
    then show ?thesis using False entry_None [of k "[n]"] entry_Cons [of k n "filter (\<lambda>m. tkey m \<noteq> key) tree1"] by simp
  qed
  moreover have "map tkey (filter (\<lambda>m. tkey m \<noteq> key) tree1) = filter (\<lambda>k. k \<noteq> key) (map tkey tree)"
    by (simp add: t1(3) [symmetric] filter_map comp_def)
  ultimately show ?thesis using top n by auto
qed

theorem moveNode_spec_witness:
  "(\<exists>tree'. moveNode None [''b''] [TNode ''a'' [] None None () (Some [TNode ''b'' [] None None () None])] = (tree', None) \<and>
      map tkey tree' = [''b'', ''a''] \<and> entry ''a'' tree' = Some ([], None, (), Some [''b''])) \<and>
   (\<exists>tree'. moveNode (Some ''b'') [''a''] [TNode ''a'' [] None None () (Some [TNode ''b'' [] None None () None])] =
      (tree', Some ''Could not find node with key b'') \<and> entry ''b'' tree' = None)"
proof -
  let ?t = "[TNode ''a'' [] None None () (Some [TNode ''b'' [] None None () None])]"
  have "''b'' \<in> branch_keys ''a'' ?t" by (simp add: branch_keys_def)
  then show ?thesis using moveNode_spec [of ?t "''b''" "''b''"] moveNode_spec [of ?t "''a''" "''b''"] by fastforce
qed

theorem removeNode_spec_witness:
  "removeNode [''a'', ''b''] [TNode ''a'' [] None None () None, TNode ''b'' [] None None () None, TNode ''c'' [] None None () None] =
     [TNode ''b'' [] None None () None]"
  using removeNode_spec [of "[TNode ''a'' [] None None () None, TNode ''b'' [] None None () None, TNode ''c'' [] None None () None]" "''a''"]
  by simp

section \<open>The visible nodes\<close>

fun visible :: "string list \<Rightarrow> 'a tnode list \<Rightarrow> string list" where
  "visible expanded [] = []"
| "visible expanded (TNode k nm fp an ex None # ns) = k # visible expanded ns"
| "visible expanded (TNode k nm fp an ex (Some cs) # ns) =
     k # (if k \<in> set expanded then visible expanded cs else []) @ visible expanded ns"

text \<open>The levels of a tree, each list of children being one.\<close>

fun levels :: "'a tnode list \<Rightarrow> nat" where
  "levels [] = 1"
| "levels (TNode k nm fp an ex None # ns) = levels ns"
| "levels (TNode k nm fp an ex (Some cs) # ns) = max (Suc (levels cs)) (levels ns)"

definition unforced :: "'a tnode list \<Rightarrow> bool" where
  "unforced tree \<longleftrightarrow> (\<forall>n\<in>set (getDescendants tree). forcePosition n = None)"

lemma levels_child: "n \<in> set ns \<Longrightarrow> children n = Some cs \<Longrightarrow> Suc (levels cs) \<le> levels ns"
  by (induction ns rule: levels.induct) auto

lemma levels_pos: "1 \<le> levels ns"
  by (induction ns rule: levels.induct) auto

lemma unforced_roots: "unforced ns \<Longrightarrow> n \<in> set ns \<Longrightarrow> forcePosition n = None"
  unfolding unforced_def by (induction ns rule: getDescendants.induct) auto

lemma unforced_child: "unforced ns \<Longrightarrow> n \<in> set ns \<Longrightarrow> children n = Some cs \<Longrightarrow> unforced cs"
  unfolding unforced_def by (induction ns rule: getDescendants.induct) auto

lemma unforced_iff:
  "unforced ns \<longleftrightarrow> (\<forall>n\<in>set ns. forcePosition n = None \<and> (\<forall>cs. children n = Some cs \<longrightarrow> unforced cs))"
  unfolding unforced_def by (induction ns rule: getDescendants.induct) auto

lemma visible_Cons: "visible e (n # ns) = visible e [n] @ visible e ns"
  by (cases n; cases "children n") auto

lemma visible_sum: "mset (visible e ns) = (\<Sum>n\<in>#mset ns. mset (visible e [n]))"
proof (induction ns)
  case (Cons n ns)
  then show ?case using visible_Cons [of e n ns] by simp
qed simp

lemma perm_visible: "mset a = mset b \<Longrightarrow> mset (visible e a) = mset (visible e b)"
  by (simp only: visible_sum [of e a] visible_sum [of e b])

lemma levels_le: "levels ns \<le> k \<longleftrightarrow> 1 \<le> k \<and> (\<forall>n\<in>set ns. \<forall>cs. children n = Some cs \<longrightarrow> Suc (levels cs) \<le> k)"
  by (induction ns rule: levels.induct) auto

lemma those_map:
  assumes "\<And>x. x \<in> set xs \<Longrightarrow> \<exists>r. g x = Some r \<and> P x r"
  shows "\<exists>rs. those (map g xs) = Some rs \<and> list_all2 P xs rs"
  using assms
proof (induction xs)
  case (Cons x xs)
  obtain r where "g x = Some r" "P x r" using Cons.prems [of x] by auto
  moreover obtain rs where "those (map g xs) = Some rs" "list_all2 P xs rs" using Cons by auto
  ultimately show ?case by auto
qed simp

lemma mset_concat_all2:
  assumes "list_all2 (\<lambda>(i, n) r. mset (map f r) = h n) (enumerate k ns) rs"
  shows "mset (map f (concat rs)) = (\<Sum>n\<in>#mset ns. h n)"
  using assms by (induction ns arbitrary: k rs) (auto simp: list_all2_Cons1)

lemma sort_unforced:
  assumes "unforced cs" and "1 \<le> fuel"
  shows "\<exists>r. sortAndSplice fuel sort0 cs = Some r \<and> mset r = mset cs"
proof -
  define S where "S = (case sort0 of Some cmp \<Rightarrow> js_sort cmp cs | None \<Rightarrow> cs)"
  have S: "mset S = mset cs" by (simp add: S_def mset_js_sort split: option.split)
  then have "\<forall>i<length S. forcePosition (S ! i) = None"
    using unforced_roots [OF assms(1)] by (metis mset_eq_setD nth_mem)
  then have "force_loop fuel S = Some S" using assms(2) force_loop_placed [of S "fuel - 1"] by simp
  then show ?thesis using S by (simp add: sortAndSplice_def S_def)
qed

lemma perm_unforced: "mset a = mset b \<Longrightarrow> unforced b \<Longrightarrow> unforced a"
  using unforced_iff [of a] unforced_iff [of b] by (metis mset_eq_setD)

lemma perm_levels: "mset a = mset b \<Longrightarrow> levels a = levels b"
  by (metis levels_le mset_eq_setD order.refl order_antisym)

lemma flatten_node_visible:
  assumes "\<And>cs. children n = Some cs \<Longrightarrow> \<exists>cs'. sortChildren cs = Some cs' \<and>
      (\<forall>p. \<exists>r. flattenChildren p cs' = Some r \<and> mset (map (\<lambda>x. tkey (f_node x)) r) = mset (visible expanded cs))"
  shows "\<exists>r. flatten_node sortChildren flattenChildren expanded depth path0 (i, n) = Some r \<and>
    mset (map (\<lambda>x. tkey (f_node x)) r) = mset (visible expanded [n])"
proof (cases "children n = None \<or> \<not> shouldExpand n expanded")
  case True
  then show ?thesis by (cases n; cases "children n") (auto simp: flatten_node_def Let_def shouldExpand_def)
next
  case False
  then obtain cs where cs: "children n = Some cs" "tkey n \<in> set expanded" by (auto simp: shouldExpand_def)
  obtain cs' where "sortChildren cs = Some cs'"
    and "\<exists>r. flattenChildren (path0 @ tkey n @ ''/'') cs' = Some r \<and> mset (map (\<lambda>x. tkey (f_node x)) r) = mset (visible expanded cs)"
    using assms [OF cs(1)] by blast
  then show ?thesis using cs by (cases n) (auto simp: flatten_node_def Let_def shouldExpand_def)
qed

text \<open>
  In a tree without forced positions \<open>flatten\<close> returns, with as much fuel as the tree
  has levels, and its result lists exactly the visible nodes: the roots and the children of every
  expanded node that is itself visible, whatever order the siblings are sorted in.
\<close>

theorem flatten_visible:
  assumes "unforced nodes" and "levels nodes \<le> fuel"
  shows "\<exists>r. flatten fuel nameCompare defaultSort sort0 expanded depth path0 nodes = Some r \<and>
    mset (map (\<lambda>x. tkey (f_node x)) r) = mset (visible expanded nodes)"
  using assms
proof (induction fuel arbitrary: depth path0 nodes)
  case 0
  then show ?case using levels_pos [of nodes] by simp
next
  case (Suc fuel)
  define ns where "ns = (if root_sorts depth sort0 then js_sort nameCompare nodes else nodes)"
  let ?sort = "sortAndSplice fuel (child_sort defaultSort sort0)"
  let ?rec = "\<lambda>p cs. flatten fuel nameCompare defaultSort sort0 expanded (Suc depth) p cs"
  have mset: "mset ns = mset nodes" by (simp add: ns_def mset_js_sort)
  have "\<exists>r. flatten_node ?sort ?rec expanded depth path0 (i, n) = Some r \<and>
      mset (map (\<lambda>x. tkey (f_node x)) r) = mset (visible expanded [n])"
    if "(i, n) \<in> set (enumerate 0 ns)" for i n
  proof (rule flatten_node_visible)
    have n: "n \<in> set nodes" using that nth_mem [of i ns] mset_eq_setD [OF mset] by (auto simp: in_set_enumerate_eq)
    fix cs assume cs: "children n = Some cs"
    have u: "unforced cs" and lev: "levels cs \<le> fuel"
      using Suc.prems cs unforced_child [OF _ n] levels_child [OF n cs] by auto
    obtain cs' where "?sort cs = Some cs'" and perm: "mset cs' = mset cs"
      using sort_unforced [OF u, of fuel] lev levels_pos [of cs] by auto
    moreover have "\<exists>r. ?rec p cs' = Some r \<and> mset (map (\<lambda>x. tkey (f_node x)) r) = mset (visible expanded cs)" for p
      using Suc.IH [of cs' "Suc depth" p] perm_unforced [OF perm u] perm_levels [OF perm] lev perm_visible [OF perm] by simp
    ultimately show "\<exists>cs'. ?sort cs = Some cs' \<and>
        (\<forall>p. \<exists>r. ?rec p cs' = Some r \<and> mset (map (\<lambda>x. tkey (f_node x)) r) = mset (visible expanded cs))" by blast
  qed
  then have "\<exists>rs. those (map (flatten_node ?sort ?rec expanded depth path0) (enumerate 0 ns)) = Some rs \<and>
      list_all2 (\<lambda>(i, n) r. mset (map (\<lambda>x. tkey (f_node x)) r) = mset (visible expanded [n])) (enumerate 0 ns) rs"
    by (intro those_map) force
  then show ?case
    using mset_concat_all2 [of "\<lambda>x. tkey (f_node x)" "\<lambda>n. mset (visible expanded [n])" 0 ns] mset visible_sum [of expanded nodes]
    unfolding flatten.simps ns_def [symmetric] by (metis option.simps(9))
qed

theorem flatten_visible_witness:
  "\<exists>r. flatten 2 (\<lambda>_ _. 0) (\<lambda>_ _. 0) DefaultSort [''a''] 0 [] [TNode ''a'' [] None None () (Some [TNode ''b'' [] None None () None])] = Some r \<and>
     mset (map (\<lambda>x. tkey (f_node x)) r) = {#''a'', ''b''#}"
  using flatten_visible [of "[TNode ''a'' [] None None () (Some [TNode ''b'' [] None None () None])]" 2 "\<lambda>_ _. 0" "\<lambda>_ _. 0"
      DefaultSort "[''a'']" 0 "[]"]
  by (simp add: unforced_def del: flatten.simps)

end
