(* ===== verification/Scale.thy ===== *)
theory Scale
  imports Spatial
begin

text \<open>
  \<open>Scale\<close> and \<open>XY\<close> of \<open>x/ts/src/spatial/scale/scale.ts\<close>: chains
  of operations on numbers, and pairs of them for the two axes. Numbers are exact; a division by a range
  or a magnification of zero, which gives an infinity or NaN in the engine, is left to the hypotheses of
  the theorems.
\<close>

section \<open>Operations\<close>

datatype value_type = PositionV | DimensionV

datatype scale_op =
  Translate rat | Magnify rat | ScaleTo "rat bounds" | Invert | Clamp "rat bounds" | ReBound "rat bounds"

definition clamp_value :: "rat \<Rightarrow> rat \<Rightarrow> rat \<Rightarrow> rat" where
  "clamp_value v lo hi = (if v < lo then lo else if v > hi then hi else v)"

definition rescale :: "rat bounds \<Rightarrow> rat bounds \<Rightarrow> rat \<Rightarrow> rat" where
  "rescale prev next v = (v - lower prev) * ((upper next - lower next) / (upper prev - lower prev)) + lower next"

type_synonym op_state = "rat bounds option \<times> rat"

fun run_op :: "value_type \<Rightarrow> bool \<Rightarrow> scale_op \<Rightarrow> op_state \<Rightarrow> op_state result" where
  "run_op vt rv (Translate t) (c, v) =
     return (c, if vt = DimensionV then v else if rv then v - t else v + t)"
| "run_op vt rv (Magnify m) (c, v) = return (c, if rv then v / m else v * m)"
| "run_op vt rv (ScaleTo b) (c, v) =
     (case c of
        None \<Rightarrow> return (Some b, v)
      | Some p \<Rightarrow>
          return (Some b,
            if vt = DimensionV then v * ((upper b - lower b) / (upper p - lower p)) else rescale p b v))"
| "run_op vt rv (ReBound b) (c, v) = return (Some b, v)"
| "run_op vt rv Invert (c, v) =
     (case c of
        None \<Rightarrow> throw ''cannot invert without bounds''
      | Some p \<Rightarrow> return (c, if vt = DimensionV then v else upper p - (v - lower p)))"
| "run_op vt rv (Clamp b) (c, v) = return (c, clamp_value v (lower b) (upper b))"

definition is_scale :: "scale_op \<Rightarrow> bool" where
  "is_scale p = (case p of ScaleTo _ \<Rightarrow> True | _ \<Rightarrow> False)"

section \<open>Scales\<close>

record scale =
  scale_ops :: "scale_op list"
  reversed :: bool

definition newScale :: scale where "newScale = \<lparr>scale_ops = [], reversed = False\<rparr>"

definition push_op :: "scale_op \<Rightarrow> scale \<Rightarrow> scale" where
  "push_op p s = s\<lparr>scale_ops := scale_ops s @ [p]\<rparr>"

definition scale_translate :: "rat \<Rightarrow> scale \<Rightarrow> scale" where "scale_translate v s = push_op (Translate v) s"
definition scale_magnify :: "rat \<Rightarrow> scale \<Rightarrow> scale" where "scale_magnify v s = push_op (Magnify v) s"

definition scale_scale :: "rat crude \<Rightarrow> rat option \<Rightarrow> scale \<Rightarrow> scale result" where
  "scale_scale upperOrBound up s = bind_result (Bounds.construct upperOrBound up) (\<lambda>b. return (push_op (ScaleTo b) s))"

definition scale_clamp :: "rat crude \<Rightarrow> rat option \<Rightarrow> scale \<Rightarrow> scale result" where
  "scale_clamp lowerOrBound up s = bind_result (Bounds.construct lowerOrBound up) (\<lambda>b. return (push_op (Clamp b) s))"

definition scale_reBound :: "rat crude \<Rightarrow> rat option \<Rightarrow> scale \<Rightarrow> scale result" where
  "scale_reBound lowerOrBound up s = bind_result (Bounds.construct lowerOrBound up) (\<lambda>b. return (push_op (ReBound b) s))"

definition scale_invert :: "scale \<Rightarrow> scale" where "scale_invert s = push_op Invert s"

definition exec :: "value_type \<Rightarrow> scale \<Rightarrow> rat \<Rightarrow> rat result" where
  "exec vt s v = bind_result (fold_result (run_op vt (reversed s)) (scale_ops s) (None, v)) (\<lambda>st. return (snd st))"

definition scale_pos :: "scale \<Rightarrow> rat \<Rightarrow> rat result" where "scale_pos s v = exec PositionV s v"
definition scale_dim :: "scale \<Rightarrow> rat \<Rightarrow> rat result" where "scale_dim s v = exec DimensionV s v"

text \<open>\<open>reverse\<close>: the operations in reverse order, with every run of other operations moved behind the
  scale operation that follows it.\<close>

definition add_swap :: "scale_op list \<Rightarrow> nat \<Rightarrow> (nat \<times> nat) list \<Rightarrow> (nat \<times> nat) list" where
  "add_swap ops i swaps =
     (if is_scale (ops ! i) \<or> list_ex (\<lambda>(low, high). i \<ge> low \<and> i \<le> high) swaps then swaps
      else case find (\<lambda>j. is_scale (ops ! j) \<and> j > i) [0..<length ops] of
        None \<Rightarrow> swaps
      | Some nextScale \<Rightarrow> swaps @ [(i, nextScale)])"

definition find_swaps :: "scale_op list \<Rightarrow> (nat \<times> nat) list" where
  "find_swaps ops = fold (add_swap ops) [0..<length ops] []"

definition apply_swap :: "nat \<times> nat \<Rightarrow> scale_op list \<Rightarrow> scale_op list" where
  "apply_swap lh ops =
     (let (low, high) = lh; s = (ops ! high) # take (high - low) (drop low ops)
      in splice_at low (int high - int low + 1) s ops)"

definition scale_reverse :: "scale \<Rightarrow> scale" where
  "scale_reverse s =
     (let ops = rev (scale_ops s)
      in \<lparr>scale_ops = fold apply_swap (find_swaps ops) ops, reversed = \<not> reversed s\<rparr>)"

record transform =
  tr_scale :: rat
  tr_offset :: rat

definition scale_transform :: "scale \<Rightarrow> transform result" where
  "scale_transform s =
     bind_result (scale_dim s 1) (\<lambda>d. bind_result (scale_pos s 0) (\<lambda>p. return \<lparr>tr_scale = d, tr_offset = p\<rparr>))"

section \<open>Scales of the plane\<close>

record xy_scale =
  sx :: scale
  sy :: scale
  currRoot :: "xy_location option"

definition newXYScale :: xy_scale where
  "newXYScale = \<lparr>sx = newScale, sy = newScale, currRoot = None\<rparr>"

definition xys_translate :: "xy \<Rightarrow> xy_scale \<Rightarrow> xy_scale" where
  "xys_translate p s = s\<lparr>sx := scale_translate (xc p) (sx s), sy := scale_translate (yc p) (sy s)\<rparr>"

definition xys_translateX :: "rat \<Rightarrow> xy_scale \<Rightarrow> xy_scale" where
  "xys_translateX v s = s\<lparr>sx := scale_translate v (sx s)\<rparr>"

definition xys_translateY :: "rat \<Rightarrow> xy_scale \<Rightarrow> xy_scale" where
  "xys_translateY v s = s\<lparr>sy := scale_translate v (sy s)\<rparr>"

definition xys_magnify :: "xy \<Rightarrow> xy_scale \<Rightarrow> xy_scale" where
  "xys_magnify p s = s\<lparr>sx := scale_magnify (xc p) (sx s), sy := scale_magnify (yc p) (sy s)\<rparr>"

definition both_axes ::
    "(rat bounds \<Rightarrow> scale \<Rightarrow> scale result) \<Rightarrow> box \<Rightarrow> xy_scale \<Rightarrow> xy_scale result" where
  "both_axes f b s =
     bind_result (f (xBounds b) (sx s)) (\<lambda>x. bind_result (f (yBounds b) (sy s)) (\<lambda>y. return (s\<lparr>sx := x, sy := y\<rparr>)))"

definition xys_scale_box :: "box \<Rightarrow> xy_scale \<Rightarrow> xy_scale result" where
  "xys_scale_box b s =
     (let next = s\<lparr>currRoot := Some (b_root b)\<rparr>;
          next' =
            (case currRoot s of
               None \<Rightarrow> next
             | Some prevRoot \<Rightarrow>
                 if \<not> xyEquals prevRoot (b_root b) then
                   next\<lparr>sx := (if loc_x prevRoot \<noteq> loc_x (b_root b) then scale_invert (sx next) else sx next),
                        sy := (if loc_y prevRoot \<noteq> loc_y (b_root b) then scale_invert (sy next) else sy next)\<rparr>
                 else next)
      in both_axes (\<lambda>bd. scale_scale (Strict bd) None) b next')"

definition xys_scale_dims :: "dimensions \<Rightarrow> xy_scale \<Rightarrow> xy_scale result" where
  "xys_scale_dims d s =
     bind_result (scale_scale (Value (width_of d)) None (sx s)) (\<lambda>x.
       bind_result (scale_scale (Value (height_of d)) None (sy s)) (\<lambda>y. return (s\<lparr>sx := x, sy := y\<rparr>)))"

definition xys_reBound :: "box \<Rightarrow> xy_scale \<Rightarrow> xy_scale result" where
  "xys_reBound b s = both_axes (\<lambda>bd. scale_reBound (Strict bd) None) b s"

definition xys_clamp :: "box \<Rightarrow> xy_scale \<Rightarrow> xy_scale result" where
  "xys_clamp b s = both_axes (\<lambda>bd. scale_clamp (Strict bd) None) b s"

definition xys_reverse :: "xy_scale \<Rightarrow> xy_scale" where
  "xys_reverse s = s\<lparr>sx := scale_reverse (sx s), sy := scale_reverse (sy s)\<rparr>"

definition xys_pos :: "xy_scale \<Rightarrow> xy \<Rightarrow> xy result" where
  "xys_pos s p =
     bind_result (scale_pos (sx s) (xc p)) (\<lambda>x. bind_result (scale_pos (sy s) (yc p)) (\<lambda>y. return \<lparr>xc = x, yc = y\<rparr>))"

definition xys_dim :: "xy_scale \<Rightarrow> xy \<Rightarrow> xy result" where
  "xys_dim s p =
     bind_result (scale_dim (sx s) (xc p)) (\<lambda>x. bind_result (scale_dim (sy s) (yc p)) (\<lambda>y. return \<lparr>xc = x, yc = y\<rparr>))"

definition xys_box :: "xy_scale \<Rightarrow> box \<Rightarrow> box result" where
  "xys_box s b =
     bind_result (xys_pos s (b_one b)) (\<lambda>p. bind_result (xys_pos s (b_two b)) (\<lambda>q.
       return (box_of_points p q (case currRoot s of Some r \<Rightarrow> r | None \<Rightarrow> b_root b))))"

section \<open>The order of a reversed scale\<close>

text \<open>What the swaps amount to, run by run.\<close>

function swap_runs :: "scale_op list \<Rightarrow> scale_op list" where
  "swap_runs xs =
     (case dropWhile (\<lambda>p. \<not> is_scale p) xs of
        [] \<Rightarrow> xs
      | b # r \<Rightarrow> b # takeWhile (\<lambda>p. \<not> is_scale p) xs @ swap_runs r)"
  by pat_completeness auto
termination
proof (relation "measure length", goal_cases)
  case (2 xs b r)
  have "length (dropWhile (\<lambda>p. \<not> is_scale p) xs) \<le> length xs" by (rule length_dropWhile_le)
  then show ?case using 2 by simp
qed simp

declare swap_runs.simps [simp del]

lemma swap_runs_none: "\<forall>p\<in>set xs. \<not> is_scale p \<Longrightarrow> swap_runs xs = xs"
proof -
  assume "\<forall>p\<in>set xs. \<not> is_scale p"
  then have "dropWhile (\<lambda>p. \<not> is_scale p) xs = []" by simp
  then show ?thesis by (subst swap_runs.simps) (simp only: list.case)
qed

lemma swap_runs_run: "\<forall>p\<in>set g. \<not> is_scale p \<Longrightarrow> is_scale b \<Longrightarrow> swap_runs (g @ b # r) = b # g @ swap_runs r"
  by (subst swap_runs.simps) (simp add: dropWhile_append3 takeWhile_append2 dropWhile_append2)

lemma run_cases:
  obtains (none) "\<forall>p\<in>set xs. \<not> is_scale p"
  | (run) g b r where "xs = g @ b # r" "\<forall>p\<in>set g. \<not> is_scale p" "is_scale b"
  by (metis split_list_first_prop)

text \<open>The swaps found from position \<open>k\<close> on.\<close>

lemma add_swap_covered:
  assumes "\<And>i. i \<in> set is \<Longrightarrow> list_ex (\<lambda>(lo, hi). i \<ge> lo \<and> i \<le> hi) sw"
  shows "fold (add_swap ops) is sw = sw"
  using assms by (induction "is") (auto simp: add_swap_def)

lemma upt_split_at: "k \<le> n \<Longrightarrow> n < m \<Longrightarrow> [k..<m] = [k..<n] @ n # [Suc n..<m]"
  by (metis le_add_diff_inverse less_imp_le upt_add_eq_append upt_conv_Cons)

lemma find_append: "find P (xs @ ys) = (case find P xs of Some x \<Rightarrow> Some x | None \<Rightarrow> find P ys)"
  by (induction xs) auto

lemma find_next_scale:
  assumes "ops = A @ g @ b # r" and "\<forall>p\<in>set g. \<not> is_scale p" and "is_scale b" and "g \<noteq> []"
  shows "find (\<lambda>j. is_scale (ops ! j) \<and> j > length A) [0..<length ops] = Some (length A + length g)"
proof -
  let ?n = "length A + length g"
  have "[0..<length ops] = [0..<?n] @ ?n # [Suc ?n..<length ops]"
    using assms(1) by (intro upt_split_at) simp_all
  moreover have "find (\<lambda>j. is_scale (ops ! j) \<and> j > length A) [0..<?n] = None"
    using assms(1,2) by (auto simp: find_None_iff nth_append)
  moreover have "ops ! ?n = b" using assms(1) by (simp add: nth_append)
  ultimately show ?thesis using assms(3,4) by (simp add: find_append)
qed

lemma no_next_scale:
  assumes "ops = A @ ys" and "\<forall>p\<in>set ys. \<not> is_scale p" and "\<forall>i\<in>set is. length A \<le> i"
  shows "fold (add_swap ops) is sw = sw"
proof -
  have "find (\<lambda>j. is_scale (ops ! j) \<and> j > i) [0..<length ops] = None" if "i \<in> set is" for i
    using assms that by (auto simp: find_None_iff nth_append)
  then have "add_swap ops i sw' = sw'" if "i \<in> set is" for i sw'
    using that by (simp add: add_swap_def)
  then show ?thesis by (induction "is") simp_all
qed

text \<open>Finding and applying the swaps of the rest \<open>ys\<close> of the operations, behind \<open>A\<close>.\<close>

lemma swaps_run:
  assumes "ops = A @ g @ b # r" and "\<forall>p\<in>set g. \<not> is_scale p" and "is_scale b"
    and "\<forall>(lo, hi)\<in>set sw. hi < length A"
  shows "fold (add_swap ops) [length A..<Suc (length A + length g)] sw =
    (if g = [] then sw else sw @ [(length A, length A + length g)])"
proof (cases "g = []")
  case True
  then show ?thesis using assms(1,3) by (simp add: add_swap_def)
next
  case False
  let ?sw = "sw @ [(length A, length A + length g)]"
  have "\<not> is_scale (ops ! length A)" using False assms(1,2) by (cases g) auto
  moreover have "\<not> list_ex (\<lambda>(lo, hi). length A \<ge> lo \<and> length A \<le> hi) sw"
    using assms(4) by (auto simp: list_ex_iff)
  ultimately have first: "add_swap ops (length A) sw = ?sw"
    using find_next_scale [OF assms(1-3) False] by (simp add: add_swap_def)
  have "fold (add_swap ops) [Suc (length A)..<Suc (length A + length g)] ?sw = ?sw"
    by (rule add_swap_covered) (auto simp: list_ex_iff)
  then show ?thesis using first False by (subst upt_conv_Cons) simp_all
qed

lemma apply_swap_run:
  "length A' = n \<Longrightarrow> apply_swap (n, n + length g) (A' @ g @ b # r) = A' @ b # g @ r"
  by (simp add: apply_swap_def splice_at_def nth_append nat_add_distrib)

lemma reverse_swaps:
  assumes "ops = A @ ys" and "length A' = length A" and "\<forall>(lo, hi)\<in>set sw. hi < length A"
  shows "\<exists>new. fold (add_swap ops) [length A..<length ops] sw = sw @ new \<and> fold apply_swap new (A' @ ys) = A' @ swap_runs ys"
  using assms
proof (induction "length ys" arbitrary: A A' ys sw rule: less_induct)
  case less
  show ?case
  proof (cases ys rule: run_cases)
    case none
    have "fold (add_swap ops) [length A..<length ops] sw = sw"
      by (rule no_next_scale [OF less.prems(1) none]) simp
    then show ?thesis using swap_runs_none [OF none] by (intro exI [of _ "[]"]) simp
  next
    case (run g b r)
    let ?n = "length A + length g" and ?new = "if g = [] then [] else [(length A, length A + length g)]"
    have ops: "ops = A @ g @ b # r" "ops = (A @ g @ [b]) @ r" using less.prems(1) run(1) by simp_all
    have hi: "\<forall>(lo, hi)\<in>set (sw @ ?new). hi < length (A @ g @ [b])" using less.prems(3) by auto
    have "length r < length ys" "length (A' @ b # g) = length (A @ g @ [b])" using run(1) less.prems(2) by simp_all
    from less.hyps [OF this(1) ops(2) this(2) hi] obtain new where new:
      "fold (add_swap ops) [length (A @ g @ [b])..<length ops] (sw @ ?new) = (sw @ ?new) @ new"
      "fold apply_swap new ((A' @ b # g) @ r) = (A' @ b # g) @ swap_runs r" by blast
    have "[length A..<length ops] = [length A..<Suc ?n] @ [Suc ?n..<length ops]"
      using upt_split_at [of "length A" ?n "length ops"] ops(1) by simp
    then have "fold (add_swap ops) [length A..<length ops] sw = sw @ ?new @ new"
      using swaps_run [OF ops(1) run(2,3) less.prems(3)] new(1) by (auto split: if_splits)
    moreover have "fold apply_swap (?new @ new) (A' @ ys) = A' @ swap_runs ys"
      using new(2) apply_swap_run [OF less.prems(2)] swap_runs_run [OF run(2,3)] run(1) by (cases "g = []") simp_all
    ultimately show ?thesis by blast
  qed
qed

lemma scale_reverse_runs:
  "scale_reverse s = \<lparr>scale_ops = swap_runs (rev (scale_ops s)), reversed = \<not> reversed s\<rparr>"
proof -
  let ?ops = "rev (scale_ops s)"
  obtain new where "fold (add_swap ?ops) [length []..<length ?ops] [] = [] @ new"
    "fold apply_swap new ([] @ ?ops) = [] @ swap_runs ?ops"
    using reverse_swaps [of ?ops "[]" ?ops "[]" "[]"] by auto
  then show ?thesis by (simp add: scale_reverse_def find_swaps_def)
qed

section \<open>Running a scale backwards\<close>

text \<open>Chains that can be undone: no clamping and no change of the bounds without scaling.\<close>

definition invertible_op :: "scale_op \<Rightarrow> bool" where
  "invertible_op p =
     (case p of Magnify m \<Rightarrow> m \<noteq> 0 | ScaleTo b \<Rightarrow> lower b \<noteq> upper b | Clamp _ \<Rightarrow> False | ReBound _ \<Rightarrow> False | _ \<Rightarrow> True)"

abbreviation run_ops :: "bool \<Rightarrow> scale_op list \<Rightarrow> op_state \<Rightarrow> op_state result" where
  "run_ops rv ops st \<equiv> fold_result (run_op PositionV rv) ops st"

lemma rescale_inverse: "lower p \<noteq> upper p \<Longrightarrow> lower b \<noteq> upper b \<Longrightarrow> rescale b p (rescale p b v) = v"
proof -
  assume "lower p \<noteq> upper p" "lower b \<noteq> upper b"
  then have "((upper b - lower b) / (upper p - lower p)) * ((upper p - lower p) / (upper b - lower b)) = 1" by simp
  then show ?thesis unfolding rescale_def by (simp only: add_diff_cancel_right' mult.assoc) simp
qed

text \<open>A run without scale operations keeps the bounds, and is undone by its reverse under the same bounds.\<close>

lemma undo_run:
  assumes "\<forall>p\<in>set g. \<not> is_scale p \<and> invertible_op p" and "run_ops False g (c, v) = return (c', w)"
  shows "c' = c \<and> (d = c \<or> c = None \<longrightarrow> run_ops True (rev g) (d, w) = return (d, v))"
  using assms
proof (induction g arbitrary: v)
  case (Cons p g)
  then obtain u where u: "run_op PositionV False p (c, v) = return (c, u)" "run_ops False g (c, u) = return (c', w)"
    by (cases p) (auto simp: is_scale_def invertible_op_def bind_result_eq_Inr split: option.splits)
  have "d = c \<or> c = None \<longrightarrow> run_op PositionV True p (d, u) = return (d, v)"
    using u(1) Cons.prems(1) by (cases p) (auto simp: is_scale_def invertible_op_def split: option.splits)
  then show ?case using Cons.IH [OF _ u(2)] Cons.prems(1) by (auto simp: fold_result_append)
qed simp

definition enter :: "rat bounds option \<Rightarrow> rat bounds \<Rightarrow> rat \<Rightarrow> rat" where
  "enter d b x = (case d of None \<Rightarrow> x | Some p \<Rightarrow> rescale p b x)"

lemma last_scale:
  obtains (none) "\<forall>p\<in>set xs. \<not> is_scale p"
  | (run) ws b g where "xs = ws @ ScaleTo b # g" "\<forall>p\<in>set g. \<not> is_scale p"
proof (cases "\<forall>p\<in>set xs. \<not> is_scale p")
  case False
  then obtain ws q g where "xs = ws @ q # g" "is_scale q" "\<forall>p\<in>set g. \<not> is_scale p"
    by (metis split_list_last_prop)
  then show ?thesis using run by (cases q) (auto simp: is_scale_def)
qed (rule none)

lemma run_scale: "run_op PositionV rv (ScaleTo b) (c, v) = return (Some b, enter c b v)"
  by (simp add: enter_def split: option.splits)

declare run_op.simps(3) [simp del]

lemma run_bounds:
  assumes "\<forall>p\<in>set xs. invertible_op p" and "run_ops False xs (None, v) = return (c, w)"
  shows "c = None \<longleftrightarrow> (\<forall>p\<in>set xs. \<not> is_scale p)" and "\<And>b. c = Some b \<Longrightarrow> lower b \<noteq> upper b"
proof -
  have "(c = None \<longleftrightarrow> (\<forall>p\<in>set xs. \<not> is_scale p)) \<and> (\<forall>b. c = Some b \<longrightarrow> lower b \<noteq> upper b)"
  proof (cases xs rule: last_scale)
    case none
    then show ?thesis using undo_run [of xs None v c w None] assms by auto
  next
    case (run ws b g)
    then obtain c1 v1 where "run_ops False g (Some b, enter c1 b v1) = return (c, w)"
      using assms(2) unfolding run(1) by (auto simp: fold_result_append bind_result_eq_Inr run_scale)
    then have "c = Some b" using undo_run [of g "Some b" _ c w] run assms(1) by auto
    then show ?thesis using run assms(1) by (auto simp: is_scale_def invertible_op_def)
  qed
  then show "c = None \<longleftrightarrow> (\<forall>p\<in>set xs. \<not> is_scale p)" "\<And>b. c = Some b \<Longrightarrow> lower b \<noteq> upper b" by auto
qed

lemma undo_ops:
  assumes "\<forall>p\<in>set xs. invertible_op p" and "run_ops False xs (None, v) = return (c, w)"
    and "case c of None \<Rightarrow> x = w | Some b \<Rightarrow> enter d b x = w"
  shows "\<exists>d'. run_ops True (swap_runs (rev xs)) (d, x) = return (d', v)"
  using assms
proof (induction "length xs" arbitrary: xs c w d x rule: less_induct)
  case less
  show ?case
  proof (cases xs rule: last_scale)
    case none
    have c: "c = None" using run_bounds(1) [OF less.prems(1,2)] none by simp
    then have "run_ops True (rev xs) (d, w) = return (d, v)"
      using undo_run [of xs None v c w d] none less.prems(1,2) by auto
    then show ?thesis using less.prems(3) c none swap_runs_none [of "rev xs"] by simp
  next
    case (run ws b g)
    obtain c1 v1 where w1: "run_ops False ws (None, v) = return (c1, v1)"
      and g: "run_ops False g (Some b, enter c1 b v1) = return (c, w)"
      using less.prems(2) unfolding run(1) by (auto simp: fold_result_append bind_result_eq_Inr run_scale)
    have inv: "\<forall>p\<in>set ws. invertible_op p" "\<forall>p\<in>set g. \<not> is_scale p \<and> invertible_op p" "lower b \<noteq> upper b"
      using less.prems(1) run by (auto simp: invertible_op_def)
    have undo: "run_ops True (rev g) (Some b, w) = return (Some b, enter c1 b v1)" and c: "c = Some b"
      using undo_run [OF inv(2) g, of "Some b"] by simp_all
    have "swap_runs (rev xs) = ScaleTo b # rev g @ swap_runs (rev ws)"
      using swap_runs_run [of "rev g" "ScaleTo b" "rev ws"] run by (simp add: is_scale_def)
    moreover have "enter d b x = w" using less.prems(3) c by simp
    ultimately have "run_ops True (swap_runs (rev xs)) (d, x) = run_ops True (swap_runs (rev ws)) (Some b, enter c1 b v1)"
      using undo by (simp add: run_scale fold_result_append)
    moreover have "case c1 of None \<Rightarrow> enter c1 b v1 = v1 | Some p \<Rightarrow> enter (Some b) p (enter c1 b v1) = v1"
      using run_bounds(2) [OF inv(1) w1] inv(3) by (auto simp: enter_def rescale_inverse split: option.splits)
    ultimately show ?thesis using less.hyps [OF _ inv(1) w1, of "enter c1 b v1" "Some b"] run(1) by auto
  qed
qed

section \<open>Properties\<close>

text \<open>
  Reversing a scale inverts it: when the chain holds no clamping and no re-bounding, its
  magnifications are not zero and its bounds not empty, the reversed scale maps every position back.
  With a re-bounding in the chain it does not.
\<close>

theorem scale_reverse_inverts:
  assumes "\<not> reversed s" and "\<forall>p\<in>set (scale_ops s). invertible_op p" and "scale_pos s v = return w"
  shows "scale_pos (scale_reverse s) w = return v \<and>
    (\<exists>r. reversed r = False \<and> scale_pos r 50 = return 5 \<and> scale_pos (scale_reverse r) 5 = return (1 / 2))"
proof -
  obtain c where "run_ops False (scale_ops s) (None, v) = return (c, w)"
    using assms(1,3) by (auto simp: scale_pos_def exec_def bind_result_eq_Inr)
  then obtain d' where "run_ops True (swap_runs (rev (scale_ops s))) (None, w) = return (d', v)"
    using undo_ops [OF assms(2), of v c w w None] by (cases c) (auto simp: enter_def)
  then have "scale_pos (scale_reverse s) w = return v"
    using assms(1) by (simp add: scale_pos_def exec_def scale_reverse_runs)
  moreover define r where "r = \<lparr>scale_ops = [ScaleTo \<lparr>lower = 0, upper = 1\<rparr>, ReBound \<lparr>lower = 0, upper = 100\<rparr>,
      ScaleTo \<lparr>lower = 0, upper = 10\<rparr>], reversed = False\<rparr>"
  then have "scale_pos r 50 = return 5" by (simp add: scale_pos_def exec_def rescale_def run_scale enter_def)
  moreover have "scale_pos (scale_reverse r) 5 = return (1 / 2)"
    by (simp add: r_def scale_pos_def exec_def rescale_def run_scale enter_def scale_reverse_def find_swaps_def add_swap_def is_scale_def
        apply_swap_def splice_at_def upt_rec)
  moreover have "reversed r = False" by (simp add: r_def)
  ultimately show ?thesis by blast
qed

lemma scale_reverse_inverts_witness:
  "let s = \<lparr>scale_ops = [ScaleTo \<lparr>lower = 0, upper = 10\<rparr>, Translate 3, Invert, ScaleTo \<lparr>lower = 0, upper = 100\<rparr>, Magnify 2],
            reversed = False\<rparr>
   in scale_pos s 4 = return 60 \<and> scale_pos (scale_reverse s) 60 = return 4"
proof -
  let ?s = "\<lparr>scale_ops = [ScaleTo \<lparr>lower = 0, upper = 10\<rparr>, Translate 3, Invert, ScaleTo \<lparr>lower = 0, upper = 100\<rparr>, Magnify 2],
            reversed = False\<rparr>"
  have "scale_pos ?s 4 = return 60" by (simp add: scale_pos_def exec_def rescale_def run_scale enter_def)
  with scale_reverse_inverts [of ?s 4 60] show ?thesis by (simp add: invertible_op_def)
qed

lemma affine_ops:
  assumes "\<forall>p\<in>set ops. p \<noteq> Invert \<and> (\<forall>b. p \<noteq> Clamp b)"
  shows "\<exists>a o0 c'. \<forall>v. run_ops rv ops (c, v) = return (c', a * v + o0) \<and>
    fold_result (run_op DimensionV rv) ops (c, v) = return (c', a * v)"
  using assms
proof (induction ops arbitrary: c)
  case Nil
  then show ?case by (intro exI [of _ 1] exI [of _ 0] exI [of _ c]) simp
next
  case (Cons p ops)
  have "\<exists>a1 o1 c1. \<forall>v. run_op PositionV rv p (c, v) = return (c1, a1 * v + o1) \<and> run_op DimensionV rv p (c, v) = return (c1, a1 * v)"
  proof (cases p)
    case (Translate t)
    then show ?thesis by (intro exI [of _ 1] exI [of _ "if rv then - t else t"] exI [of _ c]) simp
  next
    case (Magnify m)
    then show ?thesis by (intro exI [of _ "if rv then 1 / m else m"] exI [of _ 0] exI [of _ c]) simp
  next
    case (ScaleTo b)
    show ?thesis
    proof (cases c)
      case None
      then show ?thesis using ScaleTo by (intro exI [of _ 1] exI [of _ 0] exI [of _ "Some b"]) (simp add: run_op.simps(3))
    next
      case (Some q)
      let ?k = "(upper b - lower b) / (upper q - lower q)"
      have "rescale q b v = ?k * v + (lower b - lower q * ?k)" for v by (simp add: rescale_def left_diff_distrib diff_divide_distrib mult.commute)
      then have "\<forall>v. run_op PositionV rv p (c, v) = return (Some b, ?k * v + (lower b - lower q * ?k)) \<and>
          run_op DimensionV rv p (c, v) = return (Some b, ?k * v)"
        using ScaleTo Some by (simp add: run_op.simps(3))
      then show ?thesis by blast
    qed
  next
    case (ReBound b)
    then show ?thesis by (intro exI [of _ 1] exI [of _ 0] exI [of _ "Some b"]) simp
  qed (use Cons.prems in auto)
  then obtain a1 o1 c1 where 1: "\<And>v. run_op PositionV rv p (c, v) = return (c1, a1 * v + o1)"
    "\<And>v. run_op DimensionV rv p (c, v) = return (c1, a1 * v)" by blast
  obtain a2 o2 c2 where 2: "\<And>v. run_ops rv ops (c1, v) = return (c2, a2 * v + o2)"
    "\<And>v. fold_result (run_op DimensionV rv) ops (c1, v) = return (c2, a2 * v)"
    using Cons.IH [of c1] Cons.prems by auto
  show ?case by (intro exI [of _ "a2 * a1"] exI [of _ "a2 * o1 + o2"] exI [of _ c2]) (simp add: 1 2 algebra_simps)
qed

text \<open>
  The transform of a scale without inversion and clamping is the scale: a position is the
  position times the scale of the transform plus its offset, and a dimension is the dimension times
  the scale.  An inversion changes the sign of positions but not of dimensions, so that its transform
  is wrong.
\<close>

theorem scale_transform_affine:
  assumes "\<forall>p\<in>set (scale_ops s). p \<noteq> Invert \<and> (\<forall>b. p \<noteq> Clamp b)"
  shows "\<exists>t. scale_transform s = return t \<and> (\<forall>v. scale_pos s v = return (tr_scale t * v + tr_offset t) \<and>
      scale_dim s v = return (tr_scale t * v)) \<and>
    (let r = \<lparr>scale_ops = [ScaleTo \<lparr>lower = 0, upper = 1\<rparr>, Invert], reversed = False\<rparr>
     in scale_transform r = return \<lparr>tr_scale = 1, tr_offset = 1\<rparr> \<and> scale_pos r 1 = return 0)"
proof -
  obtain a o0 c where "\<And>v. run_ops (reversed s) (scale_ops s) (None, v) = return (c, a * v + o0)"
    "\<And>v. fold_result (run_op DimensionV (reversed s)) (scale_ops s) (None, v) = return (c, a * v)"
    using affine_ops [OF assms, of "reversed s" None] by blast
  then show ?thesis
    by (intro exI [of _ "\<lparr>tr_scale = a, tr_offset = o0\<rparr>"])
      (simp add: scale_transform_def scale_pos_def scale_dim_def exec_def run_op.simps(3))
qed

lemma scale_transform_affine_witness:
  "\<exists>t. scale_transform \<lparr>scale_ops = [ScaleTo \<lparr>lower = 0, upper = 4\<rparr>, Translate 1, ScaleTo \<lparr>lower = 0, upper = 1\<rparr>], reversed = False\<rparr> =
     return t \<and> (\<forall>v. scale_pos \<lparr>scale_ops = [ScaleTo \<lparr>lower = 0, upper = 4\<rparr>, Translate 1, ScaleTo \<lparr>lower = 0, upper = 1\<rparr>], reversed = False\<rparr> v =
       return (tr_scale t * v + tr_offset t))"
  using scale_transform_affine
    [of "\<lparr>scale_ops = [ScaleTo \<lparr>lower = 0, upper = 4\<rparr>, Translate 1, ScaleTo \<lparr>lower = 0, upper = 1\<rparr>], reversed = False\<rparr>"]
  by auto

end
