(* ===== verification/Js_Text.thy ===== *)
theory Js_Text
  imports Prelude "HOL-Library.Sublist"
begin

text \<open>
  The operations on text that several components use: \<open>split\<close> of the standard library, and
  decimal numbers.
\<close>

section \<open>Splitting\<close>

fun split_first :: "string \<Rightarrow> string \<Rightarrow> (string \<times> string) option" where
  "split_first sep [] = None"
| "split_first sep (c # cs) =
     (if prefix sep (c # cs) then Some ([], drop (length sep) (c # cs))
      else map_option (\<lambda>(a, b). (c # a, b)) (split_first sep cs))"

lemma split_first_shorter: "split_first sep s = Some (a, b) \<Longrightarrow> length b \<le> length s \<and> (sep \<noteq> [] \<longrightarrow> length b < length s)"
  by (induction s arbitrary: a) (auto split: if_splits simp: le_SucI less_SucI)

text \<open>\<open>s.split(sep)\<close>.\<close>

function js_split :: "string \<Rightarrow> string \<Rightarrow> string list" where
  "js_split sep s =
     (if sep = [] then map (\<lambda>c. [c]) s
      else case split_first sep s of None \<Rightarrow> [s] | Some (a, b) \<Rightarrow> a # js_split sep b)"
  by auto
termination
  by (relation "measure (length \<circ> snd)") (auto dest: split_first_shorter)

declare js_split.simps [simp del]

lemma split_first_none: "\<not> sublist sep e \<Longrightarrow> sep \<noteq> [] \<Longrightarrow> split_first sep e = None"
  by (induction e) (auto simp: sublist_Cons_right)

text \<open>The first part of a text that is joined with a separator, when the separator does not begin earlier.\<close>

lemma split_first_at:
  assumes "\<not> sublist sep (p @ butlast sep)" "sep \<noteq> []"
  shows "split_first sep (p @ sep @ rest) = Some (p, rest)"
  using assms(1)
proof (induction p)
  case Nil
  then show ?case using assms(2) by (cases sep) auto
next
  case (Cons c p)
  let ?q = "c # p @ butlast sep"
  have n: "\<not> prefix sep ?q" "\<not> sublist sep (p @ butlast sep)" using Cons.prems by (auto simp: sublist_Cons_right)
  have "c # p @ sep @ rest = ?q @ (last sep # rest)" using assms(2) by (metis append.assoc append_Cons append_Nil append_butlast_last_id)
  moreover have "length sep \<le> length ?q" using assms(2) by simp
  ultimately have "\<not> prefix sep (c # p @ sep @ rest)" using n(1) prefix_length_prefix [of sep "?q @ (last sep # rest)" ?q] by (metis prefixI)
  then show ?case using Cons.IH [OF n(2)] by simp
qed

lemma js_split_join:
  assumes "\<not> sublist sep (p @ butlast sep)" "sep \<noteq> []"
  shows "js_split sep (p @ sep @ rest) = p # js_split sep rest"
  using split_first_at [OF assms] assms(2) by (subst js_split.simps) simp

lemma js_split_single: "\<not> sublist sep p \<Longrightarrow> sep \<noteq> [] \<Longrightarrow> js_split sep p = [p]"
  by (subst js_split.simps) (simp add: split_first_none)

section \<open>Decimal numbers\<close>

definition is_digit :: "char \<Rightarrow> bool" where
  "is_digit c \<longleftrightarrow> 48 \<le> (of_char c :: nat) \<and> (of_char c :: nat) \<le> 57"

text \<open>The text matches \<open>\d+\<close>.\<close>

definition is_decimal :: "string \<Rightarrow> bool" where
  "is_decimal s \<longleftrightarrow> s \<noteq> [] \<and> list_all is_digit s"

text \<open>\<open>Number(s)\<close> of such a text, without the rounding of doubles above \<open>2^53\<close>.\<close>

definition decimal_value :: "string \<Rightarrow> nat" where
  "decimal_value s = foldl (\<lambda>n c. 10 * n + (of_char c - 48)) 0 s"

end
