(* ===== verification/Drift.thy ===== *)
theory Drift
  imports Spatial Js_Text
begin

text \<open>
  The window manager of \<open>drift/src\<close>: the slice state and its reducers
  (\<open>state.ts\<close>, \<open>window.ts\<close>), the selectors (\<open>selectors.ts\<close>) and
  the encoding of emitted actions (\<open>sugar.ts\<close>).

  A window is a JavaScript object whose properties come and go with spreads: a map from the properties
  the sources use to values, where a property can be absent or present with the value
  \<open>undefined\<close>, and \<open>{...a, ...b}\<close> is \<open>a ++ b\<close>. A reducer works on
  a draft that is dropped when it throws, so that it is a function from a state to a state or an error.
\<close>

section \<open>Windows\<close>

datatype win_prop =
  Key | Url | Title | CenterProp | Position | Size | MinSize | MaxSize | Resizable | Fullscreen | Focus | Maximized |
  Visible | Minimized | Decorations | SkipTaskbar | FileDropEnabled | Transparent | AlwaysOnTop |
  Stage | ProcessCount | Reserved | WindowError | FocusCount | CenterCount | Label | PrerenderLabel

datatype val = Undefined | Null | NaN | Bool bool | Number rat | Str string | Point xy | Dims dimensions

definition WINDOW_PROPS :: "win_prop list" where
  "WINDOW_PROPS =
     [Key, Url, Title, CenterProp, Position, Size, MinSize, MaxSize, Resizable, Fullscreen, Focus, Maximized, Visible,
      Minimized, Decorations, SkipTaskbar, FileDropEnabled, Transparent, AlwaysOnTop, Stage, ProcessCount, Reserved,
      WindowError, FocusCount, CenterCount, Label, PrerenderLabel]"

type_synonym window = "win_prop \<rightharpoonup> val"

definition get :: "window \<Rightarrow> win_prop \<Rightarrow> val" where
  "get w p = (case w p of Some v \<Rightarrow> v | None \<Rightarrow> Undefined)"

definition is_null :: "val \<Rightarrow> bool" where
  "is_null v \<longleftrightarrow> v = Undefined \<or> v = Null"

definition truthy :: "val \<Rightarrow> bool" where
  "truthy v = (case v of
     Undefined \<Rightarrow> False | Null \<Rightarrow> False | NaN \<Rightarrow> False | Bool b \<Rightarrow> b | Number n \<Rightarrow> n \<noteq> 0 | Str s \<Rightarrow> s \<noteq> [] | _ \<Rightarrow> True)"

definition num_add :: "val \<Rightarrow> rat \<Rightarrow> val" where
  "num_add v d = (case v of Number n \<Rightarrow> Number (n + d) | _ \<Rightarrow> NaN)"

definition num_positive :: "val \<Rightarrow> bool" where
  "num_positive v = (case v of Number n \<Rightarrow> n > 0 | _ \<Rightarrow> False)"

text \<open>A value as the name of a property; \<open>undefined\<close> is the name ''undefined''.\<close>

definition as_key :: "val \<Rightarrow> string" where
  "as_key v = (case v of Str s \<Rightarrow> s | _ \<Rightarrow> ''undefined'')"

text \<open>\<open>deep.copy\<close> goes through JSON, which drops \<open>undefined\<close>.\<close>

definition deep_copy :: "window \<Rightarrow> window" where
  "deep_copy w = (\<lambda>p. case w p of Some Undefined \<Rightarrow> None | Some NaN \<Rightarrow> Some Null | v \<Rightarrow> v)"

definition MAIN_WINDOW :: string where "MAIN_WINDOW = ''main''"
definition PRERENDER_WINDOW :: string where "PRERENDER_WINDOW = ''prerender''"

definition INITIAL_WINDOW_STATE :: window where
  "INITIAL_WINDOW_STATE =
     [Stage \<mapsto> Str ''creating'', ProcessCount \<mapsto> Number 0, Reserved \<mapsto> Bool False, FocusCount \<mapsto> Number 0,
      CenterCount \<mapsto> Number 0]"

definition INITIAL_PRERENDER_WINDOW_STATE :: window where
  "INITIAL_PRERENDER_WINDOW_STATE = INITIAL_WINDOW_STATE(Key \<mapsto> Str PRERENDER_WINDOW, Visible \<mapsto> Bool False)"

section \<open>The slice\<close>

record config =
  enablePrerender :: bool
  defaultWindowProps :: window
  debug :: bool

record slice_state =
  label :: string
  config :: config
  windows :: "(string, window) rec"
  labelKeys :: "(string, string) rec"
  keyLabels :: "(string, string) rec"

definition ZERO_SLICE_STATE :: slice_state where
  "ZERO_SLICE_STATE =
     \<lparr>label = MAIN_WINDOW, config = \<lparr>enablePrerender = True, defaultWindowProps = Map.empty, debug = False\<rparr>,
      windows = [(MAIN_WINDOW, INITIAL_WINDOW_STATE(Key \<mapsto> Str MAIN_WINDOW, Reserved \<mapsto> Bool True))],
      labelKeys = [(MAIN_WINDOW, MAIN_WINDOW)], keyLabels = [(MAIN_WINDOW, MAIN_WINDOW)]\<rparr>"

text \<open>
  A patch that has \<open>defaultWindowProps\<close> with the value \<open>undefined\<close> is
  \<open>Some Map.empty\<close>: the value is only spread. The label that the patch also writes into the
  configuration is never read.
\<close>

text \<open>The part of a payload that says which window is meant; the label is added by \<open>assignLabel\<close>.\<close>

record target =
  t_key :: "string option"
  t_label :: "string option"

record config_patch =
  p_enablePrerender :: "bool option"
  p_defaultWindowProps :: "window option"
  p_debug :: "bool option"

datatype action =
  InternalSetInitial config_patch string string
| CreateWindow window
| SetWindowStage target string
| CloseWindow target
| RegisterProcess target
| CompleteProcess target
| SetWindowError string string
| FocusWindow target
| ReloadWindow target
| SetWindowBool win_prop bool target "bool option"
| CenterWindow target
| SetWindowValue win_prop target val
| SetWindowProps target window

text \<open>
  The setters that toggle a flag, with the flag and its default, and the setters that assign a property
  of a window: the actions \<open>SetWindowBool\<close> and \<open>SetWindowValue\<close> are used with these.
\<close>

definition BOOL_SETTERS :: "(win_prop \<times> bool) list" where
  "BOOL_SETTERS =
     [(Minimized, False), (Maximized, False), (Visible, True), (Fullscreen, True), (Resizable, False),
      (SkipTaskbar, False), (AlwaysOnTop, False), (Decorations, False)]"

definition VALUE_SETTERS :: "win_prop list" where
  "VALUE_SETTERS = [Position, Size, MinSize, MaxSize, Title]"

text \<open>
  \<open>assignLabel\<close>, with the two fresh ids it may draw: the labels of a new window in the main
  window, and the label of the window a key or label stands for elsewhere. The label of a key that no
  window has is \<open>undefined\<close>; it is only used as the name of a property, and so it is the
  name ''undefined''.
\<close>

definition resolve_label :: "target \<Rightarrow> slice_state \<Rightarrow> target" where
  "resolve_label t s =
     (case t_label t of
        Some _ \<Rightarrow> t
      | None \<Rightarrow>
          t\<lparr>t_label := Some
              (case t_key t of
                 None \<Rightarrow> label s
               | Some k \<Rightarrow>
                   if rec_has (windows s) k then k
                   else (case rec_get (keyLabels s) k of Some l \<Rightarrow> l | None \<Rightarrow> ''undefined''))\<rparr>)"

fun assignLabel :: "string \<Rightarrow> string \<Rightarrow> action \<Rightarrow> slice_state \<Rightarrow> action" where
  "assignLabel id1 id2 (CreateWindow p) s =
     (if label s \<noteq> MAIN_WINDOW then CreateWindow p
      else CreateWindow (p(Label \<mapsto> Str id1, PrerenderLabel \<mapsto> Str id2)))"
| "assignLabel id1 id2 (SetWindowStage t st) s = SetWindowStage (resolve_label t s) st"
| "assignLabel id1 id2 (CloseWindow t) s = CloseWindow (resolve_label t s)"
| "assignLabel id1 id2 (RegisterProcess t) s = RegisterProcess (resolve_label t s)"
| "assignLabel id1 id2 (CompleteProcess t) s = CompleteProcess (resolve_label t s)"
| "assignLabel id1 id2 (FocusWindow t) s = FocusWindow (resolve_label t s)"
| "assignLabel id1 id2 (ReloadWindow t) s = ReloadWindow (resolve_label t s)"
| "assignLabel id1 id2 (SetWindowBool p d t v) s = SetWindowBool p d (resolve_label t s) v"
| "assignLabel id1 id2 (CenterWindow t) s = CenterWindow (resolve_label t s)"
| "assignLabel id1 id2 (SetWindowValue p t v) s = SetWindowValue p (resolve_label t s) v"
| "assignLabel id1 id2 (SetWindowProps t w) s = SetWindowProps (resolve_label t s) w"
| "assignLabel id1 id2 (SetWindowError k m) s = SetWindowError k m"
| "assignLabel id1 id2 (InternalSetInitial c l pl) s = InternalSetInitial c l pl"

definition assertLabel :: "target \<Rightarrow> (string \<Rightarrow> 'a result) \<Rightarrow> 'a result" where
  "assertLabel t f = (case t_label t of None \<Rightarrow> throw ''Missing label'' | Some l \<Rightarrow> f l)"

definition set_window :: "string \<Rightarrow> window \<Rightarrow> slice_state \<Rightarrow> slice_state" where
  "set_window l w s = s\<lparr>windows := rec_set l w (windows s)\<rparr>"

text \<open>An assignment to a property of \<open>s.windows[l]\<close>, which throws when there is no such window.\<close>

definition assign_prop :: "string \<Rightarrow> win_prop \<Rightarrow> val \<Rightarrow> slice_state \<Rightarrow> slice_state result" where
  "assign_prop l p v s =
     (case rec_get (windows s) l of
        None \<Rightarrow> throw ''TypeError: Cannot set properties of undefined''
      | Some w \<Rightarrow> return (set_window l (w(p \<mapsto> v)) s))"

definition delete_window :: "string \<Rightarrow> window \<Rightarrow> slice_state \<Rightarrow> slice_state" where
  "delete_window l w s =
     s\<lparr>windows := rec_delete l (windows s), labelKeys := rec_delete l (labelKeys s),
       keyLabels := rec_delete (as_key (get w Key)) (keyLabels s)\<rparr>"

definition assignBool :: "win_prop \<Rightarrow> bool \<Rightarrow> string \<Rightarrow> bool option \<Rightarrow> slice_state \<Rightarrow> slice_state" where
  "assignBool p def0 l v s =
     (case rec_get (windows s) l of
        None \<Rightarrow> s
      | Some w \<Rightarrow>
          let v' = (case v of
                      Some b \<Rightarrow> b
                    | None \<Rightarrow> if \<not> is_null (get w p) then \<not> truthy (get w p) else def0)
          in set_window l (w(p \<mapsto> Bool v')) s)"

definition incrementCounter :: "win_prop \<Rightarrow> bool \<Rightarrow> string \<Rightarrow> slice_state \<Rightarrow> slice_state" where
  "incrementCounter p decrement l s =
     (case rec_get (windows s) l of
        None \<Rightarrow> s
      | Some w \<Rightarrow> set_window l (w(p \<mapsto> num_add (get w p) (if decrement then -1 else 1))) s)"

definition alreadyHasPreRender :: "slice_state \<Rightarrow> bool" where
  "alreadyHasPreRender s \<longleftrightarrow>
     list_ex (\<lambda>(l, w). get w Key = Str PRERENDER_WINDOW \<and> \<not> truthy (get w Reserved)) (windows s)"

definition maybePositionInCenter :: "window \<Rightarrow> val \<Rightarrow> val \<Rightarrow> val" where
  "maybePositionInCenter mainWin position0 size0 =
     (case (get mainWin Position, get mainWin Size) of
        (Point mp, Dims ms) \<Rightarrow>
          if is_null position0 then
            Point (topLeft (positionInCenter
              (case size0 of Dims d \<Rightarrow> box_of_dims XY_ZERO d TOP_LEFT | _ \<Rightarrow> box_of_points XY_ZERO XY_ZERO TOP_LEFT)
              (box_of_dims mp ms TOP_LEFT)))
          else position0
      | _ \<Rightarrow> position0)"

text \<open>\<open>reduceCreateWindow\<close> for a key that is there, and for a new one.\<close>

definition reuse_window :: "window \<Rightarrow> string \<Rightarrow> slice_state \<Rightarrow> slice_state result" where
  "reuse_window payload l s =
     (case rec_get (windows s) l of
        None \<Rightarrow> throw ''TypeError: Cannot set properties of undefined''
      | Some w \<Rightarrow>
          return (set_window l
            (w(Visible \<mapsto> Bool True, FocusCount \<mapsto> num_add (get w FocusCount) 1, Minimized \<mapsto> Bool False,
               Position \<mapsto> get payload Position)) s))"

definition place_window :: "window \<Rightarrow> string \<Rightarrow> string \<Rightarrow> slice_state \<Rightarrow> slice_state" where
  "place_window payload k l s =
     (case find (\<lambda>(_, w). \<not> truthy (get w Reserved)) (windows s) of
        Some (availableLabel, available) \<Rightarrow>
          (set_window availableLabel
             (available(Visible \<mapsto> Bool True, Reserved \<mapsto> Bool True, FocusCount \<mapsto> Number 1, Focus \<mapsto> Bool True) ++ payload) s)
           \<lparr>labelKeys := rec_set availableLabel k (labelKeys s), keyLabels := rec_set k availableLabel (keyLabels s)\<rparr>
      | None \<Rightarrow>
          (set_window l ((defaultWindowProps (config s) ++ INITIAL_WINDOW_STATE ++ payload)(Reserved \<mapsto> Bool True)) s)
           \<lparr>labelKeys := rec_set l k (labelKeys s), keyLabels := rec_set k l (keyLabels s)\<rparr>)"

definition maybe_prerender :: "string \<Rightarrow> slice_state \<Rightarrow> slice_state" where
  "maybe_prerender pl s =
     (if enablePrerender (config s) \<and> \<not> alreadyHasPreRender s
      then set_window pl (deep_copy (defaultWindowProps (config s) ++ INITIAL_PRERENDER_WINDOW_STATE)) s
      else s)"

definition reduceCreateWindow :: "window \<Rightarrow> slice_state \<Rightarrow> slice_state result" where
  "reduceCreateWindow payload0 s =
     (if get payload0 Key = Str PRERENDER_WINDOW then return s
      else if is_null (get payload0 Label) \<or> is_null (get payload0 PrerenderLabel)
      then throw ''[drift] - bug - missing label and prerender label''
      else case rec_get (windows s) MAIN_WINDOW of
        None \<Rightarrow> throw ''TypeError: Cannot read properties of undefined''
      | Some mainWin \<Rightarrow>
          let payload = payload0(Position \<mapsto> maybePositionInCenter mainWin (get payload0 Position) (get payload0 Size));
              k = as_key (get payload Key)
          in case rec_get (keyLabels s) k of
               Some existingLabel \<Rightarrow> reuse_window payload existingLabel s
             | None \<Rightarrow>
                 return (maybe_prerender (as_key (get payload PrerenderLabel))
                   (place_window payload k (as_key (get payload Label)) s)))"

definition reduceSetWindowStage :: "string \<Rightarrow> string \<Rightarrow> slice_state \<Rightarrow> slice_state" where
  "reduceSetWindowStage l st s =
     (case rec_get (windows s) l of None \<Rightarrow> s | Some w \<Rightarrow> set_window l (w(Stage \<mapsto> Str st)) s)"

definition reduceCloseWindow :: "string \<Rightarrow> slice_state \<Rightarrow> slice_state" where
  "reduceCloseWindow l s =
     (case rec_get (windows s) l of
        None \<Rightarrow> s
      | Some w \<Rightarrow> if num_positive (get w ProcessCount) then s else delete_window l w s)"

text \<open>The second component of the result says that a reload of the window was scheduled.\<close>

definition reduceReloadWindow :: "string \<Rightarrow> slice_state \<Rightarrow> slice_state \<times> bool" where
  "reduceReloadWindow l s =
     (case rec_get (windows s) l of
        None \<Rightarrow> (s, False)
      | Some w \<Rightarrow>
          if num_positive (get w ProcessCount) then (s, False)
          else (set_window l (w(Stage \<mapsto> Str ''reloading'')) s, True))"

definition reduceRegisterProcess :: "string \<Rightarrow> slice_state \<Rightarrow> slice_state" where
  "reduceRegisterProcess l s = incrementCounter ProcessCount False l s"

definition reduceCompleteProcess :: "string \<Rightarrow> slice_state \<Rightarrow> slice_state \<times> bool" where
  "reduceCompleteProcess l s =
     (let s1 = incrementCounter ProcessCount True l s
      in case rec_get (windows s1) l of
           None \<Rightarrow> (s1, False)
         | Some w \<Rightarrow>
             if get w ProcessCount = Number 0 then
               (if get w Stage = Str ''reloading'' then (s1, True) else (delete_window l w s1, False))
             else (s1, False))"

definition reduceSetWindowError :: "string \<Rightarrow> string \<Rightarrow> slice_state \<Rightarrow> slice_state" where
  "reduceSetWindowError k message s =
     (case rec_get (windows s) k of None \<Rightarrow> s | Some w \<Rightarrow> set_window k (w(WindowError \<mapsto> Str message)) s)"

definition reduceFocusWindow :: "string \<Rightarrow> slice_state \<Rightarrow> slice_state" where
  "reduceFocusWindow l s =
     (case rec_get (windows s) l of
        None \<Rightarrow> s
      | Some w \<Rightarrow>
          incrementCounter FocusCount False l
            (if get w Visible \<noteq> Bool True then set_window l (w(Visible \<mapsto> Bool True)) s else s))"

definition reduceCenterWindow :: "string \<Rightarrow> slice_state \<Rightarrow> slice_state" where
  "reduceCenterWindow l s = incrementCounter CenterCount False l s"

text \<open>
  \<open>deep.partialEqual\<close> of a window and a payload: \<open>undefined\<close> is equal to no
  object; the properties of the payload are compared, a missing one as \<open>undefined\<close>, and a
  payload with more properties is never equal.
\<close>

definition object_keys :: "window \<Rightarrow> win_prop list" where
  "object_keys w = filter (\<lambda>p. w p \<noteq> None) WINDOW_PROPS"

definition partialEqual :: "window option \<Rightarrow> window \<Rightarrow> bool" where
  "partialEqual base partial0 =
     (case base of
        None \<Rightarrow> False
      | Some w \<Rightarrow>
          length (object_keys partial0) \<le> length (object_keys w) \<and>
          list_all (\<lambda>p. get w p = get partial0 p \<and> get w p \<noteq> NaN) (object_keys partial0))"

definition reduceSetWindowProps :: "string \<Rightarrow> window \<Rightarrow> slice_state \<Rightarrow> slice_state" where
  "reduceSetWindowProps l payload s =
     (let prev = rec_get (windows s) l
      in if partialEqual prev payload then s
         else set_window l ((case prev of None \<Rightarrow> Map.empty | Some w \<Rightarrow> w) ++ payload) s)"

definition apply_patch :: "config_patch \<Rightarrow> config \<Rightarrow> config" where
  "apply_patch p c =
     \<lparr>enablePrerender = (case p_enablePrerender p of Some b \<Rightarrow> b | None \<Rightarrow> enablePrerender c),
      defaultWindowProps = (case p_defaultWindowProps p of Some w \<Rightarrow> w | None \<Rightarrow> defaultWindowProps c),
      debug = (case p_debug p of Some b \<Rightarrow> b | None \<Rightarrow> debug c)\<rparr>"

definition reduceInternalSetInitial :: "config_patch \<Rightarrow> string \<Rightarrow> string \<Rightarrow> slice_state \<Rightarrow> slice_state" where
  "reduceInternalSetInitial p l prerenderLabel s =
     (let s1 = s\<lparr>config := apply_patch p (config s), label := l\<rparr>
      in if l = MAIN_WINDOW \<and> enablePrerender (config s1)
         then set_window prerenderLabel (defaultWindowProps (config s1) ++ INITIAL_PRERENDER_WINDOW_STATE) s1
         else s1)"

text \<open>The payload of \<open>setWindowProps\<close> as the reducer sees it, with its key and the label.\<close>

definition props_payload :: "target \<Rightarrow> string \<Rightarrow> window \<Rightarrow> window" where
  "props_payload t l w =
     (case t_key t of None \<Rightarrow> w | Some k \<Rightarrow> w(Key \<mapsto> Str k))(Label \<mapsto> Str l)"

fun reducer :: "action \<Rightarrow> slice_state \<Rightarrow> (slice_state \<times> bool) result" where
  "reducer (InternalSetInitial p l pl) s = return (reduceInternalSetInitial p l pl s, False)"
| "reducer (CreateWindow p) s = bind_result (reduceCreateWindow p s) (\<lambda>s'. return (s', False))"
| "reducer (SetWindowStage t st) s = assertLabel t (\<lambda>l. return (reduceSetWindowStage l st s, False))"
| "reducer (CloseWindow t) s = assertLabel t (\<lambda>l. return (reduceCloseWindow l s, False))"
| "reducer (RegisterProcess t) s = assertLabel t (\<lambda>l. return (reduceRegisterProcess l s, False))"
| "reducer (CompleteProcess t) s = assertLabel t (\<lambda>l. return (reduceCompleteProcess l s))"
| "reducer (SetWindowError k m) s = return (reduceSetWindowError k m s, False)"
| "reducer (FocusWindow t) s = assertLabel t (\<lambda>l. return (reduceFocusWindow l s, False))"
| "reducer (ReloadWindow t) s = assertLabel t (\<lambda>l. return (reduceReloadWindow l s))"
| "reducer (SetWindowBool p d t v) s = assertLabel t (\<lambda>l. return (assignBool p d l v s, False))"
| "reducer (CenterWindow t) s = assertLabel t (\<lambda>l. return (reduceCenterWindow l s, False))"
| "reducer (SetWindowValue p t v) s =
     assertLabel t (\<lambda>l. bind_result (assign_prop l p v s) (\<lambda>s'. return (s', False)))"
| "reducer (SetWindowProps t w) s =
     (let l = (case t_label t of Some l \<Rightarrow> l | None \<Rightarrow> ''undefined'')
      in return (reduceSetWindowProps l (props_payload t l w) s, False))"

text \<open>What the middleware hands to the store: the action with its label.\<close>

definition dispatch :: "string \<Rightarrow> string \<Rightarrow> action \<Rightarrow> slice_state \<Rightarrow> (slice_state \<times> bool) result" where
  "dispatch id1 id2 a s = reducer (assignLabel id1 id2 a s) s"

section \<open>Selectors\<close>

definition selectWindows :: "slice_state \<Rightarrow> window list" where
  "selectWindows s = map snd (windows s)"

definition selectWindow :: "slice_state \<Rightarrow> string option \<Rightarrow> window option" where
  "selectWindow s keyOrLabel =
     (case keyOrLabel of
        None \<Rightarrow> rec_get (windows s) (label s)
      | Some k \<Rightarrow>
          (case rec_get (windows s) k of
             Some w \<Rightarrow> Some w
           | None \<Rightarrow> rec_get (windows s) (case rec_get (keyLabels s) k of Some l \<Rightarrow> l | None \<Rightarrow> ''undefined'')))"

definition selectWindowKey :: "slice_state \<Rightarrow> string option \<Rightarrow> string option" where
  "selectWindowKey s label0 =
     (case label0 of
        None \<Rightarrow> rec_get (labelKeys s) (label s)
      | Some l \<Rightarrow>
          (case rec_get (labelKeys s) l of
             None \<Rightarrow> if l = MAIN_WINDOW then Some MAIN_WINDOW else None
           | Some k \<Rightarrow> Some k))"

definition selectWindowLabel :: "slice_state \<Rightarrow> string \<Rightarrow> string option" where
  "selectWindowLabel s k = rec_get (keyLabels s) k"

section \<open>Emitted actions\<close>

text \<open>An action is its type and its other fields.\<close>

definition DRIFT_ACTION_INDICATOR :: string where "DRIFT_ACTION_INDICATOR = ''DA@''"
definition DRIFT_PREFIX_SPLITTER :: string where "DRIFT_PREFIX_SPLITTER = ''://''"

definition sugarType :: "string \<Rightarrow> string \<Rightarrow> string" where
  "sugarType type emitter = DRIFT_ACTION_INDICATOR @ emitter @ DRIFT_PREFIX_SPLITTER @ type"

definition desugarType :: "string \<Rightarrow> string \<times> string option" where
  "desugarType type =
     (case js_split DRIFT_PREFIX_SPLITTER type of
        pre # embedded # _ \<Rightarrow> (embedded, nth_opt (js_split DRIFT_ACTION_INDICATOR pre) 1)
      | _ \<Rightarrow> (type, Some []))"

definition sugar :: "string \<times> 'a \<Rightarrow> string \<Rightarrow> string \<times> 'a" where
  "sugar a emitter = (sugarType (fst a) emitter, snd a)"

definition desugar :: "string \<times> 'a \<Rightarrow> bool \<times> string option \<times> (string \<times> 'a)" where
  "desugar a =
     (let (type, emitter) = desugarType (fst a)
      in (case emitter of None \<Rightarrow> False | Some e \<Rightarrow> length e > 0, emitter, (type, snd a)))"

section \<open>The label and key maps\<close>

text \<open>Two records that are inverse to each other.\<close>

definition inverse_recs :: "('a, 'b) rec \<Rightarrow> ('b, 'a) rec \<Rightarrow> bool" where
  "inverse_recs r r' \<longleftrightarrow> (\<forall>a b. rec_get r a = Some b \<longleftrightarrow> rec_get r' b = Some a)"

text \<open>A window is in use exactly when its label has a key, and then it carries that key; a window that is
  not in use is a prerendered one.\<close>

definition window_ok :: "string option \<Rightarrow> window \<Rightarrow> bool" where
  "window_ok key w =
     (case key of
        Some k \<Rightarrow> truthy (get w Reserved) \<and> get w Key = Str k
      | None \<Rightarrow> \<not> truthy (get w Reserved) \<and> get w Key = Str PRERENDER_WINDOW)"

definition drift_wf :: "slice_state \<Rightarrow> bool" where
  "drift_wf s \<longleftrightarrow>
     rec_wf (windows s) \<and> inverse_recs (labelKeys s) (keyLabels s) \<and>
     (\<forall>l. rec_get (labelKeys s) l \<noteq> None \<longrightarrow> rec_get (windows s) l \<noteq> None) \<and>
     rec_get (keyLabels s) PRERENDER_WINDOW = None \<and>
     (\<forall>l w. rec_get (windows s) l = Some w \<longrightarrow> window_ok (rec_get (labelKeys s) l) w)"

definition fresh_label :: "slice_state \<Rightarrow> string \<Rightarrow> bool" where
  "fresh_label s l \<longleftrightarrow> rec_get (windows s) l = None \<and> rec_get (labelKeys s) l = None"

definition label_of :: "target \<Rightarrow> slice_state \<Rightarrow> string" where
  "label_of t s = (case t_label (resolve_label t s) of Some l \<Rightarrow> l | None \<Rightarrow> [])"

fun admissible :: "string \<Rightarrow> string \<Rightarrow> action \<Rightarrow> slice_state \<Rightarrow> bool" where
  "admissible id1 id2 (InternalSetInitial c l pl) s = fresh_label s pl"
| "admissible id1 id2 (CreateWindow p) s =
     ((case get p Key of Str _ \<Rightarrow> True | _ \<Rightarrow> False) \<and> p Reserved = None \<and> p Label = None \<and> p PrerenderLabel = None \<and>
      id1 \<noteq> id2 \<and> fresh_label s id1 \<and> fresh_label s id2)"
| "admissible id1 id2 (SetWindowBool p d t v) s = ((p, d) \<in> set BOOL_SETTERS)"
| "admissible id1 id2 (SetWindowValue p t v) s = (p \<in> set VALUE_SETTERS)"
| "admissible id1 id2 (SetWindowProps t w) s =
     (w Key = None \<and> w Reserved = None \<and> rec_has (windows s) (label_of t s) \<and>
      (\<forall>k. t_key t = Some k \<longrightarrow> rec_get (labelKeys s) (label_of t s) = Some k))"
| "admissible id1 id2 _ s = True"

inductive drift_reachable :: "slice_state \<Rightarrow> bool" where
  initial: "drift_reachable ZERO_SLICE_STATE"
| dispatched: "drift_reachable s \<Longrightarrow> admissible id1 id2 a s \<Longrightarrow> dispatch id1 id2 a s = Inr (s', r) \<Longrightarrow> drift_reachable s'"

lemma get_upd [simp]: "get (w(p \<mapsto> v)) q = (if q = p then v else get w q)"
  by (simp add: get_def)

lemma set_window_simps [simp]:
  "windows (set_window l w s) = rec_set l w (windows s)"
  "labelKeys (set_window l w s) = labelKeys s"
  "keyLabels (set_window l w s) = keyLabels s"
  "label (set_window l w s) = label s"
  "config (set_window l w s) = config s"
  by (simp_all add: set_window_def)

lemma inverse_recs_set:
  assumes "inverse_recs r r'" and "rec_get r a = None" and "rec_get r' b = None"
  shows "inverse_recs (rec_set a b r) (rec_set b a r')"
  using assms by (auto simp: inverse_recs_def) (metis option.distinct(1))+

lemma inverse_recs_delete:
  assumes "inverse_recs r r'" and "rec_get r a = Some b \<or> rec_get r a = None \<and> rec_get r' b = None"
  shows "inverse_recs (rec_delete a r) (rec_delete b r')"
  using assms unfolding inverse_recs_def by (simp del: not_None_eq) (metis option.distinct(1) option.inject)

lemma drift_wf_zero: "drift_wf ZERO_SLICE_STATE"
  by (auto simp: drift_wf_def window_ok_def inverse_recs_def ZERO_SLICE_STATE_def INITIAL_WINDOW_STATE_def get_def
      truthy_def rec_wf_def rec_keys_def MAIN_WINDOW_def PRERENDER_WINDOW_def split: if_splits)

text \<open>A window may change as long as it keeps its key and its reservation.\<close>

lemma drift_wf_set_window:
  assumes "drift_wf s" and "rec_get (windows s) l = Some w"
    and "get w' Key = get w Key" and "get w' Reserved = get w Reserved"
  shows "drift_wf (set_window l w' s)"
proof -
  have "window_ok k w' = window_ok k w" for k
    using assms(3,4) by (simp add: window_ok_def split: option.split)
  with assms(1,2) show ?thesis by (auto simp: drift_wf_def)
qed

lemma drift_wf_new_unreserved:
  assumes "drift_wf s" and "fresh_label s l" and "get w Key = Str PRERENDER_WINDOW" and "\<not> truthy (get w Reserved)"
  shows "drift_wf (set_window l w s)"
  using assms by (auto simp: drift_wf_def fresh_label_def window_ok_def)

lemma drift_wf_reserve:
  assumes "drift_wf s" and "rec_get (labelKeys s) l = None" and "rec_get (keyLabels s) k = None"
    and "get w Key = Str k" and "truthy (get w Reserved)" and "k \<noteq> PRERENDER_WINDOW"
  shows "drift_wf ((set_window l w s)\<lparr>labelKeys := rec_set l k (labelKeys s), keyLabels := rec_set k l (keyLabels s)\<rparr>)"
proof -
  have "window_ok (Some k) w" using assms(4,5) by (simp add: window_ok_def)
  with assms inverse_recs_set [of "labelKeys s" "keyLabels s" l k] show ?thesis by (auto simp: drift_wf_def)
qed

lemma drift_wf_window:
  assumes "drift_wf s" and "rec_get (windows s) l = Some w"
  obtains (reserved) k where "truthy (get w Reserved)" and "get w Key = Str k" and "rec_get (labelKeys s) l = Some k"
      and "rec_get (keyLabels s) k = Some l"
  | (free) "\<not> truthy (get w Reserved)" and "get w Key = Str PRERENDER_WINDOW" and "rec_get (labelKeys s) l = None"
      and "rec_get (keyLabels s) PRERENDER_WINDOW = None"
proof -
  have "window_ok (rec_get (labelKeys s) l) w" and "inverse_recs (labelKeys s) (keyLabels s)"
    and "rec_get (keyLabels s) PRERENDER_WINDOW = None"
    using assms by (simp_all add: drift_wf_def)
  then show thesis
    using reserved free by (cases "rec_get (labelKeys s) l") (auto simp: window_ok_def inverse_recs_def)
qed

lemma drift_wf_delete:
  assumes "drift_wf s" and "rec_get (windows s) l = Some w"
  shows "drift_wf (delete_window l w s)"
proof -
  have "rec_get (labelKeys s) l = Some (as_key (get w Key)) \<or>
      rec_get (labelKeys s) l = None \<and> rec_get (keyLabels s) (as_key (get w Key)) = None"
    by (cases rule: drift_wf_window [OF assms]) (auto simp: as_key_def)
  then have "inverse_recs (rec_delete l (labelKeys s)) (rec_delete (as_key (get w Key)) (keyLabels s))"
    using assms(1) by (intro inverse_recs_delete) (simp_all add: drift_wf_def)
  with assms show ?thesis by (auto simp: drift_wf_def delete_window_def)
qed

lemma drift_wf_incrementCounter:
  assumes "drift_wf s" and "p \<noteq> Key" and "p \<noteq> Reserved"
  shows "drift_wf (incrementCounter p d l s)"
  using assms by (auto simp: incrementCounter_def intro!: drift_wf_set_window split: option.splits)

lemma drift_wf_assignBool:
  assumes "drift_wf s" and "p \<noteq> Key" and "p \<noteq> Reserved"
  shows "drift_wf (assignBool p d l v s)"
  using assms by (auto simp: assignBool_def Let_def intro!: drift_wf_set_window split: option.splits)

lemma drift_wf_assign_prop:
  assumes "drift_wf s" and "p \<noteq> Key" and "p \<noteq> Reserved" and "assign_prop l p v s = Inr s'"
  shows "drift_wf s'"
  using assms by (auto simp: assign_prop_def intro!: drift_wf_set_window split: option.splits)

lemma drift_wf_complete: "drift_wf s \<Longrightarrow> drift_wf (fst (reduceCompleteProcess l s))"
  using drift_wf_incrementCounter [of s ProcessCount True l]
  by (auto simp: reduceCompleteProcess_def Let_def intro: drift_wf_delete split: option.splits)

lemma drift_wf_focus: "drift_wf s \<Longrightarrow> drift_wf (reduceFocusWindow l s)"
  by (auto simp: reduceFocusWindow_def intro!: drift_wf_incrementCounter drift_wf_set_window split: option.splits)

lemma get_add: "get (a ++ b) p = (if b p = None then get a p else get b p)"
  by (auto simp: get_def map_add_def split: option.splits)

lemma drift_wf_props:
  assumes "drift_wf s" and "w Key = None" and "w Reserved = None" and "rec_has (windows s) l"
    and "\<And>k. t_key t = Some k \<Longrightarrow> rec_get (labelKeys s) l = Some k"
  shows "drift_wf (reduceSetWindowProps l (props_payload t l w) s)"
proof -
  from assms(4) obtain x where x: "rec_get (windows s) l = Some x" by (auto simp: rec_has_def)
  have "get (x ++ props_payload t l w) Key = get x Key"
    using assms(5) assms(2) by (cases rule: drift_wf_window [OF assms(1) x])
      (auto simp: props_payload_def get_add get_def split: option.splits)
  moreover have "get (x ++ props_payload t l w) Reserved = get x Reserved"
    using assms(3) by (auto simp: props_payload_def get_add split: option.splits)
  ultimately show ?thesis
    using assms(1) x by (auto simp: reduceSetWindowProps_def Let_def intro: drift_wf_set_window)
qed

lemma drift_wf_prerender:
  assumes "drift_wf s" and "fresh_label s pl"
  shows "drift_wf (maybe_prerender pl s)"
  using assms by (auto simp: maybe_prerender_def deep_copy_def get_def INITIAL_PRERENDER_WINDOW_STATE_def
      INITIAL_WINDOW_STATE_def truthy_def map_add_def intro!: drift_wf_new_unreserved)

lemma drift_wf_initial:
  assumes "drift_wf s" and "fresh_label s pl"
  shows "drift_wf (reduceInternalSetInitial c l pl s)"
proof -
  have *: "drift_wf (s\<lparr>config := x, label := y\<rparr>)" "fresh_label (s\<lparr>config := x, label := y\<rparr>) pl" for x y
    using assms by (simp_all add: drift_wf_def fresh_label_def)
  show ?thesis
    by (auto simp: reduceInternalSetInitial_def Let_def get_def INITIAL_PRERENDER_WINDOW_STATE_def
        INITIAL_WINDOW_STATE_def truthy_def map_add_def intro!: * drift_wf_new_unreserved)
qed

lemma find_in_set: "find P xs = Some x \<Longrightarrow> x \<in> set xs \<and> P x"
  by (auto simp: find_Some_iff in_set_conv_nth)

lemma drift_wf_place:
  assumes wf: "drift_wf s" and key: "get p Key = Str k" "rec_get (keyLabels s) k = None" "k \<noteq> PRERENDER_WINDOW"
    and fresh: "fresh_label s l" and res: "p Reserved = None"
  shows "drift_wf (place_window p k l s)"
proof (cases "find (\<lambda>(_, w). \<not> truthy (get w Reserved)) (windows s)")
  case None
  have "p Key \<noteq> None" using key(1) by (auto simp: get_def split: option.splits)
  then show ?thesis
    using None assms by (auto simp: place_window_def fresh_label_def get_add truthy_def intro!: drift_wf_reserve)
next
  case (Some lw)
  obtain l' w where lw: "lw = (l', w)" by (cases lw)
  have "(l', w) \<in> set (windows s)" "\<not> truthy (get w Reserved)"
    using find_in_set [OF Some] lw by auto
  then have w: "rec_get (windows s) l' = Some w"
    using wf by (simp add: drift_wf_def rec_get_wf_iff)
  then have "rec_get (labelKeys s) l' = None"
    using \<open>\<not> truthy (get w Reserved)\<close> by (cases rule: drift_wf_window [OF wf w]) auto
  moreover have "p Key \<noteq> None" using key(1) by (auto simp: get_def split: option.splits)
  ultimately show ?thesis
    using Some lw assms by (auto simp: place_window_def get_add truthy_def intro!: drift_wf_reserve)
qed

text \<open>The branches of \<open>createWindow\<close> that return.\<close>

definition positioned :: "window \<Rightarrow> window \<Rightarrow> window" where
  "positioned mainWin p = p(Position \<mapsto> maybePositionInCenter mainWin (get p Position) (get p Size))"

lemma reduceCreateWindow_cases:
  assumes "reduceCreateWindow p s = Inr s'" and "get p Key = Str k"
    and "get p Label = Str id1" and "get p PrerenderLabel = Str id2"
  obtains (ignored) "k = PRERENDER_WINDOW" and "s' = s"
  | (reused) mw l where "k \<noteq> PRERENDER_WINDOW" and "rec_get (windows s) MAIN_WINDOW = Some mw"
      and "rec_get (keyLabels s) k = Some l" and "reuse_window (positioned mw p) l s = Inr s'"
  | (placed) mw where "k \<noteq> PRERENDER_WINDOW" and "rec_get (windows s) MAIN_WINDOW = Some mw"
      and "rec_get (keyLabels s) k = None" and "s' = maybe_prerender id2 (place_window (positioned mw p) k id1 s)"
  using assms
  by (auto simp: reduceCreateWindow_def positioned_def Let_def as_key_def split: if_splits option.splits)

lemma place_window_fresh:
  assumes "id1 \<noteq> id2" and "fresh_label s id1" and "fresh_label s id2"
  shows "fresh_label (place_window q k id1 s) id2"
proof (cases "find (\<lambda>(_, w). \<not> truthy (get w Reserved)) (windows s)")
  case None
  then show ?thesis using assms by (auto simp: place_window_def fresh_label_def)
next
  case (Some lw)
  then have "rec_get (windows s) (fst lw) \<noteq> None"
    using find_in_set [OF Some] unfolding rec_get_keys by (auto simp: rec_keys_def)
  then show ?thesis using Some assms by (auto simp: place_window_def fresh_label_def split: prod.splits)
qed

lemma drift_wf_create:
  assumes wf: "drift_wf s" and adm: "get p Key = Str k" "p Reserved = None"
    and lab: "get p Label = Str id1" "get p PrerenderLabel = Str id2"
    and fresh: "id1 \<noteq> id2" "fresh_label s id1" "fresh_label s id2"
    and res: "reduceCreateWindow p s = Inr s'"
  shows "drift_wf s'"
  using res adm(1) lab
proof (cases rule: reduceCreateWindow_cases)
  case ignored
  then show ?thesis using wf by simp
next
  case (reused mw l)
  then show ?thesis
    using wf by (auto simp: reuse_window_def intro!: drift_wf_set_window split: option.splits)
next
  case (placed mw)
  have "drift_wf (place_window (positioned mw p) k id1 s)"
    using placed adm fresh(2) wf by (intro drift_wf_place) (auto simp: positioned_def)
  with place_window_fresh [OF fresh] show ?thesis using placed(4) drift_wf_prerender by simp
qed

lemma setter_props:
  "(p, d) \<in> set BOOL_SETTERS \<Longrightarrow> p \<noteq> Key \<and> p \<noteq> Reserved"
  "p \<in> set VALUE_SETTERS \<Longrightarrow> p \<noteq> Key \<and> p \<noteq> Reserved"
  by (auto simp: BOOL_SETTERS_def VALUE_SETTERS_def)

lemma resolve_label_Some: "t_label (resolve_label t s) = Some (label_of t s)" "t_key (resolve_label t s) = t_key t"
  by (auto simp: label_of_def resolve_label_def split: option.splits)

lemma assertLabel_resolved [simp]: "assertLabel (resolve_label t s) f = f (label_of t s)"
  by (simp add: assertLabel_def resolve_label_Some)

lemma drift_wf_dispatch:
  assumes wf: "drift_wf s" and adm: "admissible id1 id2 a s" and res: "dispatch id1 id2 a s = Inr (s', r)"
  shows "drift_wf s'"
proof (cases a)
  case (CreateWindow p)
  then obtain k where "get p Key = Str k" using adm by (auto split: val.splits)
  moreover have main: "label s = MAIN_WINDOW \<or> get p Key = Str PRERENDER_WINDOW"
    using res adm CreateWindow by (auto simp: dispatch_def reduceCreateWindow_def is_null_def get_def split: if_splits)
  ultimately show ?thesis
    using res adm CreateWindow wf
      drift_wf_create [of s "p(Label \<mapsto> Str id1, PrerenderLabel \<mapsto> Str id2)" k id1 id2 s']
    by (auto simp: dispatch_def bind_result_eq_Inr reduceCreateWindow_def split: if_splits)
next
  case (CompleteProcess t)
  then show ?thesis using res drift_wf_complete [OF wf, of "label_of t s"] by (auto simp: dispatch_def)
next
  case (SetWindowProps t w)
  then have "t_label (resolve_label t s) = Some (label_of t s)" by (simp add: resolve_label_Some)
  then show ?thesis
    using res adm wf SetWindowProps drift_wf_props [of s w "label_of t s" "resolve_label t s"]
    by (auto simp: dispatch_def resolve_label_Some Let_def)
next
  case (SetWindowBool p d t v)
  then show ?thesis
    using res adm wf setter_props(1) [of p d] by (auto simp: dispatch_def intro: drift_wf_assignBool)
next
  case (SetWindowValue p t v)
  then show ?thesis
    using res adm wf setter_props(2) [of p] by (auto simp: dispatch_def bind_result_eq_Inr intro: drift_wf_assign_prop)
next
  case (InternalSetInitial c l pl)
  then show ?thesis using res adm wf by (auto simp: dispatch_def intro: drift_wf_initial)
next
  case (FocusWindow t)
  then show ?thesis using res wf by (auto simp: dispatch_def intro: drift_wf_focus)
qed (use res wf in \<open>auto simp: dispatch_def reduceSetWindowStage_def reduceCloseWindow_def reduceReloadWindow_def
      reduceRegisterProcess_def reduceSetWindowError_def reduceCenterWindow_def
      intro!: drift_wf_set_window drift_wf_delete drift_wf_incrementCounter split: option.splits if_splits\<close>)


lemma drift_reachable_wf: "drift_reachable s \<Longrightarrow> drift_wf s"
  by (induction rule: drift_reachable.induct) (auto intro: drift_wf_zero drift_wf_dispatch)

text \<open>
  C2: In every state that the reducer reaches from the initial one by admissible actions, the maps between
  the labels and the keys of the windows are inverse to each other: a key stands for a label exactly when
  the window of that label is open, in use and carries that key; the remaining windows are prerendered ones
  that no key refers to; and a key that is not itself the label of a window looks up the same window as its
  label. Admissible means: createWindow is given a key, no label and no reserved flag, and draws two
  different labels that no window has; the initial action gets an unused prerender label; and setWindowProps
  names an existing window by its label or by its own key and changes neither key nor reserved flag (with an
  unknown key, or a label given as the key, it breaks the correspondence, state.ts:392). Every other action
  is admissible.
\<close>

theorem drift_labels_and_keys:
  assumes "drift_reachable s"
  shows "(\<forall>l k. rec_get (labelKeys s) l = Some k \<longleftrightarrow> selectWindowLabel s k = Some l) \<and>
    (\<forall>l k. rec_get (labelKeys s) l = Some k \<longleftrightarrow>
       (\<exists>w. rec_get (windows s) l = Some w \<and> truthy (get w Reserved) \<and> get w Key = Str k)) \<and>
    (\<forall>l w. rec_get (windows s) l = Some w \<longrightarrow> \<not> truthy (get w Reserved) \<longrightarrow>
       get w Key = Str PRERENDER_WINDOW \<and> (\<forall>k. selectWindowLabel s k \<noteq> Some l)) \<and>
    (\<forall>l k. selectWindowLabel s k = Some l \<longrightarrow> rec_get (windows s) k = None \<longrightarrow>
       selectWindow s (Some k) = selectWindow s (Some l))"
proof -
  have wf: "drift_wf s" using assms by (rule drift_reachable_wf)
  then have inv: "rec_get (labelKeys s) l = Some k \<longleftrightarrow> rec_get (keyLabels s) k = Some l" for l k
    by (simp add: drift_wf_def inverse_recs_def)
  have open_window: "\<exists>w. rec_get (windows s) l = Some w" if "rec_get (labelKeys s) l = Some k" for l k
    using wf that by (auto simp: drift_wf_def)
  have used1: "\<exists>w. rec_get (windows s) l = Some w \<and> truthy (get w Reserved) \<and> get w Key = Str k"
    if "rec_get (labelKeys s) l = Some k" for l k
  proof -
    from open_window [OF that] obtain w where w: "rec_get (windows s) l = Some w" by blast
    then show ?thesis using that by (cases rule: drift_wf_window [OF wf w]) auto
  qed
  have used2: "rec_get (labelKeys s) l = Some k"
    if "rec_get (windows s) l = Some w" "truthy (get w Reserved)" "get w Key = Str k" for l k w
    using that by (cases rule: drift_wf_window [OF wf that(1)]) auto
  have free: "get w Key = Str PRERENDER_WINDOW \<and> (\<forall>k. rec_get (keyLabels s) k \<noteq> Some l)"
    if "rec_get (windows s) l = Some w" "\<not> truthy (get w Reserved)" for l w
    using that inv by (cases rule: drift_wf_window [OF wf that(1)]) (auto, metis option.distinct(1))
  have "selectWindow s (Some k) = selectWindow s (Some l)"
    if "rec_get (keyLabels s) k = Some l" "rec_get (windows s) k = None" for l k
    using that inv open_window [of l k] by (auto simp: selectWindow_def)
  with inv used1 used2 free show ?thesis unfolding selectWindowLabel_def by blast
qed


lemma get_Str_present: "get p q = Str k \<Longrightarrow> p q \<noteq> None"
  by (cases "p q") (simp_all add: get_def)

lemma truthy_Bool [simp]: "truthy (Bool b) = b"
  by (simp add: truthy_def)

lemma reuse_window_spec:
  assumes "rec_get (windows s) l = Some w"
  shows "\<exists>s'. reuse_window q l s = Inr s' \<and> keyLabels s' = keyLabels s \<and>
    (\<forall>l'. l' \<noteq> l \<longrightarrow> rec_get (windows s') l' = rec_get (windows s) l') \<and>
    (\<exists>w'. rec_get (windows s') l = Some w' \<and> get w' Key = get w Key \<and> get w' Reserved = get w Reserved \<and>
       get w' Visible = Bool True \<and> get w' Minimized = Bool False \<and> get w' FocusCount = num_add (get w FocusCount) 1)"
  using assms by (auto simp: reuse_window_def)

lemma place_window_spec:
  assumes "drift_wf s" and key: "get q Key = Str k" and "q Reserved = None" and vis: "q Visible = None"
  shows "\<exists>l w. keyLabels (place_window q k l0 s) = rec_set k l (keyLabels s) \<and>
    windows (place_window q k l0 s) = rec_set l w (windows s) \<and> config (place_window q k l0 s) = config s \<and>
    get w Key = Str k \<and> truthy (get w Reserved) \<and>
    (case find (\<lambda>(_, w). \<not> truthy (get w Reserved)) (windows s) of
       Some (l', _) \<Rightarrow> l = l' \<and> get w Visible = Bool True
     | None \<Rightarrow> l = l0 \<and> get w Visible = get (defaultWindowProps (config s)) Visible)"
proof (cases "find (\<lambda>(_, w). \<not> truthy (get w Reserved)) (windows s)")
  case None
  then show ?thesis
    using assms get_Str_present [OF key]
    by (intro exI [of _ l0] exI [of _ "(defaultWindowProps (config s) ++ INITIAL_WINDOW_STATE ++ q)(Reserved \<mapsto> Bool True)"])
      (auto simp: place_window_def get_add INITIAL_WINDOW_STATE_def)
next
  case (Some lw)
  obtain l w where "lw = (l, w)" by (cases lw)
  with Some show ?thesis
    using assms get_Str_present [OF key]
    by (intro exI [of _ l]
        exI [of _ "w(Visible \<mapsto> Bool True, Reserved \<mapsto> Bool True, FocusCount \<mapsto> Number 1, Focus \<mapsto> Bool True) ++ q"])
      (auto simp: place_window_def get_add)
qed

lemma maybe_prerender_spec:
  assumes "rec_get (windows s) pl = None"
  shows "keyLabels (maybe_prerender pl s) = keyLabels s"
    and "l \<noteq> pl \<Longrightarrow> rec_get (windows (maybe_prerender pl s)) l = rec_get (windows s) l"
    and "enablePrerender (config s) \<Longrightarrow> alreadyHasPreRender (maybe_prerender pl s)"
proof -
  show "enablePrerender (config s) \<Longrightarrow> alreadyHasPreRender (maybe_prerender pl s)"
  proof (cases "alreadyHasPreRender s")
    case False
    assume "enablePrerender (config s)"
    let ?w = "deep_copy (defaultWindowProps (config s) ++ INITIAL_PRERENDER_WINDOW_STATE)"
    have "rec_get (windows (maybe_prerender pl s)) pl = Some ?w"
      using False \<open>enablePrerender (config s)\<close> by (simp add: maybe_prerender_def)
    then have "(pl, ?w) \<in> set (windows (maybe_prerender pl s))" by (rule rec_get_in_set)
    moreover have "get ?w Key = Str PRERENDER_WINDOW" "\<not> truthy (get ?w Reserved)"
      by (simp_all add: deep_copy_def get_def INITIAL_PRERENDER_WINDOW_STATE_def INITIAL_WINDOW_STATE_def)
    ultimately show ?thesis unfolding alreadyHasPreRender_def list_ex_iff by blast
  qed (simp add: maybe_prerender_def)
qed (simp_all add: maybe_prerender_def)

text \<open>
  Dispatching \<open>createWindow\<close> in the main window always leaves an open window in use
  for the requested key and touches no other window. A window that is already open for the key is shown,
  restored and focused; a prerendered window is taken and shown when there is one; otherwise a window
  opens under the new label. When prerendering is on, a spare window is ready again afterwards. In any
  other window the action gets no label and the same dispatch throws.
\<close>

theorem createWindow_opens:
  assumes "drift_reachable s" and "label s = MAIN_WINDOW" and "rec_get (windows s) MAIN_WINDOW = Some mw"
    and "get p Key = Str k" and "k \<noteq> PRERENDER_WINDOW"
    and "p Reserved = None" and "p Visible = None" and "p Label = None" and "p PrerenderLabel = None"
    and "id1 \<noteq> id2" and "fresh_label s id1" and "fresh_label s id2"
  shows "(\<exists>s' l w. dispatch id1 id2 (CreateWindow p) s = Inr (s', False) \<and>
      selectWindowLabel s' k = Some l \<and> rec_get (windows s') l = Some w \<and>
      get w Key = Str k \<and> truthy (get w Reserved) \<and>
      (\<forall>l'. l' \<noteq> l \<longrightarrow> l' \<noteq> id2 \<longrightarrow> rec_get (windows s') l' = rec_get (windows s) l') \<and>
      (case selectWindowLabel s k of
         Some l0 \<Rightarrow> l = l0 \<and> get w Visible = Bool True \<and> get w Minimized = Bool False \<and>
           rec_get (windows s') id2 = None
       | None \<Rightarrow> (enablePrerender (config s) \<longrightarrow> alreadyHasPreRender s') \<and>
           (case find (\<lambda>(_, w). \<not> truthy (get w Reserved)) (windows s) of
              Some (l0, _) \<Rightarrow> l = l0 \<and> get w Visible = Bool True
            | None \<Rightarrow> l = id1))) \<and>
    (\<forall>other. other \<noteq> MAIN_WINDOW \<longrightarrow>
      dispatch id1 id2 (CreateWindow p) (s\<lparr>label := other\<rparr>) = Inl ''[drift] - bug - missing label and prerender label'')"
proof -
  let ?p = "p(Label \<mapsto> Str id1, PrerenderLabel \<mapsto> Str id2)"
  let ?q = "positioned mw ?p"
  have wf: "drift_wf s" using assms(1) by (rule drift_reachable_wf)
  have q: "get ?q Key = Str k" "?q Reserved = None" "?q Visible = None"
    using assms by (simp_all add: positioned_def)
  have red: "reduceCreateWindow ?p s =
      (case rec_get (keyLabels s) k of
         Some l \<Rightarrow> reuse_window ?q l s | None \<Rightarrow> return (maybe_prerender id2 (place_window ?q k id1 s)))"
    using assms by (simp add: reduceCreateWindow_def is_null_def Let_def positioned_def as_key_def split: option.split)
  have other: "dispatch id1 id2 (CreateWindow p) (s\<lparr>label := other\<rparr>) = Inl ''[drift] - bug - missing label and prerender label''"
    if "other \<noteq> MAIN_WINDOW" for other
    using that assms by (simp add: dispatch_def reduceCreateWindow_def is_null_def get_def)
  show ?thesis
  proof (cases "rec_get (keyLabels s) k")
    case (Some l)
    then have lk: "rec_get (labelKeys s) l = Some k" using wf by (simp add: drift_wf_def inverse_recs_def)
    then obtain w where w: "rec_get (windows s) l = Some w" using wf by (force simp: drift_wf_def)
    have "get w Key = Str k" "truthy (get w Reserved)"
      using lk by (cases rule: drift_wf_window [OF wf w]; simp)+
    moreover have "l \<noteq> id2" using w assms(12) by (auto simp: fresh_label_def)
    ultimately show ?thesis
      using reuse_window_spec [OF w, of ?q] red Some assms(2,12) w other
      by (auto simp: dispatch_def selectWindowLabel_def fresh_label_def)
  next
    case None
    obtain l w where lw: "keyLabels (place_window ?q k id1 s) = rec_set k l (keyLabels s)"
      "windows (place_window ?q k id1 s) = rec_set l w (windows s)" "config (place_window ?q k id1 s) = config s"
      "get w Key = Str k" "truthy (get w Reserved)"
      "case find (\<lambda>(_, w). \<not> truthy (get w Reserved)) (windows s) of
         Some (l', _) \<Rightarrow> l = l' \<and> get w Visible = Bool True
       | None \<Rightarrow> l = id1 \<and> get w Visible = get (defaultWindowProps (config s)) Visible"
      using place_window_spec [OF wf q] by blast
    have "rec_get (windows (place_window ?q k id1 s)) id2 = None"
      using place_window_fresh [OF assms(10-12)] by (simp add: fresh_label_def)
    note pre = maybe_prerender_spec [OF this]
    let ?s' = "maybe_prerender id2 (place_window ?q k id1 s)"
    have "l \<noteq> id2" using \<open>rec_get (windows (place_window ?q k id1 s)) id2 = None\<close> lw(2) by auto
    have "dispatch id1 id2 (CreateWindow p) s = Inr (?s', False)"
      using red None assms(2) by (simp add: dispatch_def)
    moreover have "rec_get (keyLabels ?s') k = Some l" using pre(1) lw(1) by simp
    moreover have "rec_get (windows ?s') l = Some w" using pre(2) [OF \<open>l \<noteq> id2\<close>] lw(2) by simp
    moreover have "\<forall>l'. l' \<noteq> l \<longrightarrow> l' \<noteq> id2 \<longrightarrow> rec_get (windows ?s') l' = rec_get (windows s) l'"
      using pre(2) lw(2) by simp
    moreover have "enablePrerender (config s) \<longrightarrow> alreadyHasPreRender ?s'" using pre(3) lw(3) by simp
    moreover have "case find (\<lambda>(_, w). \<not> truthy (get w Reserved)) (windows s) of
        Some (l0, _) \<Rightarrow> l = l0 \<and> get w Visible = Bool True | None \<Rightarrow> l = id1"
      using lw(6) by (auto split: option.splits)
    ultimately show ?thesis
      using lw(4,5) other unfolding selectWindowLabel_def None option.case by blast
  qed
qed


text \<open>The state after a window is closed: its label and key are free, and nothing else changes.\<close>

definition window_gone :: "string \<Rightarrow> slice_state \<Rightarrow> slice_state \<Rightarrow> bool" where
  "window_gone l s s' \<longleftrightarrow>
     rec_get (windows s') l = None \<and> rec_get (labelKeys s') l = None \<and>
     (\<forall>k. selectWindowLabel s k = Some l \<longrightarrow> selectWindowLabel s' k = None) \<and>
     (\<forall>l'. l' \<noteq> l \<longrightarrow> rec_get (windows s') l' = rec_get (windows s) l' \<and> rec_get (labelKeys s') l' = rec_get (labelKeys s) l')"

lemma delete_window_gone:
  assumes "drift_wf s" and "rec_get (windows s) l = Some w" and "get w' Key = get w Key"
    and "\<And>l'. l' \<noteq> l \<Longrightarrow> rec_get (windows s') l' = rec_get (windows s) l'" "labelKeys s' = labelKeys s" "keyLabels s' = keyLabels s"
  shows "window_gone l s (delete_window l w' s')"
proof -
  have "as_key (get w Key) = k" if "rec_get (keyLabels s) k = Some l" for k
  proof -
    have "rec_get (labelKeys s) l = Some k" using that assms(1) by (simp add: drift_wf_def inverse_recs_def)
    then show ?thesis by (cases rule: drift_wf_window [OF assms(1,2)]) (simp_all add: as_key_def)
  qed
  then show ?thesis
    using assms(3-6) by (auto simp: window_gone_def selectWindowLabel_def delete_window_def)
qed

text \<open>
  How a window of a reachable state goes away, by the number of processes that it runs. With none,
  \<open>closeWindow\<close> removes the window and frees its label and key, and
  \<open>reloadWindow\<close> marks it and schedules the reload. With some, both requests leave the
  state exactly as it was, so that the lifecycle hooks, which complete their process when they see the
  stage \<open>closing\<close> or \<open>reloading\<close>, never learn of the request; and the
  completion of the last process removes the window although nobody asked for it to be closed.
\<close>

theorem window_shutdown:
  assumes "drift_reachable s" and "rec_get (windows s) (label_of t s) = Some w" and "get w ProcessCount = Number n"
  shows "(n \<le> 0 \<longrightarrow>
      (\<exists>s'. dispatch id1 id2 (CloseWindow t) s = Inr (s', False) \<and> window_gone (label_of t s) s s') \<and>
      dispatch id1 id2 (ReloadWindow t) s =
        Inr (set_window (label_of t s) (w(Stage \<mapsto> Str ''reloading'')) s, True)) \<and>
    (n > 0 \<longrightarrow>
      dispatch id1 id2 (CloseWindow t) s = Inr (s, False) \<and> dispatch id1 id2 (ReloadWindow t) s = Inr (s, False)) \<and>
    (n = 1 \<longrightarrow> get w Stage \<noteq> Str ''reloading'' \<longrightarrow>
      (\<exists>s'. dispatch id1 id2 (CompleteProcess t) s = Inr (s', False) \<and> window_gone (label_of t s) s s'))"
proof -
  let ?l = "label_of t s" and ?w = "w(ProcessCount \<mapsto> Number (n - 1))"
  have wf: "drift_wf s" using assms(1) by (rule drift_reachable_wf)
  have close: "window_gone ?l s (delete_window ?l w s)"
    using delete_window_gone [OF wf assms(2) refl, of s] by simp
  have complete: "window_gone ?l s (delete_window ?l ?w (set_window ?l ?w s))"
    using delete_window_gone [OF wf assms(2), of ?w "set_window ?l ?w s"] by simp
  show ?thesis
    using assms(2,3) close complete
    by (auto simp: dispatch_def reduceCloseWindow_def reduceReloadWindow_def reduceCompleteProcess_def
        incrementCounter_def num_positive_def num_add_def)
qed

lemma split_first_app:
  assumes "\<not> sublist sep e" and "sep = ''://'' \<or> sep = ''DA@''"
  shows "split_first sep (e @ sep @ t) = Some (e, t)"
  using assms(1)
proof (induction e)
  case Nil
  then show ?case using assms(2) by auto
next
  case (Cons c e)
  have "\<not> prefix sep (c # e @ sep @ t)"
  proof
    assume *: "prefix sep (c # e @ sep @ t)"
    have "\<not> prefix sep (c # e)" using Cons.prems by auto
    moreover have "length sep = 3" using assms(2) by auto
    ultimately have "length e < 2"
      using * by (metis append_Cons length_Cons less_2_cases_iff linorder_not_less numeral_2_eq_2 numeral_3_eq_3
          not_less_eq_eq prefix_length_prefix prefixI)
    then show False using * assms(2) by (cases e) auto
  qed
  then show ?case using Cons by (auto simp: sublist_Cons_right)
qed

lemma sugar_roundtrip:
  fixes body :: 'a
  assumes "\<not> sublist DRIFT_PREFIX_SPLITTER emitter" and "\<not> sublist DRIFT_ACTION_INDICATOR emitter"
    and "emitter \<noteq> []" and "\<not> sublist DRIFT_PREFIX_SPLITTER type"
  shows "desugar (sugar (type, body) emitter) = (True, Some emitter, (type, body)) \<and>
    desugar (type, body) = (False, Some [], (type, body)) \<and>
    desugar (sugar (type @ DRIFT_PREFIX_SPLITTER @ rest, body) emitter) = (True, Some emitter, (type, body))"
proof -
  let ?S = "''://''" and ?D = "''DA@''"
  have S: "js_split ?S a = [a]" if "\<not> sublist ?S a" for a
    using that by (subst js_split.simps) (simp add: split_first_none)
  have S2: "js_split ?S (a @ ?S @ b) = a # js_split ?S b" if "\<not> sublist ?S a" for a b
    using split_first_app [OF that, of b] by (subst js_split.simps) (simp del: append_Cons)
  have D: "js_split ?D (?D @ a) = [[], a]" if "\<not> sublist ?D a" for a
    using that by (subst js_split.simps, subst js_split.simps) (simp add: split_first_none)
  have pre: "\<not> sublist ?S (?D @ emitter)" using assms(1) by (simp add: DRIFT_PREFIX_SPLITTER_def sublist_Cons_right)
  have sugared: "js_split ?S (?D @ emitter @ ?S @ b) = (?D @ emitter) # js_split ?S b" for b
    using S2 [OF pre, of b] by simp
  note [simp] = DRIFT_PREFIX_SPLITTER_def DRIFT_ACTION_INDICATOR_def
  have e: "nth_opt (js_split ?D (?D @ emitter)) 1 = Some emitter" using D assms(2) by (simp add: nth_opt_def)
  show ?thesis
    using assms sugared S S2 e
    by (simp add: desugar_def sugar_def sugarType_def desugarType_def del: append_Cons)
qed

text \<open>
  An action survives its trip between windows: for an emitter and a type that contain neither the
  splitter nor (the emitter) the indicator, desugaring the sugared action gives back the action and its
  emitter; and an action that was never sugared comes out unchanged, marked as local. The type has to be
  free of the splitter: what follows a further splitter is lost.
\<close>

theorem desugar_sugar:
  fixes body :: 'a
  assumes "\<not> sublist DRIFT_PREFIX_SPLITTER emitter" and "\<not> sublist DRIFT_ACTION_INDICATOR emitter"
    and "emitter \<noteq> []" and "\<not> sublist DRIFT_PREFIX_SPLITTER type"
  shows "desugar (sugar (type, body) emitter) = (True, Some emitter, (type, body)) \<and>
    desugar (type, body) = (False, Some [], (type, body)) \<and>
    desugar (sugar (type @ DRIFT_PREFIX_SPLITTER @ rest, body) emitter) = (True, Some emitter, (type, body))"
  by (rule sugar_roundtrip [OF assms])


lemmas drift_eval = dispatch_def assertLabel_def label_of_def resolve_label_def reduceRegisterProcess_def incrementCounter_def
  reduceCreateWindow_def place_window_def reuse_window_def maybe_prerender_def maybePositionInCenter_def
  alreadyHasPreRender_def is_null_def as_key_def truthy_def num_add_def get_def Let_def
  ZERO_SLICE_STATE_def INITIAL_WINDOW_STATE_def MAIN_WINDOW_def PRERENDER_WINDOW_def

theorem drift_labels_and_keys_witness:
  "\<exists>s. drift_reachable s \<and> selectWindowLabel s ''plot'' = Some ''x'' \<and>
     (\<exists>w. rec_get (windows s) ''x'' = Some w \<and> truthy (get w Reserved) \<and> get w Key = Str ''plot'')"
proof -
  let ?a = "CreateWindow [Key \<mapsto> Str ''plot'']"
  have "\<exists>s. dispatch ''x'' ''y'' ?a ZERO_SLICE_STATE = Inr (s, False) \<and> selectWindowLabel s ''plot'' = Some ''x''"
    by (simp add: drift_eval selectWindowLabel_def)
  then obtain s where s: "dispatch ''x'' ''y'' ?a ZERO_SLICE_STATE = Inr (s, False)" "selectWindowLabel s ''plot'' = Some ''x''"
    by blast
  have "admissible ''x'' ''y'' ?a ZERO_SLICE_STATE"
    by (simp add: fresh_label_def ZERO_SLICE_STATE_def MAIN_WINDOW_def get_def)
  then have "drift_reachable s" using s(1) by (rule drift_reachable.dispatched [OF drift_reachable.initial])
  then show ?thesis using drift_labels_and_keys [of s] s(2) by blast
qed

theorem createWindow_opens_witness:
  "\<exists>s' l w. dispatch ''x'' ''y'' (CreateWindow [Key \<mapsto> Str ''plot'']) ZERO_SLICE_STATE = Inr (s', False) \<and>
     selectWindowLabel s' ''plot'' = Some l \<and> rec_get (windows s') l = Some w \<and>
     get w Key = Str ''plot'' \<and> alreadyHasPreRender s'"
proof -
  have "\<exists>mw. rec_get (windows ZERO_SLICE_STATE) MAIN_WINDOW = Some mw" by (simp add: ZERO_SLICE_STATE_def)
  then obtain mw where mw: "rec_get (windows ZERO_SLICE_STATE) MAIN_WINDOW = Some mw" by blast
  let ?p = "[Key \<mapsto> Str ''plot'']"
  have hyps: "label ZERO_SLICE_STATE = MAIN_WINDOW" "get ?p Key = Str ''plot''" "''plot'' \<noteq> PRERENDER_WINDOW"
    "?p Reserved = None" "?p Visible = None" "?p Label = None" "?p PrerenderLabel = None" "''x'' \<noteq> ''y''"
    "fresh_label ZERO_SLICE_STATE ''x''" "fresh_label ZERO_SLICE_STATE ''y''"
    by (simp_all add: fresh_label_def ZERO_SLICE_STATE_def MAIN_WINDOW_def PRERENDER_WINDOW_def get_def)
  have new: "selectWindowLabel ZERO_SLICE_STATE ''plot'' = None" "enablePrerender (config ZERO_SLICE_STATE)"
    by (simp_all add: selectWindowLabel_def ZERO_SLICE_STATE_def MAIN_WINDOW_def)
  show ?thesis
    using createWindow_opens [OF drift_reachable.initial hyps(1) mw hyps(2-)]
    by (simp only: new option.case simp_thms) (elim conjE exE, intro exI conjI, assumption+)
qed

theorem window_shutdown_witness:
  "\<exists>s s'. dispatch ''x'' ''y'' (RegisterProcess \<lparr>t_key = None, t_label = None\<rparr>) ZERO_SLICE_STATE = Inr (s, False) \<and>
     dispatch ''x'' ''y'' (CloseWindow \<lparr>t_key = None, t_label = None\<rparr>) s = Inr (s, False) \<and>
     dispatch ''x'' ''y'' (CompleteProcess \<lparr>t_key = None, t_label = None\<rparr>) s = Inr (s', False) \<and>
     window_gone MAIN_WINDOW s s'"
proof -
  let ?t = "\<lparr>t_key = None, t_label = None\<rparr>" and ?z = ZERO_SLICE_STATE
  let ?w = "INITIAL_WINDOW_STATE(Key \<mapsto> Str MAIN_WINDOW, Reserved \<mapsto> Bool True, ProcessCount \<mapsto> Number 1)"
  let ?s = "set_window MAIN_WINDOW ?w ?z"
  have s: "dispatch ''x'' ''y'' (RegisterProcess ?t) ?z = Inr (?s, False)"
    by (simp add: drift_eval set_window_def)
  have reach: "drift_reachable ?s" using drift_reachable.dispatched [OF drift_reachable.initial _ s] by simp
  have l: "label_of ?t ?s = MAIN_WINDOW" by (simp add: label_of_def resolve_label_def ZERO_SLICE_STATE_def)
  have "get ?w ProcessCount = Number 1" "get ?w Stage = Str ''creating''" by (simp_all add: get_def INITIAL_WINDOW_STATE_def)
  with window_shutdown [OF reach, of ?t ?w 1 "''x''" "''y''"] l s show ?thesis by auto
qed

theorem desugar_sugar_witness:
  "desugar (sugar (''drift/closeWindow'', ()) ''main'') = (True, Some ''main'', (''drift/closeWindow'', ()))"
proof -
  have "\<not> sublist DRIFT_PREFIX_SPLITTER ''main''" "\<not> sublist DRIFT_ACTION_INDICATOR ''main''"
    "\<not> sublist DRIFT_PREFIX_SPLITTER ''drift/closeWindow''"
    by (simp_all add: DRIFT_PREFIX_SPLITTER_def DRIFT_ACTION_INDICATOR_def sublist_Cons_right)
  then show ?thesis using desugar_sugar [of "''main''" "''drift/closeWindow''" "()"] by simp
qed

end
