(* ===== verification/Drift_Sync.thy ===== *)
theory Drift_Sync
  imports Drift "HOL-Library.List_Lexorder" "HOL-Library.Char_ord"
begin

text \<open>
  How the state of the window manager reaches the windows of the runtime and the other stores: the
  synchronisation of \<open>drift/src/sync.ts\<close>, the middleware (\<open>middleware.ts\<close>,
  \<open>validate.ts\<close>, the emission rules of \<open>state.ts\<close>), the reset of a preloaded
  state (\<open>configureStore.ts\<close>), the lifecycle hook (\<open>react/hooks.ts\<close>), and the
  mock runtime (\<open>mock/runtime.ts\<close>) that the calls are interpreted in.

  The synchronisation functions are asynchronous code that does nothing but call the runtime one call
  after the other, so that each is the list of the calls that it makes. What \<open>getProps\<close>
  reports is a parameter that may depend on the calls made so far.
\<close>

section \<open>Calls of the runtime\<close>

datatype rcall =
  RCreate string window
| RClose string
| RSet win_prop val
| RSetMinimized bool
| RCenter
| RFocus

definition purgeWinStateToProps :: "window \<Rightarrow> window" where
  "purgeWinStateToProps w =
     w(CenterCount := None, ProcessCount := None, FocusCount := None, Stage := None, Key := None,
       PrerenderLabel := None, Reserved := None, Minimized := None)"

definition createRuntimeWindow :: "string \<Rightarrow> window \<Rightarrow> rcall" where
  "createRuntimeWindow l w = RCreate l (purgeWinStateToProps w)"

definition closeRuntimeWindow :: "string \<Rightarrow> rcall" where
  "closeRuntimeWindow l = RClose l"

section \<open>The current window\<close>

text \<open>An entry of the array of changes: a single call, or the change of the visibility.\<close>

datatype change = Call rcall | ChangeVisibility

definition changed :: "win_prop \<Rightarrow> window \<Rightarrow> window \<Rightarrow> bool" where
  "changed p prev next0 \<longleftrightarrow> \<not> is_null (get next0 p) \<and> (get next0 p \<noteq> get prev p \<or> get next0 p = NaN)"

definition count_changed :: "win_prop \<Rightarrow> window \<Rightarrow> window \<Rightarrow> bool" where
  "count_changed p prev next0 \<longleftrightarrow> get next0 p \<noteq> get prev p \<or> get next0 p = NaN"

definition as_dims :: "val \<Rightarrow> dimensions option" where
  "as_dims v = (case v of Dims d \<Rightarrow> Some d | Point q \<Rightarrow> Some \<lparr>width_of = xc q, height_of = yc q\<rparr> | _ \<Rightarrow> None)"

definition dims_changed :: "win_prop \<Rightarrow> window \<Rightarrow> window \<Rightarrow> bool" where
  "dims_changed p prev next0 =
     (case as_dims (get next0 p) of None \<Rightarrow> False | Some d \<Rightarrow> \<not> dims_equals d (as_dims (get prev p)))"

definition push_if :: "bool \<Rightarrow> 'a list \<Rightarrow> 'a list" where
  "push_if b xs = (if b then xs else [])"

definition set_call :: "win_prop \<Rightarrow> window \<Rightarrow> change list" where
  "set_call p next0 = [Call (RSet p (get next0 p))]"

definition current_changes :: "window \<Rightarrow> window \<Rightarrow> change list" where
  "current_changes prev next0 =
     (let changeVisibility = changed Visible prev next0;
          changeVisibilityNow = (get next0 Visible = Bool False)
      in push_if (changed Title prev next0) (set_call Title next0) @
         push_if (changeVisibility \<and> changeVisibilityNow) [ChangeVisibility] @
         push_if (changed SkipTaskbar prev next0) (set_call SkipTaskbar next0) @
         push_if (changed Maximized prev next0) (set_call Maximized next0) @
         push_if (changed Fullscreen prev next0) (set_call Fullscreen next0) @
         push_if (count_changed CenterCount prev next0) [Call RCenter] @
         push_if (changed Minimized prev next0) [Call (RSetMinimized (truthy (get next0 Minimized)))] @
         push_if (changed Resizable prev next0) (set_call Resizable next0) @
         push_if (dims_changed MinSize prev next0) (set_call MinSize next0) @
         push_if (dims_changed MaxSize prev next0) (set_call MaxSize next0) @
         push_if (dims_changed Size prev next0) (set_call Size next0) @
         push_if (dims_changed Position prev next0) (set_call Position next0) @
         push_if (count_changed FocusCount prev next0) [Call (RSet Visible (Bool True)), Call RFocus] @
         push_if (changed Decorations prev next0) (set_call Decorations next0) @
         push_if (changed AlwaysOnTop prev next0) (set_call AlwaysOnTop next0) @
         push_if (changeVisibility \<and> \<not> changeVisibilityNow) [ChangeVisibility])"

text \<open>
  The calls of one change. A window that becomes visible is moved by one pixel and back; without a
  position in the state, the position that the runtime reports is used, and when there is none
  \<open>xy.translate\<close> throws.
\<close>

definition run_change :: "(rcall list \<Rightarrow> window) \<Rightarrow> window \<Rightarrow> change \<Rightarrow> rcall list \<Rightarrow> rcall list \<times> string option" where
  "run_change getProps next0 c done0 =
     (case c of
        Call r \<Rightarrow> ([r], None)
      | ChangeVisibility \<Rightarrow>
          let show0 = RSet Visible (get next0 Visible)
          in if get next0 Visible = Bool False then ([show0], None)
             else let position = (if \<not> is_null (get next0 Position) then get next0 Position
                                  else get (getProps (done0 @ [show0])) Position)
                  in case position of
                       Point q \<Rightarrow>
                         ([show0, RSet Position (Point (xy_translate [q, \<lparr>xc = 1, yc = 1\<rparr>, XY_ZERO])), RSet Position (Point q)], None)
                     | _ \<Rightarrow> ([show0], Some ''TypeError''))"

fun run_changes :: "(rcall list \<Rightarrow> window) \<Rightarrow> window \<Rightarrow> change list \<Rightarrow> rcall list \<Rightarrow> rcall list \<times> string option" where
  "run_changes getProps next0 [] done0 = (done0, None)"
| "run_changes getProps next0 (c # cs) done0 =
     (case run_change getProps next0 c done0 of
        (calls, None) \<Rightarrow> run_changes getProps next0 cs (done0 @ calls)
      | (calls, Some e) \<Rightarrow> (done0 @ calls, Some e))"

definition syncCurrent :: "(rcall list \<Rightarrow> window) \<Rightarrow> window \<Rightarrow> window \<Rightarrow> rcall list \<Rightarrow> rcall list \<times> string option" where
  "syncCurrent getProps prev next0 done0 = run_changes getProps next0 (current_changes prev next0) done0"

section \<open>All windows\<close>

definition syncMain :: "bool \<Rightarrow> slice_state \<Rightarrow> slice_state \<Rightarrow> rcall list" where
  "syncMain isMain prev next0 =
     (let removed = filter (\<lambda>l. \<not> rec_has (windows next0) l) (rec_keys (windows prev));
          added = filter (\<lambda>l. \<not> rec_has (windows prev) l) (rec_keys (windows next0))
      in if \<not> isMain then []
         else concat (map (\<lambda>l.
                (if l = MAIN_WINDOW
                 then map closeRuntimeWindow (filter (\<lambda>l. l \<noteq> MAIN_WINDOW) (rec_keys (windows next0))) else []) @
                [closeRuntimeWindow l]) removed) @
              map (\<lambda>l. createRuntimeWindow l (the (rec_get (windows next0) l))) added)"

definition sync :: "(rcall list \<Rightarrow> window) \<Rightarrow> bool \<Rightarrow> string \<Rightarrow> slice_state \<Rightarrow> slice_state \<Rightarrow> rcall list \<times> string option" where
  "sync getProps isMain label0 prev next0 =
     (let calls = (if isMain then syncMain isMain prev next0 else [])
      in case (rec_get (windows prev) label0, rec_get (windows next0) label0) of
           (Some prevWin, Some nextWin) \<Rightarrow> syncCurrent getProps prevWin nextWin calls
         | _ \<Rightarrow> (calls, None))"

text \<open>The two lists of labels are sorted in place when they are logged.\<close>

definition initial_calls :: "string list \<Rightarrow> bool \<Rightarrow> slice_state \<Rightarrow> rcall list" where
  "initial_calls listLabels isMain state =
     (let runtimeLabels = sort (filter (\<lambda>l. l \<noteq> MAIN_WINDOW) listLabels);
          nonMain = sort (filter (\<lambda>l. l \<noteq> MAIN_WINDOW) (rec_keys (windows state)))
      in concat (map (\<lambda>l.
           if l \<notin> set runtimeLabels \<and> isMain then [createRuntimeWindow l (the (rec_get (windows state) l))]
           else if l \<notin> set nonMain then [closeRuntimeWindow l] else [])
         (unique (runtimeLabels @ nonMain))))"

text \<open>The result of \<open>syncInitial\<close>: its calls, the error that stopped it, and the action that it dispatches.\<close>

definition syncInitial ::
    "string list \<Rightarrow> (rcall list \<Rightarrow> window) \<Rightarrow> bool \<Rightarrow> string \<Rightarrow> slice_state \<Rightarrow> rcall list \<times> string option \<times> action option" where
  "syncInitial listLabels getProps isMain label0 state =
     (let calls = initial_calls listLabels isMain state
      in case rec_get (windows state) label0 of
           None \<Rightarrow> (calls, None, None)
         | Some next0 \<Rightarrow>
             (case syncCurrent getProps (INITIAL_WINDOW_STATE(Key \<mapsto> Str label0)) next0 calls of
                (calls', Some e) \<Rightarrow> (calls', Some e, None)
              | (calls', None) \<Rightarrow>
                  (calls', None,
                   Some (SetWindowProps \<lparr>t_key = None, t_label = Some label0\<rparr> (getProps calls')))))"

section \<open>The middleware\<close>

text \<open>An action on the wire: its type, and its payload when it is an action of the drift slice.\<close>

type_synonym wire = "string \<times> action option"

definition isDriftAction :: "string \<Rightarrow> bool" where
  "isDriftAction type = prefix ''drift'' type"

definition EXCLUDED_ACTIONS :: "string list" where
  "EXCLUDED_ACTIONS = [''drift/internalSetInitial'']"

definition EXCLUDE_SYNC_ACTIONS :: "string list" where
  "EXCLUDE_SYNC_ACTIONS = [''drift/runtimeSetWindowProps'', ''drift/reloadWindow'']"

definition shouldEmit :: "bool \<Rightarrow> string \<Rightarrow> bool" where
  "shouldEmit emitted type \<longleftrightarrow> \<not> emitted \<and> type \<notin> set EXCLUDED_ACTIONS"

definition validateAction :: "string \<Rightarrow> unit result" where
  "validateAction type = (if type = [] then throw ''[drift] - unexpected undefined action type'' else return ())"

text \<open>
  The runtime of a window: its label, whether it is the main window, the properties it reports after some
  calls, the error of the first of some calls that it rejects, and the error of an emission that fails.
\<close>

record runtime =
  rt_label :: string
  rt_isMain :: bool
  rt_getProps :: "rcall list \<Rightarrow> window"
  rt_rejects :: "rcall list \<Rightarrow> string option"
  rt_emit_error :: "wire \<Rightarrow> string option"

text \<open>
  What a dispatch does: the state of the store, whether a reload of this window was scheduled, the pair of
  states that is synchronised, and, once the closure that is queued behind the mutex has run, the action that
  was emitted to the other windows and the error that was dispatched to the own store.
\<close>

record outcome =
  o_state :: slice_state
  o_reload :: bool
  o_sync :: "(slice_state \<times> slice_state) option"
  o_emit :: "wire option"
  o_error :: "action option"

definition label_payload :: "string \<Rightarrow> string \<Rightarrow> wire \<Rightarrow> slice_state \<Rightarrow> wire" where
  "label_payload id1 id2 a s =
     (if isDriftAction (fst a) then (fst a, map_option (\<lambda>b. assignLabel id1 id2 b s) (snd a)) else a)"

definition reduce_wire :: "wire \<Rightarrow> slice_state \<Rightarrow> (slice_state \<times> bool) result" where
  "reduce_wire a s = (case snd a of None \<Rightarrow> return (s, False) | Some b \<Rightarrow> reducer b s)"

text \<open>
  The synchronisation of a window with its runtime stops at the first call that the runtime rejects, or
  with its own error after the calls that it made.
\<close>

definition sync_error :: "runtime \<Rightarrow> (slice_state \<times> slice_state) option \<Rightarrow> string option" where
  "sync_error rt states =
     (case states of
        None \<Rightarrow> None
      | Some (prev, next0) \<Rightarrow>
          (case sync (rt_getProps rt) (rt_isMain rt) (rt_label rt) prev next0 of
             (calls, e) \<Rightarrow> (case rt_rejects rt calls of Some m \<Rightarrow> Some m | None \<Rightarrow> e)))"

text \<open>
  The closure behind the mutex: the synchronisation comes first, then the emission; an error of either is
  dispatched as the error of the window, and a failed synchronisation keeps the action from being emitted.
\<close>

definition run_exclusive :: "runtime \<Rightarrow> (slice_state \<times> slice_state) option \<Rightarrow> wire option \<Rightarrow> wire option \<times> action option" where
  "run_exclusive rt states to_emit =
     (case sync_error rt states of
        Some m \<Rightarrow> (None, Some (SetWindowError (rt_label rt) m))
      | None \<Rightarrow>
          (case to_emit of
             None \<Rightarrow> (None, None)
           | Some w \<Rightarrow>
               (case rt_emit_error rt w of
                  None \<Rightarrow> (Some w, None)
                | Some m \<Rightarrow> (None, Some (SetWindowError (rt_label rt) m)))))"

definition middleware :: "runtime \<Rightarrow> string \<Rightarrow> string \<Rightarrow> wire \<Rightarrow> slice_state \<Rightarrow> outcome result" where
  "middleware rt id1 id2 action0 s =
     (let (emitted, emitter, action) = desugar action0
      in bind_result (validateAction (fst action0)) (\<lambda>_.
           if emitter = Some (rt_label rt)
           then return \<lparr>o_state = s, o_reload = False, o_sync = None, o_emit = None, o_error = None\<rparr>
           else
             let isDrift = isDriftAction (fst action);
                 shouldSync = (isDrift \<and> fst action \<notin> set EXCLUDE_SYNC_ACTIONS);
                 action' = label_payload id1 id2 action s
             in bind_result (reduce_wire action' s) (\<lambda>(s', reload).
                  let states = (if shouldSync then Some (s, s') else None);
                      (sent, failed) = run_exclusive rt states (if shouldEmit emitted (fst action') then Some action' else None)
                  in return \<lparr>o_state = s', o_reload = reload, o_sync = states, o_emit = sent, o_error = failed\<rparr>)))"

section \<open>Preloaded states and the lifecycle hook\<close>

definition resetInitialState :: "window option \<Rightarrow> bool option \<Rightarrow> slice_state \<Rightarrow> slice_state" where
  "resetInitialState defaultProps debug0 s =
     s\<lparr>config := (config s)\<lparr>debug := (case debug0 of Some d \<Rightarrow> d | None \<Rightarrow> debug (config s))\<rparr>,
       windows := map (\<lambda>(l, w).
         let w1 = (case defaultProps of
                     Some p \<Rightarrow> if \<not> is_null (get p Visible) then w(Visible \<mapsto> get p Visible) else w
                   | None \<Rightarrow> w)
         in (l, w1(FocusCount \<mapsto> Number 0, CenterCount \<mapsto> Number 0, ProcessCount \<mapsto> Number 0)))
         (filter (\<lambda>(_, w). truthy (get w Reserved)) (windows s))\<rparr>"

text \<open>
  One run of the effect of \<open>useWindowLifecycle\<close> for a window, given whether a destructor is
  held: whether it is held afterwards (when the callback returns one), and the action that is
  dispatched.
\<close>

definition useWindowLifecycle :: "bool \<Rightarrow> window option \<Rightarrow> bool \<Rightarrow> bool \<times> action option" where
  "useWindowLifecycle cb_returns_destructor win held =
     (case win of
        None \<Rightarrow> (held, None)
      | Some w \<Rightarrow>
          let t = \<lparr>t_key = (case get w Key of Str k \<Rightarrow> Some k | _ \<Rightarrow> None), t_label = None\<rparr>
          in if get w Stage = Str ''created'' \<and> \<not> held then (cb_returns_destructor, Some (RegisterProcess t))
             else if (get w Stage = Str ''closing'' \<or> get w Stage = Str ''reloading'') \<and> held
             then (False, Some (CompleteProcess t))
             else (held, None))"

section \<open>The mock runtime\<close>

record mock_runtime =
  m_props :: window
  hasCreated :: "(string, window) rec"
  hasClosed :: "string list"

fun mock_call :: "rcall \<Rightarrow> mock_runtime \<Rightarrow> mock_runtime" where
  "mock_call (RCreate l w) m = m\<lparr>hasCreated := rec_set l w (hasCreated m)\<rparr>"
| "mock_call (RClose l) m = m\<lparr>hasClosed := hasClosed m @ [l]\<rparr>"
| "mock_call (RSet p v) m = m\<lparr>m_props := (m_props m)(p \<mapsto> v)\<rparr>"
| "mock_call (RSetMinimized b) m = m\<lparr>m_props := (m_props m)(Visible \<mapsto> Bool (\<not> b))\<rparr>"
| "mock_call RCenter m = m\<lparr>m_props := (m_props m)(CenterProp \<mapsto> Bool True)\<rparr>"
| "mock_call RFocus m = m\<lparr>m_props := (m_props m)(Focus \<mapsto> Bool True)\<rparr>"

definition mock_calls :: "mock_runtime \<Rightarrow> rcall list \<Rightarrow> mock_runtime" where
  "mock_calls m calls = fold mock_call calls m"

section \<open>Facts about the calls\<close>

text \<open>The value of a property of the mock runtime after some calls.\<close>

fun prop_after :: "win_prop \<Rightarrow> rcall \<Rightarrow> val \<Rightarrow> val" where
  "prop_after p (RSet q v') v = (if p = q then v' else v)"
| "prop_after p (RSetMinimized b) v = (if p = Visible then Bool (\<not> b) else v)"
| "prop_after p RCenter v = (if p = CenterProp then Bool True else v)"
| "prop_after p RFocus v = (if p = Focus then Bool True else v)"
| "prop_after p _ v = v"

lemma mock_call_prop: "get (m_props (mock_call c m)) p = prop_after p c (get (m_props m) p)"
  by (cases c) auto

lemma mock_calls_prop: "get (m_props (mock_calls m cs)) p = fold (prop_after p) cs (get (m_props m) p)"
  unfolding mock_calls_def by (induction cs arbitrary: m) (auto simp: mock_call_prop)

text \<open>The calls of changes that run to their end.\<close>

definition visible_calls :: "window \<Rightarrow> xy \<Rightarrow> rcall list" where
  "visible_calls next0 q =
     RSet Visible (get next0 Visible) #
     push_if (get next0 Visible \<noteq> Bool False)
       [RSet Position (Point (xy_translate [q, \<lparr>xc = 1, yc = 1\<rparr>, XY_ZERO])), RSet Position (Point q)]"

fun change_calls :: "window \<Rightarrow> xy \<Rightarrow> change \<Rightarrow> rcall list" where
  "change_calls next0 q (Call c) = [c]"
| "change_calls next0 q ChangeVisibility = visible_calls next0 q"

lemma run_changes_calls:
  assumes "get next0 Position = Point q"
  shows "run_changes getProps next0 cs done0 = (done0 @ concat (map (change_calls next0 q) cs), None)"
proof (induction cs arbitrary: done0)
  case (Cons c cs)
  have "run_change getProps next0 c done0 = (change_calls next0 q c, None)"
    using assms by (cases c) (auto simp: run_change_def visible_calls_def push_if_def is_null_def Let_def)
  then show ?case using Cons by simp
qed simp

text \<open>The properties that the synchronisation sets, besides the visibility.\<close>

definition SYNCED :: "win_prop list" where
  "SYNCED = [Title, SkipTaskbar, Maximized, Fullscreen, Resizable, MinSize, MaxSize, Size, Position, Decorations, AlwaysOnTop]"

definition typed_window :: "window \<Rightarrow> bool" where
  "typed_window w \<longleftrightarrow>
     list_all (\<lambda>p. is_null (get w p) \<or> (\<exists>d. get w p = Dims d)) [MinSize, MaxSize, Size] \<and>
     (is_null (get w Position) \<or> (\<exists>q. get w Position = Point q)) \<and>
     list_all (\<lambda>p. get w p \<noteq> NaN) (FocusCount # CenterCount # Minimized # SYNCED) \<and> (is_null (get w Visible) \<or> (\<exists>b. get w Visible = Bool b))"

lemma typed_position:
  assumes "typed_window w"
  obtains (null) "is_null (get w Position)" "as_dims (get w Position) = None"
  | (point) q where "get w Position = Point q" "as_dims (get w Position) = Some \<lparr>width_of = xc q, height_of = yc q\<rparr>"
proof -
  have "is_null (get w Position) \<or> (\<exists>q. get w Position = Point q)" using assms by (simp add: typed_window_def)
  then show thesis using null point by (auto simp: is_null_def as_dims_def)
qed

lemma typed_dims:
  assumes "typed_window w" and "p \<in> {MinSize, MaxSize, Size}"
  obtains (null) "is_null (get w p)" "as_dims (get w p) = None"
  | (dims) d where "get w p = Dims d" "as_dims (get w p) = Some d"
proof -
  have "is_null (get w p) \<or> (\<exists>d. get w p = Dims d)" using assms by (auto simp: typed_window_def)
  then show thesis using null dims by (auto simp: is_null_def as_dims_def)
qed

lemma dims_changed_iff:
  assumes "typed_window prev" and "typed_window next0"
  shows "p \<in> {MinSize, MaxSize, Size} \<Longrightarrow>
      dims_changed p prev next0 \<longleftrightarrow> \<not> is_null (get next0 p) \<and> get next0 p \<noteq> get prev p"
    and "dims_changed Position prev next0 \<longleftrightarrow> \<not> is_null (get next0 Position) \<and> get next0 Position \<noteq> get prev Position"
proof -
  show "dims_changed p prev next0 \<longleftrightarrow> \<not> is_null (get next0 p) \<and> get next0 p \<noteq> get prev p"
    if "p \<in> {MinSize, MaxSize, Size}"
    by (cases rule: typed_dims [OF assms(2) that]; cases rule: typed_dims [OF assms(1) that])
      (auto simp: dims_changed_def dims_equals_def is_null_def)
  show "dims_changed Position prev next0 \<longleftrightarrow> \<not> is_null (get next0 Position) \<and> get next0 Position \<noteq> get prev Position"
    by (cases rule: typed_position [OF assms(2)]; cases rule: typed_position [OF assms(1)])
      (auto simp: dims_changed_def dims_equals_def is_null_def)
qed

text \<open>The effect of the segments of the array of changes on one property.\<close>

abbreviation after_changes :: "window \<Rightarrow> xy \<Rightarrow> win_prop \<Rightarrow> change list \<Rightarrow> val \<Rightarrow> val" where
  "after_changes next0 q p cs \<equiv> fold (prop_after p) (concat (map (change_calls next0 q) cs))"

lemma after_append: "after_changes next0 q p (a @ b) v = after_changes next0 q p b (after_changes next0 q p a v)"
  by simp

lemma after_set: "after_changes next0 q p (push_if b (set_call r w)) v = (if b \<and> p = r then get w r else v)"
  by (simp add: push_if_def set_call_def)

lemma after_other:
  assumes "p \<in> set SYNCED"
  shows "after_changes next0 q p (push_if b [Call RCenter]) v = v"
    and "after_changes next0 q p (push_if b [Call (RSetMinimized x)]) v = v"
    and "after_changes next0 q p (push_if b [Call (RSet Visible x'), Call RFocus]) v = v"
    and "after_changes next0 q p (push_if b [ChangeVisibility]) v =
      (if b \<and> p = Position \<and> get next0 Visible \<noteq> Bool False then Point q else v)"
  using assms by (auto simp: push_if_def SYNCED_def visible_calls_def)

lemma current_changes_prop:
  assumes "typed_window prev" and "typed_window next0" and "get next0 Position = Point q" and "p \<in> set SYNCED"
    and "\<not> is_null (get next0 p)"
  shows "after_changes next0 q p (current_changes prev next0) (get prev p) = get next0 p"
proof -
  have ch: "changed r prev next0 \<longleftrightarrow> \<not> is_null (get next0 r) \<and> get next0 r \<noteq> get prev r" if "r \<in> set SYNCED" for r
    using that assms(2) by (auto simp: changed_def typed_window_def list_all_iff)
  note D = dims_changed_iff [OF assms(1,2)]
  from assms(4) consider "p = Title" | "p = SkipTaskbar" | "p = Maximized" | "p = Fullscreen" | "p = Resizable" | "p = MinSize"
    | "p = MaxSize" | "p = Size" | "p = Position" | "p = Decorations" | "p = AlwaysOnTop"
    by (auto simp: SYNCED_def)
  then show ?thesis
    using assms(3,5) unfolding current_changes_def Let_def after_append after_set after_other [OF assms(4)]
    by cases (simp_all add: ch D SYNCED_def)
qed

lemma after_visible:
  "after_changes next0 q Visible (push_if b (set_call r w)) v = (if b \<and> r = Visible then get w r else v)"
  "after_changes next0 q Visible (push_if b [Call RCenter]) v = v"
  "after_changes next0 q Visible (push_if b [Call (RSetMinimized x)]) v = (if b then Bool (\<not> x) else v)"
  "after_changes next0 q Visible (push_if b [Call (RSet Visible x'), Call RFocus]) v = (if b then x' else v)"
  "after_changes next0 q Visible (push_if b [ChangeVisibility]) v = (if b then get next0 Visible else v)"
  by (auto simp: push_if_def set_call_def visible_calls_def)

lemma current_changes_visible:
  assumes "typed_window next0" and "\<not> is_null (get next0 Visible)"
    and "get next0 FocusCount = get prev FocusCount" and "get next0 Minimized = get prev Minimized"
  shows "after_changes next0 q Visible (current_changes prev next0) (get prev Visible) = get next0 Visible"
proof -
  have "\<not> count_changed FocusCount prev next0" "\<not> changed Minimized prev next0"
    using assms by (auto simp: typed_window_def count_changed_def changed_def)
  moreover have "changed Visible prev next0 \<longleftrightarrow> get next0 Visible \<noteq> get prev Visible"
    using assms(1,2) by (auto simp: changed_def typed_window_def)
  ultimately show ?thesis
    unfolding current_changes_def Let_def after_append after_visible by simp
qed

lemma current_changes_same:
  assumes "typed_window w"
  shows "current_changes w w = []"
proof -
  have "\<not> dims_changed p w w" if "p \<in> {MinSize, MaxSize, Size, Position}" for p
    using dims_changed_iff [OF assms assms] that by auto
  moreover have "\<not> changed p w w" if "p \<in> set (Visible # Minimized # SYNCED)" for p
    using assms that by (auto simp: changed_def typed_window_def list_all_iff)
  moreover have "\<not> count_changed CenterCount w w" "\<not> count_changed FocusCount w w"
    using assms by (simp_all add: count_changed_def typed_window_def)
  ultimately show ?thesis
    by (simp add: current_changes_def Let_def push_if_def SYNCED_def)
qed

lemma current_changes_shown:
  assumes "get next0 Visible = Bool True" and "get prev Visible \<noteq> Bool True"
  shows "\<exists>before. current_changes prev next0 = before @ [ChangeVisibility]"
proof -
  have "push_if (changed Visible prev next0 \<and> get next0 Visible \<noteq> Bool False) [ChangeVisibility] = [ChangeVisibility]"
    using assms by (simp add: changed_def is_null_def push_if_def)
  then have "suffix [ChangeVisibility] (current_changes prev next0)"
    unfolding current_changes_def Let_def by (metis suffix_appendI suffix_order.refl)
  then show ?thesis by (simp add: suffix_def)
qed

lemma current_changes_hidden:
  assumes "get next0 Visible = Bool False" and "get prev Visible \<noteq> Bool False"
  shows "\<exists>after. current_changes prev next0 =
    push_if (changed Title prev next0) (set_call Title next0) @ ChangeVisibility # after"
proof -
  have "push_if (changed Visible prev next0 \<and> get next0 Visible = Bool False) [ChangeVisibility] = [ChangeVisibility]"
    using assms by (simp add: changed_def is_null_def push_if_def)
  then show ?thesis unfolding current_changes_def Let_def by simp
qed

text \<open>
  Synchronising a window brings the runtime to the state. From a runtime whose window shows the
  previous state, the calls of \<open>syncCurrent\<close> on the mock runtime leave every property that
  the next state sets (title, sizes, position, decorations and the other flags) at its value there, and
  the visibility too unless the window is focused or minimised at the same time. A window that becomes visible is shown after all other changes and then only moved
  by a pixel and back, and a window that is hidden is hidden before every change but that of the title.
  When nothing changed, no call is made.
\<close>

theorem syncCurrent_brings_runtime_to_state:
  assumes "typed_window prev" and "typed_window next0" and "get next0 Position = Point q"
    and "\<forall>p. get (m_props m) p = get prev p"
    and "syncCurrent (\<lambda>calls. m_props (mock_calls m calls)) prev next0 [] = (calls, e)"
  shows "e = None \<and>
    (\<forall>p\<in>set SYNCED. \<not> is_null (get next0 p) \<longrightarrow> get (m_props (mock_calls m calls)) p = get next0 p) \<and>
    (get next0 FocusCount = get prev FocusCount \<longrightarrow> get next0 Minimized = get prev Minimized \<longrightarrow>
       \<not> is_null (get next0 Visible) \<longrightarrow> get (m_props (mock_calls m calls)) Visible = get next0 Visible) \<and>
    (get next0 Visible = Bool True \<longrightarrow> get prev Visible \<noteq> Bool True \<longrightarrow>
       (\<exists>before. calls = before @
          [RSet Visible (Bool True), RSet Position (Point (xy_translate [q, \<lparr>xc = 1, yc = 1\<rparr>, XY_ZERO])), RSet Position (Point q)])) \<and>
    (get next0 Visible = Bool False \<longrightarrow> get prev Visible \<noteq> Bool False \<longrightarrow>
       (\<exists>before after. calls = before @ RSet Visible (Bool False) # after \<and> (\<forall>c\<in>set before. \<exists>v. c = RSet Title v))) \<and>
    syncCurrent (\<lambda>calls. m_props (mock_calls m calls)) next0 next0 calls = (calls, None)"
proof -
  have calls: "calls = concat (map (change_calls next0 q) (current_changes prev next0))" and e: "e = None"
    using assms(5) by (auto simp: syncCurrent_def run_changes_calls [OF assms(3)])
  have synced: "get (m_props (mock_calls m calls)) p = get next0 p" if "p \<in> set SYNCED" "\<not> is_null (get next0 p)" for p
    using current_changes_prop [OF assms(1-3) that] assms(4) by (simp add: mock_calls_prop calls)
  have visible: "get (m_props (mock_calls m calls)) Visible = get next0 Visible"
    if "\<not> is_null (get next0 Visible)" "get next0 FocusCount = get prev FocusCount" "get next0 Minimized = get prev Minimized"
    using current_changes_visible [OF assms(2) that] assms(4) by (simp add: mock_calls_prop calls)
  have shown: "\<exists>before. calls = before @ visible_calls next0 q"
    if "get next0 Visible = Bool True" "get prev Visible \<noteq> Bool True"
    using current_changes_shown [OF that] by (auto simp: calls)
  have hidden: "\<exists>before after. calls = before @ RSet Visible (Bool False) # after \<and> (\<forall>c\<in>set before. \<exists>v. c = RSet Title v)"
    if "get next0 Visible = Bool False" "get prev Visible \<noteq> Bool False"
  proof -
    let ?title = "concat (map (change_calls next0 q) (push_if (changed Title prev next0) (set_call Title next0)))"
    have "\<exists>after. calls = ?title @ RSet Visible (Bool False) # after"
      using current_changes_hidden [OF that] that by (auto simp: calls visible_calls_def push_if_def [of False])
    moreover have "\<forall>c\<in>set ?title. \<exists>v. c = RSet Title v" by (simp add: push_if_def set_call_def)
    ultimately show ?thesis by blast
  qed
  have "syncCurrent (\<lambda>calls. m_props (mock_calls m calls)) next0 next0 calls = (calls, None)"
    by (simp add: syncCurrent_def current_changes_same [OF assms(2)])
  with e synced visible shown hidden show ?thesis
    by (simp add: visible_calls_def push_if_def)
qed

section \<open>The windows of the runtime\<close>

text \<open>The labels of the windows that are open in the runtime after a call.\<close>

fun live_after :: "rcall \<Rightarrow> string set \<Rightarrow> string set" where
  "live_after (RCreate l _) L = insert l L"
| "live_after (RClose l) L = L - {l}"
| "live_after _ L = L"

lemma live_closes: "\<forall>c\<in>set cs. \<exists>l. c = RClose l \<Longrightarrow> fold live_after cs L = L - {l. RClose l \<in> set cs}"
  by (induction cs arbitrary: L) auto

lemma live_creates: "fold live_after (map (\<lambda>l. RCreate l (f l)) ls) L = L \<union> set ls"
  by (induction ls arbitrary: L) auto

lemma live_per_label:
  assumes "distinct ls" and "\<And>l. l \<in> set ls \<Longrightarrow> g l = [] \<or> g l = [RClose l] \<or> (\<exists>w. g l = [RCreate l w])"
  shows "l \<in> fold live_after (concat (map g ls)) L \<longleftrightarrow>
    (if l \<in> set ls \<and> g l \<noteq> [] then g l \<noteq> [RClose l] else l \<in> L)"
  using assms
proof (induction ls arbitrary: L)
  case (Cons k ls)
  have g: "g k = [] \<or> g k = [RClose k] \<or> (\<exists>w. g k = [RCreate k w])" using Cons.prems(2) by simp
  have "l \<in> fold live_after (concat (map g ls)) (fold live_after (g k) L) \<longleftrightarrow>
      (if l \<in> set ls \<and> g l \<noteq> [] then g l \<noteq> [RClose l] else l \<in> fold live_after (g k) L)"
    using Cons by simp
  then show ?case using g Cons.prems(1) by (cases "l = k") auto
qed simp

lemma closeRuntimeWindow_eq: "closeRuntimeWindow = RClose"
  by (simp add: closeRuntimeWindow_def fun_eq_iff)

text \<open>
  C33: The runtime has the windows of the state. When the main window synchronises a change of the state
  and the runtime had the windows of the previous state, it ends with those of the next state; when the
  main window itself went away, every window is closed, and only windows added by the same change stay
  open. At start-up the main window opens every window of the state and closes every other one but the
  main window, and any other window only closes windows that the state does not know.
\<close>

theorem runtime_windows_match_state:
  "(rec_has (windows next0) MAIN_WINDOW \<longrightarrow>
      fold live_after (syncMain True prev next0) (set (rec_keys (windows prev))) = set (rec_keys (windows next0))) \<and>
    (rec_has (windows prev) MAIN_WINDOW \<longrightarrow> \<not> rec_has (windows next0) MAIN_WINDOW \<longrightarrow>
      fold live_after (syncMain True prev next0) (set (rec_keys (windows prev))) =
        set (rec_keys (windows next0)) - set (rec_keys (windows prev))) \<and>
    fold live_after (initial_calls opened True next0) (set opened) =
      set opened \<inter> {MAIN_WINDOW} \<union> (set (rec_keys (windows next0)) - {MAIN_WINDOW}) \<and>
    fold live_after (initial_calls opened False next0) (set opened) =
      set opened \<inter> ({MAIN_WINDOW} \<union> set (rec_keys (windows next0)))"
proof -
  let ?P = "set (rec_keys (windows prev))" and ?N = "set (rec_keys (windows next0))"
  have has: "rec_has (windows s) l \<longleftrightarrow> l \<in> set (rec_keys (windows s))" for s l
    using rec_get_keys [of "windows s" l] by (simp add: rec_has_def)
  define removed where "removed = filter (\<lambda>l. l \<notin> ?N) (rec_keys (windows prev))"
  define added where "added = filter (\<lambda>l. l \<notin> ?P) (rec_keys (windows next0))"
  define closes where "closes = concat (map (\<lambda>l.
      (if l = MAIN_WINDOW then map RClose (filter (\<lambda>l. l \<noteq> MAIN_WINDOW) (rec_keys (windows next0))) else []) @ [RClose l]) removed)"
  have calls: "syncMain True prev next0 = closes @
      map (\<lambda>l. RCreate l (purgeWinStateToProps (the (rec_get (windows next0) l)))) added"
    unfolding syncMain_def closeRuntimeWindow_eq
    by (simp add: has closes_def removed_def added_def Let_def createRuntimeWindow_def)
  have "\<forall>c\<in>set closes. \<exists>l. c = RClose l" by (auto simp: closes_def)
  moreover have "RClose l \<in> set closes \<longleftrightarrow>
      l \<in> set removed \<or> (MAIN_WINDOW \<in> set removed \<and> l \<in> ?N \<and> l \<noteq> MAIN_WINDOW)" for l
    by (auto simp: closes_def)
  ultimately have main: "fold live_after (syncMain True prev next0) ?P =
      ?P - {l. l \<in> set removed \<or> (MAIN_WINDOW \<in> set removed \<and> l \<in> ?N \<and> l \<noteq> MAIN_WINDOW)} \<union> set added"
    by (simp add: calls live_closes live_creates)
  have start: "l \<in> fold live_after (initial_calls opened m next0) (set opened) \<longleftrightarrow>
      (if l = MAIN_WINDOW then l \<in> set opened else l \<in> ?N \<and> (m \<or> l \<in> set opened))" for l m
    unfolding initial_calls_def Let_def
    by (subst live_per_label)
      (auto simp: set_unique closeRuntimeWindow_def createRuntimeWindow_def)
  show ?thesis
    unfolding main has by (auto simp: removed_def added_def start split: if_splits)
qed

section \<open>Replicas\<close>

lemma reducer_label:
  assumes "\<And>c l pl. a \<noteq> InternalSetInitial c l pl"
  shows "reducer a (s\<lparr>label := x\<rparr>) = map_sum id (map_prod (\<lambda>s. s\<lparr>label := x\<rparr>) id) (reducer a s)"
proof (cases a)
  case (CreateWindow p)
  then show ?thesis
    by (auto simp: reduceCreateWindow_def reuse_window_def place_window_def maybe_prerender_def alreadyHasPreRender_def
        set_window_def Let_def split: option.splits)
qed (use assms in \<open>auto simp: assertLabel_def reduceSetWindowStage_def reduceCloseWindow_def reduceReloadWindow_def
      reduceRegisterProcess_def reduceCompleteProcess_def reduceSetWindowError_def reduceFocusWindow_def assignBool_def
      reduceCenterWindow_def assign_prop_def reduceSetWindowProps_def delete_window_def incrementCounter_def set_window_def Let_def
      split: option.splits\<close>)

lemma resolve_label_idem: "resolve_label (resolve_label t s) s' = resolve_label t s"
  by (simp add: resolve_label_def split: option.split)

text \<open>An action that has its labels keeps them in every other window.\<close>

lemma assignLabel_idem:
  assumes "\<And>p. a = CreateWindow p \<Longrightarrow> label t \<noteq> MAIN_WINDOW"
  shows "assignLabel i j (assignLabel id1 id2 a s) t = assignLabel id1 id2 a s"
  using assms by (cases a) (simp_all add: resolve_label_idem)

lemma assignLabel_not_initial:
  assumes "\<And>c l pl. a \<noteq> InternalSetInitial c l pl"
  shows "assignLabel id1 id2 a s \<noteq> InternalSetInitial c l pl"
  using assms by (cases a) auto

lemma middleware_drift:
  assumes "desugar w = (emitted, Some e, (type, Some a))" and "fst w \<noteq> []" and "e \<noteq> rt_label rt" and "isDriftAction type"
  shows "middleware rt id1 id2 w s = bind_result (reducer (assignLabel id1 id2 a s) s) (\<lambda>(s', reload).
     let states = (if type \<notin> set EXCLUDE_SYNC_ACTIONS then Some (s, s') else None);
         (sent, failed) = run_exclusive rt states
           (if shouldEmit emitted type then Some (type, Some (assignLabel id1 id2 a s)) else None)
     in return \<lparr>o_state = s', o_reload = reload, o_sync = states, o_emit = sent, o_error = failed\<rparr>)"
  using assms by (simp add: middleware_def validateAction_def label_payload_def reduce_wire_def Let_def)

lemma run_exclusive_silent: "run_exclusive rt states None = (None, map_option (SetWindowError (rt_label rt)) (sync_error rt states))"
  by (simp add: run_exclusive_def split: option.split)

lemma run_exclusive_emits:
  "run_exclusive rt states (Some w) =
     (case (sync_error rt states, rt_emit_error rt w) of
        (None, None) \<Rightarrow> (Some w, None)
      | (Some m, _) \<Rightarrow> (None, Some (SetWindowError (rt_label rt) m))
      | (None, Some m) \<Rightarrow> (None, Some (SetWindowError (rt_label rt) m)))"
  by (simp add: run_exclusive_def split: option.split)

lemma middleware_emitted:
  assumes "desugar w = (emitted, Some e, (type, Some a))" and "fst w \<noteq> []" and "e \<noteq> rt_label rt" and "isDriftAction type"
    and "reducer (assignLabel id1 id2 a s) s = Inr (s', reload)"
  shows "\<exists>r. middleware rt id1 id2 w s = Inr r \<and> o_state r = s' \<and> o_reload r = reload \<and> (emitted \<longrightarrow> o_emit r = None)"
  unfolding middleware_drift [OF assms(1-4)] assms(5)
  by (auto simp: shouldEmit_def run_exclusive_silent Let_def split: prod.split)

text \<open>
  C32: The stores of all windows agree as long as the runtime does what it is told. When a window handles a
  drift action, other than the one that sets its initial state, then either its runtime rejected a call, the
  synchronisation threw or the emission failed, and then the action is not emitted (the stores differ from
  then on) and the error is dispatched to the own store as that of the window; or the action is emitted with
  its labels. Every other window whose slice was the same, up to its own label, handles the emitted action
  with the same state and the same reload, also when its own runtime fails, and does not emit it again, and
  the copy that returns to the window it came from is dropped. Action types and labels do not hold the marks
  that they are joined with, and an action that creates a window reaches no second main window. A reload is
  scheduled in every window that handles the action, not only in the one that is reloaded.
\<close>

theorem replicas_agree:
  assumes "\<not> sublist DRIFT_PREFIX_SPLITTER type" and "isDriftAction type" and "type \<notin> set EXCLUDED_ACTIONS"
    and "\<not> sublist DRIFT_PREFIX_SPLITTER (rt_label here)" and "\<not> sublist DRIFT_ACTION_INDICATOR (rt_label here)"
    and "rt_label here \<noteq> []" and "rt_label there \<noteq> rt_label here" and "t = s\<lparr>label := label t\<rparr>"
    and "\<forall>c l pl. a \<noteq> InternalSetInitial c l pl" and "\<forall>p. a = CreateWindow p \<longrightarrow> label t \<noteq> MAIN_WINDOW"
    and "middleware here id1 id2 (type, Some a) s = Inr r"
  shows "let b = (type, Some (assignLabel id1 id2 a s)) in
    (o_emit r = (if sync_error here (o_sync r) = None \<and> rt_emit_error here b = None then Some b else None)) \<and>
    (o_emit r = None \<longrightarrow> (\<exists>m. o_error r = Some (SetWindowError (rt_label here) m))) \<and>
    (\<exists>r'. middleware there id3 id4 (sugar b (rt_label here)) t = Inr r' \<and>
      o_state r' = (o_state r)\<lparr>label := label t\<rparr> \<and> o_reload r' = o_reload r \<and> o_emit r' = None) \<and>
    middleware here id5 id6 (sugar b (rt_label here)) (o_state r) =
      Inr \<lparr>o_state = o_state r, o_reload = False, o_sync = None, o_emit = None, o_error = None\<rparr>"
proof -
  let ?b = "assignLabel id1 id2 a s" and ?here = "rt_label here"
  have wire: "desugar (sugar (type, Some ?b) ?here) = (True, Some ?here, (type, Some ?b))"
    and local: "desugar (type, Some a) = (False, Some [], (type, Some a))"
    by (simp_all add: sugar_roundtrip [OF assms(4-6,1)])
  have "type \<noteq> []" using assms(2) by (auto simp: isDriftAction_def)
  then have run: "fst (type, Some a) \<noteq> []" "[] \<noteq> ?here" using assms(6) by auto
  obtain s' reload where red: "reducer ?b s = Inr (s', reload)"
    using assms(11) middleware_drift [OF local run assms(2), of id1 id2 s] by (auto simp: bind_result_eq_Inr)
  then have r: "o_state r = s'" "o_reload r = reload" "(o_emit r, o_error r) = run_exclusive here (o_sync r) (Some (type, Some ?b))"
    using assms(3,11) middleware_drift [OF local run assms(2), of id1 id2 s]
    by (auto simp: shouldEmit_def Let_def split: prod.splits)
  have idem: "assignLabel id3 id4 ?b t = ?b" using assms(10) by (intro assignLabel_idem) auto
  have red': "reducer ?b t = Inr (s'\<lparr>label := label t\<rparr>, reload)"
    using reducer_label [of ?b "label t" s] assignLabel_not_initial [of a id1 id2 s] assms(8,9) red by simp
  have sugared: "fst (sugar (type, Some ?b) ?here) \<noteq> []" by (simp add: sugar_def sugarType_def DRIFT_ACTION_INDICATOR_def)
  have "middleware here id5 id6 (sugar (type, Some ?b) ?here) s' =
      Inr \<lparr>o_state = s', o_reload = False, o_sync = None, o_emit = None, o_error = None\<rparr>"
    using sugared by (simp add: middleware_def wire validateAction_def)
  moreover have "\<exists>r'. middleware there id3 id4 (sugar (type, Some ?b) ?here) t = Inr r' \<and>
      o_state r' = s'\<lparr>label := label t\<rparr> \<and> o_reload r' = reload \<and> o_emit r' = None"
    using middleware_emitted [OF wire sugared _ assms(2), of there id3 id4 t] assms(7) idem red' by metis
  ultimately show ?thesis using r by (auto simp: run_exclusive_emits Let_def split: option.splits)
qed

section \<open>Preloaded states\<close>

lemma rec_get_map_filter:
  assumes "rec_wf r"
  shows "rec_get (map (\<lambda>(k, v). (k, f v)) (filter (\<lambda>(_, v). P v) r)) k =
    (case rec_get r k of Some v \<Rightarrow> if P v then Some (f v) else None | None \<Rightarrow> None)"
  using assms
proof (induction r)
  case (Cons kv r)
  obtain k' v where kv: "kv = (k', v)" by (cases kv)
  have "rec_wf r" and new: "k' \<notin> set (rec_keys r)" using Cons.prems kv by (auto simp: rec_wf_def rec_keys_def)
  moreover have "rec_get r k' = None" using new rec_get_keys [of r k'] by blast
  ultimately show ?case using Cons.IH kv by auto
qed simp

text \<open>A preloaded state loses its prerendered windows and keeps the maps between labels and keys.\<close>

lemma drift_wf_reset:
  assumes "drift_wf s"
  shows "drift_wf (resetInitialState p d s)"
proof -
  define f :: "window \<Rightarrow> window" where "f = (\<lambda>w.
     let w1 = (case p of Some p \<Rightarrow> if \<not> is_null (get p Visible) then w(Visible \<mapsto> get p Visible) else w | None \<Rightarrow> w)
     in w1(FocusCount \<mapsto> Number 0, CenterCount \<mapsto> Number 0, ProcessCount \<mapsto> Number 0))"
  let ?s = "resetInitialState p d s"
  have f: "window_ok k (f w) = window_ok k w" for k w
    by (auto simp: f_def Let_def window_ok_def split: option.splits)
  have W: "windows ?s = map (\<lambda>(l, w). (l, f w)) (filter (\<lambda>(_, w). truthy (get w Reserved)) (windows s))"
    "labelKeys ?s = labelKeys s" "keyLabels ?s = keyLabels s"
    by (simp_all add: resetInitialState_def f_def Let_def)
  have wf: "rec_wf (windows s)" using assms by (simp add: drift_wf_def)
  then have "rec_wf (windows ?s)"
    by (auto simp: W rec_wf_def rec_keys_def case_prod_beta comp_def intro: distinct_map_filter)
  moreover have get: "rec_get (windows ?s) l =
      (case rec_get (windows s) l of Some w \<Rightarrow> if truthy (get w Reserved) then Some (f w) else None | None \<Rightarrow> None)" for l
    using rec_get_map_filter [OF wf] by (simp add: W)
  moreover have "rec_get (windows ?s) l \<noteq> None" if "rec_get (labelKeys s) l \<noteq> None" for l
  proof -
    have "rec_get (windows s) l \<noteq> None" using that assms by (simp add: drift_wf_def)
    then obtain w where w: "rec_get (windows s) l = Some w" by blast
    then have "truthy (get w Reserved)" using that by (cases rule: drift_wf_window [OF assms w]) auto
    with w show ?thesis by (simp add: get)
  qed
  ultimately show ?thesis
    using assms f by (auto simp: drift_wf_def W(2,3) split: option.splits if_splits)
qed

theorem syncCurrent_brings_runtime_to_state_witness:
  "\<exists>calls. syncCurrent (\<lambda>calls. m_props (mock_calls \<lparr>m_props = [Title \<mapsto> Str ''a'', Visible \<mapsto> Bool False], hasCreated = [], hasClosed = []\<rparr> calls))
       [Title \<mapsto> Str ''a'', Visible \<mapsto> Bool False] [Title \<mapsto> Str ''b'', Visible \<mapsto> Bool True, Position \<mapsto> Point XY_ZERO] [] = (calls, None) \<and>
     get (m_props (mock_calls \<lparr>m_props = [Title \<mapsto> Str ''a'', Visible \<mapsto> Bool False], hasCreated = [], hasClosed = []\<rparr> calls)) Title = Str ''b''"
proof -
  let ?prev = "[Title \<mapsto> Str ''a'', Visible \<mapsto> Bool False]" and ?next = "[Title \<mapsto> Str ''b'', Visible \<mapsto> Bool True, Position \<mapsto> Point XY_ZERO]"
  let ?m = "\<lparr>m_props = ?prev, hasCreated = [], hasClosed = []\<rparr>"
  obtain calls e where c: "syncCurrent (\<lambda>calls. m_props (mock_calls ?m calls)) ?prev ?next [] = (calls, e)"
    by (meson prod.exhaust)
  have "typed_window ?prev" "typed_window ?next" "get ?next Position = Point XY_ZERO" "\<forall>p. get (m_props ?m) p = get ?prev p"
    "Title \<in> set SYNCED" "get ?next Title = Str ''b''"
    by (auto simp: typed_window_def get_def is_null_def SYNCED_def)
  with syncCurrent_brings_runtime_to_state [of ?prev ?next XY_ZERO ?m, OF _ _ _ _ c] c show ?thesis
    by (simp add: is_null_def)
qed

theorem runtime_windows_match_state_witness:
  "fold live_after (syncMain True ZERO_SLICE_STATE (set_window ''x'' INITIAL_PRERENDER_WINDOW_STATE ZERO_SLICE_STATE)) {''main''} =
     {''main'', ''x''}"
proof -
  let ?n = "set_window ''x'' INITIAL_PRERENDER_WINDOW_STATE ZERO_SLICE_STATE"
  have "rec_has (windows ?n) MAIN_WINDOW" "set (rec_keys (windows ZERO_SLICE_STATE)) = {''main''}"
    "set (rec_keys (windows ?n)) = {''main'', ''x''}"
    by (auto simp: rec_has_def rec_keys_def ZERO_SLICE_STATE_def MAIN_WINDOW_def)
  then show ?thesis using runtime_windows_match_state [of ?n ZERO_SLICE_STATE "[]"] by simp
qed

definition sample_runtime :: "string \<Rightarrow> runtime" where
  "sample_runtime l =
     \<lparr>rt_label = l, rt_isMain = (l = MAIN_WINDOW), rt_getProps = (\<lambda>_. Map.empty), rt_rejects = (\<lambda>_. None), rt_emit_error = (\<lambda>_. None)\<rparr>"

theorem replicas_agree_witness:
  "\<exists>r b r'. middleware (sample_runtime ''main'') ''i'' ''j'' (''drift/registerProcess'', Some (RegisterProcess \<lparr>t_key = None, t_label = None\<rparr>)) ZERO_SLICE_STATE = Inr r \<and>
     o_emit r = Some b \<and> middleware (sample_runtime ''other'') ''i'' ''j'' (sugar b ''main'') (ZERO_SLICE_STATE\<lparr>label := ''other''\<rparr>) = Inr r' \<and>
     o_state r' = (o_state r)\<lparr>label := ''other''\<rparr>"
proof -
  let ?ty = "''drift/registerProcess''" and ?a = "RegisterProcess \<lparr>t_key = None, t_label = None\<rparr>"
  let ?m = "sample_runtime ''main''" and ?o = "sample_runtime ''other''" and ?t = "ZERO_SLICE_STATE\<lparr>label := ''other''\<rparr>"
  have no: "\<not> sublist DRIFT_PREFIX_SPLITTER ?ty" "\<not> sublist DRIFT_PREFIX_SPLITTER (rt_label ?m)" "\<not> sublist DRIFT_ACTION_INDICATOR (rt_label ?m)"
    and labels: "rt_label ?m = ''main''" "rt_label ?m \<noteq> []" "rt_label ?o \<noteq> rt_label ?m"
    by (simp_all add: DRIFT_PREFIX_SPLITTER_def DRIFT_ACTION_INDICATOR_def sublist_Cons_right sample_runtime_def)
  have drift: "isDriftAction ?ty" "?ty \<notin> set EXCLUDED_ACTIONS" by (simp_all add: isDriftAction_def EXCLUDED_ACTIONS_def)
  have d: "desugar (?ty, Some ?a) = (False, Some [], (?ty, Some ?a))"
    by (simp add: sugar_roundtrip [OF no(2,3) labels(2) no(1)])
  have "\<exists>r. middleware ?m ''i'' ''j'' (?ty, Some ?a) ZERO_SLICE_STATE = Inr r \<and> sync_error ?m (o_sync r) = None"
    unfolding middleware_drift [OF d _ labels(2) [symmetric] drift(1), simplified]
    by (simp add: drift_eval sync_error_def sync_def syncMain_def syncCurrent_def current_changes_def changed_def
        count_changed_def dims_changed_def as_dims_def push_if_def sample_runtime_def set_window_def rec_has_def rec_keys_def
        EXCLUDE_SYNC_ACTIONS_def split: prod.split)
  then obtain r where r: "middleware ?m ''i'' ''j'' (?ty, Some ?a) ZERO_SLICE_STATE = Inr r" and s: "sync_error ?m (o_sync r) = None"
    by blast
  show ?thesis
    using replicas_agree [OF no(1) drift no(2,3) labels(2,3) _ _ _ r, of ?t "''i''" "''j''" "''i''" "''j''"] r s labels(1)
    by (auto simp: Let_def sample_runtime_def)
qed

end
