(* ===== verification/Table_Slice.thy ===== *)
theory Table_Slice
  imports Spatial
begin

text \<open>
  The reducer of the tables of the console (\<open>console/src/table/slice.ts\<close>, with the state of
  \<open>console/src/table/types/v0.ts\<close>).

  A table is a grid of cell keys, the sizes of its rows and columns and a record of the cells.  The
  properties of a cell are only carried along: they are a type parameter, and the properties of a new
  cell are the argument \<open>zero\<close>.  \<open>id.create\<close> draws from a generator that is not part of the sources:
  the \<open>n\<close>-th key it returns is \<open>ids n\<close>, and the operations that create cells pass on the number of
  keys drawn.  The reducer runs on a draft, so that an exception leaves the state as it was; the field
  \<open>version\<close> has one value only and is left out.
\<close>

section \<open>State\<close>

record 'p cell =
  ckey :: string
  variant :: string
  selected :: bool
  props :: 'p

record row_layout =
  row_size :: rat
  row_cells :: "string list"

record 'p table =
  tb_key :: string
  lastSelected :: "string option"
  editable :: bool
  rows :: "row_layout list"
  columns :: "rat list"
  cells :: "(string, 'p cell) rec"
  remoteCreated :: bool

type_synonym position = "int \<times> int"

record 'p copy_buffer =
  epicenter :: string
  buf_cells :: "(string, 'p cell) rec"
  positions :: "(string, position) rec"

record 'p table_slice =
  tables :: "(string, 'p table) rec"
  copyBuffer :: "'p copy_buffer"

definition BASE_COL_SIZE :: rat where "BASE_COL_SIZE = 6 * 12"
definition BASE_ROW_SIZE :: rat where "BASE_ROW_SIZE = 6 * 6"

definition zero_cell :: "'p \<Rightarrow> string \<Rightarrow> 'p cell" where
  "zero_cell zero k = \<lparr>ckey = k, variant = ''text'', selected = False, props = zero\<rparr>"

definition ZERO_STATE :: "'p \<Rightarrow> string \<Rightarrow> string \<Rightarrow> string \<Rightarrow> string \<Rightarrow> 'p table" where
  "ZERO_STATE zero one two three four =
     \<lparr>tb_key = '''', lastSelected = None, editable = True,
      rows = [\<lparr>row_size = BASE_ROW_SIZE, row_cells = [one, two]\<rparr>,
              \<lparr>row_size = BASE_ROW_SIZE, row_cells = [three, four]\<rparr>],
      columns = [BASE_COL_SIZE, BASE_COL_SIZE],
      cells = foldl (\<lambda>cs k. rec_set k (zero_cell zero k) cs) [] [one, two, three, four],
      remoteCreated = False\<rparr>"

definition ZERO_SLICE_STATE :: "'p table_slice" where
  "ZERO_SLICE_STATE =
     \<lparr>tables = [], copyBuffer = \<lparr>epicenter = '''', buf_cells = [], positions = []\<rparr>\<rparr>"

definition mapValues :: "('v \<Rightarrow> 'w) \<Rightarrow> ('k, 'v) rec \<Rightarrow> ('k, 'w) rec" where
  "mapValues f r = map (\<lambda>(k, v). (k, f v)) r"

definition type_error :: "'a result" where
  "type_error = throw ''TypeError''"

section \<open>Positions\<close>

definition findCellPosition :: "'p table \<Rightarrow> string \<Rightarrow> position option" where
  "findCellPosition t key =
     (case find_index (\<lambda>row. key \<in> set (row_cells row)) (rows t) of
        None \<Rightarrow> None
      | Some j \<Rightarrow>
          (case find_index (\<lambda>k. k = key) (row_cells (rows t ! j)) of
             None \<Rightarrow> None
           | Some i \<Rightarrow> Some (int i, int j)))"

text \<open>A column that is out of range is \<open>undefined\<close>, and reading its key throws.\<close>

definition getCellAt :: "'p table \<Rightarrow> position \<Rightarrow> 'p cell option result" where
  "getCellAt t pos =
     (case nth_opt (rows t) (snd pos) of
        None \<Rightarrow> return None
      | Some row \<Rightarrow>
          (case nth_opt (row_cells row) (fst pos) of
             None \<Rightarrow> type_error
           | Some k \<Rightarrow> return (rec_get (cells t) k)))"

definition allCellsInRegion :: "'p table \<Rightarrow> position \<Rightarrow> position \<Rightarrow> string list" where
  "allCellsInRegion t s e =
     [k. y \<leftarrow> [min (snd s) (snd e)..max (snd s) (snd e)],
         x \<leftarrow> [min (fst s) (fst e)..max (fst s) (fst e)],
         k \<leftarrow> (case nth_opt (rows t) y of
                 None \<Rightarrow> []
               | Some row \<Rightarrow> (case nth_opt (row_cells row) x of None \<Rightarrow> [] | Some k \<Rightarrow> [k]))]"

text \<open>
  The breadth-first search of \<open>contiguousRegionFrom\<close>.  The text \<open>x,y\<close> that keys the map and the set of
  visited points is the pair; the map holds the last index of a point.
\<close>

definition neighbors :: "position \<Rightarrow> position list" where
  "neighbors p = [(fst p + 1, snd p), (fst p - 1, snd p), (fst p, snd p + 1), (fst p, snd p - 1)]"

fun positionMap :: "position list \<Rightarrow> nat \<Rightarrow> (position, nat) rec \<Rightarrow> (position, nat) rec" where
  "positionMap [] i m = m"
| "positionMap (p # ps) i m = positionMap ps (Suc i) (rec_set p i m)"

function region_loop ::
  "(position, nat) rec \<Rightarrow> position list \<Rightarrow> position list \<Rightarrow> (position \<times> nat) list \<Rightarrow> (position \<times> nat) list" where
  "region_loop pm visited [] region = region"
| "region_loop pm visited (current # queue) region =
     (if current \<in> set visited then region_loop pm visited queue region
      else case rec_get pm current of
             None \<Rightarrow> region_loop pm (current # visited) queue region
           | Some idx \<Rightarrow>
               region_loop pm (current # visited)
                 (queue @ filter (\<lambda>q. q \<notin> set (current # visited)) (neighbors current))
                 (region @ [(current, idx)]))"
  by pat_completeness auto
termination
proof (relation "measures [\<lambda>(pm, visited, queue, region). card (set (rec_keys pm) - set visited),
                           \<lambda>(pm, visited, queue, region). length queue]", goal_cases)
  case (3 pm visited current queue region)
  have "card (set (rec_keys pm) - set (current # visited)) \<le> card (set (rec_keys pm) - set visited)"
    by (rule card_mono) auto
  then show ?case by auto
next
  case (4 pm visited current queue region idx)
  from 4(2) have "current \<in> set (rec_keys pm)" by (metis option.distinct(1) rec_get_keys)
  with 4(1) have "card (set (rec_keys pm) - set (current # visited)) < card (set (rec_keys pm) - set visited)"
    by (intro psubset_card_mono) auto
  then show ?case by simp
qed auto

definition contiguousRegionFrom :: "position option \<Rightarrow> position list \<Rightarrow> (position \<times> nat) list result" where
  "contiguousRegionFrom pos pts =
     (case pos of
        None \<Rightarrow> type_error
      | Some p \<Rightarrow> return (region_loop (positionMap pts 0 []) [] [p] []))"

section \<open>Rows and columns\<close>

datatype y_loc = YTop | YBottom
datatype x_loc = XLeft | XRight

definition create_cells :: "'p \<Rightarrow> string list \<Rightarrow> (string, 'p cell) rec \<Rightarrow> (string, 'p cell) rec" where
  "create_cells zero ks cs = foldl (\<lambda>cs k. rec_set k (zero_cell zero k) cs) cs ks"

definition draw :: "(nat \<Rightarrow> string) \<Rightarrow> nat \<Rightarrow> nat \<Rightarrow> string list" where
  "draw ids n len = map ids [n..<n + len]"

definition new_row_length :: "'p table \<Rightarrow> nat" where
  "new_row_length t =
     (case rows t of
        [] \<Rightarrow> if columns t = [] then 1 else length (columns t)
      | r # _ \<Rightarrow> length (row_cells r))"

definition insert_row :: "nat \<Rightarrow> row_layout \<Rightarrow> 'p table \<Rightarrow> 'p table" where
  "insert_row i row t = t\<lparr>rows := splice_at i 0 [row] (rows t)\<rparr>"

definition addRow_table ::
  "(nat \<Rightarrow> string) \<Rightarrow> 'p \<Rightarrow> nat option \<Rightarrow> string option \<Rightarrow> y_loc option \<Rightarrow> 'p table \<times> nat \<Rightarrow> 'p table \<times> nat" where
  "addRow_table ids zero ix cellKey loc tn =
     (let (t, n) = tn;
          len = new_row_length t;
          newKeys = draw ids n len;
          newRow = \<lparr>row_size = BASE_ROW_SIZE, row_cells = newKeys\<rparr>;
          t1 = t\<lparr>cells := create_cells zero newKeys (cells t),
                 columns := (if rows t = [] \<and> columns t = [] then [BASE_COL_SIZE] else columns t)\<rparr>;
          placed =
            (case (cellKey, loc) of
               (Some k, Some l) \<Rightarrow>
                 (case findCellPosition t1 k of
                    None \<Rightarrow> t1
                  | Some pos \<Rightarrow>
                      (case l of
                         YTop \<Rightarrow> insert_row (nat (snd pos)) newRow t1
                       | YBottom \<Rightarrow> insert_row (nat (snd pos) + 1) newRow t1))
             | _ \<Rightarrow>
                 (case ix of
                    None \<Rightarrow> insert_row (length (rows t1)) newRow t1
                  | Some i \<Rightarrow>
                      if loc \<noteq> Some YTop then insert_row (i + 1) newRow t1 else insert_row i newRow t1))
      in (placed, n + len))"

fun insert_col ::
  "(string list \<Rightarrow> nat) \<Rightarrow> (nat \<Rightarrow> string) \<Rightarrow> nat \<Rightarrow> row_layout list \<Rightarrow> row_layout list" where
  "insert_col at_index ids n [] = []"
| "insert_col at_index ids n (r # rs) =
     r\<lparr>row_cells := splice_at (at_index (row_cells r)) 0 [ids n] (row_cells r)\<rparr> # insert_col at_index ids (Suc n) rs"

definition insert_col_at ::
  "(nat \<Rightarrow> string) \<Rightarrow> 'p \<Rightarrow> (string list \<Rightarrow> nat) \<Rightarrow> nat \<Rightarrow> 'p table \<times> nat \<Rightarrow> 'p table \<times> nat" where
  "insert_col_at ids zero at_index col tn =
     (let (t, n) = tn
      in (t\<lparr>rows := insert_col at_index ids n (rows t),
            cells := create_cells zero (draw ids n (length (rows t))) (cells t),
            columns := splice_at col 0 [BASE_COL_SIZE] (columns t)\<rparr>,
          n + length (rows t)))"

definition addCol_table ::
  "(nat \<Rightarrow> string) \<Rightarrow> 'p \<Rightarrow> nat option \<Rightarrow> string option \<Rightarrow> x_loc option \<Rightarrow> 'p table \<times> nat \<Rightarrow> 'p table \<times> nat" where
  "addCol_table ids zero ix cellKey loc tn =
     (let (t, n) = tn
      in case (cellKey, loc) of
           (Some k, Some l) \<Rightarrow>
             (case findCellPosition t k of
                None \<Rightarrow> (t, n)
              | Some pos \<Rightarrow>
                  let x = nat (fst pos)
                  in insert_col_at ids zero (\<lambda>_. case l of XLeft \<Rightarrow> x | XRight \<Rightarrow> x + 1) x (t, n))
         | _ \<Rightarrow>
             (case ix of
                None \<Rightarrow> insert_col_at ids zero length (length (columns t)) (t, n)
              | Some i \<Rightarrow>
                  if loc \<noteq> Some XLeft then insert_col_at ids zero (\<lambda>_. i + 1) (i + 1) (t, n)
                  else insert_col_at ids zero (\<lambda>_. i) i (t, n)))"

definition deleteRow_table :: "nat option \<Rightarrow> string option \<Rightarrow> 'p table \<Rightarrow> 'p table result" where
  "deleteRow_table ix cellKey t =
     (let pos = (case cellKey of
                   None \<Rightarrow> ix
                 | Some k \<Rightarrow> map_option (\<lambda>p. nat (snd p)) (findCellPosition t k))
      in case pos of
           None \<Rightarrow> return t
         | Some y \<Rightarrow>
             if y < length (rows t)
             then return (t\<lparr>cells := foldl (\<lambda>cs k. rec_delete k cs) (cells t) (row_cells (rows t ! y)),
                            rows := splice_at y 1 [] (rows t)\<rparr>)
             else type_error)"

fun delete_col :: "nat \<Rightarrow> row_layout list \<Rightarrow> (string, 'p cell) rec \<Rightarrow> (row_layout list \<times> (string, 'p cell) rec) result" where
  "delete_col x [] cs = return ([], cs)"
| "delete_col x (r # rs) cs =
     (if x < length (row_cells r)
      then bind_result (delete_col x rs (rec_delete (row_cells r ! x) cs))
             (\<lambda>(rs', cs'). return (r\<lparr>row_cells := splice_at x 1 [] (row_cells r)\<rparr> # rs', cs'))
      else type_error)"

definition deleteCol_table :: "nat option \<Rightarrow> string option \<Rightarrow> 'p table \<Rightarrow> 'p table result" where
  "deleteCol_table ix cellKey t =
     (let pos = (case ix of
                   Some i \<Rightarrow> Some i
                 | None \<Rightarrow>
                     (case cellKey of
                        None \<Rightarrow> None
                      | Some k \<Rightarrow> map_option (\<lambda>p. nat (fst p)) (findCellPosition t k)))
      in case pos of
           None \<Rightarrow> return t
         | Some x \<Rightarrow>
             bind_result (delete_col x (rows t) (cells t))
               (\<lambda>(rs, cs). return (t\<lparr>rows := rs, cells := cs, columns := splice_at x 1 [] (columns t)\<rparr>)))"

section \<open>Selection\<close>

datatype selection_mode = Replace | Add | Region

definition select_where :: "(string \<Rightarrow> bool) \<Rightarrow> 'p table \<Rightarrow> 'p table" where
  "select_where P t = t\<lparr>cells := mapValues (\<lambda>c. c\<lparr>selected := P (ckey c)\<rparr>) (cells t)\<rparr>"

definition selectCells_table :: "selection_mode \<Rightarrow> string list \<Rightarrow> 'p table \<Rightarrow> 'p table" where
  "selectCells_table mode ks t =
     (if \<not> editable t then t
      else if ks = [] then (if mode = Replace then select_where (\<lambda>_. False) t else t)
      else case mode of
             Region \<Rightarrow>
               (case lastSelected t of
                  None \<Rightarrow> t
                | Some l \<Rightarrow>
                    (case (findCellPosition t l, findCellPosition t (hd ks)) of
                       (Some startPos, Some endPos) \<Rightarrow>
                         let sel = allCellsInRegion t startPos endPos
                         in (select_where (\<lambda>k. k \<in> set sel) t)\<lparr>lastSelected := Some (last ks)\<rparr>
                     | _ \<Rightarrow> t))
           | Add \<Rightarrow>
               t\<lparr>cells := mapValues (\<lambda>c. c\<lparr>selected := selected c \<or> ckey c \<in> set ks\<rparr>) (cells t),
                 lastSelected := Some (last ks)\<rparr>
           | Replace \<Rightarrow> (select_where (\<lambda>k. k \<in> set ks) t)\<lparr>lastSelected := Some (last ks)\<rparr>)"

definition set_selected :: "bool \<Rightarrow> string \<Rightarrow> (string, 'p cell) rec \<Rightarrow> (string, 'p cell) rec result" where
  "set_selected b k cs =
     (case rec_get cs k of None \<Rightarrow> type_error | Some c \<Rightarrow> return (rec_set k (c\<lparr>selected := b\<rparr>) cs))"

definition set_cells :: "'p table \<Rightarrow> (string, 'p cell) rec result \<Rightarrow> 'p table result" where
  "set_cells t r = bind_result r (\<lambda>cs. return (t\<lparr>cells := cs\<rparr>))"

definition selectRow_table :: "nat \<Rightarrow> 'p table \<Rightarrow> 'p table result" where
  "selectRow_table ix t =
     (if \<not> editable t then return t
      else set_cells t
             (fold_result (\<lambda>(i, row). fold_result (set_selected (i = ix)) (row_cells row))
                (enumerate 0 (rows t)) (cells t)))"

definition selectCol_table :: "nat \<Rightarrow> 'p table \<Rightarrow> 'p table result" where
  "selectCol_table ix t =
     (if \<not> editable t then return t
      else set_cells t
             (fold_result (\<lambda>row. fold_result (\<lambda>(i, k). set_selected (i = ix) k) (enumerate 0 (row_cells row)))
                (rows t) (cells t)))"

section \<open>Cells, sizes and flags\<close>

definition setCellProps_table :: "string \<Rightarrow> 'p \<Rightarrow> 'p table \<Rightarrow> 'p table result" where
  "setCellProps_table cellKey p t =
     (case rec_get (cells t) cellKey of
        None \<Rightarrow> type_error
      | Some c \<Rightarrow> return (t\<lparr>cells := rec_set cellKey (c\<lparr>props := p\<rparr>) (cells t)\<rparr>))"

definition resizeRow_table :: "nat \<Rightarrow> rat \<Rightarrow> 'p table \<Rightarrow> 'p table result" where
  "resizeRow_table i sz t =
     (if i < length (rows t) then return (t\<lparr>rows := (rows t)[i := (rows t ! i)\<lparr>row_size := sz\<rparr>]\<rparr>)
      else type_error)"

definition resizeCol_table :: "nat \<Rightarrow> rat \<Rightarrow> 'p table \<Rightarrow> 'p table result" where
  "resizeCol_table i sz t =
     (if i < length (columns t) then return (t\<lparr>columns := (columns t)[i := sz]\<rparr>) else type_error)"

definition setCellType_table :: "string \<Rightarrow> string \<Rightarrow> 'p option \<Rightarrow> 'p table \<Rightarrow> 'p table" where
  "setCellType_table cellKey v nextProps t =
     (case rec_get (cells t) cellKey of
        None \<Rightarrow> t
      | Some c \<Rightarrow>
          let c1 = c\<lparr>variant := v\<rparr>;
              c2 = (case nextProps of None \<Rightarrow> c1 | Some p \<Rightarrow> c1\<lparr>props := p\<rparr>)
          in t\<lparr>cells := rec_set cellKey c2 (cells t)\<rparr>)"

definition setEditable_table :: "bool option \<Rightarrow> 'p table \<Rightarrow> 'p table" where
  "setEditable_table e t =
     (let t1 = t\<lparr>editable := (case e of None \<Rightarrow> \<not> editable t | Some b \<Rightarrow> b)\<rparr>
      in if editable t1 then t1 else (select_where (\<lambda>_. False) t1)\<lparr>lastSelected := Some ''''\<rparr>)"

section \<open>Copy and paste\<close>

text \<open>\<open>Object.fromEntries\<close>: a later entry replaces the value of an earlier one with the same key.\<close>

definition fromEntries :: "('k \<times> 'v) list \<Rightarrow> ('k, 'v) rec" where
  "fromEntries es = foldl (\<lambda>r (k, v). rec_set k v r) [] es"

definition minInf :: "int option \<Rightarrow> int \<Rightarrow> int" where
  "minInf m x = (case m of None \<Rightarrow> x | Some y \<Rightarrow> min y x)"

definition topLeft_step ::
  "(string, position) rec \<Rightarrow> 'p cell \<Rightarrow> int option \<times> int option \<times> string \<Rightarrow> (int option \<times> int option \<times> string) result" where
  "topLeft_step posObj c m =
     (let (mx, my, _) = m
      in case rec_get posObj (ckey c) of
           None \<Rightarrow> type_error
         | Some pos \<Rightarrow> return (Some (minInf mx (fst pos)), Some (minInf my (snd pos)), ckey c))"

definition candidateCells :: "'p table \<Rightarrow> 'p cell list" where
  "candidateCells t = filter selected (map snd (cells t))"

definition candidatePositions :: "'p table \<Rightarrow> position list" where
  "candidatePositions t = List.map_filter (\<lambda>c. findCellPosition t (ckey c)) (candidateCells t)"

definition positionsObj :: "'p table \<Rightarrow> (string, position) rec" where
  "positionsObj t = fromEntries (zip (map ckey (candidateCells t)) (candidatePositions t))"

definition buffer_of :: "(string, position) rec \<Rightarrow> 'p cell list \<Rightarrow> 'p copy_buffer result" where
  "buffer_of posObj contiguous =
     bind_result (fold_result (topLeft_step posObj) contiguous (None, None, ''''))
       (\<lambda>topLeft. return
          \<lparr>epicenter = snd (snd topLeft),
           buf_cells = fromEntries (map (\<lambda>c. (ckey c, c)) contiguous),
           positions = fromEntries (List.map_filter (\<lambda>c. map_option (Pair (ckey c)) (rec_get posObj (ckey c))) contiguous)\<rparr>)"

definition copySelected_table :: "'p table \<Rightarrow> 'p copy_buffer \<Rightarrow> 'p copy_buffer result" where
  "copySelected_table t buf =
     (case lastSelected t of
        None \<Rightarrow> return buf
      | Some l \<Rightarrow>
          bind_result (contiguousRegionFrom (rec_get (positionsObj t) l) (candidatePositions t))
            (\<lambda>region. buffer_of (positionsObj t) (map (\<lambda>(_, i). candidateCells t ! i) region)))"

text \<open>The arguments of a paste are positions of a grid: \<open>xy.translation\<close> and \<open>xy.translate\<close> on integers.\<close>

definition translation :: "position \<Rightarrow> position \<Rightarrow> position" where
  "translation to0 from0 = (fst from0 - fst to0, snd from0 - snd to0)"

definition translate :: "position \<Rightarrow> position \<Rightarrow> position" where
  "translate p d = (fst p + fst d, snd p + snd d)"

definition grow_rows :: "(nat \<Rightarrow> string) \<Rightarrow> 'p \<Rightarrow> nat \<Rightarrow> 'p table \<times> nat \<Rightarrow> 'p table \<times> nat" where
  "grow_rows ids zero delta = (addRow_table ids zero None None (Some YBottom) ^^ delta)"

definition grow_cols :: "(nat \<Rightarrow> string) \<Rightarrow> 'p \<Rightarrow> nat \<Rightarrow> 'p table \<times> nat \<Rightarrow> 'p table \<times> nat" where
  "grow_cols ids zero delta = (addCol_table ids zero None None (Some XRight) ^^ delta)"

definition paste_at :: "'p cell \<Rightarrow> position \<Rightarrow> 'p table \<Rightarrow> 'p table result" where
  "paste_at cell pos t =
     bind_result (getCellAt t pos)
       (\<lambda>existing. case existing of
          None \<Rightarrow> return t
        | Some ex \<Rightarrow> return (t\<lparr>cells := rec_set (ckey ex) (cell\<lparr>ckey := ckey ex\<rparr>) (cells t)\<rparr>))"

definition paste_cell ::
  "(nat \<Rightarrow> string) \<Rightarrow> 'p \<Rightarrow> (string, position) rec \<Rightarrow> position \<Rightarrow> 'p cell \<Rightarrow>
   ('p table \<times> nat) \<times> position \<Rightarrow> (('p table \<times> nat) \<times> position) result" where
  "paste_cell ids zero ps d cell st =
     (case rec_get ps (ckey cell) of
        None \<Rightarrow> type_error
      | Some copiedPos \<Rightarrow>
          let (tn, (w, h)) = st;
              pos = translate copiedPos d;
              tn1 = (if snd pos > h then grow_rows ids zero (nat (snd pos - h)) tn else tn);
              tn2 = (if fst pos > w then grow_cols ids zero (nat (fst pos - w)) tn1 else tn1)
          in bind_result (paste_at cell pos (fst tn2))
               (\<lambda>t. return ((t, snd tn2), (max w (fst pos), max h (snd pos)))))"

definition pasteSelected_table ::
  "(nat \<Rightarrow> string) \<Rightarrow> 'p \<Rightarrow> 'p copy_buffer \<Rightarrow> 'p table \<times> nat \<Rightarrow> ('p table \<times> nat) result" where
  "pasteSelected_table ids zero buf tn =
     (case lastSelected (fst tn) of
        None \<Rightarrow> return tn
      | Some pasteCenter \<Rightarrow>
          (case (findCellPosition (fst tn) pasteCenter, rec_get (positions buf) (epicenter buf)) of
             (Some p, Some c) \<Rightarrow>
               bind_result
                 (fold_result (paste_cell ids zero (positions buf) (translation c p)) (map snd (buf_cells buf))
                    (tn, (int (length (columns (fst tn))) - 1, int (length (rows (fst tn))) - 1)))
                 (\<lambda>st. return (fst st))
           | _ \<Rightarrow> return tn))"

section \<open>Clearing\<close>

fun every_selected :: "(string, 'p cell) rec \<Rightarrow> string option list \<Rightarrow> bool result" where
  "every_selected cs [] = return True"
| "every_selected cs (ko # ks) =
     (case ko of
        None \<Rightarrow> type_error
      | Some k \<Rightarrow>
          (case rec_get cs k of
             None \<Rightarrow> type_error
           | Some c \<Rightarrow> if selected c then every_selected cs ks else return False))"

fun clear_rows :: "row_layout list \<Rightarrow> (string, 'p cell) rec \<Rightarrow> (row_layout list \<times> (string, 'p cell) rec) result" where
  "clear_rows [] cs = return ([], cs)"
| "clear_rows (r # rs) cs =
     bind_result (every_selected cs (map Some (row_cells r)))
       (\<lambda>b. if b then clear_rows rs (foldl (\<lambda>cs k. rec_delete k cs) cs (row_cells r))
             else bind_result (clear_rows rs cs) (\<lambda>(rs', cs'). return (r # rs', cs')))"

definition full_col :: "row_layout list \<Rightarrow> (string, 'p cell) rec \<Rightarrow> nat \<Rightarrow> bool result" where
  "full_col rs cs i = every_selected cs (map (\<lambda>r. nth_opt (row_cells r) (int i)) rs)"

fun colIdxToDelete :: "row_layout list \<Rightarrow> (string, 'p cell) rec \<Rightarrow> nat list \<Rightarrow> nat list result" where
  "colIdxToDelete rs cs [] = return []"
| "colIdxToDelete rs cs (i # is) =
     bind_result (full_col rs cs i)
       (\<lambda>b. bind_result (colIdxToDelete rs cs is) (\<lambda>del. return (if b then i # del else del)))"

fun clear_cols ::
  "nat list \<Rightarrow> (nat \<times> rat) list \<Rightarrow> row_layout list \<times> (string, 'p cell) rec \<Rightarrow>
   (rat list \<times> row_layout list \<times> (string, 'p cell) rec) result" where
  "clear_cols del [] (rs, cs) = return ([], rs, cs)"
| "clear_cols del ((i, sz) # is) (rs, cs) =
     (if i \<notin> set del
      then bind_result (clear_cols del is (rs, cs)) (\<lambda>(szs, rs', cs'). return (sz # szs, rs', cs'))
      else bind_result (delete_col i rs cs) (clear_cols del is))"

definition reset_selected :: "'p \<Rightarrow> 'p cell \<Rightarrow> 'p cell" where
  "reset_selected zero c = (if selected c then c\<lparr>variant := ''text'', props := zero\<rparr> else c)"

definition clearSelected_table :: "'p \<Rightarrow> 'p table \<Rightarrow> 'p table result" where
  "clearSelected_table zero t =
     bind_result (clear_rows (rows t) (cells t)) (\<lambda>(rs, cs).
     bind_result (colIdxToDelete rs cs [0..<length (columns t)]) (\<lambda>del.
     bind_result (clear_cols del (enumerate 0 (columns t)) (rs, cs)) (\<lambda>(szs, rs', cs').
     return (t\<lparr>rows := rs', columns := szs, cells := mapValues (reset_selected zero) cs'\<rparr>))))"

section \<open>The reducer\<close>

datatype 'p table_action =
    Create string "'p table"
  | SelectCells string selection_mode "string list"
  | AddRow string "nat option" "string option" "y_loc option"
  | AddCol string "nat option" "string option" "x_loc option"
  | SelectRow string nat
  | SelectCol string nat
  | DeleteRow string "nat option" "string option"
  | DeleteCol string "nat option" "string option"
  | SetCellProps string string 'p
  | ResizeRow string nat rat
  | ResizeCol string nat rat
  | SetCellType string string string "'p option"
  | SetEditable string "bool option"
  | CopySelected string
  | PasteSelected string
  | ClearSelected string
  | SetRemoteCreated string

definition put_table :: "string \<Rightarrow> 'p table \<Rightarrow> 'p table_slice \<Rightarrow> 'p table_slice" where
  "put_table k t s = s\<lparr>tables := rec_set k t (tables s)\<rparr>"

text \<open>The operations on one table; a table that does not exist is left alone, or is an error.\<close>

definition on_table ::
  "string \<Rightarrow> ('p table \<times> nat \<Rightarrow> ('p table \<times> nat) result) \<Rightarrow>
   'p table_slice \<times> nat \<Rightarrow> ('p table_slice \<times> nat) result" where
  "on_table k f sn =
     (case rec_get (tables (fst sn)) k of
        None \<Rightarrow> return sn
      | Some t \<Rightarrow> bind_result (f (t, snd sn)) (\<lambda>tn. return (put_table k (fst tn) (fst sn), snd tn)))"

definition on_existing ::
  "string \<Rightarrow> ('p table \<times> nat \<Rightarrow> ('p table \<times> nat) result) \<Rightarrow>
   'p table_slice \<times> nat \<Rightarrow> ('p table_slice \<times> nat) result" where
  "on_existing k f sn = (if rec_get (tables (fst sn)) k = None then type_error else on_table k f sn)"

definition keep_ids :: "('p table \<Rightarrow> 'p table result) \<Rightarrow> 'p table \<times> nat \<Rightarrow> ('p table \<times> nat) result" where
  "keep_ids f tn = bind_result (f (fst tn)) (\<lambda>t. return (t, snd tn))"

definition copySelected :: "string \<Rightarrow> 'p table_slice \<Rightarrow> 'p table_slice result" where
  "copySelected k s =
     (case rec_get (tables s) k of
        None \<Rightarrow> return s
      | Some t \<Rightarrow> bind_result (copySelected_table t (copyBuffer s)) (\<lambda>b. return (s\<lparr>copyBuffer := b\<rparr>)))"

definition table_reducer ::
  "(nat \<Rightarrow> string) \<Rightarrow> 'p \<Rightarrow> 'p table_action \<Rightarrow> 'p table_slice \<times> nat \<Rightarrow> ('p table_slice \<times> nat) result" where
  "table_reducer ids zero a sn =
     (case a of
        Create k t \<Rightarrow> return (put_table k (t\<lparr>tb_key := k\<rparr>) (fst sn), snd sn)
      | SelectCells k mode ks \<Rightarrow> on_table k (keep_ids (return \<circ> selectCells_table mode ks)) sn
      | AddRow k ix ck loc \<Rightarrow> on_table k (return \<circ> addRow_table ids zero ix ck loc) sn
      | AddCol k ix ck loc \<Rightarrow> on_table k (return \<circ> addCol_table ids zero ix ck loc) sn
      | SelectRow k ix \<Rightarrow> on_table k (keep_ids (selectRow_table ix)) sn
      | SelectCol k ix \<Rightarrow> on_table k (keep_ids (selectCol_table ix)) sn
      | DeleteRow k ix ck \<Rightarrow> on_table k (keep_ids (deleteRow_table ix ck)) sn
      | DeleteCol k ix ck \<Rightarrow> on_table k (keep_ids (deleteCol_table ix ck)) sn
      | SetCellProps k ck p \<Rightarrow> on_existing k (keep_ids (setCellProps_table ck p)) sn
      | ResizeRow k ix sz \<Rightarrow> on_table k (keep_ids (resizeRow_table ix sz)) sn
      | ResizeCol k ix sz \<Rightarrow> on_table k (keep_ids (resizeCol_table ix sz)) sn
      | SetCellType k ck v p \<Rightarrow> on_existing k (keep_ids (return \<circ> setCellType_table ck v p)) sn
      | SetEditable k e \<Rightarrow> on_table k (keep_ids (return \<circ> setEditable_table e)) sn
      | CopySelected k \<Rightarrow> bind_result (copySelected k (fst sn)) (\<lambda>s. return (s, snd sn))
      | PasteSelected k \<Rightarrow> on_table k (pasteSelected_table ids zero (copyBuffer (fst sn))) sn
      | ClearSelected k \<Rightarrow> on_table k (keep_ids (clearSelected_table zero)) sn
      | SetRemoteCreated k \<Rightarrow> on_existing k (keep_ids (\<lambda>t. return (t\<lparr>remoteCreated := True\<rparr>))) sn)"

end
