(* ===== verification/Table_Grid.thy ===== *)
theory Table_Grid
  imports Table_Slice "HOL-Library.Sublist"
begin

text \<open>
  The layout of a table: when a table is well formed (its grid is rectangular, every key of the grid
  occurs once and has exactly one cell, and every cell holds its own key), that the operations on
  rows, columns and cells keep it so, and where the cells of a well-formed table are.
\<close>

section \<open>Well-formed tables\<close>

definition keys_of :: "row_layout list \<Rightarrow> string list" where
  "keys_of rs = concat (map row_cells rs)"

definition cells_ok :: "string list \<Rightarrow> (string, 'p cell) rec \<Rightarrow> bool" where
  "cells_ok ks cs \<longleftrightarrow> distinct ks \<and> rec_wf cs \<and> set (rec_keys cs) = set ks \<and>
     (\<forall>(k, c)\<in>set cs. ckey c = k)"

definition rectangular :: "row_layout list \<Rightarrow> nat \<Rightarrow> bool" where
  "rectangular rs w \<longleftrightarrow> (\<forall>r\<in>set rs. length (row_cells r) = w)"

definition table_wf :: "'p table \<Rightarrow> bool" where
  "table_wf t \<longleftrightarrow> rectangular (rows t) (length (columns t)) \<and> cells_ok (keys_of (rows t)) (cells t)"

definition fresh :: "(nat \<Rightarrow> string) \<Rightarrow> nat \<Rightarrow> (string, 'p cell) rec \<Rightarrow> bool" where
  "fresh ids n cs \<longleftrightarrow> (\<forall>m\<ge>n. ids m \<notin> set (rec_keys cs))"

lemma grid_keys_simps [simp]:
  "keys_of [] = []"
  "keys_of (r # rs) = row_cells r @ keys_of rs"
  "keys_of (rs @ rs') = keys_of rs @ keys_of rs'"
  by (simp_all add: keys_of_def)

lemma cells_ok_key:
  assumes "cells_ok ks cs" and "rec_get cs k = Some c"
  shows "ckey c = k \<and> k \<in> set ks"
  using assms rec_get_in_set [OF assms(2)] rec_get_keys [of cs k] by (auto simp: cells_ok_def)

lemma cells_ok_get:
  assumes "cells_ok ks cs" and "k \<in> set ks"
  shows "\<exists>c. rec_get cs k = Some c \<and> ckey c = k"
proof -
  have "rec_get cs k \<noteq> None" using assms unfolding rec_get_keys cells_ok_def by simp
  then obtain c where "rec_get cs k = Some c" by blast
  with cells_ok_key [OF assms(1)] show ?thesis by blast
qed

lemma rec_keys_mapValues [simp]: "rec_keys (mapValues f cs) = rec_keys cs"
  by (simp add: rec_keys_def mapValues_def case_prod_beta comp_def)

lemma rec_get_mapValues [simp]: "rec_get (mapValues f cs) k = map_option f (rec_get cs k)"
  by (induction cs) (auto simp: mapValues_def)

lemma cells_ok_mapValues:
  assumes "cells_ok ks cs" and "\<And>c. ckey (f c) = ckey c"
  shows "cells_ok ks (mapValues f cs)"
  using assms by (auto simp: cells_ok_def rec_wf_def) (auto simp: mapValues_def)

lemma set_rec_set_subset: "set (rec_set k v r) \<subseteq> insert (k, v) (set r)"
  by (induction k v r rule: rec_set.induct) auto

lemma cells_ok_set:
  assumes "cells_ok ks cs" and "k \<in> set ks" and "ckey c = k"
  shows "cells_ok ks (rec_set k c cs)"
proof -
  have "\<forall>(k', c')\<in>set (rec_set k c cs). ckey c' = k'"
    using assms set_rec_set_subset [of k c cs] by (fastforce simp: cells_ok_def)
  with assms show ?thesis by (simp add: cells_ok_def insert_absorb)
qed

lemma cells_ok_new:
  assumes "cells_ok ks cs" and "k \<notin> set ks" and "ckey c = k"
  shows "cells_ok (k # ks) (rec_set k c cs)"
proof -
  have "\<forall>(k', c')\<in>set (rec_set k c cs). ckey c' = k'"
    using assms set_rec_set_subset [of k c cs] by (fastforce simp: cells_ok_def)
  with assms show ?thesis by (simp add: cells_ok_def)
qed

lemma cells_ok_perm: "cells_ok ks cs \<Longrightarrow> mset ks' = mset ks \<Longrightarrow> cells_ok ks' cs"
  unfolding cells_ok_def by (metis mset_eq_imp_distinct_iff mset_eq_setD)

lemma create_cells_simps [simp]:
  "create_cells zero [] cs = cs"
  "create_cells zero (k # ks) cs = create_cells zero ks (rec_set k (zero_cell zero k) cs)"
  by (simp_all add: create_cells_def)

lemma cells_ok_create:
  assumes "cells_ok ks cs" and "distinct new" and "set new \<inter> set ks = {}"
    and "mset ks' = mset ks + mset new"
  shows "cells_ok ks' (create_cells zero new cs)"
proof -
  have "cells_ok (rev new @ ks) (create_cells zero new cs)"
    using assms(1-3)
  proof (induction new arbitrary: ks cs)
    case (Cons k new)
    have "cells_ok (k # ks) (rec_set k (zero_cell zero k) cs)"
      using Cons.prems by (intro cells_ok_new) (auto simp: zero_cell_def)
    from Cons.IH [OF this] Cons.prems show ?case by simp
  qed simp
  then show ?thesis by (rule cells_ok_perm) (simp add: assms(4))
qed

lemma rec_keys_create: "set (rec_keys (create_cells zero new cs)) = set (rec_keys cs) \<union> set new"
  by (induction new arbitrary: cs) auto

lemma rec_get_create_other: "k \<notin> set new \<Longrightarrow> rec_get (create_cells zero new cs) k = rec_get cs k"
  by (induction new arbitrary: cs) auto

lemma rec_get_create_new:
  "k \<in> set new \<Longrightarrow> distinct new \<Longrightarrow> rec_get (create_cells zero new cs) k = Some (zero_cell zero k)"
  by (induction new arbitrary: cs) (auto simp: rec_get_create_other)

lemma set_rec_keys_delete [simp]: "set (rec_keys (rec_delete k cs)) = set (rec_keys cs) - {k}"
  by (auto simp: rec_keys_def rec_delete_def)

lemma cells_ok_remove1:
  assumes "cells_ok (k # ks) cs"
  shows "cells_ok ks (rec_delete k cs)"
proof -
  have "\<forall>(k', c)\<in>set (rec_delete k cs). ckey c = k'"
    using assms by (auto simp: cells_ok_def rec_delete_def)
  with assms show ?thesis by (auto simp: cells_ok_def)
qed

definition delete_keys :: "string list \<Rightarrow> (string, 'p cell) rec \<Rightarrow> (string, 'p cell) rec" where
  "delete_keys ks cs = foldl (\<lambda>cs k. rec_delete k cs) cs ks"

lemma delete_keys_simps [simp]:
  "delete_keys [] cs = cs"
  "delete_keys (k # ks) cs = delete_keys ks (rec_delete k cs)"
  "delete_keys (ks @ ks') cs = delete_keys ks' (delete_keys ks cs)"
  by (simp_all add: delete_keys_def)

lemma rec_get_delete_keys [simp]:
  "rec_get (delete_keys ks cs) k = (if k \<in> set ks then None else rec_get cs k)"
  by (induction ks arbitrary: cs) auto

lemma rec_keys_delete_keys [simp]: "set (rec_keys (delete_keys ks cs)) = set (rec_keys cs) - set ks"
  by (induction ks arbitrary: cs) auto

lemma cells_ok_delete:
  assumes "cells_ok ks cs" and "mset ks = mset ks' + mset del"
  shows "cells_ok ks' (delete_keys del cs)"
  using assms
proof (induction del arbitrary: ks cs)
  case Nil
  then show ?case by (auto intro: cells_ok_perm)
next
  case (Cons k del)
  have "cells_ok (k # (ks' @ del)) cs"
    by (rule cells_ok_perm [OF Cons.prems(1)]) (simp add: Cons.prems(2))
  from Cons.IH [OF cells_ok_remove1 [OF this]] show ?case by simp
qed

section \<open>Every operation keeps a table well formed\<close>

lemma draw_simps [simp]:
  "length (draw ids n len) = len"
  "set (draw ids n len) = ids ` {n..<n + len}"
  "inj ids \<Longrightarrow> distinct (draw ids n len)"
  by (auto simp: draw_def distinct_map intro: inj_on_subset)

lemma fresh_draw:
  assumes "fresh ids n cs" and "cells_ok ks cs"
  shows "set (draw ids n len) \<inter> set ks = {}"
  using assms by (auto simp: fresh_def cells_ok_def)

lemma fresh_create:
  assumes "fresh ids n cs" and "inj ids"
  shows "fresh ids (n + len) (create_cells zero (draw ids n len) cs)"
  using assms by (auto simp: fresh_def rec_keys_create dest: injD)

lemma keys_of_insert: "mset (keys_of (splice_at i 0 [r] rs)) = mset (keys_of rs) + mset (row_cells r)"
proof -
  have "mset (keys_of rs) = mset (keys_of (take i rs)) + mset (keys_of (drop i rs))"
    by (metis append_take_drop_id grid_keys_simps(3) mset_append)
  then show ?thesis by (simp add: splice_at_def)
qed

lemma insert_col_keys:
  "mset (keys_of (insert_col ai ids n rs)) = mset (keys_of rs) + mset (draw ids n (length rs))"
proof (induction rs arbitrary: n)
  case (Cons r rs)
  have "mset (splice_at (ai (row_cells r)) 0 [ids n] (row_cells r)) = mset (row_cells r) + {#ids n#}"
    by (simp add: mset_splice_insert)
  moreover have "draw ids n (length (r # rs)) = ids n # draw ids (Suc n) (length rs)"
    by (simp add: draw_def upt_conv_Cons del: upt_Suc)
  ultimately show ?case using Cons.IH [of "Suc n"] by simp
qed (simp add: draw_def)

lemma insert_col_rectangular: "rectangular rs w \<Longrightarrow> rectangular (insert_col ai ids n rs) (Suc w)"
  by (induction rs arbitrary: n) (auto simp: rectangular_def length_splice_insert)

lemma insert_col_at_wf:
  assumes "table_wf t" and "fresh ids n (cells t)" and "inj ids"
    and "insert_col_at ids zero ai col (t, n) = (t', n')"
  shows "table_wf t' \<and> fresh ids n' (cells t')"
proof -
  note wf = assms(1) [unfolded table_wf_def]
  have t': "t' = t\<lparr>rows := insert_col ai ids n (rows t),
              cells := create_cells zero (draw ids n (length (rows t))) (cells t),
              columns := splice_at col 0 [BASE_COL_SIZE] (columns t)\<rparr>" "n' = n + length (rows t)"
    using assms(4) by (auto simp: insert_col_at_def)
  have "cells_ok (keys_of (rows t')) (cells t')"
    unfolding t' using wf assms(2,3)
    by (auto intro!: cells_ok_create [where ks = "keys_of (rows t)"] fresh_draw [of ids n "cells t"]
        simp: insert_col_keys simp del: draw_simps(2))
  moreover have "rectangular (rows t') (length (columns t'))"
    using wf by (simp add: t' insert_col_rectangular length_splice_insert)
  moreover have "fresh ids n' (cells t')" using fresh_create assms(2,3) by (simp add: t')
  ultimately show ?thesis by (simp add: table_wf_def)
qed

lemma addCol_wf:
  assumes "table_wf t" and "fresh ids n (cells t)" and "inj ids"
    and "addCol_table ids zero ix ck loc (t, n) = (t', n')"
  shows "table_wf t' \<and> fresh ids n' (cells t')"
proof -
  have "(t', n') = (t, n) \<or> (\<exists>ai col. insert_col_at ids zero ai col (t, n) = (t', n'))"
    using assms(4) by (auto simp: addCol_table_def Let_def split: option.splits if_splits)
  then show ?thesis using insert_col_at_wf [OF assms(1-3)] assms(1,2) by auto
qed

lemma insert_row_wf:
  assumes "rectangular (rows t) (length (columns t))" and "length (row_cells r) = length (columns t)"
    and "\<And>ks'. mset ks' = mset (keys_of (rows t)) + mset (row_cells r) \<Longrightarrow> cells_ok ks' (cells t)"
  shows "table_wf (insert_row i r t) \<and> cells (insert_row i r t) = cells t"
  using assms by (auto simp: table_wf_def insert_row_def keys_of_insert rectangular_def set_splice_insert)

definition row_placed :: "'p table \<Rightarrow> string option \<Rightarrow> y_loc option \<Rightarrow> bool" where
  "row_placed t ck loc \<longleftrightarrow>
     (case (ck, loc) of (Some k, Some l) \<Rightarrow> findCellPosition t k \<noteq> None | _ \<Rightarrow> True)"

lemma findCellPosition_rows: "rows t = rows t' \<Longrightarrow> findCellPosition t = findCellPosition t'"
  by (rule ext) (simp add: findCellPosition_def cong: option.case_cong)

lemma addRow_wf:
  assumes wf: "table_wf t" and fr: "fresh ids n (cells t)" and "inj ids" and "row_placed t ck loc"
    and "addRow_table ids zero ix ck loc (t, n) = (t', n')"
  shows "table_wf t' \<and> fresh ids n' (cells t')"
proof -
  let ?new = "draw ids n (new_row_length t)"
  let ?row = "\<lparr>row_size = BASE_ROW_SIZE, row_cells = ?new\<rparr>"
  let ?t1 = "t\<lparr>cells := create_cells zero ?new (cells t),
               columns := (if rows t = [] \<and> columns t = [] then [BASE_COL_SIZE] else columns t)\<rparr>"
  have len: "new_row_length t = length (columns ?t1)" and rect: "rectangular (rows t) (length (columns ?t1))"
    using wf by (auto simp: new_row_length_def table_wf_def rectangular_def split: list.splits)
  have ok: "cells_ok ks' (cells ?t1)" if "mset ks' = mset (keys_of (rows t)) + mset ?new" for ks'
    using wf that assms(3) fresh_draw [OF fr, of "keys_of (rows t)"]
    by (auto intro!: cells_ok_create [where ks = "keys_of (rows t)"] simp: table_wf_def simp del: draw_simps(2))
  have ins: "table_wf (insert_row i ?row ?t1) \<and> cells (insert_row i ?row ?t1) = cells ?t1" for i
    by (rule insert_row_wf) (use rect len ok in simp_all)
  have "\<exists>i. t' = insert_row i ?row ?t1" and "n' = n + new_row_length t"
    using assms(4,5) findCellPosition_rows [of ?t1 t]
    by (auto simp: addRow_table_def Let_def row_placed_def split: option.splits y_loc.splits if_splits)
  then show ?thesis using ins fresh_create [OF fr assms(3)] by auto
qed


lemma keys_of_split: "i < length rs \<Longrightarrow> keys_of rs = keys_of (take i rs) @ row_cells (rs ! i) @ keys_of (drop (Suc i) rs)"
  by (metis id_take_nth_drop grid_keys_simps(2,3))

lemma rectangular_subset: "rectangular rs w \<Longrightarrow> set rs' \<subseteq> set rs \<Longrightarrow> rectangular rs' w"
  by (auto simp: rectangular_def)

lemma deleteRow_wf:
  assumes "table_wf t" and "deleteRow_table ix ck t = Inr t'"
  shows "table_wf t' \<and> set (rec_keys (cells t')) \<subseteq> set (rec_keys (cells t))"
proof (cases "t' = t")
  case True
  with assms show ?thesis by simp
next
  case False
  then obtain y where y: "y < length (rows t)"
    and t': "t' = t\<lparr>cells := delete_keys (row_cells (rows t ! y)) (cells t), rows := splice_at y 1 [] (rows t)\<rparr>"
    using assms(2)
    by (auto simp: deleteRow_table_def Let_def type_error_def delete_keys_def split: option.splits if_splits)
  have "mset (keys_of (rows t)) = mset (keys_of (rows t')) + mset (row_cells (rows t ! y))"
    by (subst keys_of_split [OF y]) (simp add: t' splice_at_def)
  with assms(1) have "cells_ok (keys_of (rows t')) (cells t')"
    by (auto simp: t' table_wf_def intro: cells_ok_delete)
  moreover have "rectangular (rows t') (length (columns t'))"
    using assms(1) unfolding t' table_wf_def splice_at_def
    by (auto intro!: rectangular_subset [where rs = "rows t"] dest: in_set_takeD in_set_dropD)
  ultimately show ?thesis by (auto simp: table_wf_def t')
qed

lemma delete_col_spec:
  assumes "delete_col x rs cs = Inr (rs', cs')"
  shows "(\<forall>r\<in>set rs. x < length (row_cells r)) \<and>
         rs' = map (\<lambda>r. r\<lparr>row_cells := splice_at x 1 [] (row_cells r)\<rparr>) rs \<and>
         cs' = delete_keys (map (\<lambda>r. row_cells r ! x) rs) cs"
  using assms
proof (induction rs arbitrary: cs rs' cs')
  case (Cons r rs)
  then show ?case
    by (fastforce simp: bind_result_eq_Inr type_error_def split: if_splits)
qed simp

lemma delete_col_total:
  assumes "\<forall>r\<in>set rs. x < length (row_cells r)"
  shows "delete_col x rs cs = Inr (map (\<lambda>r. r\<lparr>row_cells := splice_at x 1 [] (row_cells r)\<rparr>) rs,
           delete_keys (map (\<lambda>r. row_cells r ! x) rs) cs)"
  using assms by (induction rs arbitrary: cs) auto

lemma mset_splice_delete: "x < length xs \<Longrightarrow> mset xs = mset (splice_at x 1 [] xs) + {#xs ! x#}"
  by (subst id_take_nth_drop [of x xs]) (simp_all add: splice_at_def)

lemma delete_col_keys:
  assumes "\<forall>r\<in>set rs. x < length (row_cells r)"
  shows "mset (keys_of rs) =
    mset (keys_of (map (\<lambda>r. r\<lparr>row_cells := splice_at x 1 [] (row_cells r)\<rparr>) rs)) +
    mset (map (\<lambda>r. row_cells r ! x) rs)"
  using assms
proof (induction rs)
  case (Cons r rs)
  then show ?case using mset_splice_delete [of x "row_cells r"] by simp
qed simp

lemma delete_col_wf:
  assumes "delete_col x rs cs = Inr (rs', cs')" and "cells_ok (keys_of rs) cs"
    and "rectangular rs w" and "x < w"
  shows "cells_ok (keys_of rs') cs' \<and> rectangular rs' (w - 1) \<and> set (rec_keys cs') \<subseteq> set (rec_keys cs)"
  using delete_col_spec [OF assms(1)] assms(2-4) delete_col_keys [of rs x]
  by (auto simp: rectangular_def splice_at_def intro: cells_ok_delete)

lemma deleteCol_wf:
  assumes "table_wf t" and "deleteCol_table ix ck t = Inr t'"
  shows "table_wf t' \<and> set (rec_keys (cells t')) \<subseteq> set (rec_keys (cells t))"
proof (cases "t' = t")
  case True
  with assms show ?thesis by simp
next
  case False
  then obtain x rs cs where del: "delete_col x (rows t) (cells t) = Inr (rs, cs)"
    and t': "t' = t\<lparr>rows := rs, cells := cs, columns := splice_at x 1 [] (columns t)\<rparr>"
    using assms(2) by (auto simp: deleteCol_table_def Let_def bind_result_eq_Inr split: option.splits)
  show ?thesis
  proof (cases "x < length (columns t)")
    case True
    from delete_col_wf [OF del _ _ True] assms(1) True show ?thesis
      by (auto simp: table_wf_def t' splice_at_def)
  next
    case False
    with del assms(1) have "rows t = []"
      by (cases "rows t") (auto simp: table_wf_def rectangular_def type_error_def)
    with del assms(1) t' show ?thesis by (auto simp: table_wf_def rectangular_def)
  qed
qed

lemma table_wf_cells:
  assumes "table_wf t" and "cells_ok (keys_of (rows t)) cs"
  shows "table_wf (t\<lparr>cells := cs\<rparr>)"
  using assms by (simp add: table_wf_def)

lemma selectCells_wf:
  assumes "table_wf t"
  shows "table_wf (selectCells_table mode ks t) \<and>
         set (rec_keys (cells (selectCells_table mode ks t))) \<subseteq> set (rec_keys (cells t))"
  using assms
  by (auto simp: selectCells_table_def select_where_def table_wf_def Let_def
      split: selection_mode.splits option.splits intro: cells_ok_mapValues)

lemma rec_keys_set_existing: "k \<in> set (rec_keys r) \<Longrightarrow> rec_keys (rec_set k v r) = rec_keys r"
  by (induction k v r rule: rec_set.induct) (auto simp: rec_keys_def)

lemma fold_result_concat: "fold_result (\<lambda>x. fold_result f (h x)) xs s = fold_result f (concat (map h xs)) s"
proof (induction xs arbitrary: s)
  case (Cons x xs)
  then have "fold_result (\<lambda>x. fold_result f (h x)) xs = fold_result f (concat (map h xs))" by blast
  then show ?case by (simp add: fold_result_append)
qed simp

lemma fold_result_map: "fold_result f (map g xs) s = fold_result (\<lambda>x. f (g x)) xs s"
proof (induction xs arbitrary: s)
  case (Cons x xs)
  then have "fold_result f (map g xs) = fold_result (\<lambda>x. f (g x)) xs" by blast
  then show ?case by simp
qed simp

text \<open>Assigning the flag of a list of existing cells never throws, and assigns each of them.\<close>

lemma assign_selected:
  assumes "snd ` set l \<subseteq> set (rec_keys cs)" and "distinct (map snd l)"
  shows "\<exists>cs'. fold_result (\<lambda>(b, k). set_selected b k) l cs = Inr cs' \<and> rec_keys cs' = rec_keys cs \<and>
    (\<forall>(b, k)\<in>set l. rec_get cs' k = map_option (selected_update (\<lambda>_. b)) (rec_get cs k)) \<and>
    (\<forall>k. k \<notin> snd ` set l \<longrightarrow> rec_get cs' k = rec_get cs k)"
  using assms
proof (induction l arbitrary: cs)
  case (Cons a l)
  obtain b k where a: "a = (b, k)" by force
  from Cons.prems(1) obtain c where c: "rec_get cs k = Some c"
    using rec_get_keys [of cs k] by (auto simp: a)
  let ?cs = "rec_set k (c\<lparr>selected := b\<rparr>) cs"
  have keys: "rec_keys ?cs = rec_keys cs"
    using Cons.prems(1) by (intro rec_keys_set_existing) (simp add: a)
  have "snd ` set l \<subseteq> set (rec_keys ?cs)" "distinct (map snd l)" using Cons.prems keys by auto
  from Cons.IH [OF this] obtain cs' where
    cs': "fold_result (\<lambda>(b, k). set_selected b k) l ?cs = Inr cs'" "rec_keys cs' = rec_keys ?cs"
      "\<forall>(b, k)\<in>set l. rec_get cs' k = map_option (selected_update (\<lambda>_. b)) (rec_get ?cs k)"
      "\<forall>k. k \<notin> snd ` set l \<longrightarrow> rec_get cs' k = rec_get ?cs k"
    by blast
  have k: "k \<notin> snd ` set l" using Cons.prems(2) by (simp add: a)
  have "\<forall>(b', k')\<in>set (a # l). rec_get cs' k' = map_option (selected_update (\<lambda>_. b')) (rec_get cs k')"
    using cs'(3,4) k c by (force simp: a)
  moreover have "fold_result (\<lambda>(b, k). set_selected b k) (a # l) cs = Inr cs'"
    using cs'(1) c by (simp add: a set_selected_def)
  ultimately show ?case using cs'(2,4) keys by (auto simp: a)
qed simp

definition row_flags :: "nat \<Rightarrow> row_layout list \<Rightarrow> (bool \<times> string) list" where
  "row_flags ix rs = concat (map (\<lambda>(i, r). map (Pair (i = ix)) (row_cells r)) (enumerate 0 rs))"

definition col_flags :: "nat \<Rightarrow> row_layout list \<Rightarrow> (bool \<times> string) list" where
  "col_flags ix rs = concat (map (\<lambda>r. map (\<lambda>(i, k). (i = ix, k)) (enumerate 0 (row_cells r))) rs)"

lemma row_flags_keys: "map snd (row_flags ix rs) = keys_of rs"
proof -
  have "map snd (concat (map (\<lambda>(i, r). map (Pair (i = ix)) (row_cells r)) (enumerate n rs))) = keys_of rs" for n
    by (induction rs arbitrary: n) (auto simp: map_concat comp_def)
  then show ?thesis by (simp add: row_flags_def)
qed

lemma snd_enumerate_flag: "map snd (map (\<lambda>(i, k). (f i, k)) (enumerate n xs)) = xs"
  by (induction xs arbitrary: n) auto

lemma col_flags_keys: "map snd (col_flags ix rs) = keys_of rs"
  by (induction rs) (simp_all add: col_flags_def snd_enumerate_flag del: map_map)

lemma selectRow_flags:
  fixes t :: "'p table"
  shows "selectRow_table ix t =
     (if \<not> editable t then return t
      else set_cells t (fold_result (\<lambda>(b, k). set_selected b k) (row_flags ix (rows t)) (cells t)))"
proof -
  have "(\<lambda>(i, row). fold_result (set_selected (i = ix) :: string \<Rightarrow> (string, 'p cell) rec \<Rightarrow> _) (row_cells row)) =
        (\<lambda>x. fold_result (\<lambda>(b, k). set_selected b k) ((\<lambda>(i, r). map (Pair (i = ix)) (row_cells r)) x))"
    by (auto simp: fun_eq_iff fold_result_map)
  then have "fold_result (\<lambda>(i, row). fold_result (set_selected (i = ix)) (row_cells row)) xs cs =
      fold_result (\<lambda>(b, k). set_selected b k) (concat (map (\<lambda>(i, r). map (Pair (i = ix)) (row_cells r)) xs)) cs"
    for xs :: "(nat \<times> row_layout) list" and cs :: "(string, 'p cell) rec"
    by (subst fold_result_concat [symmetric]) (erule arg_cong [where f = "\<lambda>f. fold_result f xs cs"])
  then show ?thesis unfolding selectRow_table_def row_flags_def by simp
qed

lemma selectCol_flags:
  fixes t :: "'p table"
  shows "selectCol_table ix t =
     (if \<not> editable t then return t
      else set_cells t (fold_result (\<lambda>(b, k). set_selected b k) (col_flags ix (rows t)) (cells t)))"
proof -
  have "(\<lambda>row. fold_result (\<lambda>(i, k). set_selected (i = ix) k :: (string, 'p cell) rec \<Rightarrow> _) (enumerate 0 (row_cells row))) =
        (\<lambda>r. fold_result (\<lambda>(b, k). set_selected b k) (map (\<lambda>(i, k). (i = ix, k)) (enumerate 0 (row_cells r))))"
    by (rule ext, rule ext, subst fold_result_map) (simp add: case_prod_beta')
  then have "fold_result (\<lambda>row. fold_result (\<lambda>(i, k). set_selected (i = ix) k) (enumerate 0 (row_cells row))) xs cs =
      fold_result (\<lambda>(b, k). set_selected b k)
        (concat (map (\<lambda>r. map (\<lambda>(i, k). (i = ix, k)) (enumerate 0 (row_cells r))) xs)) cs"
    for xs :: "row_layout list" and cs :: "(string, 'p cell) rec"
    by (subst fold_result_concat [symmetric]) (erule arg_cong [where f = "\<lambda>f. fold_result f xs cs"])
  then show ?thesis unfolding selectCol_table_def col_flags_def by simp
qed

lemma flags_total:
  assumes "table_wf t" and "map snd l = keys_of (rows t)"
  shows "\<exists>cs. set_cells t (fold_result (\<lambda>(b, k). set_selected b k) l (cells t)) = Inr (t\<lparr>cells := cs\<rparr>) \<and>
    rec_keys cs = rec_keys (cells t) \<and> table_wf (t\<lparr>cells := cs\<rparr>) \<and>
    (\<forall>(b, k)\<in>set l. rec_get cs k = map_option (selected_update (\<lambda>_. b)) (rec_get (cells t) k))"
proof -
  have l: "snd ` set l = set (keys_of (rows t))" using arg_cong [OF assms(2), of set] by simp
  note wf = assms(1) [unfolded table_wf_def]
  from wf obtain cs where
    cs: "fold_result (\<lambda>(b, k). set_selected b k) l (cells t) = Inr cs" "rec_keys cs = rec_keys (cells t)"
      "\<forall>(b, k)\<in>set l. rec_get cs k = map_option (selected_update (\<lambda>_. b)) (rec_get (cells t) k)"
    using assign_selected [of l "cells t"] l assms(2) by (auto simp: cells_ok_def)
  have "ckey c = k" if "(k, c) \<in> set cs" for k c
  proof -
    have get: "rec_get cs k = Some c"
      using that wf cs(2) rec_get_wf_iff [of cs k c] by (auto simp: cells_ok_def rec_wf_def)
    then have "k \<in> snd ` set l" using cs(2) l wf rec_get_keys [of cs k] by (auto simp: cells_ok_def)
    then obtain b where "(b, k) \<in> set l" by auto
    with get cs(3) obtain c' where "rec_get (cells t) k = Some c'" "c = c'\<lparr>selected := b\<rparr>"
      by (auto dest!: bspec)
    with cells_ok_key [of "keys_of (rows t)" "cells t" k c'] wf show ?thesis by simp
  qed
  with wf cs(2) have "table_wf (t\<lparr>cells := cs\<rparr>)" by (auto simp: table_wf_def cells_ok_def rec_wf_def)
  with cs show ?thesis by (auto simp: set_cells_def)
qed


section \<open>Positions of a well-formed table\<close>

definition on_grid :: "'p table \<Rightarrow> nat \<Rightarrow> nat \<Rightarrow> string \<Rightarrow> bool" where
  "on_grid t x y k \<longleftrightarrow> y < length (rows t) \<and> x < length (row_cells (rows t ! y)) \<and> row_cells (rows t ! y) ! x = k"

lemma keys_of_on_grid: "k \<in> set (keys_of (rows t)) \<longleftrightarrow> (\<exists>x y. on_grid t x y k)"
  by (auto simp: keys_of_def on_grid_def in_set_conv_nth) (metis in_set_conv_nth)+

lemma distinct_keys_row:
  assumes "distinct (keys_of rs)" and "i < length rs" and "j < length rs"
    and "k \<in> set (row_cells (rs ! i))" and "k \<in> set (row_cells (rs ! j))"
  shows "i = j"
  using assms
proof (induction rs arbitrary: i j)
  case (Cons r rs)
  have sub: "set (row_cells (rs ! m)) \<subseteq> set (keys_of rs)" if "m < length rs" for m
    using nth_mem [OF that] by (auto simp: keys_of_def)
  from Cons.prems have rs: "distinct (keys_of rs)" and disj: "set (row_cells r) \<inter> set (keys_of rs) = {}" by auto
  show ?case
  proof (cases i; cases j)
    fix i' j' assume ij: "i = Suc i'" "j = Suc j'"
    with Cons.prems have "i' = j'" by (intro Cons.IH [OF rs]) auto
    with ij show ?thesis by simp
  qed (use Cons.prems sub disj in \<open>auto\<close>)
qed simp

lemma distinct_keys_of_row: "distinct (keys_of rs) \<Longrightarrow> i < length rs \<Longrightarrow> distinct (row_cells (rs ! i))"
  by (auto simp: keys_of_def distinct_concat_iff)

lemma on_grid_unique:
  assumes "distinct (keys_of (rows t))" and "on_grid t x y k" and "on_grid t x' y' k"
  shows "x' = x \<and> y' = y"
proof -
  have "k \<in> set (row_cells (rows t ! y))" "k \<in> set (row_cells (rows t ! y'))"
    using assms(2,3) unfolding on_grid_def by (metis nth_mem)+
  then have "y' = y"
    using assms by (intro distinct_keys_row [of "rows t" y' y k]) (simp_all add: on_grid_def)
  with assms distinct_keys_of_row [OF assms(1), of y] show ?thesis
    by (auto simp: on_grid_def nth_eq_iff_index_eq)
qed

lemma findCellPosition_sound: "findCellPosition t k = Some p \<Longrightarrow> on_grid t (nat (fst p)) (nat (snd p)) k \<and> 0 \<le> fst p \<and> 0 \<le> snd p"
  by (auto simp: findCellPosition_def on_grid_def find_index_Some_iff split: option.splits)

lemma findCellPosition_None: "findCellPosition t k = None \<longleftrightarrow> k \<notin> set (keys_of (rows t))"
proof
  assume none: "findCellPosition t k = None"
  show "k \<notin> set (keys_of (rows t))"
  proof (cases "find_index (\<lambda>row. k \<in> set (row_cells row)) (rows t)")
    case None
    then show ?thesis by (auto simp: find_index_None_iff keys_of_def)
  next
    case (Some j)
    then have "k \<in> set (row_cells (rows t ! j))" by (simp add: find_index_Some_iff)
    with none Some show ?thesis by (auto simp: findCellPosition_def find_index_None_iff split: option.splits)
  qed
next
  assume k: "k \<notin> set (keys_of (rows t))"
  show "findCellPosition t k = None"
  proof (rule ccontr)
    assume "findCellPosition t k \<noteq> None"
    then obtain p where "findCellPosition t k = Some p" by blast
    from findCellPosition_sound [OF this] k show False unfolding keys_of_on_grid by blast
  qed
qed

lemma findCellPosition_iff:
  assumes "distinct (keys_of (rows t))"
  shows "findCellPosition t k = Some (int x, int y) \<longleftrightarrow> on_grid t x y k"
proof
  assume "findCellPosition t k = Some (int x, int y)"
  from findCellPosition_sound [OF this] show "on_grid t x y k" by simp
next
  assume g: "on_grid t x y k"
  then have "findCellPosition t k \<noteq> None" unfolding findCellPosition_None keys_of_on_grid by blast
  then obtain p where p: "findCellPosition t k = Some p" by blast
  from findCellPosition_sound [OF p] on_grid_unique [OF assms g, of "nat (fst p)" "nat (snd p)"]
  show "findCellPosition t k = Some (int x, int y)" by (cases p) (auto simp: p)
qed

lemma getCellAt_on_grid: "on_grid t x y k \<Longrightarrow> getCellAt t (int x, int y) = return (rec_get (cells t) k)"
  by (simp add: getCellAt_def on_grid_def)

lemma on_grid_rect: "table_wf t \<Longrightarrow> x < length (columns t) \<Longrightarrow> y < length (rows t) \<Longrightarrow> \<exists>k. on_grid t x y k"
  by (auto simp: on_grid_def table_wf_def rectangular_def)

lemma on_grid_bounds: "table_wf t \<Longrightarrow> on_grid t x y k \<Longrightarrow> x < length (columns t) \<and> y < length (rows t)"
  by (auto simp: on_grid_def table_wf_def rectangular_def)

section \<open>Pasting\<close>

lemma paste_at_wf:
  assumes "table_wf t" and "paste_at cell pos t = Inr t'"
  shows "table_wf t' \<and> rows t' = rows t \<and> columns t' = columns t \<and>
         set (rec_keys (cells t')) = set (rec_keys (cells t))"
proof -
  from assms(2) obtain e where e: "getCellAt t pos = Inr e"
    by (auto simp: paste_at_def bind_result_eq_Inr)
  show ?thesis
  proof (cases e)
    case None
    with assms e show ?thesis by (simp add: paste_at_def)
  next
    case (Some ex)
    with e obtain k where k: "rec_get (cells t) k = Some ex"
      by (auto simp: getCellAt_def type_error_def split: option.splits)
    with assms(1) cells_ok_key [of "keys_of (rows t)" "cells t" k ex]
    have key: "ckey ex = k" "k \<in> set (keys_of (rows t))" by (auto simp: table_wf_def)
    have "t' = t\<lparr>cells := rec_set k (cell\<lparr>ckey := k\<rparr>) (cells t)\<rparr>"
      using assms(2) e Some key by (simp add: paste_at_def)
    with key assms(1) cells_ok_set [of "keys_of (rows t)" "cells t" k "cell\<lparr>ckey := k\<rparr>"] show ?thesis
      by (simp add: table_wf_def) (simp add: cells_ok_def insert_absorb)
  qed
qed

lemma insert_row_end: "insert_row (length (rows t)) r t = t\<lparr>rows := rows t @ [r]\<rparr>"
  by (simp add: insert_row_def splice_at_def)

section \<open>Sample tables\<close>

definition sample_table :: "nat list \<Rightarrow> nat \<Rightarrow> nat \<Rightarrow> nat \<Rightarrow> unit table" where
  "sample_table sel h w l =
     (let key = (\<lambda>i. replicate (Suc i) CHR ''k'')
      in \<lparr>tb_key = ''t'', lastSelected = Some (key l), editable = True,
          rows = map (\<lambda>y. \<lparr>row_size = 36, row_cells = map (\<lambda>x. key (y * w + x)) [0..<w]\<rparr>) [0..<h],
          columns = replicate w 72,
          cells = map (\<lambda>i. (key i, \<lparr>ckey = key i, variant = ''value'', selected = i \<in> set sel, props = ()\<rparr>)) [0..<h * w],
          remoteCreated = False\<rparr>)"

definition sample_ids :: "nat \<Rightarrow> string" where
  "sample_ids n = replicate n CHR ''a''"

lemma inj_sample_ids: "inj sample_ids"
  by (rule injI) (metis length_replicate sample_ids_def)

lemma fresh_sample: "fresh sample_ids n (cells (sample_table sel h w l))"
proof -
  have "sample_ids m \<noteq> replicate (Suc i) CHR ''k''" for m i
    by (cases m) (simp_all add: sample_ids_def)
  then show ?thesis by (auto simp: fresh_def sample_table_def rec_keys_def)
qed

end
