(* ===== verification/Table_Clear.thy ===== *)
theory Table_Clear
  imports Table_Grid
begin

text \<open>
  Clearing the selection of a table: the rows and columns that are selected as a whole go, and what
  else is selected is reset.
\<close>

section \<open>Clearing\<close>

definition is_selected :: "(string, 'p cell) rec \<Rightarrow> string \<Rightarrow> bool" where
  "is_selected cs k = (case rec_get cs k of Some c \<Rightarrow> selected c | None \<Rightarrow> False)"

definition full_row :: "(string, 'p cell) rec \<Rightarrow> row_layout \<Rightarrow> bool" where
  "full_row cs r = list_all (is_selected cs) (row_cells r)"

definition full_column :: "(string, 'p cell) rec \<Rightarrow> row_layout list \<Rightarrow> nat \<Rightarrow> bool" where
  "full_column cs rs i = list_all (\<lambda>r. is_selected cs (row_cells r ! i)) rs"

lemma every_selected_total:
  assumes "set ks \<subseteq> set (rec_keys cs)"
  shows "every_selected cs (map Some ks) = Inr (list_all (is_selected cs) ks)"
  using assms
proof (induction ks)
  case (Cons k ks)
  then have "rec_get cs k \<noteq> None" unfolding rec_get_keys by simp
  with Cons show ?case by (auto simp: is_selected_def)
qed simp

lemma is_selected_delete: "k \<notin> set ks \<Longrightarrow> is_selected (delete_keys ks cs) k = is_selected cs k"
  by (simp add: is_selected_def)

lemma full_row_delete:
  assumes "set (row_cells r) \<inter> set ks = {}"
  shows "full_row (delete_keys ks cs) r = full_row cs r"
  using assms by (auto simp: full_row_def list_all_iff is_selected_delete disjoint_iff)

lemma clear_rows_total:
  assumes "distinct (keys_of rs)" and "set (keys_of rs) \<subseteq> set (rec_keys cs)"
  shows "clear_rows rs cs =
    Inr (filter (\<lambda>r. \<not> full_row cs r) rs, delete_keys (keys_of (filter (full_row cs) rs)) cs)"
  using assms
proof (induction rs arbitrary: cs)
  case (Cons r rs)
  have every: "every_selected cs (map Some (row_cells r)) = Inr (full_row cs r)"
    using Cons.prems by (simp add: every_selected_total full_row_def)
  let ?cs = "delete_keys (row_cells r) cs"
  have same: "full_row ?cs r' = full_row cs r'" if "r' \<in> set rs" for r'
    using Cons.prems(1) that by (intro full_row_delete) (auto simp: keys_of_def)
  have "clear_rows rs ?cs = Inr (filter (\<lambda>r. \<not> full_row ?cs r) rs, delete_keys (keys_of (filter (full_row ?cs) rs)) ?cs)"
    using Cons.prems by (intro Cons.IH) auto
  also have "filter (\<lambda>r. \<not> full_row ?cs r) rs = filter (\<lambda>r. \<not> full_row cs r) rs"
    using same by (auto intro: filter_cong)
  also have "filter (full_row ?cs) rs = filter (full_row cs) rs"
    using same by (auto intro: filter_cong)
  finally show ?case
    using Cons every by (simp add: delete_keys_def [of "row_cells r", symmetric])
qed simp

lemma keys_of_partition:
  "mset (keys_of rs) = mset (keys_of (filter (\<lambda>r. \<not> P r) rs)) + mset (keys_of (filter P rs))"
  by (induction rs) auto

lemma colIdxToDelete_total:
  assumes "rectangular rs w" and "set (keys_of rs) \<subseteq> set (rec_keys cs)" and "\<forall>i\<in>set is. i < w"
  shows "colIdxToDelete rs cs is = Inr (filter (full_column cs rs) is)"
  using assms(3)
proof (induction "is")
  case (Cons i "is")
  have "map (\<lambda>r. nth_opt (row_cells r) (int i)) rs = map Some (map (\<lambda>r. row_cells r ! i) rs)"
    using assms(1) Cons.prems by (auto simp: rectangular_def)
  moreover have "set (map (\<lambda>r. row_cells r ! i) rs) \<subseteq> set (rec_keys cs)"
    using assms(1,2) Cons.prems by (fastforce simp: rectangular_def keys_of_def)
  ultimately have "full_col rs cs i = Inr (full_column cs rs i)"
    by (simp only: full_col_def every_selected_total full_column_def) (simp add: list_all_iff)
  with Cons show ?case by simp
qed simp

lemma clear_cols_wf:
  assumes "clear_cols del is (rs, cs) = Inr (szs, rs', cs')" and "cells_ok (keys_of rs) cs"
    and "rectangular rs (p + length is)"
  shows "cells_ok (keys_of rs') cs' \<and> rectangular rs' (p + length szs) \<and>
         set (rec_keys cs') \<subseteq> set (rec_keys cs)"
  using assms
proof (induction del "is" "(rs, cs)" arbitrary: p rs cs szs rs' cs' rule: clear_cols.induct)
  case (2 del i sz "is" rs cs)
  show ?case
  proof (cases "i \<in> set del")
    case False
    with "2.prems"(1) obtain szs' where szs: "clear_cols del is (rs, cs) = Inr (szs', rs', cs')" "szs = sz # szs'"
      by (auto simp: bind_result_eq_Inr)
    from "2.hyps"(1) [OF _ szs(1) "2.prems"(2), of "Suc p"] False "2.prems"(3) szs(2) show ?thesis by simp
  next
    case True
    with "2.prems"(1) obtain rs1 cs1 where del: "delete_col i rs cs = Inr (rs1, cs1)"
      and rest: "clear_cols del is (rs1, cs1) = Inr (szs, rs', cs')"
      by (auto simp: bind_result_eq_Inr)
    have step: "cells_ok (keys_of rs1) cs1 \<and> rectangular rs1 (p + length is) \<and> set (rec_keys cs1) \<subseteq> set (rec_keys cs)"
    proof (cases "rs = []")
      case True
      with del "2.prems"(2) show ?thesis by (auto simp: rectangular_def)
    next
      case False
      with delete_col_spec [OF del] "2.prems"(3) have "i < p + length ((i, sz) # is)"
        by (cases rs) (auto simp: rectangular_def)
      from delete_col_wf [OF del "2.prems"(2,3) this] show ?thesis by simp
    qed
    then have ok1: "cells_ok (keys_of rs1) cs1" and rect1: "rectangular rs1 (p + length is)"
      and sub: "set (rec_keys cs1) \<subseteq> set (rec_keys cs)" by blast+
    from True have "\<not> i \<notin> set del" by simp
    from "2.hyps"(2) [OF this rest ok1 rect1] sub show ?thesis by blast
  qed
qed simp

lemma clearSelected_wf:
  assumes "table_wf t" and "clearSelected_table zero t = Inr t'"
  shows "table_wf t' \<and> set (rec_keys (cells t')) \<subseteq> set (rec_keys (cells t))"
proof -
  note wf = assms(1) [unfolded table_wf_def]
  let ?rs = "filter (\<lambda>r. \<not> full_row (cells t) r) (rows t)"
  let ?cs = "delete_keys (keys_of (filter (full_row (cells t)) (rows t))) (cells t)"
  have "clear_rows (rows t) (cells t) = Inr (?rs, ?cs)"
    using wf by (intro clear_rows_total) (auto simp: cells_ok_def)
  with assms(2) obtain del szs rs' cs' where
    cols: "clear_cols del (enumerate 0 (columns t)) (?rs, ?cs) = Inr (szs, rs', cs')"
    and t': "t' = t\<lparr>rows := rs', columns := szs, cells := mapValues (reset_selected zero) cs'\<rparr>"
    by (auto simp: clearSelected_table_def bind_result_eq_Inr)
  have "cells_ok (keys_of ?rs) ?cs" using wf keys_of_partition by (blast intro: cells_ok_delete)
  moreover have "rectangular ?rs (0 + length (enumerate 0 (columns t)))" using wf by (auto simp: rectangular_def)
  ultimately have "cells_ok (keys_of rs') cs' \<and> rectangular rs' (0 + length szs) \<and> set (rec_keys cs') \<subseteq> set (rec_keys ?cs)"
    by (rule clear_cols_wf [OF cols])
  then show ?thesis
    by (auto simp: t' table_wf_def intro!: cells_ok_mapValues simp: reset_selected_def)
qed

lemma nths_cong_length: "(\<And>j. j < length xs \<Longrightarrow> j \<in> A \<longleftrightarrow> j \<in> B) \<Longrightarrow> nths xs A = nths xs B"
  unfolding nths_def by (rule arg_cong [where f = "map fst"], rule filter_cong) (auto simp: in_set_zip)

lemma nths_all_length: "(\<And>j. j < length xs \<Longrightarrow> j \<in> A) \<Longrightarrow> nths xs A = xs"
  using nths_cong_length [of xs A UNIV] by (simp add: nths_all)

lemma splice_nths: "i < length xs \<Longrightarrow> splice_at i 1 [] xs = nths xs (- {i})"
proof (induction xs arbitrary: i)
  case (Cons x xs)
  show ?case
  proof (cases i)
    case 0
    then have "nths xs {j. Suc j \<in> - {i}} = xs" by (intro nths_all_length) auto
    with 0 show ?thesis by (simp add: splice_at_def nths_Cons)
  next
    case (Suc m)
    then have "{j. Suc j \<in> - {i}} = - {m}" by auto
    with Suc Cons show ?thesis by (simp add: splice_at_def nths_Cons)
  qed
qed simp

lemma clear_cols_skip:
  assumes "set del \<inter> fst ` set A = {}"
  shows "clear_cols del (A @ B) s = bind_result (clear_cols del B s) (\<lambda>(szs, r). return (map snd A @ szs, r))"
  using assms
proof (induction A)
  case Nil
  show ?case by (cases "clear_cols del B s") auto
next
  case (Cons a A)
  obtain rs cs where s: "s = (rs, cs)" by force
  obtain i sz where a: "a = (i, sz)" by force
  from Cons have "clear_cols del (A @ B) s = bind_result (clear_cols del B s) (\<lambda>(szs, r). return (map snd A @ szs, r))"
    and "i \<notin> set del" by (auto simp: a)
  then show ?case by (cases "clear_cols del B s") (auto simp: s a)
qed

lemma clear_cols_one:
  assumes "i < length cols" and "\<forall>r\<in>set rs. i < length (row_cells r)"
  shows "clear_cols [i] (enumerate 0 cols) (rs, cs) =
    Inr (splice_at i 1 [] cols, map (\<lambda>r. r\<lparr>row_cells := splice_at i 1 [] (row_cells r)\<rparr>) rs,
         delete_keys (map (\<lambda>r. row_cells r ! i) rs) cs)"
proof -
  let ?A = "enumerate 0 (take i cols)" and ?B = "enumerate (Suc i) (drop (Suc i) cols)"
  let ?d = "(map (\<lambda>r. r\<lparr>row_cells := splice_at i 1 [] (row_cells r)\<rparr>) rs, delete_keys (map (\<lambda>r. row_cells r ! i) rs) cs)"
  have "enumerate 0 cols = ?A @ (i, cols ! i) # ?B"
    using arg_cong [OF id_take_nth_drop [OF assms(1)], of "enumerate 0"] assms(1)
    by (simp add: enumerate_append_eq)
  moreover have "set [i] \<inter> fst ` set ?A = {}" "set [i] \<inter> fst ` set ?B = {}"
    by (auto simp: in_set_enumerate_eq)
  moreover have "clear_cols [i] ?B ?d = Inr (map snd ?B, ?d)"
    using clear_cols_skip [of "[i]" ?B "[]" ?d] calculation(3) by simp
  ultimately show ?thesis
    using delete_col_total [OF assms(2), of cs]
    by (simp add: clear_cols_skip splice_at_def)
qed

lemma clear_cols_nothing: "clear_cols [] (enumerate 0 cols) s = Inr (cols, s)"
  using clear_cols_skip [of "[]" "enumerate 0 cols" "[]" s] by (cases s) simp

lemma clear_cols_all: "fst ` set is \<subseteq> set del \<Longrightarrow> clear_cols del is ([], cs) = Inr ([], [], cs)"
  by (induction "is") auto

definition kept_rows :: "'p table \<Rightarrow> row_layout list" where
  "kept_rows t = filter (\<lambda>r. \<not> full_row (cells t) r) (rows t)"

definition cleared_columns :: "'p table \<Rightarrow> nat list" where
  "cleared_columns t = filter (full_column (cells t) (kept_rows t)) [0..<length (columns t)]"

lemma delete_keys_other:
  assumes "cells_ok ks cs" and "mset ks = mset ks' + mset del" and "k \<in> set ks'"
  shows "rec_get (delete_keys del cs) k = rec_get cs k"
proof -
  from assms(2) have "mset ks = mset (ks' @ del)" by simp
  from mset_eq_imp_distinct_iff [OF this] assms(1,3) have "k \<notin> set del" by (auto simp: cells_ok_def)
  then show ?thesis by simp
qed

lemma clear_stages:
  assumes "table_wf t"
  shows "\<exists>cs. clearSelected_table zero t =
      bind_result (clear_cols (cleared_columns t) (enumerate 0 (columns t)) (kept_rows t, cs))
        (\<lambda>(szs, rs', cs'). return (t\<lparr>rows := rs', columns := szs, cells := mapValues (reset_selected zero) cs'\<rparr>)) \<and>
    rectangular (kept_rows t) (length (columns t)) \<and>
    cells_ok (keys_of (kept_rows t)) cs \<and>
    (\<forall>k\<in>set (keys_of (kept_rows t)). rec_get cs k = rec_get (cells t) k)"
proof -
  note wf = assms [unfolded table_wf_def]
  let ?del = "keys_of (filter (full_row (cells t)) (rows t))"
  let ?cs = "delete_keys ?del (cells t)"
  have rows: "clear_rows (rows t) (cells t) = Inr (kept_rows t, ?cs)"
    unfolding kept_rows_def using wf by (intro clear_rows_total) (auto simp: cells_ok_def)
  have part: "mset (keys_of (rows t)) = mset (keys_of (kept_rows t)) + mset ?del"
    unfolding kept_rows_def by (rule keys_of_partition)
  have ok: "cells_ok (keys_of (kept_rows t)) ?cs" using wf part by (blast intro: cells_ok_delete)
  have rect: "rectangular (kept_rows t) (length (columns t))"
    using wf by (auto simp: rectangular_def kept_rows_def)
  have same: "\<forall>k\<in>set (keys_of (kept_rows t)). rec_get ?cs k = rec_get (cells t) k"
    using wf part delete_keys_other by blast
  have col: "full_column ?cs (kept_rows t) i = full_column (cells t) (kept_rows t) i" if "i < length (columns t)" for i
  proof -
    have "is_selected ?cs (row_cells r ! i) = is_selected (cells t) (row_cells r ! i)" if r: "r \<in> set (kept_rows t)" for r
    proof -
      have "row_cells r ! i \<in> set (keys_of (kept_rows t))"
        using r rect \<open>i < length (columns t)\<close> by (auto simp: keys_of_def rectangular_def intro!: bexI [of _ r])
      with same show ?thesis by (simp add: is_selected_def)
    qed
    then show ?thesis by (auto simp: full_column_def list_all_iff)
  qed
  have "colIdxToDelete (kept_rows t) ?cs [0..<length (columns t)] =
      Inr (filter (full_column ?cs (kept_rows t)) [0..<length (columns t)])"
    using ok by (intro colIdxToDelete_total [OF rect]) (auto simp: cells_ok_def)
  also have "filter (full_column ?cs (kept_rows t)) [0..<length (columns t)] = cleared_columns t"
    unfolding cleared_columns_def using col by (intro filter_cong) auto
  finally show ?thesis using rows ok rect same by (intro exI [of _ ?cs]) (simp add: clearSelected_table_def)
qed

definition cleared :: "'p \<Rightarrow> 'p table \<Rightarrow> 'p table \<Rightarrow> bool" where
  "cleared zero t t' \<longleftrightarrow>
     map row_cells (rows t') = map (\<lambda>r. nths (row_cells r) (- set (cleared_columns t))) (kept_rows t) \<and>
     columns t' = nths (columns t) (- set (cleared_columns t)) \<and>
     (\<forall>k\<in>set (keys_of (rows t')). rec_get (cells t') k = map_option (reset_selected zero) (rec_get (cells t) k))"

lemma clearSelected_spec:
  assumes "table_wf t" and "length (cleared_columns t) \<le> 1 \<or> kept_rows t = []"
  shows "\<exists>t'. clearSelected_table zero t = Inr t' \<and> cleared zero t t'"
proof -
  from clear_stages [OF assms(1), of zero] obtain cs where
    stage: "clearSelected_table zero t =
      bind_result (clear_cols (cleared_columns t) (enumerate 0 (columns t)) (kept_rows t, cs))
        (\<lambda>(szs, rs', cs'). return (t\<lparr>rows := rs', columns := szs, cells := mapValues (reset_selected zero) cs'\<rparr>))"
    and rect: "rectangular (kept_rows t) (length (columns t))" and ok: "cells_ok (keys_of (kept_rows t)) cs"
    and same: "\<forall>k\<in>set (keys_of (kept_rows t)). rec_get cs k = rec_get (cells t) k" by blast
  consider (none) "cleared_columns t = []" | (one) i where "cleared_columns t = [i]" | (empty) "kept_rows t = []"
    using assms(2) by (cases "cleared_columns t"; cases "tl (cleared_columns t)") auto
  then show ?thesis
  proof cases
    case none
    with stage same show ?thesis by (simp add: clear_cols_nothing cleared_def nths_all)
  next
    case one
    have "i \<in> set (cleared_columns t)" unfolding one by simp
    then have i: "i < length (columns t)" unfolding cleared_columns_def by simp
    let ?rs = "map (\<lambda>r. r\<lparr>row_cells := splice_at i 1 [] (row_cells r)\<rparr>) (kept_rows t)"
    let ?del = "map (\<lambda>r. row_cells r ! i) (kept_rows t)"
    have lens: "\<forall>r\<in>set (kept_rows t). i < length (row_cells r)" using rect i by (simp add: rectangular_def)
    have part: "mset (keys_of (kept_rows t)) = mset (keys_of ?rs) + mset ?del" by (rule delete_col_keys [OF lens])
    have "rec_get (delete_keys ?del cs) k = rec_get (cells t) k" if "k \<in> set (keys_of ?rs)" for k
    proof -
      have "set (keys_of (kept_rows t)) = set (keys_of ?rs) \<union> set ?del"
        using arg_cong [OF part, of set_mset] by (simp only: set_mset_mset set_mset_union)
      then have "k \<in> set (keys_of (kept_rows t))" using that by blast
      then show ?thesis using same delete_keys_other [OF ok part that] by simp
    qed
    then show ?thesis
      using stage one i lens by (simp add: clear_cols_one cleared_def splice_nths)
  next
    case empty
    then have "set (cleared_columns t) = {0..<length (columns t)}"
      by (auto simp: cleared_columns_def full_column_def)
    moreover have "nths (columns t) (- {0..<length (columns t)}) = nths (columns t) {}"
      by (rule nths_cong_length) auto
    moreover have "clear_cols (cleared_columns t) (enumerate 0 (columns t)) ([], cs) = Inr ([], [], cs)"
      by (rule clear_cols_all) (auto simp: in_set_enumerate_eq calculation(1))
    ultimately show ?thesis using stage empty by (simp add: cleared_def)
  qed
qed

section \<open>Properties\<close>

text \<open>
  Clearing a well-formed table in which at most one of the columns that remain after the selected rows
  is selected as a whole removes exactly the rows and columns that are selected as a whole, resets the
  cells that remain selected and leaves every other cell as it was.
\<close>

theorem clearSelected_clears:
  assumes "table_wf t" and "length (cleared_columns t) \<le> 1 \<or> kept_rows t = []"
  shows "\<exists>t'. clearSelected_table zero t = Inr t' \<and> cleared zero t t'"
  by (rule clearSelected_spec [OF assms])

theorem clearSelected_clears_witness:
  "cleared_columns (sample_table [0, 3, 6, 7, 8] 3 3 0) = [0] \<and>
   (\<exists>t'. clearSelected_table () (sample_table [0, 3, 6, 7, 8] 3 3 0) = Inr t' \<and> cleared () (sample_table [0, 3, 6, 7, 8] 3 3 0) t')"
proof -
  have "table_wf (sample_table [0, 3, 6, 7, 8] 3 3 0)" and c: "cleared_columns (sample_table [0, 3, 6, 7, 8] 3 3 0) = [0]"
    by code_simp+
  from clearSelected_clears [OF this(1)] c show ?thesis by simp
qed

text \<open>
  Clearing loses data when two columns are selected as a whole: in a table of two rows and three columns with the first two
  columns selected, the first and the third column are deleted, and the second, selected one stays.
\<close>

theorem clearSelected_loses_unselected:
  "map row_cells (rows (sample_table [0, 1, 3, 4] 2 3 0)) = [[''k'', ''kk'', ''kkk''], [''kkkk'', ''kkkkk'', ''kkkkkk'']] \<and>
   map_option (\<lambda>t. map row_cells (rows t)) (case clearSelected_table () (sample_table [0, 1, 3, 4] 2 3 0) of Inl _ \<Rightarrow> None | Inr t \<Rightarrow> Some t) =
     Some [[''kk''], [''kkkkk'']]"
  by code_simp

end
