(* ===== verification/Table_Copy.thy ===== *)
theory Table_Copy
  imports Table_Clear
begin

text \<open>
  Copying and pasting the cells of a table: the search for the contiguous region is the connected
  component of the last selected cell, the buffer holds its cells with their positions, and a paste
  writes each of them at its displaced position in a table that grows as far as it has to.
\<close>

section \<open>The contiguous region\<close>

definition contiguous :: "position set \<Rightarrow> (position \<times> position) set" where
  "contiguous P = {(p, q). p \<in> P \<and> q \<in> P \<and> q \<in> set (neighbors p)}"


lemma positionMap_index:
  assumes "\<And>p j. rec_get m p = Some j \<Longrightarrow> j < length qs \<and> qs ! j = p"
  shows "rec_get (positionMap ps (length qs) m) p = Some j \<Longrightarrow> j < length (qs @ ps) \<and> (qs @ ps) ! j = p"
  using assms
proof (induction ps arbitrary: qs m)
  case (Cons a ps)
  let ?m = "rec_set a (length qs) m"
  have m: "j < length (qs @ [a]) \<and> (qs @ [a]) ! j = p" if "rec_get ?m p = Some j" for p j
    using that Cons.prems(2) [of p j] by (auto simp: nth_append split: if_splits)
  have "rec_get (positionMap ps (length (qs @ [a])) ?m) p = Some j" using Cons.prems(1) by simp
  from Cons.IH [OF this m] show ?case by simp
qed simp

lemma positionMap_keys: "set (rec_keys (positionMap ps i m)) = set ps \<union> set (rec_keys m)"
  by (induction ps i m rule: positionMap.induct) auto

text \<open>
  The invariant of the search: the visited points that the map has are the region, in order and once
  each; every neighbour of a point of the region is visited or queued; everything queued or visited is
  reachable, up to its last step.
\<close>

lemma region_loop_spec:
  assumes "map fst region = rev (filter (\<lambda>p. rec_has pm p) visited)" and "distinct visited"
    and "\<forall>p\<in>set (map fst region). set (neighbors p) \<subseteq> set visited \<union> set queue"
    and "\<forall>(p, i)\<in>set region. rec_get pm p = Some i"
    and "s \<in> set visited \<union> set queue"
    and "\<forall>p\<in>set visited \<union> set queue. rec_has pm p \<longrightarrow> (s, p) \<in> (contiguous {q. rec_has pm q})\<^sup>*"
  shows "distinct (map fst (region_loop pm visited queue region)) \<and>
         (\<forall>(p, i)\<in>set (region_loop pm visited queue region). rec_get pm p = Some i) \<and>
         fst ` set (region_loop pm visited queue region) =
           {p. rec_has pm s \<and> (s, p) \<in> (contiguous {q. rec_has pm q})\<^sup>*}"
  using assms
proof (induction pm visited queue region rule: region_loop.induct)
  case (1 pm visited region)
  let ?R = "(contiguous {q. rec_has pm q})\<^sup>*"
  have reg: "fst ` set region = {p\<in>set visited. rec_has pm p}"
    using arg_cong [OF 1(1), of set] by auto
  have closed: "p \<in> fst ` set region" if "(s, p) \<in> ?R" and "rec_has pm s" for p
    using that
  proof (induction rule: rtrancl_induct)
    case base
    with 1(5) reg show ?case by auto
  next
    case (step p q)
    then have p: "p \<in> fst ` set region" and q: "q \<in> set (neighbors p)" "rec_has pm q"
      by (simp_all add: contiguous_def)
    from p q(1) 1(3) have "q \<in> set visited" by auto
    with q(2) reg show ?case by simp
  qed
  have start: "rec_has pm s" if "(s, p) \<in> ?R" "rec_has pm p" for p
    using that(1)
  proof (cases rule: converse_rtranclE)
    case base
    with that(2) show ?thesis by simp
  next
    case (step y)
    then show ?thesis by (simp add: contiguous_def)
  qed
  have "distinct (map fst region)" using 1(1,2) by (metis distinct_filter distinct_rev)
  moreover have "rec_has pm s \<and> (s, p) \<in> ?R" if "p \<in> fst ` set region" for p
  proof -
    have "(s, p) \<in> ?R" "rec_has pm p" using that 1(6) reg by simp_all
    then show ?thesis using start by blast
  qed
  ultimately show ?case using 1(4) closed unfolding region_loop.simps by blast
next
  case (2 pm visited current queue region)
  show ?case
  proof (cases "current \<in> set visited")
    case True
    with 2 show ?thesis by (simp add: insert_absorb)
  next
    case new: False
    show ?thesis
    proof (cases "rec_get pm current")
      case None
      have "distinct (map fst (region_loop pm (current # visited) queue region)) \<and>
         (\<forall>(p, i)\<in>set (region_loop pm (current # visited) queue region). rec_get pm p = Some i) \<and>
         fst ` set (region_loop pm (current # visited) queue region) =
           {p. rec_has pm s \<and> (s, p) \<in> (contiguous {q. rec_has pm q})\<^sup>*}"
        by (rule "2.IH"(2) [OF new None]) (use 2(4-) new None in \<open>auto simp: rec_has_def\<close>)
      with new None show ?thesis by simp
    next
      case (Some idx)
      let ?q = "queue @ filter (\<lambda>q. q \<notin> set (current # visited)) (neighbors current)"
      have step: "(current, q) \<in> contiguous {q. rec_has pm q}" if "q \<in> set (neighbors current)" "rec_has pm q" for q
        using that Some by (simp add: contiguous_def rec_has_def)
      have cur: "(s, current) \<in> (contiguous {q. rec_has pm q})\<^sup>*"
        using 2(9) Some by (auto simp: rec_has_def)
      have "distinct (map fst (region_loop pm (current # visited) ?q (region @ [(current, idx)]))) \<and>
         (\<forall>(p, i)\<in>set (region_loop pm (current # visited) ?q (region @ [(current, idx)])). rec_get pm p = Some i) \<and>
         fst ` set (region_loop pm (current # visited) ?q (region @ [(current, idx)])) =
           {p. rec_has pm s \<and> (s, p) \<in> (contiguous {q. rec_has pm q})\<^sup>*}"
      proof (rule "2.IH"(3) [OF new Some], goal_cases)
        case 1 then show ?case using 2(4) Some by (simp add: rec_has_def)
      next
        case 2 then show ?case using new "2.prems"(2) by simp
      next
        case 3 then show ?case using "2.prems"(3) by auto
      next
        case 4 then show ?case using "2.prems"(4) Some by auto
      next
        case 5 then show ?case using "2.prems"(5) by auto
      next
        case 6 then show ?case
          using "2.prems"(6) step rtrancl_into_rtrancl [OF cur] by auto
      qed
      with new Some show ?thesis by simp
    qed
  qed
qed

section \<open>Growing and pasting\<close>

text \<open>A table only grows to the right and downwards: every cell keeps its place.\<close>

definition grid_within :: "'p table \<Rightarrow> 'p table \<Rightarrow> bool" where
  "grid_within t t' \<longleftrightarrow>
     length (rows t) \<le> length (rows t') \<and>
     (\<forall>y<length (rows t). prefix (row_cells (rows t ! y)) (row_cells (rows t' ! y)))"

lemma grid_within_refl [simp]: "grid_within t t"
  by (simp add: grid_within_def)

lemma grid_within_trans: "grid_within t u \<Longrightarrow> grid_within u v \<Longrightarrow> grid_within t v"
  unfolding grid_within_def by (meson order_less_le_trans order_trans prefix_order.order_trans)

lemma grid_within_on_grid:
  assumes "grid_within t t'" and "on_grid t x y k"
  shows "on_grid t' x y k"
proof -
  from assms have y: "y < length (rows t)" "y < length (rows t')" and x: "x < length (row_cells (rows t ! y))"
    by (auto simp: grid_within_def on_grid_def)
  from y assms(1) obtain zs where "row_cells (rows t' ! y) = row_cells (rows t ! y) @ zs"
    by (auto simp: grid_within_def prefix_def)
  with x y assms(2) show ?thesis by (simp add: on_grid_def nth_append)
qed

text \<open>What growing a table by rows or columns at its ends gives.\<close>

definition grown :: "(nat \<Rightarrow> string) \<Rightarrow> 'p table \<times> nat \<Rightarrow> 'p table \<times> nat \<Rightarrow> bool" where
  "grown ids tn tn' \<longleftrightarrow> table_wf (fst tn') \<and> fresh ids (snd tn') (cells (fst tn')) \<and> grid_within (fst tn) (fst tn') \<and>
     (\<forall>k\<in>set (rec_keys (cells (fst tn))). rec_get (cells (fst tn')) k = rec_get (cells (fst tn)) k)"

lemma grown_trans:
  assumes "grown ids a b" and "grown ids b c"
  shows "grown ids a c"
proof -
  have "set (rec_keys (cells (fst a))) \<subseteq> set (rec_keys (cells (fst b)))"
  proof
    fix k assume k: "k \<in> set (rec_keys (cells (fst a)))"
    then have "rec_get (cells (fst b)) k = rec_get (cells (fst a)) k" using assms(1) by (simp add: grown_def)
    then show "k \<in> set (rec_keys (cells (fst b)))" using k by (simp flip: rec_get_keys)
  qed
  then have "\<forall>k\<in>set (rec_keys (cells (fst a))). rec_get (cells (fst c)) k = rec_get (cells (fst a)) k"
    using assms by (simp add: grown_def subset_iff)
  with assms show ?thesis unfolding grown_def by (auto intro: grid_within_trans)
qed

lemma create_fresh_get:
  assumes "fresh ids n cs" and "k \<in> set (rec_keys cs)"
  shows "rec_get (create_cells zero (draw ids n len) cs) k = rec_get cs k"
  using assms by (intro rec_get_create_other) (auto simp: fresh_def)

lemma addRow_end:
  assumes "table_wf t" and "fresh ids n (cells t)" and "inj ids" and "rows t \<noteq> []"
    and "addRow_table ids zero None None loc (t, n) = (t', n')"
  shows "grown ids (t, n) (t', n') \<and> length (rows t') = Suc (length (rows t)) \<and> columns t' = columns t"
proof -
  have "table_wf t' \<and> fresh ids n' (cells t')"
    by (rule addRow_wf [OF assms(1-3) _ assms(5)]) (simp add: row_placed_def)
  moreover have "rows t' = rows t @ [\<lparr>row_size = BASE_ROW_SIZE, row_cells = draw ids n (new_row_length t)\<rparr>]"
    "columns t' = columns t" "cells t' = create_cells zero (draw ids n (new_row_length t)) (cells t)"
    using assms(4,5) by (auto simp: addRow_table_def Let_def insert_row_def splice_at_def split: option.splits)
  ultimately show ?thesis
    using create_fresh_get [OF assms(2)] by (auto simp: grown_def grid_within_def nth_append)
qed

lemma insert_col_end_nth:
  "y < length rs \<Longrightarrow> row_cells (insert_col length ids n rs ! y) = row_cells (rs ! y) @ [ids (n + y)]"
proof (induction rs arbitrary: n y)
  case (Cons r rs)
  then show ?case by (cases y) (auto simp: splice_at_def)
qed simp

lemma length_insert_col [simp]: "length (insert_col ai ids n rs) = length rs"
  by (induction rs arbitrary: n) auto

lemma addCol_end:
  assumes "table_wf t" and "fresh ids n (cells t)" and "inj ids"
    and "addCol_table ids zero None None loc (t, n) = (t', n')"
  shows "grown ids (t, n) (t', n') \<and> length (columns t') = Suc (length (columns t)) \<and>
         length (rows t') = length (rows t)"
proof -
  have "table_wf t' \<and> fresh ids n' (cells t')" by (rule addCol_wf [OF assms])
  moreover have "rows t' = insert_col length ids n (rows t)"
    "columns t' = columns t @ [BASE_COL_SIZE]" "cells t' = create_cells zero (draw ids n (length (rows t))) (cells t)"
    using assms(4) by (auto simp: addCol_table_def Let_def insert_col_at_def splice_at_def split: option.splits)
  ultimately show ?thesis
    using create_fresh_get [OF assms(2)] by (auto simp: grown_def grid_within_def insert_col_end_nth)
qed

lemma grow_rows_spec:
  assumes "table_wf t" and "fresh ids n (cells t)" and "inj ids" and "rows t \<noteq> []"
    and "grow_rows ids zero d (t, n) = (t', n')"
  shows "grown ids (t, n) (t', n') \<and> length (rows t') = length (rows t) + d \<and> columns t' = columns t"
  using assms(5)
proof (induction d arbitrary: t' n')
  case 0
  with assms show ?case by (auto simp: grow_rows_def grown_def)
next
  case (Suc d)
  obtain u m where u: "grow_rows ids zero d (t, n) = (u, m)" by force
  note IH = Suc.IH [OF u]
  have step: "addRow_table ids zero None None (Some YBottom) (u, m) = (t', n')"
    using Suc.prems u by (simp add: grow_rows_def)
  have "table_wf u" "fresh ids m (cells u)" "rows u \<noteq> []" using IH assms(4) by (auto simp: grown_def)
  from addRow_end [OF this(1,2) assms(3) this(3) step] have new: "grown ids (u, m) (t', n') \<and> length (rows t') = Suc (length (rows u)) \<and> columns t' = columns u" .
  with IH have "grown ids (t, n) (t', n')" using grown_trans by blast
  with new IH show ?case by simp
qed

lemma grow_cols_spec:
  assumes "table_wf t" and "fresh ids n (cells t)" and "inj ids"
    and "grow_cols ids zero d (t, n) = (t', n')"
  shows "grown ids (t, n) (t', n') \<and> length (columns t') = length (columns t) + d \<and>
         length (rows t') = length (rows t)"
  using assms(4)
proof (induction d arbitrary: t' n')
  case 0
  with assms show ?case by (auto simp: grow_cols_def grown_def)
next
  case (Suc d)
  obtain u m where u: "grow_cols ids zero d (t, n) = (u, m)" by force
  note IH = Suc.IH [OF u]
  have step: "addCol_table ids zero None None (Some XRight) (u, m) = (t', n')"
    using Suc.prems u by (simp add: grow_cols_def)
  have "table_wf u" "fresh ids m (cells u)" using IH by (simp_all add: grown_def)
  from addCol_end [OF this assms(3) step] have new: "grown ids (u, m) (t', n')"
    "length (columns t') = Suc (length (columns u))" "length (rows t') = length (rows u)" by simp_all
  with IH have "grown ids (t, n) (t', n')" using grown_trans by blast
  with new IH show ?case by simp
qed


text \<open>One step of a paste, at a position that is not negative.\<close>

lemma grow_to:
  assumes "table_wf t" and "fresh ids n (cells t)" and "inj ids" and "rows t \<noteq> []"
    and "tn1 = (if int y > int (length (rows t)) - 1 then grow_rows ids zero (nat (int y - (int (length (rows t)) - 1))) (t, n) else (t, n))"
    and "tn2 = (if int x > int (length (columns t)) - 1 then grow_cols ids zero (nat (int x - (int (length (columns t)) - 1))) tn1 else tn1)"
  shows "grown ids (t, n) tn2 \<and> int (length (rows (fst tn2))) - 1 = max (int (length (rows t)) - 1) (int y) \<and>
         int (length (columns (fst tn2))) - 1 = max (int (length (columns t)) - 1) (int x)"
proof -
  obtain t1 n1 t2 n2 where tn: "tn1 = (t1, n1)" "tn2 = (t2, n2)" by fastforce
  have g1: "grown ids (t, n) (t1, n1) \<and> int (length (rows t1)) - 1 = max (int (length (rows t)) - 1) (int y) \<and> columns t1 = columns t"
  proof (cases "int y > int (length (rows t)) - 1")
    case True
    then have "grow_rows ids zero (nat (int y - (int (length (rows t)) - 1))) (t, n) = (t1, n1)"
      using assms(5) tn by simp
    from grow_rows_spec [OF assms(1-4) this] True show ?thesis by auto
  next
    case False
    with assms(1,2,5) tn show ?thesis by (auto simp: grown_def)
  qed
  have "grown ids (t1, n1) (t2, n2) \<and> int (length (columns t2)) - 1 = max (int (length (columns t1)) - 1) (int x) \<and>
      length (rows t2) = length (rows t1)"
  proof (cases "int x > int (length (columns t)) - 1")
    case True
    then have gc: "grow_cols ids zero (nat (int x - (int (length (columns t)) - 1))) (t1, n1) = (t2, n2)"
      using assms(6) tn by simp
    have "table_wf t1" "fresh ids n1 (cells t1)" using g1 by (simp_all add: grown_def)
    from grow_cols_spec [OF this assms(3) gc] g1 True show ?thesis by auto
  next
    case False
    with assms(6) tn g1 show ?thesis by (auto simp: grown_def)
  qed
  with g1 tn show ?thesis using grown_trans by auto
qed

lemma paste_at_on_grid:
  assumes "table_wf t" and "on_grid t x y k"
  shows "paste_at cell (int x, int y) t = Inr (t\<lparr>cells := rec_set k (cell\<lparr>ckey := k\<rparr>) (cells t)\<rparr>)"
proof -
  have "k \<in> set (keys_of (rows t))" using assms(2) unfolding keys_of_on_grid by blast
  with assms(1) cells_ok_get [of "keys_of (rows t)" "cells t" k] obtain c where
    "rec_get (cells t) k = Some c" "ckey c = k" by (auto simp: table_wf_def)
  with getCellAt_on_grid [OF assms(2)] show ?thesis by (simp add: paste_at_def)
qed

definition pasted :: "(nat \<Rightarrow> string) \<Rightarrow> 'p table \<Rightarrow> 'p table \<times> nat \<Rightarrow> (position \<times> 'p cell) list \<Rightarrow> bool" where
  "pasted ids t tn' l \<longleftrightarrow>
     table_wf (fst tn') \<and> fresh ids (snd tn') (cells (fst tn')) \<and> grid_within t (fst tn') \<and>
     (\<forall>(p, c)\<in>set l. \<exists>x y k. p = (int x, int y) \<and> on_grid (fst tn') x y k \<and>
        rec_get (cells (fst tn')) k = Some (c\<lparr>ckey := k\<rparr>)) \<and>
     (\<forall>x y k. on_grid t x y k \<longrightarrow> (int x, int y) \<notin> fst ` set l \<longrightarrow>
        rec_get (cells (fst tn')) k = rec_get (cells t) k)"

definition table_dims :: "'p table \<Rightarrow> position" where
  "table_dims t = (int (length (columns t)) - 1, int (length (rows t)) - 1)"

lemma paste_cell_spec:
  assumes "table_wf t" and "fresh ids n (cells t)" and "inj ids" and "rows t \<noteq> []"
    and "rec_get ps (ckey c) = Some p" and pos: "translate p d = (int x, int y)"
  shows "\<exists>t' n'. paste_cell ids zero ps d c ((t, n), table_dims t) = Inr ((t', n'), table_dims t') \<and>
    pasted ids t (t', n') [((int x, int y), c)] \<and> rows t' \<noteq> []"
proof -
  define tn1 where "tn1 = (if int y > int (length (rows t)) - 1
    then grow_rows ids zero (nat (int y - (int (length (rows t)) - 1))) (t, n) else (t, n))"
  define tn2 where "tn2 = (if int x > int (length (columns t)) - 1
    then grow_cols ids zero (nat (int x - (int (length (columns t)) - 1))) tn1 else tn1)"
  obtain t2 n2 where t2: "tn2 = (t2, n2)" by force
  from grow_to [OF assms(1-4) tn1_def tn2_def] have g: "grown ids (t, n) (t2, n2)"
    and dims: "table_dims t2 = (max (int (length (columns t)) - 1) (int x), max (int (length (rows t)) - 1) (int y))"
    by (simp_all add: t2 table_dims_def)
  have wf: "table_wf t2" using g by (simp add: grown_def)
  have "x < length (columns t2)" "y < length (rows t2)" using dims by (auto simp: table_dims_def)
  with on_grid_rect [OF wf] obtain k where k: "on_grid t2 x y k" by blast
  let ?t = "t2\<lparr>cells := rec_set k (c\<lparr>ckey := k\<rparr>) (cells t2)\<rparr>"
  note paste = paste_at_on_grid [OF wf k, of c]
  have wf': "table_wf ?t" "set (rec_keys (cells ?t)) = set (rec_keys (cells t2))"
    using paste_at_wf [OF wf paste] by simp_all
  have "paste_cell ids zero ps d c ((t, n), table_dims t) =
      bind_result (paste_at c (int x, int y) (fst tn2)) (\<lambda>u. return ((u, snd tn2), table_dims t2))"
    using assms(5) pos unfolding dims by (simp add: paste_cell_def Let_def table_dims_def tn1_def tn2_def)
  then have step: "paste_cell ids zero ps d c ((t, n), table_dims t) = Inr ((?t, n2), table_dims ?t)"
    using paste t2 by (simp add: table_dims_def)
  have other: "rec_get (cells ?t) k' = rec_get (cells t) k'" if "on_grid t x' y' k'" "(x', y') \<noteq> (x, y)" for x' y' k'
  proof -
    have "on_grid t2 x' y' k'" using grid_within_on_grid g that(1) by (auto simp: grown_def)
    then have "k' \<noteq> k" using on_grid_unique [OF _ k, of x' y'] wf that(2) by (auto simp: table_wf_def cells_ok_def)
    moreover have "k' \<in> set (rec_keys (cells t))"
      using that(1) assms(1) keys_of_on_grid [of k' t] by (auto simp: table_wf_def cells_ok_def)
    ultimately show ?thesis using g by (simp add: grown_def)
  qed
  have "on_grid ?t x y k" using k by (simp add: on_grid_def)
  moreover have "grid_within t ?t" using g by (simp add: grown_def grid_within_def)
  moreover have "fresh ids n2 (cells ?t)" using g wf'(2) by (simp add: grown_def fresh_def)
  ultimately have "pasted ids t (?t, n2) [((int x, int y), c)]"
    unfolding pasted_def using wf'(1) other by auto
  moreover have "rows ?t \<noteq> []" using g assms(4) by (auto simp: grown_def grid_within_def)
  ultimately show ?thesis using step by blast
qed


lemma paste_cells_spec:
  assumes "table_wf t" and "fresh ids n (cells t)" and "inj ids" and "rows t \<noteq> []"
    and "\<forall>c\<in>set cs. \<exists>p. rec_get ps (ckey c) = Some p \<and> 0 \<le> fst (translate p d) \<and> 0 \<le> snd (translate p d)"
    and "distinct (map (\<lambda>c. rec_get ps (ckey c)) cs)"
  shows "\<exists>t' n'. fold_result (paste_cell ids zero ps d) cs ((t, n), table_dims t) = Inr ((t', n'), table_dims t') \<and>
    pasted ids t (t', n') (map (\<lambda>c. (translate (the (rec_get ps (ckey c))) d, c)) cs)"
  using assms
proof (induction cs arbitrary: t n)
  case Nil
  then show ?case by (auto simp: pasted_def)
next
  case (Cons c cs)
  let ?l = "map (\<lambda>c. (translate (the (rec_get ps (ckey c))) d, c)) cs"
  from Cons.prems(5) obtain p where p: "rec_get ps (ckey c) = Some p"
    and nonneg: "0 \<le> fst (translate p d)" "0 \<le> snd (translate p d)" by auto
  obtain x y where xy: "translate p d = (int x, int y)"
    using nonneg by (metis nonneg_int_cases prod.collapse)
  from paste_cell_spec [OF Cons.prems(1-4) p xy] obtain t1 n1 where
    step: "paste_cell ids zero ps d c ((t, n), table_dims t) = Inr ((t1, n1), table_dims t1)"
    and one: "pasted ids t (t1, n1) [((int x, int y), c)]" and ne: "rows t1 \<noteq> []" by blast
  have "table_wf t1" "fresh ids n1 (cells t1)" using one by (simp_all add: pasted_def)
  from Cons.IH [OF this Cons.prems(3) ne] Cons.prems(5,6) obtain t' n' where
    rest: "fold_result (paste_cell ids zero ps d) cs ((t1, n1), table_dims t1) = Inr ((t', n'), table_dims t')"
    and all: "pasted ids t1 (t', n') ?l" by auto
  have new: "(int x, int y) \<notin> fst ` set ?l"
  proof
    assume "(int x, int y) \<in> fst ` set ?l"
    then obtain c' where c': "c' \<in> set cs" "translate (the (rec_get ps (ckey c'))) d = translate p d"
      using xy by auto
    then obtain p' where p': "rec_get ps (ckey c') = Some p'" using Cons.prems(5) by auto
    with c' have "p' = p" by (cases p, cases p') (auto simp: translate_def)
    with p p' c'(1) Cons.prems(6) show False by force
  qed
  from one obtain k where k: "on_grid t1 x y k" "rec_get (cells t1) k = Some (c\<lparr>ckey := k\<rparr>)"
    by (auto simp: pasted_def)
  have "on_grid t' x y k" using grid_within_on_grid k(1) all by (auto simp: pasted_def)
  moreover have "rec_get (cells t') k = Some (c\<lparr>ckey := k\<rparr>)" using all k new by (simp add: pasted_def)
  moreover have "grid_within t t'" using one all grid_within_trans by (auto simp: pasted_def)
  moreover have "rec_get (cells t') k' = rec_get (cells t) k'"
    if g: "on_grid t x' y' k'" and "(int x', int y') \<notin> insert (int x, int y) (fst ` set ?l)" for x' y' k'
  proof -
    have "on_grid t1 x' y' k'" using grid_within_on_grid g one by (auto simp: pasted_def)
    then have "rec_get (cells t') k' = rec_get (cells t1) k'" using all that(2) by (simp add: pasted_def)
    also have "\<dots> = rec_get (cells t) k'" using one g that(2) by (auto simp: pasted_def)
    finally show ?thesis .
  qed
  ultimately have "pasted ids t (t', n') (((int x, int y), c) # ?l)"
    using all unfolding pasted_def by (auto simp del: set_map)
  with step rest p xy show ?case by auto
qed

section \<open>Copying\<close>

lemma rec_set_new: "k \<notin> set (rec_keys r) \<Longrightarrow> rec_set k v r = r @ [(k, v)]"
  by (induction k v r rule: rec_set.induct) (auto simp: rec_keys_def)

lemma fromEntries_distinct:
  assumes "distinct (map fst es)"
  shows "fromEntries es = es"
proof -
  have "foldl (\<lambda>r (k, v). rec_set k v r) acc es = acc @ es" if "distinct (map fst (acc @ es))" for acc
    using that
  proof (induction es arbitrary: acc)
    case (Cons e es)
    obtain k v where e: "e = (k, v)" by force
    have "rec_set k v acc = acc @ [e]" using Cons.prems by (simp add: e rec_set_new rec_keys_def)
    with Cons.IH [of "acc @ [e]"] Cons.prems show ?case by (simp add: e)
  qed simp
  with assms show ?thesis by (simp add: fromEntries_def)
qed

definition pos_of :: "'p table \<Rightarrow> string \<Rightarrow> position" where
  "pos_of t k = the (findCellPosition t k)"

lemma candidate_cells_wf:
  assumes "table_wf t"
  shows "distinct (map ckey (candidateCells t)) \<and>
    (\<forall>c\<in>set (candidateCells t). rec_get (cells t) (ckey c) = Some c \<and> selected c \<and>
        findCellPosition t (ckey c) = Some (pos_of t (ckey c)))"
proof -
  note ok = assms [unfolded table_wf_def cells_ok_def]
  have eq: "map ckey (map snd (cells t)) = rec_keys (cells t)"
    using ok by (auto simp: rec_keys_def)
  then have "distinct (map ckey (map snd (cells t)))" using ok by (simp add: rec_wf_def)
  then have "distinct (map ckey (candidateCells t))" unfolding candidateCells_def by (rule distinct_map_filter)
  moreover have "rec_get (cells t) (ckey c) = Some c \<and> selected c \<and> findCellPosition t (ckey c) = Some (pos_of t (ckey c))"
    if "c \<in> set (candidateCells t)" for c
  proof -
    from that ok have "(ckey c, c) \<in> set (cells t)" "selected c" by (auto simp: candidateCells_def)
    then have get: "rec_get (cells t) (ckey c) = Some c" using ok rec_get_wf_iff [of "cells t" "ckey c" c] by blast
    then have "ckey c \<in> set (keys_of (rows t))" using ok rec_get_keys [of "cells t" "ckey c"] by simp
    then have "findCellPosition t (ckey c) \<noteq> None" unfolding findCellPosition_None by simp
    with get \<open>selected c\<close> show ?thesis by (simp add: pos_of_def)
  qed
  ultimately show ?thesis by blast
qed

lemma map_filter_total: "(\<And>x. x \<in> set xs \<Longrightarrow> f x = Some (g x)) \<Longrightarrow> List.map_filter f xs = map g xs"
  by (induction xs) (auto simp: List.map_filter_def)

lemma zip_map_same: "zip (map f xs) (map g xs) = map (\<lambda>x. (f x, g x)) xs"
  by (induction xs) auto

lemma candidate_positions_wf:
  assumes "table_wf t"
  shows "candidatePositions t = map (\<lambda>c. pos_of t (ckey c)) (candidateCells t)"
  unfolding candidatePositions_def by (rule map_filter_total) (use candidate_cells_wf [OF assms] in blast)

lemma positionsObj_wf:
  assumes "table_wf t"
  shows "positionsObj t = map (\<lambda>c. (ckey c, pos_of t (ckey c))) (candidateCells t)"
proof -
  have "zip (map ckey (candidateCells t)) (candidatePositions t) = map (\<lambda>c. (ckey c, pos_of t (ckey c))) (candidateCells t)"
    by (simp add: candidate_positions_wf [OF assms] zip_map_same)
  moreover have "distinct (map fst (map (\<lambda>c. (ckey c, pos_of t (ckey c))) (candidateCells t)))"
    using candidate_cells_wf [OF assms] by (simp add: comp_def)
  ultimately show ?thesis by (simp add: positionsObj_def fromEntries_distinct)
qed

lemma rec_get_map_key:
  "distinct (map f xs) \<Longrightarrow> x \<in> set xs \<Longrightarrow> rec_get (map (\<lambda>x. (f x, g x)) xs) (f x) = Some (g x)"
  by (induction xs) (auto simp: image_iff)

lemma buffer_of_total:
  assumes "distinct (map ckey cs)" and "\<forall>c\<in>set cs. rec_get ps (ckey c) = Some (g c)"
  shows "\<exists>e. buffer_of ps cs = Inr \<lparr>epicenter = e, buf_cells = map (\<lambda>c. (ckey c, c)) cs,
      positions = map (\<lambda>c. (ckey c, g c)) cs\<rparr> \<and> e = (if cs = [] then '''' else ckey (last cs))"
proof -
  have fold: "\<exists>mx my. fold_result (topLeft_step ps) cs m = Inr (mx, my, if cs = [] then snd (snd m) else ckey (last cs))" for m
    using assms(2)
  proof (induction cs arbitrary: m)
    case (Cons c cs)
    from Cons.prems have "\<exists>m'. topLeft_step ps c m = Inr m' \<and> snd (snd m') = ckey c"
      by (auto simp: topLeft_step_def case_prod_beta)
    then obtain m' where "topLeft_step ps c m = Inr m'" "snd (snd m') = ckey c" by blast
    with Cons.IH [of m'] Cons.prems show ?case by auto
  qed (cases m, auto)
  have "List.map_filter (\<lambda>c. map_option (Pair (ckey c)) (rec_get ps (ckey c))) cs = map (\<lambda>c. (ckey c, g c)) cs"
    using assms(2) by (induction cs) (auto simp: List.map_filter_def)
  with assms(1) fold [of "(None, None, '''')"] show ?thesis
    by (auto simp: buffer_of_def fromEntries_distinct comp_def)
qed

definition selected_positions :: "'p table \<Rightarrow> position set" where
  "selected_positions t = (\<lambda>c. pos_of t (ckey c)) ` set (candidateCells t)"

lemma contiguousRegionFrom_total:
  "\<exists>region. contiguousRegionFrom (Some s) pts = Inr region \<and> distinct (map fst region) \<and>
    (\<forall>(p, i)\<in>set region. i < length pts \<and> pts ! i = p) \<and>
    fst ` set region = {p. s \<in> set pts \<and> (s, p) \<in> (contiguous (set pts))\<^sup>*}"
proof -
  let ?pm = "positionMap pts 0 []"
  have keys: "rec_has ?pm p \<longleftrightarrow> p \<in> set pts" for p
    unfolding rec_has_def rec_get_keys positionMap_keys by (simp add: rec_keys_def)
  have "distinct (map fst (region_loop ?pm [] [s] [])) \<and>
      (\<forall>(p, i)\<in>set (region_loop ?pm [] [s] []). rec_get ?pm p = Some i) \<and>
      fst ` set (region_loop ?pm [] [s] []) = {p. rec_has ?pm s \<and> (s, p) \<in> (contiguous {q. rec_has ?pm q})\<^sup>*}"
    by (rule region_loop_spec) auto
  moreover have "i < length pts \<and> pts ! i = p" if "rec_get ?pm p = Some i" for p i
    using positionMap_index [of "[]" "[]" pts p i] that by simp
  ultimately show ?thesis by (auto simp: contiguousRegionFrom_def keys)
qed

lemma findCellPosition_inj:
  assumes "findCellPosition t k = Some p" and "findCellPosition t k' = Some p"
  shows "k = k'"
  using findCellPosition_sound [OF assms(1)] findCellPosition_sound [OF assms(2)] by (simp add: on_grid_def)

text \<open>The cells that a copy takes: the selected cells that the last selected one is contiguous with.\<close>

definition copied_cells :: "'p table \<Rightarrow> string \<Rightarrow> 'p cell set" where
  "copied_cells t l = {c \<in> set (candidateCells t).
     (pos_of t l, pos_of t (ckey c)) \<in> (contiguous (selected_positions t))\<^sup>*}"

definition copied_in :: "'p table \<Rightarrow> string \<Rightarrow> 'p cell list \<Rightarrow> 'p copy_buffer \<Rightarrow> bool" where
  "copied_in t l cs buf \<longleftrightarrow> set cs = copied_cells t l \<and> distinct (map ckey cs) \<and>
     distinct (map (\<lambda>c. pos_of t (ckey c)) cs) \<and>
     buf_cells buf = map (\<lambda>c. (ckey c, c)) cs \<and> positions buf = map (\<lambda>c. (ckey c, pos_of t (ckey c))) cs \<and>
     epicenter buf = (if cs = [] then '''' else ckey (last cs))"

lemma candidate_of_selected:
  assumes "table_wf t" and "is_selected (cells t) l"
  shows "\<exists>c\<in>set (candidateCells t). ckey c = l"
proof -
  from assms(2) obtain c where c: "rec_get (cells t) l = Some c" "selected c"
    by (auto simp: is_selected_def split: option.splits)
  from cells_ok_key [of "keys_of (rows t)" "cells t" l c] assms(1) c(1) have "ckey c = l" by (simp add: table_wf_def)
  moreover have "c \<in> set (candidateCells t)"
    using rec_get_in_set [OF c(1)] c(2) by (force simp: candidateCells_def)
  ultimately show ?thesis by blast
qed

lemma copy_region_cells:
  assumes wf: "table_wf t" and "l \<in> ckey ` set (candidateCells t)"
    and "distinct (map fst R)"
    and R: "\<forall>(p, i)\<in>set R. i < length (candidatePositions t) \<and> candidatePositions t ! i = p"
    and reach: "fst ` set R = {p. pos_of t l \<in> set (candidatePositions t) \<and>
        (pos_of t l, p) \<in> (contiguous (set (candidatePositions t)))\<^sup>*}"
    and cs: "cs = map (\<lambda>(_, i). candidateCells t ! i) R"
  shows "set cs = copied_cells t l \<and> distinct (map ckey cs) \<and> distinct (map (\<lambda>c. pos_of t (ckey c)) cs)"
proof -
  note cand = candidate_cells_wf [OF wf] and pos = candidate_positions_wf [OF wf]
  have sp: "set (candidatePositions t) = selected_positions t" by (simp add: pos selected_positions_def)
  have ps: "map (\<lambda>c. pos_of t (ckey c)) cs = map fst R"
    unfolding cs using R by (auto simp: pos)
  then have dp: "distinct (map (\<lambda>c. pos_of t (ckey c)) cs)" using assms(3) by simp
  then have "distinct (map (pos_of t) (map ckey cs))" by (simp add: comp_def)
  then have dk: "distinct (map ckey cs)" by (rule distinct_map [THEN iffD1, THEN conjunct1])
  have l: "pos_of t l \<in> selected_positions t" using assms(2) by (auto simp: selected_positions_def)
  have sub: "set cs \<subseteq> set (candidateCells t)" unfolding cs using R by (fastforce simp: pos)
  have img: "(\<lambda>c. pos_of t (ckey c)) ` set cs = {p. (pos_of t l, p) \<in> (contiguous (selected_positions t))\<^sup>*}"
    using arg_cong [OF ps, of set] reach l sp by simp
  have "c \<in> set cs" if c: "c \<in> copied_cells t l" for c
  proof -
    have "pos_of t (ckey c) \<in> (\<lambda>c. pos_of t (ckey c)) ` set cs" using c img by (simp add: copied_cells_def)
    then obtain c' where c': "c' \<in> set cs" "pos_of t (ckey c') = pos_of t (ckey c)" by auto
    have "findCellPosition t (ckey c') = Some (pos_of t (ckey c))" "findCellPosition t (ckey c) = Some (pos_of t (ckey c))"
      using cand c c' sub by (auto simp: copied_cells_def)
    then have "ckey c' = ckey c" by (rule findCellPosition_inj)
    moreover have "rec_get (cells t) (ckey c') = Some c'" "rec_get (cells t) (ckey c) = Some c"
      using cand c c'(1) sub by (auto simp: copied_cells_def)
    ultimately have "Some c' = Some c" by metis
    with c'(1) show ?thesis by blast
  qed
  moreover have "set cs \<subseteq> copied_cells t l"
  proof
    fix c assume c: "c \<in> set cs"
    then have "pos_of t (ckey c) \<in> (\<lambda>c. pos_of t (ckey c)) ` set cs" by blast
    with c sub img show "c \<in> copied_cells t l" unfolding copied_cells_def by blast
  qed
  ultimately show ?thesis using dk dp by blast
qed

lemma copySelected_copies:
  assumes wf: "table_wf t" and l: "lastSelected t = Some l" and sel: "is_selected (cells t) l"
  shows "\<exists>buf cs. copySelected_table t b = Inr buf \<and> copied_in t l cs buf \<and> cs \<noteq> []"
proof -
  note cand = candidate_cells_wf [OF wf]
  from candidate_of_selected [OF wf sel] obtain c0 where c0: "c0 \<in> set (candidateCells t)" "ckey c0 = l" by blast
  have obj: "rec_get (positionsObj t) (ckey c) = Some (pos_of t (ckey c))" if "c \<in> set (candidateCells t)" for c
    using rec_get_map_key [of ckey "candidateCells t" c "\<lambda>c. pos_of t (ckey c)"] cand that
    by (simp add: positionsObj_wf [OF wf])
  from contiguousRegionFrom_total [of "pos_of t l" "candidatePositions t"] obtain R where
    R: "contiguousRegionFrom (Some (pos_of t l)) (candidatePositions t) = Inr R" "distinct (map fst R)"
      "\<forall>(p, i)\<in>set R. i < length (candidatePositions t) \<and> candidatePositions t ! i = p"
      "fst ` set R = {p. pos_of t l \<in> set (candidatePositions t) \<and>
         (pos_of t l, p) \<in> (contiguous (set (candidatePositions t)))\<^sup>*}" by blast
  define cs where "cs = map (\<lambda>(_, i). candidateCells t ! i) R"
  have spec: "set cs = copied_cells t l \<and> distinct (map ckey cs) \<and> distinct (map (\<lambda>c. pos_of t (ckey c)) cs)"
    by (rule copy_region_cells [OF wf _ R(2,3,4) cs_def]) (use c0 in blast)
  have sub: "\<forall>c\<in>set cs. rec_get (positionsObj t) (ckey c) = Some (pos_of t (ckey c))"
    using obj spec by (auto simp: copied_cells_def)
  have "c0 \<in> set cs" using c0 spec by (simp add: copied_cells_def)
  moreover have "copySelected_table t b = buffer_of (positionsObj t) cs"
    using l R(1) obj [OF c0(1)] c0(2) by (simp add: copySelected_table_def cs_def)
  ultimately show ?thesis
    using buffer_of_total [of cs "positionsObj t" "\<lambda>c. pos_of t (ckey c)"] spec sub
    by (auto simp: copied_in_def)
qed

text \<open>The displacement of a paste: from the epicenter of the buffer to the last selected cell.\<close>

definition paste_shift :: "'p copy_buffer \<Rightarrow> 'p table \<Rightarrow> position option" where
  "paste_shift buf u =
     (case (Option.bind (lastSelected u) (findCellPosition u), rec_get (positions buf) (epicenter buf)) of
        (Some p, Some c) \<Rightarrow> Some (translation c p)
      | _ \<Rightarrow> None)"

lemma pasteSelected_unfold:
  assumes "paste_shift buf u = Some d"
  shows "pasteSelected_table ids zero buf (u, n) =
    bind_result (fold_result (paste_cell ids zero (positions buf) d) (map snd (buf_cells buf)) ((u, n), table_dims u))
      (\<lambda>st. return (fst st))"
  using assms
  by (auto simp: paste_shift_def pasteSelected_table_def table_dims_def split: option.splits bind_splits)

lemma paste_shift_rows: "paste_shift buf u = Some d \<Longrightarrow> rows u \<noteq> []"
  by (auto simp: paste_shift_def findCellPosition_def split: option.splits bind_splits)

lemma paste_unlocated:
  "Option.bind (lastSelected u) (findCellPosition u) = None \<Longrightarrow> pasteSelected_table ids zero buf (u, n) = Inr (u, n)"
  by (auto simp: pasteSelected_table_def split: option.splits bind_splits)

lemma paste_shift_located:
  assumes "copied_in t l cs buf" and "cs \<noteq> []"
  shows "paste_shift buf u =
    map_option (translation (pos_of t (ckey (last cs)))) (Option.bind (lastSelected u) (findCellPosition u))"
proof -
  have "rec_get (positions buf) (epicenter buf) = Some (pos_of t (ckey (last cs)))"
    using assms rec_get_map_key [of ckey cs "last cs" "\<lambda>c. pos_of t (ckey c)"] last_in_set [of cs]
    by (simp add: copied_in_def)
  then show ?thesis by (simp add: paste_shift_def split: option.split)
qed

lemma copy_paste:
  assumes "copied_in t l cs buf"
    and u: "table_wf u" "fresh ids n (cells u)" "inj ids" and d: "paste_shift buf u = Some d"
    and nonneg: "\<forall>c\<in>set cs. 0 \<le> fst (translate (pos_of t (ckey c)) d) \<and> 0 \<le> snd (translate (pos_of t (ckey c)) d)"
  shows "\<exists>u' n'. pasteSelected_table ids zero buf (u, n) = Inr (u', n') \<and>
    pasted ids u (u', n') (map (\<lambda>c. (translate (pos_of t (ckey c)) d, c)) cs)"
proof -
  note buf = assms(1) [unfolded copied_in_def]
  have get: "rec_get (positions buf) (ckey c) = Some (pos_of t (ckey c))" if "c \<in> set cs" for c
    using rec_get_map_key [of ckey cs c "\<lambda>c. pos_of t (ckey c)"] buf that by simp
  have cells: "map snd (buf_cells buf) = cs" using buf by (simp add: comp_def)
  have "distinct (map (\<lambda>c. rec_get (positions buf) (ckey c)) cs)"
  proof -
    have "map (\<lambda>c. rec_get (positions buf) (ckey c)) cs = map Some (map (\<lambda>c. pos_of t (ckey c)) cs)"
      using get by simp
    then show ?thesis using buf by (simp add: distinct_map inj_on_def)
  qed
  then obtain u' n' where
    "fold_result (paste_cell ids zero (positions buf) d) cs ((u, n), table_dims u) = Inr ((u', n'), table_dims u')"
    "pasted ids u (u', n') (map (\<lambda>c. (translate (the (rec_get (positions buf) (ckey c))) d, c)) cs)"
    using paste_cells_spec [OF u paste_shift_rows [OF d], of cs "positions buf" d zero] get nonneg by auto
  moreover have "map (\<lambda>c. (translate (the (rec_get (positions buf) (ckey c))) d, c)) cs =
      map (\<lambda>c. (translate (pos_of t (ckey c)) d, c)) cs" using get by simp
  ultimately show ?thesis by (simp add: pasteSelected_unfold [OF d] cells)
qed

section \<open>Properties\<close>

text \<open>
  C8: The search for the contiguous region ends for every list of points; it returns every point once, with an index at which the
  list holds it, and the points are exactly those that the start is connected to by steps to horizontal and
  vertical neighbours within the list.
\<close>

theorem contiguousRegionFrom_component:
  "\<exists>region. contiguousRegionFrom (Some s) pts = return region \<and> distinct (map fst region) \<and>
     list_all (\<lambda>(p, i). nth_opt pts (int i) = Some p) region \<and>
     fst ` set region = {p. s \<in> set pts \<and> (s, p) \<in> (contiguous (set pts))\<^sup>*}"
  using contiguousRegionFrom_total [of s pts] by (fastforce simp: list_all_iff)

text \<open>
  C7: In a well-formed table whose last selected cell is selected, a copy fills the buffer with exactly the
  selected cells connected to it. The reference point of the copy is the cell that the search for the
  region found last; the comment at line 384 of slice.ts says that it is the top left cell, which the code
  computes and does not use. A paste of that buffer into a well-formed table, with unused identifiers for
  new cells, leaves a table without a last selected cell, or whose last selected cell has no position,
  as it is; otherwise it displaces every copied cell by the way from the reference point to the last
  selected cell of the target. When no displaced position is left of or above the table, the paste does
  not throw: the table stays well formed, keeps the place of every cell, holds each copied cell at its
  displaced position, and every cell that is not a target is unchanged.
\<close>

theorem copy_then_paste:
  assumes "table_wf t" and "lastSelected t = Some l" and "is_selected (cells t) l"
    and "table_wf u" and "fresh ids n (cells u)" and "inj ids"
  shows "\<exists>buf cs. copySelected_table t b = Inr buf \<and> copied_in t l cs buf \<and> cs \<noteq> [] \<and>
    (case Option.bind (lastSelected u) (findCellPosition u) of
       None \<Rightarrow> pasteSelected_table ids zero buf (u, n) = Inr (u, n)
     | Some p \<Rightarrow>
         (let place = (\<lambda>c. translate (pos_of t (ckey c)) (translation (pos_of t (ckey (last cs))) p))
          in (\<forall>c\<in>set cs. 0 \<le> fst (place c) \<and> 0 \<le> snd (place c)) \<longrightarrow>
             (\<exists>u' n'. pasteSelected_table ids zero buf (u, n) = Inr (u', n') \<and>
                pasted ids u (u', n') (map (\<lambda>c. (place c, c)) cs))))"
proof -
  from copySelected_copies [OF assms(1-3), of b] obtain buf cs where
    copy: "copySelected_table t b = Inr buf" "copied_in t l cs buf" "cs \<noteq> []" by blast
  show ?thesis
  proof (intro exI conjI)
    show "case Option.bind (lastSelected u) (findCellPosition u) of
       None \<Rightarrow> pasteSelected_table ids zero buf (u, n) = Inr (u, n)
     | Some p \<Rightarrow>
         (let place = (\<lambda>c. translate (pos_of t (ckey c)) (translation (pos_of t (ckey (last cs))) p))
          in (\<forall>c\<in>set cs. 0 \<le> fst (place c) \<and> 0 \<le> snd (place c)) \<longrightarrow>
             (\<exists>u' n'. pasteSelected_table ids zero buf (u, n) = Inr (u', n') \<and>
                pasted ids u (u', n') (map (\<lambda>c. (place c, c)) cs)))"
      using paste_shift_located [OF copy(2,3), of u] copy_paste [OF copy(2) assms(4-6), of _ zero] paste_unlocated [of u ids zero buf n]
      by (cases "Option.bind (lastSelected u) (findCellPosition u)") (simp_all add: Let_def)
  qed (rule copy)+
qed

text \<open>Two neighbouring cells are copied and pasted into the row below.\<close>

theorem copy_then_paste_witness:
  "\<exists>buf cs u' n'. copySelected_table (sample_table [0, 1] 2 2 1) \<lparr>epicenter = '''', buf_cells = [], positions = []\<rparr> = Inr buf \<and>
     copied_in (sample_table [0, 1] 2 2 1) ''kk'' cs buf \<and> length cs = 2 \<and>
     pasteSelected_table sample_ids () buf (sample_table [2] 2 2 2, 0) = Inr (u', n') \<and>
     pasted sample_ids (sample_table [2] 2 2 2) (u', n')
       (map (\<lambda>c. (translate (pos_of (sample_table [0, 1] 2 2 1) (ckey c)) (0, 1), c)) cs)"
proof -
  let ?t = "sample_table [0, 1] 2 2 1" and ?u = "sample_table [2] 2 2 2"
  let ?b = "\<lparr>epicenter = '''', buf_cells = [], positions = []\<rparr> :: unit copy_buffer"
  define B where "B = (case copySelected_table ?t ?b of Inr buf \<Rightarrow> buf | Inl _ \<Rightarrow> ?b)"
  have B: "copySelected_table ?t ?b = Inr B" unfolding B_def by code_simp
  let ?cs = "map snd (buf_cells B)"
  have "table_wf ?t" "lastSelected ?t = Some ''kk''" "is_selected (cells ?t) ''kk''" "table_wf ?u" by code_simp+
  from copy_then_paste [OF this fresh_sample inj_sample_ids, of ?b "()" 0]
  obtain cs where c: "copied_in ?t ''kk'' cs B"
    "case Option.bind (lastSelected ?u) (findCellPosition ?u) of
       None \<Rightarrow> pasteSelected_table sample_ids () B (?u, 0) = Inr (?u, 0)
     | Some p \<Rightarrow>
         (let place = (\<lambda>c. translate (pos_of ?t (ckey c)) (translation (pos_of ?t (ckey (last cs))) p))
          in (\<forall>c\<in>set cs. 0 \<le> fst (place c) \<and> 0 \<le> snd (place c)) \<longrightarrow>
             (\<exists>u' n'. pasteSelected_table sample_ids () B (?u, 0) = Inr (u', n') \<and>
                pasted sample_ids ?u (u', n') (map (\<lambda>c. (place c, c)) cs)))"
    unfolding B by auto
  have cs: "cs = ?cs" using c(1) by (simp add: copied_in_def comp_def)
  have "Option.bind (lastSelected ?u) (findCellPosition ?u) = Some (0, 1)" by code_simp
  moreover have "translation (pos_of ?t (ckey (last ?cs))) (0, 1) = (0, 1)" unfolding B_def by code_simp
  moreover have "\<forall>c\<in>set ?cs. 0 \<le> fst (translate (pos_of ?t (ckey c)) (0, 1)) \<and> 0 \<le> snd (translate (pos_of ?t (ckey c)) (0, 1))"
    unfolding B_def by code_simp
  moreover have "length ?cs = 2" unfolding B_def by code_simp
  ultimately show ?thesis using B c unfolding cs by (auto simp: Let_def)
qed

text \<open>
  The reference point of a copy is not the top left cell: copying two neighbouring cells with the left one selected last takes
  the right one, so that pasting them at the same place throws.
\<close>

theorem paste_before_first_column_throws:
  "(case copySelected_table (sample_table [0, 1] 1 2 0) \<lparr>epicenter = '''', buf_cells = [], positions = []\<rparr> of
      Inl _ \<Rightarrow> False
    | Inr b \<Rightarrow> epicenter b = ''kk'' \<and> (case pasteSelected_table sample_ids () b (sample_table [0, 1] 1 2 0, 0) of Inl e \<Rightarrow> e = ''TypeError'' | Inr _ \<Rightarrow> False))"
  by code_simp

end
