(* ===== verification/Reducer.thy ===== *)
theory Reducer
  imports Prelude
begin

text \<open>
  The interface of a reducer: a function of an action and a state that returns the next state or throws.
  A store applies it to one action after another, and an action whose reducer throws leaves the state
  as it was, since the reducers run on a draft of the state.  What a reducer promises is an invariant
  that every action keeps; that every state a store reaches has it is proved here once.
\<close>

definition store_dispatch :: "('a \<Rightarrow> 's \<Rightarrow> 's result) \<Rightarrow> 'a \<Rightarrow> 's \<Rightarrow> 's" where
  "store_dispatch step a s = (case step a s of Inl _ \<Rightarrow> s | Inr t \<Rightarrow> t)"

inductive reachable :: "('a \<Rightarrow> 's \<Rightarrow> 's result) \<Rightarrow> ('a \<Rightarrow> 's \<Rightarrow> bool) \<Rightarrow> 's \<Rightarrow> 's \<Rightarrow> bool"
  for step ok s where
  initial: "reachable step ok s s"
| action: "reachable step ok s t \<Longrightarrow> ok a t \<Longrightarrow> reachable step ok s (store_dispatch step a t)"

lemma reachable_trans:
  assumes "reachable step ok s t" and "reachable step ok t u"
  shows "reachable step ok s u"
  using assms(2,1) by (induction rule: reachable.induct) (auto intro: reachable.action)

locale action_reducer =
  fixes step :: "'a \<Rightarrow> 's \<Rightarrow> 's result" and inv :: "'s \<Rightarrow> bool" and ok :: "'a \<Rightarrow> 's \<Rightarrow> bool"
  assumes preserves: "inv s \<Longrightarrow> ok a s \<Longrightarrow> step a s = Inr t \<Longrightarrow> inv t"
begin

lemma dispatch_preserves: "inv s \<Longrightarrow> ok a s \<Longrightarrow> inv (store_dispatch step a s)"
  using preserves by (auto simp: store_dispatch_def split: sum.splits)

lemma reachable_inv: "reachable step ok s t \<Longrightarrow> inv s \<Longrightarrow> inv t"
  by (induction rule: reachable.induct) (auto intro: dispatch_preserves)

end

end
