(* ===== verification/Table_Store.thy ===== *)
theory Table_Store
  imports Table_Copy Reducer
begin

text \<open>
  The whole reducer of the tables: that every action keeps every table well formed, and what the
  selections select.
\<close>

section \<open>The reducer keeps every table well formed\<close>

definition table_inv :: "(nat \<Rightarrow> string) \<Rightarrow> 'p table_slice \<times> nat \<Rightarrow> bool" where
  "table_inv ids sn \<longleftrightarrow> inj ids \<and>
     (\<forall>k t. rec_get (tables (fst sn)) k = Some t \<longrightarrow> table_wf t \<and> fresh ids (snd sn) (cells t))"

definition table_action_ok :: "(nat \<Rightarrow> string) \<Rightarrow> 'p table_action \<Rightarrow> 'p table_slice \<times> nat \<Rightarrow> bool" where
  "table_action_ok ids a sn =
     (case a of
        Create k t \<Rightarrow> table_wf t \<and> fresh ids (snd sn) (cells t)
      | AddRow k ix ck loc \<Rightarrow>
          (case rec_get (tables (fst sn)) k of None \<Rightarrow> True | Some t \<Rightarrow> row_placed t ck loc)
      | _ \<Rightarrow> True)"

lemma fresh_mono: "fresh ids n cs \<Longrightarrow> n \<le> n' \<Longrightarrow> fresh ids n' cs"
  by (auto simp: fresh_def)

lemma fresh_subset: "fresh ids n cs \<Longrightarrow> set (rec_keys cs') \<subseteq> set (rec_keys cs) \<Longrightarrow> fresh ids n cs'"
  by (auto simp: fresh_def)

lemma put_table_inv:
  assumes "table_inv ids (s, n)" and "table_wf t" and "fresh ids n' (cells t)" and "n \<le> n'"
  shows "table_inv ids (put_table k t s, n')"
  using assms by (auto simp: table_inv_def put_table_def intro: fresh_mono split: if_splits)

lemma on_table_inv:
  assumes "on_table k f sn = Inr sn'" and "table_inv ids sn"
    and "\<And>t t' n'. rec_get (tables (fst sn)) k = Some t \<Longrightarrow> table_wf t \<Longrightarrow> fresh ids (snd sn) (cells t) \<Longrightarrow>
      f (t, snd sn) = Inr (t', n') \<Longrightarrow> table_wf t' \<and> fresh ids n' (cells t') \<and> snd sn \<le> n'"
  shows "table_inv ids sn'"
proof (cases "rec_get (tables (fst sn)) k")
  case None
  with assms show ?thesis by (simp add: on_table_def)
next
  case (Some t)
  with assms(1) obtain t' n' where f: "f (t, snd sn) = Inr (t', n')" and sn': "sn' = (put_table k t' (fst sn), n')"
    by (auto simp: on_table_def bind_result_eq_Inr)
  have "table_wf t" "fresh ids (snd sn) (cells t)" using assms(2) Some by (auto simp: table_inv_def)
  from assms(3) [OF Some this f] assms(2) show ?thesis
    using put_table_inv [of ids "fst sn" "snd sn" t' n' k] by (simp add: sn')
qed

definition keeps_wf :: "('p table \<Rightarrow> 'p table result) \<Rightarrow> bool" where
  "keeps_wf f \<longleftrightarrow> (\<forall>t t'. table_wf t \<longrightarrow> f t = Inr t' \<longrightarrow>
     table_wf t' \<and> set (rec_keys (cells t')) \<subseteq> set (rec_keys (cells t)))"

lemma on_table_keep_inv:
  assumes "on_table k (keep_ids f) sn = Inr sn'" and "table_inv ids sn"
    and "keeps_wf f"
  shows "table_inv ids sn'"
proof (rule on_table_inv [OF assms(1,2)])
  fix t t' n'
  assume t: "table_wf t" "fresh ids (snd sn) (cells t)" and "keep_ids f (t, snd sn) = Inr (t', n')"
  then have "f t = Inr t'" "n' = snd sn" by (auto simp: keep_ids_def bind_result_eq_Inr)
  with assms(3) t show "table_wf t' \<and> fresh ids n' (cells t') \<and> snd sn \<le> n'"
    by (auto simp: keeps_wf_def intro: fresh_subset)
qed

lemma on_existing_table: "on_existing k f sn = Inr sn' \<Longrightarrow> on_table k f sn = Inr sn'"
  by (auto simp: on_existing_def type_error_def split: if_splits)

lemma cell_update_wf:
  assumes "table_wf t" and "rec_get (cells t) k = Some c" and "ckey c' = ckey c"
  shows "table_wf (t\<lparr>cells := rec_set k c' (cells t)\<rparr>) \<and>
    set (rec_keys (rec_set k c' (cells t))) \<subseteq> set (rec_keys (cells t))"
proof -
  from cells_ok_key [of "keys_of (rows t)" "cells t" k c] assms(1,2)
  have "ckey c = k" "k \<in> set (keys_of (rows t))" by (auto simp: table_wf_def)
  with assms(1,3) cells_ok_set [of "keys_of (rows t)" "cells t" k c'] show ?thesis
    by (auto simp: table_wf_def cells_ok_def)
qed

lemma setCellProps_wf:
  assumes "table_wf t" and "setCellProps_table ck p t = Inr t'"
  shows "table_wf t' \<and> set (rec_keys (cells t')) \<subseteq> set (rec_keys (cells t))"
proof -
  from assms(2) obtain c where c: "rec_get (cells t) ck = Some c"
    and t': "t' = t\<lparr>cells := rec_set ck (c\<lparr>props := p\<rparr>) (cells t)\<rparr>"
    by (auto simp: setCellProps_table_def type_error_def split: option.splits)
  from cell_update_wf [OF assms(1) c, of "c\<lparr>props := p\<rparr>"] show ?thesis by (simp add: t')
qed

lemma setCellType_wf:
  assumes "table_wf t"
  shows "table_wf (setCellType_table ck v p t) \<and>
    set (rec_keys (cells (setCellType_table ck v p t))) \<subseteq> set (rec_keys (cells t))"
proof (cases "rec_get (cells t) ck")
  case None
  with assms show ?thesis by (simp add: setCellType_table_def)
next
  case (Some c)
  show ?thesis
    using cell_update_wf [OF assms Some, of "case p of None \<Rightarrow> c\<lparr>variant := v\<rparr> | Some q \<Rightarrow> c\<lparr>variant := v, props := q\<rparr>"]
    by (cases p) (simp_all add: setCellType_table_def Some)
qed

lemma resize_wf:
  assumes "table_wf t" and "resizeRow_table i sz t = Inr t' \<or> resizeCol_table i sz t = Inr t'"
  shows "table_wf t' \<and> set (rec_keys (cells t')) \<subseteq> set (rec_keys (cells t))"
proof -
  have "map row_cells ((rows t)[i := (rows t ! i)\<lparr>row_size := sz\<rparr>]) = map row_cells (rows t)"
  proof (rule nth_equalityI)
    fix j assume "j < length (map row_cells ((rows t)[i := (rows t ! i)\<lparr>row_size := sz\<rparr>]))"
    then show "map row_cells ((rows t)[i := (rows t ! i)\<lparr>row_size := sz\<rparr>]) ! j = map row_cells (rows t) ! j"
      by (cases "j = i") simp_all
  qed simp
  then have "map row_cells (rows t') = map row_cells (rows t)" "cells t' = cells t"
    "length (columns t') = length (columns t)"
    using assms(2) by (auto simp: resizeRow_table_def resizeCol_table_def type_error_def split: if_splits)
  moreover have "rectangular rs w \<longleftrightarrow> (\<forall>ks\<in>set (map row_cells rs). length ks = w)" for rs w
    by (auto simp: rectangular_def)
  ultimately show ?thesis using assms(1) by (simp add: table_wf_def keys_of_def del: set_map)
qed

lemma setEditable_wf:
  assumes "table_wf t"
  shows "table_wf (setEditable_table e t) \<and>
    set (rec_keys (cells (setEditable_table e t))) \<subseteq> set (rec_keys (cells t))"
  using assms by (auto simp: setEditable_table_def select_where_def table_wf_def Let_def
      split: option.splits intro!: cells_ok_mapValues)

lemma select_line_wf:
  assumes "table_wf t" and "selectRow_table ix t = Inr t' \<or> selectCol_table ix t = Inr t'"
  shows "table_wf t' \<and> set (rec_keys (cells t')) \<subseteq> set (rec_keys (cells t))"
proof (cases "editable t")
  case False
  with assms show ?thesis by (auto simp: selectRow_table_def selectCol_table_def)
next
  case True
  with assms flags_total [OF assms(1) row_flags_keys, of ix] flags_total [OF assms(1) col_flags_keys, of ix]
  show ?thesis by (auto simp: selectRow_flags selectCol_flags)
qed

lemma iterate_wf:
  fixes f :: "'p table \<times> nat \<Rightarrow> 'p table \<times> nat"
  assumes "\<And>t n t' n'. table_wf t \<Longrightarrow> fresh ids n (cells t) \<Longrightarrow> f (t, n) = (t', n') \<Longrightarrow>
      table_wf t' \<and> fresh ids n' (cells t') \<and> n \<le> n'"
    and "table_wf t" and "fresh ids n (cells t)" and "(f ^^ d) (t, n) = (t', n')"
  shows "table_wf t' \<and> fresh ids n' (cells t') \<and> n \<le> n'"
  using assms(4)
proof (induction d arbitrary: t' n')
  case 0
  with assms(2,3) show ?case by auto
next
  case (Suc d)
  obtain u m where u: "(f ^^ d) (t, n) = (u, m)" by force
  with Suc.prems have "f (u, m) = (t', n')" by simp
  with Suc.IH [OF u] assms(1) [of u m t' n'] show ?case by auto
qed


lemma addRow_end_wf:
  assumes "inj ids" and "table_wf t" and "fresh ids n (cells t)"
    and "addRow_table ids zero None None loc (t, n) = (t', n')"
  shows "table_wf t' \<and> fresh ids n' (cells t') \<and> n \<le> n'"
  using addRow_wf [OF assms(2,3,1) _ assms(4)] assms(4)
  by (auto simp: row_placed_def addRow_table_def Let_def)

lemma addCol_mono: "addCol_table ids zero ix ck loc (t, n) = (t', n') \<Longrightarrow> n \<le> n'"
  by (auto simp: addCol_table_def insert_col_at_def Let_def split: option.splits if_splits)

lemma addRow_mono: "addRow_table ids zero ix ck loc (t, n) = (t', n') \<Longrightarrow> n \<le> n'"
  by (auto simp: addRow_table_def Let_def)

lemma grow_wf:
  assumes "inj ids" and "table_wf t" and "fresh ids n (cells t)"
    and "grow_rows ids zero d (t, n) = (t', n') \<or> grow_cols ids zero d (t, n) = (t', n')"
  shows "table_wf t' \<and> fresh ids n' (cells t') \<and> n \<le> n'"
  using assms(4)
proof
  assume "grow_rows ids zero d (t, n) = (t', n')"
  then show ?thesis
    using iterate_wf [where f = "addRow_table ids zero None None (Some YBottom)" and ids = ids and t = t and n = n]
      addRow_end_wf [OF assms(1), where zero = zero] assms(2,3) unfolding grow_rows_def by blast
next
  have col: "table_wf u' \<and> fresh ids m' (cells u') \<and> m \<le> m'"
    if "table_wf u" "fresh ids m (cells u)" "addCol_table ids zero None None (Some XRight) (u, m) = (u', m')" for u m u' m'
    using addCol_wf [OF that(1,2) assms(1) that(3)] addCol_mono [OF that(3)] by simp
  assume "grow_cols ids zero d (t, n) = (t', n')"
  then show ?thesis
    using iterate_wf [where f = "addCol_table ids zero None None (Some XRight)" and ids = ids and t = t and n = n]
      col assms(2,3) unfolding grow_cols_def by blast
qed

lemma paste_cell_wf:
  assumes "inj ids" and "paste_cell ids zero ps d c ((t, n), wh) = Inr ((t', n'), wh')"
    and "table_wf t" and "fresh ids n (cells t)"
  shows "table_wf t' \<and> fresh ids n' (cells t') \<and> n \<le> n'"
proof -
  obtain w h where wh: "wh = (w, h)" by force
  from assms(2) obtain p where p: "rec_get ps (ckey c) = Some p"
    by (auto simp: paste_cell_def type_error_def split: option.splits)
  define pos where "pos = translate p d"
  define tn1 where "tn1 = (if snd pos > h then grow_rows ids zero (nat (snd pos - h)) (t, n) else (t, n))"
  define tn2 where "tn2 = (if fst pos > w then grow_cols ids zero (nat (fst pos - w)) tn1 else tn1)"
  obtain t1 n1 t2 n2 where tn: "tn1 = (t1, n1)" "tn2 = (t2, n2)" by fastforce
  have 1: "table_wf t1 \<and> fresh ids n1 (cells t1) \<and> n \<le> n1"
    using tn1_def tn(1) assms(3,4) grow_wf [OF assms(1), of t n zero _ t1 n1] by (auto split: if_splits)
  have 2: "table_wf t2 \<and> fresh ids n2 (cells t2) \<and> n1 \<le> n2"
    using tn2_def tn 1 grow_wf [OF assms(1), of t1 n1 zero _ t2 n2] by (auto split: if_splits)
  have "paste_cell ids zero ps d c ((t, n), wh) =
      bind_result (paste_at c pos (fst tn2)) (\<lambda>u. return ((u, snd tn2), (max w (fst pos), max h (snd pos))))"
    by (simp add: paste_cell_def p Let_def wh tn1_def tn2_def pos_def)
  with assms(2) have "paste_at c pos t2 = Inr t'" "n' = n2"
    by (auto simp: tn bind_result_eq_Inr)
  with paste_at_wf [of t2 c pos t'] 1 2 show ?thesis by (auto simp: fresh_def)
qed

lemma pasteSelected_wf:
  assumes "inj ids" and "pasteSelected_table ids zero buf (t, n) = Inr (t', n')"
    and "table_wf t" and "fresh ids n (cells t)"
  shows "table_wf t' \<and> fresh ids n' (cells t') \<and> n \<le> n'"
proof (cases "paste_shift buf t")
  case None
  with assms(2-4) show ?thesis
    by (auto simp: paste_shift_def pasteSelected_table_def split: option.splits bind_splits)
next
  case (Some d)
  let ?P = "\<lambda>st. table_wf (fst (fst st)) \<and> fresh ids (snd (fst st)) (cells (fst (fst st))) \<and> n \<le> snd (fst st)"
  from assms(2) obtain wh where
    "fold_result (paste_cell ids zero (positions buf) d) (map snd (buf_cells buf)) ((t, n), table_dims t) = Inr ((t', n'), wh)"
    by (auto simp: pasteSelected_unfold [OF Some] bind_result_eq_Inr)
  then have "?P ((t', n'), wh)"
  proof (rule fold_result_invariant [where P = ?P])
    show "?P ((t, n), table_dims t)" using assms(3,4) by simp
    show "?P st'" if "?P st" "paste_cell ids zero (positions buf) d c st = Inr st'" for c st st'
      using that paste_cell_wf [OF assms(1), of zero "positions buf" d c "fst (fst st)" "snd (fst st)" "snd st"
          "fst (fst st')" "snd (fst st')" "snd st'"] by auto
  qed
  then show ?thesis by simp
qed

lemma keeps_wfI:
  "(\<And>t t'. table_wf t \<Longrightarrow> f t = Inr t' \<Longrightarrow> table_wf t' \<and> set (rec_keys (cells t')) \<subseteq> set (rec_keys (cells t))) \<Longrightarrow> keeps_wf f"
  by (simp add: keeps_wf_def)

lemma keeps_wf_return:
  "(\<And>t. table_wf t \<Longrightarrow> table_wf (g t) \<and> set (rec_keys (cells (g t))) \<subseteq> set (rec_keys (cells t))) \<Longrightarrow> keeps_wf (return \<circ> g)"
  by (simp add: keeps_wf_def)

lemma remoteCreated_wf: "table_wf t \<Longrightarrow> table_wf (t\<lparr>remoteCreated := True\<rparr>) \<and>
    set (rec_keys (cells (t\<lparr>remoteCreated := True\<rparr>))) \<subseteq> set (rec_keys (cells t))"
  by (simp add: table_wf_def)

lemmas keeps_wf_ops =
  keeps_wf_return [OF selectCells_wf] keeps_wf_return [OF setCellType_wf] keeps_wf_return [OF setEditable_wf]
  keeps_wf_return [OF remoteCreated_wf, unfolded comp_def]
  keeps_wfI [OF select_line_wf [OF _ disjI1]] keeps_wfI [OF select_line_wf [OF _ disjI2]]
  keeps_wfI [OF deleteRow_wf] keeps_wfI [OF deleteCol_wf] keeps_wfI [OF setCellProps_wf]
  keeps_wfI [OF resize_wf [OF _ disjI1]] keeps_wfI [OF resize_wf [OF _ disjI2]] keeps_wfI [OF clearSelected_wf]

lemma copySelected_tables:
  assumes "copySelected k s = Inr s'"
  shows "tables s' = tables s"
  using assms by (auto simp: copySelected_def bind_result_eq_Inr split: option.splits)

lemma table_reducer_inv:
  assumes inv: "table_inv ids sn" and ok: "table_action_ok ids a sn" and step: "table_reducer ids zero a sn = Inr sn'"
  shows "table_inv ids sn'"
proof -
  have inj: "inj ids" using inv by (simp add: table_inv_def)
  have keep: "keeps_wf f \<Longrightarrow> on_table k (keep_ids f) sn = Inr sn' \<Longrightarrow> table_inv ids sn'" for f k
    using on_table_keep_inv inv by blast
  show ?thesis
  proof (cases a)
    case (Create k t)
    moreover have "table_wf (t\<lparr>tb_key := k\<rparr>) = table_wf t" by (simp add: table_wf_def)
    ultimately show ?thesis
      using inv ok step put_table_inv [of ids "fst sn" "snd sn" "t\<lparr>tb_key := k\<rparr>" "snd sn" k]
      by (auto simp: table_action_ok_def table_reducer_def)
  next
    case (SelectCells k mode ks)
    with step show ?thesis by (auto simp: table_reducer_def intro: keep keeps_wf_ops)
  next
    case (AddRow k ix ck loc)
    with step ok show ?thesis
      by (auto simp: table_reducer_def table_action_ok_def intro!: on_table_inv [OF _ inv]
          dest: addRow_wf [OF _ _ inj] addRow_mono)
  next
    case (AddCol k ix ck loc)
    with step show ?thesis
      by (auto simp: table_reducer_def intro!: on_table_inv [OF _ inv] dest: addCol_wf [OF _ _ inj] addCol_mono)
  next
    case (CopySelected k)
    with step inv copySelected_tables [of k "fst sn"] show ?thesis
      by (auto simp: table_reducer_def table_inv_def bind_result_eq_Inr)
  next
    case (PasteSelected k)
    with step show ?thesis
      by (auto simp: table_reducer_def intro!: on_table_inv [OF _ inv] dest: pasteSelected_wf [OF inj])
  qed (use step in \<open>auto simp: table_reducer_def dest!: on_existing_table intro: keep keeps_wf_ops\<close>)
qed

interpretation tables_store: action_reducer "table_reducer ids zero" "table_inv ids" "table_action_ok ids" for ids zero
  by unfold_locales (rule table_reducer_inv)

section \<open>Selections\<close>

lemma region_mem:
  assumes "0 \<le> fst s" "0 \<le> snd s" "0 \<le> fst e" "0 \<le> snd e"
  shows "k \<in> set (allCellsInRegion t s e) \<longleftrightarrow>
    (\<exists>x y. on_grid t x y k \<and> min (fst s) (fst e) \<le> int x \<and> int x \<le> max (fst s) (fst e) \<and>
       min (snd s) (snd e) \<le> int y \<and> int y \<le> max (snd s) (snd e))" (is "?l \<longleftrightarrow> ?r")
proof
  assume ?l
  then obtain x y row where xy: "y \<in> {min (snd s) (snd e)..max (snd s) (snd e)}"
    "x \<in> {min (fst s) (fst e)..max (fst s) (fst e)}" "nth_opt (rows t) y = Some row" "nth_opt (row_cells row) x = Some k"
    by (fastforce simp: allCellsInRegion_def split: option.splits dest: sym)
  moreover from this assms have "x = int (nat x)" "y = int (nat y)" by auto
  ultimately show ?r
    by (intro exI [of _ "nat x"] exI [of _ "nat y"]) (auto simp: on_grid_def nth_opt_def split: if_splits)
next
  assume ?r
  then obtain x y where "on_grid t x y k" "int x \<in> {min (fst s) (fst e)..max (fst s) (fst e)}"
    "int y \<in> {min (snd s) (snd e)..max (snd s) (snd e)}" by auto
  then have "\<exists>y\<in>{min (snd s) (snd e)..max (snd s) (snd e)}. \<exists>x\<in>{min (fst s) (fst e)..max (fst s) (fst e)}.
      k \<in> set (case nth_opt (rows t) y of None \<Rightarrow> []
        | Some row \<Rightarrow> (case nth_opt (row_cells row) x of None \<Rightarrow> [] | Some k \<Rightarrow> [k]))"
    by - (rule bexI [of _ "int y"], rule bexI [of _ "int x"], auto simp: on_grid_def)
  then show ?l by (simp add: allCellsInRegion_def)
qed

lemma is_selected_where:
  assumes "cells_ok ks (cells t)"
  shows "is_selected (cells (select_where P t)) k \<longleftrightarrow> k \<in> set ks \<and> P k"
proof (cases "rec_get (cells t) k")
  case None
  then have "k \<notin> set ks" using cells_ok_get [OF assms, of k] by auto
  with None show ?thesis by (simp add: is_selected_def select_where_def)
next
  case (Some c)
  with cells_ok_key [OF assms Some] show ?thesis by (simp add: is_selected_def select_where_def)
qed

section \<open>Properties\<close>

text \<open>
  C6: Every sequence of actions keeps every table well formed: the grid stays rectangular, its keys are distinct and
  are exactly the keys of the cells, and keys that are still to be drawn are not in use. A created table has to be
  well formed, and a row that is placed beside a cell needs the cell to exist.
\<close>

theorem tables_stay_well_formed:
  assumes "reachable (table_reducer ids zero) (table_action_ok ids) s t" and "table_inv ids s"
  shows "table_inv ids t"
  by (rule tables_store.reachable_inv [OF assms])

theorem tables_stay_well_formed_witness:
  "table_inv sample_ids (store_dispatch (table_reducer sample_ids ()) (AddRow ''t'' None None None)
     (store_dispatch (table_reducer sample_ids ()) (Create ''t'' (sample_table [] 2 2 0)) (ZERO_SLICE_STATE, 0)))"
proof -
  let ?step = "table_reducer sample_ids ()" and ?ok = "table_action_ok sample_ids"
  have "reachable ?step ?ok (ZERO_SLICE_STATE, 0) (store_dispatch ?step (Create ''t'' (sample_table [] 2 2 0)) (ZERO_SLICE_STATE, 0))"
    by (rule reachable.action [OF reachable.initial]) (simp add: table_action_ok_def fresh_sample, code_simp)
  then have "reachable ?step ?ok (ZERO_SLICE_STATE, 0) (store_dispatch ?step (AddRow ''t'' None None None)
      (store_dispatch ?step (Create ''t'' (sample_table [] 2 2 0)) (ZERO_SLICE_STATE, 0)))"
    by (rule reachable.action) (simp add: table_action_ok_def row_placed_def split: option.splits)
  then show ?thesis
    by (rule tables_stay_well_formed) (simp add: table_inv_def inj_sample_ids ZERO_SLICE_STATE_def)
qed

text \<open>
  Selecting a region of an editable table selects exactly the cells of the rectangle that the last
  selected cell and the first given cell span, whichever corners they are.
\<close>

theorem selectCells_region_spec:
  assumes "table_wf t" and "editable t" and "ks \<noteq> []" and "lastSelected t = Some l"
    and "findCellPosition t l = Some s" and "findCellPosition t (hd ks) = Some e"
  shows "is_selected (cells (selectCells_table Region ks t)) k \<longleftrightarrow>
    (\<exists>x y. findCellPosition t k = Some (int x, int y) \<and>
       min (fst s) (fst e) \<le> int x \<and> int x \<le> max (fst s) (fst e) \<and>
       min (snd s) (snd e) \<le> int y \<and> int y \<le> max (snd s) (snd e))"
proof -
  have ok: "cells_ok (keys_of (rows t)) (cells t)" and d: "distinct (keys_of (rows t))"
    using assms(1) by (auto simp: table_wf_def cells_ok_def)
  have "cells (selectCells_table Region ks t) = cells (select_where (\<lambda>k. k \<in> set (allCellsInRegion t s e)) t)"
    using assms(2-6) by (simp add: selectCells_table_def)
  then have "is_selected (cells (selectCells_table Region ks t)) k \<longleftrightarrow>
      k \<in> set (keys_of (rows t)) \<and> k \<in> set (allCellsInRegion t s e)"
    using is_selected_where [OF ok] by simp
  also have "\<dots> \<longleftrightarrow> k \<in> set (allCellsInRegion t s e)"
    using region_mem [of s e k t] findCellPosition_sound [OF assms(5)] findCellPosition_sound [OF assms(6)]
      keys_of_on_grid [of k t] by blast
  finally show ?thesis
    using region_mem [of s e k t] findCellPosition_sound [OF assms(5)] findCellPosition_sound [OF assms(6)]
      findCellPosition_iff [OF d] by simp
qed

theorem selectCells_region_spec_witness:
  "table_wf (sample_table [] 2 2 0) \<and>
   is_selected (cells (selectCells_table Region [''kkk''] (sample_table [] 2 2 0))) ''kkk''"
proof -
  have "table_wf (sample_table [] 2 2 0)" by code_simp
  moreover have "findCellPosition (sample_table [] 2 2 0) ''k'' = Some (0, 0)"
    "findCellPosition (sample_table [] 2 2 0) ''kkk'' = Some (0, 1)"
    "editable (sample_table [] 2 2 0)" "lastSelected (sample_table [] 2 2 0) = Some ''k''" by code_simp+
  ultimately show ?thesis
    using selectCells_region_spec [of "sample_table [] 2 2 0" "[''kkk'']" "''k''" "(0, 0)" "(0, 1)" "''kkk''"] 
    by (auto intro: exI [of _ "0::nat"] exI [of _ "1::nat"])
qed

text \<open>
  Adding a column to the right of a cell gives the new width to the column on its left, since the
  sizes are spliced one position before the cells.
\<close>

theorem addCol_right_gives_the_width_to_the_left:
  "columns (fst (addCol_table sample_ids () None (Some ''k'') (Some XRight) ((sample_table [] 1 2 0)\<lparr>columns := [100, 72]\<rparr>, 0))) = [72, 100, 72]
  \<and> map row_cells (rows (fst (addCol_table sample_ids () None (Some ''k'') (Some XRight) ((sample_table [] 1 2 0)\<lparr>columns := [100, 72]\<rparr>, 0)))) = [[''k'', '''', ''kk'']]"
  by code_simp

end
