(* ===== verification/Compare.thy ===== *)
theory Compare
  imports Prelude "HOL-Library.Multiset" "HOL-Library.List_Lexorder" "HOL-Library.Char_ord"
begin

text \<open>
  The comparison of arrays of primitive values (\<open>x/ts/src/compare/compare.ts\<close>).  \<open>localeCompare\<close> is taken for an order of texts in
  which only equal texts are equal; which order it is makes no difference to the results here.
\<close>

section \<open>Results\<close>

definition EQUAL :: int where "EQUAL = 0"
definition LESS_THAN :: int where "LESS_THAN = -1"
definition GREATER_THAN :: int where "GREATER_THAN = 1"

section \<open>Arrays\<close>

definition primitiveArrays :: "'a list \<Rightarrow> 'a list \<Rightarrow> int" where
  "primitiveArrays a b =
     (if length a \<noteq> length b then int (length a) - int (length b) else if list_all2 (=) a b then 0 else - 1)"

definition unorderedPrimitiveArrays :: "'a::linorder list \<Rightarrow> 'a list \<Rightarrow> int" where
  "unorderedPrimitiveArrays a b =
     (if length a \<noteq> length b then int (length a) - int (length b)
      else if length a = 0 then 0
      else let aSorted = sort a; bSorted = sort b in if list_all2 (=) aSorted bSorted then 0 else - 1)"

definition uniqueUnorderedPrimitiveArrays :: "'a::linorder list \<Rightarrow> 'a list \<Rightarrow> int" where
  "uniqueUnorderedPrimitiveArrays a b = unorderedPrimitiveArrays (unique a) (unique b)"

lemma primitiveArrays_equal: "primitiveArrays a b = EQUAL \<longleftrightarrow> a = b"
  by (auto simp: primitiveArrays_def EQUAL_def list.rel_eq)

lemma unorderedPrimitiveArrays_equal: "unorderedPrimitiveArrays a b = EQUAL \<longleftrightarrow> mset a = mset b"
proof (cases "length a = length b")
  case True
  have "sort a = sort b \<longleftrightarrow> mset a = mset b" by (metis mset_sort properties_for_sort sorted_sort)
  with True show ?thesis by (auto simp: unorderedPrimitiveArrays_def EQUAL_def Let_def list.rel_eq)
next
  case False
  then have "mset a \<noteq> mset b" using mset_eq_length by blast
  with False show ?thesis by (simp add: unorderedPrimitiveArrays_def EQUAL_def)
qed

lemma uniqueUnorderedPrimitiveArrays_equal: "uniqueUnorderedPrimitiveArrays a b = EQUAL \<longleftrightarrow> set a = set b"
  by (simp add: uniqueUnorderedPrimitiveArrays_def unorderedPrimitiveArrays_equal set_unique
      set_eq_iff_mset_eq_distinct [OF set_unique(2) set_unique(2), symmetric])

end
