(* ===== verification/Migrate.thy ===== *)
theory Migrate
  imports Js_Text Compare
begin

text \<open>
  The migration of persisted state (\<open>x/ts/src/migrate/migrate.ts\<close>): the comparison of semantic
  versions and the migrator, which applies the migrations of a record keyed by their input versions
  until the version is newer than every one of them.

  A persisted value is its optional version and its other fields, a type parameter.  The migrations
  are the caller's: they are arguments, functions that may throw.  The calls of the inner function \<open>f\<close>
  are nested, so that a chain of migrations that does not end exhausts the call stack: \<open>depth\<close> is the
  number of calls that fit, and a call that does not fit throws the \<open>RangeError\<close> that its caller catches.
\<close>

section \<open>Semantic versions\<close>

text \<open>The parts of a version are natural numbers: \<open>Number\<close> is exact for parts up to 2^53.\<close>

definition semVerZ :: "string \<Rightarrow> (nat \<times> nat \<times> nat) result" where
  "semVerZ s =
     (case js_split ''.'' s of
        [a, b, c] \<Rightarrow>
          if is_decimal a \<and> is_decimal b \<and> is_decimal c
          then return (decimal_value a, decimal_value b, decimal_value c) else throw ''ZodError''
      | _ \<Rightarrow> throw ''ZodError'')"

record semver_opts =
  checkMajor :: "bool option"
  checkMinor :: "bool option"
  checkPatch :: "bool option"

definition no_opts :: semver_opts where
  "no_opts = \<lparr>checkMajor = None, checkMinor = None, checkPatch = None\<rparr>"

definition enabled :: "bool option \<Rightarrow> bool" where
  "enabled b = (case b of None \<Rightarrow> True | Some v \<Rightarrow> v)"

text \<open>One of the three parts: the rest is consulted when the part is not checked or the numbers agree.\<close>

definition compare_part :: "bool \<Rightarrow> nat \<Rightarrow> nat \<Rightarrow> int \<Rightarrow> int" where
  "compare_part check a b rest =
     (if check \<and> a < b then LESS_THAN else if check \<and> a > b then GREATER_THAN else rest)"

definition compareSemVer :: "string \<Rightarrow> string \<Rightarrow> semver_opts \<Rightarrow> int result" where
  "compareSemVer a b opts =
     bind_result (semVerZ a) (\<lambda>(aMajor, aMinor, aPatch).
     bind_result (semVerZ b) (\<lambda>(bMajor, bMinor, bPatch).
     return (compare_part (enabled (checkMajor opts)) aMajor bMajor
              (compare_part (enabled (checkMinor opts)) aMinor bMinor
                (compare_part (enabled (checkPatch opts)) aPatch bPatch EQUAL)))))"

definition versionsEqual :: "string \<Rightarrow> string \<Rightarrow> semver_opts \<Rightarrow> bool result" where
  "versionsEqual a b opts = bind_result (compareSemVer a b opts) (\<lambda>n. return (n = EQUAL))"

definition semVerNewer :: "string \<Rightarrow> string \<Rightarrow> semver_opts \<Rightarrow> bool result" where
  "semVerNewer a b opts = bind_result (compareSemVer a b opts) (\<lambda>n. return (n > EQUAL))"

definition semVerOlder :: "string \<Rightarrow> string \<Rightarrow> semver_opts \<Rightarrow> bool result" where
  "semVerOlder a b opts = bind_result (compareSemVer a b opts) (\<lambda>n. return (n < EQUAL))"

section \<open>The migrator\<close>

record 's versioned =
  version :: "string option"
  carried :: 's

type_synonym 's migration = "'s versioned \<Rightarrow> 's versioned result"

definition createMigration :: "'s migration \<Rightarrow> 's migration" where
  "createMigration migrate input = (case migrate input of Inl e \<Rightarrow> throw e | Inr out \<Rightarrow> return out)"

text \<open>\<open>keys.sort(compareSemVer)\<close> as a stable insertion sort; a version that does not parse throws.\<close>

fun insert_version :: "string \<Rightarrow> string list \<Rightarrow> string list result" where
  "insert_version v [] = return [v]"
| "insert_version v (w # ws) =
     bind_result (compareSemVer w v no_opts)
       (\<lambda>n. if n \<le> EQUAL then bind_result (insert_version v ws) (\<lambda>vs. return (w # vs)) else return (v # w # ws))"

definition sort_versions :: "string list \<Rightarrow> string list result" where
  "sort_versions vs = fold_result insert_version vs []"

definition latestMigrationVersion :: "(string, 's migration) rec \<Rightarrow> string option result" where
  "latestMigrationVersion migrations =
     bind_result (sort_versions (rec_keys migrations)) (\<lambda>vs. return (if vs = [] then None else Some (last vs)))"

fun migrate_f ::
  "nat \<Rightarrow> (string, 's migration) rec \<Rightarrow> string \<Rightarrow> 's versioned \<Rightarrow> 's versioned \<Rightarrow> 's versioned result" where
  "migrate_f 0 migrations latest def old = throw ''RangeError''"
| "migrate_f (Suc depth) migrations latest def old =
     (let attempt =
        (case version old of
           None \<Rightarrow> throw ''ZodError''
         | Some v \<Rightarrow>
             bind_result (semVerNewer v latest no_opts) (\<lambda>newer.
               if newer then return old
               else case rec_get migrations v of
                      None \<Rightarrow> throw ''TypeError''
                    | Some m \<Rightarrow> bind_result (m old) (migrate_f depth migrations latest def)))
      in case attempt of Inl e \<Rightarrow> return def | Inr new \<Rightarrow> return new)"

text \<open>
  The function that \<open>migrator\<close> returns; \<open>targetSchema\<close> is the parser of the target, when there is one.
  Sorting the versions happens once, when the migrator is made, and may throw there.
\<close>

definition migrator ::
  "nat \<Rightarrow> (string, 's migration) rec \<Rightarrow> 's migration option \<Rightarrow> string option \<Rightarrow> 's versioned \<Rightarrow>
   ('s versioned \<Rightarrow> 's versioned) result" where
  "migrator depth migrations targetSchema defaultVersion def =
     bind_result (latestMigrationVersion migrations) (\<lambda>l. return (\<lambda>v.
       let v1 = (case version v of None \<Rightarrow> v\<lparr>version := defaultVersion\<rparr> | Some _ \<Rightarrow> v)
       in case l of
            None \<Rightarrow>
              if version v1 \<noteq> version def then def
              else (case targetSchema of
                      None \<Rightarrow> v1
                    | Some parse \<Rightarrow> (case parse v1 of Inl _ \<Rightarrow> def | Inr w \<Rightarrow> w))
          | Some latest \<Rightarrow>
              if version v1 = None then def
              else (case migrate_f depth migrations latest def v1 of Inl _ \<Rightarrow> def | Inr w \<Rightarrow> w)))"

section \<open>The order of versions\<close>

definition ver :: "string \<Rightarrow> nat \<times> nat \<times> nat" where
  "ver s = (case semVerZ s of Inr v \<Rightarrow> v | Inl _ \<Rightarrow> (0, 0, 0))"

definition valid_version :: "string \<Rightarrow> bool" where
  "valid_version s \<longleftrightarrow> (case semVerZ s of Inr _ \<Rightarrow> True | Inl _ \<Rightarrow> False)"

text \<open>The lexicographic order of the three numbers, as a specification of the comparison.\<close>

fun ver_less :: "nat \<times> nat \<times> nat \<Rightarrow> nat \<times> nat \<times> nat \<Rightarrow> bool" where
  "ver_less (a, b, c) (a', b', c') \<longleftrightarrow> a < a' \<or> a = a' \<and> (b < b' \<or> b = b' \<and> c < c')"

lemma ver_less_order:
  "\<not> ver_less x x"
  "ver_less x y \<Longrightarrow> ver_less y z \<Longrightarrow> ver_less x z"
  "\<not> ver_less x y \<Longrightarrow> \<not> ver_less y x \<Longrightarrow> x = y"
  by (cases x; cases y; cases z; auto)+

lemma valid_semVerZ: "valid_version s \<Longrightarrow> semVerZ s = Inr (ver s)"
  by (auto simp: valid_version_def ver_def split: sum.splits)

lemma compareSemVer_valid:
  assumes "valid_version a" and "valid_version b"
  shows "compareSemVer a b no_opts =
    Inr (if ver_less (ver a) (ver b) then LESS_THAN else if ver_less (ver b) (ver a) then GREATER_THAN else EQUAL)"
  using assms
  by (cases "ver a"; cases "ver b")
    (auto simp: compareSemVer_def valid_semVerZ compare_part_def no_opts_def enabled_def)

lemma semVerNewer_valid:
  assumes "valid_version a" and "valid_version b"
  shows "semVerNewer a b no_opts = Inr (ver_less (ver b) (ver a))"
  using compareSemVer_valid [OF assms] ver_less_order(2) [of "ver a" "ver b" "ver a"] ver_less_order(1) [of "ver a"]
  by (auto simp: semVerNewer_def EQUAL_def LESS_THAN_def GREATER_THAN_def)

lemma compareSemVer_invalid:
  "\<not> valid_version a \<or> \<not> valid_version b \<Longrightarrow> compareSemVer a b opts = throw ''ZodError''"
  by (auto simp: compareSemVer_def valid_version_def semVerZ_def bind_result_def split: sum.splits list.splits if_splits)

definition ver_sorted :: "string list \<Rightarrow> bool" where
  "ver_sorted vs \<longleftrightarrow> sorted_wrt (\<lambda>v w. \<not> ver_less (ver w) (ver v)) vs"

lemma insert_version_sorted:
  assumes "valid_version v" and "\<forall>w\<in>set ws. valid_version w" and "ver_sorted ws"
  shows "\<exists>vs. insert_version v ws = Inr vs \<and> mset vs = add_mset v (mset ws) \<and> ver_sorted vs"
  using assms
proof (induction ws)
  case (Cons w ws)
  have cmp: "compareSemVer w v no_opts =
      Inr (if ver_less (ver w) (ver v) then LESS_THAN else if ver_less (ver v) (ver w) then GREATER_THAN else EQUAL)"
    using Cons.prems by (intro compareSemVer_valid) auto
  from Cons obtain vs where vs: "insert_version v ws = Inr vs" "mset vs = add_mset v (mset ws)" "ver_sorted vs"
    by (auto simp: ver_sorted_def)
  show ?case
  proof (cases "ver_less (ver v) (ver w)")
    case True
    then have "\<not> ver_less (ver w) (ver v)" using ver_less_order(1,2) by blast
    moreover have "\<not> ver_less (ver u) (ver v)" if "u \<in> set ws" for u
      using Cons.prems(3) that True ver_less_order(2) [of "ver u" "ver v" "ver w"] by (auto simp: ver_sorted_def)
    ultimately show ?thesis
      using True cmp Cons.prems(3) by (auto simp: ver_sorted_def EQUAL_def GREATER_THAN_def)
  next
    case False
    then have "ver_sorted (w # vs)"
      using vs Cons.prems(3) mset_eq_setD [of vs "v # ws"] by (auto simp: ver_sorted_def)
    with False cmp vs show ?thesis by (auto simp: EQUAL_def LESS_THAN_def)
  qed
qed (simp add: ver_sorted_def)

lemma sort_versions_sorted:
  assumes "\<forall>v\<in>set vs. valid_version v"
  shows "\<exists>ws. sort_versions vs = Inr ws \<and> mset ws = mset vs \<and> ver_sorted ws"
proof -
  have "\<exists>ws. fold_result insert_version vs us = Inr ws \<and> mset ws = mset vs + mset us \<and> ver_sorted ws"
    if "\<forall>v\<in>set us. valid_version v" and "ver_sorted us" for us
    using assms that
  proof (induction vs arbitrary: us)
    case (Cons v vs)
    from insert_version_sorted [of v us] Cons.prems obtain us' where
      us': "insert_version v us = Inr us'" "mset us' = add_mset v (mset us)" "ver_sorted us'" by auto
    have "set us' = insert v (set us)" using mset_eq_setD [of us' "v # us"] us'(2) by simp
    with Cons.IH [of us'] Cons.prems us' show ?case by auto
  qed simp
  from this [of "[]"] show ?thesis by (simp add: sort_versions_def ver_sorted_def)
qed

lemma latest_is_newest:
  assumes "\<forall>v\<in>set (rec_keys ms). valid_version v" and "ms \<noteq> []"
  shows "\<exists>l. latestMigrationVersion ms = Inr (Some l) \<and> l \<in> set (rec_keys ms) \<and>
    (\<forall>v\<in>set (rec_keys ms). \<not> ver_less (ver l) (ver v))"
proof -
  from sort_versions_sorted [OF assms(1)] obtain ws where
    ws: "sort_versions (rec_keys ms) = Inr ws" "mset ws = mset (rec_keys ms)" "ver_sorted ws" by blast
  have set: "set ws = set (rec_keys ms)" using mset_eq_setD [OF ws(2)] .
  then have "ws \<noteq> []" using assms(2) by (auto simp: rec_keys_def)
  moreover from this have "\<forall>v\<in>set ws. \<not> ver_less (ver (last ws)) (ver v)"
    using ws(3) unfolding ver_sorted_def
    by (induction ws rule: rev_induct) (auto simp: sorted_wrt_append ver_less_order(1))
  ultimately show ?thesis using ws(1) set by (auto simp: latestMigrationVersion_def)
qed

section \<open>Chains of migrations\<close>

inductive migrates :: "(string, 's migration) rec \<Rightarrow> 's versioned \<Rightarrow> 's versioned \<Rightarrow> bool" for ms where
  stop: "migrates ms s s"
| step: "version s = Some v \<Longrightarrow> rec_get ms v = Some m \<Longrightarrow> m s = Inr s' \<Longrightarrow> migrates ms s' t \<Longrightarrow> migrates ms s t"

text \<open>
  What a record of migrations has to promise: every migration succeeds on the values of its version and
  returns a newer version, which has a migration of its own or is newer than all of them.
\<close>

definition chain_ok :: "(string, 's migration) rec \<Rightarrow> string \<Rightarrow> bool" where
  "chain_ok ms latest \<longleftrightarrow> (\<forall>v m. rec_get ms v = Some m \<longrightarrow> (\<forall>s. version s = Some v \<longrightarrow>
     (\<exists>s' v'. m s = Inr s' \<and> version s' = Some v' \<and> valid_version v' \<and> ver_less (ver v) (ver v') \<and>
        (v' \<in> set (rec_keys ms) \<or> ver_less (ver latest) (ver v')))))"

definition pending :: "(string, 's migration) rec \<Rightarrow> string \<Rightarrow> nat" where
  "pending ms v = length (filter (\<lambda>k. \<not> ver_less (ver k) (ver v)) (rec_keys ms))"

lemma pending_decreases:
  assumes "v \<in> set (rec_keys ms)" and "ver_less (ver v) (ver v')"
  shows "pending ms v' < pending ms v"
proof -
  have sub: "\<not> ver_less (ver k) (ver v') \<Longrightarrow> \<not> ver_less (ver k) (ver v)" for k
    using ver_less_order(2) [of "ver k" "ver v" "ver v'"] assms(2) by blast
  have "filter (\<lambda>k. \<not> ver_less (ver k) (ver v')) (rec_keys ms) =
      filter (\<lambda>k. \<not> ver_less (ver k) (ver v')) (filter (\<lambda>k. \<not> ver_less (ver k) (ver v)) (rec_keys ms))"
    by (auto intro!: filter_cong dest: sub)
  moreover have "\<exists>k\<in>set (filter (\<lambda>k. \<not> ver_less (ver k) (ver v)) (rec_keys ms)). \<not> \<not> ver_less (ver k) (ver v')"
    using assms ver_less_order(1) [of "ver v"] by auto
  ultimately show ?thesis unfolding pending_def by (metis (no_types, lifting) length_filter_less)
qed

lemma migrate_f_reaches:
  assumes chain: "chain_ok ms latest" and valid: "\<forall>v\<in>set (rec_keys ms). valid_version v" "valid_version latest"
    and "version s = Some v" and "valid_version v" and "v \<in> set (rec_keys ms) \<or> ver_less (ver latest) (ver v)"
    and newest: "\<forall>v\<in>set (rec_keys ms). \<not> ver_less (ver latest) (ver v)" and "pending ms v < depth"
  shows "\<exists>t w. migrate_f depth ms latest def s = Inr t \<and> migrates ms s t \<and> version t = Some w \<and> ver_less (ver latest) (ver w)"
  using assms(4-6,8)
proof (induction depth arbitrary: s v)
  case (Suc depth)
  have newer: "semVerNewer v latest no_opts = Inr (ver_less (ver latest) (ver v))"
    using Suc.prems(2) valid(2) by (rule semVerNewer_valid)
  show ?case
  proof (cases "ver_less (ver latest) (ver v)")
    case True
    with newer Suc.prems(1) show ?thesis by (auto intro: migrates.stop)
  next
    case False
    then have key: "v \<in> set (rec_keys ms)" using Suc.prems(3) by blast
    then have "rec_get ms v \<noteq> None" unfolding rec_get_keys .
    then obtain m where m: "rec_get ms v = Some m" by blast
    with chain Suc.prems(1) obtain s' v' where s': "m s = Inr s'" "version s' = Some v'" "valid_version v'"
      "ver_less (ver v) (ver v')" "v' \<in> set (rec_keys ms) \<or> ver_less (ver latest) (ver v')"
      unfolding chain_ok_def by blast
    have "pending ms v' < depth" using pending_decreases [OF key s'(4)] Suc.prems(4) by simp
    from Suc.IH [OF s'(2,3,5) this] obtain t w where
      t: "migrate_f depth ms latest def s' = Inr t" "migrates ms s' t" "version t = Some w" "ver_less (ver latest) (ver w)"
      by blast
    have "migrates ms s t" using Suc.prems(1) m s'(1) t(2) by (rule migrates.step)
    with newer False m s' t Suc.prems(1) show ?thesis by simp
  qed
qed simp

lemma pending_le: "pending ms v \<le> length ms"
  by (simp add: pending_def rec_keys_def le_trans [OF length_filter_le])

section \<open>Properties\<close>

text \<open>
  C9: For a record of migrations whose versions are semantic versions, with each migration succeeding and leading to a newer version
  that has a migration or is newer than all of them, the migrator is made, and a call stack deeper than the
  number of migrations is enough: a value of a known version ends, through the migrations alone, at a version
  newer than that of every migration, and never at the default.
\<close>

theorem migrator_reaches_latest:
  assumes "\<forall>v\<in>set (rec_keys ms). valid_version v" and "ms \<noteq> []" and "\<And>l. l \<in> set (rec_keys ms) \<Longrightarrow>
      \<forall>v\<in>set (rec_keys ms). \<not> ver_less (ver l) (ver v) \<Longrightarrow> chain_ok ms l"
    and "version s = Some v" and "v \<in> set (rec_keys ms)" and "length ms < depth"
  shows "\<exists>run l w. migrator depth ms targetSchema defaultVersion def = Inr run \<and>
    latestMigrationVersion ms = Inr (Some l) \<and> migrates ms s (run s) \<and>
    version (run s) = Some w \<and> ver_less (ver l) (ver w)"
proof -
  from latest_is_newest [OF assms(1,2)] obtain l where l: "latestMigrationVersion ms = Inr (Some l)"
    "l \<in> set (rec_keys ms)" "\<forall>v\<in>set (rec_keys ms). \<not> ver_less (ver l) (ver v)" by blast
  have "pending ms v < depth" using pending_le [of ms v] assms(6) by simp
  with migrate_f_reaches [OF assms(3) [OF l(2,3)] assms(1) _ assms(4) _ _ l(3)] l(2) assms(1,5)
  obtain t w where "migrate_f depth ms l def s = Inr t" "migrates ms s t" "version t = Some w" "ver_less (ver l) (ver w)"
    by blast
  with l(1) assms(4) show ?thesis by (simp add: migrator_def Let_def)
qed

definition sample_migrations :: "(string, unit migration) rec" where
  "sample_migrations =
     [(''10.0.0'', \<lambda>s. return (s\<lparr>version := Some ''10.0.1''\<rparr>)), (''9.1.0'', \<lambda>s. return (s\<lparr>version := Some ''10.0.0''\<rparr>))]"

lemma sample_versions:
  "ver ''9.1.0'' = (9, 1, 0)" "ver ''10.0.0'' = (10, 0, 0)" "ver ''10.0.1'' = (10, 0, 1)"
  "valid_version ''9.1.0''" "valid_version ''10.0.0''" "valid_version ''10.0.1''"
  by code_simp+

lemma sample_chain:
  assumes "l \<in> set (rec_keys sample_migrations)"
  shows "chain_ok sample_migrations l"
proof -
  have l: "ver_less (ver l) (ver ''10.0.1'')"
    using assms by (auto simp: sample_migrations_def rec_keys_def sample_versions)
  show ?thesis
    unfolding chain_ok_def
  proof (intro allI impI)
    fix v m and s :: "unit versioned"
    assume "rec_get sample_migrations v = Some m" and s: "version s = Some v"
    then consider "v = ''10.0.0''" "m s = Inr (s\<lparr>version := Some ''10.0.1''\<rparr>)"
      | "v = ''9.1.0''" "m s = Inr (s\<lparr>version := Some ''10.0.0''\<rparr>)"
      by (auto simp: sample_migrations_def split: if_splits)
    then show "\<exists>s' v'. m s = Inr s' \<and> version s' = Some v' \<and> valid_version v' \<and> ver_less (ver v) (ver v') \<and>
        (v' \<in> set (rec_keys sample_migrations) \<or> ver_less (ver l) (ver v'))"
      using l by cases (simp_all add: sample_versions, simp add: sample_migrations_def rec_keys_def)
  qed
qed

theorem migrator_reaches_latest_witness:
  "\<exists>run l w. migrator 3 sample_migrations None None \<lparr>version = Some ''10.0.1'', carried = ()\<rparr> = Inr run \<and>
    latestMigrationVersion sample_migrations = Inr (Some l) \<and>
    migrates sample_migrations \<lparr>version = Some ''9.1.0'', carried = ()\<rparr> (run \<lparr>version = Some ''9.1.0'', carried = ()\<rparr>) \<and>
    version (run \<lparr>version = Some ''9.1.0'', carried = ()\<rparr>) = Some w \<and> ver_less (ver l) (ver w)"
proof (rule migrator_reaches_latest)
  show "\<forall>v\<in>set (rec_keys sample_migrations). valid_version v"
    by (simp add: sample_migrations_def rec_keys_def sample_versions)
qed (auto simp: sample_chain, auto simp: sample_migrations_def rec_keys_def)

text \<open>
  C39: Nothing that goes wrong while migrating reaches the caller: a value whose version is not a semantic version, or is not newer than
  the latest migration and has no migration, and a value whose migration throws, all become the default.
\<close>

theorem migrator_falls_back:
  assumes "latestMigrationVersion ms = Inr (Some l)" and "valid_version l" and "version s = Some v"
    and "valid_version v \<Longrightarrow> \<not> ver_less (ver l) (ver v) \<and>
      (case rec_get ms v of None \<Rightarrow> True | Some m \<Rightarrow> (case m s of Inl _ \<Rightarrow> True | Inr _ \<Rightarrow> False))"
  shows "\<exists>run. migrator (Suc depth) ms targetSchema defaultVersion def = Inr run \<and> run s = def"
proof -
  have "migrate_f (Suc depth) ms l def s = Inr def"
  proof (cases "valid_version v")
    case True
    with assms(2-4) show ?thesis
      by (auto simp: semVerNewer_valid split: option.splits sum.splits)
  next
    case False
    then have "semVerNewer v l no_opts = throw ''ZodError''" by (simp add: semVerNewer_def compareSemVer_invalid)
    with assms(3) show ?thesis by simp
  qed
  with assms(1,3) show ?thesis by (simp add: migrator_def Let_def)
qed

theorem migrator_falls_back_witness:
  "\<exists>run. migrator (Suc 5) sample_migrations None None \<lparr>version = Some ''10.0.1'', carried = ()\<rparr> = Inr run \<and>
     run \<lparr>version = Some ''9.2.0'', carried = ()\<rparr> = \<lparr>version = Some ''10.0.1'', carried = ()\<rparr>"
proof (rule migrator_falls_back)
  show "latestMigrationVersion sample_migrations = Inr (Some ''10.0.0'')"
    unfolding sample_migrations_def latestMigrationVersion_def rec_keys_def list.map fst_conv by code_simp
  show "\<not> ver_less (ver ''10.0.0'') (ver ''9.2.0'') \<and>
      (case rec_get sample_migrations ''9.2.0'' of None \<Rightarrow> True
       | Some m \<Rightarrow> (case m \<lparr>version = Some ''9.2.0'', carried = ()\<rparr> of Inl _ \<Rightarrow> True | Inr _ \<Rightarrow> False))"
    by code_simp
  show "valid_version ''10.0.0''" by code_simp
qed simp

text \<open>The order is that of the numbers and not that of the text, and an unchecked part is skipped.\<close>

lemma compareSemVer_examples:
  "compareSemVer ''0.10.0'' ''0.9.0'' no_opts = return GREATER_THAN"
  "compareSemVer ''1.2.3'' ''1.2.4'' (no_opts\<lparr>checkPatch := Some False\<rparr>) = return EQUAL"
  "compareSemVer ''1.2'' ''1.2.4'' no_opts = throw ''ZodError''"
  by code_simp+

text \<open>
  A value from a newer release is returned as it is when there are migrations and replaced by the default
  when there are none; the target schema is only consulted in the second case.
\<close>

lemma migrator_newer_value:
  assumes "latestMigrationVersion ms = Inr (Some l)" and "valid_version l" and "version s = Some v"
    and "valid_version v" and "ver_less (ver l) (ver v)" and "version def \<noteq> Some v"
  shows "migrator (Suc depth) ms targetSchema defaultVersion def = Inr run \<Longrightarrow> run s = s"
    and "migrator depth [] targetSchema defaultVersion def = Inr run \<Longrightarrow> run s = def"
  using assms
  by (auto simp: migrator_def Let_def semVerNewer_valid latestMigrationVersion_def sort_versions_def rec_keys_def)

end
