(* ===== verification/Layout_Slice.thy ===== *)
theory Layout_Slice
  imports Mosaic Migrate Reducer "HOL-Library.List_Lexorder" "HOL-Library.Char_ord"
begin

text \<open>
  The reducer of the layouts of the console (\<open>console/src/layout/slice.ts\<close>, with the state and the
  migrations of \<open>console/src/layout/types\<close>): which layouts are open, the mosaic of every window with the
  tabs of the layouts placed in it, the navigation drawers and the theme.

  The state is versioned, as the migrator needs it.  What the reducer only carries along (arguments,
  window properties, themes, the dragged items and the color context) has the type parameter \<open>'d\<close>.
  \<open>null\<close> and \<open>undefined\<close> are both \<open>None\<close>; the code tells them apart nowhere.  The reducer runs on a draft,
  so that an exception leaves the state as it was.  \<open>setColorContext\<close> is left out: it only converts the
  colors of its payload.
\<close>

section \<open>State\<close>

datatype placement = InWindow | InMosaic | InModal

record tab_props =
  tp_closable :: "bool option"
  tp_editable :: "bool option"
  tp_location :: "location option"
  tp_mosaicKey :: "rat option"

record 'd layout =
  lkey :: string
  ltype :: string
  lname :: string
  licon :: "string option"
  llocation :: placement
  lwindowKey :: string
  lwindow :: "'d option"
  ltab :: "tab_props option"
  largs :: "'d option"
  excludeFromWorkspace :: "bool option"
  beta :: "bool option"
  lunsavedChanges :: "bool option"

record mosaic_state =
  activeTab :: "string option"
  mroot :: node
  focused :: "string option"

datatype nav_location = NavLeft | NavRight | NavBottom

record drawer =
  activeItem :: "string option"
  menuItems :: "string list"
  drawer_size :: "rat option"
  hover :: "bool option"

record 'd layout_slice =
  activeTheme :: "string option"
  themes :: "(string, 'd) rec"
  layouts :: "(string, 'd layout) rec"
  hauling :: 'd
  mosaics :: "(string, mosaic_state) rec"
  nav :: "(string, (nav_location, drawer) rec) rec"
  alreadyCheckedGetStarted :: bool
  altKeyToKey :: "(string, string) rec"
  keyToAltKey :: "(string, string) rec"
  colorContext :: 'd

definition MAIN_WINDOW :: string where "MAIN_WINDOW = ''main''"
definition MOSAIC_WINDOW_TYPE :: string where "MOSAIC_WINDOW_TYPE = ''mosaicWindow''"
definition GET_STARTED_TYPE :: string where "GET_STARTED_TYPE = ''getStarted''"

definition ZERO_MOSAIC_STATE :: mosaic_state where
  "ZERO_MOSAIC_STATE = \<lparr>activeTab = None, mroot = leaf 1 [] None, focused = None\<rparr>"

definition plain_drawer :: "string list \<Rightarrow> drawer" where
  "plain_drawer items = \<lparr>activeItem = None, menuItems = items, drawer_size = None, hover = None\<rparr>"

definition ZERO_NAV_STATE :: "(string, (nav_location, drawer) rec) rec" where
  "ZERO_NAV_STATE =
     [(''main'',
       [(NavLeft, plain_drawer [''channel'', ''range'', ''workspace'', ''device'', ''task'', ''user'']),
        (NavRight, plain_drawer []),
        (NavBottom, plain_drawer [''visualization''])])]"

text \<open>\<open>navTop\<close> is the window property \<open>{ navTop: false }\<close> of the main layout.\<close>

definition MAIN_LAYOUT :: "'d \<Rightarrow> 'd layout" where
  "MAIN_LAYOUT navTop =
     \<lparr>lkey = ''main'', ltype = ''main'', lname = ''Main'', licon = None, llocation = InWindow,
      lwindowKey = MAIN_WINDOW, lwindow = Some navTop, ltab = None, largs = None, excludeFromWorkspace = None,
      beta = None, lunsavedChanges = None\<rparr>"

text \<open>The constants that the state starts with and that are only carried along.\<close>

record 'd constants =
  navTop :: 'd
  dark :: 'd
  light :: 'd
  zeroHauling :: 'd
  zeroColors :: 'd

text \<open>
  The state goes through its schema, which knows the window properties as \<open>windowProps\<close> and drops the
  field \<open>window\<close>.
\<close>

definition ZERO_SLICE_STATE :: "'d constants \<Rightarrow> 'd layout_slice versioned" where
  "ZERO_SLICE_STATE c =
     \<lparr>version = Some ''5.0.0'',
      carried =
        \<lparr>activeTheme = Some ''synnaxDark'', themes = [(''synnaxDark'', dark c), (''synnaxLight'', light c)],
         layouts = [(''main'', (MAIN_LAYOUT (navTop c))\<lparr>lwindow := None\<rparr>)], hauling = zeroHauling c,
         mosaics = [(''main'', ZERO_MOSAIC_STATE)], nav = ZERO_NAV_STATE, alreadyCheckedGetStarted = False,
         altKeyToKey = [], keyToAltKey = [], colorContext = zeroColors c\<rparr>\<rparr>"

section \<open>Migrations\<close>

text \<open>A field that an older version lacks has any value until the migration that introduces it sets it.\<close>

definition with_version :: "string \<Rightarrow> ('s \<Rightarrow> 's) \<Rightarrow> 's migration" where
  "with_version v f = createMigration (\<lambda>s. return \<lparr>version = Some v, carried = f (carried s)\<rparr>)"

definition SLICE_MIGRATIONS :: "'d constants \<Rightarrow> (string, 'd layout_slice migration) rec" where
  "SLICE_MIGRATIONS c =
     [(''0.0.0'', with_version ''0.1.0'' id),
      (''0.1.0'', with_version ''0.2.0'' id),
      (''0.2.0'', with_version ''3.0.0'' (\<lambda>s. s\<lparr>altKeyToKey := [], keyToAltKey := []\<rparr>)),
      (''3.0.0'', with_version ''4.0.0'' (\<lambda>s. s\<lparr>colorContext := zeroColors c\<rparr>)),
      (''4.0.0'', with_version ''5.0.0'' (\<lambda>s. s\<lparr>nav := ZERO_NAV_STATE\<rparr>))]"

definition migrateSlice ::
  "nat \<Rightarrow> 'd constants \<Rightarrow> 'd layout_slice versioned \<Rightarrow> 'd layout_slice versioned result" where
  "migrateSlice depth c s =
     bind_result (migrator depth (SLICE_MIGRATIONS c) None None (ZERO_SLICE_STATE c)) (\<lambda>f. return (f s))"

section \<open>Helpers\<close>

definition purge_mosaic :: "string \<times> mosaic_state \<Rightarrow> 'd layout_slice \<Rightarrow> 'd layout_slice" where
  "purge_mosaic e s =
     (if fst e = MAIN_WINDOW \<or> \<not> isEmpty (mroot (snd e)) then s
      else s\<lparr>mosaics := rec_delete (fst e) (mosaics s), layouts := rec_delete (fst e) (layouts s),
             nav := rec_delete (fst e) (nav s)\<rparr>)"

definition purgeEmptyMosaics :: "'d layout_slice \<Rightarrow> 'd layout_slice" where
  "purgeEmptyMosaics s = fold purge_mosaic (mosaics s) s"

definition select :: "'d layout_slice \<Rightarrow> string \<Rightarrow> 'd layout option" where
  "select s key =
     (case rec_get (layouts s) key of
        Some l \<Rightarrow> Some l
      | None \<Rightarrow>
          (case rec_get (altKeyToKey s) key of
             None \<Rightarrow> None
           | Some altKey \<Rightarrow> rec_get (layouts s) altKey))"

definition layoutsToPreserve :: "(string, 'd layout) rec \<Rightarrow> (string, 'd layout) rec" where
  "layoutsToPreserve ls = filter (\<lambda>(_, l). llocation l = InWindow \<and> ltype l \<noteq> MOSAIC_WINDOW_TYPE) ls"

definition tabFromLayout :: "'d layout \<Rightarrow> tab" where
  "tabFromLayout l =
     \<lparr>tabKey = lkey l, name = lname l, closable = Some True, icon = licon l,
      editable = Option.bind (ltab l) tp_editable, visible = None, unsavedChanges = None, content = None\<rparr>"

definition get_mosaic :: "'d layout_slice \<Rightarrow> string \<Rightarrow> mosaic_state result" where
  "get_mosaic s w = (case rec_get (mosaics s) w of None \<Rightarrow> throw ''TypeError'' | Some m \<Rightarrow> return m)"

definition set_mosaic :: "string \<Rightarrow> mosaic_state \<Rightarrow> 'd layout_slice \<Rightarrow> 'd layout_slice" where
  "set_mosaic w m s = s\<lparr>mosaics := rec_set w m (mosaics s)\<rparr>"

definition set_layout :: "string \<Rightarrow> 'd layout \<Rightarrow> 'd layout_slice \<Rightarrow> 'd layout_slice" where
  "set_layout k l s = s\<lparr>layouts := rec_set k l (layouts s)\<rparr>"

text \<open>\<open>{...a, ...b}\<close> for records.\<close>

definition rec_spread :: "('k, 'v) rec \<Rightarrow> ('k, 'v) rec \<Rightarrow> ('k, 'v) rec" where
  "rec_spread a b = foldl (\<lambda>r (k, v). rec_set k v r) a b"

section \<open>Placing, removing and moving layouts\<close>

definition in_mosaic :: "'d layout option \<Rightarrow> bool" where
  "in_mosaic l = (case l of None \<Rightarrow> False | Some p \<Rightarrow> llocation p = InMosaic)"

definition place_mosaicKey :: "'d layout \<Rightarrow> mosaic_state \<Rightarrow> rat option" where
  "place_mosaicKey l m =
     (case Option.bind (ltab l) tp_mosaicKey of
        Some k \<Rightarrow> Some k
      | None \<Rightarrow>
          Option.bind (activeTab m) (\<lambda>a.
            map_option (\<lambda>p. node_key (the (node_at p (mroot m)))) (findTabNode (mroot m) a)))"

definition place_tab :: "'d layout option \<Rightarrow> 'd layout \<Rightarrow> mosaic_state \<Rightarrow> mosaic_state result" where
  "place_tab prev l m0 =
     (let key = lkey l;
          m = (if in_mosaic prev \<and> llocation l \<noteq> InMosaic then m0\<lparr>mroot := fst (removeTab (mroot m0) key)\<rparr> else m0);
          mosaicTab = tabFromLayout l;
          mosaicKey = place_mosaicKey l m;
          loc = (case Option.bind (ltab l) tp_location of None \<Rightarrow> CenterLoc | Some loc \<Rightarrow> loc)
      in if \<not> in_mosaic prev \<and> llocation l = InMosaic
         then bind_result (insertTab (mroot m) mosaicTab loc mosaicKey None)
                (\<lambda>r. return (m\<lparr>mroot := r, activeTab := Some key\<rparr>))
         else if in_mosaic prev \<and> llocation l = InMosaic
         then bind_result (selectTab (mroot m) key) (\<lambda>r.
              bind_result (updateTab r key (\<lambda>_. mosaicTab))
                (\<lambda>r'. return (m\<lparr>mroot := r', activeTab := Some key\<rparr>)))
         else return m)"

definition place :: "'d layout \<Rightarrow> 'd layout_slice \<Rightarrow> 'd layout_slice result" where
  "place layout0 s =
     (let prev = select s (lkey layout0);
          key = (case prev of None \<Rightarrow> lkey layout0 | Some p \<Rightarrow> lkey p);
          l = layout0\<lparr>lkey := key\<rparr>;
          isWindow = (ltype l = MOSAIC_WINDOW_TYPE)
      in bind_result (get_mosaic s (lwindowKey l)) (\<lambda>m0.
         bind_result (place_tab prev l m0) (\<lambda>m.
           let s1 = (if isWindow then set_mosaic key ZERO_MOSAIC_STATE s else s);
               s2 = set_mosaic (lwindowKey l) m (set_layout key l s1)
           in return (if isWindow then s2 else purgeEmptyMosaics s2))))"

definition remove_one :: "string \<Rightarrow> 'd layout_slice \<Rightarrow> 'd layout_slice" where
  "remove_one contentKey s =
     (case select s contentKey of
        None \<Rightarrow> s
      | Some l \<Rightarrow>
          if lkey l = MAIN_WINDOW then s
          else case rec_get (mosaics s) (lwindowKey l) of
                 None \<Rightarrow> s
               | Some m \<Rightarrow>
                   let (r, a) = removeTab (mroot m) (lkey l);
                       m' = (if llocation l = InMosaic then m\<lparr>mroot := r, activeTab := a\<rparr> else m);
                       s1 = s\<lparr>layouts := rec_delete (lkey l) (layouts s)\<rparr>
                   in purgeEmptyMosaics (set_mosaic (lwindowKey l) m' s1))"

definition remove_layouts :: "string list \<Rightarrow> 'd layout_slice \<Rightarrow> 'd layout_slice" where
  "remove_layouts keys s = fold remove_one keys s"

text \<open>
  The tab of a layout that moves to another window.  The object of the source carries \<open>location\<close> and \<open>mosaicKey\<close> of
  \<open>layout.tab\<close> as well; no operation of the mosaic reads them, and the record of a tab does not have them.
\<close>

definition moved_tab :: "'d layout \<Rightarrow> tab" where
  "moved_tab l =
     (tabFromLayout l)\<lparr>closable := (case Option.bind (ltab l) tp_closable of None \<Rightarrow> Some True | Some b \<Rightarrow> Some b)\<rparr>"

definition moveMosaicTab ::
  "string \<Rightarrow> string option \<Rightarrow> rat option \<Rightarrow> location \<Rightarrow> int option \<Rightarrow> 'd layout_slice \<Rightarrow> 'd layout_slice result" where
  "moveMosaicTab tab_key windowKey key loc ix s =
     (case select s tab_key of
        None \<Rightarrow> return s
      | Some l \<Rightarrow>
          let prevWindowKey = lwindowKey l
          in if windowKey = None \<or> windowKey = Some prevWindowKey
             then (case key of
                     None \<Rightarrow> return s
                   | Some k \<Rightarrow>
                       bind_result (get_mosaic s prevWindowKey) (\<lambda>m.
                       bind_result (moveTab (mroot m) (lkey l) loc k ix) (\<lambda>(r, _).
                       return (set_mosaic prevWindowKey (m\<lparr>mroot := r\<rparr>) s))))
             else
               bind_result (get_mosaic s prevWindowKey) (\<lambda>pm.
               let s1 = set_mosaic prevWindowKey (pm\<lparr>mroot := fst (removeTab (mroot pm) tab_key)\<rparr>) s
               in bind_result (get_mosaic s1 (the windowKey)) (\<lambda>m.
                  let m1 = m\<lparr>activeTab := (case activeTab m of None \<Rightarrow> Some tab_key | Some a \<Rightarrow> Some a)\<rparr>;
                      s2 = set_layout (lkey l) (l\<lparr>lwindowKey := the windowKey\<rparr>) s1
                  in bind_result (insertTab (mroot m1) (moved_tab l) loc key None) (\<lambda>r.
                     return (purgeEmptyMosaics (set_mosaic (the windowKey) (m1\<lparr>mroot := r\<rparr>) s2))))))"

definition setAltKey :: "string \<Rightarrow> string \<Rightarrow> 'd layout_slice \<Rightarrow> 'd layout_slice" where
  "setAltKey key altKey s =
     s\<lparr>keyToAltKey := rec_set key altKey (keyToAltKey s), altKeyToKey := rec_set altKey key (altKeyToKey s)\<rparr>"

text \<open>A change of the tree of one mosaic.\<close>

definition on_root :: "string \<Rightarrow> (node \<Rightarrow> node result) \<Rightarrow> 'd layout_slice \<Rightarrow> 'd layout_slice result" where
  "on_root w f s =
     bind_result (get_mosaic s w) (\<lambda>m.
     bind_result (f (mroot m)) (\<lambda>r. return (set_mosaic w (m\<lparr>mroot := r\<rparr>) s)))"

definition splitMosaicNode :: "string \<Rightarrow> direction \<Rightarrow> string \<Rightarrow> 'd layout_slice \<Rightarrow> 'd layout_slice result" where
  "splitMosaicNode w dir tk s = on_root w (\<lambda>r. Mosaic.split r tk dir) s"

definition selectMosaicTab :: "string \<Rightarrow> 'd layout_slice \<Rightarrow> 'd layout_slice result" where
  "selectMosaicTab tk s =
     (case select s tk of
        None \<Rightarrow> return s
      | Some l \<Rightarrow>
          bind_result (get_mosaic s (lwindowKey l)) (\<lambda>m.
            if activeTab m = Some tk then return s
            else bind_result (selectTab (mroot m) (lkey l)) (\<lambda>r.
                 return (set_mosaic (lwindowKey l) (m\<lparr>mroot := r, activeTab := Some (lkey l)\<rparr>) s))))"

definition resizeMosaicTab :: "string \<Rightarrow> rat \<Rightarrow> rat \<Rightarrow> 'd layout_slice \<Rightarrow> 'd layout_slice result" where
  "resizeMosaicTab w key sz s = on_root w (\<lambda>r. resizeNode r key sz) s"

definition rename_layout :: "string \<Rightarrow> string \<Rightarrow> 'd layout_slice \<Rightarrow> 'd layout_slice result" where
  "rename_layout tk nm s =
     (case select s tk of
        None \<Rightarrow> return s
      | Some l \<Rightarrow>
          on_root (lwindowKey l) (\<lambda>r. renameTab r (lkey l) nm) (set_layout (lkey l) (l\<lparr>lname := nm\<rparr>) s))"

definition setArgs :: "string \<Rightarrow> 'd \<Rightarrow> 'd layout_slice \<Rightarrow> 'd layout_slice" where
  "setArgs key a s =
     (case select s key of None \<Rightarrow> s | Some l \<Rightarrow> set_layout (lkey l) (l\<lparr>largs := Some a\<rparr>) s)"

definition setFocus :: "string option \<Rightarrow> string \<Rightarrow> 'd layout_slice \<Rightarrow> 'd layout_slice result" where
  "setFocus key w s =
     (case key of
        None \<Rightarrow> bind_result (get_mosaic s w) (\<lambda>m. return (set_mosaic w (m\<lparr>focused := None\<rparr>) s))
      | Some k \<Rightarrow>
          (case select s k of
             None \<Rightarrow> return s
           | Some l \<Rightarrow>
               bind_result (get_mosaic s (lwindowKey l))
                 (\<lambda>m. return (set_mosaic (lwindowKey l) (m\<lparr>focused := Some k\<rparr>) s))))"

definition setUnsavedChanges :: "string \<Rightarrow> bool \<Rightarrow> 'd layout_slice \<Rightarrow> 'd layout_slice result" where
  "setUnsavedChanges key b s =
     (case select s key of
        None \<Rightarrow> return s
      | Some l \<Rightarrow>
          let l' = l\<lparr>lunsavedChanges := Some b\<rparr>
          in on_root (lwindowKey l) (\<lambda>r. updateTab r (lkey l) (\<lambda>_. (tabFromLayout l')\<lparr>unsavedChanges := Some b\<rparr>))
               (set_layout (lkey l) l' s))"

section \<open>Themes and navigation\<close>

definition next_theme :: "string list \<Rightarrow> string option \<Rightarrow> string option" where
  "next_theme keys active =
     (let ix = (case find_index (\<lambda>k. Some k = active) keys of None \<Rightarrow> 0 | Some i \<Rightarrow> i + 1)
      in if keys = [] then None else Some (keys ! (ix mod length keys)))"

definition setActiveTheme :: "string option \<Rightarrow> 'd layout_slice \<Rightarrow> 'd layout_slice" where
  "setActiveTheme key s =
     (case key of
        Some k \<Rightarrow> s\<lparr>activeTheme := Some k\<rparr>
      | None \<Rightarrow> s\<lparr>activeTheme := next_theme (sort (rec_keys (themes s))) (activeTheme s)\<rparr>)"

definition toggleActiveTheme :: "'d layout_slice \<Rightarrow> 'd layout_slice" where
  "toggleActiveTheme s = s\<lparr>activeTheme := next_theme (rec_keys (themes s)) (activeTheme s)\<rparr>"

definition drawers_of :: "'d layout_slice \<Rightarrow> string \<Rightarrow> (nav_location, drawer) rec" where
  "drawers_of s w = (case rec_get (nav s) w of None \<Rightarrow> [] | Some d \<Rightarrow> d)"

definition set_drawers :: "string \<Rightarrow> (nav_location, drawer) rec \<Rightarrow> 'd layout_slice \<Rightarrow> 'd layout_slice" where
  "set_drawers w ds s = s\<lparr>nav := rec_set w ds (nav s)\<rparr>"

definition setNavDrawer :: "string \<Rightarrow> nav_location \<Rightarrow> drawer \<Rightarrow> 'd layout_slice \<Rightarrow> 'd layout_slice" where
  "setNavDrawer w loc d s = set_drawers w (rec_set loc d (drawers_of s w)) s"

text \<open>A change of a drawer that exists.\<close>

definition on_drawer :: "string \<Rightarrow> nav_location \<Rightarrow> (drawer \<Rightarrow> drawer) \<Rightarrow> 'd layout_slice \<Rightarrow> 'd layout_slice" where
  "on_drawer w loc f s =
     (case rec_get (nav s) w of
        None \<Rightarrow> s
      | Some ds \<Rightarrow> (case rec_get ds loc of None \<Rightarrow> s | Some d \<Rightarrow> set_drawers w (rec_set loc (f d) ds) s))"

definition resizeNavDrawer :: "string \<Rightarrow> nav_location \<Rightarrow> rat \<Rightarrow> 'd layout_slice \<Rightarrow> 'd layout_slice" where
  "resizeNavDrawer w loc sz s = on_drawer w loc (\<lambda>d. d\<lparr>drawer_size := Some sz\<rparr>) s"

definition show_item :: "string \<Rightarrow> bool option \<Rightarrow> drawer \<Rightarrow> drawer" where
  "show_item key val d =
     (if key \<notin> set (menuItems d) then d
      else
        let item = (if (case val of Some v \<Rightarrow> v | None \<Rightarrow> activeItem d \<noteq> Some key) then Some key else None)
        in if hover d = Some True then d\<lparr>activeItem := Some key, hover := Some False\<rparr>
           else d\<lparr>activeItem := item\<rparr>)"

definition first_item :: "drawer \<Rightarrow> string option" where
  "first_item d = (case menuItems d of [] \<Rightarrow> None | i # _ \<Rightarrow> Some i)"

definition toggle_drawer :: "bool option \<Rightarrow> drawer \<Rightarrow> drawer" where
  "toggle_drawer val d =
     (if val = Some True \<and> activeItem d = None then d\<lparr>activeItem := first_item d\<rparr>
      else if val = Some False then d\<lparr>activeItem := None\<rparr>
      else if activeItem d = None then d\<lparr>activeItem := first_item d\<rparr>
      else d\<lparr>activeItem := None\<rparr>)"

definition setNavDrawerVisible ::
  "string \<Rightarrow> string option \<Rightarrow> nav_location option \<Rightarrow> bool option \<Rightarrow> 'd layout_slice \<Rightarrow> 'd layout_slice result" where
  "setNavDrawerVisible w key loc val s =
     (let ds = drawers_of s w
      in case key of
           Some k \<Rightarrow> return (set_drawers w (map (\<lambda>(l, d). (l, show_item k val d)) ds) s)
         | None \<Rightarrow>
             (case loc of
                Some l \<Rightarrow>
                  let d = (case rec_get ds l of None \<Rightarrow> plain_drawer [] | Some d \<Rightarrow> d)
                  in return (set_drawers w (rec_set l (toggle_drawer val d) ds) s)
              | None \<Rightarrow> throw ''setNavDrawerVisible requires either a key or location''))"

definition startNavHover :: "string \<Rightarrow> nav_location \<Rightarrow> string \<Rightarrow> 'd layout_slice \<Rightarrow> 'd layout_slice" where
  "startNavHover w loc key s =
     on_drawer w loc
       (\<lambda>d. if activeItem d \<noteq> None \<and> hover d \<noteq> Some True then d
             else d\<lparr>hover := Some True, activeItem := Some key\<rparr>) s"

definition toggle_hover :: "string \<Rightarrow> drawer \<Rightarrow> drawer" where
  "toggle_hover key d =
     (if activeItem d \<noteq> None \<and> hover d = Some False
      then d\<lparr>activeItem := (if Some key = activeItem d then None else Some key)\<rparr>
      else if hover d = Some True \<and> Some key \<noteq> activeItem d then d\<lparr>activeItem := Some key\<rparr>
      else
        let h = (hover d \<noteq> Some True)
        in d\<lparr>hover := Some h, activeItem := (if \<not> h \<and> Some key = activeItem d then None else Some key)\<rparr>)"

definition toggleNavHover :: "string \<Rightarrow> string \<Rightarrow> 'd layout_slice \<Rightarrow> 'd layout_slice" where
  "toggleNavHover w key s =
     (case rec_get (nav s) w of
        None \<Rightarrow> s
      | Some ds \<Rightarrow>
          (case find (\<lambda>(_, d). key \<in> set (menuItems d)) ds of
             None \<Rightarrow> s
           | Some (loc, d) \<Rightarrow> set_drawers w (rec_set loc (toggle_hover key d) ds) s))"

definition stopNavHover :: "string \<Rightarrow> nav_location \<Rightarrow> 'd layout_slice \<Rightarrow> 'd layout_slice" where
  "stopNavHover w loc s =
     on_drawer w loc (\<lambda>d. if hover d \<noteq> Some True then d else d\<lparr>hover := Some False, activeItem := None\<rparr>) s"

section \<open>Workspaces\<close>

definition get_started_tab :: tab where
  "get_started_tab =
     \<lparr>tabKey = GET_STARTED_TYPE, name = ''Get Started'', closable = Some True, icon = None, editable = Some False,
      visible = None, unsavedChanges = None, content = None\<rparr>"

definition get_started_layout :: "'d layout" where
  "get_started_layout =
     \<lparr>lkey = GET_STARTED_TYPE, ltype = GET_STARTED_TYPE, lname = ''Get Started'', licon = None, llocation = InMosaic,
      lwindowKey = MAIN_WINDOW, lwindow = None, ltab = None, largs = None, excludeFromWorkspace = None,
      beta = Some False, lunsavedChanges = None\<rparr>"

definition maybeCreateGetStartedTab :: "'d layout_slice \<Rightarrow> 'd layout_slice result" where
  "maybeCreateGetStartedTab s =
     (let s1 = s\<lparr>alreadyCheckedGetStarted := True\<rparr>
      in if list_ex (\<lambda>(_, l). llocation l = InMosaic) (layouts s) \<or> alreadyCheckedGetStarted s then return s1
         else bind_result (get_mosaic s1 MAIN_WINDOW) (\<lambda>m.
              bind_result (insertTab (mroot m) get_started_tab CenterLoc None None) (\<lambda>r.
              return (set_layout ''getStarted'' get_started_layout
                        (set_mosaic MAIN_WINDOW (m\<lparr>mroot := r\<rparr>) s1)))))"

definition setWorkspace ::
  "nat \<Rightarrow> 'd constants \<Rightarrow> 'd layout_slice versioned \<Rightarrow> bool option \<Rightarrow> 'd layout_slice versioned \<Rightarrow>
   'd layout_slice versioned result" where
  "setWorkspace depth c slice keepNav s =
     (let st = carried s; new = carried slice
      in migrateSlice depth c
           (slice\<lparr>carried := new
              \<lparr>layouts := rec_set ''main'' (MAIN_LAYOUT (navTop c)) (rec_spread (layoutsToPreserve (layouts st)) (layouts new)),
               hauling := hauling st, themes := themes st, activeTheme := activeTheme st,
               nav := (if keepNav = Some False then nav new else nav st)\<rparr>\<rparr>))"

definition clearWorkspace :: "'d constants \<Rightarrow> 'd layout_slice \<Rightarrow> 'd layout_slice versioned" where
  "clearWorkspace c st =
     (let z = ZERO_SLICE_STATE c
      in z\<lparr>carried := (carried z)
             \<lparr>layouts := rec_set ''main'' (MAIN_LAYOUT (navTop c)) (layoutsToPreserve (layouts st)),
              hauling := hauling st, themes := themes st, activeTheme := activeTheme st, nav := nav st\<rparr>\<rparr>)"

definition createMosaicWindow :: "string \<Rightarrow> 'd \<Rightarrow> string \<Rightarrow> 'd layout" where
  "createMosaicWindow new_id window w =
     \<lparr>lkey = MOSAIC_WINDOW_TYPE @ ''-'' @ new_id, ltype = MOSAIC_WINDOW_TYPE, lname = ''Mosaic'', licon = None,
      llocation = InWindow, lwindowKey = w, lwindow = Some window, ltab = None, largs = None,
      excludeFromWorkspace = None, beta = None, lunsavedChanges = None\<rparr>"

section \<open>The reducer\<close>

datatype 'd layout_action =
    Place "'d layout"
  | SetHauled 'd
  | Remove "string list"
  | MoveMosaicTab string "string option" "rat option" location "int option"
  | SetAltKey string string
  | SplitMosaicNode string direction string
  | SelectMosaicTab string
  | ResizeMosaicTab string rat rat
  | RenameLayout string string
  | SetActiveTheme "string option"
  | ToggleActiveTheme
  | SetNavDrawer string nav_location drawer
  | ResizeNavDrawer string nav_location rat
  | SetNavDrawerVisible string "string option" "nav_location option" "bool option"
  | StartNavHover string nav_location string
  | ToggleNavHover string string
  | StopNavHover string nav_location
  | MaybeCreateGetStartedTab
  | SetWorkspace "'d layout_slice versioned" "bool option"
  | ClearWorkspace
  | SetArgs string 'd
  | SetFocus "string option" string
  | SetUnsavedChanges string bool

definition lift :: "('d layout_slice \<Rightarrow> 'd layout_slice result) \<Rightarrow> 'd layout_slice versioned \<Rightarrow> 'd layout_slice versioned result" where
  "lift f s = bind_result (f (carried s)) (\<lambda>c. return (s\<lparr>carried := c\<rparr>))"

definition layout_reducer ::
  "nat \<Rightarrow> 'd constants \<Rightarrow> 'd layout_action \<Rightarrow> 'd layout_slice versioned \<Rightarrow> 'd layout_slice versioned result" where
  "layout_reducer depth c a s =
     (case a of
        Place l \<Rightarrow> lift (place l) s
      | SetHauled h \<Rightarrow> lift (\<lambda>st. return (st\<lparr>hauling := h\<rparr>)) s
      | Remove ks \<Rightarrow> lift (return \<circ> remove_layouts ks) s
      | MoveMosaicTab tk w k loc ix \<Rightarrow> lift (moveMosaicTab tk w k loc ix) s
      | SetAltKey k ak \<Rightarrow> lift (return \<circ> setAltKey k ak) s
      | SplitMosaicNode w dir tk \<Rightarrow> lift (splitMosaicNode w dir tk) s
      | SelectMosaicTab tk \<Rightarrow> lift (selectMosaicTab tk) s
      | ResizeMosaicTab w k sz \<Rightarrow> lift (resizeMosaicTab w k sz) s
      | RenameLayout tk nm \<Rightarrow> lift (rename_layout tk nm) s
      | SetActiveTheme k \<Rightarrow> lift (return \<circ> setActiveTheme k) s
      | ToggleActiveTheme \<Rightarrow> lift (return \<circ> toggleActiveTheme) s
      | SetNavDrawer w loc d \<Rightarrow> lift (return \<circ> setNavDrawer w loc d) s
      | ResizeNavDrawer w loc sz \<Rightarrow> lift (return \<circ> resizeNavDrawer w loc sz) s
      | SetNavDrawerVisible w k loc v \<Rightarrow> lift (setNavDrawerVisible w k loc v) s
      | StartNavHover w loc k \<Rightarrow> lift (return \<circ> startNavHover w loc k) s
      | ToggleNavHover w k \<Rightarrow> lift (return \<circ> toggleNavHover w k) s
      | StopNavHover w loc \<Rightarrow> lift (return \<circ> stopNavHover w loc) s
      | MaybeCreateGetStartedTab \<Rightarrow> lift maybeCreateGetStartedTab s
      | SetWorkspace slice keepNav \<Rightarrow> setWorkspace depth c slice keepNav s
      | ClearWorkspace \<Rightarrow> return (clearWorkspace c (carried s))
      | SetArgs k d \<Rightarrow> lift (return \<circ> setArgs k d) s
      | SetFocus k w \<Rightarrow> lift (setFocus k w) s
      | SetUnsavedChanges k b \<Rightarrow> lift (setUnsavedChanges k b) s)"

end
