(* ===== verification/Layout_Invariant.thy ===== *)
theory Layout_Invariant
  imports Layout_Slice
begin

text \<open>
  The invariant of the layouts: the tabs of every window are exactly the layouts that are placed in its
  mosaic.  Each operation that changes the mosaics or the layouts keeps it, the ones that insert tabs
  under the condition that the numbering of the mosaic allows the insertion.
\<close>

section \<open>The invariant\<close>

definition tab_keys :: "node \<Rightarrow> string set" where
  "tab_keys n = tabKey ` set (tabs_of n)"

definition tree_ok :: "node \<Rightarrow> bool" where
  "tree_ok n \<longleftrightarrow> mosaic_wf n \<and> distinct (map tabKey (tabs_of n))"

text \<open>The tabs of the window \<open>w\<close> are exactly the layouts placed in its mosaic.\<close>

definition tabs_match :: "'d layout_slice \<Rightarrow> bool" where
  "tabs_match s \<longleftrightarrow>
     (\<forall>w m k. rec_get (mosaics s) w = Some m \<longrightarrow> k \<in> tab_keys (mroot m) \<longrightarrow>
        (\<exists>l. rec_get (layouts s) k = Some l \<and> llocation l = InMosaic \<and> lwindowKey l = w)) \<and>
     (\<forall>k l. rec_get (layouts s) k = Some l \<longrightarrow> llocation l = InMosaic \<longrightarrow>
        (\<exists>m. rec_get (mosaics s) (lwindowKey l) = Some m \<and> k \<in> tab_keys (mroot m)))"

definition layout_inv :: "'d layout_slice \<Rightarrow> bool" where
  "layout_inv s \<longleftrightarrow> rec_wf (layouts s) \<and> rec_wf (mosaics s) \<and> rec_get (mosaics s) MAIN_WINDOW \<noteq> None \<and>
     (\<forall>w m. rec_get (mosaics s) w = Some m \<longrightarrow> tree_ok (mroot m)) \<and>
     (\<forall>k l. rec_get (layouts s) k = Some l \<longrightarrow> lkey l = k) \<and>
     (\<forall>w l. rec_get (layouts s) w = Some l \<longrightarrow> rec_get (mosaics s) w \<noteq> None \<longrightarrow> llocation l \<noteq> InMosaic) \<and>
     tabs_match s"

lemma layout_invD:
  assumes "layout_inv s"
  shows "rec_wf (layouts s) \<and> rec_wf (mosaics s) \<and> rec_get (mosaics s) MAIN_WINDOW \<noteq> None" "rec_get (mosaics s) w = Some m \<Longrightarrow> tree_ok (mroot m)"
    "rec_get (layouts s) k = Some l \<Longrightarrow> lkey l = k"
    "rec_get (layouts s) k = Some l \<Longrightarrow> rec_get (mosaics s) k = Some m \<Longrightarrow> llocation l \<noteq> InMosaic"
    "rec_get (mosaics s) w = Some m \<Longrightarrow> k \<in> tab_keys (mroot m) \<Longrightarrow>
       \<exists>l. rec_get (layouts s) k = Some l \<and> llocation l = InMosaic \<and> lwindowKey l = w"
    "rec_get (layouts s) k = Some l \<Longrightarrow> llocation l = InMosaic \<Longrightarrow>
       \<exists>m. rec_get (mosaics s) (lwindowKey l) = Some m \<and> k \<in> tab_keys (mroot m)"
  using assms unfolding layout_inv_def tabs_match_def by blast+

lemma select_key:
  assumes "layout_inv s" and "select s k = Some l"
  shows "rec_get (layouts s) (lkey l) = Some l"
  using assms(2) layout_invD(3) [OF assms(1)]
  by (auto simp: select_def split: option.splits)

lemma layout_inv_cong:
  assumes "layout_inv s" and "layouts s' = layouts s" and "mosaics s' = mosaics s"
  shows "layout_inv s'"
  using assms by (simp add: layout_inv_def tabs_match_def)

lemma layout_inv_empty_tree: "isEmpty n \<Longrightarrow> mosaic_wf n \<Longrightarrow> tabs_of n = []"
  by (cases n rule: mosaic_cases) (auto simp: isEmpty_def)

section \<open>Purging\<close>

lemma delete_empty_inv:
  assumes inv: "layout_inv s" and m: "rec_get (mosaics s) w = Some m" "isEmpty (mroot m)" and main: "w \<noteq> MAIN_WINDOW"
  shows "layout_inv (s\<lparr>mosaics := rec_delete w (mosaics s), layouts := rec_delete w (layouts s), nav := rec_delete w (nav s)\<rparr>)"
proof -
  note d = layout_invD [OF inv]
  have none: "tab_keys (mroot m) = {}"
    using layout_inv_empty_tree [OF m(2)] d(2) [OF m(1)] by (simp add: tab_keys_def tree_ok_def)
  have win: "lwindowKey l \<noteq> w" if "rec_get (layouts s) k = Some l" "llocation l = InMosaic" for k l
    using d(6) [OF that] m(1) none by auto
  have "\<exists>l. rec_get (rec_delete w (layouts s)) k = Some l \<and> llocation l = InMosaic \<and> lwindowKey l = w'"
    if w': "w' \<noteq> w" "rec_get (mosaics s) w' = Some m'" "k \<in> tab_keys (mroot m')" for w' m' k
  proof -
    obtain l where l: "rec_get (layouts s) k = Some l" "llocation l = InMosaic" "lwindowKey l = w'"
      using d(5) [OF w'(2,3)] by blast
    then have "k \<noteq> w" using d(4) [of w l m] m(1) by blast
    with l show ?thesis by simp
  qed
  moreover have "\<exists>m. rec_get (rec_delete w (mosaics s)) (lwindowKey l) = Some m \<and> k \<in> tab_keys (mroot m)"
    if "rec_get (layouts s) k = Some l" "llocation l = InMosaic" for k l
    using d(6) [OF that] win [OF that] by simp
  ultimately show ?thesis
    using d(1-4) main by (auto simp: layout_inv_def tabs_match_def split: if_splits)
qed

lemma purge_mosaic_inv:
  assumes "layout_inv s" and "rec_get (mosaics s) (fst e) = Some (snd e)"
  shows "layout_inv (purge_mosaic e s)"
  using assms delete_empty_inv [OF assms] by (simp add: purge_mosaic_def)

lemma purge_mosaic_other:
  "w \<noteq> fst e \<Longrightarrow> rec_get (mosaics (purge_mosaic e s)) w = rec_get (mosaics s) w"
  by (simp add: purge_mosaic_def)

lemma purge_list_inv:
  assumes "layout_inv s" and "distinct (map fst es)" and "\<forall>(w, m)\<in>set es. rec_get (mosaics s) w = Some m"
  shows "layout_inv (fold purge_mosaic es s)"
  using assms
proof (induction es arbitrary: s)
  case (Cons e es)
  have "layout_inv (purge_mosaic e s)" using Cons.prems by (intro purge_mosaic_inv) auto
  moreover have "\<forall>(w, m)\<in>set es. rec_get (mosaics (purge_mosaic e s)) w = Some m"
    using Cons.prems(2,3) by (force simp: purge_mosaic_other image_iff)
  ultimately show ?case using Cons.IH Cons.prems(2) by simp
qed simp

lemma purge_inv: "layout_inv s \<Longrightarrow> layout_inv (purgeEmptyMosaics s)"
  unfolding purgeEmptyMosaics_def
  using layout_invD(1) [of s] by (intro purge_list_inv) (auto simp: rec_wf_def rec_keys_def rec_get_wf_iff)

section \<open>Changes of one mosaic and one layout\<close>

text \<open>
  The change of one mosaic and one layout: the layout was in no other mosaic, and afterwards the mosaic
  has its tab exactly when it is placed there.
\<close>

lemma change_inv:
  assumes inv: "layout_inv s" and m: "rec_get (mosaics s) w = Some m" and t: "tree_ok (mroot m')"
    and s': "mosaics s' = rec_set w m' (mosaics s)" "rec_wf (layouts s')"
      "\<And>k'. k' \<noteq> k \<Longrightarrow> rec_get (layouts s') k' = rec_get (layouts s) k'"
    and old: "\<And>l. rec_get (layouts s) k = Some l \<Longrightarrow> llocation l = InMosaic \<Longrightarrow> lwindowKey l = w"
    and new: "\<And>l. rec_get (layouts s') k = Some l \<Longrightarrow>
        lkey l = k \<and> (llocation l = InMosaic \<longrightarrow> lwindowKey l = w \<and> rec_get (mosaics s) k = None)"
    and keys: "tab_keys (mroot m') = (if in_mosaic (rec_get (layouts s') k) then insert k (tab_keys (mroot m))
        else tab_keys (mroot m) - {k})"
  shows "layout_inv s'"
proof -
  note d = layout_invD [OF inv]
  have mos: "rec_get (mosaics s') w' = (if w' = w then Some m' else rec_get (mosaics s) w')" for w'
    by (simp add: s'(1))
  have "\<exists>l. rec_get (layouts s') k' = Some l \<and> llocation l = InMosaic \<and> lwindowKey l = w'"
    if n: "rec_get (mosaics s') w' = Some n" "k' \<in> tab_keys (mroot n)" for w' n k'
  proof (cases "k' = k")
    case True
    have "w' = w"
    proof (rule ccontr)
      assume "w' \<noteq> w"
      with n True mos obtain l where "rec_get (layouts s) k = Some l" "llocation l = InMosaic" "lwindowKey l = w'"
        using d(5) [of w' n k] by auto
      with old \<open>w' \<noteq> w\<close> show False by blast
    qed
    with n True mos keys have "in_mosaic (rec_get (layouts s') k)" by (auto split: if_splits)
    with True new \<open>w' = w\<close> show ?thesis by (auto simp: in_mosaic_def split: option.splits)
  next
    case False
    have "\<exists>n'. rec_get (mosaics s) w' = Some n' \<and> k' \<in> tab_keys (mroot n')"
    proof (cases "w' = w")
      case True
      with n mos have "n = m'" by simp
      with n(2) keys False have "k' \<in> tab_keys (mroot m)" by (simp split: if_splits)
      with True m show ?thesis by blast
    next
      case False
      with n mos show ?thesis by auto
    qed
    with d(5) s'(3) False show ?thesis by metis
  qed
  moreover have "\<exists>n. rec_get (mosaics s') (lwindowKey l) = Some n \<and> k' \<in> tab_keys (mroot n)"
    if l: "rec_get (layouts s') k' = Some l" "llocation l = InMosaic" for k' l
  proof (cases "k' = k")
    case True
    with l new have "lwindowKey l = w" "in_mosaic (rec_get (layouts s') k)" by (auto simp: in_mosaic_def)
    with True keys mos show ?thesis by simp
  next
    case False
    with l s'(3) obtain n where n: "rec_get (mosaics s) (lwindowKey l) = Some n" "k' \<in> tab_keys (mroot n)"
      using d(6) [of k' l] by auto
    show ?thesis
    proof (cases "lwindowKey l = w")
      case True
      with n m have "k' \<in> tab_keys (mroot m)" by simp
      with keys False have "k' \<in> tab_keys (mroot m')" by simp
      with True mos show ?thesis by simp
    next
      case wne: False
      with n mos show ?thesis by simp
    qed
  qed
  moreover have "llocation l \<noteq> InMosaic" if "rec_get (layouts s') w' = Some l" "rec_get (mosaics s') w' \<noteq> None" for w' l
  proof (cases "w' = k")
    case True
    with that new mos m show ?thesis by (auto split: if_splits)
  next
    case False
    with that s'(3) mos m d(4) [of w' l] show ?thesis by (cases "w' = w") auto
  qed
  moreover have "lkey l = k'" if "rec_get (layouts s') k' = Some l" for k' l
    using that new s'(3) d(3) by (cases "k' = k") auto
  ultimately show ?thesis
    using d(1,2) t s'(2) mos by (auto simp: layout_inv_def tabs_match_def s'(1))
qed

text \<open>A change of a mosaic that keeps the keys of its tabs.\<close>

lemma set_mosaic_same:
  assumes inv: "layout_inv s" and m: "rec_get (mosaics s) w = Some m"
    and "tree_ok (mroot m')" and "tab_keys (mroot m') = tab_keys (mroot m)"
  shows "layout_inv (set_mosaic w m' s)"
proof (rule change_inv [OF inv m assms(3), where k = w])
  note d = layout_invD [OF inv]
  have "\<not> in_mosaic (rec_get (layouts s) w)" using d(4) m by (auto simp: in_mosaic_def split: option.splits)
  moreover have "w \<notin> tab_keys (mroot m)" using d(5) [OF m, of w] d(4) [of w] m by blast
  ultimately show "tab_keys (mroot m') = (if in_mosaic (rec_get (layouts (set_mosaic w m' s)) w)
      then insert w (tab_keys (mroot m)) else tab_keys (mroot m) - {w})"
    using assms(4) by (simp add: set_mosaic_def)
  show "\<And>l. rec_get (layouts (set_mosaic w m' s)) w = Some l \<Longrightarrow>
      lkey l = w \<and> (llocation l = InMosaic \<longrightarrow> lwindowKey l = w \<and> rec_get (mosaics s) w = None)"
    using d(3,4) m by (auto simp: set_mosaic_def)
  show "\<And>l. rec_get (layouts s) w = Some l \<Longrightarrow> llocation l = InMosaic \<Longrightarrow> lwindowKey l = w" using d(4) m by blast
qed (use layout_invD(1) [OF inv] in \<open>simp_all add: set_mosaic_def\<close>)

text \<open>A change of a layout that keeps its key and its place.\<close>

lemma set_layout_same:
  assumes "layout_inv s" and "rec_get (layouts s) k = Some l"
    and "lkey l' = lkey l" and "llocation l' = llocation l" and "lwindowKey l' = lwindowKey l"
  shows "layout_inv (set_layout k l' s)"
proof -
  note d = layout_invD [OF assms(1)]
  have "tabs_match (set_layout k l' s)"
    unfolding tabs_match_def
  proof (intro conjI allI impI)
    fix w m k' assume m: "rec_get (mosaics (set_layout k l' s)) w = Some m" "k' \<in> tab_keys (mroot m)"
    then obtain n where "rec_get (layouts s) k' = Some n" "llocation n = InMosaic" "lwindowKey n = w"
      using d(5) [of w m k'] by (auto simp: set_layout_def)
    with assms show "\<exists>n. rec_get (layouts (set_layout k l' s)) k' = Some n \<and> llocation n = InMosaic \<and> lwindowKey n = w"
      by (cases "k' = k") (auto simp: set_layout_def)
  next
    fix k' n assume "rec_get (layouts (set_layout k l' s)) k' = Some n" "llocation n = InMosaic"
    then show "\<exists>m. rec_get (mosaics (set_layout k l' s)) (lwindowKey n) = Some m \<and> k' \<in> tab_keys (mroot m)"
      using d(6) [OF assms(2)] d(6) [of k' n] assms(4,5) by (auto simp: set_layout_def split: if_splits)
  qed
  with assms d(1-4) show ?thesis by (auto simp: layout_inv_def set_layout_def split: if_splits)
qed

section \<open>The trees\<close>

lemma tree_okI: "mosaic_wf n \<Longrightarrow> distinct (map tabKey (tabs_of n)) \<Longrightarrow> tree_ok n"
  by (simp add: tree_ok_def)

lemma tab_keys_mset: "mset (map tabKey (tabs_of n)) = mset (map tabKey (tabs_of n')) \<Longrightarrow> tab_keys n = tab_keys n'"
  unfolding tab_keys_def by (metis list.set_map mset_eq_setD)

lemma tree_same_keys:
  assumes "tree_ok n" and "mosaic_wf n'" and "mset (map tabKey (tabs_of n')) = mset (map tabKey (tabs_of n))"
  shows "tree_ok n' \<and> tab_keys n' = tab_keys n"
  using assms mset_eq_imp_distinct_iff [OF assms(3)] tab_keys_mset [OF assms(3)] by (simp add: tree_ok_def)

lemma tabs_same_keys:
  assumes "tree_ok n" and "mosaic_wf n'" and "mset (tabs_of n') = mset (tabs_of n)"
  shows "tree_ok n' \<and> tab_keys n' = tab_keys n"
  using assms by (intro tree_same_keys) (simp_all add: mset_map)

text \<open>An update at the leaf of a tab that keeps the keys of the leaf.\<close>

lemma leaf_update:
  assumes "tree_ok n" and "findTab n tk = Some (t, p)"
    and f: "\<And>m. mosaic_wf m \<Longrightarrow> is_leaf m \<Longrightarrow> tk \<in> tab_keys m \<Longrightarrow> mosaic_wf (f m) \<and> map tabKey (tabs_of (f m)) = map tabKey (tabs_of m)"
  shows "tree_ok (update_at p f n) \<and> tab_keys (update_at p f n) = tab_keys n"
proof -
  have wf: "mosaic_wf n" using assms(1) by (simp add: tree_ok_def)
  from findTab_spec [OF wf, of tk] assms(2) obtain m where m: "node_at p n = Some m" "is_leaf m" "tk \<in> tab_keys m"
    by (auto simp: tab_keys_def)
  have wm: "mosaic_wf m" using update_at_leaf(2) [OF wf m(1), of id] by simp
  note fm = f [OF wm m(2,3)]
  from update_at_leaf(1,3) [OF wf m(1), of f] fm obtain xs ys where
    "mosaic_wf (update_at p f n)" "tabs_of n = xs @ tabs_of m @ ys" "tabs_of (update_at p f n) = xs @ tabs_of (f m) @ ys"
    by blast
  with fm show ?thesis by (intro tree_same_keys [OF assms(1)]) simp_all
qed

lemma leafE:
  assumes "mosaic_wf m" and "is_leaf m"
  obtains k ts sel d z where "m = Node k (Some ts) sel d None None z" "selection_ok ts sel"
  using assms by (cases m rule: mosaic_cases) auto

lemma selectTab_tree:
  assumes "tree_ok n" and "selectTab n tk = Inr n'"
  shows "tree_ok n' \<and> tab_keys n' = tab_keys n"
proof -
  from assms(2) obtain t p where p: "findTab n tk = Some (t, p)" "n' = update_at p (set_selected (Some tk)) n"
    by (auto simp: selectTab_def split: option.splits)
  show ?thesis
    unfolding p(2)
  proof (rule leaf_update [OF assms(1) p(1)])
    fix m assume "mosaic_wf m" "is_leaf m" "tk \<in> tab_keys m"
    then show "mosaic_wf (set_selected (Some tk) m) \<and> map tabKey (tabs_of (set_selected (Some tk) m)) = map tabKey (tabs_of m)"
      by (elim leafE) (auto simp: tab_keys_def selection_ok_def)
  qed
qed

lemma set_tabs_leaf:
  assumes "mosaic_wf m" and "is_leaf m" and "map tabKey ts' = map tabKey (tabs_of m)"
  shows "mosaic_wf (set_tabs (Some ts') m) \<and> map tabKey (tabs_of (set_tabs (Some ts') m)) = map tabKey (tabs_of m)"
proof -
  obtain k ts sel d z where m: "m = Node k (Some ts) sel d None None z" "selection_ok ts sel"
    using assms(1,2) by (rule leafE)
  have "tabKey ` set ts' = tabKey ` set ts" using assms(3) m(1) by (metis (no_types, lifting) list.set_map append_Nil2 option.simps(4,5) tabs_of.simps)
  moreover have "ts' = [] \<longleftrightarrow> ts = []" using assms(3) m(1) by (auto dest: arg_cong [where f = length])
  ultimately have "selection_ok ts' sel" using m(2) by (simp add: selection_ok_def)
  with assms(3) m show ?thesis by simp
qed

lemma own_tabs_leaf: "mosaic_wf m \<Longrightarrow> is_leaf m \<Longrightarrow> node_tabs m = Some (tabs_of m)"
  by (elim leafE) auto

lemma updateTab_tree:
  assumes "tree_ok n" and "updateTab n tk f = Inr n'" and "\<And>t. tabKey (f t) = tk"
  shows "tree_ok n' \<and> tab_keys n' = tab_keys n"
proof -
  let ?g = "\<lambda>m. set_tabs (map_option (map (\<lambda>t. if tabKey t = tk then f t else t)) (node_tabs m)) m"
  from assms(2) obtain t p where p: "findTab n tk = Some (t, p)" "n' = update_at p ?g n"
    by (auto simp: updateTab_def split: option.splits)
  show ?thesis
    unfolding p(2)
    by (rule leaf_update [OF assms(1) p(1)]) (simp add: own_tabs_leaf set_tabs_leaf assms(3))
qed

lemma rename_keys: "map tabKey (Mosaic.rename k nm ts) = map tabKey ts"
  by (auto simp: Mosaic.rename_def Let_def split: option.splits)

lemma renameTab_tree:
  assumes "tree_ok n" and "renameTab n tk nm = Inr n'"
  shows "tree_ok n' \<and> tab_keys n' = tab_keys n"
proof -
  let ?g = "\<lambda>m. set_tabs (Some (Mosaic.rename tk nm (case node_tabs m of None \<Rightarrow> [] | Some ts \<Rightarrow> ts))) m"
  from assms(2) obtain t p where p: "findTab n tk = Some (t, p)" "n' = update_at p ?g n"
    by (auto simp: renameTab_def split: option.splits)
  show ?thesis
    unfolding p(2)
    by (rule leaf_update [OF assms(1) p(1)]) (simp add: own_tabs_leaf set_tabs_leaf rename_keys)
qed

lemma resizeNode_tree:
  assumes "tree_ok n" and "resizeNode n key sz = Inr n'"
  shows "tree_ok n' \<and> tab_keys n' = tab_keys n"
proof -
  have wf: "mosaic_wf n" using assms(1) by (simp add: tree_ok_def)
  from assms(2) obtain p where p: "findMosaicNode n key = Some p" "n' = update_at p (set_size (Some sz)) n"
    by (auto simp: resizeNode_def split: option.splits)
  from findMosaicNode_at [OF wf p(1)] obtain m where m: "node_at p n = Some m" by blast
  from update_at_leaf(1,3) [OF wf m, of "set_size (Some sz)"] have "mosaic_wf n'" "tabs_of n' = tabs_of n"
    by (auto simp: p(2))
  then show ?thesis by (intro tabs_same_keys [OF assms(1)]) simp_all
qed

lemma split_tree:
  assumes "tree_ok n" and "Mosaic.split n tk dir = Inr n'"
  shows "tree_ok n' \<and> tab_keys n' = tab_keys n"
proof -
  have wf: "mosaic_wf n" and d: "distinct (map tabKey (tabs_of n))" using assms(1) by (auto simp: tree_ok_def)
  from assms(2) have "findTabNode n tk \<noteq> None" by (auto simp: Mosaic.split_def split: option.splits)
  with findTab_spec [OF wf, of tk] have "tk \<in> tabKey ` set (tabs_of n)"
    by (auto simp: findTabNode_findTab [OF wf] split: option.splits)
  from split_facts [OF wf d this, of dir] assms(2) have "mosaic_wf n'" "mset (tabs_of n') = mset (tabs_of n)" by auto
  then show ?thesis by (rule tabs_same_keys [OF assms(1)])
qed

lemma removeTab_tree:
  assumes "tree_ok n"
  shows "tree_ok (fst (removeTab n tk)) \<and> tab_keys (fst (removeTab n tk)) = tab_keys n - {tk}"
proof -
  obtain n' sel where r: "removeTab n tk = (n', sel)" by force
  have wf: "mosaic_wf n" and d: "distinct (map tabKey (tabs_of n))" using assms by (auto simp: tree_ok_def)
  show ?thesis
  proof (cases "tk \<in> tabKey ` set (tabs_of n)")
    case True
    from removeTab_facts(1,2) [OF wf d r True] d r show ?thesis
      by (auto simp: tree_ok_def tab_keys_def distinct_map_filter)
  next
    case False
    then have "findTab n tk = None" using findTab_spec [OF wf, of tk] by (auto split: option.splits)
    with r False assms show ?thesis by (auto simp: removeTab_def tab_keys_def)
  qed
qed

text \<open>
  When an insertion is safe: the search for the node that is named ends at a leaf, and so does the search for
  the children of that leaf, by which a drop on an edge looks for a node that is there already.
\<close>

definition leads_to_leaf :: "node \<Rightarrow> rat \<Rightarrow> bool" where
  "leads_to_leaf n k \<longleftrightarrow> (\<forall>p. findNodeOrAncestor n k = Inr p \<longrightarrow> (\<exists>m. node_at p n = Some m \<and> is_leaf m))"

definition insert_ok :: "node \<Rightarrow> rat option \<Rightarrow> bool" where
  "insert_ok n key \<longleftrightarrow>
     (case key of None \<Rightarrow> True
      | Some k \<Rightarrow> leads_to_leaf n k \<and>
          (\<forall>p. findNodeOrAncestor n k = Inr p \<longrightarrow>
             leads_to_leaf n (node_key (the (node_at p n)) * 2) \<and> leads_to_leaf n (node_key (the (node_at p n)) * 2 + 1)))"

text \<open>That is so when the nodes are numbered as documented and the key is not that of an inner node.\<close>

lemma insert_ok_keyed:
  assumes "mosaic_wf n" and "keyed 1 n" and "0 < j" and "\<And>p m. node_at p n = Some m \<Longrightarrow> node_key m = of_nat j \<Longrightarrow> is_leaf m"
  shows "insert_ok n (Some (of_nat j))"
proof -
  obtain p m where p: "findNodeOrAncestor n (of_nat j) = Inr p" "node_at p n = Some m" "is_leaf m"
    using findNodeOrAncestor_resolves [OF assms(1-3)] assms(4) by auto
  with findNodeOrAncestor_leaf_child [OF assms(1,2) p(2,3), of 0] findNodeOrAncestor_leaf_child [OF assms(1,2) p(2,3), of 1]
  show ?thesis by (simp add: insert_ok_def leads_to_leaf_def)
qed

lemma insertCenter_adds:
  assumes "mosaic_wf n" and "leads_to_leaf n k" and "insertCenter n t k ix = Inr n'"
  shows "mosaic_wf n' \<and> mset (tabs_of n') = add_mset t (mset (tabs_of n))"
proof -
  from assms(3) obtain p where p: "findNodeOrAncestor n k = Inr p" and n': "n' = update_at p (add_tab t ix) n"
    by (auto simp: insertCenter_def bind_result_eq_Inr)
  from p assms(2) obtain m where m: "node_at p n = Some m" "is_leaf m" by (auto simp: leads_to_leaf_def)
  from update_adds(1,2) [OF assms(1) m add_tab_leaf(1,2,4)] show ?thesis by (simp add: n')
qed

lemma insertTab_adds_at:
  assumes "mosaic_wf n" and "insert_ok n (Some k)" and "insertTab n t loc (Some k) ix = Inr n'"
  shows "mosaic_wf n' \<and> mset (tabs_of n') = add_mset t (mset (tabs_of n))"
proof (cases "loc = CenterLoc")
  case True
  with assms insertCenter_adds show ?thesis by (auto simp: insertTab_def insert_ok_def)
next
  case False
  have k: "leads_to_leaf n k" using assms(2) by (simp add: insert_ok_def)
  from False assms(3) obtain p where p: "findNodeOrAncestor n k = Inr p" by (auto simp: insertTab_def bind_result_eq_Inr)
  with k obtain m where m: "node_at p n = Some m" "is_leaf m" by (auto simp: leads_to_leaf_def)
  define child where "child = (if loc = TopLoc \<or> loc = LeftLoc then node_key m * 2 else node_key m * 2 + 1)"
  have c: "leads_to_leaf n child" using assms(2) p m(1) by (simp add: insert_ok_def child_def)
  from False assms(3) consider "insertCenter n t child None = Inr n'" | "insertCenter n t k None = Inr n'"
    | i s dir where "splitArrangement loc = return (i, s, dir)" "n' = update_at p (split_with t i s dir) n"
    by (auto simp: insertTab_def bind_result_eq_Inr p m(1) Let_def child_def split: if_splits)
  then show ?thesis
  proof cases
    case 1
    then show ?thesis using insertCenter_adds [OF assms(1) c] by blast
  next
    case 2
    then show ?thesis using insertCenter_adds [OF assms(1) k] by blast
  next
    case (3 i s dir)
    from update_adds(1,2) [OF assms(1) m, of "split_with t i s dir" t] split_with_leaf [OF _ _ 3(1)] 3(2)
    show ?thesis by blast
  qed
qed

lemma insertTab_tree:
  assumes "tree_ok n" and "insert_ok n key" and "tabKey t \<notin> tab_keys n" and "insertTab n t loc key ix = Inr n'"
  shows "tree_ok n' \<and> tab_keys n' = insert (tabKey t) (tab_keys n)"
proof -
  have wf: "mosaic_wf n" using assms(1) by (simp add: tree_ok_def)
  have n': "mosaic_wf n' \<and> mset (tabs_of n') = add_mset t (mset (tabs_of n))"
  proof (cases key)
    case None
    with assms(4) insertAnywhere_wf [OF wf, of t] show ?thesis by (auto simp: insertTab_def)
  next
    case (Some k)
    with insertTab_adds_at [OF wf] assms(2,4) show ?thesis by blast
  qed
  from n' have "mset (map tabKey (tabs_of n')) = mset (map tabKey (t # tabs_of n))" by (simp add: mset_map)
  from mset_eq_imp_distinct_iff [OF this] mset_eq_setD [OF this] n' assms(1,3) show ?thesis
    by (auto simp: tree_ok_def tab_keys_def)
qed

lemma moveTab_tree:
  assumes "tree_ok n" and "insert_ok (fst (removeTab n tk)) (Some k)" and "moveTab n tk loc k ix = Inr (n', sel)"
  shows "tree_ok n' \<and> tab_keys n' = tab_keys n"
proof -
  have wf: "mosaic_wf n" using assms(1) by (simp add: tree_ok_def)
  from assms(3) obtain t p where t: "findTab n tk = Some (t, p)"
    and ins: "insertTab (fst (removeTab n tk)) t loc (Some k) ix = Inr n'"
    by (auto simp: moveTab_def bind_result_eq_Inr case_prod_beta Let_def split: option.splits)
  from findTab_spec [OF wf, of tk] t have tk: "tabKey t = tk" "tk \<in> tab_keys n" by (auto simp: tab_keys_def)
  note r = removeTab_tree [OF assms(1), of tk]
  from insertTab_tree [OF _ assms(2) _ ins] r tk show ?thesis by auto
qed

section \<open>Every action keeps the invariant\<close>

lemma rec_set_twice: "rec_set k v' (rec_set k v r) = rec_set k v' r"
  by (induction k v r rule: rec_set.induct) auto

lemma get_mosaic_Inr: "get_mosaic s w = Inr m \<longleftrightarrow> rec_get (mosaics s) w = Some m"
  by (auto simp: get_mosaic_def split: option.splits)

lemma on_root_inv:
  assumes "layout_inv s" and "on_root w f s = Inr s'"
    and "\<And>n n'. tree_ok n \<Longrightarrow> f n = Inr n' \<Longrightarrow> tree_ok n' \<and> tab_keys n' = tab_keys n"
  shows "layout_inv s'"
proof -
  from assms(2) obtain m r where m: "rec_get (mosaics s) w = Some m" "f (mroot m) = Inr r"
    and s': "s' = set_mosaic w (m\<lparr>mroot := r\<rparr>) s"
    by (auto simp: on_root_def bind_result_eq_Inr get_mosaic_Inr)
  from assms(3) [OF layout_invD(2) [OF assms(1) m(1)] m(2)] show ?thesis
    unfolding s' by (intro set_mosaic_same [OF assms(1) m(1)]) simp_all
qed

lemma remove_one_inv:
  assumes inv: "layout_inv s"
  shows "layout_inv (remove_one k s)"
proof (cases "select s k")
  case None
  with inv show ?thesis by (simp add: remove_one_def)
next
  case (Some l)
  note d = layout_invD [OF inv]
  note l = select_key [OF inv Some]
  show ?thesis
  proof (cases "lkey l = MAIN_WINDOW \<or> rec_get (mosaics s) (lwindowKey l) = None")
    case True
    with Some inv show ?thesis by (auto simp: remove_one_def)
  next
    case False
    then obtain m where m: "rec_get (mosaics s) (lwindowKey l) = Some m" by blast
    define m' where "m' = (if llocation l = InMosaic then m\<lparr>mroot := fst (removeTab (mroot m) (lkey l)),
      activeTab := snd (removeTab (mroot m) (lkey l))\<rparr> else m)"
    let ?s = "set_mosaic (lwindowKey l) m' (s\<lparr>layouts := rec_delete (lkey l) (layouts s)\<rparr>)"
    have out: "lkey l \<notin> tab_keys (mroot m)" if "llocation l \<noteq> InMosaic"
      using d(5) [OF m, of "lkey l"] l that by auto
    have tree: "tree_ok (mroot m') \<and> tab_keys (mroot m') = tab_keys (mroot m) - {lkey l}"
      using removeTab_tree [OF d(2) [OF m], of "lkey l"] d(2) [OF m] out by (simp add: m'_def)
    have "layout_inv ?s"
    proof (rule change_inv [OF inv m, where k = "lkey l"])
      show "tree_ok (mroot m')" using tree ..
      show "tab_keys (mroot m') = (if in_mosaic (rec_get (layouts ?s) (lkey l)) then insert (lkey l) (tab_keys (mroot m))
          else tab_keys (mroot m) - {lkey l})"
        using tree by (simp add: set_mosaic_def in_mosaic_def)
    qed (use d(1) l in \<open>simp_all add: set_mosaic_def\<close>)
    moreover have "remove_one k s = purgeEmptyMosaics ?s"
      using Some False m by (simp add: remove_one_def m'_def case_prod_beta Let_def)
    ultimately show ?thesis by (simp add: purge_inv)
  qed
qed

lemma remove_layouts_inv: "layout_inv s \<Longrightarrow> layout_inv (remove_layouts ks s)"
  unfolding remove_layouts_def by (induction ks arbitrary: s) (auto intro: remove_one_inv)

text \<open>
  When a placement is safe: a layout that is already in a mosaic is placed in the same window; a key of a
  mosaic is not the key of a tab; a mosaic window is new; and the tab is inserted where
  an insertion is safe.
\<close>

definition placed_key :: "'d layout_slice \<Rightarrow> 'd layout \<Rightarrow> string" where
  "placed_key s l = (case select s (lkey l) of None \<Rightarrow> lkey l | Some p \<Rightarrow> lkey p)"

definition place_ok :: "'d layout \<Rightarrow> 'd layout_slice \<Rightarrow> bool" where
  "place_ok l s \<longleftrightarrow>
     (\<forall>p. select s (lkey l) = Some p \<longrightarrow> llocation p = InMosaic \<longrightarrow> lwindowKey p = lwindowKey l) \<and>
     (llocation l = InMosaic \<longrightarrow> rec_get (mosaics s) (placed_key s l) = None) \<and>
     (ltype l = MOSAIC_WINDOW_TYPE \<longrightarrow> llocation l \<noteq> InMosaic \<and> rec_get (mosaics s) (placed_key s l) = None \<and>
        \<not> in_mosaic (select s (lkey l))) \<and>
     (\<forall>m. rec_get (mosaics s) (lwindowKey l) = Some m \<longrightarrow> \<not> in_mosaic (select s (lkey l)) \<longrightarrow> llocation l = InMosaic \<longrightarrow>
        insert_ok (mroot m) (place_mosaicKey l m))"

lemma place_mosaicKey_ok:
  assumes "tree_ok (mroot m)" and "keyed 1 (mroot m)" and "Option.bind (ltab l) tp_mosaicKey = None"
  shows "insert_ok (mroot m) (place_mosaicKey l m)"
proof (cases "place_mosaicKey l m")
  case None
  then show ?thesis by (simp add: insert_ok_def)
next
  case (Some k)
  let ?n = "mroot m"
  have wf: "mosaic_wf ?n" using assms(1) by (simp add: tree_ok_def)
  from Some assms(3) obtain a p where a: "findTabNode ?n a = Some p" and k: "k = node_key (the (node_at p ?n))"
    by (auto simp: place_mosaicKey_def split: bind_splits)
  with findTab_spec [OF wf, of a] obtain x where x: "node_at p ?n = Some x" "is_leaf x"
    by (auto simp: findTabNode_findTab [OF wf] split: option.splits)
  have j: "k = of_nat (path_key 1 p)" "0 < path_key 1 p"
    using keyed_path [of 1 ?n p x] assms(2) x(1) k path_key_ge [of 1 p] by auto
  have "is_leaf y" if "node_at q ?n = Some y" "node_key y = k" for q y
  proof -
    have "q = p" by (rule path_of_key [OF assms(2) that(1)]) (simp add: that(2) j(1))
    with that(1) x show ?thesis by simp
  qed
  with insert_ok_keyed [OF wf assms(2) j(2)] j(1) Some show ?thesis by simp
qed

lemma place_mosaicKey_lkey: "place_mosaicKey (l\<lparr>lkey := k\<rparr>) m = place_mosaicKey l m"
  by (simp add: place_mosaicKey_def)

text \<open>What a placement does to the mosaic of the window.\<close>

lemma place_tab_tree:
  assumes "tree_ok (mroot m0)" and "place_tab prev l m0 = Inr m"
    and "\<not> in_mosaic prev \<Longrightarrow> lkey l \<notin> tab_keys (mroot m0)"
    and "in_mosaic prev \<Longrightarrow> lkey l \<in> tab_keys (mroot m0)"
    and "\<not> in_mosaic prev \<Longrightarrow> llocation l = InMosaic \<Longrightarrow> insert_ok (mroot m0) (place_mosaicKey l m0)"
  shows "tree_ok (mroot m) \<and> tab_keys (mroot m) =
    (if llocation l = InMosaic then insert (lkey l) (tab_keys (mroot m0)) else tab_keys (mroot m0) - {lkey l})"
proof (cases "llocation l = InMosaic")
  case False
  then have m: "m = (if in_mosaic prev then m0\<lparr>mroot := fst (removeTab (mroot m0) (lkey l))\<rparr> else m0)"
    using assms(2) by (simp add: place_tab_def Let_def)
  show ?thesis
    using removeTab_tree [OF assms(1), of "lkey l"] False assms(1,3) by (cases "in_mosaic prev") (simp_all add: m)
next
  case True
  show ?thesis
  proof (cases "in_mosaic prev")
    case prev: True
    from assms(2) True prev obtain r r' where r: "selectTab (mroot m0) (lkey l) = Inr r"
      "updateTab r (lkey l) (\<lambda>_. tabFromLayout l) = Inr r'" "mroot m = r'"
      by (auto simp: place_tab_def Let_def bind_result_eq_Inr)
    have "tree_ok r \<and> tab_keys r = tab_keys (mroot m0)" by (rule selectTab_tree [OF assms(1) r(1)])
    moreover have "tree_ok r \<Longrightarrow> tree_ok r' \<and> tab_keys r' = tab_keys r"
      by (rule updateTab_tree [OF _ r(2)]) (simp_all add: tabFromLayout_def)
    ultimately show ?thesis using True prev assms(4) r(3) by auto
  next
    case False
    from assms(2) True False obtain loc r where
      r: "insertTab (mroot m0) (tabFromLayout l) loc (place_mosaicKey l m0) None = Inr r" "mroot m = r"
      by (auto simp: place_tab_def Let_def bind_result_eq_Inr)
    have "tabKey (tabFromLayout l) = lkey l" by (simp add: tabFromLayout_def)
    with insertTab_tree [OF assms(1) assms(5) [OF False True] _ r(1)] assms(3) [OF False] True r(2) show ?thesis
      by simp
  qed
qed

lemma new_mosaic_inv:
  assumes "layout_inv s" and "rec_get (mosaics s) k = None" and "\<not> in_mosaic (rec_get (layouts s) k)"
  shows "layout_inv (set_mosaic k ZERO_MOSAIC_STATE s)"
proof -
  note d = layout_invD [OF assms(1)]
  have tree: "tree_ok (mroot ZERO_MOSAIC_STATE)" "tab_keys (mroot ZERO_MOSAIC_STATE) = {}"
    by (simp_all add: ZERO_MOSAIC_STATE_def tree_ok_def tab_keys_def leaf_def selection_ok_def)
  have "tabs_match (set_mosaic k ZERO_MOSAIC_STATE s)"
    using d(5,6) assms(2) tree(2) unfolding tabs_match_def set_mosaic_def by (auto split: if_splits) fastforce
  moreover have "rec_wf (rec_set k ZERO_MOSAIC_STATE (mosaics s))" using d(1) by simp
  ultimately show ?thesis
    using d(1-4) assms(2,3) tree(1) by (auto simp: layout_inv_def set_mosaic_def in_mosaic_def split: if_splits)
qed

lemma select_in_layouts:
  assumes "layout_inv s"
  shows "in_mosaic (select s k) \<longleftrightarrow> in_mosaic (rec_get (layouts s) (case select s k of None \<Rightarrow> k | Some p \<Rightarrow> lkey p))"
proof (cases "select s k")
  case None
  then show ?thesis by (auto simp: select_def in_mosaic_def split: option.splits)
next
  case (Some p)
  with select_key [OF assms Some] show ?thesis by simp
qed

lemma place_inv:
  assumes inv: "layout_inv s" and ok: "place_ok l0 s" and step: "place l0 s = Inr s'"
  shows "layout_inv s'"
proof -
  define prev where "prev = select s (lkey l0)"
  define key where "key = placed_key s l0"
  define l where "l = l0\<lparr>lkey := key\<rparr>"
  define win where "win = (ltype l = MOSAIC_WINDOW_TYPE)"
  define s1 where "s1 = (if win then set_mosaic key ZERO_MOSAIC_STATE s else s)"
  from step obtain m0 m where m0: "rec_get (mosaics s) (lwindowKey l) = Some m0" and pt: "place_tab prev l m0 = Inr m"
    and s': "s' = (if win then set_mosaic (lwindowKey l) m (set_layout key l s1)
                   else purgeEmptyMosaics (set_mosaic (lwindowKey l) m (set_layout key l s1)))"
    by (auto simp: place_def Let_def bind_result_eq_Inr get_mosaic_Inr prev_def key_def placed_key_def l_def win_def s1_def)
  note d = layout_invD [OF inv]
  have prev: "in_mosaic prev \<longleftrightarrow> in_mosaic (rec_get (layouts s) key)"
    using select_in_layouts [OF inv, of "lkey l0"] by (simp add: prev_def key_def placed_key_def)
  have window: "lwindowKey p = lwindowKey l" if "rec_get (layouts s) key = Some p" "llocation p = InMosaic" for p
  proof -
    have "in_mosaic prev" using that prev by (simp add: in_mosaic_def)
    then obtain p' where p': "select s (lkey l0) = Some p'" "llocation p' = InMosaic"
      by (auto simp: prev_def in_mosaic_def split: option.splits)
    with select_key [OF inv p'(1)] that(1) have "p' = p" by (simp add: key_def placed_key_def)
    with p' ok show ?thesis by (simp add: place_ok_def l_def)
  qed
  have s1: "layout_inv s1" "rec_get (mosaics s1) (lwindowKey l) = Some m0" "layouts s1 = layouts s"
    using inv ok new_mosaic_inv [of s key] prev m0
    by (auto simp: s1_def win_def place_ok_def key_def prev_def l_def set_mosaic_def)
  have "tree_ok (mroot m) \<and> tab_keys (mroot m) =
      (if llocation l = InMosaic then insert (lkey l) (tab_keys (mroot m0)) else tab_keys (mroot m0) - {lkey l})"
  proof (rule place_tab_tree [OF d(2) [OF m0] pt])
    show "\<not> in_mosaic prev \<Longrightarrow> lkey l \<notin> tab_keys (mroot m0)"
      using d(5) [OF m0, of key] prev by (auto simp: l_def in_mosaic_def)
    show "in_mosaic prev \<Longrightarrow> lkey l \<in> tab_keys (mroot m0)"
      using d(6) [of key] prev window m0 by (fastforce simp: l_def in_mosaic_def split: option.splits)
    show "\<not> in_mosaic prev \<Longrightarrow> llocation l = InMosaic \<Longrightarrow> insert_ok (mroot m0) (place_mosaicKey l m0)"
      using ok m0 by (simp add: place_ok_def prev_def l_def place_mosaicKey_lkey)
  qed
  then have tree: "tree_ok (mroot m)" and keys: "tab_keys (mroot m) =
      (if llocation l = InMosaic then insert key (tab_keys (mroot m0)) else tab_keys (mroot m0) - {key})"
    by (simp_all add: l_def)
  have "layout_inv (set_mosaic (lwindowKey l) m (set_layout key l s1))" (is "layout_inv ?s")
  proof (rule change_inv [OF s1(1,2) tree, where k = key])
    show "tab_keys (mroot m) = (if in_mosaic (rec_get (layouts ?s) key) then insert key (tab_keys (mroot m0)) else tab_keys (mroot m0) - {key})"
      using keys by (simp add: set_mosaic_def set_layout_def in_mosaic_def)
    show "\<And>la. rec_get (layouts ?s) key = Some la \<Longrightarrow>
        lkey la = key \<and> (llocation la = InMosaic \<longrightarrow> lwindowKey la = lwindowKey l \<and> rec_get (mosaics s1) key = None)"
      using ok by (auto simp: set_mosaic_def set_layout_def place_ok_def l_def key_def s1_def win_def)
  qed (use d(1) s1(3) window in \<open>simp_all add: set_mosaic_def set_layout_def\<close>)
  then show ?thesis by (simp add: s' purge_inv)
qed

definition move_ok :: "string \<Rightarrow> string option \<Rightarrow> rat option \<Rightarrow> 'd layout_slice \<Rightarrow> bool" where
  "move_ok tk w k s \<longleftrightarrow>
     (\<forall>l. select s tk = Some l \<longrightarrow> llocation l = InMosaic \<and>
        (if w = None \<or> w = Some (lwindowKey l)
         then (\<forall>m. rec_get (mosaics s) (lwindowKey l) = Some m \<longrightarrow> k \<noteq> None \<longrightarrow>
                 insert_ok (fst (removeTab (mroot m) (lkey l))) k)
         else tk = lkey l \<and> (\<forall>m. rec_get (mosaics s) (the w) = Some m \<longrightarrow> insert_ok (mroot m) k)))"

lemma move_window_inv:
  assumes inv: "layout_inv s" and l: "rec_get (layouts s) (lkey l) = Some l" "llocation l = InMosaic"
    and pm: "rec_get (mosaics s) (lwindowKey l) = Some pm" and w: "w \<noteq> lwindowKey l" and m: "rec_get (mosaics s) w = Some m"
    and ok: "insert_ok (mroot m) k" and ins: "insertTab (mroot m) (moved_tab l) loc k None = Inr r"
  shows "layout_inv (set_mosaic w (m\<lparr>activeTab := a, mroot := r\<rparr>)
    (set_layout (lkey l) (l\<lparr>lwindowKey := w\<rparr>)
      (set_mosaic (lwindowKey l) (pm\<lparr>mroot := fst (removeTab (mroot pm) (lkey l))\<rparr>) s)))"
proof -
  note d = layout_invD [OF inv]
  let ?pm = "pm\<lparr>mroot := fst (removeTab (mroot pm) (lkey l))\<rparr>" and ?m = "m\<lparr>activeTab := a, mroot := r\<rparr>"
  let ?out = "l\<lparr>llocation := InModal\<rparr>" and ?in = "l\<lparr>lwindowKey := w\<rparr>"
  define u where "u = set_mosaic (lwindowKey l) ?pm (set_layout (lkey l) ?out s)"
  note rt = removeTab_tree [OF d(2) [OF pm], of "lkey l"]
  have u: "layout_inv u"
    unfolding u_def
  proof (rule change_inv [OF inv pm, where k = "lkey l"])
    show "tree_ok (mroot ?pm)" using rt by simp
    show "tab_keys (mroot ?pm) = (if in_mosaic (rec_get (layouts (set_mosaic (lwindowKey l) ?pm (set_layout (lkey l) ?out s))) (lkey l))
        then insert (lkey l) (tab_keys (mroot pm)) else tab_keys (mroot pm) - {lkey l})"
      using rt by (simp add: set_mosaic_def set_layout_def in_mosaic_def)
  qed (use d(1) l in \<open>simp_all add: set_mosaic_def set_layout_def\<close>)
  have um: "rec_get (mosaics u) w = Some m" using m w by (simp add: u_def set_mosaic_def set_layout_def)
  have none: "rec_get (mosaics s) (lkey l) = None" using d(4) [OF l(1)] l(2) by (cases "rec_get (mosaics s) (lkey l)") auto
  then have unone: "rec_get (mosaics u) (lkey l) = None" using pm by (auto simp: u_def set_mosaic_def set_layout_def)
  have "lkey l \<notin> tab_keys (mroot m)" using d(5) [OF m, of "lkey l"] l w by auto
  moreover have "tabKey (moved_tab l) = lkey l" by (simp add: moved_tab_def tabFromLayout_def)
  ultimately have tree: "tree_ok r \<and> tab_keys r = insert (lkey l) (tab_keys (mroot m))"
    using insertTab_tree [OF d(2) [OF m] ok _ ins] by simp
  have "layout_inv (set_mosaic w ?m (set_layout (lkey l) ?in u))"
  proof (rule change_inv [OF u um, where k = "lkey l"])
    show "tree_ok (mroot ?m)" using tree by simp
    show "tab_keys (mroot ?m) = (if in_mosaic (rec_get (layouts (set_mosaic w ?m (set_layout (lkey l) ?in u))) (lkey l))
        then insert (lkey l) (tab_keys (mroot m)) else tab_keys (mroot m) - {lkey l})"
      using tree l(2) by (simp add: set_mosaic_def set_layout_def in_mosaic_def)
  qed (use layout_invD(1) [OF u] l unone in \<open>simp_all add: set_mosaic_def set_layout_def u_def\<close>)
  moreover have "set_mosaic w ?m (set_layout (lkey l) ?in u) =
      set_mosaic w ?m (set_layout (lkey l) ?in (set_mosaic (lwindowKey l) ?pm s))"
    by (simp add: u_def set_mosaic_def set_layout_def rec_set_twice)
  ultimately show ?thesis by simp
qed

lemma moveMosaicTab_inv:
  assumes inv: "layout_inv s" and ok: "move_ok tk w k s" and step: "moveMosaicTab tk w k loc ix s = Inr s'"
  shows "layout_inv s'"
proof (cases "select s tk")
  case None
  with step inv show ?thesis by (simp add: moveMosaicTab_def)
next
  case (Some l)
  note l = select_key [OF inv Some]
  have loc: "llocation l = InMosaic" using ok Some by (simp add: move_ok_def)
  show ?thesis
  proof (cases "w = None \<or> w = Some (lwindowKey l)")
    case same: True
    show ?thesis
    proof (cases k)
      case None
      with step same Some inv show ?thesis by (auto simp: moveMosaicTab_def Let_def)
    next
      case (Some kk)
      from step same Some \<open>select s tk = Some l\<close> obtain m r sel where
        m: "rec_get (mosaics s) (lwindowKey l) = Some m" "moveTab (mroot m) (lkey l) loc kk ix = Inr (r, sel)"
        and s': "s' = set_mosaic (lwindowKey l) (m\<lparr>mroot := r\<rparr>) s"
        by (auto simp: moveMosaicTab_def Let_def bind_result_eq_Inr get_mosaic_Inr)
      have "insert_ok (fst (removeTab (mroot m) (lkey l))) (Some kk)"
        using ok same m(1) Some \<open>select s tk = Some l\<close> by (simp add: move_ok_def)
      from moveTab_tree [OF layout_invD(2) [OF inv m(1)] this m(2)] show ?thesis
        unfolding s' by (intro set_mosaic_same [OF inv m(1)]) simp_all
    qed
  next
    case False
    then obtain w' where w': "w = Some w'" "w' \<noteq> lwindowKey l" by auto
    have tk: "tk = lkey l" and oki: "\<And>m. rec_get (mosaics s) w' = Some m \<Longrightarrow> insert_ok (mroot m) k"
      using ok Some False w' by (auto simp: move_ok_def)
    from step Some False w' obtain pm m r where
      pm: "rec_get (mosaics s) (lwindowKey l) = Some pm" and m: "rec_get (mosaics s) w' = Some m"
      and ins: "insertTab (mroot m) (moved_tab l) loc k None = Inr r"
      and s': "\<exists>a. s' = purgeEmptyMosaics (set_mosaic w' (m\<lparr>activeTab := a, mroot := r\<rparr>)
        (set_layout (lkey l) (l\<lparr>lwindowKey := w'\<rparr>)
          (set_mosaic (lwindowKey l) (pm\<lparr>mroot := fst (removeTab (mroot pm) tk)\<rparr>) s)))"
      by (auto simp: moveMosaicTab_def Let_def bind_result_eq_Inr get_mosaic_Inr set_mosaic_def)
    from move_window_inv [OF inv l loc pm w'(2) m oki [OF m] ins] s' show ?thesis by (auto simp: tk purge_inv)
  qed
qed

lemma getStarted_inv:
  assumes inv: "layout_inv s" and ok: "rec_get (mosaics s) GET_STARTED_TYPE = None"
    and step: "maybeCreateGetStartedTab s = Inr s'"
  shows "layout_inv s'"
proof (cases "list_ex (\<lambda>(_, l). llocation l = InMosaic) (layouts s) \<or> alreadyCheckedGetStarted s")
  case True
  with step have "s' = s\<lparr>alreadyCheckedGetStarted := True\<rparr>" by (simp add: maybeCreateGetStartedTab_def Let_def)
  then show ?thesis using inv by (auto intro: layout_inv_cong)
next
  case False
  note d = layout_invD [OF inv]
  from step False obtain m r where m: "rec_get (mosaics s) MAIN_WINDOW = Some m"
    and r: "insertTab (mroot m) get_started_tab CenterLoc None None = Inr r"
    and s': "s' = set_layout ''getStarted'' get_started_layout
      (set_mosaic MAIN_WINDOW (m\<lparr>mroot := r\<rparr>) (s\<lparr>alreadyCheckedGetStarted := True\<rparr>))"
    by (auto simp: maybeCreateGetStartedTab_def Let_def bind_result_eq_Inr get_mosaic_def split: option.splits)
  have out: "llocation l \<noteq> InMosaic" if "rec_get (layouts s) k = Some l" for k l
    using False rec_get_in_set [OF that] by (auto simp: list_ex_iff)
  have "tabKey get_started_tab \<notin> tab_keys (mroot m)"
    using d(5) [OF m, of "tabKey get_started_tab"] out by blast
  from insertTab_tree [OF d(2) [OF m] _ this r] have tree: "tree_ok r" "tab_keys r = insert ''getStarted'' (tab_keys (mroot m))"
    by (simp_all add: insert_ok_def get_started_tab_def GET_STARTED_TYPE_def)
  show ?thesis
    unfolding s'
  proof (rule change_inv [OF inv m, where k = "''getStarted''" and m' = "m\<lparr>mroot := r\<rparr>"])
    show "\<And>l. rec_get (layouts s) ''getStarted'' = Some l \<Longrightarrow> llocation l = InMosaic \<Longrightarrow> lwindowKey l = MAIN_WINDOW"
      using out by blast
  qed (use d(1) tree ok in \<open>simp_all add: set_mosaic_def set_layout_def get_started_layout_def GET_STARTED_TYPE_def in_mosaic_def\<close>)
qed

section \<open>Workspaces\<close>

lemma rec_get_spread:
  assumes "rec_wf b"
  shows "rec_get (rec_spread a b) k = (case rec_get b k of Some v \<Rightarrow> Some v | None \<Rightarrow> rec_get a k)"
  using assms
proof (induction b arbitrary: a)
  case (Cons e b)
  obtain k' v where e: "e = (k', v)" by force
  have "rec_wf b" and "k' \<notin> set (rec_keys b)" using Cons.prems by (auto simp: rec_wf_def rec_keys_def e)
  moreover from this(2) have "rec_get b k' = None" using rec_get_keys [of b k'] by simp
  ultimately show ?case using Cons.IH [of "rec_set k' v a"] by (auto simp: rec_spread_def e split: option.splits)
qed (simp add: rec_spread_def)

lemma rec_wf_spread: "rec_wf a \<Longrightarrow> rec_wf (rec_spread a b)"
  by (induction b arbitrary: a) (auto simp: rec_spread_def case_prod_beta)

lemma rec_get_filter:
  assumes "rec_wf r" and "rec_get (filter (\<lambda>(k, v). P v) r) k = Some v"
  shows "rec_get r k = Some v \<and> P v"
  using rec_get_in_set [OF assms(2)] assms(1) by (auto simp: rec_get_wf_iff)

lemma preserve_get:
  assumes "layout_inv s"
  shows "rec_wf (layoutsToPreserve (layouts s)) \<and>
    (\<forall>k l. rec_get (layoutsToPreserve (layouts s)) k = Some l \<longrightarrow> lkey l = k \<and> llocation l = InWindow)"
proof -
  note d = layout_invD [OF assms]
  have "distinct (map fst (layoutsToPreserve (layouts s)))"
    using d(1) unfolding layoutsToPreserve_def rec_wf_def rec_keys_def by (simp add: distinct_map_filter)
  moreover have "lkey l = k \<and> llocation l = InWindow" if "rec_get (layoutsToPreserve (layouts s)) k = Some l" for k l
    using that d(1,3) rec_get_filter [of "layouts s" "\<lambda>l. llocation l = InWindow \<and> ltype l \<noteq> MOSAIC_WINDOW_TYPE" k l]
    by (auto simp: layoutsToPreserve_def)
  ultimately show ?thesis by (simp add: rec_wf_def rec_keys_def)
qed

lemma main_not_in_mosaic:
  assumes "layout_inv s"
  shows "\<not> in_mosaic (rec_get (layouts s) ''main'')"
  using layout_invD(1,4) [OF assms] by (auto simp: in_mosaic_def MAIN_WINDOW_def split: option.splits)

lemma outside_layouts_inv:
  assumes inv: "layout_inv s" and "rec_wf L"
    and "\<And>k. rec_get L k = rec_get (layouts s) k \<or>
      (\<not> in_mosaic (rec_get (layouts s) k) \<and> \<not> in_mosaic (rec_get L k) \<and> (\<forall>l. rec_get L k = Some l \<longrightarrow> lkey l = k))"
  shows "layout_inv (s\<lparr>layouts := L\<rparr>)"
proof -
  note d = layout_invD [OF inv]
  have key: "lkey l = k" if "rec_get L k = Some l" for k l using that assms(3) [of k] d(3) [of k l] by auto
  have same: "rec_get L k = Some l \<longleftrightarrow> rec_get (layouts s) k = Some l" if "llocation l = InMosaic" for k l
    using assms(3) [of k] that by (auto simp: in_mosaic_def)
  have "tabs_match (s\<lparr>layouts := L\<rparr>)"
    unfolding tabs_match_def
  proof (intro conjI allI impI)
    fix w m k assume "rec_get (mosaics (s\<lparr>layouts := L\<rparr>)) w = Some m" "k \<in> tab_keys (mroot m)"
    then show "\<exists>l. rec_get (layouts (s\<lparr>layouts := L\<rparr>)) k = Some l \<and> llocation l = InMosaic \<and> lwindowKey l = w"
      using d(5) [of w m k] same by auto
  next
    fix k l assume "rec_get (layouts (s\<lparr>layouts := L\<rparr>)) k = Some l" "llocation l = InMosaic"
    then show "\<exists>m. rec_get (mosaics (s\<lparr>layouts := L\<rparr>)) (lwindowKey l) = Some m \<and> k \<in> tab_keys (mroot m)"
      using d(6) [of k l] same [of l k] by simp
  qed
  moreover have "llocation l \<noteq> InMosaic" if "rec_get L w = Some l" "rec_get (mosaics s) w = Some m" for w l m
    using d(4) [of w l m] same [of l w] that by blast
  ultimately show ?thesis using key d(1,2) assms(2) by (auto simp: layout_inv_def)
qed

lemma setWorkspace_layouts_inv:
  assumes s: "layout_inv s" and new: "layout_inv new"
  shows "layout_inv (new\<lparr>layouts := rec_set ''main'' (MAIN_LAYOUT x) (rec_spread (layoutsToPreserve (layouts s)) (layouts new))\<rparr>)"
proof (rule outside_layouts_inv [OF new])
  note p = preserve_get [OF s]
  show "rec_wf (rec_set ''main'' (MAIN_LAYOUT x) (rec_spread (layoutsToPreserve (layouts s)) (layouts new)))"
    using p by (simp add: rec_wf_spread)
  fix k
  let ?L = "rec_set ''main'' (MAIN_LAYOUT x) (rec_spread (layoutsToPreserve (layouts s)) (layouts new))"
  have get: "rec_get ?L k = (if k = ''main'' then Some (MAIN_LAYOUT x) else case rec_get (layouts new) k of
      Some v \<Rightarrow> Some v | None \<Rightarrow> rec_get (layoutsToPreserve (layouts s)) k)"
    using layout_invD(1) [OF new] by (simp add: rec_get_spread)
  show "rec_get ?L k = rec_get (layouts new) k \<or>
      (\<not> in_mosaic (rec_get (layouts new) k) \<and> \<not> in_mosaic (rec_get ?L k) \<and> (\<forall>l. rec_get ?L k = Some l \<longrightarrow> lkey l = k))"
    using get main_not_in_mosaic [OF new] p
    by (cases "k = ''main''"; cases "rec_get (layouts new) k"; cases "rec_get (layoutsToPreserve (layouts s)) k")
      (auto simp: in_mosaic_def MAIN_LAYOUT_def)
qed

lemma zero_inv: "layout_inv (carried (ZERO_SLICE_STATE c))"
  by (auto simp: layout_inv_def tabs_match_def ZERO_SLICE_STATE_def ZERO_MOSAIC_STATE_def tree_ok_def tab_keys_def leaf_def
      selection_ok_def MAIN_LAYOUT_def MAIN_WINDOW_def rec_wf_def rec_keys_def split: if_splits)

end
