(* ===== verification/Layout_Store.thy ===== *)
theory Layout_Store
  imports Layout_Invariant
begin

text \<open>
  The whole reducer of the layouts: the chain of its migrations, that every action keeps the invariant, and
  the properties of the store.
\<close>

section \<open>Migrations\<close>

lemma slice_migration_keys:
  "rec_keys (SLICE_MIGRATIONS c) = [''0.0.0'', ''0.1.0'', ''0.2.0'', ''3.0.0'', ''4.0.0'']"
  by (simp add: SLICE_MIGRATIONS_def rec_keys_def)

lemma slice_latest: "latestMigrationVersion (SLICE_MIGRATIONS c) = Inr (Some ''4.0.0'')"
  unfolding latestMigrationVersion_def slice_migration_keys by code_simp

lemma slice_newer:
  "semVerNewer ''5.0.0'' ''4.0.0'' no_opts = Inr True" "semVerNewer ''4.0.0'' ''4.0.0'' no_opts = Inr False"
  "semVerNewer ''3.0.0'' ''4.0.0'' no_opts = Inr False" "semVerNewer ''0.2.0'' ''4.0.0'' no_opts = Inr False"
  "semVerNewer ''0.1.0'' ''4.0.0'' no_opts = Inr False" "semVerNewer ''0.0.0'' ''4.0.0'' no_opts = Inr False"
  by code_simp+

lemma slice_step:
  "rec_get (SLICE_MIGRATIONS c) ''0.0.0'' = Some (with_version ''0.1.0'' id)"
  "rec_get (SLICE_MIGRATIONS c) ''0.1.0'' = Some (with_version ''0.2.0'' id)"
  "rec_get (SLICE_MIGRATIONS c) ''0.2.0'' = Some (with_version ''3.0.0'' (\<lambda>s. s\<lparr>altKeyToKey := [], keyToAltKey := []\<rparr>))"
  "rec_get (SLICE_MIGRATIONS c) ''3.0.0'' = Some (with_version ''4.0.0'' (\<lambda>s. s\<lparr>colorContext := zeroColors c\<rparr>))"
  "rec_get (SLICE_MIGRATIONS c) ''4.0.0'' = Some (with_version ''5.0.0'' (\<lambda>s. s\<lparr>nav := ZERO_NAV_STATE\<rparr>))"
  by (simp_all add: SLICE_MIGRATIONS_def)

lemma with_version_apply: "with_version v f s = Inr \<lparr>version = Some v, carried = f (carried s)\<rparr>"
  by (simp add: with_version_def createMigration_def)

lemma migrateSlice_run:
  assumes "version s \<noteq> None" and "migrate_f depth (SLICE_MIGRATIONS c) ''4.0.0'' (ZERO_SLICE_STATE c) s = Inr t"
  shows "migrateSlice depth c s = Inr t"
  using assms by (auto simp: migrateSlice_def migrator_def slice_latest Let_def split: option.splits)

text \<open>One step of the chain, from a version to the next.\<close>

lemma slice_chain:
  assumes "semVerNewer v ''4.0.0'' no_opts = Inr False" and "rec_get (SLICE_MIGRATIONS c) v = Some (with_version v' f)"
    and "\<And>x. migrate_f d (SLICE_MIGRATIONS c) ''4.0.0'' (ZERO_SLICE_STATE c) \<lparr>version = Some v', carried = x\<rparr> =
          Inr \<lparr>version = Some ''5.0.0'', carried = g x\<rparr>"
  shows "migrate_f (Suc d) (SLICE_MIGRATIONS c) ''4.0.0'' (ZERO_SLICE_STATE c) \<lparr>version = Some v, carried = y\<rparr> =
          Inr \<lparr>version = Some ''5.0.0'', carried = g (f y)\<rparr>"
  using assms by (simp add: with_version_apply)

lemma slice_chain_end:
  "migrate_f (Suc d) (SLICE_MIGRATIONS c) ''4.0.0'' (ZERO_SLICE_STATE c) \<lparr>version = Some ''5.0.0'', carried = x\<rparr> =
     Inr \<lparr>version = Some ''5.0.0'', carried = x\<rparr>"
  by (simp add: slice_newer)

lemmas slice_chain4 = slice_chain [OF slice_newer(2) slice_step(5) slice_chain_end]
lemmas slice_chain3 = slice_chain [OF slice_newer(3) slice_step(4) slice_chain4]
lemmas slice_chain2 = slice_chain [OF slice_newer(4) slice_step(3) slice_chain3]
lemmas slice_chain1 = slice_chain [OF slice_newer(5) slice_step(2) slice_chain2]
lemmas slice_chain0 = slice_chain [OF slice_newer(6) slice_step(1) slice_chain1]

lemma migrateSlice_current:
  "version s = Some ''5.0.0'' \<Longrightarrow> migrateSlice (Suc d) c s = Inr s"
  by (rule migrateSlice_run) (simp_all add: slice_newer)

definition slice_versions :: "string list" where
  "slice_versions = [''0.0.0'', ''0.1.0'', ''0.2.0'', ''3.0.0'', ''4.0.0'', ''5.0.0'']"

text \<open>
  A persisted layout state of any released version is migrated to the current one, whatever depth of the call
  stack of six calls or more; its layouts, mosaics and themes are unchanged, and it never becomes the default.
\<close>

theorem migrateSlice_upgrades:
  assumes "version s = Some v" and "v \<in> set slice_versions"
  shows "\<exists>t. migrateSlice (6 + d) c s = return t \<and> version t = Some ''5.0.0'' \<and>
    layouts (carried t) = layouts (carried s) \<and> mosaics (carried t) = mosaics (carried s) \<and>
    themes (carried t) = themes (carried s) \<and> activeTheme (carried t) = activeTheme (carried s)"
proof -
  let ?f = "migrate_f (6 + d) (SLICE_MIGRATIONS c) ''4.0.0'' (ZERO_SLICE_STATE c)"
  have depth: "6 + d = Suc (Suc (Suc (Suc (Suc (Suc d)))))" by simp
  have "\<exists>x. ?f \<lparr>version = Some v, carried = y\<rparr> = Inr \<lparr>version = Some ''5.0.0'', carried = x\<rparr> \<and> layouts x = layouts y \<and>
      mosaics x = mosaics y \<and> themes x = themes y \<and> activeTheme x = activeTheme y" for y
    using assms(2) unfolding slice_versions_def depth
    by (auto simp only: slice_chain0 slice_chain1 slice_chain2 slice_chain3 slice_chain4 slice_chain_end
        list.set insert_iff empty_iff) simp_all
  then have "\<exists>x. ?f s = Inr \<lparr>version = Some ''5.0.0'', carried = x\<rparr> \<and> layouts x = layouts (carried s) \<and>
      mosaics x = mosaics (carried s) \<and> themes x = themes (carried s) \<and> activeTheme x = activeTheme (carried s)"
    using assms(1) by (cases s) auto
  then obtain x where x: "?f s = Inr \<lparr>version = Some ''5.0.0'', carried = x\<rparr>" "layouts x = layouts (carried s)"
      "mosaics x = mosaics (carried s)" "themes x = themes (carried s)" "activeTheme x = activeTheme (carried s)" by blast
  have "migrateSlice (6 + d) c s = Inr \<lparr>version = Some ''5.0.0'', carried = x\<rparr>"
    by (rule migrateSlice_run) (simp_all add: x assms(1))
  with x show ?thesis by simp
qed

section \<open>The store\<close>

definition layout_action_ok :: "'d layout_action \<Rightarrow> 'd layout_slice versioned \<Rightarrow> bool" where
  "layout_action_ok a s =
     (case a of
        Place l \<Rightarrow> place_ok l (carried s)
      | MoveMosaicTab tk w k loc ix \<Rightarrow> move_ok tk w k (carried s)
      | MaybeCreateGetStartedTab \<Rightarrow> rec_get (mosaics (carried s)) GET_STARTED_TYPE = None
      | SetWorkspace slice keepNav \<Rightarrow> version slice = Some ''5.0.0'' \<and> layout_inv (carried slice)
      | _ \<Rightarrow> True)"

lemma lift_inv:
  assumes "lift f s = Inr s'" and "layout_inv (carried s)"
    and "\<And>t. f (carried s) = Inr t \<Longrightarrow> layout_inv t"
  shows "layout_inv (carried s')"
  using assms by (auto simp: lift_def bind_result_eq_Inr)

lemma frame_inv:
  assumes "layout_inv s"
  shows "layout_inv (s\<lparr>hauling := h\<rparr>)" "layout_inv (setAltKey k ak s)" "layout_inv (setActiveTheme ok s)"
    "layout_inv (toggleActiveTheme s)" "layout_inv (set_drawers w ds s)" "layout_inv (setNavDrawer w loc d s)"
    "layout_inv (on_drawer w loc f s)" "layout_inv (resizeNavDrawer w loc sz s)" "layout_inv (startNavHover w loc k s)"
    "layout_inv (toggleNavHover w k s)" "layout_inv (stopNavHover w loc s)"
    "setNavDrawerVisible w okk ol v s = Inr t \<Longrightarrow> layout_inv t"
  by (rule layout_inv_cong [OF assms],
      auto simp: setAltKey_def setActiveTheme_def toggleActiveTheme_def set_drawers_def setNavDrawer_def on_drawer_def
        resizeNavDrawer_def startNavHover_def toggleNavHover_def stopNavHover_def setNavDrawerVisible_def Let_def
        split: option.splits)+

lemma setArgs_inv: "layout_inv s \<Longrightarrow> layout_inv (setArgs k d s)"
  using set_layout_same select_key by (fastforce simp: setArgs_def split: option.splits)

lemma focus_inv:
  assumes "layout_inv s" and "rec_get (mosaics s) w = Some m"
  shows "layout_inv (set_mosaic w (m\<lparr>focused := f\<rparr>) s)"
  using layout_invD(2) [OF assms] by (intro set_mosaic_same [OF assms]) simp_all

lemma setFocus_inv:
  assumes inv: "layout_inv s" and step: "setFocus k w s = Inr t"
  shows "layout_inv t"
proof (cases k)
  case None
  with step show ?thesis by (auto simp: setFocus_def bind_result_eq_Inr get_mosaic_Inr intro: focus_inv [OF inv])
next
  case (Some kk)
  with step inv show ?thesis
    by (cases "select s kk") (auto simp: setFocus_def bind_result_eq_Inr get_mosaic_Inr intro: focus_inv)
qed

lemma selectMosaicTab_inv:
  assumes inv: "layout_inv s" and step: "selectMosaicTab tk s = Inr t"
  shows "layout_inv t"
proof (cases "select s tk")
  case None
  with inv step show ?thesis by (simp add: selectMosaicTab_def)
next
  case (Some l)
  with step obtain m where m: "rec_get (mosaics s) (lwindowKey l) = Some m"
    and t: "(if activeTab m = Some tk then return s
            else bind_result (selectTab (mroot m) (lkey l)) (\<lambda>r.
                 return (set_mosaic (lwindowKey l) (m\<lparr>mroot := r, activeTab := Some (lkey l)\<rparr>) s))) = Inr t"
    by (auto simp: selectMosaicTab_def bind_result_eq_Inr get_mosaic_Inr)
  show ?thesis
  proof (cases "activeTab m = Some tk")
    case True
    with t inv show ?thesis by simp
  next
    case False
    with t obtain r where r: "selectTab (mroot m) (lkey l) = Inr r"
      "t = set_mosaic (lwindowKey l) (m\<lparr>mroot := r, activeTab := Some (lkey l)\<rparr>) s"
      by (auto simp: bind_result_eq_Inr)
    from selectTab_tree [OF layout_invD(2) [OF inv m] r(1)] show ?thesis
      unfolding r(2) by (intro set_mosaic_same [OF inv m]) simp_all
  qed
qed

lemma resize_split_inv:
  assumes inv: "layout_inv s" and "splitMosaicNode w dir tk s = Inr t \<or> resizeMosaicTab w k sz s = Inr t"
  shows "layout_inv t"
  using assms(2) unfolding splitMosaicNode_def resizeMosaicTab_def
  by (elim disjE) (erule on_root_inv [OF inv], erule (1) split_tree, erule on_root_inv [OF inv], erule (1) resizeNode_tree)

lemma rename_inv:
  assumes inv: "layout_inv s" and step: "rename_layout tk nm s = Inr t"
  shows "layout_inv t"
proof (cases "select s tk")
  case None
  with inv step show ?thesis by (simp add: rename_layout_def)
next
  case (Some l)
  have "layout_inv (set_layout (lkey l) (l\<lparr>lname := nm\<rparr>) s)"
    using select_key [OF inv Some] by (intro set_layout_same [OF inv]) simp_all
  moreover have "on_root (lwindowKey l) (\<lambda>r. renameTab r (lkey l) nm) (set_layout (lkey l) (l\<lparr>lname := nm\<rparr>) s) = Inr t"
    using step Some by (simp add: rename_layout_def)
  ultimately show ?thesis by (rule on_root_inv) (rule renameTab_tree)
qed

lemma setUnsavedChanges_inv:
  assumes inv: "layout_inv s" and step: "setUnsavedChanges k b s = Inr t"
  shows "layout_inv t"
proof (cases "select s k")
  case None
  with inv step show ?thesis by (simp add: setUnsavedChanges_def)
next
  case (Some l)
  let ?l = "l\<lparr>lunsavedChanges := Some b\<rparr>"
  have "layout_inv (set_layout (lkey l) ?l s)"
    using select_key [OF inv Some] by (intro set_layout_same [OF inv]) simp_all
  moreover have "on_root (lwindowKey l) (\<lambda>r. updateTab r (lkey l) (\<lambda>_. (tabFromLayout ?l)\<lparr>unsavedChanges := Some b\<rparr>))
      (set_layout (lkey l) ?l s) = Inr t"
    using step Some by (simp add: setUnsavedChanges_def Let_def)
  ultimately show ?thesis by (rule on_root_inv) (erule updateTab_tree, assumption, simp add: tabFromLayout_def)
qed

lemma setWorkspace_inv:
  assumes "layout_inv (carried s)" and "version slice = Some ''5.0.0''" and "layout_inv (carried slice)"
    and "setWorkspace (Suc d) c slice keepNav s = Inr t"
  shows "layout_inv (carried t)"
proof -
  let ?L = "rec_set ''main'' (MAIN_LAYOUT (navTop c)) (rec_spread (layoutsToPreserve (layouts (carried s))) (layouts (carried slice)))"
  have "layout_inv ((carried slice)\<lparr>layouts := ?L\<rparr>)" by (rule setWorkspace_layouts_inv [OF assms(1,3)])
  moreover have "layouts (carried t) = ?L" "mosaics (carried t) = mosaics (carried slice)"
    using assms(2,4) by (auto simp: setWorkspace_def Let_def migrateSlice_current)
  ultimately show ?thesis by (auto intro: layout_inv_cong)
qed

lemma clearWorkspace_inv:
  assumes "layout_inv s"
  shows "layout_inv (carried (clearWorkspace c s))"
proof -
  let ?z = "carried (ZERO_SLICE_STATE c)"
  let ?L = "rec_set ''main'' (MAIN_LAYOUT (navTop c)) (layoutsToPreserve (layouts s))"
  note p = preserve_get [OF assms]
  have "layout_inv (?z\<lparr>layouts := ?L\<rparr>)"
  proof (rule outside_layouts_inv [OF zero_inv])
    show "rec_wf ?L" using p by simp
    fix k
    show "rec_get ?L k = rec_get (layouts ?z) k \<or> (\<not> in_mosaic (rec_get (layouts ?z) k) \<and> \<not> in_mosaic (rec_get ?L k) \<and>
        (\<forall>l. rec_get ?L k = Some l \<longrightarrow> lkey l = k))"
      using p by (cases "rec_get (layoutsToPreserve (layouts s)) k")
        (auto simp: in_mosaic_def MAIN_LAYOUT_def ZERO_SLICE_STATE_def)
  qed
  then show ?thesis by (rule layout_inv_cong) (simp_all add: clearWorkspace_def Let_def)
qed

lemma layout_reducer_inv:
  assumes inv: "layout_inv (carried s)" and ok: "layout_action_ok a s" and step: "layout_reducer (Suc d) c a s = Inr t"
  shows "layout_inv (carried t)"
proof -
  note L = lift_inv [OF _ inv]
  show ?thesis
  proof (cases a)
    case (Place l)
    with step ok show ?thesis by (auto simp: layout_reducer_def layout_action_ok_def intro!: L dest: place_inv [OF inv])
  next
    case (Remove ks)
    with step show ?thesis by (auto simp: layout_reducer_def intro!: L remove_layouts_inv [OF inv])
  next
    case (MoveMosaicTab tk w k loc ix)
    with step ok show ?thesis by (auto simp: layout_reducer_def layout_action_ok_def intro!: L dest: moveMosaicTab_inv [OF inv])
  next
    case (SplitMosaicNode w dir tk)
    with step show ?thesis by (auto simp: layout_reducer_def intro!: L dest: resize_split_inv [OF inv, OF disjI1])
  next
    case (SelectMosaicTab tk)
    with step show ?thesis by (auto simp: layout_reducer_def intro!: L dest: selectMosaicTab_inv [OF inv])
  next
    case (ResizeMosaicTab w k sz)
    with step show ?thesis by (auto simp: layout_reducer_def intro!: L dest: resize_split_inv [OF inv, OF disjI2])
  next
    case (RenameLayout tk nm)
    with step show ?thesis by (auto simp: layout_reducer_def intro!: L dest: rename_inv [OF inv])
  next
    case (SetNavDrawerVisible w k loc v)
    with step show ?thesis by (auto simp: layout_reducer_def intro!: L dest: frame_inv(12) [OF inv])
  next
    case MaybeCreateGetStartedTab
    with step ok show ?thesis by (auto simp: layout_reducer_def layout_action_ok_def intro!: L dest: getStarted_inv [OF inv])
  next
    case (SetWorkspace slice keepNav)
    with step ok show ?thesis
      using setWorkspace_inv [OF inv, of slice d c keepNav t] by (simp add: layout_reducer_def layout_action_ok_def)
  next
    case ClearWorkspace
    with step clearWorkspace_inv [OF inv] show ?thesis by (auto simp: layout_reducer_def)
  next
    case (SetArgs k x)
    with step show ?thesis by (auto simp: layout_reducer_def intro!: L setArgs_inv [OF inv])
  next
    case (SetFocus k w)
    with step show ?thesis by (auto simp: layout_reducer_def intro!: L dest: setFocus_inv [OF inv])
  next
    case (SetUnsavedChanges k b)
    with step show ?thesis by (auto simp: layout_reducer_def intro!: L dest: setUnsavedChanges_inv [OF inv])
  qed (use step in \<open>auto simp: layout_reducer_def intro!: L frame_inv(1-11) [OF inv]\<close>)
qed

interpretation layout_store: action_reducer "layout_reducer (Suc d) c" "\<lambda>s. layout_inv (carried s)" layout_action_ok for d c
  by unfold_locales (rule layout_reducer_inv)

section \<open>Properties\<close>

text \<open>
  C5: In every state that a store reaches from the initial one by admissible actions, the tabs of a window
  are exactly the layouts placed in its mosaic, once each: every tab has a layout that says it is in the
  mosaic of that window, every such layout has its tab there, and the mosaics stay well formed. The
  conditions on the actions are: (1) a layout that is placed again while it is in a mosaic stays in its
  window, a layout placed in a mosaic does not have the key of a mosaic, and a mosaic window is new and not
  itself in a mosaic; (2) a move is of a layout in a mosaic, and names it by its own key when it goes to
  another window; (3) when a placement or a move inserts at a node of the mosaic (given, or that of the
  active tab), the search for its key, in the mosaic without the moved tab, ends at a leaf, and the searches
  for the keys of the children of that leaf end at leaves too; this is so while the nodes have the keys 2k
  and 2k + 1 that the type documents and the key is not that of an inner node, but liftUp breaks the
  numbering after a removal (tree.ts:350); (4) the get-started tab does not have the key of a mosaic; (5) a
  loaded workspace has the version 5.0.0, so that it is not migrated, and is consistent itself.
\<close>

theorem tabs_match_layouts:
  assumes "reachable (layout_reducer (Suc d) c) layout_action_ok (ZERO_SLICE_STATE c) s"
  shows "layout_inv (carried s)"
  using layout_store.reachable_inv [OF assms] zero_inv [of c] by blast

definition sample_constants :: "unit constants" where
  "sample_constants = \<lparr>navTop = (), dark = (), light = (), zeroHauling = (), zeroColors = ()\<rparr>"

definition sample_layout :: "string \<Rightarrow> string \<Rightarrow> unit layout" where
  "sample_layout k w =
     \<lparr>lkey = k, ltype = ''lineplot'', lname = k, licon = None, llocation = InMosaic, lwindowKey = w, lwindow = None,
      ltab = None, largs = None, excludeFromWorkspace = None, beta = None, lunsavedChanges = None\<rparr>"

abbreviation sample_run :: "unit layout_action list \<Rightarrow> unit layout_slice versioned" where
  "sample_run as \<equiv> fold (store_dispatch (layout_reducer (Suc 6) sample_constants)) as (ZERO_SLICE_STATE sample_constants)"

theorem tabs_match_layouts_witness:
  "layout_inv (carried (sample_run [Place (sample_layout ''a'' ''main''), Remove [''a'']])) \<and>
   map (tabs_of \<circ> mroot \<circ> snd) (mosaics (carried (sample_run [Place (sample_layout ''a'' ''main'')]))) =
     [[tabFromLayout (sample_layout ''a'' ''main'')]]"
proof -
  let ?z = "ZERO_SLICE_STATE sample_constants" and ?step = "layout_reducer (Suc 6) sample_constants"
  have "place_ok (sample_layout ''a'' ''main'') (carried ?z)"
    by (auto simp: place_ok_def select_def placed_key_def ZERO_SLICE_STATE_def sample_layout_def MOSAIC_WINDOW_TYPE_def
        ZERO_MOSAIC_STATE_def insert_ok_def place_mosaicKey_def)
  then have "layout_action_ok (Place (sample_layout ''a'' ''main'')) ?z" by (simp add: layout_action_ok_def)
  then have "reachable ?step layout_action_ok ?z (store_dispatch ?step (Place (sample_layout ''a'' ''main'')) ?z)"
    by (rule reachable.action [OF reachable.initial])
  then have "reachable ?step layout_action_ok ?z
      (store_dispatch ?step (Remove [''a'']) (store_dispatch ?step (Place (sample_layout ''a'' ''main'')) ?z))"
    by (rule reachable.action) (simp add: layout_action_ok_def)
  from tabs_match_layouts [OF this]
  have "layout_inv (carried (sample_run [Place (sample_layout ''a'' ''main''), Remove [''a'']]))" by simp
  moreover have "map (tabs_of \<circ> mroot \<circ> snd) (mosaics (carried (sample_run [Place (sample_layout ''a'' ''main'')]))) =
     [[tabFromLayout (sample_layout ''a'' ''main'')]]" by code_simp
  ultimately show ?thesis ..
qed

theorem migrateSlice_upgrades_witness:
  "\<exists>t. migrateSlice (6 + 0) sample_constants ((ZERO_SLICE_STATE sample_constants)\<lparr>version := Some ''0.2.0''\<rparr>) = return t \<and>
    version t = Some ''5.0.0''"
  using migrateSlice_upgrades [of "(ZERO_SLICE_STATE sample_constants)\<lparr>version := Some ''0.2.0''\<rparr>" "''0.2.0''" 0 sample_constants]
  by (auto simp: slice_versions_def)

text \<open>
  Removing a layout of a mosaic removes it and its tab: afterwards no layout has its key and no mosaic of any window has its tab, while the layouts that are neither it nor
  an emptied mosaic window are as they were.
\<close>

theorem remove_removes:
  assumes "layout_inv s" and "select s k = Some l" and "llocation l = InMosaic" and "lkey l \<noteq> MAIN_WINDOW"
  shows "rec_get (layouts (remove_one k s)) (lkey l) = None \<and>
    (\<forall>w m. rec_get (mosaics (remove_one k s)) w = Some m \<longrightarrow> lkey l \<notin> tab_keys (mroot m))"
proof -
  note d = layout_invD [OF assms(1)]
  have l: "rec_get (layouts s) (lkey l) = Some l" by (rule select_key [OF assms(1,2)])
  from d(6) [OF l assms(3)] obtain m where m: "rec_get (mosaics s) (lwindowKey l) = Some m" by blast
  have purge: "rec_get (layouts u) x = None \<Longrightarrow> rec_get (layouts (purgeEmptyMosaics u)) x = None" for u :: "'d layout_slice" and x
  proof -
    have "rec_get (layouts u) x = None \<Longrightarrow> rec_get (layouts (fold purge_mosaic es u)) x = None" for es
      by (induction es arbitrary: u) (auto simp: purge_mosaic_def)
    then show "rec_get (layouts u) x = None \<Longrightarrow> rec_get (layouts (purgeEmptyMosaics u)) x = None"
      by (simp add: purgeEmptyMosaics_def)
  qed
  have gone: "rec_get (layouts (remove_one k s)) (lkey l) = None"
    using assms(2-4) m by (auto simp: remove_one_def Let_def case_prod_beta set_mosaic_def intro!: purge)
  moreover have "lkey l \<notin> tab_keys (mroot n)" if "rec_get (mosaics (remove_one k s)) w = Some n" for w n
    using layout_invD(5) [OF remove_one_inv [OF assms(1)] that, of "lkey l"] gone by auto
  ultimately show ?thesis by blast
qed

theorem remove_removes_witness:
  "rec_get (layouts (remove_one ''a'' (carried (sample_run [Place (sample_layout ''a'' ''main'')])))) ''a'' = None"
proof -
  let ?z = "ZERO_SLICE_STATE sample_constants" and ?s = "carried (sample_run [Place (sample_layout ''a'' ''main'')])"
  have ok: "place_ok (sample_layout ''a'' ''main'') (carried ?z)"
    by (auto simp: place_ok_def select_def placed_key_def ZERO_SLICE_STATE_def sample_layout_def MOSAIC_WINDOW_TYPE_def
        ZERO_MOSAIC_STATE_def insert_ok_def place_mosaicKey_def)
  have "place (sample_layout ''a'' ''main'') (carried ?z) = Inr ?s" by code_simp
  from place_inv [OF zero_inv ok this] have "layout_inv ?s" .
  moreover have "select ?s ''a'' = Some (sample_layout ''a'' ''main'')" by code_simp
  ultimately show ?thesis
    using remove_removes [of ?s "''a''" "sample_layout ''a'' ''main''"] by (simp add: sample_layout_def MAIN_WINDOW_def)
qed

text \<open>
  Moving a tab to another window by its alternative key leaves the tab in the old window as well: the tab is looked up there
  by the alternative key, which no tab has.
\<close>

theorem move_by_alt_key_duplicates:
  "map (\<lambda>(w, m). (w, map tabKey (tabs_of (mroot m)))) (mosaics (carried (sample_run
     [Place (sample_layout ''a'' ''main''), SetAltKey ''a'' ''b'', Place (createMosaicWindow ''1'' () ''main''),
      MoveMosaicTab ''b'' (Some ''mosaicWindow-1'') None CenterLoc None]))) =
   [(''main'', [''a'']), (''mosaicWindow-1'', [''a''])]"
  by code_simp

text \<open>Renaming stores the name as it is in the layout, but trimmed or not at all in the tab.\<close>

lemma rename_blank_diverges:
  "(let s = carried (sample_run [Place (sample_layout ''a'' ''main''), RenameLayout ''a'' '' '']) in
      map_option lname (rec_get (layouts s) ''a'') = Some '' '' \<and>
      map (\<lambda>(_, m). map tab.name (tabs_of (mroot m))) (mosaics s) = [[''a'']])"
  by code_simp

text \<open>Placing a layout that is in the mosaic of one window in that of another throws.\<close>

lemma place_in_other_window_throws:
  "place (sample_layout ''a'' ''mosaicWindow-1'') (carried (sample_run
     [Place (sample_layout ''a'' ''main''), Place (createMosaicWindow ''1'' () ''main'')])) = throw ''Tab not found''"
  by code_simp

text \<open>Asking to hide an item of a drawer that is shown while hovering shows it permanently.\<close>

lemma hide_hovered_shows:
  "show_item ''channel'' (Some False) \<lparr>activeItem = Some ''channel'', menuItems = [''channel''], drawer_size = None, hover = Some True\<rparr> =
     \<lparr>activeItem = Some ''channel'', menuItems = [''channel''], drawer_size = None, hover = Some False\<rparr>"
  by code_simp

end
