(* ===== verification/Deep.thy ===== *)
theory Deep
  imports Js_Text Complex_Main
begin

text \<open>
  Nested values and the paths into them (\<open>x/ts/src/deep\<close>): reading, writing and removing at a path
  (\<open>path.ts\<close>), merging (\<open>merge.ts\<close>), comparing (\<open>equal.ts\<close>, \<open>difference.ts\<close>) and deleting
  (\<open>delete.ts\<close>).

  A value is a tree of the plain values of the language; what the functions change in place is a value
  that they return here.  A path is a text that is split into the keys to follow.  Members that objects
  inherit are not part of a value, and a property of an array that is neither an element nor the length
  is not modelled: writing one is the error \<open>named property of an array\<close>.
\<close>

section \<open>Values\<close>

datatype json =
  Undef | Null | JBool bool | JNum rat | JStr string | JArr "json list" | JObj "(string \<times> json) list"

type_synonym settings = "(string, json) rec"

definition nullish :: "json \<Rightarrow> bool" where
  "nullish v \<longleftrightarrow> v = Undef \<or> v = Null"

fun isObject :: "json \<Rightarrow> bool" where
  "isObject (JObj _) = True"
| "isObject _ = False"

datatype js_type = TUndefined | TBoolean | TNumber | TString | TObject

fun typeof :: "json \<Rightarrow> js_type" where
  "typeof Undef = TUndefined"
| "typeof (JBool _) = TBoolean"
| "typeof (JNum _) = TNumber"
| "typeof (JStr _) = TString"
| "typeof _ = TObject"

definition deep_type_error :: "'a result" where
  "deep_type_error = throw ''TypeError''"

text \<open>The decimal text of a number, and the keys that are indices of an array: those that are such a text.\<close>

fun nat_text :: "nat \<Rightarrow> string" where
  "nat_text n = (if n < 10 then [char_of (48 + n)] else nat_text (n div 10) @ [char_of (48 + n mod 10)])"

declare nat_text.simps [simp del]

definition array_index :: "string \<Rightarrow> nat option" where
  "array_index k = (let n = decimal_value k in if is_decimal k \<and> nat_text n = k then Some n else None)"

lemma array_index_inject: "array_index k = Some i \<Longrightarrow> array_index k' = Some i \<Longrightarrow> k = k'"
  by (auto simp: array_index_def Let_def split: if_splits)

definition elem_at :: "json list \<Rightarrow> nat \<Rightarrow> json" where
  "elem_at xs i = (if i < length xs then xs ! i else Undef)"

text \<open>\<open>v[k]\<close>.\<close>

definition js_get :: "json \<Rightarrow> string \<Rightarrow> json result" where
  "js_get v k =
     (case v of
        Undef \<Rightarrow> deep_type_error
      | Null \<Rightarrow> deep_type_error
      | JArr xs \<Rightarrow>
          return (case array_index k of
                    Some i \<Rightarrow> elem_at xs i
                  | None \<Rightarrow> if k = ''length'' then JNum (of_nat (length xs)) else Undef)
      | JStr s \<Rightarrow>
          return (case array_index k of
                    Some i \<Rightarrow> if i < length s then JStr [s ! i] else Undef
                  | None \<Rightarrow> if k = ''length'' then JNum (of_nat (length s)) else Undef)
      | JObj ps \<Rightarrow> return (case rec_get ps k of None \<Rightarrow> Undef | Some x \<Rightarrow> x)
      | _ \<Rightarrow> return Undef)"

text \<open>\<open>v[k] = x\<close> in a module, which is strict; an element past the end leaves the ones before it undefined.\<close>

definition set_elem :: "json list \<Rightarrow> nat \<Rightarrow> json \<Rightarrow> json list" where
  "set_elem xs i x = (xs @ replicate (Suc i - length xs) Undef)[i := x]"

definition js_put :: "json \<Rightarrow> string \<Rightarrow> json \<Rightarrow> json result" where
  "js_put v k x =
     (case v of
        JObj ps \<Rightarrow> return (JObj (rec_set k x ps))
      | JArr xs \<Rightarrow>
          (case array_index k of
             Some i \<Rightarrow> return (JArr (set_elem xs i x))
           | None \<Rightarrow> throw ''named property of an array'')
      | _ \<Rightarrow> deep_type_error)"

section \<open>Paths\<close>

abbreviation path_parts :: "string \<Rightarrow> string list" where
  "path_parts path \<equiv> js_split ''.'' path"

fun join_with :: "string \<Rightarrow> string list \<Rightarrow> string" where
  "join_with sep [] = []"
| "join_with sep [s] = s"
| "join_with sep (s # t # ts) = s @ sep @ join_with sep (t # ts)"

text \<open>What a replacer returns: nothing, a text or several.\<close>

datatype replacement = NoPart | OnePart string | Parts "string list"

definition transformPath :: "string \<Rightarrow> (string \<Rightarrow> nat \<Rightarrow> string list \<Rightarrow> replacement) \<Rightarrow> string \<Rightarrow> string" where
  "transformPath path replacer sep =
     (let parts = js_split sep path
      in join_with sep
           (List.map_filter
              (\<lambda>(ix, part). case replacer part ix parts of NoPart \<Rightarrow> None | OnePart s \<Rightarrow> Some s | Parts ss \<Rightarrow> Some (join_with sep ss))
              (enumerate 0 parts)))"

text \<open>The loop of \<open>get\<close>; the getter is \<open>obj[key]\<close> unless the caller gives one. \<open>None\<close> is the \<open>null\<close> of an optional path.\<close>

fun get_parts ::
  "(json \<Rightarrow> string \<Rightarrow> json result) \<Rightarrow> bool \<Rightarrow> string \<Rightarrow> string list \<Rightarrow> json \<Rightarrow> json option result" where
  "get_parts getter opt path [] v = return (Some v)"
| "get_parts getter opt path (part # parts) v =
     bind_result (getter v part) (\<lambda>x.
       if nullish x
       then (if opt then return None else throw (''Path '' @ path @ '' does not exist. '' @ part @ '' is null''))
       else get_parts getter opt path parts x)"

definition deep_get ::
  "(json \<Rightarrow> string \<Rightarrow> json result) \<Rightarrow> bool \<Rightarrow> string \<Rightarrow> json \<Rightarrow> string \<Rightarrow> json option result" where
  "deep_get getter opt sep obj path =
     (let parts = js_split sep path
      in if parts = [''''] then return (Some obj) else get_parts getter opt path parts obj)"

fun set_parts :: "string list \<Rightarrow> json \<Rightarrow> json \<Rightarrow> json result" where
  "set_parts [] x v = return x"
| "set_parts [part] x v = js_put v part x"
| "set_parts (part # q # parts) x v =
     bind_result (js_get v part) (\<lambda>c.
     bind_result (if nullish c then bind_result (js_put v part (JObj [])) (\<lambda>_. return (JObj [])) else return c) (\<lambda>c'.
     bind_result (set_parts (q # parts) x c') (\<lambda>c''. js_put v part c'')))"

definition deep_set :: "json \<Rightarrow> string \<Rightarrow> json \<Rightarrow> json result" where
  "deep_set obj path x = set_parts (path_parts path) x obj"

text \<open>\<open>parseInt(s)\<close>: leading space, a sign, \<open>0x\<close> for hexadecimal digits, and then the digits up to the first other character.\<close>

definition hex_value :: "char \<Rightarrow> nat option" where
  "hex_value c =
     (let n = of_char c
      in if 48 \<le> n \<and> n \<le> 57 then Some (n - 48)
         else if 97 \<le> n \<and> n \<le> 102 then Some (n - 87)
         else if 65 \<le> n \<and> n \<le> 70 then Some (n - 55)
         else None)"

definition radix_value :: "nat \<Rightarrow> string \<Rightarrow> int option" where
  "radix_value radix s =
     (let ds = takeWhile (\<lambda>c. case hex_value c of None \<Rightarrow> False | Some d \<Rightarrow> d < radix) s
      in if ds = [] then None else Some (int (foldl (\<lambda>n c. radix * n + the (hex_value c)) 0 ds)))"

definition parseInt :: "string \<Rightarrow> int option" where
  "parseInt s0 =
     (let s1 = dropWhile (\<lambda>c. of_char c \<in> {9, 10, 11, 12, 13, 32, 160 :: nat}) s0;
          neg = (take 1 s1 = ''-'');
          s2 = (if take 1 s1 \<in> {''-'', ''+''} then drop 1 s1 else s1);
          n = (if take 2 s2 \<in> {''0x'', ''0X''} then radix_value 16 (drop 2 s2) else radix_value 10 s2)
      in map_option (\<lambda>i. if neg then - i else i) n)"

text \<open>\<open>xs.splice(index, 1)\<close> for any index.\<close>

definition splice_one :: "int \<Rightarrow> 'a list \<Rightarrow> 'a list" where
  "splice_one i xs = splice_at (rel_index (length xs) i) 1 [] xs"

text \<open>\<open>delete v[k]\<close> in a module; a character and the length of a text cannot be deleted, an element leaves a hole.\<close>

definition js_delete :: "json \<Rightarrow> string \<Rightarrow> json result" where
  "js_delete v k =
     (case v of
        Undef \<Rightarrow> deep_type_error
      | Null \<Rightarrow> deep_type_error
      | JObj ps \<Rightarrow> return (JObj (rec_delete k ps))
      | JArr xs \<Rightarrow>
          (case array_index k of
             Some i \<Rightarrow> return (JArr (if i < length xs then xs[i := Undef] else xs))
           | None \<Rightarrow> if k = ''length'' then deep_type_error else return v)
      | JStr s \<Rightarrow>
          (case array_index k of
             Some i \<Rightarrow> if i < length s then deep_type_error else return v
           | None \<Rightarrow> if k = ''length'' then deep_type_error else return v)
      | _ \<Rightarrow> return v)"

fun remove_parts :: "string list \<Rightarrow> json \<Rightarrow> json result" where
  "remove_parts [] v = return v"
| "remove_parts [part] v =
     (case v of
        JArr xs \<Rightarrow> return (case parseInt part of None \<Rightarrow> JArr xs | Some i \<Rightarrow> JArr (splice_one i xs))
      | _ \<Rightarrow> js_delete v part)"
| "remove_parts (part # q # parts) v =
     bind_result (js_get v part) (\<lambda>c.
       if nullish c then return v
       else bind_result (remove_parts (q # parts) c)
              (\<lambda>c'. if c' = c then return v else js_put v part c'))"

definition deep_remove :: "json \<Rightarrow> string \<Rightarrow> json result" where
  "deep_remove obj path = remove_parts (path_parts path) obj"

definition element :: "string \<Rightarrow> int \<Rightarrow> string option" where
  "element path ix =
     (let parts = path_parts path
      in nth_opt parts (if ix < 0 then int (length parts) + ix else ix))"

definition deep_has :: "json \<Rightarrow> string \<Rightarrow> bool" where
  "deep_has obj path = (case deep_get js_get False ''.'' obj path of Inl _ \<Rightarrow> False | Inr _ \<Rightarrow> True)"

fun match_parts :: "string list \<Rightarrow> string list \<Rightarrow> bool" where
  "match_parts parts [] = True"
| "match_parts [] (p # ps) = False"
| "match_parts (part # parts) (p # ps) = ((p = ''*'' \<or> part = p) \<and> match_parts parts ps)"

definition pathsMatch :: "string \<Rightarrow> string \<Rightarrow> bool" where
  "pathsMatch path pattern =
     (if length pattern = 0 then True
      else
        let parts = path_parts path; patterns = path_parts pattern
        in if length patterns > length parts then False else match_parts parts patterns)"

section \<open>Merging\<close>

text \<open>One source merged into a base, entry by entry.\<close>

function override_one :: "json \<Rightarrow> json \<Rightarrow> json" and override_entries :: "(string \<times> json) list \<Rightarrow> (string \<times> json) list \<Rightarrow> (string \<times> json) list" where
  "override_one base source =
     (case (base, source) of (JObj bs, JObj ss) \<Rightarrow> JObj (override_entries bs ss) | _ \<Rightarrow> base)"
| "override_entries bs [] = bs"
| "override_entries bs ((k, x) # ss) =
     override_entries
       (if isObject x then rec_set k (override_one (case rec_get bs k of None \<Rightarrow> JObj [] | Some b \<Rightarrow> b) x) bs
        else rec_set k x bs) ss"
  by pat_completeness auto
termination
  by (relation "measure (\<lambda>x. case x of Inl (b, s) \<Rightarrow> size s | Inr (bs, ss) \<Rightarrow> size_list (size_prod (\<lambda>_. 0) size) ss)")
    (auto simp: size_list_conv_sum_list)

declare override_one.simps [simp del]

definition override :: "json \<Rightarrow> json list \<Rightarrow> json" where
  "override base sources = foldl override_one base sources"

section \<open>Comparing\<close>

text \<open>\<open>a === b\<close> for values that are not both objects.\<close>

definition strict_eq :: "json \<Rightarrow> json \<Rightarrow> bool" where
  "strict_eq a b \<longleftrightarrow> a = b \<and> \<not> (case a of JArr _ \<Rightarrow> True | JObj _ \<Rightarrow> True | _ \<Rightarrow> False)"

definition entry :: "(string \<times> json) list \<Rightarrow> string \<Rightarrow> json" where
  "entry ps k = (case rec_get ps k of None \<Rightarrow> Undef | Some x \<Rightarrow> x)"

text \<open>An object with the key \<open>equals\<close> has no function there: calling it throws.\<close>

function deep_equal :: "json \<Rightarrow> json \<Rightarrow> bool result" and equal_list :: "json list \<Rightarrow> json list \<Rightarrow> bool result"
  and equal_keys :: "(string \<times> json) list \<Rightarrow> (string \<times> json) list \<Rightarrow> bool result" where
  "deep_equal a b =
     (case (a, b) of
        (JArr xs, JArr ys) \<Rightarrow> if length xs \<noteq> length ys then return False else equal_list xs ys
      | (JArr xs, _) \<Rightarrow> return False
      | (_, JArr ys) \<Rightarrow> return False
      | (JObj ps, JObj qs) \<Rightarrow>
          if rec_get ps ''equals'' \<noteq> None then deep_type_error
          else if length ps \<noteq> length qs then return False
          else equal_keys ps qs
      | _ \<Rightarrow> return (strict_eq a b))"
| "equal_list [] ys = return True"
| "equal_list (x # xs) ys =
     (case ys of
        [] \<Rightarrow> return True
      | y # ys' \<Rightarrow> bind_result (deep_equal x y) (\<lambda>e. if e then equal_list xs ys' else return False))"
| "equal_keys [] qs = return True"
| "equal_keys ((k, x) # ps) qs =
     bind_result
       (if typeof x = TObject \<and> typeof (entry qs k) = TObject then deep_equal x (entry qs k)
        else return (strict_eq x (entry qs k)))
       (\<lambda>e. if e then equal_keys ps qs else return False)"
  by pat_completeness auto
termination
  by (relation "measure (\<lambda>x. case x of Inl (a, b) \<Rightarrow> size a | Inr (Inl (xs, ys)) \<Rightarrow> size_list size xs
      | Inr (Inr (ps, qs)) \<Rightarrow> size_list (size_prod (\<lambda>_. 0) size) ps)") auto

declare deep_equal.simps [simp del]

text \<open>
  \<open>compare\<close> of \<open>difference\<close>, as the entries it adds to the map of differences.  Two objects, or an array and
  an object, are compared on the keys of both; the keys of an array are its indices.
\<close>

definition object_entries :: "json \<Rightarrow> (string \<times> json) list" where
  "object_entries v =
     (case v of JObj ps \<Rightarrow> ps | JArr xs \<Rightarrow> map (\<lambda>(i, x). (nat_text i, x)) (enumerate 0 xs) | _ \<Rightarrow> [])"

definition sub_path :: "string \<Rightarrow> string \<Rightarrow> string" where
  "sub_path path key = (if path \<noteq> '''' then path @ ''.'' @ key else key)"

definition both_keys :: "(string \<times> json) list \<Rightarrow> (string \<times> json) list \<Rightarrow> string list" where
  "both_keys ps qs = remdups (rec_keys ps) @ filter (\<lambda>k. k \<notin> set (rec_keys ps)) (remdups (rec_keys qs))"

lemma size_object_entry:
  assumes "k \<in> set (rec_keys (object_entries v))"
  shows "size (entry (object_entries v) k) < size v"
proof -
  have "size x < size v" if "(k, x) \<in> set (object_entries v)" for x
  proof (cases v)
    case (JArr xs)
    with that have "x \<in> set xs" by (auto simp: object_entries_def in_set_enumerate_eq)
    then show ?thesis using JArr by (simp add: size_list_estimation less_Suc_eq_le size_list_estimation')
  next
    case (JObj ps)
    with that have "x \<in> snd ` set ps" by (force simp: object_entries_def)
    with that JObj show ?thesis
      using size_list_estimation' [of "(k, x)" ps "size x" "size_prod (\<lambda>_. 0) size"] by (auto simp: object_entries_def)
  qed (use that in \<open>auto simp: object_entries_def\<close>)
  moreover obtain y where "rec_get (object_entries v) k = Some y"
    using assms rec_get_keys [of "object_entries v" k] by auto
  ultimately show ?thesis by (simp add: entry_def rec_get_in_set)
qed

lemma entry_missing [simp]: "k \<notin> set (rec_keys ps) \<Longrightarrow> entry ps k = Undef"
  using rec_get_keys [of ps k] by (auto simp: entry_def split: option.splits)

lemma size_entry_le: "size (entry (object_entries v) k) \<le> size v"
  using size_object_entry [of k v] by (cases "k \<in> set (rec_keys (object_entries v))") auto

lemma size_both_keys:
  assumes "k \<in> set (both_keys (object_entries a) (object_entries b))"
  shows "size (entry (object_entries a) k) + size (entry (object_entries b) k) < size a + size b"
proof (cases "k \<in> set (rec_keys (object_entries a))")
  case True
  then show ?thesis using size_object_entry size_entry_le by (simp add: add_less_le_mono)
next
  case False
  with assms have "k \<in> set (rec_keys (object_entries b))" by (auto simp: both_keys_def)
  then show ?thesis using size_object_entry size_entry_le by (simp add: add_le_less_mono)
qed

lemma size_nth: "i < length xs \<Longrightarrow> size (xs ! i) < size (JArr xs)"
  using size_list_estimation' [of "xs ! i" xs "size (xs ! i)" size] by simp

lemma size_nth_both:
  "length xs = length ys \<Longrightarrow> i < length ys \<Longrightarrow> size (xs ! i) + size (ys ! i) < size (JArr xs) + size (JArr ys)"
  by (intro add_strict_mono size_nth) auto

function compare_values :: "json \<Rightarrow> json \<Rightarrow> string \<Rightarrow> (string \<times> json \<times> json) list" where
  "compare_values a b path =
     (if typeof a \<noteq> typeof b \<or> a = Null \<or> b = Null then [(path, a, b)]
      else if typeof a = TObject then
        (case (a, b) of
           (JArr xs, JArr ys) \<Rightarrow>
             if length xs \<noteq> length ys then [(path, a, b)]
             else concat (map (\<lambda>i. compare_values (xs ! i) (ys ! i) (path @ ''['' @ nat_text i @ '']'')) [0..<length xs])
         | _ \<Rightarrow>
             let ps = object_entries a; qs = object_entries b
             in concat (map (\<lambda>k. compare_values (entry ps k) (entry qs k) (sub_path path k)) (both_keys ps qs)))
      else if a \<noteq> b then [(path, a, b)] else [])"
  by pat_completeness auto
termination
  by (relation "measure (\<lambda>(a, b, path). size a + size b)")
    (auto simp del: json.size intro: size_both_keys size_nth_both)

declare compare_values.simps [simp del]

text \<open>The map of differences: a path that is met twice keeps the last difference.\<close>

definition difference :: "json \<Rightarrow> json \<Rightarrow> string \<Rightarrow> (string \<times> json \<times> json) list" where
  "difference obj1 obj2 path = foldl (\<lambda>m (k, d). rec_set k d m) [] (compare_values obj1 obj2 path)"

section \<open>Deleting\<close>

text \<open>\<open>k in v\<close>; it throws on what is not an object.  Holes of an array are not told from undefined elements.\<close>

definition js_in :: "string \<Rightarrow> json \<Rightarrow> bool result" where
  "js_in k v =
     (case v of
        JObj ps \<Rightarrow> return (rec_has ps k)
      | JArr xs \<Rightarrow> return (case array_index k of Some i \<Rightarrow> i < length xs | None \<Rightarrow> k = ''length'')
      | _ \<Rightarrow> deep_type_error)"

text \<open>A key on the way that is missing is passed over: the walk goes on from the same value.\<close>

fun delete_parts :: "string list \<Rightarrow> json \<Rightarrow> json result" where
  "delete_parts [] v = return v"
| "delete_parts [k] v = js_delete v k"
| "delete_parts (k # q # ks) v =
     bind_result (js_in k v) (\<lambda>found.
       if found
       then bind_result (js_get v k) (\<lambda>c.
            bind_result (delete_parts (q # ks) c) (\<lambda>c'. if c' = c then return v else js_put v k c'))
       else delete_parts (q # ks) v)"

fun deleteD :: "json \<Rightarrow> string list \<Rightarrow> json result" where
  "deleteD target [] = return target"
| "deleteD target (key # keys) = bind_result (delete_parts (path_parts key) target) (\<lambda>t. deleteD t keys)"

end
