(* ===== verification/Deep_Laws.thy ===== *)
theory Deep_Laws
  imports Deep
begin

text \<open>
  What the functions on nested values promise: a store with keys (\<open>path_store\<close>) that both a record and a
  nested value with its paths implement, what merging does to each key, which differences are found, and
  which paths a pattern matches.
\<close>

section \<open>A store with keys\<close>

text \<open>Writing may fail; what is written is read back, and independent keys do not disturb each other.\<close>

locale path_store =
  fixes read :: "'s \<Rightarrow> 'k \<Rightarrow> 'v result"
    and store :: "'s \<Rightarrow> 'k \<Rightarrow> 'v \<Rightarrow> 's result"
    and legal :: "'k \<Rightarrow> 'v \<Rightarrow> bool"
    and indep :: "'k \<Rightarrow> 'k \<Rightarrow> bool"
  assumes read_stored: "store s k v = Inr s' \<Longrightarrow> legal k v \<Longrightarrow> read s' k = Inr v"
    and read_other: "store s k v = Inr s' \<Longrightarrow> indep k k' \<Longrightarrow> read s' k' = read s k'"
begin

lemma store_all_other:
  "fold_result (\<lambda>(k, v) s. store s k v) kvs s = Inr s' \<Longrightarrow> \<forall>(k, v) \<in> set kvs. indep k k' \<Longrightarrow> read s' k' = read s k'"
  by (induction kvs arbitrary: s) (auto simp: bind_result_eq_Inr read_other)

lemma store_all_read:
  assumes "fold_result (\<lambda>(k, v) s. store s k v) kvs s = Inr s'"
    and "\<forall>(k, v) \<in> set kvs. legal k v" and "sorted_wrt (\<lambda>a b. indep (fst b) (fst a)) kvs" and "(k, v) \<in> set kvs"
  shows "read s' k = Inr v"
  using assms
proof (induction kvs arbitrary: s)
  case (Cons kv kvs)
  obtain k1 v1 where kv: "kv = (k1, v1)" by (cases kv)
  from Cons.prems(1) kv obtain s1 where s1: "store s k1 v1 = Inr s1" and
    rest: "fold_result (\<lambda>(k, v) s. store s k v) kvs s1 = Inr s'" by (auto simp: bind_result_eq_Inr)
  show ?case
  proof (cases "(k, v) \<in> set kvs")
    case True
    then show ?thesis using Cons.IH [OF rest] Cons.prems by auto
  next
    case False
    with Cons.prems kv have "(k, v) = (k1, v1)" by auto
    moreover have "read s' k1 = read s1 k1"
      by (rule store_all_other [OF rest]) (use Cons.prems(3) kv in auto)
    ultimately show ?thesis using read_stored [OF s1] Cons.prems(2) kv by auto
  qed
qed simp

end

interpretation entries: path_store
  "\<lambda>r k. case rec_get r k of None \<Rightarrow> throw ''missing'' | Some v \<Rightarrow> return v" "\<lambda>r k v. return (rec_set k v r)"
  "\<lambda>_ _. True" "(\<noteq>)"
  by unfold_locales auto

section \<open>Reading what was written\<close>

lemma js_get_put: "js_put v k x = Inr v' \<Longrightarrow> js_get v' k = Inr x"
  by (auto simp: js_put_def js_get_def deep_type_error_def elem_at_def set_elem_def split: json.splits option.splits)

lemma js_get_put_other:
  assumes "js_put v k x = Inr v'" "k' \<noteq> k" "k' \<noteq> ''length''"
  shows "js_get v' k' = js_get v k'"
proof (cases v)
  case (JArr xs)
  with assms(1) obtain i where i: "array_index k = Some i" "v' = JArr (set_elem xs i x)"
    by (auto simp: js_put_def split: option.splits)
  have "elem_at (set_elem xs i x) j = elem_at xs j" if "j \<noteq> i" for j
    using that by (auto simp: elem_at_def set_elem_def nth_append)
  moreover have "array_index k' \<noteq> Some i" using array_index_inject [OF i(1)] assms(2) by auto
  ultimately show ?thesis using JArr i assms(3) by (auto simp: js_get_def split: option.splits)
qed (use assms in \<open>auto simp: js_put_def js_get_def deep_type_error_def\<close>)

lemma js_put_not_nullish: "js_put v k x = Inr v' \<Longrightarrow> \<not> nullish v'"
  by (auto simp: js_put_def nullish_def deep_type_error_def split: json.splits option.splits)

lemma set_parts_not_nullish: "set_parts ps x v = Inr v' \<Longrightarrow> ps \<noteq> [] \<Longrightarrow> \<not> nullish v'"
  by (induction ps x v arbitrary: v' rule: set_parts.induct) (auto simp: bind_result_eq_Inr dest: js_put_not_nullish)

lemma set_parts_step:
  assumes "set_parts (p # q # ps) x v = Inr v'"
  obtains c c' c'' where "js_get v p = Inr c" "c' = (if nullish c then JObj [] else c)"
    "set_parts (q # ps) x c' = Inr c''" "js_put v p c'' = Inr v'"
proof -
  from assms obtain c c' c'' where c: "js_get v p = Inr c"
    "(if nullish c then bind_result (js_put v p (JObj [])) (\<lambda>_. return (JObj [])) else return c) = Inr c'"
    "set_parts (q # ps) x c' = Inr c''" "js_put v p c'' = Inr v'"
    by (auto simp only: set_parts.simps bind_result_eq_Inr)
  then have "c' = (if nullish c then JObj [] else c)" by (simp add: bind_result_eq_Inr split: if_splits)
  with c show thesis using that by blast
qed

lemma set_parts_put:
  assumes "set_parts (p # ps) x v = Inr v'"
  shows "\<exists>y. js_put v p y = Inr v'"
proof (cases ps)
  case (Cons q qs)
  with assms have "set_parts (p # q # qs) x v = Inr v'" by (simp only: )
  then show ?thesis by (rule set_parts_step) blast
qed (use assms in auto)

lemma get_set_parts:
  "set_parts ps x v = Inr v' \<Longrightarrow> ps \<noteq> [] \<Longrightarrow> \<not> nullish x \<Longrightarrow> get_parts js_get opt path ps v' = Inr (Some x)"
proof (induction ps arbitrary: v v')
  case (Cons p ps)
  show ?case
  proof (cases ps)
    case Nil
    then show ?thesis using Cons.prems js_get_put [of v p x v'] by simp
  next
    case (Cons q qs)
    from Cons.prems(1) [unfolded Cons] obtain c c' c'' where c: "set_parts (q # qs) x c' = Inr c''" "js_put v p c'' = Inr v'"
      by (rule set_parts_step)
    then show ?thesis
      using Cons.IH [of c' c''] Cons.prems set_parts_not_nullish [OF c(1)] js_get_put [OF c(2)] Cons by simp
  qed
qed simp

lemma get_parts_empty_object: "qs \<noteq> [] \<Longrightarrow> get_parts js_get True path qs (JObj []) = Inr None"
  by (cases qs) (simp_all add: js_get_def nullish_def)

lemma get_set_parts_other:
  assumes "set_parts ps x v = Inr v'" "\<not> prefix ps qs" "\<not> prefix qs ps" "''length'' \<notin> set qs"
  shows "get_parts js_get True path qs v' = get_parts js_get True path qs v"
  using assms
proof (induction ps arbitrary: qs v v')
  case (Cons p ps)
  from Cons.prems obtain q qs' where qs: "qs = q # qs'" by (cases qs) auto
  show ?case
  proof (cases "q = p")
    case False
    from set_parts_put [OF Cons.prems(1)] obtain y where "js_put v p y = Inr v'" by blast
    then show ?thesis using js_get_put_other [of v p y v' q] False Cons.prems(4) qs by auto
  next
    case True
    with Cons.prems qs obtain r ps' where ps: "ps = r # ps'" by (cases ps) auto
    from Cons.prems(1) [unfolded ps] obtain c c' c'' where c: "js_get v p = Inr c"
      "c' = (if nullish c then JObj [] else c)" "set_parts (r # ps') x c' = Inr c''" "js_put v p c'' = Inr v'"
      by (rule set_parts_step)
    have "get_parts js_get True path qs' c'' = get_parts js_get True path qs' c'"
      using Cons.IH [of c' c'' qs'] c(3) Cons.prems qs True ps by auto
    moreover have "qs' \<noteq> []" using Cons.prems qs True by auto
    ultimately show ?thesis
      using c js_get_put [OF c(4)] set_parts_not_nullish [OF c(3)] qs True get_parts_empty_object [of qs' path] by simp
  qed
qed simp

lemma path_parts_not_empty: "path_parts path \<noteq> []"
  by (subst js_split.simps) (auto split: option.splits)

lemma path_parts_blank: "path_parts path = [''''] \<longleftrightarrow> path = ''''"
proof
  assume "path_parts path = ['''']"
  then show "path = ''''" by (subst (asm) js_split.simps) (auto simp: path_parts_not_empty split: option.splits)
qed (simp add: js_split.simps)

text \<open>Two paths are independent when neither leads through the other, and the one that is read does not ask for a length.\<close>

definition indep_paths :: "string \<Rightarrow> string \<Rightarrow> bool" where
  "indep_paths p q \<longleftrightarrow>
     q \<noteq> [] \<and> \<not> prefix (path_parts p) (path_parts q) \<and> \<not> prefix (path_parts q) (path_parts p) \<and> ''length'' \<notin> set (path_parts q)"

lemma deep_get_other:
  assumes "deep_set obj p x = Inr obj'" "indep_paths p q"
  shows "deep_get js_get True ''.'' obj' q = deep_get js_get True ''.'' obj q"
  using assms get_set_parts_other path_parts_blank
  by (simp add: deep_get_def deep_set_def indep_paths_def Let_def)

interpretation nested: path_store
  "\<lambda>obj p. deep_get js_get True ''.'' obj p" "\<lambda>obj p x. case x of None \<Rightarrow> return obj | Some y \<Rightarrow> deep_set obj p y"
  "\<lambda>p x. p \<noteq> '''' \<and> (case x of None \<Rightarrow> False | Some y \<Rightarrow> \<not> nullish y)" indep_paths
proof unfold_locales
  fix s k v s' assume "(case v of None \<Rightarrow> return s | Some y \<Rightarrow> deep_set s k y) = Inr s'"
    and "k \<noteq> '''' \<and> (case v of None \<Rightarrow> False | Some y \<Rightarrow> \<not> nullish y)"
  then show "deep_get js_get True ''.'' s' k = Inr v"
    using get_set_parts [OF _ path_parts_not_empty] path_parts_blank
    by (auto simp: deep_get_def deep_set_def Let_def split: option.splits)
next
  fix s k v s' k' assume "(case v of None \<Rightarrow> return s | Some y \<Rightarrow> deep_set s k y) = Inr s'" "indep_paths k k'"
  then show "deep_get js_get True ''.'' s' k' = deep_get js_get True ''.'' s k'"
    using deep_get_other by (auto split: option.splits)
qed

text \<open>
  C10: Reading a nested value at a path after values were written there: when several values, none of them
  null or undefined, are written without an error at non-empty paths, none of which leads through another
  one and only the last of which may have the component length (writing an element of an array changes its
  length), every one of them is read back from the final value; and a non-empty path without the component
  length that does not lead through any of them, nor they through it, reads what it read before. (A write at
  the empty path writes the key "", a read there gives the whole value.)
\<close>

theorem nested_writes_are_read:
  assumes "fold_result (\<lambda>(p, x) obj. deep_set obj p x) writes obj = Inr obj'"
    and "\<forall>(p, x) \<in> set writes. p \<noteq> '''' \<and> \<not> nullish x"
    and "sorted_wrt (\<lambda>a b. indep_paths (fst b) (fst a)) writes"
  shows "(\<forall>(p, x) \<in> set writes. deep_get js_get True ''.'' obj' p = Inr (Some x)) \<and>
         (\<forall>q. (\<forall>(p, x) \<in> set writes. indep_paths p q) \<longrightarrow>
              deep_get js_get True ''.'' obj' q = deep_get js_get True ''.'' obj q)"
proof -
  let ?ws = "map (\<lambda>(p, x). (p, Some x)) writes"
  let ?put = "\<lambda>(p, x) obj. case x of None \<Rightarrow> return obj | Some y \<Rightarrow> deep_set obj p y"
  have "fold_result ?put (map (\<lambda>(p, x). (p, Some x)) ws) v = fold_result (\<lambda>(p, x) obj. deep_set obj p x) ws v" for ws v
    by (induction ws arbitrary: v) (auto simp: bind_result_def split: sum.splits)
  then have run: "fold_result ?put ?ws obj = Inr obj'" using assms(1) by simp
  have "deep_get js_get True ''.'' obj' p = Inr (Some x)" if "(p, x) \<in> set writes" for p x
    by (rule nested.store_all_read [OF run])
      (use assms(2, 3) that in \<open>force simp: sorted_wrt_map case_prod_unfold\<close>)+
  moreover have "deep_get js_get True ''.'' obj' q = deep_get js_get True ''.'' obj q"
    if "\<forall>(p, x) \<in> set writes. indep_paths p q" for q
    by (rule nested.store_all_other [OF run]) (use that in auto)
  ultimately show ?thesis by auto
qed

theorem nested_writes_are_read_witness:
  "\<exists>obj'. fold_result (\<lambda>(p, x) obj. deep_set obj p x)
     [(''a.b'', JNum 1), (''c.1'', JStr ''x'')] (JObj [(''c'', JArr [JBool True])]) = Inr obj' \<and>
   deep_get js_get True ''.'' obj' ''a.b'' = Inr (Some (JNum 1)) \<and> deep_get js_get True ''.'' obj' ''c.0'' = Inr (Some (JBool True))"
proof -
  let ?ws = "[(''a.b'', JNum 1), (''c.1'', JStr ''x'')]"
  let ?v = "JObj [(''c'', JArr [JBool True])]"
  have run: "fold_result (\<lambda>(p, x) obj. deep_set obj p x) ?ws ?v =
    Inr (JObj [(''c'', JArr [JBool True, JStr ''x'']), (''a'', JObj [(''b'', JNum 1)])])" by code_simp
  have "indep_paths ''c.1'' ''a.b''" "indep_paths ''a.b'' ''c.0''" "indep_paths ''c.1'' ''c.0''"
    "deep_get js_get True ''.'' ?v ''c.0'' = Inr (Some (JBool True))" by code_simp+
  then show ?thesis using nested_writes_are_read [OF run] run by (auto simp: nullish_def)
qed

section \<open>Merging\<close>

lemma rec_get_override_entries:
  "rec_wf ss \<Longrightarrow> rec_get (override_entries bs ss) k =
     (case rec_get ss k of
        None \<Rightarrow> rec_get bs k
      | Some x \<Rightarrow> Some (if isObject x then override_one (case rec_get bs k of None \<Rightarrow> JObj [] | Some b \<Rightarrow> b) x else x))"
proof (induction ss arbitrary: bs)
  case (Cons kx ss)
  obtain k1 x where kx: "kx = (k1, x)" by (cases kx)
  with Cons.prems have "rec_wf ss" "rec_get ss k1 = None"
    using rec_get_keys [of ss k1] by (auto simp: rec_wf_def rec_keys_def)
  with kx show ?case using Cons.IH by (auto simp: override_one.simps split: option.splits)
qed simp

lemma override_single: "override base [source] = override_one base source"
  by (simp add: override_def)

text \<open>
  Merging an object into a base object: a key that the source lacks keeps the base's value; a value that is
  not an object replaces the base's; an object is merged in turn into the base's value, or into an empty
  object when the base has none.
\<close>

theorem override_merges:
  assumes "rec_wf ss"
  shows "\<exists>ms. override (JObj bs) [JObj ss] = JObj ms \<and>
    (\<forall>k. rec_get ms k =
       (case rec_get ss k of
          None \<Rightarrow> rec_get bs k
        | Some x \<Rightarrow> Some (if isObject x then override (case rec_get bs k of None \<Rightarrow> JObj [] | Some b \<Rightarrow> b) [x] else x)))"
proof -
  have "override (JObj bs) [JObj ss] = JObj (override_entries bs ss)"
    by (simp add: override_single override_one.simps)
  then show ?thesis using rec_get_override_entries [OF assms, of bs, folded override_single] by blast
qed

theorem override_merges_witness:
  "\<exists>ms. override (JObj [(''a'', JObj [(''b'', JNum 1)]), (''c'', JNum 2)]) [JObj [(''a'', JObj [(''d'', JNum 3)])]] = JObj ms \<and>
     rec_get ms ''a'' = Some (JObj [(''b'', JNum 1), (''d'', JNum 3)]) \<and> rec_get ms ''c'' = Some (JNum 2)"
proof -
  have "rec_wf [(''a'', JObj [(''d'', JNum 3)])]" by code_simp
  from override_merges [OF this, of "[(''a'', JObj [(''b'', JNum 1)]), (''c'', JNum 2)]"]
  show ?thesis by (auto simp: override_def override_one.simps)
qed

section \<open>Differences\<close>

text \<open>A value whose objects have every key once, and one with a null somewhere.\<close>

fun json_wf :: "json \<Rightarrow> bool" where
  "json_wf (JArr xs) = (\<forall>x \<in> set xs. json_wf x)"
| "json_wf (JObj ps) = (rec_wf ps \<and> (\<forall>(k, x) \<in> set ps. json_wf x))"
| "json_wf _ = True"

fun contains_null :: "json \<Rightarrow> bool" where
  "contains_null Null = True"
| "contains_null (JArr xs) = (\<exists>x \<in> set xs. contains_null x)"
| "contains_null (JObj ps) = (\<exists>(k, x) \<in> set ps. contains_null x)"
| "contains_null _ = False"

lemma entry_in: "rec_wf ps \<Longrightarrow> (k, x) \<in> set ps \<Longrightarrow> entry ps k = x"
  by (simp add: entry_def flip: rec_get_wf_iff)

lemma both_keys_self: "set (both_keys ps ps) = set (rec_keys ps)"
  by (auto simp: both_keys_def)

lemma compare_values_self: "json_wf a \<Longrightarrow> compare_values a a path = [] \<longleftrightarrow> \<not> contains_null a"
proof (induction a arbitrary: path rule: measure_induct_rule [of size])
  case (less a)
  show ?case
  proof (cases a)
    case (JArr xs)
    have "compare_values (xs ! i) (xs ! i) p = [] \<longleftrightarrow> \<not> contains_null (xs ! i)" if "i < length xs" for i p
      using less.IH [of "xs ! i" p] less.prems size_nth [OF that] that JArr by auto
    then show ?thesis using JArr by (auto simp: compare_values.simps [of "JArr xs" "JArr xs"] all_set_conv_all_nth)
  next
    case (JObj ps)
    have sub: "compare_values x x p = [] \<longleftrightarrow> \<not> contains_null x" if "(k, x) \<in> set ps" for k x p
      using less.IH [of x p] less.prems that JObj size_object_entry [of k a] rec_get_wf_iff [of ps k x]
        rec_get_keys [of ps k] by (auto simp: entry_def object_entries_def)
    have "(\<forall>k \<in> set (rec_keys ps). compare_values (entry ps k) (entry ps k) (sub_path path k) = []) \<longleftrightarrow>
      (\<forall>(k, x) \<in> set ps. compare_values x x (sub_path path k) = [])"
      using less.prems JObj by (auto simp: rec_keys_def entry_in)
    then show ?thesis using JObj sub
      by (simp add: compare_values.simps [of "JObj ps" "JObj ps"] object_entries_def both_keys_self Let_def) blast
  qed (use less in \<open>simp_all add: compare_values.simps\<close>)
qed

lemma rec_set_not_empty: "rec_set k v r \<noteq> []"
  by (induction k v r rule: rec_set.induct) auto

lemma difference_empty: "difference a b path = [] \<longleftrightarrow> compare_values a b path = []"
proof -
  have grow: "foldl (\<lambda>m (k, d). rec_set k d m) m ds \<noteq> []" if "m \<noteq> []" for m :: "(string \<times> json \<times> json) list" and ds
    using that
  proof (induction ds arbitrary: m)
    case (Cons d ds)
    then show ?case using Cons.IH [OF rec_set_not_empty [of "fst d" "snd d" m]] by (simp add: case_prod_unfold)
  qed simp
  show ?thesis
  proof (cases "compare_values a b path")
    case (Cons d ds)
    then show ?thesis using grow [of "[d]" ds] by (simp add: difference_def case_prod_unfold)
  qed (simp add: difference_def)
qed

text \<open>
  A value compared with itself has no differences exactly when it has no null in it: the comparison reports a
  null as different from the same null.
\<close>

theorem difference_of_equal_values:
  assumes "json_wf a"
  shows "difference a a path = [] \<longleftrightarrow> \<not> contains_null a"
  using compare_values_self [OF assms] by (simp add: difference_empty)

theorem difference_of_equal_values_witness:
  "difference (JObj [(''a'', Null)]) (JObj [(''a'', Null)]) '''' \<noteq> []"
proof -
  have "json_wf (JObj [(''a'', Null)])" by code_simp
  from difference_of_equal_values [OF this, of "''''"] show ?thesis by simp
qed

lemma equal_ignores_missing_keys: "deep_equal (JObj [(''a'', Undef)]) (JObj [(''b'', JNum 1)]) = return True"
  by code_simp

lemma deleteD_passes_missing_keys: "rec_get ps k = None \<Longrightarrow> delete_parts (k # q # ks) (JObj ps) = delete_parts (q # ks) (JObj ps)"
  by (simp add: js_in_def rec_has_def)

section \<open>Patterns\<close>

lemma match_parts_iff:
  "length ps \<le> length parts \<Longrightarrow> match_parts parts ps \<longleftrightarrow> (\<forall>i < length ps. ps ! i = ''*'' \<or> parts ! i = ps ! i)"
  by (induction parts ps rule: match_parts.induct) (auto simp: less_Suc_eq_0_disj)

text \<open>
  A path matches a pattern exactly when the pattern is empty, or has at most as many parts as the path and each
  part of the pattern is the wildcard or the part of the path in the same place.
\<close>

theorem pathsMatch_iff:
  "pathsMatch path pattern \<longleftrightarrow>
     pattern = '''' \<or>
     length (path_parts pattern) \<le> length (path_parts path) \<and>
     list_all (\<lambda>i. path_parts pattern ! i = ''*'' \<or> path_parts path ! i = path_parts pattern ! i) [0..<length (path_parts pattern)]"
  using match_parts_iff [of "path_parts pattern" "path_parts path"]
  by (auto simp: pathsMatch_def Let_def list_all_iff)

end
