(* ===== verification/Channel_Client.thy ===== *)
theory Channel_Client
  imports Deep Reducer Data_Type
begin

text \<open>
  The client of channels (\<open>client/ts/src/channel\<close>): the analysis of parameters (\<open>util/retrieve.ts\<close>), the
  retrievers of \<open>retriever.ts\<close>, the writer, and the index of a calculated channel.

  The cluster is not part of the client: what it answers to a request is an argument, a function
  \<open>fetch\<close> of the requested keys or names, or the response itself.  A map is a record in the order of
  insertion, and a set of keys a list.  The options of a retrieval only go to the cluster and are part
  of \<open>fetch\<close>.
\<close>

section \<open>Channels and parameters\<close>

record channel =
  ch_name :: string
  ch_key :: int
  ch_rate :: rat
  ch_dataType :: data_type
  ch_leaseholder :: int
  ch_index :: int
  ch_isIndex :: bool
  ch_internal :: bool
  ch_virtual :: bool
  ch_alias :: "string option"
  ch_expression :: string
  ch_requires :: "int list"

datatype chan_ref = ChKey int | ChName string | ChNaN

datatype chan_params = One chan_ref | Many "chan_ref list"

datatype variant = KeysVariant | NamesVariant | NoVariant

record analysis =
  single :: bool
  avariant :: variant
  normalized :: "chan_ref list"

fun toArray :: "chan_params \<Rightarrow> chan_ref list" where
  "toArray (One r) = [r]"
| "toArray (Many rs) = rs"

text \<open>\<open>parseInt(n)\<close> of a key or a name.\<close>

fun parse_ref :: "chan_ref \<Rightarrow> chan_ref" where
  "parse_ref (ChName s) = (case parseInt s of None \<Rightarrow> ChNaN | Some k \<Rightarrow> ChKey k)"
| "parse_ref r = r"

definition analyzeParams :: "chan_params \<Rightarrow> analysis" where
  "analyzeParams args =
     (let normal = toArray args;
          (v, n) =
            (case normal of
               [] \<Rightarrow> (NoVariant, normal)
             | ChName s # _ \<Rightarrow> if parseInt s \<noteq> None then (KeysVariant, map parse_ref normal) else (NamesVariant, normal)
             | _ \<Rightarrow> (KeysVariant, normal))
      in \<lparr>single = (case args of One _ \<Rightarrow> True | Many _ \<Rightarrow> False), avariant = v, normalized = n\<rparr>)"

definition checkForMultipleOrNoResults :: "'r list \<Rightarrow> bool \<Rightarrow> unit result" where
  "checkForMultipleOrNoResults results isSingle =
     (if \<not> isSingle then return ()
      else if length results = 0 then throw ''NotFoundError''
      else if length results > 1 then throw ''MultipleFoundError''
      else return ())"

section \<open>Retrievers\<close>

text \<open>The retriever that asks the cluster; \<open>send\<close> is the request.\<close>

definition cluster_retrieve :: "(variant \<Rightarrow> chan_ref list \<Rightarrow> channel list result) \<Rightarrow> chan_params \<Rightarrow> channel list result" where
  "cluster_retrieve send channels =
     (let res = analyzeParams channels;
          n = (if avariant res = KeysVariant then filter (\<lambda>r. r \<noteq> ChKey 0) (normalized res) else normalized res)
      in if n = [] then return [] else send (avariant res) n)"

record channel_cache =
  cached :: "(int, channel) rec"
  namesToKeys :: "(string, int list) rec"

definition empty_cache :: channel_cache where
  "empty_cache = \<lparr>cached = [], namesToKeys = []\<rparr>"

definition cache_get :: "channel_cache \<Rightarrow> chan_ref \<Rightarrow> channel list option" where
  "cache_get c ref =
     (case ref of
        ChKey k \<Rightarrow> map_option (\<lambda>ch. [ch]) (rec_get (cached c) k)
      | ChNaN \<Rightarrow> None
      | ChName n \<Rightarrow>
          (case rec_get (namesToKeys c) n of
             None \<Rightarrow> None
           | Some ks \<Rightarrow> let chs = List.map_filter (rec_get (cached c)) ks in if chs = [] then None else Some chs))"

definition add_key :: "string \<Rightarrow> int \<Rightarrow> (string, int list) rec \<Rightarrow> (string, int list) rec" where
  "add_key n k r =
     rec_set n (case rec_get r n of None \<Rightarrow> [k] | Some ks \<Rightarrow> if k \<in> set ks then ks else ks @ [k]) r"

definition set_one :: "channel_cache \<Rightarrow> channel \<Rightarrow> channel_cache" where
  "set_one c ch =
     c\<lparr>cached := rec_set (ch_key ch) ch (cached c), namesToKeys := add_key (ch_name ch) (ch_key ch) (namesToKeys c)\<rparr>"

definition cache_set :: "channel list \<Rightarrow> channel_cache \<Rightarrow> channel_cache" where
  "cache_set channels c = foldl set_one c channels"

definition cache_retrieve ::
  "(chan_ref list \<Rightarrow> channel list result) \<Rightarrow> chan_params \<Rightarrow> channel_cache \<Rightarrow> (channel list \<times> channel_cache) result" where
  "cache_retrieve fetch channels c =
     (let n = normalized (analyzeParams channels);
          results = concat (List.map_filter (cache_get c) n);
          toFetch = filter (\<lambda>r. cache_get c r = None) n
      in if toFetch = [] then return (results, c)
         else bind_result (fetch toFetch) (\<lambda>fetched. return (results @ fetched, cache_set fetched c)))"

definition delete_name :: "channel_cache \<Rightarrow> chan_ref \<Rightarrow> channel_cache" where
  "delete_name c ref =
     (case ref of
        ChName n \<Rightarrow>
          (case rec_get (namesToKeys c) n of
             None \<Rightarrow> c
           | Some ks \<Rightarrow> c\<lparr>cached := foldl (\<lambda>m k. rec_delete k m) (cached c) ks, namesToKeys := rec_delete n (namesToKeys c)\<rparr>)
      | _ \<Rightarrow> c)"

definition delete_key :: "channel_cache \<Rightarrow> chan_ref \<Rightarrow> channel_cache" where
  "delete_key c ref =
     (case ref of
        ChKey k \<Rightarrow>
          (case rec_get (cached c) k of
             None \<Rightarrow> c
           | Some ch \<Rightarrow> c\<lparr>cached := rec_delete k (cached c), namesToKeys := rec_delete (ch_name ch) (namesToKeys c)\<rparr>)
      | _ \<Rightarrow> c)"

definition cache_delete :: "chan_params \<Rightarrow> channel_cache \<Rightarrow> channel_cache" where
  "cache_delete channels c =
     (let a = analyzeParams channels
      in foldl (if avariant a = NamesVariant then delete_name else delete_key) c (normalized a))"

definition drop_key :: "string \<Rightarrow> int \<Rightarrow> (string, int list) rec \<Rightarrow> (string, int list) rec" where
  "drop_key n k r =
     (case rec_get r n of
        None \<Rightarrow> r
      | Some ks \<Rightarrow> let ks' = removeAll k ks in if ks' = [] then rec_delete n r else rec_set n ks' r)"

text \<open>\<open>rename\<close>; there is a name for every key.\<close>

definition rename_one :: "channel_cache \<Rightarrow> int \<times> string \<Rightarrow> channel_cache" where
  "rename_one c kn =
     (case rec_get (cached c) (fst kn) of
        None \<Rightarrow> c
      | Some ch \<Rightarrow>
          c\<lparr>cached := rec_set (fst kn) (ch\<lparr>ch_name := snd kn\<rparr>) (rec_delete (fst kn) (cached c)),
            namesToKeys := add_key (snd kn) (fst kn) (drop_key (ch_name ch) (fst kn) (namesToKeys c))\<rparr>)"

definition cache_rename :: "int list \<Rightarrow> string list \<Rightarrow> channel_cache \<Rightarrow> channel_cache" where
  "cache_rename keys names c = foldl rename_one c (zip keys names)"

text \<open>
  \<open>run\<close> of the batching retriever: every waiting request is answered from one request for all keys.  A
  request is the list of its keys and the promise to be settled.
\<close>

definition batch_run ::
  "(chan_ref list \<Rightarrow> channel list result) \<Rightarrow> (int list \<times> 'p) list \<Rightarrow> ('p \<times> channel list result) list" where
  "batch_run wrapped requests =
     (let allKeys = unique (concat (map fst requests))
      in case wrapped (map ChKey allKeys) of
           Inl e \<Rightarrow> map (\<lambda>(ks, p). (p, Inl e)) requests
         | Inr channels \<Rightarrow> map (\<lambda>(ks, p). (p, Inr (filter (\<lambda>c. ch_key c \<in> set ks) channels))) requests)"

definition found_for :: "chan_ref \<Rightarrow> channel \<Rightarrow> bool" where
  "found_for r ch = (case r of ChKey k \<Rightarrow> ch_key ch = k | ChName n \<Rightarrow> ch_name ch = n | ChNaN \<Rightarrow> False)"

definition retrieveRequired :: "(chan_params \<Rightarrow> channel list result) \<Rightarrow> chan_params \<Rightarrow> channel list result" where
  "retrieveRequired r channels =
     (let n = normalized (analyzeParams channels)
      in bind_result (r (Many n)) (\<lambda>results.
           if list_all (\<lambda>v. list_ex (found_for v) results) n then return results
           else throw ''QueryError''))"

section \<open>The writer and the client\<close>

definition writer_create :: "channel list result \<Rightarrow> channel_cache \<Rightarrow> (channel list \<times> channel_cache) result" where
  "writer_create response c = bind_result response (\<lambda>created. return (created, cache_set created c))"

definition writer_delete :: "unit result \<Rightarrow> chan_ref list option \<Rightarrow> chan_ref list option \<Rightarrow> channel_cache \<Rightarrow> channel_cache result" where
  "writer_delete response keys names c =
     bind_result response (\<lambda>_.
       let c1 = (case keys of None \<Rightarrow> c | Some ks \<Rightarrow> cache_delete (Many ks) c)
       in return (case names of None \<Rightarrow> c1 | Some ns \<Rightarrow> cache_delete (Many ns) c1))"

definition writer_rename :: "unit result \<Rightarrow> int list \<Rightarrow> string list \<Rightarrow> channel_cache \<Rightarrow> channel_cache result" where
  "writer_rename response keys names c = bind_result response (\<lambda>_. return (cache_rename keys names c))"

definition client_delete :: "unit result \<Rightarrow> chan_params \<Rightarrow> channel_cache \<Rightarrow> channel_cache result" where
  "client_delete response channels c =
     (let a = analyzeParams channels
      in if avariant a = KeysVariant then writer_delete response (Some (normalized a)) None c
         else writer_delete response None (Some (normalized a)) c)"

text \<open>\<open>create\<close> of the client for new channels with their names; \<open>post\<close> is the request that creates.\<close>

definition client_create ::
  "(chan_ref list \<Rightarrow> channel list result) \<Rightarrow> ('n list \<Rightarrow> channel list result) \<Rightarrow> ('n \<Rightarrow> string) \<Rightarrow> bool \<Rightarrow> 'n list \<Rightarrow>
   channel_cache \<Rightarrow> (channel list \<times> channel_cache) result" where
  "client_create fetch post new_name retrieveIfNameExists channels c =
     (if retrieveIfNameExists
      then bind_result (cache_retrieve fetch (Many (map (ChName \<circ> new_name) channels)) c) (\<lambda>(res, c1).
           let toCreate = filter (\<lambda>n. new_name n \<notin> ch_name ` set res) channels
           in bind_result (writer_create (post toCreate) c1) (\<lambda>(created, c2). return (res @ created, c2)))
      else writer_create (post channels) c)"

definition client_retrieve ::
  "(chan_ref list \<Rightarrow> channel list result) \<Rightarrow> chan_params \<Rightarrow> channel_cache \<Rightarrow> (channel list \<times> channel_cache) result" where
  "client_retrieve fetch channels c =
     bind_result (cache_retrieve fetch channels c) (\<lambda>(res, c').
     bind_result (checkForMultipleOrNoResults res (case channels of One _ \<Rightarrow> True | Many _ \<Rightarrow> False)) (\<lambda>_. return (res, c')))"

definition isCalculated :: "channel \<Rightarrow> bool" where
  "isCalculated ch \<longleftrightarrow> ch_virtual ch \<and> ch_expression ch \<noteq> ''''"

text \<open>The first loop: the answer when it returns, nothing when it runs through.\<close>

fun real_index :: "(int \<Rightarrow> channel option) \<Rightarrow> int list \<Rightarrow> int option option" where
  "real_index retrieve [] = None"
| "real_index retrieve (r # rs) =
     (case retrieve r of
        None \<Rightarrow> Some None
      | Some ch \<Rightarrow> if \<not> ch_virtual ch then Some (Some (ch_index ch)) else real_index retrieve rs)"

text \<open>
  The function calls itself on calculated channels that are required; \<open>None\<close> is a call that needs more
  levels than given.
\<close>

fun resolve_required ::
  "(channel \<Rightarrow> int option option) \<Rightarrow> (int \<Rightarrow> channel option) \<Rightarrow> int list \<Rightarrow> int option option" where
  "resolve_required rec_call retrieve [] = Some None"
| "resolve_required rec_call retrieve (r # rs) =
     (case retrieve r of
        None \<Rightarrow> Some None
      | Some ch \<Rightarrow>
          if isCalculated ch
          then (case rec_call ch of
                  None \<Rightarrow> None
                | Some None \<Rightarrow> resolve_required rec_call retrieve rs
                | Some (Some ix) \<Rightarrow> Some (Some ix))
          else resolve_required rec_call retrieve rs)"

fun resolveCalculatedIndex :: "nat \<Rightarrow> (int \<Rightarrow> channel option) \<Rightarrow> channel \<Rightarrow> int option option" where
  "resolveCalculatedIndex 0 retrieve ch = None"
| "resolveCalculatedIndex (Suc depth) retrieve ch =
     (if \<not> isCalculated ch then Some (Some (ch_index ch))
      else case real_index retrieve (ch_requires ch) of
             Some res \<Rightarrow> Some res
           | None \<Rightarrow> resolve_required (resolveCalculatedIndex depth retrieve) retrieve (ch_requires ch))"

end
