(* ===== verification/Frame.thy ===== *)
theory Frame
  imports Multi_Series Channel_Client
begin

text \<open>
  Frames (\<open>client/ts/src/framer/frame.ts\<close>), collections of series for channels, and the adapters of
  \<open>adapter.ts\<close> that translate between the keys of the cluster and the names of the caller.

  A column of a frame is the key or the name of a channel. A frame that a call changes is returned with
  the error the call throws, if any, since the change may have been made before. The retrieval of
  channels is the argument \<open>fetch\<close>. The payload of a frame is given by its keys and its series.
\<close>

section \<open>Frames\<close>

record frame =
  columns :: "chan_ref list"
  fseries :: "series list"

definition empty_frame :: frame where
  "empty_frame = \<lparr>columns = [], fseries = []\<rparr>"

datatype col_type = KeyCol | NameCol

fun is_name :: "chan_ref \<Rightarrow> bool" where
  "is_name (ChName _) = True"
| "is_name _ = False"

definition columnType :: "chan_ref list \<Rightarrow> col_type option" where
  "columnType cols =
     (case cols of
        [] \<Rightarrow> None
      | ChName s # _ \<Rightarrow> Some (if parseInt s \<noteq> None then KeyCol else NameCol)
      | _ \<Rightarrow> Some KeyCol)"

text \<open>The message names the type of the columns, also when there are none.\<close>

definition validateMatchedColsAndSeries :: "chan_ref list \<Rightarrow> series list \<Rightarrow> unit result" where
  "validateMatchedColsAndSeries cols ss =
     (if length cols = length ss then return ()
      else throw
        (case columnType cols of
           None \<Rightarrow> ''nulls and series must be the same length''
         | Some KeyCol \<Rightarrow> ''keys and series must be the same length''
         | Some NameCol \<Rightarrow> ''names and series must be the same length''))"

definition colType :: "frame \<Rightarrow> col_type option" where
  "colType f = (case columns f of [] \<Rightarrow> None | c # _ \<Rightarrow> Some (if is_name c then NameCol else KeyCol))"

text \<open>\<open>push\<close>: the series are added before the type of the key is checked.\<close>

definition push_series :: "chan_ref \<Rightarrow> series list \<Rightarrow> frame \<Rightarrow> frame \<times> string option" where
  "push_series key v f =
     (let f1 = f\<lparr>fseries := fseries f @ v\<rparr>
      in if is_name key \<and> colType f = Some KeyCol then (f1, Some ''keyVariant must match'')
         else if \<not> is_name key \<and> colType f = Some NameCol then (f1, Some ''keyVariant must match'')
         else (f1\<lparr>columns := columns f @ replicate (length v) key\<rparr>, None))"

definition push_frame :: "frame \<Rightarrow> frame \<Rightarrow> frame \<times> string option" where
  "push_frame g f =
     (if colType f \<noteq> None \<and> colType g \<noteq> colType f then (f, Some ''keyVariant must match'')
      else (\<lparr>columns = columns f @ columns g, fseries = fseries f @ fseries g\<rparr>, None))"

definition pushed :: "frame \<times> string option \<Rightarrow> frame result" where
  "pushed r = (case snd r of None \<Rightarrow> return (fst r) | Some e \<Rightarrow> throw e)"

definition push_all :: "(chan_ref \<times> series list) list \<Rightarrow> frame \<Rightarrow> frame result" where
  "push_all = fold_result (\<lambda>(k, v) f. pushed (push_series k v f))"

datatype crude_frame =
    OfFrame frame
  | OfMap "(chan_ref \<times> series list) list"
  | OfPayload "chan_ref list option" "series list option"
  | OfRecord "(string \<times> series list) list"
  | OfColumns "chan_ref list" "series list"

definition record_key :: "string \<Rightarrow> chan_ref" where
  "record_key k = (case parseInt k of None \<Rightarrow> ChName k | Some i \<Rightarrow> ChKey i)"

fun newFrame :: "crude_frame \<Rightarrow> frame result" where
  "newFrame (OfFrame f) = return f"
| "newFrame (OfMap kvs) = push_all kvs empty_frame"
| "newFrame (OfPayload keys ss) =
     (let ks = (case keys of None \<Rightarrow> [] | Some ks \<Rightarrow> ks); vs = (case ss of None \<Rightarrow> [] | Some vs \<Rightarrow> vs)
      in bind_result (validateMatchedColsAndSeries ks vs)
           (\<lambda>_. push_all (map (\<lambda>(k, s). (k, [s])) (zip ks vs)) empty_frame))"
| "newFrame (OfRecord kvs) = push_all (map (\<lambda>(k, v). (record_key k, v)) kvs) empty_frame"
| "newFrame (OfColumns cols ss) =
     bind_result (validateMatchedColsAndSeries cols ss)
       (\<lambda>_. push_all (map (\<lambda>(k, s). (k, [s])) (zip cols ss)) empty_frame)"

subsection \<open>Columns\<close>

definition frame_keys :: "frame \<Rightarrow> chan_ref list result" where
  "frame_keys f = (if colType f = Some NameCol then throw ''colType is not key'' else return (columns f))"

definition uniqueKeys :: "frame \<Rightarrow> chan_ref list result" where
  "uniqueKeys f = bind_result (frame_keys f) (\<lambda>ks. return (unique ks))"

definition frame_names :: "frame \<Rightarrow> chan_ref list result" where
  "frame_names f = (if colType f = Some KeyCol then throw ''colType is not name'' else return (columns f))"

definition uniqueNames :: "frame \<Rightarrow> chan_ref list result" where
  "uniqueNames f = bind_result (frame_names f) (\<lambda>ks. return (unique ks))"

definition uniqueColumns :: "frame \<Rightarrow> chan_ref list result" where
  "uniqueColumns f = (if colType f = Some KeyCol then uniqueKeys f else uniqueNames f)"

definition isVertical :: "frame \<Rightarrow> bool result" where
  "isVertical f = bind_result (uniqueColumns f) (\<lambda>cs. return (length cs = length (columns f)))"

definition isHorizontal :: "frame \<Rightarrow> bool result" where
  "isHorizontal f = bind_result (uniqueColumns f) (\<lambda>cs. return (length cs = 1))"

definition isSquare :: "frame \<Rightarrow> bool result" where
  "isSquare f = bind_result (isHorizontal f) (\<lambda>h. if h then isVertical f else return False)"

definition frame_has :: "chan_ref \<Rightarrow> frame \<Rightarrow> bool" where
  "frame_has ch f =
     (if is_name ch \<and> colType f = Some KeyCol then False
      else if \<not> is_name ch \<and> colType f = Some NameCol then False
      else ch \<in> set (columns f))"

subsection \<open>Reading\<close>

text \<open>\<open>get\<close> of one channel; \<open>NaN\<close> is not equal to itself.\<close>

definition series_of :: "frame \<Rightarrow> chan_ref \<Rightarrow> series list" where
  "series_of f key = map snd (filter (\<lambda>(c, s). c = key \<and> key \<noteq> ChNaN) (zip (columns f) (fseries f)))"

definition frame_get :: "chan_ref \<Rightarrow> frame \<Rightarrow> multi_series result" where
  "frame_get key f = newMultiSeries (series_of f key)"

definition frame_map :: "(chan_ref \<Rightarrow> series \<Rightarrow> nat \<Rightarrow> (chan_ref \<times> series) result) \<Rightarrow> frame \<Rightarrow> frame result" where
  "frame_map fn f =
     fold_result (\<lambda>(i, k, s) g. bind_result (fn k s i) (\<lambda>(k', s'). pushed (push_series k' [s'] g)))
       (enumerate 0 (zip (columns f) (fseries f))) empty_frame"

definition frame_filter :: "(chan_ref \<Rightarrow> series \<Rightarrow> nat \<Rightarrow> bool) \<Rightarrow> frame \<Rightarrow> frame result" where
  "frame_filter fn f =
     fold_result (\<lambda>(i, k, s) g. if fn k s i then pushed (push_series k [s] g) else return g)
       (enumerate 0 (zip (columns f) (fseries f))) empty_frame"

definition frame_get_all :: "chan_ref list \<Rightarrow> frame \<Rightarrow> frame result" where
  "frame_get_all keys f = frame_filter (\<lambda>k _ _. k \<in> set keys) f"

definition frame_concat :: "frame \<Rightarrow> frame \<Rightarrow> frame result" where
  "frame_concat g f = newFrame (OfColumns (columns f @ columns g) (fseries f @ fseries g))"

definition frame_timeRange :: "chan_ref option \<Rightarrow> frame \<Rightarrow> time_range result" where
  "frame_timeRange col f =
     (case col of
        None \<Rightarrow>
          if columns f = [] then return RANGE_ZERO
          else bind_result (all_results (map timeRange_get (fseries f))) (\<lambda>trs.
                 return (newTimeRange (stamp_min (map start trs)) (stamp_max (map end trs))))
      | Some c \<Rightarrow> bind_result (frame_get c f) multi_timeRange)"

definition timeRanges :: "frame \<Rightarrow> time_range list result" where
  "timeRanges f = bind_result (uniqueColumns f) (\<lambda>cs. all_results (map (\<lambda>c. frame_timeRange (Some c) f) cs))"

definition isWeaklyAligned :: "frame \<Rightarrow> bool result" where
  "isWeaklyAligned f =
     (if length (columns f) \<le> 1 then return True
      else bind_result (timeRanges f) (\<lambda>trs. return (list_all (\<lambda>tr. range_equals tr (hd trs)) trs)))"

definition frame_at :: "int \<Rightarrow> bool \<Rightarrow> frame \<Rightarrow> (chan_ref, sample_value option) rec result" where
  "frame_at ix required f =
     bind_result (uniqueColumns f) (\<lambda>cs.
       fold_result (\<lambda>k res. bind_result (frame_get k f) (\<lambda>ms.
                             bind_result (multi_at ms ix required) (\<lambda>v. return (rec_set k v res)))) cs [])"

definition latest :: "frame \<Rightarrow> (chan_ref, sample_value option) rec result" where
  "latest f = frame_at (-1) False f"

definition frame_byteLength :: "frame \<Rightarrow> nat" where
  "frame_byteLength f = foldl (\<lambda>acc s. acc + byteLength s) 0 (fseries f)"

definition frame_length :: "frame \<Rightarrow> nat" where
  "frame_length f = foldl (\<lambda>acc s. acc + series_length s) 0 (fseries f)"

section \<open>Adapters\<close>

text \<open>From keys to names.\<close>

record read_adapter =
  ra_adapter :: "(int, string) rec option"
  ra_keys :: "chan_ref list"

definition add_name :: "channel list \<Rightarrow> chan_ref \<Rightarrow> (int, string) rec \<Rightarrow> (int, string) rec result" where
  "add_name fetched ref a =
     (case find (\<lambda>ch. ref = ChName (ch_name ch)) fetched of
        None \<Rightarrow> throw ''Channel not found''
      | Some ch \<Rightarrow> return (rec_set (ch_key ch) (ch_name ch) a))"

definition read_update :: "(chan_ref list \<Rightarrow> channel list result) \<Rightarrow> chan_params \<Rightarrow> read_adapter result" where
  "read_update fetch channels =
     (let an = analyzeParams channels
      in if avariant an = KeysVariant then return \<lparr>ra_adapter = None, ra_keys = normalized an\<rparr>
         else bind_result (fetch (normalized an)) (\<lambda>fetched.
              bind_result (fold_result (add_name fetched) (normalized an) []) (\<lambda>a.
              return \<lparr>ra_adapter = Some a, ra_keys = map ChKey (rec_keys a)\<rparr>)))"

definition read_adapt :: "read_adapter \<Rightarrow> frame \<Rightarrow> frame result" where
  "read_adapt ad f =
     (case ra_adapter ad of
        None \<Rightarrow> return f
      | Some a \<Rightarrow>
          frame_map (\<lambda>k s _.
            case k of
              ChName n \<Rightarrow> return (k, s)
            | ChKey n \<Rightarrow> (case rec_get a n of None \<Rightarrow> throw ''Channel not found'' | Some name \<Rightarrow> return (ChName name, s))
            | ChNaN \<Rightarrow> throw ''Channel not found'') f)"

text \<open>From names to keys.\<close>

record write_adapter =
  wa_adapter :: "(string, int) rec"
  wa_keys :: "int list"

definition write_update :: "(chan_params \<Rightarrow> channel list result) \<Rightarrow> chan_params \<Rightarrow> write_adapter result" where
  "write_update fetch channels =
     bind_result (retrieveRequired fetch channels) (\<lambda>results.
       return \<lparr>wa_adapter = foldl (\<lambda>m ch. rec_set (ch_name ch) (ch_key ch) m) [] results, wa_keys = map ch_key results\<rparr>)"

definition fetchChannel :: "(chan_params \<Rightarrow> channel list result) \<Rightarrow> chan_ref \<Rightarrow> channel result" where
  "fetchChannel fetch ch =
     bind_result (fetch (One ch)) (\<lambda>res. case res of [] \<Rightarrow> throw ''Channel not found'' | c # _ \<Rightarrow> return c)"

definition adaptToKey :: "(chan_params \<Rightarrow> channel list result) \<Rightarrow> chan_ref \<Rightarrow> chan_ref result" where
  "adaptToKey fetch k =
     (if \<not> is_name k then return k else bind_result (fetchChannel fetch k) (\<lambda>c. return (ChKey (ch_key c))))"

definition adaptObjectKeys :: "(chan_params \<Rightarrow> channel list result) \<Rightarrow> (string, 'v) rec \<Rightarrow> (chan_ref, 'v) rec result" where
  "adaptObjectKeys fetch kvs =
     fold_result (\<lambda>(k, v) out. bind_result (adaptToKey fetch (ChName k)) (\<lambda>key. return (rec_set key v out))) kvs []"

text \<open>
  The arguments of \<open>adapt\<close>; a series is given by its values, from which a series of the type of the
  channel is made (\<open>print\<close> prints and encodes a value).
\<close>

datatype write_data =
    ToChannel chan_ref "telem_value list option"
  | ToChannels "chan_ref list" "telem_value list list option"
  | WholeFrame crude_frame
  | ByChannel "(string \<times> telem_value list) list"

definition channel_series :: "(telem_value \<Rightarrow> numeric list) \<Rightarrow> channel \<Rightarrow> telem_value list \<Rightarrow> series result" where
  "channel_series print ch vs = seriesFromValues print (Some (ch_dataType ch)) vs None (Num 0) StaticUsage 0"

text \<open>The loops over channels: the channel is fetched before the lack of a series is noticed.\<close>

fun channel_columns ::
  "(chan_params \<Rightarrow> channel list result) \<Rightarrow> (telem_value \<Rightarrow> numeric list) \<Rightarrow> chan_ref list \<Rightarrow> telem_value list list \<Rightarrow>
   (chan_ref \<times> series) list result" where
  "channel_columns fetch print [] vss = return []"
| "channel_columns fetch print (r # rs) vss =
     bind_result (fetchChannel fetch r) (\<lambda>ch.
       case vss of
         [] \<Rightarrow> throw ''not enough series''
       | vs # vss' \<Rightarrow>
           bind_result (channel_series print ch vs) (\<lambda>s.
           bind_result (channel_columns fetch print rs vss') (\<lambda>cs. return ((ChKey (ch_key ch), s) # cs))))"

definition adapt_column :: "write_adapter \<Rightarrow> chan_ref \<Rightarrow> chan_ref result" where
  "adapt_column ad col =
     (case col of
        ChName n \<Rightarrow>
          (case rec_get (wa_adapter ad) n of
             None \<Rightarrow> throw ''Channel was not provided in the list of channels when opening the writer''
           | Some k \<Rightarrow> return (ChKey k))
      | _ \<Rightarrow> return col)"

fun write_adapt ::
  "(chan_params \<Rightarrow> channel list result) \<Rightarrow> (telem_value \<Rightarrow> numeric list) \<Rightarrow> write_adapter \<Rightarrow> write_data \<Rightarrow> frame result" where
  "write_adapt fetch print ad (ToChannel r vs) =
     (case vs of
        None \<Rightarrow> throw ''Received a single channel name or key but no series''
      | Some v \<Rightarrow>
          bind_result (fetchChannel fetch r) (\<lambda>ch.
          bind_result (channel_series print ch v) (\<lambda>s. newFrame (OfColumns [ChKey (ch_key ch)] [s]))))"
| "write_adapt fetch print ad (ToChannels rs vss) =
     (case vss of
        None \<Rightarrow> throw ''Received an array of channel names or keys but no series''
      | Some vs \<Rightarrow>
          bind_result (channel_columns fetch print rs vs) (\<lambda>cs. newFrame (OfColumns (map fst cs) (map snd cs))))"
| "write_adapt fetch print ad (WholeFrame cf) =
     bind_result (newFrame cf) (\<lambda>fr.
     bind_result (all_results (map (adapt_column ad) (columns fr))) (\<lambda>cols. newFrame (OfColumns cols (fseries fr))))"
| "write_adapt fetch print ad (ByChannel kvs) =
     bind_result (channel_columns fetch print (map (ChName \<circ> fst) kvs) (map snd kvs)) (\<lambda>cs.
       newFrame (OfColumns (map fst cs) (map snd cs)))"

end
