(* ===== verification/Channel_Laws.thy ===== *)
theory Channel_Laws
  imports Channel_Client
begin

text \<open>
  The cache of channels and the cluster: which requests keep the cache true to the cluster, what a
  retrieval then returns, that batching answers every request as if it were alone, and when the index
  of a calculated channel is found.
\<close>

section \<open>The cache and the cluster\<close>

text \<open>
  The channels of the cluster are a list. The cache knows some of them, and its index by name lists
  exactly the channels it knows.
\<close>

definition listed :: "channel_cache \<Rightarrow> string \<Rightarrow> int \<Rightarrow> bool" where
  "listed c n k \<longleftrightarrow> (\<exists>ks. rec_get (namesToKeys c) n = Some ks \<and> k \<in> set ks)"

definition known :: "channel_cache \<Rightarrow> channel list \<Rightarrow> bool" where
  "known c db \<longleftrightarrow> (\<forall>k ch. rec_get (cached c) k = Some ch \<longrightarrow> ch_key ch = k \<and> ch \<in> set db)"

definition indexed :: "channel_cache \<Rightarrow> bool" where
  "indexed c \<longleftrightarrow> (\<forall>n k. listed c n k \<longleftrightarrow> (\<exists>ch. rec_get (cached c) k = Some ch \<and> ch_name ch = n))"

definition cache_true :: "channel_cache \<times> channel list \<Rightarrow> bool" where
  "cache_true s \<longleftrightarrow> inj_on ch_key (set (snd s)) \<and> known (fst s) (snd s) \<and> indexed (fst s)"

subsection \<open>Adding and renaming channels\<close>

lemma rec_get_add_key:
  "(\<exists>ks. rec_get (add_key n k r) m = Some ks \<and> x \<in> set ks) \<longleftrightarrow>
     (m = n \<and> x = k) \<or> (\<exists>ks. rec_get r m = Some ks \<and> x \<in> set ks)"
  by (auto simp: add_key_def split: option.splits)

lemma rec_get_drop_key:
  "(\<exists>ks. rec_get (drop_key n k r) m = Some ks \<and> x \<in> set ks) \<longleftrightarrow>
     \<not> (m = n \<and> x = k) \<and> (\<exists>ks. rec_get r m = Some ks \<and> x \<in> set ks)"
proof (cases "rec_get r n")
  case (Some ks)
  have mem: "x \<in> set (removeAll k ks) \<longleftrightarrow> x \<in> set ks \<and> x \<noteq> k" by auto
  show ?thesis
  proof (cases "m = n")
    case True
    then show ?thesis using Some mem by (cases "removeAll k ks = []") (auto simp: drop_key_def Let_def)
  qed (use Some in \<open>simp add: drop_key_def Let_def\<close>)
qed (auto simp: drop_key_def)

lemma set_one_true:
  assumes "cache_true (c, db)" "ch \<in> set db"
  shows "cache_true (set_one c ch, db)"
proof -
  have "x = ch" if "rec_get (cached c) (ch_key ch) = Some x" for x
    using that assms by (auto simp: cache_true_def known_def inj_on_def)
  then show ?thesis using assms
    unfolding cache_true_def known_def indexed_def listed_def set_one_def
    by (auto simp: rec_get_add_key)
qed

lemma cache_set_true: "cache_true (c, db) \<Longrightarrow> set chs \<subseteq> set db \<Longrightarrow> cache_true (cache_set chs c, db)"
  unfolding cache_set_def by (induction chs arbitrary: c) (simp_all add: set_one_true)

definition rename_channel :: "channel list \<Rightarrow> int \<times> string \<Rightarrow> channel list" where
  "rename_channel db kn = map (\<lambda>ch. if ch_key ch = fst kn then ch\<lparr>ch_name := snd kn\<rparr> else ch) db"

lemma rename_one_true:
  assumes "cache_true (c, db)"
  shows "cache_true (rename_one c kn, rename_channel db kn)"
proof -
  have inj: "inj_on ch_key (set (rename_channel db kn))"
    using assms by (auto simp: cache_true_def inj_on_def rename_channel_def)
  obtain k n where kn: "kn = (k, n)" by (cases kn)
  show ?thesis
  proof (cases "rec_get (cached c) k")
    case None
    then have "known c (rename_channel db kn)"
      using assms kn by (force simp: cache_true_def known_def rename_channel_def)
    then show ?thesis using assms inj None kn by (simp add: cache_true_def rename_one_def)
  next
    case (Some ch)
    have "known (rename_one c kn) (rename_channel db kn)"
      using assms Some kn by (force simp: cache_true_def known_def rename_channel_def rename_one_def)
    moreover have "indexed (rename_one c kn)"
      using assms Some kn
      by (auto simp: cache_true_def indexed_def listed_def rename_one_def rec_get_add_key rec_get_drop_key)
    ultimately show ?thesis using inj by (simp add: cache_true_def)
  qed
qed

lemma cache_rename_true:
  "cache_true (c, db) \<Longrightarrow> cache_true (foldl rename_one c kns, foldl rename_channel db kns)"
  by (induction kns arbitrary: c db) (simp_all add: rename_one_true)

subsection \<open>Deleting channels\<close>

lemma delete_name_step:
  "listed (delete_name c r) n x \<longleftrightarrow> listed c n x \<and> r \<noteq> ChName n"
  "rec_get (cached (delete_name c r)) x = Some ch \<longleftrightarrow> rec_get (cached c) x = Some ch \<and> (\<forall>n. r = ChName n \<longrightarrow> \<not> listed c n x)"
  by (auto simp: listed_def delete_name_def rec_get_delete_all split: chan_ref.splits option.splits)

lemma delete_names:
  "listed (foldl delete_name c refs) m k \<longleftrightarrow> listed c m k \<and> ChName m \<notin> set refs"
  "rec_get (cached (foldl delete_name c refs)) k = Some ch \<longleftrightarrow>
     rec_get (cached c) k = Some ch \<and> (\<forall>n. ChName n \<in> set refs \<longrightarrow> \<not> listed c n k)"
  by (induction refs arbitrary: c) (auto simp: delete_name_step)

lemma delete_key_step:
  "rec_get (cached (delete_key c r)) x = Some ch \<longleftrightarrow> rec_get (cached c) x = Some ch \<and> r \<noteq> ChKey x"
  "listed (delete_key c r) n x \<longleftrightarrow>
     listed c n x \<and> (\<forall>y ch. r = ChKey y \<longrightarrow> rec_get (cached c) y = Some ch \<longrightarrow> ch_name ch \<noteq> n)"
  by (auto simp: listed_def delete_key_def split: chan_ref.splits option.splits)

lemma delete_keys:
  "rec_get (cached (foldl delete_key c refs)) k = Some ch \<longleftrightarrow> rec_get (cached c) k = Some ch \<and> ChKey k \<notin> set refs"
  "listed (foldl delete_key c refs) n k \<longleftrightarrow>
     listed c n k \<and> (\<forall>y ch. ChKey y \<in> set refs \<longrightarrow> rec_get (cached c) y = Some ch \<longrightarrow> ch_name ch \<noteq> n)"
proof (induction refs arbitrary: c)
  case (Cons r refs)
  {
    case 1
    show ?case using Cons.IH(1) [of "delete_key c r"] by (auto simp: delete_key_step(1))
  next
    case 2
    show ?case
      using Cons.IH(2) [of "delete_key c r"] unfolding foldl.simps delete_key_step list.set insert_iff by blast
  }
qed simp_all

lemma parse_ref_not_name: "parse_ref r \<noteq> ChName n"
  by (cases r) (auto split: option.splits)

lemma analyze_again:
  "normalized (analyzeParams (Many (normalized (analyzeParams p)))) = normalized (analyzeParams p)"
  "avariant (analyzeParams (Many (normalized (analyzeParams p)))) = avariant (analyzeParams p)"
proof -
  have "normalized (analyzeParams (Many (normalized (analyzeParams p)))) = normalized (analyzeParams p) \<and>
    avariant (analyzeParams (Many (normalized (analyzeParams p)))) = avariant (analyzeParams p)"
  proof (cases "toArray p")
    case (Cons r rs)
    show ?thesis
    proof (cases r)
      case (ChName s)
      show ?thesis
      proof (cases "parseInt s")
        case (Some k)
        then show ?thesis using Cons ChName by (simp add: analyzeParams_def Let_def)
      qed (use Cons ChName in \<open>simp add: analyzeParams_def Let_def\<close>)
    qed (use Cons in \<open>simp_all add: analyzeParams_def Let_def\<close>)
  qed (simp add: analyzeParams_def)
  then show "normalized (analyzeParams (Many (normalized (analyzeParams p)))) = normalized (analyzeParams p)"
    "avariant (analyzeParams (Many (normalized (analyzeParams p)))) = avariant (analyzeParams p)" by blast+
qed

lemma client_delete_cache: "client_delete (Inr ()) p c = Inr (cache_delete p c)"
  by (simp add: client_delete_def writer_delete_def cache_delete_def analyze_again Let_def)

text \<open>A request names keys or names and does not mix them.\<close>

definition unmixed :: "chan_params \<Rightarrow> bool" where
  "unmixed p \<longleftrightarrow>
     list_all (\<lambda>r. (case r of ChName _ \<Rightarrow> True | _ \<Rightarrow> False) \<longleftrightarrow> avariant (analyzeParams p) = NamesVariant)
       (normalized (analyzeParams p))"

definition requested :: "chan_params \<Rightarrow> channel \<Rightarrow> bool" where
  "requested p ch \<longleftrightarrow> list_ex (\<lambda>r. found_for r ch) (normalized (analyzeParams p))"

text \<open>A channel is only deleted together with the others of its name.\<close>

definition whole_names :: "chan_params \<Rightarrow> channel list \<Rightarrow> bool" where
  "whole_names p db \<longleftrightarrow> (\<forall>a \<in> set db. \<forall>b \<in> set db. requested p a \<longrightarrow> ch_name b = ch_name a \<longrightarrow> requested p b)"

lemma requested_iff: "requested p ch \<longleftrightarrow> (\<exists>r \<in> set (normalized (analyzeParams p)). found_for r ch)"
  by (simp add: requested_def list_ex_iff)

lemma unmixedD:
  "unmixed p \<Longrightarrow> r \<in> set (normalized (analyzeParams p)) \<Longrightarrow>
     (\<exists>n. r = ChName n) \<longleftrightarrow> avariant (analyzeParams p) = NamesVariant"
  by (cases r) (auto simp: unmixed_def list_all_iff)

lemma unmixed_names:
  assumes "unmixed p" "avariant (analyzeParams p) = NamesVariant"
  shows "requested p ch \<longleftrightarrow> ChName (ch_name ch) \<in> set (normalized (analyzeParams p))"
proof
  assume "requested p ch"
  then obtain r where r: "r \<in> set (normalized (analyzeParams p))" "found_for r ch" by (auto simp: requested_iff)
  then obtain n where "r = ChName n" using unmixedD [OF assms(1) r(1)] assms(2) by blast
  with r show "ChName (ch_name ch) \<in> set (normalized (analyzeParams p))" by (simp add: found_for_def)
next
  assume "ChName (ch_name ch) \<in> set (normalized (analyzeParams p))"
  then show "requested p ch" unfolding requested_iff by (rule bexI [rotated]) (simp add: found_for_def)
qed

lemma unmixed_keys:
  assumes "unmixed p" "avariant (analyzeParams p) \<noteq> NamesVariant"
  shows "requested p ch \<longleftrightarrow> ChKey (ch_key ch) \<in> set (normalized (analyzeParams p))"
proof
  assume "requested p ch"
  then obtain r where r: "r \<in> set (normalized (analyzeParams p))" "found_for r ch" by (auto simp: requested_iff)
  then have "\<nexists>n. r = ChName n" using unmixedD [OF assms(1) r(1)] assms(2) by blast
  with r(2) have "r = ChKey (ch_key ch)" by (simp add: found_for_def split: chan_ref.splits)
  with r(1) show "ChKey (ch_key ch) \<in> set (normalized (analyzeParams p))" by simp
next
  assume "ChKey (ch_key ch) \<in> set (normalized (analyzeParams p))"
  then show "requested p ch" unfolding requested_iff by (rule bexI [rotated]) (simp add: found_for_def)
qed

lemma cache_delete_true:
  assumes "cache_true (c, db)" "unmixed p" "whole_names p db"
  shows "cache_true (cache_delete p c, filter (\<lambda>ch. \<not> requested p ch) db)"
proof -
  let ?refs = "normalized (analyzeParams p)"
  have c: "inj_on ch_key (set db)" "\<And>k ch. rec_get (cached c) k = Some ch \<Longrightarrow> ch_key ch = k \<and> ch \<in> set db"
    "\<And>n k. listed c n k \<longleftrightarrow> (\<exists>ch. rec_get (cached c) k = Some ch \<and> ch_name ch = n)"
    using assms(1) by (auto simp: cache_true_def known_def indexed_def)
  have kept: "rec_get (cached (cache_delete p c)) k = Some ch \<longleftrightarrow> rec_get (cached c) k = Some ch \<and> \<not> requested p ch" for k ch
  proof (cases "avariant (analyzeParams p) = NamesVariant")
    case True
    then show ?thesis using c(3) unmixed_names [OF assms(2) True] by (auto simp: cache_delete_def Let_def delete_names)
  next
    case False
    then show ?thesis using c(2) unmixed_keys [OF assms(2) False] by (auto simp: cache_delete_def Let_def delete_keys)
  qed
  have list: "listed (cache_delete p c) n k \<longleftrightarrow> (\<exists>ch. rec_get (cached c) k = Some ch \<and> ch_name ch = n \<and> \<not> requested p ch)" for n k
  proof (cases "avariant (analyzeParams p) = NamesVariant")
    case True
    then show ?thesis using c(3) unmixed_names [OF assms(2) True] by (auto simp: cache_delete_def Let_def delete_names)
  next
    case False
    then have "listed (cache_delete p c) n k \<longleftrightarrow>
        listed c n k \<and> (\<forall>y ch. ChKey y \<in> set ?refs \<longrightarrow> rec_get (cached c) y = Some ch \<longrightarrow> ch_name ch \<noteq> n)"
      by (simp add: cache_delete_def Let_def delete_keys)
    then show ?thesis
      using c(2,3) unmixed_keys [OF assms(2) False] assms(3) unfolding whole_names_def by metis
  qed
  show ?thesis using c(1,2) kept list
    by (auto simp: cache_true_def known_def indexed_def intro: inj_on_subset)
qed

subsection \<open>Requests one after the other\<close>

text \<open>
  The requests of the client with what the cluster does: a retrieval comes with the answers of the
  cluster, a creation with the channels it made; deleted channels are gone and renamed ones renamed.
\<close>

datatype cluster_event =
    Retrieval chan_params "chan_ref list \<Rightarrow> channel list result"
  | Creation "channel list"
  | Deletion chan_params
  | Renaming "int list" "string list"

fun cluster_step :: "cluster_event \<Rightarrow> channel_cache \<times> channel list \<Rightarrow> (channel_cache \<times> channel list) result" where
  "cluster_step (Retrieval p fetch) (c, db) = bind_result (cache_retrieve fetch p c) (\<lambda>(_, c'). return (c', db))"
| "cluster_step (Creation created) (c, db) =
     bind_result (writer_create (Inr created) c) (\<lambda>(_, c'). return (c', db @ created))"
| "cluster_step (Deletion p) (c, db) =
     bind_result (client_delete (Inr ()) p c) (\<lambda>c'. return (c', filter (\<lambda>ch. \<not> requested p ch) db))"
| "cluster_step (Renaming keys names) (c, db) =
     bind_result (writer_rename (Inr ()) keys names c) (\<lambda>c'. return (c', foldl rename_channel db (zip keys names)))"

text \<open>The cluster answers with the channels that have one of the keys or names.\<close>

definition honest :: "channel list \<Rightarrow> (chan_ref list \<Rightarrow> channel list result) \<Rightarrow> bool" where
  "honest db fetch \<longleftrightarrow>
     (\<forall>refs chs. fetch refs = Inr chs \<longrightarrow> set chs = {ch \<in> set db. \<exists>r \<in> set refs. found_for r ch})"

fun cluster_ok :: "cluster_event \<Rightarrow> channel_cache \<times> channel list \<Rightarrow> bool" where
  "cluster_ok (Retrieval p fetch) (c, db) = honest db fetch"
| "cluster_ok (Creation created) (c, db) = inj_on ch_key (set db \<union> set created)"
| "cluster_ok (Deletion p) (c, db) = (unmixed p \<and> whole_names p db)"
| "cluster_ok (Renaming keys names) (c, db) = (length keys = length names)"

lemma cache_true_more: "cache_true (c, db) \<Longrightarrow> set db \<subseteq> set db' \<Longrightarrow> inj_on ch_key (set db') \<Longrightarrow> cache_true (c, db')"
  by (auto simp: cache_true_def known_def)

lemma cluster_step_true:
  assumes "cache_true s" "cluster_ok e s" "cluster_step e s = Inr t"
  shows "cache_true t"
proof -
  obtain c db where s: "s = (c, db)" by (cases s)
  show ?thesis
  proof (cases e)
    case (Retrieval p fetch)
    with assms s show ?thesis
      by (auto simp: cache_retrieve_def Let_def bind_result_eq_Inr honest_def split: if_splits intro!: cache_set_true)
  next
    case (Creation created)
    with assms s have "cache_true (c, db @ created)" by (auto intro: cache_true_more)
    then show ?thesis using assms s Creation by (auto simp: writer_create_def intro: cache_set_true)
  next
    case (Deletion p)
    with assms s show ?thesis by (auto simp: client_delete_cache intro: cache_delete_true)
  next
    case (Renaming keys names)
    with assms s show ?thesis by (auto simp: writer_rename_def cache_rename_def intro: cache_rename_true)
  qed
qed

interpretation cluster_cache: action_reducer cluster_step cache_true cluster_ok
  by unfold_locales (rule cluster_step_true)

lemma cache_get_hit:
  assumes "cache_true (c, db)" "cache_get c r = Some chs"
  shows "chs \<noteq> [] \<and> (\<forall>ch \<in> set chs. ch \<in> set db \<and> found_for r ch)"
proof (cases r)
  case (ChName n)
  with assms(2) obtain ks where ks: "rec_get (namesToKeys c) n = Some ks"
    "chs = List.map_filter (rec_get (cached c)) ks" "chs \<noteq> []"
    by (auto simp: cache_get_def Let_def split: option.splits if_splits)
  have "ch \<in> set db \<and> ch_name ch = n" if "ch \<in> set chs" for ch
  proof -
    from that ks(2) obtain k where k: "k \<in> set ks" "rec_get (cached c) k = Some ch"
      by (auto simp: List.map_filter_def)
    with ks(1) have "listed c n k" by (auto simp: listed_def)
    with k(2) assms(1) show ?thesis by (auto simp: cache_true_def indexed_def known_def)
  qed
  with ks(3) ChName show ?thesis by (simp add: found_for_def)
qed (use assms in \<open>auto simp: cache_get_def cache_true_def known_def found_for_def\<close>)


definition sample_channel :: "int \<Rightarrow> string \<Rightarrow> channel" where
  "sample_channel k n =
     \<lparr>ch_name = n, ch_key = k, ch_rate = 0, ch_dataType = FLOAT32, ch_leaseholder = 1, ch_index = k, ch_isIndex = False,
      ch_internal = False, ch_virtual = False, ch_alias = None, ch_expression = '''', ch_requires = []\<rparr>"

definition sample_fetch :: "channel list \<Rightarrow> chan_ref list \<Rightarrow> channel list result" where
  "sample_fetch db refs = return (filter (\<lambda>ch. list_ex (\<lambda>r. found_for r ch) refs) db)"

lemma honest_sample: "honest db (sample_fetch db)"
  by (auto simp: honest_def sample_fetch_def list_ex_iff)


text \<open>
  Deleting one of two channels with the same name by its key drops the name from the index; deleting the
  name afterwards leaves the other channel in the cache.
\<close>

lemma deleted_channel_stays_cached:
  "let c = cache_delete (Many [ChName ''a''])
             (cache_delete (Many [ChKey 1]) (cache_set [sample_channel 1 ''a'', sample_channel 2 ''a''] empty_cache))
   in rec_get (cached c) 2 = Some (sample_channel 2 ''a'')"
  by code_simp

text \<open>A name that is cached for one channel hides the other channels of that name.\<close>

lemma cached_name_hides_others:
  "map_option (map ch_key \<circ> fst) (case cache_retrieve (sample_fetch [sample_channel 1 ''a'', sample_channel 2 ''a'']) (One (ChName ''a''))
     (cache_set [sample_channel 1 ''a''] empty_cache) of Inl _ \<Rightarrow> None | Inr r \<Rightarrow> Some r) = Some [1]"
  by code_simp

text \<open>A name that starts with a digit is taken for a key.\<close>

lemma digit_name_is_a_key: "normalized (analyzeParams (Many [ChName ''2nd'', ChName ''a''])) = [ChKey 2, ChNaN]"
  by code_simp

section \<open>Batches\<close>

text \<open>
  A batch of requests: every waiting request is settled once, in order, with the error of the request
  for all keys or with the channels that have one of its own keys, as if it had been sent alone.
\<close>

theorem batch_answers_each_request:
  assumes "honest db wrapped"
  shows "list_all2 (\<lambda>(ks, p) (q, r).
      q = p \<and>
      (case r of
         Inl e \<Rightarrow> wrapped (map ChKey (unique (concat (map fst requests)))) = Inl e
       | Inr chs \<Rightarrow> set chs = {ch \<in> set db. ch_key ch \<in> set ks}))
    requests (batch_run wrapped requests)"
proof (cases "wrapped (map ChKey (unique (concat (map fst requests))))")
  case (Inl e)
  then show ?thesis by (auto simp: batch_run_def list_all2_conv_all_nth case_prod_unfold)
next
  case (Inr chs)
  with assms have chs: "set chs = {ch \<in> set db. \<exists>r \<in> set (map ChKey (unique (concat (map fst requests)))). found_for r ch}"
    unfolding honest_def by blast
  have "{ch \<in> set chs. ch_key ch \<in> set (fst (requests ! i))} = {ch \<in> set db. ch_key ch \<in> set (fst (requests ! i))}"
    if "i < length requests" for i
    using nth_mem [OF that] unfolding chs by (force simp: found_for_def set_unique)
  with Inr show ?thesis
    by (auto simp: batch_run_def list_all2_conv_all_nth case_prod_unfold)
qed

theorem batch_answers_each_request_witness:
  "map (\<lambda>(p, r). (p, case r of Inl _ \<Rightarrow> [] | Inr chs \<Rightarrow> map ch_key chs))
     (batch_run (sample_fetch [sample_channel 1 ''a'', sample_channel 2 ''b'']) [([1, 2], True), ([2], False)]) = [(True, [1, 2]), (False, [2])] \<and>
   list_all2 (\<lambda>(ks, p) (q, r). q = p)
     [([1, 2 :: int], True), ([2], False)]
     (batch_run (sample_fetch [sample_channel 1 ''a'', sample_channel 2 ''b'']) [([1, 2 :: int], True), ([2], False)])"
proof
  show "list_all2 (\<lambda>(ks, p) (q, r). q = p)
     [([1, 2 :: int], True), ([2], False)]
     (batch_run (sample_fetch [sample_channel 1 ''a'', sample_channel 2 ''b'']) [([1, 2 :: int], True), ([2], False)])"
    by (rule list_all2_mono [OF batch_answers_each_request [OF honest_sample]]) auto
qed code_simp

section \<open>Calculated channels\<close>

inductive depends :: "(int \<Rightarrow> channel option) \<Rightarrow> channel \<Rightarrow> channel \<Rightarrow> bool" for retrieve where
  self: "depends retrieve ch ch"
| step: "isCalculated a \<Longrightarrow> r \<in> set (ch_requires a) \<Longrightarrow> retrieve r = Some b \<Longrightarrow> depends retrieve b ch \<Longrightarrow> depends retrieve a ch"

lemma real_index_source:
  "real_index retrieve rs = Some (Some ix) \<Longrightarrow>
     \<exists>r \<in> set rs. \<exists>ch. retrieve r = Some ch \<and> \<not> ch_virtual ch \<and> ch_index ch = ix"
  by (induction rs) (auto split: option.splits if_splits)

lemma resolve_required_source:
  "resolve_required f retrieve rs = Some (Some ix) \<Longrightarrow>
     \<exists>r \<in> set rs. \<exists>ch. retrieve r = Some ch \<and> isCalculated ch \<and> f ch = Some (Some ix)"
  by (induction rs) (auto split: option.splits if_splits)

lemma resolve_required_ends:
  "\<forall>r \<in> set rs. \<forall>ch. retrieve r = Some ch \<longrightarrow> isCalculated ch \<longrightarrow> f ch \<noteq> None \<Longrightarrow> resolve_required f retrieve rs \<noteq> None"
proof (induction rs)
  case (Cons r rs)
  show ?case
  proof (cases "retrieve r")
    case (Some ch)
    then show ?thesis using Cons.IH Cons.prems by (cases "f ch") (auto split: option.splits)
  qed simp
qed simp

definition layered :: "(int \<Rightarrow> channel option) \<Rightarrow> (channel \<Rightarrow> nat) \<Rightarrow> bool" where
  "layered retrieve level \<longleftrightarrow>
     (\<forall>a r b. isCalculated a \<longrightarrow> r \<in> set (ch_requires a) \<longrightarrow> retrieve r = Some b \<longrightarrow> isCalculated b \<longrightarrow> level b < level a)"

lemma resolve_ends:
  assumes "layered retrieve level"
  shows "level ch < depth \<Longrightarrow> resolveCalculatedIndex depth retrieve ch \<noteq> None"
proof (induction depth arbitrary: ch)
  case (Suc depth)
  have "resolve_required (resolveCalculatedIndex depth retrieve) retrieve (ch_requires ch) \<noteq> None" if "isCalculated ch"
  proof (rule resolve_required_ends, intro ballI allI impI)
    fix r b assume "r \<in> set (ch_requires ch)" "retrieve r = Some b" "isCalculated b"
    with assms that have "level b < level ch" unfolding layered_def by blast
    with Suc.prems have "level b < depth" by simp
    then show "resolveCalculatedIndex depth retrieve b \<noteq> None" by (rule Suc.IH)
  qed
  then show ?case by (auto split: option.splits)
qed simp

lemma resolve_source:
  "resolveCalculatedIndex depth retrieve ch = Some (Some ix) \<Longrightarrow>
     \<exists>src. depends retrieve ch src \<and> \<not> isCalculated src \<and> ch_index src = ix"
proof (induction depth arbitrary: ch)
  case (Suc depth)
  show ?case
  proof (cases "isCalculated ch")
    case False
    with Suc.prems show ?thesis by (auto intro: depends.self)
  next
    case True
    show ?thesis
    proof (cases "real_index retrieve (ch_requires ch)")
      case None
      with Suc.prems True obtain r b where b: "r \<in> set (ch_requires ch)" "retrieve r = Some b"
        "resolveCalculatedIndex depth retrieve b = Some (Some ix)" by (auto dest: resolve_required_source)
      from Suc.IH [OF b(3)] obtain src where "depends retrieve b src" "\<not> isCalculated src" "ch_index src = ix" by blast
      with depends.step [of ch r retrieve b src] True b(1,2) show ?thesis by blast
    next
      case (Some res)
      with Suc.prems True have "real_index retrieve (ch_requires ch) = Some (Some ix)" by simp
      from real_index_source [OF this] obtain r b where b: "r \<in> set (ch_requires ch)" "retrieve r = Some b"
        "\<not> ch_virtual b" "ch_index b = ix" by blast
      then have "\<not> isCalculated b" by (simp add: isCalculated_def)
      with b depends.step [of ch r retrieve b b] depends.self [of retrieve b] True show ?thesis by blast
    qed
  qed
qed simp

text \<open>
  C20: The index of a calculated channel: when the calculated channels do not require each other in a circle,
  that is, every one has a higher level than those it requires, the search ends within as many nested
  calls as its level, and an index it finds is that of a channel that is not calculated and on which the
  calculation rests.
\<close>

theorem resolveCalculatedIndex_ends:
  assumes "layered retrieve level" and "level ch < depth"
  shows "\<exists>res. resolveCalculatedIndex depth retrieve ch = Some res \<and>
    (\<forall>ix. res = Some ix \<longrightarrow> (\<exists>src. depends retrieve ch src \<and> \<not> isCalculated src \<and> ch_index src = ix))"
  using resolve_ends [OF assms] resolve_source [of depth retrieve ch] by blast

theorem resolveCalculatedIndex_ends_witness:
  "\<exists>res. resolveCalculatedIndex 2
     (\<lambda>k. if k = 1 then Some (sample_channel 1 ''a'') else None)
     ((sample_channel 2 ''b'')\<lparr>ch_virtual := True, ch_expression := ''a + 1'', ch_requires := [1]\<rparr>) = Some res"
proof -
  let ?r = "\<lambda>k. if k = 1 then Some (sample_channel 1 ''a'') else None"
  have "layered ?r (\<lambda>_. 1)" by (auto simp: layered_def isCalculated_def sample_channel_def split: if_splits)
  from resolveCalculatedIndex_ends [OF this, where depth = 2] show ?thesis by fastforce
qed

text \<open>A calculated channel that requires itself alone has no answer at any depth.\<close>

lemma resolve_circle_never_ends:
  assumes "isCalculated ch" "ch_requires ch = [k]" "retrieve k = Some ch"
  shows "resolveCalculatedIndex depth retrieve ch = None"
  using assms by (induction depth) (auto simp: isCalculated_def)

end
