(* ===== verification/Frame_Laws.thy ===== *)
theory Frame_Laws
  imports Frame Channel_Laws
begin

text \<open>
  What frames and adapters promise: a frame behaves as a map from channels to lists of series, and the
  adapters of a writer and of a reader that were opened on the same names undo each other.
\<close>

section \<open>Frames as maps\<close>

definition one_kind :: "chan_ref list \<Rightarrow> bool" where
  "one_kind cs \<longleftrightarrow> (\<exists>b. \<forall>c \<in> set cs. is_name c = b)"

definition frame_wf :: "frame \<Rightarrow> bool" where
  "frame_wf f \<longleftrightarrow> length (columns f) = length (fseries f) \<and> one_kind (columns f)"

lemma one_kind_Cons: "one_kind (c # cs) \<longleftrightarrow> (\<forall>d \<in> set cs. is_name d = is_name c)"
  by (auto simp: one_kind_def)

lemma one_kind_append: "one_kind (cs @ ds) \<Longrightarrow> one_kind cs \<and> one_kind ds"
  by (auto simp: one_kind_def)

lemma push_series_iff:
  "pushed (push_series k v f) = Inr g \<longleftrightarrow>
     (columns f = [] \<or> is_name (hd (columns f)) = is_name k) \<and>
     g = \<lparr>columns = columns f @ replicate (length v) k, fseries = fseries f @ v\<rparr>"
  by (cases "columns f") (auto simp: pushed_def push_series_def colType_def Let_def)

lemma push_series_wf: "frame_wf f \<Longrightarrow> pushed (push_series k v f) = Inr g \<Longrightarrow> frame_wf g"
  by (cases "columns f") (auto simp: push_series_iff frame_wf_def one_kind_Cons one_kind_def)

lemma push_frame_wf: "frame_wf f \<Longrightarrow> frame_wf g \<Longrightarrow> pushed (push_frame g f) = Inr h \<Longrightarrow> frame_wf h"
  by (cases "columns f"; cases "columns g")
    (auto simp: pushed_def push_frame_def colType_def frame_wf_def one_kind_Cons split: if_splits)

lemma series_of_append:
  "length cs = length ss \<Longrightarrow>
     series_of \<lparr>columns = cs @ ds, fseries = ss @ ts\<rparr> k =
       series_of \<lparr>columns = cs, fseries = ss\<rparr> k @ series_of \<lparr>columns = ds, fseries = ts\<rparr> k"
  by (simp add: series_of_def)

lemma series_of_replicate:
  "series_of \<lparr>columns = replicate (length v) k, fseries = v\<rparr> c = (if c = k \<and> c \<noteq> ChNaN then v else [])"
proof -
  have "map snd (filter P (zip (replicate (length v) k) v)) = (if Q then v else [])"
    if "\<And>s. P (k, s) = Q" for P and Q by (induction v) (auto simp: that)
  then show ?thesis unfolding series_of_def by force
qed

text \<open>Pushing columns of one kind one after the other.\<close>

lemma push_list:
  "one_kind (columns f @ map fst kss) \<Longrightarrow>
     fold_result (\<lambda>(k, s) g. pushed (push_series k [s] g)) kss f =
       Inr \<lparr>columns = columns f @ map fst kss, fseries = fseries f @ map snd kss\<rparr>"
proof (induction kss arbitrary: f)
  case (Cons ks kss)
  obtain k s where ks: "ks = (k, s)" by (cases ks)
  have "pushed (push_series k [s] f) = Inr \<lparr>columns = columns f @ [k], fseries = fseries f @ [s]\<rparr>"
    unfolding push_series_iff using Cons.prems ks by (cases "columns f") (auto simp: one_kind_Cons)
  then show ?case using Cons.IH Cons.prems ks by simp
qed simp

lemma newFrame_columns:
  assumes "length cols = length ss" "one_kind cols"
  shows "newFrame (OfColumns cols ss) = Inr \<lparr>columns = cols, fseries = ss\<rparr>"
proof -
  have "push_all (map (\<lambda>(k, s). (k, [s])) kss) f = fold_result (\<lambda>(k, s) g. pushed (push_series k [s] g)) kss f" for kss f
    unfolding push_all_def by (induction kss arbitrary: f) (auto simp: bind_result_def split: sum.splits)
  then show ?thesis using push_list [of empty_frame "zip cols ss"] assms
    by (simp add: validateMatchedColsAndSeries_def empty_frame_def)
qed

lemma frame_map_total:
  assumes "frame_wf f" and "\<And>k s i. k \<in> set (columns f) \<Longrightarrow> fn k s i = Inr (h k, s)" and "one_kind (map h (columns f))"
  shows "frame_map fn f = Inr \<lparr>columns = map h (columns f), fseries = fseries f\<rparr>"
proof -
  have "fold_result (\<lambda>(i, k, s) g. bind_result (fn k s i) (\<lambda>(k', s'). pushed (push_series k' [s'] g))) (enumerate n kss) g =
      fold_result (\<lambda>(k, s) g. pushed (push_series k [s] g)) (map (\<lambda>(k, s). (h k, s)) kss) g"
    if "set (map fst kss) \<subseteq> set (columns f)" for kss g n
    using that by (induction kss arbitrary: g n) (auto simp: assms(2) bind_result_def split: sum.splits)
  moreover have "set (map fst (zip (columns f) (fseries f))) \<subseteq> set (columns f)" by (auto dest: set_zip_leftD)
  ultimately have "frame_map fn f =
      fold_result (\<lambda>(k, s) g. pushed (push_series k [s] g)) (map (\<lambda>(k, s). (h k, s)) (zip (columns f) (fseries f))) empty_frame"
    unfolding frame_map_def by blast
  also have "map (\<lambda>(k, s). (h k, s)) (zip (columns f) (fseries f)) = zip (map h (columns f)) (fseries f)"
    by (simp add: zip_map1)
  finally show ?thesis
    using push_list [of empty_frame "zip (map h (columns f)) (fseries f)"] assms(1,3)
    by (simp add: frame_wf_def empty_frame_def)
qed

lemma frame_filter_total:
  assumes "frame_wf f"
  shows "frame_filter (\<lambda>k s i. P k) f =
    Inr \<lparr>columns = filter P (columns f),
         fseries = map snd (filter (\<lambda>(k, s). P k) (zip (columns f) (fseries f)))\<rparr>"
proof -
  have "fold_result (\<lambda>(i, k, s) g. if P k then pushed (push_series k [s] g) else return g) (enumerate n kss) g =
      fold_result (\<lambda>(k, s) g. pushed (push_series k [s] g)) (filter (\<lambda>(k, s). P k) kss) g" for kss g n
    by (induction kss arbitrary: g n) (auto simp: bind_result_def split: sum.splits)
  moreover have "map fst (filter (\<lambda>(k, s). P k) kss) = filter P (map fst kss)" for kss :: "(chan_ref \<times> series) list"
    by (induction kss) auto
  moreover have "one_kind (filter P (columns f))" using assms by (auto simp: frame_wf_def one_kind_def)
  ultimately show ?thesis
    using push_list [of empty_frame "filter (\<lambda>(k, s). P k) (zip (columns f) (fseries f))"] assms
    by (simp add: frame_filter_def frame_wf_def empty_frame_def)
qed

lemma zip_filter_parts:
  "zip (map fst (filter P kss)) (map snd (filter P kss)) = filter P kss"
  by (simp add: zip_map_fst_snd)

lemma frame_selection:
  assumes "frame_wf f"
  shows "\<exists>h. frame_get_all ks f = Inr h \<and> frame_wf h \<and> (\<forall>c. series_of h c = (if c \<in> set ks then series_of f c else []))"
proof -
  let ?kss = "filter (\<lambda>(k, s). k \<in> set ks) (zip (columns f) (fseries f))"
  have cols: "filter (\<lambda>k. k \<in> set ks) (columns f) = map fst ?kss"
  proof -
    have "map fst (filter (\<lambda>(k, s). k \<in> set ks) kss) = filter (\<lambda>k. k \<in> set ks) (map fst kss)" for kss :: "(chan_ref \<times> series) list"
      by (induction kss) auto
    then show ?thesis using assms by (simp add: frame_wf_def)
  qed
  have "frame_get_all ks f = Inr \<lparr>columns = map fst ?kss, fseries = map snd ?kss\<rparr>"
    unfolding frame_get_all_def using frame_filter_total [OF assms, of "\<lambda>k. k \<in> set ks"] by (simp add: cols)
  moreover have "frame_wf \<lparr>columns = map fst ?kss, fseries = map snd ?kss\<rparr>"
    using assms unfolding frame_wf_def one_kind_def by (auto dest: set_zip_leftD)
  moreover have "series_of \<lparr>columns = map fst ?kss, fseries = map snd ?kss\<rparr> c = (if c \<in> set ks then series_of f c else [])" for c
    unfolding series_of_def by (auto simp: zip_filter_parts filter_empty_conv intro!: arg_cong [of _ _ "map snd"] filter_cong)
  ultimately show ?thesis by blast
qed

text \<open>
  C18: A frame is a map from channels to lists of series: a push of series for a channel that succeeds
  appends them to what the channel has and leaves the other channels alone, a push of a frame that succeeds
  appends the series of every channel, the concatenation of two frames whose columns are all keys or all
  names does the same without changing the frame, and selecting channels keeps their series and nothing
  else. Starting from well-formed frames, where every series has a column, and all columns are keys or all
  are names, each of these results is well formed again. (A push that throws is not covered: it leaves a
  series without a column, frame.ts:315. A key that is NaN finds nothing.)
\<close>

theorem frame_is_a_map:
  assumes "frame_wf f" and "frame_wf g"
  shows "(pushed (push_series k v f) = Inr h \<longrightarrow>
           frame_wf h \<and> (\<forall>c. series_of h c = series_of f c @ (if c = k \<and> c \<noteq> ChNaN then v else []))) \<and>
         (pushed (push_frame g f) = Inr h \<longrightarrow> frame_wf h \<and> (\<forall>c. series_of h c = series_of f c @ series_of g c)) \<and>
         (one_kind (columns f @ columns g) \<longrightarrow>
           (\<exists>h. frame_concat g f = Inr h \<and> frame_wf h \<and> (\<forall>c. series_of h c = series_of f c @ series_of g c))) \<and>
         (\<exists>h. frame_get_all ks f = Inr h \<and> frame_wf h \<and> (\<forall>c. series_of h c = (if c \<in> set ks then series_of f c else [])))"
proof (intro conjI impI)
  have len: "length (columns f) = length (fseries f)" using assms(1) by (simp add: frame_wf_def)
  have split: "series_of \<lparr>columns = columns f @ cs, fseries = fseries f @ ss\<rparr> c =
      series_of f c @ series_of \<lparr>columns = cs, fseries = ss\<rparr> c" for cs ss c
    using series_of_append [OF len, of cs ss c] by (simp add: series_of_def)
  {
    assume push: "pushed (push_series k v f) = Inr h"
    then show "frame_wf h" by (rule push_series_wf [OF assms(1)])
    show "\<forall>c. series_of h c = series_of f c @ (if c = k \<and> c \<noteq> ChNaN then v else [])"
      using push by (simp add: push_series_iff split series_of_replicate)
  next
    assume push: "pushed (push_frame g f) = Inr h"
    then show "frame_wf h" by (rule push_frame_wf [OF assms])
    have "h = \<lparr>columns = columns f @ columns g, fseries = fseries f @ fseries g\<rparr>"
      using push by (auto simp: pushed_def push_frame_def split: if_splits)
    then show "\<forall>c. series_of h c = series_of f c @ series_of g c" by (simp add: split) (simp add: series_of_def)
  next
    assume kind: "one_kind (columns f @ columns g)"
    have "frame_concat g f = Inr \<lparr>columns = columns f @ columns g, fseries = fseries f @ fseries g\<rparr>"
      unfolding frame_concat_def by (rule newFrame_columns) (use kind assms in \<open>auto simp: frame_wf_def\<close>)
    then show "\<exists>h. frame_concat g f = Inr h \<and> frame_wf h \<and> (\<forall>c. series_of h c = series_of f c @ series_of g c)"
      using kind assms by (simp add: frame_wf_def split) (simp add: series_of_def)
  next
    show "\<exists>h. frame_get_all ks f = Inr h \<and> frame_wf h \<and> (\<forall>c. series_of h c = (if c \<in> set ks then series_of f c else []))"
      using frame_selection [OF assms(1)] by blast
  }
qed

definition sample_series :: "numeric list \<Rightarrow> series" where
  "sample_series xs = newSeries FLOAT32 xs None (Num 0) StaticUsage 0"

theorem frame_is_a_map_witness:
  "\<exists>h. pushed (push_series (ChKey 2) [sample_series [Num 1]]
           \<lparr>columns = [ChKey 1], fseries = [sample_series []]\<rparr>) = Inr h \<and>
       series_of h (ChKey 2) = [sample_series [Num 1]] \<and> series_of h (ChKey 1) = [sample_series []]"
proof -
  let ?f = "\<lparr>columns = [ChKey 1], fseries = [sample_series []]\<rparr>"
  let ?h = "\<lparr>columns = [ChKey 1, ChKey 2], fseries = [sample_series [], sample_series [Num 1]]\<rparr>"
  have wf: "frame_wf ?f" by (simp add: frame_wf_def one_kind_Cons)
  have run: "pushed (push_series (ChKey 2) [sample_series [Num 1]] ?f) = Inr ?h"
    by (simp add: pushed_def push_series_def colType_def)
  have "series_of ?h c = series_of ?f c @ (if c = ChKey 2 \<and> c \<noteq> ChNaN then [sample_series [Num 1]] else [])" for c
    using frame_is_a_map [OF wf wf, of "ChKey 2" "[sample_series [Num 1]]" ?h "[]"] run by blast
  from this [of "ChKey 2"] this [of "ChKey 1"] run show ?thesis by (intro exI [of _ ?h]) (simp add: series_of_def)
qed

text \<open>A push with the wrong kind of key throws after the series was added: the frame then has a series without a column.\<close>

lemma failed_push_keeps_series:
  "let (f, e) = push_series (ChName ''a'') [sample_series [Num 1]] \<lparr>columns = [ChKey 1], fseries = [sample_series []]\<rparr>
   in e \<noteq> None \<and> length (fseries f) = 2 \<and> length (columns f) = 1"
  by (simp add: push_series_def colType_def)

text \<open>An empty frame cannot be pushed onto a frame that has columns.\<close>

lemma empty_frame_not_pushed: "columns f \<noteq> [] \<Longrightarrow> push_frame empty_frame f = (f, Some ''keyVariant must match'')"
  by (cases "columns f") (simp_all add: push_frame_def colType_def empty_frame_def)

section \<open>Adapters\<close>

lemma writer_names:
  assumes "inj_on ch_name (set chs)" "ch \<in> set chs"
  shows "rec_get (foldl (\<lambda>m ch. rec_set (ch_name ch) (ch_key ch) m) r chs) (ch_name ch) = Some (ch_key ch)"
  using assms
proof (induction chs rule: rev_induct)
  case (snoc x chs)
  show ?case
  proof (cases "ch_name x = ch_name ch")
    case True
    then have "x = ch" using snoc.prems by (auto simp: inj_on_def)
    then show ?thesis by simp
  next
    case False
    then show ?thesis using snoc by (auto simp: inj_on_def)
  qed
qed simp

definition from_channels :: "channel list \<Rightarrow> (int, string) rec \<Rightarrow> bool" where
  "from_channels chs a \<longleftrightarrow> (\<forall>k n. rec_get a k = Some n \<longrightarrow> (\<exists>ch \<in> set chs. ch_key ch = k \<and> ch_name ch = n))"

lemma reader_names:
  assumes "inj_on ch_key (set chs)" "from_channels chs a" "fold_result (add_name chs) refs a = Inr a'"
  shows "(\<forall>k n. rec_get a k = Some n \<longrightarrow> rec_get a' k = Some n) \<and>
    (\<forall>n. ChName n \<in> set refs \<longrightarrow> (\<exists>ch \<in> set chs. ch_name ch = n \<and> rec_get a' (ch_key ch) = Some n))"
  using assms
proof (induction refs arbitrary: a)
  case (Cons r refs)
  from Cons.prems(3) obtain a1 where a1: "add_name chs r a = Inr a1" "fold_result (add_name chs) refs a1 = Inr a'"
    by (auto simp: bind_result_eq_Inr)
  then obtain ch where ch: "find (\<lambda>ch. r = ChName (ch_name ch)) chs = Some ch" "a1 = rec_set (ch_key ch) (ch_name ch) a"
    by (auto simp: add_name_def split: option.splits)
  then have mem: "ch \<in> set chs" "r = ChName (ch_name ch)" by (auto simp: find_Some_iff)
  then have "from_channels chs a1" using Cons.prems(2) ch(2) by (auto simp: from_channels_def)
  note IH = Cons.IH [OF Cons.prems(1) this a1(2)]
  have same: "rec_get a1 k = Some n" if "rec_get a k = Some n" for k n
    using that Cons.prems(1,2) ch(2) mem(1) by (fastforce simp: from_channels_def inj_on_def)
  have "rec_get a1 (ch_key ch) = Some (ch_name ch)" using ch(2) by simp
  with IH same mem show ?case by auto
qed simp

lemma all_results_map: "(\<And>x. x \<in> set xs \<Longrightarrow> g x = Inr (h x)) \<Longrightarrow> all_results (map g xs) = Inr (map h xs)"
  by (induction xs) auto

lemma names_params:
  assumes "ns \<noteq> []" "parseInt (hd ns) = None"
  shows "normalized (analyzeParams (Many (map ChName ns))) = map ChName ns"
    and "avariant (analyzeParams (Many (map ChName ns))) = NamesVariant"
  using assms by (cases ns; simp add: analyzeParams_def Let_def)+

lemma one_kind_map: "(\<And>c. c \<in> set cs \<Longrightarrow> is_name (f c) = b) \<Longrightarrow> one_kind (map f cs)"
  by (auto simp: one_kind_def)

text \<open>The names of a frame, translated by a writer and back by a reader, when both know the same channels.\<close>

lemma adapt_and_back:
  assumes wf: "frame_wf f" and cols: "set (columns f) \<subseteq> ChName ` set ns"
    and w: "\<And>n. n \<in> set ns \<Longrightarrow> rec_get (wa_adapter wa) n = Some (key n)"
    and r: "\<And>n. n \<in> set ns \<Longrightarrow> rec_get a (key n) = Some n" and ra: "ra_adapter ra = Some a"
  shows "\<exists>g. write_adapt fetch print wa (WholeFrame (OfFrame f)) = Inr g \<and> frame_wf g \<and>
    list_all (\<lambda>c. \<not> is_name c) (columns g) \<and> fseries g = fseries f \<and> read_adapt ra g = Inr f"
proof -
  define to_key where "to_key c = (case c of ChName n \<Rightarrow> ChKey (key n) | _ \<Rightarrow> c)" for c
  define to_name where "to_name c = (case c of ChKey k \<Rightarrow> ChName (the (rec_get a k)) | _ \<Rightarrow> c)" for c
  let ?g = "\<lparr>columns = map to_key (columns f), fseries = fseries f\<rparr>"
  have name: "\<exists>n \<in> set ns. c = ChName n" if "c \<in> set (columns f)" for c using that cols by auto
  have len: "length (columns f) = length (fseries f)" using wf by (simp add: frame_wf_def)
  have keys: "all_results (map (adapt_column wa) (columns f)) = Inr (map to_key (columns f))"
    by (rule all_results_map) (auto dest!: name simp: adapt_column_def to_key_def w)
  have kind: "one_kind (map to_key (columns f))"
    by (rule one_kind_map [where b = False]) (auto dest!: name simp: to_key_def)
  have "write_adapt fetch print wa (WholeFrame (OfFrame f)) = Inr ?g"
    using newFrame_columns [of "map to_key (columns f)" "fseries f"] keys kind len by simp
  moreover have wf_g: "frame_wf ?g" using kind len by (simp add: frame_wf_def)
  moreover have key_cols: "list_all (\<lambda>c. \<not> is_name c) (columns ?g)" by (auto simp: list_all_iff to_key_def dest!: name)
  have again: "to_name (to_key c) = c" if "c \<in> set (columns f)" for c
    using name [OF that] r by (auto simp: to_name_def to_key_def)
  have "read_adapt ra ?g = Inr \<lparr>columns = map to_name (columns ?g), fseries = fseries ?g\<rparr>"
    unfolding read_adapt_def ra option.case
  proof (rule frame_map_total [OF wf_g])
    fix k s i assume "k \<in> set (columns ?g)"
    then obtain n where "n \<in> set ns" "k = ChKey (key n)" by (auto dest!: name simp: to_key_def)
    then show "(case k of ChKey n \<Rightarrow> (case rec_get a n of None \<Rightarrow> throw ''Channel not found'' | Some name \<Rightarrow> return (ChName name, s))
        | ChName n \<Rightarrow> return (k, s) | ChNaN \<Rightarrow> throw ''Channel not found'') = Inr (to_name k, s)"
      using r by (simp add: to_name_def)
  next
    show "one_kind (map to_name (columns ?g))" using wf again by (simp add: frame_wf_def cong: map_cong)
  qed
  moreover have "map to_name (columns ?g) = columns f" using again by (simp add: map_idI)
  ultimately show ?thesis using key_cols by (intro exI [of _ ?g]) simp
qed

text \<open>
  The adapters of a writer and of a reader undo each other: when both are opened on the same names, each of
  them the name of one channel of the cluster, a frame with some of these names as columns is translated
  to a frame with the keys of the channels and the same series, and that frame is translated back to the
  first one.
\<close>

theorem adapters_roundtrip:
  assumes db: "inj_on ch_key (set db)" "inj_on ch_name (set db)" and fetch: "honest db fetch"
    and ns: "ns \<noteq> []" "parseInt (hd ns) = None"
    and ra: "read_update fetch (Many (map ChName ns)) = Inr ra"
    and wa: "write_update (\<lambda>p. fetch (normalized (analyzeParams p))) (Many (map ChName ns)) = Inr wa"
    and f: "frame_wf f" "set (columns f) \<subseteq> ChName ` set ns"
  shows "\<exists>g. write_adapt (\<lambda>p. fetch (normalized (analyzeParams p))) print wa (WholeFrame (OfFrame f)) = Inr g \<and> frame_wf g \<and>
    list_all (\<lambda>c. \<not> is_name c) (columns g) \<and> fseries g = fseries f \<and> read_adapt ra g = Inr f"
proof -
  note params = names_params [OF ns]
  from ra obtain chs a where chs: "fetch (map ChName ns) = Inr chs" "fold_result (add_name chs) (map ChName ns) [] = Inr a"
    "ra_adapter ra = Some a" by (auto simp: read_update_def Let_def params bind_result_eq_Inr)
  then have mem: "set chs \<subseteq> set db" using fetch by (auto simp: honest_def)
  from wa chs(1) have adapter: "wa_adapter wa = foldl (\<lambda>m ch. rec_set (ch_name ch) (ch_key ch) m) [] chs"
    by (auto simp: write_update_def retrieveRequired_def Let_def params bind_result_eq_Inr split: if_splits)
  have inj: "inj_on ch_key (set chs)" "inj_on ch_name (set chs)" using db mem by (auto intro: inj_on_subset)
  from reader_names [OF inj(1) _ chs(2)] have "\<forall>n \<in> set ns. \<exists>ch \<in> set chs. ch_name ch = n \<and> rec_get a (ch_key ch) = Some n"
    by (auto simp: from_channels_def)
  then obtain chan where chan: "\<And>n. n \<in> set ns \<Longrightarrow> chan n \<in> set chs \<and> ch_name (chan n) = n \<and> rec_get a (ch_key (chan n)) = Some n"
    by metis
  show ?thesis
  proof (rule adapt_and_back [OF f, where key = "ch_key \<circ> chan" and a = a])
    fix n assume n: "n \<in> set ns"
    show "rec_get (wa_adapter wa) n = Some ((ch_key \<circ> chan) n)"
      using writer_names [OF inj(2), of "chan n" "[]"] chan [OF n] adapter by simp
    show "rec_get a ((ch_key \<circ> chan) n) = Some n" using chan [OF n] by simp
  qed (rule chs(3))
qed

theorem adapters_roundtrip_witness:
  "\<exists>ra wa g.
     read_update (sample_fetch [sample_channel 1 ''a'', sample_channel 2 ''b'']) (Many [ChName ''b'', ChName ''a'']) = Inr ra \<and>
     write_update (\<lambda>p. sample_fetch [sample_channel 1 ''a'', sample_channel 2 ''b''] (normalized (analyzeParams p)))
       (Many [ChName ''b'', ChName ''a'']) = Inr wa \<and>
     read_adapt ra g = Inr \<lparr>columns = [ChName ''a''], fseries = [sample_series []]\<rparr> \<and> fseries g = [sample_series []]"
proof -
  let ?db = "[sample_channel 1 ''a'', sample_channel 2 ''b'']"
  let ?f = "\<lparr>columns = [ChName ''a''], fseries = [sample_series []]\<rparr>"
  let ?ra = "\<lparr>ra_adapter = Some [(2, ''b''), (1, ''a'')], ra_keys = [ChKey 2, ChKey 1]\<rparr>"
  let ?wa = "\<lparr>wa_adapter = [(''a'', 1), (''b'', 2)], wa_keys = [1, 2]\<rparr>"
  have ra: "read_update (sample_fetch ?db) (Many (map ChName [''b'', ''a''])) = Inr ?ra" by code_simp
  have wa: "write_update (\<lambda>p. sample_fetch ?db (normalized (analyzeParams p))) (Many (map ChName [''b'', ''a''])) = Inr ?wa"
    by code_simp
  have "inj_on ch_key (set ?db)" "inj_on ch_name (set ?db)" by (simp_all add: sample_channel_def)
  moreover have "parseInt (hd [''b'', ''a'']) = None" by code_simp
  moreover have "frame_wf ?f" by (simp add: frame_wf_def one_kind_Cons)
  ultimately show ?thesis
    using adapters_roundtrip [OF _ _ honest_sample _ _ ra wa, of ?f "\<lambda>_. []"] ra wa by fastforce
qed

end
