(* ===== verification/Aether.thy ===== *)
theory Aether
  imports Reducer
begin

text \<open>
  The aether tree (\<open>pluto/src/aether/aether/aether.ts\<close>): the components that a worker keeps for the
  components of the user interface.  Leaves and composites are values of one type; a composite holds its
  children in the order in which they were created.

  What a class of components adds is an argument: the parser of its state, the hook that runs after an
  update and the one that runs after a deletion.  The hook after an update answers with the context
  values it sets, each with the flag that tells whether the children are to be notified, and with the
  error it throws after that, if any.  An operation returns the component as it is when the operation
  ends or throws, the keys of the components whose hooks ran, and the error.
\<close>

section \<open>Components\<close>

record ('s, 'v) comp =
  ctype :: string
  ckey :: string
  cstate :: "'s option"
  cprev :: "'s option"
  cdeleted :: bool
  parentCtx :: "(string, 'v) rec"
  childCtx :: "(string, 'v) rec"
  changedKeys :: "string list"

datatype ('s, 'v) component =
    Leaf "('s, 'v) comp"
  | Composite "('s, 'v) comp" "(string \<times> ('s, 'v) component) list"

record ('r, 's, 'v) env =
  parse_state :: "string \<Rightarrow> 'r \<Rightarrow> 's result"
  afterUpdate :: "('s, 'v) comp \<Rightarrow> (string \<times> 'v \<times> bool) list \<times> string option"
  afterDelete :: "('s, 'v) comp \<Rightarrow> string option"
  registry :: "string \<Rightarrow> bool option"
  empty_state :: 's

fun info :: "('s, 'v) component \<Rightarrow> ('s, 'v) comp" where
  "info (Leaf i) = i"
| "info (Composite i _) = i"

fun children :: "('s, 'v) component \<Rightarrow> (string \<times> ('s, 'v) component) list" where
  "children (Leaf _) = []"
| "children (Composite _ cs) = cs"

definition set_ctx :: "(string, 'v) rec \<Rightarrow> (string, 'v) rec \<Rightarrow> (string, 'v) rec" where
  "set_ctx values ctx = foldl (\<lambda>m (k, v). rec_set k v m) ctx values"

definition new_comp :: "string \<Rightarrow> string \<Rightarrow> (string, 'v) rec \<Rightarrow> ('s, 'v) comp" where
  "new_comp type0 key parentCtxValues =
     \<lparr>ctype = type0, ckey = key, cstate = None, cprev = None, cdeleted = False,
      parentCtx = set_ctx parentCtxValues [], childCtx = [], changedKeys = []\<rparr>"

subsection \<open>Leaves\<close>

text \<open>\<open>ctx.set\<close> for every value that the hook sets.\<close>

definition ctx_set :: "('s, 'v) comp \<Rightarrow> string \<times> 'v \<times> bool \<Rightarrow> ('s, 'v) comp" where
  "ctx_set i e =
     (case e of (key, value, trigger) \<Rightarrow>
        i\<lparr>childCtx := rec_set key value (childCtx i),
          changedKeys := (if trigger \<and> key \<notin> set (changedKeys i) then changedKeys i @ [key] else changedKeys i)\<rparr>)"

definition run_afterUpdate :: "('r, 's, 'v) env \<Rightarrow> ('s, 'v) comp \<Rightarrow> ('s, 'v) comp \<times> string option" where
  "run_afterUpdate E i = (let (sets, e) = afterUpdate E i in (foldl ctx_set i sets, e))"

definition validatePath :: "string list \<Rightarrow> ('s, 'v) comp \<Rightarrow> string option" where
  "validatePath path i =
     (if path = [] then Some ''received an empty path''
      else if length path > 1 then Some ''received a subPath but is a leaf''
      else if last path \<noteq> ckey i then Some ''received an unexpected key''
      else None)"

definition leaf_updateState ::
  "('r, 's, 'v) env \<Rightarrow> string list \<Rightarrow> 'r \<Rightarrow> ('s, 'v) comp \<Rightarrow> ('s, 'v) comp \<times> string list \<times> string option" where
  "leaf_updateState E path raw i =
     (if cdeleted i then (i, [], None)
      else case validatePath path i of
             Some e \<Rightarrow> (i, [], Some e)
           | None \<Rightarrow>
               (case parse_state E (ctype i) raw of
                  Inl e \<Rightarrow> (i, [], Some e)
                | Inr s \<Rightarrow>
                    let i1 = i\<lparr>cprev := Some (case cstate i of None \<Rightarrow> s | Some old \<Rightarrow> old), cstate := Some s\<rparr>;
                        (i2, e) = run_afterUpdate E i1
                    in (i2, [ckey i], e)))"

definition leaf_updateContext ::
  "('r, 's, 'v) env \<Rightarrow> (string, 'v) rec \<Rightarrow> ('s, 'v) comp \<Rightarrow> ('s, 'v) comp \<times> string list \<times> string option" where
  "leaf_updateContext E values i =
     (let i1 = i\<lparr>parentCtx := set_ctx values (parentCtx i)\<rparr>; (i2, e) = run_afterUpdate E i1
      in (i2, [ckey i], e))"

definition leaf_delete ::
  "('r, 's, 'v) env \<Rightarrow> string list \<Rightarrow> ('s, 'v) comp \<Rightarrow> ('s, 'v) comp \<times> string list \<times> string option" where
  "leaf_delete E path i =
     (case validatePath path i of
        Some e \<Rightarrow> (i, [], Some e)
      | None \<Rightarrow> let i1 = i\<lparr>cdeleted := True\<rparr> in (i1, [ckey i], afterDelete E i1))"

text \<open>\<open>setState\<close>, which a component calls on itself: the message for the main thread is the state before parsing.\<close>

definition setState ::
  "('r, 's, 'v) env \<Rightarrow> ('s option \<Rightarrow> 'r) \<Rightarrow> ('s, 'v) comp \<Rightarrow> ('s, 'v) comp \<times> (string \<times> 'r) option \<times> string option" where
  "setState E next0 i =
     (let nextState = next0 (cstate i);
          i1 = i\<lparr>cprev := Some (case cstate i of None \<Rightarrow> empty_state E | Some s \<Rightarrow> s)\<rparr>
      in case parse_state E (ctype i) nextState of
           Inl e \<Rightarrow> (i1, None, Some e)
         | Inr s \<Rightarrow> (i1\<lparr>cstate := Some s\<rparr>, Some (ckey i, nextState), None))"

subsection \<open>Composites\<close>

text \<open>The context that children see: what the component sets, over what its parent gives it.\<close>

definition childCtxOf :: "('s, 'v) comp \<Rightarrow> (string, 'v) rec" where
  "childCtxOf i = childCtx i @ filter (\<lambda>(k, _). \<not> rec_has (childCtx i) k) (parentCtx i)"

definition getChild :: "('s, 'v) component \<Rightarrow> string \<Rightarrow> ('s, 'v) component option" where
  "getChild c key = rec_get (children c) key"

definition childrenOfType :: "('s, 'v) component \<Rightarrow> string list \<Rightarrow> ('s, 'v) component list" where
  "childrenOfType c types = filter (\<lambda>d. ctype (info d) \<in> set types) (map snd (children c))"

text \<open>The children get the new context one after the other, up to the first that throws.\<close>

fun updateContext ::
  "('r, 's, 'v) env \<Rightarrow> (string, 'v) rec \<Rightarrow> ('s, 'v) component \<Rightarrow> ('s, 'v) component \<times> string list \<times> string option"
and updateContexts ::
  "('r, 's, 'v) env \<Rightarrow> (string, 'v) rec \<Rightarrow> (string \<times> ('s, 'v) component) list \<Rightarrow>
   (string \<times> ('s, 'v) component) list \<times> string list \<times> string option" where
  "updateContext E values (Leaf i) = (let (i', l, e) = leaf_updateContext E values i in (Leaf i', l, e))"
| "updateContext E values (Composite i cs) =
     (let (i', l, e) = leaf_updateContext E values i
      in case e of
           Some _ \<Rightarrow> (Composite i' cs, l, e)
         | None \<Rightarrow> let (cs', l', e') = updateContexts E (childCtxOf i') cs in (Composite i' cs', l @ l', e'))"
| "updateContexts E values [] = ([], [], None)"
| "updateContexts E values ((k, c) # cs) =
     (let (c', l, e) = updateContext E values c
      in case e of
           Some _ \<Rightarrow> ((k, c') # cs, l, e)
         | None \<Rightarrow> let (cs', l', e') = updateContexts E values cs in ((k, c') # cs', l @ l', e'))"

definition parsePath :: "string list \<Rightarrow> ('s, 'v) comp \<Rightarrow> string list result" where
  "parsePath path i =
     (case path of
        [] \<Rightarrow> throw ''received an empty path''
      | key # subPath \<Rightarrow> if key \<noteq> ckey i then throw ''received an unexpected key'' else return subPath)"

definition self_update ::
  "('r, 's, 'v) env \<Rightarrow> string list \<Rightarrow> 'r \<Rightarrow> ('s, 'v) comp \<Rightarrow> (string \<times> ('s, 'v) component) list \<Rightarrow>
   ('s, 'v) component \<times> string list \<times> string option" where
  "self_update E path raw i cs =
     (let (i', l, e) = leaf_updateState E path raw (i\<lparr>changedKeys := []\<rparr>)
      in if e \<noteq> None \<or> changedKeys i' = [] then (Composite i' cs, l, e)
         else let (cs', l', e') = updateContexts E (childCtxOf i') cs in (Composite i' cs', l @ l', e'))"

function updateState ::
  "('r, 's, 'v) env \<Rightarrow> string list \<Rightarrow> 'r \<Rightarrow> ((string, 'v) rec \<Rightarrow> ('s, 'v) component result) \<Rightarrow> ('s, 'v) component \<Rightarrow>
   ('s, 'v) component \<times> string list \<times> string option" where
  "updateState E path raw create (Leaf i) = (let (i', l, e) = leaf_updateState E path raw i in (Leaf i', l, e))"
| "updateState E path raw create (Composite i cs) =
     (if cdeleted i then (Composite i cs, [], None)
      else case parsePath path i of
             Inl e \<Rightarrow> (Composite i cs, [], Some e)
           | Inr [] \<Rightarrow> self_update E path raw i cs
           | Inr (childKey # rest) \<Rightarrow>
               (case rec_get cs childKey of
                  Some child \<Rightarrow>
                    (case updateState E (tl path) raw create child of
                       (child', l, e) \<Rightarrow> (Composite i (rec_set childKey child' cs), l, e))
                | None \<Rightarrow>
                    if rest \<noteq> [] then (Composite i cs, [], Some ''found no child with the key'')
                    else (case create (childCtxOf i) of
                            Inl e \<Rightarrow> (Composite i cs, [], Some e)
                          | Inr newChild \<Rightarrow>
                              (case updateState E (tl path) raw create newChild of
                                 (child', l, e) \<Rightarrow>
                                   (Composite i (if e = None then rec_set childKey child' cs else cs), l, e)))))"
  by pat_completeness auto
termination
  by (relation "measure (\<lambda>(E, path, raw, create, c). length path)") (auto simp: parsePath_def split: list.splits if_splits)

declare updateState.simps [simp del]

text \<open>A composite deletes its children before itself; they are gone only when all of them were deleted.\<close>

fun delete_self :: "('r, 's, 'v) env \<Rightarrow> ('s, 'v) component \<Rightarrow> ('s, 'v) component \<times> string list \<times> string option"
and delete_children ::
  "('r, 's, 'v) env \<Rightarrow> (string \<times> ('s, 'v) component) list \<Rightarrow>
   (string \<times> ('s, 'v) component) list \<times> string list \<times> string option" where
  "delete_self E (Leaf i) = (let (i', l, e) = leaf_delete E [ckey i] i in (Leaf i', l, e))"
| "delete_self E (Composite i cs) =
     (let (cs', l, e) = delete_children E cs
      in case e of
           Some _ \<Rightarrow> (Composite i cs', l, e)
         | None \<Rightarrow> let (i', l', e') = leaf_delete E [ckey i] i in (Composite i' [], l @ l', e'))"
| "delete_children E [] = ([], [], None)"
| "delete_children E ((k, c) # cs) =
     (let (c', l, e) = delete_self E c
      in case e of
           Some _ \<Rightarrow> ((k, c') # cs, l, e)
         | None \<Rightarrow> let (cs', l', e') = delete_children E cs in ((k, c') # cs', l @ l', e'))"

function delete_at ::
  "('r, 's, 'v) env \<Rightarrow> string list \<Rightarrow> ('s, 'v) component \<Rightarrow> ('s, 'v) component \<times> string list \<times> string option" where
  "delete_at E path (Leaf i) = (let (i', l, e) = leaf_delete E path i in (Leaf i', l, e))"
| "delete_at E path (Composite i cs) =
     (case parsePath path i of
        Inl e \<Rightarrow> (Composite i cs, [], Some e)
      | Inr [] \<Rightarrow> delete_self E (Composite i cs)
      | Inr (childKey # rest) \<Rightarrow>
          (case rec_get cs childKey of
             None \<Rightarrow> (Composite i cs, [], None)
           | Some child \<Rightarrow>
               (case delete_at E (tl path) child of
                  (child', l, e) \<Rightarrow>
                    (Composite i (if rest \<noteq> [] then rec_set childKey child' cs else rec_delete (ckey (info child)) cs), l, e))))"
  by pat_completeness auto
termination
  by (relation "measure (\<lambda>(E, path, c). length path)") (auto simp: parsePath_def split: list.splits if_splits)

declare delete_at.simps [simp del]

section \<open>The root\<close>

datatype 'r main_message = MainUpdate "string list" string 'r | MainDelete "string list" string

definition create_component ::
  "('r, 's, 'v) env \<Rightarrow> string \<Rightarrow> string \<Rightarrow> (string, 'v) rec \<Rightarrow> ('s, 'v) component result" where
  "create_component E key type0 parentCtxValues =
     (case registry E type0 of
        None \<Rightarrow> throw ''type not found in registry''
      | Some composite \<Rightarrow>
          return (if composite then Composite (new_comp type0 key parentCtxValues) []
                  else Leaf (new_comp type0 key parentCtxValues)))"

definition new_root :: "('s, 'v) component" where
  "new_root = Composite (new_comp ''root'' ''root'' []) []"

text \<open>\<open>render\<close>; \<open>raw\<close> is the empty state \<open>{}\<close>.\<close>

definition render :: "('r, 's, 'v) env \<Rightarrow> 'r \<Rightarrow> ('s, 'v) component result" where
  "render E raw =
     (case updateState E [''root''] raw (\<lambda>_. throw ''should not call create'') new_root of
        (c, l, None) \<Rightarrow> return c
      | (c, l, Some e) \<Rightarrow> throw e)"

fun handle_message ::
  "('r, 's, 'v) env \<Rightarrow> 'r main_message \<Rightarrow> ('s, 'v) component \<Rightarrow> ('s, 'v) component \<times> string list \<times> string option" where
  "handle_message E (MainUpdate path type0 raw) c = updateState E path raw (create_component E (last path) type0) c"
| "handle_message E (MainDelete path type0) c = delete_at E path c"

end
