(* ===== verification/Aether_Laws.thy ===== *)
theory Aether_Laws
  imports Aether
begin

text \<open>
  The invariant of the aether tree, which every message keeps, and what it gives: every component sees the
  context of its nearest ancestor that set a value.
\<close>

section \<open>Components in the tree\<close>

fun comp_at :: "string list \<Rightarrow> ('s, 'v) component \<Rightarrow> ('s, 'v) component option" where
  "comp_at [] c = None"
| "comp_at [k] c = (if k = ckey (info c) then Some c else None)"
| "comp_at (k # k' # path) c =
     (if k = ckey (info c) then Option.bind (rec_get (children c) k') (comp_at (k' # path)) else None)"

text \<open>The components on the way to a component, from the root.\<close>

fun chain :: "string list \<Rightarrow> ('s, 'v) component \<Rightarrow> ('s, 'v) comp list option" where
  "chain [] c = None"
| "chain [k] c = (if k = ckey (info c) then Some [info c] else None)"
| "chain (k # k' # path) c =
     (if k = ckey (info c)
      then Option.bind (rec_get (children c) k') (\<lambda>d. map_option (Cons (info c)) (chain (k' # path) d)) else None)"

definition comp_ok :: "('s, 'v) comp \<Rightarrow> bool" where
  "comp_ok i \<longleftrightarrow> rec_wf (parentCtx i) \<and> rec_wf (childCtx i)"

definition sees :: "('s, 'v) comp \<Rightarrow> ('s, 'v) comp \<Rightarrow> bool" where
  "sees i p \<longleftrightarrow> (\<forall>k. rec_get (parentCtx i) k = rec_get (childCtxOf p) k)"

fun tree_ok :: "('s, 'v) component \<Rightarrow> bool" where
  "tree_ok (Leaf i) = comp_ok i"
| "tree_ok (Composite i cs) =
     (comp_ok i \<and> rec_wf cs \<and>
      (\<forall>(k, c) \<in> set cs. ckey (info c) = k \<and> \<not> cdeleted (info c) \<and> sees (info c) i \<and> tree_ok c))"

lemma tree_ok_info: "tree_ok c \<Longrightarrow> comp_ok (info c)"
  by (cases c) auto

lemma tree_ok_child: "tree_ok c \<Longrightarrow> rec_get (children c) k = Some d \<Longrightarrow>
    ckey (info d) = k \<and> \<not> cdeleted (info d) \<and> sees (info d) (info c) \<and> tree_ok d"
  by (cases c) (auto dest!: rec_get_in_set)

subsection \<open>Contexts\<close>

lemma rec_get_append: "rec_get (a @ b) k = (case rec_get a k of None \<Rightarrow> rec_get b k | Some v \<Rightarrow> Some v)"
  by (induction a) auto

lemma rec_has_keys: "rec_has r k \<longleftrightarrow> k \<in> set (rec_keys r)"
  unfolding rec_has_def by (rule rec_get_keys)

lemma rec_get_filter_has: "rec_get (filter (\<lambda>(k, _). \<not> rec_has r k) s) k = (if rec_has r k then None else rec_get s k)"
  by (induction s) (auto split: if_splits)

lemma rec_wf_append_filter: "rec_wf r \<Longrightarrow> rec_wf s \<Longrightarrow> rec_wf (r @ filter (\<lambda>(k, _). \<not> rec_has r k) s)"
proof -
  have "map fst (filter (\<lambda>(k, _). k \<notin> K) s) = filter (\<lambda>k. k \<notin> K) (map fst s)" for K
    by (induction s) auto
  then show "rec_wf r \<Longrightarrow> rec_wf s \<Longrightarrow> ?thesis" unfolding rec_has_keys rec_wf_def rec_keys_def by auto
qed

lemma rec_get_childCtxOf:
  "rec_get (childCtxOf i) k = (case rec_get (childCtx i) k of None \<Rightarrow> rec_get (parentCtx i) k | Some v \<Rightarrow> Some v)"
  unfolding childCtxOf_def rec_get_append rec_get_filter_has by (auto simp: rec_has_def split: option.splits)

lemma rec_wf_childCtxOf: "comp_ok i \<Longrightarrow> rec_wf (childCtxOf i)"
  by (simp add: comp_ok_def childCtxOf_def rec_wf_append_filter)

lemma rec_get_set_ctx:
  "rec_wf vals \<Longrightarrow> rec_get (set_ctx vals ctx) k = (case rec_get vals k of None \<Rightarrow> rec_get ctx k | Some v \<Rightarrow> Some v)"
proof (induction vals arbitrary: ctx)
  case (Cons kv vals)
  obtain k' v where kv: "kv = (k', v)" by (cases kv)
  then have "rec_get vals k' = None" "rec_wf vals"
    using Cons.prems rec_get_keys [of vals k'] by (auto simp: rec_wf_def rec_keys_def)
  then show ?case using Cons.IH [of "rec_set k' v ctx"] kv by (auto simp: set_ctx_def split: option.splits)
qed (simp add: set_ctx_def)

lemma rec_wf_set_ctx: "rec_wf ctx \<Longrightarrow> rec_wf (set_ctx vals ctx)"
  unfolding set_ctx_def by (induction vals arbitrary: ctx) auto

text \<open>Hooks that do not throw and notify the children of every value they set.\<close>

definition tame :: "('r, 's, 'v) env \<Rightarrow> bool" where
  "tame E \<longleftrightarrow>
     (\<forall>i. snd (afterUpdate E i) = None \<and> list_all (\<lambda>(k, v, trigger). trigger) (fst (afterUpdate E i)) \<and> afterDelete E i = None)"

definition same_comp :: "('s, 'v) comp \<Rightarrow> ('s, 'v) comp \<Rightarrow> bool" where
  "same_comp i j \<longleftrightarrow> ctype i = ctype j \<and> ckey i = ckey j \<and> cstate i = cstate j \<and> cprev i = cprev j \<and> cdeleted i = cdeleted j"

lemma ctx_sets:
  assumes "comp_ok i"
  shows "comp_ok (foldl ctx_set i sets) \<and> same_comp (foldl ctx_set i sets) i \<and> parentCtx (foldl ctx_set i sets) = parentCtx i \<and>
    (\<forall>k. rec_get (childCtx i) k \<noteq> None \<longrightarrow> rec_get (childCtx (foldl ctx_set i sets)) k \<noteq> None) \<and>
    (set (changedKeys i) \<subseteq> set (changedKeys (foldl ctx_set i sets))) \<and>
    (list_all (\<lambda>(k, v, trigger). trigger) sets \<longrightarrow> changedKeys (foldl ctx_set i sets) = [] \<longrightarrow> childCtx (foldl ctx_set i sets) = childCtx i)"
  using assms
proof (induction sets arbitrary: i)
  case (Cons e sets)
  obtain k v t where e: "e = (k, v, t)" by (cases e)
  have "comp_ok (ctx_set i e)" using Cons.prems e by (simp add: comp_ok_def ctx_set_def)
  note IH = Cons.IH [OF this]
  have "changedKeys (ctx_set i e) \<noteq> []" if t using that e by (auto simp: ctx_set_def)
  with IH e show ?case by (auto simp: same_comp_def ctx_set_def)
qed (simp add: same_comp_def)

definition grows :: "('s, 'v) comp \<Rightarrow> ('s, 'v) comp \<Rightarrow> bool" where
  "grows i i' \<longleftrightarrow> (\<forall>k. rec_get (childCtxOf i) k \<noteq> None \<longrightarrow> rec_get (childCtxOf i') k \<noteq> None)"

lemma growsI:
  assumes "\<And>k. rec_get (childCtx i) k \<noteq> None \<Longrightarrow> rec_get (childCtx i') k \<noteq> None"
    and "\<And>k. rec_get (parentCtx i) k \<noteq> None \<Longrightarrow> rec_get (parentCtx i') k \<noteq> None"
  shows "grows i i'"
  unfolding grows_def rec_get_childCtxOf
proof (intro allI impI)
  fix k assume "(case rec_get (childCtx i) k of None \<Rightarrow> rec_get (parentCtx i) k | Some v \<Rightarrow> Some v) \<noteq> None"
  then show "(case rec_get (childCtx i') k of None \<Rightarrow> rec_get (parentCtx i') k | Some v \<Rightarrow> Some v) \<noteq> None"
    using assms(1) [of k] assms(2) [of k] by (cases "rec_get (childCtx i') k"; cases "rec_get (childCtx i) k") simp_all
qed

lemma sees_after:
  assumes "grows i i'" "sees d i" "comp_ok i'" "parentCtx d' = set_ctx (childCtxOf i') (parentCtx d)"
  shows "sees d' i'"
  unfolding sees_def
proof
  fix k
  have "rec_get (parentCtx d') k = (case rec_get (childCtxOf i') k of None \<Rightarrow> rec_get (childCtxOf i) k | Some v \<Rightarrow> Some v)"
    using assms(2) unfolding assms(4) rec_get_set_ctx [OF rec_wf_childCtxOf [OF assms(3)]] sees_def by metis
  then show "rec_get (parentCtx d') k = rec_get (childCtxOf i') k"
    using assms(1) by (auto simp: grows_def split: option.splits)
qed

lemma hook_ok:
  assumes "tame E" "comp_ok i" "run_afterUpdate E i = (i', e)"
  shows "e = None" "comp_ok i'" "same_comp i' i" "parentCtx i' = parentCtx i" "grows i i'"
    "changedKeys i' = [] \<Longrightarrow> childCtx i' = childCtx i"
proof -
  obtain sets where sets: "afterUpdate E i = (sets, None)" "list_all (\<lambda>(k, v, trigger). trigger) sets"
    using assms(1) by (metis prod.collapse tame_def)
  with assms(3) have i': "i' = foldl ctx_set i sets" "e = None" by (auto simp: run_afterUpdate_def)
  note c = ctx_sets [OF assms(2), of sets]
  show "e = None" by (rule i'(2))
  show "comp_ok i'" "same_comp i' i" "parentCtx i' = parentCtx i" using c i' by simp_all
  show "grows i i'" by (rule growsI) (use c i' in auto)
  show "childCtx i' = childCtx i" if "changedKeys i' = []" using c i' sets(2) that by blast
qed

lemma leaf_context_ok:
  assumes "tame E" "rec_wf vals" "comp_ok i" "leaf_updateContext E vals i = (i', l, e)"
  shows "e = None" "comp_ok i'" "same_comp i' i" "parentCtx i' = set_ctx vals (parentCtx i)" "grows i i'"
proof -
  let ?i1 = "i\<lparr>parentCtx := set_ctx vals (parentCtx i)\<rparr>"
  have ok: "comp_ok ?i1" using assms(3) by (simp add: comp_ok_def rec_wf_set_ctx)
  obtain i2 e2 where h: "run_afterUpdate E ?i1 = (i2, e2)" by fastforce
  with assms(4) have i': "i' = i2" "e = e2" by (simp_all add: leaf_updateContext_def Let_def)
  note hk = hook_ok [OF assms(1) ok h]
  show "e = None" "comp_ok i'" using hk i' by simp_all
  show "same_comp i' i" using hk(3) i' by (simp add: same_comp_def)
  show "parentCtx i' = set_ctx vals (parentCtx i)" using hk(4) i' by simp
  have "grows i ?i1"
    by (rule growsI) (use assms(2) in \<open>auto simp: rec_get_set_ctx split: option.splits\<close>)
  then show "grows i i'" using hk(5) i' by (auto simp: grows_def)
qed

definition child_kept :: "(string, 'v) rec \<Rightarrow> string \<times> ('s, 'v) component \<Rightarrow> string \<times> ('s, 'v) component \<Rightarrow> bool" where
  "child_kept vals a b \<longleftrightarrow>
     fst b = fst a \<and> tree_ok (snd b) \<and> same_comp (info (snd b)) (info (snd a)) \<and>
     parentCtx (info (snd b)) = set_ctx vals (parentCtx (info (snd a)))"

lemma tree_ok_children_kept:
  assumes "comp_ok i'" "grows i i'" "tree_ok (Composite i cs)" "list_all2 (child_kept (childCtxOf i')) cs cs'"
  shows "tree_ok (Composite i' cs')"
proof -
  have "map fst cs' = map fst cs"
    using assms(4) by (induction rule: list_all2_induct) (auto simp: child_kept_def)
  then have "rec_wf cs'" using assms(3) by (simp add: rec_wf_def rec_keys_def)
  moreover have "ckey (info d') = k \<and> \<not> cdeleted (info d') \<and> sees (info d') i' \<and> tree_ok d'" if "(k, d') \<in> set cs'" for k d'
  proof -
    from that obtain n where n: "n < length cs'" "cs' ! n = (k, d')" by (auto simp: in_set_conv_nth)
    with assms(4) have len: "n < length cs" and kept: "child_kept (childCtxOf i') (cs ! n) (k, d')"
      by (auto simp: list_all2_conv_all_nth)
    obtain d where d: "cs ! n = (k, d)" using kept by (cases "cs ! n") (auto simp: child_kept_def)
    then have "(k, d) \<in> set cs" using len by (metis nth_mem)
    with assms(3) have "ckey (info d) = k" "\<not> cdeleted (info d)" "sees (info d) i" by auto
    with kept d sees_after [OF assms(2) _ assms(1)] show ?thesis by (auto simp: child_kept_def same_comp_def)
  qed
  ultimately show ?thesis using assms(1) by auto
qed

lemma updateContext_ok:
  "tame E \<Longrightarrow> rec_wf vals \<Longrightarrow> tree_ok c \<Longrightarrow>
     (case updateContext E vals c of (c', l, e) \<Rightarrow>
        e = None \<and> tree_ok c' \<and> same_comp (info c') (info c) \<and> parentCtx (info c') = set_ctx vals (parentCtx (info c)))"
  "tame E \<Longrightarrow> rec_wf vals \<Longrightarrow> \<forall>(k, c) \<in> set cs. tree_ok c \<Longrightarrow>
     (case updateContexts E vals cs of (cs', l, e) \<Rightarrow> e = None \<and> list_all2 (child_kept vals) cs cs')"
proof (induction E vals c and E vals cs rule: updateContext_updateContexts.induct)
  case (1 E vals i)
  then show ?case using leaf_context_ok [OF 1(1,2), of i] by (auto split: prod.splits)
next
  case (2 E vals i cs)
  obtain i' l e where u: "leaf_updateContext E vals i = (i', l, e)" by (metis prod_cases3)
  note i' = leaf_context_ok [OF 2(2,3) _ u]
  have ok: "comp_ok i" using 2(4) by simp
  obtain cs' l' e' where cs': "updateContexts E (childCtxOf i') cs = (cs', l', e')" by (metis prod_cases3)
  have "e' = None \<and> list_all2 (child_kept (childCtxOf i')) cs cs'"
    using 2(1) [OF u [symmetric] refl refl i'(1) [OF ok] 2(2) rec_wf_childCtxOf [OF i'(2) [OF ok]]] 2(4) cs' by auto
  then have "e' = None" "tree_ok (Composite i' cs')"
    using tree_ok_children_kept [OF i'(2) [OF ok] i'(5) [OF ok] 2(4)] by blast+
  then show ?case using u cs' i' [OF ok] by (simp del: tree_ok.simps)
next
  case (4 E vals k c cs)
  then show ?case by (auto split: prod.splits option.splits simp: child_kept_def)
qed simp

subsection \<open>Updates and deletions keep the tree\<close>

definition kept :: "('s, 'v) comp \<Rightarrow> ('s, 'v) comp \<Rightarrow> bool" where
  "kept i i' \<longleftrightarrow> ckey i' = ckey i \<and> ctype i' = ctype i \<and> cdeleted i' = cdeleted i \<and> parentCtx i' = parentCtx i"

lemma leaf_state_ok:
  assumes "tame E" "comp_ok i" "leaf_updateState E path raw i = (i', l, e)"
  shows "comp_ok i' \<and> kept i i' \<and> grows i i' \<and> (e \<noteq> None \<longrightarrow> i' = i) \<and> (changedKeys i' = [] \<longrightarrow> childCtx i' = childCtx i)"
proof (cases "cdeleted i \<or> validatePath path i \<noteq> None \<or> (\<exists>x. parse_state E (ctype i) raw = Inl x)")
  case True
  then have "i' = i" using assms(3) by (auto simp: leaf_updateState_def split: option.splits if_splits)
  then show ?thesis using assms(2) by (simp add: kept_def grows_def)
next
  case False
  then obtain s where s: "parse_state E (ctype i) raw = Inr s" by (cases "parse_state E (ctype i) raw") auto
  let ?i1 = "i\<lparr>cprev := Some (case cstate i of None \<Rightarrow> s | Some old \<Rightarrow> old), cstate := Some s\<rparr>"
  obtain i2 e2 where h: "run_afterUpdate E ?i1 = (i2, e2)" by fastforce
  have ok: "comp_ok ?i1" using assms(2) by (simp add: comp_ok_def)
  have "i' = i2" "e = e2" using assms(3) False s h by (auto simp: leaf_updateState_def Let_def)
  with hook_ok [OF assms(1) ok h] show ?thesis
    by (auto simp: kept_def same_comp_def grows_def childCtxOf_def)
qed

lemma tree_ok_same_ctx:
  "tree_ok (Composite i cs) \<Longrightarrow> comp_ok i' \<Longrightarrow> parentCtx i' = parentCtx i \<Longrightarrow> childCtx i' = childCtx i \<Longrightarrow> tree_ok (Composite i' cs)"
  by (auto simp: sees_def childCtxOf_def)

lemma self_update_ok:
  assumes "tame E" "tree_ok (Composite i cs)" "self_update E path raw i cs = (c', l, e)"
  shows "tree_ok c' \<and> kept i (info c')"
proof -
  let ?i0 = "i\<lparr>changedKeys := []\<rparr>"
  obtain i' l1 e1 where u: "leaf_updateState E path raw ?i0 = (i', l1, e1)" by (metis prod_cases3)
  have ok0: "comp_ok ?i0" using assms(2) by (simp add: comp_ok_def)
  note i' = leaf_state_ok [OF assms(1) ok0 u]
  have t0: "tree_ok (Composite ?i0 cs)" by (rule tree_ok_same_ctx [OF assms(2) ok0]) simp_all
  show ?thesis
  proof (cases "e1 \<noteq> None \<or> changedKeys i' = []")
    case True
    then have "c' = Composite i' cs" using assms(3) u by (auto simp: self_update_def)
    moreover have "tree_ok (Composite i' cs)"
      by (rule tree_ok_same_ctx [OF t0]) (use i' True in \<open>auto simp: kept_def\<close>)
    ultimately show ?thesis using i' by (simp add: kept_def del: tree_ok.simps)
  next
    case False
    obtain cs' l2 e2 where cs': "updateContexts E (childCtxOf i') cs = (cs', l2, e2)" by (metis prod_cases3)
    have "c' = Composite i' cs'" using assms(3) u cs' False by (auto simp: self_update_def)
    moreover have "list_all2 (child_kept (childCtxOf i')) cs cs'"
      using updateContext_ok(2) [OF assms(1), of "childCtxOf i'" cs] rec_wf_childCtxOf i' assms(2) cs' by auto
    ultimately show ?thesis
      using tree_ok_children_kept [OF _ _ t0] i' by (simp add: kept_def del: tree_ok.simps)
  qed
qed

lemma tree_ok_set_child:
  assumes "tree_ok (Composite i cs)" "tree_ok d" "ckey (info d) = k" "\<not> cdeleted (info d)" "sees (info d) i"
  shows "tree_ok (Composite i (rec_set k d cs))"
proof -
  have "set (rec_set k d cs) \<subseteq> insert (k, d) (set cs)"
    by (induction k d cs rule: rec_set.induct) (auto split: if_splits)
  with assms show ?thesis by (simp only: tree_ok.simps rec_wf_set) blast
qed

definition makes :: "((string, 'v) rec \<Rightarrow> ('s, 'v) component result) \<Rightarrow> string \<Rightarrow> bool" where
  "makes create key \<longleftrightarrow>
     (\<forall>ctx c. create ctx = Inr c \<longrightarrow>
        tree_ok c \<and> ckey (info c) = key \<and> \<not> cdeleted (info c) \<and> parentCtx (info c) = set_ctx ctx [])"

lemma parsePath_Inr: "parsePath path i = Inr sub \<longleftrightarrow> path = ckey i # sub"
  by (auto simp: parsePath_def split: list.splits)

lemma updateState_composite:
  assumes "updateState E path raw create (Composite i cs) = (c', l, e)"
  obtains (nothing) "c' = Composite i cs" "l = []" "e \<noteq> None \<or> cdeleted i"
    | (self) "\<not> cdeleted i" "path = [ckey i]" "self_update E path raw i cs = (c', l, e)"
    | (child) ck rest d d' where "\<not> cdeleted i" "path = ckey i # ck # rest" "rec_get cs ck = Some d"
        "updateState E (ck # rest) raw create d = (d', l, e)" "c' = Composite i (rec_set ck d' cs)"
    | (new) ck d d' where "\<not> cdeleted i" "path = [ckey i, ck]" "rec_get cs ck = None" "create (childCtxOf i) = Inr d"
        "updateState E [ck] raw create d = (d', l, e)" "c' = Composite i (if e = None then rec_set ck d' cs else cs)"
proof (cases "cdeleted i \<or> (\<exists>x. parsePath path i = Inl x)")
  case True
  then have "c' = Composite i cs \<and> l = [] \<and> (e \<noteq> None \<or> cdeleted i)"
    using assms by (auto simp: updateState.simps split: if_splits)
  then show ?thesis using that(1) by blast
next
  case False
  then obtain sub where sub: "parsePath path i = Inr sub" by (cases "parsePath path i") auto
  then have path: "path = ckey i # sub" by (simp add: parsePath_Inr)
  note run = assms [unfolded updateState.simps, unfolded sub]
  show ?thesis
  proof (cases sub)
    case Nil
    then show ?thesis using that(2) run False path by simp
  next
    case (Cons ck rest)
    show ?thesis
    proof (cases "rec_get cs ck")
      case (Some d)
      obtain d' l' e' where "updateState E (ck # rest) raw create d = (d', l', e')" by (metis prod_cases3)
      then show ?thesis using that(3) run False path Cons Some by auto
    next
      case None
      show ?thesis
      proof (cases "rest = [] \<and> (\<exists>d. create (childCtxOf i) = Inr d)")
        case True
        then obtain d where d: "create (childCtxOf i) = Inr d" by blast
        obtain d' l' e' where "updateState E [ck] raw create d = (d', l', e')" by (metis prod_cases3)
        then show ?thesis using that(4) run False path Cons None True d by auto
      next
        case no: False
        then show ?thesis using that(1) run False Cons None by (cases "create (childCtxOf i)") (auto split: if_splits)
      qed
    qed
  qed
qed

lemma updateState_ok:
  assumes "tame E"
  shows "tree_ok c \<Longrightarrow> makes create (last path) \<Longrightarrow> updateState E path raw create c = (c', l, e) \<Longrightarrow>
    tree_ok c' \<and> kept (info c) (info c')"
proof (induction path arbitrary: c c' l e)
  case (Cons p path)
  show ?case
  proof (cases c)
    case (Leaf i)
    then show ?thesis using leaf_state_ok [OF assms, of i "p # path" raw] Cons.prems by (auto simp: updateState.simps split: prod.splits)
  next
    case (Composite i cs)
    note ok = Cons.prems(1) [unfolded Composite]
    from Cons.prems(3) [unfolded Composite] show ?thesis
    proof (cases rule: updateState_composite)
      case nothing
      then show ?thesis using ok Composite by (simp add: kept_def del: tree_ok.simps)
    next
      case self
      then show ?thesis using self_update_ok [OF assms ok] Composite by (simp del: tree_ok.simps)
    next
      case (child ck rest d d')
      then have d: "ckey (info d) = ck" "\<not> cdeleted (info d)" "sees (info d) i" "tree_ok d"
        using tree_ok_child [OF ok, of ck d] by simp_all
      have "tree_ok d' \<and> kept (info d) (info d')" using Cons.IH [OF d(4), of d' l e] Cons.prems(2) child by auto
      then show ?thesis using tree_ok_set_child [OF ok, of d' ck] d child(5) Composite
        by (auto simp: kept_def sees_def simp del: tree_ok.simps)
    next
      case (new ck d d')
      then have m: "tree_ok d" "ckey (info d) = ck" "\<not> cdeleted (info d)" "parentCtx (info d) = set_ctx (childCtxOf i) []"
        using Cons.prems(2) by (auto simp: makes_def)
      have "tree_ok d' \<and> kept (info d) (info d')" using Cons.IH [OF m(1), of d' l e] Cons.prems(2) new by auto
      moreover have "sees (info d) i"
        using m(4) rec_wf_childCtxOf [of i] ok by (auto simp: sees_def rec_get_set_ctx split: option.splits)
      ultimately have "tree_ok (Composite i (rec_set ck d' cs))"
        using tree_ok_set_child [OF ok, of d' ck] m by (auto simp: kept_def sees_def simp del: tree_ok.simps)
      then show ?thesis using new(6) ok Composite by (simp add: kept_def del: tree_ok.simps)
    qed
  qed
next
  case Nil
  then show ?case
    by (cases c) (auto simp: updateState.simps leaf_updateState_def validatePath_def parsePath_def kept_def split: if_splits)
qed

lemma leaf_delete_self: "tame E \<Longrightarrow> leaf_delete E [ckey i] i = (i\<lparr>cdeleted := True\<rparr>, [ckey i], None)"
  by (simp add: leaf_delete_def validatePath_def tame_def Let_def)

lemma delete_self_ok:
  "tame E \<Longrightarrow> (case delete_self E c of (c', l, e) \<Rightarrow> e = None \<and> children c' = [] \<and> info c' = (info c)\<lparr>cdeleted := True\<rparr>)"
  "tame E \<Longrightarrow> (case delete_children E cs of (cs', l, e) \<Rightarrow> e = None)"
proof (induction E c and E cs rule: delete_self_delete_children.induct)
  case (2 E i cs)
  obtain cs' l e where "delete_children E cs = (cs', l, e)" by (metis prod_cases3)
  with 2 show ?case by (simp add: leaf_delete_self)
next
  case (4 E k c cs)
  obtain c' l e cs' l' e' where "delete_self E c = (c', l, e)" "delete_children E cs = (cs', l', e')" by (metis prod_cases3)
  with 4 show ?case by simp
qed (simp_all add: leaf_delete_self)

lemma delete_at_composite:
  assumes "delete_at E path (Composite i cs) = (c', l, e)"
  obtains (nothing) "c' = Composite i cs" "l = []"
    | (self) "path = [ckey i]" "delete_self E (Composite i cs) = (c', l, e)"
    | (below) ck k rest d d' where "path = ckey i # ck # k # rest" "rec_get cs ck = Some d"
        "delete_at E (ck # k # rest) d = (d', l, e)" "c' = Composite i (rec_set ck d' cs)"
    | (child) ck d d' where "path = [ckey i, ck]" "rec_get cs ck = Some d"
        "delete_at E [ck] d = (d', l, e)" "c' = Composite i (rec_delete (ckey (info d)) cs)"
proof (cases "parsePath path i")
  case (Inl x)
  then show ?thesis using assms that(1) by (auto simp: delete_at.simps)
next
  case (Inr sub)
  then have path: "path = ckey i # sub" by (simp add: parsePath_Inr)
  note run = assms [unfolded delete_at.simps, unfolded Inr]
  show ?thesis
  proof (cases sub)
    case Nil
    then show ?thesis using that(2) run path by simp
  next
    case (Cons ck rest)
    show ?thesis
    proof (cases "rec_get cs ck")
      case None
      then show ?thesis using that(1) run Cons by auto
    next
      case (Some d)
      obtain d' l' e' where d': "delete_at E (ck # rest) d = (d', l', e')" by (metis prod_cases3)
      then show ?thesis using that(3,4) run path Cons Some by (cases rest) auto
    qed
  qed
qed

lemma tree_ok_delete_child: "tree_ok (Composite i cs) \<Longrightarrow> tree_ok (Composite i (rec_delete k cs))"
  using rec_wf_delete [of cs k] by (auto simp: rec_delete_def)

lemma delete_at_ok:
  assumes "tame E"
  shows "tree_ok c \<Longrightarrow> delete_at E path c = (c', l, e) \<Longrightarrow>
    tree_ok c' \<and> parentCtx (info c') = parentCtx (info c) \<and> (path = [ckey (info c)] \<or> kept (info c) (info c'))"
proof (induction path arbitrary: c c' l e)
  case (Cons p path)
  show ?case
  proof (cases c)
    case (Leaf i)
    then show ?thesis using Cons.prems
      by (auto simp: delete_at.simps leaf_delete_def validatePath_def kept_def comp_ok_def Let_def split: if_splits)
  next
    case (Composite i cs)
    note ok = Cons.prems(1) [unfolded Composite]
    from Cons.prems(2) [unfolded Composite] show ?thesis
    proof (cases rule: delete_at_composite)
      case nothing
      then show ?thesis using ok Composite by (simp add: kept_def del: tree_ok.simps)
    next
      case self
      with delete_self_ok(1) [OF assms, of "Composite i cs"] have "info c' = i\<lparr>cdeleted := True\<rparr>" "children c' = []"
        by (auto simp del: delete_self.simps)
      then have "tree_ok c'" using ok by (cases c') (auto simp: comp_ok_def)
      with self Composite \<open>info c' = i\<lparr>cdeleted := True\<rparr>\<close> show ?thesis by simp
    next
      case (below ck k rest d d')
      then have d: "ckey (info d) = ck" "\<not> cdeleted (info d)" "sees (info d) i" "tree_ok d"
        using tree_ok_child [OF ok, of ck d] by simp_all
      then have "tree_ok d' \<and> kept (info d) (info d')" using Cons.IH [OF d(4), of d' l e] below by auto
      then show ?thesis using tree_ok_set_child [OF ok, of d' ck] d below(4) Composite
        by (auto simp: kept_def sees_def simp del: tree_ok.simps)
    next
      case (child ck d d')
      then show ?thesis using tree_ok_delete_child [OF ok] Composite by (simp add: kept_def del: tree_ok.simps)
    qed
  qed
next
  case Nil
  then show ?case
    by (cases c) (auto simp: delete_at.simps leaf_delete_def validatePath_def parsePath_def kept_def)
qed

section \<open>The context of a component\<close>

text \<open>Messages are handled one after the other; a message that throws leaves the tree as it was then.\<close>

definition aether_step :: "('r, 's, 'v) env \<Rightarrow> 'r main_message \<Rightarrow> ('s, 'v) component \<Rightarrow> ('s, 'v) component result" where
  "aether_step E m c = return (fst (handle_message E m c))"

definition root_ok :: "('s, 'v) component \<Rightarrow> bool" where
  "root_ok c \<longleftrightarrow> tree_ok c \<and> parentCtx (info c) = []"

lemma makes_create: "makes (create_component E key type0) key"
  by (auto simp: makes_def create_component_def new_comp_def comp_ok_def rec_wf_set_ctx split: option.splits)

lemma handle_message_ok:
  assumes "tame E" "root_ok c"
  shows "root_ok (fst (handle_message E m c))"
proof (cases m)
  case (MainUpdate path type0 raw)
  obtain c' l e where u: "updateState E path raw (create_component E (last path) type0) c = (c', l, e)" by (metis prod_cases3)
  from updateState_ok [OF assms(1) _ makes_create this] assms(2) u MainUpdate show ?thesis by (auto simp: root_ok_def kept_def)
next
  case (MainDelete path type0)
  obtain c' l e where u: "delete_at E path c = (c', l, e)" by (metis prod_cases3)
  from delete_at_ok [OF assms(1) _ this] assms(2) u MainDelete show ?thesis by (auto simp: root_ok_def)
qed

interpretation aether_tree: action_reducer "aether_step E" root_ok "\<lambda>_ _. tame E" for E :: "('r, 's, 'v) env"
  by unfold_locales (auto simp: aether_step_def intro: handle_message_ok)

lemma render_ok:
  fixes E :: "('r, 's, 'v) env"
  assumes "tame E" "render E raw = Inr root"
  shows "root_ok root"
proof -
  let ?create = "\<lambda>_. throw ''should not call create'' :: ('s, 'v) component result"
  obtain l where u: "updateState E [''root''] raw ?create new_root = (root, l, None)"
    using assms(2) by (auto simp: render_def split: prod.splits option.splits)
  have "tree_ok (new_root :: ('s, 'v) component)" by (simp add: new_root_def new_comp_def comp_ok_def set_ctx_def)
  moreover have "makes ?create (last [''root''])" by (simp add: makes_def)
  ultimately have "tree_ok root \<and> kept (info new_root) (info root)" using updateState_ok [OF assms(1) _ _ u] by blast
  then show "root_ok root" by (simp add: root_ok_def kept_def new_root_def new_comp_def set_ctx_def)
qed

lemma find_append_last: "find P (xs @ [y]) = (case find P xs of None \<Rightarrow> if P y then Some y else None | Some x \<Rightarrow> Some x)"
  by (induction xs) auto

text \<open>The value of a key that the nearest of the given ancestors set.\<close>

definition nearest :: "('s, 'v) comp list \<Rightarrow> string \<Rightarrow> 'v option" where
  "nearest js key = (case find (\<lambda>j. rec_has (childCtx j) key) (rev js) of None \<Rightarrow> None | Some j \<Rightarrow> rec_get (childCtx j) key)"

lemma nearest_Cons:
  "nearest (j # js) key = (case nearest js key of None \<Rightarrow> rec_get (childCtx j) key | Some v \<Rightarrow> Some v)"
proof (cases "find (\<lambda>j. rec_has (childCtx j) key) (rev js)")
  case (Some x)
  then have "rec_has (childCtx x) key" by (auto simp: find_Some_iff)
  with Some show ?thesis by (auto simp: nearest_def find_append_last rec_has_def)
qed (auto simp: nearest_def find_append_last rec_has_def)

lemma chain_not_empty: "chain p c = Some js \<Longrightarrow> js \<noteq> []"
  by (induction p c arbitrary: js rule: chain.induct) (auto split: if_splits simp: bind_eq_Some_conv)

lemma context_nearest:
  "tree_ok c \<Longrightarrow> chain p c = Some (js @ [i]) \<Longrightarrow>
     rec_get (parentCtx i) key = (case nearest js key of None \<Rightarrow> rec_get (parentCtx (info c)) key | Some v \<Rightarrow> Some v)"
proof (induction p c arbitrary: js rule: chain.induct)
  case (3 k k' path c)
  from 3(3) obtain d ks where d: "rec_get (children c) k' = Some d" "chain (k' # path) d = Some ks" "js @ [i] = info c # ks"
    by (auto split: if_splits simp: bind_eq_Some_conv)
  with chain_not_empty obtain js' where js: "ks = js' @ [i]" "js = info c # js'" by (cases js) auto
  have "tree_ok d" and ctx: "rec_get (parentCtx (info d)) key = rec_get (childCtxOf (info c)) key"
    using tree_ok_child [OF 3(2) d(1)] by (simp_all add: sees_def)
  then show ?case using 3(1) [OF _ d(1) _ d(2) [unfolded js]] 3(3) js
    by (auto simp: nearest_Cons ctx [unfolded rec_get_childCtxOf] split: option.splits if_splits)
qed (auto simp: nearest_def split: if_splits)

text \<open>
  C16: The context of components: whatever messages a rendered tree has handled, the value that a component sees
  for a key is the one that its nearest ancestor set that has set the key, and it sees none when no
  ancestor has. The hooks of the components do not throw and notify their children of every value they
  set.
\<close>

theorem context_is_inherited:
  assumes "tame E" and "render E raw = Inr root0" and "reachable (aether_step E) (\<lambda>_ _. tame E) root0 root"
    and "chain path root = Some (ancestors @ [i])"
  shows "rec_get (parentCtx i) key = nearest ancestors key"
proof -
  have "root_ok root" by (rule aether_tree.reachable_inv [OF assms(3) render_ok [OF assms(1,2)]])
  then show ?thesis using context_nearest [of root path ancestors i key] assms(4)
    by (auto simp: root_ok_def split: option.splits)
qed

text \<open>A sample: components of type \<open>p\<close> set the key \<open>theme\<close> to their state.\<close>

definition sample_env :: "(nat, nat, nat) env" where
  "sample_env =
     \<lparr>parse_state = (\<lambda>_ n. return n),
      afterUpdate = (\<lambda>i. (if ctype i = ''p'' then [(''theme'', the (cstate i), True)] else [], None)),
      afterDelete = (\<lambda>_. None), registry = (\<lambda>t. if t = ''p'' then Some True else if t = ''l'' then Some False else None),
      empty_state = 0\<rparr>"

definition sample_p :: "(nat, nat) comp" where
  "sample_p = (new_comp ''p'' ''a'' [])\<lparr>cstate := Some 7, cprev := Some 5, childCtx := [(''theme'', 7)], changedKeys := [''theme'']\<rparr>"

definition sample_l :: "(nat, nat) comp" where
  "sample_l = (new_comp ''l'' ''b'' [(''theme'', 7)])\<lparr>cstate := Some 0, cprev := Some 0\<rparr>"

definition sample_r :: "(nat, nat) comp" where
  "sample_r = (new_comp ''root'' ''root'' [])\<lparr>cstate := Some 0, cprev := Some 0\<rparr>"

definition sample_root :: "(nat, nat) component" where
  "sample_root = Composite sample_r [(''a'', Composite sample_p [(''b'', Leaf sample_l)])]"

lemma tame_sample: "tame sample_env"
  by (simp add: tame_def sample_env_def)

lemma sample_render: "render sample_env 0 = Inr (Composite sample_r [])"
  by code_simp

lemma sample_run:
  "fst (handle_message sample_env (MainUpdate [''root'', ''a''] ''p'' 7)
     (fst (handle_message sample_env (MainUpdate [''root'', ''a'', ''b''] ''l'' 0)
       (fst (handle_message sample_env (MainUpdate [''root'', ''a''] ''p'' 5) (Composite sample_r [])))))) = sample_root"
  by code_simp

lemma sample_reachable: "reachable (aether_step sample_env) (\<lambda>_ _. tame sample_env) (Composite sample_r []) sample_root"
proof -
  have step: "reachable (aether_step sample_env) (\<lambda>_ _. tame sample_env) s t \<Longrightarrow>
      reachable (aether_step sample_env) (\<lambda>_ _. tame sample_env) s (fst (handle_message sample_env m t))" for s t m
    using reachable.action [of "aether_step sample_env" "\<lambda>_ _. tame sample_env" s t m] tame_sample
    by (simp add: store_dispatch_def aether_step_def)
  show ?thesis unfolding sample_run [symmetric] by (intro step reachable.initial)
qed

theorem context_is_inherited_witness:
  "chain [''root'', ''a'', ''b''] sample_root = Some ([sample_r, sample_p] @ [sample_l]) \<and>
   rec_get (parentCtx sample_l) ''theme'' = Some 7"
proof
  show ch: "chain [''root'', ''a'', ''b''] sample_root = Some ([sample_r, sample_p] @ [sample_l])"
    by (simp add: sample_root_def sample_r_def sample_p_def sample_l_def new_comp_def)
  have "rec_get (parentCtx sample_l) ''theme'' = nearest [sample_r, sample_p] ''theme''"
    by (rule context_is_inherited [OF tame_sample sample_render sample_reachable ch])
  also have "\<dots> = Some 7" by (simp add: nearest_def sample_r_def sample_p_def new_comp_def rec_has_def)
  finally show "rec_get (parentCtx sample_l) ''theme'' = Some 7" .
qed

end
