(* ===== verification/Aether_Changes.thy ===== *)
theory Aether_Changes
  imports Aether_Laws "HOL-Library.Sublist"
begin

text \<open>
  What messages change in the aether tree: an update changes the state of one component only, and a deletion
  removes a whole branch and runs the hook of each of its components once.
\<close>

section \<open>Updates\<close>

text \<open>A component without its contexts, and what a path shows of it.\<close>

definition strip :: "('s, 'v) comp \<Rightarrow> ('s, 'v) comp" where
  "strip i = i\<lparr>parentCtx := [], childCtx := [], changedKeys := []\<rparr>"

definition view :: "string list \<Rightarrow> ('s, 'v) component \<Rightarrow> ('s, 'v) comp option" where
  "view path c = map_option (strip \<circ> info) (comp_at path c)"

fun skeleton :: "('s, 'v) component \<Rightarrow> ('s, 'v) component" where
  "skeleton (Leaf i) = Leaf (strip i)"
| "skeleton (Composite i cs) = Composite (strip i) (map (\<lambda>(k, c). (k, skeleton c)) cs)"

lemma strip_simps [simp]: "ckey (strip i) = ckey i" "strip (strip i) = strip i"
  by (simp_all add: strip_def)

lemma info_skeleton [simp]: "info (skeleton c) = strip (info c)"
  by (cases c) simp_all

lemma rec_get_map_snd: "rec_get (map (\<lambda>(k, c). (k, f c)) cs) k = map_option f (rec_get cs k)"
  by (induction cs) auto

lemma comp_at_skeleton: "comp_at path (skeleton c) = map_option skeleton (comp_at path c)"
proof (induction path c rule: comp_at.induct)
  case (3 k k' path c)
  then show ?case by (cases c; cases "rec_get (children c) k'") (auto simp: rec_get_map_snd)
qed simp_all

lemma view_skeleton: "skeleton c = skeleton c' \<Longrightarrow> view path c = view path c'"
proof -
  have "view path c = view path (skeleton c)" for c :: "('s, 'v) component"
    by (cases "comp_at path c") (simp_all add: view_def comp_at_skeleton)
  then show "skeleton c = skeleton c' \<Longrightarrow> view path c = view path c'" by metis
qed

lemma hook_strip: "run_afterUpdate E i = (i', e) \<Longrightarrow> strip i' = strip i"
proof -
  have "strip (foldl ctx_set i sets) = strip i" for sets and i :: "('s, 'v) comp"
    by (induction sets arbitrary: i) (auto simp: strip_def ctx_set_def split: prod.splits)
  then show "run_afterUpdate E i = (i', e) \<Longrightarrow> strip i' = strip i" by (auto simp: run_afterUpdate_def split: prod.splits)
qed

lemma updateContext_skeleton:
  "skeleton (fst (updateContext E vals c)) = skeleton c"
  "map (\<lambda>(k, c). (k, skeleton c)) (fst (updateContexts E vals cs)) = map (\<lambda>(k, c). (k, skeleton c)) cs"
proof (induction E vals c and E vals cs rule: updateContext_updateContexts.induct)
  case (1 E vals i)
  then show ?case by (auto simp: leaf_updateContext_def Let_def strip_def dest!: hook_strip split: prod.splits)
next
  case (2 E vals i cs)
  obtain i' l e where u: "leaf_updateContext E vals i = (i', l, e)" by (metis prod_cases3)
  then have "strip i' = strip i" by (auto simp: leaf_updateContext_def Let_def strip_def dest!: hook_strip split: prod.splits)
  then show ?case using 2 u by (auto split: option.splits prod.splits)
next
  case (4 E vals k c cs)
  then show ?case by (auto split: option.splits prod.splits)
qed simp

lemma view_simps [simp]:
  "view [] c = None"
  "view [k] c = (if k = ckey (info c) then Some (strip (info c)) else None)"
  "view (k # k' # path) c = (if k = ckey (info c) then Option.bind (rec_get (children c) k') (view (k' # path)) else None)"
proof -
  show "view (k # k' # path) c = (if k = ckey (info c) then Option.bind (rec_get (children c) k') (view (k' # path)) else None)"
    by (cases "rec_get (children c) k'") (simp_all add: view_def)
qed (simp_all add: view_def)

lemma view_childless: "children c = [] \<Longrightarrow> view path c = (if path = [ckey (info c)] then Some (strip (info c)) else None)"
  by (cases "(path, c)" rule: comp_at.cases) auto

lemma view_other_info:
  "ckey i = ckey j \<Longrightarrow> path \<noteq> [ckey i] \<Longrightarrow> view path (Composite i cs) = view path (Composite j cs)"
  by (cases "(path, Composite i cs)" rule: comp_at.cases) auto

lemma view_set_child:
  assumes "ckey (info d') = k"
  shows "view path (Composite i (rec_set k d' cs)) =
    (if prefix [ckey i, k] path then view (tl path) d' else view path (Composite i cs))"
  using assms by (cases "(path, Composite i cs)" rule: comp_at.cases) auto

text \<open>The component that an update with a parsed state leaves.\<close>

definition with_state :: "'s \<Rightarrow> ('s, 'v) comp \<Rightarrow> ('s, 'v) comp" where
  "with_state s i = i\<lparr>cprev := Some (case cstate i of None \<Rightarrow> s | Some old \<Rightarrow> old), cstate := Some s\<rparr>"

lemma with_state_simps [simp]: "ckey (with_state s i) = ckey i" "strip (with_state s i) = with_state s (strip i)"
  by (simp_all add: with_state_def strip_def)

lemma leaf_updated:
  assumes "leaf_updateState E path raw i = (i', l, None)" "\<not> cdeleted i"
  obtains s where "path = [ckey i]" "parse_state E (ctype i) raw = Inr s" "strip i' = with_state s (strip i)"
proof -
  from assms have path: "validatePath path i = None" by (auto simp: leaf_updateState_def split: option.splits)
  then obtain s where s: "parse_state E (ctype i) raw = Inr s"
    using assms by (auto simp: leaf_updateState_def split: sum.splits)
  obtain i2 e where r: "run_afterUpdate E (with_state s i) = (i2, e)" by fastforce
  with assms path s have "i' = i2" by (simp add: leaf_updateState_def with_state_def)
  moreover have "path = [ckey i]" using path by (cases path) (auto simp: validatePath_def split: if_splits)
  ultimately show ?thesis using that s hook_strip [OF r] by simp
qed

text \<open>What an update says of the tree before and after.\<close>

definition updated :: "('r, 's, 'v) env \<Rightarrow> 'r \<Rightarrow> string list \<Rightarrow> ('s, 'v) comp \<Rightarrow> ('s, 'v) component \<Rightarrow> ('s, 'v) component \<Rightarrow> bool" where
  "updated E raw path i c c' \<longleftrightarrow>
     (\<exists>s. parse_state E (ctype i) raw = Inr s \<and> view path c' = Some (with_state s i)) \<and>
     (\<forall>q. q \<noteq> path \<longrightarrow> view q c' = view q c)"

lemma self_updated:
  assumes "self_update E path raw i cs = (c', l, None)" "\<not> cdeleted i"
  shows "updated E raw path (strip i) (Composite i cs) c'" "ckey (info c') = ckey i"
proof -
  obtain i' l1 e1 where u: "leaf_updateState E path raw (i\<lparr>changedKeys := []\<rparr>) = (i', l1, e1)" by (metis prod_cases3)
  with assms(1) have "e1 = None" by (auto simp: self_update_def Let_def split: if_splits)
  with u obtain s where s: "path = [ckey i]" "parse_state E (ctype i) raw = Inr s" "strip i' = with_state s (strip i)"
    using leaf_updated [of E path raw "i\<lparr>changedKeys := []\<rparr>" i' l1] assms(2) by (auto simp: strip_def)
  have "c' = Composite i' cs \<or> c' = Composite i' (fst (updateContexts E (childCtxOf i') cs))"
    using assms(1) u \<open>e1 = None\<close> by (auto simp: self_update_def Let_def split: if_splits prod.splits)
  then have c': "info c' = i'" "skeleton c' = skeleton (Composite i' cs)" by (auto simp: updateContext_skeleton)
  have key: "ckey i' = ckey i" using arg_cong [OF s(3), of ckey] by simp
  show "ckey (info c') = ckey i" using c' key by simp
  have "view q c' = view q (Composite i cs)" if "q \<noteq> path" for q
    using view_skeleton [OF c'(2), of q] view_other_info [OF key, of q cs] that s(1) key by simp
  then show "updated E raw path (strip i) (Composite i cs) c'" using s c' key by (auto simp: updated_def strip_def)
qed

text \<open>The component that an update is for: the one at its path, or a new one.\<close>

definition target :: "string list \<Rightarrow> string \<Rightarrow> ('s, 'v) component \<Rightarrow> ('s, 'v) comp" where
  "target path type0 c = (case view path c of Some i \<Rightarrow> i | None \<Rightarrow> new_comp type0 (last path) [])"

lemma created:
  assumes "create_component E key type0 ctx = Inr c"
  shows "children c = []" "info c = new_comp type0 key ctx"
  using assms by (auto simp: create_component_def split: option.splits if_splits)

lemma updated_below:
  assumes "updated E raw path i d d'" "ckey (info d') = k" "path = k # rest"
    and "\<And>r. k # r \<noteq> path \<Longrightarrow> view (k # r) d = Option.bind (rec_get cs k) (view (k # r))"
  shows "updated E raw (ckey j # path) i (Composite j cs) (Composite j (rec_set k d' cs))"
proof -
  have "view q (Composite j (rec_set k d' cs)) = view q (Composite j cs)" if q: "q \<noteq> ckey j # path" for q
  proof (cases "prefix [ckey j, k] q")
    case True
    then obtain r where r: "q = ckey j # k # r" by (auto simp: prefix_def)
    then have "view (k # r) d' = view (k # r) d" using assms(1,3) q by (simp add: updated_def)
    then show ?thesis using assms(2) r q assms(3) assms(4) [of r] by simp
  qed (simp add: view_set_child assms(2))
  then show ?thesis using assms(1-3) by (auto simp: updated_def)
qed

lemma updateState_updates:
  assumes "updateState E path raw (create_component E (last path) type0) c = (c', l, None)" "tree_ok c" "\<not> cdeleted (info c)"
  shows "updated E raw path (target path type0 c) c c' \<and> ckey (info c') = ckey (info c)"
  using assms
proof (induction path arbitrary: c c' l)
  case Nil
  then show ?case
    by (cases c) (auto simp: updateState.simps leaf_updateState_def validatePath_def parsePath_def)
next
  case (Cons p path)
  show ?case
  proof (cases c)
    case (Leaf i)
    then obtain i' where i': "leaf_updateState E (p # path) raw i = (i', l, None)" "c' = Leaf i'"
      using Cons.prems(1) by (auto simp: updateState.simps split: prod.splits)
    with leaf_updated [OF i'(1)] Cons.prems(3) Leaf obtain s where s: "p # path = [ckey i]" "parse_state E (ctype i) raw = Inr s"
      "strip i' = with_state s (strip i)" by auto
    from arg_cong [OF s(3), of ckey] have "ckey i' = ckey i" by simp
    with s Leaf i' show ?thesis by (auto simp: updated_def target_def view_childless strip_def)
  next
    case (Composite i cs)
    note ok = Cons.prems(2) [unfolded Composite]
    from Cons.prems(1) [unfolded Composite] show ?thesis
    proof (cases rule: updateState_composite)
      case nothing
      then show ?thesis using Cons.prems(3) Composite by simp
    next
      case self
      then show ?thesis using self_updated [OF self(3)] Composite by (simp add: target_def)
    next
      case (child ck rest d d')
      then have d: "ckey (info d) = ck" "\<not> cdeleted (info d)" "tree_ok d"
        using tree_ok_child [OF ok, of ck d] by simp_all
      have IH: "updated E raw path (target path type0 d) d d' \<and> ckey (info d') = ck"
        using Cons.IH [of d d' l] child d by auto
      moreover have "target (p # path) type0 c = target path type0 d" using child Composite
        by (cases "view (ck # rest) d") (simp_all add: target_def)
      ultimately show ?thesis using updated_below [of E raw path "target path type0 d" d d' ck rest cs i] child Composite by auto
    next
      case (new ck d d')
      note d = created [OF new(4) [unfolded new(2), simplified]]
      have "tree_ok d" using makes_create [of E ck type0] new by (auto simp: makes_def)
      with Cons.IH [of d d' l] new d have IH: "updated E raw [ck] (target [ck] type0 d) d d' \<and> ckey (info d') = ck"
        by (simp add: new_comp_def)
      moreover have "target [ck] type0 d = target (p # path) type0 c"
        using new d Composite by (simp add: target_def strip_def new_comp_def set_ctx_def)
      ultimately show ?thesis using updated_below [of E raw "[ck]" "target [ck] type0 d" d d' ck "[]" cs i] new d Composite
        by (simp add: view_childless)
    qed
  qed
qed

text \<open>
  An update that succeeds in any reachable tree changes one component: the component at its path, or a
  new one of the given type when there is none, gets the parsed state, keeps its old state as the
  previous one, and every other component of the tree keeps its type, key, state and previous state; no
  component appears or disappears.
\<close>

theorem update_changes_one:
  fixes E :: "('r, 's, 'v) env"
  assumes "tame E" and "render E raw0 = Inr root0" and "reachable (aether_step E) (\<lambda>_ _. tame E) root0 root"
    and "\<not> cdeleted (info root)" and "handle_message E (MainUpdate path type0 raw) root = (root', l, None)"
  shows "(\<exists>s. parse_state E (ctype (target path type0 root)) raw = Inr s \<and>
            view path root' = Some (with_state s (target path type0 root))) \<and>
         (\<forall>q. q \<noteq> path \<longrightarrow> view q root' = view q root)"
proof -
  have "root_ok root" by (rule aether_tree.reachable_inv [OF assms(3) render_ok [OF assms(1,2)]])
  then show ?thesis using updateState_updates [of E path raw type0 root root' l] assms(4,5)
    by (simp add: root_ok_def updated_def)
qed

lemma sample_update:
  "handle_message sample_env (MainUpdate [''root'', ''a'', ''c''] ''l'' 3) sample_root =
     (Composite sample_r [(''a'', Composite sample_p [(''b'', Leaf sample_l),
        (''c'', Leaf ((new_comp ''l'' ''c'' [(''theme'', 7)])\<lparr>cstate := Some 3, cprev := Some 3\<rparr>))])], [''c''], None)"
  by code_simp

theorem update_changes_one_witness:
  "\<not> cdeleted (info sample_root) \<and>
   (\<forall>q. q \<noteq> [''root'', ''a'', ''c''] \<longrightarrow>
      view q (fst (handle_message sample_env (MainUpdate [''root'', ''a'', ''c''] ''l'' 3) sample_root)) = view q sample_root)"
proof
  show r: "\<not> cdeleted (info sample_root)" by (simp add: sample_root_def sample_r_def new_comp_def)
  show "\<forall>q. q \<noteq> [''root'', ''a'', ''c''] \<longrightarrow>
      view q (fst (handle_message sample_env (MainUpdate [''root'', ''a'', ''c''] ''l'' 3) sample_root)) = view q sample_root"
    using update_changes_one [OF tame_sample sample_render sample_reachable r sample_update]
    unfolding sample_update by simp
qed

section \<open>Deletions\<close>

text \<open>The keys of a branch, children before their parent.\<close>

fun postorder :: "('s, 'v) component \<Rightarrow> string list" where
  "postorder (Leaf i) = [ckey i]"
| "postorder (Composite i cs) = concat (map (\<lambda>(k, c). postorder c) cs) @ [ckey i]"

lemma delete_self_log:
  "tame E \<Longrightarrow> fst (snd (delete_self E c)) = postorder c"
  "tame E \<Longrightarrow> fst (snd (delete_children E cs)) = concat (map (\<lambda>(k, c). postorder c) cs)"
proof (induction E c and E cs rule: delete_self_delete_children.induct)
  case (2 E i cs)
  obtain cs' l e where "delete_children E cs = (cs', l, e)" by (metis prod_cases3)
  with 2 delete_self_ok(2) [of E cs] show ?case by (simp add: leaf_delete_self)
next
  case (4 E k c cs)
  obtain c' l e cs' l' e' where "delete_self E c = (c', l, e)" "delete_children E cs = (cs', l', e')" by (metis prod_cases3)
  with 4 delete_self_ok(1) [of E c] show ?case by simp
qed (simp_all add: leaf_delete_self)

lemma delete_at_self: "delete_at E [ckey (info c)] c = delete_self E c"
  by (cases c) (simp_all add: delete_at.simps parsePath_def)

lemma view_delete_child:
  "view path (Composite i (rec_delete k cs)) = (if prefix [ckey i, k] path then None else view path (Composite i cs))"
  by (cases "(path, Composite i cs)" rule: comp_at.cases) auto

lemma delete_at_deletes:
  assumes "tame E"
  shows "comp_at (p # k # path) c = Some d \<Longrightarrow> tree_ok c \<Longrightarrow> delete_at E (p # k # path) c = (c', l, e) \<Longrightarrow>
    e = None \<and> l = postorder d \<and> info c' = info c \<and>
    (\<forall>q. view q c' = (if prefix (p # k # path) q then None else view q c))"
proof (induction path arbitrary: p k c c' l e)
  case Nil
  from Nil.prems(1) obtain i cs where c: "c = Composite i cs" "p = ckey i" "rec_get cs k = Some d" "ckey (info d) = k"
    by (cases c) (auto simp: bind_eq_Some_conv split: if_splits)
  obtain d' ld ed where d': "delete_self E d = (d', ld, ed)" by (metis prod_cases3)
  have "ed = None" "ld = postorder d"
    using delete_self_ok(1) [OF assms, of d] delete_self_log(1) [OF assms, of d] d' by auto
  with Nil.prems(3) c d' delete_at_self [of E d] have "c' = Composite i (rec_delete k cs) \<and> l = postorder d \<and> e = None"
    by (simp add: delete_at.simps parsePath_def)
  then show ?case using c by (simp add: view_delete_child)
next
  case (Cons r path)
  from Cons.prems(1) obtain i cs x where c: "c = Composite i cs" "p = ckey i" "rec_get cs k = Some x" "comp_at (k # r # path) x = Some d"
    by (cases c) (auto simp: bind_eq_Some_conv split: if_splits)
  then have x: "tree_ok x" "ckey (info x) = k" using tree_ok_child [of c k x] Cons.prems(2) by auto
  obtain x' l' e' where x': "delete_at E (k # r # path) x = (x', l', e')" by (metis prod_cases3)
  note IH = Cons.IH [OF c(4) x(1) x']
  have c': "c' = Composite i (rec_set k x' cs)" "l = l'" "e = e'"
    using Cons.prems(3) c x' by (simp_all add: delete_at.simps parsePath_def)
  have "view q c' = (if prefix (p # k # r # path) q then None else view q c)" for q
  proof (cases "prefix [ckey i, k] q")
    case True
    then obtain s where s: "q = ckey i # k # s" by (auto simp: prefix_def)
    from IH have "view (k # s) x' = (if prefix (k # r # path) (k # s) then None else view (k # s) x)" by blast
    moreover have "info x' = info x" using IH by blast
    ultimately show ?thesis using s c c' x by simp
  next
    case False
    then have "\<not> prefix (p # k # r # path) q" using c(2) by (auto simp: prefix_def)
    with False show ?thesis using IH c c' x by (simp add: view_set_child)
  qed
  then show ?case using IH c c' by simp
qed

text \<open>
  C17: When no hook of a component throws and every context value that a hook sets notifies the children: a
  deletion of a component below the root, in any tree reachable from a rendered one, removes the component
  at its path with everything below it, and nothing else: a path shows nothing after the deletion when it
  leads into the branch, and what it showed before otherwise. The hook of every component of the branch runs
  exactly once, children before their parent. (The root itself cannot be named by such a path; a hook that
  throws would keep the following ones from running.)
\<close>

theorem delete_removes_branch:
  fixes E :: "('r, 's, 'v) env"
  assumes "tame E" and "render E raw0 = Inr root0" and "reachable (aether_step E) (\<lambda>_ _. tame E) root0 root"
    and "comp_at (''root'' # k # path) root = Some branch"
  shows "\<exists>root'. handle_message E (MainDelete (''root'' # k # path) type0) root = (root', postorder branch, None) \<and>
    (\<forall>q. view q root' = (if prefix (''root'' # k # path) q then None else view q root))"
proof -
  have "root_ok root" by (rule aether_tree.reachable_inv [OF assms(3) render_ok [OF assms(1,2)]])
  moreover obtain c l e where "delete_at E (''root'' # k # path) root = (c, l, e)" by (metis prod_cases3)
  ultimately show ?thesis using delete_at_deletes [OF assms(1,4)] by (auto simp: root_ok_def)
qed

theorem delete_removes_branch_witness:
  "comp_at [''root'', ''a''] sample_root = Some (Composite sample_p [(''b'', Leaf sample_l)]) \<and>
   (\<exists>root'. handle_message sample_env (MainDelete [''root'', ''a''] ''p'') sample_root = (root', [''b'', ''a''], None) \<and>
     (\<forall>q. view q root' = (if prefix [''root'', ''a''] q then None else view q sample_root)))"
proof
  show c: "comp_at [''root'', ''a''] sample_root = Some (Composite sample_p [(''b'', Leaf sample_l)])"
    by (simp add: sample_root_def sample_r_def sample_p_def new_comp_def)
  show "\<exists>root'. handle_message sample_env (MainDelete [''root'', ''a''] ''p'') sample_root = (root', [''b'', ''a''], None) \<and>
     (\<forall>q. view q root' = (if prefix [''root'', ''a''] q then None else view q sample_root))"
    using delete_removes_branch [OF tame_sample sample_render sample_reachable c]
    by (simp add: sample_p_def sample_l_def new_comp_def)
qed

end
