(* ===== verification/Connector.thy ===== *)
theory Connector
  imports Spatial
begin

text \<open>
  The connectors between the nodes of a diagram (\<open>pluto/src/vis/diagram/edge/connector/connector.ts\<close>) and
  what an edge does when its nodes move (\<open>edge/Edge.tsx\<close>).  A connector is a list of segments, each
  along one axis, from the position of the source to that of the target.  Coordinates are rationals, as
  in \<open>Spatial\<close>.  The callbacks of \<open>findIndex\<close> that change a copy of the array change it only at the index
  at which they return true, and are functions to the changed array.
\<close>

section \<open>Segments\<close>

record segment =
  sdir :: direction
  slen :: rat

definition STUMP_LENGTH :: rat where "STUMP_LENGTH = 10"
definition COMPRESSION_THRESHOLD :: rat where "COMPRESSION_THRESHOLD = 4"
definition DIRECT_REMOVAL_THRESHOLD :: rat where "DIRECT_REMOVAL_THRESHOLD = 1 / 4"

text \<open>\<open>p[direction]\<close>, \<open>xy.translate\<close> in a direction, \<open>direction.construct\<close> and \<open>direction.swap\<close>.\<close>

definition coord :: "direction \<Rightarrow> xy \<Rightarrow> rat" where
  "coord d p = (case d of DirX \<Rightarrow> xc p | DirY \<Rightarrow> yc p)"

definition translate_direction :: "xy \<Rightarrow> direction \<Rightarrow> rat \<Rightarrow> xy" where
  "translate_direction a d v = (if d = DirX then translateX a v else translateY a v)"

abbreviation dir_of :: "location \<Rightarrow> direction" where "dir_of l \<equiv> direction_construct (OfLocation l)"
abbreviation swap_dir :: "direction \<Rightarrow> direction" where "swap_dir d \<equiv> direction_swap (OfDirection d)"

definition travelSegments :: "xy \<Rightarrow> segment list \<Rightarrow> xy" where
  "travelSegments source segments = foldl (\<lambda>c s. translate_direction c (sdir s) (slen s)) source segments"

text \<open>The distance is below one if and only if its square is.\<close>

definition checkIntegrity :: "xy \<Rightarrow> xy \<Rightarrow> segment list \<Rightarrow> bool" where
  "checkIntegrity sourcePos targetPos next0 =
     (let theo = travelSegments sourcePos next0
      in (xc theo - xc targetPos) ^ 2 + (yc theo - yc targetPos) ^ 2 < 1)"

definition orientationMagnitude :: "location \<Rightarrow> rat" where
  "orientationMagnitude l = (if l = TopLoc \<or> l = LeftLoc then - 1 else 1)"

definition setOrientationOnLength :: "location \<Rightarrow> rat \<Rightarrow> rat" where
  "setOrientationOnLength l n = (if l = TopLoc \<or> l = LeftLoc then - n else n)"

definition orientationFromLength :: "direction \<Rightarrow> rat \<Rightarrow> location" where
  "orientationFromLength d n =
     (if d = DirX then if n > 0 then RightLoc else LeftLoc else if n > 0 then BottomLoc else TopLoc)"

definition segmentOrientation :: "segment \<Rightarrow> location" where
  "segmentOrientation s = orientationFromLength (sdir s) (slen s)"

definition stump :: "location \<Rightarrow> segment" where
  "stump l = \<lparr>sdir = dir_of l, slen = setOrientationOnLength l STUMP_LENGTH\<rparr>"

text \<open>\<open>segmentsToPoints\<close>; \<open>zoomRoot\<close> is \<open>zoom ** 0.5\<close>. Reading the first segment of none is caught.\<close>

fun points_from :: "xy \<Rightarrow> segment list \<Rightarrow> xy list" where
  "points_from p [] = []"
| "points_from p (s # ss) = (let q = translate_direction p (sdir s) (slen s) in q # points_from q ss)"

definition segmentsToPoints :: "xy \<Rightarrow> segment list \<Rightarrow> rat \<Rightarrow> bool \<Rightarrow> xy list" where
  "segmentsToPoints source segments zoomRoot applyTransform =
     (let points = source # points_from source segments
      in if \<not> applyTransform then points
         else if segments = [] then []
         else let firstSeg = hd segments;
                  lastSeg = last segments;
                  zoomMultiplier = 4 * (2 - zoomRoot);
                  points1 = points[0 := translate_direction (points ! 0) (sdir firstSeg)
                    (- 1 * orientationMagnitude (segmentOrientation firstSeg) * zoomMultiplier)];
                  n = length points1 - 1
              in points1[n := translate_direction (points1 ! n) (sdir lastSeg)
                   (orientationMagnitude (segmentOrientation lastSeg) * zoomMultiplier)])"

section \<open>Compression\<close>

abbreviation seg_add :: "segment \<Rightarrow> rat \<Rightarrow> segment" where "seg_add s v \<equiv> s\<lparr>slen := slen s + v\<rparr>"

definition short_at :: "segment list \<Rightarrow> nat \<Rightarrow> segment list option" where
  "short_at segments i =
     (let seg = segments ! i; mag = \<bar>slen seg\<bar>
      in if mag < COMPRESSION_THRESHOLD
         then if i = 0 \<or> i = length segments - 1 then None
              else if mag < DIRECT_REMOVAL_THRESHOLD then Some segments
              else if length segments \<le> 3 then None
              else if i + 2 < length segments
              then (if sdir (segments ! (i + 2)) \<noteq> sdir seg then None
                    else Some (segments[i + 2 := seg_add (segments ! (i + 2)) (slen seg)]))
              else (if sdir (segments ! (i - 2)) \<noteq> sdir seg then None
                    else Some (segments[i - 2 := seg_add (segments ! (i - 2)) (slen seg)]))
         else None)"

definition removeShortSegments :: "segment list \<Rightarrow> segment list" where
  "removeShortSegments segments =
     (case find (\<lambda>i. short_at segments i \<noteq> None) [0..<length segments] of
        None \<Rightarrow> segments
      | Some i \<Rightarrow> splice_at i 1 [] (the (short_at segments i)))"

text \<open>The two segments are merged into the first.\<close>

definition merge_at :: "segment list \<Rightarrow> nat \<Rightarrow> segment list" where
  "merge_at segments i = splice_at i 1 [] (segments[i - 1 := seg_add (segments ! (i - 1)) (slen (segments ! i))])"

text \<open>A stump gets its length back, and the segment beside it the rest.\<close>

definition shorten_stump :: "segment list \<Rightarrow> nat \<Rightarrow> nat \<Rightarrow> segment list option" where
  "shorten_stump segments stumpIdx segIdx =
     (if \<bar>slen (segments ! stumpIdx)\<bar> = STUMP_LENGTH then None
      else let stumpLength = setOrientationOnLength (segmentOrientation (segments ! stumpIdx)) STUMP_LENGTH;
               delta = slen (segments ! stumpIdx) - stumpLength;
               nextLength = slen (segments ! segIdx) + delta
           in if \<bar>nextLength\<bar> < STUMP_LENGTH then None
              else Some (segments[stumpIdx := (segments ! stumpIdx)\<lparr>slen := stumpLength\<rparr>,
                                  segIdx := (segments ! segIdx)\<lparr>slen := nextLength\<rparr>]))"

definition same_at :: "segment list \<Rightarrow> nat \<Rightarrow> segment list option" where
  "same_at segments i =
     (if i = 0 \<or> sdir (segments ! i) \<noteq> sdir (segments ! (i - 1)) then None
      else if i = 1
      then (if segmentOrientation (segments ! (i - 1)) = segmentOrientation (segments ! i) then Some (merge_at segments i)
            else shorten_stump segments (i - 1) i)
      else if i = length segments - 1
      then (if segmentOrientation (segments ! i) = segmentOrientation (segments ! (i - 1)) then Some (merge_at segments i)
            else shorten_stump segments i (i - 1))
      else Some (merge_at segments i))"

definition find_same :: "segment list \<Rightarrow> segment list option" where
  "find_same segments =
     (case find (\<lambda>i. same_at segments i \<noteq> None) [0..<length segments] of
        None \<Rightarrow> None
      | Some i \<Rightarrow> same_at segments i)"

text \<open>The end stumps that do not have the length of a stump; of two segments only the first is adjusted.\<close>

definition long_stumps :: "segment list \<Rightarrow> nat" where
  "long_stumps segments =
     (if \<bar>slen (segments ! 0)\<bar> = STUMP_LENGTH then 0 else 1) +
     (if length segments \<le> 2 \<or> \<bar>slen (segments ! (length segments - 1))\<bar> = STUMP_LENGTH then 0 else 1)"

lemma long_stumps_le: "long_stumps segments \<le> 2"
  by (simp add: long_stumps_def)

lemma length_merge_at: "0 < i \<Longrightarrow> i < length segments \<Longrightarrow> length (merge_at segments i) = length segments - 1"
  by (simp add: merge_at_def splice_at_def)

lemma stump_length_orientation: "\<bar>setOrientationOnLength l STUMP_LENGTH\<bar> = STUMP_LENGTH"
  by (simp add: setOrientationOnLength_def STUMP_LENGTH_def)

lemma find_same_Some:
  assumes "find_same segments = Some next0"
  obtains (merge) i where "0 < i" "i < length segments" "sdir (segments ! i) = sdir (segments ! (i - 1))"
      "i = 1 \<or> i = length segments - 1 \<longrightarrow> segmentOrientation (segments ! (i - 1)) = segmentOrientation (segments ! i)"
      "next0 = merge_at segments i"
    | (source) "1 < length segments" "sdir (segments ! 1) = sdir (segments ! 0)" "shorten_stump segments 0 1 = Some next0"
    | (target) i where "1 < i" "i = length segments - 1" "sdir (segments ! i) = sdir (segments ! (i - 1))"
      "shorten_stump segments i (i - 1) = Some next0"
proof -
  from assms obtain i where i: "i < length segments" "same_at segments i = Some next0"
    by (auto simp: find_same_def find_Some_iff split: option.splits)
  then have d: "0 < i" "sdir (segments ! i) = sdir (segments ! (i - 1))" by (auto simp: same_at_def split: if_splits)
  note at_i = i(2) [unfolded same_at_def]
  consider "next0 = merge_at segments i"
      "i = 1 \<or> i = length segments - 1 \<longrightarrow> segmentOrientation (segments ! (i - 1)) = segmentOrientation (segments ! i)"
    | "i = 1" "shorten_stump segments (i - 1) i = Some next0"
    | "i \<noteq> 1" "i = length segments - 1" "shorten_stump segments i (i - 1) = Some next0"
    using at_i d by (cases "i = 1"; cases "i = length segments - 1") (simp_all split: if_splits)
  then show ?thesis
  proof cases
    case 1
    then show ?thesis using that(1) [OF d(1) i(1) d(2)] by blast
  next
    case 2
    then show ?thesis using that(2) d i(1) by simp
  next
    case 3
    then show ?thesis using that(3) [of i] d by simp
  qed
qed

lemma shorten_stump_Some:
  assumes "shorten_stump segments s k = Some next0"
  shows "\<bar>slen (segments ! s)\<bar> \<noteq> STUMP_LENGTH"
    "next0 = segments[s := (segments ! s)\<lparr>slen := setOrientationOnLength (segmentOrientation (segments ! s)) STUMP_LENGTH\<rparr>,
       k := seg_add (segments ! k) (slen (segments ! s) - setOrientationOnLength (segmentOrientation (segments ! s)) STUMP_LENGTH)]"
  using assms by (auto simp: shorten_stump_def Let_def split: if_splits)

lemma find_same_decreases:
  assumes "find_same segments = Some next0"
  shows "3 * length next0 + long_stumps next0 < 3 * length segments + long_stumps segments"
  using assms
proof (cases rule: find_same_Some)
  case (merge i)
  then show ?thesis using long_stumps_le [of next0] by (simp add: length_merge_at)
next
  case source
  then have "segments \<noteq> []" by auto
  with source show ?thesis using shorten_stump_Some [OF source(3)] stump_length_orientation
    by (cases "length segments \<le> 2") (auto simp: long_stumps_def nth_list_update)
next
  case (target i)
  then have "segments \<noteq> []" by auto
  with target show ?thesis using shorten_stump_Some [OF target(4)] stump_length_orientation
    by (auto simp: long_stumps_def nth_list_update)
qed

function removeSameOrientationSegments :: "segment list \<Rightarrow> segment list" where
  "removeSameOrientationSegments segments =
     (case find_same segments of None \<Rightarrow> segments | Some next0 \<Rightarrow> removeSameOrientationSegments next0)"
  by pat_completeness auto
termination
  by (relation "measure (\<lambda>segments. 3 * length segments + long_stumps segments)") (auto intro: find_same_decreases)

declare removeSameOrientationSegments.simps [simp del]

definition compressSegments :: "segment list \<Rightarrow> segment list" where
  "compressSegments segments =
     removeSameOrientationSegments (removeShortSegments (removeSameOrientationSegments segments))"

section \<open>New connectors\<close>

definition needToGoAround :: "xy \<Rightarrow> xy \<Rightarrow> location \<Rightarrow> bool" where
  "needToGoAround sourcePos targetPos sourceOrientation =
     (let d = dir_of sourceOrientation
      in setOrientationOnLength sourceOrientation (coord d targetPos - coord d sourcePos) < 0)"

definition prepareNode :: "xy \<Rightarrow> location \<Rightarrow> box \<Rightarrow> xy \<Rightarrow> location \<Rightarrow> box \<Rightarrow> segment option" where
  "prepareNode sourcePos sourceOrientation sourceBox targetPos targetOrientation targetBox =
     (if \<not> needToGoAround sourcePos targetPos sourceOrientation then None
      else let swapped = swap_dir (dir_of sourceOrientation);
               travel = orientationFromLength swapped (coord swapped targetPos - coord swapped sourcePos);
               nodeEdge = box_loc sourceBox travel;
               targetNodeEdge = box_loc targetBox (location_swap (OfLocation travel));
               travel1 =
                 (if location_swap (OfLocation sourceOrientation) = targetOrientation \<and> \<bar>nodeEdge - targetNodeEdge\<bar> < STUMP_LENGTH
                  then location_swap (OfLocation travel) else travel)
           in Some \<lparr>sdir = swapped,
                    slen = nodeEdge - coord swapped sourcePos + setOrientationOnLength travel1 STUMP_LENGTH\<rparr>)"

record ends =
  sourceBox :: box
  targetBox :: box
  sourcePos :: xy
  targetPos :: xy
  sourceOrientation :: location
  targetOrientation :: location

text \<open>The stumps of both ends; when their tips are close to each other the stumps share the distance.\<close>

definition end_stumps :: "ends \<Rightarrow> segment \<times> segment" where
  "end_stumps B =
     (let ss = stump (sourceOrientation B);
          ts = stump (targetOrientation B);
          sourceStumpTip = travelSegments (sourcePos B) [ss];
          targetStumpTip = travelSegments (targetPos B) [ts];
          xDist = \<bar>xc sourceStumpTip - xc targetStumpTip\<bar>;
          yDist = \<bar>yc sourceStumpTip - yc targetStumpTip\<bar>
      in if xDist < 2 * STUMP_LENGTH \<and> yDist < 10 then (seg_add ss (- (xDist / 2)), seg_add ts (xDist / 2)) else (ss, ts))"

text \<open>The segments that join the tips: three when the ends point at each other, two otherwise.\<close>

definition joining_segments :: "location \<Rightarrow> location \<Rightarrow> location \<Rightarrow> direction \<Rightarrow> xy \<Rightarrow> xy \<Rightarrow> segment list" where
  "joining_segments sourceStumpOrientation targetOrientation0 targetStumpOrientation sourceStumpDir sourceStumpTip targetStumpTip =
     (if location_swap (OfLocation sourceStumpOrientation) = targetOrientation0
      then let d = dir_of sourceStumpOrientation;
               half = (coord d targetStumpTip - coord d sourceStumpTip) / 2;
               sd = swap_dir d
           in [\<lparr>sdir = d, slen = half\<rparr>, \<lparr>sdir = sd, slen = coord sd targetStumpTip - coord sd sourceStumpTip\<rparr>,
               \<lparr>sdir = d, slen = half\<rparr>]
      else let delta = coord sourceStumpDir targetStumpTip - coord sourceStumpDir sourceStumpTip;
               swapped = swap_dir sourceStumpDir;
               swappedDelta = coord swapped sourceStumpTip - coord swapped targetStumpTip;
               (firstSeg, swapped1) =
                 (if orientationFromLength sourceStumpDir delta = sourceStumpOrientation \<and>
                     orientationFromLength swapped swappedDelta = targetStumpOrientation
                  then (\<lparr>sdir = sourceStumpDir, slen = delta\<rparr>, swapped)
                  else (\<lparr>sdir = swapped, slen = coord swapped targetStumpTip - coord swapped sourceStumpTip\<rparr>, swap_dir swapped))
           in [firstSeg, \<lparr>sdir = swapped1, slen = coord swapped1 targetStumpTip - coord swapped1 sourceStumpTip\<rparr>])"

abbreviation seg_neg :: "segment \<Rightarrow> segment" where "seg_neg s \<equiv> s\<lparr>slen := slen s * - 1\<rparr>"

definition internalNewConnector :: "ends \<Rightarrow> segment list" where
  "internalNewConnector B =
     (let (ss, ts) = end_stumps B;
          sourceTip = travelSegments (sourcePos B) [ss];
          targetTip = travelSegments (targetPos B) [ts];
          (segs, sourceTip1, sourceStumpOrientation, sourceStump) =
            (case prepareNode sourceTip (sourceOrientation B) (sourceBox B) targetTip (targetOrientation B) (targetBox B) of
               None \<Rightarrow> ([ss], sourceTip, sourceOrientation B, ss)
             | Some e \<Rightarrow> ([ss, e], travelSegments sourceTip [e], segmentOrientation e, e));
          extraTarget = prepareNode targetTip (targetOrientation B) (targetBox B) sourceTip1 sourceStumpOrientation (sourceBox B);
          (targetTip1, targetStumpOrientation) =
            (case extraTarget of
               None \<Rightarrow> (targetTip, targetOrientation B)
             | Some e \<Rightarrow> (travelSegments targetTip [e], orientationFromLength (sdir e) (slen e)))
      in segs @
         joining_segments sourceStumpOrientation (targetOrientation B) targetStumpOrientation (sdir sourceStump) sourceTip1 targetTip1 @
         (case extraTarget of None \<Rightarrow> [] | Some e \<Rightarrow> [seg_neg e]) @ [seg_neg ts])"

definition buildNew :: "ends \<Rightarrow> segment list" where
  "buildNew B = compressSegments (internalNewConnector B)"

section \<open>Changes\<close>

definition internalDragSegment :: "segment list \<Rightarrow> nat \<Rightarrow> rat \<Rightarrow> segment list result" where
  "internalDragSegment segments idx magnitude =
     (if idx \<ge> length segments then throw ''TypeError''
      else let seg = segments ! idx;
               d = swap_dir (sdir seg);
               stumpLength = setOrientationOnLength (segmentOrientation seg) STUMP_LENGTH;
               (next0, idx1) =
                 (if idx = 0
                  then let n = [\<lparr>sdir = sdir seg, slen = stumpLength\<rparr>, \<lparr>sdir = d, slen = magnitude\<rparr>] @ segments
                       in (n[2 := seg_add (n ! 2) (- stumpLength)], 2)
                  else (segments[idx - 1 := seg_add (segments ! (idx - 1)) magnitude], idx))
           in return
                (if idx1 = length next0 - 1
                 then let n = next0 @ [\<lparr>sdir = d, slen = - magnitude\<rparr>, \<lparr>sdir = sdir seg, slen = stumpLength\<rparr>]
                      in n[idx1 := seg_add (n ! idx1) (- stumpLength)]
                 else next0[idx1 + 1 := seg_add (next0 ! (idx1 + 1)) (- magnitude)]))"

definition dragSegment :: "segment list \<Rightarrow> nat \<Rightarrow> rat \<Rightarrow> segment list result" where
  "dragSegment segments idx magnitude =
     bind_result (internalDragSegment segments idx magnitude) (\<lambda>n. return (compressSegments n))"

definition findNonTargetIdx :: "segment list \<Rightarrow> (segment \<Rightarrow> nat \<Rightarrow> bool) \<Rightarrow> bool \<Rightarrow> nat list \<Rightarrow> nat option" where
  "findNonTargetIdx segments cb reverse exclude =
     find (\<lambda>i. i \<notin> set exclude \<and> cb (segments ! i) i) (if reverse then rev [0..<length segments] else [0..<length segments])"

definition canAdjustStump :: "direction \<Rightarrow> segment \<Rightarrow> xy \<Rightarrow> bool" where
  "canAdjustStump d seg delta =
     (if sdir seg \<noteq> d then False
      else let next0 = seg_add seg (- coord d delta)
           in (\<bar>slen next0\<bar> > \<bar>slen seg\<bar> \<or> \<bar>slen next0\<bar> > STUMP_LENGTH) \<and>
              segmentOrientation seg = segmentOrientation next0)"

definition adjust_at :: "direction \<Rightarrow> xy \<Rightarrow> segment list \<Rightarrow> nat \<Rightarrow> segment list" where
  "adjust_at d delta segments i = segments[i := seg_add (segments ! i) (- coord d delta)]"

definition moveNodeInDirection :: "direction \<Rightarrow> xy \<Rightarrow> segment list \<Rightarrow> bool \<Rightarrow> segment list result" where
  "moveNodeInDirection d delta segments reverse =
     (if segments = [] then throw ''TypeError''
      else let stumpIdx = (if reverse then length segments - 1 else 0);
               lastIdx = length segments - 1;
               st = segments ! stumpIdx;
               oppositeIdx = (if reverse then 0 else lastIdx);
               opposite = segments ! oppositeIdx;
               swapped = swap_dir d
           in return
                (if canAdjustStump d st delta
                 then if sdir (segments ! lastIdx) = d \<and> \<bar>slen st\<bar> < STUMP_LENGTH then adjust_at d delta segments lastIdx
                      else adjust_at d delta segments stumpIdx
                 else case findNonTargetIdx segments (\<lambda>seg _. sdir seg = d) reverse [stumpIdx] of
                        Some i \<Rightarrow>
                          if i = oppositeIdx
                          then if canAdjustStump d opposite delta then adjust_at d delta segments oppositeIdx
                               else if sdir st = d \<and> \<bar>slen st\<bar> > slen opposite then adjust_at d delta segments stumpIdx
                               else adjust_at d delta segments oppositeIdx
                          else adjust_at d delta segments i
                      | None \<Rightarrow>
                          if length segments = 1
                          then if sdir (segments ! 0) = d then [\<lparr>sdir = d, slen = slen (segments ! 0) - coord d delta\<rparr>]
                               else [\<lparr>sdir = swapped, slen = slen (segments ! 0) / 2\<rparr>, \<lparr>sdir = d, slen = - coord d delta\<rparr>,
                                     \<lparr>sdir = swapped, slen = slen (segments ! 0) / 2\<rparr>]
                          else if sdir st = d then adjust_at d delta segments stumpIdx
                          else [\<lparr>sdir = swapped, slen = slen (segments ! 0)\<rparr>, \<lparr>sdir = d, slen = - coord d delta\<rparr>] @ tl segments))"

definition moveNodeInternal :: "xy \<Rightarrow> segment list \<Rightarrow> bool \<Rightarrow> segment list result" where
  "moveNodeInternal delta segments reverse =
     bind_result (if xc delta \<noteq> 0 then moveNodeInDirection DirX delta segments reverse else return segments)
       (\<lambda>n. if yc delta \<noteq> 0 then moveNodeInDirection DirY delta n reverse else return n)"

definition moveSourceNode :: "xy \<Rightarrow> segment list \<Rightarrow> segment list result" where
  "moveSourceNode delta segments = bind_result (moveNodeInternal delta segments False) (\<lambda>n. return (compressSegments n))"

definition moveTargetNode :: "xy \<Rightarrow> segment list \<Rightarrow> segment list result" where
  "moveTargetNode delta segments = bind_result (moveNodeInternal delta segments True) (\<lambda>n. return (compressSegments n))"

definition internalChangeOrientation :: "location \<Rightarrow> segment list \<Rightarrow> bool \<Rightarrow> segment list result" where
  "internalChangeOrientation orientation segments reverse =
     (if segments = [] then throw ''TypeError''
      else if segmentOrientation (segments ! (if reverse then length segments - 1 else 0)) = orientation then return segments
      else let d = dir_of orientation;
               newStump = stump orientation
           in bind_result (moveNodeInDirection d (xy_set XY_ZERO d (- slen newStump)) segments reverse)
                (\<lambda>n. return (if reverse then n @ [newStump] else newStump # n)))"

definition changeSourceOrientation :: "location \<Rightarrow> segment list \<Rightarrow> segment list result" where
  "changeSourceOrientation orientation segments =
     bind_result (internalChangeOrientation orientation segments False) (\<lambda>n. return (compressSegments n))"

definition changeTargetOrientation :: "location \<Rightarrow> segment list \<Rightarrow> segment list result" where
  "changeTargetOrientation orientation segments =
     bind_result (internalChangeOrientation orientation segments True) (\<lambda>n. return (compressSegments n))"

section \<open>Edges\<close>

text \<open>What an edge remembers between two renderings: the last positions and orientations, and its segments.\<close>

record edge_state =
  sourcePosRef :: xy
  targetPosRef :: xy
  sourceOrientationRef :: location
  targetOrientationRef :: location
  edge_segments :: "segment list"

definition edge_open :: "segment list \<Rightarrow> ends \<Rightarrow> edge_state" where
  "edge_open propsSegments B =
     \<lparr>sourcePosRef = sourcePos B, targetPosRef = targetPos B, sourceOrientationRef = sourceOrientation B,
      targetOrientationRef = targetOrientation B,
      edge_segments = (if length propsSegments > 0 then propsSegments else buildNew B)\<rparr>"

definition checked :: "ends \<Rightarrow> segment list \<Rightarrow> segment list" where
  "checked B next0 = (if checkIntegrity (sourcePos B) (targetPos B) next0 then next0 else buildNew B)"

definition edge_render :: "ends \<Rightarrow> edge_state \<Rightarrow> edge_state result" where
  "edge_render B s =
     (let sourceEq = xy_equals (sourcePos B) (sourcePosRef s) 0;
          targetEq = xy_equals (targetPos B) (targetPosRef s) 0;
          sourceDelta = xy_translation (sourcePosRef s) (sourcePos B);
          targetDelta = xy_translation (targetPos B) (targetPosRef s)
      in if sourceEq \<and> targetEq then return s
         else if xy_equals sourceDelta (xy_scale targetDelta \<lparr>xc = - 1, yc = - 1\<rparr>) (1 / 1000)
         then return (s\<lparr>sourcePosRef := sourcePos B, targetPosRef := targetPos B\<rparr>)
         else if \<not> sourceEq
         then bind_result (moveSourceNode sourceDelta (edge_segments s)) (\<lambda>n.
                let n1 = (if sourceOrientationRef s \<noteq> sourceOrientation B then buildNew B else n)
                in return (s\<lparr>sourceOrientationRef := sourceOrientation B, edge_segments := checked B n1, sourcePosRef := sourcePos B\<rparr>))
         else bind_result (moveTargetNode targetDelta (edge_segments s)) (\<lambda>n.
                let n1 = (if targetOrientationRef s \<noteq> targetOrientation B then buildNew B else n)
                in return (s\<lparr>targetOrientationRef := targetOrientation B, edge_segments := checked B n1, targetPosRef := targetPos B\<rparr>)))"

text \<open>Dragging a segment of an edge: the segments when the drag began, and the distance so far.\<close>

definition edge_drag :: "segment list \<Rightarrow> nat \<Rightarrow> rat \<Rightarrow> edge_state \<Rightarrow> edge_state result" where
  "edge_drag segments idx magnitude s =
     bind_result (dragSegment segments idx magnitude) (\<lambda>n. return (s\<lparr>edge_segments := n\<rparr>))"

end
