(* ===== verification/Connector_Laws.thy ===== *)
theory Connector_Laws
  imports Connector
begin

text \<open>
  Connectors stay attached to their nodes: new connectors lead from the source to the target, compression and
  the operations that follow a moved node keep both ends up to a quarter of a pixel, and an edge is never
  rendered off its nodes.
\<close>

section \<open>Where a connector leads\<close>

definition extent :: "direction \<Rightarrow> segment list \<Rightarrow> rat" where
  "extent d segs = sum_list (map (\<lambda>s. if sdir s = d then slen s else 0) segs)"

lemma extent_simps [simp]:
  "extent d [] = 0"
  "extent d (s # segs) = (if sdir s = d then slen s else 0) + extent d segs"
  "extent d (xs @ ys) = extent d xs + extent d ys"
  by (simp_all add: extent_def)

lemma coord_simps [simp]:
  "coord d (translate_direction p d' v) = coord d p + (if d = d' then v else 0)"
  by (cases d; cases d') (simp_all add: coord_def translate_direction_def translateX_def translateY_def)

lemma xy_eqI: "(\<And>d. coord d p = coord d q) \<Longrightarrow> p = (q :: xy)"
  by (metis coord_def direction.simps(3,4) xy.surjective old.unit.exhaust)

lemma coord_travel [simp]: "coord d (travelSegments p segs) = coord d p + extent d segs"
proof -
  have "coord d (foldl (\<lambda>c s. translate_direction c (sdir s) (slen s)) p segs) = coord d p + extent d segs"
    by (induction segs arbitrary: p) auto
  then show ?thesis by (simp add: travelSegments_def)
qed

lemma extent_update:
  assumes "i < length segs" "sdir v = sdir (segs ! i)"
  shows "extent d (segs[i := v]) = extent d segs + (if d = sdir v then slen v - slen (segs ! i) else 0)"
  using assms by (induction segs arbitrary: i) (auto split: nat.splits)

lemma extent_remove:
  assumes "i < length segs"
  shows "extent d (splice_at i 1 [] segs) = extent d segs - (if d = sdir (segs ! i) then slen (segs ! i) else 0)"
proof -
  have "extent d segs = extent d (take i segs @ segs ! i # drop (Suc i) segs)" using id_take_nth_drop [OF assms] by simp
  then show ?thesis by (simp add: splice_at_def)
qed

lemma swap_dir_simps [simp]: "swap_dir d \<noteq> d" "d \<noteq> swap_dir d" "swap_dir (swap_dir d) = d"
  by (cases d; simp add: direction_swap_def direction_construct_def)+

lemma direction_cases: "e = d \<or> e = swap_dir d"
  by (cases d; cases e) (simp_all add: direction_swap_def direction_construct_def)

section \<open>Compression\<close>

lemma extent_merge: "0 < i \<Longrightarrow> i < length segs \<Longrightarrow> sdir (segs ! i) = sdir (segs ! (i - 1)) \<Longrightarrow>
    extent d (merge_at segs i) = extent d segs"
  by (simp add: merge_at_def extent_remove extent_update)

lemma extent_shorten:
  assumes "shorten_stump segs s k = Some next0" "s \<noteq> k" "s < length segs" "k < length segs" "sdir (segs ! s) = sdir (segs ! k)"
  shows "extent d next0 = extent d segs"
  using assms(2-) by (simp add: shorten_stump_Some(2) [OF assms(1)] extent_update)

lemma extent_find_same: "find_same segs = Some next0 \<Longrightarrow> extent d next0 = extent d segs"
  by (erule find_same_Some) (auto simp: extent_merge intro: extent_shorten)

lemma extent_removeSame [simp]: "extent d (removeSameOrientationSegments segs) = extent d segs"
proof (induction segs rule: removeSameOrientationSegments.induct)
  case (1 segs)
  then show ?case using extent_find_same [of segs]
    by (subst removeSameOrientationSegments.simps) (simp split: option.splits)
qed

lemma removeSame_fixed: "find_same (removeSameOrientationSegments segs) = None"
proof (induction segs rule: removeSameOrientationSegments.induct)
  case (1 segs)
  then show ?case by (subst removeSameOrientationSegments.simps) (simp split: option.splits)
qed

lemma short_at_Some:
  assumes "short_at segs i = Some next0" "i < length segs"
  shows "0 < i" "Suc i < length segs" "length next0 = length segs"
    "\<exists>v. \<bar>v\<bar> < 1 / 4 \<and> (\<forall>d. extent d (splice_at i 1 [] next0) = extent d segs - (if d = sdir (segs ! i) then v else 0))"
proof -
  let ?s = "segs ! i"
  have i: "\<not> (i = 0 \<or> i = length segs - 1)" using assms(1) by (auto simp: short_at_def Let_def split: if_splits)
  then show "0 < i" "Suc i < length segs" using assms(2) by auto
  consider "next0 = segs" "\<bar>slen ?s\<bar> < 1 / 4"
    | j where "next0 = segs[j := seg_add (segs ! j) (slen ?s)]" "j \<noteq> i" "j < length segs" "sdir (segs ! j) = sdir ?s"
  proof (cases "\<bar>slen ?s\<bar> < 1 / 4")
    case True
    then show ?thesis using that(1) assms(1) i by (auto simp: short_at_def Let_def DIRECT_REMOVAL_THRESHOLD_def split: if_splits)
  next
    case False
    show ?thesis
    proof (cases "i + 2 < length segs")
      case True
      then show ?thesis using that(2) [of "i + 2"] False assms i
        by (auto simp: short_at_def Let_def DIRECT_REMOVAL_THRESHOLD_def split: if_splits)
    next
      case no: False
      then have "length segs > 3" "next0 = segs[i - 2 := seg_add (segs ! (i - 2)) (slen ?s)]" "sdir (segs ! (i - 2)) = sdir ?s"
        using False assms i by (auto simp: short_at_def Let_def DIRECT_REMOVAL_THRESHOLD_def split: if_splits)
      then show ?thesis using that(2) [of "i - 2"] no i assms(2) by simp
    qed
  qed
  then show "length next0 = length segs"
    "\<exists>v. \<bar>v\<bar> < 1 / 4 \<and> (\<forall>d. extent d (splice_at i 1 [] next0) = extent d segs - (if d = sdir ?s then v else 0))"
    using assms(2) by (cases; force simp: extent_remove extent_update intro: exI [of _ 0])+
qed

text \<open>Two connectors that end within a quarter of a pixel of each other, off along one axis at most.\<close>

definition close_to :: "segment list \<Rightarrow> segment list \<Rightarrow> bool" where
  "close_to segs next0 \<longleftrightarrow> (\<exists>d0 v. \<bar>v\<bar> < 1 / 4 \<and> (\<forall>d. extent d next0 = extent d segs - (if d = d0 then v else 0)))"

lemma removeShort_close: "close_to segs (removeShortSegments segs)"
proof (cases "find (\<lambda>i. short_at segs i \<noteq> None) [0..<length segs]")
  case None
  then show ?thesis unfolding close_to_def removeShortSegments_def by (intro exI [of _ DirX] exI [of _ 0]) simp
next
  case (Some i)
  then obtain next0 where n: "i < length segs" "short_at segs i = Some next0" by (auto simp: find_Some_iff)
  from short_at_Some(4) [OF n(2,1)] Some n show ?thesis by (auto simp: close_to_def removeShortSegments_def)
qed

lemma compress_close: "close_to segs (compressSegments segs)"
  using removeShort_close [of "removeSameOrientationSegments segs"] by (simp add: close_to_def compressSegments_def)

text \<open>
  Between the stumps no two neighbours of a compressed connector are parallel, and compressing parallel segments
  again changes nothing.
\<close>

lemma compressed_alternates:
  assumes "2 \<le> i" "i + 1 < length (compressSegments segs)"
  shows "sdir (compressSegments segs ! i) \<noteq> sdir (compressSegments segs ! (i - 1))"
proof -
  let ?c = "compressSegments segs"
  have "find_same ?c = None" unfolding compressSegments_def by (rule removeSame_fixed)
  moreover have "i \<in> set [0..<length ?c]" using assms(2) by simp
  ultimately have "same_at ?c i = None" by (auto simp: find_same_def find_None_iff find_Some_iff split: option.splits)
  then show ?thesis using assms by (auto simp: same_at_def split: if_splits)
qed

lemma removeSame_idempotent: "removeSameOrientationSegments (removeSameOrientationSegments segs) = removeSameOrientationSegments segs"
  by (subst removeSameOrientationSegments.simps) (simp add: removeSame_fixed)

lemma length_shorten: "shorten_stump segs s k = Some next0 \<Longrightarrow> length next0 = length segs"
  by (auto simp: shorten_stump_def Let_def split: if_splits)

lemma find_same_not_empty: "find_same segs = Some next0 \<Longrightarrow> segs \<noteq> [] \<and> next0 \<noteq> []"
  by (erule find_same_Some) (auto dest!: length_shorten simp: length_merge_at simp flip: length_greater_0_conv)

lemma removeSame_not_empty [simp]: "removeSameOrientationSegments segs = [] \<longleftrightarrow> segs = []"
proof (induction segs rule: removeSameOrientationSegments.induct)
  case (1 segs)
  show ?case
  proof (cases "find_same segs")
    case None
    then show ?thesis by (simp add: removeSameOrientationSegments.simps [of segs])
  next
    case (Some next0)
    then show ?thesis using 1 [OF Some] find_same_not_empty [OF Some]
      by (simp add: removeSameOrientationSegments.simps [of segs])
  qed
qed

lemma removeShort_not_empty [simp]: "removeShortSegments segs = [] \<longleftrightarrow> segs = []"
proof (cases "find (\<lambda>i. short_at segs i \<noteq> None) [0..<length segs]")
  case (Some i)
  then obtain next0 where n: "i < length segs" "short_at segs i = Some next0" by (auto simp: find_Some_iff)
  note s = short_at_Some(1-3) [OF n(2,1)]
  then have "length (splice_at i 1 [] next0) = length segs - 1" by (simp add: splice_at_def)
  then show ?thesis using Some n s by (auto simp: removeShortSegments_def)
qed (simp add: removeShortSegments_def)

lemma compress_not_empty [simp]: "compressSegments segs = [] \<longleftrightarrow> segs = []"
  by (simp add: compressSegments_def)

section \<open>New connectors\<close>

lemma extent_joining:
  "extent e (joining_segments so t0 tso sd p q) = coord e q - coord e p"
proof (cases "location_swap (OfLocation so) = t0")
  case True
  then show ?thesis using direction_cases [of e "dir_of so"] by (auto simp: joining_segments_def Let_def)
next
  case False
  then show ?thesis using direction_cases [of e sd] by (auto simp: joining_segments_def Let_def)
qed

lemma extent_new: "extent e (internalNewConnector B) = coord e (targetPos B) - coord e (sourcePos B)"
  by (simp add: internalNewConnector_def extent_joining Let_def split: prod.splits option.splits)

lemma internalNewConnector_not_empty: "internalNewConnector B \<noteq> []"
  by (simp add: internalNewConnector_def Let_def split: prod.splits)

lemma check_of_close:
  assumes "close_to segs next0" "travelSegments p segs = q"
  shows "checkIntegrity p q next0"
proof -
  obtain d0 v where v: "\<bar>v\<bar> < 1 / 4" "\<And>d. extent d next0 = extent d segs - (if d = d0 then v else 0)"
    using assms(1) by (auto simp: close_to_def)
  let ?t = "travelSegments p next0"
  have c: "coord d ?t - coord d q = (if d = d0 then - v else 0)" for d
    using v(2) [of d] unfolding assms(2) [symmetric] by simp
  have "v ^ 2 < 1" using v(1) by (simp add: abs_square_less_1)
  with c [of DirX] c [of DirY] show ?thesis by (cases d0) (simp_all add: checkIntegrity_def Let_def coord_def)
qed

lemma new_reaches: "travelSegments (sourcePos B) (internalNewConnector B) = targetPos B"
  by (rule xy_eqI) (simp add: extent_new)

lemma buildNew_attached: "buildNew B \<noteq> []" "checkIntegrity (sourcePos B) (targetPos B) (buildNew B)"
  using check_of_close [OF compress_close new_reaches] internalNewConnector_not_empty [of B] by (simp_all add: buildNew_def)

text \<open>
  A new connector leads from its source to its target, whatever the boxes and orientations of the nodes: the
  segments before compression end exactly at the target, and those after it pass the check of integrity,
  so that rebuilding a connector that failed the check always repairs it.
\<close>

theorem new_connector_connects:
  "travelSegments (sourcePos B) (internalNewConnector B) = targetPos B \<and>
   buildNew B \<noteq> [] \<and> checkIntegrity (sourcePos B) (targetPos B) (buildNew B)"
  using new_reaches buildNew_attached by blast

section \<open>Moved nodes\<close>

lemma extent_adjust: "i < length segs \<Longrightarrow> sdir (segs ! i) = d \<Longrightarrow>
    extent e (adjust_at d delta segs i) = extent e segs - (if e = d then coord d delta else 0)"
  by (simp add: adjust_at_def extent_update)

lemma canAdjustStump_dir: "canAdjustStump d s delta \<Longrightarrow> sdir s = d"
  by (auto simp: canAdjustStump_def split: if_splits)

lemma findNonTarget_Some:
  "findNonTargetIdx segs (\<lambda>s _. sdir s = d) reverse [k] = Some i \<Longrightarrow> i < length segs \<and> sdir (segs ! i) = d"
  by (auto simp: findNonTargetIdx_def find_Some_iff rev_nth split: if_splits)

lemma findNonTarget_None:
  assumes "findNonTargetIdx segs (\<lambda>s _. sdir s = d) reverse [k] = None" "i < length segs" "i \<noteq> k"
  shows "sdir (segs ! i) \<noteq> d"
  using assms by (auto simp: findNonTargetIdx_def find_None_iff split: if_splits)

lemma extent_hd: "segs \<noteq> [] \<Longrightarrow> extent e segs = (if sdir (segs ! 0) = e then slen (segs ! 0) else 0) + extent e (tl segs)"
  by (cases segs) auto

lemma move_cases:
  assumes "moveNodeInDirection d delta segs reverse = Inr next0"
  obtains (adjust) i where "i < length segs" "sdir (segs ! i) = d" "next0 = adjust_at d delta segs i"
    | (split) "segs \<noteq> []" "length segs = 1" "sdir (segs ! 0) \<noteq> d"
        "next0 = [\<lparr>sdir = swap_dir d, slen = slen (segs ! 0) / 2\<rparr>, \<lparr>sdir = d, slen = - coord d delta\<rparr>,
           \<lparr>sdir = swap_dir d, slen = slen (segs ! 0) / 2\<rparr>]"
    | (insert) "segs \<noteq> []" "sdir (segs ! 0) \<noteq> d"
        "next0 = [\<lparr>sdir = swap_dir d, slen = slen (segs ! 0)\<rparr>, \<lparr>sdir = d, slen = - coord d delta\<rparr>] @ tl segs"
proof -
  let ?last = "length segs - 1"
  let ?k = "if reverse then ?last else 0"
  let ?f = "findNonTargetIdx segs (\<lambda>s _. sdir s = d) reverse [?k]"
  have segs: "segs \<noteq> []" using assms by (auto simp: moveNodeInDirection_def)
  then have range: "?k < length segs" "?last < length segs" by simp_all
  note run = assms [unfolded moveNodeInDirection_def]
  show ?thesis
  proof (cases "canAdjustStump d (segs ! ?k) delta")
    case True
    then show ?thesis using run range segs that(1) [of ?k] that(1) [of ?last] canAdjustStump_dir [OF True]
      by (auto simp: Let_def split: if_splits)
  next
    case no: False
    show ?thesis
    proof (cases ?f)
      case (Some i)
      then show ?thesis using run no segs range that(1) [of ?k] that(1) [of i] findNonTarget_Some [OF Some]
        by (auto simp: Let_def split: if_splits)
    next
      case None
      show ?thesis
      proof (cases "sdir (segs ! ?k) = d")
        case d: True
        show ?thesis
        proof (cases "length segs = 1")
          case True
          then obtain s where "segs = [s]" by (cases segs) auto
          then have "next0 = adjust_at d delta segs 0" using run no None d by (cases s) (auto simp: Let_def adjust_at_def)
          then show ?thesis using that(1) [of 0] d \<open>segs = [s]\<close> by (cases reverse) simp_all
        next
          case False
          then show ?thesis using run no None d segs range that(1) [of ?k] by (simp add: Let_def)
        qed
      next
        case False
        then have "sdir (segs ! 0) \<noteq> d" using findNonTarget_None [OF None, of 0] segs by (cases "0 = ?k") auto
        then show ?thesis using run no None False segs that(2,3) by (auto simp: Let_def split: if_splits)
      qed
    qed
  qed
qed

lemma move_in_direction:
  assumes "segs \<noteq> []"
  obtains next0 where "moveNodeInDirection d delta segs reverse = Inr next0" "next0 \<noteq> []"
    "\<And>e. extent e next0 = extent e segs - (if e = d then coord d delta else 0)"
proof -
  obtain next0 where n: "moveNodeInDirection d delta segs reverse = Inr next0"
    using assms by (simp add: moveNodeInDirection_def Let_def)
  then have "next0 \<noteq> [] \<and> (\<forall>e. extent e next0 = extent e segs - (if e = d then coord d delta else 0))"
  proof (cases rule: move_cases)
    case (adjust i)
    then show ?thesis using assms by (simp add: extent_adjust) (simp add: adjust_at_def)
  next
    case split
    then show ?thesis using direction_cases [of "sdir (segs ! 0)" d] by (cases segs) auto
  next
    case insert
    then show ?thesis using direction_cases [of "sdir (segs ! 0)" d] extent_hd [OF assms] by auto
  qed
  then show ?thesis using that n by blast
qed

lemma maybe_move:
  assumes "segs \<noteq> []"
  obtains next0 where "(if coord d delta \<noteq> 0 then moveNodeInDirection d delta segs reverse else return segs) = Inr next0"
    "next0 \<noteq> []" "\<And>e. extent e next0 = extent e segs - (if e = d then coord d delta else 0)"
proof (cases "coord d delta = 0")
  case True
  then show ?thesis using that [of segs] assms by simp
next
  case False
  show ?thesis by (rule move_in_direction [OF assms, of d delta reverse]) (use that False in simp)
qed

lemma move_internal:
  assumes "segs \<noteq> []"
  obtains next0 where "moveNodeInternal delta segs reverse = Inr next0" "next0 \<noteq> []"
    "\<And>e. extent e next0 = extent e segs - coord e delta"
proof -
  obtain n1 where n1: "(if coord DirX delta \<noteq> 0 then moveNodeInDirection DirX delta segs reverse else return segs) = Inr n1" "n1 \<noteq> []"
    "\<And>e. extent e n1 = extent e segs - (if e = DirX then coord DirX delta else 0)"
    by (rule maybe_move [OF assms, where d = DirX and delta = delta and reverse = reverse]) (rule that)
  obtain n2 where n2: "(if coord DirY delta \<noteq> 0 then moveNodeInDirection DirY delta n1 reverse else return n1) = Inr n2" "n2 \<noteq> []"
    "\<And>e. extent e n2 = extent e n1 - (if e = DirY then coord DirY delta else 0)"
    by (rule maybe_move [OF n1(2), where d = DirY and delta = delta and reverse = reverse]) (rule that)
  have "extent e n2 = extent e segs - coord e delta" for e using n1(3) [of e] n2(3) [of e] by (cases e) simp_all
  then show ?thesis using that n1(1) n2(1,2) by (simp add: moveNodeInternal_def coord_def)
qed

text \<open>
  C11: A connector follows its nodes: when the source moves by a distance, the changed connector leads from the
  new position of the source to within a quarter of a pixel of where the old one ended, and when the
  target moves, to within a quarter of a pixel of where the target went; in both cases the end is off
  along one axis at most, the connector is not empty, and the operation does not throw.
\<close>

theorem connector_follows_nodes:
  assumes "segs \<noteq> []"
  shows "\<exists>next_s next_t sdev tdev d e.
    moveSourceNode delta segs = Inr next_s \<and> next_s \<noteq> [] \<and> \<bar>sdev\<bar> < 1 / 4 \<and>
    travelSegments (xy_translate [p, delta]) next_s = translate_direction (travelSegments p segs) d sdev \<and>
    moveTargetNode delta segs = Inr next_t \<and> next_t \<noteq> [] \<and> \<bar>tdev\<bar> < 1 / 4 \<and>
    travelSegments p next_t = translate_direction (xy_sub (travelSegments p segs) delta) e tdev"
proof -
  have "\<exists>next0. bind_result (moveNodeInternal delta segs reverse) (\<lambda>n. return (compressSegments n)) = Inr next0 \<and> next0 \<noteq> [] \<and>
    (\<exists>d v. \<bar>v\<bar> < 1 / 4 \<and> (\<forall>e. extent e next0 = extent e segs - coord e delta + (if e = d then v else 0)))" for reverse
  proof -
    obtain n where n: "moveNodeInternal delta segs reverse = Inr n" "n \<noteq> []" "\<And>e. extent e n = extent e segs - coord e delta"
      using move_internal [OF assms] by blast
    obtain d v where v: "\<bar>v\<bar> < 1 / 4" "\<And>e. extent e (compressSegments n) = extent e n - (if e = d then v else 0)"
      using compress_close [of n] by (auto simp: close_to_def)
    have "\<exists>d v. \<bar>v\<bar> < 1 / 4 \<and> (\<forall>e. extent e (compressSegments n) = extent e segs - coord e delta + (if e = d then v else 0))"
      using v n(3) by (intro exI [of _ d] exI [of _ "- v"]) auto
    then show ?thesis using n by simp
  qed
  from this [of False] this [of True]
  obtain ns d v nt e w where
    s: "moveSourceNode delta segs = Inr ns" "ns \<noteq> []" "\<bar>v\<bar> < 1 / 4" "\<And>c. extent c ns = extent c segs - coord c delta + (if c = d then v else 0)"
    and t: "moveTargetNode delta segs = Inr nt" "nt \<noteq> []" "\<bar>w\<bar> < 1 / 4" "\<And>c. extent c nt = extent c segs - coord c delta + (if c = e then w else 0)"
    unfolding moveSourceNode_def moveTargetNode_def by metis
  have c: "coord c (xy_translate [p, delta]) = coord c p + coord c delta" "coord c (xy_sub q delta) = coord c q - coord c delta" for c q
    by (cases c; simp add: coord_def xy_translate_def xy_sub_def XY_ZERO_def)+
  have "travelSegments (xy_translate [p, delta]) ns = translate_direction (travelSegments p segs) d v"
    by (rule xy_eqI) (simp add: c s(4))
  moreover have "travelSegments p nt = translate_direction (xy_sub (travelSegments p segs) delta) e w"
    by (rule xy_eqI) (simp add: c t(4))
  ultimately show ?thesis using s t by blast
qed

theorem connector_follows_nodes_witness:
  "[\<lparr>sdir = DirX, slen = 20\<rparr>] \<noteq> [] \<and>
   (\<exists>next_s next_t sdev tdev d e.
    moveSourceNode \<lparr>xc = 3, yc = 5\<rparr> [\<lparr>sdir = DirX, slen = 20\<rparr>] = Inr next_s \<and> next_s \<noteq> [] \<and> \<bar>sdev\<bar> < 1 / 4 \<and>
    travelSegments (xy_translate [XY_ZERO, \<lparr>xc = 3, yc = 5\<rparr>]) next_s =
      translate_direction (travelSegments XY_ZERO [\<lparr>sdir = DirX, slen = 20\<rparr>]) d sdev \<and>
    moveTargetNode \<lparr>xc = 3, yc = 5\<rparr> [\<lparr>sdir = DirX, slen = 20\<rparr>] = Inr next_t \<and> next_t \<noteq> [] \<and> \<bar>tdev\<bar> < 1 / 4 \<and>
    travelSegments XY_ZERO next_t =
      translate_direction (xy_sub (travelSegments XY_ZERO [\<lparr>sdir = DirX, slen = 20\<rparr>]) \<lparr>xc = 3, yc = 5\<rparr>) e tdev)"
  using connector_follows_nodes [of "[\<lparr>sdir = DirX, slen = 20\<rparr>]" "\<lparr>xc = 3, yc = 5\<rparr>" XY_ZERO] by simp

section \<open>Dragging\<close>

definition alone :: "segment list \<Rightarrow> nat \<Rightarrow> bool" where
  "alone segs i \<longleftrightarrow>
     (0 < i \<longrightarrow> sdir (segs ! (i - 1)) \<noteq> sdir (segs ! i)) \<and> (i + 1 < length segs \<longrightarrow> sdir (segs ! (i + 1)) \<noteq> sdir (segs ! i))"

text \<open>The first half of a drag: the neighbour before the segment takes the distance.\<close>

lemma drag_before:
  assumes "i < length segs" "alone segs i"
  obtains next0 j st where "j < length next0" "sdir (next0 ! j) = sdir (segs ! i)"
    "st = setOrientationOnLength (segmentOrientation (segs ! i)) STUMP_LENGTH"
    "j + 1 < length next0 \<longrightarrow> sdir (next0 ! (j + 1)) = swap_dir (sdir (segs ! i))"
    "\<And>e. extent e next0 = extent e segs + (if e = swap_dir (sdir (segs ! i)) then m else 0)"
    "internalDragSegment segs i m = Inr
       (if j = length next0 - 1
        then (next0 @ [\<lparr>sdir = swap_dir (sdir (segs ! i)), slen = - m\<rparr>, \<lparr>sdir = sdir (segs ! i), slen = st\<rparr>])
               [j := seg_add (next0 ! j) (- st)]
        else next0[j + 1 := seg_add (next0 ! (j + 1)) (- m)])"
proof -
  let ?d = "swap_dir (sdir (segs ! i))"
  let ?st = "setOrientationOnLength (segmentOrientation (segs ! i)) STUMP_LENGTH"
  show ?thesis
  proof (cases i)
    case 0
    then obtain s ss where segs: "segs = s # ss" using assms(1) by (cases segs) auto
    let ?n = "[\<lparr>sdir = sdir s, slen = ?st\<rparr>, \<lparr>sdir = ?d, slen = m\<rparr>, seg_add s (- ?st)] @ ss"
    have "internalDragSegment segs i m = Inr
       (if 2 = length ?n - 1
        then (?n @ [\<lparr>sdir = ?d, slen = - m\<rparr>, \<lparr>sdir = sdir (segs ! i), slen = ?st\<rparr>])[2 := seg_add (?n ! 2) (- ?st)]
        else ?n[2 + 1 := seg_add (?n ! (2 + 1)) (- m)])"
      using 0 segs by (simp add: internalDragSegment_def Let_def numeral_2_eq_2 nth_append)
    moreover have "2 + 1 < length ?n \<longrightarrow> sdir (?n ! (2 + 1)) = ?d"
      using assms(2) 0 segs direction_cases [of "sdir (ss ! 0)" "sdir s"] by (cases ss) (auto simp: alone_def)
    moreover have "extent e ?n = extent e segs + (if e = ?d then m else 0)" for e using segs 0 by auto
    ultimately show ?thesis using that [of 2 ?n ?st] 0 segs by (simp add: numeral_2_eq_2)
  next
    case (Suc k)
    let ?n = "segs[k := seg_add (segs ! k) m]"
    have d: "sdir (segs ! k) = ?d"
      using assms(2) Suc direction_cases [of "sdir (segs ! k)" "sdir (segs ! i)"] by (auto simp: alone_def)
    have "internalDragSegment segs i m = Inr
       (if i = length ?n - 1
        then (?n @ [\<lparr>sdir = ?d, slen = - m\<rparr>, \<lparr>sdir = sdir (segs ! i), slen = ?st\<rparr>])[i := seg_add (?n ! i) (- ?st)]
        else ?n[i + 1 := seg_add (?n ! (i + 1)) (- m)])"
      using Suc assms(1) by (simp add: internalDragSegment_def Let_def nth_append)
    moreover have "i + 1 < length ?n \<longrightarrow> sdir (?n ! (i + 1)) = ?d"
      using assms(2) Suc direction_cases [of "sdir (segs ! (i + 1))" "sdir (segs ! i)"] by (auto simp: alone_def)
    moreover have "extent e ?n = extent e segs + (if e = ?d then m else 0)" for e
      using Suc assms(1) d by (simp add: extent_update)
    ultimately show ?thesis using that [of i ?n ?st] Suc assms(1) by simp
  qed
qed

lemma drag_extent:
  assumes "i < length segs" "alone segs i"
  obtains next0 where "internalDragSegment segs i m = Inr next0" "\<And>e. extent e next0 = extent e segs"
proof (rule drag_before [OF assms, where m = m])
  let ?d = "swap_dir (sdir (segs ! i))"
  fix next0 j st
  assume j: "j < length next0" "sdir (next0 ! j) = sdir (segs ! i)" "j + 1 < length next0 \<longrightarrow> sdir (next0 ! (j + 1)) = ?d"
    and e: "\<And>e. extent e next0 = extent e segs + (if e = ?d then m else 0)"
    and run: "internalDragSegment segs i m = Inr
       (if j = length next0 - 1
        then (next0 @ [\<lparr>sdir = ?d, slen = - m\<rparr>, \<lparr>sdir = sdir (segs ! i), slen = st\<rparr>])[j := seg_add (next0 ! j) (- st)]
        else next0[j + 1 := seg_add (next0 ! (j + 1)) (- m)])"
  show thesis
  proof (cases "j = length next0 - 1")
    case True
    let ?r = "next0 @ [\<lparr>sdir = ?d, slen = - m\<rparr>, \<lparr>sdir = sdir (segs ! i), slen = st\<rparr>]"
    have "extent c (?r[j := seg_add (next0 ! j) (- st)]) = extent c segs" for c
      using j(1,2) e [of c] by (simp add: extent_update list_update_append)
    then show thesis using that run True by simp
  next
    case False
    then have "extent c (next0[j + 1 := seg_add (next0 ! (j + 1)) (- m)]) = extent c segs" for c
      using j e [of c] by (simp add: extent_update)
    then show thesis using that run False by simp
  qed
qed

text \<open>
  Dragging a segment keeps both ends of the connector: when the neighbours of the segment are not parallel
  to it, the dragged connector ends where it ended before, up to the quarter of a pixel that compression
  may take.
\<close>

theorem drag_keeps_ends:
  assumes "i < length segs" and "alone segs i"
  shows "\<exists>next0 d v. dragSegment segs i m = Inr next0 \<and> \<bar>v\<bar> < 1 / 4 \<and>
    travelSegments p next0 = translate_direction (travelSegments p segs) d v"
proof (rule drag_extent [OF assms, where m = m])
  fix n assume n: "internalDragSegment segs i m = Inr n" "\<And>e. extent e n = extent e segs"
  obtain d v where v: "\<bar>v\<bar> < 1 / 4" "\<And>e. extent e (compressSegments n) = extent e n - (if e = d then v else 0)"
    using compress_close [of n] by (auto simp: close_to_def)
  have "travelSegments p (compressSegments n) = translate_direction (travelSegments p segs) d (- v)"
    by (rule xy_eqI) (simp add: v(2) n(2))
  then show ?thesis using v(1) n(1) by (intro exI [of _ "compressSegments n"] exI [of _ d] exI [of _ "- v"]) (simp add: dragSegment_def)
qed

theorem drag_keeps_ends_witness:
  "0 < length [\<lparr>sdir = DirX, slen = 20\<rparr>] \<and> alone [\<lparr>sdir = DirX, slen = 20\<rparr>] 0 \<and>
   (\<exists>next0 d v. dragSegment [\<lparr>sdir = DirX, slen = 20\<rparr>] 0 7 = Inr next0 \<and> \<bar>v\<bar> < 1 / 4 \<and>
     travelSegments XY_ZERO next0 = translate_direction (travelSegments XY_ZERO [\<lparr>sdir = DirX, slen = 20\<rparr>]) d v)"
proof -
  have a: "alone [\<lparr>sdir = DirX, slen = 20\<rparr>] 0" by (simp add: alone_def)
  then show ?thesis using drag_keeps_ends [OF _ a, of 7 XY_ZERO] by simp
qed

text \<open>A segment beside a stump in its own direction: the connector ended 20 to the left of and 20 below its source, and
  after the drag it ends 30 to the right of and 30 above it.\<close>

lemma drag_beside_stump_detaches:
  "dragSegment [\<lparr>sdir = DirX, slen = 10\<rparr>, \<lparr>sdir = DirX, slen = - 30\<rparr>, \<lparr>sdir = DirY, slen = 20\<rparr>] 1 50 =
     Inr [\<lparr>sdir = DirX, slen = 30\<rparr>, \<lparr>sdir = DirY, slen = - 30\<rparr>]"
  by code_simp

text \<open>
  The exported functions for a changed orientation are not called by the edge; they lengthen the connector by the new
  stump twice instead of making room for it.
\<close>

lemma changed_orientation_detaches:
  "changeSourceOrientation RightLoc [\<lparr>sdir = DirY, slen = 40\<rparr>, \<lparr>sdir = DirX, slen = 40\<rparr>] =
     Inr [\<lparr>sdir = DirX, slen = 10\<rparr>, \<lparr>sdir = DirY, slen = 40\<rparr>, \<lparr>sdir = DirX, slen = 50\<rparr>]"
  by code_simp

section \<open>Edges\<close>

lemma checked_attached: "n \<noteq> [] \<Longrightarrow> checked B n \<noteq> [] \<and> checkIntegrity (sourcePos B) (targetPos B) (checked B n)"
  using buildNew_attached [of B] by (simp add: checked_def)

lemma move_succeeds:
  assumes "segs \<noteq> []"
  obtains ns nt where "moveSourceNode delta segs = Inr ns" "ns \<noteq> []" "moveTargetNode delta segs = Inr nt" "nt \<noteq> []"
proof -
  obtain n m where "moveNodeInternal delta segs False = Inr n" "n \<noteq> []" "moveNodeInternal delta segs True = Inr m" "m \<noteq> []"
    using move_internal [OF assms] by metis
  then show ?thesis using that by (simp add: moveSourceNode_def moveTargetNode_def)
qed

text \<open>Whether an edge keeps its connector in a rendering: no node moved, or both by the same distance.\<close>

definition keeps_connector :: "ends \<Rightarrow> edge_state \<Rightarrow> bool" where
  "keeps_connector B s \<longleftrightarrow>
     xy_equals (sourcePos B) (sourcePosRef s) 0 \<and> xy_equals (targetPos B) (targetPosRef s) 0 \<or>
     xy_equals (xy_translation (sourcePosRef s) (sourcePos B))
       (xy_scale (xy_translation (targetPos B) (targetPosRef s)) \<lparr>xc = - 1, yc = - 1\<rparr>) (1 / 1000)"

text \<open>
  C12: How the rendering of an edge with at least one segment reattaches it when its nodes have moved since
  the last rendering: it does not throw and leaves at least one segment. When no node moved, or when the
  moves of the two nodes differ by at most 1/1000 in each coordinate, the segments are kept as they are,
  attached or not (so small differences add up over renderings, and a connector that a drag has detached,
  connector.ts:500, stays detached until then); in every other case the connector that is rendered leads
  from the source to less than a pixel from the target. An edge that is opened without segments starts with
  a connector that is attached in this sense.
\<close>

theorem edge_stays_attached:
  assumes "edge_segments s \<noteq> []"
  shows "\<exists>s'. edge_render B s = Inr s' \<and> edge_segments s' \<noteq> [] \<and>
    (if keeps_connector B s then edge_segments s' = edge_segments s
     else checkIntegrity (sourcePos B) (targetPos B) (edge_segments s')) \<and>
    checkIntegrity (sourcePos B) (targetPos B) (edge_segments (edge_open [] B))"
proof -
  obtain ns nt where n: "moveSourceNode (xy_translation (sourcePosRef s) (sourcePos B)) (edge_segments s) = Inr ns" "ns \<noteq> []"
    "moveTargetNode (xy_translation (targetPos B) (targetPosRef s)) (edge_segments s) = Inr nt" "nt \<noteq> []"
    using move_succeeds [OF assms] by metis
  have "edge_open [] B = \<lparr>sourcePosRef = sourcePos B, targetPosRef = targetPos B, sourceOrientationRef = sourceOrientation B,
      targetOrientationRef = targetOrientation B, edge_segments = buildNew B\<rparr>" by (simp add: edge_open_def)
  then have opened: "checkIntegrity (sourcePos B) (targetPos B) (edge_segments (edge_open [] B))"
    using buildNew_attached(2) [of B] by simp
  show ?thesis
  proof (cases "keeps_connector B s")
    case True
    then show ?thesis using assms opened by (auto simp: edge_render_def keeps_connector_def Let_def)
  next
    case False
    have "checked B (if b then buildNew B else k) \<noteq> [] \<and>
        checkIntegrity (sourcePos B) (targetPos B) (checked B (if b then buildNew B else k))" if "k \<noteq> []" for b k
      using checked_attached buildNew_attached(1) that by simp
    then show ?thesis using False n opened
      by (cases "xy_equals (sourcePos B) (sourcePosRef s) 0") (auto simp: edge_render_def keeps_connector_def Let_def)
  qed
qed

definition sample_ends :: ends where
  "sample_ends = \<lparr>sourceBox = box_of_numbers 0 0 10 10 TOP_LEFT, targetBox = box_of_numbers 100 0 10 10 TOP_LEFT,
     sourcePos = \<lparr>xc = 10, yc = 5\<rparr>, targetPos = \<lparr>xc = 100, yc = 5\<rparr>, sourceOrientation = RightLoc, targetOrientation = LeftLoc\<rparr>"

definition sample_edge :: edge_state where
  "sample_edge = \<lparr>sourcePosRef = XY_ZERO, targetPosRef = \<lparr>xc = 100, yc = 5\<rparr>, sourceOrientationRef = RightLoc,
     targetOrientationRef = LeftLoc, edge_segments = [\<lparr>sdir = DirX, slen = 100\<rparr>, \<lparr>sdir = DirY, slen = 5\<rparr>]\<rparr>"

theorem edge_stays_attached_witness:
  "edge_segments sample_edge \<noteq> [] \<and>
   (\<exists>s'. edge_render sample_ends sample_edge = Inr s' \<and>
      checkIntegrity (sourcePos sample_ends) (targetPos sample_ends) (edge_segments s'))"
proof -
  have s: "edge_segments sample_edge \<noteq> []" by (simp add: sample_edge_def)
  have "\<not> keeps_connector sample_ends sample_edge"
    by (simp add: keeps_connector_def sample_ends_def sample_edge_def xy_equals_def xy_translation_def xy_scale_def XY_ZERO_def)
  then show ?thesis using edge_stays_attached [OF s, of sample_ends] s by auto
qed

text \<open>A connector that is attached is not rebuilt when its source moves: the route that a user gave it is kept.\<close>

lemma edge_keeps_route:
  assumes "edge_segments s \<noteq> []" "travelSegments (sourcePosRef s) (edge_segments s) = targetPosRef s"
    and "targetPos B = targetPosRef s" "sourceOrientation B = sourceOrientationRef s" "\<not> keeps_connector B s"
  obtains s' where "edge_render B s = Inr s'"
    "moveSourceNode (xy_translation (sourcePosRef s) (sourcePos B)) (edge_segments s) = Inr (edge_segments s')"
proof -
  let ?delta = "xy_translation (sourcePosRef s) (sourcePos B)"
  obtain n where n: "moveNodeInternal ?delta (edge_segments s) False = Inr n" "\<And>e. extent e n = extent e (edge_segments s) - coord e ?delta"
    using move_internal [OF assms(1)] by metis
  have c: "coord e ?delta = coord e (sourcePos B) - coord e (sourcePosRef s)" for e
    by (cases e) (simp_all add: coord_def xy_translation_def)
  have "coord e (targetPosRef s) = coord e (sourcePosRef s) + extent e (edge_segments s)" for e
    unfolding assms(2) [symmetric] by simp
  then have "travelSegments (sourcePos B) n = targetPos B" by (intro xy_eqI) (simp add: n(2) c assms(3))
  from check_of_close [OF compress_close this] have "checked B (compressSegments n) = compressSegments n" by (simp add: checked_def)
  moreover have "xy_equals (targetPos B) (targetPosRef s) 0" by (simp add: assms(3) xy_equals_def)
  moreover have move: "moveSourceNode ?delta (edge_segments s) = Inr (compressSegments n)" by (simp add: moveSourceNode_def n(1))
  ultimately have "edge_render B s = Inr (s\<lparr>sourceOrientationRef := sourceOrientation B,
      edge_segments := compressSegments n, sourcePosRef := sourcePos B\<rparr>)"
    using assms(4,5) by (simp add: edge_render_def keeps_connector_def Let_def)
  from that [OF this] move show ?thesis by simp
qed

end
