(* ===== verification/Persist.thy ===== *)
theory Persist
  imports Deep_Laws
begin

text \<open>
  The persistence of the console's state (\<open>console/src/persist/state.ts\<close>): the last states are kept in a
  key-value store under four versions in turn, a revert goes back one version, and opening the engine
  reads, migrates and completes the state.

  The store is a record from keys to values whose calls succeed; what it holds under a key is a version or
  a state.  The migrator and the functions that exclude parts of a state are arguments.
\<close>

section \<open>Copies\<close>

text \<open>\<open>copy\<close> through the text of a value: undefined entries of an object are left out, undefined elements become null.\<close>

fun json_copy :: "json \<Rightarrow> json" where
  "json_copy (JArr xs) = JArr (map (\<lambda>x. if x = Undef then Null else json_copy x) xs)"
| "json_copy (JObj ps) = JObj (map (\<lambda>(k, x). (k, json_copy x)) (filter (\<lambda>(k, x). x \<noteq> Undef) ps))"
| "json_copy v = v"

definition deep_copy :: "json \<Rightarrow> json result" where
  "deep_copy v = (if v = Undef then throw ''SyntaxError'' else return (json_copy v))"

section \<open>The store\<close>

datatype kv_value = KVersion nat | KState json

type_synonym kv = "(string, kv_value) rec"

definition PERSISTED_STATE_KEY :: string where "PERSISTED_STATE_KEY = ''console-persisted-state''"
definition DB_VERSION_KEY :: string where "DB_VERSION_KEY = ''console-version''"
definition KEEP_HISTORY :: nat where "KEEP_HISTORY = 4"

definition persistedStateKey :: "nat \<Rightarrow> string" where
  "persistedStateKey version = PERSISTED_STATE_KEY @ ''.'' @ nat_text version"

definition nextVersion :: "nat \<Rightarrow> nat" where
  "nextVersion currentVersion = (currentVersion + 1) mod KEEP_HISTORY"

text \<open>Reading a version or a state; anything else under the key counts as missing.\<close>

definition get_version :: "kv \<Rightarrow> nat option" where
  "get_version db = (case rec_get db DB_VERSION_KEY of Some (KVersion n) \<Rightarrow> Some n | _ \<Rightarrow> None)"

definition get_state :: "kv \<Rightarrow> nat \<Rightarrow> json option" where
  "get_state db version =
     (case rec_get db (persistedStateKey version) of Some (KState s) \<Rightarrow> if nullish s then None else Some s | _ \<Rightarrow> None)"

text \<open>The new store and the old one, which is emptied when its state is taken over.\<close>

definition openAndMigrateKV :: "kv \<Rightarrow> kv \<Rightarrow> kv \<times> kv" where
  "openAndMigrateKV v2Store v1Store =
     (if length v2Store > 0 then (v2Store, v1Store)
      else if length v1Store = 0 then (v2Store, v1Store)
      else case get_version v1Store of
             None \<Rightarrow> (v2Store, v1Store)
           | Some v1Version \<Rightarrow>
               (case get_state v1Store v1Version of
                  None \<Rightarrow> (v2Store, [])
                | Some v1State \<Rightarrow>
                    let version = nextVersion v1Version
                    in (rec_set DB_VERSION_KEY (KVersion version) (rec_set (persistedStateKey version) (KState v1State) v2Store), [])))"

section \<open>The engine\<close>

record engine =
  db :: kv
  version :: nat

datatype exclusion = ExcludeKey string | ExcludeFun "json \<Rightarrow> json"

definition set_version :: "nat \<Rightarrow> engine \<Rightarrow> engine" where
  "set_version n e = e\<lparr>version := n, db := rec_set DB_VERSION_KEY (KVersion n) (db e)\<rparr>"

definition revert :: "engine \<Rightarrow> engine" where
  "revert e = set_version ((version e + KEEP_HISTORY - 1) mod KEEP_HISTORY) e"

definition clear :: "engine \<Rightarrow> engine" where
  "clear e = set_version 0 (e\<lparr>db := []\<rparr>)"

definition exclude_one :: "exclusion \<Rightarrow> json \<Rightarrow> json result" where
  "exclude_one x s = (case x of ExcludeFun f \<Rightarrow> return (f s) | ExcludeKey key \<Rightarrow> deleteD s [key])"

definition store_state :: "json \<Rightarrow> engine \<Rightarrow> engine" where
  "store_state copied e = set_version (version e) (e\<lparr>db := rec_set (persistedStateKey (version e)) (KState copied) (db e)\<rparr>)"

text \<open>\<open>persist\<close>: the version has changed also when the copy or an exclusion throws.\<close>

definition persist :: "exclusion list \<Rightarrow> json \<Rightarrow> engine \<Rightarrow> engine \<times> string option" where
  "persist exclude state e =
     (let e1 = e\<lparr>version := nextVersion (version e)\<rparr>
      in case bind_result (deep_copy state) (fold_result exclude_one exclude) of
           Inl err \<Rightarrow> (e1, Some err)
         | Inr copied \<Rightarrow> (store_state copied e1, None))"

text \<open>The parts of a state that were excluded are taken from the initial state.\<close>

definition restore_one :: "json \<Rightarrow> exclusion \<Rightarrow> json \<Rightarrow> json result" where
  "restore_one initial x s =
     (case x of
        ExcludeFun f \<Rightarrow> return s
      | ExcludeKey key \<Rightarrow>
          bind_result (deep_get js_get True ''.'' initial key) (\<lambda>v.
            case v of None \<Rightarrow> return s | Some y \<Rightarrow> if nullish y then return s else deep_set s key y))"

definition migrate_state :: "exclusion list \<Rightarrow> (json \<Rightarrow> json result) option \<Rightarrow> json \<Rightarrow> json \<Rightarrow> engine \<Rightarrow> engine \<times> json" where
  "migrate_state exclude migrator initial state e =
     (case migrator of
        None \<Rightarrow> (e, state)
      | Some m \<Rightarrow>
          (case m state of
             Inl err \<Rightarrow> (e, initial)
           | Inr state1 \<Rightarrow>
               (case persist exclude state1 e of
                  (e1, None) \<Rightarrow> (e1, state1)
                | (e1, Some err) \<Rightarrow> (e1, initial))))"

definition open_db :: "exclusion list \<Rightarrow> (json \<Rightarrow> json result) option \<Rightarrow> json \<Rightarrow> kv \<Rightarrow> (engine \<times> json) result" where
  "open_db exclude migrator initial db0 =
     (let e = (case get_version db0 of
                 None \<Rightarrow> set_version 0 \<lparr>db = db0, version = 0\<rparr>
               | Some v \<Rightarrow> \<lparr>db = db0, version = v\<rparr>)
      in case get_state (db e) (version e) of
           None \<Rightarrow> return (e, initial)
         | Some state \<Rightarrow>
             (case migrate_state exclude migrator initial state e of
                (e1, state1) \<Rightarrow>
                  if nullish state1 then return (e1, initial)
                  else bind_result (fold_result (restore_one initial) exclude state1) (\<lambda>s. return (e1, s))))"

definition open_engine ::
  "exclusion list \<Rightarrow> (json \<Rightarrow> json result) option \<Rightarrow> json \<Rightarrow> kv \<Rightarrow> kv \<Rightarrow> (engine \<times> json) result" where
  "open_engine exclude migrator initial v2Store v1Store =
     bind_result (deep_copy initial) (\<lambda>copiedInitial. open_db exclude migrator copiedInitial (fst (openAndMigrateKV v2Store v1Store)))"

text \<open>What the middleware does after an action; a persist that is waiting is replaced by a later one.\<close>

datatype persist_action = RevertState | ClearState | OtherAction

definition middleware_persist :: "exclusion list \<Rightarrow> persist_action \<Rightarrow> json \<Rightarrow> engine \<Rightarrow> engine" where
  "middleware_persist exclude a state e =
     (case a of RevertState \<Rightarrow> revert e | ClearState \<Rightarrow> clear e | OtherAction \<Rightarrow> fst (persist exclude state e))"

end
