(* ===== verification/Persist_Laws.thy ===== *)
theory Persist_Laws
  imports Persist
begin

text \<open>
  The persisted states are a history of bounded length: persisting puts a state in front and forgets the oldest,
  and reverting goes back one state.  The locale states this interface; what it gives for an engine that
  is opened again after a revert is proved in it, and holds for the engine by interpretation.
\<close>

section \<open>Bounded histories\<close>

locale bounded_history =
  fixes hist :: "'e \<Rightarrow> 'y option list" and shown :: "'x \<Rightarrow> 'y option" and push :: "'x \<Rightarrow> 'e \<Rightarrow> 'e" and step_back :: "'e \<Rightarrow> 'e"
    and ok :: "'e \<Rightarrow> bool"
  assumes ok_push: "ok e \<Longrightarrow> ok (push x e)"
    and ok_step: "ok e \<Longrightarrow> ok (step_back e)"
    and hist_push: "ok e \<Longrightarrow> hist (push x e) = shown x # butlast (hist e)"
    and hist_step: "ok e \<Longrightarrow> hist (step_back e) = rotate1 (hist e)"
    and hist_length: "ok e \<Longrightarrow> 2 < length (hist e)"
begin

lemma back_undoes_push: "ok e \<Longrightarrow> hd (hist (step_back (push x e))) = hd (hist e)"
  using hist_length [of e] by (cases "hist e") (auto simp: hist_step hist_push ok_push hd_append split: list.splits)

text \<open>Pushing the state that a step back shows makes every further step back stand still.\<close>

lemma push_after_back:
  assumes "ok e" "shown x = hd (hist (step_back e))"
  shows "hd (hist (step_back (push x (step_back e)))) = hd (hist (step_back e))"
  using back_undoes_push [OF ok_step [OF assms(1)], of x] by simp

lemma back_twice: "ok e \<Longrightarrow> hd (hist (step_back (step_back e))) = hist e ! 2"
proof -
  assume e: "ok e"
  then obtain a b c r where "hist e = a # b # c # r" using hist_length [OF e]
    by (cases "hist e" rule: list.exhaust; cases "tl (hist e)"; cases "tl (tl (hist e))") auto
  then show "hd (hist (step_back (step_back e))) = hist e ! 2" using e by (simp add: hist_step ok_step)
qed

end

section \<open>Keys of the store\<close>

lemma nat_text_digit: "n < 10 \<Longrightarrow> nat_text n = [char_of (48 + n)]"
  by (subst nat_text.simps) simp

lemma version_key [simp]: "DB_VERSION_KEY \<noteq> persistedStateKey n" "persistedStateKey n \<noteq> DB_VERSION_KEY"
  by (simp_all add: DB_VERSION_KEY_def persistedStateKey_def PERSISTED_STATE_KEY_def)

lemma state_key_inject: "m < 4 \<Longrightarrow> n < 4 \<Longrightarrow> persistedStateKey m = persistedStateKey n \<longleftrightarrow> m = n"
proof -
  have "\<forall>m \<in> {0, 1, 2, 3}. \<forall>n \<in> {0, 1, 2, 3}. (char_of (48 + m) = (char_of (48 + n) :: char)) = (m = (n :: nat))" by code_simp
  moreover assume "m < 4" "n < 4"
  then have "m \<in> {0, 1, 2, 3}" "n \<in> {0, 1, 2, 3}" by auto
  ultimately show ?thesis using \<open>m < 4\<close> \<open>n < 4\<close> by (simp add: persistedStateKey_def nat_text_digit)
qed

definition visible :: "json \<Rightarrow> json option" where
  "visible s = (if nullish s then None else Some s)"

lemma get_state_set:
  "get_state (rec_set DB_VERSION_KEY x d) n = get_state d n"
  "m < 4 \<Longrightarrow> n < 4 \<Longrightarrow> get_state (rec_set (persistedStateKey m) (KState s) d) n = (if n = m then visible s else get_state d n)"
  by (auto simp: get_state_def visible_def state_key_inject)

lemma get_version_set:
  "get_version (rec_set DB_VERSION_KEY (KVersion n) d) = Some n"
  by (simp add: get_version_def)

section \<open>The history of an engine\<close>

text \<open>The states from the current version backwards.\<close>

definition past :: "engine \<Rightarrow> json option list" where
  "past e = map (\<lambda>i. get_state (db e) ((version e + (4 - i)) mod 4)) [0, 1, 2, 3]"

definition engine_ok :: "engine \<Rightarrow> bool" where
  "engine_ok e \<longleftrightarrow> version e < 4 \<and> get_version (db e) = Some (version e)"

definition push_state :: "json \<Rightarrow> engine \<Rightarrow> engine" where
  "push_state c e = store_state c (e\<lparr>version := nextVersion (version e)\<rparr>)"

lemma set_version_simps [simp]:
  "version (set_version n e) = n" "get_state (db (set_version n e)) m = get_state (db e) m"
  "get_version (db (set_version n e)) = Some n"
  by (simp_all add: set_version_def get_state_set get_version_set)

lemma below_four: "(n :: nat) < 4 \<longleftrightarrow> n = 0 \<or> n = 1 \<or> n = 2 \<or> n = 3"
  by auto

lemma ok_push_state: "engine_ok e \<Longrightarrow> engine_ok (push_state c e)"
  by (simp add: engine_ok_def push_state_def store_state_def nextVersion_def KEEP_HISTORY_def)

lemma past_push_state: "engine_ok e \<Longrightarrow> past (push_state c e) = visible c # butlast (past e)"
  unfolding engine_ok_def below_four
  by (elim conjE disjE) (simp_all add: past_def push_state_def store_state_def nextVersion_def KEEP_HISTORY_def get_state_set numeral_2_eq_2)

lemma past_revert: "engine_ok e \<Longrightarrow> past (revert e) = rotate1 (past e)"
  unfolding engine_ok_def below_four
  by (elim conjE disjE) (simp_all add: past_def revert_def KEEP_HISTORY_def numeral_2_eq_2)

lemma ok_revert: "engine_ok e \<Longrightarrow> engine_ok (revert e)"
  by (simp add: engine_ok_def revert_def KEEP_HISTORY_def)

lemma length_past [simp]: "length (past e) = 4"
  by (simp add: past_def)

interpretation engine_history: bounded_history past visible push_state revert engine_ok
  by unfold_locales (simp_all add: ok_push_state ok_revert past_push_state past_revert)

lemma past_clear: "past (clear e) = [None, None, None, None]" "engine_ok (clear e)"
  by (simp_all add: past_def clear_def engine_ok_def) (simp_all add: get_state_def)

definition excluded :: "exclusion list \<Rightarrow> json \<Rightarrow> json result" where
  "excluded ex s = bind_result (deep_copy s) (fold_result exclude_one ex)"

lemma persist_pushes: "excluded ex s = Inr c \<Longrightarrow> persist ex s e = (push_state c e, None)"
  by (simp add: persist_def push_state_def excluded_def Let_def)

lemma hd_past: "engine_ok e \<Longrightarrow> hd (past e) = get_state (db e) (version e)"
  by (simp add: past_def engine_ok_def)

lemma open_starts:
  assumes "engine_ok e"
  shows "open_db ex migrator initial (db e) =
    (case hd (past e) of
       None \<Rightarrow> return (e, initial)
     | Some state \<Rightarrow>
         (case migrate_state ex migrator initial state e of
            (e1, state1) \<Rightarrow>
              if nullish state1 then return (e1, initial)
              else bind_result (fold_result (restore_one initial) ex state1) (\<lambda>s. return (e1, s))))"
proof -
  obtain d v where e: "e = \<lparr>db = d, version = v\<rparr>" by (cases e)
  show ?thesis using assms hd_past [OF assms] unfolding e by (simp add: open_db_def engine_ok_def Let_def)
qed

text \<open>
  C13: The engine keeps the last four states as a history: persisting a state puts it in front, without its
  excluded parts, and forgets the oldest; reverting makes the state before the current one the current
  one; clearing forgets all. Opening the store without a migrator changes nothing and gives the current
  state with its excluded parts taken from the initial state, or the initial state when there is none.
\<close>

theorem engine_keeps_history:
  assumes "engine_ok e" and "excluded ex s = Inr c"
  shows "(\<exists>e'. persist ex s e = (e', None) \<and> engine_ok e' \<and> past e' = visible c # take 3 (past e) \<and> past (revert e') = take 3 (past e) @ [visible c]) \<and>
    engine_ok (revert e) \<and> past (revert e) = drop 1 (past e) @ take 1 (past e) \<and>
    engine_ok (clear e) \<and> past (clear e) = [None, None, None, None] \<and>
    open_db ex None initial (db e) =
      (case hd (past e) of
         None \<Rightarrow> Inr (e, initial)
       | Some state \<Rightarrow> if nullish state then Inr (e, initial)
                       else bind_result (fold_result (restore_one initial) ex state) (\<lambda>s. Inr (e, s)))"
proof -
  have b: "butlast (past e) = take 3 (past e)" by (simp add: butlast_conv_take)
  have r: "rotate1 xs = drop 1 xs @ take 1 xs" for xs :: "json option list" by (cases xs) simp_all
  have "past (revert (push_state c e)) = take 3 (past e) @ [visible c]"
    using past_revert [OF ok_push_state [OF assms(1)], of c] past_push_state [OF assms(1), of c] b by simp
  then show ?thesis
    using persist_pushes [OF assms(2)] ok_push_state [OF assms(1)] past_push_state [OF assms(1), of c] b
      ok_revert [OF assms(1)] past_revert [OF assms(1)] r past_clear open_starts [OF assms(1), of ex None initial]
    by (auto simp: migrate_state_def split: option.splits)
qed

definition sample_engine :: engine where
  "sample_engine = clear \<lparr>db = [], version = 0\<rparr>"

theorem engine_keeps_history_witness:
  "engine_ok sample_engine \<and> excluded [ExcludeKey ''a''] (JObj [(''a'', JNum 1), (''b'', JNum 2)]) = Inr (JObj [(''b'', JNum 2)]) \<and>
   (\<exists>e'. persist [ExcludeKey ''a''] (JObj [(''a'', JNum 1), (''b'', JNum 2)]) sample_engine = (e', None) \<and>
     past e' = [Some (JObj [(''b'', JNum 2)]), None, None, None])"
proof -
  have ok: "engine_ok sample_engine" unfolding sample_engine_def by (rule past_clear(2))
  have p: "past sample_engine = [None, None, None, None]" unfolding sample_engine_def by (rule past_clear(1))
  have x: "excluded [ExcludeKey ''a''] (JObj [(''a'', JNum 1), (''b'', JNum 2)]) = Inr (JObj [(''b'', JNum 2)])" by code_simp
  show ?thesis using engine_keeps_history [OF ok x] ok x p by (auto simp: visible_def nullish_def)
qed

text \<open>
  Reverting twice: without a migrator the second revert shows the state before the one the first revert
  showed. With a migrator, even one that returns states as they are, opening persists the state that
  the revert showed once more, so that every further revert shows the same state again and the older
  states cannot be reached.
\<close>

theorem reverting_twice:
  assumes "engine_ok e" and "past e = [h0, Some h1, Some h2, h3]" and "deep_copy h1 = Inr h1" and "m h1 = Inr h1"
  shows "(\<exists>e1 e2. open_db [] None initial (db (revert e)) = Inr (e1, h1) \<and> open_db [] None initial (db (revert e1)) = Inr (e2, h2)) \<and>
    (\<exists>e1 e2. open_db [] (Some m) initial (db (revert e)) = Inr (e1, h1) \<and> open_db [] (Some m) initial (db (revert e1)) = Inr (e2, h1))"
proof -
  let ?r = "revert e" and ?p = "push_state h1 (revert e)"
  have ok: "engine_ok ?r" "engine_ok (revert ?r)" "engine_ok ?p" "engine_ok (revert ?p)"
    using assms(1) by (simp_all add: ok_revert ok_push_state)
  have first: "hd (past ?r) = Some h1" using past_revert [OF assms(1)] assms(2) by simp
  have second: "hd (past (revert ?r)) = Some h2" using engine_history.back_twice [OF assms(1)] assms(2) by simp
  have "get_state (db e) n \<noteq> Some s \<or> \<not> nullish s" for n s by (auto simp: get_state_def split: option.splits kv_value.splits if_splits)
  then have vals: "\<not> nullish h1" "\<not> nullish h2" using assms(2) by (auto simp: past_def)
  then have "shown = visible h1 \<Longrightarrow> shown = hd (past ?r)" for shown using first by (simp add: visible_def)
  then have again: "hd (past (revert ?p)) = Some h1" using engine_history.push_after_back [OF assms(1), of h1] first by simp
  have none: "open_db [] None initial (db f) = Inr (f, s)" if "engine_ok f" "hd (past f) = Some s" "\<not> nullish s" for f s
    using that by (simp add: open_starts migrate_state_def)
  have some: "open_db [] (Some m) initial (db f) = Inr (push_state h1 f, h1)" if "engine_ok f" "hd (past f) = Some h1" for f
    using that vals(1) assms(3,4) by (simp add: open_starts migrate_state_def persist_pushes excluded_def)
  show ?thesis using none [OF ok(1) first vals(1)] none [OF ok(2) second vals(2)] some [OF ok(1) first] some [OF ok(4) again] by blast
qed

definition sample_states :: engine where
  "sample_states = push_state (JObj [(''n'', JNum 3)]) (push_state (JObj [(''n'', JNum 2)]) (push_state (JObj [(''n'', JNum 1)]) sample_engine))"

theorem reverting_twice_witness:
  "past sample_states = [Some (JObj [(''n'', JNum 3)]), Some (JObj [(''n'', JNum 2)]), Some (JObj [(''n'', JNum 1)]), None] \<and>
   (\<exists>e1 e2. open_db [] (Some Inr) (JObj []) (db (revert sample_states)) = Inr (e1, JObj [(''n'', JNum 2)]) \<and>
     open_db [] (Some Inr) (JObj []) (db (revert e1)) = Inr (e2, JObj [(''n'', JNum 2)]))"
proof -
  have ok: "engine_ok sample_states"
    unfolding sample_states_def sample_engine_def by (intro ok_push_state past_clear(2))
  have p: "past sample_states = [Some (JObj [(''n'', JNum 3)]), Some (JObj [(''n'', JNum 2)]), Some (JObj [(''n'', JNum 1)]), None]"
    unfolding sample_states_def sample_engine_def
    by (simp add: past_push_state ok_push_state past_clear visible_def nullish_def)
  have "deep_copy (JObj [(''n'', JNum 2)]) = Inr (JObj [(''n'', JNum 2)])" by code_simp
  then show ?thesis using reverting_twice [OF ok p, of Inr "JObj []"] p by simp
qed

end
