(* ===== verification/Wire.thy ===== *)
theory Wire
  imports Js_Text
begin

text \<open>
  What goes over the wire besides data: addresses (\<open>x/ts/src/url/url.ts\<close>) and errors, which are encoded as a
  type and a text and decoded by the first registered provider that knows the type
  (\<open>freighter/ts/src/errors.ts\<close>, \<open>client/ts/src/errors.ts\<close>).
\<close>

section \<open>Addresses\<close>

definition formatPath :: "string \<Rightarrow> string" where
  "formatPath path =
     (let p = (if suffix ''/'' path then path else path @ ''/'') in if prefix ''/'' p then tl p else p)"

definition joinPaths :: "string list \<Rightarrow> string" where
  "joinPaths paths = concat (map formatPath paths)"

definition removeTrailingSlash :: "string \<Rightarrow> string" where
  "removeTrailingSlash path = (if suffix ''/'' path then butlast path else path)"

record url =
  protocol :: string
  host :: string
  port :: string
  path :: string

text \<open>The number of the port only occurs in the text of an address and is kept as text.\<close>

definition new_url :: "string \<Rightarrow> string \<Rightarrow> string \<Rightarrow> string \<Rightarrow> url" where
  "new_url h po proto pathPrefix = \<lparr>protocol = proto, host = h, port = po, path = formatPath pathPrefix\<rparr>"

definition url_replace :: "url \<Rightarrow> string option \<Rightarrow> string option \<Rightarrow> string option \<Rightarrow> string option \<Rightarrow> url" where
  "url_replace u h po proto pathPrefix =
     new_url (case h of None \<Rightarrow> host u | Some x \<Rightarrow> x) (case po of None \<Rightarrow> port u | Some x \<Rightarrow> x)
       (case proto of None \<Rightarrow> protocol u | Some x \<Rightarrow> x) (case pathPrefix of None \<Rightarrow> path u | Some x \<Rightarrow> x)"

definition url_child :: "url \<Rightarrow> string \<Rightarrow> url" where
  "url_child u p = new_url (host u) (port u) (protocol u) (joinPaths [path u, p])"

definition url_toString :: "url \<Rightarrow> string" where
  "url_toString u = removeTrailingSlash (protocol u @ ''://'' @ host u @ '':'' @ port u @ ''/'' @ path u)"

definition url_UNKNOWN :: url where
  "url_UNKNOWN = new_url ''unknown'' ''0'' '''' ''''"

section \<open>Errors\<close>

datatype wire_error =
    UnknownError string
  | EOF
  | StreamClosed
  | Unreachable string url
  | ValidationError string
  | FieldError string string
  | AuthError string
  | InvalidTokenError string
  | ExpiredTokenError string
  | UnexpectedError string
  | QueryError string
  | NotFoundError string
  | MultipleFoundError string
  | RouteError string string
  | ControlError string
  | UnauthorizedError string
  | ContiguityError string

record error_payload =
  ptype :: string
  pdata :: string

fun error_type :: "wire_error \<Rightarrow> string" where
  "error_type (UnknownError _) = ''unknown''"
| "error_type EOF = ''freighter.eof''"
| "error_type StreamClosed = ''freighter.stream_closed''"
| "error_type (Unreachable _ _) = ''freighter.unreachable''"
| "error_type (ValidationError _) = ''sy.validation''"
| "error_type (FieldError _ _) = ''sy.validation.field''"
| "error_type (AuthError _) = ''sy.auth''"
| "error_type (InvalidTokenError _) = ''sy.auth.invalid-token''"
| "error_type (ExpiredTokenError _) = ''sy.auth.expired-token''"
| "error_type (UnexpectedError _) = ''sy.unexpected''"
| "error_type (QueryError _) = ''sy.query''"
| "error_type (NotFoundError _) = ''sy.query.not_found''"
| "error_type (MultipleFoundError _) = ''sy.query.multiple_results''"
| "error_type (RouteError _ _) = ''sy.route''"
| "error_type (ControlError _) = ''sy.control''"
| "error_type (UnauthorizedError _) = ''sy.control.unauthorized''"
| "error_type (ContiguityError _) = ''sy.contiguity''"

text \<open>What is encoded: nothing, an error with a type, or any other value with its JSON text.\<close>

datatype raised = NoError | Typed wire_error | Untyped string

text \<open>\<open>s.includes(t)\<close>; the matcher of a type on a typed error.\<close>

definition text_includes :: "string \<Rightarrow> string \<Rightarrow> bool" where
  "text_includes s t \<longleftrightarrow> sublist t s"

definition matches :: "string \<Rightarrow> wire_error \<Rightarrow> bool" where
  "matches t e = text_includes (error_type e) t"

definition freighterErrorEncoder :: "wire_error \<Rightarrow> error_payload option result" where
  "freighterErrorEncoder e =
     (if \<not> prefix ''freighter'' (error_type e) then return None
      else if matches ''freighter.eof'' e then return (Some \<lparr>ptype = ''freighter.eof'', pdata = ''EOF''\<rparr>)
      else if matches ''freighter.stream_closed'' e then return (Some \<lparr>ptype = ''freighter.stream_closed'', pdata = ''StreamClosed''\<rparr>)
      else if matches ''freighter.unreachable'' e then return (Some \<lparr>ptype = ''freighter.unreachable'', pdata = ''Unreachable''\<rparr>)
      else throw ''Unknown error type'')"

definition freighterErrorDecoder :: "error_payload \<Rightarrow> wire_error option result" where
  "freighterErrorDecoder p =
     (if \<not> prefix ''freighter.'' (ptype p) then return None
      else if ptype p = ''freighter.eof'' then return (Some EOF)
      else if ptype p = ''freighter.stream_closed'' then return (Some StreamClosed)
      else if ptype p = ''freighter.unreachable'' then return (Some (Unreachable ''Unreachable'' url_UNKNOWN))
      else throw ''Unknown error type'')"

text \<open>The constructor of an unexpected error wraps its message.\<close>

definition unexpected_message :: "string \<Rightarrow> string" where
  "unexpected_message m =
     CHR 0x0A # ''    Unexpected error encountered:'' @ [CHR 0x0A, CHR 0x0A] @ ''    '' @ m @ [CHR 0x0A, CHR 0x0A] @
     ''    Please report this to the Synnax team.'' @ [CHR 0x0A] @ ''    ''"

definition newUnexpectedError :: "string \<Rightarrow> wire_error" where
  "newUnexpectedError m = UnexpectedError (unexpected_message m)"

definition client_decode :: "error_payload \<Rightarrow> wire_error option result" where
  "client_decode p =
     (let t = ptype p; d = pdata p
      in if \<not> prefix ''sy.'' t then return None
         else return (Some
           (if prefix ''sy.validation'' t
            then if t = ''sy.validation.field''
                 then let vs = js_split '': '' d in if length vs < 2 then ValidationError d else FieldError (vs ! 0) (vs ! 1)
                 else ValidationError d
            else if prefix ''sy.auth'' t
            then if prefix ''sy.auth.invalid-token'' t then InvalidTokenError d
                 else if prefix ''sy.auth.expired-token'' t then ExpiredTokenError d
                 else AuthError d
            else if prefix ''sy.unexpected'' t then newUnexpectedError d
            else if prefix ''sy.query'' t
            then if prefix ''sy.query.not_found'' t then NotFoundError d
                 else if prefix ''sy.query.multiple_results'' t then MultipleFoundError d
                 else QueryError d
            else if prefix ''sy.control'' t
            then if prefix ''sy.control.unauthorized'' t then UnauthorizedError d else ControlError d
            else if prefix ''sy.route'' t then RouteError d d
            else newUnexpectedError d)))"

definition client_encode :: "wire_error \<Rightarrow> error_payload option result" where
  "client_encode e = throw ''Not implemented''"

record provider =
  encode_err :: "wire_error \<Rightarrow> error_payload option result"
  decode_err :: "error_payload \<Rightarrow> wire_error option result"

definition REGISTRY :: "provider list" where
  "REGISTRY = [\<lparr>encode_err = freighterErrorEncoder, decode_err = freighterErrorDecoder\<rparr>,
               \<lparr>encode_err = client_encode, decode_err = client_decode\<rparr>]"

fun first_result :: "('a \<Rightarrow> 'b option result) \<Rightarrow> 'a list \<Rightarrow> 'b option result" where
  "first_result f [] = return None"
| "first_result f (p # ps) = bind_result (f p) (\<lambda>r. case r of None \<Rightarrow> first_result f ps | Some x \<Rightarrow> return (Some x))"

text \<open>\<open>json\<close> is the text of a typed error, which is only used when no provider takes the error.\<close>

definition encodeError :: "provider list \<Rightarrow> (wire_error \<Rightarrow> string) \<Rightarrow> raised \<Rightarrow> error_payload result" where
  "encodeError providers json e =
     (case e of
        NoError \<Rightarrow> return \<lparr>ptype = ''nil'', pdata = ''''\<rparr>
      | Untyped text \<Rightarrow> return \<lparr>ptype = ''unknown'', pdata = text\<rparr>
      | Typed err \<Rightarrow>
          bind_result (first_result (\<lambda>p. encode_err p err) providers) (\<lambda>r.
            return (case r of Some payload \<Rightarrow> payload | None \<Rightarrow> \<lparr>ptype = ''unknown'', pdata = json err\<rparr>)))"

definition decodeError :: "provider list \<Rightarrow> error_payload option \<Rightarrow> wire_error option result" where
  "decodeError providers payload =
     (case payload of
        None \<Rightarrow> return None
      | Some p \<Rightarrow>
          if ptype p = ''nil'' then return None
          else if ptype p = ''unknown'' then return (Some (UnknownError (pdata p)))
          else bind_result (first_result (\<lambda>q. decode_err q p) providers) (\<lambda>r.
                 return (Some (case r of Some e \<Rightarrow> e | None \<Rightarrow> UnknownError (pdata p)))))"

definition validateFieldNotNull :: "string \<Rightarrow> 'a option \<Rightarrow> string \<Rightarrow> (wire_error + unit)" where
  "validateFieldNotNull key value message = (if value = None then Inl (FieldError key message) else Inr ())"

definition errorsMiddleware :: "wire_error option \<Rightarrow> wire_error option" where
  "errorsMiddleware err =
     (case err of
        Some (Unreachable m u) \<Rightarrow> Some (Unreachable (''Cannot reach cluster at '' @ host u @ '':'' @ port u) u)
      | _ \<Rightarrow> err)"

section \<open>Errors on the wire\<close>

text \<open>The message of an error; that of a field error does not have the field.\<close>

fun message :: "wire_error \<Rightarrow> string" where
  "message (UnknownError m) = m"
| "message EOF = ''EOF''"
| "message StreamClosed = ''StreamClosed''"
| "message (Unreachable m _) = m"
| "message (ValidationError m) = m"
| "message (FieldError _ m) = m"
| "message (AuthError m) = m"
| "message (InvalidTokenError m) = m"
| "message (ExpiredTokenError m) = m"
| "message (UnexpectedError m) = m"
| "message (QueryError m) = m"
| "message (NotFoundError m) = m"
| "message (MultipleFoundError m) = m"
| "message (RouteError m _) = m"
| "message (ControlError m) = m"
| "message (UnauthorizedError m) = m"
| "message (ContiguityError m) = m"

text \<open>The types that are decoded with everything below them, the errors that have them, and what a field error is decoded to.\<close>

definition decoded_types :: "string list" where
  "decoded_types = [''sy.validation'', ''sy.auth'', ''sy.auth.invalid-token'', ''sy.auth.expired-token'', ''sy.query'',
     ''sy.query.not_found'', ''sy.query.multiple_results'', ''sy.control'', ''sy.control.unauthorized'', ''sy.route'']"

definition freighter_types :: "string list" where
  "freighter_types = [''freighter.eof'', ''freighter.stream_closed'', ''freighter.unreachable'']"

lemma colon_at_end: "sublist '': '' (m @ '':'') \<longleftrightarrow> sublist '': '' m"
  by (induction m) (auto simp: sublist_Cons_right prefix_Cons Cons_eq_append_conv prefix_append)

lemma split_field:
  assumes "\<not> sublist '': '' f" and "\<not> sublist '': '' m" and "rest = [] \<or> prefix '': '' rest"
  shows "\<exists>vs. js_split '': '' (f @ '': '' @ m @ rest) = f # m # vs"
proof -
  have first: "js_split '': '' (x @ '': '' @ y) = x # js_split '': '' y" if "\<not> sublist '': '' x" for x y
    using js_split_join [of "'': ''" x y] that colon_at_end by simp
  show ?thesis
  proof (cases "rest = []")
    case True
    then show ?thesis using first [OF assms(1), of m] js_split_single [OF assms(2)] by simp
  next
    case False
    then obtain r where "rest = '': '' @ r" using assms(3) by (auto simp: prefix_def)
    then show ?thesis using first [OF assms(1), of "m @ rest"] first [OF assms(2), of r] by simp
  qed
qed

lemma client_decode_matches:
  assumes "client_decode p = Inr (Some e)" and "T \<in> set decoded_types"
  shows "matches T e \<longleftrightarrow> prefix T (ptype p)"
  using assms
  by (auto simp: client_decode_def decoded_types_def matches_def text_includes_def newUnexpectedError_def Let_def sublist_code prefix_def
      split: if_splits)

lemma client_decode_message:
  assumes "client_decode p = Inr (Some e)" and "ptype p \<noteq> ''sy.validation.field''"
  shows "if \<exists>T \<in> set decoded_types. prefix T (ptype p) then message e = pdata p else e = UnexpectedError (unexpected_message (pdata p))"
  using assms
  by (auto simp: client_decode_def decoded_types_def newUnexpectedError_def Let_def split: if_splits)
    (auto simp: prefix_def)

lemma decodeError_cases:
  assumes "ptype p \<noteq> ''nil''"
  shows "decodeError REGISTRY (Some p) =
    (if prefix ''sy.'' (ptype p) then client_decode p
     else if prefix ''freighter.'' (ptype p) then freighterErrorDecoder p else return (Some (UnknownError (pdata p))))"
proof -
  have "\<exists>e. client_decode p = Inr (Some e)" if "prefix ''sy.'' (ptype p)" using that by (simp add: client_decode_def Let_def)
  then show ?thesis using assms
    by (auto simp: decodeError_def REGISTRY_def freighterErrorDecoder_def client_decode_def [of p] prefix_def)
qed



section \<open>Paths of addresses\<close>

definition path_ok :: "string \<Rightarrow> bool" where
  "path_ok p \<longleftrightarrow> p = '''' \<or> (suffix ''/'' p \<and> \<not> prefix ''/'' p)"

lemma suffix_slash: "suffix ''/'' p \<longleftrightarrow> (\<exists>q. p = q @ ''/'')"
  by (auto simp: suffix_def)

lemma formatPath_ok: "\<not> prefix ''//'' p \<Longrightarrow> path_ok (formatPath p)"
  by (cases p) (auto simp: formatPath_def path_ok_def suffix_slash Let_def Cons_eq_append_conv)

lemma formatPath_id: "path_ok p \<Longrightarrow> formatPath p = p"
  by (auto simp: formatPath_def path_ok_def Let_def)

text \<open>The address of a child has the path of the child after that of its parent, with single slashes between them.\<close>

lemma child_appends:
  assumes "path_ok (path u)" "\<not> prefix ''//'' p"
  shows "path (url_child u p) = path u @ formatPath p" "path_ok (path (url_child u p))"
proof -
  have "path_ok (path u @ formatPath p)"
    using assms(1) formatPath_ok [OF assms(2)] by (auto simp: path_ok_def suffix_slash prefix_def Cons_eq_append_conv append_eq_Cons_conv)
  then show "path (url_child u p) = path u @ formatPath p" "path_ok (path (url_child u p))"
    using formatPath_id [OF assms(1)] by (simp_all add: url_child_def new_url_def joinPaths_def formatPath_id)
qed

end
