(* ===== verification/Select.thy ===== *)
theory Select
  imports Reducer
begin

text \<open>
  The selection of entries in a list (\<open>pluto/src/list/useSelect.ts\<close>): clicks with the shift and control keys,
  ranges, and the options that restrict a selection.

  The value of the hook is a key, a list of keys or null; the hook works on the list of keys that are not
  null, which is what the state holds here.  The entries are given by their keys.  An option that is not
  given counts as allowed, so that an option is a truth value.  A change is what the caller is told,
  and nothing when it is not called.
\<close>

section \<open>The hook\<close>

record select_opts =
  allowMultiple :: bool
  allowNone :: bool
  replaceOnSingle :: bool
  autoSelectOnNone :: bool

datatype 'k change = SelectMany "'k list" | SelectOne 'k | SelectNone

record 'k extra =
  clickedIndex :: int
  clicked :: "'k option"
  entries :: "'k list"

record 'k select_state =
  selected :: "'k list"
  shiftValue :: "'k option"

text \<open>\<open>findIndex\<close> with \<open>-1\<close> for no entry.\<close>

definition key_index :: "'k list \<Rightarrow> 'k \<Rightarrow> int" where
  "key_index ks k = (case find_index (\<lambda>x. x = k) ks of None \<Rightarrow> - 1 | Some i \<Rightarrow> int i)"

definition handleChange ::
  "select_opts \<Rightarrow> 'k list \<Rightarrow> 'k extra \<Rightarrow> 'k select_state \<Rightarrow> 'k select_state \<times> ('k change \<times> 'k extra) option" where
  "handleChange P next0 x s =
     (let s1 = s\<lparr>selected := next0\<rparr>
      in if next0 = [] \<and> allowNone P
         then (s1, Some (if allowMultiple P then SelectMany [] else SelectNone, x))
         else if allowMultiple P then (s1, Some (SelectMany next0, x))
         else (s1, if next0 \<noteq> [] then Some (SelectOne (hd next0), x) else None))"

text \<open>The keys from the clicked entry to the one where the range began, in the order of the list.\<close>

definition range_keys :: "'k list \<Rightarrow> 'k \<Rightarrow> 'k \<Rightarrow> 'k list" where
  "range_keys ks key sv =
     (let i = key_index ks key; j = key_index ks sv in js_slice (min i j) (max i j + 1) ks)"

definition select_range :: "'k list \<Rightarrow> 'k \<Rightarrow> 'k \<Rightarrow> 'k list \<Rightarrow> 'k list" where
  "select_range ks key sv value =
     (let nextKeys = range_keys ks key sv
      in if list_all (\<lambda>k. k \<in> set value) (js_slice 1 (int (length nextKeys) - 1) nextKeys) \<and> key \<in> set value
         then filter (\<lambda>k. k \<notin> set nextKeys) value
         else value @ nextKeys)"

definition toggle_key :: "'k \<Rightarrow> 'k list \<Rightarrow> 'k list" where
  "toggle_key key value = (if key \<in> set value then filter (\<lambda>k. k \<noteq> key) value else value @ [key])"

definition next_selected ::
  "select_opts \<Rightarrow> 'k list \<Rightarrow> bool \<Rightarrow> bool \<Rightarrow> 'k \<Rightarrow> 'k select_state \<Rightarrow> 'k list \<times> 'k option" where
  "next_selected P ks ctrl shift key s =
     (let value = selected s
      in if \<not> allowMultiple P then (if key \<in> set value then [] else [key], shiftValue s)
         else if ctrl \<and> replaceOnSingle P then (toggle_key key value, shiftValue s)
         else case (shift, shiftValue s) of
                (True, Some sv) \<Rightarrow> (select_range ks key sv value, None)
              | _ \<Rightarrow>
                  (if replaceOnSingle P then (if key \<in> set value \<and> length value = 1 then [] else [key])
                   else toggle_key key value, Some key))"

definition onSelect ::
  "select_opts \<Rightarrow> 'k list \<Rightarrow> bool \<Rightarrow> bool \<Rightarrow> 'k \<Rightarrow> 'k select_state \<Rightarrow> 'k select_state \<times> ('k change \<times> 'k extra) option" where
  "onSelect P ks ctrl shift key s =
     (let (nextSelected, sv) = next_selected P ks ctrl shift key s;
          s1 = s\<lparr>shiftValue := sv\<rparr>;
          v = unique nextSelected;
          x = (\<lambda>sel. \<lparr>clickedIndex = key_index ks key, clicked = Some key, entries = filter (\<lambda>k. k \<in> set sel) ks\<rparr>)
      in if \<not> allowNone P \<and> v = [] then handleChange P (selected s) (x (selected s)) s1
         else handleChange P v (x nextSelected) (if v = [] then s1\<lparr>shiftValue := None\<rparr> else s1))"

definition clear_selection :: "select_opts \<Rightarrow> 'k select_state \<Rightarrow> 'k select_state \<times> ('k change \<times> 'k extra) option" where
  "clear_selection P s = handleChange P [] \<lparr>clickedIndex = 0, clicked = None, entries = []\<rparr> s"

text \<open>The effect that selects the first entry when nothing is selected and something has to be.\<close>

definition auto_select ::
  "select_opts \<Rightarrow> 'k list \<Rightarrow> 'k select_state \<Rightarrow> 'k select_state \<times> ('k change \<times> 'k extra) option" where
  "auto_select P ks s =
     (if selected s = [] \<and> \<not> allowNone P \<and> ks \<noteq> [] \<and> autoSelectOnNone P
      then handleChange P [hd ks] \<lparr>clickedIndex = 0, clicked = Some (hd ks), entries = [hd ks]\<rparr> (s\<lparr>shiftValue := Some (hd ks)\<rparr>)
      else (s, None))"

section \<open>Selections\<close>

datatype 'k select_action = Click bool bool 'k | Clear | AutoSelect

fun select_step :: "select_opts \<Rightarrow> 'k list \<Rightarrow> 'k select_action \<Rightarrow> 'k select_state \<Rightarrow> 'k select_state result" where
  "select_step P ks (Click ctrl shift key) s = return (fst (onSelect P ks ctrl shift key s))"
| "select_step P ks Clear s = return (fst (clear_selection P s))"
| "select_step P ks AutoSelect s = return (fst (auto_select P ks s))"

lemma selected_handleChange [simp]: "selected (fst (handleChange P n x s)) = n" "shiftValue (fst (handleChange P n x s)) = shiftValue s"
  by (simp_all add: handleChange_def Let_def)

lemma unique_Nil [simp]: "unique xs = [] \<longleftrightarrow> xs = []"
  by (simp add: unique_def)

lemma unique_distinct: "distinct xs \<Longrightarrow> unique xs = xs"
  by (simp add: unique_def distinct_remdups_id)

lemma selected_onSelect:
  "selected (fst (onSelect P ks ctrl shift key s)) =
     (let v = unique (fst (next_selected P ks ctrl shift key s)) in if \<not> allowNone P \<and> v = [] then selected s else v)"
  by (auto simp: onSelect_def Let_def split: prod.splits)

text \<open>The invariant: no key is selected twice, and at most one when only one is allowed; with \<open>lo\<close> at least one.\<close>

definition select_ok :: "select_opts \<Rightarrow> bool \<Rightarrow> 'k select_state \<Rightarrow> bool" where
  "select_ok P lo s \<longleftrightarrow>
     distinct (selected s) \<and> (\<not> allowMultiple P \<longrightarrow> length (selected s) \<le> 1) \<and> (lo \<longrightarrow> selected s \<noteq> [])"

lemma select_step_ok:
  assumes "select_ok P (lo \<and> \<not> allowNone P) s" "lo \<longrightarrow> a \<noteq> Clear" "select_step P ks a s = Inr t"
  shows "select_ok P (lo \<and> \<not> allowNone P) t"
proof (cases a)
  case (Click ctrl shift key)
  have single: "\<not> allowMultiple P \<Longrightarrow> length (fst (next_selected P ks ctrl shift key s)) \<le> 1"
    by (simp add: next_selected_def Let_def)
  have "length (unique xs) \<le> length xs" for xs :: "'a list" using length_remdups_leq [of "rev xs"] by (simp add: unique_def)
  then have "\<not> allowMultiple P \<Longrightarrow> length (unique (fst (next_selected P ks ctrl shift key s))) \<le> 1" using single le_trans by blast
  then show ?thesis using assms Click by (auto simp: select_ok_def selected_onSelect Let_def set_unique split: if_splits)
next
  case Clear
  then show ?thesis using assms by (auto simp: select_ok_def clear_selection_def)
next
  case AutoSelect
  then have "selected t = selected s \<or> selected t = [hd ks]" using assms(3) by (auto simp: auto_select_def)
  then show ?thesis using assms(1) by (auto simp: select_ok_def)
qed

interpretation selection: action_reducer "select_step P ks" "select_ok P (lo \<and> \<not> allowNone P)" "\<lambda>a _. lo \<longrightarrow> a \<noteq> Clear"
  for P :: select_opts and ks :: "'k list" and lo :: bool
  by unfold_locales (rule select_step_ok)

text \<open>
  A selection stays within its options: whatever is clicked, cleared or selected by itself, no key is selected
  twice and at most one key when only one may be selected; and where something has to be selected, a
  selection that is not empty stays so as long as it is not cleared.
\<close>

theorem selection_within_options:
  assumes "select_ok P (lo \<and> \<not> allowNone P) s0" and "reachable (select_step P ks) (\<lambda>a _. lo \<longrightarrow> a \<noteq> Clear) s0 s"
  shows "distinct (selected s) \<and> (\<not> allowMultiple P \<longrightarrow> length (selected s) \<le> 1) \<and>
    (lo \<and> \<not> allowNone P \<longrightarrow> selected s \<noteq> [])"
  using selection.reachable_inv [OF assms(2,1)] by (simp add: select_ok_def)

text \<open>Clearing ignores that something has to be selected.\<close>

lemma clear_ignores_allowNone:
  "\<lbrakk>allowMultiple P; \<not> allowNone P\<rbrakk> \<Longrightarrow> \<exists>x. snd (clear_selection P s) = Some (SelectMany [], x)"
  by (simp add: clear_selection_def handleChange_def)

section \<open>Clicks\<close>

lemma key_index_nth: "distinct ks \<Longrightarrow> i < length ks \<Longrightarrow> key_index ks (ks ! i) = int i"
proof -
  assume "distinct ks" "i < length ks"
  then have "find_index (\<lambda>x. x = ks ! i) ks = Some i" by (auto simp: find_index_Some_iff nth_eq_iff_index_eq)
  then show ?thesis by (simp add: key_index_def)
qed

lemma range_keys_nth:
  assumes "distinct ks" "i < length ks" "j < length ks"
  shows "range_keys ks (ks ! i) (ks ! j) = take (Suc (max i j - min i j)) (drop (min i j) ks)"
proof -
  have "range_keys ks (ks ! i) (ks ! j) = js_slice (int (min i j)) (int (max i j) + 1) ks"
    using assms by (simp add: range_keys_def key_index_nth Let_def of_nat_min of_nat_max)
  also have "\<dots> = take (nat (int (max i j) + 1 - int (min i j))) (drop (min i j) ks)"
    using assms by (subst js_slice_nonneg) auto
  also have "nat (int (max i j) + 1 - int (min i j)) = Suc (max i j - min i j)" by simp
  finally show ?thesis .
qed

lemma set_range_keys:
  assumes "distinct ks" "i < length ks" "j < length ks"
  shows "set (range_keys ks (ks ! i) (ks ! j)) = {ks ! n |n. min i j \<le> n \<and> n \<le> max i j}"
proof -
  let ?a = "min i j" and ?b = "max i j"
  have b: "?b < length ks" "?a \<le> ?b" using assms by auto
  have "x \<in> set (take (Suc (?b - ?a)) (drop ?a ks)) \<longleftrightarrow> (\<exists>n. x = ks ! n \<and> ?a \<le> n \<and> n \<le> ?b)" for x
  proof
    assume "x \<in> set (take (Suc (?b - ?a)) (drop ?a ks))"
    then obtain m where m: "m < Suc (?b - ?a)" "x = ks ! (?a + m)" using b by (auto simp: in_set_conv_nth)
    then show "\<exists>n. x = ks ! n \<and> ?a \<le> n \<and> n \<le> ?b" by (intro exI [of _ "?a + m"]) auto
  next
    assume "\<exists>n. x = ks ! n \<and> ?a \<le> n \<and> n \<le> ?b"
    then obtain n where "x = ks ! n" "?a \<le> n" "n \<le> ?b" by blast
    then show "x \<in> set (take (Suc (?b - ?a)) (drop ?a ks))"
      using b by (auto simp: in_set_conv_nth intro!: exI [of _ "n - ?a"])
  qed
  then show ?thesis using range_keys_nth [OF assms] by auto
qed

text \<open>The keys strictly inside a range.\<close>

lemma inner_keys: "set (js_slice 1 (int (length xs) - 1) xs) = {xs ! m |m. 0 < m \<and> m + 1 < length xs}"
proof (cases "length xs < 2")
  case True
  then show ?thesis by (cases xs) (auto simp: js_slice_def rel_index_def Let_def)
next
  case False
  then have "js_slice 1 (int (length xs) - 1) xs = take (length xs - 2) (drop 1 xs)"
    by (subst js_slice_nonneg) (auto simp: nat_diff_distrib)
  also have "set \<dots> = {xs ! m |m. 0 < m \<and> m + 1 < length xs}"
  proof (rule set_eqI)
    fix x
    have "x \<in> set (take (length xs - 2) (drop 1 xs)) \<longleftrightarrow> (\<exists>m < length xs - 2. x = xs ! Suc m)"
      by (auto simp: in_set_conv_nth)
    also have "\<dots> \<longleftrightarrow> (\<exists>m. x = xs ! m \<and> 0 < m \<and> m + 1 < length xs)"
      by (metis (no_types, lifting) Suc_diff_1 Suc_less_eq add_2_eq_Suc' add.commute add_Suc_right less_diff_conv plus_1_eq_Suc zero_less_Suc)
    finally show "x \<in> set (take (length xs - 2) (drop 1 xs)) \<longleftrightarrow> x \<in> {xs ! m |m. 0 < m \<and> m + 1 < length xs}" by auto
  qed
  finally show ?thesis .
qed

lemma inner_range_keys:
  assumes "distinct ks" "i < length ks" "j < length ks"
  shows "set (js_slice 1 (int (length (range_keys ks (ks ! i) (ks ! j))) - 1) (range_keys ks (ks ! i) (ks ! j))) =
    {ks ! n |n. min i j < n \<and> n < max i j}"
proof -
  let ?a = "min i j" and ?b = "max i j" and ?r = "range_keys ks (ks ! i) (ks ! j)"
  have r: "?r = take (Suc (?b - ?a)) (drop ?a ks)" by (rule range_keys_nth [OF assms])
  have len: "length ?r = Suc (?b - ?a)" using assms unfolding r by auto
  have nth: "?r ! m = ks ! (?a + m)" if "m < length ?r" for m using that assms len unfolding r by auto
  have "{?r ! m |m. 0 < m \<and> m + 1 < length ?r} = {ks ! n |n. ?a < n \<and> n < ?b}"
  proof (intro equalityI subsetI)
    fix x assume "x \<in> {?r ! m |m. 0 < m \<and> m + 1 < length ?r}"
    then obtain m where "x = ks ! (?a + m)" "0 < m" "m + 1 < Suc (?b - ?a)" using nth len by auto
    then show "x \<in> {ks ! n |n. ?a < n \<and> n < ?b}" by (auto intro!: exI [of _ "?a + m"])
  next
    fix x assume "x \<in> {ks ! n |n. ?a < n \<and> n < ?b}"
    then obtain n where "x = ks ! n" "?a < n" "n < ?b" by blast
    then have "0 < n - ?a" "n - ?a + 1 < length ?r" "?a + (n - ?a) = n" using len by linarith+
    then show "x \<in> {?r ! m |m. 0 < m \<and> m + 1 < length ?r}" using nth [of "n - ?a"] \<open>x = ks ! n\<close>
      by (intro CollectI exI [of _ "n - ?a"]) simp
  qed
  then show ?thesis using inner_keys [of ?r] by simp
qed


text \<open>A sample: four entries of which the second and third are selected.\<close>

definition sample_opts :: select_opts where
  "sample_opts = \<lparr>allowMultiple = True, allowNone = False, replaceOnSingle = False, autoSelectOnNone = False\<rparr>"

definition sample_selection :: "nat select_state" where
  "sample_selection = \<lparr>selected = [1, 2], shiftValue = Some 0\<rparr>"


theorem selection_within_options_witness:
  "select_ok sample_opts (True \<and> \<not> allowNone sample_opts) sample_selection \<and>
   reachable (select_step sample_opts [0, 1, 2, 3]) (\<lambda>a _. True \<longrightarrow> a \<noteq> Clear) sample_selection
     (store_dispatch (select_step sample_opts [0, 1, 2, 3]) (Click False False 1) sample_selection) \<and>
   selected (store_dispatch (select_step sample_opts [0, 1, 2, 3]) (Click False False 1) sample_selection) \<noteq> []"
proof -
  let ?r = "reachable (select_step sample_opts [0, 1, 2, 3]) (\<lambda>a _. True \<longrightarrow> a \<noteq> Clear) sample_selection"
  have ok: "select_ok sample_opts (True \<and> \<not> allowNone sample_opts) sample_selection"
    by (simp add: select_ok_def sample_opts_def sample_selection_def)
  have r: "?r (store_dispatch (select_step sample_opts [0, 1, 2, 3]) (Click False False 1) sample_selection)"
    by (rule reachable.action) (simp_all add: reachable.initial)
  show ?thesis using selection_within_options [OF ok r] ok r by (simp add: sample_opts_def)
qed

text \<open>Clicking an entry twice without keys held leaves the selection as it was.\<close>

lemma click_twice:
  assumes "allowMultiple P" "allowNone P" "\<not> replaceOnSingle P" "distinct (selected s)"
  shows "set (selected (fst (onSelect P ks ctrl False key (fst (onSelect P ks ctrl False key s))))) = set (selected s)"
  using assms by (auto simp: selected_onSelect next_selected_def toggle_key_def set_unique Let_def unique_distinct)

end
