(* ===== verification/Line_Plot.thy ===== *)
theory Line_Plot
  imports Deep Reducer
begin

text \<open>
  The slice of line plots (\<open>console/src/lineplot/slice.ts\<close>, \<open>types/v0.ts\<close>, \<open>axis.ts\<close>): the channels and ranges
  of a plot, and the lines that follow from them.

  Settings that the reducers only spread over each other (titles, legends, viewports, axes, and the
  attributes of lines and rules besides their keys) are JavaScript objects.  A plot that is created is
  given as it comes out of the migrator.
\<close>

section \<open>State\<close>

datatype x_axis = X1 | X2
datatype y_axis = Y1 | Y2 | Y3 | Y4
datatype axis_key = XAxis x_axis | YAxis y_axis

fun x_text :: "x_axis \<Rightarrow> string" where
  "x_text X1 = ''x1''"
| "x_text X2 = ''x2''"

fun y_text :: "y_axis \<Rightarrow> string" where
  "y_text Y1 = ''y1''"
| "y_text Y2 = ''y2''"
| "y_text Y3 = ''y3''"
| "y_text Y4 = ''y4''"

record line_state =
  line_key :: string
  line_settings :: settings

record rule_state =
  rule_key :: string
  rule_settings :: settings

record viewport_state =
  viewTrigger :: int
  viewSettings :: settings

record axes_state =
  axesTrigger :: int
  hasHadChannelSet :: bool
  axes :: "(axis_key, settings) rec"

record plot =
  plot_version :: string
  plot_key :: string
  remoteCreated :: bool
  title :: settings
  legend :: settings
  xChannels :: "x_axis \<Rightarrow> nat"
  yChannels :: "(y_axis, nat list) rec"
  ranges :: "(x_axis, string list) rec"
  viewport :: viewport_state
  plot_axes :: axes_state
  plot_lines :: "line_state list"
  rules :: "rule_state list"
  selection :: settings

record line_slice =
  slice_version :: string
  view_mode :: string
  line_control :: settings
  activeTab :: string
  plots :: "(string, plot) rec"

definition ZERO_LINE_STATE :: settings where
  "ZERO_LINE_STATE = [(''color'', JStr ''''), (''strokeWidth'', JNum 2), (''downsample'', JNum 1)]"

definition ZERO_RULE_STATE :: settings where
  "ZERO_RULE_STATE = [(''color'', JStr ''#3774D0''), (''label'', JStr ''''), (''axis'', JStr ''y1''), (''lineWidth'', JNum 1),
     (''lineDash'', JNum 0), (''units'', JStr ''''), (''position'', JNum 0)]"

definition ZERO_VIEWPORT_STATE :: viewport_state where
  "ZERO_VIEWPORT_STATE = \<lparr>viewTrigger = 0,
     viewSettings = [(''zoom'', JObj [(''width'', JNum 1), (''height'', JNum 1)]), (''pan'', JObj [(''x'', JNum 0), (''y'', JNum 0)])]\<rparr>"

definition ZERO_SELECTION_STATE :: settings where
  "ZERO_SELECTION_STATE = [(''box'', JObj [(''one'', JObj [(''x'', JNum 0), (''y'', JNum 0)]),
     (''two'', JObj [(''x'', JNum 0), (''y'', JNum 0)]), (''root'', JObj [(''x'', JStr ''left''), (''y'', JStr ''top'')])])]"

definition ZERO_CONTROL_STATE :: settings where
  "ZERO_CONTROL_STATE = [(''clickMode'', Null), (''hold'', JBool False), (''enableTooltip'', JBool True)]"

definition ZERO_LINE_SLICE :: line_slice where
  "ZERO_LINE_SLICE = \<lparr>slice_version = ''0.0.0'', view_mode = ''zoom'', line_control = ZERO_CONTROL_STATE, activeTab = ''data'', plots = []\<rparr>"

section \<open>Lines\<close>

record typed_line_key =
  tl_range :: string
  tl_xAxis :: x_axis
  tl_yAxis :: y_axis
  tl_x :: nat
  tl_y :: nat

definition typedLineKeyToString :: "typed_line_key \<Rightarrow> string" where
  "typedLineKeyToString k =
     y_text (tl_yAxis k) @ ''---'' @ x_text (tl_xAxis k) @ ''---'' @ tl_range k @ ''---'' @ nat_text (tl_x k) @ ''---'' @ nat_text (tl_y k)"

text \<open>The parts that a text is split into; the axes are cast without a check, here to the axis of that name.\<close>

definition typedLineKeyFromString :: "string \<Rightarrow> typed_line_key option" where
  "typedLineKeyFromString key =
     (case js_split ''---'' key of
        y # x # rg # xc # yc # _ \<Rightarrow>
          (case (find (\<lambda>a. y_text a = y) [Y1, Y2, Y3, Y4], find (\<lambda>a. x_text a = x) [X1, X2]) of
             (Some ya, Some xa) \<Rightarrow> Some \<lparr>tl_range = rg, tl_xAxis = xa, tl_yAxis = ya, tl_x = decimal_value xc, tl_y = decimal_value yc\<rparr>
           | _ \<Rightarrow> None)
      | _ \<Rightarrow> None)"

definition createTypedLineKeys :: "plot \<Rightarrow> typed_line_key list" where
  "createTypedLineKeys p =
     concat (map (\<lambda>(xAxis, rs). concat (map (\<lambda>rg.
       concat (map (\<lambda>(yAxis, yChs). map (\<lambda>y.
         \<lparr>tl_range = rg, tl_xAxis = xAxis, tl_yAxis = yAxis, tl_x = xChannels p xAxis, tl_y = y\<rparr>) yChs) (yChannels p))) rs)) (ranges p))"

text \<open>
  The keys are new objects, which a set never takes for equal: \<open>unique\<close> leaves them all, and duplicates stay.
\<close>

definition line_for :: "line_state list \<Rightarrow> typed_line_key \<Rightarrow> line_state" where
  "line_for lines k =
     (let strKey = typedLineKeyToString k
      in case find (\<lambda>l. strKey = line_key l) lines of
           Some existing \<Rightarrow> existing
         | None \<Rightarrow> \<lparr>line_key = strKey, line_settings = ZERO_LINE_STATE\<rparr>)"

definition updateLines :: "plot \<Rightarrow> line_state list" where
  "updateLines p = map (line_for (plot_lines p)) (createTypedLineKeys p)"

definition shouldDisplayAxis :: "axis_key \<Rightarrow> plot \<Rightarrow> bool" where
  "shouldDisplayAxis key p =
     (if key = XAxis X1 \<or> key = YAxis Y1 then True
      else case key of
             XAxis x \<Rightarrow> xChannels p x \<noteq> 0
           | YAxis y \<Rightarrow> (case rec_get (yChannels p) y of Some chs \<Rightarrow> length chs > 0 | None \<Rightarrow> True))"

section \<open>Reducers\<close>

definition with_plot :: "string \<Rightarrow> (plot \<Rightarrow> plot result) \<Rightarrow> line_slice \<Rightarrow> line_slice result" where
  "with_plot key f s =
     (case rec_get (plots s) key of
        None \<Rightarrow> throw ''TypeError''
      | Some p \<Rightarrow> bind_result (f p) (\<lambda>q. return (s\<lparr>plots := rec_set key q (plots s)\<rparr>)))"

definition create_plot :: "plot \<Rightarrow> line_slice \<Rightarrow> line_slice" where
  "create_plot migrated s =
     (let key = plot_key migrated
      in case rec_get (plots s) key of
           Some existing \<Rightarrow>
             if plot_version existing = plot_version migrated then s
             else s\<lparr>plots := rec_set key (migrated\<lparr>plot_lines := updateLines migrated\<rparr>) (plots s)\<rparr>
         | None \<Rightarrow> s\<lparr>plots := rec_set key (migrated\<lparr>plot_lines := updateLines migrated\<rparr>) (plots s)\<rparr>)"

definition remove_plots :: "string list \<Rightarrow> line_slice \<Rightarrow> line_slice" where
  "remove_plots keys s = s\<lparr>plots := foldl (\<lambda>m k. rec_delete k m) (plots s) keys\<rparr>"

definition setViewport :: "settings \<Rightarrow> plot \<Rightarrow> plot" where
  "setViewport payload p =
     p\<lparr>viewport := \<lparr>viewTrigger = viewTrigger (viewport p) + 1, viewSettings = spread (viewSettings ZERO_VIEWPORT_STATE) payload\<rparr>,
       selection := ZERO_SELECTION_STATE\<rparr>"

definition storeViewport :: "settings \<Rightarrow> plot \<Rightarrow> plot" where
  "storeViewport payload p =
     p\<lparr>viewport := (viewport p)\<lparr>viewSettings := spread (viewSettings (viewport p)) payload\<rparr>, selection := ZERO_SELECTION_STATE\<rparr>"

definition setSelection :: "settings \<Rightarrow> plot \<Rightarrow> plot" where
  "setSelection payload p = p\<lparr>selection := spread (selection p) payload\<rparr>"

text \<open>Adding to an axis without an entry spreads \<open>undefined\<close> and throws.\<close>

definition setYChannels :: "y_axis \<Rightarrow> nat list \<Rightarrow> bool \<Rightarrow> plot \<Rightarrow> plot result" where
  "setYChannels axis channels add p =
     (let prevShouldDisplay = shouldDisplayAxis (YAxis axis) p
      in bind_result
           (if \<not> add then return channels
            else case rec_get (yChannels p) axis of None \<Rightarrow> throw ''TypeError'' | Some old \<Rightarrow> return (unique (old @ channels)))
           (\<lambda>chs.
             let p1 = p\<lparr>yChannels := rec_set axis chs (yChannels p)\<rparr>;
                 nextShouldDisplay = shouldDisplayAxis (YAxis axis) p1;
                 ax = (plot_axes p1)\<lparr>hasHadChannelSet := True\<rparr>
             in return (p1\<lparr>plot_lines := updateLines p1, viewport := ZERO_VIEWPORT_STATE,
                   plot_axes := (if prevShouldDisplay \<noteq> nextShouldDisplay then ax\<lparr>axesTrigger := axesTrigger ax + 1\<rparr> else ax)\<rparr>)))"

definition setXChannel :: "x_axis \<Rightarrow> nat \<Rightarrow> plot \<Rightarrow> plot" where
  "setXChannel axis ch p =
     (let p1 = p\<lparr>xChannels := (xChannels p)(axis := ch),
                 plot_axes := (plot_axes p)\<lparr>axesTrigger := axesTrigger (plot_axes p) + 1, hasHadChannelSet := True\<rparr>\<rparr>
      in p1\<lparr>plot_lines := updateLines p1\<rparr>)"

definition setRanges :: "x_axis \<Rightarrow> string list \<Rightarrow> bool \<Rightarrow> plot \<Rightarrow> plot result" where
  "setRanges axis rs add p =
     bind_result
       (if \<not> add then return rs
        else case rec_get (ranges p) axis of None \<Rightarrow> throw ''TypeError'' | Some old \<Rightarrow> return (unique (old @ rs)))
       (\<lambda>rs'.
         let p1 = p\<lparr>ranges := rec_set axis rs' (ranges p), plot_axes := (plot_axes p)\<lparr>axesTrigger := axesTrigger (plot_axes p) + 1\<rparr>\<rparr>
         in return (p1\<lparr>plot_lines := updateLines p1\<rparr>))"

definition set_line :: "line_state list \<Rightarrow> line_state \<Rightarrow> line_state list" where
  "set_line ls line =
     (case find_index (\<lambda>l. line_key l = line_key line) ls of
        None \<Rightarrow> ls
      | Some i \<Rightarrow> ls[i := (ls ! i)\<lparr>line_settings := spread (line_settings (ls ! i)) (line_settings line)\<rparr>])"

definition setLine :: "line_state list \<Rightarrow> plot \<Rightarrow> plot" where
  "setLine changes p = p\<lparr>plot_lines := foldl set_line (plot_lines p) changes\<rparr>"

definition axis_text :: "axis_key \<Rightarrow> string" where
  "axis_text a = (case a of XAxis x \<Rightarrow> x_text x | YAxis y \<Rightarrow> y_text y)"

definition setAxis :: "axis_key \<Rightarrow> settings \<Rightarrow> bool \<Rightarrow> plot \<Rightarrow> plot" where
  "setAxis key axis triggerRender p =
     (let old = (case rec_get (axes (plot_axes p)) key of None \<Rightarrow> [] | Some a \<Rightarrow> a);
          ax = (plot_axes p)\<lparr>axes := rec_set key (rec_set ''key'' (JStr (axis_text key)) (spread old axis)) (axes (plot_axes p))\<rparr>
      in p\<lparr>plot_axes := (if triggerRender then ax\<lparr>axesTrigger := axesTrigger ax + 1\<rparr> else ax)\<rparr>)"

definition setTitle :: "settings \<Rightarrow> plot \<Rightarrow> plot" where
  "setTitle t p = p\<lparr>title := spread (title p) t\<rparr>"

definition setLegend :: "settings \<Rightarrow> plot \<Rightarrow> plot" where
  "setLegend l p = p\<lparr>legend := spread (legend p) l\<rparr>"

definition setRule :: "rule_state \<Rightarrow> plot \<Rightarrow> plot" where
  "setRule rule p =
     (case find_index (\<lambda>r. rule_key r = rule_key rule) (rules p) of
        Some i \<Rightarrow> p\<lparr>rules := (rules p)[i := (rules p ! i)\<lparr>rule_settings := spread (rule_settings (rules p ! i)) (rule_settings rule)\<rparr>]\<rparr>
      | None \<Rightarrow>
          p\<lparr>rules := rules p @ [\<lparr>rule_key = rule_key rule, rule_settings =
             spread (rec_set ''label'' (JStr (''Rule '' @ nat_text (length (rules p) + 1))) ZERO_RULE_STATE) (rule_settings rule)\<rparr>]\<rparr>)"

definition removeRule :: "string list \<Rightarrow> plot \<Rightarrow> plot" where
  "removeRule keys p = p\<lparr>rules := filter (\<lambda>r. rule_key r \<notin> set keys) (rules p)\<rparr>"

definition selectRule :: "string list \<Rightarrow> plot \<Rightarrow> plot" where
  "selectRule keys p =
     p\<lparr>rules := map (\<lambda>r. r\<lparr>rule_settings := rec_set ''selected'' (JBool (rule_key r \<in> set keys)) (rule_settings r)\<rparr>) (rules p)\<rparr>"

text \<open>
  A payload that a reducer spreads as a whole is spread with its key: viewports and selections get a property
  \<open>key\<close> besides their own.
\<close>

definition with_key :: "string \<Rightarrow> settings \<Rightarrow> settings" where
  "with_key k v = rec_set ''key'' (JStr k) v"

datatype line_action =
    CreatePlot plot
  | RemovePlots "string list"
  | SetViewport string settings
  | StoreViewport string settings
  | SetSelection string settings
  | SetYChannels string y_axis "nat list" bool
  | SetXChannel string x_axis nat
  | SetRanges string x_axis "string list" bool
  | SetLine string "line_state list"
  | SetAxis string axis_key settings bool
  | SetTitle string settings
  | SetLegend string settings
  | SetRule string rule_state
  | RemoveRule string "string list"
  | SetActiveToolbarTab string
  | SetControlState settings
  | SetViewportMode string
  | SetRemoteCreated string
  | SelectRule string "string list"

fun line_reducer :: "line_action \<Rightarrow> line_slice \<Rightarrow> line_slice result" where
  "line_reducer (CreatePlot p) s = return (create_plot p s)"
| "line_reducer (RemovePlots ks) s = return (remove_plots ks s)"
| "line_reducer (SetViewport k v) s = with_plot k (return \<circ> setViewport (with_key k v)) s"
| "line_reducer (StoreViewport k v) s = with_plot k (return \<circ> storeViewport (with_key k v)) s"
| "line_reducer (SetSelection k x) s = with_plot k (return \<circ> setSelection (with_key k x)) s"
| "line_reducer (SetYChannels k a chs add) s = with_plot k (setYChannels a chs add) s"
| "line_reducer (SetXChannel k a ch) s = with_plot k (return \<circ> setXChannel a ch) s"
| "line_reducer (SetRanges k a rs add) s = with_plot k (setRanges a rs add) s"
| "line_reducer (SetLine k ls) s = with_plot k (return \<circ> setLine ls) s"
| "line_reducer (SetAxis k a x t) s = with_plot k (return \<circ> setAxis a x t) s"
| "line_reducer (SetTitle k t) s = with_plot k (return \<circ> setTitle t) s"
| "line_reducer (SetLegend k l) s = with_plot k (return \<circ> setLegend l) s"
| "line_reducer (SetRule k r) s = with_plot k (return \<circ> setRule r) s"
| "line_reducer (RemoveRule k rs) s = with_plot k (return \<circ> removeRule rs) s"
| "line_reducer (SetActiveToolbarTab t) s = return (s\<lparr>activeTab := t\<rparr>)"
| "line_reducer (SetControlState c) s = return (s\<lparr>line_control := spread (line_control s) c\<rparr>)"
| "line_reducer (SetViewportMode m) s = return (s\<lparr>view_mode := m\<rparr>)"
| "line_reducer (SetRemoteCreated k) s = with_plot k (\<lambda>p. return (p\<lparr>remoteCreated := True\<rparr>)) s"
| "line_reducer (SelectRule k rs) s =
     bind_result (with_plot k (return \<circ> selectRule rs) s) (\<lambda>t. return (t\<lparr>activeTab := ''annotations''\<rparr>))"

end
