(* ===== verification/Line_Laws.thy ===== *)
theory Line_Laws
  imports Line_Plot
begin

text \<open>
  The lines of a plot are those of its channels and ranges in every state that the slice reaches, changes of
  channels keep the settings of the lines that stay, and the key of a line can be read back.
\<close>

section \<open>Lines follow channels\<close>

definition plot_ok :: "plot \<Rightarrow> bool" where
  "plot_ok p \<longleftrightarrow> map line_key (plot_lines p) = map typedLineKeyToString (createTypedLineKeys p)"

definition line_ok :: "line_slice \<Rightarrow> bool" where
  "line_ok s \<longleftrightarrow> (\<forall>k p. rec_get (plots s) k = Some p \<longrightarrow> plot_key p = k \<and> plot_ok p)"

lemma createTypedLineKeys_cong:
  "xChannels p = xChannels q \<Longrightarrow> yChannels p = yChannels q \<Longrightarrow> ranges p = ranges q \<Longrightarrow> createTypedLineKeys p = createTypedLineKeys q"
  by (simp add: createTypedLineKeys_def)

lemma line_key_line_for [simp]: "line_key (line_for ls k) = typedLineKeyToString k"
  by (auto simp: line_for_def Let_def find_Some_iff split: option.splits)

lemma map_updateLines: "map line_key (updateLines p) = map typedLineKeyToString (createTypedLineKeys p)"
  by (simp add: updateLines_def)

lemma plot_ok_updateLines:
  assumes "xChannels q = xChannels p" "yChannels q = yChannels p" "ranges q = ranges p" "plot_lines q = updateLines p"
  shows "plot_ok q"
  using createTypedLineKeys_cong [OF assms(1-3)] by (simp add: plot_ok_def assms(4) map_updateLines)

lemma plot_ok_same:
  assumes "plot_ok p" "xChannels q = xChannels p" "yChannels q = yChannels p" "ranges q = ranges p"
    "map line_key (plot_lines q) = map line_key (plot_lines p)"
  shows "plot_ok q"
  using createTypedLineKeys_cong [OF assms(2-4)] assms(1) by (simp add: plot_ok_def assms(5))

lemma line_keys_set_line: "map line_key (set_line ls l) = map line_key ls"
  by (auto simp: set_line_def find_index_Some_iff map_update list_update_same_conv split: option.splits)

lemma line_keys_setLine: "map line_key (foldl set_line ls changes) = map line_key ls"
  by (induction changes arbitrary: ls) (simp_all add: line_keys_set_line)

lemma setYChannels_cases:
  assumes "setYChannels a chs add p = Inr q"
  obtains p1 v x where "q = p1\<lparr>plot_lines := updateLines p1, viewport := v, plot_axes := x\<rparr>"
    "plot_lines p1 = plot_lines p" "plot_key p1 = plot_key p"
  using assms that by (fastforce simp: setYChannels_def Let_def bind_result_eq_Inr)

lemma setRanges_cases:
  assumes "setRanges a rs add p = Inr q"
  obtains p1 where "q = p1\<lparr>plot_lines := updateLines p1\<rparr>" "plot_lines p1 = plot_lines p" "plot_key p1 = plot_key p"
  using assms that by (fastforce simp: setRanges_def Let_def bind_result_eq_Inr)

lemma setXChannel_cases:
  obtains p1 where "setXChannel a ch p = p1\<lparr>plot_lines := updateLines p1\<rparr>" "plot_lines p1 = plot_lines p" "plot_key p1 = plot_key p"
  using that by (fastforce simp: setXChannel_def Let_def)

text \<open>What the three changes of channels and ranges have in common: the lines are computed again.\<close>

definition relined :: "plot \<Rightarrow> plot \<Rightarrow> bool" where
  "relined p q \<longleftrightarrow> plot_key q = plot_key p \<and> plot_lines q = map (line_for (plot_lines p)) (createTypedLineKeys q)"

lemma relinedI:
  assumes "plot_lines p1 = plot_lines p" "plot_key p1 = plot_key p" "plot_key q = plot_key p1" "plot_lines q = updateLines p1"
    "xChannels q = xChannels p1" "yChannels q = yChannels p1" "ranges q = ranges p1"
  shows "relined p q"
  using createTypedLineKeys_cong [OF assms(5-7)] by (simp add: relined_def assms(1-4) updateLines_def)

lemma changes_relined:
  "setYChannels a chs add p = Inr q \<Longrightarrow> relined p q"
  "setRanges b rs add p = Inr q \<Longrightarrow> relined p q"
  "relined p (setXChannel b ch p)"
  by (erule setYChannels_cases, rule relinedI, assumption+, simp_all)
    (erule setRanges_cases, rule relinedI, assumption+, simp_all,
     rule setXChannel_cases [of b ch p], rule relinedI, assumption+, simp_all)

lemma relined_ok: "relined p q \<Longrightarrow> plot_ok q \<and> plot_key q = plot_key p"
  by (simp add: relined_def plot_ok_def)

lemma line_ok_set: "line_ok s \<Longrightarrow> plot_ok q \<Longrightarrow> plot_key q = k \<Longrightarrow> line_ok (s\<lparr>plots := rec_set k q (plots s)\<rparr>)"
  by (auto simp: line_ok_def split: if_splits)

lemma with_plot_ok:
  assumes "line_ok s" "with_plot k f s = Inr t" "\<And>p q. plot_ok p \<Longrightarrow> f p = Inr q \<Longrightarrow> plot_ok q \<and> plot_key q = plot_key p"
  shows "line_ok t"
proof -
  obtain p q where p: "rec_get (plots s) k = Some p" "f p = Inr q" and t: "t = s\<lparr>plots := rec_set k q (plots s)\<rparr>"
    using assms(2) by (auto simp: with_plot_def bind_result_eq_Inr split: option.splits)
  have "plot_key p = k" "plot_ok p" using assms(1) p(1) by (simp_all add: line_ok_def)
  with assms(3) [OF _ p(2)] have "plot_ok q" "plot_key q = k" by simp_all
  then show ?thesis unfolding t by (rule line_ok_set [OF assms(1)])
qed

lemmas plot_setters = setViewport_def storeViewport_def setSelection_def setLine_def setAxis_def setTitle_def setLegend_def
  setRule_def removeRule_def selectRule_def line_keys_setLine

lemma plain_setters_ok:
  assumes "plot_ok p"
  shows "plot_ok (setViewport v p) \<and> plot_key (setViewport v p) = plot_key p"
    "plot_ok (storeViewport v p) \<and> plot_key (storeViewport v p) = plot_key p"
    "plot_ok (setSelection v p) \<and> plot_key (setSelection v p) = plot_key p"
    "plot_ok (setLine ls p) \<and> plot_key (setLine ls p) = plot_key p"
    "plot_ok (setAxis a v b p) \<and> plot_key (setAxis a v b p) = plot_key p"
    "plot_ok (setTitle v p) \<and> plot_key (setTitle v p) = plot_key p"
    "plot_ok (setLegend v p) \<and> plot_key (setLegend v p) = plot_key p"
    "plot_ok (setRule r p) \<and> plot_key (setRule r p) = plot_key p"
    "plot_ok (removeRule ks p) \<and> plot_key (removeRule ks p) = plot_key p"
    "plot_ok (selectRule ks p) \<and> plot_key (selectRule ks p) = plot_key p"
    "plot_ok (p\<lparr>remoteCreated := True\<rparr>)"
  by (auto intro!: plot_ok_same [OF assms] simp: plot_setters Let_def split: option.splits)

lemma line_reducer_ok:
  assumes "line_ok s" "line_reducer a s = Inr t"
  shows "line_ok t"
proof -
  have w: "line_ok t'" if "with_plot k f s = Inr t'" "\<And>p q. plot_ok p \<Longrightarrow> f p = Inr q \<Longrightarrow> plot_ok q \<and> plot_key q = plot_key p" for k f t'
    by (rule with_plot_ok [OF assms(1) that])
  show ?thesis
  proof (cases a)
    case (CreatePlot p)
    then show ?thesis using assms line_ok_set [OF assms(1) plot_ok_updateLines [of "p\<lparr>plot_lines := updateLines p\<rparr>" p]]
      by (auto simp: create_plot_def Let_def split: option.splits if_splits)
  next
    case (RemovePlots ks)
    then show ?thesis using assms by (auto simp: remove_plots_def line_ok_def rec_get_delete_all split: if_splits)
  next
    case (SelectRule k rs)
    then obtain t' where t': "with_plot k (return \<circ> selectRule rs) s = Inr t'" "t = t'\<lparr>activeTab := ''annotations''\<rparr>"
      using assms(2) by (auto simp: bind_result_eq_Inr)
    have "line_ok t'" by (rule w [OF t'(1)]) (auto simp: plain_setters_ok)
    then show ?thesis using t'(2) by (simp add: line_ok_def)
  next
    case (SetActiveToolbarTab x)
    then show ?thesis using assms by (auto simp: line_ok_def)
  next
    case (SetControlState x)
    then show ?thesis using assms by (auto simp: line_ok_def)
  next
    case (SetViewportMode x)
    then show ?thesis using assms by (auto simp: line_ok_def)
  next
    case (SetYChannels k a chs add)
    then show ?thesis using assms(2) by (auto intro!: w dest: changes_relined(1) [THEN relined_ok])
  next
    case (SetRanges k a rs add)
    then show ?thesis using assms(2) by (auto intro!: w dest: changes_relined(2) [THEN relined_ok])
  next
    case (SetXChannel k a ch)
    then show ?thesis using assms(2) by (auto intro!: w simp: changes_relined(3) [THEN relined_ok])
  qed (insert assms(2), simp_all only: line_reducer.simps, (erule w, auto simp: plain_setters_ok)+)
qed

interpretation line_plots: action_reducer line_reducer line_ok "\<lambda>_ _. True"
  by unfold_locales (rule line_reducer_ok)

text \<open>The number of entries of all axes together.\<close>

definition entries :: "('a \<times> 'b list) list \<Rightarrow> nat" where
  "entries r = sum_list (map (length \<circ> snd) r)"

lemma createTypedLineKeys_length: "length (createTypedLineKeys p) = entries (ranges p) * entries (yChannels p)"
proof -
  let ?keys = "\<lambda>x rg. concat (map (\<lambda>(yAxis, yChs). map (\<lambda>y.
    \<lparr>tl_range = rg, tl_xAxis = x, tl_yAxis = yAxis, tl_x = xChannels p x, tl_y = y\<rparr>) yChs) (yChannels p))"
  have y: "length (?keys x rg) = entries (yChannels p)" for x rg
    by (induction "yChannels p") (auto simp: entries_def length_concat comp_def case_prod_beta)
  have "length (concat (map (?keys x) rs)) = length rs * entries (yChannels p)" for x rs
    by (induction rs) (simp_all add: y)
  then have "length (concat (map (\<lambda>(x, rs). concat (map (?keys x) rs)) r)) = entries r * entries (yChannels p)" for r
    by (induction r) (auto simp: entries_def algebra_simps)
  then show ?thesis by (simp add: createTypedLineKeys_def)
qed

text \<open>
  C28: In every state the slice reaches, whatever actions are dispatched, each plot is kept under its own key, and it has a line
  with a given key exactly when the key names a y axis, an x axis, a range of that x axis, the channel of that x axis and a channel of that
  y axis. There are as many lines as pairs of a listed range and a listed channel of a y axis: a range or a
  channel that is listed twice gets two lines with the same key.
\<close>

theorem lines_match_channels:
  assumes "reachable line_reducer (\<lambda>_ _. True) ZERO_LINE_SLICE s" and "rec_get (plots s) k = Some p"
  shows "plot_key p = k \<and>
    (\<forall>key. key \<in> line_key ` set (plot_lines p) \<longleftrightarrow>
       (\<exists>x rs r y chs ch. (x, rs) \<in> set (ranges p) \<and> r \<in> set rs \<and> (y, chs) \<in> set (yChannels p) \<and> ch \<in> set chs \<and>
          key = y_text y @ ''---'' @ x_text x @ ''---'' @ r @ ''---'' @ nat_text (xChannels p x) @ ''---'' @ nat_text ch)) \<and>
    length (plot_lines p) = sum_list (map (length \<circ> snd) (ranges p)) * sum_list (map (length \<circ> snd) (yChannels p))"
proof -
  have "line_ok ZERO_LINE_SLICE" by (simp add: line_ok_def ZERO_LINE_SLICE_def)
  from line_plots.reachable_inv [OF assms(1) this] assms(2)
  have p: "plot_key p = k" and lines: "map line_key (plot_lines p) = map typedLineKeyToString (createTypedLineKeys p)"
    by (auto simp: line_ok_def plot_ok_def)
  have "line_key ` set (plot_lines p) = typedLineKeyToString ` set (createTypedLineKeys p)"
    using arg_cong [OF lines, of set] by simp
  moreover have "key \<in> typedLineKeyToString ` set (createTypedLineKeys p) \<longleftrightarrow>
       (\<exists>x rs r y chs ch. (x, rs) \<in> set (ranges p) \<and> r \<in> set rs \<and> (y, chs) \<in> set (yChannels p) \<and> ch \<in> set chs \<and>
          key = y_text y @ ''---'' @ x_text x @ ''---'' @ r @ ''---'' @ nat_text (xChannels p x) @ ''---'' @ nat_text ch)" for key
    by (fastforce simp: createTypedLineKeys_def typedLineKeyToString_def image_iff)
  moreover have "length (plot_lines p) = entries (ranges p) * entries (yChannels p)"
    using arg_cong [OF lines, of length] createTypedLineKeys_length [of p] by simp
  ultimately show ?thesis using p by (simp add: entries_def)
qed

definition sample_line_plot :: plot where
  "sample_line_plot = \<lparr>plot_version = ''0.0.0'', plot_key = ''p'', remoteCreated = False, title = [], legend = [], xChannels = (\<lambda>_. 1),
     yChannels = [(Y1, [2]), (Y2, [])], ranges = [(X1, [''r''])], viewport = ZERO_VIEWPORT_STATE,
     plot_axes = \<lparr>axesTrigger = 0, hasHadChannelSet = False, axes = []\<rparr>,
     plot_lines = [\<lparr>line_key = ''y1---x1---r---1---2'', line_settings = [(''color'', JStr ''red'')]\<rparr>], rules = [], selection = []\<rparr>"

lemma sample_plot_reached:
  "reachable line_reducer (\<lambda>_ _. True) ZERO_LINE_SLICE (store_dispatch line_reducer (CreatePlot sample_line_plot) ZERO_LINE_SLICE)"
  by (rule reachable.action [OF reachable.initial]) simp

theorem lines_match_channels_witness:
  "\<exists>p. rec_get (plots (store_dispatch line_reducer (CreatePlot sample_line_plot) ZERO_LINE_SLICE)) ''p'' = Some p \<and>
     ''y1---x1---r---1---2'' \<in> line_key ` set (plot_lines p) \<and> length (plot_lines p) = 1"
proof -
  define q where "q = sample_line_plot\<lparr>plot_lines := updateLines sample_line_plot\<rparr>"
  have g: "rec_get (plots (store_dispatch line_reducer (CreatePlot sample_line_plot) ZERO_LINE_SLICE)) ''p'' = Some q"
    by (simp add: store_dispatch_def create_plot_def ZERO_LINE_SLICE_def q_def) (simp add: sample_line_plot_def)
  have q: "ranges q = [(X1, [''r''])]" "yChannels q = [(Y1, [2]), (Y2, [])]" "xChannels q = (\<lambda>_. 1)"
    by (simp_all add: q_def sample_line_plot_def)
  have "nat_text 1 = ''1''" "nat_text 2 = ''2''" by code_simp+
  with g lines_match_channels [OF sample_plot_reached g] show ?thesis
    by (simp add: q) (intro exI [of _ Y1] exI [of _ "[2]"] exI [of _ 2] conjI, simp_all)
qed

section \<open>Lines keep their settings\<close>

definition line_or_zero :: "line_state list \<Rightarrow> string \<Rightarrow> line_state" where
  "line_or_zero ls k = (case find (\<lambda>l. line_key l = k) ls of Some l \<Rightarrow> l | None \<Rightarrow> \<lparr>line_key = k, line_settings = ZERO_LINE_STATE\<rparr>)"

lemma line_for_eq: "line_for ls t = line_or_zero ls (typedLineKeyToString t)"
  by (simp only: line_for_def line_or_zero_def Let_def eq_commute [of "typedLineKeyToString t"])

lemma line_key_line_or_zero [simp]: "line_key (line_or_zero ls k) = k"
  by (auto simp: line_or_zero_def find_Some_iff split: option.splits)

lemma find_map_line_for:
  "find (\<lambda>l. line_key l = k) (map (line_for ls) ks) =
     (if k \<in> typedLineKeyToString ` set ks
      then Some (line_or_zero ls k) else None)"
  by (induction ks) (auto simp: line_for_eq)

text \<open>
  Choosing other channels or ranges, on any axis and in either mode, keeps the settings of the lines that stay: a line that the
  plot still has afterwards is the one it had before, and only lines that are new get the default settings.
\<close>

theorem channel_changes_keep_lines:
  assumes "setYChannels a chs add p = Inr q \<or> setRanges b rs add p = Inr q \<or> q = setXChannel b ch p"
  shows "find (\<lambda>l. line_key l = k) (plot_lines q) =
    (if k \<in> typedLineKeyToString ` set (createTypedLineKeys q)
     then Some (case find (\<lambda>l. line_key l = k) (plot_lines p) of Some l \<Rightarrow> l | None \<Rightarrow> \<lparr>line_key = k, line_settings = ZERO_LINE_STATE\<rparr>)
     else None)"
proof -
  have "relined p q" using assms changes_relined by auto
  then show ?thesis by (simp add: relined_def find_map_line_for line_or_zero_def)
qed

theorem channel_changes_keep_lines_witness:
  "\<exists>q. setYChannels Y1 [3] True sample_line_plot = Inr q \<and>
     find (\<lambda>l. line_key l = ''y1---x1---r---1---2'') (plot_lines q) =
       Some \<lparr>line_key = ''y1---x1---r---1---2'', line_settings = [(''color'', JStr ''red'')]\<rparr>"
proof -
  obtain q where q: "setYChannels Y1 [3] True sample_line_plot = Inr q" and
    y: "yChannels q = [(Y1, [2, 3]), (Y2, [])]" "ranges q = [(X1, [''r''])]" "xChannels q = (\<lambda>_. 1)"
    by (simp add: setYChannels_def Let_def unique_def sample_line_plot_def)
  have "''y1---x1---r---1---2'' \<in> typedLineKeyToString ` set (createTypedLineKeys q)"
    by (simp add: createTypedLineKeys_def y typedLineKeyToString_def nat_text.simps char_of_def bit_0)
  moreover have "find (\<lambda>l. line_key l = ''y1---x1---r---1---2'') (plot_lines sample_line_plot) =
      Some \<lparr>line_key = ''y1---x1---r---1---2'', line_settings = [(''color'', JStr ''red'')]\<rparr>" by (simp add: sample_line_plot_def)
  ultimately show ?thesis using channel_changes_keep_lines [OF disjI1 [OF q], of "''y1---x1---r---1---2''"] q by simp
qed

section \<open>The keys of lines\<close>

lemma decimal_value_append: "decimal_value (a @ [c]) = 10 * decimal_value a + (of_char c - 48)"
  by (simp add: decimal_value_def)

lemma decimal_value_nat_text: "decimal_value (nat_text n) = n"
proof (induction n rule: nat_text.induct)
  case (1 n)
  show ?case
  proof (cases "n < 10")
    case True
    then show ?thesis by (subst nat_text.simps) (simp add: decimal_value_def of_char_of)
  next
    case False
    then show ?thesis using 1 by (subst nat_text.simps) (simp add: decimal_value_append of_char_of)
  qed
qed

lemma nat_text_digits: "list_all is_digit (nat_text n)"
proof (induction n rule: nat_text.induct)
  case (1 n)
  then show ?case by (subst nat_text.simps) (auto simp: is_digit_def of_char_of list_all_iff)
qed

lemma no_dashes: "CHR ''-'' \<notin> set s \<Longrightarrow> \<not> sublist ''---'' (s @ ''--'')"
  by (induction s) (auto simp: sublist_Cons_right)

lemma nat_text_no_dash: "CHR ''-'' \<notin> set (nat_text n)"
  using nat_text_digits [of n] by (auto simp: list_all_iff is_digit_def)

lemma js_split_dashes: "\<not> sublist ''---'' (s @ ''--'') \<Longrightarrow> js_split ''---'' (s @ CHR ''-'' # CHR ''-'' # CHR ''-'' # rest) = s # js_split ''---'' rest"
  using js_split_join [of "''---''" s rest] by simp

lemma js_split_last: "CHR ''-'' \<notin> set s \<Longrightarrow> js_split ''---'' s = [s]"
  by (rule js_split_single) (metis set_mono_sublist list.set_intros(1) subsetD, simp)

lemma axis_text_no_dash: "CHR ''-'' \<notin> set (y_text a)" "CHR ''-'' \<notin> set (x_text b)"
  by (cases a; simp) (cases b; simp)

lemma find_axis: "find (\<lambda>a'. y_text a' = y_text a) [Y1, Y2, Y3, Y4] = Some a" "find (\<lambda>b'. x_text b' = x_text b) [X1, X2] = Some b"
  by (cases a; simp) (cases b; simp)

text \<open>
  The key of a line can be read back, provided the key of its range neither holds three dashes in a row nor ends in a dash.
\<close>

theorem typed_line_key_roundtrip:
  assumes "\<not> sublist ''---'' (tl_range k @ ''--'')"
  shows "typedLineKeyFromString (typedLineKeyToString k) = Some k"
  using assms
  by (simp add: typedLineKeyFromString_def typedLineKeyToString_def js_split_dashes js_split_last no_dashes nat_text_no_dash
      axis_text_no_dash find_axis decimal_value_nat_text del: find.simps)

theorem typed_line_key_roundtrip_witness:
  "typedLineKeyFromString (typedLineKeyToString \<lparr>tl_range = ''recent'', tl_xAxis = X1, tl_yAxis = Y2, tl_x = 12, tl_y = 65538\<rparr>) =
     Some \<lparr>tl_range = ''recent'', tl_xAxis = X1, tl_yAxis = Y2, tl_x = 12, tl_y = 65538\<rparr>"
  by (rule typed_line_key_roundtrip) (simp add: sublist_Cons_right)

end
