(* ===== verification/Schematic.thy ===== *)
theory Schematic
  imports Deep Reducer Scale
begin

text \<open>
  The slice of schematics (\<open>console/src/schematic/slice.ts\<close> and \<open>types/\<close>): the nodes and edges of a diagram, the properties of
  its symbols, selection, control, and the copying of a selection from one schematic to another.

  A node is its key, position and whether it is selected, and its other settings.  Edges are JavaScript objects, since the
  properties of an edge are spread over it.  The properties of a symbol may be \<open>undefined\<close>, when it was pasted without any.
  A schematic that is created is given as it comes out of the migrator.  The keys that \<open>id.create\<close> returns while
  a reducer runs are an argument, and so is the predicate on colors that compares them with the background.
\<close>

section \<open>State\<close>

record sch_node =
  node_key :: string
  node_selected :: bool
  node_position :: xy
  node_rest :: settings

type_synonym sch_edge = settings

type_synonym sch_props = "(string, settings option) rec"

record sch_viewport =
  vp_position :: xy
  vp_zoom :: rat

datatype control_status = Acquired | Released | Overridden | Failed

record schematic =
  sch_version :: string
  sch_key :: string
  sch_type :: string
  sch_editable :: bool
  sch_fitViewOnResize :: bool
  sch_snapshot :: bool
  sch_remoteCreated :: bool
  sch_viewport :: sch_viewport
  sch_nodes :: "sch_node list"
  sch_edges :: "sch_edge list"
  sch_props :: sch_props
  sch_control :: control_status
  controlAcquireTrigger :: int
  sch_legend :: settings
  sch_authority :: rat

record copy_buffer =
  copy_pos :: xy
  copy_nodes :: "sch_node list"
  copy_edges :: "sch_edge list"
  copy_props :: sch_props

datatype toolbar_tab = SymbolsTab | PropertiesTab

record sch_slice =
  sch_slice_version :: string
  sch_mode :: string
  sch_copy :: copy_buffer
  sch_tab :: toolbar_tab
  schematics :: "(string, schematic) rec"

definition ZERO_COPY_BUFFER :: copy_buffer where
  "ZERO_COPY_BUFFER = \<lparr>copy_pos = XY_ZERO, copy_nodes = [], copy_edges = [], copy_props = []\<rparr>"

definition ZERO_SCH_SLICE :: sch_slice where
  "ZERO_SCH_SLICE = \<lparr>sch_slice_version = ''4.0.0'', sch_mode = ''select'', sch_copy = ZERO_COPY_BUFFER, sch_tab = SymbolsTab, schematics = []\<rparr>"

definition ZERO_SCH_STATE :: schematic where
  "ZERO_SCH_STATE = \<lparr>sch_version = ''4.0.0'', sch_key = '''', sch_type = ''schematic'', sch_editable = True, sch_fitViewOnResize = False,
     sch_snapshot = False, sch_remoteCreated = False, sch_viewport = \<lparr>vp_position = XY_ZERO, vp_zoom = 1\<rparr>, sch_nodes = [], sch_edges = [],
     sch_props = [], sch_control = Released, controlAcquireTrigger = 0,
     sch_legend = [(''visible'', JBool False), (''position'', JObj [(''x'', JNum 50), (''y'', JNum 50),
       (''units'', JObj [(''x'', JStr ''px''), (''y'', JStr ''px'')])])], sch_authority = 1\<rparr>"

section \<open>Objects\<close>

definition prop_of :: "settings \<Rightarrow> string \<Rightarrow> json" where
  "prop_of e k = (case rec_get e k of None \<Rightarrow> Undef | Some v \<Rightarrow> v)"

fun json_truthy :: "json \<Rightarrow> bool" where
  "json_truthy Undef = False"
| "json_truthy Null = False"
| "json_truthy (JBool b) = b"
| "json_truthy (JNum n) = (n \<noteq> 0)"
| "json_truthy (JStr s) = (s \<noteq> [])"
| "json_truthy (JArr _) = True"
| "json_truthy (JObj _) = True"

text \<open>\<open>===\<close>, where two arrays or objects are taken for different ones.\<close>

fun strict_equals :: "json \<Rightarrow> json \<Rightarrow> bool" where
  "strict_equals (JArr _) _ = False"
| "strict_equals (JObj _) _ = False"
| "strict_equals a b = (a = b)"

definition edge_selected :: "sch_edge \<Rightarrow> bool" where
  "edge_selected e = json_truthy (prop_of e ''selected'')"

section \<open>Helpers of the slice\<close>

definition purgeState :: "schematic \<Rightarrow> schematic" where
  "purgeState c = c\<lparr>sch_control := Released, controlAcquireTrigger := 0\<rparr>"

definition purgeSliceState :: "sch_slice \<Rightarrow> sch_slice" where
  "purgeSliceState s = s\<lparr>schematics := map (\<lambda>(k, c). (k, purgeState c)) (schematics s)\<rparr>"

definition calculatePos :: "box \<Rightarrow> xy \<Rightarrow> sch_viewport \<Rightarrow> xy result" where
  "calculatePos region cursor viewport =
     (let s = xys_magnify \<lparr>xc = 1 / vp_zoom viewport, yc = 1 / vp_zoom viewport\<rparr>
                (xys_translate (xy_scale (vp_position viewport) \<lparr>xc = - 1, yc = - 1\<rparr>)
                  (xys_translate (xy_scale (topLeft region) \<lparr>xc = - 1, yc = - 1\<rparr>) newXYScale))
      in xys_pos s cursor)"

definition clearSelections :: "schematic \<Rightarrow> schematic" where
  "clearSelections c = c\<lparr>sch_nodes := map (\<lambda>n. n\<lparr>node_selected := False\<rparr>) (sch_nodes c),
                         sch_edges := map (rec_set ''selected'' (JBool False)) (sch_edges c)\<rparr>"

definition clearOtherSelections :: "string \<Rightarrow> sch_slice \<Rightarrow> sch_slice" where
  "clearOtherSelections layoutKey s =
     s\<lparr>schematics := map (\<lambda>(k, c). (k, if k = layoutKey then c else clearSelections c)) (schematics s)\<rparr>"

definition with_schematic :: "string \<Rightarrow> (schematic \<Rightarrow> schematic) \<Rightarrow> sch_slice \<Rightarrow> sch_slice result" where
  "with_schematic key f s =
     (case rec_get (schematics s) key of
        None \<Rightarrow> throw ''TypeError''
      | Some c \<Rightarrow> return (s\<lparr>schematics := rec_set key (f c) (schematics s)\<rparr>))"

section \<open>Copying\<close>

definition copy_prop :: "sch_props \<Rightarrow> sch_props \<Rightarrow> string \<Rightarrow> sch_props" where
  "copy_prop props into key = rec_set key (case rec_get props key of None \<Rightarrow> None | Some p \<Rightarrow> p) into"

text \<open>The key of an edge as the key of a property.\<close>

definition edge_key :: "sch_edge \<Rightarrow> string" where
  "edge_key e = (case prop_of e ''key'' of JStr k \<Rightarrow> k | _ \<Rightarrow> ''undefined'')"

definition copy_from :: "schematic \<Rightarrow> copy_buffer \<Rightarrow> copy_buffer" where
  "copy_from c b =
     (let selectedNodes = filter node_selected (sch_nodes c);
          selectedEdges = filter edge_selected (sch_edges c)
      in b\<lparr>copy_nodes := copy_nodes b @ selectedNodes, copy_edges := copy_edges b @ selectedEdges,
           copy_props := foldl (copy_prop (sch_props c)) (foldl (copy_prop (sch_props c)) (copy_props b) (map node_key selectedNodes))
                           (map edge_key selectedEdges)\<rparr>)"

definition copySelection :: "sch_slice \<Rightarrow> sch_slice" where
  "copySelection s =
     (let b = foldl (\<lambda>b (_, c). copy_from c b) ZERO_COPY_BUFFER (schematics s);
          nodes = copy_nodes b;
          total = foldl (\<lambda>acc node. xy_translate [acc, node_position node]) XY_ZERO nodes;
          f = 1 / of_nat (length nodes)
      in s\<lparr>sch_copy := (if length nodes > 0 then b\<lparr>copy_pos := xy_scale total \<lparr>xc = f, yc = f\<rparr>\<rparr> else b)\<rparr>)"

definition paste_node :: "(nat \<Rightarrow> string) \<Rightarrow> sch_props \<Rightarrow> xy \<Rightarrow>
    nat \<times> sch_props \<times> (string, string) rec \<times> sch_node list \<Rightarrow> sch_node \<Rightarrow> nat \<times> sch_props \<times> (string, string) rec \<times> sch_node list" where
  "paste_node ids copied offset = (\<lambda>(n, props, keys, out) node.
     let key = ids n
     in (Suc n, rec_set key (case rec_get copied (node_key node) of None \<Rightarrow> None | Some p \<Rightarrow> p) props, rec_set (node_key node) key keys,
         out @ [node\<lparr>node_position := xy_translate [node_position node, offset], node_key := key, node_selected := True\<rparr>]))"

definition paste_end :: "(string, string) rec \<Rightarrow> json \<Rightarrow> json" where
  "paste_end keys v = (case v of JStr k \<Rightarrow> (case rec_get keys k of Some k' \<Rightarrow> JStr k' | None \<Rightarrow> Undef) | _ \<Rightarrow> Undef)"

definition paste_edge :: "(string, string) rec \<Rightarrow> string \<Rightarrow> sch_edge \<Rightarrow> sch_edge" where
  "paste_edge keys key e =
     spread e [(''key'', JStr key), (''source'', paste_end keys (prop_of e ''source'')), (''target'', paste_end keys (prop_of e ''target'')),
               (''selected'', JBool True)]"

definition paste_into :: "(nat \<Rightarrow> string) \<Rightarrow> copy_buffer \<Rightarrow> xy \<Rightarrow> schematic \<Rightarrow> schematic" where
  "paste_into ids b pos c =
     (let offset = xy_translation (copy_pos b) pos;
          (n, props, keys, nextNodes) = foldl (paste_node ids (copy_props b) offset) (0, sch_props c, [], []) (copy_nodes b);
          nextEdges = map (\<lambda>(i, e). paste_edge keys (ids i) e) (enumerate n (copy_edges b))
      in c\<lparr>sch_props := props,
           sch_edges := map (\<lambda>e. spread e [(''selected'', JBool False)]) (sch_edges c) @ nextEdges,
           sch_nodes := map (\<lambda>nd. nd\<lparr>node_selected := False\<rparr>) (sch_nodes c) @ nextNodes\<rparr>)"

definition pasteSelection :: "(nat \<Rightarrow> string) \<Rightarrow> xy \<Rightarrow> string \<Rightarrow> sch_slice \<Rightarrow> sch_slice result" where
  "pasteSelection ids pos key s = with_schematic key (paste_into ids (sch_copy s) pos) s"

section \<open>Reducers\<close>

definition create_schematic :: "string \<Rightarrow> schematic \<Rightarrow> sch_slice \<Rightarrow> sch_slice" where
  "create_schematic layoutKey migrated s =
     (let c = purgeState (migrated\<lparr>sch_key := layoutKey\<rparr>);
          c' = (if sch_snapshot c then clearSelections (c\<lparr>sch_editable := False\<rparr>) else c)
      in s\<lparr>schematics := rec_set layoutKey c' (schematics s), sch_tab := SymbolsTab\<rparr>)"

definition clearSelection :: "string \<Rightarrow> sch_slice \<Rightarrow> sch_slice result" where
  "clearSelection key s = bind_result (with_schematic key clearSelections s) (\<lambda>t. return (t\<lparr>sch_tab := SymbolsTab\<rparr>))"

text \<open>The trigger of a schematic that is removed is changed just before the schematic goes.\<close>

definition remove_schematic :: "sch_slice \<Rightarrow> string \<Rightarrow> sch_slice" where
  "remove_schematic s key =
     (case rec_get (schematics s) key of None \<Rightarrow> s | Some _ \<Rightarrow> s\<lparr>schematics := rec_delete key (schematics s)\<rparr>)"

definition remove_schematics :: "string list \<Rightarrow> sch_slice \<Rightarrow> sch_slice" where
  "remove_schematics keys s = foldl remove_schematic s keys"

record node_partial =
  part_key :: "string option"
  part_selected :: "bool option"
  part_position :: "xy option"
  part_rest :: settings

definition or_else :: "'a option \<Rightarrow> 'a \<Rightarrow> 'a" where
  "or_else v d = (case v of None \<Rightarrow> d | Some x \<Rightarrow> x)"

definition add_element :: "string \<Rightarrow> settings \<Rightarrow> node_partial \<Rightarrow> schematic \<Rightarrow> schematic" where
  "add_element key props node c =
     (if \<not> sch_editable c then c
      else c\<lparr>sch_nodes := sch_nodes c @ [\<lparr>node_key = or_else (part_key node) key, node_selected = or_else (part_selected node) False,
                                            node_position = or_else (part_position node) XY_ZERO, node_rest = part_rest node\<rparr>],
             sch_props := rec_set key (Some props) (sch_props c)\<rparr>)"

definition set_element_props :: "string \<Rightarrow> settings \<Rightarrow> schematic \<Rightarrow> schematic" where
  "set_element_props key props c =
     (case rec_get (sch_props c) key of
        Some old \<Rightarrow> c\<lparr>sch_props := rec_set key (Some (spread (case old of None \<Rightarrow> [] | Some p \<Rightarrow> p) props)) (sch_props c)\<rparr>
      | None \<Rightarrow>
          (case find_index (\<lambda>e. prop_of e ''key'' = JStr key) (sch_edges c) of
             None \<Rightarrow> c
           | Some i \<Rightarrow> c\<lparr>sch_edges := (sch_edges c)[i := spread (sch_edges c ! i) props]\<rparr>))"

text \<open>The tab of the toolbar after a change of nodes or edges, and the selections of the other schematics.\<close>

definition follow_selection :: "string \<Rightarrow> bool \<Rightarrow> sch_slice \<Rightarrow> sch_slice" where
  "follow_selection layoutKey anySelected s =
     (if anySelected
      then (if sch_tab s \<noteq> PropertiesTab then clearOtherSelections layoutKey s else s)\<lparr>sch_tab := PropertiesTab\<rparr>
      else s\<lparr>sch_tab := SymbolsTab\<rparr>)"

definition merge_nodes :: "bool \<Rightarrow> sch_node list \<Rightarrow> sch_node list \<Rightarrow> sch_node list" where
  "merge_nodes replace old nodes =
     (if replace then nodes else filter (\<lambda>n. node_key n \<notin> set (map node_key nodes)) old @ nodes)"

definition setNodes :: "string \<Rightarrow> sch_node list \<Rightarrow> bool \<Rightarrow> sch_slice \<Rightarrow> sch_slice result" where
  "setNodes layoutKey nodes replace s =
     (case rec_get (schematics s) layoutKey of
        None \<Rightarrow> throw ''TypeError''
      | Some c \<Rightarrow>
          let c' = c\<lparr>sch_nodes := merge_nodes replace (sch_nodes c) nodes\<rparr>;
              s' = s\<lparr>schematics := rec_set layoutKey c' (schematics s)\<rparr>
          in return (follow_selection layoutKey (list_ex node_selected nodes \<or> list_ex edge_selected (sch_edges c')) s'))"

definition set_position :: "sch_node list \<Rightarrow> string \<times> xy \<Rightarrow> sch_node list" where
  "set_position nodes kp =
     (case find_index (\<lambda>n. node_key n = fst kp) nodes of
        None \<Rightarrow> nodes
      | Some i \<Rightarrow> nodes[i := (nodes ! i)\<lparr>node_position := snd kp\<rparr>])"

definition set_node_positions :: "(string, xy) rec \<Rightarrow> schematic \<Rightarrow> schematic" where
  "set_node_positions positions c = c\<lparr>sch_nodes := foldl set_position (sch_nodes c) positions\<rparr>"

text \<open>The color of a new edge between nodes of one color; a node without properties makes the access throw.\<close>

definition color_edge :: "schematic \<Rightarrow> sch_edge \<Rightarrow> sch_edge result" where
  "color_edge c e =
     (case (find (\<lambda>n. JStr (node_key n) = prop_of e ''source'') (sch_nodes c), find (\<lambda>n. JStr (node_key n) = prop_of e ''target'') (sch_nodes c)) of
        (Some source, Some target) \<Rightarrow>
          (case (rec_get (sch_props c) (node_key source), rec_get (sch_props c) (node_key target)) of
             (Some (Some sp), Some (Some tp)) \<Rightarrow>
               let a = prop_of sp ''color''
               in if strict_equals a (prop_of tp ''color'') \<and> \<not> nullish a then return (rec_set ''color'' a e) else return e
           | _ \<Rightarrow> throw ''TypeError'')
      | _ \<Rightarrow> return e)"

fun color_new_edges :: "schematic \<Rightarrow> sch_edge list \<Rightarrow> sch_edge list result" where
  "color_new_edges c [] = return []"
| "color_new_edges c (e # es) =
     bind_result (if prop_of e ''key'' \<in> set (map (\<lambda>o'. prop_of o' ''key'') (sch_edges c)) then return e else color_edge c e)
       (\<lambda>e'. bind_result (color_new_edges c es) (\<lambda>es'. return (e' # es')))"

definition setEdges :: "string \<Rightarrow> sch_edge list \<Rightarrow> sch_slice \<Rightarrow> sch_slice result" where
  "setEdges layoutKey edges s =
     (case rec_get (schematics s) layoutKey of
        None \<Rightarrow> throw ''TypeError''
      | Some c \<Rightarrow>
          bind_result (color_new_edges c edges) (\<lambda>es.
            let s' = s\<lparr>schematics := rec_set layoutKey (c\<lparr>sch_edges := es\<rparr>) (schematics s)\<rparr>
            in return (follow_selection layoutKey (list_ex edge_selected es \<or> list_ex node_selected (sch_nodes c)) s')))"

definition set_editable :: "bool \<Rightarrow> schematic \<Rightarrow> schematic" where
  "set_editable e c =
     (let c1 = clearSelections c;
          c2 = (if sch_control c1 = Acquired then c1\<lparr>controlAcquireTrigger := controlAcquireTrigger c1 - 1\<rparr> else c1)
      in if sch_snapshot c2 then c2 else c2\<lparr>sch_editable := e\<rparr>)"

definition toggle_control :: "control_status option \<Rightarrow> schematic \<Rightarrow> schematic" where
  "toggle_control status c =
     (let st = or_else status (if sch_control c = Released then Acquired else Released)
      in c\<lparr>controlAcquireTrigger := controlAcquireTrigger c + (if st = Released then - 1 else 1)\<rparr>)"

definition setControlStatus :: "string \<Rightarrow> control_status \<Rightarrow> sch_slice \<Rightarrow> sch_slice" where
  "setControlStatus key st s =
     (case rec_get (schematics s) key of
        None \<Rightarrow> s
      | Some c \<Rightarrow>
          let c1 = c\<lparr>sch_control := st\<rparr>;
              c2 = (if st = Acquired then (clearSelections c1)\<lparr>sch_editable := False\<rparr> else c1)
          in s\<lparr>schematics := rec_set key c2 (schematics s)\<rparr>)"

definition fix_node :: "(json \<Rightarrow> bool) \<Rightarrow> json \<Rightarrow> sch_node \<Rightarrow> sch_props \<Rightarrow> sch_props result" where
  "fix_node shouldChange l11 node props =
     (case rec_get props (node_key node) of
        Some (Some p) \<Rightarrow>
          (case rec_get p ''color'' of
             None \<Rightarrow> return props
           | Some v \<Rightarrow> if shouldChange v then return (rec_set (node_key node) (Some (rec_set ''color'' l11 p)) props) else return props)
      | _ \<Rightarrow> throw ''TypeError'')"

definition fix_edge :: "(json \<Rightarrow> bool) \<Rightarrow> json \<Rightarrow> sch_edge \<Rightarrow> sch_edge" where
  "fix_edge shouldChange l11 e =
     (let v = prop_of e ''color''
      in if \<not> nullish v \<and> shouldChange v then rec_set ''color'' l11 e
         else if nullish v then rec_set ''color'' l11 e else e)"

definition fix_schematic :: "(json \<Rightarrow> bool) \<Rightarrow> json \<Rightarrow> schematic \<Rightarrow> schematic result" where
  "fix_schematic shouldChange l11 c =
     bind_result (fold_result (fix_node shouldChange l11) (sch_nodes c) (sch_props c))
       (\<lambda>props. return (c\<lparr>sch_props := props, sch_edges := map (fix_edge shouldChange l11) (sch_edges c)\<rparr>))"

fun fix_all :: "(json \<Rightarrow> bool) \<Rightarrow> json \<Rightarrow> (string, schematic) rec \<Rightarrow> (string, schematic) rec result" where
  "fix_all shouldChange l11 [] = return []"
| "fix_all shouldChange l11 ((k, c) # r) =
     bind_result (fix_schematic shouldChange l11 c) (\<lambda>c'. bind_result (fix_all shouldChange l11 r) (\<lambda>r'. return ((k, c') # r')))"

definition fixThemeContrast :: "(json \<Rightarrow> bool) \<Rightarrow> json \<Rightarrow> sch_slice \<Rightarrow> sch_slice result" where
  "fixThemeContrast shouldChange l11 s = bind_result (fix_all shouldChange l11 (schematics s)) (\<lambda>r. return (s\<lparr>schematics := r\<rparr>))"

definition select_all :: "schematic \<Rightarrow> schematic" where
  "select_all c = c\<lparr>sch_nodes := map (\<lambda>n. n\<lparr>node_selected := True\<rparr>) (sch_nodes c),
                    sch_edges := map (rec_set ''selected'' (JBool True)) (sch_edges c)\<rparr>"

datatype sch_action =
    CopySelection
  | PasteSelection string xy "nat \<Rightarrow> string"
  | CreateSchematic string schematic
  | ClearSelection string
  | RemoveSchematics "string list"
  | AddElement string string settings node_partial
  | SetElementProps string string settings
  | SetNodes string "sch_node list" bool
  | SetNodePositions string "(string, xy) rec"
  | SetEdges string "sch_edge list"
  | SetToolbarTab toolbar_tab
  | SetSchViewport string sch_viewport
  | SetEditable string bool
  | SetFitViewOnResize string bool
  | ToggleControl string "control_status option"
  | SetControlStatus string control_status
  | SetSchViewportMode string
  | SetSchRemoteCreated string
  | FixThemeContrast "json \<Rightarrow> bool" json
  | SetSchLegend string settings
  | SelectAll string
  | SetAuthority string rat

fun sch_reducer :: "sch_action \<Rightarrow> sch_slice \<Rightarrow> sch_slice result" where
  "sch_reducer CopySelection s = return (copySelection s)"
| "sch_reducer (PasteSelection k pos ids) s = pasteSelection ids pos k s"
| "sch_reducer (CreateSchematic k c) s = return (create_schematic k c s)"
| "sch_reducer (ClearSelection k) s = clearSelection k s"
| "sch_reducer (RemoveSchematics ks) s = return (remove_schematics ks s)"
| "sch_reducer (AddElement k el props node) s = with_schematic k (add_element el props node) s"
| "sch_reducer (SetElementProps k el props) s = with_schematic k (set_element_props el props) s"
| "sch_reducer (SetNodes k nodes replace) s = setNodes k nodes replace s"
| "sch_reducer (SetNodePositions k ps) s = with_schematic k (set_node_positions ps) s"
| "sch_reducer (SetEdges k es) s = setEdges k es s"
| "sch_reducer (SetToolbarTab t) s = return (s\<lparr>sch_tab := t\<rparr>)"
| "sch_reducer (SetSchViewport k v) s = with_schematic k (sch_viewport_update (\<lambda>_. v)) s"
| "sch_reducer (SetEditable k e) s = with_schematic k (set_editable e) s"
| "sch_reducer (SetFitViewOnResize k f) s = with_schematic k (sch_fitViewOnResize_update (\<lambda>_. f)) s"
| "sch_reducer (ToggleControl k st) s = with_schematic k (toggle_control st) s"
| "sch_reducer (SetControlStatus k st) s = return (setControlStatus k st s)"
| "sch_reducer (SetSchViewportMode m) s = return (s\<lparr>sch_mode := m\<rparr>)"
| "sch_reducer (SetSchRemoteCreated k) s = with_schematic k (sch_remoteCreated_update (\<lambda>_. True)) s"
| "sch_reducer (FixThemeContrast shouldChange l11) s = fixThemeContrast shouldChange l11 s"
| "sch_reducer (SetSchLegend k l) s = with_schematic k (\<lambda>c. c\<lparr>sch_legend := spread (sch_legend c) l\<rparr>) s"
| "sch_reducer (SelectAll k) s = with_schematic k select_all s"
| "sch_reducer (SetAuthority k a) s = with_schematic k (sch_authority_update (\<lambda>_. a)) s"

end
