(* ===== verification/Schematic_Laws.thy ===== *)
theory Schematic_Laws
  imports Schematic
begin

text \<open>
  What the slice of schematics promises: a snapshot is never editable, a selection keeps its shape and its connections when
  it is copied and pasted, selecting elements in one schematic clears the selections of the others, and the position under the cursor
  is the one that the viewport shows there.
\<close>

section \<open>Snapshots\<close>

definition sch_ok :: "string \<Rightarrow> schematic \<Rightarrow> bool" where
  "sch_ok k c \<longleftrightarrow> sch_key c = k \<and> (sch_snapshot c \<longrightarrow> \<not> sch_editable c)"

definition slice_ok :: "sch_slice \<Rightarrow> bool" where
  "slice_ok s \<longleftrightarrow> (\<forall>k c. rec_get (schematics s) k = Some c \<longrightarrow> sch_ok k c)"

text \<open>A change of a schematic that leaves its key and whether it is a snapshot, and makes no snapshot editable.\<close>

definition keeps :: "schematic \<Rightarrow> schematic \<Rightarrow> bool" where
  "keeps c d \<longleftrightarrow> sch_key d = sch_key c \<and> sch_snapshot d = sch_snapshot c \<and> (sch_snapshot c \<longrightarrow> sch_editable d \<longrightarrow> sch_editable c)"

lemma keeps_ok: "keeps c d \<Longrightarrow> sch_ok k c \<Longrightarrow> sch_ok k d"
  by (auto simp: keeps_def sch_ok_def)

lemma keeps_refl [simp]: "keeps c c"
  by (simp add: keeps_def)

lemma keeps_clearSelections [simp]: "keeps c (clearSelections c)"
  by (simp add: keeps_def clearSelections_def)

lemma keeps_paste: "keeps c (paste_into ids b pos c)"
  by (simp add: keeps_def paste_into_def Let_def split: prod.splits)

lemma keeps_setters:
  "keeps c (add_element key props node c)" "keeps c (set_element_props key props c)" "keeps c (set_node_positions ps c)"
  "keeps c (set_editable e c)" "keeps c (toggle_control st c)" "keeps c (select_all c)"
  "keeps c (sch_viewport_update f c)" "keeps c (sch_fitViewOnResize_update g c)" "keeps c (sch_remoteCreated_update g c)"
  "keeps c (sch_legend_update h c)" "keeps c (sch_authority_update i c)"
  by (simp_all add: keeps_def add_element_def set_element_props_def set_node_positions_def set_editable_def clearSelections_def
      toggle_control_def select_all_def Let_def split: option.splits)

lemma slice_ok_set: "slice_ok s \<Longrightarrow> sch_ok k c \<Longrightarrow> slice_ok (s\<lparr>schematics := rec_set k c (schematics s)\<rparr>)"
  by (auto simp: slice_ok_def split: if_splits)

lemma slice_ok_cong: "schematics t = schematics s \<Longrightarrow> slice_ok t \<longleftrightarrow> slice_ok s"
  by (simp add: slice_ok_def)

lemma rec_get_map_values: "rec_get (map (\<lambda>(k, c). (k, f k c)) r) k = map_option (f k) (rec_get r k)"
  by (induction r) auto

lemma with_schematic_ok:
  assumes "slice_ok s" "with_schematic k f s = Inr t" "\<And>c. keeps c (f c)"
  shows "slice_ok t"
proof -
  obtain c where c: "rec_get (schematics s) k = Some c" "t = s\<lparr>schematics := rec_set k (f c) (schematics s)\<rparr>"
    using assms(2) by (auto simp: with_schematic_def split: option.splits)
  have "sch_ok k c" using assms(1) c(1) by (simp add: slice_ok_def)
  then show ?thesis unfolding c(2) by (intro slice_ok_set assms(1) keeps_ok [OF assms(3)])
qed

lemma follow_selection_ok: "slice_ok s \<Longrightarrow> slice_ok (follow_selection k any s)"
  by (auto simp: follow_selection_def clearOtherSelections_def slice_ok_def rec_get_map_values
      intro: keeps_ok [OF keeps_clearSelections])

lemma replaced_ok:
  assumes "slice_ok s" "rec_get (schematics s) k = Some c" "keeps c d"
  shows "slice_ok (follow_selection k any (s\<lparr>schematics := rec_set k d (schematics s)\<rparr>))"
proof -
  have "sch_ok k c" using assms(1,2) by (simp add: slice_ok_def)
  then show ?thesis by (intro follow_selection_ok slice_ok_set assms(1) keeps_ok [OF assms(3)])
qed

lemma setNodes_ok: "slice_ok s \<Longrightarrow> setNodes k nodes replace s = Inr t \<Longrightarrow> slice_ok t"
  by (auto simp: setNodes_def Let_def keeps_def split: option.splits intro!: replaced_ok)

lemma setEdges_ok: "slice_ok s \<Longrightarrow> setEdges k es s = Inr t \<Longrightarrow> slice_ok t"
  by (auto simp: setEdges_def Let_def keeps_def bind_result_eq_Inr split: option.splits intro!: replaced_ok)

lemma setControlStatus_ok:
  assumes "slice_ok s"
  shows "slice_ok (setControlStatus k st s)"
proof (cases "rec_get (schematics s) k")
  case (Some c)
  then have "sch_ok k c" using assms by (simp add: slice_ok_def)
  then show ?thesis using Some
    by (auto simp: setControlStatus_def Let_def intro!: slice_ok_set [OF assms]) (auto simp: sch_ok_def clearSelections_def)
qed (simp add: setControlStatus_def assms)

lemma create_schematic_ok: "slice_ok s \<Longrightarrow> slice_ok (create_schematic k c s)"
  by (auto simp: create_schematic_def Let_def slice_ok_def sch_ok_def purgeState_def clearSelections_def)

lemma remove_schematic_ok: "slice_ok s \<Longrightarrow> slice_ok (remove_schematic s k)"
  by (auto simp: remove_schematic_def slice_ok_def split: option.splits if_splits)

lemma remove_schematics_ok: "slice_ok s \<Longrightarrow> slice_ok (remove_schematics ks s)"
  unfolding remove_schematics_def by (induction ks arbitrary: s) (auto simp: remove_schematic_ok)

lemma fix_all_get:
  "fix_all f l r = Inr r' \<Longrightarrow> rec_get r' k = Some c' \<Longrightarrow> \<exists>c. rec_get r k = Some c \<and> fix_schematic f l c = Inr c'"
  by (induction f l r arbitrary: r' rule: fix_all.induct) (auto simp: bind_result_eq_Inr split: if_splits)

lemma fixThemeContrast_ok:
  assumes "slice_ok s" "fixThemeContrast f l s = Inr t"
  shows "slice_ok t"
proof -
  obtain r where r: "fix_all f l (schematics s) = Inr r" "t = s\<lparr>schematics := r\<rparr>" using assms(2) by (auto simp: fixThemeContrast_def bind_result_eq_Inr)
  have "sch_ok k c'" if get: "rec_get r k = Some c'" for k c'
  proof -
    obtain c where c: "rec_get (schematics s) k = Some c" "fix_schematic f l c = Inr c'" using fix_all_get [OF r(1) get] by blast
    have "keeps c c'" using c(2) by (auto simp: fix_schematic_def bind_result_eq_Inr keeps_def)
    moreover have "sch_ok k c" using assms(1) c(1) by (simp add: slice_ok_def)
    ultimately show ?thesis by (rule keeps_ok)
  qed
  then show ?thesis by (simp add: slice_ok_def r(2))
qed

lemma sch_reducer_ok:
  assumes "slice_ok s" "sch_reducer a s = Inr t"
  shows "slice_ok t"
proof -
  note w = with_schematic_ok [OF assms(1)]
  show ?thesis
  proof (cases a)
    case (ClearSelection k)
    then obtain u where u: "with_schematic k clearSelections s = Inr u" "t = u\<lparr>sch_tab := SymbolsTab\<rparr>"
      using assms(2) by (auto simp: clearSelection_def bind_result_eq_Inr)
    have "slice_ok u" by (rule w [OF u(1)]) simp
    then show ?thesis by (simp add: u(2) slice_ok_def)
  next
    case (SetNodes k ns r)
    then show ?thesis using assms by (simp add: setNodes_ok)
  next
    case (SetEdges k es)
    then show ?thesis using assms by (simp add: setEdges_ok)
  next
    case (FixThemeContrast f l)
    then show ?thesis using assms by (simp add: fixThemeContrast_ok)
  next
    case CopySelection
    then show ?thesis using assms slice_ok_cong [of t s] by (auto simp: copySelection_def Let_def)
  next
    case (PasteSelection k pos ids)
    then show ?thesis using assms(2) by (auto simp: pasteSelection_def keeps_paste intro: w)
  next
    case (CreateSchematic k c)
    then show ?thesis using assms by (auto simp: create_schematic_ok)
  next
    case (RemoveSchematics ks)
    then show ?thesis using assms by (auto simp: remove_schematics_ok)
  next
    case (SetControlStatus k st)
    then show ?thesis using assms by (auto simp: setControlStatus_ok)
  next
    case (SetToolbarTab x)
    then show ?thesis using assms slice_ok_cong [of t s] by auto
  next
    case (SetSchViewportMode m)
    then show ?thesis using assms slice_ok_cong [of t s] by auto
  qed (insert assms(2), simp_all only: sch_reducer.simps, (erule w, rule keeps_setters)+)
qed

interpretation schematic_slice: action_reducer sch_reducer slice_ok "\<lambda>_ _. True"
  by unfold_locales (rule sch_reducer_ok)

text \<open>
  C25: In every state the slice reaches, each schematic is kept under its own key, and a schematic that is a snapshot is not editable:
  neither making it editable nor releasing control, pasting or any other action changes that.
\<close>

theorem snapshots_stay_locked:
  assumes "reachable sch_reducer (\<lambda>_ _. True) ZERO_SCH_SLICE s" and "rec_get (schematics s) k = Some c"
  shows "sch_key c = k \<and> \<not> (sch_snapshot c \<and> sch_editable c)"
proof -
  have "slice_ok ZERO_SCH_SLICE" by (simp add: slice_ok_def ZERO_SCH_SLICE_def)
  from schematic_slice.reachable_inv [OF assms(1) this] assms(2) show ?thesis by (auto simp: slice_ok_def sch_ok_def)
qed

theorem snapshots_stay_locked_witness:
  "\<exists>c. rec_get (schematics (store_dispatch sch_reducer (SetEditable ''a'' True)
        (store_dispatch sch_reducer (CreateSchematic ''a'' (ZERO_SCH_STATE\<lparr>sch_snapshot := True\<rparr>)) ZERO_SCH_SLICE))) ''a'' = Some c \<and>
     sch_snapshot c \<and> \<not> sch_editable c"
proof -
  let ?s = "store_dispatch sch_reducer (SetEditable ''a'' True)
    (store_dispatch sch_reducer (CreateSchematic ''a'' (ZERO_SCH_STATE\<lparr>sch_snapshot := True\<rparr>)) ZERO_SCH_SLICE)"
  have r: "reachable sch_reducer (\<lambda>_ _. True) ZERO_SCH_SLICE ?s" by (intro reachable.intros) simp_all
  obtain c where "rec_get (schematics ?s) ''a'' = Some c" "sch_snapshot c"
    by (simp add: store_dispatch_def create_schematic_def with_schematic_def set_editable_def clearSelections_def purgeState_def Let_def)
  then show ?thesis using snapshots_stay_locked [OF r] by blast
qed

section \<open>Copy and paste\<close>

lemma rec_get_fold_set:
  assumes "distinct (map f xs)"
  shows "rec_get (foldl (\<lambda>m x. rec_set (f x) (g x) m) m xs) k = (case find (\<lambda>x. f x = k) xs of None \<Rightarrow> rec_get m k | Some x \<Rightarrow> Some (g x))"
  using assms
proof (induction xs arbitrary: m)
  case (Cons x xs)
  have "find (\<lambda>y. f y = f x) xs = None" using Cons.prems by (auto simp: find_None_iff image_iff)
  then show ?case using Cons by (cases "f x = k") (auto split: option.splits)
qed simp

definition pasted_node :: "(nat \<Rightarrow> string) \<Rightarrow> xy \<Rightarrow> nat \<times> sch_node \<Rightarrow> sch_node" where
  "pasted_node ids offset = (\<lambda>(i, nd). nd\<lparr>node_position := xy_translate [node_position nd, offset], node_key := ids i, node_selected := True\<rparr>)"

definition pasted_props :: "(nat \<Rightarrow> string) \<Rightarrow> sch_props \<Rightarrow> sch_props \<Rightarrow> (nat \<times> sch_node) list \<Rightarrow> sch_props" where
  "pasted_props ids copied = foldl (\<lambda>m x. rec_set (ids (fst x)) (case rec_get copied (node_key (snd x)) of None \<Rightarrow> None | Some p \<Rightarrow> p) m)"

definition pasted_keys :: "(nat \<Rightarrow> string) \<Rightarrow> (string, string) rec \<Rightarrow> (nat \<times> sch_node) list \<Rightarrow> (string, string) rec" where
  "pasted_keys ids = foldl (\<lambda>m x. rec_set (node_key (snd x)) (ids (fst x)) m)"

lemma paste_nodes_eq:
  "foldl (paste_node ids copied off) (n, props, keys, out) nodes =
     (n + length nodes, pasted_props ids copied props (enumerate n nodes), pasted_keys ids keys (enumerate n nodes),
      out @ map (pasted_node ids off) (enumerate n nodes))"
  by (induction nodes arbitrary: n props keys out) (simp_all add: paste_node_def pasted_node_def pasted_props_def pasted_keys_def Let_def)

lemma paste_into_eq:
  "paste_into ids b pos c =
     (let nodes = enumerate 0 (copy_nodes b)
      in c\<lparr>sch_props := pasted_props ids (copy_props b) (sch_props c) nodes,
           sch_edges := map (\<lambda>e. spread e [(''selected'', JBool False)]) (sch_edges c) @
             map (\<lambda>(i, e). paste_edge (pasted_keys ids [] nodes) (ids i) e) (enumerate (length (copy_nodes b)) (copy_edges b)),
           sch_nodes := map (\<lambda>nd. nd\<lparr>node_selected := False\<rparr>) (sch_nodes c) @
             map (pasted_node ids (xy_translation (copy_pos b) pos)) nodes\<rparr>)"
  by (simp add: paste_into_def paste_nodes_eq Let_def)

definition selected_nodes :: "sch_slice \<Rightarrow> sch_node list" where
  "selected_nodes s = concat (map (\<lambda>(_, c). filter node_selected (sch_nodes c)) (schematics s))"

definition selected_edges :: "sch_slice \<Rightarrow> sch_edge list" where
  "selected_edges s = concat (map (\<lambda>(_, c). filter edge_selected (sch_edges c)) (schematics s))"

lemma copy_fold:
  "copy_nodes (foldl (\<lambda>b (_, c). copy_from c b) b r) = copy_nodes b @ concat (map (\<lambda>(_, c). filter node_selected (sch_nodes c)) r)"
  "copy_edges (foldl (\<lambda>b (_, c). copy_from c b) b r) = copy_edges b @ concat (map (\<lambda>(_, c). filter edge_selected (sch_edges c)) r)"
  by (induction r arbitrary: b) (auto simp: copy_from_def Let_def)

lemma copied_average:
  "xy_average (map node_position ns) =
     xy_scale (foldl (\<lambda>acc node. xy_translate [acc, node_position node]) XY_ZERO ns) \<lparr>xc = 1 / of_nat (length ns), yc = 1 / of_nat (length ns)\<rparr>"
  by (simp add: xy_average_def foldl_map Let_def)

lemma copySelection_copies:
  "copy_nodes (sch_copy (copySelection s)) = selected_nodes s"
  "copy_edges (sch_copy (copySelection s)) = selected_edges s"
  "selected_nodes s \<noteq> [] \<Longrightarrow> copy_pos (sch_copy (copySelection s)) = xy_average (map node_position (selected_nodes s))"
  "schematics (copySelection s) = schematics s"
  by (simp_all add: copySelection_def Let_def copy_fold ZERO_COPY_BUFFER_def selected_nodes_def selected_edges_def copied_average)

lemma average_axis:
  "xc (xy_average cs) = sum_list (map xc cs) / of_nat (length cs)" "yc (xy_average cs) = sum_list (map yc cs) / of_nat (length cs)"
proof -
  have "xc (foldl (\<lambda>p c. xy_translate [p, c]) a cs) = xc a + sum_list (map xc cs) \<and>
        yc (foldl (\<lambda>p c. xy_translate [p, c]) a cs) = yc a + sum_list (map yc cs)" for a
    by (induction cs arbitrary: a) (simp_all add: xy_translate_def XY_ZERO_def)
  then show "xc (xy_average cs) = sum_list (map xc cs) / of_nat (length cs)" "yc (xy_average cs) = sum_list (map yc cs) / of_nat (length cs)"
    by (simp_all add: xy_average_def Let_def xy_scale_def XY_ZERO_def)
qed

lemma sum_list_add_const: "sum_list (map (\<lambda>x. f x + (v::rat)) xs) = sum_list (map f xs) + of_nat (length xs) * v"
  by (induction xs) (simp_all add: algebra_simps)

lemma translated_average:
  assumes "cs \<noteq> []"
  shows "xy_average (map (\<lambda>p. xy_translate [p, xy_translation (xy_average cs) pos]) cs) = pos"
proof (rule xy.equality)
  have n: "of_nat (length cs) \<noteq> (0::rat)" using assms by simp
  let ?v = "xy_translation (xy_average cs) pos"
  have t: "map xc (map (\<lambda>p. xy_translate [p, ?v]) cs) = map (\<lambda>p. xc p + xc ?v) cs"
    "map yc (map (\<lambda>p. xy_translate [p, ?v]) cs) = map (\<lambda>p. yc p + yc ?v) cs"
    by (simp_all add: xy_translate_def XY_ZERO_def)
  show "xc (xy_average (map (\<lambda>p. xy_translate [p, ?v]) cs)) = xc pos"
    using n by (simp only: average_axis(1) t sum_list_add_const length_map) (simp add: xy_translation_def average_axis field_simps)
  show "yc (xy_average (map (\<lambda>p. xy_translate [p, ?v]) cs)) = yc pos"
    using n by (simp only: average_axis(2) t sum_list_add_const length_map) (simp add: xy_translation_def average_axis field_simps)
qed simp

lemma map_snd_enumerate_comp: "map (\<lambda>(i, x). f x) (enumerate n xs) = map f xs"
  by (induction xs arbitrary: n) simp_all

lemma pasted_nodes_facts:
  "map node_position (map (pasted_node ids off) (enumerate 0 ns)) = map (\<lambda>p. xy_translate [p, off]) (map node_position ns)"
  "map node_key (map (pasted_node ids off) (enumerate 0 ns)) = map ids [0..<length ns]"
  "list_all node_selected (map (pasted_node ids off) (enumerate 0 ns))"
  by (auto simp: pasted_node_def list_all_iff intro: nth_equalityI)
    (auto simp: nth_enumerate_eq intro!: nth_equalityI)

text \<open>
  Copying and pasting moves the selection as a whole: the pasted nodes have the positions of the selected ones, all moved by one
  displacement, their average is the position that was asked for, they have new keys, and they are the only nodes selected in the
  schematic they are pasted into, whose own nodes all stay.
\<close>

theorem paste_moves_selection:
  assumes "rec_get (schematics s) k = Some c" and "selected_nodes s \<noteq> []"
  shows "\<exists>t d pasted v. pasteSelection ids pos k (copySelection s) = Inr t \<and> rec_get (schematics t) k = Some d \<and>
    sch_nodes d = map (\<lambda>n. n\<lparr>node_selected := False\<rparr>) (sch_nodes c) @ pasted \<and> list_all node_selected pasted \<and>
    map node_key pasted = map ids [0..<length (selected_nodes s)] \<and>
    map node_position pasted = map (\<lambda>n. xy_translate [node_position n, v]) (selected_nodes s) \<and>
    xy_average (map node_position pasted) = pos"
proof -
  let ?b = "sch_copy (copySelection s)" and ?ns = "selected_nodes s"
  define v where "v = xy_translation (xy_average (map node_position ?ns)) pos"
  define pasted where "pasted = map (pasted_node ids v) (enumerate 0 ?ns)"
  have "sch_nodes (paste_into ids ?b pos c) = map (\<lambda>n. n\<lparr>node_selected := False\<rparr>) (sch_nodes c) @ pasted"
    using copySelection_copies(3) [OF assms(2)] by (simp add: paste_into_eq Let_def copySelection_copies(1) pasted_def v_def)
  moreover have "map node_position pasted = map (\<lambda>p. xy_translate [p, v]) (map node_position ?ns)" unfolding pasted_def by (rule pasted_nodes_facts)
  moreover have "xy_average (map node_position pasted) = pos" unfolding calculation(2) v_def using assms(2) by (intro translated_average) simp
  moreover have "map node_key pasted = map ids [0..<length ?ns]" "list_all node_selected pasted" unfolding pasted_def by (rule pasted_nodes_facts)+
  ultimately show ?thesis using assms(1) by (auto simp: pasteSelection_def with_schematic_def copySelection_copies(4) o_def)
qed

lemma find_enumerate_key:
  assumes "distinct (map node_key ns)" "i < length ns"
  shows "find (\<lambda>x. node_key (snd x) = node_key (ns ! i)) (enumerate 0 ns) = Some (i, ns ! i)"
proof -
  have "node_key (ns ! j) \<noteq> node_key (ns ! i)" if "j < i" for j
    using assms that nth_eq_iff_index_eq [OF assms(1), of j i] by auto
  then show ?thesis using assms(2) by (auto simp: find_Some_iff nth_enumerate_eq intro!: exI [of _ i])
qed

lemma pasted_keys_get:
  assumes "distinct (map node_key ns)" "i < length ns"
  shows "rec_get (pasted_keys ids [] (enumerate 0 ns)) (node_key (ns ! i)) = Some (ids i)"
proof -
  have "map (\<lambda>x. node_key (snd x)) (enumerate 0 ns) = map node_key ns" 
    by (induction ns rule: rev_induct) (simp_all add: enumerate_append_eq)
  with assms show ?thesis by (simp add: pasted_keys_def rec_get_fold_set find_enumerate_key)
qed

lemma pasted_props_get:
  assumes "inj ids" "i < length ns"
  shows "rec_get (pasted_props ids copied props (enumerate 0 ns)) (ids i) =
    Some (case rec_get copied (node_key (ns ! i)) of None \<Rightarrow> None | Some p \<Rightarrow> p)"
proof -
  have "distinct (map (\<lambda>x. ids (fst x)) (enumerate 0 ns))"
    using assms(1) by (simp add: map_map [symmetric, unfolded o_def] distinct_map inj_on_def)
  moreover have "find (\<lambda>x. ids (fst x) = ids i) (enumerate 0 ns) = Some (i, ns ! i)"
    unfolding find_Some_iff by (rule exI [of _ i]) (use assms in \<open>simp add: nth_enumerate_eq inj_eq\<close>)
  ultimately show ?thesis by (simp add: pasted_props_def rec_get_fold_set)
qed

text \<open>The properties that a copy takes: those of the schematic that an element is selected in.\<close>

definition props_of :: "sch_props \<Rightarrow> string \<Rightarrow> settings option" where
  "props_of props k = (case rec_get props k of None \<Rightarrow> None | Some p \<Rightarrow> p)"

lemma copy_prop_fold:
  "rec_get (foldl (copy_prop props) into ks) k = (if k \<in> set ks then Some (props_of props k) else rec_get into k)"
  by (induction ks arbitrary: into) (auto simp: copy_prop_def props_of_def)

definition taken_keys :: "schematic \<Rightarrow> string set" where
  "taken_keys c = node_key ` {n \<in> set (sch_nodes c). node_selected n} \<union> edge_key ` {e \<in> set (sch_edges c). edge_selected e}"

lemma copy_from_props:
  "rec_get (copy_props (copy_from c b)) k = (if k \<in> taken_keys c then Some (props_of (sch_props c) k) else rec_get (copy_props b) k)"
  by (auto simp: copy_from_def Let_def copy_prop_fold taken_keys_def)

lemma copy_fold_other:
  "\<forall>x\<in>set r. k \<notin> taken_keys (snd x) \<Longrightarrow>
     rec_get (copy_props (foldl (\<lambda>b (_, c). copy_from c b) b r)) k = rec_get (copy_props b) k"
  by (induction r arbitrary: b) (auto simp: copy_from_props)

definition taken_by :: "(string, schematic) rec \<Rightarrow> string set" where
  "taken_by r = set (map node_key (concat (map (\<lambda>(_, c). filter node_selected (sch_nodes c)) r))) \<union>
     set (map edge_key (concat (map (\<lambda>(_, c). filter edge_selected (sch_edges c)) r)))"

lemma taken_keys_by: "y \<in> set r \<Longrightarrow> taken_keys (snd y) \<subseteq> taken_by r"
  by (cases y) (force simp: taken_keys_def taken_by_def)

lemma distinct_parts: "distinct ((A @ B) @ C @ D) \<Longrightarrow> k \<in> set A \<Longrightarrow> k \<notin> set B \<union> set D"
  by auto

lemma distinct_rest: "distinct ((A @ B) @ C @ D) \<Longrightarrow> distinct (B @ D)"
  by auto

lemma copied_props:
  fixes r :: "(string, schematic) rec"
  assumes "distinct (map node_key (concat (map (\<lambda>(_, c). filter node_selected (sch_nodes c)) r)) @
      map edge_key (concat (map (\<lambda>(_, c). filter edge_selected (sch_edges c)) r)))"
    and "(k0, c0) \<in> set r" and "nd \<in> set (sch_nodes c0)" and "node_selected nd"
  shows "rec_get (copy_props (foldl (\<lambda>b (_, c). copy_from c b) b r)) (node_key nd) = Some (props_of (sch_props c0) (node_key nd))"
  using assms
proof (induction r arbitrary: b)
  case (Cons x r)
  show ?case
  proof (cases "x = (k0, c0)")
    case True
    have "node_key nd \<in> taken_keys c0" using Cons.prems(3,4) by (auto simp: taken_keys_def)
    moreover have "\<forall>y\<in>set r. node_key nd \<notin> taken_keys (snd y)"
    proof -
      have "node_key nd \<in> set (map node_key (filter node_selected (sch_nodes c0)))" using Cons.prems(3,4) by simp
      then have "node_key nd \<notin> taken_by r"
        using Cons.prems(1) unfolding True taken_by_def list.map concat.simps map_append prod.case
        by (rule distinct_parts [rotated])
      then show ?thesis using taken_keys_by by blast
    qed
    ultimately show ?thesis using True by (simp add: copy_fold_other copy_from_props)
  next
    case False
    obtain a b' where x: "x = (a, b')" by (cases x)
    have "distinct (map node_key (concat (map (\<lambda>(_, c). filter node_selected (sch_nodes c)) r)) @
        map edge_key (concat (map (\<lambda>(_, c). filter edge_selected (sch_edges c)) r)))"
      using Cons.prems(1) unfolding x list.map concat.simps map_append prod.case by (rule distinct_rest)
    from Cons.IH [OF this _ Cons.prems(3,4)] False Cons.prems(2) show ?thesis by simp
  qed
qed simp

lemma pasted_edge_props:
  "prop_of (paste_edge keys key e) q =
     (if q = ''selected'' then JBool True else if q = ''target'' then paste_end keys (prop_of e ''target'')
      else if q = ''source'' then paste_end keys (prop_of e ''source'') else if q = ''key'' then JStr key else prop_of e q)"
  by (simp add: paste_edge_def spread_def prop_of_def)

text \<open>
  C26: Copying and then pasting into an existing schematic, when all selected nodes and edges, of all schematics
  together, have different keys and new identifiers do not repeat: the nodes of the schematic stay, unselected, and
  the copies of the selected nodes follow them in order, each with a new identifier as its key, selected,
  displaced by the way from the average of the selected positions to the position that was asked for, and otherwise
  like its original; the properties under the new key are those that the original has in its schematic. A copy of every
  selected edge follows the edges of the schematic, with a new identifier as its key: an end at a
  selected node becomes an end at the copy of that node, and all but the key, the ends and the selection is as in the original.
\<close>

theorem paste_keeps_connections:
  assumes "rec_get (schematics s) k = Some c" and "inj ids"
    and "distinct (map node_key (selected_nodes s) @ map edge_key (selected_edges s))"
    and ns: "ns = selected_nodes s" and es: "es = selected_edges s"
  shows "\<exists>t d v. pasteSelection ids pos k (copySelection s) = Inr t \<and> rec_get (schematics t) k = Some d \<and>
    sch_nodes d = map (\<lambda>n. n\<lparr>node_selected := False\<rparr>) (sch_nodes c) @
      map (\<lambda>i. (ns ! i)\<lparr>node_position := xy_translate [node_position (ns ! i), v], node_key := ids i, node_selected := True\<rparr>) [0..<length ns] \<and>
    (ns \<noteq> [] \<longrightarrow> v = xy_translation (xy_average (map node_position ns)) pos) \<and>
    (\<forall>i<length ns. \<forall>k0 c0. (k0, c0) \<in> set (schematics s) \<longrightarrow> ns ! i \<in> set (sch_nodes c0) \<longrightarrow>
       rec_get (sch_props d) (ids i) = Some (props_of (sch_props c0) (node_key (ns ! i)))) \<and>
    length (sch_edges d) = length (sch_edges c) + length es \<and>
    (\<forall>e<length es. let pasted = sch_edges d ! (length (sch_edges c) + e)
       in prop_of pasted ''key'' = JStr (ids (length ns + e)) \<and>
          (\<forall>i<length ns. prop_of (es ! e) ''source'' = JStr (node_key (ns ! i)) \<longrightarrow> prop_of pasted ''source'' = JStr (ids i)) \<and>
          (\<forall>i<length ns. prop_of (es ! e) ''target'' = JStr (node_key (ns ! i)) \<longrightarrow> prop_of pasted ''target'' = JStr (ids i)) \<and>
          (\<forall>q. q \<notin> {''key'', ''source'', ''target'', ''selected''} \<longrightarrow> prop_of pasted q = prop_of (es ! e) q))"
proof (intro exI conjI allI impI)
  let ?b = "sch_copy (copySelection s)"
  let ?d = "paste_into ids ?b pos c"
  have copied: "copy_nodes ?b = ns" "copy_edges ?b = es" by (simp_all add: ns es copySelection_copies)
  show "pasteSelection ids pos k (copySelection s) = Inr ((copySelection s)\<lparr>schematics := rec_set k ?d (schematics s)\<rparr>)"
    using assms(1) by (simp add: pasteSelection_def with_schematic_def copySelection_copies)
  show "rec_get (schematics ((copySelection s)\<lparr>schematics := rec_set k ?d (schematics s)\<rparr>)) k = Some ?d" by simp
  show "sch_nodes ?d = map (\<lambda>n. n\<lparr>node_selected := False\<rparr>) (sch_nodes c) @
      map (\<lambda>i. (ns ! i)\<lparr>node_position := xy_translate [node_position (ns ! i), xy_translation (copy_pos ?b) pos],
        node_key := ids i, node_selected := True\<rparr>) [0..<length ns]"
    by (simp add: paste_into_eq Let_def copied pasted_node_def) (auto simp: nth_enumerate_eq intro!: nth_equalityI)
  show "xy_translation (copy_pos ?b) pos = xy_translation (xy_average (map node_position ns)) pos" if "ns \<noteq> []"
    using that copySelection_copies(3) [of s] by (simp add: ns)
  show "rec_get (sch_props ?d) (ids i) = Some (props_of (sch_props c0) (node_key (ns ! i)))"
    if i: "i < length ns" and c0: "(k0, c0) \<in> set (schematics s)" "ns ! i \<in> set (sch_nodes c0)" for i k0 c0
  proof -
    have "node_selected (ns ! i)" using nth_mem [OF i] by (auto simp: ns selected_nodes_def)
    from copied_props [OF assms(3) [unfolded selected_nodes_def selected_edges_def] c0 this, of ZERO_COPY_BUFFER]
    have "rec_get (copy_props ?b) (node_key (ns ! i)) = Some (props_of (sch_props c0) (node_key (ns ! i)))"
      by (simp add: copySelection_def Let_def)
    then show ?thesis using pasted_props_get [OF assms(2) i] by (simp add: paste_into_eq Let_def copied)
  qed
  show "length (sch_edges ?d) = length (sch_edges c) + length es" by (simp add: paste_into_eq Let_def copied)
  show "let pasted = sch_edges ?d ! (length (sch_edges c) + e)
       in prop_of pasted ''key'' = JStr (ids (length ns + e)) \<and>
          (\<forall>i<length ns. prop_of (es ! e) ''source'' = JStr (node_key (ns ! i)) \<longrightarrow> prop_of pasted ''source'' = JStr (ids i)) \<and>
          (\<forall>i<length ns. prop_of (es ! e) ''target'' = JStr (node_key (ns ! i)) \<longrightarrow> prop_of pasted ''target'' = JStr (ids i)) \<and>
          (\<forall>q. q \<notin> {''key'', ''source'', ''target'', ''selected''} \<longrightarrow> prop_of pasted q = prop_of (es ! e) q)"
    if "e < length es" for e
  proof -
    have "sch_edges ?d ! (length (sch_edges c) + e) = paste_edge (pasted_keys ids [] (enumerate 0 ns)) (ids (length ns + e)) (es ! e)"
      using that by (simp add: paste_into_eq Let_def copied nth_append nth_enumerate_eq)
    moreover have "distinct (map node_key ns)" using assms(3) by (simp add: ns)
    ultimately show ?thesis by (simp add: Let_def pasted_edge_props paste_end_def pasted_keys_get)
  qed
qed

section \<open>Selection and viewport\<close>

text \<open>
  A selection belongs to one schematic: setting nodes with one selected, while the toolbar shows the symbols, leaves no node and no edge
  of any other schematic selected and shows the properties.
\<close>

theorem selecting_clears_others:
  assumes "setNodes k nodes replace s = Inr t" and "list_ex node_selected nodes" and "sch_tab s = SymbolsTab"
    and "k' \<noteq> k" and "rec_get (schematics t) k' = Some d"
  shows "sch_tab t = PropertiesTab \<and> \<not> list_ex node_selected (sch_nodes d) \<and> \<not> list_ex edge_selected (sch_edges d)"
proof -
  obtain c where "rec_get (schematics s) k' = Some c" "d = clearSelections c" "sch_tab t = PropertiesTab"
    using assms by (auto simp: setNodes_def Let_def follow_selection_def clearOtherSelections_def rec_get_map_values split: option.splits)
  then show ?thesis by (simp add: clearSelections_def list_ex_iff edge_selected_def prop_of_def)
qed

lemma xys_pos_translate_magnify:
  "xys_pos (xys_magnify m (xys_translate a (xys_translate b newXYScale))) p =
     Inr \<lparr>xc = (xc p + xc b + xc a) * xc m, yc = (yc p + yc b + yc a) * yc m\<rparr>"
  by (simp add: xys_pos_def xys_magnify_def xys_translate_def newXYScale_def newScale_def scale_pos_def exec_def scale_magnify_def
      scale_translate_def push_op_def both_axes_def)

text \<open>
  The position of an element that is dropped is the point of the diagram that the viewport shows under the cursor: the point that
  is magnified by the zoom, moved by the pan and by the corner of the region comes back exactly.
\<close>

theorem calculatePos_inverts_viewport:
  assumes "vp_zoom v \<noteq> 0"
  shows "calculatePos region
    (xy_translate [xy_scale p \<lparr>xc = vp_zoom v, yc = vp_zoom v\<rparr>, vp_position v, topLeft region]) v = Inr p"
  using assms by (simp add: calculatePos_def Let_def xys_pos_translate_magnify xy_translate_def xy_scale_def XY_ZERO_def)

section \<open>Examples\<close>

definition sample_node :: "string \<Rightarrow> rat \<Rightarrow> sch_node" where
  "sample_node k x = \<lparr>node_key = k, node_selected = True, node_position = \<lparr>xc = x, yc = 0\<rparr>, node_rest = []\<rparr>"

definition sample_edge :: sch_edge where
  "sample_edge = [(''key'', JStr ''e''), (''source'', JStr ''a''), (''target'', JStr ''b''), (''selected'', JBool True)]"

definition sample_schematic :: schematic where
  "sample_schematic = ZERO_SCH_STATE\<lparr>sch_nodes := [sample_node ''a'' 0, sample_node ''b'' 10], sch_edges := [sample_edge],
     sch_props := [(''a'', Some []), (''b'', Some [])]\<rparr>"

definition sample_schematics :: sch_slice where
  "sample_schematics = ZERO_SCH_SLICE\<lparr>schematics := [(''s'', sample_schematic), (''t'', ZERO_SCH_STATE)]\<rparr>"

definition sample_ids :: "nat \<Rightarrow> string" where
  "sample_ids n = replicate n CHR ''x''"

lemma sample_selection:
  "selected_nodes sample_schematics = [sample_node ''a'' 0, sample_node ''b'' 10]" "selected_edges sample_schematics = [sample_edge]"
  by (simp_all add: selected_nodes_def selected_edges_def sample_schematics_def sample_schematic_def sample_node_def sample_edge_def
      edge_selected_def prop_of_def ZERO_SCH_STATE_def)

theorem paste_moves_selection_witness:
  "\<exists>t d pasted v. pasteSelection sample_ids \<lparr>xc = 50, yc = 7\<rparr> ''t'' (copySelection sample_schematics) = Inr t \<and>
    rec_get (schematics t) ''t'' = Some d \<and>
    sch_nodes d = map (\<lambda>n. n\<lparr>node_selected := False\<rparr>) (sch_nodes ZERO_SCH_STATE) @ pasted \<and> list_all node_selected pasted \<and>
    map node_key pasted = map sample_ids [0..<length (selected_nodes sample_schematics)] \<and>
    map node_position pasted = map (\<lambda>n. xy_translate [node_position n, v]) (selected_nodes sample_schematics) \<and>
    xy_average (map node_position pasted) = \<lparr>xc = 50, yc = 7\<rparr>"
  by (rule paste_moves_selection) (simp_all add: sample_schematics_def sample_selection [unfolded sample_schematics_def])

theorem paste_keeps_connections_witness:
  "\<exists>t d. pasteSelection sample_ids XY_ZERO ''t'' (copySelection sample_schematics) = Inr t \<and> rec_get (schematics t) ''t'' = Some d \<and>
    map node_key (sch_nodes d) = [sample_ids 0, sample_ids 1] \<and> length (sch_edges d) = 1 \<and>
    prop_of (sch_edges d ! 0) ''source'' = JStr (sample_ids 0) \<and> prop_of (sch_edges d ! 0) ''target'' = JStr (sample_ids 1) \<and>
    rec_get (sch_props d) (sample_ids 1) = Some (Some [])"
proof -
  have "rec_get (schematics sample_schematics) ''t'' = Some ZERO_SCH_STATE" by (simp add: sample_schematics_def)
  moreover have "inj sample_ids" by (rule injI) (metis sample_ids_def length_replicate)
  moreover have "distinct (map node_key (selected_nodes sample_schematics) @ map edge_key (selected_edges sample_schematics))"
    by (simp add: sample_selection sample_node_def sample_edge_def edge_key_def prop_of_def)
  ultimately obtain t d where d: "pasteSelection sample_ids XY_ZERO ''t'' (copySelection sample_schematics) = Inr t"
    "rec_get (schematics t) ''t'' = Some d" "map node_key (sch_nodes d) = [sample_ids 0, sample_ids 1]" "length (sch_edges d) = 1"
    "\<And>i k0 c0. i < 2 \<Longrightarrow> (k0, c0) \<in> set (schematics sample_schematics) \<Longrightarrow> selected_nodes sample_schematics ! i \<in> set (sch_nodes c0) \<Longrightarrow>
       rec_get (sch_props d) (sample_ids i) = Some (props_of (sch_props c0) (node_key (selected_nodes sample_schematics ! i)))"
    "\<And>i. i < 2 \<Longrightarrow> prop_of sample_edge ''source'' = JStr (node_key (selected_nodes sample_schematics ! i)) \<Longrightarrow>
       prop_of (sch_edges d ! 0) ''source'' = JStr (sample_ids i)"
    "\<And>i. i < 2 \<Longrightarrow> prop_of sample_edge ''target'' = JStr (node_key (selected_nodes sample_schematics ! i)) \<Longrightarrow>
       prop_of (sch_edges d ! 0) ''target'' = JStr (sample_ids i)"
    using paste_keeps_connections [of sample_schematics "''t''" ZERO_SCH_STATE sample_ids, OF _ _ _ refl refl, of XY_ZERO]
    by (auto simp: sample_selection ZERO_SCH_STATE_def Let_def numeral_2_eq_2 upt_rec)
  have sample_owner: "(''s'', sample_schematic) \<in> set (schematics sample_schematics)"
    "sample_node ''b'' 10 \<in> set (sch_nodes sample_schematic)" "props_of (sch_props sample_schematic) ''b'' = Some []"
    by (simp_all add: sample_schematics_def sample_schematic_def props_of_def)
  show ?thesis
    using d(1-4) d(5) [of 1 "''s''" sample_schematic] d(6) [of 0] d(7) [of 1] sample_owner
    by (simp add: sample_selection sample_edge_def prop_of_def sample_node_def)
qed

theorem selecting_clears_others_witness:
  "\<exists>t d. setNodes ''t'' [sample_node ''c'' 1] True sample_schematics = Inr t \<and> rec_get (schematics t) ''s'' = Some d \<and>
     sch_tab t = PropertiesTab \<and> \<not> list_ex node_selected (sch_nodes d)"
proof -
  obtain t d where t: "setNodes ''t'' [sample_node ''c'' 1] True sample_schematics = Inr t" "rec_get (schematics t) ''s'' = Some d"
    by (simp add: setNodes_def sample_schematics_def ZERO_SCH_SLICE_def Let_def follow_selection_def clearOtherSelections_def sample_node_def)
  moreover have "sch_tab sample_schematics = SymbolsTab" by (simp add: sample_schematics_def ZERO_SCH_SLICE_def)
  ultimately show ?thesis using selecting_clears_others [OF t(1) _ _ _ t(2)] by (auto simp: sample_node_def)
qed

theorem calculatePos_inverts_viewport_witness:
  "calculatePos BOX_ZERO (xy_translate [xy_scale \<lparr>xc = 3, yc = 4\<rparr> \<lparr>xc = 2, yc = 2\<rparr>, \<lparr>xc = 10, yc = 20\<rparr>, topLeft BOX_ZERO])
     \<lparr>vp_position = \<lparr>xc = 10, yc = 20\<rparr>, vp_zoom = 2\<rparr> = Inr \<lparr>xc = 3, yc = 4\<rparr>"
  using calculatePos_inverts_viewport [of "\<lparr>vp_position = \<lparr>xc = 10, yc = 20\<rparr>, vp_zoom = 2\<rparr>" BOX_ZERO "\<lparr>xc = 3, yc = 4\<rparr>"] by simp

end
