(* ===== verification/Schematic_Migrations.thy ===== *)
theory Schematic_Migrations
  imports Schematic Migrate
begin

text \<open>
  The migrations of schematics (\<open>console/src/schematic/types/v1.ts\<close> to \<open>v4.ts\<close>, \<open>index.ts\<close>), composed by the migrator.  A persisted
  schematic is its version and its other fields, a JavaScript object.  The key that \<open>uuid\<close> returns is an argument.
\<close>

definition ZERO_LEGEND_STATE :: json where
  "ZERO_LEGEND_STATE = JObj [(''visible'', JBool False), (''position'', JObj [(''x'', JNum 50), (''y'', JNum 50),
     (''units'', JObj [(''x'', JStr ''px''), (''y'', JStr ''px'')])])]"

definition stateMigration_v1 :: "settings migration" where
  "stateMigration_v1 = createMigration (\<lambda>s. return (s\<lparr>version := Some ''1.0.0'', carried := spread (carried s) [(''legend'', ZERO_LEGEND_STATE)]\<rparr>))"

definition stateMigration_v2 :: "string \<Rightarrow> settings migration" where
  "stateMigration_v2 uuid = createMigration (\<lambda>s. return
     (s\<lparr>version := Some ''2.0.0'', carried := spread (carried s) [(''key'', JStr uuid), (''type'', JStr ''schematic'')]\<rparr>))"

text \<open>\<open>{...edge, segments: []}\<close>; the spread of a value that is no object has no properties of its own here.\<close>

definition clear_segments :: "json \<Rightarrow> json" where
  "clear_segments e = JObj (spread (case e of JObj ps \<Rightarrow> ps | _ \<Rightarrow> []) [(''segments'', JArr [])])"

definition stateMigration_v3 :: "settings migration" where
  "stateMigration_v3 = createMigration (\<lambda>s.
     case prop_of (carried s) ''edges'' of
       JArr es \<Rightarrow> return (s\<lparr>version := Some ''3.0.0'', carried := spread (carried s) [(''edges'', JArr (map clear_segments es))]\<rparr>)
     | _ \<Rightarrow> throw ''TypeError'')"

definition stateMigration_v4 :: "settings migration" where
  "stateMigration_v4 = createMigration (\<lambda>s. return (s\<lparr>version := Some ''4.0.0'', carried := spread (carried s) [(''authority'', JNum 1)]\<rparr>))"

definition STATE_MIGRATIONS :: "string \<Rightarrow> (string, settings migration) rec" where
  "STATE_MIGRATIONS uuid =
     [(''0.0.0'', stateMigration_v1), (''1.0.0'', stateMigration_v2 uuid), (''2.0.0'', stateMigration_v3), (''3.0.0'', stateMigration_v4)]"

definition ZERO_PERSISTED :: "settings versioned" where
  "ZERO_PERSISTED = \<lparr>version = Some ''4.0.0'', carried =
     [(''snapshot'', JBool False), (''nodes'', JArr []), (''edges'', JArr []), (''props'', JObj []), (''remoteCreated'', JBool False),
      (''viewport'', JObj [(''position'', JObj [(''x'', JNum 0), (''y'', JNum 0)]), (''zoom'', JNum 1)]), (''editable'', JBool True),
      (''control'', JStr ''released''), (''controlAcquireTrigger'', JNum 0), (''fitViewOnResize'', JBool False), (''legend'', ZERO_LEGEND_STATE),
      (''key'', JStr ''''), (''type'', JStr ''schematic''), (''authority'', JNum 1)]\<rparr>"

definition migrateState :: "nat \<Rightarrow> string \<Rightarrow> (settings versioned \<Rightarrow> settings versioned) result" where
  "migrateState depth uuid = migrator depth (STATE_MIGRATIONS uuid) None None ZERO_PERSISTED"

section \<open>Every version reaches the latest\<close>

lemma latest_state_version: "latestMigrationVersion (STATE_MIGRATIONS uuid) = Inr (Some ''3.0.0'')"
  unfolding STATE_MIGRATIONS_def latestMigrationVersion_def rec_keys_def list.map fst_conv by code_simp

lemma newer_versions:
  "semVerNewer ''4.0.0'' ''3.0.0'' no_opts = Inr True" "semVerNewer ''3.0.0'' ''3.0.0'' no_opts = Inr False"
  "semVerNewer ''2.0.0'' ''3.0.0'' no_opts = Inr False" "semVerNewer ''1.0.0'' ''3.0.0'' no_opts = Inr False"
  "semVerNewer ''0.0.0'' ''3.0.0'' no_opts = Inr False"
  by code_simp+

lemma migrate_f_latest: "version s = Some ''4.0.0'' \<Longrightarrow> migrate_f (Suc d) ms ''3.0.0'' def s = Inr s"
  by (simp add: newer_versions)

lemma migrate_f_step:
  assumes "version s = Some v" "semVerNewer v l no_opts = Inr False" "rec_get ms v = Some m" "m s = Inr s'" "migrate_f d ms l def s' = Inr t"
  shows "migrate_f (Suc d) ms l def s = Inr t"
  using assms by simp

lemma rec_get_spread_other: "k \<notin> fst ` set b \<Longrightarrow> rec_get (spread a b) k = rec_get a k"
  unfolding spread_def by (induction b arbitrary: a) auto

lemma prop_of_spread_other: "k \<notin> fst ` set b \<Longrightarrow> prop_of (spread a b) k = prop_of a k"
  by (simp add: prop_of_def rec_get_spread_other)

lemma state_migrations:
  "rec_get (STATE_MIGRATIONS uuid) ''0.0.0'' = Some stateMigration_v1" "rec_get (STATE_MIGRATIONS uuid) ''1.0.0'' = Some (stateMigration_v2 uuid)"
  "rec_get (STATE_MIGRATIONS uuid) ''2.0.0'' = Some stateMigration_v3" "rec_get (STATE_MIGRATIONS uuid) ''3.0.0'' = Some stateMigration_v4"
  by (simp_all add: STATE_MIGRATIONS_def)

lemma state_migration_steps:
  "stateMigration_v1 s = Inr (s\<lparr>version := Some ''1.0.0'', carried := spread (carried s) [(''legend'', ZERO_LEGEND_STATE)]\<rparr>)"
  "stateMigration_v2 uuid s = Inr (s\<lparr>version := Some ''2.0.0'', carried := spread (carried s) [(''key'', JStr uuid), (''type'', JStr ''schematic'')]\<rparr>)"
  "prop_of (carried s) ''edges'' = JArr es \<Longrightarrow>
     stateMigration_v3 s = Inr (s\<lparr>version := Some ''3.0.0'', carried := spread (carried s) [(''edges'', JArr (map clear_segments es))]\<rparr>)"
  "stateMigration_v4 s = Inr (s\<lparr>version := Some ''4.0.0'', carried := spread (carried s) [(''authority'', JNum 1)]\<rparr>)"
  by (simp_all add: stateMigration_v1_def stateMigration_v2_def stateMigration_v3_def stateMigration_v4_def createMigration_def)

text \<open>What is left of the way to the latest version, one version after the other.\<close>

definition migrated_to :: "nat \<Rightarrow> string \<Rightarrow> settings versioned \<Rightarrow> (string \<times> json) list \<Rightarrow> bool" where
  "migrated_to d uuid s changes \<longleftrightarrow> (\<forall>n def. d \<le> n \<longrightarrow> migrate_f n (STATE_MIGRATIONS uuid) ''3.0.0'' def s =
     Inr (s\<lparr>version := Some ''4.0.0'', carried := spread (carried s) changes\<rparr>))"

lemma migrated_step:
  assumes "version s = Some v" "semVerNewer v ''3.0.0'' no_opts = Inr False" "rec_get (STATE_MIGRATIONS uuid) v = Some m"
    and "m s = Inr (s\<lparr>version := Some w, carried := spread (carried s) now\<rparr>)"
    and "migrated_to d uuid (s\<lparr>version := Some w, carried := spread (carried s) now\<rparr>) later"
  shows "migrated_to (Suc d) uuid s (now @ later)"
  unfolding migrated_to_def
proof (intro allI impI)
  fix n def assume "Suc d \<le> n"
  then obtain k where k: "n = Suc k" "d \<le> k" by (cases n) auto
  show "migrate_f n (STATE_MIGRATIONS uuid) ''3.0.0'' def s = Inr (s\<lparr>version := Some ''4.0.0'', carried := spread (carried s) (now @ later)\<rparr>)"
    unfolding k(1) by (rule migrate_f_step [OF assms(1-4)]) (use assms(5) k(2) in \<open>simp add: migrated_to_def spread_def\<close>)
qed

lemma from_v3: "version s = Some ''3.0.0'' \<Longrightarrow> migrated_to 2 uuid s [(''authority'', JNum 1)]"
proof -
  assume v: "version s = Some ''3.0.0''"
  have "migrated_to 1 uuid (s\<lparr>version := Some ''4.0.0'', carried := spread (carried s) [(''authority'', JNum 1)]\<rparr>) []"
    unfolding migrated_to_def
  proof (intro allI impI)
    fix n :: nat and def :: "settings versioned" assume "1 \<le> n"
    then obtain k where "n = Suc k" by (cases n) auto
    then show "migrate_f n (STATE_MIGRATIONS uuid) ''3.0.0'' def (s\<lparr>version := Some ''4.0.0'', carried := spread (carried s) [(''authority'', JNum 1)]\<rparr>) =
      Inr (s\<lparr>version := Some ''4.0.0'', carried := spread (carried s) [(''authority'', JNum 1)],
        version := Some ''4.0.0'', carried := spread (carried (s\<lparr>version := Some ''4.0.0'', carried := spread (carried s) [(''authority'', JNum 1)]\<rparr>)) []\<rparr>)"
      by (simp add: newer_versions spread_def)
  qed
  from migrated_step [OF v newer_versions(2) state_migrations(4) state_migration_steps(4) this] show ?thesis by (simp add: numeral_2_eq_2)
qed

lemma from_v2:
  assumes "version s = Some ''2.0.0''" "prop_of (carried s) ''edges'' = JArr es"
  shows "migrated_to 3 uuid s [(''edges'', JArr (map clear_segments es)), (''authority'', JNum 1)]"
  using migrated_step [OF assms(1) newer_versions(3) state_migrations(3) state_migration_steps(3) [OF assms(2)] from_v3] by simp

lemma from_v1:
  assumes "version s = Some ''1.0.0''" "prop_of (carried s) ''edges'' = JArr es"
  shows "migrated_to 4 uuid s [(''key'', JStr uuid), (''type'', JStr ''schematic''), (''edges'', JArr (map clear_segments es)), (''authority'', JNum 1)]"
  using migrated_step [OF assms(1) newer_versions(4) state_migrations(2) state_migration_steps(2) from_v2 [where es = es]] assms(2)
  by (simp add: prop_of_spread_other)

lemma from_v0:
  assumes "version s = Some ''0.0.0''" "prop_of (carried s) ''edges'' = JArr es"
  shows "migrated_to 5 uuid s [(''legend'', ZERO_LEGEND_STATE), (''key'', JStr uuid), (''type'', JStr ''schematic''),
    (''edges'', JArr (map clear_segments es)), (''authority'', JNum 1)]"
  using migrated_step [OF assms(1) newer_versions(5) state_migrations(1) state_migration_steps(1) from_v1 [where es = es]] assms(2)
  by (simp add: prop_of_spread_other)

lemma migrated_later: "migrated_to d uuid s ch \<Longrightarrow> d \<le> e \<Longrightarrow> migrated_to e uuid s ch"
  by (simp add: migrated_to_def)

lemma migrated_changes:
  assumes "version s = Some v" "v \<in> {''0.0.0'', ''1.0.0'', ''2.0.0'', ''3.0.0''}" "prop_of (carried s) ''edges'' = JArr es"
  obtains changes where "fst ` set changes \<subseteq> {''legend'', ''key'', ''type'', ''edges''}" "migrated_to 5 uuid s (changes @ [(''authority'', JNum 1)])"
proof -
  note edges = assms(3)
  consider "version s = Some ''0.0.0''" | "version s = Some ''1.0.0''" | "version s = Some ''2.0.0''" | "version s = Some ''3.0.0''"
    using assms(1,2) by auto
  then show ?thesis
  proof cases
    case 1
    show ?thesis by (rule that [of "[(''legend'', ZERO_LEGEND_STATE), (''key'', JStr uuid), (''type'', JStr ''schematic''), (''edges'', JArr (map clear_segments es))]"])
      (use from_v0 [OF 1 edges] in simp_all)
  next
    case 2
    show ?thesis by (rule that [of "[(''key'', JStr uuid), (''type'', JStr ''schematic''), (''edges'', JArr (map clear_segments es))]"])
      (use migrated_later [OF from_v1 [OF 2 edges]] in simp_all)
  next
    case 3
    show ?thesis by (rule that [of "[(''edges'', JArr (map clear_segments es))]"]) (use migrated_later [OF from_v2 [OF 3 edges]] in simp_all)
  next
    case 4
    show ?thesis by (rule that [of "[]"]) (use migrated_later [OF from_v3 [OF 4]] in simp_all)
  qed
qed

text \<open>
  C27: A schematic that an older release stored is never replaced by an empty one: from each of the four earlier versions, provided its edges are an
  array, it comes out at the latest version with the default authority, and its nodes, properties, viewport and all other fields
  that no migration is about are the ones that were stored.
\<close>

theorem stored_schematics_survive:
  assumes "version s = Some v" and "v \<in> {''0.0.0'', ''1.0.0'', ''2.0.0'', ''3.0.0''}" and "prop_of (carried s) ''edges'' = JArr es"
    and "4 < depth"
  shows "\<exists>run. migrateState depth uuid = Inr run \<and> version (run s) = Some ''4.0.0'' \<and> rec_get (carried (run s)) ''authority'' = Some (JNum 1) \<and>
    (\<forall>f. f \<notin> {''legend'', ''key'', ''type'', ''edges'', ''authority''} \<longrightarrow> rec_get (carried (run s)) f = rec_get (carried s) f)"
proof -
  obtain changes where changes: "fst ` set changes \<subseteq> {''legend'', ''key'', ''type'', ''edges''}"
    "migrated_to 5 uuid s (changes @ [(''authority'', JNum 1)])"
    by (rule migrated_changes [OF assms(1-3)])
  then have m: "migrate_f depth (STATE_MIGRATIONS uuid) ''3.0.0'' ZERO_PERSISTED s =
      Inr (s\<lparr>version := Some ''4.0.0'', carried := spread (carried s) (changes @ [(''authority'', JNum 1)])\<rparr>)"
    using assms(4) by (simp add: migrated_to_def)
  obtain run where run: "migrateState depth uuid = Inr run" "run s = s\<lparr>version := Some ''4.0.0'', carried := spread (carried s) (changes @ [(''authority'', JNum 1)])\<rparr>"
    using m assms(1) by (simp add: migrateState_def migrator_def latest_state_version)
  have "rec_get (spread (carried s) (changes @ [(''authority'', JNum 1)])) f = rec_get (carried s) f"
    if "f \<notin> {''legend'', ''key'', ''type'', ''edges'', ''authority''}" for f
    using that changes(1) by (intro rec_get_spread_other) auto
  then show ?thesis using run by (auto simp: spread_def)
qed

definition sample_stored :: "settings versioned" where
  "sample_stored = \<lparr>version = Some ''1.0.0'', carried = [(''edges'', JArr [JObj [(''key'', JStr ''e'')]]), (''nodes'', JArr [JStr ''n''])]\<rparr>"

theorem stored_schematics_survive_witness:
  "\<exists>run. migrateState 5 ''id'' = Inr run \<and> version (run sample_stored) = Some ''4.0.0'' \<and>
     rec_get (carried (run sample_stored)) ''nodes'' = Some (JArr [JStr ''n''])"
proof -
  obtain run where run: "migrateState 5 ''id'' = Inr run" "version (run sample_stored) = Some ''4.0.0''" and
    same: "\<forall>f. f \<notin> {''legend'', ''key'', ''type'', ''edges'', ''authority''} \<longrightarrow> rec_get (carried (run sample_stored)) f = rec_get (carried sample_stored) f"
    using stored_schematics_survive [of sample_stored "''1.0.0''" _ 5 "''id''"] by (auto simp: sample_stored_def prop_of_def)
  have "rec_get (carried (run sample_stored)) ''nodes'' = rec_get (carried sample_stored) ''nodes''" by (rule same [rule_format]) simp
  then show ?thesis using run by (simp add: sample_stored_def)
qed

end
