(* ===== verification/Grid.thy ===== *)
theory Grid
  imports Spatial
begin

text \<open>
  The grid that places axes and titles around a visualization (\<open>pluto/src/vis/grid/grid.ts\<close>): regions at the four sides of
  a container, ordered from the outside to the center, and the box that is left for the visualization.
\<close>

section \<open>Definitions\<close>

record region =
  reg_key :: string
  reg_size :: rat
  reg_order :: rat
  reg_loc :: location

type_synonym grid = "(string, region) rec"

text \<open>\<open>sort\<close> with a comparison by descending order is stable.\<close>

definition regions :: "location \<Rightarrow> grid \<Rightarrow> region list" where
  "regions l g = sort_key (\<lambda>r. - reg_order r) (filter (\<lambda>r. reg_loc r = l) (map snd g))"

definition total_size :: "region list \<Rightarrow> rat" where
  "total_size rs = foldl (\<lambda>acc r. acc + reg_size r) 0 rs"

definition grid_position :: "string \<Rightarrow> grid \<Rightarrow> box \<Rightarrow> xy" where
  "grid_position key g container =
     (case rec_get g key of
        None \<Rightarrow> XY_ZERO
      | Some axis \<Rightarrow>
          let l = location_construct (OfLocation (reg_loc axis));
              rs = regions l g;
              filterLoc = location_construct (OfDirection (direction_swap (OfDirection (location_direction (OfLocation l)))));
              otherAxes = regions filterLoc g;
              before = (case find_index (\<lambda>r. reg_key r = key) rs of Some i \<Rightarrow> take i rs | None \<Rightarrow> butlast rs);
              offset = total_size before;
              otherOffset = total_size otherAxes
          in case l of
               LeftLoc \<Rightarrow> xy_translate [topLeft container, \<lparr>xc = offset, yc = otherOffset\<rparr>]
             | RightLoc \<Rightarrow> xy_translate [topRight container, \<lparr>xc = offset - reg_size axis, yc = otherOffset\<rparr>]
             | TopLoc \<Rightarrow> xy_translate [topLeft container, \<lparr>xc = otherOffset, yc = offset\<rparr>]
             | _ \<Rightarrow> xy_translate [bottomLeft container, \<lparr>xc = otherOffset, yc = - offset - reg_size axis\<rparr>])"

definition visualizationBox :: "grid \<Rightarrow> box \<Rightarrow> box" where
  "visualizationBox g container =
     (let leftWidth = total_size (regions LeftLoc g);
          rightWidth = total_size (regions RightLoc g);
          topHeight = total_size (regions TopLoc g);
          bottomHeight = total_size (regions BottomLoc g)
      in box_of_dims (xy_translate [topLeft container, \<lparr>xc = leftWidth, yc = topHeight\<rparr>])
           \<lparr>width_of = width container - leftWidth - rightWidth, height_of = height container - topHeight - bottomHeight\<rparr> TOP_LEFT)"

section \<open>Facts\<close>

text \<open>A grid whose regions are kept under their keys.\<close>

definition grid_wf :: "grid \<Rightarrow> bool" where
  "grid_wf g \<longleftrightarrow> rec_wf g \<and> (\<forall>(k, r)\<in>set g. reg_key r = k)"

lemma total_size_sum: "total_size rs = sum_list (map reg_size rs)"
proof -
  have "foldl (\<lambda>acc r. acc + reg_size r) a rs = a + sum_list (map reg_size rs)" for a
    by (induction rs arbitrary: a) simp_all
  then show ?thesis by (simp add: total_size_def)
qed

lemma regions_set: "set (regions l g) = {r \<in> snd ` set g. reg_loc r = l}"
  by (auto simp: regions_def)

lemma distinct_region_keys:
  assumes "grid_wf g"
  shows "distinct (map reg_key (regions l g))"
proof -
  have "map reg_key (map snd g) = map fst g" using assms by (auto simp: grid_wf_def)
  moreover have "distinct (map fst g)" using assms by (simp add: grid_wf_def rec_wf_def rec_keys_def)
  ultimately have "distinct (map reg_key (map snd g))" by (simp only:)
  then have "distinct (map reg_key (filter (\<lambda>r. reg_loc r = l) (map snd g)))" by (rule distinct_map_filter)
  moreover have "mset (map reg_key (regions l g)) = mset (map reg_key (filter (\<lambda>r. reg_loc r = l) (map snd g)))"
    by (simp add: regions_def)
  ultimately show ?thesis using mset_eq_imp_distinct_iff by blast
qed

lemma rec_get_region:
  assumes "grid_wf g" "r \<in> set (regions l g)"
  shows "rec_get g (reg_key r) = Some r" "reg_loc r = l"
  using assms by (auto simp: regions_set grid_wf_def rec_get_wf_iff)

lemma find_region:
  assumes "grid_wf g" "i < length (regions l g)"
  shows "find_index (\<lambda>r. reg_key r = reg_key (regions l g ! i)) (regions l g) = Some i"
  using distinct_region_keys [OF assms(1), of l] assms(2)
  by (auto simp: find_index_Some_iff nth_eq_iff_index_eq distinct_conv_nth)

text \<open>The space that the regions before the given one take up.\<close>

definition space_before :: "location \<Rightarrow> grid \<Rightarrow> nat \<Rightarrow> rat" where
  "space_before l g i = sum_list (map reg_size (take i (regions l g)))"

lemma space_before_Suc: "i < length (regions l g) \<Longrightarrow> space_before l g (Suc i) = space_before l g i + reg_size (regions l g ! i)"
  by (simp add: space_before_def take_Suc_conv_app_nth)

lemma space_before_all: "space_before l g (length (regions l g)) = total_size (regions l g)"
  by (simp add: space_before_def total_size_sum)

lemmas grid_position_simps = grid_position_def location_construct_def direction_swap_def location_direction_def direction_construct_def

lemma grid_position_at:
  assumes "grid_wf g" "i < length (regions l g)"
  shows "grid_position (reg_key (regions l g ! i)) g c =
    (case l of
       LeftLoc \<Rightarrow> xy_translate [topLeft c, \<lparr>xc = space_before l g i, yc = total_size (regions TopLoc g)\<rparr>]
     | RightLoc \<Rightarrow> xy_translate [topRight c, \<lparr>xc = space_before l g i - reg_size (regions l g ! i), yc = total_size (regions TopLoc g)\<rparr>]
     | TopLoc \<Rightarrow> xy_translate [topLeft c, \<lparr>xc = total_size (regions LeftLoc g), yc = space_before l g i\<rparr>]
     | BottomLoc \<Rightarrow> xy_translate [bottomLeft c, \<lparr>xc = total_size (regions LeftLoc g), yc = - space_before l g i - reg_size (regions l g ! i)\<rparr>]
     | CenterLoc \<Rightarrow> xy_translate [bottomLeft c, \<lparr>xc = total_size (regions TopLoc g), yc = - space_before l g i - reg_size (regions l g ! i)\<rparr>])"
  using rec_get_region [OF assms(1) nth_mem [OF assms(2)]] find_region [OF assms]
  by (cases l) (simp_all add: grid_position_simps Let_def space_before_def total_size_sum)

lemma corner_coords:
  assumes "pixel_box c"
  shows "topLeft c = b_one c" "topRight c = \<lparr>xc = xc (b_two c), yc = yc (b_one c)\<rparr>" "bottomLeft c = \<lparr>xc = xc (b_one c), yc = yc (b_two c)\<rparr>"
  using pixel_sides [OF assms] by (simp_all add: topLeft_def topRight_def bottomLeft_def xyLoc_def corner_defs)

text \<open>
  C31: On the left, at the top and at the bottom of a container the regions stack without gaps or overlaps, the first against the
  edge of the container, each next one where the one before ends, and the last against the box of the visualization.
\<close>

theorem grid_regions_stack:
  assumes "grid_wf g" and "pixel_box c" and "i < length (regions l g)" and "l \<in> {LeftLoc, TopLoc, BottomLoc}"
  defines "place \<equiv> \<lambda>j. grid_position (reg_key (regions l g ! j)) g c" and "r \<equiv> regions l g ! i" and "v \<equiv> visualizationBox g c"
  shows "(case l of
      LeftLoc \<Rightarrow> (i = 0 \<longrightarrow> xc (place 0) = xc (b_one c)) \<and>
        xc (place i) + reg_size r = (if Suc i < length (regions l g) then xc (place (Suc i)) else xc (b_one v))
    | TopLoc \<Rightarrow> (i = 0 \<longrightarrow> yc (place 0) = yc (b_one c)) \<and>
        yc (place i) + reg_size r = (if Suc i < length (regions l g) then yc (place (Suc i)) else yc (b_one v))
    | _ \<Rightarrow> (i = 0 \<longrightarrow> yc (place 0) + reg_size r = yc (b_two c)) \<and>
        yc (place i) = (if Suc i < length (regions l g) then yc (place (Suc i)) + reg_size (regions l g ! Suc i) else yc (b_two v)))"
proof -
  note at = grid_position_at [OF assms(1)]
  have z: "space_before l g 0 = 0" by (simp add: space_before_def)
  have last: "total_size (regions l g) = space_before l g (Suc i)" if "\<not> Suc i < length (regions l g)"
    using that assms(3) space_before_all [of l g] by (metis Suc_lessI)
  show ?thesis
    using assms(4) at [OF assms(3)] at [of "Suc i" l c] z last space_before_Suc [OF assms(3)] assms(3)
    unfolding place_def r_def v_def
    by (auto simp: corner_coords [OF assms(2)] xy_translate_def XY_ZERO_def visualizationBox_def box_of_dims_def
        pixel_sides(5,6) [OF assms(2)])
qed

text \<open>
  On the right they do not: every region after the first is moved outwards instead of inwards, and ends beyond the edge of the
  container by the space that the regions before it take up.
\<close>

lemma right_regions_leave_container:
  assumes "grid_wf g" "pixel_box c" "i < length (regions RightLoc g)"
  shows "xc (grid_position (reg_key (regions RightLoc g ! i)) g c) + reg_size (regions RightLoc g ! i) = xc (b_two c) + space_before RightLoc g i"
  using grid_position_at [OF assms(1,3)] by (simp add: corner_coords [OF assms(2)] xy_translate_def XY_ZERO_def)

definition sample_grid :: grid where
  "sample_grid = [(''y2'', \<lparr>reg_key = ''y2'', reg_size = 20, reg_order = 0, reg_loc = LeftLoc\<rparr>),
     (''y1'', \<lparr>reg_key = ''y1'', reg_size = 30, reg_order = 1, reg_loc = LeftLoc\<rparr>),
     (''title'', \<lparr>reg_key = ''title'', reg_size = 10, reg_order = 0, reg_loc = TopLoc\<rparr>)]"

theorem grid_regions_stack_witness:
  "xc (grid_position ''y1'' sample_grid \<lparr>b_one = XY_ZERO, b_two = \<lparr>xc = 200, yc = 100\<rparr>, b_root = TOP_LEFT\<rparr>) = 0 \<and>
   xc (grid_position ''y2'' sample_grid \<lparr>b_one = XY_ZERO, b_two = \<lparr>xc = 200, yc = 100\<rparr>, b_root = TOP_LEFT\<rparr>) = 30"
proof -
  let ?c = "\<lparr>b_one = XY_ZERO, b_two = \<lparr>xc = 200, yc = 100\<rparr>, b_root = TOP_LEFT\<rparr>"
  have rs: "regions LeftLoc sample_grid = [snd (sample_grid ! 1), snd (sample_grid ! 0)]" by (simp add: regions_def sample_grid_def)
  have "grid_wf sample_grid" "pixel_box ?c"
    by (simp_all add: grid_wf_def sample_grid_def rec_wf_def rec_keys_def pixel_box_def XY_ZERO_def)
  from grid_regions_stack [OF this, of 0 LeftLoc] show ?thesis by (simp add: rs) (simp add: sample_grid_def XY_ZERO_def)
qed

end
