(* ===== verification/Triggers.thy ===== *)
theory Triggers
  imports Compare Js_Text
begin

text \<open>
  Keyboard and mouse triggers (\<open>pluto/src/triggers/triggers.ts\<close>, \<open>Provider.tsx\<close>).

  An event is the part of a browser event that is read, with the time at which it is handled in nanoseconds.
  What a handler does besides changing its state is its result: whether the default of the event is prevented and what the
  listeners are told.
\<close>

section \<open>Keys\<close>

type_synonym trigger = "string list"

definition MOUSE_KEYS :: "string list" where
  "MOUSE_KEYS = [''MouseLeft'', ''MouseMiddle'', ''MouseRight'']"

definition ALPHANUMERIC_KEYS :: "string list" where
  "ALPHANUMERIC_KEYS = map (\<lambda>c. [c]) ''0123456789ABCDEFGHIJKLMNOPQRSTUVWXYZ''"

definition INCLUDES_KEYS :: "string list" where
  "INCLUDES_KEYS = [''Control'', ''Alt'', ''Shift'']"

definition keyboardKey :: "string \<Rightarrow> string" where
  "keyboardKey code =
     (if list_ex (\<lambda>k. prefix k code) [''Digit'', ''Key''] then drop (length code - 1) code
      else if sublist ''Meta'' code then ''Control''
      else case find (\<lambda>k. sublist k code) INCLUDES_KEYS of Some k \<Rightarrow> k | None \<Rightarrow> code)"

definition mouseKey :: "nat \<Rightarrow> string" where
  "mouseKey button = (if button < length MOUSE_KEYS then MOUSE_KEYS ! button else ''MouseLeft'')"

datatype input = KeyInput string | MouseInput nat

fun eventKey :: "input \<Rightarrow> string" where
  "eventKey (KeyInput code) = keyboardKey code"
| "eventKey (MouseInput button) = mouseKey button"

section \<open>Matching\<close>

record match_options =
  loose :: bool
  double :: bool

definition looseCompare :: "trigger \<Rightarrow> trigger \<Rightarrow> int" where
  "looseCompare a b = (if list_all (\<lambda>k. k \<in> set b) a then EQUAL else LESS_THAN)"

definition compareF :: "match_options \<Rightarrow> trigger \<Rightarrow> trigger \<Rightarrow> int" where
  "compareF opts =
     (if loose opts then looseCompare else if double opts then uniqueUnorderedPrimitiveArrays else unorderedPrimitiveArrays)"

definition STRICT :: match_options where "STRICT = \<lparr>loose = False, double = False\<rparr>"

definition filter_triggers :: "trigger list \<Rightarrow> trigger list \<Rightarrow> match_options \<Rightarrow> trigger list" where
  "filter_triggers expected actual opts = filter (\<lambda>e. list_ex (\<lambda>t. compareF opts e t = EQUAL) actual) expected"

definition match_triggers :: "trigger list \<Rightarrow> trigger list \<Rightarrow> match_options \<Rightarrow> bool" where
  "match_triggers expected actual opts = (length (filter_triggers expected actual opts) > 0)"

definition purge :: "trigger list \<Rightarrow> trigger list \<Rightarrow> trigger list" where
  "purge source toPurge = filter (\<lambda>t. \<not> list_ex (\<lambda>t2. unorderedPrimitiveArrays t t2 = EQUAL) toPurge) source"

definition diff :: "trigger list \<Rightarrow> trigger list \<Rightarrow> trigger list \<times> trigger list" where
  "diff a b =
     (filter (\<lambda>ta. \<not> list_ex (\<lambda>tb. compareF STRICT ta tb = EQUAL) b) a,
      filter (\<lambda>tb. \<not> list_ex (\<lambda>ta. compareF STRICT tb ta = EQUAL) a) b)"

record 'm mode_config =
  modes :: "('m, trigger list) rec"
  defaultMode :: 'm

definition flattenConfig :: "'m mode_config \<Rightarrow> trigger list" where
  "flattenConfig config = concat (map snd (modes config))"

definition determineMode :: "'m mode_config \<Rightarrow> trigger list \<Rightarrow> match_options \<Rightarrow> 'm" where
  "determineMode config triggers opts =
     (let flat = concat (map (\<lambda>(k, v). map (\<lambda>t. (k, t)) v) (modes config));
          complexitySorted = sort_key (\<lambda>(_, t). - int (length t)) flat
      in case find (\<lambda>(_, v). match_triggers [v] triggers opts) complexitySorted of
           Some m \<Rightarrow> fst m
         | None \<Rightarrow> defaultMode config)"

definition purgeMouse :: "trigger list \<Rightarrow> trigger list" where
  "purgeMouse ts = filter (\<lambda>t. length t > 0) (map (filter (\<lambda>k. \<not> prefix ''Mouse'' k)) ts)"

section \<open>The provider\<close>

record ref_state =
  held_next :: trigger
  held_prev :: trigger
  last_time :: int

definition ZERO_REF_STATE :: ref_state where
  "ZERO_REF_STATE = \<lparr>held_next = [], held_prev = [], last_time = 0\<rparr>"

definition EXCLUDE_TRIGGERS :: "string list" where "EXCLUDE_TRIGGERS = [''CapsLock'']"

record browser_event =
  ev_input :: input
  ev_editable :: bool
  ev_ctrl :: bool
  ev_meta :: bool
  ev_now :: int

record handled =
  h_state :: ref_state
  h_prevented :: bool
  h_told :: "(trigger list \<times> trigger list) option"

definition shouldTriggerOnKeyDown :: "string \<Rightarrow> browser_event \<Rightarrow> bool" where
  "shouldTriggerOnKeyDown key e =
     (if key \<in> set EXCLUDE_TRIGGERS then False
      else if ev_editable e then \<not> (key \<in> set ALPHANUMERIC_KEYS \<and> \<not> ev_ctrl e \<and> \<not> ev_meta e)
      else True)"

definition shouldPreventDefault :: "trigger \<Rightarrow> (trigger list \<times> match_options) option \<Rightarrow> bool" where
  "shouldPreventDefault t on = (case on of None \<Rightarrow> False | Some (ts, opts) \<Rightarrow> match_triggers [t] ts opts)"

text \<open>What the listeners are told: the held keys before and now.\<close>

definition updateListeners :: "ref_state \<Rightarrow> trigger list \<times> trigger list" where
  "updateListeners s = (if length (held_next s) > 0 then [held_next s] else [], if length (held_prev s) > 0 then [held_prev s] else [])"

definition arrow :: "string \<Rightarrow> bool" where "arrow key \<longleftrightarrow> key \<in> {''ArrowUp'', ''ArrowDown''}"

definition DOUBLE_PRESS :: int where "DOUBLE_PRESS = 300 * 1000000"

definition handleKeyDown :: "(trigger list \<times> match_options) option \<Rightarrow> browser_event \<Rightarrow> ref_state \<Rightarrow> handled" where
  "handleKeyDown on e s =
     (let key = eventKey (ev_input e)
      in if \<not> shouldTriggerOnKeyDown key e \<or> key \<in> set (held_next s) then \<lparr>h_state = s, h_prevented = arrow key, h_told = None\<rparr>
         else let next = held_next s @ [key] @
                    (if key \<in> set (held_prev s) \<and> \<bar>ev_now e - last_time s\<bar> < DOUBLE_PRESS then [key] else []);
                  s' = \<lparr>held_next = next, held_prev = held_next s, last_time = ev_now e\<rparr>
              in \<lparr>h_state = s', h_prevented = arrow key \<or> shouldPreventDefault next on, h_told = Some (updateListeners s')\<rparr>)"

definition handleKeyUp :: "(trigger list \<times> match_options) option \<Rightarrow> browser_event \<Rightarrow> ref_state \<Rightarrow> handled" where
  "handleKeyUp on e s =
     (let key = eventKey (ev_input e)
      in if key \<in> set EXCLUDE_TRIGGERS then \<lparr>h_state = s, h_prevented = arrow key, h_told = None\<rparr>
         else let next = filter (\<lambda>k. k \<noteq> key \<and> k \<notin> set MOUSE_KEYS) (held_next s);
                  s' = s\<lparr>held_next := next, held_prev := held_next s\<rparr>
              in \<lparr>h_state = s', h_prevented = arrow key \<or> shouldPreventDefault next on, h_told = Some (updateListeners s')\<rparr>)"

definition handlePageVisibility :: "ref_state \<Rightarrow> handled" where
  "handlePageVisibility s =
     (let s' = s\<lparr>held_next := [], held_prev := held_next s\<rparr>
      in \<lparr>h_state = s', h_prevented = False, h_told = Some (updateListeners s')\<rparr>)"

datatype window_event = Down browser_event | Up browser_event | Blur

fun handle_event :: "(trigger list \<times> match_options) option \<Rightarrow> window_event \<Rightarrow> ref_state \<Rightarrow> handled" where
  "handle_event on (Down e) s = handleKeyDown on e s"
| "handle_event on (Up e) s = handleKeyUp on e s"
| "handle_event on Blur s = handlePageVisibility s"

section \<open>Matching is comparison of keys\<close>

lemma looseCompare_equal: "looseCompare a b = EQUAL \<longleftrightarrow> set a \<subseteq> set b"
  by (auto simp: looseCompare_def EQUAL_def LESS_THAN_def list_all_iff)

lemma compareF_equal:
  "compareF opts a b = EQUAL \<longleftrightarrow> (if loose opts then set a \<subseteq> set b else if double opts then set a = set b else mset a = mset b)"
  by (simp add: compareF_def looseCompare_equal unorderedPrimitiveArrays_equal uniqueUnorderedPrimitiveArrays_equal)

text \<open>
  C30: Triggers match by their keys and not by the order in which they were pressed: an expected trigger matches an actual one exactly when both
  have the same keys the same number of times; when double presses are let through, the same keys; and loosely, when the
  actual one has all its keys.
\<close>

theorem matching_compares_keys:
  "match_triggers expected actual opts \<longleftrightarrow>
     (\<exists>e a. e \<in> set expected \<and> a \<in> set actual \<and>
        (if loose opts then set e \<subseteq> set a else if double opts then set e = set a else mset e = mset a))"
  by (auto simp: match_triggers_def filter_triggers_def list_ex_iff compareF_equal filter_empty_conv)

text \<open>The difference of two lists of triggers, and purging, agree with matching.\<close>

lemma diff_spec:
  "set (fst (diff a b)) = {t \<in> set a. \<not> match_triggers [t] b STRICT}" "set (snd (diff a b)) = {t \<in> set b. \<not> match_triggers [t] a STRICT}"
  by (auto simp: diff_def match_triggers_def filter_triggers_def)

lemma purge_spec: "purge ts ps = fst (diff ts ps)"
  by (simp add: purge_def diff_def compareF_def STRICT_def)

lemma find_sort_key:
  assumes "find P (sort_key f xs) = Some x"
  shows "x \<in> set xs \<and> P x \<and> (\<forall>y\<in>set xs. P y \<longrightarrow> f x \<le> f y)"
proof -
  obtain i where i: "i < length xs" "P (sort_key f xs ! i)" "x = sort_key f xs ! i" "\<forall>j<i. \<not> P (sort_key f xs ! j)"
    using assms by (auto simp: find_Some_iff)
  have "f x \<le> f y" if "y \<in> set xs" "P y" for y
  proof -
    obtain j where j: "j < length xs" "y = sort_key f xs ! j" using \<open>y \<in> set xs\<close> by (metis in_set_conv_nth length_sort set_sort)
    have "i \<le> j" using i(4) j(2) that(2) by (meson not_le)
    then show ?thesis using sorted_sort_key [of f xs] i(1,3) j by (simp add: sorted_iff_nth_mono)
  qed
  then show ?thesis using i nth_mem [of i "sort_key f xs"] by simp
qed

text \<open>
  The mode is the most specific one: when no trigger of the configuration matches it is the default, and otherwise it is the mode of a
  trigger that matches, with at least as many keys as every other trigger of the configuration that does.
\<close>

theorem mode_is_most_specific:
  "(\<forall>m ts t. (m, ts) \<in> set (modes config) \<longrightarrow> t \<in> set ts \<longrightarrow> \<not> match_triggers [t] triggers opts) \<and>
     determineMode config triggers opts = defaultMode config \<or>
   (\<exists>ts t. (determineMode config triggers opts, ts) \<in> set (modes config) \<and> t \<in> set ts \<and> match_triggers [t] triggers opts \<and>
     (\<forall>m' ts' t'. (m', ts') \<in> set (modes config) \<longrightarrow> t' \<in> set ts' \<longrightarrow> match_triggers [t'] triggers opts \<longrightarrow> length t' \<le> length t))"
proof -
  let ?flat = "concat (map (\<lambda>(k, v). map (\<lambda>t. (k, t)) v) (modes config))"
  let ?find = "find (\<lambda>(_, v). match_triggers [v] triggers opts) (sort_key (\<lambda>(_, t). - int (length t)) ?flat)"
  have flat: "(m, t) \<in> set ?flat \<longleftrightarrow> (\<exists>ts. (m, ts) \<in> set (modes config) \<and> t \<in> set ts)" for m t by force
  show ?thesis
  proof (cases ?find)
    case None
    have "\<not> match_triggers [t] triggers opts" if "(m, ts) \<in> set (modes config)" "t \<in> set ts" for m ts t
    proof -
      have "(m, t) \<in> set ?flat" using that unfolding flat by blast
      then show ?thesis using None by (metis (no_types, lifting) case_prodI find_None_iff set_sort)
    qed
    moreover have "determineMode config triggers opts = defaultMode config" using None by (simp add: determineMode_def)
    ultimately show ?thesis by blast
  next
    case (Some mt)
    obtain m t where mt: "mt = (m, t)" by (cases mt)
    note found = find_sort_key [OF Some, unfolded mt]
    have f: "(m, t) \<in> set ?flat" "match_triggers [t] triggers opts" using conjunct1 [OF found] conjunct1 [OF conjunct2 [OF found]] by simp_all
    have max: "length t' \<le> length t" if "(m', t') \<in> set ?flat" "match_triggers [t'] triggers opts" for m' t'
      using bspec [OF conjunct2 [OF conjunct2 [OF found]] that(1)] that(2) by simp
    have "determineMode config triggers opts = m" using Some by (simp add: determineMode_def mt)
    moreover have "length t' \<le> length t" if "(m', ts') \<in> set (modes config)" "t' \<in> set ts'" "match_triggers [t'] triggers opts" for m' ts' t'
      by (rule max [of m']) (use that flat in blast)+
    moreover obtain ts where "(m, ts) \<in> set (modes config)" "t \<in> set ts" using f(1) unfolding flat by blast
    ultimately show ?thesis using f(2) by blast
  qed
qed

theorem mode_is_most_specific_witness:
  "determineMode \<lparr>modes = [(''zoom'', [[''Control'']]), (''pan'', [[''Control'', ''Shift'']])], defaultMode = ''select''\<rparr>
     [[''Shift'', ''Control'']] \<lparr>loose = True, double = False\<rparr> = ''pan''"
proof -
  let ?c = "\<lparr>modes = [(''zoom'', [[''Control'']]), (''pan'', [[''Control'', ''Shift'']])], defaultMode = ''select''\<rparr>"
  let ?o = "\<lparr>loose = True, double = False\<rparr>" and ?t = "[[''Shift'', ''Control'']]"
  have m: "match_triggers [[''Control'', ''Shift'']] ?t ?o" by (auto simp: match_triggers_def filter_triggers_def compareF_equal)
  have "\<not> (\<forall>m ts t. (m, ts) \<in> set (modes ?c) \<longrightarrow> t \<in> set ts \<longrightarrow> \<not> match_triggers [t] ?t ?o)"
  proof
    assume "\<forall>m ts t. (m, ts) \<in> set (modes ?c) \<longrightarrow> t \<in> set ts \<longrightarrow> \<not> match_triggers [t] ?t ?o"
    from this [rule_format, of "''pan''" "[[''Control'', ''Shift'']]" "[''Control'', ''Shift'']"] m show False by simp
  qed
  with mode_is_most_specific [of ?c ?t ?o] obtain ts t where t: "(determineMode ?c ?t ?o, ts) \<in> set (modes ?c)" "t \<in> set ts" and
    max: "\<forall>m' ts' t'. (m', ts') \<in> set (modes ?c) \<longrightarrow> t' \<in> set ts' \<longrightarrow> match_triggers [t'] ?t ?o \<longrightarrow> length t' \<le> length t"
    by blast
  have "2 \<le> length t" using max [rule_format, of "''pan''" "[[''Control'', ''Shift'']]" "[''Control'', ''Shift'']"] m by simp
  then show ?thesis using t by auto
qed

section \<open>Held keys\<close>

text \<open>A trigger as its type describes it: no key more than twice, and a repeated key next to itself.\<close>

definition grouped :: "trigger \<Rightarrow> bool" where
  "grouped t \<longleftrightarrow> (\<exists>ks c. distinct ks \<and> (\<forall>k. c k \<in> {1, 2::nat}) \<and> t = concat (map (\<lambda>k. replicate (c k) k) ks))"

lemma grouped_Nil: "grouped []"
  unfolding grouped_def by (intro exI [of _ "[]"] exI [of _ "\<lambda>_. 1"]) simp

lemma grouped_press:
  assumes "grouped t" "k \<notin> set t" "n \<in> {1, 2}"
  shows "grouped (t @ replicate n k)"
proof -
  obtain ks c where g: "distinct ks" "\<forall>k. c k \<in> {1, 2}" "t = concat (map (\<lambda>k. replicate (c k) k) ks)" using assms(1) by (auto simp: grouped_def)
  have "c k \<noteq> 0" using g(2) [rule_format, of k] by auto
  then have "k \<notin> set ks" using assms(2) by (auto simp: g(3))
  then have "t @ replicate n k = concat (map (\<lambda>x. replicate ((c(k := n)) x) x) (ks @ [k]))" by (auto simp: g(3) intro!: arg_cong [of _ _ concat])
  then show ?thesis unfolding grouped_def using g(1,2) assms(3) \<open>k \<notin> set ks\<close> by (intro exI [of _ "ks @ [k]"] exI [of _ "c(k := n)"]) simp
qed

lemma grouped_filter:
  assumes "grouped t"
  shows "grouped (filter P t)"
proof -
  obtain ks c where g: "distinct ks" "\<forall>k. c k \<in> {1, 2}" "t = concat (map (\<lambda>k. replicate (c k) k) ks)" using assms by (auto simp: grouped_def)
  have "filter P t = concat (map (\<lambda>k. replicate (c k) k) (filter P ks))" unfolding g(3) by (induction ks) (simp_all add: filter_replicate)
  then show ?thesis unfolding grouped_def using g(1,2) by (intro exI [of _ "filter P ks"] exI [of _ c]) simp
qed

definition held_ok :: "ref_state \<Rightarrow> bool" where
  "held_ok s \<longleftrightarrow> grouped (held_next s) \<and> ''CapsLock'' \<notin> set (held_next s)"

lemma handle_event_ok: "held_ok s \<Longrightarrow> held_ok (h_state (handle_event on e s))"
proof (cases e)
  case (Down b)
  assume ok: "held_ok s"
  show ?thesis
    using ok Down grouped_press [of "held_next s" "eventKey (ev_input b)" 1] grouped_press [of "held_next s" "eventKey (ev_input b)" 2]
    by (auto simp: handleKeyDown_def Let_def held_ok_def shouldTriggerOnKeyDown_def EXCLUDE_TRIGGERS_def numeral_2_eq_2)
qed (auto simp: handleKeyUp_def handlePageVisibility_def held_ok_def Let_def grouped_filter grouped_Nil)

definition run_events :: "(trigger list \<times> match_options) option \<Rightarrow> window_event list \<Rightarrow> ref_state" where
  "run_events on es = foldl (\<lambda>s e. h_state (handle_event on e s)) ZERO_REF_STATE es"

text \<open>
  C29: Whatever keys and buttons are pressed and released, in any order and however often events repeat, the keys taken for held form a trigger as its
  type describes it: no key is held more than twice, a key held twice is next to itself, and an excluded key is never held.
\<close>

theorem held_keys_form_trigger:
  "grouped (held_next (run_events on es)) \<and> ''CapsLock'' \<notin> set (held_next (run_events on es))"
proof -
  have "held_ok (foldl (\<lambda>s e. h_state (handle_event on e s)) s es)" if "held_ok s" for s
    using that by (induction es arbitrary: s) (auto intro: handle_event_ok)
  from this [of ZERO_REF_STATE] show ?thesis by (simp add: run_events_def held_ok_def ZERO_REF_STATE_def grouped_Nil)
qed

text \<open>Releasing a key lets go of it and of every mouse button, and a key that is held is not pressed again.\<close>

lemma handleKeyUp_releases:
  assumes "eventKey (ev_input e) \<notin> set EXCLUDE_TRIGGERS"
  shows "set (held_next (h_state (handleKeyUp on e s))) = set (held_next s) - {eventKey (ev_input e)} - set MOUSE_KEYS"
  using assms by (auto simp: handleKeyUp_def Let_def)

lemma handleKeyDown_repeat: "eventKey (ev_input e) \<in> set (held_next s) \<Longrightarrow> h_state (handleKeyDown on e s) = s \<and> h_told (handleKeyDown on e s) = None"
  by (simp add: handleKeyDown_def Let_def)

text \<open>
  A double press: a key that is pressed, released and pressed again less than 300 milliseconds after it was first pressed is held twice.
\<close>

lemma double_press_held_twice:
  assumes "held_next s = []" and "shouldTriggerOnKeyDown k (e t)" "shouldTriggerOnKeyDown k (e u)" and "\<And>t. eventKey (ev_input (e t)) = k"
    and "\<And>t. ev_now (e t) = t" and "\<bar>u - t\<bar> < DOUBLE_PRESS" and "k \<notin> set (held_prev s)"
  shows "held_next (h_state (handleKeyDown on (e u) (h_state (handleKeyUp on (e r) (h_state (handleKeyDown on (e t) s)))))) = [k, k]"
proof -
  have "k \<notin> set EXCLUDE_TRIGGERS" using assms(2) by (auto simp: shouldTriggerOnKeyDown_def)
  then show ?thesis using assms by (simp add: handleKeyDown_def handleKeyUp_def Let_def)
qed

end
