(* ===== verification/Control.thy ===== *)
theory Control
  imports Prelude Complex_Main
begin

text \<open>
  Who controls which channel: transfers of control (\<open>x/ts/src/control/control.ts\<close>), the tracker that follows them
  (\<open>client/ts/src/control/state.ts\<close>), and the provider that gives each controlling subject a color
  (\<open>pluto/src/telem/control/aether/state.ts\<close>).

  A color is an object of the theme; two colors are the same when they are the same object, here when they are equal.  Decoding the
  transfers from a frame is left to the codec.
\<close>

section \<open>Transfers\<close>

record subject =
  subject_name :: string
  subject_key :: string

record 'r control_state =
  st_subject :: subject
  st_resource :: 'r
  st_authority :: nat

definition AUTHORITY_ABSOLUTE :: nat where "AUTHORITY_ABSOLUTE = 255"
definition AUTHORITY_MINIMUM :: nat where "AUTHORITY_MINIMUM = 0"

text \<open>The parser of an authority that is given as a number.\<close>

definition authorityZ :: "rat \<Rightarrow> nat result" where
  "authorityZ n = (if n \<in> \<int> \<and> 0 \<le> n \<and> n \<le> 255 then return (nat \<lfloor>n\<rfloor>) else throw ''ZodError'')"

record 'r transfer =
  tr_from :: "'r control_state option"
  tr_to :: "'r control_state option"

definition filterTransfersByChannelKey :: "'r list \<Rightarrow> 'r transfer list \<Rightarrow> 'r transfer list" where
  "filterTransfersByChannelKey resources ts =
     filter (\<lambda>t.
       let ok = (case tr_to t of Some s \<Rightarrow> st_resource s \<in> set resources | None \<Rightarrow> False)
       in (case tr_from t of Some s \<Rightarrow> (if \<not> ok then st_resource s \<in> set resources else ok) | None \<Rightarrow> ok)) ts"

definition transferString :: "('r \<Rightarrow> string) \<Rightarrow> (nat \<Rightarrow> string) \<Rightarrow> 'r transfer \<Rightarrow> string" where
  "transferString show_r show_a t =
     (case tr_to t of
        None \<Rightarrow>
          (case tr_from t of
             Some f \<Rightarrow> show_r (st_resource f) @ '' - '' @ subject_name (st_subject f) @ '' -> released''
           | None \<Rightarrow> ''undefined - undefined -> released'')
      | Some s \<Rightarrow>
          (case tr_from t of
             None \<Rightarrow> show_r (st_resource s) @ '' - released -> '' @ subject_name (st_subject s) @ '' ('' @ show_a (st_authority s) @ '')''
           | Some f \<Rightarrow> show_r (st_resource s) @ '' - '' @ subject_name (st_subject f) @ '' -> '' @ subject_name (st_subject s) @ '' ('' @
               show_a (st_authority s) @ '')''))"

section \<open>The tracker\<close>

type_synonym 'r states = "('r, 'r control_state) rec"

definition merge_one :: "'r transfer \<Rightarrow> 'r states \<Rightarrow> 'r states result" where
  "merge_one t states =
     (case tr_to t of
        None \<Rightarrow> (case tr_from t of None \<Rightarrow> throw ''TypeError'' | Some f \<Rightarrow> return (rec_delete (st_resource f) states))
      | Some s \<Rightarrow> return (rec_set (st_resource s) s states))"

definition merge :: "'r transfer list \<Rightarrow> 'r states \<Rightarrow> 'r states result" where
  "merge ts states = fold_result merge_one ts states"

definition subjects :: "'r states \<Rightarrow> subject list" where
  "subjects states = map snd (foldl (\<lambda>m (_, s). rec_set (subject_key (st_subject s)) (st_subject s) m) [] states)"

section \<open>Colors\<close>

definition purge_colors :: "string list \<Rightarrow> (string, 'c) rec \<Rightarrow> (string, 'c) rec" where
  "purge_colors subKeys colors = filter (\<lambda>(k, _). k \<in> set subKeys) colors"

text \<open>The color of one new subject; the first color of an empty palette is \<open>undefined\<close>.\<close>

definition add_color :: "'c list \<Rightarrow> (string, 'c option) rec \<times> 'c option list \<Rightarrow> subject \<Rightarrow> (string, 'c option) rec \<times> 'c option list" where
  "add_color palette = (\<lambda>(colors, used) s.
     case rec_get colors (subject_key s) of
       Some _ \<Rightarrow> (colors, used)
     | None \<Rightarrow>
         let color = (case find (\<lambda>c. Some c \<notin> set used) palette of Some c \<Rightarrow> Some c | None \<Rightarrow> (if palette = [] then None else Some (hd palette)))
         in (rec_set (subject_key s) color colors, used @ [color]))"

definition updateColors :: "'c list \<Rightarrow> subject list \<Rightarrow> (string, 'c option) rec \<Rightarrow> (string, 'c option) rec" where
  "updateColors palette subs colors =
     (let used = map snd colors
      in fst (foldl (add_color palette) (purge_colors (map subject_key subs) colors, used) subs))"

definition getOne :: "(string, 'c option) rec \<Rightarrow> 'c \<Rightarrow> 'r states option \<Rightarrow> 'r \<Rightarrow> ('r control_state \<times> 'c) option" where
  "getOne colors defaultColor tracker key =
     (case tracker of
        None \<Rightarrow> None
      | Some states \<Rightarrow>
          (case rec_get states key of
             None \<Rightarrow> None
           | Some s \<Rightarrow> Some (s, (case rec_get colors (subject_key (st_subject s)) of Some (Some c) \<Rightarrow> c | _ \<Rightarrow> defaultColor))))"

definition get_states :: "(string, 'c option) rec \<Rightarrow> 'c \<Rightarrow> 'r states option \<Rightarrow> 'r list \<Rightarrow> ('r control_state \<times> 'c) list" where
  "get_states colors defaultColor tracker keys = List.map_filter (getOne colors defaultColor tracker) (unique keys)"

section \<open>The tracker follows the last transfer\<close>

text \<open>The channel that a transfer is about.\<close>

definition resource_of :: "'r transfer \<Rightarrow> 'r option" where
  "resource_of t = (case tr_to t of Some s \<Rightarrow> Some (st_resource s) | None \<Rightarrow> map_option st_resource (tr_from t))"

definition last_about :: "'r \<Rightarrow> 'r transfer list \<Rightarrow> 'r transfer option" where
  "last_about r ts = find (\<lambda>t. resource_of t = Some r) (rev ts)"

lemma merge_one_get:
  assumes "merge_one t states = Inr states'"
  shows "rec_get states' r = (if resource_of t = Some r then tr_to t else rec_get states r)"
  using assms by (auto simp: merge_one_def resource_of_def split: option.splits)

lemma merge_get:
  "merge ts states = Inr states' \<Longrightarrow> rec_get states' r = (case last_about r ts of Some t \<Rightarrow> tr_to t | None \<Rightarrow> rec_get states r)"
proof (induction ts arbitrary: states' rule: rev_induct)
  case (snoc t ts)
  then obtain m where m: "merge ts states = Inr m" "merge_one t m = Inr states'"
    by (auto simp: merge_def fold_result_append bind_result_eq_Inr)
  show ?case using snoc.IH [OF m(1)] merge_one_get [OF m(2), of r] by (simp add: last_about_def)
qed (simp add: merge_def last_about_def)

lemma merge_succeeds: "\<forall>t\<in>set ts. resource_of t \<noteq> None \<Longrightarrow> \<exists>states'. merge ts states = Inr states'"
  unfolding merge_def by (induction ts arbitrary: states) (auto simp: merge_one_def resource_of_def split: option.splits)

text \<open>
  The tracker knows who controls each channel: after any sequence of transfers, each of which releases, acquires or hands over some
  channel, the state of a channel is the one that the last transfer about it ended in, none if that was a release, and unchanged if no
  transfer was about it.
\<close>

theorem tracker_follows_transfers:
  assumes "\<forall>t\<in>set ts. resource_of t \<noteq> None"
  shows "\<exists>states'. merge ts states = Inr states' \<and>
    (\<forall>r. rec_get states' r = (case last_about r ts of Some t \<Rightarrow> tr_to t | None \<Rightarrow> rec_get states r))"
  using merge_succeeds [OF assms, of states] merge_get [of ts states] by blast

section \<open>Colors tell subjects apart\<close>

definition colors_distinct :: "(string, 'c option) rec \<Rightarrow> bool" where
  "colors_distinct colors \<longleftrightarrow> rec_wf colors \<and> distinct (map snd colors)"

lemma rec_set_append: "rec_get r k = None \<Longrightarrow> rec_set k v r = r @ [(k, v)]"
  by (induction k v r rule: rec_set.induct) (auto split: if_splits)

lemma free_color:
  assumes "card (set used) < card (set palette)"
  shows "\<exists>c. find (\<lambda>c. Some c \<notin> set used) palette = Some c \<and> Some c \<notin> set used"
proof -
  have "\<not> Some ` set palette \<subseteq> set used"
    using assms card_mono [of "set used" "Some ` set palette"] card_image [of Some "set palette"] by auto
  then have "find (\<lambda>c. Some c \<notin> set used) palette \<noteq> None" by (auto simp: find_None_iff)
  then show ?thesis by (auto simp: find_Some_iff)
qed

lemma add_color_distinct:
  assumes "colors_distinct colors" "set (map snd colors) \<subseteq> set used" "card (set used) < card (set palette)"
    and "add_color palette (colors, used) s = (colors', used')"
  shows "colors_distinct colors' \<and> set (map snd colors') \<subseteq> set used' \<and> card (set used') \<le> Suc (card (set used)) \<and>
    rec_get colors' (subject_key s) \<noteq> None \<and> (\<forall>k v. rec_get colors k = Some v \<longrightarrow> rec_get colors' k = Some v)"
proof (cases "rec_get colors (subject_key s)")
  case None
  obtain c where c: "find (\<lambda>c. Some c \<notin> set used) palette = Some c" "Some c \<notin> set used" using free_color [OF assms(3)] by blast
  have e: "colors' = rec_set (subject_key s) (Some c) colors" "used' = used @ [Some c]" using assms(4) None c(1) by (simp_all add: add_color_def Let_def)
  have "distinct (map snd colors')" using assms(1,2) c(2) unfolding e(1) rec_set_append [OF None] by (auto simp: colors_distinct_def)
  moreover have "rec_wf colors'" unfolding e(1) using assms(1) by (simp add: colors_distinct_def)
  moreover have "set (map snd colors') \<subseteq> set used'" using assms(2) unfolding e rec_set_append [OF None] by auto
  moreover have "card (set used') \<le> Suc (card (set used))" unfolding e(2) by (simp add: card_insert_if)
  moreover have "rec_get colors' (subject_key s) \<noteq> None" "\<forall>k v. rec_get colors k = Some v \<longrightarrow> rec_get colors' k = Some v" unfolding e(1) using None by auto
  ultimately show ?thesis by (simp add: colors_distinct_def)
qed (use assms in \<open>auto simp: add_color_def\<close>)

lemma add_colors_distinct:
  assumes "colors_distinct colors" "set (map snd colors) \<subseteq> set used" "card (set used) + length subs \<le> card (set palette)"
  shows "colors_distinct (fst (foldl (add_color palette) (colors, used) subs)) \<and>
    (\<forall>s\<in>set subs. rec_get (fst (foldl (add_color palette) (colors, used) subs)) (subject_key s) \<noteq> None) \<and>
    (\<forall>k v. rec_get colors k = Some v \<longrightarrow> rec_get (fst (foldl (add_color palette) (colors, used) subs)) k = Some v)"
  using assms
proof (induction subs arbitrary: colors used)
  case (Cons s subs)
  obtain colors' used' where a: "add_color palette (colors, used) s = (colors', used')" by (cases "add_color palette (colors, used) s")
  have "card (set used) < card (set palette)" using Cons.prems(3) by simp
  from add_color_distinct [OF Cons.prems(1,2) this a] have n: "colors_distinct colors'" "set (map snd colors') \<subseteq> set used'"
    "card (set used') \<le> Suc (card (set used))" "rec_get colors' (subject_key s) \<noteq> None" "\<forall>k v. rec_get colors k = Some v \<longrightarrow> rec_get colors' k = Some v"
    by blast+
  have "card (set used') + length subs \<le> card (set palette)" using n(3) Cons.prems(3) by simp
  from Cons.IH [OF n(1,2) this] n(4,5) show ?case unfolding foldl_Cons a by (simp, blast)
qed simp

lemma purge_colors_distinct:
  assumes "colors_distinct colors"
  shows "colors_distinct (purge_colors ks colors)" "set (map snd (purge_colors ks colors)) \<subseteq> set (map snd colors)"
    "k \<in> set ks \<Longrightarrow> rec_get (purge_colors ks colors) k = rec_get colors k" "k \<notin> set ks \<Longrightarrow> rec_get (purge_colors ks colors) k = None"
proof -
  show "colors_distinct (purge_colors ks colors)" using assms
    by (auto simp: colors_distinct_def rec_wf_def rec_keys_def purge_colors_def distinct_map_filter)
  show "set (map snd (purge_colors ks colors)) \<subseteq> set (map snd colors)" by (auto simp: purge_colors_def)
  show "k \<in> set ks \<Longrightarrow> rec_get (purge_colors ks colors) k = rec_get colors k" "k \<notin> set ks \<Longrightarrow> rec_get (purge_colors ks colors) k = None"
    by (induction colors) (auto simp: purge_colors_def)
qed

text \<open>
  While the palette has as many colors as there were and are subjects, the colors tell the subjects apart: after a change each subject has a
  color, no two have the same, and a subject that had a color before keeps it.
\<close>

theorem colors_tell_subjects_apart:
  assumes "colors_distinct colors" and "length colors + length subs \<le> card (set palette)"
  defines "after \<equiv> updateColors palette subs colors"
  shows "colors_distinct after \<and> (\<forall>s\<in>set subs. rec_get after (subject_key s) \<noteq> None) \<and>
    (\<forall>s\<in>set subs. \<forall>v. rec_get colors (subject_key s) = Some v \<longrightarrow> rec_get after (subject_key s) = Some v)"
proof -
  let ?ks = "map subject_key subs"
  note p = purge_colors_distinct [OF assms(1), where ks = ?ks]
  have "card (set (map snd colors)) \<le> length colors" using card_length [of "map snd colors"] by simp
  then have "card (set (map snd colors)) + length subs \<le> card (set palette)" using assms(2) by simp
  note added = add_colors_distinct [OF p(1,2) this]
  have "rec_get (purge_colors ?ks colors) (subject_key s) = rec_get colors (subject_key s)" if "s \<in> set subs" for s
    using that by (intro p(3)) simp
  then show ?thesis using added by (simp add: after_def updateColors_def Let_def)
qed

text \<open>
  A color that becomes free in a change is still taken for used in that change: with a full palette the new subject gets the first
  color, which another subject has, although the other color is free.
\<close>

lemma freed_color_is_not_reused:
  "updateColors [''red'', ''blue''] [\<lparr>subject_name = ''b'', subject_key = ''b''\<rparr>, \<lparr>subject_name = ''c'', subject_key = ''c''\<rparr>]
     [(''a'', Some ''blue''), (''b'', Some ''red'')] = [(''b'', Some ''red''), (''c'', Some ''red'')]"
  by (simp add: updateColors_def purge_colors_def add_color_def Let_def)

section \<open>Examples\<close>

definition sample_state :: "string \<Rightarrow> nat \<Rightarrow> nat control_state" where
  "sample_state k r = \<lparr>st_subject = \<lparr>subject_name = k, subject_key = k\<rparr>, st_resource = r, st_authority = 200\<rparr>"

theorem tracker_follows_transfers_witness:
  "\<exists>states'. merge [\<lparr>tr_from = None, tr_to = Some (sample_state ''a'' 1)\<rparr>, \<lparr>tr_from = None, tr_to = Some (sample_state ''b'' 2)\<rparr>,
       \<lparr>tr_from = Some (sample_state ''a'' 1), tr_to = None\<rparr>] [] = Inr states' \<and>
     rec_get states' 1 = None \<and> rec_get states' 2 = Some (sample_state ''b'' 2)"
proof -
  let ?ts = "[\<lparr>tr_from = None, tr_to = Some (sample_state ''a'' 1)\<rparr>, \<lparr>tr_from = None, tr_to = Some (sample_state ''b'' 2)\<rparr>,
       \<lparr>tr_from = Some (sample_state ''a'' 1), tr_to = None\<rparr>]"
  obtain states' where m: "merge ?ts [] = Inr states'" and
    g: "\<And>r. rec_get states' r = (case last_about r ?ts of Some t \<Rightarrow> tr_to t | None \<Rightarrow> rec_get [] r)"
    using tracker_follows_transfers [of ?ts "[]"] by (auto simp: resource_of_def)
  have "rec_get states' 1 = None" "rec_get states' 2 = Some (sample_state ''b'' 2)"
    unfolding g by (simp_all add: last_about_def resource_of_def sample_state_def)
  then show ?thesis using m by blast
qed

theorem colors_tell_subjects_apart_witness:
  "colors_distinct (updateColors [''red'', ''blue'', ''green''] [\<lparr>subject_name = ''b'', subject_key = ''b''\<rparr>, \<lparr>subject_name = ''c'', subject_key = ''c''\<rparr>]
     [(''b'', Some ''blue'')])"
  using colors_tell_subjects_apart [of "[(''b'', Some ''blue'')]"
    "[\<lparr>subject_name = ''b'', subject_key = ''b''\<rparr>, \<lparr>subject_name = ''c'', subject_key = ''c''\<rparr>]" "[''red'', ''blue'', ''green'']"]
  by (simp add: colors_distinct_def rec_wf_def rec_keys_def)

end
