(* ===== verification/Reader.thy ===== *)
theory Reader
  imports Channel_Cache
begin

text \<open>
  The reader of historical telemetry (\<open>pluto/src/telem/client/reader.ts\<close>): what is missing from the cache is collected over the channels
  of a read, requests that arrive close together are fetched in one batch, and the answers are written to the cache.

  The text of a time range is that of its two dates, which have milliseconds: here it is the pair of these.  The remote read
  is an argument, which may throw.  A request waits in the queue until the batch that serves it has ended; the reads of one
  call are requested one after the other.
\<close>

section \<open>Definitions\<close>

type_synonym to_fetch = "time_range \<times> channel_key list"

type_synonym read_remote = "time_range \<Rightarrow> channel_key list \<Rightarrow> (channel_key \<Rightarrow> series list) result"

definition date_of :: "timestamp \<Rightarrow> int" where
  "date_of t = math_trunc (stamp_milliseconds t)"

definition range_text :: "time_range \<Rightarrow> int \<times> int" where
  "range_text tr = (date_of (start tr), date_of (end tr))"

definition add_gap :: "channel_key \<Rightarrow> (int \<times> int, to_fetch) rec \<Rightarrow> time_range \<Rightarrow> (int \<times> int, to_fetch) rec" where
  "add_gap key toFetch gap =
     (case rec_get toFetch (range_text gap) of
        None \<Rightarrow> rec_set (range_text gap) (gap, [key]) toFetch
      | Some (_, keys) \<Rightarrow> rec_set (range_text gap) (gap, unique (keys @ [key])) toFetch)"

record read_pass =
  to_fetch :: "(int \<times> int, to_fetch) rec"
  responses :: "(channel_key, series list) rec"

text \<open>One channel of the first pass: the response when nothing is missing, and what is missing.\<close>

definition read_channel :: "cache \<Rightarrow> time_range \<Rightarrow> channel_key \<Rightarrow> read_pass \<Rightarrow> read_pass result" where
  "read_channel c tr key p =
     bind_result (cache_get key c) (\<lambda>u.
       let r = unary_read tr u
       in return \<lparr>to_fetch = foldl (add_gap key) (to_fetch p) (gaps r),
                  responses = (if gaps r = [] then rec_set key (read_series r) (responses p) else responses p)\<rparr>)"

definition first_pass :: "cache \<Rightarrow> time_range \<Rightarrow> channel_key list \<Rightarrow> read_pass result" where
  "first_pass c tr channels = fold_result (read_channel c tr) channels \<lparr>to_fetch = [], responses = []\<rparr>"

definition last_pass :: "cache \<Rightarrow> time_range \<Rightarrow> channel_key list \<Rightarrow> (channel_key, series list) rec \<Rightarrow> (channel_key, series list) rec result" where
  "last_pass c tr channels rs =
     fold_result (\<lambda>key m. bind_result (cache_get key c) (\<lambda>u. return (rec_set key (read_series (unary_read tr u)) m))) channels rs"

section \<open>Batches\<close>

definition GROUP_SPAN :: timespan where "GROUP_SPAN = milliseconds 5"

definition groups_with :: "time_range \<Rightarrow> to_fetch \<Rightarrow> bool" where
  "groups_with tr f \<longleftrightarrow> stamp_span (start (fst f)) (start tr) < GROUP_SPAN \<and> stamp_span (end (fst f)) (end tr) < GROUP_SPAN"

definition group_request :: "to_fetch list \<Rightarrow> to_fetch \<Rightarrow> to_fetch list" where
  "group_request compressed req =
     (case find_index (groups_with (fst req)) compressed of
        None \<Rightarrow> compressed @ [req]
      | Some i \<Rightarrow> compressed[i := (fst (compressed ! i), unique (snd (compressed ! i) @ snd req))])"

definition compress :: "to_fetch list \<Rightarrow> to_fetch list" where
  "compress requests = foldl group_request [] requests"

text \<open>The answer for one channel is written to its cache; a write that throws has changed the cache before.\<close>

definition store_answer :: "timestamp \<Rightarrow> (channel_key \<Rightarrow> series list) \<Rightarrow> channel_key \<Rightarrow> cache \<times> string option \<Rightarrow> cache \<times> string option" where
  "store_answer now frame key ce =
     (case ce of
        (c, Some e) \<Rightarrow> (c, Some e)
      | (c, None) \<Rightarrow>
          (case cache_get key c of
             Inl e \<Rightarrow> (c, Some e)
           | Inr u \<Rightarrow> let (u', e) = writeStatic now (frame key) u in (c\<lparr>entries := rec_set key u' (entries c)\<rparr>, e)))"

definition fetch_group :: "read_remote \<Rightarrow> timestamp \<Rightarrow> cache \<times> string option \<Rightarrow> to_fetch \<Rightarrow> cache \<times> string option" where
  "fetch_group readRemote now ce f =
     (case ce of
        (c, Some e) \<Rightarrow> (c, Some e)
      | (c, None) \<Rightarrow>
          (case readRemote (fst f) (snd f) of
             Inl e \<Rightarrow> (c, Some e)
           | Inr frame \<Rightarrow> fold (store_answer now frame) (snd f) (c, None)))"

text \<open>The cache after the batch, and the error that all its requests are rejected with, if there was one; the queue is empty either way.\<close>

definition batchRead :: "read_remote \<Rightarrow> timestamp \<Rightarrow> to_fetch list \<Rightarrow> cache \<Rightarrow> cache \<times> string option" where
  "batchRead readRemote now requests c = foldl (fetch_group readRemote now) (c, None) (compress requests)"

text \<open>
  \<open>read\<close> after the cache has been populated.  Each request is in a batch of its own or with those of other reads, given by
  \<open>others\<close> for the n-th request of this read.
\<close>

fun fetch_all :: "read_remote \<Rightarrow> timestamp \<Rightarrow> (nat \<Rightarrow> to_fetch list \<times> to_fetch list) \<Rightarrow> nat \<Rightarrow> to_fetch list \<Rightarrow> cache \<Rightarrow> cache \<times> string option" where
  "fetch_all readRemote now others n [] c = (c, None)"
| "fetch_all readRemote now others n (f # fs) c =
     (case batchRead readRemote now (fst (others n) @ [f] @ snd (others n)) c of
        (c', Some e) \<Rightarrow> (c', Some e)
      | (c', None) \<Rightarrow> fetch_all readRemote now others (Suc n) fs c')"

definition reader_read ::
    "read_remote \<Rightarrow> timestamp \<Rightarrow> (nat \<Rightarrow> to_fetch list \<times> to_fetch list) \<Rightarrow> time_range \<Rightarrow> channel_key list \<Rightarrow> cache \<Rightarrow>
     cache \<times> (channel_key, series list) rec result" where
  "reader_read readRemote now others tr channels c =
     (case first_pass c tr channels of
        Inl e \<Rightarrow> (c, throw e)
      | Inr p \<Rightarrow>
          if to_fetch p = [] then (c, return (responses p))
          else case fetch_all readRemote now others 0 (map snd (to_fetch p)) c of
                 (c', Some e) \<Rightarrow> (c', throw e)
               | (c', None) \<Rightarrow> (c', last_pass c' tr channels (responses p)))"

section \<open>No gap is lost\<close>

definition keyed :: "(int \<times> int, to_fetch) rec \<Rightarrow> bool" where
  "keyed m \<longleftrightarrow> (\<forall>t f. rec_get m t = Some f \<longrightarrow> range_text (fst f) = t)"

definition asked :: "(int \<times> int, to_fetch) rec \<Rightarrow> channel_key \<Rightarrow> int \<times> int \<Rightarrow> bool" where
  "asked m key t \<longleftrightarrow> (\<exists>f. rec_get m t = Some f \<and> key \<in> set (snd f))"

definition missing_at :: "cache \<Rightarrow> time_range \<Rightarrow> channel_key \<Rightarrow> int \<times> int \<Rightarrow> bool" where
  "missing_at c tr key t \<longleftrightarrow> (\<exists>u. cache_get key c = Inr u \<and> t \<in> range_text ` set (gaps (unary_read tr u)))"

lemma add_gap_asked: "asked (add_gap key m gap) k t \<longleftrightarrow> asked m k t \<or> k = key \<and> t = range_text gap"
  by (auto simp: asked_def add_gap_def set_unique split: option.splits prod.splits)

lemma add_gap_keyed: "keyed m \<Longrightarrow> keyed (add_gap key m gap)"
  by (auto simp: keyed_def add_gap_def split: option.splits prod.splits)

lemma add_gaps_asked: "asked (foldl (add_gap key) m gs) k t \<longleftrightarrow> asked m k t \<or> k = key \<and> t \<in> range_text ` set gs"
  by (induction gs arbitrary: m) (auto simp: add_gap_asked)

lemma add_gaps_keyed: "keyed m \<Longrightarrow> keyed (foldl (add_gap key) m gs)"
  by (induction gs arbitrary: m) (auto simp: add_gap_keyed)

lemma read_channel_asked:
  assumes "read_channel c tr ch p = Inr p'"
  shows "asked (to_fetch p') k t \<longleftrightarrow> asked (to_fetch p) k t \<or> k = ch \<and> missing_at c tr ch t" "keyed (to_fetch p) \<Longrightarrow> keyed (to_fetch p')"
  using assms by (auto simp: read_channel_def bind_result_eq_Inr Let_def add_gaps_asked add_gaps_keyed missing_at_def)

lemma first_pass_fold:
  assumes "fold_result (read_channel c tr) channels p = Inr q"
  shows "(asked (to_fetch q) k t \<longleftrightarrow> asked (to_fetch p) k t \<or> k \<in> set channels \<and> missing_at c tr k t) \<and> (keyed (to_fetch p) \<longrightarrow> keyed (to_fetch q))"
  using assms
proof (induction channels arbitrary: p)
  case (Cons ch channels)
  then obtain p' where p': "read_channel c tr ch p = Inr p'" "fold_result (read_channel c tr) channels p' = Inr q"
    by (auto simp: bind_result_eq_Inr)
  from Cons.IH [OF p'(2)] read_channel_asked [OF p'(1)] show ?case by auto
qed simp

text \<open>
  C23: The first pass of a read misses no gap and asks for nothing that is not missing: a channel of the read is among those to be fetched at a
  time, to the millisecond, exactly when its cache has a gap there.
\<close>

theorem first_pass_collects_gaps:
  assumes "first_pass c tr channels = Inr p"
  shows "(\<exists>f. rec_get (to_fetch p) t = Some f \<and> key \<in> set (snd f) \<and> range_text (fst f) = t) \<longleftrightarrow>
    key \<in> set channels \<and> (\<exists>u. cache_get key c = Inr u \<and> t \<in> range_text ` set (gaps (unary_read tr u)))"
proof -
  have "asked (to_fetch p) key t \<longleftrightarrow> key \<in> set channels \<and> missing_at c tr key t" "keyed (to_fetch p)"
    using first_pass_fold [OF assms [unfolded first_pass_def], of key t] by (simp_all add: asked_def keyed_def)
  then show ?thesis unfolding asked_def keyed_def missing_at_def by metis
qed

section \<open>Batches serve every request\<close>

definition near :: "time_range \<Rightarrow> time_range \<Rightarrow> bool" where
  "near a b \<longleftrightarrow> \<bar>start a - start b\<bar> < GROUP_SPAN \<and> \<bar>end a - end b\<bar> < GROUP_SPAN"

lemma stamp_span_abs: "stamp_span a b = \<bar>a - b\<bar>"
  by (auto simp: stamp_span_def stamp_range_def range_makeValid_def newTimeRange_def range_span_def range_isValid_def range_swap_def)

lemma group_span_positive: "0 < GROUP_SPAN"
  by code_simp

lemma group_request_serves:
  assumes "(tr, keys) \<in> set compressed"
  shows "\<exists>keys'. (tr, keys') \<in> set (group_request compressed req) \<and> set keys \<subseteq> set keys'"
proof (cases "find_index (groups_with (fst req)) compressed")
  case None
  then show ?thesis using assms by (auto simp: group_request_def)
next
  case (Some i)
  obtain j where j: "j < length compressed" "compressed ! j = (tr, keys)" using assms by (auto simp: in_set_conv_nth)
  show ?thesis
  proof (cases "j = i")
    case True
    then have "(tr, unique (keys @ snd req)) \<in> set (group_request compressed req)"
      using j Some by (simp add: group_request_def set_update_memI)
    then show ?thesis by (auto simp: set_unique)
  next
    case False
    then have "group_request compressed req ! j = (tr, keys)" "j < length (group_request compressed req)"
      using j Some by (simp_all add: group_request_def)
    then have "(tr, keys) \<in> set (group_request compressed req)" using nth_mem by fastforce
    then show ?thesis by blast
  qed
qed

lemma group_request_new: "\<exists>tr' keys'. (tr', keys') \<in> set (group_request compressed req) \<and> near tr' (fst req) \<and> set (snd req) \<subseteq> set keys'"
proof (cases "find_index (groups_with (fst req)) compressed")
  case None
  then have "req \<in> set (group_request compressed req)" by (simp add: group_request_def)
  then show ?thesis using group_span_positive
    by (intro exI [of _ "fst req"] exI [of _ "snd req"]) (simp add: near_def)
next
  case (Some i)
  then have i: "i < length compressed" "groups_with (fst req) (compressed ! i)" by (auto simp: find_index_Some_iff)
  then have "(fst (compressed ! i), unique (snd (compressed ! i) @ snd req)) \<in> set (group_request compressed req)"
    using Some by (simp add: group_request_def set_update_memI)
  moreover have "near (fst (compressed ! i)) (fst req)" using i(2) by (simp add: groups_with_def near_def stamp_span_abs)
  ultimately show ?thesis
    by (intro exI [of _ "fst (compressed ! i)"] exI [of _ "unique (snd (compressed ! i) @ snd req)"]) (simp add: set_unique)
qed

lemma compress_serves:
  assumes "req \<in> set requests"
  shows "\<exists>tr keys. (tr, keys) \<in> set (foldl group_request compressed requests) \<and> near tr (fst req) \<and> set (snd req) \<subseteq> set keys"
  using assms
proof (induction requests rule: rev_induct)
  case (snoc r rs)
  show ?case
  proof (cases "r = req")
    case True
    then show ?thesis using group_request_new by simp
  next
    case False
    then obtain tr keys where k: "(tr, keys) \<in> set (foldl group_request compressed rs)" "near tr (fst req)" "set (snd req) \<subseteq> set keys"
      using snoc by auto
    from group_request_serves [OF k(1), of r] k(2,3) show ?thesis by auto
  qed
qed simp

lemma length_compress: "length (foldl group_request compressed requests) \<le> length compressed + length requests"
proof (induction requests arbitrary: compressed)
  case (Cons r rs)
  have "length (group_request compressed r) \<le> Suc (length compressed)" by (simp add: group_request_def split: option.splits)
  with Cons.IH [of "group_request compressed r"] show ?case by simp
qed simp

text \<open>
  C24: A batch serves all its requests with no more fetches than requests: for each request there is a fetch that covers all its
  channels and starts and ends less than five milliseconds from where the request does.
\<close>

theorem batch_serves_requests:
  assumes "req \<in> set requests"
  shows "length (compress requests) \<le> length requests \<and>
    (\<exists>tr keys. (tr, keys) \<in> set (compress requests) \<and> set (snd req) \<subseteq> set keys \<and>
       \<bar>start tr - start (fst req)\<bar> < milliseconds 5 \<and> \<bar>end tr - end (fst req)\<bar> < milliseconds 5)"
  using compress_serves [OF assms, of "[]"] length_compress [of "[]" requests]
  by (auto simp: compress_def near_def GROUP_SPAN_def)

section \<open>Errors\<close>

lemma fetch_group_stops: "foldl (fetch_group readRemote now) (c, Some e) fs = (c, Some e)"
  by (induction fs) (simp_all add: fetch_group_def)

text \<open>A remote read that throws ends the batch: the groups fetched before it stay in the cache and all requests are rejected.\<close>

lemma batchRead_throws:
  assumes "compress requests = fs @ [f] @ gs" "foldl (fetch_group readRemote now) (c, None) fs = (c', None)" "readRemote (fst f) (snd f) = Inl e"
  shows "batchRead readRemote now requests c = (c', Some e)"
  using assms by (simp add: batchRead_def fetch_group_def fetch_group_stops)

text \<open>A read that the cache satisfies fetches nothing and leaves the cache as it is.\<close>

lemma first_pass_no_gaps:
  assumes "fold_result (read_channel c tr) channels p = Inr q" "to_fetch p = []"
    and "\<And>key u. key \<in> set channels \<Longrightarrow> cache_get key c = Inr u \<Longrightarrow> gaps (unary_read tr u) = []"
  shows "to_fetch q = []"
  using assms
proof (induction channels arbitrary: p)
  case (Cons ch channels)
  then obtain p' where p': "read_channel c tr ch p = Inr p'" "fold_result (read_channel c tr) channels p' = Inr q"
    by (auto simp: bind_result_eq_Inr)
  obtain u where u: "cache_get ch c = Inr u" "to_fetch p' = foldl (add_gap ch) (to_fetch p) (gaps (unary_read tr u))"
    using p'(1) by (auto simp: read_channel_def bind_result_eq_Inr Let_def)
  have "gaps (unary_read tr u) = []" using Cons.prems(3) [OF _ u(1)] by simp
  then have "to_fetch p' = []" using u(2) Cons.prems(2) by simp
  then show ?case by (rule Cons.IH [OF p'(2)]) (rule Cons.prems(3), simp_all)
qed simp

lemma read_satisfied_by_cache:
  assumes "first_pass c tr channels = Inr p" "\<And>key u. key \<in> set channels \<Longrightarrow> cache_get key c = Inr u \<Longrightarrow> gaps (unary_read tr u) = []"
  shows "reader_read readRemote now others tr channels c = (c, return (responses p))"
  using first_pass_no_gaps [OF assms(1) [unfolded first_pass_def] _ assms(2)] assms(1) by (simp add: reader_read_def)

section \<open>Examples\<close>

definition sample_cache :: cache where
  "sample_cache = (newCache None None None)\<lparr>entries :=
     [(3, newUnary \<lparr>dynamicBufferSize = FixedSize 2, dyn_dataType = FLOAT32, clock = of_nat\<rparr> None)]\<rparr>"

theorem first_pass_collects_gaps_witness:
  "\<exists>p f. first_pass sample_cache \<lparr>start = 0, end = 5\<rparr> [3] = Inr p \<and> rec_get (to_fetch p) (range_text \<lparr>start = 0, end = 5\<rparr>) = Some f \<and> 3 \<in> set (snd f)"
proof -
  let ?tr = "\<lparr>start = 0, end = 5\<rparr>"
  obtain u where u: "cache_get 3 sample_cache = Inr u" "gaps (unary_read ?tr u) = [?tr]"
    by (simp add: sample_cache_def cache_get_def newUnary_def unary_read_def dirtyRead_def)
  then obtain p where p: "first_pass sample_cache ?tr [3] = Inr p" by (simp add: first_pass_def read_channel_def Let_def)
  from first_pass_collects_gaps [OF p, of "range_text ?tr" 3] u p show ?thesis by auto
qed

theorem batch_serves_requests_witness:
  "\<exists>tr keys. (tr, keys) \<in> set (compress [(\<lparr>start = 0, end = 100\<rparr>, [1]), (\<lparr>start = 3, end = 101\<rparr>, [2])]) \<and> 2 \<in> set keys"
  using batch_serves_requests [of "(\<lparr>start = 3, end = 101\<rparr>, [2])" "[(\<lparr>start = 0, end = 100\<rparr>, [1]), (\<lparr>start = 3, end = 101\<rparr>, [2])]"] by auto

end
