(* ===== verification/Streamer.thy ===== *)
theory Streamer
  imports Channel_Cache Compare
begin

text \<open>
  The streamer of live telemetry (\<open>pluto/src/telem/client/streamer.ts\<close>) on the streamer of the client
  (\<open>client/ts/src/framer/streamer.ts\<close>): handlers listen to channels, one connection streams the channels that some
  handler listens to, and the frames that arrive are written to the cache and passed on.

  The operations run one after the other, under a mutex, so each is a function of the state; one that throws has changed the state
  before.  What the network does is an argument: whether opening a connection, sending on it and the end of its loop fail.
  A handler is known by a number; whether it throws when it is called is an argument too.
\<close>

section \<open>State\<close>

record listener =
  l_valid :: bool
  l_keys :: "channel_key list"

record frame_streamer =
  fs_keys :: "channel_key list"
  fs_requests :: "channel_key list list"
  fs_closed :: bool

datatype run_loop = NoLoop | Running | Ended "string option"

record streamer =
  listeners :: "(nat, listener) rec"
  remote :: "frame_streamer option"
  run_loop :: run_loop
  stream_closed :: bool

record network =
  open_error :: "string option"
  send_error :: "string option"
  loop_error :: "string option"

definition newStreamer :: streamer where
  "newStreamer = \<lparr>listeners = [], remote = None, run_loop = NoLoop, stream_closed = False\<rparr>"

section \<open>The streamer of the client\<close>

definition open_streamer :: "network \<Rightarrow> channel_key list \<Rightarrow> frame_streamer result" where
  "open_streamer net keys =
     (case open_error net of Some e \<Rightarrow> throw e | None \<Rightarrow> return \<lparr>fs_keys = keys, fs_requests = [keys], fs_closed = False\<rparr>)"

text \<open>The keys of the adapter change before the request is sent.\<close>

definition fs_update :: "network \<Rightarrow> channel_key list \<Rightarrow> frame_streamer \<Rightarrow> frame_streamer \<times> string option" where
  "fs_update net keys fs =
     (let fs1 = fs\<lparr>fs_keys := keys\<rparr>
      in case send_error net of Some e \<Rightarrow> (fs1, Some e) | None \<Rightarrow> (fs1\<lparr>fs_requests := fs_requests fs1 @ [fs_keys fs1]\<rparr>, None))"

definition fs_close :: "frame_streamer \<Rightarrow> frame_streamer" where
  "fs_close fs = fs\<lparr>fs_closed := True\<rparr>"

section \<open>Listeners\<close>

definition wanted_keys :: "streamer \<Rightarrow> channel_key list" where
  "wanted_keys s = unique (concat (map (\<lambda>(_, l). l_keys l) (listeners s)))"

text \<open>Awaiting the loop of a connection that has been closed.\<close>

definition await_loop :: "network \<Rightarrow> streamer \<Rightarrow> streamer \<times> string option" where
  "await_loop net s =
     (case run_loop s of
        NoLoop \<Rightarrow> (s, None)
      | Running \<Rightarrow> (s\<lparr>run_loop := Ended (loop_error net)\<rparr>, loop_error net)
      | Ended e \<Rightarrow> (s, e))"

definition update_remote :: "network \<Rightarrow> channel_key list \<Rightarrow> frame_streamer \<Rightarrow> streamer \<Rightarrow> streamer \<times> string option" where
  "update_remote net keys fs s = (let (fs', e) = fs_update net keys fs in (s\<lparr>remote := Some fs'\<rparr>, e))"

definition updateStreamer :: "network \<Rightarrow> streamer \<Rightarrow> streamer \<times> string option" where
  "updateStreamer net s =
     (if stream_closed s then (s, None)
      else let keys = wanted_keys s
      in if length keys = 0 then
           (case await_loop net (s\<lparr>remote := map_option fs_close (remote s)\<rparr>) of
              (s1, Some e) \<Rightarrow> (s1, Some e)
            | (s1, None) \<Rightarrow> (s1\<lparr>remote := None\<rparr>, None))
         else if primitiveArrays keys (case remote s of None \<Rightarrow> [] | Some fs \<Rightarrow> fs_keys fs) = EQUAL then (s, None)
         else case remote s of
                None \<Rightarrow>
                  (case open_streamer net keys of
                     Inl e \<Rightarrow> (s, Some e)
                   | Inr fs \<Rightarrow> update_remote net keys fs (s\<lparr>remote := Some fs, run_loop := Running\<rparr>))
              | Some fs \<Rightarrow> update_remote net keys fs s)"

text \<open>What a new handler is called with first: the current buffers of its channels.\<close>

definition leading_buffers :: "cache \<Rightarrow> channel_key list \<Rightarrow> (channel_key, series list) rec result" where
  "leading_buffers c keys =
     fold_result (\<lambda>k m. bind_result (cache_get k c) (\<lambda>u.
       return (rec_set k (case unary_leadingBuffer u of Some b \<Rightarrow> [b] | None \<Rightarrow> []) m))) keys []"

text \<open>
  Adding a handler. The cache is populated first, which may be rejected and then changes nothing; otherwise
  \<open>populated\<close> is the cache afterwards. The handler is called with the buffers before the connection
  is updated, so that a handler that throws is kept among the listeners without an update.
\<close>

definition stream ::
    "network \<Rightarrow> cache result \<Rightarrow> ((channel_key, series list) rec \<Rightarrow> string option) \<Rightarrow> nat \<Rightarrow> channel_key list \<Rightarrow> streamer \<Rightarrow> streamer \<times> string option" where
  "stream net populated call handler keys s =
     (case populated of
        Inl e \<Rightarrow> (s, Some e)
      | Inr c \<Rightarrow>
          let s1 = s\<lparr>listeners := rec_set handler \<lparr>l_valid = True, l_keys = keys\<rparr> (listeners s)\<rparr>
          in case leading_buffers c keys of
               Inl e \<Rightarrow> (s1, Some e)
             | Inr dynamicBuffs \<Rightarrow>
                 (case call dynamicBuffs of
                    Some e \<Rightarrow> (s1, Some e)
                  | None \<Rightarrow> updateStreamer net s1))"

text \<open>Removing a handler: it is not called any more at once, and forgotten after a while.\<close>

definition invalidate :: "nat \<Rightarrow> streamer \<Rightarrow> streamer" where
  "invalidate handler s =
     (case rec_get (listeners s) handler of
        None \<Rightarrow> s
      | Some l \<Rightarrow> s\<lparr>listeners := rec_set handler (l\<lparr>l_valid := False\<rparr>) (listeners s)\<rparr>)"

definition forget :: "network \<Rightarrow> nat \<Rightarrow> streamer \<Rightarrow> streamer \<times> string option" where
  "forget net handler s =
     (if rec_has (listeners s) handler then updateStreamer net (s\<lparr>listeners := rec_delete handler (listeners s)\<rparr>) else (s, None))"

definition close_streamer :: "network \<Rightarrow> streamer \<Rightarrow> streamer \<times> string option" where
  "close_streamer net s =
     (case await_loop net (s\<lparr>remote := map_option fs_close (remote s)\<rparr>) of
        (s1, Some e) \<Rightarrow> (s1, Some e)
      | (s1, None) \<Rightarrow> (s1\<lparr>stream_closed := True\<rparr>, None))"

section \<open>Frames\<close>

type_synonym live_frame = "(channel_key \<times> series list) list"

text \<open>The entries of a frame written to the cache, with the buffers each has changed.\<close>

definition unary_props :: "(channel_key \<Rightarrow> data_type) \<Rightarrow> (nat \<Rightarrow> timestamp) \<Rightarrow> cache \<Rightarrow> channel_key \<Rightarrow> dynamic_props" where
  "unary_props types clk c k = \<lparr>dynamicBufferSize = bufferSize (settings c), dyn_dataType = types k, clock = clk\<rparr>"

fun write_frame ::
    "(channel_key \<Rightarrow> data_type) \<Rightarrow> (nat \<Rightarrow> timestamp) \<Rightarrow> timestamp \<Rightarrow> nat \<Rightarrow> live_frame \<Rightarrow> cache \<Rightarrow> (cache \<times> (channel_key \<times> nat list) list) result option" where
  "write_frame types clk now fuel [] c = Some (return (c, []))"
| "write_frame types clk now fuel ((k, ss) # fr) c =
     (case cache_get k c of
        Inl e \<Rightarrow> Some (throw e)
      | Inr u \<Rightarrow>
          (case writeDynamic (unary_props types clk c k) now fuel ss u of
             None \<Rightarrow> None
           | Some (Inl e) \<Rightarrow> Some (throw e)
           | Some (Inr (u', out)) \<Rightarrow>
               map_option (\<lambda>r. bind_result r (\<lambda>(c', changed). return (c', (k, out) # changed)))
                 (write_frame types clk now fuel fr (c\<lparr>entries := rec_set k u' (entries c)\<rparr>))))"

text \<open>The handlers that are called, with what they are told.\<close>

definition notifications :: "(channel_key \<times> nat list) list \<Rightarrow> streamer \<Rightarrow> (nat \<times> (channel_key \<times> nat list) list) list" where
  "notifications changed s =
     List.map_filter (\<lambda>(handler, l).
       if \<not> l_valid l then None
       else let notify = filter (\<lambda>(k, _). k \<in> set (l_keys l)) changed
            in if length notify = 0 then None else Some (handler, foldl (\<lambda>m (k, b). rec_set k b m) [] notify)) (listeners s)"

section \<open>The connection follows the listeners\<close>

datatype stream_op =
    StreamOp network "cache result" "(channel_key, series list) rec \<Rightarrow> string option" nat "channel_key list"
  | InvalidateOp nat
  | ForgetOp network nat
  | CloseOp network

fun stream_step :: "stream_op \<Rightarrow> streamer \<Rightarrow> streamer \<times> string option" where
  "stream_step (StreamOp net populated call h keys) s = stream net populated call h keys s"
| "stream_step (InvalidateOp h) s = (invalidate h s, None)"
| "stream_step (ForgetOp net h) s = forget net h s"
| "stream_step (CloseOp net) s = close_streamer net s"

text \<open>
  Operations during which the network works, the retriever finds the channels that a handler asks for unless it is
  rejected, and the handler does not throw when it is called first.
\<close>

definition net_ok :: "network \<Rightarrow> bool" where
  "net_ok net \<longleftrightarrow> open_error net = None \<and> send_error net = None \<and> loop_error net = None"

fun op_ok :: "stream_op \<Rightarrow> bool" where
  "op_ok (StreamOp net populated call h keys) \<longleftrightarrow> net_ok net \<and>
     (\<forall>c. populated = Inr c \<longrightarrow> list_all (rec_has (entries c)) keys \<and> (\<forall>bufs. leading_buffers c keys = Inr bufs \<longrightarrow> call bufs = None))"
| "op_ok (InvalidateOp h) \<longleftrightarrow> True"
| "op_ok (ForgetOp net h) \<longleftrightarrow> net_ok net"
| "op_ok (CloseOp net) \<longleftrightarrow> net_ok net"

definition in_sync :: "streamer \<Rightarrow> bool" where
  "in_sync s \<longleftrightarrow> (case remote s of
     None \<Rightarrow> wanted_keys s = []
   | Some fs \<Rightarrow> wanted_keys s \<noteq> [] \<and> fs_keys fs = wanted_keys s \<and> fs_requests fs \<noteq> [] \<and> last (fs_requests fs) = wanted_keys s \<and> \<not> fs_closed fs)"

text \<open>A connection that has been told the keys it takes for its own.\<close>

definition streamer_ok :: "streamer \<Rightarrow> bool" where
  "streamer_ok s \<longleftrightarrow> (\<forall>e. run_loop s = Ended e \<longrightarrow> e = None) \<and> (stream_closed s \<or>
     (\<forall>fs. remote s = Some fs \<longrightarrow> fs_keys fs \<noteq> [] \<and> fs_requests fs \<noteq> [] \<and> last (fs_requests fs) = fs_keys fs \<and> \<not> fs_closed fs))"

lemma wanted_keys_cong: "listeners t = listeners s \<Longrightarrow> wanted_keys t = wanted_keys s"
  by (simp add: wanted_keys_def)

lemma wanted_keys_updates [simp]:
  "wanted_keys (s\<lparr>remote := r\<rparr>) = wanted_keys s" "wanted_keys (s\<lparr>remote := r, run_loop := l\<rparr>) = wanted_keys s" "wanted_keys (s\<lparr>run_loop := l\<rparr>) = wanted_keys s"
  by (simp_all add: wanted_keys_def)

lemma updateStreamer_in_sync:
  assumes "net_ok net" "streamer_ok s" "\<not> stream_closed s"
  shows "\<exists>t. updateStreamer net s = (t, None) \<and> streamer_ok t \<and> in_sync t \<and> \<not> stream_closed t \<and> listeners t = listeners s"
proof (cases "wanted_keys s = []")
  case True
  then have "\<exists>t. updateStreamer net s = (t, None) \<and> remote t = None \<and> listeners t = listeners s \<and> \<not> stream_closed t \<and> (\<forall>e. run_loop t = Ended e \<longrightarrow> e = None)"
    using assms by (auto simp: updateStreamer_def Let_def await_loop_def net_ok_def streamer_ok_def split: run_loop.splits)
  then obtain t where t: "updateStreamer net s = (t, None)" "remote t = None" "listeners t = listeners s" "\<not> stream_closed t"
    "\<forall>e. run_loop t = Ended e \<longrightarrow> e = None" by blast
  then show ?thesis using True wanted_keys_cong [OF t(3)] by (simp add: streamer_ok_def in_sync_def)
next
  case False
  show ?thesis
  proof (cases "remote s")
    case None
    have "primitiveArrays (wanted_keys s) [] \<noteq> EQUAL" using False by (simp add: primitiveArrays_equal)
    then show ?thesis using assms False None
      by (simp add: updateStreamer_def Let_def open_streamer_def net_ok_def update_remote_def fs_update_def streamer_ok_def in_sync_def)
  next
    case (Some fs)
    then show ?thesis using assms False
      by (auto simp: updateStreamer_def Let_def net_ok_def update_remote_def fs_update_def streamer_ok_def in_sync_def primitiveArrays_equal)
  qed
qed

lemma leading_buffers_ok: "list_all (rec_has (entries c)) keys \<Longrightarrow> \<exists>m. leading_buffers c keys = Inr m"
proof -
  have "\<exists>m'. fold_result (\<lambda>k m. bind_result (cache_get k c) (\<lambda>u.
       return (rec_set k (case unary_leadingBuffer u of Some b \<Rightarrow> [b] | None \<Rightarrow> []) m))) keys m = Inr m'" if "list_all (rec_has (entries c)) keys" for m
    using that by (induction keys arbitrary: m) (auto simp: cache_get_def rec_has_def)
  then show "list_all (rec_has (entries c)) keys \<Longrightarrow> \<exists>m. leading_buffers c keys = Inr m" by (simp add: leading_buffers_def)
qed

lemma wanted_keys_invalidate: "wanted_keys (invalidate h s) = wanted_keys s"
proof -
  have "concat (map (\<lambda>(_, l). l_keys l) (rec_set h (l\<lparr>l_valid := False\<rparr>) r)) = concat (map (\<lambda>(_, l). l_keys l) r)" if "rec_get r h = Some l" for r :: "(nat, listener) rec" and l
    using that by (induction r) (auto split: if_splits)
  then show ?thesis unfolding invalidate_def wanted_keys_def by (cases "rec_get (listeners s) h") auto
qed

definition follows :: "streamer \<Rightarrow> bool" where
  "follows s \<longleftrightarrow> streamer_ok s \<and> (stream_closed s \<or> in_sync s)"

lemma stream_step_follows:
  assumes "follows s" "op_ok op"
  shows "follows (fst (stream_step op s))"
proof (cases op)
  case (StreamOp net populated call h keys)
  show ?thesis
  proof (cases populated)
    case (Inl e)
    then show ?thesis using assms(1) by (simp add: StreamOp stream_def)
  next
    case (Inr c)
    let ?s = "s\<lparr>listeners := rec_set h \<lparr>l_valid = True, l_keys = keys\<rparr> (listeners s)\<rparr>"
    obtain m where "leading_buffers c keys = Inr m" using leading_buffers_ok [of c keys] assms(2) StreamOp Inr by auto
    then have e: "stream_step op s = updateStreamer net ?s" using assms(2) by (simp add: StreamOp stream_def Inr)
    have ok: "streamer_ok ?s" using assms(1) by (simp add: follows_def streamer_ok_def)
    show ?thesis
    proof (cases "stream_closed s")
      case True
      then show ?thesis using ok by (simp add: e updateStreamer_def follows_def)
    next
      case False
      then obtain t where "updateStreamer net ?s = (t, None)" "streamer_ok t" "in_sync t"
        using updateStreamer_in_sync [OF _ ok, of net] assms(2) StreamOp by auto
      then show ?thesis by (simp only: e fst_conv follows_def simp_thms)
    qed
  qed
next
  case (InvalidateOp h)
  have "remote (invalidate h s) = remote s" "run_loop (invalidate h s) = run_loop s" "stream_closed (invalidate h s) = stream_closed s"
    by (simp_all add: invalidate_def split: option.splits)
  then show ?thesis using assms(1)
    by (cases "remote s") (simp_all add: InvalidateOp follows_def streamer_ok_def in_sync_def wanted_keys_invalidate)
next
  case (ForgetOp net h)
  let ?s = "s\<lparr>listeners := rec_delete h (listeners s)\<rparr>"
  have ok: "streamer_ok ?s" using assms(1) by (simp add: follows_def streamer_ok_def)
  show ?thesis
  proof (cases "stream_closed s \<or> \<not> rec_has (listeners s) h")
    case True
    then show ?thesis using ok assms(1) by (auto simp: ForgetOp forget_def updateStreamer_def follows_def)
  next
    case False
    then show ?thesis using updateStreamer_in_sync [OF _ ok, of net] assms(2) by (auto simp: ForgetOp forget_def follows_def)
  qed
next
  case (CloseOp net)
  then show ?thesis using assms
    by (auto simp: close_streamer_def await_loop_def follows_def streamer_ok_def net_ok_def split: run_loop.splits)
qed

definition run_ops :: "stream_op list \<Rightarrow> streamer" where
  "run_ops ops = foldl (\<lambda>s op. fst (stream_step op s)) newStreamer ops"

lemma run_ops_follows: "list_all op_ok ops \<Longrightarrow> follows (run_ops ops)"
proof -
  have "follows (foldl (\<lambda>s op. fst (stream_step op s)) s ops)" if "follows s" "list_all op_ok ops" for s
    using that by (induction ops arbitrary: s) (auto simp: stream_step_follows)
  moreover have "follows newStreamer" by (simp add: follows_def streamer_ok_def in_sync_def newStreamer_def wanted_keys_def unique_def)
  ultimately show "list_all op_ok ops \<Longrightarrow> follows (run_ops ops)" by (simp add: run_ops_def)
qed


text \<open>
  A request that could not be sent is not sent later either: the client takes the keys for its own before it sends, so that the next update
  finds nothing to change.
\<close>

lemma failed_request_is_not_repeated:
  assumes "remote s = Some fs" "wanted_keys s \<noteq> []" "fs_keys fs \<noteq> wanted_keys s" "\<not> stream_closed s" "send_error net = Some e"
  shows "\<exists>t. updateStreamer net s = (t, Some e) \<and> updateStreamer net' t = (t, None) \<and> map_option fs_requests (remote t) = Some (fs_requests fs)"
  using assms by (auto simp: updateStreamer_def Let_def update_remote_def fs_update_def primitiveArrays_equal)

section \<open>Frames reach the cache\<close>

text \<open>
  The interplay of frames, streamer and cache: the entries of a frame each continue the stream of their channel in the cache.
\<close>

definition continues :: "(channel_key \<Rightarrow> data_type) \<Rightarrow> (nat \<Rightarrow> timestamp) \<Rightarrow> nat \<Rightarrow> cache \<Rightarrow> channel_key \<times> series list \<Rightarrow> bool" where
  "continues types clk fuel c ks \<longleftrightarrow> (\<exists>u a e. rec_get (entries c) (fst ks) = Some u \<and> gl_type (types (fst ks)) \<and>
     sized (unary_props types clk c (fst ks)) (length (snd ks)) (dynamic_part u) \<and> stream_wf (types (fst ks)) u a \<and> contiguous a (snd ks) e \<and>
     (\<forall>s\<in>set (snd ks). series_wf s \<and> dataType s = types (fst ks) \<and> series_length s + 2 \<le> fuel))"

lemma continues_writes:
  assumes "continues types clk fuel c (k, ss)"
  shows "\<exists>u u' bufs. rec_get (entries c) k = Some u \<and> writeDynamic (unary_props types clk c k) now fuel ss u = Some (return (u', bufs)) \<and>
    held u' = held u @ concat (map data ss)"
proof -
  let ?p = "unary_props types clk c k"
  obtain u a e where "rec_get (entries c) k = Some u" and h: "gl_type (dyn_dataType ?p)" "sized ?p (length ss + 0) (dynamic_part u)"
      "stream_wf (dyn_dataType ?p) u a" "contiguous a ss e"
      "\<forall>s\<in>set ss. series_wf s \<and> dataType s = dyn_dataType ?p \<and> series_length s + 2 \<le> fuel"
    using assms by (auto simp: continues_def unary_props_def)
  with writeDynamic_continues [OF h, of now] show ?thesis by blast
qed

lemma continues_other: "k \<noteq> fst ks \<Longrightarrow> continues types clk fuel (c\<lparr>entries := rec_set k u (entries c)\<rparr>) ks = continues types clk fuel c ks"
  by (simp add: continues_def unary_props_def)

text \<open>
  C22: Live data reaches the cache of its channel and nothing else. Let a frame have entries for distinct channels that have cache entries, each with series of
  numbers of the type of its channel, which is float32 or uint8, that continue the stream of the channel, and let the size of the buffers
  of each channel be a positive number for that many writes: a fixed positive size, or (the default) a positive time span with a positive average rate of the
  channel, or a time span and no more than a hundred writes to the channel in all. Then the frame is written without an
  error, the write returns, each channel of it holds what it held followed by the samples of its entry, in order, and channels that are not in the frame
  are untouched.
\<close>

theorem frames_reach_the_cache:
  assumes "distinct (map fst fr)" and "\<forall>ks\<in>set fr. continues types clk fuel c ks"
  shows "\<exists>c' changed. write_frame types clk now fuel fr c = Some (return (c', changed)) \<and> map fst changed = map fst fr \<and>
    (\<forall>k. case rec_get (entries c) k of
       None \<Rightarrow> rec_get (entries c') k = None
     | Some u \<Rightarrow> (\<exists>u'. rec_get (entries c') k = Some u' \<and>
         (case map_of fr k of None \<Rightarrow> u' = u | Some ss \<Rightarrow> held u' = held u @ concat (map data ss))))"
  using assms
proof (induction fr arbitrary: c)
  case Nil
  then show ?case by (auto split: option.splits)
next
  case (Cons ks fr)
  obtain k ss where ks: "ks = (k, ss)" by (cases ks)
  obtain u u' bufs where u: "rec_get (entries c) k = Some u" "writeDynamic (unary_props types clk c k) now fuel ss u = Some (return (u', bufs))"
    "held u' = held u @ concat (map data ss)" using continues_writes [of types clk fuel c k ss now] Cons.prems(2) ks by auto
  let ?c = "c\<lparr>entries := rec_set k u' (entries c)\<rparr>"
  have "\<forall>x\<in>set fr. continues types clk fuel ?c x" using Cons.prems ks by (auto simp: continues_other image_iff)
  then obtain c' changed where c': "write_frame types clk now fuel fr ?c = Some (return (c', changed))" "map fst changed = map fst fr"
    and held': "\<And>x. case rec_get (entries ?c) x of None \<Rightarrow> rec_get (entries c') x = None
     | Some u \<Rightarrow> (\<exists>u'. rec_get (entries c') x = Some u' \<and> (case map_of fr x of None \<Rightarrow> u' = u | Some ss \<Rightarrow> held u' = held u @ concat (map data ss)))"
    using Cons.IH [of ?c] Cons.prems(1) by auto
  have "write_frame types clk now fuel (ks # fr) c = Some (return (c', (k, bufs) # changed))"
    using u(1,2) c'(1) by (simp add: ks cache_get_def)
  moreover have "map_of fr k = None" using Cons.prems(1) ks by (simp add: map_of_eq_None_iff)
  then have "case rec_get (entries c) x of None \<Rightarrow> rec_get (entries c') x = None
     | Some v \<Rightarrow> (\<exists>u'. rec_get (entries c') x = Some u' \<and>
         (case map_of (ks # fr) x of None \<Rightarrow> u' = v | Some ss \<Rightarrow> held u' = held v @ concat (map data ss)))" for x
    using held' [of x] u(1,3) by (cases "x = k"; cases "rec_get (entries c) x"; cases "map_of fr x") (auto simp: ks)
  ultimately show ?case using c'(2) ks by auto
qed

section \<open>Examples\<close>

definition good_net :: network where "good_net = \<lparr>open_error = None, send_error = None, loop_error = None\<rparr>"

definition live_cache :: cache where
  "live_cache = populateMissing (map (\<lambda>k. \<lparr>channel_key = k, channel_dataType = FLOAT32\<rparr>)) of_nat [1, 2]
     (newCache None None None) (newCache None None None)"

lemma live_cache_entry:
  "settings live_cache = settings (newCache None None None)"
  "k \<in> {1, 2} \<Longrightarrow> rec_get (entries live_cache) k = Some (newUnary (unary_props (\<lambda>_. FLOAT32) of_nat live_cache k) None)"
  by (auto simp: live_cache_def populateMissing_def missing_keys_def newCache_def add_channel_def unary_of_def unary_props_def rec_has_def)


theorem frames_reach_the_cache_witness:
  "\<exists>c' changed u. write_frame (\<lambda>_. FLOAT32) of_nat 50 5 [(1, [newSeries FLOAT32 [Num 7, Num 8, Num 9] None (Num 0) StaticUsage 4])] live_cache =
     Some (return (c', changed)) \<and> rec_get (entries c') 1 = Some u \<and> held u = [Num 7, Num 8, Num 9]"
proof -
  let ?fr = "[(1, [newSeries FLOAT32 [Num 7, Num 8, Num 9] None (Num 0) StaticUsage 4])]"
  let ?u = "newUnary (unary_props (\<lambda>_. FLOAT32) of_nat live_cache 1) None"
  have u: "stream_wf FLOAT32 ?u 4" "held ?u = []" "gl_type FLOAT32" "sized (unary_props (\<lambda>_. FLOAT32) of_nat live_cache 1) 1 (dynamic_part ?u)"
    by (simp_all add: unary_props_def stream_wf_def newUnary_def newDynamic_def dynamic_stream_def dynamic_wf_def stream_start_def
        current_list_def static_before_def held_def static_samples_def current_samples_def gl_type_def sized_def live_cache_entry newCache_def MAX_DEF_WRITES_def)
  have g: "rec_get (entries live_cache) 1 = Some ?u" by (simp add: live_cache_entry)
  have "continues (\<lambda>_. FLOAT32) of_nat 5 live_cache (1, [newSeries FLOAT32 [Num 7, Num 8, Num 9] None (Num 0) StaticUsage 4])"
    unfolding continues_def fst_conv snd_conv
    by (rule exI [of _ ?u], rule exI [of _ 4], rule exI [of _ 7], intro conjI g u) (use u(4) in \<open>simp_all add: fixed_types_def\<close>)
  then have "\<exists>c' changed. write_frame (\<lambda>_. FLOAT32) of_nat 50 5 ?fr live_cache = Some (return (c', changed)) \<and> map fst changed = map fst ?fr \<and>
    (\<forall>k. case rec_get (entries live_cache) k of
       None \<Rightarrow> rec_get (entries c') k = None
     | Some u \<Rightarrow> (\<exists>u'. rec_get (entries c') k = Some u' \<and>
         (case map_of ?fr k of None \<Rightarrow> u' = u | Some ss \<Rightarrow> held u' = held u @ concat (map data ss))))"
    by (intro frames_reach_the_cache) simp_all
  then show ?thesis using g u(2) by (auto dest!: spec [of _ 1])
qed

end
