(* ===== verification/Spec2Isabelle.thy ===== *)
theory Spec2Isabelle
  imports Series_Buffers Multi_Series Channel_Cache Mosaic Tree_Nodes Scale Drift_Sync Table_Store Layout_Store Deep_Laws
    Frame_Laws Aether_Changes Connector_Laws Persist_Laws Wire Select Line_Laws Schematic_Laws Schematic_Migrations Grid Triggers Control
    Reader Streamer
begin

text \<open>
  A verification development for the TypeScript packages of Synnax, a telemetry platform: the time
  types, series, spatial types, nested values and migrations of \<open>x/ts\<close>; the telemetry
  caches, reader and streamer, the component tree, mosaic, trees, triggers, selections and diagram
  connectors of \<open>pluto\<close>; channels, frames, control and errors of the \<open>client\<close>
  and \<open>freighter\<close>; the window manager \<open>drift\<close>; and the layouts, tables, line
  plots, schematics and persistence of \<open>console\<close>.

  \<^bold>\<open>The parts of the program and how they interact.\<close> Telemetry arrives from the
  server as series: typed arrays with a data type, a time range and an alignment, the position of the
  first sample in its channel. Live series are written to the dynamic cache of their channel, which
  copies them into buffers that it allocates ahead; a full buffer is flushed to the static cache, which
  also takes the series fetched from the server. The static cache keeps disjoint entries in the order of
  their alignments; it merges new series by an insertion plan over the bounds of its entries, answers a
  read with the series and gaps of a range, and drops entries that are old and unused. Plots read series
  through multi-series and upload them to GL buffers. The user interface arranges its tabs in a mosaic,
  a binary tree, places dialogs with boxes, and maps data to pixels with scales. The window manager
  keeps the state of all windows in a slice that is replicated in every window; a middleware labels and
  emits actions, and the calls that make the runtime follow the state are computed from consecutive
  states. A plot asks the reader for history, which fetches the gaps of the cache in batches, and the
  streamer for live data, which keeps one connection for the channels of all its handlers and writes the
  frames that arrive to the cache. The client finds channels by key or name through a cache and adapts
  frames between keys and names; errors of the server come back typed. Components that draw run in a
  worker, in a tree that the user interface changes by messages. The console keeps what the user arranged
  (layouts, tables, plots, schematics) in slices of one store; an engine persists the store in versions,
  and a migrator brings states of older releases up to date.

  \<^bold>\<open>Theories and sources\<close> (paths under \<open>src/\<close>).

  \<^item> \<open>Prelude\<close>: results of functions that throw, the array operations of the standard
    library, insertion-ordered records, the named collections of unfolding rules.

  \<^item> \<open>Bounds\<close> (\<open>x/ts/src/spatial/bounds/bounds.ts\<close>): half-open bounds
    over an ordered ring, \<open>findInsertPosition\<close>, \<open>buildInsertionPlan\<close>,
    \<open>traverse\<close>, \<open>distance\<close>. The conversion of offsets by \<open>Number\<close> is an argument,
    the identity for numbers and \<open>bigint_to_number\<close> for bigints. Shown: the insertion plan, when applied,
    merges as long as the conversion is exact; traversal and distance measure covered ground.

  \<^item> \<open>Numeric\<close> (\<open>x/ts/src/math/math.ts\<close>): numbers and bigints as one
    type of values, with the coercions of the arithmetic helpers and the rounding of doubles.

  \<^item> \<open>Time_Types\<close> (\<open>x/ts/src/telem/telem.ts\<close>): \<open>TimeStamp\<close>,
    \<open>TimeSpan\<close>, \<open>TimeRange\<close>, \<open>Rate\<close>, \<open>Density\<close> and
    \<open>Size\<close> over integers of nanoseconds. Shown: truncation and its precision, the overlap
    and intersection of ranges, the order of ranges.

  \<^item> \<open>Data_Type\<close> (\<open>telem.ts\<close>): the data types, their densities and
    casts, the conversion of samples. Shown: safe casts are safe, and where conversion is exact.

  \<^item> \<open>Telem_Series\<close>, \<open>Series_Buffers\<close>
    (\<open>x/ts/src/telem/series.ts\<close>): allocation, writes, slices, iterators, binary search,
    memoised extremes, the GL buffer; string series. A series made by \<open>sub\<close> keeps the buffer of the series it
    shares, which is what its GL buffer is given. The locale \<open>indexed_collection\<close> is the
    interface of everything that is read by index.

  \<^item> \<open>Multi_Series\<close> (\<open>series.ts\<close>): the multi-series, an interpretation
    of the same interface; reads by alignment.

  \<^item> \<open>Static_Cache\<close> (\<open>pluto/src/telem/client/cache/static.ts\<close>): the
    entries, writes, dirty reads and garbage collection. The locale \<open>insertion_planner\<close>
    states what the cache needs of a planner, and is interpreted by \<open>buildInsertionPlan\<close> with the rounding
    of bigints, which is exact for entries of at most 2^53 samples.

  \<^item> \<open>Dynamic_Cache\<close> (\<open>dynamic.ts\<close>): buffers, the size of the next
    buffer, writes that overflow a buffer. Shown: no sample is lost or doubled, and the configuration
    for which the write never returns.

  \<^item> \<open>Channel_Cache\<close> (\<open>unary.ts\<close>, \<open>cache.ts\<close>): the caches
    of one channel and of all channels.

  \<^item> \<open>Spatial\<close> (\<open>x/ts/src/spatial\<close>: \<open>base.ts\<close>,
    \<open>direction\<close>, \<open>location\<close>, \<open>xy\<close>, \<open>dimensions\<close>,
    \<open>box\<close>, \<open>position\<close>): coordinates are rationals, and every branch of the
    constructors is a function of its own. Shown: intersection of pixel boxes, centres, placement of
    dialogs.

  \<^item> \<open>Scale\<close> (\<open>spatial/scale/scale.ts\<close>): chains of operations run by one
    interpreter, reversal, transforms, pairs of scales. Shown: reversal inverts chains of translations,
    magnifications and scales, and the transform is the affine map of a chain without inversion.

  \<^item> \<open>Mosaic\<close> (\<open>pluto/src/mosaic/tree.ts\<close>, \<open>types.ts\<close>,
    \<open>pluto/src/tabs\<close>): the tree of tabs. A node that the code mutates through a reference
    is addressed by its path from the root. Shown: insertion adds exactly one tab, removal and garbage
    collection keep the well-formedness of the tree and all other tabs, moves and splits keep all tabs.

  \<^item> \<open>Tree_Nodes\<close> (\<open>pluto/src/tree/core.ts\<close>): trees of resources, with
    nodes addressed by paths in the same way. Shown: what single removals and moves do to the entry (name, data
    and children) of every key, and where several removals and moves to the root go wrong; when the placement of forced positions ends; that
    flattening lists the visible nodes.

  \<^item> \<open>Drift\<close> (\<open>drift/src/state.ts\<close>, \<open>window.ts\<close>,
    \<open>selectors.ts\<close>, \<open>sugar.ts\<close>): a window is a map from properties to values,
    since the code adds and removes properties by spreading objects; each reducer is one function and
    \<open>reducer\<close> the slice. Shown: the invariant of labels and keys over all reachable states,
    what \<open>createWindow\<close> does in each of its branches, how windows close, the round trip of
    emitted actions.

  \<^item> \<open>Drift_Sync\<close> (\<open>sync.ts\<close>, \<open>middleware.ts\<close>,
    \<open>validate.ts\<close>, \<open>configureStore.ts\<close>, \<open>react/hooks.ts\<close>,
    \<open>mock/runtime.ts\<close>): the calls made to the runtime as a list, and a runtime that may reject a call or an
    emission. Shown: the calls bring the
    runtime to the state, the open windows are those of the state, and the stores of all windows agree
    until a runtime fails, when the error becomes that of the window and nothing is emitted.

  \<^item> \<open>Reducer\<close>: the interface of the slices, the locale \<open>action_reducer\<close>. A reducer
    that keeps an invariant keeps it in every state that a store reaches; the slices of layouts, tables,
    line plots, schematics and selections interpret it.

  \<^item> \<open>Js_Text\<close>, \<open>Compare\<close> (\<open>x/ts/src/compare/compare.ts\<close>): splitting of texts and
    decimal numbers; the comparison of arrays, equal exactly as lists, multisets or sets.

  \<^item> \<open>Deep\<close>, \<open>Deep_Laws\<close> (\<open>x/ts/src/deep\<close>): plain JavaScript values, paths into
    them, writes, deletion, merging, equality and differences. Shown: a write is read back and changes
    nothing beside its path, merging takes the later value, and when equal values have no difference.

  \<^item> \<open>Migrate\<close> (\<open>x/ts/src/migrate/migrate.ts\<close>): semantic versions and the migrator.
    Shown: a chain of migrations ends at the latest version, and nothing that goes wrong reaches the caller.

  \<^item> \<open>Table_Slice\<close>, \<open>Table_Grid\<close>, \<open>Table_Clear\<close>, \<open>Table_Copy\<close>,
    \<open>Table_Store\<close> (\<open>console/src/table/slice.ts\<close>): the slice of tables and its laws. Shown:
    tables stay rectangular with exactly the cells of their rows, the region around a cell is its
    connected component, and copying then pasting puts the cells where they were asked for.

  \<^item> \<open>Layout_Slice\<close>, \<open>Layout_Invariant\<close>, \<open>Layout_Store\<close>
    (\<open>console/src/layout/slice.ts\<close>, \<open>types/\<close>): the slice of layouts over the mosaics of the
    windows. Shown: tabs and layouts match in every state reached, and removal removes.

  \<^item> \<open>Line_Plot\<close>, \<open>Line_Laws\<close> (\<open>console/src/lineplot\<close>): the slice of line plots. Shown:
    the lines of a plot are those of its channels and ranges, they keep their settings when channels change,
    and their keys can be read back.

  \<^item> \<open>Schematic\<close>, \<open>Schematic_Laws\<close>, \<open>Schematic_Migrations\<close>
    (\<open>console/src/schematic\<close>): the slice of schematics and its migrations. Shown: snapshots stay locked,
    pasting moves a selection as a whole and keeps its connections and properties, selecting clears other selections, the
    position under the cursor inverts the viewport, and stored schematics survive every migration.

  \<^item> \<open>Persist\<close>, \<open>Persist_Laws\<close> (\<open>console/src/persist\<close>): the engine that stores versions
    of the state. The locale \<open>bounded_history\<close> is the contract of a history with a bound, interpreted by
    the engine over its key-value store. Shown: it refines a list of the last states, and what two reverts do.

  \<^item> \<open>Channel_Client\<close>, \<open>Channel_Laws\<close> (\<open>client/ts/src/channel\<close>): retrieval through
    the cache and in batches, creation, deletion and renaming. Shown: what the cache answers is right,
    each request of a batch gets its answer, and when the index of a calculated channel is found.

  \<^item> \<open>Frame\<close>, \<open>Frame_Laws\<close> (\<open>client/ts/src/framer/frame.ts\<close>, \<open>adapter.ts\<close>):
    frames refine a map from columns to lists of series, and the adapters between names and keys are
    inverse to each other.

  \<^item> \<open>Wire\<close> (\<open>freighter/ts/src/errors.ts\<close>, \<open>client/ts/src/errors.ts\<close>,
    \<open>x/ts/src/url/url.ts\<close>): the registry of errors. Shown: what each payload is decoded to, and which
    errors survive being encoded and decoded.

  \<^item> \<open>Control\<close> (\<open>x/ts/src/control/control.ts\<close>, \<open>client/ts/src/control/state.ts\<close>,
    \<open>pluto/src/telem/control/aether/state.ts\<close>): who controls a channel. Shown: the tracker follows the last
    transfer, and the colors tell subjects apart while the palette is large enough.

  \<^item> \<open>Reader\<close> (\<open>pluto/src/telem/client/reader.ts\<close>): reads of history over the channel cache. Shown:
    no gap is missed, and a batch serves all its requests to within five milliseconds.

  \<^item> \<open>Streamer\<close> (\<open>pluto/src/telem/client/streamer.ts\<close>, \<open>client/ts/src/framer/streamer.ts\<close>):
    live data. What populating the cache and the first call of a handler give are arguments of \<open>stream\<close>. Shown:
    the connection follows the handlers, and frames reach the cache of their channels,
    through the law of the dynamic cache, with buffers of a fixed size or of a time span.

  \<^item> \<open>Aether\<close>, \<open>Aether_Laws\<close>, \<open>Aether_Changes\<close> (\<open>pluto/src/aether\<close>): the tree of
    components in the worker. Shown: contexts are inherited, an update changes one component, a deletion
    removes one branch.

  \<^item> \<open>Connector\<close>, \<open>Connector_Laws\<close> (\<open>pluto/src/vis/diagram/edge\<close>): the segments of an edge
    between two nodes. Shown: a new connector connects, it follows its nodes, when a rendering attaches it again, and when
    dragging keeps its ends.

  \<^item> \<open>Select\<close> (\<open>pluto/src/list/useSelect.ts\<close>), \<open>Triggers\<close> (\<open>pluto/src/triggers\<close>),
    \<open>Grid\<close> (\<open>pluto/src/vis/grid/grid.ts\<close>): selection in lists, keyboard and mouse triggers, and the regions
    around a plot. Shown: what a click with shift selects, that triggers are compared by their keys and the
    held keys form a trigger, that the most specific mode is chosen, and that regions stack without gaps.

  \<^bold>\<open>Errors, fuel and bounds.\<close> A function that throws returns the message as
  \<open>Inl\<close>. Loops are structural recursion or \<open>function\<close> with a measure; the
  garbage collection of a mosaic, which repeats its pass while a node was collected, ends because each
  such pass makes the tree smaller. The write of the dynamic cache takes fuel because it may not return:
  one unit per sample and two more are enough while the size of the buffers is a positive number, and no fuel is enough
  for the configuration named in \<open>Dynamic_Cache\<close>. Nanoseconds are integers, as bigint is
  unbounded; where a value goes through a double, its rounding is written out. Coordinates are
  rationals: rounding of doubles is not modelled there. The search for the region of a table and the removal
  of segments with one orientation have measures; migrations and the resolution of calculated channels take
  the depth of the call stack, and the theorems say which depth is enough; operations of the aether follow
  the path of a component. A reducer that throws leaves the state, which it changes in a draft; an operation
  that throws outside of a reducer returns the state as it has changed it together with the error.

  \<^bold>\<open>Parameters.\<close> The clock, the fresh identifiers of \<open>id.create\<close>, the
  text encoder, the GL controller, the answers of the cluster and failures of the network, the hooks and
  schemas of components, the contents of cells, the keys held down, the comparison of colors and what a
  runtime reports are arguments of the definitions; what a theorem needs of them (fresh labels, for instance) is among its hypotheses.

  \<^bold>\<open>Not modelled.\<close> React components, WebGL and canvas drawing and the schematic
  symbols (pure output); calendar and string parsing of dates, which the engine does; the transports over HTTP
  and WebSocket, timers and debouncing; the Tauri and Electron bindings; zod schemas beyond the types
  they describe; the forms of hardware tasks and the slices that only store records (ranges, workspaces,
  clusters); the server, the storage engine and the drivers, which are written in other languages.
\<close>

end
